(* ===== verification/Prelude.thy ===== *)
theory Prelude
  imports Main "HOL-Library.Word" "HOL-Library.Multiset" "HOL-Library.List_Lexorder" "HOL-Library.Char_ord"
begin

unbundle bit_operations_syntax

text \<open>
  What every component of the development shares: the result type of C++ code that may throw
  or abort, the model of \<open>std::map\<close> (an association list kept strictly ordered by its keys,
  because the server iterates over its maps), the byte type, and the collections of
  rewrite rules the component theories add to.
\<close>

named_theorems omap_simps \<open>lookups in an updated ordered map\<close>
named_theorems queue_simps \<open>effect of the queue operations on each queue\<close>
named_theorems slot_simps \<open>effect of the slot operations\<close>

section \<open>Results\<close>

text \<open>
  \<open>Throw m\<close> is a C++ exception with its message, which a caller may catch;
  \<open>Abort\<close> is a failed \<open>GGML_ASSERT\<close> or a \<open>GGML_ABORT\<close>, which ends the process.
\<close>

datatype failure = Throw string | Abort

type_synonym 'a result = "failure + 'a"

fun rbind :: "'a result \<Rightarrow> ('a \<Rightarrow> 'b result) \<Rightarrow> 'b result" where
  "rbind (Inl e) f = Inl e"
| "rbind (Inr x) f = f x"

lemma rbind_Inr_iff: "rbind r f = Inr y \<longleftrightarrow> (\<exists>x. r = Inr x \<and> f x = Inr y)"
  by (cases r) auto

definition is_ok :: "'a result \<Rightarrow> bool" where
  "is_ok r = (case r of Inl _ \<Rightarrow> False | Inr _ \<Rightarrow> True)"

lemma is_ok_simps [simp]: "is_ok (Inr x)" "\<not> is_ok (Inl e)"
  by (simp_all add: is_ok_def)

lemma rbind_cong [fundef_cong]:
  "r = r' \<Longrightarrow> (\<And>x. r' = Inr x \<Longrightarrow> f x = f' x) \<Longrightarrow> rbind r f = rbind r' f'"
  by (cases r') auto

section \<open>Bytes\<close>

type_synonym byte = "8 word"

definition byte_of :: "char \<Rightarrow> byte" where
  "byte_of c = of_char c"

lemma all_less_8: "(\<forall>n < (8::nat). P n) \<longleftrightarrow> P 0 \<and> P 1 \<and> P 2 \<and> P 3 \<and> P 4 \<and> P 5 \<and> P 6 \<and> P 7"
proof -
  have "n < 8 \<Longrightarrow> n = 0 \<or> n = 1 \<or> n = 2 \<or> n = 3 \<or> n = 4 \<or> n = 5 \<or> n = 6 \<or> n = 7" for n :: nat
    by arith
  then show ?thesis by fastforce
qed

lemma byte_eq_iff: "(a :: byte) = b \<longleftrightarrow> (\<forall>n < 8. bit a n = bit b n)"
  by (simp add: bit_eq_iff)

lemma byte_bit_high: "8 \<le> n \<Longrightarrow> bit (x :: byte) n \<longleftrightarrow> False"
  by (auto dest: bit_imp_le_length)

section \<open>Ordered maps\<close>

text \<open>
  \<open>std::map\<close>: \<open>m[k] = v\<close> is \<open>omap_set\<close>, \<open>m.erase(k)\<close> is \<open>omap_erase\<close>,
  \<open>m.find(k)\<close> is \<open>map_of m k\<close>, and iterating over the map is iterating over the list.
\<close>

fun omap_set :: "'k::linorder \<Rightarrow> 'v \<Rightarrow> ('k \<times> 'v) list \<Rightarrow> ('k \<times> 'v) list" where
  "omap_set k v [] = [(k, v)]"
| "omap_set k v ((k', v') # m) =
     (if k = k' then (k, v) # m
      else if k < k' then (k, v) # (k', v') # m
      else (k', v') # omap_set k v m)"

definition omap_erase :: "'k \<Rightarrow> ('k \<times> 'v) list \<Rightarrow> ('k \<times> 'v) list" where
  "omap_erase k m = filter (\<lambda>e. fst e \<noteq> k) m"

definition omap_ok :: "('k::linorder \<times> 'v) list \<Rightarrow> bool" where
  "omap_ok m = sorted_wrt (<) (map fst m)"

lemma omap_ok_Nil [simp]: "omap_ok []"
  by (simp add: omap_ok_def)

lemma omap_ok_Cons: "omap_ok ((k, v) # m) \<longleftrightarrow> (\<forall>k' \<in> fst ` set m. k < k') \<and> omap_ok m"
  by (simp add: omap_ok_def)

lemma omap_ok_distinct: "omap_ok m \<Longrightarrow> distinct (map fst m)"
  by (simp add: omap_ok_def strict_sorted_iff)

lemma map_of_omap_set [simp, omap_simps]: "map_of (omap_set k v m) k' = (if k' = k then Some v else map_of m k')"
  by (induction k v m rule: omap_set.induct) auto

lemma keys_omap_set [simp]: "fst ` set (omap_set k v m) = insert k (fst ` set m)"
  by (induction k v m rule: omap_set.induct) auto

lemma omap_ok_set: "omap_ok m \<Longrightarrow> omap_ok (omap_set k v m)"
  by (induction k v m rule: omap_set.induct) (auto simp: omap_ok_Cons)

lemma map_of_omap_erase [simp, omap_simps]: "map_of (omap_erase k m) k' = (if k' = k then None else map_of m k')"
  by (induction m) (auto simp: omap_erase_def)

lemma omap_ok_erase: "omap_ok m \<Longrightarrow> omap_ok (omap_erase k m)"
  by (induction m) (auto simp: omap_ok_Cons omap_erase_def)

lemma set_omap_erase: "set (omap_erase k m) = {e \<in> set m. fst e \<noteq> k}"
  by (simp add: omap_erase_def)

lemma omap_set_last:
  "(\<forall>k' \<in> fst ` set m. k' < k) \<Longrightarrow> omap_set k v m = m @ [(k, v)]"
  by (induction k v m rule: omap_set.induct) auto

text \<open>The interface the components use, with the laws they rely on.\<close>

locale ordered_map =
  fixes emp :: "'m" and ins :: "'k::linorder \<Rightarrow> 'v \<Rightarrow> 'm \<Rightarrow> 'm" and del :: "'k \<Rightarrow> 'm \<Rightarrow> 'm"
    and find :: "'m \<Rightarrow> 'k \<Rightarrow> 'v option" and keys :: "'m \<Rightarrow> 'k list" and ok :: "'m \<Rightarrow> bool"
  assumes find_emp: "find emp k = None"
    and find_ins: "find (ins k v m) k' = (if k' = k then Some v else find m k')"
    and find_del: "find (del k m) k' = (if k' = k then None else find m k')"
    and ok_emp: "ok emp"
    and ok_ins: "ok m \<Longrightarrow> ok (ins k v m)"
    and ok_del: "ok m \<Longrightarrow> ok (del k m)"
    and keys_find: "k \<in> set (keys m) \<longleftrightarrow> find m k \<noteq> None"
    and keys_ordered: "ok m \<Longrightarrow> sorted_wrt (<) (keys m)"
begin

lemma find_ins_same: "find (ins k v m) k = Some v"
  by (simp add: find_ins)

lemma find_ins_other: "k' \<noteq> k \<Longrightarrow> find (ins k v m) k' = find m k'"
  by (simp add: find_ins)

lemma find_fold_ins:
  "find (fold (\<lambda>k. ins k (f k)) ks m) k' = (if k' \<in> set ks then Some (f k') else find m k')"
  by (induction ks arbitrary: m) (auto simp: find_ins)

lemma ok_fold_ins: "ok m \<Longrightarrow> ok (fold (\<lambda>k. ins k (f k)) ks m)"
  by (induction ks arbitrary: m) (auto simp: ok_ins)

lemma keys_unique: "ok m \<Longrightarrow> distinct (keys m)"
  using keys_ordered strict_sorted_iff by blast

lemma keys_ins: "set (keys (ins k v m)) = insert k (set (keys m))"
  by (auto simp: keys_find find_ins split: if_splits)

lemma keys_del: "set (keys (del k m)) = set (keys m) - {k}"
  by (auto simp: keys_find find_del split: if_splits)

end

interpretation om: ordered_map "[]" omap_set omap_erase map_of "map fst" omap_ok
proof unfold_locales
  show "sorted_wrt (<) (map fst m)" if "omap_ok m" for m :: "('a \<times> 'b) list"
    using that by (simp add: omap_ok_def)
qed (auto simp: omap_ok_set omap_ok_erase map_of_eq_None_iff)

section \<open>Lists\<close>

lemma list_update_map_same: "map f (xs[i := x]) = (map f xs)[i := f x]"
  by (simp add: map_update)

lemma filter_filter_neq: "x \<notin> set ys \<Longrightarrow> filter (\<lambda>y. y \<noteq> x) ys = ys"
  by (induction ys) auto

end
