(* ===== verification/Strings.thy ===== *)
theory Strings
  imports Prelude
begin

text \<open>
  The operations of \<open>std::string\<close> the server uses: searching, \<open>substr\<close> with its exception, and
  the cut of a text into lines.  Sizes are natural numbers; where an index may be \<open>npos\<close>, the
  wrap-around of \<open>size_t\<close> is written out.
\<close>

section \<open>Numbers\<close>

text \<open>Decimal output.\<close>

fun show_nat :: "nat \<Rightarrow> string" where
  "show_nat n = (if n < 10 then [char_of (48 + n)] else show_nat (n div 10) @ [char_of (48 + n mod 10)])"

declare show_nat.simps [simp del]

definition show_int :: "int \<Rightarrow> string" where
  "show_int i = (if i < 0 then ''-'' @ show_nat (nat (- i)) else show_nat (nat i))"

section \<open>Searching\<close>

text \<open>\<open>text.find(word, from)\<close>: the first occurrence at \<open>from\<close> or behind it.\<close>

definition str_find :: "string \<Rightarrow> string \<Rightarrow> nat \<Rightarrow> nat option" where
  "str_find text word from = find (\<lambda>i. take (length word) (drop i text) = word) [from..<Suc (length text)]"

definition occurs_at :: "string \<Rightarrow> string \<Rightarrow> nat \<Rightarrow> bool" where
  "occurs_at w str i \<longleftrightarrow> take (length w) (drop i str) = w"

definition str_contains :: "string \<Rightarrow> string \<Rightarrow> bool" where
  "str_contains text word = (str_find text word 0 \<noteq> None)"

lemma str_find_Some: "str_find str w from = Some p \<Longrightarrow> from \<le> p \<and> p \<le> length str \<and> occurs_at w str p"
  by (auto simp: str_find_def find_Some_iff occurs_at_def simp del: upt_Suc)

lemma str_find_least: "occurs_at w str i \<Longrightarrow> from \<le> i \<Longrightarrow> i \<le> length str \<Longrightarrow> \<exists>p \<le> i. str_find str w from = Some p"
proof -
  assume a: "occurs_at w str i" "from \<le> i" "i \<le> length str"
  have "str_find str w from \<noteq> None"
    using a by (auto simp: str_find_def find_None_iff occurs_at_def less_Suc_eq_le simp del: upt_Suc)
  then obtain p where p: "str_find str w from = Some p" by blast
  have "p \<le> i"
  proof (rule ccontr)
    assume "\<not> p \<le> i"
    from p obtain k where k: "k < Suc (length str) - from" "p = from + k"
      "\<forall>j < k. take (length w) (drop (from + j) str) \<noteq> w"
      by (auto simp: str_find_def find_Some_iff simp del: upt_Suc)
    then show False
      using a \<open>\<not> p \<le> i\<close> by (force simp: occurs_at_def dest!: spec [of _ "i - from"])
  qed
  with p show ?thesis by blast
qed

lemma str_find_None: "str_find str w from = None \<longleftrightarrow> (\<forall>i. from \<le> i \<and> i \<le> length str \<longrightarrow> \<not> occurs_at w str i)"
  by (metis not_None_eq str_find_Some str_find_least option.distinct(1))

lemma occurs_at_split: "occurs_at w str i \<Longrightarrow> str = take i str @ w @ drop (i + length w) str"
  by (metis append_take_drop_id drop_drop occurs_at_def add.commute)

lemma occurs_at_length: "occurs_at w str i \<Longrightarrow> i \<le> length str \<Longrightarrow> i + length w \<le> length str"
  unfolding occurs_at_def by (drule arg_cong [where f = length]) simp

section \<open>Sizes\<close>

definition npos :: nat where
  "npos = 2 ^ 64 - 1"

definition sz_add :: "nat \<Rightarrow> nat \<Rightarrow> nat" where
  "sz_add a b = (a + b) mod 2 ^ 64"

definition sz_sub :: "nat \<Rightarrow> nat \<Rightarrow> nat" where
  "sz_sub a b = (a + 2 ^ 64 - b) mod 2 ^ 64"

text \<open>For evaluation: the sums are taken over the integers, which have binary numerals.\<close>

lemma sz_add_code [code]: "sz_add a b = nat ((int a + int b) mod 18446744073709551616)"
  by (simp add: sz_add_def nat_mod_as_int)

lemma sz_sub_code [code]:
  "sz_sub a b = nat (if int a + 18446744073709551616 < int b then 0
                     else (int a + 18446744073709551616 - int b) mod 18446744073709551616)"
  by (auto simp: sz_sub_def nat_mod_as_int of_nat_diff not_less)

lemma sz_add_small: "a + b < 2 ^ 64 \<Longrightarrow> sz_add a b = a + b"
  by (simp add: sz_add_def)

lemma sz_sub_small: "b \<le> a \<Longrightarrow> a < 2 ^ 64 \<Longrightarrow> sz_sub a b = a - b"
proof -
  assume "b \<le> a" "a < 2 ^ 64"
  then have "sz_sub a b = (a - b + 2 ^ 64) mod 2 ^ 64"
    unfolding sz_sub_def by (intro arg_cong [where f = "\<lambda>x. x mod 2 ^ 64"]) linarith
  also have "\<dots> = a - b"
    using \<open>a < 2 ^ 64\<close> by (simp only: mod_add_self2) simp
  finally show ?thesis .
qed

text \<open>\<open>s.substr(pos, n)\<close> throws when \<open>pos\<close> is behind the end.\<close>

definition substr :: "string \<Rightarrow> nat \<Rightarrow> nat \<Rightarrow> string result" where
  "substr s pos n =
     (if pos > length s then Inl (Throw ''basic_string::substr: __pos > this->size()'')
      else Inr (take n (drop pos s)))"

definition substr_from :: "string \<Rightarrow> nat \<Rightarrow> string result" where
  "substr_from s pos =
     (if pos > length s then Inl (Throw ''basic_string::substr: __pos > this->size()'') else Inr (drop pos s))"

section \<open>Lines\<close>

definition newline :: char where
  "newline = CHR 0x0A"

text \<open>
  The text up to the first newline, and what is behind the newline if there is one.
\<close>

fun next_line :: "string \<Rightarrow> string \<times> string option" where
  "next_line [] = ([], None)"
| "next_line (c # s) =
     (if c = newline then ([], Some s) else case next_line s of (l, r) \<Rightarrow> (c # l, r))"

lemma next_line_Some: "next_line s = (l, Some rest) \<longleftrightarrow> s = l @ newline # rest \<and> newline \<notin> set l"
proof (induction s arbitrary: l)
  case (Cons c s)
  show ?case
    by (cases "next_line s"; cases l) (use Cons in \<open>auto\<close>)
qed simp

lemma next_line_None: "next_line s = (l, None) \<longleftrightarrow> l = s \<and> newline \<notin> set s"
proof (induction s arbitrary: l)
  case (Cons c s)
  show ?case
    by (cases "next_line s"; cases l) (use Cons in \<open>auto\<close>)
qed auto

lemma next_line_length: "(l, Some rest) = next_line s \<Longrightarrow> length rest < length s"
  using next_line_Some [of s l rest] by simp

text \<open>\<open>std::getline\<close> until the end of the text: a newline at the end of the text opens no further line.\<close>

function getlines :: "string \<Rightarrow> string list" where
  "getlines s = (if s = [] then [] else
     case next_line s of (l, None) \<Rightarrow> [l] | (l, Some rest) \<Rightarrow> l # getlines rest)"
  by pat_completeness auto
termination
  by (relation "measure length") (auto dest: next_line_length)

declare getlines.simps [simp del]

lemma getlines_Nil [simp]: "getlines [] = []"
  by (simp add: getlines.simps)

end
