(* ===== verification/Bytes.thy ===== *)
theory Bytes
  imports Prelude
begin

unbundle bit_operations_syntax

text \<open>
  The byte-level codecs of the server: the base64 decoder of inline media
  (\<open>base64_decode\<close>, server-common.cpp), the two UTF-8 checks that decide what part of the
  generated text may be sent (\<open>validate_utf8\<close>, \<open>is_valid_utf8\<close>), and the percent codecs by
  which the router forwards conversation ids to its children (\<open>encode_qs\<close> in
  server-models.cpp, \<open>decode_path_component\<close> in server-http.cpp).
  The lemmas give the round trips of the codecs with the reference encoder of RFC 4648 and
  with each other, and the agreement of the two UTF-8 checks on every split of a valid text.
\<close>

section \<open>Base64\<close>

definition base64_chars :: string where
  "base64_chars = ''ABCDEFGHIJKLMNOPQRSTUVWXYZabcdefghijklmnopqrstuvwxyz0123456789+/''"

definition is_alnum :: "char \<Rightarrow> bool" where
  "is_alnum c \<longleftrightarrow> CHR ''A'' \<le> c \<and> c \<le> CHR ''Z'' \<or> CHR ''a'' \<le> c \<and> c \<le> CHR ''z'' \<or> CHR ''0'' \<le> c \<and> c \<le> CHR ''9''"

definition is_base64 :: "char \<Rightarrow> bool" where
  "is_base64 c \<longleftrightarrow> is_alnum c \<or> c = CHR ''+'' \<or> c = CHR ''/''"

text \<open>\<open>base64_chars.find(c)\<close> stored in a \<open>uint8_t\<close>: \<open>npos\<close> becomes 255.\<close>

definition base64_find :: "char \<Rightarrow> byte" where
  "base64_find c = (let n = length (takeWhile (\<lambda>x. x \<noteq> c) base64_chars)
                    in if n < length base64_chars then of_nat n else - 1)"

definition base64_group :: "byte \<Rightarrow> byte \<Rightarrow> byte \<Rightarrow> byte \<Rightarrow> byte list" where
  "base64_group a b c d =
     [push_bit 2 a + drop_bit 4 (b AND 0x30),
      push_bit 4 (b AND 0xf) + drop_bit 2 (c AND 0x3c),
      push_bit 6 (c AND 0x3) + d]"

text \<open>
  \<open>char_array_4[0..i)\<close> is the list \<open>buf\<close>; the loop ends at the end of the input, at \<open>=\<close> or
  at a character that is not base64, and returns the bytes and what is left in the buffer.
\<close>

fun base64_loop :: "string \<Rightarrow> string \<Rightarrow> byte list \<Rightarrow> byte list \<times> string" where
  "base64_loop [] buf ret = (ret, buf)"
| "base64_loop (x # xs) buf ret =
     (if x \<noteq> CHR ''='' \<and> is_base64 x then
        (let buf' = buf @ [x]
         in if length buf' = 4
            then base64_loop xs []
                   (ret @ base64_group (base64_find (buf' ! 0)) (base64_find (buf' ! 1))
                            (base64_find (buf' ! 2)) (base64_find (buf' ! 3)))
            else base64_loop xs buf' ret)
      else (ret, buf))"

definition base64_rest :: "string \<Rightarrow> byte list" where
  "base64_rest buf =
     (if buf = [] then []
      else (let a = map base64_find (buf @ replicate (4 - length buf) (CHR 0x00))
            in take (length buf - 1) (base64_group (a ! 0) (a ! 1) (a ! 2) (a ! 3))))"

definition base64_decode :: "string \<Rightarrow> byte list" where
  "base64_decode s = (case base64_loop s [] [] of (ret, buf) \<Rightarrow> ret @ base64_rest buf)"

text \<open>The encoder of RFC 4648, section 4, with padding.\<close>

definition rfc4648_char :: "byte \<Rightarrow> char" where
  "rfc4648_char x = base64_chars ! unat x"

fun rfc4648_encode :: "byte list \<Rightarrow> string" where
  "rfc4648_encode [] = []"
| "rfc4648_encode [a] =
     [rfc4648_char (drop_bit 2 a), rfc4648_char (push_bit 4 (a AND 3)), CHR ''='', CHR ''='']"
| "rfc4648_encode [a, b] =
     [rfc4648_char (drop_bit 2 a), rfc4648_char (push_bit 4 (a AND 3) OR drop_bit 4 b),
      rfc4648_char (push_bit 2 (b AND 0xf)), CHR ''='']"
| "rfc4648_encode (a # b # c # rest) =
     [rfc4648_char (drop_bit 2 a), rfc4648_char (push_bit 4 (a AND 3) OR drop_bit 4 b),
      rfc4648_char (push_bit 2 (b AND 0xf) OR drop_bit 6 c), rfc4648_char (c AND 0x3f)]
     @ rfc4648_encode rest"

lemma base64_alphabet:
  "\<forall>n \<in> set [0..<64]. base64_find (base64_chars ! n) = of_nat n \<and> is_base64 (base64_chars ! n)
     \<and> base64_chars ! n \<noteq> CHR ''=''"
  by code_simp

lemma rfc4648_char_decodes:
  assumes "x < 64"
  shows "base64_find (rfc4648_char x) = x" "is_base64 (rfc4648_char x)" "rfc4648_char x \<noteq> CHR ''=''"
proof -
  have "unat x < 64"
    using assms by (simp add: word_less_nat_alt)
  then have "unat x \<in> set [0..<64]"
    by simp
  with base64_alphabet show "base64_find (rfc4648_char x) = x" "is_base64 (rfc4648_char x)"
    "rfc4648_char x \<noteq> CHR ''=''"
    unfolding rfc4648_char_def by simp_all
qed

lemma less_64_iff: "(x :: byte) < 64 \<longleftrightarrow> \<not> bit x 6 \<and> \<not> bit x 7"
proof -
  have "x < 64 \<longleftrightarrow> take_bit 6 (unat x) = unat x"
    by (simp add: word_less_nat_alt take_bit_nat_eq_self_iff)
  also have "\<dots> \<longleftrightarrow> take_bit 6 x = x"
    by (metis unsigned_take_bit_eq unsigned_word_eqI)
  also have "\<dots> \<longleftrightarrow> \<not> bit x 6 \<and> \<not> bit x 7"
    by (auto simp: byte_eq_iff all_less_8 bit_take_bit_iff)
  finally show ?thesis .
qed

lemma byte_bit_Suc:
  "bit (x :: byte) (Suc (Suc 0)) = bit x 2" "bit x (Suc (Suc (Suc 0))) = bit x 3"
  by (simp_all add: numeral_2_eq_2 numeral_3_eq_3)

lemmas byte_bits = byte_bit_high byte_bit_Suc byte_eq_iff all_less_8 bit_and_iff bit_or_iff bit_push_bit_iff bit_drop_bit_eq
  less_64_iff

lemma plus_disjoint: "(a :: byte) AND b = 0 \<Longrightarrow> a + b = a OR b"
  by (rule disjunctive_add_eq_or)

text \<open>The six-bit groups of the encoder, put back together by \<open>base64_group\<close>.\<close>

lemma base64_sextets_less:
  "drop_bit 2 (a :: byte) < 64" "push_bit 4 (a AND 3) OR drop_bit 4 (b :: byte) < 64"
  "push_bit 2 (b AND 0xf) OR drop_bit 6 (c :: byte) < 64" "c AND 0x3f < 64"
  "push_bit 4 (a AND 3) < 64" "push_bit 2 (b AND 0xf) < 64"
  by (auto simp: byte_bits)

lemma base64_group_1:
  "push_bit 2 (drop_bit 2 a) + drop_bit 4 ((push_bit 4 (a AND 3) OR drop_bit 4 b) AND 0x30) = (a :: byte)"
  "push_bit 2 (drop_bit 2 a) + drop_bit 4 (push_bit 4 (a AND 3) AND 0x30) = (a :: byte)"
  by ((subst plus_disjoint, simp_all add: byte_bits)[1])+

lemma base64_group_2:
  "push_bit 4 ((push_bit 4 (a AND 3) OR drop_bit 4 b) AND 0xf)
     + drop_bit 2 ((push_bit 2 (b AND 0xf) OR drop_bit 6 c) AND 0x3c) = (b :: byte)"
  "push_bit 4 ((push_bit 4 (a AND 3) OR drop_bit 4 b) AND 0xf)
     + drop_bit 2 (push_bit 2 (b AND 0xf) AND 0x3c) = (b :: byte)"
  by ((subst plus_disjoint, simp_all add: byte_bits)[1])+

lemma base64_group_3:
  "push_bit 6 ((push_bit 2 (b AND 0xf) OR drop_bit 6 c) AND 3) + (c AND 0x3f) = (c :: byte)"
  by (subst plus_disjoint; auto simp: byte_bits)

lemma base64_loop_four:
  assumes "list_all (\<lambda>x. is_base64 x \<and> x \<noteq> CHR ''='') [w, x, y, z]"
  shows "base64_loop (w # x # y # z # rest) [] ret =
    base64_loop rest [] (ret @ base64_group (base64_find w) (base64_find x) (base64_find y) (base64_find z))"
  using assms by simp

lemma base64_loop_pad:
  assumes "list_all (\<lambda>x. is_base64 x \<and> x \<noteq> CHR ''='') buf" "length buf < 4"
  shows "base64_loop (buf @ CHR ''='' # rest) [] ret = (ret, buf)"
proof -
  have "list_all (\<lambda>x. is_base64 x \<and> x \<noteq> CHR ''='') ys \<Longrightarrow> length xs + length ys < 4 \<Longrightarrow>
      base64_loop (ys @ CHR ''='' # rest) xs ret = (ret, xs @ ys)" for xs ys
    by (induction ys arbitrary: xs) (auto simp: Let_def)
  from this [of buf "[]"] assms show ?thesis by simp
qed

lemma base64_pad_result:
  assumes "list_all (\<lambda>x. is_base64 x \<and> x \<noteq> CHR ''='') buf" "length buf < 4" "base64_rest buf = bs"
  shows "\<exists>done buf'. base64_loop (buf @ CHR ''='' # rest) [] ret = (ret @ done, buf') \<and> done @ base64_rest buf' = bs"
  using assms base64_loop_pad [of buf rest ret] by auto

lemma base64_rest_short:
  "base64_rest [] = []"
  "base64_rest [x, y] = [push_bit 2 (base64_find x) + drop_bit 4 (base64_find y AND 0x30)]"
  "base64_rest [x, y, z] =
     [push_bit 2 (base64_find x) + drop_bit 4 (base64_find y AND 0x30),
      push_bit 4 (base64_find y AND 0xf) + drop_bit 2 (base64_find z AND 0x3c)]"
  by (simp_all add: base64_rest_def base64_group_def Let_def numeral_eq_Suc)

lemma base64_loop_encode:
  "\<exists>done buf. base64_loop (rfc4648_encode bs) [] ret = (ret @ done, buf) \<and> done @ base64_rest buf = bs"
proof (induction bs arbitrary: ret rule: rfc4648_encode.induct)
  case 1
  then show ?case by (simp add: base64_rest_short)
next
  case (2 a)
  show ?case
    using base64_pad_result [of "[rfc4648_char (drop_bit 2 a), rfc4648_char (push_bit 4 (a AND 3))]" "[a]" "''=''" ret]
    by (simp only: rfc4648_encode.simps append_Cons append_Nil base64_rest_short rfc4648_char_decodes
        base64_sextets_less base64_group_1 list.pred_inject list.size not_False_eq_True simp_thms)
next
  case (3 a b)
  show ?case
    using base64_pad_result [of "[rfc4648_char (drop_bit 2 a), rfc4648_char (push_bit 4 (a AND 3) OR drop_bit 4 b),
        rfc4648_char (push_bit 2 (b AND 0xf))]" "[a, b]" "[]" ret]
    by (simp only: rfc4648_encode.simps append_Cons append_Nil base64_rest_short rfc4648_char_decodes
        base64_sextets_less base64_group_1 base64_group_2 list.pred_inject list.size not_False_eq_True simp_thms)
next
  case (4 a b c rest)
  obtain d buf where *: "base64_loop (rfc4648_encode rest) [] (ret @ [a, b, c]) = (ret @ [a, b, c] @ d, buf)"
    "d @ base64_rest buf = rest"
    using 4 [of "ret @ [a, b, c]"] by auto
  have "base64_loop (rfc4648_encode (a # b # c # rest)) [] ret
      = base64_loop (rfc4648_encode rest) [] (ret @ [a, b, c])"
    unfolding rfc4648_encode.simps append_Cons append_Nil
    by (subst base64_loop_four)
      (simp_all only: list.pred_inject rfc4648_char_decodes base64_sextets_less base64_group_def
        base64_group_1 base64_group_2 base64_group_3 simp_thms not_False_eq_True)
  then show ?case
    using * by (intro exI [of _ "[a, b, c] @ d"] exI [of _ buf]) simp
qed

section \<open>UTF-8\<close>

text \<open>
  The test that \<open>validate_utf8\<close> makes of the byte \<open>i\<close> places before the end: a lead byte
  of a sequence that needs more than \<open>i\<close> bytes.
\<close>

definition utf8_cut :: "byte \<Rightarrow> nat \<Rightarrow> bool" where
  "utf8_cut c i =
     (if c AND 0xE0 = 0xC0 then i < 2
      else if c AND 0xF0 = 0xE0 then i < 3
      else if c AND 0xF8 = 0xF0 then i < 4
      else False)"

definition validate_utf8 :: "string \<Rightarrow> nat" where
  "validate_utf8 text =
     (let len = length text
      in if len = 0 then 0
         else (case find (\<lambda>i. i \<le> len \<and> utf8_cut (byte_of (text ! (len - i))) i) [1, 2, 3, 4] of
                 Some i \<Rightarrow> len - i
               | None \<Rightarrow> len))"

definition utf8_cont :: "char \<Rightarrow> bool" where
  "utf8_cont c \<longleftrightarrow> byte_of c AND 0xC0 = 0x80"

text \<open>The pointer walk, with \<open>end - bytes\<close> the length of the remaining list.\<close>

function is_valid_utf8 :: "string \<Rightarrow> bool" where
  "is_valid_utf8 [] = True"
| "is_valid_utf8 (c # cs) =
     (let b = byte_of c; rest = c # cs
      in if b \<le> 0x7F then is_valid_utf8 cs
         else if b AND 0xE0 = 0xC0 then
           (if length rest < 2 \<or> \<not> utf8_cont (rest ! 1) then False else is_valid_utf8 (drop 2 rest))
         else if b AND 0xF0 = 0xE0 then
           (if length rest < 3 \<or> \<not> utf8_cont (rest ! 1) \<or> \<not> utf8_cont (rest ! 2) then False
            else is_valid_utf8 (drop 3 rest))
         else if b AND 0xF8 = 0xF0 then
           (if length rest < 4 \<or> \<not> utf8_cont (rest ! 1) \<or> \<not> utf8_cont (rest ! 2) \<or> \<not> utf8_cont (rest ! 3)
            then False else is_valid_utf8 (drop 4 rest))
         else False)"
  by pat_completeness auto
termination
  by (relation "measure length") auto

declare is_valid_utf8.simps(2) [simp del]

text \<open>How many bytes a lead byte announces, and the texts that are one sequence.\<close>

definition utf8_need :: "byte \<Rightarrow> nat" where
  "utf8_need b =
     (if b \<le> 0x7F then 1
      else if b AND 0xE0 = 0xC0 then 2
      else if b AND 0xF0 = 0xE0 then 3
      else if b AND 0xF8 = 0xF0 then 4
      else 0)"

definition utf8_seq :: "string \<Rightarrow> bool" where
  "utf8_seq u \<longleftrightarrow> u \<noteq> [] \<and> length u = utf8_need (byte_of (hd u)) \<and> list_all utf8_cont (tl u)"

lemma le_7F_iff: "(x :: byte) \<le> 0x7F \<longleftrightarrow> \<not> bit x 7"
proof -
  have "x \<le> 0x7F \<longleftrightarrow> unat x < 2 ^ 7"
    by (simp add: word_le_nat_alt less_Suc_eq_le [symmetric])
  also have "\<dots> \<longleftrightarrow> take_bit 7 x = x"
    by (metis take_bit_nat_eq_self_iff unsigned_take_bit_eq unsigned_word_eqI)
  also have "\<dots> \<longleftrightarrow> \<not> bit x 7"
    by (auto simp: byte_eq_iff all_less_8 bit_take_bit_iff)
  finally show ?thesis .
qed

lemma utf8_cut_need: "utf8_cut b i \<longleftrightarrow> 1 < utf8_need b \<and> i < utf8_need b"
proof -
  have "b \<le> 0x7F \<Longrightarrow> b AND 0xE0 \<noteq> 0xC0 \<and> b AND 0xF0 \<noteq> 0xE0 \<and> b AND 0xF8 \<noteq> 0xF0"
    by (simp add: le_7F_iff byte_bits)
  then show ?thesis
    by (auto simp: utf8_cut_def utf8_need_def)
qed

lemma is_valid_utf8_Cons:
  "is_valid_utf8 (c # cs) \<longleftrightarrow>
     (let n = utf8_need (byte_of c)
      in 0 < n \<and> n \<le> length (c # cs) \<and> list_all utf8_cont (take (n - 1) cs) \<and> is_valid_utf8 (drop n (c # cs)))"
  unfolding is_valid_utf8.simps(2)
  by (cases cs; cases "tl cs"; cases "tl (tl cs)") (auto simp: utf8_need_def Let_def)

text \<open>A text is valid when it is a sequence of complete UTF-8 sequences.\<close>

lemma is_valid_utf8_concat: "is_valid_utf8 s \<longleftrightarrow> (\<exists>us. list_all utf8_seq us \<and> s = concat us)"
proof
  show "is_valid_utf8 s \<Longrightarrow> \<exists>us. list_all utf8_seq us \<and> s = concat us"
  proof (induction s rule: length_induct)
    case (1 s)
    show ?case
    proof (cases s)
      case Nil
      then show ?thesis by (intro exI [of _ "[]"]) simp
    next
      case (Cons c cs)
      let ?n = "utf8_need (byte_of c)"
      have n: "0 < ?n" "?n \<le> length s" "list_all utf8_cont (take (?n - 1) cs)" "is_valid_utf8 (drop ?n s)"
        using 1(2) unfolding Cons is_valid_utf8_Cons by (simp_all add: Let_def)
      then obtain us where us: "list_all utf8_seq us" "drop ?n s = concat us"
        using 1(1) by (metis diff_less length_drop length_greater_0_conv list.discI local.Cons)
      have "utf8_seq (take ?n s)"
        using n unfolding utf8_seq_def Cons by (auto simp: take_Cons' hd_append)
      with us show ?thesis
        by (intro exI [of _ "take ?n s # us"]) (simp, metis append_take_drop_id)
    qed
  qed
next
  have "list_all utf8_seq us \<Longrightarrow> is_valid_utf8 (concat us)" for us
  proof (induction us)
    case (Cons u us)
    then obtain c cs where u: "u = c # cs" by (cases u) (auto simp: utf8_seq_def)
    with Cons have "utf8_need (byte_of c) = Suc (length cs)" "list_all utf8_cont cs"
      "is_valid_utf8 (concat us)"
      by (auto simp: utf8_seq_def)
    then show ?case
      by (simp add: u is_valid_utf8_Cons)
  qed simp
  then show "\<exists>us. list_all utf8_seq us \<and> s = concat us \<Longrightarrow> is_valid_utf8 s"
    by blast
qed

text \<open>The byte \<open>i\<close> places before the end of a text is an unfinished lead byte.\<close>

definition cut_at :: "string \<Rightarrow> nat \<Rightarrow> bool" where
  "cut_at s i \<longleftrightarrow> 0 < i \<and> i \<le> length s \<and> utf8_cut (byte_of (s ! (length s - i))) i"

lemma cut_at_less_4: "cut_at s i \<Longrightarrow> i < 4"
  by (auto simp: cut_at_def utf8_cut_need utf8_need_def split: if_splits)

lemma cut_at_Nil [simp]: "\<not> cut_at [] i"
  by (auto simp: cut_at_def)

lemma cut_at_append: "i \<le> length s \<Longrightarrow> cut_at (u @ s) i \<longleftrightarrow> cut_at s i"
  by (auto simp: cut_at_def nth_append)

lemma utf8_cont_need: "utf8_cont c \<Longrightarrow> utf8_need (byte_of c) = 0"
proof -
  assume "utf8_cont c"
  then have "bit (byte_of c) 7" "\<not> bit (byte_of c) 6"
    by (auto simp: utf8_cont_def byte_bits)
  then show ?thesis
    by (auto simp: utf8_need_def le_7F_iff byte_bits)
qed

lemma seq_not_cut:
  assumes "utf8_seq u" "\<And>i. \<not> cut_at s i"
  shows "\<not> cut_at (u @ s) i"
proof
  assume *: "cut_at (u @ s) i"
  then have i: "length s < i" "i \<le> length u + length s"
    using assms(2) by (metis cut_at_append not_le, simp add: cut_at_def)
  define k where "k = length u + length s - i"
  have k: "k < length u" "i = length u + length s - k"
    using i by (auto simp: k_def)
  have "utf8_cut (byte_of (u ! k)) i"
    using * k(1) unfolding cut_at_def by (metis k_def length_append nth_append)
  then have need: "1 < utf8_need (byte_of (u ! k))" "i < utf8_need (byte_of (u ! k))"
    by (simp_all add: utf8_cut_need)
  show False
  proof (cases k)
    case 0
    then show False
      using assms(1) need k by (auto simp: utf8_seq_def hd_conv_nth)
  next
    case (Suc k')
    then have "utf8_cont (u ! k)"
      using assms(1) k by (auto simp: utf8_seq_def list_all_length nth_tl)
    then show False
      using need by (simp add: utf8_cont_need)
  qed
qed

lemma concat_not_cut: "list_all utf8_seq us \<Longrightarrow> \<not> cut_at (concat us) i"
  by (induction us arbitrary: i) (simp_all add: seq_not_cut)

text \<open>\<open>validate_utf8\<close> in terms of \<open>cut_at\<close>.\<close>

lemma validate_utf8_find:
  "validate_utf8 s = (case find (cut_at s) [1, 2, 3, 4] of Some i \<Rightarrow> length s - i | None \<Rightarrow> length s)"
  by (auto simp: validate_utf8_def Let_def cut_at_def)

lemma validate_utf8_no_cut: "(\<And>i. \<not> cut_at s i) \<Longrightarrow> validate_utf8 s = length s"
  by (simp add: validate_utf8_find)

lemma validate_utf8_cut:
  assumes "cut_at s i" "\<And>j. j < i \<Longrightarrow> \<not> cut_at s j"
  shows "validate_utf8 s = length s - i"
proof -
  have "i \<in> {1, 2, 3}"
    using cut_at_less_4 [OF assms(1)] assms(1) by (auto simp: cut_at_def)
  then have "find (cut_at s) [1, 2, 3, 4] = Some i"
    using assms by auto
  then show ?thesis
    by (simp add: validate_utf8_find)
qed

lemma validate_utf8_valid: "is_valid_utf8 s \<Longrightarrow> validate_utf8 s = length s"
  by (metis concat_not_cut is_valid_utf8_concat validate_utf8_no_cut)

text \<open>A sequence whose tail is missing is cut off exactly at its lead byte.\<close>

lemma validate_utf8_partial:
  assumes "p \<noteq> []" "utf8_seq (p @ q)" "q \<noteq> []" 
  shows "validate_utf8 (t @ p) = length t"
proof -
  have need: "utf8_need (byte_of (hd p)) = length p + length q" and conts: "list_all utf8_cont (tl p)"
    using assms by (auto simp: utf8_seq_def)
  have at: "(t @ p) ! (length (t @ p) - i) = p ! (length p - i)" if "i \<le> length p" for i
    using that nth_append_length_plus [of t p "length p - i"] by simp
  have "cut_at (t @ p) (length p)"
    using assms need at [of "length p"]
    by (cases p; cases q) (auto simp: cut_at_def utf8_cut_need hd_conv_nth nth_append)
  moreover have "\<not> cut_at (t @ p) j" if "j < length p" for j
  proof
    assume *: "cut_at (t @ p) j"
    then have "0 < j" by (simp add: cut_at_def)
    then have "utf8_cont (p ! (length p - j))"
      using conts that
      by (auto simp: list_all_length nth_tl Suc_diff_Suc dest!: spec [of _ "length p - j - 1"])
    then show False
      using * that at [of j] by (simp add: cut_at_def utf8_cut_need utf8_cont_need)
  qed
  ultimately show ?thesis
    using validate_utf8_cut [of "t @ p" "length p"] by simp
qed

lemma concat_append_split:
  assumes "list_all utf8_seq us" "concat us = s @ rest"
  shows "\<exists>vs p q. list_all utf8_seq vs \<and> s = concat vs @ p \<and> (p = [] \<or> q \<noteq> [] \<and> utf8_seq (p @ q))"
  using assms
proof (induction us arbitrary: s)
  case Nil
  then show ?case by (intro exI [of _ "[]"]) simp
next
  case (Cons u us)
  from Cons.prems(2) have "u @ concat us = s @ rest" by simp
  then obtain w where "u = s @ w \<and> w @ concat us = rest \<or> u @ w = s \<and> concat us = w @ rest"
    by (metis append_eq_append_conv2)
  then have "s = u @ w \<and> w @ rest = concat us \<or> s @ w = u \<and> w \<noteq> []"
    by (cases "w = []") auto
  then show ?case
  proof (elim disjE conjE)
    assume w: "s = u @ w" "w @ rest = concat us"
    then obtain vs p q where "list_all utf8_seq vs" "w = concat vs @ p" "p = [] \<or> q \<noteq> [] \<and> utf8_seq (p @ q)"
      using Cons.IH [of w] Cons.prems(1) w(2) [symmetric] by auto
    with w Cons.prems show ?thesis
      by (intro exI [of _ "u # vs"] exI [of _ p] exI [of _ q]) simp
  next
    assume "s @ w = u" "w \<noteq> []"
    with Cons.prems show ?thesis
      by (intro exI [of _ "[]"] exI [of _ s] exI [of _ w]) simp
  qed
qed

section \<open>Percent encoding\<close>

definition qs_safe :: "char \<Rightarrow> bool" where
  "qs_safe c \<longleftrightarrow> is_alnum c \<or> c = CHR ''-'' \<or> c = CHR ''_'' \<or> c = CHR ''.'' \<or> c = CHR ''~''"

text \<open>One digit of \<open>%02X\<close>.\<close>

definition upper_hex :: "nat \<Rightarrow> char" where
  "upper_hex n = ''0123456789ABCDEF'' ! n"

fun encode_qs :: "string \<Rightarrow> string" where
  "encode_qs [] = []"
| "encode_qs (c # cs) =
     (if qs_safe c then c # encode_qs cs
      else CHR ''%'' # upper_hex (of_char c div 16) # upper_hex (of_char c mod 16) # encode_qs cs)"

definition hex_val :: "char \<Rightarrow> int" where
  "hex_val c =
     (if CHR ''0'' \<le> c \<and> c \<le> CHR ''9'' then of_char c - 48
      else if CHR ''a'' \<le> c \<and> c \<le> CHR ''f'' then of_char c - 97 + 10
      else if CHR ''A'' \<le> c \<and> c \<le> CHR ''F'' then of_char c - 65 + 10
      else -1)"

fun decode_path_component :: "string \<Rightarrow> string" where
  "decode_path_component (c # h # l # rest) =
     (if c = CHR ''%'' \<and> hex_val h \<ge> 0 \<and> hex_val l \<ge> 0
      then char_of (hex_val h * 16 + hex_val l) # decode_path_component rest
      else c # decode_path_component (h # l # rest))"
| "decode_path_component (c # cs) = c # decode_path_component cs"
| "decode_path_component [] = []"

lemma hex_val_upper: "n < 16 \<Longrightarrow> hex_val (upper_hex n) = int n"
proof -
  have "\<forall>n \<in> set [0..<16]. hex_val (upper_hex n) = int n" by code_simp
  then show "n < 16 \<Longrightarrow> hex_val (upper_hex n) = int n" by simp
qed

lemma of_char_less: "(of_char c :: nat) < 256"
  using nat_of_char_less_256 [of c] by simp

lemma decode_escape:
  "decode_path_component (CHR ''%'' # upper_hex (of_char c div 16) # upper_hex (of_char c mod 16) # rest)
     = c # decode_path_component rest"
proof -
  have "(of_char c :: nat) div 16 < 16"
    using of_char_less [of c] by (simp add: less_mult_imp_div_less)
  moreover have "char_of (int (of_char c div 16) * 16 + int (of_char c mod 16)) = c"
    by (metis char_of_char div_mult_mod_eq of_nat_add of_nat_mult of_nat_numeral of_nat_of_char)
  ultimately show ?thesis
    by (simp add: hex_val_upper)
qed

lemma decode_no_percent: "c \<noteq> CHR ''%'' \<Longrightarrow> decode_path_component (c # cs) = c # decode_path_component cs"
  by (cases "c # cs" rule: decode_path_component.cases) auto

section \<open>Request format aliases\<close>

text \<open>\<open>path_to_gcp_format\<close>: the leading version prefix and slash, then the camel case walk.\<close>

definition to_upper :: "char \<Rightarrow> char" where
  "to_upper c = (if CHR ''a'' \<le> c \<and> c \<le> CHR ''z'' then char_of (of_char c - 32 :: nat) else c)"

fun gcp_camel :: "bool \<Rightarrow> string \<Rightarrow> string" where
  "gcp_camel cap [] = []"
| "gcp_camel cap (c # cs) =
     (if c = CHR '':'' then []
      else if c = CHR ''/'' \<or> c = CHR ''-'' \<or> c = CHR ''_'' then gcp_camel True cs
      else (if cap then to_upper c else c) # gcp_camel False cs)"

definition path_to_gcp_format :: "string \<Rightarrow> string" where
  "path_to_gcp_format path =
     (let s = (if length path > 3 \<and> path ! 0 = CHR ''/'' \<and> path ! 1 = CHR ''v'' \<and> path ! 2 = CHR ''1''
               then drop 3 path else path);
          s = (if s \<noteq> [] \<and> s ! 0 = CHR ''/'' then drop 1 s else s)
      in gcp_camel False s)"

section \<open>Properties\<close>

text \<open>
  Decoding a base64 text written by the encoder of RFC 4648 gives back exactly
  the encoded bytes, for every length (all three paddings).
\<close>

theorem base64_decode_encode: "base64_decode (rfc4648_encode bs) = bs"
proof -
  obtain d buf where "base64_loop (rfc4648_encode bs) [] [] = (d, buf)" "d @ base64_rest buf = bs"
    using base64_loop_encode [of bs "[]"] by auto
  then show ?thesis
    by (simp add: base64_decode_def)
qed

text \<open>
  Cut a valid UTF-8 text anywhere: the prefix of the first part that
  \<open>validate_utf8\<close> lets through is itself valid UTF-8, and at most three bytes are held back.
\<close>

theorem validate_utf8_split:
  "is_valid_utf8 (s @ rest) \<Longrightarrow>
     is_valid_utf8 (take (validate_utf8 s) s) \<and> length s < validate_utf8 s + 4"
proof -
  assume "is_valid_utf8 (s @ rest)"
  then obtain us where "list_all utf8_seq us" "concat us = s @ rest"
    by (metis is_valid_utf8_concat)
  then obtain vs p q where vs: "list_all utf8_seq vs" "s = concat vs @ p" "p = [] \<or> q \<noteq> [] \<and> utf8_seq (p @ q)"
    using concat_append_split by blast
  have len: "utf8_need b \<le> 4" for b
    by (simp add: utf8_need_def)
  show ?thesis
  proof (cases "p = []")
    case True
    then show ?thesis
      using vs by (metis append_Nil2 is_valid_utf8_concat less_add_same_cancel1 order_refl
          take_all_iff validate_utf8_valid zero_less_numeral)
  next
    case False
    then have "validate_utf8 s = length (concat vs)"
      using vs validate_utf8_partial by blast
    moreover have "length p < 4"
      using vs(3) False len [of "byte_of (hd (p @ q))"] by (cases q) (auto simp: utf8_seq_def)
    ultimately show ?thesis
      using vs by (auto simp: is_valid_utf8_concat)
  qed
qed

text \<open>The text is the two bytes of U+00E9 and a half of the next U+00E9.\<close>

theorem validate_utf8_split_witness:
  "is_valid_utf8 (take (validate_utf8 [CHR 0xC3, CHR 0xA9, CHR 0xC3]) [CHR 0xC3, CHR 0xA9, CHR 0xC3])
     \<and> length [CHR 0xC3, CHR 0xA9, CHR 0xC3] < validate_utf8 [CHR 0xC3, CHR 0xA9, CHR 0xC3] + 4"
proof -
  have "is_valid_utf8 ([CHR 0xC3, CHR 0xA9, CHR 0xC3] @ [CHR 0xA9])" by code_simp
  then show ?thesis by (rule validate_utf8_split)
qed

text \<open>
  The comment of \<open>validate_utf8\<close> says that a text is valid when the result is its size;
  the check only looks for a truncated last sequence.
\<close>

theorem validate_utf8_accepts_invalid:
  "validate_utf8 [CHR 0xFF] = length [CHR 0xFF] \<and> \<not> is_valid_utf8 [CHR 0xFF]"
  by code_simp

text \<open>
  A conversation id that the router percent-encodes into a path comes out of
  the child's decoder unchanged, whatever bytes it holds.
\<close>

theorem decode_encode_qs: "decode_path_component (encode_qs s) = s"
proof (induction s)
  case (Cons c s)
  have "qs_safe c \<Longrightarrow> c \<noteq> CHR ''%''"
    by (auto simp: qs_safe_def is_alnum_def)
  with Cons show ?case
    by (cases "qs_safe c") (simp_all only: encode_qs.simps decode_escape decode_no_percent if_True if_False simp_thms)
qed simp

end
