(* ===== verification/Tokens.thy ===== *)
theory Tokens
  imports Strings
begin

unbundle bit_operations_syntax

text \<open>
  \<open>server_tokens\<close> (server-common.h, server-common.cpp): the prompt of a slot, a token list in
  which \<open>LLAMA_TOKEN_NULL\<close> marks the cells of a media chunk, together with the ordered map
  from the start index of each chunk to the chunk.  The chunks themselves belong to the
  multimodal library: they are values of the type parameter \<open>'c\<close>, and the library functions
  the code calls on them are the fields of the record \<open>mtmd\<close>.

  The reference view is a list of segments (a text token or a whole chunk).  The lemmas relate
  every operation to that view: \<open>validate\<close> accepts exactly the layouts of segment lists,
  \<open>get_common_prefix\<close> computes the common segment prefix, the position loops end and add up
  the positions of the segments, \<open>serialize\<close> and \<open>deserialize\<close> are inverse.
  Positions (\<open>llama_pos\<close>) are unbounded integers here; the code keeps them in 32 bits.
\<close>

section \<open>Data\<close>

type_synonym llama_token = "32 word"

definition LLAMA_TOKEN_NULL :: llama_token where
  "LLAMA_TOKEN_NULL = - 1"

datatype chunk_type = CHUNK_TEXT | CHUNK_IMAGE | CHUNK_AUDIO | CHUNK_OTHER

text \<open>
  \<open>chunk_save\<close> is \<open>None\<close> when \<open>mtmd_input_chunk_save\<close> returns an error, \<open>chunk_load\<close> and
  \<open>chunk_placeholder\<close> are \<open>None\<close> when the library returns a null pointer.
\<close>

record 'c mtmd =
  chunk_type_of :: "'c \<Rightarrow> chunk_type"
  chunk_n_tokens :: "'c \<Rightarrow> nat"
  chunk_n_pos :: "'c \<Rightarrow> int"
  chunk_id :: "'c \<Rightarrow> string"
  chunk_tokens_text :: "'c \<Rightarrow> llama_token list"
  chunk_copy :: "'c \<Rightarrow> 'c"
  chunk_placeholder :: "'c \<Rightarrow> 'c option"
  chunk_save :: "'c \<Rightarrow> byte list option"
  chunk_load :: "byte list \<Rightarrow> 'c option"

record 'c server_tokens =
  has_mtmd :: bool
  media :: "(nat \<times> 'c) list"
  toks :: "llama_token list"

definition st_empty :: "'c server_tokens" where
  "st_empty = \<lparr>has_mtmd = False, media = [], toks = []\<rparr>"

definition st_size :: "'c server_tokens \<Rightarrow> nat" where
  "st_size st = length (toks st)"

definition st_clear :: "'c server_tokens \<Rightarrow> 'c server_tokens" where
  "st_clear st = st\<lparr>media := [], toks := []\<rparr>"

definition st_of_tokens :: "llama_token list \<Rightarrow> bool \<Rightarrow> 'c server_tokens" where
  "st_of_tokens ts hm = \<lparr>has_mtmd = hm, media = [], toks = ts\<rparr>"

section \<open>Appending\<close>

definition push_back_tok :: "llama_token \<Rightarrow> 'c server_tokens \<Rightarrow> 'c server_tokens result" where
  "push_back_tok tok st =
     (if tok = LLAMA_TOKEN_NULL then Inl (Throw ''Invalid token'')
      else Inr (st\<lparr>toks := toks st @ [tok]\<rparr>))"

fun push_back_toks :: "llama_token list \<Rightarrow> 'c server_tokens \<Rightarrow> 'c server_tokens result" where
  "push_back_toks [] st = Inr st"
| "push_back_toks (t # ts) st = rbind (push_back_tok t st) (push_back_toks ts)"

definition put_chunk :: "nat \<Rightarrow> 'c \<Rightarrow> 'c server_tokens \<Rightarrow> 'c server_tokens" where
  "put_chunk n c st =
     st\<lparr>toks := toks st @ replicate n LLAMA_TOKEN_NULL, media := omap_set (length (toks st)) c (media st)\<rparr>"

definition push_back_chunk :: "'c mtmd \<Rightarrow> 'c \<Rightarrow> 'c server_tokens \<Rightarrow> 'c server_tokens result" where
  "push_back_chunk M c st =
     (case chunk_type_of M c of
        CHUNK_IMAGE \<Rightarrow> (if has_mtmd st then Inr (put_chunk (chunk_n_tokens M c) (chunk_copy M c) st) else Inl Abort)
      | CHUNK_AUDIO \<Rightarrow> (if has_mtmd st then Inr (put_chunk (chunk_n_tokens M c) (chunk_copy M c) st) else Inl Abort)
      | CHUNK_TEXT \<Rightarrow> push_back_toks (chunk_tokens_text M c) st
      | CHUNK_OTHER \<Rightarrow> Inl Abort)"

definition push_back_placeholder :: "'c mtmd \<Rightarrow> 'c \<Rightarrow> 'c server_tokens \<Rightarrow> 'c server_tokens result" where
  "push_back_placeholder M c st =
     (if chunk_type_of M c = CHUNK_IMAGE \<or> chunk_type_of M c = CHUNK_AUDIO then
        (if \<not> has_mtmd st then Inl Abort
         else case chunk_placeholder M c of
                None \<Rightarrow> Inl Abort
              | Some p \<Rightarrow> Inr (put_chunk (chunk_n_tokens M c) p st))
      else push_back_chunk M c st)"

fun st_of_chunks_loop :: "'c mtmd \<Rightarrow> 'c list \<Rightarrow> 'c server_tokens \<Rightarrow> 'c server_tokens result" where
  "st_of_chunks_loop M [] st = Inr st"
| "st_of_chunks_loop M (c # cs) st = rbind (push_back_chunk M c st) (st_of_chunks_loop M cs)"

definition st_of_chunks :: "'c mtmd \<Rightarrow> 'c list \<Rightarrow> bool \<Rightarrow> 'c server_tokens result" where
  "st_of_chunks M cs hm = st_of_chunks_loop M cs \<lparr>has_mtmd = hm, media = [], toks = []\<rparr>"

text \<open>
  \<open>push_back(server_tokens &)\<close>.  The loop over the media map of the argument has no increment:
  once entered it assigns the same entry for ever, which is the value \<open>None\<close>.
\<close>

partial_function (option) push_back_media_loop ::
  "'c mtmd \<Rightarrow> nat \<Rightarrow> (nat \<times> 'c) list \<Rightarrow> 'c server_tokens \<Rightarrow> 'c server_tokens option" where
  "push_back_media_loop M start it st =
     (if it = [] then Some st
      else push_back_media_loop M start it
             (st\<lparr>media := omap_set (start + fst (hd it)) (chunk_copy M (snd (hd it))) (media st)\<rparr>))"

definition push_back_tokens ::
  "'c mtmd \<Rightarrow> 'c server_tokens \<Rightarrow> 'c server_tokens \<Rightarrow> 'c server_tokens result option" where
  "push_back_tokens M other st =
     (case push_back_toks (toks other) st of
        Inl e \<Rightarrow> Some (Inl e)
      | Inr st' \<Rightarrow>
          if has_mtmd other then
            (if \<not> has_mtmd st' then Some (Inl Abort)
             else map_option Inr (push_back_media_loop M (st_size st) (media other) st'))
          else Some (Inr st'))"

definition st_insert :: "llama_token list \<Rightarrow> 'c server_tokens \<Rightarrow> 'c server_tokens" where
  "st_insert ts st = st\<lparr>toks := toks st @ ts\<rparr>"

section \<open>Reading\<close>

definition get_tokens :: "'c server_tokens \<Rightarrow> llama_token list result" where
  "get_tokens st = (if has_mtmd st then Inl Abort else Inr (toks st))"

definition get_text_tokens :: "'c server_tokens \<Rightarrow> llama_token list" where
  "get_text_tokens st = filter (\<lambda>t. t \<noteq> LLAMA_TOKEN_NULL) (toks st)"

definition st_detokenize :: "(llama_token list \<Rightarrow> string) \<Rightarrow> 'c server_tokens \<Rightarrow> string" where
  "st_detokenize common_detokenize st = common_detokenize (filter (\<lambda>t. t \<noteq> LLAMA_TOKEN_NULL) (toks st))"

text \<open>\<open>tokens[pos] = id\<close>; writing outside the vector is undefined behaviour, which the model shows as \<open>Abort\<close>.\<close>

definition set_token :: "nat \<Rightarrow> llama_token \<Rightarrow> 'c server_tokens \<Rightarrow> 'c server_tokens result" where
  "set_token pos i st =
     (if has_mtmd st \<or> pos \<ge> length (toks st) then Inl Abort else Inr (st\<lparr>toks := (toks st)[pos := i]\<rparr>))"

definition find_chunk :: "nat \<Rightarrow> 'c server_tokens \<Rightarrow> 'c result" where
  "find_chunk idx st =
     (case map_of (media st) idx of Some c \<Rightarrow> Inr c | None \<Rightarrow> Inl (Throw ''Chunk not found''))"

text \<open>\<open>upper_bound(idx)\<close>: the first entry with a key above \<open>idx\<close>.\<close>

definition find_next_media_chunk :: "nat \<Rightarrow> 'c server_tokens \<Rightarrow> 'c option \<times> nat" where
  "find_next_media_chunk idx st =
     (case find (\<lambda>e. idx < fst e) (media st) of
        Some e \<Rightarrow> (Some (snd e), fst e)
      | None \<Rightarrow> (None, 0))"

text \<open>The walk over tokens and chunks; a chunk of no tokens would keep it at the same index.\<close>

partial_function (option) pos_loop ::
  "'c mtmd \<Rightarrow> (nat \<times> 'c) list \<Rightarrow> nat \<Rightarrow> nat \<Rightarrow> int \<Rightarrow> int option" where
  "pos_loop M m n idx pos =
     (if idx < n then
        (case map_of m idx of
           Some c \<Rightarrow> pos_loop M m n (idx + chunk_n_tokens M c) (pos + chunk_n_pos M c)
         | None \<Rightarrow> pos_loop M m n (idx + 1) (pos + 1))
      else Some pos)"

definition pos_next :: "'c mtmd \<Rightarrow> int \<Rightarrow> 'c server_tokens \<Rightarrow> int result option" where
  "pos_next M n st =
     (if \<not> has_mtmd st then
        (if n < 0 then Some (Inr (int (length (toks st)))) else Some (Inr n))
      else if n < 0 then
        Some (Inr (fold (\<lambda>e res. res + (chunk_n_pos M (snd e) - int (chunk_n_tokens M (snd e))))
                     (media st) (int (length (toks st)))))
      else if n > int (length (toks st)) then Some (Inl Abort)
      else map_option Inr (pos_loop M (media st) (nat n) 0 0))"

partial_function (option) size_up_to_loop ::
  "'c mtmd \<Rightarrow> 'c server_tokens \<Rightarrow> int \<Rightarrow> nat \<Rightarrow> int \<Rightarrow> nat option" where
  "size_up_to_loop M st max_pos idx pos =
     (if idx < length (toks st) then
        (let (idx', pos') =
           (case map_of (media st) idx of
              Some c \<Rightarrow> (idx + chunk_n_tokens M c, pos + chunk_n_pos M c)
            | None \<Rightarrow> (idx + 1, pos + 1))
         in if pos' \<ge> max_pos then Some idx' else size_up_to_loop M st max_pos idx' pos')
      else Some idx)"

text \<open>\<open>(size_t) max_pos\<close> of a negative position is huge, so that the minimum is the size.\<close>

definition size_up_to_pos :: "'c mtmd \<Rightarrow> int \<Rightarrow> 'c server_tokens \<Rightarrow> nat option" where
  "size_up_to_pos M max_pos st =
     (if \<not> has_mtmd st then
        Some (if max_pos < 0 then length (toks st) else min (nat max_pos) (length (toks st)))
      else size_up_to_loop M st max_pos 0 0)"

text \<open>The debug text.\<close>

definition st_str :: "'c server_tokens \<Rightarrow> string" where
  "st_str st =
     ''tokens: ''
     @ concat (map (\<lambda>(idx, t). ''idx:'' @ show_nat idx @ '' ''
           @ (if t = LLAMA_TOKEN_NULL then ''<embd> '' else show_int (sint t) @ '' ''))
         (enumerate 0 (toks st)))
     @ [CHR 0x0A] @ ''image idx: ''
     @ concat (map (\<lambda>e. show_nat (fst e) @ '', '') (media st))"

section \<open>Truncation and comparison\<close>

definition keep_first :: "nat \<Rightarrow> 'c server_tokens \<Rightarrow> 'c server_tokens result" where
  "keep_first n st =
     (if n > length (toks st) then Inl Abort
      else if has_mtmd st then
        (if n = length (toks st) then Inr st
         else
           let cut = st\<lparr>toks := take n (toks st), media := filter (\<lambda>e. fst e < n) (media st)\<rparr>
           in if n > 0 \<and> toks st ! (n - 1) = LLAMA_TOKEN_NULL \<and> toks st ! n = LLAMA_TOKEN_NULL
              then rbind (find_chunk (n - 1) st) (\<lambda>_. Inr cut)
              else Inr cut)
      else Inr (st\<lparr>toks := take n (toks st)\<rparr>))"

fun text_prefix :: "llama_token list \<Rightarrow> llama_token list \<Rightarrow> nat" where
  "text_prefix (a # as) (b # bs) = (if a = b then Suc (text_prefix as bs) else 0)"
| "text_prefix _ _ = 0"

function common_prefix_loop ::
  "'c mtmd \<Rightarrow> 'c server_tokens \<Rightarrow> 'c server_tokens \<Rightarrow> nat \<Rightarrow> nat \<Rightarrow> nat result" where
  "common_prefix_loop M a b max_idx i =
     (if i < max_idx then
        (if toks a ! i = LLAMA_TOKEN_NULL \<and> toks b ! i = LLAMA_TOKEN_NULL then
           rbind (find_chunk i a) (\<lambda>ca. rbind (find_chunk i b) (\<lambda>cb.
             if chunk_id M ca = chunk_id M cb \<and> chunk_n_tokens M ca = chunk_n_tokens M cb
             then (if chunk_n_tokens M ca > 0
                   then common_prefix_loop M a b max_idx (i + chunk_n_tokens M ca)
                   else Inl Abort)
             else Inr i))
         else if toks a ! i = toks b ! i then common_prefix_loop M a b max_idx (i + 1)
         else Inr i)
      else Inr max_idx)"
  by pat_completeness auto
termination
  by (relation "measure (\<lambda>(M, a, b, max_idx, i). max_idx - i)") auto

declare common_prefix_loop.simps [simp del]

definition get_common_prefix :: "'c mtmd \<Rightarrow> 'c server_tokens \<Rightarrow> 'c server_tokens \<Rightarrow> nat result" where
  "get_common_prefix M a b =
     (if \<not> has_mtmd a then Inr (text_prefix (toks a) (toks b))
      else common_prefix_loop M a b (min (length (toks a)) (length (toks b))) 0)"

text \<open>\<open>split\<close> is the library's \<open>common_chat_msg_delimiters::split\<close> on the tokens and the skips.\<close>

definition find_message_spans ::
  "'c mtmd \<Rightarrow> (llama_token list \<Rightarrow> (nat \<times> nat) list \<Rightarrow> 'spans) \<Rightarrow> 'c server_tokens \<Rightarrow> 'spans" where
  "find_message_spans M split st =
     split (toks st) (fold (\<lambda>e. omap_set (fst e) (chunk_n_tokens M (snd e))) (media st) [])"

function validate_loop :: "'c mtmd \<Rightarrow> int \<Rightarrow> 'c server_tokens \<Rightarrow> nat \<Rightarrow> nat \<Rightarrow> bool" where
  "validate_loop M n_vocab st i n_media =
     (if i < length (toks st) then
        (let t = toks st ! i
         in if t = LLAMA_TOKEN_NULL then
              (case find_chunk i st of
                 Inl _ \<Rightarrow> False
               | Inr c \<Rightarrow>
                   if chunk_type_of M c = CHUNK_TEXT then False
                   else
                     let n = chunk_n_tokens M c
                     in if n = 0 \<or> chunk_n_pos M c \<le> 0 \<or> n > length (toks st) - i then False
                        else if \<not> list_all (\<lambda>j. toks st ! j = LLAMA_TOKEN_NULL) [i..<i + n] then False
                        else validate_loop M n_vocab st (i + n) (n_media + 1))
            else if sint t < 0 \<or> sint t \<ge> n_vocab then False
            else validate_loop M n_vocab st (i + 1) n_media)
      else n_media = length (media st))"
  by pat_completeness auto
termination
  by (relation "measure (\<lambda>(M, n_vocab, st, i, n_media). length (toks st) - i)") auto

declare validate_loop.simps [simp del]

definition validate :: "'c mtmd \<Rightarrow> int \<Rightarrow> 'c server_tokens \<Rightarrow> bool" where
  "validate M n_vocab st = validate_loop M n_vocab st 0 0"

definition clone :: "'c mtmd \<Rightarrow> 'c server_tokens \<Rightarrow> 'c server_tokens" where
  "clone M st =
     fold (\<lambda>e res. res\<lparr>media := omap_set (fst e) (chunk_copy M (snd e)) (media res)\<rparr>) (media st)
       \<lparr>has_mtmd = has_mtmd st, media = [], toks = toks st\<rparr>"

section \<open>Saved state\<close>

definition SERVER_TOKENS_STATE_VERSION :: "32 word" where
  "SERVER_TOKENS_STATE_VERSION = 1"

text \<open>The bytes of a 32-bit value in memory (little-endian hosts).\<close>

definition bytes_of_u32 :: "32 word \<Rightarrow> byte list" where
  "bytes_of_u32 w = [ucast w, ucast (drop_bit 8 w), ucast (drop_bit 16 w), ucast (drop_bit 24 w)]"

definition u32_of_bytes :: "byte list \<Rightarrow> 32 word" where
  "u32_of_bytes bs = ucast (bs ! 0) OR push_bit 8 (ucast (bs ! 1))
     OR push_bit 16 (ucast (bs ! 2)) OR push_bit 24 (ucast (bs ! 3))"

definition state_u32 :: "nat \<Rightarrow> (32 word) result" where
  "state_u32 n = (if n > 2 ^ 32 - 1 then Inl (Throw ''Server tokens state is too large'') else Inr (of_nat n))"

definition write_u32s :: "32 word list \<Rightarrow> byte list \<Rightarrow> byte list result" where
  "write_u32s ws data =
     rbind (state_u32 (length ws)) (\<lambda>n. Inr (data @ bytes_of_u32 n @ concat (map bytes_of_u32 ws)))"

definition write_chars :: "byte list \<Rightarrow> byte list \<Rightarrow> byte list result" where
  "write_chars cs data = rbind (state_u32 (length cs)) (\<lambda>n. Inr (data @ bytes_of_u32 n @ cs))"

definition write_media_chunk :: "'c mtmd \<Rightarrow> 'c \<Rightarrow> byte list \<Rightarrow> byte list result" where
  "write_media_chunk M c data =
     (case chunk_save M c of
        None \<Rightarrow> Inl (Throw ''Cannot serialize media chunk in server tokens'')
      | Some cs \<Rightarrow>
          if cs = [] then Inl (Throw ''Cannot serialize media chunk in server tokens'')
          else write_chars cs data)"

text \<open>\<open>take()\<close> pads with zeros to a multiple of the token size.\<close>

definition writer_take :: "byte list \<Rightarrow> byte list" where
  "writer_take data = data @ replicate ((length data + 3) div 4 * 4 - length data) 0"

fun media_keys_u32 :: "(nat \<times> 'c) list \<Rightarrow> (32 word list) result" where
  "media_keys_u32 [] = Inr []"
| "media_keys_u32 (e # es) = rbind (state_u32 (fst e)) (\<lambda>k. rbind (media_keys_u32 es) (\<lambda>ks. Inr (k # ks)))"

fun write_media_chunks :: "'c mtmd \<Rightarrow> (nat \<times> 'c) list \<Rightarrow> byte list \<Rightarrow> byte list result" where
  "write_media_chunks M [] data = Inr data"
| "write_media_chunks M (e # es) data = rbind (write_media_chunk M (snd e) data) (write_media_chunks M es)"

definition st_serialize :: "'c mtmd \<Rightarrow> 'c server_tokens \<Rightarrow> byte list result" where
  "st_serialize M st =
     rbind (write_u32s (toks st) (bytes_of_u32 LLAMA_TOKEN_NULL @ bytes_of_u32 SERVER_TOKENS_STATE_VERSION)) (\<lambda>d.
     rbind (media_keys_u32 (media st)) (\<lambda>ks.
     rbind (write_u32s ks d) (\<lambda>d.
     rbind (write_media_chunks M (media st) d) (\<lambda>d. Inr (writer_take d)))))"

text \<open>The reader's \<open>data + pos\<close> is the list of the bytes not yet read.\<close>

definition read_u32 :: "byte list \<Rightarrow> (32 word \<times> byte list) result" where
  "read_u32 bs =
     (if length bs < 4 then Inl (Throw ''Unexpected end of server tokens state'')
      else Inr (u32_of_bytes (take 4 bs), drop 4 bs))"

fun u32s_of_bytes :: "nat \<Rightarrow> byte list \<Rightarrow> 32 word list" where
  "u32s_of_bytes 0 bs = []"
| "u32s_of_bytes (Suc n) bs = u32_of_bytes (take 4 bs) # u32s_of_bytes n (drop 4 bs)"

definition read_u32s :: "byte list \<Rightarrow> (32 word list \<times> byte list) result" where
  "read_u32s bs = rbind (read_u32 bs) (\<lambda>(w, bs).
     let n = unat w
     in if n > length bs div 4 then Inl (Throw ''Unexpected end of server tokens state'')
        else Inr (u32s_of_bytes n bs, drop (4 * n) bs))"

definition read_chars :: "byte list \<Rightarrow> (byte list \<times> byte list) result" where
  "read_chars bs = rbind (read_u32 bs) (\<lambda>(w, bs).
     let n = unat w
     in if n > length bs then Inl (Throw ''Unexpected end of server tokens state'')
        else Inr (take n bs, drop n bs))"

fun read_media :: "'c mtmd \<Rightarrow> 32 word list \<Rightarrow> byte list \<Rightarrow> 'c server_tokens \<Rightarrow> ('c server_tokens \<times> byte list) result" where
  "read_media M [] bs st = Inr (st, bs)"
| "read_media M (key # keys) bs st = rbind (read_chars bs) (\<lambda>(cs, bs).
     if cs = [] then Inl (Throw ''Cannot load media chunk from server tokens state'')
     else case chunk_load M cs of
            None \<Rightarrow> Inl (Throw ''Cannot load media chunk from server tokens state'')
          | Some c \<Rightarrow> read_media M keys bs (st\<lparr>media := omap_set (unat key) c (media st)\<rparr>))"

definition st_deserialize :: "'c mtmd \<Rightarrow> llama_token list \<Rightarrow> bool \<Rightarrow> 'c server_tokens result" where
  "st_deserialize M packed hm =
     (if packed = [] \<or> packed ! 0 \<noteq> LLAMA_TOKEN_NULL then Inr (st_of_tokens packed hm)
      else rbind (read_u32 (concat (map bytes_of_u32 packed))) (\<lambda>(_, bs).
           rbind (read_u32 bs) (\<lambda>(v, bs).
           if v \<noteq> SERVER_TOKENS_STATE_VERSION then Inl (Throw ''Unsupported server tokens state version'')
           else rbind (read_u32s bs) (\<lambda>(ts, bs).
           rbind (read_u32s bs) (\<lambda>(keys, bs).
           if keys \<noteq> [] \<and> \<not> hm then Inl (Throw ''Cannot restore media tokens without an mmproj'')
           else rbind (read_media M keys bs (st_of_tokens ts hm)) (\<lambda>(st, bs).
           if length bs \<ge> 4 then Inl (Throw ''Trailing data in server tokens state'')
           else Inr st))))))"

text \<open>The caller hands the saved bytes over as an array of tokens.\<close>

definition reinterpret_tokens :: "byte list \<Rightarrow> llama_token list" where
  "reinterpret_tokens bs = u32s_of_bytes (length bs div 4) bs"

section \<open>The segment view\<close>

datatype 'c seg = Tok llama_token | Chunk 'c

fun seg_len :: "'c mtmd \<Rightarrow> 'c seg \<Rightarrow> nat" where
  "seg_len M (Tok t) = 1"
| "seg_len M (Chunk c) = chunk_n_tokens M c"

fun seg_pos :: "'c mtmd \<Rightarrow> 'c seg \<Rightarrow> int" where
  "seg_pos M (Tok t) = 1"
| "seg_pos M (Chunk c) = chunk_n_pos M c"

fun seg_ok :: "'c mtmd \<Rightarrow> 'c seg \<Rightarrow> bool" where
  "seg_ok M (Tok t) \<longleftrightarrow> t \<noteq> LLAMA_TOKEN_NULL"
| "seg_ok M (Chunk c) \<longleftrightarrow> chunk_type_of M c \<noteq> CHUNK_TEXT \<and> chunk_n_tokens M c > 0 \<and> chunk_n_pos M c > 0"

fun is_chunk :: "'c seg \<Rightarrow> bool" where
  "is_chunk (Tok t) = False"
| "is_chunk (Chunk c) = True"

definition segs_len :: "'c mtmd \<Rightarrow> 'c seg list \<Rightarrow> nat" where
  "segs_len M ss = sum_list (map (seg_len M) ss)"

definition segs_pos :: "'c mtmd \<Rightarrow> 'c seg list \<Rightarrow> int" where
  "segs_pos M ss = sum_list (map (seg_pos M) ss)"

fun lay_toks :: "'c mtmd \<Rightarrow> 'c seg list \<Rightarrow> llama_token list" where
  "lay_toks M [] = []"
| "lay_toks M (Tok t # ss) = t # lay_toks M ss"
| "lay_toks M (Chunk c # ss) = replicate (chunk_n_tokens M c) LLAMA_TOKEN_NULL @ lay_toks M ss"

fun lay_media :: "'c mtmd \<Rightarrow> nat \<Rightarrow> 'c seg list \<Rightarrow> (nat \<times> 'c) list" where
  "lay_media M i [] = []"
| "lay_media M i (Tok t # ss) = lay_media M (i + 1) ss"
| "lay_media M i (Chunk c # ss) = (i, c) # lay_media M (i + chunk_n_tokens M c) ss"

definition layout :: "'c mtmd \<Rightarrow> bool \<Rightarrow> 'c seg list \<Rightarrow> 'c server_tokens" where
  "layout M hm ss = \<lparr>has_mtmd = hm, media = lay_media M 0 ss, toks = lay_toks M ss\<rparr>"

text \<open>Media chunks occur only with the multimodal flag.\<close>

definition segs_wf :: "'c mtmd \<Rightarrow> bool \<Rightarrow> 'c seg list \<Rightarrow> bool" where
  "segs_wf M hm ss \<longleftrightarrow> list_all (seg_ok M) ss \<and> (hm \<or> list_all (\<lambda>s. \<not> is_chunk s) ss)"

lemma segs_len_simps [simp]:
  "segs_len M [] = 0" "segs_len M (s # ss) = seg_len M s + segs_len M ss"
  "segs_len M (ss @ ts) = segs_len M ss + segs_len M ts"
  by (simp_all add: segs_len_def)

lemma segs_pos_simps [simp]:
  "segs_pos M [] = 0" "segs_pos M (s # ss) = seg_pos M s + segs_pos M ss"
  "segs_pos M (ss @ ts) = segs_pos M ss + segs_pos M ts"
  by (simp_all add: segs_pos_def)

lemma layout_simps [simp]:
  "toks (layout M hm ss) = lay_toks M ss" "media (layout M hm ss) = lay_media M 0 ss"
  "has_mtmd (layout M hm ss) = hm"
  by (simp_all add: layout_def)

lemma length_lay_toks [simp]: "length (lay_toks M ss) = segs_len M ss"
  by (induction M ss rule: lay_toks.induct) auto

lemma lay_toks_append: "lay_toks M (ss @ ts) = lay_toks M ss @ lay_toks M ts"
  by (induction M ss rule: lay_toks.induct) auto

lemma lay_media_append: "lay_media M i (ss @ ts) = lay_media M i ss @ lay_media M (i + segs_len M ss) ts"
  by (induction M i ss rule: lay_media.induct) (auto simp: add.assoc)

lemma lay_media_ge: "e \<in> set (lay_media M i ss) \<Longrightarrow> i \<le> fst e"
  by (induction M i ss rule: lay_media.induct) force+

lemma lay_media_less: "list_all (seg_ok M) ss \<Longrightarrow> e \<in> set (lay_media M i ss) \<Longrightarrow> fst e < i + segs_len M ss"
  by (induction M i ss rule: lay_media.induct) force+

lemma lay_media_ok: "list_all (seg_ok M) ss \<Longrightarrow> omap_ok (lay_media M i ss)"
  by (induction M i ss rule: lay_media.induct) (auto simp: omap_ok_Cons dest!: lay_media_ge)

lemma lay_media_no_chunk: "list_all (\<lambda>s. \<not> is_chunk s) ss \<Longrightarrow> lay_media M i ss = []"
  by (induction M i ss rule: lay_media.induct) auto

lemma map_of_lay_media:
  assumes "list_all (seg_ok M) pre"
  shows "map_of (lay_media M 0 (pre @ s # post)) (segs_len M pre) =
           (case s of Chunk c \<Rightarrow> Some c | Tok t \<Rightarrow> None)"
proof -
  have "map_of (lay_media M 0 pre) (segs_len M pre) = None"
    using lay_media_less [OF assms, of _ 0] by (fastforce simp: map_of_eq_None_iff)
  moreover have "map_of (lay_media M (segs_len M pre + 1) post) (segs_len M pre) = None"
    using lay_media_ge [of _ M "segs_len M pre + 1" post] by (fastforce simp: map_of_eq_None_iff)
  ultimately show ?thesis
    by (cases s) (auto simp: lay_media_append map_add_def)
qed

lemma nth_lay_toks:
  "seg_ok M s \<Longrightarrow> lay_toks M (pre @ s # post) ! segs_len M pre =
     (case s of Chunk c \<Rightarrow> LLAMA_TOKEN_NULL | Tok t \<Rightarrow> t)"
  by (cases s) (auto simp: lay_toks_append nth_append)

lemma seg_len_pos: "seg_ok M s \<Longrightarrow> 0 < seg_len M s"
  by (cases s) auto

lemma seg_pos_pos: "seg_ok M s \<Longrightarrow> 0 < seg_pos M s"
  by (cases s) auto

lemma segs_pos_nonneg: "list_all (seg_ok M) ss \<Longrightarrow> 0 \<le> segs_pos M ss"
  by (induction ss) (auto dest: seg_pos_pos)

lemma find_chunk_layout:
  "list_all (seg_ok M) pre \<Longrightarrow> find_chunk (segs_len M pre) (layout M hm (pre @ Chunk c # post)) = Inr c"
  by (simp add: find_chunk_def map_of_lay_media)

section \<open>Appending keeps the layout\<close>

lemma push_back_tok_layout:
  "t \<noteq> LLAMA_TOKEN_NULL \<Longrightarrow> push_back_tok t (layout M hm ss) = Inr (layout M hm (ss @ [Tok t]))"
  by (simp add: push_back_tok_def layout_def lay_toks_append lay_media_append)

lemma push_back_toks_layout:
  "list_all (\<lambda>t. t \<noteq> LLAMA_TOKEN_NULL) ts \<Longrightarrow>
     push_back_toks ts (layout M hm ss) = Inr (layout M hm (ss @ map Tok ts))"
  by (induction ts arbitrary: ss) (auto simp: push_back_tok_layout)

lemma push_back_toks_null: "LLAMA_TOKEN_NULL \<in> set ts \<Longrightarrow> push_back_toks ts st = Inl (Throw ''Invalid token'')"
  by (induction ts arbitrary: st) (auto simp: push_back_tok_def)

lemma put_chunk_layout:
  assumes "list_all (seg_ok M) ss" "chunk_n_tokens M c = n"
  shows "put_chunk n c (layout M hm ss) = layout M hm (ss @ [Chunk c])"
proof -
  have "\<forall>k \<in> fst ` set (lay_media M 0 ss). k < segs_len M ss"
    using lay_media_less [OF assms(1), of _ 0] by auto
  then show ?thesis
    using assms(2) by (simp add: put_chunk_def layout_def lay_toks_append lay_media_append omap_set_last)
qed

section \<open>Common prefix\<close>

fun seg_lcp :: "'c mtmd \<Rightarrow> 'c seg list \<Rightarrow> 'c seg list \<Rightarrow> nat" where
  "seg_lcp M (Tok t # ss) (Tok u # ts) = (if t = u then 1 + seg_lcp M ss ts else 0)"
| "seg_lcp M (Chunk c # ss) (Chunk d # ts) =
     (if chunk_id M c = chunk_id M d \<and> chunk_n_tokens M c = chunk_n_tokens M d
      then chunk_n_tokens M c + seg_lcp M ss ts else 0)"
| "seg_lcp M [] ts = 0"
| "seg_lcp M (s # ss) [] = 0"
| "seg_lcp M (Tok t # ss) (Chunk d # ts) = 0"
| "seg_lcp M (Chunk c # ss) (Tok u # ts) = 0"

lemma seg_lcp_le: "seg_lcp M ss ts \<le> segs_len M ss \<and> seg_lcp M ss ts \<le> segs_len M ts"
  by (induction M ss ts rule: seg_lcp.induct) auto

lemma common_prefix_walk:
  assumes "list_all (seg_ok M) (pa @ ss)" "list_all (seg_ok M) (pb @ ts)" "segs_len M pa = segs_len M pb"
  shows "common_prefix_loop M (layout M ha (pa @ ss)) (layout M hb (pb @ ts))
           (min (segs_len M (pa @ ss)) (segs_len M (pb @ ts))) (segs_len M pa)
         = Inr (segs_len M pa + seg_lcp M ss ts)"
  using assms
proof (induction M ss ts arbitrary: pa pb rule: seg_lcp.induct)
  case (1 M t ss u ts)
  have nth: "lay_toks M (pa @ Tok t # ss) ! segs_len M pa = t" "lay_toks M (pb @ Tok u # ts) ! segs_len M pa = u"
    using 1 nth_lay_toks [of M "Tok t" pa ss] nth_lay_toks [of M "Tok u" pb ts] by simp_all
  have "t = u \<Longrightarrow> common_prefix_loop M (layout M ha (pa @ Tok t # ss)) (layout M hb (pb @ Tok u # ts))
           (min (segs_len M (pa @ Tok t # ss)) (segs_len M (pb @ Tok u # ts))) (segs_len M pa + 1)
         = Inr (segs_len M pa + 1 + seg_lcp M ss ts)"
    using 1(1) [of "pa @ [Tok t]" "pb @ [Tok u]"] 1(2-) by simp
  then show ?case
    using 1(2-) nth by (subst common_prefix_loop.simps) auto
next
  case (2 M c ss d ts)
  have nth: "lay_toks M (pa @ Chunk c # ss) ! segs_len M pa = LLAMA_TOKEN_NULL"
    "lay_toks M (pb @ Chunk d # ts) ! segs_len M pa = LLAMA_TOKEN_NULL"
    using 2 nth_lay_toks [of M "Chunk c" pa ss] nth_lay_toks [of M "Chunk d" pb ts] by simp_all
  have fc: "find_chunk (segs_len M pa) (layout M ha (pa @ Chunk c # ss)) = Inr c"
    "find_chunk (segs_len M pa) (layout M hb (pb @ Chunk d # ts)) = Inr d"
    using 2(2-) find_chunk_layout [of M pa ha c ss] find_chunk_layout [of M pb hb d ts] by simp_all
  have "chunk_id M c = chunk_id M d \<Longrightarrow> chunk_n_tokens M c = chunk_n_tokens M d \<Longrightarrow>
      common_prefix_loop M (layout M ha (pa @ Chunk c # ss)) (layout M hb (pb @ Chunk d # ts))
           (min (segs_len M (pa @ Chunk c # ss)) (segs_len M (pb @ Chunk d # ts)))
           (segs_len M pa + chunk_n_tokens M c)
         = Inr (segs_len M pa + chunk_n_tokens M c + seg_lcp M ss ts)"
    using 2(1) [of "pa @ [Chunk c]" "pb @ [Chunk d]"] 2(2-) by simp
  then show ?case
    using 2(2-) nth fc by (subst common_prefix_loop.simps) auto
next
  case (3 M ts)
  then show ?case by (subst common_prefix_loop.simps) auto
next
  case (4 M s ss)
  then show ?case by (subst common_prefix_loop.simps) auto
next
  case (5 M t ss d ts)
  then show ?case
    using nth_lay_toks [of M "Tok t" pa ss] nth_lay_toks [of M "Chunk d" pb ts]
    by (subst common_prefix_loop.simps) auto
next
  case (6 M c ss u ts)
  then show ?case
    using nth_lay_toks [of M "Chunk c" pa ss] nth_lay_toks [of M "Tok u" pb ts]
    by (subst common_prefix_loop.simps) auto
qed

lemma text_prefix_layout:
  assumes "list_all (\<lambda>s. \<not> is_chunk s) ss" "list_all (seg_ok M) ss" "list_all (seg_ok M) ts"
  shows "text_prefix (lay_toks M ss) (lay_toks M ts) = seg_lcp M ss ts"
  using assms
proof (induction M ss ts rule: seg_lcp.induct)
  case (5 M t ss d ts)
  then show ?case by (cases "chunk_n_tokens M d") auto
next
  case (4 M s ss)
  then show ?case by (cases "lay_toks M (s # ss)") auto
qed auto

section \<open>Walking over positions\<close>

lemma pos_loop_layout:
  assumes "list_all (seg_ok M) (pre @ mid)"
  shows "pos_loop M (lay_media M 0 (pre @ mid @ post)) (segs_len M (pre @ mid)) (segs_len M pre) p
           = Some (p + segs_pos M mid)"
  using assms
proof (induction mid arbitrary: pre p)
  case Nil
  then show ?case by (subst pos_loop.simps) simp
next
  case (Cons s mid)
  have at: "map_of (lay_media M 0 (pre @ s # mid @ post)) (segs_len M pre) =
      (case s of Chunk c \<Rightarrow> Some c | Tok t \<Rightarrow> None)"
    using Cons.prems map_of_lay_media [of M pre s "mid @ post"] by simp
  have "0 < seg_len M s"
    using Cons.prems by (simp add: seg_len_pos)
  then show ?case
    using Cons.IH [of "pre @ [s]"] Cons.prems at
    by (subst pos_loop.simps) (cases s; simp add: algebra_simps)
qed

lemma media_pos_sum:
  "fold (\<lambda>e res. res + (chunk_n_pos M (snd e) - int (chunk_n_tokens M (snd e)))) (lay_media M i ss) r
     = r + (segs_pos M ss - int (segs_len M ss))"
  by (induction M i ss arbitrary: r rule: lay_media.induct) (auto simp: algebra_simps)

lemma size_up_to_loop_layout:
  assumes "list_all (seg_ok M) (pre @ mid @ post)" "mid \<noteq> []"
  shows "size_up_to_loop M (layout M hm (pre @ mid @ post)) (p + segs_pos M mid) (segs_len M pre) p
           = Some (segs_len M (pre @ mid))"
  using assms
proof (induction mid arbitrary: pre p)
  case (Cons s mid)
  have at: "map_of (lay_media M 0 (pre @ s # mid @ post)) (segs_len M pre) =
      (case s of Chunk c \<Rightarrow> Some c | Tok t \<Rightarrow> None)"
    using Cons.prems map_of_lay_media [of M pre s "mid @ post"] by simp
  have pos: "0 < seg_len M s" "mid \<noteq> [] \<Longrightarrow> 0 < segs_pos M mid"
    using Cons.prems by (auto simp: seg_len_pos neq_Nil_conv intro!: add_pos_nonneg seg_pos_pos segs_pos_nonneg)
  show ?case
  proof (cases "mid = []")
    case True
    then show ?thesis
      using at pos by (subst size_up_to_loop.simps) (cases s; simp)
  next
    case False
    then show ?thesis
      using Cons.IH [of "pre @ [s]" "p + seg_pos M s"] Cons.prems at pos
      by (subst size_up_to_loop.simps) (cases s; simp add: algebra_simps)
  qed
qed simp

section \<open>Validation\<close>

fun seg_valid :: "'c mtmd \<Rightarrow> int \<Rightarrow> 'c seg \<Rightarrow> bool" where
  "seg_valid M n_vocab (Tok t) \<longleftrightarrow> 0 \<le> sint t \<and> sint t < n_vocab"
| "seg_valid M n_vocab (Chunk c) \<longleftrightarrow> seg_ok M (Chunk c)"

lemma sint_null: "sint LLAMA_TOKEN_NULL = -1"
  by (simp add: LLAMA_TOKEN_NULL_def)

lemma seg_valid_ok: "seg_valid M n s \<Longrightarrow> seg_ok M s"
  by (cases s) (auto simp: sint_null)

lemma seg_valid_all_ok: "list_all (seg_valid M n) ss \<Longrightarrow> list_all (seg_ok M) ss"
  by (induction ss) (auto dest: seg_valid_ok)

lemma validate_walk:
  assumes "list_all (seg_valid M n) (pre @ ss)"
  shows "validate_loop M n (layout M hm (pre @ ss)) (segs_len M pre) (length (lay_media M 0 pre))"
  using assms
proof (induction ss arbitrary: pre)
  case Nil
  then show ?case by (subst validate_loop.simps) simp
next
  case (Cons s ss)
  have ok: "list_all (seg_ok M) (pre @ s # ss)"
    using Cons.prems seg_valid_all_ok by blast
  have nth: "lay_toks M (pre @ s # ss) ! segs_len M pre = (case s of Chunk c \<Rightarrow> LLAMA_TOKEN_NULL | Tok t \<Rightarrow> t)"
    using ok by (intro nth_lay_toks) simp
  have IH: "validate_loop M n (layout M hm (pre @ s # ss)) (segs_len M pre + seg_len M s)
      (length (lay_media M 0 (pre @ [s])))"
    using Cons.IH [of "pre @ [s]"] Cons.prems by simp
  show ?case
  proof (cases s)
    case (Tok t)
    then show ?thesis
      using IH nth ok Cons.prems by (subst validate_loop.simps) (simp add: lay_media_append)
  next
    case (Chunk c)
    have "list_all (\<lambda>j. lay_toks M (pre @ s # ss) ! j = LLAMA_TOKEN_NULL) [segs_len M pre..<segs_len M pre + chunk_n_tokens M c]"
      by (auto simp: list_all_iff Chunk lay_toks_append nth_append)
    moreover have "find_chunk (segs_len M pre) (layout M hm (pre @ s # ss)) = Inr c"
      using ok unfolding Chunk by (intro find_chunk_layout) simp
    ultimately show ?thesis
      using IH nth ok unfolding Chunk by (subst validate_loop.simps) (simp add: lay_media_append)
  qed
qed

lemma drop_replicate:
  assumes "list_all (\<lambda>j. xs ! j = x) [i..<i + n]" "n \<le> length xs - i"
  shows "drop i xs = replicate n x @ drop (i + n) xs"
proof -
  have "take n (drop i xs) = replicate n x"
    using assms by (intro nth_equalityI) (auto simp: list_all_iff)
  then show ?thesis
    by (metis append_take_drop_id drop_drop add.commute)
qed

lemma validate_loop_segs:
  "validate_loop M n st i k \<Longrightarrow> i \<le> length (toks st) \<Longrightarrow>
     \<exists>ss. list_all (seg_valid M n) ss \<and> drop i (toks st) = lay_toks M ss
       \<and> set (lay_media M i ss) \<subseteq> set (media st) \<and> length (lay_media M i ss) + k = length (media st)"
proof (induction M n st i k rule: validate_loop.induct)
  case (1 M n st i k)
  show ?case
  proof (cases "i < length (toks st)")
    case False
    then have "k = length (media st)"
      using 1(3) by (subst (asm) validate_loop.simps) simp
    then show ?thesis
      using False by (intro exI [of _ "[]"]) simp
  next
    case lt: True
    let ?t = "toks st ! i"
    note step = 1(3) [unfolded validate_loop.simps [of M n st i k] Let_def]
    show ?thesis
    proof (cases "?t = LLAMA_TOKEN_NULL")
      case False
      with step lt have t: "0 \<le> sint ?t" "sint ?t < n" and "validate_loop M n st (i + 1) k"
        by (auto split: if_splits)
      then obtain ss where ss: "list_all (seg_valid M n) ss" "drop (i + 1) (toks st) = lay_toks M ss"
        "set (lay_media M (i + 1) ss) \<subseteq> set (media st)" "length (lay_media M (i + 1) ss) + k = length (media st)"
        using 1(2) [OF lt refl False] lt by auto
      have "drop i (toks st) = ?t # drop (i + 1) (toks st)"
        using lt Cons_nth_drop_Suc by fastforce
      then show ?thesis
        using ss t by (intro exI [of _ "Tok ?t # ss"]) simp
    next
      case True
      with step lt obtain c where c: "find_chunk i st = Inr c" "seg_ok M (Chunk c)"
        "chunk_n_tokens M c \<le> length (toks st) - i"
        "list_all (\<lambda>j. toks st ! j = LLAMA_TOKEN_NULL) [i..<i + chunk_n_tokens M c]"
        "validate_loop M n st (i + chunk_n_tokens M c) (k + 1)"
        by (auto split: if_splits sum.splits)
      then obtain ss where ss: "list_all (seg_valid M n) ss"
        "drop (i + chunk_n_tokens M c) (toks st) = lay_toks M ss"
        "set (lay_media M (i + chunk_n_tokens M c) ss) \<subseteq> set (media st)"
        "length (lay_media M (i + chunk_n_tokens M c) ss) + (k + 1) = length (media st)"
        using 1(1) [OF lt refl True c(1) _ refl] lt by fastforce
      have "(i, c) \<in> set (media st)"
        using c(1) by (auto simp: find_chunk_def dest: map_of_SomeD split: option.splits)
      then show ?thesis
        using ss c drop_replicate [OF c(4,3)] by (intro exI [of _ "Chunk c # ss"]) simp
    qed
  qed
qed

lemma omap_subset_eq:
  assumes "omap_ok xs" "omap_ok ys" "set xs \<subseteq> set ys" "length xs = length ys"
  shows "xs = ys"
proof -
  have d: "distinct xs" "distinct ys"
    using assms(1,2) omap_ok_distinct distinct_map by blast+
  then have "set xs = set ys"
    using assms(3,4) by (metis card_subset_eq distinct_card finite_set)
  then have "fst ` set xs = fst ` set ys" by simp
  then have "map fst xs = map fst ys"
    using assms(1,2) by (metis omap_ok_def set_map strict_sorted_equal)
  moreover have "map_of xs = map_of ys"
    using \<open>set xs = set ys\<close> assms(1,2) map_of_inject_set omap_ok_distinct by blast
  moreover have "zs = map (\<lambda>k. (k, the (map_of zs k))) (map fst zs)" if "omap_ok zs" for zs :: "('a \<times> 'b) list"
    using omap_ok_distinct [OF that] by (auto simp: o_def intro!: map_idI [symmetric])
  ultimately show ?thesis
    using assms(1,2) by metis
qed

section \<open>Saved state round trip\<close>

lemma u32_bytes_1 [simp]: "u32_of_bytes (bytes_of_u32 w) = w"
proof (rule bit_word_eqI)
  fix n assume "n < LENGTH(32)"
  then have "n < 8 \<or> 8 \<le> n \<and> n < 16 \<or> 16 \<le> n \<and> n < 24 \<or> 24 \<le> n \<and> n < 32"
    by auto
  then show "bit (u32_of_bytes (bytes_of_u32 w)) n = bit w n"
    by (elim disjE) (auto simp: u32_of_bytes_def bytes_of_u32_def bit_simps)
qed

lemma u32_bytes [simp]: "u32_of_bytes (bytes_of_u32 w @ bs) = w"
  using u32_bytes_1 [of w] by (simp add: u32_of_bytes_def bytes_of_u32_def)

lemma length_bytes_of_u32 [simp]: "length (bytes_of_u32 w) = 4"
  by (simp add: bytes_of_u32_def)

lemma bytes_of_u32_bytes:
  assumes "length bs = 4"
  shows "bytes_of_u32 (u32_of_bytes bs) = bs"
proof -
  have "bs = [bs ! 0, bs ! 1, bs ! 2, bs ! 3]"
    using assms by (intro nth_equalityI) (auto simp: less_Suc_eq numeral_eq_Suc)
  moreover have "bytes_of_u32 (u32_of_bytes [a, b, c, d]) = [a, b, c, d]" for a b c d
    unfolding u32_of_bytes_def bytes_of_u32_def
    by (simp add: byte_eq_iff all_less_8 bit_simps byte_bit_high)
  ultimately show ?thesis by metis
qed

lemma u32_take_bytes [simp]: "u32_of_bytes (take 4 (bytes_of_u32 w @ bs)) = w"
  using u32_bytes [of w "[]"] by simp

lemma u32s_of_bytes_concat: "u32s_of_bytes (length ws) (concat (map bytes_of_u32 ws) @ bs) = ws"
  by (induction ws) simp_all

lemma bytes_of_reinterpret:
  "length bs = 4 * n \<Longrightarrow> concat (map bytes_of_u32 (u32s_of_bytes n bs)) = bs"
  by (induction n arbitrary: bs) (simp_all add: bytes_of_u32_bytes)

lemma length_concat_u32 [simp]: "length (concat (map bytes_of_u32 ws)) = 4 * length ws"
  by (induction ws) auto

lemma read_u32_bytes [simp]: "read_u32 (bytes_of_u32 w @ bs) = Inr (w, bs)"
  by (simp add: read_u32_def)

lemma read_u32s_bytes:
  "length ws < 2 ^ 32 \<Longrightarrow>
     read_u32s (bytes_of_u32 (of_nat (length ws)) @ concat (map bytes_of_u32 ws) @ bs) = Inr (ws, bs)"
  by (simp add: read_u32s_def Let_def unat_of_nat u32s_of_bytes_concat)

lemma read_chars_bytes:
  "length cs < 2 ^ 32 \<Longrightarrow> read_chars (bytes_of_u32 (of_nat (length cs)) @ cs @ bs) = Inr (cs, bs)"
  by (simp add: read_chars_def Let_def unat_of_nat)

lemma state_u32_ok [simp]: "n < 2 ^ 32 \<Longrightarrow> state_u32 n = Inr (of_nat n)"
  by (simp add: state_u32_def)

text \<open>What is relied on of the library: a saved chunk is not empty, and loading it gives it back.\<close>

definition saves :: "'c mtmd \<Rightarrow> 'c \<Rightarrow> bool" where
  "saves M c \<longleftrightarrow> (\<exists>cs. chunk_save M c = Some cs \<and> cs \<noteq> [] \<and> length cs < 2 ^ 32 \<and> chunk_load M cs = Some c)"

lemma media_keys_ok: "\<forall>e \<in> set m. fst e < 2 ^ 32 \<Longrightarrow> media_keys_u32 m = Inr (map (\<lambda>e. of_nat (fst e)) m)"
  by (induction m) auto

definition chunk_bytes :: "'c mtmd \<Rightarrow> 'c \<Rightarrow> byte list" where
  "chunk_bytes M c = (let cs = the (chunk_save M c) in bytes_of_u32 (of_nat (length cs)) @ cs)"

lemma write_media_chunks_ok:
  "\<forall>e \<in> set m. saves M (snd e) \<Longrightarrow>
     write_media_chunks M m d = Inr (d @ concat (map (chunk_bytes M) (map snd m)))"
proof (induction m arbitrary: d)
  case (Cons e m)
  then obtain cs where "chunk_save M (snd e) = Some cs" "cs \<noteq> []" "length cs < 2 ^ 32"
    by (auto simp: saves_def)
  then show ?case
    using Cons by (simp add: write_media_chunk_def write_chars_def chunk_bytes_def)
qed simp

lemma read_media_ok:
  assumes "\<forall>e \<in> set m. saves M (snd e) \<and> fst e < 2 ^ 32" "omap_ok (m0 @ m)"
  shows "read_media M (map (\<lambda>e. of_nat (fst e)) m) (concat (map (chunk_bytes M) (map snd m)) @ bs)
           (st\<lparr>media := m0\<rparr>) = Inr (st\<lparr>media := m0 @ m\<rparr>, bs)"
  using assms
proof (induction m arbitrary: m0)
  case (Cons e m)
  then obtain cs where cs: "chunk_save M (snd e) = Some cs" "cs \<noteq> []" "length cs < 2 ^ 32"
    "chunk_load M cs = Some (snd e)"
    by (auto simp: saves_def)
  have "\<forall>k \<in> fst ` set m0. k < fst e"
    using Cons.prems(2) by (auto simp: omap_ok_def sorted_wrt_append)
  then have "omap_set (fst e) (snd e) m0 = m0 @ [e]"
    by (simp add: omap_set_last)
  then show ?case
    using Cons cs Cons.IH [of "m0 @ [e]"]
    by (simp add: chunk_bytes_def read_chars_bytes unat_of_nat)
qed simp

lemma writer_take_length: "length (writer_take d) = 4 * (length (writer_take d) div 4)"
  by (simp add: writer_take_def)

lemma writer_take_pad: "\<exists>pad. writer_take d = d @ pad \<and> length pad < 4"
  by (auto simp: writer_take_def)

lemma deserialize_bytes:
  assumes "d = bytes_of_u32 LLAMA_TOKEN_NULL @ bs" "length d = 4 * (length d div 4)"
  shows "reinterpret_tokens d \<noteq> []" "reinterpret_tokens d ! 0 = LLAMA_TOKEN_NULL"
    "concat (map bytes_of_u32 (reinterpret_tokens d)) = d"
proof -
  obtain k where k: "length d div 4 = Suc k"
    using assms by (cases "length d div 4") auto
  show "reinterpret_tokens d \<noteq> []" "reinterpret_tokens d ! 0 = LLAMA_TOKEN_NULL"
    unfolding reinterpret_tokens_def k by (simp_all add: assms(1))
  show "concat (map bytes_of_u32 (reinterpret_tokens d)) = d"
    unfolding reinterpret_tokens_def by (rule bytes_of_reinterpret) (rule assms(2))
qed

section \<open>Properties\<close>

text \<open>
  \<open>validate\<close> returns true exactly for the layouts of segment lists whose tokens
  are in the vocabulary and whose chunks are media chunks of at least one cell and position:
  the comment's picture of the token list and the media map being in sync.
\<close>

theorem validate_iff_layout:
  "omap_ok (media st) \<Longrightarrow>
     validate M n_vocab st \<longleftrightarrow>
       (\<exists>ss. list_all (seg_valid M n_vocab) ss \<and> st = layout M (has_mtmd st) ss)"
proof
  assume ok: "omap_ok (media st)" and "validate M n_vocab st"
  then obtain ss where ss: "list_all (seg_valid M n_vocab) ss" "toks st = lay_toks M ss"
    "set (lay_media M 0 ss) \<subseteq> set (media st)" "length (lay_media M 0 ss) = length (media st)"
    using validate_loop_segs [of M n_vocab st 0 0] by (auto simp: validate_def)
  then have "lay_media M 0 ss = media st"
    using ok omap_subset_eq lay_media_ok seg_valid_all_ok by blast
  then show "\<exists>ss. list_all (seg_valid M n_vocab) ss \<and> st = layout M (has_mtmd st) ss"
    using ss by (intro exI [of _ ss]) (simp add: layout_def)
next
  assume "\<exists>ss. list_all (seg_valid M n_vocab) ss \<and> st = layout M (has_mtmd st) ss"
  then obtain ss where ss: "list_all (seg_valid M n_vocab) ss" and st: "st = layout M (has_mtmd st) ss"
    by blast
  show "validate M n_vocab st"
    unfolding validate_def by (subst st) (use validate_walk [of M n_vocab "[]" ss] ss in simp)
qed

text \<open>A library whose chunks are their saved bytes, for the witnesses.\<close>

definition sample_mtmd :: "byte list mtmd" where
  "sample_mtmd = \<lparr>chunk_type_of = \<lambda>c. CHUNK_IMAGE, chunk_n_tokens = length, chunk_n_pos = \<lambda>c. 2,
     chunk_id = map (\<lambda>b. char_of (unat b)), chunk_tokens_text = \<lambda>c. [], chunk_copy = \<lambda>c. c,
     chunk_placeholder = Some, chunk_save = Some, chunk_load = Some\<rparr>"

definition sample_segs :: "byte list seg list" where
  "sample_segs = [Tok 5, Chunk [1, 2, 3], Tok 7]"

theorem validate_iff_layout_witness:
  "validate sample_mtmd 10 (layout sample_mtmd True sample_segs) \<longleftrightarrow>
     (\<exists>ss. list_all (seg_valid sample_mtmd 10) ss \<and>
        layout sample_mtmd True sample_segs = layout sample_mtmd (has_mtmd (layout sample_mtmd True sample_segs)) ss)"
  by (rule validate_iff_layout) (simp add: layout_def sample_segs_def sample_mtmd_def omap_ok_def)

text \<open>
  Appending a media chunk appends exactly one segment: its cells, and its entry
  at the index of its first cell (what is relied on of the library: a copy has as many tokens).
\<close>

theorem push_back_chunk_layout:
  "segs_wf M True ss \<Longrightarrow> chunk_type_of M c \<in> {CHUNK_IMAGE, CHUNK_AUDIO} \<Longrightarrow>
     chunk_n_tokens M (chunk_copy M c) = chunk_n_tokens M c \<Longrightarrow>
     push_back_chunk M c (layout M True ss) = Inr (layout M True (ss @ [Chunk (chunk_copy M c)]))"
  by (auto simp: push_back_chunk_def segs_wf_def put_chunk_layout)

theorem push_back_chunk_layout_witness:
  "push_back_chunk sample_mtmd [9] (layout sample_mtmd True sample_segs)
     = Inr (layout sample_mtmd True (sample_segs @ [Chunk (chunk_copy sample_mtmd [9])]))"
  by (rule push_back_chunk_layout)
    (simp_all add: segs_wf_def sample_segs_def sample_mtmd_def LLAMA_TOKEN_NULL_def)

text \<open>
  Property C3. The common prefix of two prompts is computed segment by segment: a media chunk
  counts entirely when ids and sizes agree and not at all otherwise, and no lookup fails.
\<close>

theorem get_common_prefix_segments:
  "segs_wf M ha ss \<Longrightarrow> segs_wf M hb ts \<Longrightarrow>
     get_common_prefix M (layout M ha ss) (layout M hb ts) = Inr (seg_lcp M ss ts)"
  using common_prefix_walk [of M "[]" ss "[]" ts ha hb]
  by (auto simp: get_common_prefix_def segs_wf_def text_prefix_layout)

theorem get_common_prefix_segments_witness:
  "get_common_prefix sample_mtmd (layout sample_mtmd True sample_segs)
      (layout sample_mtmd True [Tok 5, Chunk [1, 2, 3], Tok 8])
     = Inr (seg_lcp sample_mtmd sample_segs [Tok 5, Chunk [1, 2, 3], Tok 8])"
  by (rule get_common_prefix_segments)
    (simp_all add: segs_wf_def sample_segs_def sample_mtmd_def LLAMA_TOKEN_NULL_def)

text \<open>
  \<open>pos_next\<close> returns, and gives the sum of the positions of the segments before a
  segment boundary (of all of them for a negative argument).
\<close>

theorem pos_next_segments:
  "segs_wf M hm (pre @ post) \<Longrightarrow>
     pos_next M (int (segs_len M pre)) (layout M hm (pre @ post)) = Some (Inr (segs_pos M pre))
     \<and> (n < 0 \<longrightarrow> pos_next M n (layout M hm (pre @ post)) = Some (Inr (segs_pos M (pre @ post))))"
proof -
  assume wf: "segs_wf M hm (pre @ post)"
  have same: "list_all (\<lambda>s. \<not> is_chunk s) ss \<Longrightarrow> segs_pos M ss = int (segs_len M ss)" for ss
  proof (induction ss)
    case (Cons s ss) then show ?case by (cases s) auto
  qed simp
  show ?thesis
    using wf pos_loop_layout [of M "[]" pre post 0] same [of pre] same [of "pre @ post"]
    by (auto simp: pos_next_def segs_wf_def media_pos_sum)
qed

theorem pos_next_segments_witness:
  "pos_next sample_mtmd (int (segs_len sample_mtmd [Tok 5, Chunk [1, 2, 3]]))
     (layout sample_mtmd True ([Tok 5, Chunk [1, 2, 3]] @ [Tok 7]))
     = Some (Inr (segs_pos sample_mtmd [Tok 5, Chunk [1, 2, 3]]))
   \<and> pos_next sample_mtmd (-1) (layout sample_mtmd True ([Tok 5, Chunk [1, 2, 3]] @ [Tok 7]))
     = Some (Inr (segs_pos sample_mtmd ([Tok 5, Chunk [1, 2, 3]] @ [Tok 7])))"
proof -
  have "segs_wf sample_mtmd True ([Tok 5, Chunk [1, 2, 3]] @ [Tok 7])"
    by (simp add: segs_wf_def sample_mtmd_def LLAMA_TOKEN_NULL_def)
  from pos_next_segments [OF this, of "-1"] show ?thesis by simp
qed

text \<open>
  Cutting at a segment boundary (\<open>keep_first\<close>) keeps exactly the segments before it,
  except between two media chunks the first of which has more than one cell: there the code
  looks up the cell before the boundary, which starts no chunk, and throws.
\<close>

theorem keep_first_boundary:
  "segs_wf M hm (pre @ post) \<Longrightarrow>
     keep_first (segs_len M pre) (layout M hm (pre @ post)) =
       (if pre \<noteq> [] \<and> post \<noteq> [] \<and> is_chunk (last pre) \<and> is_chunk (hd post) \<and> seg_len M (last pre) \<noteq> 1
        then Inl (Throw ''Chunk not found'') else Inr (layout M hm pre))"
proof -
  assume wf: "segs_wf M hm (pre @ post)"
  then have ok: "list_all (seg_ok M) pre" "list_all (seg_ok M) post"
    by (simp_all add: segs_wf_def)
  have pos: "0 < segs_len M ss" if "list_all (seg_ok M) ss" "ss \<noteq> []" for ss
    using that seg_len_pos [of M "hd ss"] by (cases ss) auto
  then have lens: "post \<noteq> [] \<Longrightarrow> 0 < segs_len M post" "pre \<noteq> [] \<Longrightarrow> 0 < segs_len M pre"
    using ok by blast+
  have cut: "filter (\<lambda>e. fst e < segs_len M pre) (lay_media M 0 (pre @ post)) = lay_media M 0 pre"
    using lay_media_less [OF ok(1), of _ 0] lay_media_ge [of _ M "segs_len M pre" post]
    by (auto simp: lay_media_append filter_empty_conv not_less filter_id_conv)
  have no: "\<not> hm \<Longrightarrow> lay_media M 0 (pre @ post) = [] \<and> lay_media M 0 pre = []"
    using wf by (auto simp: segs_wf_def intro!: lay_media_no_chunk)
  have hd: "post \<noteq> [] \<Longrightarrow> lay_toks M (pre @ post) ! segs_len M pre = LLAMA_TOKEN_NULL \<longleftrightarrow> is_chunk (hd post)"
    using ok(2) nth_lay_toks [of M "hd post" pre "tl post"] by (cases post; cases "hd post") auto
  have last: "lay_toks M (pre @ post) ! (segs_len M pre - 1) = LLAMA_TOKEN_NULL \<longleftrightarrow> is_chunk (last pre)"
    and found: "is_chunk (last pre) \<Longrightarrow> find_chunk (segs_len M pre - 1) (layout M hm (pre @ post)) =
      (if seg_len M (last pre) = 1 then Inr (case last pre of Chunk c \<Rightarrow> c) else Inl (Throw ''Chunk not found''))"
    if "pre \<noteq> []"
  proof -
    from that obtain q s where pre: "pre = q @ [s]" by (cases pre rule: rev_cases) auto
    show "lay_toks M (pre @ post) ! (segs_len M pre - 1) = LLAMA_TOKEN_NULL \<longleftrightarrow> is_chunk (last pre)"
      using ok(1) by (cases s) (auto simp: pre lay_toks_append nth_append)
    show "find_chunk (segs_len M pre - 1) (layout M hm (pre @ post)) =
      (if seg_len M (last pre) = 1 then Inr (case last pre of Chunk c \<Rightarrow> c) else Inl (Throw ''Chunk not found''))"
      if "is_chunk (last pre)"
    proof -
      from that obtain c where s: "s = Chunk c" by (cases s) (auto simp: pre)
      have "map_of (lay_media M 0 (q @ Chunk c # post)) (segs_len M q + chunk_n_tokens M c - 1) =
          (if chunk_n_tokens M c = 1 then Some c else None)"
      proof (cases "chunk_n_tokens M c = 1")
        case True
        then show ?thesis using map_of_lay_media [of M q "Chunk c" post] ok pre by simp
      next
        case False
        then have "segs_len M q + chunk_n_tokens M c - 1 \<notin> fst ` set (lay_media M 0 (q @ Chunk c # post))"
          using ok pre s lay_media_less [of M q _ 0] lay_media_ge [of _ M "segs_len M q + chunk_n_tokens M c" post]
          by (fastforce simp: lay_media_append)
        then show ?thesis using False by (simp add: map_of_eq_None_iff)
      qed
      then show ?thesis
        by (simp add: find_chunk_def pre s)
    qed
  qed
  show ?thesis
  proof (cases "post = [] \<or> \<not> hm")
    case True
    then show ?thesis
      using no wf by (auto simp: keep_first_def layout_def lay_toks_append segs_wf_def list_all_iff)
  next
    case False
    then show ?thesis
      using lens cut hd last found
      by (cases "pre = []") (auto simp: keep_first_def Let_def layout_def lay_toks_append)
  qed
qed

definition sample_pre :: "byte list seg list" where
  "sample_pre = [Tok 5, Chunk [1, 2, 3]]"

definition sample_post :: "byte list seg list" where
  "sample_post = [Chunk [4]]"

theorem keep_first_boundary_witness:
  "keep_first (segs_len sample_mtmd sample_pre) (layout sample_mtmd True (sample_pre @ sample_post)) =
     (if sample_pre \<noteq> [] \<and> sample_post \<noteq> [] \<and> is_chunk (last sample_pre) \<and> is_chunk (hd sample_post)
         \<and> seg_len sample_mtmd (last sample_pre) \<noteq> 1
      then Inl (Throw ''Chunk not found'') else Inr (layout sample_mtmd True sample_pre))"
  by (rule keep_first_boundary)
    (simp_all add: segs_wf_def sample_pre_def sample_post_def sample_mtmd_def LLAMA_TOKEN_NULL_def)

text \<open>The exceptional branch: two adjacent images cannot be separated.\<close>

theorem keep_first_adjacent_chunks_throws:
  "keep_first 4 (layout sample_mtmd True (sample_pre @ sample_post)) = Inl (Throw ''Chunk not found'')"
  by code_simp

text \<open>
  One cell into a chunk the lookup succeeds, so that the cut goes through the chunk, which the
  comment calls disallowed: the result is no layout of segments.
\<close>

theorem keep_first_cuts_chunk:
  "(case keep_first 2 (layout sample_mtmd True sample_segs) of
      Inr st \<Rightarrow> toks st = [5, LLAMA_TOKEN_NULL] \<and> \<not> validate sample_mtmd 10 st
    | Inl _ \<Rightarrow> False)"
  by code_simp

text \<open>
  Property C2. A saved prompt is read back unchanged: the token list, every media chunk and the
  index it starts at.
\<close>

theorem deserialize_serialize:
  "length (toks st) < 2 ^ 32 \<Longrightarrow> length (media st) < 2 ^ 32 \<Longrightarrow> omap_ok (media st) \<Longrightarrow>
     \<forall>e \<in> set (media st). saves M (snd e) \<and> fst e < 2 ^ 32 \<Longrightarrow>
     media st = [] \<or> has_mtmd st \<Longrightarrow>
     rbind (st_serialize M st) (\<lambda>d. st_deserialize M (reinterpret_tokens d) (has_mtmd st)) = Inr st"
proof -
  assume a: "length (toks st) < 2 ^ 32" "length (media st) < 2 ^ 32" "omap_ok (media st)"
    "\<forall>e \<in> set (media st). saves M (snd e) \<and> fst e < 2 ^ 32" "media st = [] \<or> has_mtmd st"
  define keys where "keys = map (\<lambda>e. of_nat (fst e) :: 32 word) (media st)"
  define body where "body = bytes_of_u32 SERVER_TOKENS_STATE_VERSION
     @ (bytes_of_u32 (of_nat (length (toks st))) @ concat (map bytes_of_u32 (toks st))
     @ (bytes_of_u32 (of_nat (length keys)) @ concat (map bytes_of_u32 keys)
     @ concat (map (chunk_bytes M) (map snd (media st)))))"
  obtain pad where pad: "writer_take (bytes_of_u32 LLAMA_TOKEN_NULL @ body) = bytes_of_u32 LLAMA_TOKEN_NULL @ body @ pad"
    "length pad < 4"
    using writer_take_pad [of "bytes_of_u32 LLAMA_TOKEN_NULL @ body"] by auto
  have len: "length keys = length (media st)" by (simp add: keys_def)
  have ser: "st_serialize M st = Inr (bytes_of_u32 LLAMA_TOKEN_NULL @ body @ pad)"
    using a pad(1) by (simp add: st_serialize_def write_u32s_def media_keys_ok write_media_chunks_ok
        body_def keys_def)
  have d: "reinterpret_tokens (bytes_of_u32 LLAMA_TOKEN_NULL @ body @ pad) \<noteq> []"
    "reinterpret_tokens (bytes_of_u32 LLAMA_TOKEN_NULL @ body @ pad) ! 0 = LLAMA_TOKEN_NULL"
    "concat (map bytes_of_u32 (reinterpret_tokens (bytes_of_u32 LLAMA_TOKEN_NULL @ body @ pad)))
       = bytes_of_u32 LLAMA_TOKEN_NULL @ body @ pad"
    using deserialize_bytes [OF refl, of "body @ pad"]
      writer_take_length [of "bytes_of_u32 LLAMA_TOKEN_NULL @ body"] unfolding pad(1) by blast+
  have rm: "read_media M keys (concat (map (chunk_bytes M) (map snd (media st))) @ pad)
      (st_of_tokens (toks st) (has_mtmd st)) = Inr (st, pad)"
    using read_media_ok [of "media st" M "[]" pad "st_of_tokens (toks st) (has_mtmd st)"] a
    by (simp add: keys_def st_of_tokens_def)
  have nk: "\<not> (keys \<noteq> [] \<and> \<not> has_mtmd st)"
    using a(5) by (auto simp: keys_def)
  have rk: "read_u32s (bytes_of_u32 (of_nat (length (media st))) @ concat (map bytes_of_u32 keys) @ bs) = Inr (keys, bs)" for bs
    using a(2) read_u32s_bytes [of keys bs] by (simp add: len)
  show ?thesis
    using a(1,2) d rm pad(2) nk rk unfolding ser
    by (simp add: st_deserialize_def body_def read_u32s_bytes len)
qed

theorem deserialize_serialize_witness:
  "rbind (st_serialize sample_mtmd (layout sample_mtmd True sample_segs))
     (\<lambda>d. st_deserialize sample_mtmd (reinterpret_tokens d) (has_mtmd (layout sample_mtmd True sample_segs)))
   = Inr (layout sample_mtmd True sample_segs)"
  by (rule deserialize_serialize)
    (simp_all add: layout_def sample_segs_def sample_mtmd_def omap_ok_def saves_def)

text \<open>
  \<open>push_back(server_tokens &)\<close> is declared to copy the media chunks of its argument.  It fails
  on every argument that has one: their cells are null tokens, which \<open>push_back(llama_token)\<close>
  rejects.  (An entry without cells would make the loop below it run for ever.)
\<close>

theorem push_back_tokens_media_throws:
  "segs_wf M hm ss \<Longrightarrow> \<exists>s \<in> set ss. is_chunk s \<Longrightarrow>
     push_back_tokens M (layout M hm ss) st = Some (Inl (Throw ''Invalid token''))"
proof -
  assume "segs_wf M hm ss" "\<exists>s \<in> set ss. is_chunk s"
  then have "list_all (seg_ok M) ss" "\<exists>s \<in> set ss. is_chunk s"
    by (simp_all add: segs_wf_def)
  then have "LLAMA_TOKEN_NULL \<in> set (lay_toks M ss)"
    by (induction M ss rule: lay_toks.induct) auto
  then show ?thesis
    by (simp add: push_back_tokens_def push_back_toks_null)
qed

text \<open>
  \<open>size_up_to_pos\<close> is described as the number of tokens below a position.  At a segment boundary
  other than the start it is; for position 0 the multimodal branch counts the first segment.
\<close>

lemma size_up_to_pos_boundary:
  "segs_wf M hm (pre @ post) \<Longrightarrow> pre \<noteq> [] \<Longrightarrow> hm \<Longrightarrow>
     size_up_to_pos M (segs_pos M pre) (layout M hm (pre @ post)) = Some (segs_len M pre)"
  using size_up_to_loop_layout [of M "[]" pre post hm 0] by (simp add: size_up_to_pos_def segs_wf_def)

theorem size_up_to_pos_zero:
  "size_up_to_pos sample_mtmd 0 (layout sample_mtmd True [Tok 5]) = Some 1
   \<and> size_up_to_pos sample_mtmd 0 (layout sample_mtmd False [Tok 5]) = Some 0"
  by (simp add: size_up_to_pos_def layout_def size_up_to_loop.simps)

end
