(* ===== verification/Json.thy ===== *)
theory Json
  imports Prelude Complex_Main
begin

text \<open>
  JSON values as the server builds and inspects them (the library \<open>common_json\<close> is used
  through this datatype).  Objects keep the order of insertion; \<open>j[k] = v\<close> replaces an
  existing member in place and appends a new one.  Floating-point numbers are rationals.
\<close>

datatype json =
    JNull
  | JBool bool
  | JInt int
  | JNum rat
  | JStr string
  | JArr "json list"
  | JObj "(string \<times> json) list"

fun members_set :: "string \<Rightarrow> json \<Rightarrow> (string \<times> json) list \<Rightarrow> (string \<times> json) list" where
  "members_set k v [] = [(k, v)]"
| "members_set k v (m # ms) = (if fst m = k then (k, v) # ms else m # members_set k v ms)"

text \<open>\<open>j[k] = v\<close>; assigning a member turns null into an object.  On other values the library throws.\<close>

fun jset :: "string \<Rightarrow> json \<Rightarrow> json \<Rightarrow> json" where
  "jset k v (JObj ms) = JObj (members_set k v ms)"
| "jset k v JNull = JObj [(k, v)]"
| "jset k v j = j"

fun jfind :: "string \<Rightarrow> json \<Rightarrow> json option" where
  "jfind k (JObj ms) = map_of ms k"
| "jfind k j = None"

definition jcontains :: "string \<Rightarrow> json \<Rightarrow> bool" where
  "jcontains k j = (jfind k j \<noteq> None)"

fun jpush :: "json \<Rightarrow> json \<Rightarrow> json" where
  "jpush v (JArr vs) = JArr (vs @ [v])"
| "jpush v JNull = JArr [v]"
| "jpush v j = j"

text \<open>\<open>json_value(body, key, default)\<close>: \<open>get\<close> is the typed read, \<open>None\<close> for the wrong type.\<close>

definition json_value :: "(json \<Rightarrow> 'a option) \<Rightarrow> json \<Rightarrow> string \<Rightarrow> 'a \<Rightarrow> 'a" where
  "json_value get body key dflt =
     (case jfind key body of
        None \<Rightarrow> dflt
      | Some JNull \<Rightarrow> dflt
      | Some v \<Rightarrow> (case get v of Some x \<Rightarrow> x | None \<Rightarrow> dflt))"

fun get_int :: "json \<Rightarrow> int option" where
  "get_int (JInt i) = Some i"
| "get_int _ = None"

fun get_bool :: "json \<Rightarrow> bool option" where
  "get_bool (JBool b) = Some b"
| "get_bool _ = None"

fun get_str :: "json \<Rightarrow> string option" where
  "get_str (JStr s) = Some s"
| "get_str _ = None"

lemma map_of_members_set [simp]: "map_of (members_set k v ms) k' = (if k' = k then Some v else map_of ms k')"
  by (induction ms) auto

lemma jfind_jset_obj [simp]: "jfind k' (jset k v (JObj ms)) = (if k' = k then Some v else map_of ms k')"
  by simp

definition jstrs :: "string list \<Rightarrow> json" where
  "jstrs ss = JArr (map JStr ss)"

end
