(* ===== verification/Task.thy ===== *)
theory Task
  imports Tokens Json
begin

text \<open>
  The unit of work of the server (server-task.h): the task types, the request parameters, the
  task record with its child tasks, and what the scheduler asks of a task.  Structures of the
  inference library that the server only passes on are the type \<open>lib_value\<close>.
  Task ids are unbounded integers (the code uses \<open>int\<close>, which overflows after 2^31 ids).
\<close>

datatype lib_value = LibValue string

datatype server_task_type =
    TASK_COMPLETION | TASK_EMBEDDING | TASK_RERANK | TASK_INFILL | TASK_CANCEL | TASK_CONTROL
  | TASK_NEXT_RESPONSE | TASK_METRICS | TASK_SLOT_GET | TASK_SLOT_SAVE | TASK_SLOT_RESTORE
  | TASK_SLOT_ERASE | TASK_GET_LORA | TASK_SET_LORA

datatype task_response_type =
    RESPONSE_NONE | RESPONSE_OAI_CHAT | RESPONSE_OAI_CMPL | RESPONSE_OAI_RESP
  | RESPONSE_OAI_ASR | RESPONSE_OAI_EMBD | RESPONSE_ANTHROPIC

datatype stop_type = STOP_NONE | STOP_EOS | STOP_WORD | STOP_LIMIT

text \<open>The fields of the library's sampling parameters that the server reads.\<close>

record sampling_params =
  sp_seed :: "32 word"
  sp_temp :: rat
  sp_dynatemp_range :: rat
  sp_dynatemp_exponent :: rat
  sp_top_k :: int
  sp_top_p :: rat
  sp_min_p :: rat
  sp_top_n_sigma :: rat
  sp_xtc_probability :: rat
  sp_xtc_threshold :: rat
  sp_typ_p :: rat
  sp_penalty_last_n :: int
  sp_penalty_repeat :: rat
  sp_penalty_present :: rat
  sp_penalty_freq :: rat
  sp_dry_multiplier :: rat
  sp_dry_base :: rat
  sp_dry_allowed_length :: int
  sp_dry_penalty_last_n :: int
  sp_dry_sequence_breakers :: "string list"
  sp_mirostat :: int
  sp_mirostat_tau :: rat
  sp_mirostat_eta :: rat
  sp_adaptive_target :: rat
  sp_adaptive_decay :: rat
  sp_ignore_eos :: bool
  sp_logit_bias :: "(llama_token \<times> rat) list"
  sp_n_probs :: int
  sp_min_keep :: int
  sp_grammar :: string
  sp_grammar_lazy :: bool
  sp_grammar_triggers :: "json list"
  sp_preserved_tokens :: "llama_token list"
  sp_samplers :: "string list"
  sp_backend_sampling :: bool
  sp_reasoning_control :: bool

record chat_parser_params =
  cpp_format :: string
  cpp_reasoning_format :: string
  cpp_reasoning_in_content :: bool
  cpp_generation_prompt :: string
  cpp_is_continuation :: bool
  cpp_echo :: bool

definition LLAMA_DEFAULT_SEED :: "32 word" where
  "LLAMA_DEFAULT_SEED = 0xFFFFFFFF"

record task_params =
  stream :: bool
  include_usage :: bool
  cache_prompt :: bool
  return_tokens :: bool
  return_progress :: bool
  sse_ping_interval :: int
  n_keep :: int
  n_discard :: int
  n_predict :: int
  n_indent :: int
  n_cmpl :: int
  n_cache_reuse :: int
  t_max_prompt_ms :: int
  t_max_predict_ms :: int
  p_lora :: "(int \<times> rat) list"
  antiprompt :: "string list"
  response_fields :: "string list"
  timings_per_token :: bool
  post_sampling_probs :: bool
  sampling :: sampling_params
  speculative :: string
  verbose :: bool
  res_type :: task_response_type
  oaicompat_model :: string
  oaicompat_cmpl_id :: string
  control_action :: string
  control_cmpl_id :: string
  chat_parser :: chat_parser_params
  message_spans :: lib_value
  embd_normalize :: int

record slot_action =
  sa_id_slot :: int
  sa_filename :: string
  sa_filepath :: string

text \<open>
  A task; the tasks in \<open>child_tasks\<close> are built by \<open>add_child\<close>, which gives them no children of
  their own, so that a child is a task without that field.
\<close>

record 'c child_task =
  task_id :: int
  task_index :: nat
  id_target :: int
  id_slot :: int
  id_parent :: int
  params :: task_params
  tokens :: "'c server_tokens"
  cli :: bool
  cli_prompt :: string
  cli_files :: "byte list list"
  type_of_task :: server_task_type
  slot_action_of :: slot_action
  metrics_reset_bucket :: bool
  set_lora :: "(int \<times> rat) list"

record 'c server_task = "'c child_task" +
  child_tasks :: "'c child_task list"

definition task_n_tokens :: "('c, 'z) child_task_scheme \<Rightarrow> int" where
  "task_n_tokens t = int (st_size (tokens t))"

definition need_embd :: "('c, 'z) child_task_scheme \<Rightarrow> bool" where
  "need_embd t = (case type_of_task t of TASK_EMBEDDING \<Rightarrow> True | TASK_RERANK \<Rightarrow> True | _ \<Rightarrow> False)"

definition need_logits :: "('c, 'z) child_task_scheme \<Rightarrow> bool" where
  "need_logits t = (case type_of_task t of TASK_COMPLETION \<Rightarrow> True | TASK_INFILL \<Rightarrow> True | _ \<Rightarrow> False)"

definition need_sampling :: "('c, 'z) child_task_scheme \<Rightarrow> bool" where
  "need_sampling t = (case type_of_task t of TASK_COMPLETION \<Rightarrow> True | TASK_INFILL \<Rightarrow> True | _ \<Rightarrow> False)"

definition is_parent :: "'c server_task \<Rightarrow> bool" where
  "is_parent t = (length (child_tasks t) > 0)"

definition is_child :: "('c, 'z) child_task_scheme \<Rightarrow> bool" where
  "is_child t = (id_parent t \<noteq> -1)"

text \<open>A child task taken out of its parent.\<close>

definition task_of_child :: "'c child_task \<Rightarrow> 'c server_task" where
  "task_of_child c = child_task.extend c \<lparr>child_tasks = []\<rparr>"

definition task_ids :: "'c server_task \<Rightarrow> int list" where
  "task_ids t = task_id t # map task_id (child_tasks t)"

text \<open>The set of ids, as a list without repetitions (the code iterates over it in no particular order).\<close>

definition get_list_id :: "'c server_task list \<Rightarrow> int list" where
  "get_list_id ts = remdups (concat (map task_ids ts))"

text \<open>
  The fields of the copy that \<open>add_child\<close> does not set keep the initializers of the class
  (\<open>type\<close> and \<open>slot_action\<close> have none there; the action of a child is never read).
\<close>

definition add_child :: "'c mtmd \<Rightarrow> int \<Rightarrow> int \<Rightarrow> 'c server_task \<Rightarrow> 'c server_task" where
  "add_child M parent child t =
     (let s = sp_seed (sampling (params t));
          s' = (if s \<noteq> LLAMA_DEFAULT_SEED then s + (of_nat (length (child_tasks t)) + 1) else s);
          copy = \<lparr>task_id = child, task_index = 0, id_target = -1, id_slot = -1, id_parent = parent,
                  params = (params t)\<lparr>sampling := (sampling (params t))\<lparr>sp_seed := s'\<rparr>\<rparr>,
                  tokens = clone M (tokens t), cli = False, cli_prompt = [], cli_files = [],
                  type_of_task = type_of_task t,
                  slot_action_of = \<lparr>sa_id_slot = 0, sa_filename = [], sa_filepath = []\<rparr>,
                  metrics_reset_bucket = False, set_lora = []\<rparr>
      in t\<lparr>child_tasks := child_tasks t @ [copy]\<rparr>)"

lemma task_of_child_simps [simp]:
  "task_id (task_of_child c) = task_id c" "tokens (task_of_child c) = tokens c"
  "params (task_of_child c) = params c" "type_of_task (task_of_child c) = type_of_task c"
  "id_slot (task_of_child c) = id_slot c" "id_parent (task_of_child c) = id_parent c"
  "child_tasks (task_of_child c) = []"
  by (simp_all add: task_of_child_def child_task.extend_def)

lemma is_parent_add_child [simp]: "is_parent (add_child M p c t)"
  by (simp add: is_parent_def add_child_def Let_def)

lemma task_ids_add_child: "task_ids (add_child M p c t) = task_ids t @ [c]"
  by (simp add: task_ids_def add_child_def Let_def)

text \<open>
  Parameters for concrete tasks in witnesses: the initializers of \<open>task_params\<close>, with the
  library's sampling parameters all off.
\<close>

definition sample_sampling :: sampling_params where
  "sample_sampling = \<lparr>sp_seed = LLAMA_DEFAULT_SEED, sp_temp = 0, sp_dynatemp_range = 0, sp_dynatemp_exponent = 0,
     sp_top_k = 0, sp_top_p = 0, sp_min_p = 0, sp_top_n_sigma = 0, sp_xtc_probability = 0,
     sp_xtc_threshold = 0, sp_typ_p = 0, sp_penalty_last_n = 0, sp_penalty_repeat = 0,
     sp_penalty_present = 0, sp_penalty_freq = 0, sp_dry_multiplier = 0, sp_dry_base = 0,
     sp_dry_allowed_length = 0, sp_dry_penalty_last_n = 0, sp_dry_sequence_breakers = [],
     sp_mirostat = 0, sp_mirostat_tau = 0, sp_mirostat_eta = 0, sp_adaptive_target = 0,
     sp_adaptive_decay = 0, sp_ignore_eos = False, sp_logit_bias = [], sp_n_probs = 0,
     sp_min_keep = 0, sp_grammar = [], sp_grammar_lazy = False, sp_grammar_triggers = [],
     sp_preserved_tokens = [], sp_samplers = [], sp_backend_sampling = False, sp_reasoning_control = False\<rparr>"

definition sample_params :: task_params where
  "sample_params = \<lparr>stream = False, include_usage = False, cache_prompt = True, return_tokens = False,
     return_progress = False, sse_ping_interval = 30, n_keep = 0, n_discard = 0, n_predict = -1,
     n_indent = 0, n_cmpl = 1, n_cache_reuse = 0, t_max_prompt_ms = -1, t_max_predict_ms = -1,
     p_lora = [], antiprompt = [], response_fields = [], timings_per_token = False,
     post_sampling_probs = False, sampling = sample_sampling, speculative = [], verbose = False,
     res_type = RESPONSE_NONE, oaicompat_model = [], oaicompat_cmpl_id = [], control_action = [],
     control_cmpl_id = [],
     chat_parser = \<lparr>cpp_format = [], cpp_reasoning_format = [], cpp_reasoning_in_content = False,
       cpp_generation_prompt = [], cpp_is_continuation = False, cpp_echo = False\<rparr>,
     message_spans = LibValue [], embd_normalize = 2\<rparr>"

end
