(* ===== verification/Queue.thy ===== *)
theory Queue
  imports Task
begin

text \<open>
  The task queue (\<open>server_queue\<close>, server-queue.h and server-queue.cpp) and its two threads.

  The first part has one definition per critical section of the code: every operation runs
  with \<open>mutex_tasks\<close> held and is therefore one atomic step.  The second part is the step
  relation of the threads: the main thread in \<open>start_loop\<close> (processing, updating the slots,
  yielding, sleeping), the worker thread in \<open>worker_loop\<close>, and the other threads that post,
  defer, pop and terminate.  Condition variables are the conditions they wait for; a
  spurious or missed wake-up changes no state.

  The invariants of the reachable states are: no task is lost or duplicated, the callback runs
  on one thread at a time, declined tasks wait only while a yield is under way, ids are fresh.
\<close>

section \<open>State\<close>

text \<open>\<open>w_joinable\<close> is \<open>worker.thread.joinable()\<close>; times are milliseconds.\<close>

record 'c server_queue =
  q_id :: int
  running :: bool
  sleeping :: bool
  req_stop_sleeping :: bool
  time_last_task :: int
  queue_tasks :: "'c server_task list"
  queue_tasks_deferred :: "'c server_task list"
  queue_tasks_unhandled :: "'c server_task list"
  w_joinable :: bool
  w_exception :: "failure option"
  w_stop :: bool
  w_busy :: bool
  w_yielding :: bool

definition queue_init :: "'c server_queue" where
  "queue_init = \<lparr>q_id = 0, running = False, sleeping = False, req_stop_sleeping = False, time_last_task = 0,
     queue_tasks = [], queue_tasks_deferred = [], queue_tasks_unhandled = [],
     w_joinable = False, w_exception = None, w_stop = False, w_busy = False, w_yielding = False\<rparr>"

section \<open>Operations\<close>

definition task_resets_idle_timer :: "server_task_type \<Rightarrow> bool" where
  "task_resets_idle_timer ty = (ty \<noteq> TASK_METRICS)"

definition cleanup_pending_task :: "int \<Rightarrow> 'c server_queue \<Rightarrow> 'c server_queue" where
  "cleanup_pending_task target q =
     (let keep = filter (\<lambda>t. task_id t \<noteq> target)
      in q\<lparr>queue_tasks := keep (queue_tasks q),
           queue_tasks_deferred := keep (queue_tasks_deferred q),
           queue_tasks_unhandled := keep (queue_tasks_unhandled q)\<rparr>)"

definition push_task :: "bool \<Rightarrow> 'c server_task \<Rightarrow> 'c server_queue \<Rightarrow> 'c server_queue" where
  "push_task front t q =
     (let q = (if type_of_task t = TASK_CANCEL then cleanup_pending_task (id_target t) q else q)
      in q\<lparr>queue_tasks := (if front then t # queue_tasks q else queue_tasks q @ [t])\<rparr>)"

text \<open>\<open>post\<close> of one task; \<open>now\<close> is the clock.\<close>

definition post_task :: "int \<Rightarrow> 'c server_task \<Rightarrow> bool \<Rightarrow> 'c server_queue \<Rightarrow> (int \<times> 'c server_queue) result" where
  "post_task now t front q =
     (if task_id t = -1 then Inl Abort
      else
        let q = push_task front t q;
            q = (if task_resets_idle_timer (type_of_task t) then q\<lparr>time_last_task := now\<rparr> else q)
        in Inr (task_id t, q))"

definition assign_id :: "'c server_task \<Rightarrow> 'c server_queue \<Rightarrow> 'c server_task \<times> 'c server_queue" where
  "assign_id t q = (if task_id t = -1 then (t\<lparr>task_id := q_id q\<rparr>, q\<lparr>q_id := q_id q + 1\<rparr>) else (t, q))"

fun post_loop :: "'c server_task list \<Rightarrow> bool \<Rightarrow> bool \<Rightarrow> 'c server_queue \<Rightarrow> bool \<times> 'c server_queue" where
  "post_loop [] front reset q = (reset, q)"
| "post_loop (t # ts) front reset q =
     (let (t, q) = assign_id t q
      in post_loop ts front (reset \<or> task_resets_idle_timer (type_of_task t)) (push_task front t q))"

text \<open>\<open>post\<close> of a list of tasks.\<close>

definition post_tasks :: "int \<Rightarrow> 'c server_task list \<Rightarrow> bool \<Rightarrow> 'c server_queue \<Rightarrow> 'c server_queue" where
  "post_tasks now ts front q =
     (let (reset, q) = post_loop ts front False q
      in if reset then q\<lparr>time_last_task := now\<rparr> else q)"

definition defer_task :: "int \<Rightarrow> 'c server_task \<Rightarrow> 'c server_queue \<Rightarrow> 'c server_queue" where
  "defer_task now t q = q\<lparr>queue_tasks_deferred := queue_tasks_deferred q @ [t], time_last_task := now\<rparr>"

definition get_new_id :: "'c server_queue \<Rightarrow> int \<times> 'c server_queue" where
  "get_new_id q = (q_id q, q\<lparr>q_id := q_id q + 1\<rparr>)"

text \<open>The first deferred task that asks for the slot, and the deferred tasks without it.\<close>

fun take_deferred :: "int \<Rightarrow> 'c server_task list \<Rightarrow> ('c server_task \<times> 'c server_task list) option" where
  "take_deferred slot [] = None"
| "take_deferred slot (t # ts) =
     (if id_slot t = slot then Some (t, ts)
      else map_option (\<lambda>(u, us). (u, t # us)) (take_deferred slot ts))"

definition pop_deferred_task :: "int \<Rightarrow> int \<Rightarrow> 'c server_queue \<Rightarrow> 'c server_queue" where
  "pop_deferred_task now slot q =
     (let q = (case queue_tasks_deferred q of
                 [] \<Rightarrow> q
               | d # ds \<Rightarrow>
                   (case take_deferred slot (d # ds) of
                      Some (t, rest) \<Rightarrow> q\<lparr>queue_tasks := t # queue_tasks q, queue_tasks_deferred := rest\<rparr>
                    | None \<Rightarrow> q\<lparr>queue_tasks := d # queue_tasks q, queue_tasks_deferred := ds\<rparr>))
      in q\<lparr>time_last_task := now\<rparr>)"

text \<open>\<open>wait_until_no_sleep\<close>: the request it leaves, and the condition it then waits for.\<close>

definition request_no_sleep :: "'c server_queue \<Rightarrow> 'c server_queue" where
  "request_no_sleep q = (if sleeping q \<and> \<not> req_stop_sleeping q then q\<lparr>req_stop_sleeping := True\<rparr> else q)"

definition no_sleep_returns :: "'c server_queue \<Rightarrow> bool" where
  "no_sleep_returns q = (\<not> sleeping q)"

definition terminate :: "'c server_queue \<Rightarrow> 'c server_queue" where
  "terminate q = q\<lparr>running := False\<rparr>"

text \<open>One turn of \<open>process_new_tasks\<close> before the callback, and the decline after it.\<close>

datatype 'c taken = Terminated | NoTask | Taken "'c server_task" "'c server_queue"

definition process_take :: "'c server_queue \<Rightarrow> 'c taken" where
  "process_take q =
     (if \<not> running q then Terminated
      else case queue_tasks q of
             [] \<Rightarrow> NoTask
           | t # ts \<Rightarrow> Taken t (q\<lparr>queue_tasks := ts\<rparr>))"

definition process_declined :: "bool \<Rightarrow> 'c server_task \<Rightarrow> 'c server_queue \<Rightarrow> 'c server_queue result" where
  "process_declined is_yielding t q =
     (if \<not> is_yielding then Inl Abort
      else Inr (q\<lparr>queue_tasks_unhandled := queue_tasks_unhandled q @ [t]\<rparr>))"

text \<open>The conditions of \<open>worker_loop\<close>.\<close>

definition worker_may_start :: "'c server_queue \<Rightarrow> bool" where
  "worker_may_start q = (w_stop q \<or> w_busy q)"

definition worker_leaves :: "bool \<Rightarrow> 'c server_queue \<Rightarrow> bool" where
  "worker_leaves terminated q = (terminated \<or> w_stop q \<or> \<not> w_yielding q)"

definition worker_wakes :: "'c server_queue \<Rightarrow> bool" where
  "worker_wakes q = (w_stop q \<or> \<not> running q \<or> \<not> w_yielding q \<or> queue_tasks q \<noteq> [])"

definition worker_done :: "'c server_queue \<Rightarrow> 'c server_queue" where
  "worker_done q = q\<lparr>w_busy := False\<rparr>"

definition worker_stop :: "'c server_queue \<Rightarrow> 'c server_queue" where
  "worker_stop q = (if \<not> w_joinable q then q else q\<lparr>w_stop := True\<rparr>)"

text \<open>The critical sections of \<open>yield_to_queue\<close>: before the work, and after it.\<close>

definition yield_begin :: "'c server_queue \<Rightarrow> 'c server_queue result" where
  "yield_begin q =
     (if \<not> w_joinable q then Inl Abort
      else if w_busy q then Inl Abort
      else Inr (q\<lparr>w_busy := True, w_yielding := True\<rparr>))"

definition yield_over :: "'c server_queue \<Rightarrow> 'c server_queue" where
  "yield_over q = q\<lparr>w_yielding := False\<rparr>"

function restore_unhandled :: "'c server_queue \<Rightarrow> 'c server_queue" where
  "restore_unhandled q =
     (if queue_tasks_unhandled q = [] then q
      else restore_unhandled
             (q\<lparr>queue_tasks := last (queue_tasks_unhandled q) # queue_tasks q,
                queue_tasks_unhandled := butlast (queue_tasks_unhandled q)\<rparr>))"
  by pat_completeness auto
termination
  by (relation "measure (\<lambda>q. length (queue_tasks_unhandled q))") auto

declare restore_unhandled.simps [simp del]

definition yield_end :: "int \<Rightarrow> failure option \<Rightarrow> 'c server_queue \<Rightarrow> failure option \<times> 'c server_queue" where
  "yield_end now e q =
     (let q = (restore_unhandled q)\<lparr>time_last_task := now\<rparr>
      in case e of
           None \<Rightarrow> (w_exception q, q\<lparr>w_exception := None\<rparr>)
         | Some x \<Rightarrow> (Some x, q\<lparr>w_exception := None\<rparr>))"

text \<open>The sections of \<open>start_loop\<close>.\<close>

definition loop_start :: "int \<Rightarrow> 'c server_queue \<Rightarrow> 'c server_queue result" where
  "loop_start now q =
     (if w_joinable q then Inl Abort
      else Inr (q\<lparr>running := True, time_last_task := now, w_stop := False, w_busy := False,
                  w_yielding := False, w_joinable := True\<rparr>))"

definition should_sleep :: "int \<Rightarrow> int \<Rightarrow> 'c server_queue \<Rightarrow> bool" where
  "should_sleep idle_sleep_ms now q = (if idle_sleep_ms < 0 then False else now - time_last_task q \<ge> idle_sleep_ms)"

definition shift_idle_time :: "int \<Rightarrow> int \<Rightarrow> 'c server_queue \<Rightarrow> 'c server_queue" where
  "shift_idle_time t_update_slots now q =
     q\<lparr>time_last_task := min now (time_last_task q + (now - t_update_slots))\<rparr>"

definition sleep_enter :: "'c server_queue \<Rightarrow> 'c server_queue" where
  "sleep_enter q = q\<lparr>sleeping := True, req_stop_sleeping := False\<rparr>"

definition sleep_wakes :: "'c server_queue \<Rightarrow> bool" where
  "sleep_wakes q = (\<not> running q \<or> req_stop_sleeping q)"

definition sleep_exit :: "int \<Rightarrow> 'c server_queue \<Rightarrow> 'c server_queue" where
  "sleep_exit now q =
     (if \<not> running q then q
      else q\<lparr>req_stop_sleeping := False, sleeping := False, time_last_task := now\<rparr>)"

text \<open>The order in which the sleeping-state callbacks run, by their index.\<close>

definition sleep_callbacks :: "bool \<Rightarrow> nat \<Rightarrow> nat list" where
  "sleep_callbacks entering n = (if entering then [0..<n] else rev [0..<n])"

section \<open>Effect of the operations\<close>

definition pending :: "'c server_queue \<Rightarrow> 'c server_task multiset" where
  "pending q = mset (queue_tasks q) + mset (queue_tasks_deferred q) + mset (queue_tasks_unhandled q)"

definition cancelled_by :: "'c server_task \<Rightarrow> 'c server_queue \<Rightarrow> 'c server_task multiset" where
  "cancelled_by t q =
     (if type_of_task t = TASK_CANCEL then filter_mset (\<lambda>u. task_id u = id_target t) (pending q) else {#})"

lemma pending_cleanup:
  "pending (cleanup_pending_task x q) = filter_mset (\<lambda>u. task_id u \<noteq> x) (pending q)"
  by (simp add: pending_def cleanup_pending_task_def mset_filter Let_def)

lemma filter_mset_split: "filter_mset (\<lambda>u. \<not> P u) M + filter_mset P M = M"
  by (metis add.commute multiset_partition)

lemma pending_push [queue_simps]: "pending (push_task front t q) + cancelled_by t q = pending q + {#t#}"
proof -
  have "pending (q\<lparr>queue_tasks := (if front then t # queue_tasks q else queue_tasks q @ [t])\<rparr>) = pending q + {#t#}" for q
    by (simp add: pending_def)
  then show ?thesis
    using filter_mset_split [of "\<lambda>u. task_id u = id_target t" "pending q"]
    by (simp add: push_task_def cancelled_by_def Let_def pending_cleanup)
qed

lemma pending_time [simp]: "pending (q\<lparr>time_last_task := x\<rparr>) = pending q"
  "pending (q\<lparr>q_id := i\<rparr>) = pending q"
  by (simp_all add: pending_def)

lemma take_deferred_mset: "take_deferred slot ts = Some (t, rest) \<Longrightarrow> mset ts = add_mset t (mset rest)"
  by (induction ts arbitrary: t rest) (auto split: if_splits)

lemma pending_pop_deferred [simp]: "pending (pop_deferred_task now slot q) = pending q"
  by (auto simp: pop_deferred_task_def pending_def Let_def split: list.splits option.splits
      dest!: take_deferred_mset)

lemma pending_defer [simp]: "pending (defer_task now t q) = pending q + {#t#}"
  by (simp add: defer_task_def pending_def)

lemma process_take_pending: "process_take q = Taken t q' \<Longrightarrow> pending q = pending q' + {#t#}"
  by (auto simp: process_take_def pending_def split: if_splits list.splits)

text \<open>Putting the declined tasks back prepends them in their order.\<close>

lemma restore_unhandled_eq:
  "restore_unhandled q = q\<lparr>queue_tasks := queue_tasks_unhandled q @ queue_tasks q, queue_tasks_unhandled := []\<rparr>"
proof (induction q rule: restore_unhandled.induct)
  case (1 q)
  show ?case
  proof (cases "queue_tasks_unhandled q = []")
    case True
    then show ?thesis by (simp add: restore_unhandled.simps [of q])
  next
    case False
    then have "queue_tasks_unhandled q = butlast (queue_tasks_unhandled q) @ [last (queue_tasks_unhandled q)]"
      by simp
    then show ?thesis
      using 1 [OF False] by (subst restore_unhandled.simps) (simp add: False)
  qed
qed

lemma pending_yield_end [simp]: "pending (snd (yield_end now e q)) = pending q"
  by (auto simp: yield_end_def restore_unhandled_eq pending_def Let_def split: option.splits)

lemma yield_end_unhandled [simp]:
  "queue_tasks_unhandled (snd (yield_end now e q)) = []"
  "queue_tasks (snd (yield_end now e q)) = queue_tasks_unhandled q @ queue_tasks q"
  by (auto simp: yield_end_def restore_unhandled_eq Let_def split: option.splits)

text \<open>A batch: the tasks with their ids, and the pending tasks its cancel tasks remove.\<close>

fun batch_assigned :: "'c server_task list \<Rightarrow> bool \<Rightarrow> 'c server_queue \<Rightarrow> 'c server_task list" where
  "batch_assigned [] front q = []"
| "batch_assigned (t # ts) front q =
     fst (assign_id t q) # batch_assigned ts front (push_task front (fst (assign_id t q)) (snd (assign_id t q)))"

fun batch_cancelled :: "'c server_task list \<Rightarrow> bool \<Rightarrow> 'c server_queue \<Rightarrow> 'c server_task multiset" where
  "batch_cancelled [] front q = {#}"
| "batch_cancelled (t # ts) front q =
     cancelled_by (fst (assign_id t q)) (snd (assign_id t q))
     + batch_cancelled ts front (push_task front (fst (assign_id t q)) (snd (assign_id t q)))"

lemma pending_assign [simp]: "pending (snd (assign_id t q)) = pending q"
  by (simp add: assign_id_def)

lemma pending_post_loop:
  "pending (snd (post_loop ts front r q)) + batch_cancelled ts front q = pending q + mset (batch_assigned ts front q)"
proof (induction ts arbitrary: r q)
  case (Cons t ts)
  let ?t = "fst (assign_id t q)" and ?q = "snd (assign_id t q)"
  have step: "snd (post_loop (t # ts) front r q)
      = snd (post_loop ts front (r \<or> task_resets_idle_timer (type_of_task ?t)) (push_task front ?t ?q))"
    by (simp add: case_prod_beta)
  have "pending (push_task front ?t ?q) + cancelled_by ?t ?q = pending q + {#?t#}"
    using pending_push [of front ?t ?q] by simp
  then show ?case
    using Cons.IH [of "r \<or> task_resets_idle_timer (type_of_task ?t)" "push_task front ?t ?q"]
    unfolding step by (simp add: ac_simps)
qed simp

lemma pending_post_tasks:
  "pending (post_tasks now ts front q) + batch_cancelled ts front q = pending q + mset (batch_assigned ts front q)"
  using pending_post_loop [of ts front False q] by (simp add: post_tasks_def case_prod_beta)

text \<open>What posting leaves alone.\<close>

definition thread_view :: "'c server_queue \<Rightarrow> bool \<times> bool \<times> bool \<times> bool \<times> bool \<times> bool \<times> failure option" where
  "thread_view q = (running q, sleeping q, w_joinable q, w_stop q, w_busy q, w_yielding q, w_exception q)"

lemma thread_view_push [simp]: "thread_view (push_task front t q) = thread_view q"
  by (simp add: thread_view_def push_task_def cleanup_pending_task_def Let_def)

lemma thread_view_assign [simp]: "thread_view (snd (assign_id t q)) = thread_view q"
  by (simp add: thread_view_def assign_id_def)

lemma thread_view_time [simp]: "thread_view (q\<lparr>time_last_task := x\<rparr>) = thread_view q"
  by (simp add: thread_view_def)

lemma thread_view_post_loop [simp]: "thread_view (snd (post_loop ts front r q)) = thread_view q"
  by (induction ts arbitrary: r q) (simp_all add: case_prod_beta)

lemma thread_view_post_tasks [simp]: "thread_view (post_tasks now ts front q) = thread_view q"
  by (simp add: post_tasks_def case_prod_beta)

lemma thread_view_post_task: "post_task now t front q = Inr (i, q') \<Longrightarrow> thread_view q' = thread_view q"
  by (auto simp: post_task_def Let_def split: if_splits)

lemma thread_view_pop [simp]: "thread_view (pop_deferred_task now slot q) = thread_view q"
  by (auto simp: pop_deferred_task_def thread_view_def Let_def split: list.splits option.splits)

lemma thread_view_defer [simp]: "thread_view (defer_task now t q) = thread_view q"
  by (simp add: defer_task_def thread_view_def)

text \<open>Nothing but a decline adds to the unhandled tasks.\<close>

lemma unhandled_push: "queue_tasks_unhandled q = [] \<Longrightarrow> queue_tasks_unhandled (push_task front t q) = []"
  by (simp add: push_task_def cleanup_pending_task_def Let_def)

lemma unhandled_post_loop: "queue_tasks_unhandled q = [] \<Longrightarrow> queue_tasks_unhandled (snd (post_loop ts front r q)) = []"
  by (induction ts arbitrary: r q) (simp_all add: case_prod_beta unhandled_push assign_id_def)

lemma unhandled_post_tasks: "queue_tasks_unhandled q = [] \<Longrightarrow> queue_tasks_unhandled (post_tasks now ts front q) = []"
  using unhandled_post_loop [of q ts front False] by (simp add: post_tasks_def case_prod_beta)

lemma unhandled_post_task:
  "post_task now t front q = Inr (i, q') \<Longrightarrow> queue_tasks_unhandled q = [] \<Longrightarrow> queue_tasks_unhandled q' = []"
  by (auto simp: post_task_def Let_def unhandled_push split: if_splits)

lemma unhandled_pop [simp]: "queue_tasks_unhandled (pop_deferred_task now slot q) = queue_tasks_unhandled q"
  by (auto simp: pop_deferred_task_def Let_def split: list.splits option.splits)

section \<open>The threads\<close>

text \<open>
  Where the main thread is: before \<open>start_loop\<close>, in \<open>process_new_tasks(false)\<close>, in the callback
  for a task, in \<open>callback_update_slots\<close> (since a time), in the work of \<open>yield_to_queue\<close>, after
  the work waiting for the worker, waiting for tasks, asleep, past the loop, or left by an
  exception.  The worker likewise; \<open>WorkerCheck\<close> holds the result of \<open>process_new_tasks(true)\<close>.
  An exception that \<open>yield_to_queue\<close> throws reaches \<open>callback_update_slots\<close>, which may catch it and go on
  with its round, as \<open>update_slots\<close> does, or let it end the loop (\<open>Update_throws\<close>).
\<close>

datatype 'c main_pc =
    MainInit | MainProcess | MainCallback "'c server_task" | MainUpdate int | MainYield int
  | MainYieldWait int "failure option" | MainWait | MainSleep | MainStopped | MainThrown failure

datatype 'c worker_pc =
    WorkerNone | WorkerWait | WorkerProcess | WorkerCallback "'c server_task" | WorkerCheck bool
  | WorkerSleep | WorkerLeave | WorkerGone

text \<open>
  \<open>posted\<close>, \<open>handled\<close> and \<open>cancelled\<close> record the history: the tasks posted (with the ids they got),
  taken over by the callback, and removed from the queues by a cancel task.
\<close>

record 'c system =
  sq :: "'c server_queue"
  main :: "'c main_pc"
  worker :: "'c worker_pc"
  posted :: "'c server_task multiset"
  handled :: "'c server_task multiset"
  cancelled :: "'c server_task multiset"

definition system_init :: "'c system" where
  "system_init = \<lparr>sq = queue_init, main = MainInit, worker = WorkerNone, posted = {#}, handled = {#}, cancelled = {#}\<rparr>"

inductive queue_step :: "int \<Rightarrow> 'c system \<Rightarrow> 'c system \<Rightarrow> bool" for idle_sleep_ms :: int where
\<comment> \<open>other threads, and the callbacks while they run\<close>
  Post: "post_task now t front (sq s) = Inr (i, q') \<Longrightarrow>
    queue_step idle_sleep_ms s (s\<lparr>sq := q', posted := posted s + {#t#}, cancelled := cancelled s + cancelled_by t (sq s)\<rparr>)"
| Post_batch: "queue_step idle_sleep_ms s (s\<lparr>sq := post_tasks now ts front (sq s),
      posted := posted s + mset (batch_assigned ts front (sq s)),
      cancelled := cancelled s + batch_cancelled ts front (sq s)\<rparr>)"
| New_id: "queue_step idle_sleep_ms s (s\<lparr>sq := snd (get_new_id (sq s))\<rparr>)"
| Pop_deferred: "queue_step idle_sleep_ms s (s\<lparr>sq := pop_deferred_task now slot (sq s)\<rparr>)"
| Request_no_sleep: "queue_step idle_sleep_ms s (s\<lparr>sq := request_no_sleep (sq s)\<rparr>)"
| Terminate: "queue_step idle_sleep_ms s (s\<lparr>sq := terminate (sq s)\<rparr>)"
\<comment> \<open>the main thread\<close>
| Start: "main s = MainInit \<Longrightarrow> loop_start now (sq s) = Inr q' \<Longrightarrow>
    queue_step idle_sleep_ms s (s\<lparr>sq := q', main := MainProcess, worker := WorkerWait\<rparr>)"
| Main_terminated: "main s = MainProcess \<Longrightarrow> process_take (sq s) = Terminated \<Longrightarrow>
    queue_step idle_sleep_ms s (s\<lparr>sq := worker_stop (sq s), main := MainStopped\<rparr>)"
| Main_no_task: "main s = MainProcess \<Longrightarrow> process_take (sq s) = NoTask \<Longrightarrow>
    queue_step idle_sleep_ms s (s\<lparr>main := MainUpdate now\<rparr>)"
| Main_take: "main s = MainProcess \<Longrightarrow> process_take (sq s) = Taken t q' \<Longrightarrow>
    queue_step idle_sleep_ms s (s\<lparr>sq := q', main := MainCallback t\<rparr>)"
| Main_handled: "main s = MainCallback t \<Longrightarrow>
    queue_step idle_sleep_ms s (s\<lparr>main := MainProcess, handled := handled s + {#t#}\<rparr>)"
| Main_deferred: "main s = MainCallback t \<Longrightarrow>
    queue_step idle_sleep_ms s (s\<lparr>sq := defer_task now t (sq s), main := MainProcess\<rparr>)"
| Yield_begin: "main s = MainUpdate t0 \<Longrightarrow> yield_begin (sq s) = Inr q' \<Longrightarrow>
    queue_step idle_sleep_ms s (s\<lparr>sq := q', main := MainYield t0\<rparr>)"
| Yield_over: "main s = MainYield t0 \<Longrightarrow>
    queue_step idle_sleep_ms s (s\<lparr>sq := yield_over (sq s), main := MainYieldWait t0 e\<rparr>)"
| Yield_end: "main s = MainYieldWait t0 e \<Longrightarrow> \<not> w_busy (sq s) \<Longrightarrow> yield_end now e (sq s) = (None, q') \<Longrightarrow>
    queue_step idle_sleep_ms s (s\<lparr>sq := q', main := MainUpdate t0\<rparr>)"
| Yield_throw: "main s = MainYieldWait t0 e \<Longrightarrow> \<not> w_busy (sq s) \<Longrightarrow> yield_end now e (sq s) = (Some x, q') \<Longrightarrow>
    queue_step idle_sleep_ms s (s\<lparr>sq := q', main := MainUpdate t0\<rparr>)"
| Update_throws: "main s = MainUpdate t0 \<Longrightarrow>
    queue_step idle_sleep_ms s (s\<lparr>main := MainThrown x\<rparr>)"
| Update_done: "main s = MainUpdate t0 \<Longrightarrow>
    queue_step idle_sleep_ms s (s\<lparr>sq := shift_idle_time t0 now (sq s), main := MainWait\<rparr>)"
| Wait_done: "main s = MainWait \<Longrightarrow> \<not> running (sq s) \<or> queue_tasks (sq s) \<noteq> [] \<Longrightarrow>
    queue_step idle_sleep_ms s (s\<lparr>main := MainProcess\<rparr>)"
| Sleep: "main s = MainWait \<Longrightarrow> running (sq s) \<Longrightarrow> queue_tasks (sq s) = [] \<Longrightarrow>
    should_sleep idle_sleep_ms now (sq s) \<Longrightarrow>
    queue_step idle_sleep_ms s (s\<lparr>sq := sleep_enter (sq s), main := MainSleep\<rparr>)"
| Wake: "main s = MainSleep \<Longrightarrow> sleep_wakes (sq s) \<Longrightarrow>
    queue_step idle_sleep_ms s (s\<lparr>sq := sleep_exit now (sq s), main := MainProcess\<rparr>)"
\<comment> \<open>the worker thread\<close>
| Worker_start: "worker s = WorkerWait \<Longrightarrow> worker_may_start (sq s) \<Longrightarrow>
    queue_step idle_sleep_ms s (s\<lparr>worker := (if w_stop (sq s) then WorkerGone else WorkerProcess)\<rparr>)"
| Worker_terminated: "worker s = WorkerProcess \<Longrightarrow> process_take (sq s) = Terminated \<Longrightarrow>
    queue_step idle_sleep_ms s (s\<lparr>worker := WorkerCheck True\<rparr>)"
| Worker_no_task: "worker s = WorkerProcess \<Longrightarrow> process_take (sq s) = NoTask \<Longrightarrow>
    queue_step idle_sleep_ms s (s\<lparr>worker := WorkerCheck False\<rparr>)"
| Worker_take: "worker s = WorkerProcess \<Longrightarrow> process_take (sq s) = Taken t q' \<Longrightarrow>
    queue_step idle_sleep_ms s (s\<lparr>sq := q', worker := WorkerCallback t\<rparr>)"
| Worker_handled: "worker s = WorkerCallback t \<Longrightarrow>
    queue_step idle_sleep_ms s (s\<lparr>worker := WorkerProcess, handled := handled s + {#t#}\<rparr>)"
| Worker_declined: "worker s = WorkerCallback t \<Longrightarrow> process_declined True t (sq s) = Inr q' \<Longrightarrow>
    queue_step idle_sleep_ms s (s\<lparr>sq := q', worker := WorkerProcess\<rparr>)"
| Worker_throws: "worker s = WorkerCallback t \<Longrightarrow>
    queue_step idle_sleep_ms s (s\<lparr>sq := (sq s)\<lparr>w_exception := Some x\<rparr>, worker := WorkerLeave, handled := handled s + {#t#}\<rparr>)"
| Worker_check: "worker s = WorkerCheck b \<Longrightarrow>
    queue_step idle_sleep_ms s (s\<lparr>worker := (if worker_leaves b (sq s) then WorkerLeave
       else if queue_tasks (sq s) \<noteq> [] then WorkerProcess else WorkerSleep)\<rparr>)"
| Worker_wakes: "worker s = WorkerSleep \<Longrightarrow> worker_wakes (sq s) \<Longrightarrow>
    queue_step idle_sleep_ms s (s\<lparr>worker := WorkerProcess\<rparr>)"
| Worker_leave: "worker s = WorkerLeave \<Longrightarrow>
    queue_step idle_sleep_ms s (s\<lparr>sq := worker_done (sq s), worker := WorkerWait\<rparr>)"

inductive reachable :: "int \<Rightarrow> 'c system \<Rightarrow> bool" for idle_sleep_ms :: int where
  Init: "reachable idle_sleep_ms system_init"
| Step: "reachable idle_sleep_ms s \<Longrightarrow> queue_step idle_sleep_ms s s' \<Longrightarrow> reachable idle_sleep_ms s'"

fun main_hand :: "'c main_pc \<Rightarrow> 'c server_task multiset" where
  "main_hand (MainCallback t) = {#t#}"
| "main_hand _ = {#}"

fun worker_hand :: "'c worker_pc \<Rightarrow> 'c server_task multiset" where
  "worker_hand (WorkerCallback t) = {#t#}"
| "worker_hand _ = {#}"

definition in_system :: "'c system \<Rightarrow> 'c server_task multiset" where
  "in_system s = pending (sq s) + main_hand (main s) + worker_hand (worker s)"

fun yielding_pc :: "'c main_pc \<Rightarrow> bool" where
  "yielding_pc (MainYield t0) = True"
| "yielding_pc (MainYieldWait t0 e) = True"
| "yielding_pc _ = False"

fun worker_active :: "'c worker_pc \<Rightarrow> bool" where
  "worker_active WorkerNone = False"
| "worker_active WorkerWait = False"
| "worker_active WorkerGone = False"
| "worker_active _ = True"

text \<open>
  The invariant of the two threads: the worker is active only while it is marked busy, it is
  busy only during a yield, and tasks are set aside only during a yield.
\<close>

definition threads_inv :: "'c system \<Rightarrow> bool" where
  "threads_inv s \<longleftrightarrow>
     (worker_active (worker s) \<longrightarrow> w_busy (sq s))
     \<and> (w_busy (sq s) \<longrightarrow> yielding_pc (main s))
     \<and> (queue_tasks_unhandled (sq s) \<noteq> [] \<longrightarrow> yielding_pc (main s))
     \<and> (w_yielding (sq s) \<longleftrightarrow> (\<exists>t0. main s = MainYield t0))
     \<and> (main s = MainSleep \<longrightarrow> sleeping (sq s))
     \<and> (sleeping (sq s) \<longrightarrow> main s = MainSleep \<or> \<not> running (sq s))
     \<and> (main s = MainInit \<longrightarrow> \<not> sleeping (sq s))
     \<and> (w_joinable (sq s) \<longleftrightarrow> main s \<noteq> MainInit)"

lemma threads_inv_init: "threads_inv system_init"
  by (simp add: threads_inv_def system_init_def queue_init_def)

text \<open>Steps that only touch the queues keep the invariant.\<close>

lemma threads_inv_queues:
  assumes "threads_inv s" "thread_view q' = thread_view (sq s)"
    "queue_tasks_unhandled (sq s) = [] \<Longrightarrow> queue_tasks_unhandled q' = []"
    "sq s' = q'" "main s' = main s" "worker_active (worker s') \<Longrightarrow> worker_active (worker s)"
  shows "threads_inv s'"
  using assms by (auto simp: threads_inv_def thread_view_def)

lemma thread_view_simps [simp]:
  "thread_view (snd (get_new_id q)) = thread_view q" "thread_view (request_no_sleep q) = thread_view q"
  by (auto simp: thread_view_def get_new_id_def request_no_sleep_def)

lemma process_take_view:
  "process_take q = Taken t q' \<Longrightarrow> thread_view q' = thread_view q \<and> queue_tasks_unhandled q' = queue_tasks_unhandled q"
  by (auto simp: process_take_def thread_view_def split: if_splits list.splits)

lemma yield_end_view:
  "yield_end now e q = (r, q') \<Longrightarrow> running q' = running q \<and> sleeping q' = sleeping q \<and> w_joinable q' = w_joinable q
     \<and> w_stop q' = w_stop q \<and> w_busy q' = w_busy q \<and> w_yielding q' = w_yielding q
     \<and> queue_tasks_unhandled q' = [] \<and> pending q' = pending q"
  using pending_yield_end [of now e q] yield_end_unhandled [of now e q]
  by (auto simp: yield_end_def restore_unhandled_eq Let_def split: option.splits)

lemma threads_inv_step:
  assumes "queue_step d s s'" "threads_inv s"
  shows "threads_inv s'"
  using assms
proof (induction rule: queue_step.induct)
  case (Post now t front s i q')
  then show ?case
    by (rule_tac threads_inv_queues [of s q']) (auto dest: thread_view_post_task unhandled_post_task)
next
  case (Post_batch s ts front now)
  then show ?case
    by (rule_tac threads_inv_queues [of s "post_tasks now ts front (sq s)"]) (auto simp: unhandled_post_tasks)
next
  case (New_id s)
  then show ?case
    by (rule_tac threads_inv_queues [of s "snd (get_new_id (sq s))"]) (auto simp: get_new_id_def thread_view_def)
next
  case (Pop_deferred s now slot)
  then show ?case
    by (rule_tac threads_inv_queues [of s "pop_deferred_task now slot (sq s)"]) auto
next
  case (Request_no_sleep s)
  then show ?case
    by (rule_tac threads_inv_queues [of s "request_no_sleep (sq s)"]) (auto simp: request_no_sleep_def thread_view_def)
next
  case (Main_deferred s t now)
  then show ?case
    by (auto simp: threads_inv_def defer_task_def)
next
  case (Main_take s t q')
  then show ?case
    by (auto simp: threads_inv_def process_take_def split: if_splits list.splits)
next
  case (Worker_take s t q')
  then show ?case
    by (rule_tac threads_inv_queues [of s q']) (auto dest: process_take_view)
next
  case (Yield_end s t0 e now q')
  then show ?case
    using yield_end_view [of now e "sq s"] by (auto simp: threads_inv_def)
next
  case (Yield_throw s t0 e now x q')
  then show ?case
    using yield_end_view [of now e "sq s"] by (auto simp: threads_inv_def)
next
  case (Worker_declined s t q')
  then show ?case
    by (auto simp: threads_inv_def process_declined_def)
next
  case (Worker_check s b)
  then show ?case
    by (auto simp: threads_inv_def worker_leaves_def)
qed (auto simp: threads_inv_def terminate_def loop_start_def worker_stop_def yield_begin_def yield_over_def
    shift_idle_time_def sleep_enter_def sleep_exit_def sleep_wakes_def worker_done_def process_take_def
    worker_may_start_def
    split: if_splits)

lemma reachable_threads_inv: "reachable d s \<Longrightarrow> threads_inv s"
  by (induction rule: reachable.induct) (auto intro: threads_inv_init threads_inv_step)

definition conserved :: "'c system \<Rightarrow> bool" where
  "conserved s \<longleftrightarrow> posted s = in_system s + handled s + cancelled s"

lemma post_task_pending:
  "post_task now t front q = Inr (i, q') \<Longrightarrow> pending q' + cancelled_by t q = pending q + {#t#}"
  using pending_push [of front t q] by (auto simp: post_task_def Let_def split: if_splits)

lemma add_swap:
  fixes A :: "'a multiset"
  assumes "A + B = C + D"
  shows "C + mh + wh + h + c + D = A + mh + wh + h + (c + B)"
proof -
  have "C + mh + wh + h + c + D = (C + D) + (mh + wh + h + c)" by (simp add: ac_simps)
  also have "\<dots> = (A + B) + (mh + wh + h + c)" using assms by simp
  finally show ?thesis by (simp add: ac_simps)
qed

lemma pending_same [simp]:
  "pending (snd (get_new_id q)) = pending q" "pending (request_no_sleep q) = pending q"
  "pending (terminate q) = pending q" "pending (worker_stop q) = pending q"
  "pending (yield_over q) = pending q" "pending (shift_idle_time t0 now q) = pending q"
  "pending (sleep_enter q) = pending q" "pending (sleep_exit now q) = pending q"
  "pending (worker_done q) = pending q" "pending (q\<lparr>w_exception := x\<rparr>) = pending q"
  by (simp_all add: pending_def get_new_id_def request_no_sleep_def terminate_def worker_stop_def
      yield_over_def shift_idle_time_def sleep_enter_def sleep_exit_def worker_done_def)

lemma conserved_step:
  assumes "queue_step d s s'" "conserved s" "threads_inv s"
  shows "conserved s'"
  using assms
proof (induction rule: queue_step.induct)
  case (Post now t front s i q')
  then show ?case
    using post_task_pending [of now t front "sq s" i q']
    by (auto simp: conserved_def in_system_def intro: add_swap)
next
  case (Post_batch s ts front now)
  then show ?case
    using pending_post_tasks [of now ts front "sq s"]
    by (auto simp: conserved_def in_system_def intro: add_swap)
next
  case (Start s now q')
  then have "worker_hand (worker s) = {#}"
    by (cases "worker s") (auto simp: threads_inv_def)
  with Start show ?case
    by (auto simp: conserved_def in_system_def loop_start_def pending_def split: if_splits)
next
  case (Main_take s t q')
  then show ?case
    using process_take_pending [of "sq s" t q'] by (simp add: conserved_def in_system_def)
next
  case (Worker_take s t q')
  then show ?case
    using process_take_pending [of "sq s" t q'] by (simp add: conserved_def in_system_def)
next
  case (Yield_begin s t0 q')
  then show ?case
    by (auto simp: conserved_def in_system_def yield_begin_def pending_def split: if_splits)
next
  case (Yield_end s t0 e now q')
  then show ?case
    using yield_end_view [of now e "sq s"] by (simp add: conserved_def in_system_def)
next
  case (Yield_throw s t0 e now x q')
  then show ?case
    using yield_end_view [of now e "sq s"] by (simp add: conserved_def in_system_def)
next
  case (Worker_declined s t q')
  then show ?case
    by (auto simp: conserved_def in_system_def process_declined_def pending_def)
next
  case (Wait_done s)
  then show ?case by (auto simp: conserved_def in_system_def)
qed (auto simp: conserved_def in_system_def)

lemma reachable_conserved: "reachable d s \<Longrightarrow> conserved s"
proof (induction rule: reachable.induct)
  case Init
  then show ?case by (simp add: conserved_def system_init_def in_system_def queue_init_def pending_def)
qed (blast intro: conserved_step reachable_threads_inv)

section \<open>Properties\<close>

text \<open>
  Property C1. No task is lost and none is duplicated: at every moment the posted tasks are
  exactly those in one of the three queues or in the hands of a thread, those the callback
  took over, and those a cancel task removed.
\<close>

theorem queue_conserves_tasks:
  "reachable d s \<Longrightarrow> posted s = in_system s + handled s + cancelled s"
  using reachable_conserved conserved_def by blast

definition metrics_task :: "unit server_task" where
  "metrics_task = \<lparr>task_id = 7, task_index = 0, id_target = -1, id_slot = -1, id_parent = -1,
     params = sample_params, tokens = st_empty, cli = False, cli_prompt = [], cli_files = [],
     type_of_task = TASK_METRICS, slot_action_of = \<lparr>sa_id_slot = 0, sa_filename = [], sa_filepath = []\<rparr>, metrics_reset_bucket = False, set_lora = [],
     child_tasks = []\<rparr>"

text \<open>A queue to which a task was posted before the loop started.\<close>

definition sample_queue :: "unit server_queue" where
  "sample_queue = queue_init\<lparr>queue_tasks := [metrics_task]\<rparr>"

definition sample_system :: "unit system" where
  "sample_system = system_init\<lparr>sq := sample_queue, posted := {#metrics_task#}\<rparr>"

lemma sample_reachable: "reachable 1000 sample_system"
proof -
  have "queue_step 1000 system_init (system_init\<lparr>sq := sample_queue,
      posted := posted system_init + {#metrics_task#},
      cancelled := cancelled system_init + cancelled_by metrics_task (sq system_init)\<rparr>)"
    by (rule queue_step.Post [of 0 metrics_task False _ 7])
      (simp add: post_task_def push_task_def system_init_def queue_init_def sample_queue_def metrics_task_def
        task_resets_idle_timer_def)
  moreover have "system_init\<lparr>sq := sample_queue,
      posted := posted system_init + {#metrics_task#},
      cancelled := cancelled system_init + cancelled_by metrics_task (sq system_init)\<rparr> = sample_system"
    by (simp add: sample_system_def system_init_def cancelled_by_def metrics_task_def)
  ultimately show ?thesis
    by (metis reachable.Init reachable.Step)
qed

theorem queue_conserves_tasks_witness:
  "posted sample_system = in_system sample_system + handled sample_system + cancelled sample_system"
  using queue_conserves_tasks [OF sample_reachable] .

text \<open>
  Property C33. The two threads never run the task callback at the same time: while the worker
  is processing, the main thread is inside \<open>yield_to_queue\<close>, and once the yield is over no task
  is left aside.
\<close>

theorem callback_exclusive:
  "reachable d s \<Longrightarrow>
     (worker_active (worker s) \<longrightarrow> (\<exists>t0 e. main s = MainYield t0 \<or> main s = MainYieldWait t0 e))
     \<and> ((\<forall>t0 e. main s \<noteq> MainYield t0 \<and> main s \<noteq> MainYieldWait t0 e) \<longrightarrow> queue_tasks_unhandled (sq s) = [])"
proof -
  assume "reachable d s"
  then have inv: "threads_inv s" by (rule reachable_threads_inv)
  have "yielding_pc (main s) \<longleftrightarrow> (\<exists>t0 e. main s = MainYield t0 \<or> main s = MainYieldWait t0 e)"
    by (cases "main s") auto
  with inv show ?thesis
    unfolding threads_inv_def by blast
qed

theorem callback_exclusive_witness: "queue_tasks_unhandled (sq sample_system) = [] \<and> \<not> worker_active (worker sample_system)"
proof -
  have "main sample_system \<noteq> MainYield t0" "main sample_system \<noteq> MainYieldWait t0 e" for t0 e
    by (simp_all add: sample_system_def system_init_def)
  then show ?thesis
    using callback_exclusive [OF sample_reachable] by blast
qed

text \<open>
  Ending a yield puts the tasks that were declined back in front of the queue in
  their order, restarts the idle time, and reports the exception of the work before that of
  the worker.
\<close>

theorem yield_end_restores:
  "yield_end now e q =
     ((case e of None \<Rightarrow> w_exception q | Some x \<Rightarrow> Some x),
      q\<lparr>queue_tasks := queue_tasks_unhandled q @ queue_tasks q, queue_tasks_unhandled := [],
        time_last_task := now, w_exception := None\<rparr>)"
  by (simp add: yield_end_def restore_unhandled_eq Let_def split: option.splits)

text \<open>
  When a slot is released, the deferred task that moves to the front of the queue
  is the first one that asks for this slot, or the first one if none does; the others keep
  their order.
\<close>

theorem pop_deferred_prefers_slot:
  "queue_tasks_deferred q = pre @ t # post \<Longrightarrow>
     (\<forall>u \<in> set pre. id_slot u \<noteq> slot) \<Longrightarrow>
     id_slot t = slot \<or> pre = [] \<and> (\<forall>u \<in> set (t # post). id_slot u \<noteq> slot) \<Longrightarrow>
     pop_deferred_task now slot q =
       q\<lparr>queue_tasks := t # queue_tasks q, queue_tasks_deferred := pre @ post, time_last_task := now\<rparr>"
proof -
  assume q: "queue_tasks_deferred q = pre @ t # post" and pre: "\<forall>u \<in> set pre. id_slot u \<noteq> slot"
    and t: "id_slot t = slot \<or> pre = [] \<and> (\<forall>u \<in> set (t # post). id_slot u \<noteq> slot)"
  have found: "take_deferred slot (pre @ t # post) = Some (t, pre @ post)" if "id_slot t = slot"
    using pre that by (induction pre) auto
  have none: "\<forall>u \<in> set ts. id_slot u \<noteq> slot \<Longrightarrow> take_deferred slot ts = None" for ts :: "'a server_task list"
    by (induction ts) auto
  show ?thesis
  proof (cases "id_slot t = slot")
    case True
    then show ?thesis
      using q found by (cases pre) (auto simp: pop_deferred_task_def Let_def)
  next
    case False
    then show ?thesis
      using q t none [of "t # post"] by (auto simp: pop_deferred_task_def Let_def simp del: take_deferred.simps)
  qed
qed

definition deferred_queue :: "unit server_queue" where
  "deferred_queue = queue_init\<lparr>queue_tasks_deferred := [metrics_task, metrics_task\<lparr>id_slot := 3\<rparr>]\<rparr>"

theorem pop_deferred_prefers_slot_witness:
  "pop_deferred_task 5 3 deferred_queue =
     deferred_queue\<lparr>queue_tasks := metrics_task\<lparr>id_slot := 3\<rparr> # queue_tasks deferred_queue,
       queue_tasks_deferred := [metrics_task] @ [], time_last_task := 5\<rparr>"
  by (rule pop_deferred_prefers_slot) (simp_all add: deferred_queue_def metrics_task_def)

text \<open>
  Once the loop is terminated while asleep, \<open>sleeping\<close> stays set, so that a thread in
  \<open>wait_until_no_sleep\<close> never returns.
\<close>

lemma stuck_asleep_step:
  assumes "queue_step d s s'" "main s = MainStopped" "sleeping (sq s)"
  shows "main s' = MainStopped \<and> sleeping (sq s')"
proof -
  have view: "thread_view q' = thread_view q \<Longrightarrow> sleeping q' = sleeping q" for q q' :: "'a server_queue"
    by (simp add: thread_view_def)
  show ?thesis
    using assms
    by (induction rule: queue_step.induct)
      (auto simp: process_take_def get_new_id_def request_no_sleep_def terminate_def process_declined_def worker_done_def
        view [OF thread_view_post_task] view [OF thread_view_post_tasks] view [OF thread_view_pop]
        split: if_splits list.splits)
qed

inductive steps :: "int \<Rightarrow> 'c system \<Rightarrow> 'c system \<Rightarrow> bool" for idle_sleep_ms :: int where
  Refl: "steps idle_sleep_ms s s"
| More: "queue_step idle_sleep_ms s s' \<Longrightarrow> steps idle_sleep_ms s' s'' \<Longrightarrow> steps idle_sleep_ms s s''"

theorem terminated_asleep_never_wakes:
  "steps d s s' \<Longrightarrow> main s = MainStopped \<Longrightarrow> sleeping (sq s) \<Longrightarrow> \<not> no_sleep_returns (sq s')"
proof (induction rule: steps.induct)
  case (Refl s)
  then show ?case by (simp add: no_sleep_returns_def)
next
  case (More s s' s'')
  then show ?case using stuck_asleep_step by blast
qed

end
