(* ===== verification/Response.thy ===== *)
theory Response
  imports Queue
begin

text \<open>
  The result queue (\<open>server_response\<close>) and the reader through which a request posts its tasks
  and collects their results (\<open>server_response_reader\<close>), both in server-queue.h and
  server-queue.cpp.  A result is its id, its index, the answers of its virtual methods
  \<open>is_error\<close> and \<open>is_stop\<close>, and a body.  Sets of ids are lists without repetitions.
\<close>

section \<open>The result queue\<close>

record 'r result_msg =
  res_id :: int
  res_index :: nat
  res_error :: bool
  res_stop :: bool
  res_body :: 'r

record 'r server_response =
  rsp_running :: bool
  waiting_task_ids :: "int list"
  queue_results :: "'r result_msg list"

definition response_init :: "'r server_response" where
  "response_init = \<lparr>rsp_running = True, waiting_task_ids = [], queue_results = []\<rparr>"

definition add_waiting_task_id :: "int \<Rightarrow> 'r server_response \<Rightarrow> 'r server_response" where
  "add_waiting_task_id i r = r\<lparr>waiting_task_ids := List.insert i (waiting_task_ids r)\<rparr>"

definition add_waiting_task_ids :: "int list \<Rightarrow> 'r server_response \<Rightarrow> 'r server_response" where
  "add_waiting_task_ids is r = r\<lparr>waiting_task_ids := fold List.insert is (waiting_task_ids r)\<rparr>"

definition remove_waiting_task_id :: "int \<Rightarrow> 'r server_response \<Rightarrow> 'r server_response" where
  "remove_waiting_task_id i r =
     r\<lparr>waiting_task_ids := removeAll i (waiting_task_ids r),
       queue_results := filter (\<lambda>m. res_id m \<noteq> i) (queue_results r)\<rparr>"

definition remove_waiting_task_ids :: "int list \<Rightarrow> 'r server_response \<Rightarrow> 'r server_response" where
  "remove_waiting_task_ids is r = r\<lparr>waiting_task_ids := fold removeAll is (waiting_task_ids r)\<rparr>"

text \<open>The scan for the first result of one of the ids, which takes it out of the queue.\<close>

fun take_result :: "int list \<Rightarrow> 'r result_msg list \<Rightarrow> ('r result_msg \<times> 'r result_msg list) option" where
  "take_result is [] = None"
| "take_result is (m # ms) =
     (if res_id m \<in> set is then Some (m, ms)
      else map_option (\<lambda>(x, xs). (x, m # xs)) (take_result is ms))"

definition response_scan :: "int list \<Rightarrow> 'r server_response \<Rightarrow> ('r result_msg \<times> 'r server_response) option" where
  "response_scan is r = map_option (\<lambda>(m, ms). (m, r\<lparr>queue_results := ms\<rparr>)) (take_result is (queue_results r))"

text \<open>
  The blocking receives.  Each later element of the list is the state of the queue at a
  wake-up (with the flag of the timeout); the list ends while the call is still waiting.
  A terminated queue ends the process (\<open>std::terminate\<close>).
\<close>

datatype 'r received = Received "'r result_msg" "'r server_response" | TimedOut "'r server_response" | Waiting

fun recv :: "int list \<Rightarrow> 'r server_response list \<Rightarrow> 'r received result" where
  "recv is [] = Inr Waiting"
| "recv is (r # rs) =
     (if \<not> rsp_running r then Inl Abort
      else case response_scan is r of
             Some (m, r') \<Rightarrow> Inr (Received m r')
           | None \<Rightarrow> recv is rs)"

fun recv_with_timeout :: "int list \<Rightarrow> 'r server_response \<Rightarrow> (bool \<times> 'r server_response) list \<Rightarrow> 'r received result" where
  "recv_with_timeout is r ws =
     (case response_scan is r of
        Some (m, r') \<Rightarrow> Inr (Received m r')
      | None \<Rightarrow>
          (case ws of
             [] \<Rightarrow> Inr Waiting
           | (timeout, r') # ws' \<Rightarrow>
               if \<not> rsp_running r' then Inl Abort
               else if timeout then Inr (TimedOut r')
               else recv_with_timeout is r' ws'))"

definition recv_one :: "int \<Rightarrow> 'r server_response list \<Rightarrow> 'r received result" where
  "recv_one i rs = recv [i] rs"

definition send :: "'r result_msg \<Rightarrow> 'r server_response \<Rightarrow> 'r server_response" where
  "send m r =
     (if res_id m \<in> set (waiting_task_ids r) then r\<lparr>queue_results := queue_results r @ [m]\<rparr> else r)"

definition broadcast :: "'r result_msg \<Rightarrow> 'r server_response \<Rightarrow> 'r server_response" where
  "broadcast m r = r\<lparr>queue_results := queue_results r @ map (\<lambda>i. m\<lparr>res_id := i\<rparr>) (waiting_task_ids r)\<rparr>"

definition response_terminate :: "'r server_response \<Rightarrow> 'r server_response" where
  "response_terminate r = r\<lparr>rsp_running := False\<rparr>"

section \<open>What a reader relies on\<close>

text \<open>
  The result queue as the reader sees it: \<open>pendings\<close> are the ids of the results held,
  \<open>waits\<close> the ids a result is accepted for.
\<close>

locale result_queue =
  fixes accept :: "'m \<Rightarrow> 'q \<Rightarrow> 'q" and fetch :: "int list \<Rightarrow> 'q \<Rightarrow> ('m \<times> 'q) option"
    and forget :: "int \<Rightarrow> 'q \<Rightarrow> 'q" and ident :: "'m \<Rightarrow> int"
    and waits :: "'q \<Rightarrow> int set" and held :: "'q \<Rightarrow> 'm list"
  assumes fetch_None: "fetch is q = None \<longleftrightarrow> (\<forall>m \<in> set (held q). ident m \<notin> set is)"
    and fetch_Some: "fetch is q = Some (m, q') \<Longrightarrow>
      waits q' = waits q \<and> (\<exists>pre post. held q = pre @ m # post \<and> held q' = pre @ post
        \<and> ident m \<in> set is \<and> (\<forall>u \<in> set pre. ident u \<notin> set is))"
    and accept_held: "held (accept m q) = (if ident m \<in> waits q then held q @ [m] else held q)"
    and accept_waits: "waits (accept m q) = waits q"
    and forget_held: "held (forget i q) = filter (\<lambda>m. ident m \<noteq> i) (held q)"
    and forget_waits: "waits (forget i q) = waits q - {i}"
begin

text \<open>No result is held or accepted for the ids.\<close>

definition silent :: "int list \<Rightarrow> 'q \<Rightarrow> bool" where
  "silent is q \<longleftrightarrow> waits q \<inter> set is = {} \<and> fetch is q = None"

lemma silent_accept: "silent is q \<Longrightarrow> silent is (accept m q)"
  by (auto simp: silent_def fetch_None accept_held accept_waits)

lemma silent_accepts: "silent is q \<Longrightarrow> silent is (fold accept ms q)"
  by (induction ms arbitrary: q) (auto intro: silent_accept)

lemma forget_all_waits: "waits (fold forget is q) = waits q - set is"
  by (induction "is" arbitrary: q) (auto simp: forget_waits)

lemma forget_all_held: "held (fold forget is q) = filter (\<lambda>m. ident m \<notin> set is) (held q)"
  by (induction "is" arbitrary: q) (auto simp: forget_held intro: filter_cong)

lemma silent_forget_all: "silent is (fold forget is q)"
  by (auto simp: silent_def fetch_None forget_all_waits forget_all_held)

lemma forgotten_stays_silent: "fetch is (fold accept ms (fold forget is q)) = None"
  using silent_accepts [OF silent_forget_all] by (simp add: silent_def)

lemma fetch_filter:
  "fetch is q = Some (m, q') \<Longrightarrow>
     filter (\<lambda>u. ident u \<in> set is) (held q) = m # filter (\<lambda>u. ident u \<in> set is) (held q')
     \<and> filter (\<lambda>u. ident u \<notin> set is) (held q) = filter (\<lambda>u. ident u \<notin> set is) (held q')"
  by (fastforce dest: fetch_Some simp: filter_empty_conv)

lemma fetch_shorter: "fetch is q = Some (m, q') \<Longrightarrow> length (held q') < length (held q)"
  by (fastforce dest: fetch_Some)

end

lemma take_result_None: "take_result is ms = None \<longleftrightarrow> (\<forall>m \<in> set ms. res_id m \<notin> set is)"
  by (induction ms) auto

lemma take_result_Some:
  "take_result is ms = Some (m, ms') \<Longrightarrow>
     \<exists>pre post. ms = pre @ m # post \<and> ms' = pre @ post \<and> res_id m \<in> set is \<and> (\<forall>u \<in> set pre. res_id u \<notin> set is)"
proof (induction ms arbitrary: ms')
  case (Cons x ms)
  show ?case
  proof (cases "res_id x \<in> set is")
    case True
    then show ?thesis using Cons.prems by (intro exI [of _ "[]"] exI [of _ ms]) auto
  next
    case False
    then obtain xs where "take_result is ms = Some (m, xs)" "ms' = x # xs"
      using Cons.prems by auto
    then obtain pre post where "ms = pre @ m # post" "xs = pre @ post" "res_id m \<in> set is" "\<forall>u \<in> set pre. res_id u \<notin> set is"
      using Cons.IH by blast
    then show ?thesis
      using False \<open>ms' = x # xs\<close> by (intro exI [of _ "x # pre"] exI [of _ post]) auto
  qed
qed simp

interpretation rq: result_queue send response_scan remove_waiting_task_id res_id
  "\<lambda>r. set (waiting_task_ids r)" queue_results
proof unfold_locales
  fix "is" and r :: "'r server_response"
  show "response_scan is r = None \<longleftrightarrow> (\<forall>m \<in> set (queue_results r). res_id m \<notin> set is)"
    by (simp add: response_scan_def take_result_None)
next
  fix "is" m and r r' :: "'r server_response"
  assume "response_scan is r = Some (m, r')"
  then show "set (waiting_task_ids r') = set (waiting_task_ids r) \<and>
      (\<exists>pre post. queue_results r = pre @ m # post \<and> queue_results r' = pre @ post
        \<and> res_id m \<in> set is \<and> (\<forall>u \<in> set pre. res_id u \<notin> set is))"
    by (auto simp: response_scan_def dest!: take_result_Some) blast
qed (auto simp: send_def remove_waiting_task_id_def)

section \<open>The reader\<close>

text \<open>
  \<open>rd_queue\<close> and \<open>rd_results\<close> are the queues the reader refers to.  A state of a task
  (\<open>task_result_state\<close>) is a value of \<open>'s\<close>, made by \<open>mk\<close> and updated by the result's \<open>update\<close>.
\<close>

record ('c, 'r, 's) reader =
  rd_ids :: "int list"
  rd_received :: nat
  rd_cancelled :: bool
  rd_states :: "'s list"
  rd_queue :: "'c server_queue"
  rd_results :: "'r server_response"

definition reader_post_task ::
  "(task_params \<Rightarrow> 's) \<Rightarrow> int \<Rightarrow> 'c server_task \<Rightarrow> bool \<Rightarrow> ('c, 'r, 's) reader \<Rightarrow> ('c, 'r, 's) reader result" where
  "reader_post_task mk now t front rd =
     (if rd_ids rd \<noteq> [] \<or> is_parent t then Inl Abort
      else
        let t = t\<lparr>task_index := 0\<rparr>
        in rbind (post_task now t front (rd_queue rd)) (\<lambda>(_, q).
             Inr (rd\<lparr>rd_ids := [task_id t], rd_states := rd_states rd @ [mk (params t)],
                     rd_results := add_waiting_task_id (task_id t) (rd_results rd), rd_queue := q\<rparr>)))"

fun index_children :: "(task_params \<Rightarrow> 's) \<Rightarrow> nat \<Rightarrow> 'c child_task list \<Rightarrow> nat \<times> 'c child_task list \<times> 's list" where
  "index_children mk n [] = (n, [], [])"
| "index_children mk n (c # cs) =
     (let (n', cs', ss) = index_children mk (n + 1) cs
      in (n', c\<lparr>task_index := n\<rparr> # cs', mk (params c) # ss))"

fun index_tasks :: "(task_params \<Rightarrow> 's) \<Rightarrow> nat \<Rightarrow> 'c server_task list \<Rightarrow> 'c server_task list \<times> 's list" where
  "index_tasks mk n [] = ([], [])"
| "index_tasks mk n (t # ts) =
     (let (n', cs, ss) = index_children mk (n + 1) (child_tasks t);
          (ts', ss') = index_tasks mk n' ts
      in (t\<lparr>task_index := n, child_tasks := cs\<rparr> # ts', mk (params t) # ss @ ss'))"

definition reader_post_tasks ::
  "(task_params \<Rightarrow> 's) \<Rightarrow> int \<Rightarrow> 'c server_task list \<Rightarrow> bool \<Rightarrow> ('c, 'r, 's) reader \<Rightarrow> ('c, 'r, 's) reader result" where
  "reader_post_tasks mk now ts front rd =
     (if rd_ids rd \<noteq> [] then Inl Abort
      else
        let ids = get_list_id ts;
            (ts', ss) = index_tasks mk 0 ts;
            states = rd_states rd @ ss
        in if length states \<noteq> length ids then Inl Abort
           else Inr (rd\<lparr>rd_ids := ids, rd_states := states,
                        rd_results := add_waiting_task_ids ids (rd_results rd),
                        rd_queue := post_tasks now ts' front (rd_queue rd)\<rparr>))"

definition has_next :: "('c, 'r, 's) reader \<Rightarrow> bool" where
  "has_next rd = (\<not> rd_cancelled rd \<and> rd_received rd < length (rd_ids rd))"

text \<open>A cancel task; the fields that \<open>server_task(type)\<close> leaves out keep their initializers.\<close>

definition cancel_task :: "task_params \<Rightarrow> int \<Rightarrow> 'c server_task" where
  "cancel_task p target =
     \<lparr>task_id = -1, task_index = 0, id_target = target, id_slot = -1, id_parent = -1, params = p,
      tokens = st_empty, cli = False, cli_prompt = [], cli_files = [], type_of_task = TASK_CANCEL,
      slot_action_of = \<lparr>sa_id_slot = 0, sa_filename = [], sa_filepath = []\<rparr>,
      metrics_reset_bucket = False, set_lora = [], child_tasks = []\<rparr>"

definition reader_stop :: "task_params \<Rightarrow> int \<Rightarrow> ('c, 'r, 's) reader \<Rightarrow> ('c, 'r, 's) reader" where
  "reader_stop p now rd =
     (let rd = rd\<lparr>rd_results := remove_waiting_task_ids (rd_ids rd) (rd_results rd)\<rparr>
      in if has_next rd \<and> \<not> rd_cancelled rd then
           rd\<lparr>rd_cancelled := True,
              rd_results := fold remove_waiting_task_id (rd_ids rd) (rd_results rd),
              rd_queue := post_tasks now (map (cancel_task p) (rd_ids rd)) True (rd_queue rd)\<rparr>
         else rd)"

text \<open>
  One turn of the loop in \<open>next\<close>: what the timed receive gave (\<open>None\<close> is a timeout), and the
  answer of \<open>should_stop\<close>.  \<open>Again\<close> is another turn.
\<close>

datatype 'r next_out = Again | Stopped | Result "'r result_msg"

definition reader_next_turn ::
  "task_params \<Rightarrow> ('r \<Rightarrow> 's \<Rightarrow> 'r \<times> 's) \<Rightarrow> int \<Rightarrow> 'r result_msg option \<Rightarrow> bool \<Rightarrow> ('c, 'r, 's) reader
     \<Rightarrow> ('r next_out \<times> ('c, 'r, 's) reader) result" where
  "reader_next_turn p update now r should_stop rd =
     (case r of
        None \<Rightarrow> if should_stop then Inr (Stopped, rd) else Inr (Again, rd)
      | Some m \<Rightarrow>
          if res_error m then Inr (Result m, reader_stop p now rd)
          else rbind
            (if rd_states rd \<noteq> [] then
               (let idx = res_index m
                in if idx < length (rd_states rd) then
                     (let (b, s) = update (res_body m) (rd_states rd ! idx)
                      in Inr (m\<lparr>res_body := b\<rparr>, rd\<lparr>rd_states := (rd_states rd)[idx := s]\<rparr>))
                   else Inl Abort)
             else Inr (m, rd))
            (\<lambda>(m, rd). Inr (Result m,
               if res_stop m then rd\<lparr>rd_received := rd_received rd + 1\<rparr> else rd)))"

text \<open>
  \<open>wait_for_all\<close> over the turns of its calls of \<open>next\<close>; \<open>batch_results\<close> is indexed by the
  results' index, and the run may still be waiting when the turns are used up.
\<close>

datatype 'r batch_response =
    BatchDone "'r result_msg option list"
  | BatchError "'r result_msg" "'r result_msg option list"
  | BatchTerminated "'r result_msg option list"
  | BatchWaiting "'r result_msg option list"

fun wait_loop ::
  "task_params \<Rightarrow> ('r \<Rightarrow> 's \<Rightarrow> 'r \<times> 's) \<Rightarrow> int \<Rightarrow> ('r result_msg option \<times> bool) list
     \<Rightarrow> 'r result_msg option list \<Rightarrow> ('c, 'r, 's) reader \<Rightarrow> ('r batch_response \<times> ('c, 'r, 's) reader) result" where
  "wait_loop p update now turns res rd =
     (if \<not> has_next rd then Inr (BatchDone res, rd)
      else case turns of
        [] \<Rightarrow> Inr (BatchWaiting res, rd)
      | (r, should_stop) # turns' \<Rightarrow>
          rbind (reader_next_turn p update now r should_stop rd) (\<lambda>(out, rd').
            case out of
              Again \<Rightarrow> wait_loop p update now turns' res rd'
            | Stopped \<Rightarrow> Inr (BatchTerminated res, rd')
            | Result m \<Rightarrow>
                if res_error m then Inr (BatchError m res, rd')
                else if res_index m \<ge> length res then Inl Abort
                else if res ! res_index m \<noteq> None then Inl Abort
                else wait_loop p update now turns' (res[res_index m := Some m]) rd'))"

declare wait_loop.simps [simp del]

definition wait_for_all ::
  "task_params \<Rightarrow> ('r \<Rightarrow> 's \<Rightarrow> 'r \<times> 's) \<Rightarrow> int \<Rightarrow> ('r result_msg option \<times> bool) list
     \<Rightarrow> ('c, 'r, 's) reader \<Rightarrow> ('r batch_response \<times> ('c, 'r, 's) reader) result" where
  "wait_for_all p update now turns rd = wait_loop p update now turns (replicate (length (rd_ids rd)) None) rd"

section \<open>Posting through the reader\<close>

definition all_indexes :: "'c server_task list \<Rightarrow> nat list" where
  "all_indexes ts = concat (map (\<lambda>t. task_index t # map task_index (child_tasks t)) ts)"

lemma index_children_upt:
  "index_children mk n cs = (n', cs', ss) \<Longrightarrow>
     n' = n + length cs \<and> map task_index cs' = [n..<n + length cs] \<and> length ss = length cs \<and> map task_id cs' = map task_id cs"
proof (induction cs arbitrary: n n' cs' ss)
  case (Cons c cs)
  obtain m ds rs where *: "index_children mk (n + 1) cs = (m, ds, rs)"
    using prod_cases3 by blast
  then show ?case
    using Cons.IH [OF *] Cons.prems by (auto simp: upt_conv_Cons)
qed simp

definition n_task_ids :: "'c server_task list \<Rightarrow> nat" where
  "n_task_ids ts = sum_list (map (\<lambda>t. length (task_ids t)) ts)"

lemma index_tasks_upt:
  "index_tasks mk n ts = (ts', ss) \<Longrightarrow>
     all_indexes ts' = [n..<n + n_task_ids ts] \<and> length ss = n_task_ids ts \<and> map task_ids ts' = map task_ids ts"
proof (induction ts arbitrary: n ts' ss)
  case Nil
  then show ?case by (simp add: all_indexes_def n_task_ids_def)
next
  case (Cons t ts)
  obtain m cs rs where c: "index_children mk (n + 1) (child_tasks t) = (m, cs, rs)"
    using prod_cases3 by blast
  obtain us vs where u: "index_tasks mk m ts = (us, vs)"
    using prod.exhaust by blast
  from c have m: "m = n + 1 + length (child_tasks t)" "map task_index cs = [n + 1..<n + 1 + length (child_tasks t)]"
    "length rs = length (child_tasks t)" "map task_id cs = map task_id (child_tasks t)"
    using index_children_upt by fastforce+
  have "[n..<n + n_task_ids (t # ts)] = [n..<m + n_task_ids ts]"
    using m(1) by (simp add: n_task_ids_def task_ids_def ac_simps)
  also have "\<dots> = [n..<m] @ [m..<m + n_task_ids ts]"
    using m(1) by (intro upt_add_eq_append) simp
  also have "[n..<m] = n # [n + 1..<m]"
  proof -
    have "n < m" using m(1) by simp
    then show ?thesis by (simp only: upt_conv_Cons Suc_eq_plus1)
  qed
  finally have "[n..<n + n_task_ids (t # ts)] = n # [n + 1..<m] @ [m..<m + n_task_ids ts]"
    by simp
  then show ?case
    using Cons.prems Cons.IH [OF u] c u m
    by (auto simp: all_indexes_def n_task_ids_def task_ids_def)
qed

section \<open>Stopping\<close>

lemma reader_stop_cancels:
  "has_next rd \<Longrightarrow> reader_stop p now rd =
     rd\<lparr>rd_cancelled := True,
        rd_results := fold remove_waiting_task_id (rd_ids rd) (remove_waiting_task_ids (rd_ids rd) (rd_results rd)),
        rd_queue := post_tasks now (map (cancel_task p) (rd_ids rd)) True (rd_queue rd)\<rparr>"
  by (simp add: reader_stop_def has_next_def Let_def)

lemma push_cancel_pending:
  assumes "type_of_task t = TASK_CANCEL"
  shows "pending (push_task front t q) = filter_mset (\<lambda>u. task_id u \<noteq> id_target t) (pending q) + {#t#}"
proof -
  let ?F = "filter_mset (\<lambda>u. task_id u = id_target t) (pending q)"
    and ?G = "filter_mset (\<lambda>u. task_id u \<noteq> id_target t) (pending q)"
  have "pending (push_task front t q) + ?F = ?G + ?F + {#t#}"
    using pending_push [of front t q] assms filter_mset_split [of "\<lambda>u. task_id u = id_target t" "pending q"]
    by (simp add: cancelled_by_def)
  also have "\<dots> = (?G + {#t#}) + ?F"
    by (simp add: ac_simps)
  finally show ?thesis
    by (simp only: add_right_cancel)
qed

lemma type_of_cancel_task [simp]: "type_of_task (cancel_task p i) = TASK_CANCEL"
  "id_target (cancel_task p i) = i"
  by (simp_all add: cancel_task_def)

lemma post_cancels_pending:
  "\<forall>i \<in> set is. i < q_id q \<Longrightarrow>
     \<forall>u \<in># pending (snd (post_loop (map (cancel_task p) is) front r q)). 
        task_id u \<notin> set is \<and> (u \<in># pending q \<or> task_id u \<ge> q_id q)"
proof (induction "is" arbitrary: q r)
  case (Cons i "is")
  let ?t = "(cancel_task p i)\<lparr>task_id := q_id q\<rparr>" and ?q = "q\<lparr>q_id := q_id q + 1\<rparr>"
  let ?q' = "push_task front ?t ?q"
  have a: "assign_id (cancel_task p i) q = (?t, ?q)"
    by (simp add: assign_id_def cancel_task_def)
  have id: "q_id ?q' = q_id q + 1"
    by (simp add: push_task_def cleanup_pending_task_def Let_def)
  have pend: "pending ?q' = filter_mset (\<lambda>u. task_id u \<noteq> i) (pending q) + {#?t#}"
    using push_cancel_pending [of ?t front ?q] by (simp add: cancel_task_def)
  have IH: "\<forall>u \<in># pending (snd (post_loop (map (cancel_task p) is) front True ?q')).
        task_id u \<notin> set is \<and> (u \<in># pending ?q' \<or> task_id u \<ge> q_id ?q')"
    by (rule Cons.IH) (use Cons.prems id in force)
  have eq: "snd (post_loop (map (cancel_task p) (i # is)) front r q)
      = snd (post_loop (map (cancel_task p) is) front True ?q')"
    by (simp add: a task_resets_idle_timer_def)
  show ?case
  proof
    fix u assume "u \<in># pending (snd (post_loop (map (cancel_task p) (i # is)) front r q))"
    then have "u \<in># pending (snd (post_loop (map (cancel_task p) is) front True ?q'))"
      unfolding eq .
    with IH have u: "task_id u \<notin> set is" "u \<in># pending ?q' \<or> task_id u \<ge> q_id ?q'"
      by blast+
    have "i < q_id q"
      using Cons.prems by simp
    then have "task_id u \<noteq> i \<and> (u \<in># pending q \<or> task_id u \<ge> q_id q)"
      using u(2) unfolding pend id by auto
    with u(1) show "task_id u \<notin> set (i # is) \<and> (u \<in># pending q \<or> task_id u \<ge> q_id q)"
      by simp
  qed
qed simp

section \<open>Properties\<close>

text \<open>
  Receiving delivers, for any set of ids, the oldest result of these ids, takes out
  this one only, and leaves the results of the other ids untouched: results of one request
  arrive in the order they were sent, each once.
\<close>

theorem recv_oldest_first:
  "response_scan is r = Some (m, r') \<Longrightarrow>
     filter (\<lambda>u. res_id u \<in> set is) (queue_results r) = m # filter (\<lambda>u. res_id u \<in> set is) (queue_results r')
     \<and> filter (\<lambda>u. res_id u \<notin> set is) (queue_results r) = filter (\<lambda>u. res_id u \<notin> set is) (queue_results r')"
  by (rule rq.fetch_filter)

definition sample_msg :: "int \<Rightarrow> nat \<Rightarrow> unit result_msg" where
  "sample_msg i n = \<lparr>res_id = i, res_index = n, res_error = False, res_stop = True, res_body = ()\<rparr>"

definition sample_response :: "unit server_response" where
  "sample_response = response_init\<lparr>waiting_task_ids := [1, 2], queue_results := [sample_msg 2 1, sample_msg 1 0]\<rparr>"

theorem recv_oldest_first_witness:
  "filter (\<lambda>u. res_id u \<in> set [1]) (queue_results sample_response)
     = sample_msg 1 0 # filter (\<lambda>u. res_id u \<in> set [1]) (queue_results (sample_response\<lparr>queue_results := [sample_msg 2 1]\<rparr>))
   \<and> filter (\<lambda>u. res_id u \<notin> set [1]) (queue_results sample_response)
     = filter (\<lambda>u. res_id u \<notin> set [1]) (queue_results (sample_response\<lparr>queue_results := [sample_msg 2 1]\<rparr>))"
  by (rule recv_oldest_first) (simp add: sample_response_def response_scan_def sample_msg_def)

text \<open>
  Property C29. Stopping an unfinished reader silences it: whatever the slots still send for its
  tasks is dropped, none of its tasks is left in any of the three queues, and the cancel tasks
  stand in the queues instead (its ids were handed out by the queue).
\<close>

theorem reader_stop_silences:
  "has_next rd \<Longrightarrow> \<forall>i \<in> set (rd_ids rd). i < q_id (rd_queue rd) \<Longrightarrow>
     response_scan (rd_ids rd) (fold send ms (rd_results (reader_stop p now rd))) = None
     \<and> (\<forall>t \<in># pending (rd_queue (reader_stop p now rd)). task_id t \<notin> set (rd_ids rd))
     \<and> \<not> has_next (reader_stop p now rd)"
  using rq.forgotten_stays_silent [of "rd_ids rd" ms "remove_waiting_task_ids (rd_ids rd) (rd_results rd)"]
    post_cancels_pending [of "rd_ids rd" "rd_queue rd" p True False]
  by (simp add: reader_stop_cancels has_next_def post_tasks_def case_prod_beta)

definition sample_reader :: "(unit, unit, unit) reader" where
  "sample_reader = \<lparr>rd_ids = [1, 2], rd_received = 0, rd_cancelled = False, rd_states = [(), ()],
     rd_queue = queue_init\<lparr>q_id := 3, queue_tasks := [metrics_task\<lparr>task_id := 1\<rparr>]\<rparr>,
     rd_results = sample_response\<rparr>"

theorem reader_stop_silences_witness:
  "response_scan (rd_ids sample_reader)
      (fold send [sample_msg 1 0] (rd_results (reader_stop sample_params 9 sample_reader))) = None
   \<and> {#t \<in># pending (rd_queue (reader_stop sample_params 9 sample_reader)). task_id t \<in> {1, 2}#} = {#}
   \<and> \<not> has_next (reader_stop sample_params 9 sample_reader)"
proof -
  have "has_next sample_reader" "\<forall>i \<in> set (rd_ids sample_reader). i < q_id (rd_queue sample_reader)"
    "set (rd_ids sample_reader) = {1, 2}"
    by (simp_all add: sample_reader_def has_next_def)
  then show ?thesis
    using reader_stop_silences [of sample_reader "[sample_msg 1 0]" sample_params 9]
    by (auto simp: filter_mset_eq_conv)
qed

text \<open>
  Posting a batch numbers all its tasks, children included, consecutively from 0
  in order, keeps one state for each, and marks every id as waiting before it is queued.
\<close>

theorem reader_post_tasks_indexes:
  "reader_post_tasks mk now ts front rd = Inr rd' \<Longrightarrow>
     all_indexes (fst (index_tasks mk 0 ts)) = [0..<n_task_ids ts]
     \<and> length (rd_states rd') = length (rd_ids rd')
     \<and> set (rd_ids rd') \<subseteq> set (waiting_task_ids (rd_results rd'))
     \<and> rd_queue rd' = post_tasks now (fst (index_tasks mk 0 ts)) front (rd_queue rd)"
proof -
  have ins: "set (fold List.insert xs ys) = set xs \<union> set ys" for xs ys :: "int list"
    by (induction xs arbitrary: ys) auto
  assume "reader_post_tasks mk now ts front rd = Inr rd'"
  then show ?thesis
    using index_tasks_upt [of mk 0 ts "fst (index_tasks mk 0 ts)" "snd (index_tasks mk 0 ts)"]
    by (auto simp: reader_post_tasks_def Let_def case_prod_beta add_waiting_task_ids_def ins split: if_splits)
qed

theorem reader_post_tasks_indexes_witness:
  "all_indexes (fst (index_tasks (\<lambda>_. ()) 0 [metrics_task])) = [0..<n_task_ids [metrics_task]]
   \<and> length (rd_states (sample_reader\<lparr>rd_ids := [7], rd_states := [()]\<rparr>)) = 1"
proof -
  let ?rd = "sample_reader\<lparr>rd_ids := [], rd_states := []\<rparr>"
  have "\<exists>rd'. reader_post_tasks (\<lambda>_. ()) 0 [metrics_task] False ?rd = Inr rd'"
    by (simp add: reader_post_tasks_def get_list_id_def task_ids_def metrics_task_def Let_def)
  then show ?thesis
    using reader_post_tasks_indexes by (fastforce simp: sample_reader_def)
qed

text \<open>
  The results still to come are exactly the indexes not yet filled.  A place is filled once, with the
  result of its index, updated by the state the task had at first.
\<close>

definition filled :: "('r \<Rightarrow> 's \<Rightarrow> 'r \<times> 's) \<Rightarrow> 's list \<Rightarrow> 'r result_msg list \<Rightarrow> nat \<Rightarrow> 'r result_msg \<Rightarrow> bool" where
  "filled update ss ms i r \<longleftrightarrow> (\<exists>m \<in> set ms. res_index m = i \<and> r = m\<lparr>res_body := fst (update (res_body m) (ss ! i))\<rparr>)"

lemma wait_loop_collects:
  assumes "\<forall>t \<in> set turns. \<not> snd t" "ms = List.map_filter fst turns"
    "\<forall>m \<in> set ms. \<not> res_error m \<and> res_stop m" "distinct (map res_index ms)"
    "set (map res_index ms) = {i. i < n \<and> res ! i = None}"
    "length res = n" "length (rd_states rd) = n" "length (rd_ids rd) = n" "\<not> rd_cancelled rd"
    "rd_received rd + length ms = n"
  shows "\<exists>res' rd'. wait_loop p update now turns res rd = Inr (BatchDone res', rd') \<and> length res' = n
           \<and> (\<forall>i < n. case res ! i of Some r \<Rightarrow> res' ! i = Some r | None \<Rightarrow> \<exists>r. res' ! i = Some r \<and> filled update (rd_states rd) ms i r)"
  using assms
proof (induction turns arbitrary: ms res rd)
  case Nil
  then have ms: "ms = []" by (simp add: List.map_filter_def)
  then have "\<forall>i < n. res ! i \<noteq> None"
    using Nil(5) by fastforce
  with Nil(6-10) ms show ?case
    by (subst wait_loop.simps) (auto simp: has_next_def split: option.split)
next
  case (Cons t turns)
  obtain r where t: "t = (r, False)" using Cons.prems(1) by (cases t) auto
  show ?case
  proof (cases "has_next rd")
    case False
    then have "\<not> rd_received rd < length (rd_ids rd)" using Cons.prems(9) by (simp add: has_next_def)
    then have "length ms = 0" using Cons.prems(8,10) by linarith
    then have "ms = []" by simp
    then have "\<forall>i < n. res ! i \<noteq> None"
      using Cons.prems(5) by fastforce
    with False Cons.prems(6) show ?thesis
      by (subst wait_loop.simps) (auto split: option.split)
  next
    case more: True
    show ?thesis
    proof (cases r)
      case None
      then have "ms = List.map_filter fst turns"
        using Cons.prems(2) t by (simp add: List.map_filter_simps)
      then show ?thesis
        using Cons.IH [of ms res rd] Cons.prems None more t
        by (subst wait_loop.simps) (simp add: reader_next_turn_def)
    next
      case (Some m)
      define ms' where "ms' = List.map_filter fst turns"
      have ms: "ms = m # ms'"
        using Cons.prems(2) t Some by (simp add: List.map_filter_simps ms'_def)
      have i: "res_index m < n" "res ! res_index m = None"
        using Cons.prems(5) ms by auto
      obtain b s where u: "update (res_body m) (rd_states rd ! res_index m) = (b, s)"
        using prod.exhaust by blast
      let ?m = "m\<lparr>res_body := b\<rparr>"
      let ?rd = "rd\<lparr>rd_states := (rd_states rd)[res_index m := s], rd_received := rd_received rd + 1\<rparr>"
      let ?res = "res[res_index m := Some ?m]"
      have turn: "reader_next_turn p update now (Some m) False rd = Inr (Result ?m, ?rd)"
        using Cons.prems(3,7) ms i u by (auto simp: reader_next_turn_def Let_def)
      have step: "wait_loop p update now (t # turns) res rd = wait_loop p update now turns ?res ?rd"
        using turn Cons.prems(3,6) ms i more t Some by (subst wait_loop.simps) simp
      have "set (map res_index ms') = {i. i < n \<and> ?res ! i = None}"
        using Cons.prems(4-6) ms i by (auto simp: nth_list_update)
      then obtain res' rd' where run: "wait_loop p update now turns ?res ?rd = Inr (BatchDone res', rd')" "length res' = n"
        and f: "\<forall>i < n. case ?res ! i of Some r \<Rightarrow> res' ! i = Some r
                  | None \<Rightarrow> \<exists>r. res' ! i = Some r \<and> filled update (rd_states ?rd) ms' i r"
        using Cons.IH [of ms' ?res ?rd] Cons.prems(1,3,4,6-10) ms by (auto simp: ms'_def)
      have "case res ! k of Some r \<Rightarrow> res' ! k = Some r | None \<Rightarrow> \<exists>r. res' ! k = Some r \<and> filled update (rd_states rd) ms k r"
        if k: "k < n" for k
      proof (cases "k = res_index m")
        case True
        then have "res' ! k = Some ?m" using f k Cons.prems(6) by (auto split: option.splits)
        then show ?thesis using True i u ms by (auto simp: filled_def)
      next
        case False
        then show ?thesis using f k ms by (fastforce simp: filled_def split: option.splits)
      qed
      then show ?thesis using step run by auto
    qed
  qed
qed

text \<open>
  Collecting a whole batch succeeds: if the results of the tasks are final, free of
  errors and carry the indexes of the batch in any order, then \<open>wait_for_all\<close> ends, past any
  number of timeouts, with the result of index \<open>i\<close> in place \<open>i\<close>, and no assertion fails.
\<close>

theorem wait_for_all_collects:
  "\<forall>t \<in> set turns. \<not> snd t \<Longrightarrow>
     \<forall>m \<in> set (List.map_filter fst turns). \<not> res_error m \<and> res_stop m \<Longrightarrow>
     mset (map res_index (List.map_filter fst turns)) = mset [0..<length (rd_ids rd)] \<Longrightarrow>
     length (rd_states rd) = length (rd_ids rd) \<Longrightarrow> rd_received rd = 0 \<Longrightarrow> \<not> rd_cancelled rd \<Longrightarrow>
     \<exists>res rd'. wait_for_all p update now turns rd = Inr (BatchDone res, rd') \<and> length res = length (rd_ids rd)
       \<and> (\<forall>i < length (rd_ids rd). \<exists>m. res ! i = Some m \<and> res_index m = i)"
proof -
  let ?ms = "List.map_filter fst turns" and ?n = "length (rd_ids rd)"
  assume a: "\<forall>t \<in> set turns. \<not> snd t" "\<forall>m \<in> set ?ms. \<not> res_error m \<and> res_stop m"
    "mset (map res_index ?ms) = mset [0..<?n]"
    "length (rd_states rd) = ?n" "rd_received rd = 0" "\<not> rd_cancelled rd"
  have "distinct (map res_index ?ms)" "set (map res_index ?ms) = {i. i < ?n}" "length ?ms = ?n"
    using a(3) mset_eq_imp_distinct_iff [OF a(3)] mset_eq_setD [OF a(3)] mset_eq_length [OF a(3)] by auto
  then show ?thesis
    unfolding wait_for_all_def
    using wait_loop_collects [OF a(1) refl a(2), of ?n "replicate ?n None" rd p update now] a
    by (fastforce simp: filled_def)
qed

theorem wait_for_all_collects_witness:
  "\<exists>a b rd'. wait_for_all sample_params (\<lambda>r s. (r, s)) 0
      [(Some (sample_msg 2 1), False), (None, False), (Some (sample_msg 1 0), False)] sample_reader
        = Inr (BatchDone [Some a, Some b], rd') \<and> res_index a = 0 \<and> res_index b = 1"
proof -
  let ?run = "wait_for_all sample_params (\<lambda>r s. (r, s)) 0
      [(Some (sample_msg 2 1), False), (None, False), (Some (sample_msg 1 0), False)] sample_reader"
  have "\<exists>res rd'. ?run = Inr (BatchDone res, rd') \<and> length res = length (rd_ids sample_reader)
     \<and> (\<forall>i < length (rd_ids sample_reader). \<exists>m. res ! i = Some m \<and> res_index m = i)"
    by (rule wait_for_all_collects)
      (simp_all add: List.map_filter_simps sample_msg_def sample_reader_def numeral_2_eq_2)
  then obtain res rd' where r: "?run = Inr (BatchDone res, rd')" "length res = 2"
    "\<forall>i < 2. \<exists>m. res ! i = Some m \<and> res_index m = i"
    by (auto simp: sample_reader_def)
  obtain a b where "res ! 0 = Some a" "res_index a = 0" "res ! 1 = Some b" "res_index b = 1"
    using r(3) by (meson one_less_numeral_iff semiring_norm(76) zero_less_numeral)
  moreover from this r(2) have "res = [Some a, Some b]"
    by (auto simp: numeral_2_eq_2 length_Suc_conv)
  ultimately show ?thesis using r(1) by blast
qed

end
