(* ===== verification/Cache.thy ===== *)
theory Cache
  imports Task
begin

text \<open>
  The prompt cache (\<open>server_prompt\<close>, \<open>server_prompt_cache\<close>: server-task.h, server-task.cpp): saved
  sequence states with their prompts, oldest first, under a limit of bytes and of tokens.
  The \<open>float\<close> and \<open>double\<close> arithmetic of the heuristics is exact arithmetic followed by the
  rounding functions of the record \<open>float_ops\<close>; a division by zero (a NaN, as the
  numerator is then zero too) is \<open>None\<close>, and every comparison with it is false.
  Restoring a state into the inference contexts is a pair of functions that give the number
  of bytes read.
\<close>

section \<open>Data\<close>

text \<open>A checkpoint of the library: \<open>ck_size\<close> is its \<open>size()\<close>.\<close>

record checkpoint =
  ck_n_tokens :: int
  ck_pos_min :: int
  ck_pos_max :: int
  ck_id_task :: int
  ck_size :: nat

record 'c server_prompt =
  pr_tokens :: "'c server_tokens"
  pr_checkpoints :: "checkpoint list"

record prompt_data =
  pd_main :: "byte list"
  pd_drft :: "byte list"

record 'c cache_state =
  cs_prompt :: "'c server_prompt"
  cs_data :: prompt_data

record 'c prompt_cache =
  states :: "'c cache_state list"
  limit_size :: nat
  limit_tokens :: nat

record float_ops =
  f32 :: "rat \<Rightarrow> rat"
  f64 :: "rat \<Rightarrow> rat"

definition prompt_clear :: "'c server_prompt \<Rightarrow> 'c server_prompt" where
  "prompt_clear p = p\<lparr>pr_tokens := st_clear (pr_tokens p), pr_checkpoints := []\<rparr>"

definition prompt_n_tokens :: "'c server_prompt \<Rightarrow> nat" where
  "prompt_n_tokens p = st_size (pr_tokens p)"

definition prompt_clone :: "'c mtmd \<Rightarrow> 'c server_prompt \<Rightarrow> 'c server_prompt" where
  "prompt_clone M p = \<lparr>pr_tokens = clone M (pr_tokens p), pr_checkpoints = pr_checkpoints p\<rparr>"

definition data_size :: "prompt_data \<Rightarrow> nat" where
  "data_size d = length (pd_main d) + length (pd_drft d)"

definition cache_state_size :: "'c cache_state \<Rightarrow> nat" where
  "cache_state_size s = data_size (cs_data s) + sum_list (map ck_size (pr_checkpoints (cs_prompt s)))"

definition prompt_cache_init :: "int \<Rightarrow> nat \<Rightarrow> 'c prompt_cache" where
  "prompt_cache_init limit_size_mib limit_tok =
     \<lparr>states = [], limit_size = 1024 * 1024 * nat (if limit_size_mib < 0 then 0 else limit_size_mib),
      limit_tokens = limit_tok\<rparr>"

definition states_size :: "'c cache_state list \<Rightarrow> nat" where
  "states_size ss = sum_list (map cache_state_size ss)"

definition states_n_tokens :: "'c cache_state list \<Rightarrow> nat" where
  "states_n_tokens ss = sum_list (map (\<lambda>s. prompt_n_tokens (cs_prompt s)) ss)"

definition cache_size :: "'c prompt_cache \<Rightarrow> nat" where
  "cache_size c = states_size (states c)"

definition cache_n_tokens :: "'c prompt_cache \<Rightarrow> nat" where
  "cache_n_tokens c = states_n_tokens (states c)"

section \<open>Limits\<close>

text \<open>Dropping the oldest entries while the rest is too much.\<close>

fun evict_while :: "('c cache_state list \<Rightarrow> bool) \<Rightarrow> 'c cache_state list \<Rightarrow> 'c cache_state list" where
  "evict_while too_much [] = []"
| "evict_while too_much (s # ss) = (if too_much (s # ss) then evict_while too_much ss else s # ss)"

definition cache_update :: "float_ops \<Rightarrow> 'c prompt_cache \<Rightarrow> 'c prompt_cache" where
  "cache_update F c =
     (let c = (if limit_size c > 0
               then c\<lparr>states := evict_while (\<lambda>ss. states_size ss > limit_size c) (states c)\<rparr> else c);
          size_per_token = max 1 (f32 F (f32 F (of_nat (cache_size c)) / f32 F (of_nat (max 1 (cache_n_tokens c)))));
          limit_tokens_cur =
            (if limit_size c > 0
             then max (limit_tokens c) (nat \<lfloor>f32 F (f32 F (of_nat (limit_size c)) / size_per_token)\<rfloor>)
             else limit_tokens c)
      in if limit_tokens c > 0
         then c\<lparr>states := evict_while (\<lambda>ss. states_n_tokens ss > limit_tokens_cur) (states c)\<rparr> else c)"

section \<open>Saving\<close>

text \<open>The checks of the common prefixes, which may throw as \<open>get_common_prefix\<close> does.\<close>

fun cache_contains :: "'c mtmd \<Rightarrow> 'c server_prompt \<Rightarrow> 'c cache_state list \<Rightarrow> bool result" where
  "cache_contains M p [] = Inr False"
| "cache_contains M p (s # ss) =
     rbind (get_common_prefix M (pr_tokens (cs_prompt s)) (pr_tokens p)) (\<lambda>n.
       if n = st_size (pr_tokens p) then Inr True else cache_contains M p ss)"

fun remove_contained :: "'c mtmd \<Rightarrow> 'c server_prompt \<Rightarrow> 'c cache_state list \<Rightarrow> ('c cache_state list) result" where
  "remove_contained M p [] = Inr []"
| "remove_contained M p (s # ss) =
     rbind (get_common_prefix M (pr_tokens (cs_prompt s)) (pr_tokens p)) (\<lambda>n.
     rbind (remove_contained M p ss) (\<lambda>rest.
       Inr (if n = st_size (pr_tokens (cs_prompt s)) then rest else s # rest)))"

text \<open>
  \<open>alloc\<close> gives whether there is a new entry (the last one); \<open>can_alloc\<close> tells whether the two
  vectors can be allocated.
\<close>

definition cache_alloc ::
  "float_ops \<Rightarrow> 'c mtmd \<Rightarrow> bool \<Rightarrow> 'c server_prompt \<Rightarrow> nat \<Rightarrow> nat \<Rightarrow> 'c prompt_cache \<Rightarrow> (bool \<times> 'c prompt_cache) result" where
  "cache_alloc F M can_alloc p size_tgt size_dft c =
     rbind (cache_contains M p (states c)) (\<lambda>contained.
     if contained then Inr (False, c)
     else
       let size_new = size_tgt + size_dft + sum_list (map ck_size (pr_checkpoints p))
       in if limit_size c > 0 \<and> size_new > limit_size c then Inr (False, c)
          else rbind (remove_contained M p (states c)) (\<lambda>ss.
            let ss = (if limit_size c > 0 then evict_while (\<lambda>ss. states_size ss + size_new > limit_size c) ss else ss)
            in if can_alloc then
                 Inr (True, c\<lparr>states := ss @
                   [\<lparr>cs_prompt = \<lparr>pr_tokens = clone M (pr_tokens p), pr_checkpoints = pr_checkpoints p\<rparr>,
                     cs_data = \<lparr>pd_main = replicate size_tgt 0, pd_drft = replicate size_dft 0\<rparr>\<rparr>]\<rparr>)
               else
                 let size04 = nat \<lfloor>f64 F (f64 F (4 / 10) * f64 F (of_nat (states_size ss)))\<rfloor>
                 in Inr (False, cache_update F (c\<lparr>states := ss, limit_size := max 1 size04\<rparr>))))"

section \<open>Loading\<close>

definition fdiv :: "float_ops \<Rightarrow> nat \<Rightarrow> nat \<Rightarrow> rat option" where
  "fdiv F a b = (if b = 0 then None else Some (f32 F (f32 F (of_nat a) / f32 F (of_nat b))))"

definition fless :: "rat option \<Rightarrow> rat option \<Rightarrow> bool" where
  "fless x y = (case (x, y) of (Some a, Some b) \<Rightarrow> a < b | _ \<Rightarrow> False)"

text \<open>The search for the best entry: its index, with the best values so far.\<close>

fun load_search ::
  "float_ops \<Rightarrow> 'c mtmd \<Rightarrow> 'c server_tokens \<Rightarrow> nat \<Rightarrow> 'c cache_state list \<Rightarrow> rat option \<Rightarrow> rat option \<Rightarrow> nat option
     \<Rightarrow> (nat option) result" where
  "load_search F M new i [] keep_best sim_best best = Inr best"
| "load_search F M new i (s # ss) keep_best sim_best best =
     rbind (get_common_prefix M (pr_tokens (cs_prompt s)) new) (\<lambda>lcp.
       let keep_cur = fdiv F lcp (st_size (pr_tokens (cs_prompt s)));
           sim_cur = fdiv F lcp (st_size new)
       in if fless keep_cur (Some (1 / 4)) then load_search F M new (i + 1) ss keep_best sim_best best
          else if fless keep_best keep_cur \<and> fless sim_best sim_cur
          then load_search F M new (i + 1) ss keep_cur sim_cur (Some i)
          else load_search F M new (i + 1) ss keep_best sim_best best)"

text \<open>
  \<open>set_tgt\<close>, \<open>set_dft\<close> are \<open>llama_state_seq_set_data_ext\<close> on the two contexts (the bytes read from
  the data); \<open>set_dft\<close> is \<open>None\<close> when there is no draft context.
\<close>

definition cache_load ::
  "float_ops \<Rightarrow> 'c mtmd \<Rightarrow> (byte list \<Rightarrow> nat) \<Rightarrow> (byte list \<Rightarrow> nat) option \<Rightarrow> 'c server_prompt \<Rightarrow> 'c server_tokens
     \<Rightarrow> 'c prompt_cache \<Rightarrow> (bool \<times> 'c server_prompt \<times> 'c prompt_cache) result" where
  "cache_load F M set_tgt set_dft p new c =
     rbind (get_common_prefix M (pr_tokens p) new) (\<lambda>lcp.
     let keep = (if st_size (pr_tokens p) > 0 then fdiv F lcp (st_size (pr_tokens p)) else Some (- 1));
         sim = fdiv F lcp (st_size new)
     in rbind (load_search F M new 0 (states c) keep sim None) (\<lambda>best.
        case best of
          None \<Rightarrow> Inr (True, p, c)
        | Some i \<Rightarrow>
            let s = states c ! i; d = cs_data s
            in if set_tgt (pd_main d) \<noteq> length (pd_main d) then Inr (False, p, c)
               else
                 let s1 = s\<lparr>cs_data := d\<lparr>pd_main := []\<rparr>\<rparr>;
                     erase = c\<lparr>states := take i (states c) @ drop (i + 1) (states c)\<rparr>
                 in if pd_drft d = [] then Inr (True, cs_prompt s, erase)
                    else case set_dft of
                           None \<Rightarrow> Inl Abort
                         | Some set_d \<Rightarrow>
                             if set_d (pd_drft d) \<noteq> length (pd_drft d)
                             then Inr (False, p, c\<lparr>states := (states c)[i := s1]\<rparr>)
                             else Inr (True, cs_prompt s, erase)))"

section \<open>Lemmas\<close>

lemma states_size_simps [simp]:
  "states_size [] = 0" "states_size (s # ss) = cache_state_size s + states_size ss"
  "states_size (ss @ ts) = states_size ss + states_size ts"
  by (simp_all add: states_size_def)

lemma states_n_tokens_simps [simp]:
  "states_n_tokens [] = 0" "states_n_tokens (s # ss) = prompt_n_tokens (cs_prompt s) + states_n_tokens ss"
  by (simp_all add: states_n_tokens_def)

lemma evict_while_stops: "evict_while P ss = [] \<or> \<not> P (evict_while P ss)"
  by (induction ss) auto

text \<open>Only the oldest entries go, and each of them only because what it headed was too much.\<close>

lemma evict_while_drop:
  "\<exists>k. evict_while P ss = drop k ss \<and> (\<forall>j < k. j < length ss \<and> P (drop j ss))"
proof (induction ss)
  case (Cons s ss)
  then obtain k where k: "evict_while P ss = drop k ss" "\<forall>j < k. j < length ss \<and> P (drop j ss)" by blast
  show ?case
  proof (cases "P (s # ss)")
    case True
    have "\<forall>j < Suc k. j < length (s # ss) \<and> P (drop j (s # ss))"
    proof (intro allI impI)
      fix j assume "j < Suc k"
      then show "j < length (s # ss) \<and> P (drop j (s # ss))"
        using True k(2) by (cases j) auto
    qed
    then show ?thesis
      using True k(1) by (intro exI [of _ "Suc k"]) simp
  next
    case False
    then show ?thesis by (intro exI [of _ 0]) simp
  qed
qed (intro exI [of _ 0]; simp)

lemma remove_contained_size: "remove_contained M p ss = Inr ss' \<Longrightarrow> states_size ss' \<le> states_size ss"
  by (induction ss arbitrary: ss') (fastforce simp: rbind_Inr_iff split: if_splits)+

lemma cache_update_limits:
  "limit_size (cache_update F c) = limit_size c" "limit_tokens (cache_update F c) = limit_tokens c"
  by (simp_all add: cache_update_def Let_def)

lemma states_size_drop: "states_size (drop k ss) \<le> states_size ss"
  by (metis append_take_drop_id le_add2 states_size_simps(3))

lemma cache_update_size: "limit_size c > 0 \<Longrightarrow> cache_size (cache_update F c) \<le> limit_size c"
proof -
  assume pos: "limit_size c > 0"
  let ?P = "\<lambda>ss. states_size ss > limit_size c"
  have le: "states_size (evict_while ?P ss) \<le> limit_size c" for ss
    using evict_while_stops [of ?P ss] by auto
  have ev: "\<exists>k. evict_while P ss = drop k ss" for P and ss :: "'a cache_state list"
    using evict_while_drop by blast
  have "\<exists>k. states (cache_update F c) = drop k (evict_while ?P (states c))"
    using pos by (cases "limit_tokens c > 0") (auto simp: cache_update_def Let_def ev intro: exI [of _ 0])
  then show ?thesis
    using le states_size_drop order_trans unfolding cache_size_def by metis
qed

text \<open>The token limit in force after the bytes are under theirs.\<close>

definition token_limit :: "float_ops \<Rightarrow> 'c prompt_cache \<Rightarrow> nat" where
  "token_limit F c =
     (if limit_size c > 0
      then max (limit_tokens c)
             (nat \<lfloor>f32 F (f32 F (of_nat (limit_size c))
                / max 1 (f32 F (f32 F (of_nat (cache_size c)) / f32 F (of_nat (max 1 (cache_n_tokens c))))))\<rfloor>)
      else limit_tokens c)"

lemma cache_update_split:
  "cache_update F c =
     (let c1 = (if limit_size c > 0
                then c\<lparr>states := evict_while (\<lambda>ss. states_size ss > limit_size c) (states c)\<rparr> else c)
      in if limit_tokens c > 0
         then c1\<lparr>states := evict_while (\<lambda>ss. states_n_tokens ss > token_limit F c1) (states c1)\<rparr> else c1)"
  by (simp add: cache_update_def token_limit_def Let_def)

section \<open>Properties\<close>

text \<open>
  After an update the cache is under its byte limit, and under the token limit
  (raised to what the byte limit leaves room for); only oldest entries were dropped, the rest
  is unchanged and in order.
\<close>

theorem cache_update_within_limits:
  "(limit_size c > 0 \<longrightarrow> cache_size (cache_update F c) \<le> limit_size c)
   \<and> (\<exists>k. states (cache_update F c) = drop k (states c))
   \<and> (limit_tokens c > 0 \<longrightarrow> (\<exists>j. cache_n_tokens (cache_update F c) \<le> token_limit F (c\<lparr>states := drop j (states c)\<rparr>)))"
proof (intro conjI impI)
  show "limit_size c > 0 \<Longrightarrow> cache_size (cache_update F c) \<le> limit_size c"
    by (rule cache_update_size)
  have ev: "\<exists>k. evict_while P ss = drop k ss" for P and ss :: "'a cache_state list"
    using evict_while_drop by blast
  obtain j where j: "evict_while (\<lambda>ss. states_size ss > limit_size c) (states c) = drop j (states c)"
    using ev by blast
  define c1 where "c1 = (if limit_size c > 0 then c\<lparr>states := drop j (states c)\<rparr> else c)"
  have c1: "\<exists>i. c1 = c\<lparr>states := drop i (states c)\<rparr>"
    by (auto simp: c1_def intro: exI [of _ 0])
  have up: "cache_update F c = (if limit_tokens c > 0
      then c1\<lparr>states := evict_while (\<lambda>ss. states_n_tokens ss > token_limit F c1) (states c1)\<rparr> else c1)"
    by (simp add: cache_update_split j c1_def Let_def)
  obtain i where i: "evict_while (\<lambda>ss. states_n_tokens ss > token_limit F c1) (states c1) = drop i (states c1)"
    using ev by blast
  show "\<exists>k. states (cache_update F c) = drop k (states c)"
    using c1 unfolding up i by auto
  have "states_n_tokens (evict_while (\<lambda>ss. states_n_tokens ss > token_limit F c1) (states c1)) \<le> token_limit F c1"
    using evict_while_stops [of "\<lambda>ss. states_n_tokens ss > token_limit F c1" "states c1"] by auto
  then show "\<exists>j. cache_n_tokens (cache_update F c) \<le> token_limit F (c\<lparr>states := drop j (states c)\<rparr>)"
    if "limit_tokens c > 0"
    using c1 that unfolding up by (auto simp: cache_n_tokens_def)
qed

definition exact_floats :: float_ops where
  "exact_floats = \<lparr>f32 = \<lambda>x. x, f64 = \<lambda>x. x\<rparr>"

definition sample_entry :: "llama_token list \<Rightarrow> nat \<Rightarrow> byte list cache_state" where
  "sample_entry ts n = \<lparr>cs_prompt = \<lparr>pr_tokens = st_of_tokens ts False, pr_checkpoints = []\<rparr>,
     cs_data = \<lparr>pd_main = replicate n 0, pd_drft = []\<rparr>\<rparr>"

definition sample_cache :: "byte list prompt_cache" where
  "sample_cache = \<lparr>states = [sample_entry [1, 2] 4, sample_entry [3] 4], limit_size = 6, limit_tokens = 3\<rparr>"

theorem cache_update_within_limits_witness:
  "cache_size (cache_update exact_floats sample_cache) \<le> 6
   \<and> (\<exists>j. cache_n_tokens (cache_update exact_floats sample_cache)
        \<le> token_limit exact_floats (sample_cache\<lparr>states := drop j (states sample_cache)\<rparr>))"
  using cache_update_within_limits [of sample_cache exact_floats] by (simp add: sample_cache_def)

text \<open>
  Property C30. Allocating an entry never breaches the byte limit: when an entry is returned, it
  is the last one, holds the prompt with vectors of the two sizes, and the whole cache fits.
\<close>

theorem cache_alloc_within_limit:
  "cache_alloc F M can_alloc p size_tgt size_dft c = Inr (True, c') \<Longrightarrow> limit_size c > 0 \<Longrightarrow>
     cache_size c' \<le> limit_size c' \<and> limit_size c' = limit_size c \<and> states c' \<noteq> []
     \<and> cs_prompt (last (states c')) = prompt_clone M p
     \<and> length (pd_main (cs_data (last (states c')))) = size_tgt
     \<and> length (pd_drft (cs_data (last (states c')))) = size_dft"
proof -
  let ?new = "size_tgt + size_dft + sum_list (map ck_size (pr_checkpoints p))"
  assume a: "cache_alloc F M can_alloc p size_tgt size_dft c = Inr (True, c')" "limit_size c > 0"
  let ?P = "\<lambda>ss. states_size ss + ?new > limit_size c"
  let ?e = "\<lparr>cs_prompt = \<lparr>pr_tokens = clone M (pr_tokens p), pr_checkpoints = pr_checkpoints p\<rparr>,
                     cs_data = \<lparr>pd_main = replicate size_tgt 0, pd_drft = replicate size_dft 0\<rparr>\<rparr>"
  from a obtain ss where ss: "?new \<le> limit_size c" "c' = c\<lparr>states := evict_while ?P ss @ [?e]\<rparr>"
    by (auto simp: cache_alloc_def Let_def rbind_Inr_iff not_less split: if_splits)
  have "states_size (evict_while ?P ss) + ?new \<le> limit_size c"
    using evict_while_stops [of ?P ss] ss(1) by auto
  then show ?thesis
    by (simp add: ss(2) cache_size_def cache_state_size_def data_size_def prompt_clone_def)
qed

theorem cache_alloc_within_limit_witness:
  "\<exists>c'. cache_alloc exact_floats sample_mtmd True (cs_prompt (sample_entry [1, 2, 5] 0)) 5 0 sample_cache = Inr (True, c')
     \<and> cache_size c' \<le> limit_size c'"
proof -
  have "\<exists>c'. cache_alloc exact_floats sample_mtmd True (cs_prompt (sample_entry [1, 2, 5] 0)) 5 0 sample_cache = Inr (True, c')"
    by (simp add: cache_alloc_def sample_cache_def sample_entry_def get_common_prefix_def st_of_tokens_def st_size_def)
  moreover have "limit_size sample_cache > 0"
    by (simp add: sample_cache_def)
  ultimately show ?thesis
    using cache_alloc_within_limit by blast
qed

text \<open>What the search returns beats the start values, entry by entry.\<close>

lemma fless_trans: "fless x y \<Longrightarrow> fless y z \<Longrightarrow> fless x z"
  by (auto simp: fless_def split: option.splits)

definition better_entry :: "float_ops \<Rightarrow> 'c mtmd \<Rightarrow> 'c server_tokens \<Rightarrow> rat option \<Rightarrow> rat option \<Rightarrow> 'c cache_state \<Rightarrow> bool" where
  "better_entry F M new keep sim s \<longleftrightarrow> (\<exists>n. get_common_prefix M (pr_tokens (cs_prompt s)) new = Inr n
     \<and> fless sim (fdiv F n (st_size new))
     \<and> fless keep (fdiv F n (st_size (pr_tokens (cs_prompt s))))
     \<and> \<not> fless (fdiv F n (st_size (pr_tokens (cs_prompt s)))) (Some (1 / 4)))"

lemma better_entry_trans:
  "better_entry F M new k s e \<Longrightarrow> fless k0 k \<Longrightarrow> fless s0 s \<Longrightarrow> better_entry F M new k0 s0 e"
  unfolding better_entry_def using fless_trans by blast

lemma load_search_sound:
  assumes "load_search F M new i ss keep sim best = Inr (Some k)"
  shows "best = Some k \<or> (i \<le> k \<and> k < i + length ss \<and> better_entry F M new keep sim (ss ! (k - i)))"
  using assms
proof (induction ss arbitrary: i keep sim best)
  case (Cons s ss)
  obtain n where n: "get_common_prefix M (pr_tokens (cs_prompt s)) new = Inr n"
    using Cons.prems by (auto simp: rbind_Inr_iff)
  let ?kc = "fdiv F n (st_size (pr_tokens (cs_prompt s)))" and ?sc = "fdiv F n (st_size new)"
  have shift: "i + 1 \<le> k \<Longrightarrow> (s # ss) ! (k - i) = ss ! (k - (i + 1))"
    by (simp add: nth_Cons')
  show ?case
  proof (cases "\<not> fless ?kc (Some (1 / 4)) \<and> fless keep ?kc \<and> fless sim ?sc")
    case True
    then have "load_search F M new (i + 1) ss ?kc ?sc (Some i) = Inr (Some k)"
      using Cons.prems n by (simp add: Let_def)
    from Cons.IH [OF this] consider "k = i"
      | "i + 1 \<le> k" "k < i + 1 + length ss" "better_entry F M new ?kc ?sc (ss ! (k - (i + 1)))"
      by auto
    then show ?thesis
    proof cases
      case 1
      then show ?thesis using True n by (auto simp: better_entry_def)
    next
      case 2
      then show ?thesis using True shift better_entry_trans [OF 2(3)] by simp
    qed
  next
    case False
    then have "load_search F M new (i + 1) ss keep sim best = Inr (Some k)"
      using Cons.prems n by (auto simp: Let_def split: if_splits)
    from Cons.IH [OF this] show ?thesis
      using shift by auto
  qed
qed simp

lemma fdiv_less_num:
  assumes "fless (fdiv F a n) (fdiv F b n)" "mono (f32 F)" "f32 F (of_nat n) > 0"
  shows "a < b"
proof (rule ccontr)
  assume "\<not> a < b"
  then have "f32 F (of_nat b) \<le> f32 F (of_nat a)"
    using assms(2) by (simp add: monoD)
  then have "f32 F (of_nat b) / f32 F (of_nat n) \<le> f32 F (of_nat a) / f32 F (of_nat n)"
    using assms(3) by (simp add: divide_right_mono)
  then have "f32 F (f32 F (of_nat b) / f32 F (of_nat n)) \<le> f32 F (f32 F (of_nat a) / f32 F (of_nat n))"
    by (rule monoD [OF assms(2)])
  then show False
    using assms(1) by (auto simp: fdiv_def fless_def split: if_splits)
qed

text \<open>
  Loading replaces the prompt of a slot only by a cached one that shares strictly
  more tokens with the new prompt, taken out of the cache, the other entries untouched; when
  the restore fails the slot keeps its prompt (what is relied on of \<open>float\<close>: rounding is monotone).
\<close>

theorem cache_load_improves:
  "cache_load F M set_tgt set_dft p new c = Inr (ok, p', c') \<Longrightarrow> mono (f32 F) \<Longrightarrow> f32 F (of_nat (st_size new)) > 0 \<Longrightarrow>
     (p' = p \<and> (ok \<longrightarrow> c' = c))
     \<or> (ok \<and> (\<exists>pre s post a b. states c = pre @ s # post \<and> c' = c\<lparr>states := pre @ post\<rparr> \<and> p' = cs_prompt s
          \<and> get_common_prefix M (pr_tokens p) new = Inr a
          \<and> get_common_prefix M (pr_tokens p') new = Inr b \<and> a < b))"
proof -
  assume a: "cache_load F M set_tgt set_dft p new c = Inr (ok, p', c')" "mono (f32 F)" "f32 F (of_nat (st_size new)) > 0"
  then obtain n best where n: "get_common_prefix M (pr_tokens p) new = Inr n"
    and s: "load_search F M new 0 (states c)
      (if st_size (pr_tokens p) > 0 then fdiv F n (st_size (pr_tokens p)) else Some (- 1))
      (fdiv F n (st_size new)) None = Inr best"
    by (auto simp: cache_load_def Let_def rbind_Inr_iff)
  show ?thesis
  proof (cases best)
    case None
    then show ?thesis using a n s by (auto simp: cache_load_def Let_def)
  next
    case (Some i)
    let ?s = "states c ! i"
    obtain b where b: "i < length (states c)" "get_common_prefix M (pr_tokens (cs_prompt ?s)) new = Inr b"
      "fless (fdiv F n (st_size new)) (fdiv F b (st_size new))"
      using load_search_sound [OF s [unfolded Some]] by (auto simp: better_entry_def)
    have "n < b"
      using fdiv_less_num b(3) a(2,3) by blast
    moreover have "states c = take i (states c) @ ?s # drop (i + 1) (states c)"
      using b(1) by (simp add: id_take_nth_drop)
    ultimately have better: "\<exists>pre s post a b. states c = pre @ s # post \<and>
        c\<lparr>states := take i (states c) @ drop (i + 1) (states c)\<rparr> = c\<lparr>states := pre @ post\<rparr> \<and> cs_prompt ?s = cs_prompt s
          \<and> get_common_prefix M (pr_tokens p) new = Inr a
          \<and> get_common_prefix M (pr_tokens (cs_prompt ?s)) new = Inr b \<and> a < b"
      using n b(2) by blast
    have "(p' = p \<and> \<not> ok) \<or> (ok \<and> p' = cs_prompt ?s \<and> c' = c\<lparr>states := take i (states c) @ drop (i + 1) (states c)\<rparr>)"
      using a(1) n s Some by (auto simp: cache_load_def Let_def split: if_splits option.splits)
    then show ?thesis
      using better by blast
  qed
qed

definition loaded_cache :: "byte list prompt_cache" where
  "loaded_cache = sample_cache\<lparr>states := [sample_entry [3] 4]\<rparr>"

theorem cache_load_improves_witness:
  "(cs_prompt (sample_entry [1, 2] 4) = cs_prompt (sample_entry [1, 7] 0) \<and> loaded_cache = sample_cache)
     \<or> (\<exists>pre s post a b. states sample_cache = pre @ s # post
          \<and> loaded_cache = sample_cache\<lparr>states := pre @ post\<rparr> \<and> cs_prompt (sample_entry [1, 2] 4) = cs_prompt s
          \<and> get_common_prefix sample_mtmd (pr_tokens (cs_prompt (sample_entry [1, 7] 0))) (st_of_tokens [1, 2, 9] False) = Inr a
          \<and> get_common_prefix sample_mtmd (pr_tokens (cs_prompt (sample_entry [1, 2] 4))) (st_of_tokens [1, 2, 9] False) = Inr b
          \<and> a < b)"
  using cache_load_improves [of exact_floats sample_mtmd length None "cs_prompt (sample_entry [1, 7] 0)"
      "st_of_tokens [1, 2, 9] False" sample_cache True "cs_prompt (sample_entry [1, 2] 4)" loaded_cache]
  by (simp add: cache_load_def sample_cache_def loaded_cache_def sample_entry_def get_common_prefix_def
      st_of_tokens_def st_size_def fdiv_def fless_def exact_floats_def mono_def)

text \<open>
  When only the draft part of the best entry cannot be restored, the entry stays in the cache
  without its main data: a later load of it restores nothing into the main context.
\<close>

theorem cache_load_draft_failure:
  "cache_load exact_floats sample_mtmd length (Some (\<lambda>_. 0)) (cs_prompt (sample_entry [1, 7] 0)) (st_of_tokens [1, 2, 9] False)
     (sample_cache\<lparr>states := [(sample_entry [1, 2] 4)\<lparr>cs_data := \<lparr>pd_main = [7, 7], pd_drft = [8]\<rparr>\<rparr>]\<rparr>)
   = Inr (False, cs_prompt (sample_entry [1, 7] 0),
       sample_cache\<lparr>states := [(sample_entry [1, 2] 4)\<lparr>cs_data := \<lparr>pd_main = [], pd_drft = [8]\<rparr>\<rparr>]\<rparr>)"
  by (simp add: cache_load_def sample_cache_def sample_entry_def get_common_prefix_def
      st_of_tokens_def st_size_def fdiv_def fless_def exact_floats_def)

end
