(* ===== verification/Results.thy ===== *)
theory Results
  imports Task Bytes
begin

text \<open>
  What the slots send back (server-task.h, server-common.h, server-task.cpp): the statistics of a
  slot and of the server, the parts of a chat message, the state a streaming request keeps
  between chunks (\<open>task_result_state\<close>) with its update, and the result types with their
  virtual methods.  The chat parser, the computation of diffs and the generator of tool call
  ids are library functions, the fields of the record \<open>chat_lib\<close>.
\<close>

section \<open>Statistics\<close>

record slot_stats =
  n_prompt_cached :: nat
  n_prompt_processed :: nat
  n_gen :: nat
  n_draft_tokens :: nat
  n_draft_accepted :: nat
  n_draft_verif_steps :: nat
  t_start :: int
  t_prompt_last :: int
  t_gen_last :: int

definition stats_zero :: slot_stats where
  "stats_zero = \<lparr>n_prompt_cached = 0, n_prompt_processed = 0, n_gen = 0, n_draft_tokens = 0,
     n_draft_accepted = 0, n_draft_verif_steps = 0, t_start = 0, t_prompt_last = 0, t_gen_last = 0\<rparr>"

definition update_prompt_start :: "int \<Rightarrow> slot_stats \<Rightarrow> slot_stats result" where
  "update_prompt_start now s = (if t_start s = 0 then Inr (s\<lparr>t_start := now\<rparr>) else Inl Abort)"

definition set_prompt_last :: "int \<Rightarrow> slot_stats \<Rightarrow> slot_stats result" where
  "set_prompt_last t s = (if t_start s > 0 then Inr (s\<lparr>t_prompt_last := t\<rparr>) else Inl Abort)"

definition update_gen_last :: "int \<Rightarrow> slot_stats \<Rightarrow> slot_stats result" where
  "update_gen_last now s = (if t_prompt_last s > 0 then Inr (s\<lparr>t_gen_last := now\<rparr>) else Inl Abort)"

definition t_elapsed_us :: "int \<Rightarrow> slot_stats \<Rightarrow> int" where
  "t_elapsed_us now s = now - t_start s"

definition t_prompt_ms :: "slot_stats \<Rightarrow> rat" where
  "t_prompt_ms s = (if t_prompt_last s = 0 then 0 else of_int (t_prompt_last s - t_start s) / 1000)"

definition t_gen_us :: "slot_stats \<Rightarrow> int" where
  "t_gen_us s = (if t_gen_last s = 0 then 0 else max 1 (t_gen_last s - t_prompt_last s))"

definition t_gen_ms :: "slot_stats \<Rightarrow> rat" where
  "t_gen_ms s = of_int (t_gen_us s) / 1000"

definition n_gen_steps :: "slot_stats \<Rightarrow> nat" where
  "n_gen_steps s = (if n_gen s > 0 then n_gen s - 1 else 0)"

definition t_prompt_per_token_ms :: "slot_stats \<Rightarrow> rat" where
  "t_prompt_per_token_ms s = (if n_prompt_processed s > 0 then t_prompt_ms s / of_nat (n_prompt_processed s) else 0)"

definition t_gen_per_token_ms :: "slot_stats \<Rightarrow> rat" where
  "t_gen_per_token_ms s = (if n_gen_steps s > 0 then t_gen_ms s / of_nat (n_gen_steps s) else 0)"

definition n_prompt_tps :: "slot_stats \<Rightarrow> rat" where
  "n_prompt_tps s = (let t = t_prompt_ms s in if t > 0 then 1000 / t * of_nat (n_prompt_processed s) else 0)"

definition n_gen_tps :: "slot_stats \<Rightarrow> rat" where
  "n_gen_tps s = (let t = t_gen_ms s in if t > 0 then 1000 / t * of_nat (n_gen_steps s) else 0)"

definition stats_is_set :: "slot_stats \<Rightarrow> bool" where
  "stats_is_set s = (t_start s > 0)"

record bucket =
  b_count :: nat
  b_steps :: nat
  b_time :: nat

definition bucket_zero :: bucket where
  "bucket_zero = \<lparr>b_count = 0, b_steps = 0, b_time = 0\<rparr>"

definition bucket_n_per_second :: "bucket \<Rightarrow> rat" where
  "bucket_n_per_second b = (if b_time b > 0 then of_nat (b_steps b) / of_nat (b_time b) * 1000000 else 0)"

definition bucket_add :: "nat \<Rightarrow> nat \<Rightarrow> nat \<Rightarrow> bucket \<Rightarrow> bucket" where
  "bucket_add n n_steps t_us b =
     b\<lparr>b_count := b_count b + n, b_steps := b_steps b + n_steps, b_time := b_time b + t_us\<rparr>"

record server_metrics =
  m_t_start :: int
  prompt_bucket :: bucket
  predict_bucket :: bucket
  m_prompt :: bucket
  m_predict :: bucket
  m_n_prompt_cached :: nat
  m_n_tokens_max :: nat
  m_n_decode :: nat
  m_n_busy_slots :: nat
  m_n_draft_tokens :: nat
  m_n_draft_accepted :: nat
  m_n_draft_verif_steps :: nat
  m_n_accepted_per_pos :: "nat list"

definition metrics_init :: "int \<Rightarrow> server_metrics \<Rightarrow> server_metrics" where
  "metrics_init now m = m\<lparr>m_t_start := now\<rparr>"

definition reset_bucket :: "server_metrics \<Rightarrow> server_metrics" where
  "reset_bucket m = m\<lparr>prompt_bucket := bucket_zero, predict_bucket := bucket_zero\<rparr>"

definition add_prompt :: "nat \<Rightarrow> nat \<Rightarrow> server_metrics \<Rightarrow> server_metrics" where
  "add_prompt n t_us m =
     m\<lparr>m_prompt := bucket_add n n t_us (m_prompt m), prompt_bucket := bucket_add n n t_us (prompt_bucket m)\<rparr>"

definition add_prompt_cached :: "nat \<Rightarrow> server_metrics \<Rightarrow> server_metrics" where
  "add_prompt_cached n m = m\<lparr>m_n_prompt_cached := m_n_prompt_cached m + n\<rparr>"

section \<open>Chat messages\<close>

record chat_tool_call =
  tc_name :: string
  tc_arguments :: string
  tc_id :: string

record chat_msg =
  cm_role :: string
  cm_content :: string
  cm_reasoning :: string
  cm_tool_calls :: "chat_tool_call list"

text \<open>\<open>tool_call_index\<close> is \<open>None\<close> for \<open>npos\<close>.\<close>

record chat_diff =
  cd_reasoning :: string
  cd_content :: string
  cd_index :: "nat option"
  cd_call :: chat_tool_call

definition empty_msg :: chat_msg where
  "empty_msg = \<lparr>cm_role = [], cm_content = [], cm_reasoning = [], cm_tool_calls = []\<rparr>"

record chat_lib =
  cl_parse :: "string \<Rightarrow> bool \<Rightarrow> chat_parser_params \<Rightarrow> chat_msg"
  cl_empty :: "chat_msg \<Rightarrow> bool"
  cl_diffs :: "chat_msg \<Rightarrow> chat_msg \<Rightarrow> chat_diff list"
  cl_set_ids :: "string list \<Rightarrow> chat_msg \<Rightarrow> string list \<times> chat_msg"

record result_state =
  rs_parser :: chat_parser_params
  rs_msg :: chat_msg
  rs_text :: string
  rs_tool_ids :: "string list"
  rs_sent_names :: "nat list"
  rs_thinking_started :: bool
  rs_text_started :: bool
  rs_resp_created :: bool
  rs_resp_id :: string
  rs_resp_reasoning_id :: string
  rs_resp_message_id :: string
  rs_resp_fc_id :: string

text \<open>The constructor; \<open>r1\<close>, \<open>r2\<close>, \<open>r3\<close> are the random strings.\<close>

definition result_state_init :: "chat_lib \<Rightarrow> string \<Rightarrow> string \<Rightarrow> string \<Rightarrow> chat_parser_params \<Rightarrow> result_state" where
  "result_state_init L r1 r2 r3 p =
     \<lparr>rs_parser = p,
      rs_msg = (if cpp_is_continuation p \<and> \<not> cpp_echo p then cl_parse L [] True p else empty_msg),
      rs_text = [], rs_tool_ids = [], rs_sent_names = [], rs_thinking_started = False,
      rs_text_started = False, rs_resp_created = False, rs_resp_id = ''resp_'' @ r1,
      rs_resp_reasoning_id = ''rs_'' @ r2, rs_resp_message_id = ''msg_'' @ r3, rs_resp_fc_id = []\<rparr>"

section \<open>Filtering tool call names\<close>

text \<open>The header that announces tool call \<open>i\<close> of the message.\<close>

definition name_header :: "chat_msg \<Rightarrow> nat \<Rightarrow> chat_diff" where
  "name_header m i =
     \<lparr>cd_reasoning = [], cd_content = [], cd_index = Some i,
      cd_call = \<lparr>tc_name = tc_name (cm_tool_calls m ! i), tc_arguments = [], tc_id = tc_id (cm_tool_calls m ! i)\<rparr>\<rparr>"

text \<open>The flush before a delta, over the indexes of the tool calls; the pair is the sent set and the diffs.\<close>

fun flush_names :: "chat_msg \<Rightarrow> chat_diff \<Rightarrow> nat list \<Rightarrow> nat list \<times> chat_diff list \<Rightarrow> nat list \<times> chat_diff list" where
  "flush_names m d [] acc = acc"
| "flush_names m d (i # is) (sent, out) =
     (if i \<in> set sent \<or> tc_name (cm_tool_calls m ! i) = [] then flush_names m d is (sent, out)
      else if cd_index d \<noteq> Some i \<or> tc_arguments (cd_call d) \<noteq> []
      then flush_names m d is (List.insert i sent, out @ [name_header m i])
      else flush_names m d is (sent, out))"

definition filter_diff :: "chat_msg \<Rightarrow> bool \<Rightarrow> chat_diff \<Rightarrow> nat list \<times> chat_diff list \<Rightarrow> nat list \<times> chat_diff list" where
  "filter_diff m is_partial d acc =
     (let (sent, out) = flush_names m d [0..<length (cm_tool_calls m)] acc
      in case cd_index d of
           None \<Rightarrow> (sent, out @ [d])
         | Some i \<Rightarrow>
             if i \<in> set sent then
               (if tc_arguments (cd_call d) \<noteq> []
                then (sent, out @ [d\<lparr>cd_call := (cd_call d)\<lparr>tc_name := [], tc_id := []\<rparr>\<rparr>])
                else (sent, out))
             else if tc_arguments (cd_call d) \<noteq> [] \<or> \<not> is_partial
             then (List.insert i sent,
                   out @ [d\<lparr>cd_call := (cd_call d)\<lparr>tc_name := tc_name (cm_tool_calls m ! i),
                                                 tc_id := tc_id (cm_tool_calls m ! i)\<rparr>\<rparr>])
             else (sent, out))"

fun final_names :: "chat_msg \<Rightarrow> nat list \<Rightarrow> nat list \<times> chat_diff list \<Rightarrow> nat list \<times> chat_diff list" where
  "final_names m [] acc = acc"
| "final_names m (i # is) (sent, out) =
     (if i \<notin> set sent \<and> tc_name (cm_tool_calls m ! i) \<noteq> []
      then final_names m is (List.insert i sent, out @ [name_header m i])
      else final_names m is (sent, out))"

definition filter_diffs :: "chat_msg \<Rightarrow> bool \<Rightarrow> chat_diff list \<Rightarrow> nat list \<times> chat_diff list \<Rightarrow> nat list \<times> chat_diff list" where
  "filter_diffs m is_partial all acc =
     (let acc = fold (filter_diff m is_partial) all acc
      in if \<not> is_partial then final_names m [0..<length (cm_tool_calls m)] acc else acc)"

text \<open>\<open>update_chat_msg\<close>: the message, the diffs (passed in and out) and the state.\<close>

definition update_chat_msg ::
  "chat_lib \<Rightarrow> string \<Rightarrow> bool \<Rightarrow> chat_diff list \<Rightarrow> bool \<Rightarrow> result_state \<Rightarrow> chat_msg \<times> chat_diff list \<times> result_state" where
  "update_chat_msg L text_added is_partial ds filter_tool_calls s =
     (let s = s\<lparr>rs_text := rs_text s @ text_added\<rparr>;
          prev = rs_msg s;
          new = cl_parse L (rs_text s) is_partial (rs_parser s)
      in if cl_empty L new then (rs_msg s, ds, s)
         else
           let (ids, new) = cl_set_ids L (rs_tool_ids s) new;
               s = s\<lparr>rs_tool_ids := ids, rs_msg := new\<rparr>;
               all = cl_diffs L prev new
           in if \<not> filter_tool_calls then (new, all, s)
              else let (sent, ds) = filter_diffs new is_partial all (rs_sent_names s, ds)
                   in (new, ds, s\<lparr>rs_sent_names := sent\<rparr>))"

section \<open>Result types\<close>

record prob_info =
  pi_tok :: llama_token
  pi_txt :: string
  pi_prob :: rat

record token_output =
  to_tok :: llama_token
  to_prob :: rat
  to_text :: string
  to_probs :: "prob_info list"

record prompt_progress =
  pp_total :: int
  pp_cache :: int
  pp_processed :: int
  pp_time_ms :: int

datatype error_type =
    ERROR_INVALID_REQUEST | ERROR_AUTHENTICATION | ERROR_SERVER | ERROR_NOT_FOUND | ERROR_PERMISSION
  | ERROR_UNAVAILABLE | ERROR_NOT_SUPPORTED | ERROR_EXCEED_CONTEXT_SIZE

record cmpl_final =
  f_id_slot :: int
  f_index :: nat
  f_content :: string
  f_tokens :: "llama_token list"
  f_stream :: bool
  f_include_usage :: bool
  f_stats :: slot_stats
  f_prompt :: string
  f_truncated :: bool
  f_n_decoded :: int
  f_n_prompt_tokens :: int
  f_n_prompt_tokens_cache :: int
  f_n_tokens_cached :: int
  f_has_new_line :: bool
  f_stopping_word :: string
  f_stop :: stop_type
  f_post_sampling_probs :: bool
  f_probs_output :: "token_output list"
  f_response_fields :: "string list"
  f_generation_params :: task_params
  f_verbose :: bool
  f_res_type :: task_response_type
  f_model :: string
  f_cmpl_id :: string
  f_msg :: chat_msg
  f_diffs :: "chat_diff list"
  f_is_updated :: bool
  f_resp_id :: string
  f_resp_reasoning_id :: string
  f_resp_message_id :: string

record cmpl_partial =
  p_id_slot :: int
  p_index :: nat
  p_content :: string
  p_tokens :: "llama_token list"
  p_n_decoded :: int
  p_n_prompt_tokens :: int
  p_n_prompt_tokens_cache :: int
  p_post_sampling_probs :: bool
  p_is_progress :: bool
  p_is_begin :: bool
  p_prob_output :: token_output
  p_stats :: slot_stats
  p_progress :: prompt_progress
  p_verbose :: bool
  p_res_type :: task_response_type
  p_model :: string
  p_cmpl_id :: string
  p_diffs :: "chat_diff list"
  p_is_updated :: bool
  p_thinking_started :: bool
  p_text_started :: bool
  p_resp_created :: bool
  p_resp_id :: string
  p_resp_reasoning_id :: string
  p_resp_message_id :: string
  p_resp_fc_id :: string
  p_has_reasoning :: bool

datatype result_body =
    Final cmpl_final
  | Partial cmpl_partial
  | Embd nat "rat list list" int task_response_type
  | Rerank nat rat int
  | Error error_type string int int
  | Metrics int int server_metrics
  | Slots int json
  | Slot_save_load int string bool nat nat rat
  | Slot_erase int nat
  | Control bool string
  | Get_lora json
  | Apply_lora
  | Router json

text \<open>The virtual methods \<open>is_error\<close> and \<open>is_stop\<close>.\<close>

fun body_is_error :: "result_body \<Rightarrow> bool" where
  "body_is_error (Error _ _ _ _) = True"
| "body_is_error _ = False"

fun body_is_stop :: "result_body \<Rightarrow> bool" where
  "body_is_stop (Partial _) = False"
| "body_is_stop _ = True"

definition final_update :: "chat_lib \<Rightarrow> cmpl_final \<Rightarrow> result_state \<Rightarrow> cmpl_final \<times> result_state" where
  "final_update L f s =
     (let (m, ds, s) = update_chat_msg L (f_content f) False (f_diffs f) False s
      in (f\<lparr>f_is_updated := True, f_msg := m, f_diffs := ds, f_resp_id := rs_resp_id s,
            f_resp_reasoning_id := rs_resp_reasoning_id s, f_resp_message_id := rs_resp_message_id s\<rparr>, s))"

text \<open>The state kept for the next chunk.\<close>

definition state_after_diff :: "chat_diff \<Rightarrow> result_state \<Rightarrow> result_state" where
  "state_after_diff d s =
     (let s = (if cd_reasoning d \<noteq> [] \<and> \<not> rs_thinking_started s then s\<lparr>rs_thinking_started := True\<rparr> else s);
          s = (if cd_content d \<noteq> [] \<and> \<not> rs_text_started s then s\<lparr>rs_text_started := True\<rparr> else s)
      in if tc_name (cd_call d) \<noteq> [] then s\<lparr>rs_resp_fc_id := tc_id (cd_call d)\<rparr> else s)"

definition partial_update :: "chat_lib \<Rightarrow> cmpl_partial \<Rightarrow> result_state \<Rightarrow> cmpl_partial \<times> result_state" where
  "partial_update L p s =
     (let p = p\<lparr>p_is_updated := True\<rparr>
      in if p_is_begin p then (p, s)
         else
           let (m, ds, s) = update_chat_msg L (p_content p) True (p_diffs p) False s;
               p = p\<lparr>p_diffs := ds, p_thinking_started := rs_thinking_started s,
                     p_text_started := rs_text_started s, p_resp_created := rs_resp_created s,
                     p_resp_id := rs_resp_id s, p_resp_reasoning_id := rs_resp_reasoning_id s,
                     p_resp_message_id := rs_resp_message_id s, p_resp_fc_id := rs_resp_fc_id s,
                     p_has_reasoning := (cm_reasoning (rs_msg s) \<noteq> [])\<rparr>;
               s = (if p_res_type p = RESPONSE_OAI_RESP \<and> \<not> rs_resp_created s \<and> (p_is_progress p \<or> p_n_decoded p = 1)
                    then s\<lparr>rs_resp_created := True\<rparr> else s)
           in (p, fold state_after_diff ds s))"

fun body_update :: "chat_lib \<Rightarrow> result_body \<Rightarrow> result_state \<Rightarrow> result_body \<times> result_state" where
  "body_update L (Final f) s = (let (f, s) = final_update L f s in (Final f, s))"
| "body_update L (Partial p) s = (let (p, s) = partial_update L p s in (Partial p, s))"
| "body_update L b s = (b, s)"

section \<open>Lemmas on the filter\<close>

text \<open>The announcements of tool call \<open>i\<close>, its arguments, and the deltas that are no tool calls.\<close>

definition names_of :: "nat \<Rightarrow> chat_diff list \<Rightarrow> chat_diff list" where
  "names_of i ds = filter (\<lambda>d. cd_index d = Some i \<and> tc_name (cd_call d) \<noteq> []) ds"

definition args_of :: "nat \<Rightarrow> chat_diff list \<Rightarrow> string" where
  "args_of i ds = concat (map (\<lambda>d. tc_arguments (cd_call d)) (filter (\<lambda>d. cd_index d = Some i) ds))"

definition texts_of :: "chat_diff list \<Rightarrow> chat_diff list" where
  "texts_of ds = filter (\<lambda>d. cd_index d = None) ds"

lemma of_append [simp]:
  "names_of i (ds @ es) = names_of i ds @ names_of i es" "args_of i (ds @ es) = args_of i ds @ args_of i es"
  "texts_of (ds @ es) = texts_of ds @ texts_of es"
  by (simp_all add: names_of_def args_of_def texts_of_def)

lemma of_Nil [simp]: "names_of i [] = []" "args_of i [] = []" "texts_of [] = []"
  by (simp_all add: names_of_def args_of_def texts_of_def)

text \<open>A call is announced at most once, and only if it is marked as sent.\<close>

definition sent_inv :: "nat list \<times> chat_diff list \<Rightarrow> bool" where
  "sent_inv acc \<longleftrightarrow> (\<forall>i. length (names_of i (snd acc)) \<le> 1 \<and> (names_of i (snd acc) \<noteq> [] \<longrightarrow> i \<in> set (fst acc)))"

lemma sent_inv_header:
  "sent_inv (sent, out) \<Longrightarrow> i \<notin> set sent \<Longrightarrow> cd_index d = Some i \<Longrightarrow> sent_inv (List.insert i sent, out @ [d])"
  by (auto simp: sent_inv_def names_of_def)

lemma sent_inv_Cons:
  "sent_inv (sent, out) \<Longrightarrow> i \<notin> set sent \<Longrightarrow> cd_index d = Some i \<Longrightarrow> sent_inv (i # sent, out @ [d])"
  by (auto simp: sent_inv_def names_of_def)

lemma name_header_index [simp]: "cd_index (name_header m i) = Some i"
  by (simp add: name_header_def)

lemma sent_inv_silent:
  "sent_inv (sent, out) \<Longrightarrow> cd_index d = None \<or> tc_name (cd_call d) = [] \<Longrightarrow> sent_inv (sent, out @ [d])"
  by (auto simp: sent_inv_def names_of_def)

lemma flush_names_inv: "sent_inv acc \<Longrightarrow> sent_inv (flush_names m d is acc)"
  by (induction m d "is" acc rule: flush_names.induct) (auto simp: sent_inv_Cons)

lemma final_names_inv: "sent_inv acc \<Longrightarrow> sent_inv (final_names m is acc)"
  by (induction m "is" acc rule: final_names.induct) (auto simp: sent_inv_Cons)

lemma filter_diff_inv: "sent_inv acc \<Longrightarrow> sent_inv (filter_diff m b d acc)"
  using flush_names_inv [of acc m d "[0..<length (cm_tool_calls m)]"]
  by (auto simp: filter_diff_def Let_def intro: sent_inv_header sent_inv_Cons sent_inv_silent split: prod.splits option.splits)

lemma filter_diffs_inv: "sent_inv acc \<Longrightarrow> sent_inv (filter_diffs m b all acc)"
proof -
  have "sent_inv acc \<Longrightarrow> sent_inv (fold (filter_diff m b) all acc)" for acc
  proof (induction all arbitrary: acc)
    case (Cons d all)
    then show ?case using filter_diff_inv by simp
  qed simp
  then show "sent_inv acc \<Longrightarrow> sent_inv (filter_diffs m b all acc)"
    by (cases b) (auto simp: filter_diffs_def Let_def final_names_inv)
qed

lemma flush_names_rest:
  "args_of i (snd (flush_names m d is acc)) = args_of i (snd acc)"
  "texts_of (snd (flush_names m d is acc)) = texts_of (snd acc)"
  by (induction m d "is" acc rule: flush_names.induct) (auto simp: name_header_def args_of_def texts_of_def)

lemma final_names_rest:
  "args_of i (snd (final_names m is acc)) = args_of i (snd acc)"
  "texts_of (snd (final_names m is acc)) = texts_of (snd acc)"
  by (induction m "is" acc rule: final_names.induct) (auto simp: name_header_def args_of_def texts_of_def)

lemma filter_diff_rest:
  "args_of i (snd (filter_diff m b d acc)) = args_of i (snd acc) @ args_of i [d]"
  "texts_of (snd (filter_diff m b d acc)) = texts_of (snd acc) @ texts_of [d]"
  using flush_names_rest(1) [of i m d "[0..<length (cm_tool_calls m)]" acc]
    flush_names_rest(2) [of m d "[0..<length (cm_tool_calls m)]" acc]
  by (auto simp: filter_diff_def Let_def args_of_def texts_of_def split: prod.splits option.splits)

lemma filter_diffs_rest:
  "args_of i (snd (filter_diffs m b all acc)) = args_of i (snd acc) @ args_of i all
   \<and> texts_of (snd (filter_diffs m b all acc)) = texts_of (snd acc) @ texts_of all"
proof -
  have "args_of i (snd (fold (filter_diff m b) all acc)) = args_of i (snd acc) @ args_of i all
    \<and> texts_of (snd (fold (filter_diff m b) all acc)) = texts_of (snd acc) @ texts_of all" for acc
  proof (induction all arbitrary: acc)
    case (Cons d all)
    then show ?case
      using filter_diff_rest(1) [of i m b d acc] filter_diff_rest(2) [of m b d acc]
        of_append(2) [of i "[d]" all] of_append(3) [of "[d]" all] by simp
  qed simp
  then show ?thesis
    by (cases b) (auto simp: filter_diffs_def Let_def final_names_rest)
qed

section \<open>Properties\<close>

text \<open>
  Filtering tool call names announces every tool call at most once over a whole
  stream of chunks, and drops nothing else: for each call the arguments sent are those of the
  diffs, and the text and reasoning deltas pass unchanged and in order.
\<close>

theorem tool_call_names_sent_once:
  "sent_inv acc \<Longrightarrow>
     sent_inv (filter_diffs m is_partial all acc)
     \<and> args_of i (snd (filter_diffs m is_partial all acc)) = args_of i (snd acc) @ args_of i all
     \<and> texts_of (snd (filter_diffs m is_partial all acc)) = texts_of (snd acc) @ texts_of all"
  using filter_diffs_inv filter_diffs_rest by blast

definition sample_call :: chat_tool_call where
  "sample_call = \<lparr>tc_name = ''f'', tc_arguments = ''{}'', tc_id = ''1''\<rparr>"

definition sample_chat :: chat_msg where
  "sample_chat = \<lparr>cm_role = ''assistant'', cm_content = [], cm_reasoning = [], cm_tool_calls = [sample_call]\<rparr>"

definition sample_diffs :: "chat_diff list" where
  "sample_diffs = [\<lparr>cd_reasoning = [], cd_content = [], cd_index = Some 0, cd_call = sample_call\<rparr>,
     \<lparr>cd_reasoning = [], cd_content = ''x'', cd_index = None, cd_call = sample_call\<rparr>]"

theorem tool_call_names_sent_once_witness:
  "sent_inv (filter_diffs sample_chat True sample_diffs ([], []))
   \<and> args_of 0 (snd (filter_diffs sample_chat True sample_diffs ([], []))) = args_of 0 (snd ([] :: nat list, [])) @ args_of 0 sample_diffs
   \<and> texts_of (snd (filter_diffs sample_chat True sample_diffs ([], []))) = texts_of (snd ([] :: nat list, [])) @ texts_of sample_diffs"
  by (rule tool_call_names_sent_once) (simp add: sent_inv_def)

end
