(* ===== verification/Format.thy ===== *)
theory Format
  imports Results
begin

text \<open>
  How results become the JSON of the three HTTP dialects (server-task.cpp, server-common.cpp):
  the native format, the OpenAI formats (completions, chat, responses, transcriptions,
  embeddings, rerank) and the Anthropic messages format, whole and streamed, and the errors.
  The record \<open>json_env\<close> holds what the code takes from elsewhere: the clock, the build
  information, random strings, the logarithm, and the JSON of library structures.
\<close>

record json_env =
  je_time :: int
  je_build :: string
  je_random :: "nat \<Rightarrow> string"
  je_log :: "rat \<Rightarrow> rat"
  je_lowest :: rat
  je_diff :: "chat_diff \<Rightarrow> json"
  je_msg :: "chat_msg \<Rightarrow> json"
  je_msg_empty :: "chat_msg \<Rightarrow> bool"
  je_parse :: "string \<Rightarrow> json option"
  je_split :: "string \<Rightarrow> string list"

section \<open>Shared pieces\<close>

definition jnat :: "nat \<Rightarrow> json" where
  "jnat n = JInt (int n)"

definition jtoks :: "llama_token list \<Rightarrow> json" where
  "jtoks ts = JArr (map (\<lambda>t. JInt (sint t)) ts)"

definition format_error_response :: "string \<Rightarrow> error_type \<Rightarrow> json" where
  "format_error_response message ty =
     (let (type_str, code) =
        (case ty of
           ERROR_INVALID_REQUEST \<Rightarrow> (''invalid_request_error'', 400)
         | ERROR_AUTHENTICATION \<Rightarrow> (''authentication_error'', 401)
         | ERROR_NOT_FOUND \<Rightarrow> (''not_found_error'', 404)
         | ERROR_SERVER \<Rightarrow> (''server_error'', 500)
         | ERROR_PERMISSION \<Rightarrow> (''permission_error'', 403)
         | ERROR_NOT_SUPPORTED \<Rightarrow> (''not_supported_error'', 501)
         | ERROR_UNAVAILABLE \<Rightarrow> (''unavailable_error'', 503)
         | ERROR_EXCEED_CONTEXT_SIZE \<Rightarrow> (''exceed_context_size_error'', 400))
      in JObj [(''code'', JInt code), (''message'', JStr message), (''type'', JStr type_str)])"

definition stats_to_json :: "slot_stats \<Rightarrow> json" where
  "stats_to_json s =
     (let base = JObj
        [(''cache_n'', jnat (n_prompt_cached s)),
         (''prompt_n'', jnat (n_prompt_processed s)),
         (''prompt_ms'', JNum (t_prompt_ms s)),
         (''prompt_per_token_ms'', JNum (t_prompt_per_token_ms s)),
         (''prompt_per_second'', JNum (n_prompt_tps s)),
         (''predicted_n'', jnat (n_gen s)),
         (''predicted_ms'', JNum (t_gen_ms s)),
         (''predicted_per_token_ms'', JNum (t_gen_per_token_ms s)),
         (''predicted_per_second'', JNum (n_gen_tps s))]
      in if n_draft_tokens s > 0
         then jset ''draft_n_accepted'' (jnat (n_draft_accepted s)) (jset ''draft_n'' (jnat (n_draft_tokens s)) base)
         else base)"

definition progress_to_json :: "prompt_progress \<Rightarrow> json" where
  "progress_to_json p = JObj
     [(''total'', JInt (pp_total p)), (''cache'', JInt (pp_cache p)),
      (''processed'', JInt (pp_processed p)), (''time_ms'', JInt (pp_time_ms p))]"

fun stop_type_to_str :: "stop_type \<Rightarrow> string" where
  "stop_type_to_str STOP_EOS = ''eos''"
| "stop_type_to_str STOP_WORD = ''word''"
| "stop_type_to_str STOP_LIMIT = ''limit''"
| "stop_type_to_str STOP_NONE = ''none''"

section \<open>Task parameters\<close>

definition format_logit_bias :: "(llama_token \<times> rat) list \<Rightarrow> json" where
  "format_logit_bias lbs = JArr (map (\<lambda>(t, b). JObj [(''bias'', JNum b), (''token'', JInt (sint t))]) lbs)"

text \<open>The members the two branches of \<open>to_json\<close> share, before the breakers of the DRY sampler.\<close>

definition params_head :: "task_params \<Rightarrow> (string \<times> json) list" where
  "params_head p = (let s = sampling p in
     [(''seed'', JInt (uint (sp_seed s))),
      (''temperature'', JNum (sp_temp s)),
      (''dynatemp_range'', JNum (sp_dynatemp_range s)),
      (''dynatemp_exponent'', JNum (sp_dynatemp_exponent s)),
      (''top_k'', JInt (sp_top_k s)),
      (''top_p'', JNum (sp_top_p s)),
      (''min_p'', JNum (sp_min_p s)),
      (''top_n_sigma'', JNum (sp_top_n_sigma s)),
      (''xtc_probability'', JNum (sp_xtc_probability s)),
      (''xtc_threshold'', JNum (sp_xtc_threshold s)),
      (''typical_p'', JNum (sp_typ_p s)),
      (''repeat_last_n'', JInt (sp_penalty_last_n s)),
      (''repeat_penalty'', JNum (sp_penalty_repeat s)),
      (''presence_penalty'', JNum (sp_penalty_present s)),
      (''frequency_penalty'', JNum (sp_penalty_freq s)),
      (''dry_multiplier'', JNum (sp_dry_multiplier s)),
      (''dry_base'', JNum (sp_dry_base s)),
      (''dry_allowed_length'', JInt (sp_dry_allowed_length s)),
      (''dry_penalty_last_n'', JInt (sp_dry_penalty_last_n s))])"

definition params_mirostat :: "task_params \<Rightarrow> (string \<times> json) list" where
  "params_mirostat p = (let s = sampling p in
     [(''mirostat'', JInt (sp_mirostat s)),
      (''mirostat_tau'', JNum (sp_mirostat_tau s)),
      (''mirostat_eta'', JNum (sp_mirostat_eta s)),
      (''adaptive_target'', JNum (sp_adaptive_target s)),
      (''adaptive_decay'', JNum (sp_adaptive_decay s))])"

definition params_limits :: "task_params \<Rightarrow> (string \<times> json) list" where
  "params_limits p =
     [(''max_tokens'', JInt (n_predict p)),
      (''n_predict'', JInt (n_predict p)),
      (''n_keep'', JInt (n_keep p)),
      (''n_discard'', JInt (n_discard p)),
      (''ignore_eos'', JBool (sp_ignore_eos (sampling p))),
      (''stream'', JBool (stream p))]"

definition params_tail :: "task_params \<Rightarrow> (string \<times> json) list" where
  "params_tail p = (let c = chat_parser p; s = sampling p in
     [(''chat_format'', JStr (cpp_format c)),
      (''reasoning_format'', JStr (cpp_reasoning_format c)),
      (''reasoning_in_content'', JBool (cpp_reasoning_in_content c)),
      (''generation_prompt'', JStr (cpp_generation_prompt c)),
      (''samplers'', jstrs (sp_samplers s)),
      (''speculative.types'', JStr (speculative p)),
      (''timings_per_token'', JBool (timings_per_token p)),
      (''post_sampling_probs'', JBool (post_sampling_probs p)),
      (''backend_sampling'', JBool (sp_backend_sampling s)),
      (''lora'', JArr (map (\<lambda>(i, sc). JObj [(''id'', JInt i), (''scale'', JNum sc)]) (p_lora p)))])"

definition params_to_json :: "bool \<Rightarrow> task_params \<Rightarrow> json" where
  "params_to_json only_metrics p = (let s = sampling p in
     if only_metrics then
       JObj (params_head p @ params_mirostat p @ params_limits p
         @ [(''n_probs'', JInt (sp_n_probs s)), (''min_keep'', JInt (sp_min_keep s))] @ params_tail p)
     else
       JObj (params_head p @ [(''dry_sequence_breakers'', jstrs (sp_dry_sequence_breakers s))]
         @ params_mirostat p @ [(''stop'', jstrs (antiprompt p))] @ params_limits p
         @ [(''logit_bias'', format_logit_bias (sp_logit_bias s)),
            (''n_probs'', JInt (sp_n_probs s)), (''min_keep'', JInt (sp_min_keep s)),
            (''grammar'', JStr (sp_grammar s)),
            (''grammar_lazy'', JBool (sp_grammar_lazy s)),
            (''grammar_triggers'', JArr (sp_grammar_triggers s)),
            (''preserved_tokens'', jtoks (sp_preserved_tokens s))]
         @ params_tail p))"

section \<open>Probabilities\<close>

definition logarithm :: "json_env \<Rightarrow> rat \<Rightarrow> rat" where
  "logarithm E x = (if x = 0 then je_lowest E else je_log E x)"

definition str_to_bytes :: "string \<Rightarrow> json" where
  "str_to_bytes s = JArr (map (\<lambda>c. JInt (of_char c)) s)"

definition prob_member :: "json_env \<Rightarrow> bool \<Rightarrow> rat \<Rightarrow> string \<times> json" where
  "prob_member E post p = (if post then ''prob'' else ''logprob'', JNum (if post then p else logarithm E p))"

definition token_output_to_json :: "json_env \<Rightarrow> bool \<Rightarrow> token_output \<Rightarrow> json" where
  "token_output_to_json E post t =
     JArr (map (\<lambda>p. JObj
       [(''id'', JInt (sint (pi_tok p))),
        (''token'', JStr (take (validate_utf8 (pi_txt p)) (pi_txt p))),
        (''bytes'', str_to_bytes (pi_txt p)),
        prob_member E post (pi_prob p)]) (to_probs t))"

definition probs_vector_to_json :: "json_env \<Rightarrow> bool \<Rightarrow> token_output list \<Rightarrow> json" where
  "probs_vector_to_json E post ts =
     JArr (map (\<lambda>t. JObj
       [(''id'', JInt (sint (to_tok t))),
        (''token'', JStr (take (validate_utf8 (to_text t)) (to_text t))),
        (''bytes'', str_to_bytes (to_text t)),
        prob_member E post (to_prob t),
        (if post then ''top_probs'' else ''top_logprobs'', token_output_to_json E post t)]) ts)"

text \<open>Values by paths.\<close>

fun nested_value :: "string list \<Rightarrow> json \<Rightarrow> json option" where
  "nested_value [] j = Some j"
| "nested_value (k # ks) j = (case j of JObj ms \<Rightarrow> (case map_of ms k of Some v \<Rightarrow> nested_value ks v | None \<Rightarrow> None) | _ \<Rightarrow> None)"

definition json_get_nested_values :: "json_env \<Rightarrow> string list \<Rightarrow> json \<Rightarrow> json" where
  "json_get_nested_values E paths js =
     fold (\<lambda>path res. case nested_value (je_split E path) js of Some v \<Rightarrow> jset path v res | None \<Rightarrow> res) paths (JObj [])"

section \<open>Final results\<close>

definition final_non_oaicompat :: "json_env \<Rightarrow> cmpl_final \<Rightarrow> json" where
  "final_non_oaicompat E f =
     (let res = JObj
        [(''index'', jnat (f_index f)),
         (''content'', JStr (f_content f)),
         (''tokens'', jtoks (f_tokens f)),
         (''id_slot'', JInt (f_id_slot f)),
         (''stop'', JBool True),
         (''model'', JStr (f_model f)),
         (''tokens_predicted'', JInt (f_n_decoded f)),
         (''tokens_evaluated'', JInt (f_n_prompt_tokens f)),
         (''generation_settings'', params_to_json False (f_generation_params f)),
         (''prompt'', JStr (f_prompt f)),
         (''has_new_line'', JBool (f_has_new_line f)),
         (''truncated'', JBool (f_truncated f)),
         (''stop_type'', JStr (stop_type_to_str (f_stop f))),
         (''stopping_word'', JStr (f_stopping_word f)),
         (''tokens_cached'', JInt (f_n_tokens_cached f)),
         (''timings'', stats_to_json (f_stats f))];
          res = (if \<not> f_stream f \<and> f_probs_output f \<noteq> []
                 then jset ''completion_probabilities'' (probs_vector_to_json E (f_post_sampling_probs f) (f_probs_output f)) res
                 else res)
      in if f_response_fields f = [] then res else json_get_nested_values E (f_response_fields f) res)"

definition usage_oaicompat :: "cmpl_final \<Rightarrow> json" where
  "usage_oaicompat f = JObj
     [(''completion_tokens'', JInt (f_n_decoded f)),
      (''prompt_tokens'', JInt (f_n_prompt_tokens f)),
      (''total_tokens'', JInt (f_n_decoded f + f_n_prompt_tokens f)),
      (''prompt_tokens_details'', JObj [(''cached_tokens'', JInt (f_n_prompt_tokens_cache f))])]"

text \<open>The optional members for debugging and timing.\<close>

definition final_extras :: "json_env \<Rightarrow> cmpl_final \<Rightarrow> json \<Rightarrow> json" where
  "final_extras E f res =
     (let res = (if f_verbose f then jset ''__verbose'' (final_non_oaicompat E f) res else res)
      in if stats_is_set (f_stats f) then jset ''timings'' (stats_to_json (f_stats f)) res else res)"

definition final_logprobs :: "json_env \<Rightarrow> cmpl_final \<Rightarrow> json" where
  "final_logprobs E f = JObj [(''content'', probs_vector_to_json E (f_post_sampling_probs f) (f_probs_output f))]"

definition natural_stop :: "cmpl_final \<Rightarrow> bool" where
  "natural_stop f = (f_stop f = STOP_WORD \<or> f_stop f = STOP_EOS)"

definition final_oaicompat :: "json_env \<Rightarrow> cmpl_final \<Rightarrow> json" where
  "final_oaicompat E f =
     final_extras E f (JObj
       [(''choices'', JArr [JObj
           [(''text'', JStr (f_content f)),
            (''index'', jnat (f_index f)),
            (''logprobs'', if \<not> f_stream f \<and> f_probs_output f \<noteq> [] then final_logprobs E f else JNull),
            (''finish_reason'', JStr (if natural_stop f then ''stop'' else ''length''))]]),
        (''created'', JInt (je_time E)),
        (''model'', JStr (f_model f)),
        (''system_fingerprint'', JStr (je_build E)),
        (''object'', JStr ''text_completion''),
        (''usage'', usage_oaicompat f),
        (''id'', JStr (f_cmpl_id f))])"

text \<open>The message of a final result, or the plain content when nothing was parsed.\<close>

definition final_msg :: "json_env \<Rightarrow> cmpl_final \<Rightarrow> chat_msg" where
  "final_msg E f = (if \<not> je_msg_empty E (f_msg f) then f_msg f
     else empty_msg\<lparr>cm_role := ''assistant'', cm_content := f_content f\<rparr>)"

definition final_chat :: "json_env \<Rightarrow> cmpl_final \<Rightarrow> json" where
  "final_chat E f =
     (let msg = final_msg E f;
          reason = (if natural_stop f then (if cm_tool_calls msg = [] then ''stop'' else ''tool_calls'') else ''length'');
          choice = JObj [(''finish_reason'', JStr reason), (''index'', jnat (f_index f)), (''message'', je_msg E msg)];
          choice = (if \<not> f_stream f \<and> f_probs_output f \<noteq> [] then jset ''logprobs'' (final_logprobs E f) choice else choice)
      in final_extras E f (JObj
        [(''choices'', JArr [choice]),
         (''created'', JInt (je_time E)),
         (''model'', JStr (f_model f)),
         (''system_fingerprint'', JStr (je_build E)),
         (''object'', JStr ''chat.completion''),
         (''usage'', usage_oaicompat f),
         (''id'', JStr (f_cmpl_id f))]))"

definition chat_chunk :: "json_env \<Rightarrow> string \<Rightarrow> string \<Rightarrow> json list \<Rightarrow> json" where
  "chat_chunk E cmpl_id model choices = JObj
     [(''choices'', JArr choices),
      (''created'', JInt (je_time E)),
      (''id'', JStr cmpl_id),
      (''model'', JStr model),
      (''system_fingerprint'', JStr (je_build E)),
      (''object'', JStr ''chat.completion.chunk'')]"

definition chunk_choice :: "nat \<Rightarrow> json \<Rightarrow> json \<Rightarrow> json" where
  "chunk_choice index reason delta = JObj [(''finish_reason'', reason), (''index'', jnat index), (''delta'', delta)]"

definition map_last :: "('a \<Rightarrow> 'a) \<Rightarrow> 'a list \<Rightarrow> 'a list" where
  "map_last f xs = (if xs = [] then [] else butlast xs @ [f (last xs)])"

definition map_first :: "('a \<Rightarrow> 'a) \<Rightarrow> 'a list \<Rightarrow> 'a list" where
  "map_first f xs = (case xs of [] \<Rightarrow> [] | y # ys \<Rightarrow> f y # ys)"

definition final_chat_stream :: "json_env \<Rightarrow> cmpl_final \<Rightarrow> json list" where
  "final_chat_stream E f =
     (let reason = (if natural_stop f then (if cm_tool_calls (f_msg f) = [] then ''stop'' else ''tool_calls'') else ''length'');
          chunk = chat_chunk E (f_cmpl_id f) (f_model f);
          deltas = map (\<lambda>d. chunk [chunk_choice (f_index f) JNull (je_diff E d)]) (f_diffs f)
            @ [chunk [chunk_choice (f_index f) (JStr reason) (JObj [])]];
          deltas = (if f_include_usage f then deltas @ [jset ''usage'' (usage_oaicompat f) (chunk [])] else deltas);
          deltas = (if stats_is_set (f_stats f) then map_last (jset ''timings'' (stats_to_json (f_stats f))) deltas else deltas)
      in if f_verbose f then map_first (jset ''__verbose'' (final_non_oaicompat E f)) deltas else deltas)"

text \<open>An event of a stream: a name and its data.\<close>

definition event :: "string \<Rightarrow> (string \<times> json) list \<Rightarrow> json" where
  "event name ms = JObj [(''event'', JStr name), (''data'', JObj ((''type'', JStr name) # ms))]"

definition usage_resp :: "cmpl_final \<Rightarrow> json" where
  "usage_resp f = JObj
     [(''input_tokens'', JInt (f_n_prompt_tokens f)),
      (''output_tokens'', JInt (f_n_decoded f)),
      (''total_tokens'', JInt (f_n_decoded f + f_n_prompt_tokens f)),
      (''input_tokens_details'', JObj [(''cached_tokens'', JInt (f_n_prompt_tokens_cache f))])]"

definition reasoning_part :: "string \<Rightarrow> json" where
  "reasoning_part t = JArr [JObj [(''text'', JStr t), (''type'', JStr ''reasoning_text'')]]"

definition output_text_part :: "string \<Rightarrow> json" where
  "output_text_part t = JObj
     [(''type'', JStr ''output_text''), (''annotations'', JArr []), (''logprobs'', JArr []), (''text'', JStr t)]"

definition function_call_item :: "chat_tool_call \<Rightarrow> json" where
  "function_call_item tc = JObj
     [(''id'', JStr (''fc_'' @ tc_id tc)),
      (''type'', JStr ''function_call''),
      (''status'', JStr ''completed''),
      (''arguments'', JStr (tc_arguments tc)),
      (''call_id'', JStr (''call_'' @ tc_id tc)),
      (''name'', JStr (tc_name tc))]"

definition final_resp :: "json_env \<Rightarrow> cmpl_final \<Rightarrow> json" where
  "final_resp E f =
     (let msg = final_msg E f;
          reasoning = (if cm_reasoning msg \<noteq> [] then
            [JObj [(''id'', JStr (''rs_'' @ je_random E 0)),
                   (''summary'', JArr []),
                   (''type'', JStr ''reasoning''),
                   (''content'', reasoning_part (cm_reasoning msg)),
                   (''encrypted_content'', JStr []),
                   (''status'', JStr ''completed'')]] else []);
          message = (if cm_content msg \<noteq> [] then
            [JObj [(''content'', JArr [output_text_part (cm_content msg)]),
                   (''id'', JStr (''msg_'' @ je_random E (length reasoning))),
                   (''role'', JStr (cm_role msg)),
                   (''status'', JStr ''completed''),
                   (''type'', JStr ''message'')]] else [])
      in JObj
        [(''completed_at'', JInt (je_time E)),
         (''created_at'', JInt (je_time E)),
         (''id'', JStr (f_resp_id f)),
         (''model'', JStr (f_model f)),
         (''object'', JStr ''response''),
         (''output'', JArr (reasoning @ message @ map function_call_item (cm_tool_calls (f_msg f)))),
         (''status'', JStr ''completed''),
         (''usage'', usage_resp f)])"

definition output_item_done :: "json \<Rightarrow> json" where
  "output_item_done item = event ''response.output_item.done'' [(''item'', item)]"

definition resp_reasoning_item :: "cmpl_final \<Rightarrow> json" where
  "resp_reasoning_item f = JObj
     [(''id'', JStr (f_resp_reasoning_id f)),
      (''summary'', JArr []),
      (''type'', JStr ''reasoning''),
      (''content'', reasoning_part (cm_reasoning (f_msg f))),
      (''encrypted_content'', JStr [])]"

definition resp_message_item :: "cmpl_final \<Rightarrow> json" where
  "resp_message_item f = JObj
     [(''type'', JStr ''message''),
      (''status'', JStr ''completed''),
      (''id'', JStr (f_resp_message_id f)),
      (''content'', JArr [output_text_part (cm_content (f_msg f))]),
      (''role'', JStr ''assistant'')]"

text \<open>The items of the output in order, each with the events that close it.\<close>

definition resp_items :: "cmpl_final \<Rightarrow> (json list \<times> json) list" where
  "resp_items f =
     (let m = f_msg f in
      (if cm_reasoning m \<noteq> [] then [([output_item_done (resp_reasoning_item f)], resp_reasoning_item f)] else [])
      @ (if cm_content m \<noteq> [] then
           [([event ''response.output_text.done''
                [(''item_id'', JStr (f_resp_message_id f)), (''text'', JStr (cm_content m))],
              event ''response.content_part.done''
                [(''item_id'', JStr (f_resp_message_id f)), (''part'', output_text_part (cm_content m))],
              output_item_done (resp_message_item f)], resp_message_item f)] else [])
      @ map (\<lambda>tc. ([output_item_done (function_call_item tc)], function_call_item tc)) (cm_tool_calls m))"

definition resp_completed :: "json_env \<Rightarrow> cmpl_final \<Rightarrow> json list \<Rightarrow> json" where
  "resp_completed E f output =
     event ''response.completed''
       [(''response'', JObj
          [(''id'', JStr (f_resp_id f)),
           (''object'', JStr ''response''),
           (''created_at'', JInt (je_time E)),
           (''status'', JStr ''completed''),
           (''model'', JStr (f_model f)),
           (''output'', JArr output),
           (''usage'', usage_resp f)])]"

text \<open>\<open>j.at("data")[k] = v\<close>.\<close>

definition set_in_data :: "string \<Rightarrow> json \<Rightarrow> json \<Rightarrow> json" where
  "set_in_data k v j = (case jfind ''data'' j of Some d \<Rightarrow> jset ''data'' (jset k v d) j | None \<Rightarrow> j)"

definition final_resp_stream :: "json_env \<Rightarrow> cmpl_final \<Rightarrow> json list" where
  "final_resp_stream E f =
     (let items = resp_items f;
          events = concat (map fst items) @ [resp_completed E f (map snd items)]
      in if stats_is_set (f_stats f) then map_last (set_in_data ''timings'' (stats_to_json (f_stats f))) events else events)"

definition final_asr :: "cmpl_final \<Rightarrow> json" where
  "final_asr f = JObj
     [(''type'', JStr ''transcript.text.done''),
      (''text'', JStr (cm_content (f_msg f))),
      (''usage'', JObj
        [(''type'', JStr ''tokens''),
         (''input_tokens'', JInt (f_n_prompt_tokens f)),
         (''output_tokens'', JInt (f_n_decoded f)),
         (''total_tokens'', JInt (f_n_decoded f + f_n_prompt_tokens f)),
         (''input_tokens_details'', JObj [(''cached_tokens'', JInt (f_n_prompt_tokens_cache f))])])]"

section \<open>Anthropic messages\<close>

definition anthropic_stop_reason :: "cmpl_final \<Rightarrow> string" where
  "anthropic_stop_reason f =
     (if natural_stop f then (if cm_tool_calls (f_msg f) = [] then ''end_turn'' else ''tool_use'') else ''max_tokens'')"

definition stop_sequence :: "cmpl_final \<Rightarrow> json" where
  "stop_sequence f = (if f_stopping_word f = [] then JNull else JStr (f_stopping_word f))"

definition tool_use_block :: "json_env \<Rightarrow> chat_tool_call \<Rightarrow> json" where
  "tool_use_block E tc =
     jset ''input'' (case je_parse E (tc_arguments tc) of Some j \<Rightarrow> j | None \<Rightarrow> JObj [])
       (JObj [(''type'', JStr ''tool_use''), (''id'', JStr (tc_id tc)), (''name'', JStr (tc_name tc))])"

definition final_anthropic :: "json_env \<Rightarrow> cmpl_final \<Rightarrow> json" where
  "final_anthropic E f =
     (let msg = final_msg E f;
          blocks =
            (if cm_reasoning msg \<noteq> [] then
               [JObj [(''type'', JStr ''thinking''), (''thinking'', JStr (cm_reasoning msg)), (''signature'', JStr [])]] else [])
            @ (if cm_content msg \<noteq> [] then [JObj [(''type'', JStr ''text''), (''text'', JStr (cm_content msg))]] else [])
            @ map (tool_use_block E) (cm_tool_calls msg)
      in JObj
        [(''id'', JStr (f_cmpl_id f)),
         (''type'', JStr ''message''),
         (''role'', JStr ''assistant''),
         (''content'', JArr blocks),
         (''model'', JStr (f_model f)),
         (''stop_reason'', JStr (anthropic_stop_reason f)),
         (''stop_sequence'', stop_sequence f),
         (''usage'', JObj
           [(''cache_read_input_tokens'', JInt (f_n_prompt_tokens_cache f)),
            (''input_tokens'', JInt (f_n_prompt_tokens f - f_n_prompt_tokens_cache f)),
            (''output_tokens'', JInt (f_n_decoded f))])])"

definition block_start :: "nat \<Rightarrow> json \<Rightarrow> json" where
  "block_start i block = event ''content_block_start'' [(''index'', jnat i), (''content_block'', block)]"

definition block_delta :: "nat \<Rightarrow> json \<Rightarrow> json" where
  "block_delta i delta = event ''content_block_delta'' [(''index'', jnat i), (''delta'', delta)]"

definition block_stop :: "nat \<Rightarrow> json" where
  "block_stop i = event ''content_block_stop'' [(''index'', jnat i)]"

definition thinking_block :: json where
  "thinking_block = JObj [(''type'', JStr ''thinking''), (''thinking'', JStr [])]"

definition text_block :: json where
  "text_block = JObj [(''type'', JStr ''text''), (''text'', JStr [])]"

definition tool_block :: "string \<Rightarrow> string \<Rightarrow> json" where
  "tool_block i name = JObj [(''type'', JStr ''tool_use''), (''id'', JStr i), (''name'', JStr name)]"

definition thinking_delta :: "string \<Rightarrow> json" where
  "thinking_delta t = JObj [(''type'', JStr ''thinking_delta''), (''thinking'', JStr t)]"

definition text_delta :: "string \<Rightarrow> json" where
  "text_delta t = JObj [(''type'', JStr ''text_delta''), (''text'', JStr t)]"

definition input_delta :: "string \<Rightarrow> json" where
  "input_delta t = JObj [(''type'', JStr ''input_json_delta''), (''partial_json'', JStr t)]"

text \<open>Which blocks are started: thinking, text, and the indexes of the tool calls.\<close>

record block_state =
  bs_thinking :: bool
  bs_text :: bool
  bs_tools :: "nat list"

text \<open>The two parts of a diff that both streams send alike, with the index of the text block.\<close>

definition thinking_events :: "chat_diff \<Rightarrow> block_state \<Rightarrow> json list" where
  "thinking_events d b =
     (if cd_reasoning d = [] then []
      else (if bs_thinking b then [] else [block_start 0 thinking_block]) @ [block_delta 0 (thinking_delta (cd_reasoning d))])"

definition text_events :: "nat \<Rightarrow> chat_diff \<Rightarrow> block_state \<Rightarrow> json list" where
  "text_events i d b =
     (if cd_content d = [] then []
      else (if bs_text b then [] else [block_start i text_block]) @ [block_delta i (text_delta (cd_content d))])"

definition started_after :: "chat_diff \<Rightarrow> block_state \<Rightarrow> block_state" where
  "started_after d b = b\<lparr>bs_thinking := bs_thinking b \<or> cd_reasoning d \<noteq> [], bs_text := bs_text b \<or> cd_content d \<noteq> []\<rparr>"

definition final_tool_events :: "cmpl_final \<Rightarrow> chat_diff \<Rightarrow> block_state \<Rightarrow> json list \<times> block_state" where
  "final_tool_events f d b =
     (case cd_index d of
        None \<Rightarrow> ([], b)
      | Some k \<Rightarrow>
          let i = (if cm_reasoning (f_msg f) \<noteq> [] then 1 else 0) + (if cm_content (f_msg f) \<noteq> [] then 1 else 0) + k;
              tc = cm_tool_calls (f_msg f) ! k
          in ((if k \<in> set (bs_tools b) then [] else [block_start i (tool_block (tc_id tc) (tc_name tc))])
              @ (if tc_arguments (cd_call d) \<noteq> [] then [block_delta i (input_delta (tc_arguments (cd_call d)))] else []),
              b\<lparr>bs_tools := List.insert k (bs_tools b)\<rparr>))"

fun final_anthropic_diffs :: "cmpl_final \<Rightarrow> chat_diff list \<Rightarrow> block_state \<Rightarrow> json list" where
  "final_anthropic_diffs f [] b = []"
| "final_anthropic_diffs f (d # ds) b =
     (let (tools, b') = final_tool_events f d (started_after d b)
      in thinking_events d b @ text_events (if cm_reasoning (f_msg f) \<noteq> [] then 1 else 0) d b @ tools
         @ final_anthropic_diffs f ds b')"

definition final_anthropic_stream :: "cmpl_final \<Rightarrow> json list" where
  "final_anthropic_stream f =
     (let m = f_msg f;
          has_thinking = (cm_reasoning m \<noteq> []);
          has_text = (cm_content m \<noteq> []);
          text_index = (if has_thinking then 1 else 0);
          base = (if has_thinking then 1 else 0) + (if has_text then 1 else 0)
      in final_anthropic_diffs f (f_diffs f) \<lparr>bs_thinking = False, bs_text = False, bs_tools = []\<rparr>
         @ (if has_thinking then
              [block_delta 0 (JObj [(''type'', JStr ''signature_delta''), (''signature'', JStr [])]), block_stop 0] else [])
         @ (if has_text then [block_stop text_index] else [])
         @ map (\<lambda>i. block_stop (base + i)) [0..<length (cm_tool_calls m)]
         @ [event ''message_delta''
              [(''delta'', JObj [(''stop_reason'', JStr (anthropic_stop_reason f)), (''stop_sequence'', stop_sequence f)]),
               (''usage'', JObj [(''output_tokens'', JInt (f_n_decoded f))])],
            event ''message_stop'' []])"

definition final_to_json :: "json_env \<Rightarrow> cmpl_final \<Rightarrow> json result" where
  "final_to_json E f =
     (if \<not> f_is_updated f then Inl Abort
      else case f_res_type f of
        RESPONSE_NONE \<Rightarrow> Inr (final_non_oaicompat E f)
      | RESPONSE_OAI_CMPL \<Rightarrow> Inr (final_oaicompat E f)
      | RESPONSE_OAI_CHAT \<Rightarrow> Inr (if f_stream f then JArr (final_chat_stream E f) else final_chat E f)
      | RESPONSE_OAI_RESP \<Rightarrow> Inr (if f_stream f then JArr (final_resp_stream E f) else final_resp E f)
      | RESPONSE_OAI_ASR \<Rightarrow> Inr (final_asr f)
      | RESPONSE_ANTHROPIC \<Rightarrow> Inr (if f_stream f then JArr (final_anthropic_stream f) else final_anthropic E f)
      | RESPONSE_OAI_EMBD \<Rightarrow> Inl Abort)"

section \<open>Partial results\<close>

definition partial_extras :: "cmpl_partial \<Rightarrow> json \<Rightarrow> json" where
  "partial_extras p res =
     (let res = (if stats_is_set (p_stats p) then jset ''timings'' (stats_to_json (p_stats p)) res else res)
      in if p_is_progress p then jset ''prompt_progress'' (progress_to_json (p_progress p)) res else res)"

definition partial_probs :: "json_env \<Rightarrow> cmpl_partial \<Rightarrow> json" where
  "partial_probs E p = probs_vector_to_json E (p_post_sampling_probs p) [p_prob_output p]"

definition partial_non_oaicompat :: "json_env \<Rightarrow> cmpl_partial \<Rightarrow> json" where
  "partial_non_oaicompat E p =
     (let res = partial_extras p (JObj
        [(''index'', jnat (p_index p)),
         (''content'', JStr (p_content p)),
         (''tokens'', jtoks (p_tokens p)),
         (''stop'', JBool False),
         (''id_slot'', JInt (p_id_slot p)),
         (''tokens_predicted'', JInt (p_n_decoded p)),
         (''tokens_evaluated'', JInt (p_n_prompt_tokens p))])
      in if to_probs (p_prob_output p) \<noteq> [] then jset ''completion_probabilities'' (partial_probs E p) res else res)"

definition partial_oaicompat :: "json_env \<Rightarrow> cmpl_partial \<Rightarrow> json" where
  "partial_oaicompat E p =
     (let logprobs = (if to_probs (p_prob_output p) \<noteq> [] then JObj [(''content'', partial_probs E p)] else JNull);
          res = JObj
            [(''choices'', JArr [JObj
                [(''text'', JStr (p_content p)),
                 (''index'', jnat (p_index p)),
                 (''logprobs'', logprobs),
                 (''finish_reason'', JNull)]]),
             (''created'', JInt (je_time E)),
             (''model'', JStr (p_model p)),
             (''system_fingerprint'', JStr (je_build E)),
             (''object'', JStr ''text_completion''),
             (''id'', JStr (p_cmpl_id p))];
          res = (if p_verbose p then jset ''__verbose'' (partial_non_oaicompat E p) res else res)
      in partial_extras p res)"

text \<open>\<open>last_json.at("choices").at(0)["logprobs"] = v\<close>.\<close>

definition set_first_choice :: "string \<Rightarrow> json \<Rightarrow> json \<Rightarrow> json" where
  "set_first_choice k v j =
     (case jfind ''choices'' j of
        Some (JArr (c # cs)) \<Rightarrow> jset ''choices'' (JArr (jset k v c # cs)) j
      | _ \<Rightarrow> j)"

definition partial_chat :: "json_env \<Rightarrow> cmpl_partial \<Rightarrow> json list" where
  "partial_chat E p =
     (let delta = (\<lambda>d. chat_chunk E (p_cmpl_id p) (p_model p) [chunk_choice (p_index p) JNull d]);
          deltas = (if p_n_decoded p = 1 \<or> p_is_progress p
                    then [delta (JObj [(''role'', JStr ''assistant''), (''content'', JNull)])] else [])
            @ map (\<lambda>d. delta (je_diff E d)) (p_diffs p)
      in map_last (\<lambda>j.
           let j = (if to_probs (p_prob_output p) \<noteq> []
                    then set_first_choice ''logprobs'' (JObj [(''content'', partial_probs E p)]) j else j)
           in partial_extras p j) deltas)"

definition resp_status :: "string \<Rightarrow> cmpl_partial \<Rightarrow> json" where
  "resp_status name p = event name
     [(''response'', JObj [(''id'', JStr (p_resp_id p)), (''object'', JStr ''response''), (''status'', JStr ''in_progress'')])]"

text \<open>The state of the loop over the diffs: thinking started, text started, function call id.\<close>

record resp_state =
  ps_thinking :: bool
  ps_text :: bool
  ps_fc_id :: string

definition resp_diff_events :: "cmpl_partial \<Rightarrow> chat_diff \<Rightarrow> resp_state \<Rightarrow> json list \<times> resp_state" where
  "resp_diff_events p d s =
     (let reasoning = (if cd_reasoning d = [] then [] else
            (if ps_thinking s then [] else
               [event ''response.output_item.added''
                 [(''item'', JObj
                    [(''id'', JStr (p_resp_reasoning_id p)), (''summary'', JArr []), (''type'', JStr ''reasoning''),
                     (''content'', JArr []), (''encrypted_content'', JStr []), (''status'', JStr ''in_progress'')])]])
            @ [event ''response.reasoning_text.delta''
                 [(''delta'', JStr (cd_reasoning d)), (''item_id'', JStr (p_resp_reasoning_id p))]]);
          texts = (if cd_content d = [] then [] else
            (if ps_text s then [] else
               [event ''response.output_item.added''
                 [(''item'', JObj
                    [(''content'', JArr []), (''id'', JStr (p_resp_message_id p)), (''role'', JStr ''assistant''),
                     (''status'', JStr ''in_progress''), (''type'', JStr ''message'')])],
                event ''response.content_part.added''
                 [(''item_id'', JStr (p_resp_message_id p)),
                  (''part'', JObj [(''type'', JStr ''output_text''), (''text'', JStr [])])]])
            @ [event ''response.output_text.delta''
                 [(''item_id'', JStr (p_resp_message_id p)), (''delta'', JStr (cd_content d))]]);
          tc = cd_call d;
          added = (if tc_name tc = [] then [] else
            [event ''response.output_item.added''
              [(''item'', JObj
                 [(''id'', JStr (''fc_'' @ tc_id tc)), (''arguments'', JStr []),
                  (''call_id'', JStr (''call_'' @ tc_id tc)), (''name'', JStr (tc_name tc)),
                  (''type'', JStr ''function_call''), (''status'', JStr ''in_progress'')])]]);
          fc = (if tc_name tc = [] then ps_fc_id s else tc_id tc);
          args = (if tc_arguments tc = [] then [] else
            [event ''response.function_call_arguments.delta''
              [(''delta'', JStr (tc_arguments tc)), (''item_id'', JStr (''fc_'' @ fc))]])
      in (reasoning @ texts @ added @ args,
          \<lparr>ps_thinking = ps_thinking s \<or> cd_reasoning d \<noteq> [], ps_text = ps_text s \<or> cd_content d \<noteq> [], ps_fc_id = fc\<rparr>))"

fun resp_diffs_events :: "cmpl_partial \<Rightarrow> chat_diff list \<Rightarrow> resp_state \<Rightarrow> json list" where
  "resp_diffs_events p [] s = []"
| "resp_diffs_events p (d # ds) s =
     (let (es, s') = resp_diff_events p d s in es @ resp_diffs_events p ds s')"

definition partial_resp :: "cmpl_partial \<Rightarrow> json list" where
  "partial_resp p =
     (let events =
        (if \<not> p_resp_created p then [resp_status ''response.created'' p, resp_status ''response.in_progress'' p]
         else if p_is_progress p then [resp_status ''response.in_progress'' p] else [])
        @ resp_diffs_events p (p_diffs p)
            \<lparr>ps_thinking = p_thinking_started p, ps_text = p_text_started p, ps_fc_id = p_resp_fc_id p\<rparr>
      in map_last (\<lambda>j.
           let j = (if stats_is_set (p_stats p) then set_in_data ''timings'' (stats_to_json (p_stats p)) j else j)
           in if p_is_progress p then set_in_data ''prompt_progress'' (progress_to_json (p_progress p)) j else j) events)"

definition partial_asr :: "cmpl_partial \<Rightarrow> json" where
  "partial_asr p = JObj [(''type'', JStr ''transcript.text.delta''), (''delta'', JStr (p_content p))]"

definition message_start :: "cmpl_partial \<Rightarrow> json" where
  "message_start p = event ''message_start''
     [(''message'', JObj
        [(''id'', JStr (p_cmpl_id p)),
         (''type'', JStr ''message''),
         (''role'', JStr ''assistant''),
         (''content'', JArr []),
         (''model'', JStr (p_model p)),
         (''stop_reason'', JNull),
         (''stop_sequence'', JNull),
         (''usage'', JObj
           [(''cache_read_input_tokens'', JInt (p_n_prompt_tokens_cache p)),
            (''input_tokens'', JInt (p_n_prompt_tokens p - p_n_prompt_tokens_cache p)),
            (''output_tokens'', JInt 0)])])]"

definition partial_tool_events :: "cmpl_partial \<Rightarrow> chat_diff \<Rightarrow> block_state \<Rightarrow> json list" where
  "partial_tool_events p d b =
     (case cd_index d of
        None \<Rightarrow> []
      | Some k \<Rightarrow>
          let i = (if p_has_reasoning p then 1 else 0) + (if bs_text b then 1 else 0) + k
          in (if tc_name (cd_call d) \<noteq> [] then [block_start i (tool_block (tc_id (cd_call d)) (tc_name (cd_call d)))] else [])
             @ (if tc_arguments (cd_call d) \<noteq> [] then [block_delta i (input_delta (tc_arguments (cd_call d)))] else []))"

fun partial_anthropic_diffs :: "cmpl_partial \<Rightarrow> chat_diff list \<Rightarrow> block_state \<Rightarrow> json list" where
  "partial_anthropic_diffs p [] b = []"
| "partial_anthropic_diffs p (d # ds) b =
     thinking_events d b @ text_events (if p_has_reasoning p then 1 else 0) d b
     @ partial_tool_events p d (started_after d b) @ partial_anthropic_diffs p ds (started_after d b)"

definition partial_anthropic :: "cmpl_partial \<Rightarrow> json list" where
  "partial_anthropic p =
     (if p_n_decoded p = 1 then [message_start p] else [])
     @ partial_anthropic_diffs p (p_diffs p)
         \<lparr>bs_thinking = p_thinking_started p, bs_text = p_text_started p, bs_tools = []\<rparr>"

definition partial_to_json :: "json_env \<Rightarrow> cmpl_partial \<Rightarrow> json result" where
  "partial_to_json E p =
     (if \<not> p_is_updated p then Inl Abort
      else if p_is_begin p then Inr JNull
      else case p_res_type p of
        RESPONSE_NONE \<Rightarrow> Inr (partial_non_oaicompat E p)
      | RESPONSE_OAI_CMPL \<Rightarrow> Inr (partial_oaicompat E p)
      | RESPONSE_OAI_CHAT \<Rightarrow> Inr (JArr (partial_chat E p))
      | RESPONSE_OAI_RESP \<Rightarrow> Inr (JArr (partial_resp p))
      | RESPONSE_OAI_ASR \<Rightarrow> Inr (partial_asr p)
      | RESPONSE_ANTHROPIC \<Rightarrow> Inr (JArr (partial_anthropic p))
      | RESPONSE_OAI_EMBD \<Rightarrow> Inl Abort)"

section \<open>Other results\<close>

definition jvec :: "rat list \<Rightarrow> json" where
  "jvec xs = JArr (map JNum xs)"

text \<open>\<open>embedding[0]\<close> of no embedding is undefined behaviour, shown as \<open>Abort\<close>.\<close>

definition embd_to_json :: "nat \<Rightarrow> rat list list \<Rightarrow> int \<Rightarrow> task_response_type \<Rightarrow> json result" where
  "embd_to_json index embedding n ty =
     (if ty = RESPONSE_OAI_EMBD then
        (case embedding of
           [] \<Rightarrow> Inl Abort
         | e # es \<Rightarrow> Inr (JObj [(''index'', jnat index), (''embedding'', jvec e), (''tokens_evaluated'', JInt n)]))
      else Inr (JObj [(''index'', jnat index), (''embedding'', JArr (map jvec embedding))]))"

definition rerank_to_json :: "nat \<Rightarrow> rat \<Rightarrow> int \<Rightarrow> json" where
  "rerank_to_json index score n = JObj [(''index'', jnat index), (''score'', JNum score), (''tokens_evaluated'', JInt n)]"

definition error_to_json :: "error_type \<Rightarrow> string \<Rightarrow> int \<Rightarrow> int \<Rightarrow> json" where
  "error_to_json ty msg n_prompt ctx =
     (let res = format_error_response msg ty
      in if ty = ERROR_EXCEED_CONTEXT_SIZE
         then jset ''n_ctx'' (JInt ctx) (jset ''n_prompt_tokens'' (JInt n_prompt) res) else res)"

definition slot_save_load_to_json :: "int \<Rightarrow> string \<Rightarrow> bool \<Rightarrow> nat \<Rightarrow> nat \<Rightarrow> rat \<Rightarrow> json" where
  "slot_save_load_to_json slot filename is_save n_tok n_bytes t =
     (if is_save then JObj
        [(''id_slot'', JInt slot), (''filename'', JStr filename), (''n_saved'', jnat n_tok),
         (''n_written'', jnat n_bytes), (''timings'', JObj [(''save_ms'', JNum t)])]
      else JObj
        [(''id_slot'', JInt slot), (''filename'', JStr filename), (''n_restored'', jnat n_tok),
         (''n_read'', jnat n_bytes), (''timings'', JObj [(''restore_ms'', JNum t)])])"

definition slot_erase_to_json :: "int \<Rightarrow> nat \<Rightarrow> json" where
  "slot_erase_to_json slot n = JObj [(''id_slot'', JInt slot), (''n_erased'', jnat n)]"

definition control_to_json :: "bool \<Rightarrow> string \<Rightarrow> json" where
  "control_to_json ok message =
     (let out = JObj [(''success'', JBool ok)]
      in if message \<noteq> [] then jset ''message'' (JStr message) out else out)"

definition format_embeddings_response :: "(json \<Rightarrow> string) option \<Rightarrow> json \<Rightarrow> string \<Rightarrow> json list \<Rightarrow> json" where
  "format_embeddings_response base64 request model_name embeddings =
     (let obj = (\<lambda>(i, elem).
            let e = json_value Some elem ''embedding'' (JArr [])
            in case base64 of
                 Some enc \<Rightarrow> JObj [(''embedding'', JStr (enc e)), (''index'', jnat i), (''object'', JStr ''embedding''),
                                   (''encoding_format'', JStr ''base64'')]
               | None \<Rightarrow> JObj [(''embedding'', e), (''index'', jnat i), (''object'', JStr ''embedding'')]);
          n = sum_list (map (\<lambda>elem. json_value get_int elem ''tokens_evaluated'' 0) embeddings)
      in JObj
        [(''model'', JStr (json_value get_str request ''model'' model_name)),
         (''object'', JStr ''list''),
         (''usage'', JObj [(''prompt_tokens'', JInt n), (''total_tokens'', JInt n)]),
         (''data'', JArr (map obj (enumerate 0 embeddings)))])"

section \<open>Server-sent events\<close>

definition sse_single :: "(json \<Rightarrow> string) \<Rightarrow> json \<Rightarrow> string" where
  "sse_single dump j = ''data: '' @ dump j @ [CHR 0x0A, CHR 0x0A]"

definition format_oai_sse :: "(json \<Rightarrow> string) \<Rightarrow> json \<Rightarrow> string" where
  "format_oai_sse dump j = (case j of JArr js \<Rightarrow> concat (map (sse_single dump) js) | _ \<Rightarrow> sse_single dump j)"

definition sse_event :: "(json \<Rightarrow> string) \<Rightarrow> string \<Rightarrow> json \<Rightarrow> string" where
  "sse_event dump name data = ''event: '' @ name @ [CHR 0x0A] @ ''data: '' @ dump data @ [CHR 0x0A, CHR 0x0A]"

text \<open>\<open>at\<close> throws when the member is missing, \<open>get\<close> when it is no string.\<close>

definition resp_sse_single :: "(json \<Rightarrow> string) \<Rightarrow> json \<Rightarrow> string result" where
  "resp_sse_single dump j =
     (case (jfind ''event'' j, jfind ''data'' j) of
        (Some (JStr name), Some d) \<Rightarrow> Inr (sse_event dump name d)
      | _ \<Rightarrow> Inl (Throw ''json''))"

fun rconcat :: "('a \<Rightarrow> string result) \<Rightarrow> 'a list \<Rightarrow> string result" where
  "rconcat f [] = Inr []"
| "rconcat f (x # xs) = rbind (f x) (\<lambda>s. rbind (rconcat f xs) (\<lambda>t. Inr (s @ t)))"

definition format_oai_resp_sse :: "(json \<Rightarrow> string) \<Rightarrow> json \<Rightarrow> string result" where
  "format_oai_resp_sse dump j =
     (case j of JArr js \<Rightarrow> rconcat (resp_sse_single dump) js | _ \<Rightarrow> resp_sse_single dump j)"

definition anthropic_sse_single :: "(json \<Rightarrow> string) \<Rightarrow> json \<Rightarrow> string result" where
  "anthropic_sse_single dump j =
     (if jcontains ''event'' j \<and> jcontains ''data'' j then resp_sse_single dump j
      else Inr (''data: '' @ dump j @ [CHR 0x0A, CHR 0x0A]))"

definition format_anthropic_sse :: "(json \<Rightarrow> string) \<Rightarrow> json \<Rightarrow> string result" where
  "format_anthropic_sse dump j =
     (case j of JArr js \<Rightarrow> rconcat (anthropic_sse_single dump) js | _ \<Rightarrow> anthropic_sse_single dump j)"

section \<open>Reading the streams back\<close>

fun choices_of :: "json \<Rightarrow> json list" where
  "choices_of j = (case jfind ''choices'' j of Some (JArr cs) \<Rightarrow> cs | _ \<Rightarrow> [])"

text \<open>The finish reasons (other than null) that a chunk carries.\<close>

definition finish_reasons :: "json \<Rightarrow> json list" where
  "finish_reasons j = filter (\<lambda>r. r \<noteq> JNull) (concat (map (\<lambda>c. case jfind ''finish_reason'' c of Some r \<Rightarrow> [r] | None \<Rightarrow> []) (choices_of j)))"

definition is_object :: "json \<Rightarrow> bool" where
  "is_object j = (case j of JObj _ \<Rightarrow> True | _ \<Rightarrow> False)"

lemma jfind_jset: "is_object j \<Longrightarrow> jfind k' (jset k v j) = (if k' = k then Some v else jfind k' j)"
  by (cases j) (auto simp: is_object_def)

lemma is_object_jset [simp]: "is_object j \<Longrightarrow> is_object (jset k v j)"
  by (cases j) (auto simp: is_object_def)

lemma is_object_chunk [simp]: "is_object (chat_chunk E i m cs)" "is_object (event n ms)" "is_object (JObj ms)"
  by (simp_all add: is_object_def chat_chunk_def event_def)

lemma finish_reasons_jset: "is_object j \<Longrightarrow> k \<noteq> ''choices'' \<Longrightarrow> finish_reasons (jset k v j) = finish_reasons j"
  by (simp add: finish_reasons_def jfind_jset)

lemma finish_reasons_chunk:
  "finish_reasons (chat_chunk E i m [chunk_choice n r d]) = (if r = JNull then [] else [r])"
  "finish_reasons (chat_chunk E i m []) = []"
  by (simp_all add: finish_reasons_def chat_chunk_def chunk_choice_def)

lemma map_last_snoc [simp]: "map_last f (xs @ [x]) = xs @ [f x]"
  by (simp add: map_last_def)

lemma map_last_Cons: "map_last f (x # xs) = (if xs = [] then [f x] else x # map_last f xs)"
  by (simp add: map_last_def)

lemma reasons_map_last:
  assumes "\<forall>j \<in> set js. is_object j" "\<And>j. is_object j \<Longrightarrow> g (f j) = g j"
  shows "concat (map g (map_last f js)) = concat (map g js)"
  using assms by (induction js rule: rev_induct) (auto simp: map_last_def)

lemma reasons_map_first:
  assumes "\<forall>j \<in> set js. is_object j" "\<And>j. is_object j \<Longrightarrow> g (f j) = g j"
  shows "concat (map g (map_first f js)) = concat (map g js)"
  using assms by (cases js) (auto simp: map_first_def)

definition event_name :: "json \<Rightarrow> json" where
  "event_name j = (case jfind ''event'' j of Some n \<Rightarrow> n | None \<Rightarrow> JNull)"

definition data_member :: "string \<Rightarrow> json \<Rightarrow> json option" where
  "data_member k j = (case jfind ''data'' j of Some d \<Rightarrow> jfind k d | None \<Rightarrow> None)"

lemma event_name_event [simp]: "event_name (event n ms) = JStr n"
  by (simp add: event_name_def event_def)

lemma event_name_set_in_data [simp]: "event_name (set_in_data k v j) = event_name j"
proof (cases j)
  case (JObj ms)
  then show ?thesis by (auto simp: event_name_def set_in_data_def split: option.splits)
qed (simp_all add: event_name_def set_in_data_def)

lemma data_member_event: "k \<noteq> ''type'' \<Longrightarrow> data_member k (event n ms) = map_of ms k"
  by (simp add: data_member_def event_def)

lemma data_member_set: "k' \<noteq> k \<Longrightarrow> data_member k' (set_in_data k v (event n ms)) = data_member k' (event n ms)"
  by (simp add: data_member_def set_in_data_def event_def)

text \<open>The items that a stream reports as done.\<close>

definition items_done :: "json list \<Rightarrow> json list" where
  "items_done es = concat (map (\<lambda>e. if event_name e = JStr ''response.output_item.done''
     then (case data_member ''item'' e of Some i \<Rightarrow> [i] | None \<Rightarrow> []) else []) es)"

lemma items_done_append [simp]: "items_done (xs @ ys) = items_done xs @ items_done ys"
  by (simp add: items_done_def)

lemma items_done_Nil: "items_done [] = []"
  by (simp add: items_done_def)

lemma items_done_item: "items_done [output_item_done i] = [i]"
  by (simp add: items_done_def output_item_done_def data_member_event)

lemma items_done_other: "n \<noteq> ''response.output_item.done'' \<Longrightarrow> items_done (event n ms # es) = items_done es"
  by (simp add: items_done_def)

lemma items_done_resp_items: "items_done (concat (map fst (resp_items f))) = map snd (resp_items f)"
proof -
  have "items_done (concat (map (\<lambda>tc. [output_item_done (function_call_item tc)]) tcs)) = map function_call_item tcs" for tcs
  proof (induction tcs)
    case (Cons tc tcs)
    then show ?case
      using items_done_append [of "[output_item_done (function_call_item tc)]"] by (simp add: items_done_item)
  qed (simp add: items_done_def)
  then show ?thesis
    by (simp add: resp_items_def Let_def items_done_item items_done_other items_done_Nil o_def)
qed

text \<open>The stream a sequence of chunks of the responses format produces.\<close>

fun resp_run :: "chat_lib \<Rightarrow> cmpl_partial list \<Rightarrow> result_state \<Rightarrow> json list" where
  "resp_run L [] s = []"
| "resp_run L (p # ps) s =
     (let (p', s') = partial_update L p s
      in (if p_is_begin p' then [] else partial_resp p') @ resp_run L ps s')"

definition created_events :: "json list \<Rightarrow> json list" where
  "created_events es = filter (\<lambda>e. event_name e = JStr ''response.created'') es"

lemma created_append [simp]: "created_events (xs @ ys) = created_events xs @ created_events ys"
  by (simp add: created_events_def)

lemma created_resp_diffs [simp]: "created_events (resp_diffs_events p ds s) = []"
proof (induction ds arbitrary: s)
  case (Cons d ds)
  have "created_events (fst (resp_diff_events p d s)) = []"
    by (simp add: created_events_def resp_diff_events_def Let_def)
  with Cons show ?case by (simp add: case_prod_beta)
qed (simp add: created_events_def)

lemma length_created_map_last:
  "(\<And>j. event_name (f j) = event_name j) \<Longrightarrow> length (created_events (map_last f es)) = length (created_events es)"
  by (induction es rule: rev_induct) (auto simp: created_events_def map_last_def)

lemma created_status:
  "created_events (resp_status n p # es) =
     (if n = ''response.created'' then resp_status n p # created_events es else created_events es)"
  by (simp add: created_events_def resp_status_def)

lemma created_Nil [simp]: "created_events [] = []"
  by (simp add: created_events_def)

lemma created_partial_resp: "length (created_events (partial_resp p)) = (if p_resp_created p then 0 else 1)"
  unfolding partial_resp_def Let_def
  by (subst length_created_map_last) (simp_all add: created_status)

lemma update_chat_msg_created:
  "rs_resp_created (snd (snd (update_chat_msg L t b ds flt s))) = rs_resp_created s"
  by (auto simp: update_chat_msg_def Let_def split: prod.splits)

lemma fold_after_created: "rs_resp_created (fold state_after_diff ds s) = rs_resp_created s"
  by (induction ds arbitrary: s) (auto simp: state_after_diff_def Let_def)

lemma partial_update_created:
  "\<not> p_is_begin p \<Longrightarrow> p_res_type p = RESPONSE_OAI_RESP \<Longrightarrow>
     p_resp_created (fst (partial_update L p s)) = rs_resp_created s
     \<and> rs_resp_created (snd (partial_update L p s)) = (rs_resp_created s \<or> p_is_progress p \<or> p_n_decoded p = 1)
     \<and> \<not> p_is_begin (fst (partial_update L p s))"
  using update_chat_msg_created [of L "p_content p" True "p_diffs p" False s]
  by (auto simp: partial_update_def Let_def fold_after_created split: prod.splits)

section \<open>Properties\<close>

text \<open>The chunks of a chat stream that report the usage.\<close>

definition usage_chunks :: "json list \<Rightarrow> json list" where
  "usage_chunks js = filter (\<lambda>j. jfind ''usage'' j \<noteq> None) js"

lemma usage_chunks_simps [simp]:
  "usage_chunks [] = []"
  "usage_chunks (chat_chunk E i m cs # js) = usage_chunks js"
  "is_object j \<Longrightarrow> usage_chunks [jset ''usage'' u j] = [jset ''usage'' u j]"
  "usage_chunks (xs @ ys) = usage_chunks xs @ usage_chunks ys"
  by (simp_all add: usage_chunks_def chat_chunk_def jfind_jset)

lemma usage_chunks_map [simp]: "usage_chunks (map (\<lambda>d. chat_chunk E i m (cs d)) ds) = []"
  by (induction ds) simp_all

lemma choices_jset [simp]: "is_object j \<Longrightarrow> k \<noteq> ''choices'' \<Longrightarrow> choices_of (jset k v j) = choices_of j"
  by (simp add: jfind_jset)

lemma choices_usage_map_last:
  assumes "\<forall>j \<in> set js. is_object j" "k \<noteq> ''usage''" "k \<noteq> ''choices''"
  shows "map choices_of (usage_chunks (map_last (jset k v) js)) = map choices_of (usage_chunks js)"
  using assms by (induction js rule: rev_induct) (auto simp: map_last_def usage_chunks_def jfind_jset)

lemma choices_usage_map_first:
  assumes "\<forall>j \<in> set js. is_object j" "k \<noteq> ''usage''" "k \<noteq> ''choices''"
  shows "map choices_of (usage_chunks (map_first (jset k v) js)) = map choices_of (usage_chunks js)"
  using assms by (cases js) (auto simp: map_first_def usage_chunks_def jfind_jset)

lemma objects_map_last: "\<forall>j \<in> set js. is_object j \<Longrightarrow> \<forall>j \<in> set (map_last (jset k v) js). is_object j"
  by (induction js rule: rev_induct) (auto simp: map_last_def)

lemma objects_map_first: "\<forall>j \<in> set js. is_object j \<Longrightarrow> \<forall>j \<in> set (map_first (jset k v) js). is_object j"
  by (cases js) (auto simp: map_first_def)

definition chat_deltas :: "json_env \<Rightarrow> cmpl_final \<Rightarrow> string \<Rightarrow> json list" where
  "chat_deltas E f reason =
     map (\<lambda>d. chat_chunk E (f_cmpl_id f) (f_model f) [chunk_choice (f_index f) JNull (je_diff E d)]) (f_diffs f)
     @ [chat_chunk E (f_cmpl_id f) (f_model f) [chunk_choice (f_index f) (JStr reason) (JObj [])]]
     @ (if f_include_usage f
        then [jset ''usage'' (usage_oaicompat f) (chat_chunk E (f_cmpl_id f) (f_model f) [])] else [])"

lemma chat_deltas_objects: "\<forall>j \<in> set (chat_deltas E f r). is_object j"
  by (auto simp: chat_deltas_def)

lemma chat_deltas_reasons: "concat (map finish_reasons (chat_deltas E f r)) = [JStr r]"
  by (auto simp: chat_deltas_def finish_reasons_chunk finish_reasons_jset o_def)

lemma chat_deltas_usage:
  "map choices_of (usage_chunks (chat_deltas E f r)) = (if f_include_usage f then [[]] else [])"
  by (simp add: chat_deltas_def) (simp add: chat_chunk_def)

lemma final_chat_stream_deltas:
  "final_chat_stream E f =
     (let deltas = chat_deltas E f (if natural_stop f then (if cm_tool_calls (f_msg f) = [] then ''stop'' else ''tool_calls'') else ''length'');
          deltas = (if stats_is_set (f_stats f) then map_last (jset ''timings'' (stats_to_json (f_stats f))) deltas else deltas)
      in if f_verbose f then map_first (jset ''__verbose'' (final_non_oaicompat E f)) deltas else deltas)"
  by (simp add: final_chat_stream_def chat_deltas_def Let_def)

definition same_answers :: "json list \<Rightarrow> json list \<Rightarrow> bool" where
  "same_answers js js' \<longleftrightarrow>
     (\<forall>j \<in> set js'. is_object j)
     \<and> concat (map finish_reasons js') = concat (map finish_reasons js)
     \<and> map choices_of (usage_chunks js') = map choices_of (usage_chunks js)"

lemma same_answers_last:
  "\<forall>j \<in> set js. is_object j \<Longrightarrow> k \<noteq> ''usage'' \<Longrightarrow> k \<noteq> ''choices'' \<Longrightarrow> same_answers js (map_last (jset k v) js)"
  unfolding same_answers_def
  by (simp add: objects_map_last choices_usage_map_last reasons_map_last finish_reasons_jset)

lemma same_answers_first:
  "\<forall>j \<in> set js. is_object j \<Longrightarrow> k \<noteq> ''usage'' \<Longrightarrow> k \<noteq> ''choices'' \<Longrightarrow> same_answers js (map_first (jset k v) js)"
  unfolding same_answers_def
  by (simp add: objects_map_first choices_usage_map_first reasons_map_first finish_reasons_jset)

lemma decorated_deltas:
  "concat (map finish_reasons
     (if v then map_first (jset ''__verbose'' w) (if t then map_last (jset ''timings'' u) (chat_deltas E f r) else chat_deltas E f r)
      else (if t then map_last (jset ''timings'' u) (chat_deltas E f r) else chat_deltas E f r))) = [JStr r]
   \<and> map choices_of (usage_chunks
     (if v then map_first (jset ''__verbose'' w) (if t then map_last (jset ''timings'' u) (chat_deltas E f r) else chat_deltas E f r)
      else (if t then map_last (jset ''timings'' u) (chat_deltas E f r) else chat_deltas E f r)))
     = (if f_include_usage f then [[]] else [])"
proof -
  let ?ds = "chat_deltas E f r"
  let ?ts = "if t then map_last (jset ''timings'' u) ?ds else ?ds"
  have t: "same_answers ?ds ?ts"
    using same_answers_last [OF chat_deltas_objects, of "''timings''"] by (simp add: same_answers_def chat_deltas_objects)
  have "same_answers ?ts (map_first (jset ''__verbose'' w) ?ts)"
    by (rule same_answers_first) (use t in \<open>auto simp: same_answers_def\<close>)
  with t have "same_answers ?ds (if v then map_first (jset ''__verbose'' w) ?ts else ?ts)"
    unfolding same_answers_def by presburger
  then show ?thesis unfolding same_answers_def chat_deltas_reasons chat_deltas_usage by blast
qed

text \<open>
  The chunks a streamed chat completion ends with carry exactly one finish reason:
  \<open>length\<close> unless the generation stopped naturally, then \<open>tool_calls\<close> if the message calls a tool and
  \<open>stop\<close> otherwise. The usage is reported if and only if it was requested, on exactly one chunk, whose
  list of choices is empty as the protocol asks.
\<close>

theorem chat_stream_finishes_once:
  "concat (map finish_reasons (final_chat_stream E f)) =
     [JStr (if natural_stop f then (if cm_tool_calls (f_msg f) = [] then ''stop'' else ''tool_calls'') else ''length'')]
   \<and> map choices_of (usage_chunks (final_chat_stream E f)) = (if f_include_usage f then [[]] else [])"
  unfolding final_chat_stream_deltas Let_def by (rule decorated_deltas)

lemma items_done_completed:
  "items_done [resp_completed E f out] = []" "items_done [set_in_data k v (resp_completed E f out)] = []"
  by (simp_all add: items_done_def resp_completed_def)

lemma last_map_last: "xs \<noteq> [] \<Longrightarrow> last (map_last f xs) = f (last xs)"
  by (simp add: map_last_def)

lemma completed_response: "data_member ''response'' (resp_completed E f out) =
    Some (JObj [(''id'', JStr (f_resp_id f)), (''object'', JStr ''response''), (''created_at'', JInt (je_time E)),
      (''status'', JStr ''completed''), (''model'', JStr (f_model f)), (''output'', JArr out), (''usage'', usage_resp f)])"
  by (simp add: resp_completed_def data_member_event)

lemma completed_set_timings:
  "data_member ''response'' (set_in_data ''timings'' v (resp_completed E f out)) = data_member ''response'' (resp_completed E f out)"
  by (simp add: resp_completed_def data_member_set)

lemmas completed_timed = completed_set_timings [unfolded completed_response]

text \<open>
  A streamed response of the responses API ends with \<open>response.completed\<close>, and the output that
  event lists is exactly the sequence of items the stream announced as done (reasoning, message, then each
  tool call), in the same order.
\<close>

theorem response_stream_completes:
  "event_name (last (final_resp_stream E f)) = JStr ''response.completed''
   \<and> (\<exists>r. data_member ''response'' (last (final_resp_stream E f)) = Some r
         \<and> jfind ''output'' r = Some (JArr (items_done (final_resp_stream E f))))"
proof (cases "stats_is_set (f_stats f)")
  case True
  then show ?thesis
    by (simp add: final_resp_stream_def Let_def items_done_completed items_done_resp_items completed_timed)
      (simp add: resp_completed_def)
next
  case False
  then show ?thesis
    by (simp add: final_resp_stream_def Let_def items_done_completed items_done_resp_items completed_response)
      (simp add: resp_completed_def)
qed

lemma resp_run_created:
  "\<forall>q \<in> set ps. \<not> p_is_begin q \<and> p_res_type q = RESPONSE_OAI_RESP \<Longrightarrow> rs_resp_created s \<Longrightarrow>
     created_events (resp_run L ps s) = []"
proof (induction ps arbitrary: s)
  case (Cons p ps)
  obtain p' s' where u: "partial_update L p s = (p', s')" by (cases "partial_update L p s")
  have "p_resp_created p'" "rs_resp_created s'" "\<not> p_is_begin p'"
    using partial_update_created [of p L s] Cons.prems u by auto
  moreover have "created_events (partial_resp p') = []"
    using created_partial_resp [of p'] \<open>p_resp_created p'\<close> by simp
  ultimately show ?case using Cons u by simp
qed simp

text \<open>
  A client of the responses API that streams sees \<open>response.created\<close> exactly once, on the
  first chunk, however many chunks follow, provided the first chunk the slot sends is a progress report or the
  chunk of the first token.
\<close>

theorem response_created_once:
  assumes "\<not> rs_resp_created s"
    and "\<forall>q \<in> set (p # ps). \<not> p_is_begin q \<and> p_res_type q = RESPONSE_OAI_RESP"
    and "p_is_progress p \<or> p_n_decoded p = 1"
  shows "length (created_events (resp_run L (p # ps) s)) = 1"
proof -
  obtain p' s' where u: "partial_update L p s = (p', s')" by (cases "partial_update L p s")
  have "\<not> p_resp_created p'" "rs_resp_created s'" "\<not> p_is_begin p'"
    using partial_update_created [of p L s] assms u by auto
  with u assms show ?thesis
    using created_partial_resp [of p'] resp_run_created [of ps s' L] by simp
qed

definition sample_lib :: chat_lib where
  "sample_lib = \<lparr>cl_parse = (\<lambda>t _ _. \<lparr>cm_role = ''assistant'', cm_content = t, cm_reasoning = [], cm_tool_calls = []\<rparr>),
     cl_empty = (\<lambda>m. cm_content m = []),
     cl_diffs = (\<lambda>m m'. [\<lparr>cd_reasoning = [], cd_content = drop (length (cm_content m)) (cm_content m'), cd_index = None,
        cd_call = \<lparr>tc_name = [], tc_arguments = [], tc_id = []\<rparr>\<rparr>]),
     cl_set_ids = (\<lambda>ids m. (ids, m))\<rparr>"

definition sample_parser :: chat_parser_params where
  "sample_parser = \<lparr>cpp_format = [], cpp_reasoning_format = [], cpp_reasoning_in_content = False,
     cpp_generation_prompt = [], cpp_is_continuation = False, cpp_echo = False\<rparr>"

definition sample_partial :: "string \<Rightarrow> int \<Rightarrow> cmpl_partial" where
  "sample_partial text n =
     \<lparr>p_id_slot = 0, p_index = 0, p_content = text, p_tokens = [7], p_n_decoded = n, p_n_prompt_tokens = 3,
      p_n_prompt_tokens_cache = 0, p_post_sampling_probs = False, p_is_progress = False, p_is_begin = False,
      p_prob_output = \<lparr>to_tok = 7, to_prob = 1, to_text = text, to_probs = []\<rparr>, p_stats = stats_zero,
      p_progress = \<lparr>pp_total = 0, pp_cache = 0, pp_processed = 0, pp_time_ms = 0\<rparr>, p_verbose = False,
      p_res_type = RESPONSE_OAI_RESP, p_model = ''m'', p_cmpl_id = ''c'', p_diffs = [], p_is_updated = False,
      p_thinking_started = False, p_text_started = False, p_resp_created = False, p_resp_id = [],
      p_resp_reasoning_id = [], p_resp_message_id = [], p_resp_fc_id = [], p_has_reasoning = False\<rparr>"

theorem response_created_once_witness:
  "length (created_events (resp_run sample_lib [sample_partial ''a'' 1, sample_partial ''b'' 2]
     (result_state_init sample_lib ''x'' ''y'' ''z'' sample_parser))) = 1"
  by (rule response_created_once) (simp_all add: sample_partial_def result_state_init_def)

text \<open>
  When the first chunk carries the second token or a later one (the first token ended inside a UTF-8 sequence,
  so no chunk was sent for it), the flag is never set and the announcement is repeated on every chunk.
\<close>

theorem response_created_repeated:
  assumes "\<not> rs_resp_created s"
    and "\<forall>q \<in> set ps. \<not> p_is_begin q \<and> p_res_type q = RESPONSE_OAI_RESP \<and> \<not> p_is_progress q \<and> p_n_decoded q \<noteq> 1"
  shows "length (created_events (resp_run L ps s)) = length ps"
  using assms
proof (induction ps arbitrary: s)
  case (Cons p ps)
  obtain p' s' where u: "partial_update L p s = (p', s')" by (cases "partial_update L p s")
  have "\<not> p_resp_created p'" "\<not> rs_resp_created s'" "\<not> p_is_begin p'"
    using partial_update_created [of p L s] Cons.prems u by auto
  with u Cons show ?case using created_partial_resp [of p'] by simp
qed simp

end
