(* ===== verification/Lora.thy ===== *)
theory Lora
  imports Task
begin

text \<open>
  The LoRA utilities of \<open>server-common.cpp\<close> and the search for the invocation sequence of an
  activated LoRA in \<open>launch_slot_with_task\<close> (\<open>server-context.cpp\<close>).  An adapter is a pointer of the
  library, here a number; the invocation tokens the library holds for it are a parameter \<open>A\<close>.
\<close>

record adapter =
  lo_ptr :: nat
  lo_scale :: rat

section \<open>Comparing lists of adapters\<close>

fun lora_all_alora_loop :: "(nat \<Rightarrow> llama_token list) \<Rightarrow> adapter list \<Rightarrow> bool \<Rightarrow> bool" where
  "lora_all_alora_loop A [] found_alora = found_alora"
| "lora_all_alora_loop A (l # ls) found_alora =
     (if lo_scale l \<noteq> 0 then
        (if A (lo_ptr l) = [] then False else lora_all_alora_loop A ls True)
      else lora_all_alora_loop A ls found_alora)"

definition lora_all_alora :: "(nat \<Rightarrow> llama_token list) \<Rightarrow> adapter list \<Rightarrow> bool" where
  "lora_all_alora A ls = lora_all_alora_loop A ls False"

definition are_lora_equal :: "adapter list \<Rightarrow> adapter list \<Rightarrow> bool" where
  "are_lora_equal l1 l2 =
     (length l1 = length l2 \<and> list_all2 (\<lambda>a b. lo_scale a = lo_scale b \<and> lo_ptr a = lo_ptr b) l1 l2)"

definition lora_get_enabled_ids :: "adapter list \<Rightarrow> nat list" where
  "lora_get_enabled_ids ls = filter (\<lambda>i. lo_scale (ls ! i) > 0) [0..<length ls]"

definition lora_should_clear_cache :: "(nat \<Rightarrow> llama_token list) \<Rightarrow> adapter list \<Rightarrow> adapter list \<Rightarrow> bool result" where
  "lora_should_clear_cache A current new =
     (if are_lora_equal current new then Inl Abort
      else Inr (\<not> (lora_get_enabled_ids current = [] \<or> lora_all_alora A current) \<or> \<not> lora_all_alora A new))"

text \<open>\<open>construct_lora_list\<close>: the adapters of the server with the scales of a request, 0 where it names none.\<close>

definition construct_lora_list :: "adapter list \<Rightarrow> (int \<times> rat) list \<Rightarrow> adapter list" where
  "construct_lora_list adapters config =
     map (\<lambda>i. (adapters ! i)\<lparr>lo_scale := (case map_of config (int i) of Some s \<Rightarrow> s | None \<Rightarrow> 0)\<rparr>) [0..<length adapters]"

text \<open>\<open>parse_lora_request\<close>: numbers are read with \<open>json_value\<close>; a later entry overwrites an earlier one.\<close>

definition get_rat :: "json \<Rightarrow> rat option" where
  "get_rat j = (case j of JInt i \<Rightarrow> Some (of_int i) | JNum x \<Rightarrow> Some x | _ \<Rightarrow> None)"

definition parse_lora_request :: "(rat \<Rightarrow> rat) \<Rightarrow> json list \<Rightarrow> (int \<times> rat) list" where
  "parse_lora_request round32 entries =
     fold (\<lambda>e lora. omap_set (json_value get_int e ''id'' (-1)) (round32 (json_value get_rat e ''scale'' 0)) lora) entries []"

section \<open>Finding the invocation sequence\<close>

text \<open>
  The backward scan over the prompt, from position \<open>i - 1\<close> down to 0; \<open>k\<close> is \<open>match_idx\<close>.
\<close>

fun alora_scan :: "llama_token list \<Rightarrow> llama_token list \<Rightarrow> nat \<Rightarrow> nat \<Rightarrow> nat option" where
  "alora_scan ts seq 0 k = None"
| "alora_scan ts seq (Suc i) k =
     (if ts ! i = seq ! k then (if k = 0 then Some i else alora_scan ts seq i (k - 1))
      else alora_scan ts seq i (length seq - 1))"

definition alora_invocation :: "llama_token list \<Rightarrow> llama_token list \<Rightarrow> nat option" where
  "alora_invocation ts seq = alora_scan ts seq (length ts) (length seq - 1)"

section \<open>Lemmas\<close>

lemma are_lora_equal_iff: "are_lora_equal l1 l2 \<longleftrightarrow> map lo_scale l1 = map lo_scale l2 \<and> map lo_ptr l1 = map lo_ptr l2"
  unfolding are_lora_equal_def by (auto simp: list_all2_conv_all_nth list_eq_iff_nth_eq)

lemma lora_all_alora_iff:
  "lora_all_alora A ls \<longleftrightarrow> (\<exists>l \<in> set ls. lo_scale l \<noteq> 0) \<and> (\<forall>l \<in> set ls. lo_scale l \<noteq> 0 \<longrightarrow> A (lo_ptr l) \<noteq> [])"
proof -
  have "lora_all_alora_loop A ls f \<longleftrightarrow>
      (f \<or> (\<exists>l \<in> set ls. lo_scale l \<noteq> 0)) \<and> (\<forall>l \<in> set ls. lo_scale l \<noteq> 0 \<longrightarrow> A (lo_ptr l) \<noteq> [])" for f
    by (induction ls arbitrary: f) auto
  then show ?thesis by (simp add: lora_all_alora_def)
qed

text \<open>While the scan is inside a match, the tokens behind it are the end of the sequence.\<close>

lemma alora_scan_sound:
  assumes "alora_scan ts seq i k = Some j" "i \<le> length ts" "k < length seq"
    "take (length seq - Suc k) (drop i ts) = drop (Suc k) seq"
  shows "take (length seq) (drop j ts) = seq"
  using assms
proof (induction i arbitrary: k)
  case (Suc i)
  have step: "take (length seq - k) (drop i ts) = drop k seq" if "ts ! i = seq ! k"
  proof -
    have "drop i ts = ts ! i # drop (Suc i) ts" "drop k seq = seq ! k # drop (Suc k) seq"
      using Suc.prems by (simp_all add: Cons_nth_drop_Suc)
    moreover have "length seq - k = Suc (length seq - Suc k)" using Suc.prems by simp
    ultimately show ?thesis using that Suc.prems by simp
  qed
  show ?case
  proof (cases "ts ! i = seq ! k")
    case True
    show ?thesis
    proof (cases "k = 0")
      case True
      then show ?thesis using step \<open>ts ! i = seq ! k\<close> Suc.prems by simp
    next
      case False
      then have "alora_scan ts seq i (k - 1) = Some j" "Suc (k - 1) = k"
        using \<open>ts ! i = seq ! k\<close> Suc.prems by simp_all
      then show ?thesis
        using Suc.IH [of "k - 1"] step \<open>ts ! i = seq ! k\<close> Suc.prems by simp
    qed
  next
    case False
    then show ?thesis
      using Suc.IH [of "length seq - 1"] Suc.prems by simp
  qed
qed simp

text \<open>
  What the scan takes for the start of the invocation sequence is one: the whole sequence
  stands in the prompt from that position on.
\<close>

theorem alora_invocation_occurs:
  "seq \<noteq> [] \<Longrightarrow> alora_invocation ts seq = Some i \<Longrightarrow> take (length seq) (drop i ts) = seq"
  unfolding alora_invocation_def by (rule alora_scan_sound) auto

theorem alora_invocation_occurs_witness: "take 2 (drop 1 [5, 1, 2, 7]) = [1, 2 :: llama_token]"
proof -
  have "alora_invocation [5, 1, 2, 7] [1, 2] = Some 1"
    by code_simp
  then show ?thesis using alora_invocation_occurs [of "[1, 2]" "[5, 1, 2, 7]" 1] by simp
qed

text \<open>
  The converse fails: after a mismatch the token at hand is not compared with the end of the
  sequence again, so that an occurrence followed by its own last token is not seen.
\<close>

theorem alora_invocation_missed:
  "take 2 (drop 0 [1, 2, 2]) = [1, 2 :: llama_token] \<and> alora_invocation [1, 2, 2] [1, 2 :: llama_token] = None"
  by code_simp

end
