(* ===== verification/Batch.thy ===== *)
theory Batch
  imports Lora Cache
begin

text \<open>
  \<open>server_batch\<close> (\<open>server-context.cpp\<close>): the tokens the slots hand in for the next decode, rendered
  into the arrays of a \<open>llama_batch\<close> just before it.  The arrays of the library are the list
  \<open>rendered\<close> (one entry for each token) and the flag \<open>token_null\<close>, which says that \<open>batch.token\<close> was
  swapped out for embeddings; \<open>batch_alive\<close> is \<open>batch.pos != nullptr\<close>.
\<close>

record batch_token =
  bt_slot :: int
  bt_token :: llama_token
  bt_pos :: int
  bt_output :: bool
  bt_is_prompt :: bool

record server_batch =
  batch_alive :: bool
  batch_rendered :: bool
  rendered :: "(llama_token \<times> int \<times> int list \<times> bool) list"
  token_null :: bool
  bt_tokens :: "batch_token list"
  n_tokens_alloc :: int
  n_embd :: int
  slot_batched :: "int option"
  has_embd :: bool
  embd :: "rat list"
  alora_scale :: rat
  alora_disabled_id :: nat

definition batch_new :: server_batch where
  "batch_new = \<lparr>batch_alive = False, batch_rendered = False, rendered = [], token_null = False, bt_tokens = [],
     n_tokens_alloc = 0, n_embd = 0, slot_batched = None, has_embd = False, embd = [], alora_scale = -1,
     alora_disabled_id = 0\<rparr>"

definition batch_init :: "int \<Rightarrow> int \<Rightarrow> server_batch \<Rightarrow> server_batch" where
  "batch_init n_alloc n_emb b =
     b\<lparr>n_tokens_alloc := n_alloc, n_embd := n_emb, batch_alive := True, rendered := [], token_null := False\<rparr>"

definition batch_size :: "server_batch \<Rightarrow> int" where
  "batch_size b = int (length (bt_tokens b))"

definition batch_add :: "int \<Rightarrow> llama_token \<Rightarrow> int \<Rightarrow> bool \<Rightarrow> bool \<Rightarrow> server_batch \<Rightarrow> (bool \<times> server_batch) result" where
  "batch_add slot tok pos out pr b =
     (if has_embd b \<or> \<not> batch_alive b then Inl Abort
      else if batch_size b \<ge> n_tokens_alloc b then Inr (False, b)
      else Inr (True, b\<lparr>bt_tokens := bt_tokens b @
             [\<lparr>bt_slot = slot, bt_token = tok, bt_pos = pos, bt_output = out, bt_is_prompt = pr\<rparr>]\<rparr>))"

definition batch_add_embd :: "int \<Rightarrow> rat list \<Rightarrow> int \<Rightarrow> bool \<Rightarrow> bool \<Rightarrow> server_batch \<Rightarrow> (bool \<times> server_batch) result" where
  "batch_add_embd slot embd_in pos out pr b =
     (if \<not> batch_alive b then Inl Abort
      else if batch_size b \<ge> n_tokens_alloc b then Inr (False, b)
      else Inr (True, b\<lparr>bt_tokens := bt_tokens b @
             [\<lparr>bt_slot = slot, bt_token = LLAMA_TOKEN_NULL, bt_pos = pos, bt_output = out, bt_is_prompt = pr\<rparr>],
             has_embd := True, embd := embd b @ embd_in\<rparr>))"

definition batch_clear :: "server_batch \<Rightarrow> server_batch" where
  "batch_clear b =
     b\<lparr>bt_tokens := [], embd := [], rendered := [], slot_batched := None, alora_scale := -1,
       alora_disabled_id := 0, batch_rendered := False, has_embd := False, token_null := False\<rparr>"

definition set_output :: "int \<Rightarrow> bool \<Rightarrow> server_batch \<Rightarrow> server_batch result" where
  "set_output idx out b =
     (if idx \<ge> 0 \<and> idx < batch_size b
      then Inr (b\<lparr>bt_tokens := (bt_tokens b)[nat idx := (bt_tokens b ! nat idx)\<lparr>bt_output := out\<rparr>]\<rparr>)
      else Inl Abort)"

definition batch_render :: "server_batch \<Rightarrow> server_batch result" where
  "batch_render b =
     (if batch_rendered b \<or> \<not> batch_alive b then Inl Abort
      else Inr (b\<lparr>rendered := map (\<lambda>t. (bt_token t, bt_pos t, [bt_slot t], bt_output t)) (bt_tokens b),
                  token_null := (token_null b \<or> has_embd b), batch_rendered := True\<rparr>))"

text \<open>A view: the entries, and the embeddings instead of the tokens when they were swapped in.\<close>

definition get_view ::
  "int \<Rightarrow> int \<Rightarrow> server_batch \<Rightarrow> ((llama_token \<times> int \<times> int list \<times> bool) list \<times> rat list option) result" where
  "get_view off n b =
     (if batch_alive b \<and> batch_rendered b \<and> off \<ge> 0 \<and> off < batch_size b \<and> n > 0 \<and> off + n \<le> batch_size b
      then Inr (take (nat n) (drop (nat off) (rendered b)),
                if has_embd b then Some (drop (nat (off * n_embd b)) (embd b)) else None)
      else Inl Abort)"

section \<open>Lemmas\<close>

definition batch_ok :: "server_batch \<Rightarrow> bool" where
  "batch_ok b \<longleftrightarrow> batch_size b \<le> max 0 (n_tokens_alloc b)
     \<and> (batch_rendered b \<longrightarrow> rendered b = map (\<lambda>t. (bt_token t, bt_pos t, [bt_slot t], bt_output t)) (bt_tokens b))"

lemma batch_ok_init: "batch_ok (batch_init n e batch_new)"
  by (simp add: batch_ok_def batch_init_def batch_new_def batch_size_def)

lemma batch_ok_add: "batch_ok b \<Longrightarrow> \<not> batch_rendered b \<Longrightarrow> batch_add s t p out pr b = Inr (r, b') \<Longrightarrow> batch_ok b'"
  by (auto simp: batch_ok_def batch_add_def batch_size_def split: if_splits)

lemma batch_ok_add_embd: "batch_ok b \<Longrightarrow> \<not> batch_rendered b \<Longrightarrow> batch_add_embd s e p out pr b = Inr (r, b') \<Longrightarrow> batch_ok b'"
  by (auto simp: batch_ok_def batch_add_embd_def batch_size_def split: if_splits)

lemma batch_ok_clear: "batch_ok (batch_clear b)"
  by (simp add: batch_ok_def batch_clear_def batch_size_def)

lemma batch_ok_render: "batch_ok b \<Longrightarrow> batch_render b = Inr b' \<Longrightarrow> batch_ok b'"
  by (auto simp: batch_ok_def batch_render_def batch_size_def split: if_splits)

lemma batch_add_simps:
  assumes "batch_add s t p out pr b = Inr (True, b')"
  shows "bt_tokens b' = bt_tokens b @ [\<lparr>bt_slot = s, bt_token = t, bt_pos = p, bt_output = out, bt_is_prompt = pr\<rparr>]"
    "batch_size b' = batch_size b + 1" "n_tokens_alloc b' = n_tokens_alloc b" "has_embd b' = has_embd b"
    "batch_alive b' = batch_alive b" "batch_rendered b' = batch_rendered b"
  using assms by (auto simp: batch_add_def batch_size_def split: if_splits)

text \<open>What a view of a rendered batch shows at \<open>i\<close> is the token the slots put at \<open>off + i\<close>.\<close>

lemma get_view_tokens:
  assumes "batch_ok b" "get_view off n b = Inr (v, e)"
  shows "length v = nat n \<and> (\<forall>i < nat n. v ! i =
     (let t = bt_tokens b ! (nat off + i) in (bt_token t, bt_pos t, [bt_slot t], bt_output t)))"
  using assms by (auto simp: get_view_def batch_ok_def batch_size_def Let_def nat_add_distrib split: if_splits)

end
