(* ===== verification/Slots.thy ===== *)
theory Slots
  imports Batch Format Response "HOL-Library.Signed_Division" Strings
begin

text \<open>
  \<open>server_slot\<close> and the text side of a generation (\<open>server-context.cpp\<close>): the state of a slot, its
  operations, the search for stop words, \<open>process_token\<close> and the results a slot sends.

  The memory of the model, the samplers and the draft model belong to the library: a call that
  changes them is an entry of a log (\<open>device_op\<close>, or the log of the slot's sampler).  What the code
  reads from the library is the record \<open>gen_env\<close>.  A result is a message for the result queue.
\<close>

section \<open>Data\<close>

datatype slot_state =
    SLOT_IDLE | SLOT_WAIT_OTHER | SLOT_STARTED | SLOT_PROCESSING_PROMPT | SLOT_DONE_PROMPT | SLOT_GENERATING

datatype device_op =
    Seq_rm int int int
  | Seq_add int int int int
  | Seq_cp int int int int
  | Seq_rm_dft int int int
  | Set_sampler int bool
  | State_restore int
  | Checkpoint_load int checkpoint
  | Checkpoint_load_dft int checkpoint
  | Decode_view "(llama_token \<times> int \<times> int list \<times> bool) list" "rat list option"
  | Decode_chunk int nat
  | Set_adapters "adapter list"
  | Set_embeddings bool
  | Spec_begin int "llama_token list"
  | Spec_accept int nat
  | Spec_process

datatype sampler_op =
    Sampler_reset
  | Sampler_sample int
  | Sampler_accept llama_token bool
  | Reasoning_budget_force

record sampler =
  sm_params :: sampling_params
  sm_log :: "sampler_op list"

record 'c slot =
  sl_id :: int
  has_dft :: bool
  has_spec :: bool
  spec_draft :: "llama_token list"
  spec_i_batch :: "int list"
  spec_ckpt :: "checkpoint option"
  spec_is_replay :: bool
  spec_rng :: "32 word \<times> nat"
  task :: "'c server_task option"
  task_prev :: "'c server_task option"
  t_last_used :: int
  sl_n_ctx :: int
  i_batch :: int
  n_predict_max :: int
  last_nl_pos :: nat
  generated_text :: string
  debug_generated_text :: string
  generated_tokens :: "llama_token list"
  n_sent_text :: nat
  generated_token_probs :: "token_output list"
  has_next_token :: bool
  has_new_line :: bool
  truncated :: bool
  sl_stop :: stop_type
  stopping_word :: string
  state :: slot_state
  prompt :: "'c server_prompt"
  lora :: "adapter list"
  alora_invocation_start :: int
  json_schema :: json
  smpl :: "sampler option"
  sampled :: llama_token
  inp_embd :: "rat list"
  stats :: slot_stats
  n_accepted_per_pos :: "nat list"
  mbatch :: "lib_value option"

text \<open>\<open>spec_rng\<close>: the seed of the generator, 5489 when it was never seeded, and the numbers drawn since.\<close>

text \<open>
  What the code asks of the library: end-of-generation tokens, \<open>string_find_partial_stop\<close>, the text of
  tokens, the tokens of a text; \<open>ge_ctx_shift\<close> is the parameter \<open>ctx_shift\<close>, \<open>ge_slots_debug\<close> the
  variable of the environment.
\<close>

record gen_env =
  ge_is_eog :: "llama_token \<Rightarrow> bool"
  ge_partial_stop :: "string \<Rightarrow> string \<Rightarrow> nat option"
  ge_detokenize :: "llama_token list \<Rightarrow> string"
  ge_tokenize :: "string \<Rightarrow> llama_token list"
  ge_ctx_shift :: bool
  ge_slots_debug :: bool

section \<open>Slots\<close>

definition is_processing :: "'c slot \<Rightarrow> bool" where
  "is_processing s = (state s \<noteq> SLOT_IDLE)"

definition can_speculate :: "'c slot \<Rightarrow> bool" where
  "can_speculate s = has_spec s"

definition slot_prompt_clear :: "'c slot \<Rightarrow> 'c slot \<times> device_op list" where
  "slot_prompt_clear s = (s\<lparr>prompt := prompt_clear (prompt s)\<rparr>, [Seq_rm (sl_id s) (-1) (-1)])"

definition slot_reset :: "'c slot \<Rightarrow> 'c slot \<times> device_op list" where
  "slot_reset s =
     (let s = s\<lparr>spec_is_replay := False, last_nl_pos := 0, generated_text := [], has_new_line := False,
                truncated := False, sl_stop := STOP_NONE, stopping_word := [], n_sent_text := 0\<rparr>;
          s = (if can_speculate s then s\<lparr>spec_draft := [], spec_i_batch := [], spec_ckpt := None\<rparr> else s);
          s = s\<lparr>generated_tokens := [], generated_token_probs := [], json_schema := JNull,
                task_prev := task s, task := None, stats := stats_zero, n_accepted_per_pos := [],
                n_predict_max := -1, alora_invocation_start := -1, mbatch := None\<rparr>
      in (s, [Set_sampler (sl_id s) False]))"

definition sampler_do :: "sampler_op \<Rightarrow> sampler \<Rightarrow> sampler" where
  "sampler_do op sm = sm\<lparr>sm_log := sm_log sm @ [op]\<rparr>"

text \<open>\<open>init_sampler\<close>; dereferencing a missing task or sampler is undefined behaviour, shown as \<open>Abort\<close>.\<close>

definition init_sampler :: "'c slot \<Rightarrow> 'c slot result" where
  "init_sampler s =
     (case task s of
        None \<Rightarrow> Inl Abort
      | Some t \<Rightarrow>
          (let sm = map_option (sampler_do Sampler_reset) (smpl s)
           in if \<not> need_sampling t then Inr (s\<lparr>smpl := sm\<rparr>)
              else Inr (s\<lparr>smpl := map_option
                     (fold (\<lambda>i. sampler_do (Sampler_accept i False)) (get_text_tokens (pr_tokens (prompt s)))) sm\<rparr>)))"

definition slot_need_embd :: "'c slot \<Rightarrow> bool result" where
  "slot_need_embd s = (case task s of None \<Rightarrow> Inl Abort | Some t \<Rightarrow> Inr (need_embd t))"

text \<open>\<open>has_memory\<close> and \<open>pooling_last\<close> are what the library says of the context.\<close>

definition can_split :: "bool \<Rightarrow> bool \<Rightarrow> 'c slot \<Rightarrow> bool result" where
  "can_split has_memory pooling_last s =
     (case task s of None \<Rightarrow> Inl Abort | Some t \<Rightarrow> Inr (\<not> need_embd t \<or> (has_memory \<and> pooling_last)))"

definition can_batch_with :: "'c slot \<Rightarrow> 'c slot \<Rightarrow> bool result" where
  "can_batch_with other s =
     (case (task s, task other) of
        (Some t, Some u) \<Rightarrow> Inr (type_of_task t = type_of_task u \<and> length (inp_embd s) = length (inp_embd other)
            \<and> are_lora_equal (lora s) (lora other))
      | _ \<Rightarrow> Inl Abort)"

definition n_remaining :: "'c slot \<Rightarrow> int" where
  "n_remaining s = (if n_predict_max s = -1 then -1 else n_predict_max s - int (n_gen (stats s)))"

definition has_budget :: "'c slot \<Rightarrow> bool" where
  "has_budget s = (n_predict_max s = -1 \<or> n_remaining s > 0)"

definition add_token :: "token_output \<Rightarrow> 'c slot \<Rightarrow> 'c slot" where
  "add_token tkn s =
     (if \<not> is_processing s then s else s\<lparr>generated_token_probs := generated_token_probs s @ [tkn]\<rparr>)"

definition get_n_draft_max :: "'c slot \<Rightarrow> int result" where
  "get_n_draft_max s =
     (if task s = None then Inl Abort
      else if \<not> can_speculate s then Inr 0
      else let m = sl_n_ctx s - int (prompt_n_tokens (prompt s)) - 2
           in Inr (if n_remaining s > 0 then min m (n_remaining s - 1) else m))"

text \<open>\<open>pos_next()\<close> without an argument, which returns (lemma \<open>pos_end_ok\<close>).\<close>

definition pos_end :: "'c mtmd \<Rightarrow> 'c server_tokens \<Rightarrow> int result" where
  "pos_end M st = (case pos_next M (-1) st of Some r \<Rightarrow> r | None \<Rightarrow> Inl Abort)"

fun batch_add_all :: "int \<Rightarrow> llama_token list \<Rightarrow> int \<Rightarrow> server_batch \<Rightarrow> (bool \<times> server_batch) result" where
  "batch_add_all slot [] pos b = Inr (True, b)"
| "batch_add_all slot (t # ts) pos b =
     rbind (batch_add slot t pos True False b) (\<lambda>(ok, b).
     rbind (batch_add_all slot ts (pos + 1) b) (\<lambda>(ok', b). Inr (ok \<and> ok', b)))"

definition handle_last_sampled_token :: "'c mtmd \<Rightarrow> 'c slot \<Rightarrow> server_batch \<Rightarrow> ('c slot \<times> server_batch) result" where
  "handle_last_sampled_token M s b =
     rbind (pos_end M (pr_tokens (prompt s))) (\<lambda>pos0.
     rbind
       (if spec_draft s = [] then
          map_sum id (\<lambda>(ok, b'). (ok, s\<lparr>i_batch := batch_size b\<rparr>, b'))
            (if inp_embd s \<noteq> [] then batch_add_embd (sl_id s) (inp_embd s) pos0 True False b
             else batch_add (sl_id s) (sampled s) pos0 True False b)
        else if spec_i_batch s \<noteq> [] then Inl Abort
        else
          map_sum id (\<lambda>(ok, b'). (ok, s\<lparr>spec_i_batch := map (\<lambda>i. batch_size b + int i) [0..<length (spec_draft s) + 1]\<rparr>, b'))
            (batch_add_all (sl_id s) (sampled s # spec_draft s) pos0 b)) (\<lambda>(add_ok, s, b).
     if \<not> add_ok then Inl Abort
     else rbind (push_back_tok (sampled s) (pr_tokens (prompt s))) (\<lambda>st.
       Inr (s\<lparr>prompt := (prompt s)\<lparr>pr_tokens := st_insert (spec_draft s) st\<rparr>\<rparr>, b))))"

text \<open>\<open>copy_state_to\<close>: the parent slot \<open>s\<close> hands its prompt to the slot \<open>child\<close>.\<close>

definition copy_state_to :: "'c mtmd \<Rightarrow> 'c slot \<Rightarrow> 'c slot \<Rightarrow> ('c slot \<times> device_op list) result" where
  "copy_state_to M s child =
     (if state s \<noteq> SLOT_DONE_PROMPT then Inl Abort
      else rbind (init_sampler (child\<lparr>i_batch := i_batch s, stats := stats s, prompt := prompt_clone M (prompt s)\<rparr>)) (\<lambda>c.
        Inr (c, [Seq_rm (sl_id child) (-1) (-1), Seq_cp (sl_id s) (sl_id child) (-1) (-1)])))"

definition slot_to_json :: "gen_env \<Rightarrow> bool \<Rightarrow> 'c slot \<Rightarrow> json" where
  "slot_to_json E only_metrics s =
     (let res = [(''id'', JInt (sl_id s)), (''n_ctx'', JInt (sl_n_ctx s)),
                 (''speculative'', JBool (can_speculate s)), (''is_processing'', JBool (is_processing s))]
      in JObj (case (if task s \<noteq> None then task s else task_prev s) of
           None \<Rightarrow> res
         | Some t \<Rightarrow> res @
             [(''id_task'', JInt (task_id t)),
              (''n_prompt_tokens'', JInt (int (st_size (pr_tokens (prompt s))))),
              (''n_prompt_tokens_processed'', jnat (n_prompt_processed (stats s))),
              (''n_prompt_tokens_cache'', jnat (n_prompt_cached (stats s))),
              (''params'', params_to_json only_metrics (params t)),
              (''next_token'', JArr [JObj
                [(''has_next_token'', JBool (has_next_token s)), (''has_new_line'', JBool (has_new_line s)),
                 (''n_remain'', JInt (n_remaining s)), (''n_decoded'', jnat (n_gen (stats s)))]])]
             @ (if only_metrics then [] else
                 [(''prompt'', JStr (st_detokenize (ge_detokenize E) (tokens t))),
                  (''generated'', JStr (if generated_text s = [] then debug_generated_text s else generated_text s))])))"

section \<open>Stop words\<close>

fun stop_loop ::
  "gen_env \<Rightarrow> string \<Rightarrow> nat \<Rightarrow> bool \<Rightarrow> string list \<Rightarrow> nat option \<Rightarrow> 'c slot \<Rightarrow> nat option \<times> 'c slot" where
  "stop_loop E text last_token_size is_full_stop [] stop_pos s = (stop_pos, s)"
| "stop_loop E text last_token_size is_full_stop (word # words) stop_pos s =
     (let tmp = length word + last_token_size;
          from_pos = (if length text > tmp then length text - tmp else 0);
          pos = (if is_full_stop then str_find text word from_pos else ge_partial_stop E text word)
      in if pos \<noteq> None \<and> (stop_pos = None \<or> the pos < the stop_pos) then
           stop_loop E text last_token_size is_full_stop words pos
             (if is_full_stop then s\<lparr>sl_stop := STOP_WORD, stopping_word := word, has_next_token := False\<rparr> else s)
         else stop_loop E text last_token_size is_full_stop words stop_pos s)"

definition find_stopping_strings ::
  "gen_env \<Rightarrow> string \<Rightarrow> nat \<Rightarrow> bool \<Rightarrow> 'c slot \<Rightarrow> (nat option \<times> 'c slot) result" where
  "find_stopping_strings E text last_token_size is_full_stop s =
     (case task s of
        None \<Rightarrow> Inl Abort
      | Some t \<Rightarrow> Inr (stop_loop E text last_token_size is_full_stop (antiprompt (params t)) None s))"

section \<open>Results\<close>

definition mk_msg :: "int \<Rightarrow> nat \<Rightarrow> result_body \<Rightarrow> result_body result_msg" where
  "mk_msg i n b = \<lparr>res_id = i, res_index = n, res_error = body_is_error b, res_stop = body_is_stop b, res_body = b\<rparr>"

text \<open>\<open>send_error(id_task, error, type, n_prompt_tokens, n_ctx)\<close> and its form for a slot.\<close>

definition error_msg :: "int \<Rightarrow> string \<Rightarrow> error_type \<Rightarrow> int \<Rightarrow> int \<Rightarrow> result_body result_msg result" where
  "error_msg id_task err ty n_prompt_tokens n_ctx =
     (if ty = ERROR_EXCEED_CONTEXT_SIZE \<and> \<not> (n_ctx > 0 \<and> n_prompt_tokens > 0) then Inl Abort
      else Inr (mk_msg id_task 0 (Error ty err n_prompt_tokens n_ctx)))"

definition slot_error_msg :: "'c slot \<Rightarrow> string \<Rightarrow> error_type \<Rightarrow> result_body result_msg result" where
  "slot_error_msg s err ty =
     (case task s of None \<Rightarrow> Inl Abort | Some t \<Rightarrow> error_msg (task_id t) err ty (task_n_tokens t) (sl_n_ctx s))"

definition no_progress :: prompt_progress where
  "no_progress = \<lparr>pp_total = 0, pp_cache = 0, pp_processed = 0, pp_time_ms = 0\<rparr>"

definition no_output :: token_output where
  "no_output = \<lparr>to_tok = 0, to_prob = 0, to_text = [], to_probs = []\<rparr>"

definition partial_response :: "int \<Rightarrow> 'c slot \<Rightarrow> token_output \<Rightarrow> bool \<Rightarrow> bool \<Rightarrow> result_body result_msg result" where
  "partial_response now s tkn is_progress is_begin =
     (case task s of
        None \<Rightarrow> Inl Abort
      | Some t \<Rightarrow> Inr (mk_msg (task_id t) (task_index t) (Partial
          \<lparr>p_id_slot = -1, p_index = task_index t,
           p_content = (if is_begin then [] else to_text tkn), p_tokens = (if is_begin then [] else [to_tok tkn]),
           p_n_decoded = int (n_gen (stats s)), p_n_prompt_tokens = task_n_tokens t,
           p_n_prompt_tokens_cache = int (n_prompt_cached (stats s)),
           p_post_sampling_probs = post_sampling_probs (params t), p_is_progress = is_progress, p_is_begin = is_begin,
           p_prob_output = (if sp_n_probs (sampling (params t)) > 0 then tkn else no_output),
           p_stats = (if sl_stop s \<noteq> STOP_NONE \<or> timings_per_token (params t) then stats s else stats_zero),
           p_progress = (if is_progress then
               \<lparr>pp_total = task_n_tokens t, pp_cache = int (n_prompt_cached (stats s)),
                pp_processed = int (st_size (pr_tokens (prompt s))), pp_time_ms = t_elapsed_us now (stats s) sdiv 1000\<rparr>
             else no_progress),
           p_verbose = verbose (params t), p_res_type = res_type (params t), p_model = oaicompat_model (params t),
           p_cmpl_id = oaicompat_cmpl_id (params t), p_diffs = [], p_is_updated = False,
           p_thinking_started = False, p_text_started = False, p_resp_created = False, p_resp_id = [],
           p_resp_reasoning_id = [], p_resp_message_id = [], p_resp_fc_id = [], p_has_reasoning = False\<rparr>)))"

text \<open>
  \<open>send_final_response\<close>; moving the generated text out of the slot leaves it empty.
\<close>

definition final_response :: "gen_env \<Rightarrow> 'c slot \<Rightarrow> ('c slot \<times> result_body result_msg) result" where
  "final_response E s =
     (case task s of
        None \<Rightarrow> Inl Abort
      | Some t \<Rightarrow>
          let s = (if ge_slots_debug E then s\<lparr>debug_generated_text := generated_text s\<rparr> else s);
              strm = stream (params t);
              probs = (if sp_n_probs (sampling (params t)) > 0 then
                  (if \<not> strm \<and> sl_stop s = STOP_WORD then
                     take (length (generated_token_probs s)
                           - min (length (generated_token_probs s)) (length (ge_tokenize E (stopping_word s))))
                          (generated_token_probs s)
                   else generated_token_probs s) else []);
              f = \<lparr>f_id_slot = sl_id s, f_index = task_index t,
                   f_content = (if strm then [] else generated_text s), f_tokens = (if strm then [] else generated_tokens s),
                   f_stream = strm, f_include_usage = include_usage (params t), f_stats = stats s,
                   f_prompt = st_detokenize (ge_detokenize E) (tokens t), f_truncated = truncated s,
                   f_n_decoded = int (n_gen (stats s)), f_n_prompt_tokens = task_n_tokens t,
                   f_n_prompt_tokens_cache = int (n_prompt_cached (stats s)),
                   f_n_tokens_cached = int (prompt_n_tokens (prompt s)), f_has_new_line = has_new_line s,
                   f_stopping_word = stopping_word s, f_stop = sl_stop s,
                   f_post_sampling_probs = post_sampling_probs (params t), f_probs_output = probs,
                   f_response_fields = response_fields (params t), f_generation_params = params t,
                   f_verbose = verbose (params t), f_res_type = res_type (params t),
                   f_model = oaicompat_model (params t), f_cmpl_id = oaicompat_cmpl_id (params t),
                   f_msg = empty_msg, f_diffs = [], f_is_updated = False,
                   f_resp_id = [], f_resp_reasoning_id = [], f_resp_message_id = []\<rparr>;
              s = (if strm then s else s\<lparr>generated_text := [], generated_tokens := []\<rparr>)
          in Inr (s, mk_msg (task_id t) (task_index t) (Final f)))"

section \<open>One sampled token\<close>

text \<open>The indentation check: the number of blanks from \<open>pos\<close>, capped by the end of the text.\<close>

definition count_indent :: "string \<Rightarrow> nat \<Rightarrow> nat" where
  "count_indent text pos = length (takeWhile (\<lambda>c. c = CHR '' '' \<or> c = CHR 0x09) (drop pos text))"

definition check_indent :: "int \<Rightarrow> 'c slot \<Rightarrow> 'c slot" where
  "check_indent n_ind s =
     (let s = (if last_nl_pos s > 0 then
                 (let n = count_indent (generated_text s) (last_nl_pos s); pos = last_nl_pos s + n
                  in if pos < length (generated_text s) \<and> int n < n_ind
                     then s\<lparr>sl_stop := STOP_LIMIT, has_next_token := False, generated_text := take pos (generated_text s)\<rparr>
                     else s) else s)
      in case str_find (generated_text s) [CHR 0x0A] (last_nl_pos s) of
           None \<Rightarrow> s
         | Some pos \<Rightarrow> s\<lparr>last_nl_pos := pos + 1\<rparr>)"

text \<open>The part run when the generated text does not end inside a character.\<close>

definition send_token_text ::
  "gen_env \<Rightarrow> int \<Rightarrow> string \<Rightarrow> token_output \<Rightarrow> 'c slot \<Rightarrow> (token_output \<times> 'c slot \<times> result_body result_msg list) result" where
  "send_token_text E now token_str res s =
     (let pos = min (n_sent_text s) (length (generated_text s)); str_test = drop pos (generated_text s)
      in rbind (find_stopping_strings E str_test (length token_str) True s) (\<lambda>(stop_pos, s).
         rbind
           (case stop_pos of
              Some k \<Rightarrow>
                (let s = s\<lparr>generated_text := take (pos + k) (generated_text s)\<rparr>
                 in Inr (min (n_sent_text s) (length (generated_text s)), True, s))
            | None \<Rightarrow>
                if has_next_token s \<and> \<not> ge_is_eog E (to_tok res) then
                  rbind (find_stopping_strings E str_test (length token_str) False s) (\<lambda>(stop_pos, s).
                    Inr (pos, stop_pos = None, s))
                else Inr (pos, True, s)) (\<lambda>(pos, send_text, s).
         let res = res\<lparr>to_text := (if send_text then drop pos (generated_text s) else [])\<rparr>;
             s = (if send_text then s\<lparr>n_sent_text := n_sent_text s + length (to_text res)\<rparr> else s);
             s = add_token res s
         in case task s of
              None \<Rightarrow> Inl Abort
            | Some t \<Rightarrow>
                if stream (params t) then rbind (partial_response now s res False False) (\<lambda>m. Inr (res, s, [m]))
                else Inr (res, s, []))))"

definition process_token ::
  "gen_env \<Rightarrow> int \<Rightarrow> token_output \<Rightarrow> 'c slot \<Rightarrow> (bool \<times> token_output \<times> 'c slot \<times> result_body result_msg list) result" where
  "process_token E now res s =
     (case task s of
        None \<Rightarrow> Inl Abort
      | Some t \<Rightarrow>
          let token_str = to_text res;
              s = s\<lparr>sampled := to_tok res, generated_text := generated_text s @ token_str\<rparr>;
              s = (if return_tokens (params t) then s\<lparr>generated_tokens := generated_tokens s @ [to_tok res]\<rparr> else s);
              s = s\<lparr>has_next_token := True\<rparr>;
              incomplete = validate_utf8 (generated_text s) < length (generated_text s)
          in rbind (if \<not> incomplete then send_token_text E now token_str res s else Inr (res, s, [])) (\<lambda>(res, s, msgs).
             let s = (if incomplete then s\<lparr>has_next_token := True\<rparr> else s);
                 s = (if \<not> ge_ctx_shift E \<and> int (prompt_n_tokens (prompt s)) + 1 \<ge> sl_n_ctx s
                      then s\<lparr>truncated := True, sl_stop := STOP_LIMIT, has_next_token := False\<rparr> else s);
                 s = (if n_gen (stats s) > 0 \<and> has_next_token s \<and> \<not> has_budget s
                      then s\<lparr>sl_stop := STOP_LIMIT, has_next_token := False\<rparr> else s);
                 s = (if has_new_line s \<and> n_indent (params t) > 0 then check_indent (n_indent (params t)) s else s);
                 s = (if CHR 0x0A \<in> set (to_text res) then
                        (let s = s\<lparr>has_new_line := True\<rparr>
                         in if t_max_predict_ms (params t) > 0 \<and> t_gen_ms (stats s) > of_int (t_max_predict_ms (params t))
                            then s\<lparr>sl_stop := STOP_LIMIT, has_next_token := False\<rparr> else s) else s);
                 s = (if ge_is_eog E (to_tok res) then s\<lparr>sl_stop := STOP_EOS, has_next_token := False\<rparr> else s)
             in Inr (has_next_token s, res, s, msgs)))"

section \<open>Lemmas on stop words\<close>

definition stop_found :: "bool \<Rightarrow> string \<Rightarrow> 'c slot \<Rightarrow> 'c slot" where
  "stop_found is_full w s = (if is_full then s\<lparr>sl_stop := STOP_WORD, stopping_word := w, has_next_token := False\<rparr> else s)"

definition stop_pos_of :: "gen_env \<Rightarrow> string \<Rightarrow> nat \<Rightarrow> bool \<Rightarrow> string \<Rightarrow> nat option" where
  "stop_pos_of E str n is_full w =
     (if is_full then str_find str w (length str - (length w + n)) else ge_partial_stop E str w)"

lemma stop_loop_Cons:
  "stop_loop E str n f (w # ws) sp s =
     (let pos = stop_pos_of E str n f w
      in if pos \<noteq> None \<and> (sp = None \<or> the pos < the sp) then stop_loop E str n f ws pos (stop_found f w s)
         else stop_loop E str n f ws sp s)"
proof -
  have "(if length str > length w + n then length str - (length w + n) else 0) = length str - (length w + n)"
    by simp
  then show ?thesis
    by (simp only: stop_loop.simps Let_def stop_pos_of_def stop_found_def)
qed

lemma stop_found_twice [simp]: "stop_found f w (stop_found f v s) = stop_found f w s"
  by (simp add: stop_found_def)

lemma stop_loop_spec:
  assumes "stop_loop E str n f ws sp s = (r, s')"
  shows "(\<forall>w \<in> set ws. \<forall>p. stop_pos_of E str n f w = Some p \<longrightarrow> r \<noteq> None \<and> the r \<le> p)
     \<and> (sp \<noteq> None \<longrightarrow> r \<noteq> None \<and> the r \<le> the sp)
     \<and> ((r = sp \<and> s' = s) \<or> (\<exists>w \<in> set ws. stop_pos_of E str n f w = r \<and> r \<noteq> None \<and> s' = stop_found f w s))"
  using assms
proof (induction ws arbitrary: sp s)
  case (Cons w ws)
  define pos where "pos = stop_pos_of E str n f w"
  show ?case
  proof (cases "pos \<noteq> None \<and> (sp = None \<or> the pos < the sp)")
    case True
    then have "stop_loop E str n f ws pos (stop_found f w s) = (r, s')"
      using Cons.prems unfolding stop_loop_Cons Let_def pos_def by simp
    from Cons.IH [OF this] True show ?thesis
      by (fastforce simp: pos_def)
  next
    case False
    then have "stop_loop E str n f ws sp s = (r, s')"
      using Cons.prems unfolding stop_loop_Cons Let_def pos_def by (simp split: if_splits)
    from Cons.IH [OF this] False show ?thesis
      by (fastforce simp: pos_def)
  qed
qed simp

lemma find_stopping_spec:
  assumes "find_stopping_strings E str n f s = Inr (r, s')" "task s = Some t"
  shows "(\<forall>w \<in> set (antiprompt (params t)). \<forall>p. stop_pos_of E str n f w = Some p \<longrightarrow> r \<noteq> None \<and> the r \<le> p)"
    "(r = None \<and> s' = s) \<or> (\<exists>w \<in> set (antiprompt (params t)). stop_pos_of E str n f w = r \<and> r \<noteq> None \<and> s' = stop_found f w s)"
  using assms stop_loop_spec [of E str n f "antiprompt (params t)" None s r s']
  by (auto simp: find_stopping_strings_def)

section \<open>What one token does to the text\<close>

definition msg_text :: "result_body result_msg \<Rightarrow> string" where
  "msg_text m = (case res_body m of Partial p \<Rightarrow> p_content p | Final f \<Rightarrow> f_content f | _ \<Rightarrow> [])"

definition streamed :: "result_body result_msg list \<Rightarrow> string" where
  "streamed ms = concat (map msg_text ms)"

lemma streamed_simps [simp]: "streamed [] = []" "streamed (m # ms) = msg_text m @ streamed ms"
  "streamed (ms @ ms') = streamed ms @ streamed ms'"
  by (simp_all add: streamed_def)

lemma partial_response_text: "partial_response now s tkn False False = Inr m \<Longrightarrow> msg_text m = to_text tkn"
  by (auto simp: partial_response_def msg_text_def mk_msg_def split: option.splits)

lemma partial_response_ok: "task s = Some t \<Longrightarrow> \<exists>m. partial_response now s tkn pr bg = Inr m"
  by (simp add: partial_response_def)

lemma stop_found_simps [simp]:
  "generated_text (stop_found f w s) = generated_text s" "n_sent_text (stop_found f w s) = n_sent_text s"
  "task (stop_found f w s) = task s" "stop_found False w s = s"
  "has_next_token (stop_found True w s) = False" "sl_stop (stop_found True w s) = STOP_WORD"
  by (simp_all add: stop_found_def)

lemma add_token_simps [simp]:
  "generated_text (add_token r s) = generated_text s" "n_sent_text (add_token r s) = n_sent_text s"
  "task (add_token r s) = task s" "has_next_token (add_token r s) = has_next_token s"
  "sl_stop (add_token r s) = sl_stop s"
  by (simp_all add: add_token_def)

text \<open>The end of \<open>send_token_text\<close>: \<open>pos\<close>, \<open>send_text\<close> and the slot are settled.\<close>

definition send_rest ::
  "int \<Rightarrow> token_output \<Rightarrow> nat \<Rightarrow> bool \<Rightarrow> 'c slot \<Rightarrow> (token_output \<times> 'c slot \<times> result_body result_msg list) result" where
  "send_rest now res pos send_text s =
     (let res = res\<lparr>to_text := (if send_text then drop pos (generated_text s) else [])\<rparr>;
          s = (if send_text then s\<lparr>n_sent_text := n_sent_text s + length (to_text res)\<rparr> else s);
          s = add_token res s
      in case task s of
           None \<Rightarrow> Inl Abort
         | Some t \<Rightarrow>
             if stream (params t) then rbind (partial_response now s res False False) (\<lambda>m. Inr (res, s, [m]))
             else Inr (res, s, []))"

lemma send_token_text_rest:
  "send_token_text E now token_str res s =
     (let pos = min (n_sent_text s) (length (generated_text s)); str_test = drop pos (generated_text s)
      in rbind (find_stopping_strings E str_test (length token_str) True s) (\<lambda>(stop_pos, s).
         rbind
           (case stop_pos of
              Some k \<Rightarrow>
                (let s = s\<lparr>generated_text := take (pos + k) (generated_text s)\<rparr>
                 in Inr (min (n_sent_text s) (length (generated_text s)), True, s))
            | None \<Rightarrow>
                if has_next_token s \<and> \<not> ge_is_eog E (to_tok res) then
                  rbind (find_stopping_strings E str_test (length token_str) False s) (\<lambda>(stop_pos, s).
                    Inr (pos, stop_pos = None, s))
                else Inr (pos, True, s)) (\<lambda>(pos, send_text, s). send_rest now res pos send_text s)))"
  unfolding send_token_text_def send_rest_def by (rule refl)

lemma send_rest_spec:
  assumes "send_rest now res pos b s = Inr (res', s', ms)" "task s = Some t"
  shows "generated_text s' = generated_text s" "task s' = task s" "has_next_token s' = has_next_token s"
    "sl_stop s' = sl_stop s" "to_text res' = (if b then drop pos (generated_text s) else [])" "to_tok res' = to_tok res"
    "n_sent_text s' = n_sent_text s + length (to_text res')"
    "streamed ms = (if stream (params t) then to_text res' else [])"
  using assms
  by (auto simp: send_rest_def Let_def rbind_Inr_iff dest: partial_response_text split: if_splits option.splits)

definition held_back :: "gen_env \<Rightarrow> string list \<Rightarrow> string \<Rightarrow> bool" where
  "held_back E ws str \<longleftrightarrow> (\<exists>w \<in> set ws. ge_partial_stop E str w \<noteq> None)"

lemma find_stopping_ok: "task s = Some t \<Longrightarrow> \<exists>r s1. find_stopping_strings E str n f s = Inr (r, s1)"
  by (cases "stop_loop E str n f (antiprompt (params t)) None s") (simp add: find_stopping_strings_def)

lemma find_stopping_partial:
  assumes "find_stopping_strings E str n False s = Inr (r, s1)" "task s = Some t"
  shows "s1 = s" "r = None \<longleftrightarrow> \<not> held_back E (antiprompt (params t)) str"
  using find_stopping_spec [OF assms] by (fastforce simp: held_back_def stop_pos_of_def)+

lemma send_token_text_cases:
  assumes a: "send_token_text E now tok res s = Inr (res', s', ms)" "task s = Some t"
    and n: "n_sent_text s \<le> length (generated_text s)"
  defines "g \<equiv> generated_text s" and "ws \<equiv> antiprompt (params t)"
  defines "full \<equiv> stop_pos_of E (drop (n_sent_text s) g) (length tok) True"
  shows "task s' = task s \<and> to_tok res' = to_tok res \<and> n_sent_text s' = n_sent_text s + length (to_text res')
     \<and> streamed ms = (if stream (params t) then to_text res' else [])
     \<and> to_text res' = take (length (to_text res')) (drop (n_sent_text s) (generated_text s'))" (is ?A)
    and "(\<exists>k. k \<le> length (drop (n_sent_text s) g) \<and> (\<exists>w \<in> set ws. full w = Some k) \<and> (\<forall>w \<in> set ws. \<forall>p. full w = Some p \<longrightarrow> k \<le> p)
           \<and> generated_text s' = take (n_sent_text s + k) g \<and> n_sent_text s' = length (generated_text s')
           \<and> \<not> has_next_token s' \<and> sl_stop s' = STOP_WORD)
       \<or> ((\<forall>w \<in> set ws. full w = None) \<and> generated_text s' = g \<and> has_next_token s' = has_next_token s \<and> sl_stop s' = sl_stop s
           \<and> (if has_next_token s \<and> \<not> ge_is_eog E (to_tok res) \<and> held_back E ws (drop (n_sent_text s) g)
              then n_sent_text s' = n_sent_text s else n_sent_text s' = length g))" (is ?B)
proof -
  let ?n = "n_sent_text s"
  have pos: "min ?n (length (generated_text s)) = ?n" using n by simp
  obtain r s1 where f: "find_stopping_strings E (drop ?n g) (length tok) True s = Inr (r, s1)"
    using find_stopping_ok a(2) by blast
  note spec = find_stopping_spec [OF f a(2), folded ws_def full_def]
  show "?A" "?B"
  proof (atomize (full), cases r)
    case (Some k)
    then obtain w where w: "w \<in> set ws" "full w = Some k" "s1 = stop_found True w s"
      using spec by auto
    have k: "k \<le> length (drop ?n g)"
      using w(2) str_find_Some unfolding full_def stop_pos_of_def by fastforce
    let ?s2 = "s1\<lparr>generated_text := take (?n + k) g\<rparr>"
    have m: "min (n_sent_text ?s2) (length (generated_text ?s2)) = ?n"
      using n w k by (simp add: g_def)
    have "send_token_text E now tok res s = send_rest now res ?n True ?s2"
      unfolding send_token_text_rest pos Let_def using f Some m w(3) by (simp add: g_def)
    then have "send_rest now res ?n True ?s2 = Inr (res', s', ms)" "task ?s2 = Some t"
      using a w by simp_all
    note r = send_rest_spec [OF this]
    show "?A \<and> ?B"
      using r w k n spec(1) Some by (auto simp: g_def intro!: exI [of _ k])
  next
    case None
    then have s1: "s1 = s" "\<forall>w \<in> set ws. full w = None"
      using spec by auto
    define hold where "hold \<longleftrightarrow> has_next_token s \<and> \<not> ge_is_eog E (to_tok res) \<and> held_back E ws (drop ?n g)"
    obtain r2 s2 where f2: "find_stopping_strings E (drop ?n g) (length tok) False s = Inr (r2, s2)"
      using find_stopping_ok a(2) by blast
    note p = find_stopping_partial [OF f2 a(2), folded ws_def]
    have "send_token_text E now tok res s = send_rest now res ?n (\<not> hold) s"
      unfolding send_token_text_rest pos Let_def using f None s1 f2 p
      by (auto simp: g_def hold_def split: if_splits)
    then have "send_rest now res ?n (\<not> hold) s = Inr (res', s', ms)"
      using a by simp
    note r = send_rest_spec [OF this a(2)]
    show "?A \<and> ?B"
      using r n s1 hold_def by (auto simp: g_def)
  qed
qed

text \<open>The checks behind the text part of \<open>process_token\<close>.\<close>

definition finish_token :: "gen_env \<Rightarrow> 'c server_task \<Rightarrow> bool \<Rightarrow> token_output \<Rightarrow> 'c slot \<Rightarrow> 'c slot" where
  "finish_token E t incomplete res s =
     (let s = (if incomplete then s\<lparr>has_next_token := True\<rparr> else s);
          s = (if \<not> ge_ctx_shift E \<and> int (prompt_n_tokens (prompt s)) + 1 \<ge> sl_n_ctx s
               then s\<lparr>truncated := True, sl_stop := STOP_LIMIT, has_next_token := False\<rparr> else s);
          s = (if n_gen (stats s) > 0 \<and> has_next_token s \<and> \<not> has_budget s
               then s\<lparr>sl_stop := STOP_LIMIT, has_next_token := False\<rparr> else s);
          s = (if has_new_line s \<and> n_indent (params t) > 0 then check_indent (n_indent (params t)) s else s);
          s = (if CHR 0x0A \<in> set (to_text res) then
                 (let s = s\<lparr>has_new_line := True\<rparr>
                  in if t_max_predict_ms (params t) > 0 \<and> t_gen_ms (stats s) > of_int (t_max_predict_ms (params t))
                     then s\<lparr>sl_stop := STOP_LIMIT, has_next_token := False\<rparr> else s) else s)
      in if ge_is_eog E (to_tok res) then s\<lparr>sl_stop := STOP_EOS, has_next_token := False\<rparr> else s)"

definition take_token :: "'c server_task \<Rightarrow> token_output \<Rightarrow> 'c slot \<Rightarrow> 'c slot" where
  "take_token t res s =
     (let s = s\<lparr>sampled := to_tok res, generated_text := generated_text s @ to_text res\<rparr>;
          s = (if return_tokens (params t) then s\<lparr>generated_tokens := generated_tokens s @ [to_tok res]\<rparr> else s)
      in s\<lparr>has_next_token := True\<rparr>)"

lemma process_token_parts:
  "task s = Some t \<Longrightarrow> process_token E now res s =
     (let s0 = take_token t res s; incomplete = validate_utf8 (generated_text s0) < length (generated_text s0)
      in rbind (if \<not> incomplete then send_token_text E now (to_text res) res s0 else Inr (res, s0, [])) (\<lambda>(res, s, msgs).
           let s = finish_token E t incomplete res s in Inr (has_next_token s, res, s, msgs)))"
  by (simp add: process_token_def take_token_def finish_token_def Let_def cong: if_cong)

lemma take_token_simps [simp]:
  "generated_text (take_token t res s) = generated_text s @ to_text res" "n_sent_text (take_token t res s) = n_sent_text s"
  "task (take_token t res s) = task s" "has_next_token (take_token t res s)" "sl_stop (take_token t res s) = sl_stop s"
  by (simp_all add: take_token_def Let_def)

lemma finish_token_simps [simp]:
  assumes "n_indent (params t) \<le> 0"
  shows "generated_text (finish_token E t inc res s) = generated_text s"
    "n_sent_text (finish_token E t inc res s) = n_sent_text s" "task (finish_token E t inc res s) = task s"
  using assms by (simp_all add: finish_token_def Let_def)

lemma finish_token_stops:
  assumes "n_indent (params t) \<le> 0" "has_next_token (finish_token E t inc res s)"
  shows "\<not> ge_is_eog E (to_tok res)" "sl_stop (finish_token E t inc res s) = sl_stop s" "inc \<or> has_next_token s"
  using assms by (auto simp: finish_token_def Let_def split: if_splits)

lemma finish_token_stop:
  assumes "n_indent (params t) \<le> 0"
  shows "sl_stop (finish_token E t inc res s) \<in> {sl_stop s, STOP_LIMIT, STOP_EOS}"
    "sl_stop (finish_token E t inc res s) = STOP_EOS \<Longrightarrow> sl_stop s = STOP_EOS \<or> ge_is_eog E (to_tok res)"
  using assms by (auto simp: finish_token_def Let_def split: if_splits)

section \<open>A generation\<close>

text \<open>
  The tokens a slot samples for one request, each with what the decode before it left in the slot
  (statistics and prompt); the run ends with the first token after which \<open>process_token\<close> is false.
\<close>

record 'c gen_step =
  gs_now :: int
  gs_stats :: slot_stats
  gs_prompt :: "'c server_prompt"
  gs_token :: token_output

fun gen_run :: "gen_env \<Rightarrow> 'c gen_step list \<Rightarrow> 'c slot \<Rightarrow> (bool \<times> 'c slot \<times> result_body result_msg list) result" where
  "gen_run E [] s = Inr (True, s, [])"
| "gen_run E (x # xs) s =
     rbind (process_token E (gs_now x) (gs_token x) (s\<lparr>stats := gs_stats x, prompt := gs_prompt x\<rparr>)) (\<lambda>(go, _, s, ms).
     if go then rbind (gen_run E xs s) (\<lambda>(go, s, ms'). Inr (go, s, ms @ ms')) else Inr (False, s, ms))"

definition cut_off :: "string \<Rightarrow> bool" where
  "cut_off g \<longleftrightarrow> validate_utf8 g < length g"

lemma token_step:
  assumes p: "process_token E now res s = Inr (go, res', s', ms)" and t: "task s = Some t" "n_indent (params t) \<le> 0"
    and n: "n_sent_text s \<le> length (generated_text s)"
  shows "task s' = Some t \<and> n_sent_text s \<le> n_sent_text s' \<and> n_sent_text s' \<le> length (generated_text s')
     \<and> take (n_sent_text s) (generated_text s') = take (n_sent_text s) (generated_text s)
     \<and> streamed ms = (if stream (params t) then drop (n_sent_text s) (take (n_sent_text s') (generated_text s')) else [])
     \<and> (go \<longrightarrow> sl_stop s' = sl_stop s)
     \<and> (sl_stop s = STOP_NONE \<longrightarrow> sl_stop s' \<in> {STOP_WORD, STOP_EOS} \<longrightarrow>
          n_sent_text s' = length (generated_text s') \<or> cut_off (generated_text s'))"
proof -
  define s0 where "s0 = take_token t res s"
  define inc where "inc \<longleftrightarrow> validate_utf8 (generated_text s0) < length (generated_text s0)"
  have s0: "task s0 = Some t" "n_sent_text s0 = n_sent_text s" "generated_text s0 = generated_text s @ to_text res"
    "sl_stop s0 = sl_stop s" "has_next_token s0" "n_sent_text s0 \<le> length (generated_text s0)"
    using t n by (simp_all add: s0_def)
  obtain s2 where s2: "(if \<not> inc then send_token_text E now (to_text res) res s0 else Inr (res, s0, [])) = Inr (res', s2, ms)"
    "s' = finish_token E t inc res' s2" "go = has_next_token s'"
    using p unfolding process_token_parts [OF t(1)] s0_def [symmetric] Let_def inc_def [symmetric]
    by (auto simp: rbind_Inr_iff)
  note fin = finish_token_simps [OF t(2), of E inc res' s2] finish_token_stops [OF t(2), of E inc res' s2]
    finish_token_stop [OF t(2), of E inc res' s2]
  show ?thesis
  proof (cases inc)
    case True
    then show ?thesis using s2 s0 fin n unfolding inc_def by (auto simp: cut_off_def)
  next
    case False
    then have send: "send_token_text E now (to_text res) res s0 = Inr (res', s2, ms)"
      using s2 by simp
    note c = send_token_text_cases [OF send s0(1) s0(6)]
    from c(1) have d: "to_text res' = drop (n_sent_text s) (take (n_sent_text s2) (generated_text s2))"
      by (simp add: s0 take_drop add.commute)
    have le: "n_sent_text s \<le> n_sent_text s2" using c(1) s0 by simp
    have "n_sent_text s2 \<le> length (generated_text s2)
      \<and> take (n_sent_text s) (generated_text s2) = take (n_sent_text s) (generated_text s)
      \<and> (has_next_token s2 \<longrightarrow> sl_stop s2 = sl_stop s)
      \<and> (sl_stop s = STOP_NONE \<longrightarrow> sl_stop s2 \<noteq> STOP_EOS
          \<and> (sl_stop s2 = STOP_WORD \<or> ge_is_eog E (to_tok res) \<longrightarrow> n_sent_text s2 = length (generated_text s2)))"
      using c(2)
    proof (elim disjE exE conjE)
      fix k assume "generated_text s2 = take (n_sent_text s0 + k) (generated_text s0)"
        "n_sent_text s2 = length (generated_text s2)" "\<not> has_next_token s2" "sl_stop s2 = STOP_WORD"
      then show ?thesis using s0 n by (simp add: min_def)
    next
      assume "generated_text s2 = generated_text s0" "has_next_token s2 = has_next_token s0" "sl_stop s2 = sl_stop s0"
        "if has_next_token s0 \<and> \<not> ge_is_eog E (to_tok res) \<and> held_back E (antiprompt (params t)) (drop (n_sent_text s0) (generated_text s0))
         then n_sent_text s2 = n_sent_text s0 else n_sent_text s2 = length (generated_text s0)"
      then show ?thesis using s0 n by (simp split: if_splits)
    qed
    note e = this
    have tok: "to_tok res' = to_tok res" "streamed ms = (if stream (params t) then to_text res' else [])" "task s2 = Some t"
      using c(1) s0 by simp_all
    have go: "go \<longrightarrow> sl_stop s' = sl_stop s" using e fin(4-6) False s2(2,3) by auto
    have stop: "sl_stop s = STOP_NONE \<longrightarrow> sl_stop s' \<in> {STOP_WORD, STOP_EOS} \<longrightarrow> n_sent_text s2 = length (generated_text s2)"
      using e fin(7,8) s2(2) tok by auto
    show ?thesis
      using e go stop le tok d fin(1-3) s2(2) by auto
  qed
qed

lemma gen_run_text:
  assumes "gen_run E xs s = Inr (go, s', ms)" "task s = Some t" "stream (params t)" "n_indent (params t) \<le> 0"
    "n_sent_text s \<le> length (generated_text s)" "sl_stop s = STOP_NONE"
  shows "take (n_sent_text s) (generated_text s) @ streamed ms = take (n_sent_text s') (generated_text s')
     \<and> n_sent_text s' \<le> length (generated_text s')
     \<and> (sl_stop s' \<in> {STOP_WORD, STOP_EOS} \<longrightarrow> n_sent_text s' = length (generated_text s') \<or> cut_off (generated_text s'))"
  using assms
proof (induction xs arbitrary: s ms)
  case (Cons x xs)
  let ?s = "s\<lparr>stats := gs_stats x, prompt := gs_prompt x\<rparr>"
  obtain go1 res1 s1 ms1 where p: "process_token E (gs_now x) (gs_token x) ?s = Inr (go1, res1, s1, ms1)"
    using Cons.prems(1) by (auto simp: rbind_Inr_iff)
  note st = token_step [OF p, of t]
  have d: "take (n_sent_text s) (generated_text s) @ streamed ms1 = take (n_sent_text s1) (generated_text s1)"
  proof -
    have "take (n_sent_text s1) (generated_text s1)
        = take (n_sent_text s) (take (n_sent_text s1) (generated_text s1)) @ drop (n_sent_text s) (take (n_sent_text s1) (generated_text s1))"
      by (rule append_take_drop_id [symmetric])
    then show ?thesis using st Cons.prems by (simp add: min_def)
  qed
  show ?case
  proof (cases go1)
    case True
    then obtain ms2 where r: "gen_run E xs s1 = Inr (go, s', ms2)" "ms = ms1 @ ms2"
      using Cons.prems(1) p by (auto simp: rbind_Inr_iff)
    have "take (n_sent_text s1) (generated_text s1) @ streamed ms2 = take (n_sent_text s') (generated_text s')
     \<and> n_sent_text s' \<le> length (generated_text s')
     \<and> (sl_stop s' \<in> {STOP_WORD, STOP_EOS} \<longrightarrow> n_sent_text s' = length (generated_text s') \<or> cut_off (generated_text s'))"
      using st True Cons.prems by (intro Cons.IH [OF r(1)]) auto
    then show ?thesis using d r(2) by (metis append.assoc streamed_simps(3))
  next
    case False
    then have "s' = s1" "ms = ms1" using Cons.prems(1) p by auto
    then show ?thesis using st d Cons.prems by auto
  qed
qed simp

text \<open>
  Property C34. Streaming shows the generated text: whatever tokens are sampled, the texts of the chunks sent for a
  request add up to the first \<open>n_sent_text\<close> characters of the text the slot has generated, after every
  token; and when the generation ends with a stop word or an end-of-generation token, to all of it, unless it
  ends inside a UTF-8 sequence (\<open>n_indent\<close>, which cuts text already sent, is off).
\<close>

theorem streamed_text_is_generated:
  assumes "gen_run E xs s = Inr (go, s', ms)" "task s = Some t" "stream (params t)" "n_indent (params t) \<le> 0"
    "generated_text s = []" "n_sent_text s = 0" "sl_stop s = STOP_NONE"
  shows "streamed ms = take (n_sent_text s') (generated_text s')
     \<and> (sl_stop s' \<in> {STOP_WORD, STOP_EOS} \<longrightarrow> streamed ms = generated_text s' \<or> cut_off (generated_text s'))"
  using gen_run_text [OF assms(1-4)] assms(5-7) by auto

section \<open>Stop words stay out of the text\<close>

lemma is_valid_utf8_append: "is_valid_utf8 a \<Longrightarrow> is_valid_utf8 b \<Longrightarrow> is_valid_utf8 (a @ b)"
  by (metis is_valid_utf8_concat concat_append list_all_append)

text \<open>
  What is relied on of \<open>string_find_partial_stop\<close>: it finds a place from where the end of the text is a
  beginning of the word, if there is one.
\<close>

definition partial_stop_ok :: "gen_env \<Rightarrow> bool" where
  "partial_stop_ok E \<longleftrightarrow> (\<forall>str w i. ge_partial_stop E str w = None \<longrightarrow> i < length str \<longrightarrow>
     length str - i \<le> length w \<longrightarrow> drop i str \<noteq> take (length str - i) w)"

definition clean :: "string list \<Rightarrow> string \<Rightarrow> bool" where
  "clean ws g \<longleftrightarrow> (\<forall>w \<in> set ws. w \<noteq> [] \<longrightarrow> (\<forall>i. \<not> occurs_at w g i))"

text \<open>No stop word starts in the part already sent and may still be completed.\<close>

definition none_open :: "string list \<Rightarrow> string \<Rightarrow> nat \<Rightarrow> bool" where
  "none_open ws g n \<longleftrightarrow> (\<forall>w \<in> set ws. \<forall>i < n. n - i < length w \<longrightarrow> drop i (take n g) \<noteq> take (n - i) w)"

lemma occurs_at_bound: "occurs_at w g i \<Longrightarrow> w \<noteq> [] \<Longrightarrow> i + length w \<le> length g"
  by (auto simp: occurs_at_def) (metis add.commute le_diff_conv2 length_drop length_take linorder_le_less_linear min.absorb_iff2
      min_def nat_less_le order.order_iff_strict take_all_iff take_eq_Nil drop_all)

lemma occurs_at_append: "occurs_at w (g @ h) i \<Longrightarrow> i + length w \<le> length g \<Longrightarrow> occurs_at w g i"
  by (simp add: occurs_at_def)

lemma occurs_at_take: "occurs_at w (take m g) i \<Longrightarrow> w \<noteq> [] \<Longrightarrow> occurs_at w g i"
  using occurs_at_bound [of w "take m g" i] by (auto simp: occurs_at_def take_drop min_def split: if_splits)

lemma occ_found:
  assumes "clean ws g" "none_open ws g n" "n \<le> length g" "w \<in> set ws" "w \<noteq> []" "occurs_at w (g @ h) i"
  shows "n \<le> i \<and> (\<exists>p \<le> i - n. stop_pos_of E (drop n (g @ h)) (length h) True w = Some p)"
proof -
  have b: "i + length w \<le> length (g @ h)" using occurs_at_bound assms by blast
  have late: "length g < i + length w"
    using occurs_at_append [OF assms(6)] assms unfolding clean_def by (meson not_less)
  have "n \<le> i"
  proof (rule ccontr)
    assume i: "\<not> n \<le> i"
    have "drop i (take n g) = take (n - i) (take (length w) (drop i (g @ h)))"
      using i late assms(3) by (simp add: drop_take min_def)
    also have "\<dots> = take (n - i) w" using assms(6) by (simp add: occurs_at_def)
    finally have "drop i (take n g) = take (n - i) w" .
    moreover have "i < n" "n - i < length w" using i late assms(3) by linarith+
    ultimately show False using assms(2,4) unfolding none_open_def by blast
  qed
  moreover have "occurs_at w (drop n (g @ h)) (i - n)"
    using assms(6) \<open>n \<le> i\<close> by (simp add: occurs_at_def del: drop_append)
  moreover have "length (drop n (g @ h)) - (length w + length h) \<le> i - n" "i - n \<le> length (drop n (g @ h))"
    using late b assms(3) by auto
  ultimately show ?thesis
    using str_find_least by (auto simp: stop_pos_of_def)
qed

lemma token_clean:
  assumes p: "process_token E now res s = Inr (go, res', s', ms)" and t: "task s = Some t" "n_indent (params t) \<le> 0"
    and n: "n_sent_text s \<le> length (generated_text s)" and E: "partial_stop_ok E"
    and v: "is_valid_utf8 (generated_text s)" "is_valid_utf8 (to_text res)"
    and c: "clean ws (generated_text s)" "none_open ws (generated_text s) (n_sent_text s)" "ws = antiprompt (params t)"
  shows "clean ws (generated_text s')"
    "go \<Longrightarrow> is_valid_utf8 (generated_text s') \<and> none_open ws (generated_text s') (n_sent_text s')"
proof -
  define s0 where "s0 = take_token t res s"
  let ?n = "n_sent_text s" and ?g = "generated_text s @ to_text res"
  have s0: "task s0 = Some t" "n_sent_text s0 = ?n" "generated_text s0 = ?g" "has_next_token s0"
    "n_sent_text s0 \<le> length (generated_text s0)"
    using t n by (simp_all add: s0_def)
  have valid: "is_valid_utf8 ?g" using v by (rule is_valid_utf8_append)
  then have inc: "\<not> validate_utf8 (generated_text s0) < length (generated_text s0)"
    using validate_utf8_valid s0(3) by simp
  obtain s2 where send: "send_token_text E now (to_text res) res s0 = Inr (res', s2, ms)"
    and s': "s' = finish_token E t False res' s2" "go = has_next_token s'"
    using p inc unfolding process_token_parts [OF t(1)] s0_def [symmetric] Let_def by (auto simp: rbind_Inr_iff)
  note fin = finish_token_simps [OF t(2), of E False res' s2, folded s'(1)]
    finish_token_stops [OF t(2), of E False res' s2, folded s'(1)]
  note cases = send_token_text_cases [OF send s0(1) s0(5), folded c(3), unfolded s0(2,3)]
  have occ: "w \<in> set ws \<Longrightarrow> w \<noteq> [] \<Longrightarrow> occurs_at w ?g i \<Longrightarrow>
      ?n \<le> i \<and> (\<exists>p \<le> i - ?n. stop_pos_of E (drop ?n ?g) (length (to_text res)) True w = Some p)" for w i
    using occ_found [OF c(1,2) n] by blast
  have "clean ws (generated_text s2)
    \<and> (has_next_token s2 \<and> \<not> ge_is_eog E (to_tok res) \<longrightarrow> is_valid_utf8 (generated_text s2) \<and> none_open ws (generated_text s2) (n_sent_text s2))"
    using cases(2)
  proof (elim disjE exE conjE)
    fix k assume k: "\<forall>w \<in> set ws. \<forall>p. stop_pos_of E (drop ?n ?g) (length (to_text res)) True w = Some p \<longrightarrow> k \<le> p"
      "generated_text s2 = take (?n + k) ?g" "\<not> has_next_token s2"
    have "\<not> occurs_at w (take (?n + k) ?g) i" if w: "w \<in> set ws" "w \<noteq> []" for w i
    proof
      assume o: "occurs_at w (take (?n + k) ?g) i"
      then have "?n + k \<le> i" using occ [OF w] occurs_at_take w(2) k(1) w(1)
        by (metis le_diff_conv2 le_trans add.commute)
      moreover have "i + length w \<le> ?n + k" using occurs_at_bound [OF o w(2)] by simp
      ultimately show False using w(2) by (cases w) auto
    qed
    then show ?thesis using k by (simp add: clean_def)
  next
    assume k: "\<forall>w \<in> set ws. stop_pos_of E (drop ?n ?g) (length (to_text res)) True w = None"
      "generated_text s2 = ?g" "has_next_token s2 = has_next_token s0"
      "if has_next_token s0 \<and> \<not> ge_is_eog E (to_tok res) \<and> held_back E ws (drop ?n ?g)
       then n_sent_text s2 = ?n else n_sent_text s2 = length ?g"
    have cl: "clean ws ?g" using occ k(1) unfolding clean_def by fastforce
    have "none_open ws ?g (n_sent_text s2)" if "\<not> ge_is_eog E (to_tok res)"
    proof (cases "held_back E ws (drop ?n ?g)")
      case True
      then show ?thesis using k(4) s0 that c(2) n by (simp add: none_open_def)
    next
      case False
      then have m: "n_sent_text s2 = length ?g" using k(4) by simp
      have "drop i ?g \<noteq> take (length ?g - i) w" if w: "w \<in> set ws" "i < length ?g" "length ?g - i < length w" for w i
      proof (cases "?n \<le> i")
        case True
        have "ge_partial_stop E (drop ?n ?g) w = None" using False w(1) by (auto simp: held_back_def)
        then have "drop (i - ?n) (drop ?n ?g) \<noteq> take (length (drop ?n ?g) - (i - ?n)) w"
          using E w(2,3) True n unfolding partial_stop_ok_def by (metis (no_types, lifting) diff_less_mono length_drop
              less_imp_le diff_diff_left le_add_diff_inverse)
        then show ?thesis using True n by simp
      next
        case False
        then have "drop i (take ?n (generated_text s)) \<noteq> take (?n - i) w"
          using c(2) w n unfolding none_open_def by auto
        moreover have "drop i (take ?n (generated_text s)) = take (?n - i) (drop i ?g)"
          using n False by (simp add: drop_take)
        moreover have "take (?n - i) (take (length ?g - i) w) = take (?n - i) w"
          using n by (simp only: take_take) (simp add: min_def)
        ultimately show ?thesis by metis
      qed
      then show ?thesis unfolding none_open_def m by simp
    qed
    then show ?thesis using k cl valid by simp
  qed
  then show "clean ws (generated_text s')" "go \<Longrightarrow> is_valid_utf8 (generated_text s') \<and> none_open ws (generated_text s') (n_sent_text s')"
    using fin s' cases(1) by auto
qed

lemma gen_run_clean:
  assumes "gen_run E xs s = Inr (go, s', ms)" "task s = Some t" "n_indent (params t) \<le> 0" "partial_stop_ok E"
    "n_sent_text s \<le> length (generated_text s)" "is_valid_utf8 (generated_text s)"
    "\<forall>x \<in> set xs. is_valid_utf8 (to_text (gs_token x))"
    "clean (antiprompt (params t)) (generated_text s)" "none_open (antiprompt (params t)) (generated_text s) (n_sent_text s)"
  shows "clean (antiprompt (params t)) (generated_text s')"
  using assms
proof (induction xs arbitrary: s ms)
  case (Cons x xs)
  let ?s = "s\<lparr>stats := gs_stats x, prompt := gs_prompt x\<rparr>"
  obtain go1 res1 s1 ms1 where p: "process_token E (gs_now x) (gs_token x) ?s = Inr (go1, res1, s1, ms1)"
    using Cons.prems(1) by (auto simp: rbind_Inr_iff)
  have "task ?s = Some t" "n_sent_text ?s \<le> length (generated_text ?s)" "is_valid_utf8 (generated_text ?s)"
    "is_valid_utf8 (to_text (gs_token x))" "clean (antiprompt (params t)) (generated_text ?s)"
    "none_open (antiprompt (params t)) (generated_text ?s) (n_sent_text ?s)"
    using Cons.prems by simp_all
  note c = token_clean [OF p this(1) Cons.prems(3) this(2) Cons.prems(4) this(3-6) refl]
    token_step [OF p this(1) Cons.prems(3) this(2)]
  show ?case
  proof (cases go1)
    case True
    then obtain ms2 where "gen_run E xs s1 = Inr (go, s', ms2)"
      using Cons.prems(1) p by (auto simp: rbind_Inr_iff)
    then show ?thesis using c True Cons.prems by (intro Cons.IH [of s1 ms2]) auto
  next
    case False
    then show ?thesis using c Cons.prems(1) p by auto
  qed
qed simp

text \<open>
  Property C35. No stop word ever reaches the client: when every token is whole UTF-8 text, the text generated
  for a request contains none of its stop words, wherever the words end within the tokens and however they
  overlap, after the last token too (which cuts the text in front of the word it completes).  The limit of
  indentation \<open>n_indent\<close>, which cuts the text elsewhere, is off.
\<close>

theorem stop_words_never_generated:
  assumes "gen_run E xs s = Inr (go, s', ms)" "task s = Some t" "n_indent (params t) \<le> 0" "partial_stop_ok E"
    "generated_text s = []" "n_sent_text s = 0" "\<forall>x \<in> set xs. is_valid_utf8 (to_text (gs_token x))"
  shows "clean (antiprompt (params t)) (generated_text s')"
proof -
  have "is_valid_utf8 []" by simp
  moreover have "clean ws []" "none_open ws [] 0" for ws
    by (auto simp: clean_def none_open_def occurs_at_def)
  ultimately show ?thesis
    using gen_run_clean [OF assms(1-4)] assms(5-7) by simp
qed

section \<open>Samples\<close>

definition slot_new :: "int \<Rightarrow> int \<Rightarrow> bool \<Rightarrow> bool \<Rightarrow> bool \<Rightarrow> 'c slot" where
  "slot_new i n_ctx dft spec mm =
     \<lparr>sl_id = i, has_dft = dft, has_spec = spec, spec_draft = [], spec_i_batch = [], spec_ckpt = None,
      spec_is_replay = False, spec_rng = (5489, 0), task = None, task_prev = None, t_last_used = -1, sl_n_ctx = n_ctx,
      i_batch = -1, n_predict_max = -1, last_nl_pos = 0, generated_text = [], debug_generated_text = [],
      generated_tokens = [], n_sent_text = 0, generated_token_probs = [], has_next_token = True, has_new_line = False,
      truncated = False, sl_stop = STOP_NONE, stopping_word = [], state = SLOT_IDLE,
      prompt = \<lparr>pr_tokens = st_of_tokens [] mm, pr_checkpoints = []\<rparr>, lora = [], alora_invocation_start = -1,
      json_schema = JNull, smpl = None, sampled = 0, inp_embd = [], stats = stats_zero, n_accepted_per_pos = [],
      mbatch = None\<rparr>"

definition suffix_stop :: "string \<Rightarrow> string \<Rightarrow> nat option" where
  "suffix_stop str w = find (\<lambda>i. length str - i \<le> length w \<and> drop i str = take (length str - i) w) [0..<length str]"

definition sample_env :: gen_env where
  "sample_env = \<lparr>ge_is_eog = (\<lambda>t. t = 2), ge_partial_stop = suffix_stop, ge_detokenize = (\<lambda>_. []),
     ge_tokenize = (\<lambda>_. []), ge_ctx_shift = True, ge_slots_debug = False\<rparr>"

lemma partial_stop_ok_sample: "partial_stop_ok sample_env"
  by (auto simp: partial_stop_ok_def sample_env_def suffix_stop_def find_None_iff)

definition sample_gen_task :: "unit server_task" where
  "sample_gen_task = \<lparr>task_id = 7, task_index = 0, id_target = -1, id_slot = -1, id_parent = -1,
     params = sample_params\<lparr>stream := True, antiprompt := [''xy'']\<rparr>, tokens = st_empty, cli = False, cli_prompt = [],
     cli_files = [], type_of_task = TASK_COMPLETION,
     slot_action_of = \<lparr>sa_id_slot = 0, sa_filename = [], sa_filepath = []\<rparr>, metrics_reset_bucket = False, set_lora = [],
     child_tasks = []\<rparr>"

definition sample_slot :: "unit slot" where
  "sample_slot = (slot_new 0 64 False False False)\<lparr>task := Some sample_gen_task, state := SLOT_GENERATING\<rparr>"

definition sample_step :: "nat \<Rightarrow> llama_token \<Rightarrow> string \<Rightarrow> unit gen_step" where
  "sample_step n tok str = \<lparr>gs_now = 0, gs_stats = stats_zero\<lparr>n_gen := n\<rparr>,
     gs_prompt = \<lparr>pr_tokens = st_of_tokens [] False, pr_checkpoints = []\<rparr>,
     gs_token = \<lparr>to_tok = tok, to_prob = 1, to_text = str, to_probs = []\<rparr>\<rparr>"

definition sample_steps :: "unit gen_step list" where
  "sample_steps = [sample_step 1 5 ''ax'', sample_step 2 6 ''yb'']"

definition outcome :: "(bool \<times> 'c slot \<times> result_body result_msg list) result \<Rightarrow> (string \<times> string \<times> stop_type) option" where
  "outcome r = (case r of Inr (_, s, ms) \<Rightarrow> Some (streamed ms, generated_text s, sl_stop s) | Inl _ \<Rightarrow> None)"

lemma sample_run: "outcome (gen_run sample_env sample_steps sample_slot) = Some (''a'', ''a'', STOP_WORD)"
  by code_simp

lemma sample_run_result:
  obtains go s' ms where "gen_run sample_env sample_steps sample_slot = Inr (go, s', ms)"
    "streamed ms = ''a''" "generated_text s' = ''a''" "sl_stop s' = STOP_WORD"
  using sample_run by (auto simp: outcome_def split: sum.splits prod.splits)

theorem streamed_text_is_generated_witness:
  "\<exists>s' ms. gen_run sample_env sample_steps sample_slot = Inr (False, s', ms)
     \<and> streamed ms = take (n_sent_text s') (generated_text s') \<and> streamed ms = ''a''"
proof -
  obtain go s' ms where r: "gen_run sample_env sample_steps sample_slot = Inr (go, s', ms)" "streamed ms = ''a''"
    using sample_run_result by metis
  have "\<not> go"
  proof -
    have "(case gen_run sample_env sample_steps sample_slot of Inr (go, _, _) \<Rightarrow> \<not> go | Inl _ \<Rightarrow> False)" by code_simp
    then show ?thesis using r by simp
  qed
  then show ?thesis
    using streamed_text_is_generated [OF r(1), of sample_gen_task] r
    by (simp add: sample_slot_def sample_gen_task_def slot_new_def sample_params_def)
qed

theorem stop_words_never_generated_witness:
  "\<exists>s'. (\<exists>go ms. gen_run sample_env sample_steps sample_slot = Inr (go, s', ms)) \<and> clean [''xy''] (generated_text s')"
proof -
  obtain go s' ms where r: "gen_run sample_env sample_steps sample_slot = Inr (go, s', ms)"
    using sample_run_result by metis
  have "is_valid_utf8 ''ax''" "is_valid_utf8 ''yb''" by code_simp+
  then have "clean (antiprompt (params sample_gen_task)) (generated_text s')"
    by (intro stop_words_never_generated [OF r])
      (simp_all add: sample_slot_def slot_new_def sample_gen_task_def sample_params_def partial_stop_ok_sample
        sample_steps_def sample_step_def)
  then show ?thesis using r by (auto simp: sample_gen_task_def)
qed

text \<open>
  A limit is different: the text held back because it may begin a stop word is not sent when the token limit
  ends the generation there.  The same request without streaming returns it.
\<close>

theorem held_text_lost_at_limit:
  "outcome (gen_run sample_env [sample_step 1 5 ''ax''] (sample_slot\<lparr>n_predict_max := 1\<rparr>)) = Some ([], ''ax'', STOP_LIMIT)"
  by code_simp

text \<open>
  A stop word that is completed by a token which ends inside a character is not seen when the character is
  completed: the search looks back only over the last token.
\<close>

theorem stop_word_missed_after_cut_token:
  "outcome (gen_run sample_env [sample_step 1 5 (''xyzzz'' @ [CHR 0xC3]), sample_step 2 6 [CHR 0xA9]] sample_slot)
     = Some (''xyzzz'' @ [CHR 0xC3, CHR 0xA9], ''xyzzz'' @ [CHR 0xC3, CHR 0xA9], STOP_NONE)"
  by code_simp

end
