(* ===== verification/Context.thy ===== *)
theory Context
  imports Slots Cache Queue
begin

text \<open>
  \<open>server_context_impl\<close> (\<open>server-context.cpp\<close>): the slots, the choice of a slot for a task, the launch of
  tasks on slots, checkpoints, and \<open>process_single_task\<close>, the callback the task queue runs for every
  task.  A slot is named by its index; calls that change the library's memory are appended to \<open>dev\<close>.
\<close>

section \<open>Data\<close>

record server_params =
  kv_unified :: bool
  cache_idle_slots :: bool
  lora_adapters :: "adapter list"
  g_n_predict :: int
  slot_prompt_similarity :: rat
  n_ctx_checkpoints :: nat
  checkpoint_min_step :: int
  cont_batching :: bool
  special_tokens :: bool

record 'c server_context =
  slots :: "'c slot list"
  prompt_cache_of :: "'c prompt_cache option"
  params_base :: server_params
  n_empty_consecutive :: nat
  metrics :: server_metrics
  tasks_queue :: "'c server_queue"
  results_queue :: "result_body server_response"
  dev :: "device_op list"
  batch :: server_batch
  n_prompt_queued :: nat
  t_decode_start :: int
  t_prompt_start :: int

text \<open>
  The library: chunks, floats, invocation tokens of adapters, the size of the vocabulary, the state of a
  sequence (a function of the log), restoring it (bytes read), sampler construction (an error text),
  saving and loading a sequence file, tokenizing the command line's input, the size of a checkpoint.
\<close>

record 'c ctx_env =
  ce_mtmd :: "'c mtmd"
  ce_has_mtmd :: bool
  ce_gen :: gen_env
  ce_floats :: float_ops
  ce_alora :: "nat \<Rightarrow> llama_token list"
  ce_n_vocab :: int
  ce_state_tgt :: "device_op list \<Rightarrow> int \<Rightarrow> byte list"
  ce_state_dft :: "device_op list \<Rightarrow> int \<Rightarrow> byte list"
  ce_can_alloc :: "nat \<Rightarrow> bool"
  ce_set_tgt :: "int \<Rightarrow> byte list \<Rightarrow> nat"
  ce_set_dft :: "int \<Rightarrow> byte list \<Rightarrow> nat"
  ce_sampler_error :: "sampling_params \<Rightarrow> string option"
  ce_synth :: bool
  ce_random_seed :: "32 word"
  ce_tokenize_cli :: "'c server_task \<Rightarrow> string + 'c server_tokens"
  ce_save_file :: "string \<Rightarrow> int \<Rightarrow> llama_token list \<Rightarrow> nat"
  ce_load_probe :: "string \<Rightarrow> int \<Rightarrow> nat \<times> nat"
  ce_load_file :: "string \<Rightarrow> int \<Rightarrow> nat \<Rightarrow> nat \<times> llama_token list \<times> nat"
  ce_lora_info :: "nat \<Rightarrow> (string \<times> json) list"
  ce_piece :: "llama_token \<Rightarrow> string"
  ce_ckpt_size :: "device_op list \<Rightarrow> int \<Rightarrow> nat"

definition set_slot :: "nat \<Rightarrow> 'c slot \<Rightarrow> 'c server_context \<Rightarrow> 'c server_context" where
  "set_slot i s C = C\<lparr>slots := (slots C)[i := s]\<rparr>"

definition send_to :: "result_body result_msg \<Rightarrow> 'c server_context \<Rightarrow> 'c server_context" where
  "send_to m C = C\<lparr>results_queue := send m (results_queue C)\<rparr>"

definition log_ops :: "device_op list \<Rightarrow> 'c server_context \<Rightarrow> 'c server_context" where
  "log_ops ops C = C\<lparr>dev := dev C @ ops\<rparr>"

definition defer_to :: "int \<Rightarrow> 'c server_task \<Rightarrow> 'c server_context \<Rightarrow> 'c server_context" where
  "defer_to now t C = C\<lparr>tasks_queue := defer_task now t (tasks_queue C)\<rparr>"

text \<open>\<open>send_error(task, ...)\<close>, which carries no token counts.\<close>

definition send_error :: "'c server_task \<Rightarrow> string \<Rightarrow> error_type \<Rightarrow> 'c server_context \<Rightarrow> 'c server_context result" where
  "send_error t err ty C = rbind (error_msg (task_id t) err ty 0 0) (\<lambda>m. Inr (send_to m C))"

section \<open>Metrics and release\<close>

definition zip_add :: "nat list \<Rightarrow> nat list \<Rightarrow> nat list" where
  "zip_add dst src =
     map (\<lambda>i. (if i < length dst then dst ! i else 0) + (if i < length src then src ! i else 0))
       [0..<max (length dst) (length src)]"

definition metrics_on_prediction :: "'c slot \<Rightarrow> server_metrics \<Rightarrow> server_metrics" where
  "metrics_on_prediction s m =
     (let t_us = nat (t_gen_us (stats s)); n = n_gen (stats s); n_steps = n_gen_steps (stats s)
      in m\<lparr>m_predict := bucket_add n n_steps t_us (m_predict m),
           predict_bucket := bucket_add n n_steps t_us (predict_bucket m),
           m_n_draft_tokens := m_n_draft_tokens m + n_draft_tokens (stats s),
           m_n_draft_accepted := m_n_draft_accepted m + n_draft_accepted (stats s),
           m_n_draft_verif_steps := m_n_draft_verif_steps m + n_draft_verif_steps (stats s),
           m_n_accepted_per_pos := zip_add (m_n_accepted_per_pos m) (n_accepted_per_pos s)\<rparr>)"

text \<open>\<open>release\<close> with the two callbacks the context installs.\<close>

definition release :: "int \<Rightarrow> nat \<Rightarrow> 'c server_context \<Rightarrow> 'c server_context result" where
  "release now i C =
     (let s = slots C ! i
      in if \<not> is_processing s then Inr C
         else case task s of
                None \<Rightarrow> Inl Abort
              | Some t \<Rightarrow>
                  let s = s\<lparr>t_last_used := now, state := SLOT_IDLE\<rparr>;
                      (s, ops) = (if is_child t then slot_prompt_clear s else (s, []));
                      m = (if n_gen (stats s) > 0 then metrics_on_prediction s (metrics C) else metrics C);
                      (s, ops') = slot_reset s
                  in Inr (log_ops (ops @ ops') (set_slot i s C)
                       \<lparr>metrics := m, tasks_queue := pop_deferred_task now (sl_id s) (tasks_queue C)\<rparr>))"

section \<open>Prompt cache of a slot\<close>

definition prompt_save :: "'c ctx_env \<Rightarrow> device_op list \<Rightarrow> 'c slot \<Rightarrow> 'c prompt_cache \<Rightarrow> (bool \<times> 'c prompt_cache) result" where
  "prompt_save E lg s c =
     (if st_size (pr_tokens (prompt s)) = 0 then Inr (False, c)
      else
        let main = ce_state_tgt E lg (sl_id s);
            drft = (if has_dft s then ce_state_dft E lg (sl_id s) else [])
        in rbind (cache_alloc (ce_floats E) (ce_mtmd E) (ce_can_alloc E (length main + length drft)) (prompt s)
                    (length main) (length drft) c) (\<lambda>(ok, c).
           if \<not> ok then Inr (False, c)
           else Inr (True, c\<lparr>states := butlast (states c)
                  @ [(last (states c))\<lparr>cs_data := \<lparr>pd_main = main, pd_drft = drft\<rparr>\<rparr>]\<rparr>)))"

text \<open>The memory is written when an entry is tried, which leaves the cache when it is taken.\<close>

definition prompt_load ::
  "'c ctx_env \<Rightarrow> 'c server_tokens \<Rightarrow> 'c slot \<Rightarrow> 'c prompt_cache \<Rightarrow> (bool \<times> 'c slot \<times> 'c prompt_cache \<times> device_op list) result" where
  "prompt_load E new s c =
     rbind (cache_load (ce_floats E) (ce_mtmd E) (ce_set_tgt E (sl_id s))
              (if has_dft s then Some (ce_set_dft E (sl_id s)) else None) (prompt s) new c) (\<lambda>(ok, p, c').
       Inr (ok, s\<lparr>prompt := p\<rparr>, c',
         if ok \<and> length (states c') = length (states c) then [] else [State_restore (sl_id s)]))"

section \<open>Choosing a slot\<close>

text \<open>\<open>id_slot % slots.size()\<close>: the conversion to \<open>size_t\<close> makes a negative number large.\<close>

definition get_slot_by_id :: "int \<Rightarrow> 'c server_context \<Rightarrow> nat option result" where
  "get_slot_by_id ids C =
     (if slots C = [] then Inl Abort
      else let k = (ids mod 2 ^ 64) mod int (length (slots C))
           in Inr (find (\<lambda>i. sl_id (slots C ! i) = k) [0..<length (slots C)]))"

definition get_slot_by_cmpl_id :: "string \<Rightarrow> 'c server_context \<Rightarrow> nat option" where
  "get_slot_by_cmpl_id cmpl_id C =
     (if cmpl_id = [] then None
      else find (\<lambda>i. is_processing (slots C ! i)
             \<and> (case task (slots C ! i) of None \<Rightarrow> False | Some t \<Rightarrow> oaicompat_cmpl_id (params t) = cmpl_id))
             [0..<length (slots C)])"

text \<open>The search by similarity: the slot chosen so far and its similarity.\<close>

fun similar_slot ::
  "'c ctx_env \<Rightarrow> rat \<Rightarrow> 'c server_task \<Rightarrow> nat \<Rightarrow> 'c slot list \<Rightarrow> nat option \<Rightarrow> rat \<Rightarrow> (nat option \<times> rat) result" where
  "similar_slot E thold t i [] ret sim_best = Inr (ret, sim_best)"
| "similar_slot E thold t i (s # ss) ret sim_best =
     (if (id_slot t \<noteq> -1 \<and> sl_id s \<noteq> id_slot t) \<or> is_processing s \<or> toks (pr_tokens (prompt s)) = []
      then similar_slot E thold t (Suc i) ss ret sim_best
      else rbind (get_common_prefix (ce_mtmd E) (pr_tokens (prompt s)) (tokens t)) (\<lambda>lcp.
        let sim_cur = fdiv (ce_floats E) lcp (st_size (tokens t))
        in if fless (Some sim_best) sim_cur \<and> fless (Some thold) sim_cur
           then similar_slot E thold t (Suc i) ss (Some i) (the sim_cur)
           else similar_slot E thold t (Suc i) ss ret sim_best))"

text \<open>\<open>f_keep < 0.5f\<close>; with an empty prompt \<open>f_keep\<close> is not a number.\<close>

definition loses_context :: "float_ops \<Rightarrow> rat \<Rightarrow> nat \<Rightarrow> nat \<Rightarrow> bool" where
  "loses_context F sim_best n_task n_prompt =
     (n_prompt \<noteq> 0 \<and> f32 F (f32 F (sim_best * f32 F (of_nat n_task)) / f32 F (of_nat n_prompt)) < 1 / 2)"

fun lru_slot :: "nat \<Rightarrow> 'c slot list \<Rightarrow> nat option \<Rightarrow> int \<Rightarrow> nat option" where
  "lru_slot i [] ret t_last = ret"
| "lru_slot i (s # ss) ret t_last =
     (if is_processing s then lru_slot (Suc i) ss ret t_last
      else if ret = None \<or> t_last_used s \<le> t_last then lru_slot (Suc i) ss (Some i) (t_last_used s)
      else lru_slot (Suc i) ss ret t_last)"

definition update_prompt_cache :: "'c ctx_env \<Rightarrow> nat \<Rightarrow> 'c server_task \<Rightarrow> 'c prompt_cache \<Rightarrow> 'c server_context \<Rightarrow> 'c server_context result" where
  "update_prompt_cache E i t c C =
     rbind (prompt_save E (dev C) (slots C ! i) c) (\<lambda>(_, c).
     rbind (prompt_load E (tokens t) (slots C ! i) c) (\<lambda>(ok, s, c, ops).
       let (s, ops') = (if \<not> ok then slot_prompt_clear s else (s, []))
       in Inr (log_ops (ops @ ops') (set_slot i s C)
            \<lparr>prompt_cache_of := Some (cache_update (ce_floats E) c)\<rparr>)))"

definition get_available_slot :: "'c ctx_env \<Rightarrow> 'c server_task \<Rightarrow> 'c server_context \<Rightarrow> (nat option \<times> 'c server_context) result" where
  "get_available_slot E t C =
     (let thold = slot_prompt_similarity (params_base C)
      in rbind (if id_slot t \<noteq> -1 then get_slot_by_id (id_slot t) C else Inr None) (\<lambda>ret.
         rbind
           (if thold \<noteq> 0 then
              rbind (similar_slot E thold t 0 (slots C) ret 0) (\<lambda>(ret, sim_best).
                Inr (ret, (case ret of
                   None \<Rightarrow> False
                 | Some i \<Rightarrow> loses_context (ce_floats E) sim_best (st_size (tokens t)) (st_size (pr_tokens (prompt (slots C ! i)))))))
            else Inr (ret, False)) (\<lambda>(ret, upd).
         let (ret, upd) = (if ret = None then (let r = lru_slot 0 (slots C) None (- 1) in (r, r \<noteq> None)) else (ret, upd))
         in case (ret, prompt_cache_of C) of
              (Some i, Some c) \<Rightarrow>
                (if upd \<and> type_of_task t = TASK_COMPLETION
                 then rbind (update_prompt_cache E i t c C) (\<lambda>C. Inr (ret, C)) else Inr (ret, C))
            | _ \<Rightarrow> Inr (ret, C))))"

text \<open>\<open>try_clear_idle_slots\<close>: the first idle slot with a prompt is cleared.\<close>

definition try_clear_idle_slots :: "'c server_context \<Rightarrow> bool \<times> 'c server_context" where
  "try_clear_idle_slots C =
     (if \<not> kv_unified (params_base C) then (False, C)
      else case find (\<lambda>i. \<not> is_processing (slots C ! i) \<and> prompt_n_tokens (prompt (slots C ! i)) > 0) [0..<length (slots C)] of
             None \<Rightarrow> (False, C)
           | Some i \<Rightarrow> let (s, ops) = slot_prompt_clear (slots C ! i) in (True, log_ops ops (set_slot i s C)))"

fun get_free_slots :: "nat \<Rightarrow> 'c slot list \<Rightarrow> nat \<Rightarrow> int \<Rightarrow> nat list \<Rightarrow> nat list" where
  "get_free_slots i [] needed excl free = free"
| "get_free_slots i (s # ss) needed excl free =
     (let free = (if \<not> is_processing s \<and> sl_id s \<noteq> excl then free @ [i] else free)
      in if length free \<ge> needed then free else get_free_slots (Suc i) ss needed excl free)"

section \<open>Launching a task\<close>

text \<open>
  The adapters of the slot for the task; \<open>None\<close> is the error for more than one activated adapter, and
  \<open>prompt.clear()\<close> leaves the memory of the sequence as it is.
\<close>

definition slot_lora :: "'c ctx_env \<Rightarrow> 'c server_task \<Rightarrow> server_params \<Rightarrow> 'c slot \<Rightarrow> 'c slot result" where
  "slot_lora E t P s =
     (if p_lora (params t) \<noteq> [] then
        let task_loras = construct_lora_list (lora_adapters P) (p_lora (params t))
        in if are_lora_equal task_loras (lora s) then Inr s
           else rbind (lora_should_clear_cache (ce_alora E) (lora s) task_loras) (\<lambda>clear.
             let s = (if clear then s\<lparr>prompt := prompt_clear (prompt s)\<rparr> else s)
             in Inr (s\<lparr>lora := task_loras\<rparr>))
      else Inr (s\<lparr>lora := lora_adapters P\<rparr>))"

definition slot_alora :: "'c ctx_env \<Rightarrow> 'c server_task \<Rightarrow> 'c slot \<Rightarrow> 'c slot option" where
  "slot_alora E t s =
     (if \<not> lora_all_alora (ce_alora E) (lora s) then Some s
      else case lora_get_enabled_ids (lora s) of
             [k] \<Rightarrow>
               (case alora_invocation (toks (tokens t)) (ce_alora E (lo_ptr (lora s ! k))) of
                  None \<Rightarrow> Some (s\<lparr>lora := (lora s)[k := (lora s ! k)\<lparr>lo_scale := 0\<rparr>]\<rparr>)
                | Some i \<Rightarrow> Some (s\<lparr>alora_invocation_start := int i\<rparr>))
           | _ \<Rightarrow> None)"

definition slot_sampler :: "'c ctx_env \<Rightarrow> 'c server_task \<Rightarrow> 'c slot \<Rightarrow> string + ('c slot \<times> device_op list)" where
  "slot_sampler E t s =
     (if \<not> need_sampling t then Inr (s\<lparr>smpl := None\<rparr>, [])
      else case ce_sampler_error E (sampling (params t)) of
             Some e \<Rightarrow> Inl e
           | None \<Rightarrow>
               let s = s\<lparr>smpl := Some \<lparr>sm_params = sampling (params t), sm_log = []\<rparr>\<rparr>;
                   need_pre = sp_n_probs (sampling (params t)) > 0 \<and> \<not> post_sampling_probs (params t);
                   s = (if has_spec s \<and> ce_synth E then
                          s\<lparr>spec_rng := (if sp_seed (sampling (params t)) = LLAMA_DEFAULT_SEED
                             then ce_random_seed E else sp_seed (sampling (params t)), 0)\<rparr> else s)
               in Inr (s, [Set_sampler (sl_id s) (sp_backend_sampling (sampling (params t)) \<and> \<not> need_pre)]))"

definition launch_slot_with_task :: "'c ctx_env \<Rightarrow> nat \<Rightarrow> 'c server_task \<Rightarrow> 'c server_context \<Rightarrow> (bool \<times> 'c server_context) result" where
  "launch_slot_with_task E i t C =
     rbind (slot_lora E t (params_base C) (slots C ! i)) (\<lambda>s.
     case slot_alora E t s of
       None \<Rightarrow> rbind (send_error t ''Cannot run multiple aLoRAs in a single request'' ERROR_INVALID_REQUEST (set_slot i s C))
                 (\<lambda>C. Inr (False, C))
     | Some s \<Rightarrow>
         if \<not> validate (ce_mtmd E) (ce_n_vocab E) (tokens t) then
           rbind (send_error t ''Prompt contains invalid tokens'' ERROR_INVALID_REQUEST (set_slot i s C)) (\<lambda>C. Inr (False, C))
         else case slot_sampler E t s of
           Inl e \<Rightarrow> rbind (send_error t (''Failed to initialize samplers: '' @ e) ERROR_INVALID_REQUEST (set_slot i s C))
                      (\<lambda>C. Inr (False, C))
         | Inr (s, ops) \<Rightarrow>
             let s = s\<lparr>n_predict_max := (if n_predict (params t) \<noteq> -1 then n_predict (params t) else g_n_predict (params_base C)),
                       task := Some t,
                       state := (if is_child t then SLOT_WAIT_OTHER else SLOT_STARTED)\<rparr>
             in Inr (True, log_ops ops (set_slot i s C)\<lparr>n_empty_consecutive := 0\<rparr>))"

text \<open>The release of every launched slot of a parent whose launch failed, in the order of the slots.\<close>

fun release_family :: "int \<Rightarrow> int \<Rightarrow> nat list \<Rightarrow> 'c server_context \<Rightarrow> 'c server_context result" where
  "release_family now parent [] C = Inr C"
| "release_family now parent (i # is) C =
     (if is_processing (slots C ! i) then
        case task (slots C ! i) of
          None \<Rightarrow> Inl Abort
        | Some t \<Rightarrow>
            rbind (if task_id t = parent \<or> id_parent t = parent then release now i C else Inr C)
              (release_family now parent is)
      else release_family now parent is C)"

fun launch_children ::
  "'c ctx_env \<Rightarrow> int \<Rightarrow> int \<Rightarrow> nat list \<Rightarrow> 'c child_task list \<Rightarrow> 'c server_context \<Rightarrow> (bool \<times> 'c server_context) result" where
  "launch_children E now parent (i # is) (c # cs) C =
     rbind (launch_slot_with_task E i (task_of_child c) C) (\<lambda>(ok, C).
       if ok then launch_children E now parent is cs C
       else rbind (release_family now parent [0..<length (slots C)] C) (\<lambda>C. Inr (False, C)))"
| "launch_children E now parent _ _ C = Inr (True, C)"

definition launch_slots_with_parent_task ::
  "'c ctx_env \<Rightarrow> int \<Rightarrow> nat \<Rightarrow> nat list \<Rightarrow> 'c server_task \<Rightarrow> 'c server_context \<Rightarrow> (bool \<times> 'c server_context) result" where
  "launch_slots_with_parent_task E now parent_slot child_slots t C =
     (if is_processing (slots C ! parent_slot) \<or> \<not> is_parent t \<or> length child_slots \<noteq> length (child_tasks t) then Inl Abort
      else rbind (launch_children E now (task_id t) child_slots (child_tasks t) C) (\<lambda>(ok, C).
        if \<not> ok then Inr (False, C)
        else rbind (launch_slot_with_task E parent_slot t C) (\<lambda>(ok, C).
          if ok then Inr (True, C)
          else rbind (release_family now (task_id t) [0..<length (slots C)] C) (\<lambda>C. Inr (False, C)))))"

section \<open>Checkpoints\<close>

text \<open>The eviction of checkpoints too close to the one kept before them; the loop ends when there is room.\<close>

fun evict_close :: "int \<Rightarrow> int \<Rightarrow> nat \<Rightarrow> int \<Rightarrow> checkpoint list \<Rightarrow> checkpoint list \<Rightarrow> checkpoint list" where
  "evict_close id_task min_step limit l kept [] = kept"
| "evict_close id_task min_step limit l kept (c # cs) =
     (if length (kept @ c # cs) + 1 \<ge> limit then
        (if ck_id_task c \<noteq> id_task \<and> l \<ge> 0 \<and> ck_n_tokens c \<le> l + min_step
         then evict_close id_task min_step limit l kept cs
         else evict_close id_task min_step limit (ck_n_tokens c) (kept @ [c]) cs)
      else kept @ c # cs)"

text \<open>Erasing the front of an empty list (a limit of 0) is undefined behaviour, shown as \<open>Abort\<close>.\<close>

fun evict_oldest :: "nat \<Rightarrow> checkpoint list \<Rightarrow> (checkpoint list) result" where
  "evict_oldest limit [] = (if limit = 0 then Inl Abort else Inr [])"
| "evict_oldest limit (c # cs) = (if length (c # cs) \<ge> limit then evict_oldest limit cs else Inr (c # cs))"

definition create_checkpoint ::
  "'c ctx_env \<Rightarrow> nat \<Rightarrow> int \<Rightarrow> int \<Rightarrow> int \<Rightarrow> 'c server_context \<Rightarrow> 'c server_context result" where
  "create_checkpoint E i n_tokens_cur pos_min pos_max C =
     (let s = slots C ! i; P = params_base C
      in case task s of
           None \<Rightarrow> Inl Abort
         | Some t \<Rightarrow>
             rbind (evict_oldest (n_ctx_checkpoints P)
                     (evict_close (task_id t) (checkpoint_min_step P) (n_ctx_checkpoints P) (-1) [] (pr_checkpoints (prompt s)))) (\<lambda>cs.
             let n_new = int (prompt_n_tokens (prompt s)) - n_tokens_cur;
                 cs = filter (\<lambda>c. ck_n_tokens c \<noteq> n_new) cs;
                 c = \<lparr>ck_n_tokens = n_new, ck_pos_min = pos_min, ck_pos_max = pos_max, ck_id_task = task_id t,
                      ck_size = ce_ckpt_size E (dev C) (sl_id s)\<rparr>
             in Inr (set_slot i (s\<lparr>prompt := (prompt s)\<lparr>pr_checkpoints := cs @ [c]\<rparr>\<rparr>) C)))"

section \<open>Tasks\<close>

text \<open>The tasks that need a slot: \<open>now\<close> is the clock.\<close>

definition offload_idle :: "'c ctx_env \<Rightarrow> nat \<Rightarrow> 'c server_context \<Rightarrow> 'c server_context result" where
  "offload_idle E i C =
     (if is_processing (slots C ! i) then Inr C
      else case prompt_cache_of C of
             None \<Rightarrow> Inl Abort
           | Some c \<Rightarrow>
               rbind (prompt_save E (dev C) (slots C ! i) c) (\<lambda>(ok, c).
                 let C = C\<lparr>prompt_cache_of := Some (if ok then cache_update (ce_floats E) c else c)\<rparr>
                 in if kv_unified (params_base C) then
                      let (s, ops) = slot_prompt_clear (slots C ! i) in Inr (log_ops ops (set_slot i s C))
                    else Inr C))"

fun offload_all :: "'c ctx_env \<Rightarrow> nat list \<Rightarrow> 'c server_context \<Rightarrow> 'c server_context result" where
  "offload_all E [] C = Inr C"
| "offload_all E (i # is) C = rbind (offload_idle E i C) (offload_all E is)"

definition process_slot_task :: "'c ctx_env \<Rightarrow> int \<Rightarrow> 'c server_task \<Rightarrow> 'c server_context \<Rightarrow> 'c server_context result" where
  "process_slot_task E now t C =
     rbind (get_available_slot E t C) (\<lambda>(slot, C).
     case slot of
       None \<Rightarrow> Inr (defer_to now t C)
     | Some i \<Rightarrow>
         if is_processing (slots C ! i) then Inr (defer_to now t C)
         else
           let children = get_free_slots 0 (slots C) (length (child_tasks t)) (sl_id (slots C ! i)) []
           in if is_parent t \<and> length children < length (child_tasks t) then Inr (defer_to now t C)
              else rbind (if is_parent t then launch_slots_with_parent_task E now i children t C
                          else launch_slot_with_task E i t C) (\<lambda>(ok, C).
                if ok \<and> cache_idle_slots (params_base C) then offload_all E [0..<length (slots C)] C else Inr C))"

definition task_cancel :: "int \<Rightarrow> 'c server_task \<Rightarrow> 'c server_context \<Rightarrow> 'c server_context result" where
  "task_cancel now t C =
     (case find (\<lambda>i. case task (slots C ! i) of None \<Rightarrow> False | Some u \<Rightarrow> task_id u = id_target t) [0..<length (slots C)] of
        None \<Rightarrow> Inr C
      | Some i \<Rightarrow> release now i C)"

definition task_control :: "'c server_task \<Rightarrow> 'c server_context \<Rightarrow> 'c server_context" where
  "task_control t C =
     (let reply = (\<lambda>ok msg. send_to (mk_msg (task_id t) 0 (Control ok msg)))
      in case get_slot_by_cmpl_id (control_cmpl_id (params t)) C of
           None \<Rightarrow> reply False ''no active completion for this id'' C
         | Some i \<Rightarrow>
             (case task (slots C ! i) of
                None \<Rightarrow> C
              | Some u \<Rightarrow>
                  if control_action (params t) = ''reasoning_end'' then
                    (if \<not> sp_reasoning_control (sampling (params u))
                     then reply False ''reasoning control not enabled for this completion'' C
                     else reply True []
                       (set_slot i ((slots C ! i)\<lparr>smpl := map_option (sampler_do Reasoning_budget_force) (smpl (slots C ! i))\<rparr>) C))
                  else reply False ''unknown control action'' C))"

definition n_busy :: "'c server_context \<Rightarrow> nat" where
  "n_busy C = length (filter is_processing (slots C))"

definition task_metrics :: "'c server_task \<Rightarrow> 'c server_context \<Rightarrow> 'c server_context" where
  "task_metrics t C =
     (let m = mk_msg (task_id t) 0
            (Metrics (int (n_busy C)) (int (length (queue_tasks_deferred (tasks_queue C)))) (metrics C));
          C = (if metrics_reset_bucket t then C\<lparr>metrics := reset_bucket (metrics C)\<rparr> else C)
      in send_to m C)"

definition task_slot_get :: "'c ctx_env \<Rightarrow> 'c server_task \<Rightarrow> 'c server_context \<Rightarrow> 'c server_context" where
  "task_slot_get E t C =
     send_to (mk_msg (task_id t) 0
       (Slots (int (length (filter (\<lambda>s. \<not> is_processing s) (slots C))))
          (JArr (map (slot_to_json (ce_gen E) (\<not> ge_slots_debug (ce_gen E))) (slots C))))) C"

text \<open>
  Saving, restoring and erasing the prompt of a slot; \<open>t_start\<close>, \<open>t_end\<close> are the clock around the work.
  \<open>with_slot\<close> is their common beginning.
\<close>

definition with_slot ::
  "int \<Rightarrow> 'c server_task \<Rightarrow> (nat \<Rightarrow> 'c server_context \<Rightarrow> 'c server_context result) \<Rightarrow> 'c server_context \<Rightarrow> 'c server_context result" where
  "with_slot now t body C =
     rbind (get_slot_by_id (sa_id_slot (slot_action_of t)) C) (\<lambda>slot.
     case slot of
       None \<Rightarrow> send_error t ''Invalid slot ID'' ERROR_INVALID_REQUEST C
     | Some i \<Rightarrow> if is_processing (slots C ! i) then Inr (defer_to now t C) else body i C)"

definition task_slot_save :: "'c ctx_env \<Rightarrow> rat \<Rightarrow> 'c server_task \<Rightarrow> nat \<Rightarrow> 'c server_context \<Rightarrow> 'c server_context result" where
  "task_slot_save E t_ms t i C =
     (let st = pr_tokens (prompt (slots C ! i)); a = slot_action_of t
      in case st_serialize (ce_mtmd E) st of
           Inl (Throw e) \<Rightarrow> send_error t e ERROR_NOT_SUPPORTED C
         | Inl Abort \<Rightarrow> Inl Abort
         | Inr packed \<Rightarrow>
             if length packed mod 4 \<noteq> 0 then Inl Abort
             else
               let n = ce_save_file E (sa_filepath a) (sl_id (slots C ! i)) (reinterpret_tokens packed)
               in if n = 0 then send_error t ''Unable to save slot'' ERROR_SERVER C
                  else Inr (send_to (mk_msg (task_id t) 0
                         (Slot_save_load (sa_id_slot a) (sa_filename a) True (st_size st) n t_ms)) C))"

definition resize_tokens :: "nat \<Rightarrow> llama_token list \<Rightarrow> llama_token list" where
  "resize_tokens n ts = take n ts @ replicate (n - length ts) 0"

definition load_slot_file :: "'c ctx_env \<Rightarrow> string \<Rightarrow> 'c slot \<Rightarrow> (nat \<times> 'c server_tokens) result" where
  "load_slot_file E path s =
     (let (nread0, n0) = ce_load_probe E path (sl_id s);
          (nread, packed, n) = (if nread0 \<noteq> 0 then ce_load_file E path (sl_id s) (max 1 n0) else (0, [], n0))
      in if nread = 0 then Inl (Throw ''No available space in KV cache or invalid slot save file'')
         else rbind (st_deserialize (ce_mtmd E) (resize_tokens n packed) (ce_has_mtmd E)) (\<lambda>restored.
           if int (st_size restored) > sl_n_ctx s then Inl (Throw ''Restored prompt does not fit in the slot context'')
           else if \<not> validate (ce_mtmd E) (ce_n_vocab E) restored then Inl (Throw ''Invalid tokens in slot save file'')
           else Inr (nread, restored)))"

definition task_slot_restore :: "'c ctx_env \<Rightarrow> rat \<Rightarrow> 'c server_task \<Rightarrow> nat \<Rightarrow> 'c server_context \<Rightarrow> 'c server_context result" where
  "task_slot_restore E t_ms t i C =
     (let s = slots C ! i; a = slot_action_of t; C = log_ops [State_restore (sl_id s)] C
      in case load_slot_file E (sa_filepath a) s of
           Inl Abort \<Rightarrow> Inl Abort
         | Inl (Throw e) \<Rightarrow>
             let (s, ops) = slot_prompt_clear s
             in send_error t (''Unable to restore slot: '' @ e) ERROR_INVALID_REQUEST (log_ops ops (set_slot i s C))
         | Inr (nread, restored) \<Rightarrow>
             let p = (prompt_clear (prompt s))\<lparr>pr_tokens := restored\<rparr>
             in Inr (send_to (mk_msg (task_id t) 0
                  (Slot_save_load (sa_id_slot a) (sa_filename a) False (st_size restored) nread t_ms))
                  (set_slot i (s\<lparr>prompt := p\<rparr>) C)))"

definition task_slot_erase :: "'c server_task \<Rightarrow> nat \<Rightarrow> 'c server_context \<Rightarrow> 'c server_context result" where
  "task_slot_erase t i C =
     (let n = st_size (pr_tokens (prompt (slots C ! i))); (s, ops) = slot_prompt_clear (slots C ! i)
      in Inr (send_to (mk_msg (task_id t) 0 (Slot_erase (sa_id_slot (slot_action_of t)) n)) (log_ops ops (set_slot i s C))))"

text \<open>\<open>to_json\<close> of the list of adapters, which the code runs when the result is sent out.\<close>

definition lora_json :: "'c ctx_env \<Rightarrow> adapter list \<Rightarrow> json" where
  "lora_json E ls =
     JArr (map (\<lambda>i. let ts = ce_alora E (lo_ptr (ls ! i)); info = ce_lora_info E (lo_ptr (ls ! i));
                        member = (\<lambda>k. (k, case map_of info k of Some j \<Rightarrow> j | None \<Rightarrow> JStr []))
        in JObj ([(''id'', jnat i), member ''path'', (''scale'', JNum (lo_scale (ls ! i))), member ''task_name'', member ''prompt_prefix'']
             @ (if ts = [] then [] else
                  [(''alora_invocation_string'', JStr (concat (map (ce_piece E) ts))), (''alora_invocation_tokens'', jtoks ts)])))
       [0..<length ls])"

definition task_get_lora :: "'c ctx_env \<Rightarrow> 'c server_task \<Rightarrow> 'c server_context \<Rightarrow> 'c server_context" where
  "task_get_lora E t C = send_to (mk_msg (task_id t) 0 (Get_lora (lora_json E (lora_adapters (params_base C))))) C"

definition task_set_lora :: "'c server_task \<Rightarrow> 'c server_context \<Rightarrow> 'c server_context" where
  "task_set_lora t C =
     send_to (mk_msg (task_id t) 0 Apply_lora)
       (C\<lparr>params_base := (params_base C)\<lparr>lora_adapters := construct_lora_list (lora_adapters (params_base C)) (set_lora t)\<rparr>\<rparr>)"

text \<open>\<open>process_single_task\<close>; the value is false when the task is declined.\<close>

definition process_single_task ::
  "'c ctx_env \<Rightarrow> int \<Rightarrow> rat \<Rightarrow> 'c server_task \<Rightarrow> bool \<Rightarrow> 'c server_context \<Rightarrow> (bool \<times> 'c server_context) result" where
  "process_single_task E now t_ms t is_yielding C =
     (if is_yielding \<and> type_of_task t \<noteq> TASK_METRICS \<and> type_of_task t \<noteq> TASK_SLOT_GET then Inr (False, C)
      else rbind
        (case type_of_task t of
           TASK_CANCEL \<Rightarrow> task_cancel now t C
         | TASK_CONTROL \<Rightarrow> Inr (task_control t C)
         | TASK_NEXT_RESPONSE \<Rightarrow> Inr C
         | TASK_METRICS \<Rightarrow> Inr (task_metrics t C)
         | TASK_SLOT_GET \<Rightarrow> Inr (task_slot_get E t C)
         | TASK_SLOT_SAVE \<Rightarrow> with_slot now t (task_slot_save E t_ms t) C
         | TASK_SLOT_RESTORE \<Rightarrow> with_slot now t (task_slot_restore E t_ms t) C
         | TASK_SLOT_ERASE \<Rightarrow> with_slot now t (task_slot_erase t) C
         | TASK_GET_LORA \<Rightarrow> Inr (task_get_lora E t C)
         | TASK_SET_LORA \<Rightarrow> Inr (task_set_lora t C)
         | _ \<Rightarrow>
             if cli t then
               (case ce_tokenize_cli E t of
                  Inl e \<Rightarrow> send_error t (''Failed to format input: '' @ e) ERROR_INVALID_REQUEST C
                | Inr ts \<Rightarrow> process_slot_task E now (t\<lparr>tokens := ts, cli_prompt := [], cli_files := []\<rparr>) C)
             else process_slot_task E now t C)
        (\<lambda>C. Inr (True, C)))"

text \<open>\<open>abort_all_slots\<close>, and what \<open>iterate\<close> does with an exception of the callback on a slot.\<close>

definition fail_slot :: "int \<Rightarrow> string \<Rightarrow> nat \<Rightarrow> 'c server_context \<Rightarrow> 'c server_context result" where
  "fail_slot now reason i C =
     rbind (slot_error_msg (slots C ! i) reason ERROR_SERVER) (\<lambda>m. release now i (send_to m C))"

fun abort_slots :: "int \<Rightarrow> string \<Rightarrow> nat list \<Rightarrow> 'c server_context \<Rightarrow> 'c server_context result" where
  "abort_slots now reason [] C = Inr C"
| "abort_slots now reason (i # is) C =
     rbind (if is_processing (slots C ! i) then fail_slot now reason i C else Inr C) (abort_slots now reason is)"

definition abort_all_slots :: "int \<Rightarrow> string \<Rightarrow> 'c server_context \<Rightarrow> 'c server_context result" where
  "abort_all_slots now reason C = abort_slots now reason [0..<length (slots C)] C"

fun iterate ::
  "int \<Rightarrow> (nat \<Rightarrow> 'c server_context \<Rightarrow> failure option \<times> 'c server_context) \<Rightarrow> nat list \<Rightarrow> 'c server_context \<Rightarrow> 'c server_context result" where
  "iterate now callback [] C = Inr C"
| "iterate now callback (i # is) C =
     rbind (case callback i C of
              (None, C) \<Rightarrow> Inr C
            | (Some Abort, C) \<Rightarrow> Inl Abort
            | (Some (Throw e), C) \<Rightarrow> fail_slot now (''got exception: '' @ e) i C)
       (iterate now callback is)"

section \<open>Frames of the operations\<close>

text \<open>The slots but those of \<open>I\<close> are untouched.\<close>

definition others_same :: "nat set \<Rightarrow> 'c server_context \<Rightarrow> 'c server_context \<Rightarrow> bool" where
  "others_same I C C' \<longleftrightarrow> length (slots C') = length (slots C) \<and> (\<forall>j. j \<notin> I \<longrightarrow> slots C' ! j = slots C ! j)"

lemma others_same_refl [simp]: "others_same I C C"
  by (simp add: others_same_def)

lemma others_same_trans: "others_same I C C' \<Longrightarrow> others_same J C' C'' \<Longrightarrow> others_same (I \<union> J) C C''"
  by (simp add: others_same_def)

lemma others_same_mono: "others_same I C C' \<Longrightarrow> I \<subseteq> J \<Longrightarrow> others_same J C C'"
  by (auto simp: others_same_def)

lemma set_slot_simps [simp]:
  "slots (set_slot i s C) = (slots C)[i := s]" "params_base (set_slot i s C) = params_base C"
  "prompt_cache_of (set_slot i s C) = prompt_cache_of C" "tasks_queue (set_slot i s C) = tasks_queue C"
  "results_queue (set_slot i s C) = results_queue C" "metrics (set_slot i s C) = metrics C" "dev (set_slot i s C) = dev C"
  by (simp_all add: set_slot_def)

lemma send_to_simps [simp]:
  "slots (send_to m C) = slots C" "params_base (send_to m C) = params_base C"
  "prompt_cache_of (send_to m C) = prompt_cache_of C" "tasks_queue (send_to m C) = tasks_queue C"
  "results_queue (send_to m C) = send m (results_queue C)" "metrics (send_to m C) = metrics C" "dev (send_to m C) = dev C"
  by (simp_all add: send_to_def)

lemma log_ops_simps [simp]:
  "slots (log_ops ops C) = slots C" "params_base (log_ops ops C) = params_base C"
  "prompt_cache_of (log_ops ops C) = prompt_cache_of C" "tasks_queue (log_ops ops C) = tasks_queue C"
  "results_queue (log_ops ops C) = results_queue C" "metrics (log_ops ops C) = metrics C" "dev (log_ops ops C) = dev C @ ops"
  by (simp_all add: log_ops_def)

lemma defer_to_simps [simp]: "slots (defer_to now t C) = slots C" "params_base (defer_to now t C) = params_base C"
  by (simp_all add: defer_to_def)

lemma others_same_set_slot [simp]: "i \<in> I \<Longrightarrow> others_same I C (set_slot i s C)"
  by (auto simp: others_same_def) (metis nth_list_update_neq)

lemma send_error_frame:
  "send_error t e ty C = Inr C' \<Longrightarrow> slots C' = slots C \<and> params_base C' = params_base C \<and> tasks_queue C' = tasks_queue C
     \<and> prompt_cache_of C' = prompt_cache_of C"
  by (auto simp: send_error_def rbind_Inr_iff)

definition slot_ok :: "'c slot \<Rightarrow> bool" where
  "slot_ok s \<longleftrightarrow> (is_processing s \<longleftrightarrow> task s \<noteq> None)"

definition slots_ok :: "'c server_context \<Rightarrow> bool" where
  "slots_ok C \<longleftrightarrow> slots C \<noteq> [] \<and> (\<forall>i < length (slots C). slot_ok (slots C ! i) \<and> sl_id (slots C ! i) = int i)"

lemma slots_ok_nth: "slots_ok C \<Longrightarrow> i < length (slots C) \<Longrightarrow> slot_ok (slots C ! i) \<and> sl_id (slots C ! i) = int i"
  by (simp add: slots_ok_def)

lemma slots_ok_update:
  "slots_ok C \<Longrightarrow> slots C' = (slots C)[i := s] \<Longrightarrow> slot_ok s \<Longrightarrow> sl_id s = sl_id (slots C ! i) \<Longrightarrow> slots_ok C'"
  by (cases "i < length (slots C)") (auto simp: slots_ok_def nth_list_update)

lemma slot_prompt_clear_simps [simp]:
  "state (fst (slot_prompt_clear s)) = state s" "task (fst (slot_prompt_clear s)) = task s"
  "sl_id (fst (slot_prompt_clear s)) = sl_id s"
  by (simp_all add: slot_prompt_clear_def)

lemma slot_reset_simps [simp]:
  "state (fst (slot_reset s)) = state s" "task (fst (slot_reset s)) = None" "sl_id (fst (slot_reset s)) = sl_id s"
  "prompt (fst (slot_reset s)) = prompt s" "t_last_used (fst (slot_reset s)) = t_last_used s"
  by (simp_all add: slot_reset_def Let_def)

lemma release_spec:
  assumes "release now i C = Inr C'" "i < length (slots C)"
  shows "params_base C' = params_base C \<and> prompt_cache_of C' = prompt_cache_of C \<and> results_queue C' = results_queue C
     \<and> others_same {i} C C' \<and> sl_id (slots C' ! i) = sl_id (slots C ! i)
     \<and> (if is_processing (slots C ! i) then \<not> is_processing (slots C' ! i) \<and> task (slots C' ! i) = None
        else C' = C)"
  using assms
  by (auto simp: release_def Let_def others_same_def is_processing_def slot_prompt_clear_def split: if_splits option.splits prod.splits)
    (auto simp: slot_reset_def Let_def)

section \<open>The choice of a slot\<close>

lemma similar_slot_spec:
  "similar_slot E thold t i ss ret sb = Inr (ret', sb') \<Longrightarrow>
     ret' = ret \<or> (\<exists>k < length ss. ret' = Some (i + k) \<and> \<not> is_processing (ss ! k) \<and> (id_slot t = -1 \<or> sl_id (ss ! k) = id_slot t))"
proof (induction ss arbitrary: i ret sb)
  case (Cons s ss)
  have next_slot: ?case if r: "similar_slot E thold t (Suc i) ss r b = Inr (ret', sb')"
    and here: "r = ret \<or> r = Some i \<and> \<not> is_processing s \<and> (id_slot t = -1 \<or> sl_id s = id_slot t)" for r b
  proof -
    from Cons.IH [OF r] here consider "ret' = ret"
      | "ret' = Some i" "\<not> is_processing s" "id_slot t = -1 \<or> sl_id s = id_slot t"
      | k where "k < length ss" "ret' = Some (Suc i + k)" "\<not> is_processing (ss ! k)" "id_slot t = -1 \<or> sl_id (ss ! k) = id_slot t"
      by auto
    then show ?thesis
    proof cases
      case 1 then show ?thesis by simp
    next
      case 2 then show ?thesis by (intro disjI2 exI [of _ 0]) simp
    next
      case (3 k) then show ?thesis by (intro disjI2 exI [of _ "Suc k"]) simp
    qed
  qed
  show ?case
  proof (cases "(id_slot t \<noteq> -1 \<and> sl_id s \<noteq> id_slot t) \<or> is_processing s \<or> toks (pr_tokens (prompt s)) = []")
    case True
    then show ?thesis using Cons.prems next_slot [of ret sb] by auto
  next
    case False
    then show ?thesis using Cons.prems next_slot [of "Some i"] next_slot [of ret sb]
      by (auto simp: rbind_Inr_iff Let_def split: if_splits)
  qed
qed simp

text \<open>The least recently used idle slot; the one with the highest index among equals.\<close>

definition lru_best :: "nat \<Rightarrow> 'c slot list \<Rightarrow> nat option \<Rightarrow> int \<Rightarrow> nat option \<Rightarrow> bool" where
  "lru_best i ss ret t_last r \<longleftrightarrow>
     (r = ret \<and> (\<forall>s \<in> set ss. is_processing s \<or> (ret \<noteq> None \<and> t_last < t_last_used s)))
     \<or> (\<exists>k < length ss. r = Some (i + k) \<and> \<not> is_processing (ss ! k) \<and> (ret = None \<or> t_last_used (ss ! k) \<le> t_last)
          \<and> (\<forall>s \<in> set ss. is_processing s \<or> t_last_used (ss ! k) \<le> t_last_used s))"

lemma lru_best_here:
  assumes "\<not> is_processing s" "ret = None \<or> t_last_used s \<le> t_last" "lru_best (Suc i) ss (Some i) (t_last_used s) r"
  shows "lru_best i (s # ss) ret t_last r"
proof -
  from assms(3) consider
      (this_one) "r = Some i" "\<forall>u \<in> set ss. is_processing u \<or> t_last_used s < t_last_used u"
    | (later) k where "k < length ss" "r = Some (Suc i + k)" "\<not> is_processing (ss ! k)" "t_last_used (ss ! k) \<le> t_last_used s"
        "\<forall>u \<in> set ss. is_processing u \<or> t_last_used (ss ! k) \<le> t_last_used u"
    unfolding lru_best_def by auto
  then show ?thesis
  proof cases
    case this_one
    then show ?thesis using assms unfolding lru_best_def by (intro disjI2 exI [of _ 0]) auto
  next
    case (later k)
    then show ?thesis using assms unfolding lru_best_def by (intro disjI2 exI [of _ "Suc k"]) auto
  qed
qed

lemma lru_best_later:
  "is_processing s \<or> (ret \<noteq> None \<and> t_last < t_last_used s) \<Longrightarrow> lru_best (Suc i) ss ret t_last r \<Longrightarrow>
     lru_best i (s # ss) ret t_last r"
  unfolding lru_best_def
  by (elim disjE exE conjE) (auto 4 4 intro: exI [of _ "Suc _"])

lemma lru_slot_best: "lru_best i ss ret t_last (lru_slot i ss ret t_last)"
proof (induction ss arbitrary: i ret t_last)
  case (Cons s ss)
  show ?case
  proof (cases "is_processing s")
    case True
    then show ?thesis using lru_best_later [OF _ Cons.IH] by simp
  next
    case False
    then show ?thesis using lru_best_later [OF _ Cons.IH] lru_best_here [OF _ _ Cons.IH]
      by (cases "ret = None \<or> t_last_used s \<le> t_last") auto
  qed
qed (simp add: lru_best_def)

end
