(* ===== verification/Schedule.thy ===== *)
theory Schedule
  imports Context "HOL-Library.Sublist"
begin

text \<open>
  What the scheduler of theory \<open>Context\<close> guarantees: which slot a task gets, that running slots are left
  alone, that a parent starts with all of its children or not at all, and that every task the queue hands
  to \<open>process_single_task\<close> keeps the slots well formed.
\<close>

section \<open>Slots that keep their job\<close>

definition same_job :: "'c slot \<Rightarrow> 'c slot \<Rightarrow> bool" where
  "same_job s s' \<longleftrightarrow> state s' = state s \<and> task s' = task s \<and> sl_id s' = sl_id s"

lemma same_job_refl [simp]: "same_job s s"
  by (simp add: same_job_def)

lemma same_job_processing: "same_job s s' \<Longrightarrow> is_processing s' = is_processing s"
  by (simp add: same_job_def is_processing_def)

lemma slot_ok_same_job: "same_job s s' \<Longrightarrow> slot_ok s' = slot_ok s"
  by (simp add: same_job_def slot_ok_def is_processing_def)

lemma same_job_prompt [simp]: "same_job s (s\<lparr>prompt := p\<rparr>)"
  by (simp add: same_job_def)

lemma same_job_clear [simp]: "same_job s (fst (slot_prompt_clear s))"
  by (simp add: same_job_def)

definition jobs_kept :: "'c server_context \<Rightarrow> 'c server_context \<Rightarrow> bool" where
  "jobs_kept C C' \<longleftrightarrow> length (slots C') = length (slots C) \<and> (\<forall>j < length (slots C). same_job (slots C ! j) (slots C' ! j))"

lemma jobs_kept_refl [simp]: "jobs_kept C C"
  by (simp add: jobs_kept_def)

lemma jobs_kept_trans: "jobs_kept C C' \<Longrightarrow> jobs_kept C' C'' \<Longrightarrow> jobs_kept C C''"
  by (simp add: jobs_kept_def same_job_def)

lemma jobs_kept_slots: "slots C' = slots C \<Longrightarrow> jobs_kept C C'"
  by (simp add: jobs_kept_def)

lemma nth_update: "j < length xs \<Longrightarrow> xs[i := x] ! j = (if i = j then x else xs ! j)"
  by (cases "i = j") simp_all

lemma jobs_kept_set_slot: "slots C' = (slots C)[i := s] \<Longrightarrow> same_job (slots C ! i) s \<Longrightarrow> jobs_kept C C'"
  by (auto simp: jobs_kept_def nth_update)

lemma slots_ok_jobs_kept: "jobs_kept C C' \<Longrightarrow> slots_ok C \<Longrightarrow> slots_ok C'"
  by (auto simp: jobs_kept_def slots_ok_def slot_ok_same_job) (simp add: same_job_def)

lemma others_same_nth: "others_same I C C' \<Longrightarrow> j \<notin> I \<Longrightarrow> slots C' ! j = slots C ! j"
  by (simp add: others_same_def)

lemma others_same_length: "others_same I C C' \<Longrightarrow> length (slots C') = length (slots C)"
  by (simp add: others_same_def)

section \<open>The choice of a slot\<close>

text \<open>Only the prompt of slot \<open>i\<close>, the prompt cache and the log of the library changed.\<close>

definition prompt_only :: "nat \<Rightarrow> 'c server_context \<Rightarrow> 'c server_context \<Rightarrow> bool" where
  "prompt_only i C C' \<longleftrightarrow> (\<exists>p. slots C' = (slots C)[i := (slots C ! i)\<lparr>prompt := p\<rparr>])
     \<and> params_base C' = params_base C \<and> metrics C' = metrics C
     \<and> tasks_queue C' = tasks_queue C \<and> results_queue C' = results_queue C"

lemma prompt_only_refl [simp]: "prompt_only i C C"
proof -
  have "slots C = (slots C)[i := (slots C ! i)\<lparr>prompt := prompt (slots C ! i)\<rparr>]" by simp
  then show ?thesis unfolding prompt_only_def by blast
qed

lemma prompt_only_frame:
  assumes "prompt_only i C C'"
  shows "others_same {i} C C'" "jobs_kept C C'"
proof -
  from assms obtain p where "slots C' = (slots C)[i := (slots C ! i)\<lparr>prompt := p\<rparr>]"
    by (auto simp: prompt_only_def)
  then show "others_same {i} C C'" "jobs_kept C C'"
    by (auto simp: others_same_def jobs_kept_def nth_update)
qed

lemma update_prompt_cache_frame: "update_prompt_cache E i t c C = Inr C' \<Longrightarrow> prompt_only i C C'"
  unfolding prompt_only_def
  by (auto simp: update_prompt_cache_def prompt_load_def rbind_Inr_iff slot_prompt_clear_def split: prod.splits if_splits)

lemma get_available_slot_cases:
  assumes "get_available_slot E t C = Inr (r, C')"
  obtains ret0 ret1 where
    "if id_slot t \<noteq> -1 then get_slot_by_id (id_slot t) C = Inr ret0 else ret0 = None"
    "ret1 = ret0 \<or> slot_prompt_similarity (params_base C) \<noteq> 0 \<and> (\<exists>k < length (slots C). ret1 = Some k
       \<and> \<not> is_processing (slots C ! k) \<and> (id_slot t = -1 \<or> sl_id (slots C ! k) = id_slot t))"
    "r = (if ret1 = None then lru_slot 0 (slots C) None (- 1) else ret1)"
    "C' = C \<or> (\<exists>i. r = Some i \<and> prompt_only i C C')"
proof -
  let ?th = "slot_prompt_similarity (params_base C)"
  define pick where "pick ret1 upd = (if ret1 = None then (let r = lru_slot 0 (slots C) None (- 1) in (r, r \<noteq> None)) else (ret1, upd))"
    for ret1 :: "nat option" and upd
  define by_id where "by_id = (if id_slot t \<noteq> -1 then get_slot_by_id (id_slot t) C else Inr None)"
  define by_prompt where "by_prompt ret = (if ?th \<noteq> 0 then
              rbind (similar_slot E ?th t 0 (slots C) ret 0) (\<lambda>(ret, sim_best).
                Inr (ret, (case ret of
                   None \<Rightarrow> False
                 | Some i \<Rightarrow> loses_context (ce_floats E) sim_best (st_size (tokens t)) (st_size (pr_tokens (prompt (slots C ! i)))))))
            else Inr (ret, False))" for ret
  define finish where "finish = (\<lambda>(ret1, upd). (let (ret, upd) = pick ret1 upd
         in case (ret, prompt_cache_of C) of
              (Some i, Some c) \<Rightarrow>
                (if upd \<and> type_of_task t = TASK_COMPLETION
                 then rbind (update_prompt_cache E i t c C) (\<lambda>C. Inr (ret, C)) else Inr (ret, C))
            | _ \<Rightarrow> Inr (ret, C)))"
  have "rbind by_id (\<lambda>ret. rbind (by_prompt ret) finish) = Inr (r, C')"
    using assms unfolding get_available_slot_def by_id_def by_prompt_def finish_def pick_def Let_def by simp
  then obtain ret0 ret1 upd where 0: "by_id = Inr ret0" and 1: "by_prompt ret0 = Inr (ret1, upd)"
    and 2: "finish (ret1, upd) = Inr (r, C')"
    unfolding rbind_Inr_iff by auto
  from 1 have 1: "ret1 = ret0 \<or> ?th \<noteq> 0 \<and> (\<exists>sb sb'. similar_slot E ?th t 0 (slots C) ret0 sb = Inr (ret1, sb'))"
    by (auto simp: by_prompt_def rbind_Inr_iff split: if_splits)
  from 2 have "r = fst (pick ret1 upd)" "C' = C \<or> (\<exists>i. r = Some i \<and> prompt_only i C C')"
    by (auto simp: finish_def rbind_Inr_iff dest: update_prompt_cache_frame split: prod.splits option.splits if_splits)
  moreover from 1 have "ret1 = ret0 \<or> ?th \<noteq> 0 \<and> (\<exists>k < length (slots C). ret1 = Some k
       \<and> \<not> is_processing (slots C ! k) \<and> (id_slot t = -1 \<or> sl_id (slots C ! k) = id_slot t))"
    using similar_slot_spec by fastforce
  ultimately show ?thesis
    using that [of ret0 ret1] 0 by (auto simp: by_id_def pick_def Let_def split: if_splits)
qed

lemma get_available_slot_frame:
  "get_available_slot E t C = Inr (r, C') \<Longrightarrow> (C' = C \<or> (\<exists>i. r = Some i \<and> prompt_only i C C')) \<and> jobs_kept C C'"
  by (elim get_available_slot_cases) (auto dest: prompt_only_frame(2))

lemma lru_slot_None_iff: "lru_slot 0 ss None (- 1) = None \<longleftrightarrow> (\<forall>s \<in> set ss. is_processing s)"
  using lru_slot_best [of 0 ss None "- 1"] by (auto simp: lru_best_def)

lemma lru_slot_Some:
  "lru_slot 0 ss None (- 1) = Some i \<Longrightarrow> i < length ss \<and> \<not> is_processing (ss ! i)
     \<and> (\<forall>s \<in> set ss. \<not> is_processing s \<longrightarrow> t_last_used (ss ! i) \<le> t_last_used s)"
  using lru_slot_best [of 0 ss None "- 1"] by (auto simp: lru_best_def)

text \<open>
  A task that asks for no particular slot gets an idle slot, or none when all slots are
  busy; with the similarity search off it is the least recently used idle slot.  No other slot changes.
\<close>

theorem slot_choice:
  assumes "get_available_slot E t C = Inr (r, C')" "id_slot t = -1"
  shows "(r = None \<longleftrightarrow> (\<forall>s \<in> set (slots C). is_processing s))
    \<and> (\<forall>i. r = Some i \<longrightarrow> i < length (slots C) \<and> \<not> is_processing (slots C ! i)
        \<and> (slot_prompt_similarity (params_base C) = 0 \<longrightarrow>
            (\<forall>s \<in> set (slots C). \<not> is_processing s \<longrightarrow> t_last_used (slots C ! i) \<le> t_last_used s)))
    \<and> (\<forall>j. r \<noteq> Some j \<longrightarrow> slots C' ! j = slots C ! j)"
proof -
  from assms obtain ret1 where
    1: "ret1 = None \<or> slot_prompt_similarity (params_base C) \<noteq> 0
       \<and> (\<exists>k < length (slots C). ret1 = Some k \<and> \<not> is_processing (slots C ! k))" and
    r: "r = (if ret1 = None then lru_slot 0 (slots C) None (- 1) else ret1)" and
    C': "C' = C \<or> (\<exists>i. r = Some i \<and> prompt_only i C C')"
    by (elim get_available_slot_cases) auto
  have "r = None \<longleftrightarrow> (\<forall>s \<in> set (slots C). is_processing s)"
    using 1 r lru_slot_None_iff [of "slots C"] nth_mem by (fastforce split: if_splits)
  moreover have "\<forall>i. r = Some i \<longrightarrow> i < length (slots C) \<and> \<not> is_processing (slots C ! i)
        \<and> (slot_prompt_similarity (params_base C) = 0 \<longrightarrow>
            (\<forall>s \<in> set (slots C). \<not> is_processing s \<longrightarrow> t_last_used (slots C ! i) \<le> t_last_used s))"
    using 1 r lru_slot_Some [of "slots C"] by (auto split: if_splits)
  moreover have "\<forall>j. r \<noteq> Some j \<longrightarrow> slots C' ! j = slots C ! j"
    using C' prompt_only_frame(1) others_same_nth by (metis singletonD)
  ultimately show ?thesis by blast
qed

section \<open>Launching\<close>

lemma slot_lora_job: "slot_lora E t P s = Inr s' \<Longrightarrow> same_job s s'"
  by (auto simp: slot_lora_def same_job_def rbind_Inr_iff Let_def split: if_splits)

lemma slot_alora_job: "slot_alora E t s = Some s' \<Longrightarrow> same_job s s'"
  by (auto simp: slot_alora_def same_job_def split: if_splits list.splits option.splits)

lemma slot_sampler_job: "slot_sampler E t s = Inr (s', ops) \<Longrightarrow> same_job s s'"
  by (auto simp: slot_sampler_def same_job_def Let_def split: if_splits option.splits)

lemma same_job_trans: "same_job s s' \<Longrightarrow> same_job s' s'' \<Longrightarrow> same_job s s''"
  by (simp add: same_job_def)

lemma launch_slot_spec:
  assumes "launch_slot_with_task E i t C = Inr (ok, C')" "i < length (slots C)"
  shows "others_same {i} C C' \<and> sl_id (slots C' ! i) = sl_id (slots C ! i)
    \<and> params_base C' = params_base C \<and> tasks_queue C' = tasks_queue C
    \<and> (if ok then task (slots C' ! i) = Some t \<and> state (slots C' ! i) = (if is_child t then SLOT_WAIT_OTHER else SLOT_STARTED)
         \<and> results_queue C' = results_queue C
       else same_job (slots C ! i) (slots C' ! i))"
proof -
  have err: "others_same {i} C C' \<and> sl_id (slots C' ! i) = sl_id (slots C ! i) \<and> params_base C' = params_base C
      \<and> tasks_queue C' = tasks_queue C \<and> same_job (slots C ! i) (slots C' ! i)"
    if "send_error t e ty (set_slot i s C) = Inr C'" "same_job (slots C ! i) s" for e ty s
    using send_error_frame [OF that(1)] that(2) assms(2) by (auto simp: others_same_def same_job_def)
  from assms(1) obtain s0 where s0: "slot_lora E t (params_base C) (slots C ! i) = Inr s0" and
    r: "(case slot_alora E t s0 of
       None \<Rightarrow> rbind (send_error t ''Cannot run multiple aLoRAs in a single request'' ERROR_INVALID_REQUEST (set_slot i s0 C))
                 (\<lambda>C. Inr (False, C))
     | Some s \<Rightarrow>
         if \<not> validate (ce_mtmd E) (ce_n_vocab E) (tokens t) then
           rbind (send_error t ''Prompt contains invalid tokens'' ERROR_INVALID_REQUEST (set_slot i s C)) (\<lambda>C. Inr (False, C))
         else case slot_sampler E t s of
           Inl e \<Rightarrow> rbind (send_error t (''Failed to initialize samplers: '' @ e) ERROR_INVALID_REQUEST (set_slot i s C))
                      (\<lambda>C. Inr (False, C))
         | Inr (s, ops) \<Rightarrow>
             Inr (True, log_ops ops (set_slot i (s\<lparr>n_predict_max := (if n_predict (params t) \<noteq> -1 then n_predict (params t) else g_n_predict (params_base C)),
                       task := Some t,
                       state := (if is_child t then SLOT_WAIT_OTHER else SLOT_STARTED)\<rparr>) C)\<lparr>n_empty_consecutive := 0\<rparr>)) = Inr (ok, C')"
    unfolding launch_slot_with_task_def rbind_Inr_iff Let_def by (elim exE conjE) (rule that)
  note j0 = slot_lora_job [OF s0]
  show ?thesis
  proof (cases "slot_alora E t s0")
    case None
    then show ?thesis using r err [OF _ j0] by (auto simp: rbind_Inr_iff)
  next
    case (Some s1)
    note j1 = same_job_trans [OF j0 slot_alora_job [OF Some]]
    show ?thesis
    proof (cases "validate (ce_mtmd E) (ce_n_vocab E) (tokens t)")
      case False
      then show ?thesis using r Some err [OF _ j1] by (auto simp: rbind_Inr_iff)
    next
      case valid: True
      show ?thesis
      proof (cases "slot_sampler E t s1")
        case (Inl e)
        then show ?thesis using r Some valid err [OF _ j1] by (auto simp: rbind_Inr_iff)
      next
        case (Inr p)
        obtain s2 ops where p: "p = (s2, ops)" by fastforce
        have "same_job s1 s2" using slot_sampler_job Inr p by blast
        then show ?thesis using r Some valid Inr p j1 assms(2)
          by (auto simp: others_same_def same_job_def nth_update)
      qed
    qed
  qed
qed

section \<open>A parent and its children\<close>

lemma slots_ok_others:
  assumes "others_same {i} C C'" "slots_ok C" "i < length (slots C) \<Longrightarrow> slot_ok (slots C' ! i) \<and> sl_id (slots C' ! i) = sl_id (slots C ! i)"
  shows "slots_ok C'"
proof -
  have l: "length (slots C') = length (slots C)" using assms(1) by (simp add: others_same_def)
  have "slot_ok (slots C' ! j) \<and> sl_id (slots C' ! j) = int j" if "j < length (slots C)" for j
    using assms(1,3) slots_ok_nth [OF assms(2) that] that by (cases "j = i") (auto simp: others_same_def)
  then show ?thesis using assms(2) l by (auto simp: slots_ok_def)
qed

lemma release_slots_ok:
  assumes "release now i C = Inr C'" "slots_ok C" "i < length (slots C)"
  shows "slots_ok C'"
proof (cases "is_processing (slots C ! i)")
  case True
  then have "others_same {i} C C'" "slot_ok (slots C' ! i) \<and> sl_id (slots C' ! i) = sl_id (slots C ! i)"
    using release_spec [OF assms(1,3)] by (simp_all add: slot_ok_def)
  then show ?thesis using slots_ok_others assms(2) by blast
next
  case False
  then show ?thesis using release_spec [OF assms(1,3)] assms(2) by simp
qed

lemma launch_slots_ok:
  assumes "launch_slot_with_task E i t C = Inr (ok, C')" "slots_ok C" "i < length (slots C)"
  shows "slots_ok C'"
proof -
  note sp = launch_slot_spec [OF assms(1,3)]
  have "slot_ok (slots C' ! i)"
  proof (cases ok)
    case True
    then show ?thesis using sp by (simp add: slot_ok_def is_processing_def)
  next
    case False
    then show ?thesis using sp slots_ok_nth [OF assms(2,3)] slot_ok_same_job by auto
  qed
  then show ?thesis using slots_ok_others [OF _ assms(2)] sp by blast
qed

definition in_family :: "int \<Rightarrow> 'c slot \<Rightarrow> bool" where
  "in_family p s \<longleftrightarrow> is_processing s \<and> (case task s of None \<Rightarrow> False | Some t \<Rightarrow> task_id t = p \<or> id_parent t = p)"

text \<open>The slots of the family \<open>p\<close> and those of \<open>J\<close> are idle, the others untouched.\<close>

definition family_gone :: "int \<Rightarrow> nat set \<Rightarrow> 'c server_context \<Rightarrow> 'c server_context \<Rightarrow> bool" where
  "family_gone p J C C' \<longleftrightarrow> (\<forall>j < length (slots C).
     if j \<in> J \<or> in_family p (slots C ! j) then \<not> is_processing (slots C' ! j) else slots C' ! j = slots C ! j)"

lemma family_goneI:
  "(\<And>j. j < length (slots C) \<Longrightarrow> if j \<in> J \<or> in_family p (slots C ! j) then \<not> is_processing (slots C' ! j)
     else slots C' ! j = slots C ! j) \<Longrightarrow> family_gone p J C C'"
  by (simp add: family_gone_def)

lemma family_goneD:
  "family_gone p J C C' \<Longrightarrow> j < length (slots C) \<Longrightarrow>
     if j \<in> J \<or> in_family p (slots C ! j) then \<not> is_processing (slots C' ! j) else slots C' ! j = slots C ! j"
  by (simp add: family_gone_def)

lemma in_family_same_job: "same_job s s' \<Longrightarrow> in_family p s' = in_family p s"
  by (simp add: in_family_def same_job_def is_processing_def)

lemma in_family_jobs_kept:
  "jobs_kept C C' \<Longrightarrow> (\<forall>s \<in> set (slots C'). \<not> in_family p s) \<longleftrightarrow> (\<forall>s \<in> set (slots C). \<not> in_family p s)"
proof -
  assume k: "jobs_kept C C'"
  then have "\<forall>j < length (slots C). in_family p (slots C' ! j) = in_family p (slots C ! j)"
    unfolding jobs_kept_def using in_family_same_job by blast
  then show ?thesis using k by (auto simp: jobs_kept_def all_set_conv_all_nth)
qed

lemma release_family_spec:
  assumes "release_family now p is C = Inr C'" "slots_ok C" "set is \<subseteq> {..<length (slots C)}" "distinct is"
  shows "slots_ok C' \<and> length (slots C') = length (slots C) \<and> params_base C' = params_base C
    \<and> (\<forall>j < length (slots C). if j \<in> set is \<and> in_family p (slots C ! j) then \<not> is_processing (slots C' ! j)
         else slots C' ! j = slots C ! j)"
  using assms
proof (induction "is" arbitrary: C)
  case (Cons i "is")
  have i: "i < length (slots C)" "i \<notin> set is" using Cons.prems by auto
  show ?case
  proof (cases "in_family p (slots C ! i)")
    case False
    then have "release_family now p is C = Inr C'"
      using Cons.prems(1) slots_ok_nth [OF Cons.prems(2) i(1)]
      by (auto simp: in_family_def slot_ok_def split: if_splits option.splits)
    from Cons.IH [OF this Cons.prems(2)] Cons.prems(3,4) False show ?thesis by auto
  next
    case True
    then obtain C1 where r: "release now i C = Inr C1" and f: "release_family now p is C1 = Inr C'"
      using Cons.prems(1) by (auto simp: in_family_def rbind_Inr_iff split: if_splits option.splits)
    have s: "others_same {i} C C1" "\<not> is_processing (slots C1 ! i)" "params_base C1 = params_base C"
      using release_spec [OF r i(1)] True by (auto simp: in_family_def)
    have l: "length (slots C1) = length (slots C)" using s(1) by (simp add: others_same_def)
    from Cons.IH [OF f release_slots_ok [OF r Cons.prems(2) i(1)]] Cons.prems(3,4) l
    have ih: "slots_ok C' \<and> length (slots C') = length (slots C) \<and> params_base C' = params_base C1
        \<and> (\<forall>j < length (slots C). if j \<in> set is \<and> in_family p (slots C1 ! j) then \<not> is_processing (slots C' ! j)
             else slots C' ! j = slots C1 ! j)" by auto
    have "if j \<in> set (i # is) \<and> in_family p (slots C ! j) then \<not> is_processing (slots C' ! j)
         else slots C' ! j = slots C ! j" if "j < length (slots C)" for j
      using ih that s(1,2) True i(2) by (cases "j = i") (auto simp: others_same_def)
    then show ?thesis using ih s(3) by simp
  qed
qed simp

lemma release_family_all:
  assumes "release_family now p [0..<length (slots C)] C = Inr C'" "slots_ok C"
  shows "slots_ok C' \<and> length (slots C') = length (slots C) \<and> params_base C' = params_base C \<and> family_gone p {} C C'"
proof -
  have "set [0..<length (slots C)] \<subseteq> {..<length (slots C)}" by auto
  from release_family_spec [OF assms this] show ?thesis by (simp add: family_gone_def)
qed

lemma launch_children_spec:
  assumes "launch_children E now p is cs C = Inr (ok, C')" "slots_ok C" "set is \<subseteq> {..<length (slots C)}" "distinct is"
    "length is = length cs" "\<forall>i \<in> set is. \<not> is_processing (slots C ! i)" "\<forall>c \<in> set cs. id_parent c = p"
  shows "slots_ok C' \<and> length (slots C') = length (slots C) \<and> params_base C' = params_base C
    \<and> (if ok then others_same (set is) C C' \<and> map (\<lambda>i. task (slots C' ! i)) is = map (\<lambda>c. Some (task_of_child c)) cs
       else family_gone p (set is) C C')"
  using assms
proof (induction "is" arbitrary: cs C)
  case (Cons i "is")
  then obtain c ds where cs: "cs = c # ds" by (cases cs) auto
  have i: "i < length (slots C)" "i \<notin> set is" "\<not> is_processing (slots C ! i)" using Cons.prems by auto
  obtain ok1 C1 where l: "launch_slot_with_task E i (task_of_child c) C = Inr (ok1, C1)"
    and r: "(if ok1 then launch_children E now p is ds C1
             else rbind (release_family now p [0..<length (slots C1)] C1) (\<lambda>C. Inr (False, C))) = Inr (ok, C')"
    using Cons.prems(1) by (auto simp: cs rbind_Inr_iff)
  note sp = launch_slot_spec [OF l i(1)]
  have ok1: "slots_ok C1" using launch_slots_ok [OF l Cons.prems(2) i(1)] .
  have s1: "j \<noteq> i \<Longrightarrow> slots C1 ! j = slots C ! j" "length (slots C1) = length (slots C)" for j
    using sp by (auto simp: others_same_def)
  have ne: "j \<in> set is \<Longrightarrow> j \<noteq> i" for j using i(2) by blast
  note s2 = s1(1) [OF ne]
  show ?case
  proof (cases ok1)
    case False
    then obtain rel: "release_family now p [0..<length (slots C1)] C1 = Inr C'" and ok: "\<not> ok"
      using r by (auto simp: rbind_Inr_iff)
    note rel_spec = release_family_all [OF rel ok1]
    have idle1: "\<not> is_processing (slots C1 ! i)" using sp i(3) False same_job_processing by auto
    have idle2: "\<not> is_processing (slots C1 ! j)" if "j \<in> set is" for j
      using that Cons.prems(6) by (simp add: s2)
    have "family_gone p (set (i # is)) C C'"
    proof (rule family_goneI)
      fix j
      assume j: "j < length (slots C)"
      note rj = family_goneD [of p "{}" C1 C' j]
      show "if j \<in> set (i # is) \<or> in_family p (slots C ! j) then \<not> is_processing (slots C' ! j)
              else slots C' ! j = slots C ! j"
      proof (cases "j = i")
        case True
        then show ?thesis using rj rel_spec idle1 j s1(2) by (auto simp: in_family_def split: if_splits)
      next
        case False
        then show ?thesis using rj rel_spec s1 j idle2 [of j] by (auto simp: in_family_def split: if_splits)
      qed
    qed
    then show ?thesis using rel_spec s1(2) ok sp by simp
  next
    case True
    have prem: "set is \<subseteq> {..<length (slots C1)}" "distinct is" "length is = length ds"
      "\<forall>j \<in> set is. \<not> is_processing (slots C1 ! j)" "\<forall>c \<in> set ds. id_parent c = p"
      using Cons.prems(3-7) s1(2) by (auto simp: cs s2)
    have run: "launch_children E now p is ds C1 = Inr (ok, C')" using r True by simp
    note ih = Cons.IH [OF run ok1 prem]
    have fam: "in_family p (slots C1 ! i)" and tk: "task (slots C1 ! i) = Some (task_of_child c)"
      using sp True Cons.prems(7) by (auto simp: in_family_def is_processing_def cs)
    show ?thesis
    proof (cases ok)
      case ok: True
      have "others_same (set (i # is)) C C'"
        using ih ok s1 by (auto simp: others_same_def)
      moreover have "task (slots C' ! i) = Some (task_of_child c)"
        using ih ok i(2) tk by (auto simp: others_same_def)
      ultimately show ?thesis using ih ok sp s1 by (simp add: cs)
    next
      case ok: False
      have "family_gone p (set (i # is)) C C'"
      proof (rule family_goneI)
        fix j
        assume "j < length (slots C)"
        then show "if j \<in> set (i # is) \<or> in_family p (slots C ! j) then \<not> is_processing (slots C' ! j)
              else slots C' ! j = slots C ! j"
          using ih ok s1 fam family_goneD [of p "set is" C1 C' j] by (cases "j = i") auto
      qed
      then show ?thesis using ih ok sp s1 by simp
    qed
  qed
qed (auto simp: in_family_def)

lemma launch_parent_spec:
  assumes "launch_slots_with_parent_task E now i is t C = Inr (ok, C')" "slots_ok C" "set (i # is) \<subseteq> {..<length (slots C)}"
    "distinct (i # is)" "\<forall>j \<in> set is. \<not> is_processing (slots C ! j)" "\<forall>c \<in> set (child_tasks t). id_parent c = task_id t"
  shows "slots_ok C' \<and> length (slots C') = length (slots C) \<and> params_base C' = params_base C
    \<and> (if ok then others_same (set (i # is)) C C' \<and> task (slots C' ! i) = Some t
          \<and> map (\<lambda>j. task (slots C' ! j)) is = map (\<lambda>c. Some (task_of_child c)) (child_tasks t)
       else family_gone (task_id t) (set (i # is)) C C')"
proof -
  from assms(1) have i: "\<not> is_processing (slots C ! i)" and len: "length is = length (child_tasks t)"
    by (auto simp: launch_slots_with_parent_task_def split: if_splits)
  from assms(1) obtain ok1 C1 where c: "launch_children E now (task_id t) is (child_tasks t) C = Inr (ok1, C1)"
    and r: "(if \<not> ok1 then Inr (False, C1)
        else rbind (launch_slot_with_task E i t C1) (\<lambda>(ok, C).
          if ok then Inr (True, C)
          else rbind (release_family now (task_id t) [0..<length (slots C)] C) (\<lambda>C. Inr (False, C)))) = Inr (ok, C')"
  proof -
    from assms(1) have "rbind (launch_children E now (task_id t) is (child_tasks t) C) (\<lambda>(ok1, C1).
        if \<not> ok1 then Inr (False, C1)
        else rbind (launch_slot_with_task E i t C1) (\<lambda>(ok, C).
          if ok then Inr (True, C)
          else rbind (release_family now (task_id t) [0..<length (slots C)] C) (\<lambda>C. Inr (False, C)))) = Inr (ok, C')"
      by (simp add: launch_slots_with_parent_task_def split: if_splits)
    then show ?thesis using that unfolding rbind_Inr_iff by auto
  qed
  have "set is \<subseteq> {..<length (slots C)}" "distinct is" using assms(3,4) by auto
  note sp1 = launch_children_spec [OF c assms(2) this len assms(5,6)]
  show ?thesis
  proof (cases ok1)
    case False
    have "family_gone (task_id t) (set (i # is)) C C1"
    proof (rule family_goneI)
      fix j
      assume "j < length (slots C)"
      then show "if j \<in> set (i # is) \<or> in_family (task_id t) (slots C ! j) then \<not> is_processing (slots C1 ! j)
              else slots C1 ! j = slots C ! j"
        using sp1 False i family_goneD [of "task_id t" "set is" C C1 j] by (cases "j = i") (auto simp: in_family_def split: if_splits)
    qed
    then show ?thesis using sp1 False r by simp
  next
    case True
    then obtain ok2 C2 where l: "launch_slot_with_task E i t C1 = Inr (ok2, C2)"
      and r2: "(if ok2 then Inr (True, C2)
          else rbind (release_family now (task_id t) [0..<length (slots C2)] C2) (\<lambda>C. Inr (False, C))) = Inr (ok, C')"
      using r by (auto simp: rbind_Inr_iff)
    have i1: "i < length (slots C1)" "i \<notin> set is" using sp1 assms(3,4) by auto
    note sp2 = launch_slot_spec [OF l i1(1)]
    have ok2: "slots_ok C2" using launch_slots_ok [OF l _ i1(1)] sp1 by blast
    have C1: "j \<notin> set is \<Longrightarrow> slots C1 ! j = slots C ! j" "length (slots C1) = length (slots C)" for j
      using sp1 True by (auto simp: others_same_def)
    have C2: "j \<noteq> i \<Longrightarrow> slots C2 ! j = slots C1 ! j" "length (slots C2) = length (slots C)" for j
      using sp2 C1 by (auto simp: others_same_def)
    have kids: "map (\<lambda>j. task (slots C1 ! j)) is = map (\<lambda>c. Some (task_of_child c)) (child_tasks t)"
      using sp1 True by simp
    show ?thesis
    proof (cases ok2)
      case ok: True
      have "map (\<lambda>j. task (slots C2 ! j)) is = map (\<lambda>j. task (slots C1 ! j)) is"
        using C2(1) i1(2) by (intro map_cong refl) metis
      then show ?thesis using r2 ok sp1 sp2 ok2 C1 C2 kids True by (auto simp: others_same_def)
    next
      case False
      then obtain rel: "release_family now (task_id t) [0..<length (slots C2)] C2 = Inr C'" and ok: "\<not> ok"
        using r2 by (auto simp: rbind_Inr_iff)
      note sp3 = release_family_all [OF rel ok2]
      have "family_gone (task_id t) (set (i # is)) C C'"
      proof (rule family_goneI)
        fix j
        assume j: "j < length (slots C)"
        note rj = family_goneD [of "task_id t" "{}" C2 C' j]
        consider "j = i" | "j \<in> set is" "j \<noteq> i" | "j \<notin> set is" "j \<noteq> i" by blast
        then show "if j \<in> set (i # is) \<or> in_family (task_id t) (slots C ! j) then \<not> is_processing (slots C' ! j)
              else slots C' ! j = slots C ! j"
        proof cases
          case 1
          have "\<not> is_processing (slots C2 ! i)"
            using sp2 False i C1(1) [OF i1(2)] same_job_processing by auto
          then show ?thesis using rj sp3 1 j C2(2) by (auto simp: in_family_def split: if_splits)
        next
          case 2
          then obtain k where k: "k < length is" "j = is ! k" by (auto simp: in_set_conv_nth)
          from arg_cong [OF kids, of "\<lambda>xs. xs ! k"] k len assms(6)
          obtain c where "task (slots C1 ! j) = Some (task_of_child c)" "id_parent c = task_id t"
            by auto
          then have "in_family (task_id t) (slots C2 ! j) \<or> \<not> is_processing (slots C2 ! j)"
            using C2(1) [OF 2(2)] by (auto simp: in_family_def)
          then show ?thesis using rj sp3 2 j C2(2) by (auto split: if_splits simp: in_family_def)
        next
          case 3
          then show ?thesis using rj sp3 3 j C1 C2 by (auto split: if_splits simp: in_family_def)
        qed
      qed
      then show ?thesis using sp1 sp2 sp3 ok C1 C2 by simp
    qed
  qed
qed

lemma get_free_slots_spec:
  assumes "distinct free" "set free \<subseteq> {..<i}" "length free < needed"
  shows "distinct (get_free_slots i ss needed excl free) \<and> length (get_free_slots i ss needed excl free) \<le> needed
    \<and> set (get_free_slots i ss needed excl free)
        \<subseteq> set free \<union> {i + k |k. k < length ss \<and> \<not> is_processing (ss ! k) \<and> sl_id (ss ! k) \<noteq> excl}"
  using assms
proof (induction ss arbitrary: i free)
  case (Cons s ss)
  define fr where "fr = (if \<not> is_processing s \<and> sl_id s \<noteq> excl then free @ [i] else free)"
  have fr: "distinct fr" "set fr \<subseteq> {..<Suc i}" "length fr \<le> needed"
    and sub: "set fr \<subseteq> set free \<union> {i + k |k. k < length (s # ss) \<and> \<not> is_processing ((s # ss) ! k) \<and> sl_id ((s # ss) ! k) \<noteq> excl}"
    using Cons.prems by (auto simp: fr_def intro: exI [of _ "0::nat"])
  have eq: "get_free_slots i (s # ss) needed excl free
      = (if length fr \<ge> needed then fr else get_free_slots (Suc i) ss needed excl fr)"
    by (simp add: fr_def)
  show ?case
  proof (cases "length fr \<ge> needed")
    case True
    then show ?thesis using fr sub unfolding eq by (simp del: get_free_slots.simps)
  next
    case False
    have "{Suc i + k |k. k < length ss \<and> \<not> is_processing (ss ! k) \<and> sl_id (ss ! k) \<noteq> excl}
        \<subseteq> {i + k |k. k < length (s # ss) \<and> \<not> is_processing ((s # ss) ! k) \<and> sl_id ((s # ss) ! k) \<noteq> excl}"
      by (auto intro: exI [of _ "Suc _"])
    then show ?thesis using Cons.IH [OF fr(1,2)] False sub unfolding eq by (simp del: get_free_slots.simps) blast
  qed
qed simp

lemma offload_idle_frame:
  assumes "offload_idle E i C = Inr C'"
  shows "params_base C' = params_base C \<and> jobs_kept C C' \<and> others_same {i} C C'
    \<and> (is_processing (slots C ! i) \<longrightarrow> C' = C)"
proof (cases "is_processing (slots C ! i)")
  case False
  have "slots C' = slots C \<or> slots C' = (slots C)[i := fst (slot_prompt_clear (slots C ! i))]" "params_base C' = params_base C"
    using assms False
    by (auto simp: offload_idle_def rbind_Inr_iff Let_def split: option.splits if_splits prod.splits)
  then show ?thesis using False
    by (auto simp: others_same_def jobs_kept_def nth_update)
qed (use assms in \<open>simp add: offload_idle_def\<close>)

lemma offload_all_frame:
  assumes "offload_all E is C = Inr C'"
  shows "params_base C' = params_base C \<and> jobs_kept C C'
    \<and> (\<forall>j < length (slots C). is_processing (slots C ! j) \<longrightarrow> slots C' ! j = slots C ! j)"
  using assms
proof (induction "is" arbitrary: C)
  case (Cons i "is")
  then obtain C1 where o: "offload_idle E i C = Inr C1" "offload_all E is C1 = Inr C'"
    by (auto simp: rbind_Inr_iff)
  note f = offload_idle_frame [OF o(1)]
  note ih = Cons.IH [OF o(2)]
  have "slots C' ! j = slots C ! j" if "j < length (slots C)" "is_processing (slots C ! j)" for j
  proof -
    have "slots C1 ! j = slots C ! j" using f that by (cases "j = i") (auto simp: others_same_def)
    then show ?thesis using ih that f by (simp add: others_same_def)
  qed
  then show ?case using f ih jobs_kept_trans by auto
qed simp

section \<open>Tasks that need a slot\<close>

lemma find_upt_Some: "find P [0..<n] = Some i \<Longrightarrow> i < n \<and> P i"
  by (auto simp: find_Some_iff)

lemma get_available_slot_range:
  assumes "get_available_slot E t C = Inr (Some i, C')"
  shows "i < length (slots C)"
proof -
  from assms obtain ret0 ret1 where
    0: "if id_slot t \<noteq> -1 then get_slot_by_id (id_slot t) C = Inr ret0 else ret0 = None" and
    1: "ret1 = ret0 \<or> (\<exists>k < length (slots C). ret1 = Some k)" and
    r: "Some i = (if ret1 = None then lru_slot 0 (slots C) None (- 1) else ret1)"
    by (elim get_available_slot_cases) auto
  have "ret0 = Some k \<Longrightarrow> k < length (slots C)" for k
    using 0 by (auto simp: get_slot_by_id_def Let_def dest!: find_upt_Some split: if_splits)
  then show ?thesis using 1 r lru_slot_Some [of "slots C"] by (auto split: if_splits)
qed

text \<open>How a task that needs a slot ends: deferred, or launched with the children in \<open>is\<close>.\<close>

lemma process_slot_task_cases:
  assumes "process_slot_task E now t C = Inr C'" "slots_ok C"
  obtains (deferred) r C1 where "get_available_slot E t C = Inr (r, C1)" "C' = defer_to now t C1"
  | (launched) i "is" C1 ok C2 where "get_available_slot E t C = Inr (Some i, C1)" "i < length (slots C)"
      "\<not> is_processing (slots C1 ! i)" "set (i # is) \<subseteq> {..<length (slots C1)}" "distinct (i # is)"
      "\<forall>j \<in> set is. \<not> is_processing (slots C1 ! j)"
      "(if is_parent t then launch_slots_with_parent_task E now i is t C1 else launch_slot_with_task E i t C1) = Inr (ok, C2)"
      "C' = C2 \<or> ok \<and> offload_all E [0..<length (slots C2)] C2 = Inr C'"
proof -
  from assms(1) obtain r C1 where g: "get_available_slot E t C = Inr (r, C1)"
    and k: "(case r of
       None \<Rightarrow> Inr (defer_to now t C1)
     | Some i \<Rightarrow>
         if is_processing (slots C1 ! i) then Inr (defer_to now t C1)
         else
           let children = get_free_slots 0 (slots C1) (length (child_tasks t)) (sl_id (slots C1 ! i)) []
           in if is_parent t \<and> length children < length (child_tasks t) then Inr (defer_to now t C1)
              else rbind (if is_parent t then launch_slots_with_parent_task E now i children t C1
                          else launch_slot_with_task E i t C1) (\<lambda>(ok, C).
                if ok \<and> cache_idle_slots (params_base C) then offload_all E [0..<length (slots C)] C else Inr C)) = Inr C'"
    unfolding process_slot_task_def rbind_Inr_iff by auto
  show ?thesis
  proof (cases "C' = defer_to now t C1")
    case True
    then show ?thesis using deferred g by blast
  next
    case False
    then obtain i where r: "r = Some i" and idle: "\<not> is_processing (slots C1 ! i)"
      using k by (auto split: option.splits if_splits)
    define cs where "cs = get_free_slots 0 (slots C1) (length (child_tasks t)) (sl_id (slots C1 ! i)) []"
    obtain ok C2 where
      l: "(if is_parent t then launch_slots_with_parent_task E now i cs t C1 else launch_slot_with_task E i t C1) = Inr (ok, C2)"
      and o: "(if ok \<and> cache_idle_slots (params_base C2) then offload_all E [0..<length (slots C2)] C2 else Inr C2) = Inr C'"
    proof -
      have "rbind (if is_parent t then launch_slots_with_parent_task E now i cs t C1
                          else launch_slot_with_task E i t C1) (\<lambda>(ok, C).
                if ok \<and> cache_idle_slots (params_base C) then offload_all E [0..<length (slots C)] C else Inr C) = Inr C'"
        using k r idle False by (simp add: cs_def Let_def split: if_splits)
      then show ?thesis using that unfolding rbind_Inr_iff by auto
    qed
    have ok1: "slots_ok C1" using get_available_slot_frame [OF g] slots_ok_jobs_kept assms(2) by blast
    have len: "length (slots C1) = length (slots C)" using get_available_slot_frame [OF g] by (simp add: jobs_kept_def)
    have i: "i < length (slots C)" using get_available_slot_range g r by blast
    define ks where "ks = (if is_parent t then cs else [])"
    have "distinct cs \<and> set cs \<subseteq> {k. k < length (slots C1) \<and> \<not> is_processing (slots C1 ! k) \<and> sl_id (slots C1 ! k) \<noteq> sl_id (slots C1 ! i)}"
      if "is_parent t"
      using get_free_slots_spec [of "[]" 0 "length (child_tasks t)" "slots C1" "sl_id (slots C1 ! i)"] that
      by (simp add: cs_def is_parent_def)
    then have "distinct (i # ks)" "set (i # ks) \<subseteq> {..<length (slots C1)}" "\<forall>j \<in> set ks. \<not> is_processing (slots C1 ! j)"
      using i len by (auto simp: ks_def)
    then show ?thesis
      using launched [of i C1 ks ok C2] g r i idle l o by (auto simp: ks_def split: if_splits)
  qed
qed

text \<open>A launch leaves every running slot alone that is of another family.\<close>

lemma launch_running:
  assumes "(if is_parent t then launch_slots_with_parent_task E now i is t C else launch_slot_with_task E i t C) = Inr (ok, C')"
    "slots_ok C" "set (i # is) \<subseteq> {..<length (slots C)}" "distinct (i # is)" "\<not> is_processing (slots C ! i)"
    "\<forall>j \<in> set is. \<not> is_processing (slots C ! j)" "\<forall>c \<in> set (child_tasks t). id_parent c = task_id t"
  shows "slots_ok C' \<and> length (slots C') = length (slots C)
    \<and> (\<forall>j < length (slots C). is_processing (slots C ! j) \<and> (is_parent t \<longrightarrow> \<not> in_family (task_id t) (slots C ! j))
          \<longrightarrow> slots C' ! j = slots C ! j)"
proof (cases "is_parent t")
  case True
  then have l: "launch_slots_with_parent_task E now i is t C = Inr (ok, C')" using assms(1) by simp
  note sp = launch_parent_spec [OF l assms(2-4,6,7)]
  have "slots C' ! j = slots C ! j"
    if "j < length (slots C)" "is_processing (slots C ! j)" "\<not> in_family (task_id t) (slots C ! j)" for j
  proof -
    have "j \<notin> set (i # is)" using that(2) assms(5,6) by auto
    then show ?thesis using sp that(1,3) family_goneD [of "task_id t" "set (i # is)" C C' j]
      by (cases ok) (auto simp: others_same_def)
  qed
  then show ?thesis using sp True by blast
next
  case False
  then have l: "launch_slot_with_task E i t C = Inr (ok, C')" using assms(1) by simp
  have i: "i < length (slots C)" using assms(3) by simp
  have "slots C' ! j = slots C ! j" if "is_processing (slots C ! j)" for j
    using launch_slot_spec [OF l i] that assms(5) by (auto simp: others_same_def)
  then show ?thesis using launch_slots_ok [OF l assms(2) i] launch_slot_spec [OF l i] by (simp add: others_same_def)
qed

text \<open>
  Property C6.  A task that asks for no particular slot leaves every running slot exactly as it is,
  its prompt included, whatever becomes of the task.  The ids of a family are new.
\<close>

theorem busy_slots_untouched:
  assumes "process_slot_task E now t C = Inr C'" "slots_ok C" "id_slot t = -1"
    "\<forall>c \<in> set (child_tasks t). id_parent c = task_id t"
    "\<forall>s \<in> set (slots C). \<not> in_family (task_id t) s"
    "j < length (slots C)" "is_processing (slots C ! j)"
  shows "slots C' ! j = slots C ! j"
  using assms(1,2)
proof (cases rule: process_slot_task_cases)
  case (deferred r C1)
  then show ?thesis using slot_choice [OF deferred(1) assms(3)] assms(7) by auto
next
  case (launched i "is" C1 ok C2)
  note ch = slot_choice [OF launched(1) assms(3)]
  have C1: "slots C1 ! j = slots C ! j" using ch assms(7) by auto
  have ok1: "slots_ok C1" using get_available_slot_frame [OF launched(1)] slots_ok_jobs_kept assms(2) by blast
  have len: "length (slots C1) = length (slots C)"
    using get_available_slot_frame [OF launched(1)] by (simp add: jobs_kept_def)
  note run = launch_running [OF launched(7) ok1 launched(4,5,3,6) assms(4)]
  have "slots C2 ! j = slots C1 ! j" using run assms(5-7) C1 len by auto
  then have C2: "slots C2 ! j = slots C ! j" using C1 by simp
  show ?thesis
    using launched(8) offload_all_frame [of E "[0..<length (slots C2)]" C2 C'] C2 assms(6,7) run len by auto
qed

text \<open>
  Property C5.  A parent task starts together with all of its children or not at all: afterwards either no
  slot runs a task of the family, or one slot runs the parent and as many others as there are children run
  them, in order.
\<close>

theorem parent_all_or_nothing:
  assumes "process_slot_task E now t C = Inr C'" "slots_ok C" "is_parent t"
    "\<forall>c \<in> set (child_tasks t). id_parent c = task_id t"
    "\<forall>s \<in> set (slots C). \<not> in_family (task_id t) s"
  shows "(\<forall>s \<in> set (slots C'). \<not> in_family (task_id t) s)
    \<or> (\<exists>i is. distinct (i # is) \<and> set (i # is) \<subseteq> {..<length (slots C')} \<and> task (slots C' ! i) = Some t
         \<and> map (\<lambda>j. task (slots C' ! j)) is = map (\<lambda>c. Some (task_of_child c)) (child_tasks t))"
  using assms(1,2)
proof (cases rule: process_slot_task_cases)
  case (deferred r C1)
  have "jobs_kept C C1" using get_available_slot_frame [OF deferred(1)] by blast
  from in_family_jobs_kept [OF this, of "task_id t"] show ?thesis
    using assms(5) deferred(2) by simp
next
  case (launched i "is" C1 ok C2)
  have kept: "jobs_kept C C1" using get_available_slot_frame [OF launched(1)] by blast
  then have fam: "\<not> in_family (task_id t) (slots C1 ! j)" if "j < length (slots C1)" for j
    using assms(5) that in_family_jobs_kept [OF kept, of "task_id t"] nth_mem by blast
  have ok1: "slots_ok C1" using kept slots_ok_jobs_kept assms(2) by blast
  have l: "launch_slots_with_parent_task E now i is t C1 = Inr (ok, C2)" using launched(7) assms(3) by simp
  note sp = launch_parent_spec [OF l ok1 launched(4-6) assms(4)]
  have C': "jobs_kept C2 C'"
    using launched(8) offload_all_frame by auto
  show ?thesis
  proof (cases ok)
    case True
    have same: "j \<in> set (i # is) \<Longrightarrow> task (slots C' ! j) = task (slots C2 ! j)" for j
      using C' launched(4) sp by (auto simp: jobs_kept_def same_job_def)
    have "map (\<lambda>j. task (slots C' ! j)) is = map (\<lambda>j. task (slots C2 ! j)) is"
      using same by (intro map_cong refl) simp
    then show ?thesis using sp True same [of i] launched(4,5) C' by (intro disjI2 exI [of _ i] exI [of _ "is"]) (auto simp: jobs_kept_def)
  next
    case False
    have "\<not> in_family (task_id t) (slots C2 ! j)" if "j < length (slots C2)" for j
      using family_goneD [of "task_id t" "set (i # is)" C1 C2 j] sp False that fam [of j]
      by (auto simp: in_family_def split: if_splits)
    then show ?thesis using False launched(8) by (auto simp: in_set_conv_nth)
  qed
qed

section \<open>Every task keeps the slots well formed\<close>

lemma process_slot_task_slots_ok:
  assumes "process_slot_task E now t C = Inr C'" "slots_ok C" "\<forall>c \<in> set (child_tasks t). id_parent c = task_id t"
  shows "slots_ok C'"
  using assms(1,2)
proof (cases rule: process_slot_task_cases)
  case (deferred r C1)
  have "jobs_kept C C1" using get_available_slot_frame [OF deferred(1)] by blast
  then have "slots_ok C1" using slots_ok_jobs_kept assms(2) by blast
  then show ?thesis using deferred(2) by (simp add: slots_ok_def)
next
  case (launched i "is" C1 ok C2)
  have "slots_ok C1" using get_available_slot_frame [OF launched(1)] slots_ok_jobs_kept assms(2) by blast
  from launch_running [OF launched(7) this launched(4,5,3,6) assms(3)] have "slots_ok C2" by blast
  then show ?thesis using launched(8) offload_all_frame slots_ok_jobs_kept by blast
qed

lemma slots_ok_slots: "slots C' = slots C \<Longrightarrow> slots_ok C' = slots_ok C"
  by (simp add: slots_ok_def)

lemma send_error_slots_ok: "send_error t e ty C = Inr C' \<Longrightarrow> slots_ok C \<Longrightarrow> slots_ok C'"
  using send_error_frame [of t e ty C C'] slots_ok_slots [of C' C] by blast

lemma task_cancel_slots_ok: "task_cancel now t C = Inr C' \<Longrightarrow> slots_ok C \<Longrightarrow> slots_ok C'"
  using release_slots_ok by (auto simp: task_cancel_def dest!: find_upt_Some split: option.splits)

lemma task_control_jobs_kept: "jobs_kept C (task_control t C)"
  by (auto simp: task_control_def Let_def same_job_def jobs_kept_def nth_update split: option.splits)

lemma with_slot_slots_ok:
  assumes "with_slot now t body C = Inr C'" "slots_ok C"
    "\<And>i C'. body i C = Inr C' \<Longrightarrow> i < length (slots C) \<Longrightarrow> \<not> is_processing (slots C ! i) \<Longrightarrow> slots_ok C'"
  shows "slots_ok C'"
proof -
  from assms(1) obtain r where r: "get_slot_by_id (sa_id_slot (slot_action_of t)) C = Inr r"
    "(case r of
       None \<Rightarrow> send_error t ''Invalid slot ID'' ERROR_INVALID_REQUEST C
     | Some i \<Rightarrow> if is_processing (slots C ! i) then Inr (defer_to now t C) else body i C) = Inr C'"
    unfolding with_slot_def rbind_Inr_iff by blast
  show ?thesis
  proof (cases r)
    case None
    then have "send_error t ''Invalid slot ID'' ERROR_INVALID_REQUEST C = Inr C'" using r(2) by simp
    then show ?thesis using send_error_slots_ok assms(2) by blast
  next
    case (Some i)
    then have "i < length (slots C)" using r(1)
      by (auto simp: get_slot_by_id_def Let_def dest!: find_upt_Some split: if_splits)
    moreover have "slots_ok (defer_to now t C)" using assms(2) by (simp add: slots_ok_def)
    ultimately show ?thesis using r(2) Some assms(3) by (auto split: if_splits)
  qed
qed

lemma task_slot_save_slots: "task_slot_save E tm t i C = Inr C' \<Longrightarrow> slots C' = slots C"
  by (auto simp: task_slot_save_def Let_def dest!: send_error_frame split: sum.splits failure.splits if_splits)

text \<open>Restoring ends with an empty prompt and an error, or with the prompt of the file.\<close>

lemma task_slot_restore_cases:
  assumes "task_slot_restore E tm t i C = Inr C'"
  shows "(\<exists>e m. load_slot_file E (sa_filepath (slot_action_of t)) (slots C ! i) = Inl (Throw e)
        \<and> slots C' = (slots C)[i := fst (slot_prompt_clear (slots C ! i))]
        \<and> error_msg (task_id t) (''Unable to restore slot: '' @ e) ERROR_INVALID_REQUEST 0 0 = Inr m
        \<and> results_queue C' = send m (results_queue C))
    \<or> (\<exists>n st. load_slot_file E (sa_filepath (slot_action_of t)) (slots C ! i) = Inr (n, st)
        \<and> slots C' = (slots C)[i := (slots C ! i)\<lparr>prompt := (prompt_clear (prompt (slots C ! i)))\<lparr>pr_tokens := st\<rparr>\<rparr>]
        \<and> results_queue C' = send (mk_msg (task_id t) 0 (Slot_save_load (sa_id_slot (slot_action_of t))
             (sa_filename (slot_action_of t)) False (st_size st) n tm)) (results_queue C))"
  using assms
  by (auto simp: task_slot_restore_def Let_def send_error_def rbind_Inr_iff split: sum.splits failure.splits prod.splits)

lemma process_single_task_slots_ok_step:
  assumes "process_single_task E now tm t y C = Inr (done, C')" "slots_ok C"
    "\<forall>c \<in> set (child_tasks t). id_parent c = task_id t"
  shows "slots_ok C'"
proof -
  have pst: "slots_ok C'" if "process_slot_task E now u C = Inr C'" "child_tasks u = child_tasks t" "task_id u = task_id t" for u
    using process_slot_task_slots_ok [OF that(1) assms(2)] that assms(3) by simp
  have sl: "slots_ok C'" if "slots C' = slots C" using that slots_ok_slots assms(2) by blast
  have rs: "slots_ok D" if "task_slot_restore E tm t i C = Inr D" "i < length (slots C)" for i D
  proof -
    have "\<exists>p. slots D = (slots C)[i := (slots C ! i)\<lparr>prompt := p\<rparr>]"
      using task_slot_restore_cases [OF that(1)] by (auto simp: slot_prompt_clear_def)
    then show ?thesis using slots_ok_jobs_kept [OF jobs_kept_set_slot assms(2)] same_job_prompt by blast
  qed
  have es: "slots_ok D" if "task_slot_erase t i C = Inr D" for i D
    using that slots_ok_jobs_kept [OF jobs_kept_set_slot [of D C i "fst (slot_prompt_clear (slots C ! i))"] assms(2)]
    by (auto simp: task_slot_erase_def Let_def split: prod.splits)
  have ss: "slots_ok D" if "task_slot_save E tm t i C = Inr D" for i D
    using task_slot_save_slots [OF that] slots_ok_slots assms(2) by blast
  have ctl: "slots_ok (task_control t C)" using task_control_jobs_kept slots_ok_jobs_kept assms(2) by blast
  have mt: "slots (task_metrics t C) = slots C" by (simp add: task_metrics_def Let_def)
  have slt: "slots_ok C'" if "(if cli t then
               (case ce_tokenize_cli E t of
                  Inl e \<Rightarrow> send_error t (''Failed to format input: '' @ e) ERROR_INVALID_REQUEST C
                | Inr ts \<Rightarrow> process_slot_task E now (t\<lparr>tokens := ts, cli_prompt := [], cli_files := []\<rparr>) C)
             else process_slot_task E now t C) = Inr C'"
  proof (cases "cli t")
    case True
    then show ?thesis using that pst send_error_slots_ok [OF _ assms(2)] by (cases "ce_tokenize_cli E t") auto
  next
    case False
    then show ?thesis using that pst by simp
  qed
  have lw: "slots_ok C'" if "with_slot now t body C = Inr C'"
      "\<And>i D. body i C = Inr D \<Longrightarrow> i < length (slots C) \<Longrightarrow> slots_ok D" for body
    using with_slot_slots_ok [OF that(1) assms(2)] that(2) by blast
  have send: "slots_ok (task_slot_get E t C)" "slots_ok (task_get_lora E t C)" "slots_ok (task_set_lora t C)" "slots_ok (task_metrics t C)"
    using assms(2) mt by (simp_all add: task_slot_get_def task_get_lora_def task_set_lora_def slots_ok_def)
  define run where "run =
        (case type_of_task t of
           TASK_CANCEL \<Rightarrow> task_cancel now t C
         | TASK_CONTROL \<Rightarrow> Inr (task_control t C)
         | TASK_NEXT_RESPONSE \<Rightarrow> Inr C
         | TASK_METRICS \<Rightarrow> Inr (task_metrics t C)
         | TASK_SLOT_GET \<Rightarrow> Inr (task_slot_get E t C)
         | TASK_SLOT_SAVE \<Rightarrow> with_slot now t (task_slot_save E tm t) C
         | TASK_SLOT_RESTORE \<Rightarrow> with_slot now t (task_slot_restore E tm t) C
         | TASK_SLOT_ERASE \<Rightarrow> with_slot now t (task_slot_erase t) C
         | TASK_GET_LORA \<Rightarrow> Inr (task_get_lora E t C)
         | TASK_SET_LORA \<Rightarrow> Inr (task_set_lora t C)
         | _ \<Rightarrow> (if cli t then
               (case ce_tokenize_cli E t of
                  Inl e \<Rightarrow> send_error t (''Failed to format input: '' @ e) ERROR_INVALID_REQUEST C
                | Inr ts \<Rightarrow> process_slot_task E now (t\<lparr>tokens := ts, cli_prompt := [], cli_files := []\<rparr>) C)
             else process_slot_task E now t C))"
  have "C' = C \<or> run = Inr C'"
    using assms(1) unfolding process_single_task_def run_def [symmetric] by (auto simp: rbind_Inr_iff split: if_splits)
  then show ?thesis
  proof
    assume "C' = C" then show ?thesis using assms(2) by simp
  next
    assume *: "run = Inr C'"
    show ?thesis
    proof (cases "type_of_task t")
      case TASK_SLOT_SAVE
      then show ?thesis using * lw [of "task_slot_save E tm t"] ss by (simp add: run_def)
    next
      case TASK_SLOT_RESTORE
      then show ?thesis using * lw [of "task_slot_restore E tm t"] rs by (simp add: run_def)
    next
      case TASK_SLOT_ERASE
      then show ?thesis using * lw [of "task_slot_erase t"] es by (simp add: run_def)
    next
      case TASK_CANCEL
      then show ?thesis using * task_cancel_slots_ok [OF _ assms(2)] by (simp add: run_def)
    qed (use * slt ctl send assms(2) in \<open>auto simp: run_def\<close>)
  qed
qed

text \<open>The tasks the queue hands over one after the other, each with the clock and the yielding flag.\<close>

fun serve :: "'c ctx_env \<Rightarrow> (int \<times> rat \<times> 'c server_task \<times> bool) list \<Rightarrow> 'c server_context \<Rightarrow> 'c server_context result" where
  "serve E [] C = Inr C"
| "serve E ((now, tm, t, y) # ts) C = rbind (process_single_task E now tm t y C) (\<lambda>(_, C). serve E ts C)"

text \<open>
  Property C4.  Whatever tasks of whatever kinds are processed, a slot works on a task exactly when it is
  not idle, so that \<open>release\<close>, \<open>send_error\<close> and the handlers never meet a running slot without a task;
  and the ids of the slots stay their positions.
\<close>

theorem tasks_keep_slots_ok:
  assumes "serve E ts C = Inr C'" "slots_ok C"
    "\<forall>(now, tm, t, y) \<in> set ts. \<forall>c \<in> set (child_tasks t). id_parent c = task_id t"
  shows "slots_ok C'"
  using assms
proof (induction ts arbitrary: C)
  case (Cons x ts)
  obtain now tm t y where x: "x = (now, tm, t, y)" by (cases x) auto
  with Cons.prems(1) obtain d C1 where r: "process_single_task E now tm t y C = Inr (d, C1)" "serve E ts C1 = Inr C'"
    by (auto simp: rbind_Inr_iff)
  have "slots_ok C1" using process_single_task_slots_ok_step [OF r(1) Cons.prems(2)] Cons.prems(3) x by auto
  then show ?case using Cons.IH [OF r(2)] Cons.prems(3) by auto
qed simp

text \<open>
  Property C32.  While an encode or decode runs on the worker thread only the tasks that read the state are
  taken.  Taking one sends one result under the id of the task, for the metrics what they are
  and how many slots are busy, and a metrics task that asks for it empties the two buckets; nothing
  else of the server changes, the slots, the queue, the batch, the totals of the metrics and the device among it.
\<close>

theorem yielding_reads_only:
  assumes "process_single_task E now tm t True C = Inr (taken, C')"
  shows "(taken \<longleftrightarrow> type_of_task t \<in> {TASK_METRICS, TASK_SLOT_GET}) \<and> (\<not> taken \<longrightarrow> C' = C)
      \<and> (taken \<longrightarrow> (\<exists>m. res_id m = task_id t
          \<and> (type_of_task t = TASK_METRICS \<longrightarrow>
              res_body m = Metrics (int (length (filter is_processing (slots C)))) (int (length (queue_tasks_deferred (tasks_queue C)))) (metrics C))
          \<and> C' = C\<lparr>results_queue := send m (results_queue C),
                   metrics := (if type_of_task t = TASK_METRICS \<and> metrics_reset_bucket t
                     then (metrics C)\<lparr>prompt_bucket := bucket_zero, predict_bucket := bucket_zero\<rparr> else metrics C)\<rparr>))"
proof (cases "type_of_task t = TASK_METRICS \<or> type_of_task t = TASK_SLOT_GET")
  case False
  then show ?thesis using assms by (simp add: process_single_task_def)
next
  case True
  let ?counts = "Metrics (int (length (filter is_processing (slots C)))) (int (length (queue_tasks_deferred (tasks_queue C)))) (metrics C)"
  let ?shown = "Slots (int (length (filter (\<lambda>s. \<not> is_processing s) (slots C))))
      (JArr (map (slot_to_json (ce_gen E) (\<not> ge_slots_debug (ce_gen E))) (slots C)))"
  let ?m = "mk_msg (task_id t) 0 (if type_of_task t = TASK_METRICS then ?counts else ?shown)"
  have "taken" "C' = C\<lparr>results_queue := send ?m (results_queue C),
      metrics := (if type_of_task t = TASK_METRICS \<and> metrics_reset_bucket t
        then (metrics C)\<lparr>prompt_bucket := bucket_zero, predict_bucket := bucket_zero\<rparr> else metrics C)\<rparr>"
    using True assms
    by (cases C; auto simp: process_single_task_def task_metrics_def task_slot_get_def send_to_def n_busy_def reset_bucket_def Let_def)+
  moreover have "res_id ?m = task_id t" "type_of_task t = TASK_METRICS \<longrightarrow> res_body ?m = ?counts"
    by (simp_all add: mk_msg_def)
  ultimately show ?thesis using True by blast
qed

text \<open>
  Property C31.  Restoring the prompt of a slot answers with exactly one result: the prompt of the file, which
  fits into the slot and is valid, or an error, and then the slot has no prompt and no checkpoints left.
\<close>

theorem restore_valid_or_empty:
  assumes "task_slot_restore E tm t i C = Inr C'" "i < length (slots C)"
  shows "\<exists>m. results_queue C' = send m (results_queue C) \<and> res_id m = task_id t
    \<and> (\<forall>j. j \<noteq> i \<longrightarrow> slots C' ! j = slots C ! j)
    \<and> (case load_slot_file E (sa_filepath (slot_action_of t)) (slots C ! i) of
         Inl _ \<Rightarrow> (\<exists>e. res_body m = Error ERROR_INVALID_REQUEST e 0 0) \<and> prompt_n_tokens (prompt (slots C' ! i)) = 0
       | Inr (_, st) \<Rightarrow> pr_tokens (prompt (slots C' ! i)) = st \<and> int (st_size st) \<le> sl_n_ctx (slots C ! i)
           \<and> validate (ce_mtmd E) (ce_n_vocab E) st)
    \<and> pr_checkpoints (prompt (slots C' ! i)) = []"
proof -
  have fits: "int (st_size st) \<le> sl_n_ctx (slots C ! i) \<and> validate (ce_mtmd E) (ce_n_vocab E) st"
    if "load_slot_file E (sa_filepath (slot_action_of t)) (slots C ! i) = Inr (n, st)" for n st
    using that by (auto simp: load_slot_file_def Let_def rbind_Inr_iff split: prod.splits if_splits)
  show ?thesis
    using task_slot_restore_cases [OF assms(1)]
  proof (elim disjE exE conjE)
    fix e m
    assume "load_slot_file E (sa_filepath (slot_action_of t)) (slots C ! i) = Inl (Throw e)"
      "slots C' = (slots C)[i := fst (slot_prompt_clear (slots C ! i))]"
      "error_msg (task_id t) (''Unable to restore slot: '' @ e) ERROR_INVALID_REQUEST 0 0 = Inr m"
      "results_queue C' = send m (results_queue C)"
    then show ?thesis using assms(2)
      by (intro exI [of _ m])
        (auto simp: slot_prompt_clear_def prompt_clear_def prompt_n_tokens_def st_clear_def st_size_def error_msg_def mk_msg_def)
  next
    fix n st
    assume l: "load_slot_file E (sa_filepath (slot_action_of t)) (slots C ! i) = Inr (n, st)"
      "slots C' = (slots C)[i := (slots C ! i)\<lparr>prompt := (prompt_clear (prompt (slots C ! i)))\<lparr>pr_tokens := st\<rparr>\<rparr>]"
      "results_queue C' = send (mk_msg (task_id t) 0 (Slot_save_load (sa_id_slot (slot_action_of t))
             (sa_filename (slot_action_of t)) False (st_size st) n tm)) (results_queue C)"
    then show ?thesis using assms(2) fits [OF l(1)]
      by (intro exI conjI) (auto simp: prompt_clear_def mk_msg_def)
  qed
qed

definition task_ids_unique :: "'c server_context \<Rightarrow> bool" where
  "task_ids_unique C \<longleftrightarrow> (\<forall>j < length (slots C). \<forall>k < length (slots C). \<forall>u v.
     task (slots C ! j) = Some u \<and> task (slots C ! k) = Some v \<and> task_id u = task_id v \<longrightarrow> j = k)"

definition works_on :: "int \<Rightarrow> 'c slot \<Rightarrow> bool" where
  "works_on k s = (case task s of None \<Rightarrow> False | Some u \<Rightarrow> task_id u = k)"

text \<open>
  A cancel task frees the slot that works on its target and only that slot, and nothing is sent.
\<close>

theorem cancel_frees_target:
  assumes "task_cancel now t C = Inr C'" "slots_ok C" "task_ids_unique C" "j < length (slots C)"
  shows "(if works_on (id_target t) (slots C ! j) then \<not> is_processing (slots C' ! j) \<and> task (slots C' ! j) = None
      else slots C' ! j = slots C ! j) \<and> results_queue C' = results_queue C"
proof -
  let ?P = "\<lambda>i. case task (slots C ! i) of None \<Rightarrow> False | Some u \<Rightarrow> task_id u = id_target t"
  show ?thesis
  proof (cases "find ?P [0..<length (slots C)]")
    case None
    then have "C' = C" using assms(1) by (simp add: task_cancel_def)
    moreover have "\<not> works_on (id_target t) (slots C ! j)"
      using None assms(4) by (simp add: find_None_iff works_on_def)
    ultimately show ?thesis by simp
  next
    case (Some i)
    from find_upt_Some [OF Some] obtain u where i: "i < length (slots C)" "task (slots C ! i) = Some u" "task_id u = id_target t"
      by (auto split: option.splits)
    have r: "release now i C = Inr C'" using assms(1) Some by (simp add: task_cancel_def)
    have "is_processing (slots C ! i)" using slots_ok_nth [OF assms(2) i(1)] i(2) by (simp add: slot_ok_def)
    then have sp: "others_same {i} C C'" "\<not> is_processing (slots C' ! i)" "task (slots C' ! i) = None" "results_queue C' = results_queue C"
      using release_spec [OF r i(1)] by auto
    show ?thesis
    proof (cases "j = i")
      case True
      then show ?thesis using sp i by (simp add: works_on_def)
    next
      case False
      then have "\<not> works_on (id_target t) (slots C ! j)"
        using assms(3,4) i by (auto simp: task_ids_unique_def works_on_def split: option.splits)
      then show ?thesis using sp False by (simp add: others_same_def)
    qed
  qed
qed

section \<open>Checkpoints\<close>

lemma evict_close_subseq: "\<exists>ds. evict_close k st mx l kept cs = kept @ ds \<and> subseq ds cs"
proof (induction k st mx l kept cs rule: evict_close.induct)
  case (2 k st mx l kept c cs)
  show ?case
  proof (cases "length (kept @ c # cs) + 1 \<ge> mx")
    case True
    show ?thesis
    proof (cases "ck_id_task c \<noteq> k \<and> l \<ge> 0 \<and> ck_n_tokens c \<le> l + st")
      case close: True
      then show ?thesis using 2(1) [OF True close] True by auto
    next
      case False
      from 2(2) [OF True False] obtain ds where
        "evict_close k st mx (ck_n_tokens c) (kept @ [c]) cs = (kept @ [c]) @ ds" "subseq ds cs" by blast
      moreover have "evict_close k st mx l kept (c # cs) = evict_close k st mx (ck_n_tokens c) (kept @ [c]) cs"
        using True by (subst evict_close.simps, simp only: if_True if_not_P [OF False])
      ultimately have "evict_close k st mx l kept (c # cs) = kept @ c # ds" "subseq (c # ds) (c # cs)" by auto
      then show ?thesis by blast
    qed
  qed auto
qed auto

lemma evict_oldest_spec: "evict_oldest mx cs = Inr ds \<Longrightarrow> subseq ds cs \<and> length ds < mx"
  by (induction mx cs rule: evict_oldest.induct) (auto split: if_splits)

text \<open>
  A new checkpoint is the last one and the only one of its length; the checkpoints before it
  are checkpoints that were there already, in their order, and all together they stay within the limit.
\<close>

theorem create_checkpoint_bounded:
  assumes "create_checkpoint E i n pmin pmax C = Inr C'" "i < length (slots C)"
  shows "\<exists>cs c. pr_checkpoints (prompt (slots C' ! i)) = cs @ [c]
    \<and> subseq cs (pr_checkpoints (prompt (slots C ! i)))
    \<and> ck_n_tokens c = int (prompt_n_tokens (prompt (slots C ! i))) - n \<and> ck_n_tokens c \<notin> ck_n_tokens ` set cs
    \<and> length (cs @ [c]) \<le> n_ctx_checkpoints (params_base C)
    \<and> pr_tokens (prompt (slots C' ! i)) = pr_tokens (prompt (slots C ! i))"
proof -
  let ?old = "pr_checkpoints (prompt (slots C ! i))" and ?lim = "n_ctx_checkpoints (params_base C)"
  let ?new = "int (prompt_n_tokens (prompt (slots C ! i))) - n"
  from assms(1) obtain t ds where t: "task (slots C ! i) = Some t"
    and o: "evict_oldest ?lim (evict_close (task_id t) (checkpoint_min_step (params_base C)) ?lim (-1) [] ?old) = Inr ds"
    and C': "C' = set_slot i ((slots C ! i)\<lparr>prompt := (prompt (slots C ! i))\<lparr>pr_checkpoints :=
          filter (\<lambda>c. ck_n_tokens c \<noteq> ?new) ds @ [\<lparr>ck_n_tokens = ?new, ck_pos_min = pmin, ck_pos_max = pmax, ck_id_task = task_id t,
                      ck_size = ce_ckpt_size E (dev C) (sl_id (slots C ! i))\<rparr>]\<rparr>\<rparr>) C"
    by (auto simp: create_checkpoint_def Let_def rbind_Inr_iff split: option.splits)
  obtain es where es: "evict_close (task_id t) (checkpoint_min_step (params_base C)) ?lim (-1) [] ?old = es" "subseq es ?old"
    using evict_close_subseq [of "task_id t" _ _ "-1" "[]" ?old] by fastforce
  have ds: "subseq ds ?old" "length ds < ?lim" using evict_oldest_spec [OF o] es subseq_order.trans by auto
  have "subseq (filter (\<lambda>c. ck_n_tokens c \<noteq> ?new) ds) ?old" "length (filter (\<lambda>c. ck_n_tokens c \<noteq> ?new) ds) < ?lim"
    using subseq_order.trans [OF subseq_filter_left ds(1)] le_less_trans [OF length_filter_le ds(2)] by blast+
  then show ?thesis using assms(2) by (auto simp: C')
qed

section \<open>Samples\<close>

definition sample_ce :: "byte list ctx_env" where
  "sample_ce = \<lparr>ce_mtmd = sample_mtmd, ce_has_mtmd = False, ce_gen = sample_env, ce_floats = exact_floats,
     ce_alora = (\<lambda>_. []), ce_n_vocab = 10, ce_state_tgt = (\<lambda>_ _. [0]), ce_state_dft = (\<lambda>_ _. []),
     ce_can_alloc = (\<lambda>_. True), ce_set_tgt = (\<lambda>_. length), ce_set_dft = (\<lambda>_. length),
     ce_sampler_error = (\<lambda>_. None), ce_synth = False, ce_random_seed = 0,
     ce_tokenize_cli = (\<lambda>t. Inr (tokens t)), ce_save_file = (\<lambda>_ _ ts. length ts),
     ce_load_probe = (\<lambda>_ _. (0, 0)), ce_load_file = (\<lambda>_ _ _. (0, [], 0)), ce_lora_info = (\<lambda>_. []),
     ce_piece = (\<lambda>_. []), ce_ckpt_size = (\<lambda>_ _. 1)\<rparr>"

definition sample_kid :: "int \<Rightarrow> int \<Rightarrow> byte list child_task" where
  "sample_kid k parent = \<lparr>task_id = k, task_index = 0, id_target = -1, id_slot = -1, id_parent = parent, params = sample_params,
     tokens = st_of_tokens [1, 2] False, cli = False, cli_prompt = [], cli_files = [], type_of_task = TASK_COMPLETION,
     slot_action_of = \<lparr>sa_id_slot = 0, sa_filename = ''f'', sa_filepath = ''f''\<rparr>, metrics_reset_bucket = False, set_lora = []\<rparr>"

definition sample_job :: "int \<Rightarrow> int list \<Rightarrow> byte list server_task" where
  "sample_job k kids = (task_of_child (sample_kid k (-1)))\<lparr>child_tasks := map (\<lambda>c. sample_kid c k) kids\<rparr>"

definition sample_idle :: "int \<Rightarrow> byte list slot" where
  "sample_idle i = (slot_new i 64 False False False)\<lparr>prompt := \<lparr>pr_tokens = st_of_tokens [1, 2] False, pr_checkpoints = []\<rparr>\<rparr>"

definition sample_busy :: "int \<Rightarrow> int \<Rightarrow> byte list slot" where
  "sample_busy i k = (sample_idle i)\<lparr>task := Some (sample_job k []), state := SLOT_GENERATING\<rparr>"

definition sample_ctx :: "byte list slot list \<Rightarrow> byte list server_context" where
  "sample_ctx ss = \<lparr>slots = ss, prompt_cache_of = None,
     params_base = \<lparr>kv_unified = False, cache_idle_slots = False, lora_adapters = [], g_n_predict = -1,
       slot_prompt_similarity = 0, n_ctx_checkpoints = 2, checkpoint_min_step = 0, cont_batching = True,
       special_tokens = False\<rparr>,
     n_empty_consecutive = 0,
     metrics = \<lparr>m_t_start = 0, prompt_bucket = bucket_zero, predict_bucket = bucket_zero, m_prompt = bucket_zero,
       m_predict = bucket_zero, m_n_prompt_cached = 0, m_n_tokens_max = 0, m_n_decode = 0, m_n_busy_slots = 0,
       m_n_draft_tokens = 0, m_n_draft_accepted = 0, m_n_draft_verif_steps = 0, m_n_accepted_per_pos = []\<rparr>,
     tasks_queue = queue_init, results_queue = response_init\<lparr>waiting_task_ids := [1, 2, 3]\<rparr>, dev = [],
     batch = batch_init 8 4 batch_new, n_prompt_queued = 0, t_decode_start = 0, t_prompt_start = 0\<rparr>"

definition sample_C :: "byte list server_context" where
  "sample_C = sample_ctx [sample_busy 0 9, sample_idle 1, sample_idle 2]"

lemma slots_ok_sample: "slots_ok sample_C"
  by (auto simp: slots_ok_def sample_C_def sample_ctx_def slot_ok_def is_processing_def sample_busy_def sample_idle_def
      slot_new_def less_Suc_eq numeral_3_eq_3)

theorem slot_choice_witness:
  "\<exists>C'. get_available_slot sample_ce (sample_job 1 []) sample_C = Inr (Some 2, C') \<and> slots C' ! 0 = slots sample_C ! 0"
proof -
  have "case get_available_slot sample_ce (sample_job 1 []) sample_C of Inr (r, _) \<Rightarrow> r = Some 2 | Inl _ \<Rightarrow> False"
    by code_simp
  then obtain C' where r: "get_available_slot sample_ce (sample_job 1 []) sample_C = Inr (Some 2, C')"
    by (auto split: sum.splits)
  have "id_slot (sample_job 1 []) = -1" by (simp add: sample_job_def sample_kid_def)
  from slot_choice [OF r this] show ?thesis using r by simp
qed

theorem busy_slots_untouched_witness:
  "\<exists>C'. process_slot_task sample_ce 5 (sample_job 1 [2]) sample_C = Inr C' \<and> slots C' ! 0 = sample_busy 0 9
     \<and> is_processing (slots C' ! 1)"
proof -
  have "case process_slot_task sample_ce 5 (sample_job 1 [2]) sample_C of Inr C \<Rightarrow> is_processing (slots C ! 1) | Inl _ \<Rightarrow> False"
    by code_simp
  then obtain C' where r: "process_slot_task sample_ce 5 (sample_job 1 [2]) sample_C = Inr C'" "is_processing (slots C' ! 1)"
    by (auto split: sum.splits)
  have s0: "slots sample_C ! 0 = sample_busy 0 9" by (simp add: sample_C_def sample_ctx_def)
  have "slots C' ! 0 = slots sample_C ! 0"
    by (rule busy_slots_untouched [OF r(1) slots_ok_sample])
      (simp_all add: sample_job_def sample_kid_def sample_C_def sample_ctx_def in_family_def sample_busy_def sample_idle_def
        slot_new_def is_processing_def task_of_child_def child_task.extend_def)
  then show ?thesis using r s0 by auto
qed

theorem parent_all_or_nothing_witness:
  "\<exists>C' i j. process_slot_task sample_ce 5 (sample_job 1 [2]) sample_C = Inr C' \<and> i \<noteq> j
     \<and> task (slots C' ! i) = Some (sample_job 1 [2]) \<and> task (slots C' ! j) = Some (task_of_child (sample_kid 2 1))"
proof -
  have "case process_slot_task sample_ce 5 (sample_job 1 [2]) sample_C of
      Inr C \<Rightarrow> list_ex (in_family 1) (slots C) | Inl _ \<Rightarrow> False"
    by code_simp
  then obtain C' where r: "process_slot_task sample_ce 5 (sample_job 1 [2]) sample_C = Inr C'"
    "\<not> (\<forall>s \<in> set (slots C'). \<not> in_family 1 s)"
    by (auto split: sum.splits simp: list_ex_iff)
  have "is_parent (sample_job 1 [2])" "task_id (sample_job 1 [2]) = 1" "child_tasks (sample_job 1 [2]) = [sample_kid 2 1]"
    by (simp_all add: sample_job_def is_parent_def sample_kid_def task_of_child_def child_task.extend_def)
  moreover have "\<forall>s \<in> set (slots sample_C). \<not> in_family 1 s"
    by (simp add: sample_C_def sample_ctx_def in_family_def sample_busy_def sample_idle_def sample_job_def sample_kid_def
        slot_new_def is_processing_def task_of_child_def child_task.extend_def)
  moreover have "id_parent (sample_kid 2 1) = 1" by (simp add: sample_kid_def)
  ultimately show ?thesis
    using parent_all_or_nothing [OF r(1) slots_ok_sample] r by auto (metis)
qed

definition sample_serve :: "(int \<times> rat \<times> byte list server_task \<times> bool) list" where
  "sample_serve = [(5, 0, sample_job 1 [2], False),
     (6, 0, (sample_job 3 [])\<lparr>type_of_task := TASK_CANCEL, id_target := 9\<rparr>, False)]"

theorem tasks_keep_slots_ok_witness:
  "\<exists>C'. serve sample_ce sample_serve sample_C = Inr C' \<and> slots_ok C' \<and> \<not> is_processing (slots C' ! 0)"
proof -
  have "case serve sample_ce sample_serve sample_C of Inr C \<Rightarrow> \<not> is_processing (slots C ! 0) | Inl _ \<Rightarrow> False"
    by code_simp
  then obtain C' where r: "serve sample_ce sample_serve sample_C = Inr C'" "\<not> is_processing (slots C' ! 0)"
    by (auto split: sum.splits)
  have "slots_ok C'"
    by (rule tasks_keep_slots_ok [OF r(1) slots_ok_sample])
      (simp add: sample_serve_def sample_job_def sample_kid_def task_of_child_def child_task.extend_def)
  then show ?thesis using r by blast
qed

theorem yielding_reads_only_witness:
  "\<exists>C' m. process_single_task sample_ce 5 0 ((sample_job 1 [])\<lparr>type_of_task := TASK_METRICS, metrics_reset_bucket := True\<rparr>) True sample_C = Inr (True, C')
     \<and> res_id m = 1 \<and> results_queue C' = send m (results_queue sample_C) \<and> slots C' = slots sample_C
     \<and> prompt_bucket (metrics C') = bucket_zero \<and> m_prompt (metrics C') = m_prompt (metrics sample_C)"
proof -
  let ?t = "(sample_job 1 [])\<lparr>type_of_task := TASK_METRICS, metrics_reset_bucket := True\<rparr>"
  obtain C' where r: "process_single_task sample_ce 5 0 ?t True sample_C = Inr (True, C')"
    by (simp add: process_single_task_def)
  have "task_id ?t = 1" by (simp add: sample_job_def sample_kid_def)
  then show ?thesis using yielding_reads_only [OF r] r by auto
qed

theorem restore_valid_or_empty_witness:
  "\<exists>C'. task_slot_restore sample_ce 0 (sample_job 1 []) 1 sample_C = Inr C'
     \<and> pr_checkpoints (prompt (slots C' ! 1)) = [] \<and> prompt_n_tokens (prompt (slots C' ! 1)) = 0"
proof -
  have "case task_slot_restore sample_ce 0 (sample_job 1 []) 1 sample_C of Inr C \<Rightarrow> True | Inl _ \<Rightarrow> False"
    by code_simp
  then obtain C' where r: "task_slot_restore sample_ce 0 (sample_job 1 []) 1 sample_C = Inr C'"
    by (auto split: sum.splits)
  have l: "load_slot_file sample_ce p s = Inl (Throw ''No available space in KV cache or invalid slot save file'')" for p s
    by (simp add: load_slot_file_def sample_ce_def)
  have "1 < length (slots sample_C)" by (simp add: sample_C_def sample_ctx_def)
  from restore_valid_or_empty [OF r this] show ?thesis using r by (auto simp: l)
qed

theorem cancel_frees_target_witness:
  "\<exists>C'. task_cancel 6 ((sample_job 3 [])\<lparr>id_target := 9\<rparr>) sample_C = Inr C' \<and> \<not> is_processing (slots C' ! 0)"
proof -
  have "case task_cancel 6 ((sample_job 3 [])\<lparr>id_target := 9\<rparr>) sample_C of Inr C \<Rightarrow> True | Inl _ \<Rightarrow> False"
    by code_simp
  then obtain C' where r: "task_cancel 6 ((sample_job 3 [])\<lparr>id_target := 9\<rparr>) sample_C = Inr C'"
    by (auto split: sum.splits)
  have u: "task_ids_unique sample_C"
    by (auto simp: task_ids_unique_def sample_C_def sample_ctx_def sample_busy_def sample_idle_def slot_new_def
        less_Suc_eq numeral_3_eq_3)
  have "0 < length (slots sample_C)" by (simp add: sample_C_def sample_ctx_def)
  from cancel_frees_target [OF r slots_ok_sample u this]
  have "if works_on 9 (slots sample_C ! 0) then \<not> is_processing (slots C' ! 0) \<and> task (slots C' ! 0) = None
      else slots C' ! 0 = slots sample_C ! 0" by simp
  moreover have "works_on 9 (slots sample_C ! 0)"
    by (simp add: works_on_def sample_C_def sample_ctx_def sample_busy_def sample_job_def sample_kid_def)
  ultimately show ?thesis using r by auto
qed

theorem create_checkpoint_bounded_witness:
  "\<exists>C'. create_checkpoint sample_ce 0 1 0 0 sample_C = Inr C' \<and> length (pr_checkpoints (prompt (slots C' ! 0))) \<le> 2"
proof -
  have "case create_checkpoint sample_ce 0 1 0 0 sample_C of Inr C \<Rightarrow> True | Inl _ \<Rightarrow> False"
    by code_simp
  then obtain C' where r: "create_checkpoint sample_ce 0 1 0 0 sample_C = Inr C'"
    by (auto split: sum.splits)
  have "0 < length (slots sample_C)" by (simp add: sample_C_def sample_ctx_def)
  from create_checkpoint_bounded [OF r this] show ?thesis using r by (auto simp: sample_C_def sample_ctx_def)
qed

text \<open>
  Running slots are safe only from tasks that ask for no slot.  A task that asks for a running slot is deferred,
  but \<open>get_available_slot\<close> has by then exchanged the prompt of that slot for one of the prompt cache.
\<close>

definition sample_cached :: "byte list server_context" where
  "sample_cached = (sample_ctx [(sample_busy 0 9)\<lparr>prompt := \<lparr>pr_tokens = st_of_tokens [5, 6, 7, 8] False, pr_checkpoints = []\<rparr>\<rparr>])
     \<lparr>prompt_cache_of := Some \<lparr>states = [sample_entry [1, 2] 4], limit_size = 0, limit_tokens = 0\<rparr>,
      params_base := (params_base (sample_ctx []))\<lparr>slot_prompt_similarity := 1 / 2\<rparr>\<rparr>"

theorem requested_busy_slot_loses_prompt:
  "is_processing (slots sample_cached ! 0)
   \<and> (case process_slot_task sample_ce 5 ((sample_job 1 [])\<lparr>id_slot := 0\<rparr>) sample_cached of
        Inl _ \<Rightarrow> False
      | Inr C \<Rightarrow> is_processing (slots C ! 0) \<and> length (queue_tasks_deferred (tasks_queue C)) = 1
          \<and> toks (pr_tokens (prompt (slots C ! 0))) = [1, 2])"
  by code_simp

end
