(* ===== verification/Prefill.thy ===== *)
theory Prefill
  imports Schedule
begin

text \<open>
  \<open>pre_decode\<close> of \<open>server_context_impl\<close> (\<open>server-context.cpp\<close>): the context shift, the choice of the
  slots that generate, drafts, and filling the batch with prompt tokens: what is reused of the cached
  prompt, checkpoints, and the tokens handed in.  A step that may throw gives its result together with the
  state it leaves, because \<open>iterate\<close> goes on with that state.
\<close>

section \<open>The library\<close>

datatype seq_rm_type = RM_NO | RM_PART | RM_FULL | RM_RS

record draft_request =
  dr_slot :: nat
  dr_n_max :: int
  dr_pos0 :: int
  dr_id_last :: llama_token
  dr_prompt :: "llama_token list"

text \<open>
  Constants of the loaded model, and the library's functions: what the library answers is a function of the
  log of the calls that changed its memory.  \<open>ue_chunk\<close> is the result of encoding and decoding the media
  chunk at an index with the number of its tokens, \<open>ue_user_start\<close> and \<open>ue_last_user\<close> read the message spans.
\<close>

record 'c upd_env =
  ue_ctx :: "'c ctx_env"
  ue_n_batch :: int
  ue_n_ubatch :: int
  ue_n_swa :: int
  ue_add_bos :: bool
  ue_has_memory :: bool
  ue_pooling_last :: bool
  ue_can_shift :: bool
  ue_rm_tgt :: seq_rm_type
  ue_rm_dft :: seq_rm_type
  ue_n_rs_tgt :: nat
  ue_n_rs_dft :: nat
  ue_pos_min :: "device_op list \<Rightarrow> int \<Rightarrow> int"
  ue_pos_max :: "device_op list \<Rightarrow> int \<Rightarrow> int"
  ue_dft_rm_ok :: "device_op list \<Rightarrow> int \<Rightarrow> bool"
  ue_user_start :: "lib_value \<Rightarrow> int \<Rightarrow> bool"
  ue_last_user :: "lib_value \<Rightarrow> int"
  ue_chunk :: "device_op list \<Rightarrow> int \<Rightarrow> nat \<Rightarrow> int \<times> nat"
  ue_draft :: "device_op list \<Rightarrow> draft_request \<Rightarrow> llama_token list"

abbreviation ue_mtmd :: "'c upd_env \<Rightarrow> 'c mtmd" where
  "ue_mtmd E \<equiv> ce_mtmd (ue_ctx E)"

section \<open>Steps\<close>

fun then_do :: "'a result \<times> 's \<Rightarrow> ('a \<Rightarrow> 's \<Rightarrow> 'b result \<times> 's) \<Rightarrow> 'b result \<times> 's" where
  "then_do (Inl e, s) f = (Inl e, s)"
| "then_do (Inr x, s) f = f x s"

definition outcome_of :: "'a result \<times> 's \<Rightarrow> failure option \<times> 's" where
  "outcome_of p = (case fst p of Inl e \<Rightarrow> (Some e, snd p) | Inr _ \<Rightarrow> (None, snd p))"

text \<open>A step that leaves the state as it was when it fails.\<close>

definition commit :: "'s result \<Rightarrow> 's \<Rightarrow> unit result \<times> 's" where
  "commit r s = (case r of Inl e \<Rightarrow> (Inl e, s) | Inr s' \<Rightarrow> (Inr (), s'))"

lemma then_do_Inr_iff: "then_do p f = (Inr y, s') \<longleftrightarrow> (\<exists>x s1. p = (Inr x, s1) \<and> f x s1 = (Inr y, s'))"
  by (cases p; cases "fst p") auto

lemma commit_Inr_iff: "commit r s = (Inr u, s') \<longleftrightarrow> r = Inr s'"
  by (auto simp: commit_def split: sum.splits)

lemma batch_simps [simp]: "batch (set_slot i s C) = batch C" "batch (send_to m C) = batch C" "batch (log_ops ops C) = batch C"
  by (simp_all add: set_slot_def send_to_def log_ops_def)

text \<open>\<open>send_error(slot, ...)\<close> followed by \<open>release()\<close>.\<close>

definition reject_slot :: "int \<Rightarrow> string \<Rightarrow> error_type \<Rightarrow> nat \<Rightarrow> 'c server_context \<Rightarrow> 'c server_context result" where
  "reject_slot now err ty i C = rbind (slot_error_msg (slots C ! i) err ty) (\<lambda>m. release now i (send_to m C))"

lemma fail_slot_reject: "fail_slot now err i C = reject_slot now err ERROR_SERVER i C"
  by (simp add: fail_slot_def reject_slot_def)

text \<open>\<open>send_final_response(slot)\<close> followed by \<open>release()\<close>.\<close>

definition finish_slot :: "gen_env \<Rightarrow> int \<Rightarrow> nat \<Rightarrow> 'c server_context \<Rightarrow> 'c server_context result" where
  "finish_slot G now i C =
     rbind (final_response G (slots C ! i)) (\<lambda>(s, m). release now i (send_to m (set_slot i s C)))"

definition send_partial :: "int \<Rightarrow> bool \<Rightarrow> bool \<Rightarrow> nat \<Rightarrow> 'c server_context \<Rightarrow> 'c server_context result" where
  "send_partial now is_progress is_begin i C =
     rbind (partial_response now (slots C ! i) no_output is_progress is_begin) (\<lambda>m. Inr (send_to m C))"

definition set_prompt_toks :: "llama_token list \<Rightarrow> 'c slot \<Rightarrow> 'c slot" where
  "set_prompt_toks ts s = s\<lparr>prompt := (prompt s)\<lparr>pr_tokens := (pr_tokens (prompt s))\<lparr>toks := ts\<rparr>\<rparr>\<rparr>"

section \<open>Context shift\<close>

text \<open>
  The tokens moved down by \<open>disc\<close> from \<open>keep + disc\<close> on.  A context of less than four tokens
  makes \<open>keep\<close> negative, and the indices wrap around: undefined behaviour, shown as \<open>Abort\<close>.
\<close>

definition shift_tokens :: "int \<Rightarrow> int \<Rightarrow> llama_token list \<Rightarrow> llama_token list result" where
  "shift_tokens keep disc ts =
     (if keep < 0 then Inl Abort
      else let moved = fold (\<lambda>i xs. xs[i - nat disc := xs ! i]) [nat (keep + disc)..<length ts] ts
           in Inr (take (length ts - nat disc) moved))"

definition shift_keep :: "'c upd_env \<Rightarrow> 'c server_task \<Rightarrow> 'c slot \<Rightarrow> int" where
  "shift_keep E t s =
     (let n = (if n_keep (params t) < 0 then task_n_tokens t else n_keep (params t));
          n = (if ue_add_bos E then n + 1 else n)
      in min (sl_n_ctx s - 4) n)"

definition shift_discard :: "'c server_task \<Rightarrow> int \<Rightarrow> int" where
  "shift_discard t n_left =
     (let n = (if n_discard (params t) \<noteq> 0 then n_discard (params t) else n_left sdiv 2)
      in max 0 (min n (max 0 (n_left - 1))))"

definition shift_slot :: "'c upd_env \<Rightarrow> int \<Rightarrow> nat \<Rightarrow> 'c server_context \<Rightarrow> 'c server_context result" where
  "shift_slot E now i C =
     (let s = slots C ! i
      in if state s = SLOT_GENERATING \<and> int (prompt_n_tokens (prompt s)) + 1 \<ge> sl_n_ctx s then
           (if \<not> ge_ctx_shift (ce_gen (ue_ctx E)) then reject_slot now ''context shift is disabled'' ERROR_SERVER i C
            else if ce_has_mtmd (ue_ctx E) then Inl Abort
            else case task s of
              None \<Rightarrow> Inl Abort
            | Some t \<Rightarrow>
                if is_parent t \<or> is_child t
                then reject_slot now ''context shift cannot be used for shared prompt'' ERROR_SERVER i C
                else
                  let keep = shift_keep E t s;
                      disc = shift_discard t (int (prompt_n_tokens (prompt s)) - keep)
                  in rbind (pos_end (ue_mtmd E) (pr_tokens (prompt s))) (\<lambda>pos.
                     rbind (get_tokens (pr_tokens (prompt s))) (\<lambda>ts.
                     rbind (shift_tokens keep disc ts) (\<lambda>ts'.
                       let p = prompt_clear (prompt s);
                           s' = s\<lparr>prompt := p\<lparr>pr_tokens := st_insert ts' (pr_tokens p)\<rparr>, truncated := True\<rparr>
                       in Inr (log_ops [Seq_rm (sl_id s) keep (keep + disc),
                                        Seq_add (sl_id s) (keep + disc) pos (- disc)] (set_slot i s' C))))))
         else Inr C)"

section \<open>Generating slots and drafts\<close>

definition ckpt_update_pos :: "nat \<Rightarrow> int \<Rightarrow> int \<Rightarrow> checkpoint option \<Rightarrow> checkpoint" where
  "ckpt_update_pos n pmin pmax c =
     (let c = (case c of None \<Rightarrow> \<lparr>ck_n_tokens = 0, ck_pos_min = 0, ck_pos_max = 0, ck_id_task = -1, ck_size = 0\<rparr> | Some c \<Rightarrow> c)
      in c\<lparr>ck_n_tokens := int n, ck_pos_min := pmin, ck_pos_max := pmax\<rparr>)"

definition ckpt_empty :: "checkpoint option \<Rightarrow> bool" where
  "ckpt_empty c = (case c of None \<Rightarrow> True | Some c \<Rightarrow> ck_size c = 0)"

definition ckpt_save :: "'c upd_env \<Rightarrow> device_op list \<Rightarrow> int \<Rightarrow> checkpoint \<Rightarrow> checkpoint" where
  "ckpt_save E lg k c = c\<lparr>ck_size := ce_ckpt_size (ue_ctx E) lg k\<rparr>"

text \<open>The request for a draft of a generating slot, if it gets one.\<close>

definition begin_draft :: "'c upd_env \<Rightarrow> nat \<Rightarrow> 'c server_context \<Rightarrow> (draft_request option \<times> 'c server_context) result" where
  "begin_draft E i C =
     (let s = slots C ! i
      in rbind (get_n_draft_max s) (\<lambda>n_max.
         if n_max \<le> 0 then Inr (None, C)
         else if spec_draft s \<noteq> [] then
           (if ue_rm_tgt E = RM_FULL \<and> ckpt_empty (spec_ckpt s) then Inl Abort else Inr (None, C))
         else if spec_i_batch s \<noteq> [] then Inl Abort
         else rbind (pos_end (ue_mtmd E) (pr_tokens (prompt s))) (\<lambda>pos0.
           let c = ckpt_update_pos (prompt_n_tokens (prompt s)) (ue_pos_min E (dev C) (sl_id s)) (ue_pos_max E (dev C) (sl_id s))
                     (spec_ckpt s);
               c = (if ue_rm_dft E = RM_FULL then ckpt_save E (dev C) (sl_id s) c else c)
           in Inr (Some \<lparr>dr_slot = i, dr_n_max = n_max, dr_pos0 = pos0, dr_id_last = sampled s,
                      dr_prompt = get_text_tokens (pr_tokens (prompt s))\<rparr>,
                   set_slot i (s\<lparr>spec_ckpt := Some c\<rparr>) C))))"

fun select_generating ::
  "'c upd_env \<Rightarrow> nat list \<Rightarrow> nat list \<Rightarrow> draft_request list \<Rightarrow> 'c server_context
     \<Rightarrow> (nat list \<times> draft_request list \<times> 'c server_context) result" where
  "select_generating E [] gen dr C = Inr (gen, dr, C)"
| "select_generating E (i # is) gen dr C =
     (let s = slots C ! i
      in if state s \<noteq> SLOT_GENERATING then select_generating E is gen dr C
         else rbind
           (case slot_batched (batch C) of
              None \<Rightarrow> Inr (True, C\<lparr>batch := (batch C)\<lparr>slot_batched := Some (int i)\<rparr>\<rparr>)
            | Some k \<Rightarrow> rbind (can_batch_with s (slots C ! nat k)) (\<lambda>ok. Inr (ok, C))) (\<lambda>(ok, C).
           if \<not> ok then select_generating E is gen dr C
           else rbind (if has_spec s then begin_draft E i C else Inr (None, C)) (\<lambda>(r, C).
             select_generating E is (gen @ [i]) (dr @ (case r of None \<Rightarrow> [] | Some r \<Rightarrow> [r])) C)))"

text \<open>The drafts, all made from the state \<open>lg\<close>, and the checkpoints that may be needed to take them back.\<close>

definition take_draft :: "'c upd_env \<Rightarrow> device_op list \<Rightarrow> draft_request \<Rightarrow> 'c server_context \<Rightarrow> 'c server_context result" where
  "take_draft E lg r C =
     (let i = dr_slot r; s = slots C ! i; draft = ue_draft E lg r
      in case spec_ckpt s of
           None \<Rightarrow> Inl Abort
         | Some c \<Rightarrow>
             if has_dft s \<and> \<not> ue_dft_rm_ok E (dev C) (sl_id s) then Inl Abort
             else
               let ops = (if has_dft s then
                      (if ue_rm_dft E = RM_FULL then [Checkpoint_load_dft (sl_id s) c] else [])
                        @ [Seq_rm_dft (sl_id s) (ck_pos_max c + 1) (-1)] else []);
                   use_tgt = (ue_rm_tgt E = RM_FULL \<or> ue_rm_tgt E = RM_RS \<and> length draft > ue_n_rs_tgt E);
                   use_dft = (ue_rm_dft E = RM_RS \<and> length draft > ue_n_rs_dft E);
                   c = (if draft \<noteq> [] \<and> (use_tgt \<or> use_dft) then ckpt_save E (dev C @ ops) (sl_id s) c else c);
                   s = s\<lparr>spec_draft := draft, spec_ckpt := Some c,
                         stats := (stats s)\<lparr>n_draft_tokens := n_draft_tokens (stats s) + length draft\<rparr>\<rparr>
               in Inr (log_ops ops (set_slot i s C)))"

fun take_drafts :: "'c upd_env \<Rightarrow> device_op list \<Rightarrow> draft_request list \<Rightarrow> 'c server_context \<Rightarrow> 'c server_context result" where
  "take_drafts E lg [] C = Inr C"
| "take_drafts E lg (r # rs) C = rbind (take_draft E lg r C) (take_drafts E lg rs)"

definition push_sampled :: "'c upd_env \<Rightarrow> nat \<Rightarrow> 'c server_context \<Rightarrow> 'c server_context result" where
  "push_sampled E i C =
     rbind (handle_last_sampled_token (ue_mtmd E) (slots C ! i) (batch C)) (\<lambda>(s, b).
       Inr ((set_slot i s C)\<lparr>batch := b\<rparr>))"

section \<open>What of the cached prompt is reused\<close>

text \<open>
  The loop over chunks of the cached prompt that occur further on in the new one.  \<open>n_cache_reuse\<close> is
  positive here, so that a match moves both heads.
\<close>

fun match_len :: "llama_token list \<Rightarrow> llama_token list \<Rightarrow> nat" where
  "match_len (x # xs) (y # ys) = (if x = y then Suc (match_len xs ys) else 0)"
| "match_len _ _ = 0"

definition move_tokens :: "nat \<Rightarrow> nat \<Rightarrow> nat \<Rightarrow> llama_token list \<Rightarrow> llama_token list" where
  "move_tokens head_p head_c n ts = fold (\<lambda>i ts. ts[head_p + i := ts ! (head_c + i)]) [0..<n] ts"

lemma length_move_tokens [simp]: "length (move_tokens p c n ts) = length ts"
  by (induction n) (simp_all add: move_tokens_def)

function reuse_chunks ::
  "nat \<Rightarrow> int \<Rightarrow> llama_token list \<Rightarrow> nat \<Rightarrow> nat \<Rightarrow> llama_token list \<Rightarrow> device_op list \<Rightarrow> nat \<times> llama_token list \<times> device_op list" where
  "reuse_chunks n_reuse k inp head_c head_p ts ops =
     (if head_c < length ts \<and> head_p < length inp then
        (let n_match = match_len (drop head_c ts) (drop head_p inp)
         in if n_match \<ge> n_reuse \<and> n_match > 0 then
              reuse_chunks n_reuse k inp (head_c + n_match) (head_p + n_match) (move_tokens head_p head_c n_match ts)
                (ops @ [Seq_rm k (int head_p) (int head_c),
                        Seq_add k (int head_c) (int (head_c + n_match)) (int head_p - int head_c)])
            else reuse_chunks n_reuse k inp (head_c + 1) head_p ts ops)
      else (head_p, ts, ops))"
  by pat_completeness auto

termination
  by (relation "measure (\<lambda>(n, k, inp, head_c, head_p, ts, ops). length ts - head_c)") auto

declare reuse_chunks.simps [simp del]

text \<open>The tokens common with the cached prompt, with the prompt and the log after moving chunks.\<close>

definition reuse_prefix ::
  "'c upd_env \<Rightarrow> 'c server_task \<Rightarrow> 'c slot \<Rightarrow> (nat \<times> 'c slot \<times> device_op list) result" where
  "reuse_prefix E t s =
     (if cache_prompt (params t) then
        rbind (get_common_prefix (ue_mtmd E) (pr_tokens (prompt s)) (tokens t)) (\<lambda>n.
          let n = (if alora_invocation_start s > 0 then nat (min (int n) (alora_invocation_start s - 1)) else n)
          in if ue_can_shift E \<and> \<not> has_mtmd (pr_tokens (prompt s)) \<and> n_cache_reuse (params t) > 0 then
               (if ce_has_mtmd (ue_ctx E) then Inl Abort
                else let (n, ts, ops) = reuse_chunks (nat (n_cache_reuse (params t))) (sl_id s) (toks (tokens t)) n n
                           (toks (pr_tokens (prompt s))) []
                     in Inr (n, set_prompt_toks ts s, ops))
             else Inr (n, s, []))
      else Inr (0, s, []))"

text \<open>
  Where the memory lacks what precedes \<open>n_past\<close> (sliding windows, recurrent states) the prompt goes back
  to the last checkpoint before it, or to the start.  The result: \<open>n_past\<close>, the position, the checkpoint loaded.
\<close>

definition restore_point ::
  "'c upd_env \<Rightarrow> device_op list \<Rightarrow> 'c server_task \<Rightarrow> 'c slot \<Rightarrow> nat \<Rightarrow> (nat \<times> int \<times> checkpoint option) result" where
  "restore_point E lg t s n_past =
     (let st = pr_tokens (prompt s)
      in rbind (case pos_next (ue_mtmd E) (int n_past) st of Some r \<Rightarrow> r | None \<Rightarrow> Inl Abort) (\<lambda>pos.
         let thold = max 0 (pos - ue_n_swa E - (if int n_past < task_n_tokens t then 0 else 1))
         in if n_past > 0 \<and> n_past \<le> prompt_n_tokens (prompt s) then
              (let pmin = ue_pos_min E lg (sl_id s)
               in if pmin = -1 then Inl Abort
                  else if pmin \<ge> thold then
                    (case find (\<lambda>c. \<not> ck_pos_max c > pos \<and> (ck_pos_min c < thold \<or> ck_pos_min c = 0))
                            (rev (pr_checkpoints (prompt s))) of
                       None \<Rightarrow> Inr (0, 0, None)
                     | Some c \<Rightarrow>
                         let pos = min pos (max (ck_pos_min c + 1) (ck_pos_max c))
                         in case size_up_to_pos (ue_mtmd E) pos st of
                              None \<Rightarrow> Inl Abort
                            | Some n \<Rightarrow> Inr (nat (min (int n) (ck_n_tokens c)), pos, Some c))
                  else Inr (n_past, pos, None))
            else Inr (n_past, pos, None)))"

text \<open>All of it: \<open>n_past\<close> leaves at least one token to process.\<close>

definition keep_cached ::
  "'c upd_env \<Rightarrow> device_op list \<Rightarrow> 'c server_task \<Rightarrow> 'c slot \<Rightarrow> (nat \<times> 'c slot \<times> device_op list) result" where
  "keep_cached E lg t s =
     rbind (can_split (ue_has_memory E) (ue_pooling_last E) s) (\<lambda>split.
     rbind (if \<not> split then Inr (0, s, [])
            else rbind (reuse_prefix E t s) (\<lambda>(n, s, ops).
                 rbind (restore_point E (lg @ ops) t s n) (\<lambda>(n, pos, c).
                   let p = prompt s; p = p\<lparr>pr_checkpoints := filter (\<lambda>c. \<not> ck_pos_max c > pos) (pr_checkpoints p)\<rparr>
                   in Inr (n, s\<lparr>prompt := p\<rparr>, ops @ (case c of None \<Rightarrow> [] | Some c \<Rightarrow> [Checkpoint_load (sl_id s) c, Checkpoint_load_dft (sl_id s) c]))))) (\<lambda>(n, s, ops).
       Inr (if int n = task_n_tokens t \<and> n > 0 then n - 1 else n, s, ops)))"

section \<open>A slot starts on its prompt\<close>

text \<open>Why a prompt cannot be processed: the error for the client.\<close>

definition prompt_error :: "'c upd_env \<Rightarrow> 'c server_task \<Rightarrow> 'c slot \<Rightarrow> ((string \<times> error_type) option) result" where
  "prompt_error E t s =
     (if need_logits t \<and> \<not> ue_has_memory E
      then Inr (Some (''the current context does not logits computation. skipping'', ERROR_SERVER))
      else rbind (can_split (ue_has_memory E) (ue_pooling_last E) s) (\<lambda>split.
        if \<not> split then
          (if task_n_tokens t > ue_n_ubatch E then
             Inr (Some (''input ('' @ show_int (task_n_tokens t)
               @ '' tokens) is too large to process. increase the physical batch size (current batch size: ''
               @ show_int (ue_n_ubatch E) @ '')'', ERROR_SERVER))
           else if task_n_tokens t > sl_n_ctx s then
             Inr (Some (''input ('' @ show_int (task_n_tokens t) @ '' tokens) is larger than the max context size (''
               @ show_int (sl_n_ctx s) @ '' tokens). skipping'', ERROR_EXCEED_CONTEXT_SIZE))
           else Inr None)
        else if task_n_tokens t \<ge> sl_n_ctx s then
          Inr (Some (''request ('' @ show_int (task_n_tokens t) @ '' tokens) exceeds the available context size (''
            @ show_int (sl_n_ctx s) @ '' tokens), try increasing it'', ERROR_EXCEED_CONTEXT_SIZE))
        else Inr None))"

text \<open>The cached tokens are counted and the prompt is cut to them; a client that streams hears of the start.\<close>

definition cut_prompt :: "nat \<Rightarrow> 'c slot \<Rightarrow> device_op list \<Rightarrow> nat \<Rightarrow> 'c server_context \<Rightarrow> unit result \<times> 'c server_context" where
  "cut_prompt n s ops i C =
     (let s = s\<lparr>stats := (stats s)\<lparr>n_prompt_cached := n, n_prompt_processed := 0\<rparr>\<rparr>;
          C = (log_ops ops (set_slot i s C))\<lparr>metrics := add_prompt_cached n (metrics C)\<rparr>
      in commit (rbind (keep_first n (pr_tokens (prompt s))) (\<lambda>st.
           Inr (set_slot i (s\<lparr>prompt := (prompt s)\<lparr>pr_tokens := st\<rparr>\<rparr>) C))) C)"

definition announce_prompt :: "int \<Rightarrow> 'c server_task \<Rightarrow> nat \<Rightarrow> 'c server_context \<Rightarrow> 'c server_context result" where
  "announce_prompt now t i C =
     (if stream (params t) then
        (if return_progress (params t) then send_partial now True False i C else send_partial now False True i C)
      else Inr C)"

text \<open>The branch of \<open>SLOT_STATE_STARTED\<close>; the value is false when the slot is done with.\<close>

definition start_prompt :: "'c upd_env \<Rightarrow> int \<Rightarrow> 'c server_task \<Rightarrow> nat \<Rightarrow> 'c server_context \<Rightarrow> bool result \<times> 'c server_context" where
  "start_prompt E now t i C =
     then_do (commit (rbind (update_prompt_start now (stats (slots C ! i))) (\<lambda>st.
                Inr (set_slot i ((slots C ! i)\<lparr>stats := st, state := SLOT_PROCESSING_PROMPT\<rparr>) C))) C) (\<lambda>_ C.
     if toks (tokens t) = [] then
       then_do (commit (finish_slot (ce_gen (ue_ctx E)) now i C) C) (\<lambda>_ C. (Inr False, C))
     else then_do (prompt_error E t (slots C ! i), C) (\<lambda>err C.
       case err of
         Some (msg, ty) \<Rightarrow> then_do (commit (reject_slot now msg ty i C) C) (\<lambda>_ C. (Inr False, C))
       | None \<Rightarrow>
           then_do (keep_cached E (dev C) t (slots C ! i), C) (\<lambda>(n, s, ops) C.
           then_do (cut_prompt n s ops i C) (\<lambda>_ C.
           then_do (commit (announce_prompt now t i C) C) (\<lambda>_ C. (Inr True, C))))))"

section \<open>Handing prompt tokens to the batch\<close>

definition metrics_pre_decode :: "int \<Rightarrow> 'c server_context \<Rightarrow> 'c server_context" where
  "metrics_pre_decode now C = C\<lparr>t_decode_start := now\<rparr>"

definition metrics_queue_prompt :: "nat \<Rightarrow> 'c server_context \<Rightarrow> 'c server_context" where
  "metrics_queue_prompt n C =
     (if n = 0 then C
      else C\<lparr>t_prompt_start := (if n_prompt_queued C = 0 then t_decode_start C else t_prompt_start C),
             n_prompt_queued := n_prompt_queued C + n\<rparr>)"

definition metrics_flush_prompt :: "int \<Rightarrow> 'c server_context \<Rightarrow> 'c server_context" where
  "metrics_flush_prompt now C =
     (if n_prompt_queued C = 0 then C
      else C\<lparr>metrics := add_prompt (n_prompt_queued C) (nat (now - t_prompt_start C)) (metrics C), n_prompt_queued := 0\<rparr>)"

definition metrics_flush_idle :: "int \<Rightarrow> 'c server_context \<Rightarrow> 'c server_context" where
  "metrics_flush_idle now C = (if n_prompt_queued C = 0 then C else metrics_flush_prompt now C)"

text \<open>
  The media chunks at the head of what is left of the prompt; the value is false when the slot was released.
  A chunk of no tokens, which \<open>validate\<close> rejects, would be processed for ever: shown as \<open>Abort\<close>.
\<close>

definition media_here :: "'c server_task \<Rightarrow> nat \<Rightarrow> bool" where
  "media_here t n \<longleftrightarrow> n < st_size (tokens t) \<and> toks (tokens t) ! n = LLAMA_TOKEN_NULL"

function media_chunks ::
  "'c upd_env \<Rightarrow> int \<Rightarrow> 'c server_task \<Rightarrow> nat \<Rightarrow> bool \<Rightarrow> 'c server_context \<Rightarrow> (bool \<times> bool) result \<times> 'c server_context" where
  "media_chunks E now t i any C =
     (let s = slots C ! i; n = prompt_n_tokens (prompt s)
      in if \<not> media_here t n then (Inr (True, any), C)
         else
           let C = metrics_pre_decode now C; (res, n_out) = ue_chunk E (dev C) (sl_id s) n
           in if res \<noteq> 0 then
                then_do (commit (reject_slot now ''failed to process mtmd chunk'' ERROR_SERVER i C) C) (\<lambda>_ C. (Inr (False, any), C))
              else
                let C = log_ops [Decode_chunk (sl_id s) n] (metrics_queue_prompt n_out C);
                    st = (stats s)\<lparr>n_prompt_processed := n_prompt_processed (stats s) + n_out\<rparr>
                in then_do (set_prompt_last now st, set_slot i (s\<lparr>stats := st\<rparr>) C) (\<lambda>st C.
                   then_do (rbind (find_chunk n (tokens t)) (\<lambda>c. push_back_placeholder (ue_mtmd E) c (pr_tokens (prompt s))),
                            set_slot i (s\<lparr>stats := st\<rparr>) C) (\<lambda>ts C.
                     let C' = set_slot i (s\<lparr>stats := st, prompt := (prompt s)\<lparr>pr_tokens := ts\<rparr>\<rparr>) C
                     in if prompt_n_tokens (prompt (slots C' ! i)) \<le> n then (Inl Abort, C')
                        else media_chunks E now t i True C')))"
  by pat_completeness auto
termination
  by (relation "measure (\<lambda>(E, now, t, i, any, C). st_size (tokens t) - prompt_n_tokens (prompt (slots C ! i)))")
    (auto simp: media_here_def)

declare media_chunks.simps [simp del]

text \<open>Whether the batch is cut after the token that made the prompt \<open>n\<close> long, to make a checkpoint there.\<close>

definition cut_at_user :: "'c upd_env \<Rightarrow> 'c server_task \<Rightarrow> server_params \<Rightarrow> checkpoint list \<Rightarrow> int \<Rightarrow> bool" where
  "cut_at_user E t P cs n \<longleftrightarrow> ue_user_start E (message_spans (params t)) n
     \<and> (n = ue_last_user E (message_spans (params t)) \<or> cs = [] \<or> n > ck_n_tokens (last cs) + checkpoint_min_step P)"

definition cut_near_end :: "'c upd_env \<Rightarrow> 'c server_task \<Rightarrow> int \<Rightarrow> bool" where
  "cut_near_end E t n \<longleftrightarrow>
     list_ex (\<lambda>off. task_n_tokens t = n + min (ue_n_batch E) off) [4 + ue_n_ubatch E, 4]"

text \<open>The loop over the tokens \<open>rest\<close> of the task that the prompt does not hold yet.\<close>

fun fill_batch ::
  "'c upd_env \<Rightarrow> server_params \<Rightarrow> bool \<Rightarrow> 'c server_task \<Rightarrow> llama_token list \<Rightarrow> 'c slot \<Rightarrow> server_batch
     \<Rightarrow> (bool \<times> 'c slot \<times> server_batch) result" where
  "fill_batch E P ckpt t [] s b = Inr (True, s, b)"
| "fill_batch E P ckpt t (tok # rest) s b =
     (if \<not> batch_size b < ue_n_batch E \<or> tok = LLAMA_TOKEN_NULL
        \<or> (alora_scale b > 0 \<and> int (prompt_n_tokens (prompt s)) = alora_invocation_start s - 1)
      then Inr (True, s, b)
      else rbind (pos_end (ue_mtmd E) (pr_tokens (prompt s))) (\<lambda>pos.
           rbind (batch_add (sl_id s) tok pos (need_embd t) True b) (\<lambda>(ok, b).
           rbind (push_back_tok tok (pr_tokens (prompt s))) (\<lambda>st.
             let s = s\<lparr>prompt := (prompt s)\<lparr>pr_tokens := st\<rparr>\<rparr>; n = int (prompt_n_tokens (prompt s))
             in if ckpt \<and> (cut_at_user E t P (pr_checkpoints (prompt s)) n \<or> cut_near_end E t n) then Inr (ok, s, b)
                else map_sum id (\<lambda>(ok', s, b). (ok \<and> ok', s, b)) (fill_batch E P ckpt t rest s b)))))"

text \<open>Disabling the adapter for the tokens before its invocation.\<close>

definition disable_alora :: "'c upd_env \<Rightarrow> nat \<Rightarrow> 'c server_context \<Rightarrow> 'c server_context result" where
  "disable_alora E i C =
     (let s = slots C ! i
      in if lora_all_alora (ce_alora (ue_ctx E)) (lora s) \<and> alora_invocation_start s - 1 > int (prompt_n_tokens (prompt s)) then
           (case lora_get_enabled_ids (lora s) of
              [k] \<Rightarrow> Inr ((set_slot i (s\<lparr>lora := (lora s)[k := (lora s ! k)\<lparr>lo_scale := 0\<rparr>]\<rparr>) C)
                         \<lparr>batch := (batch C)\<lparr>alora_scale := lo_scale (lora s ! k), alora_disabled_id := k\<rparr>\<rparr>)
            | _ \<Rightarrow> Inl Abort)
         else Inr C)"

definition may_checkpoint :: "'c upd_env \<Rightarrow> server_params \<Rightarrow> 'c server_task \<Rightarrow> bool" where
  "may_checkpoint E P t \<longleftrightarrow> n_ctx_checkpoints P > 0 \<and> type_of_task t = TASK_COMPLETION
     \<and> (ue_rm_tgt E = RM_FULL \<or> ue_rm_tgt E = RM_RS \<or> ue_n_swa E > 0)"

text \<open>After the tokens: the end of the prompt, or a checkpoint on the way.\<close>

definition end_prompt :: "'c upd_env \<Rightarrow> 'c server_task \<Rightarrow> nat \<Rightarrow> 'c server_context \<Rightarrow> 'c server_context result" where
  "end_prompt E t i C =
     (if batch_size (batch C) > 0 then
        rbind (set_output (batch_size (batch C) - 1) True (batch C)) (\<lambda>b.
        rbind (init_sampler ((slots C ! i)\<lparr>state := SLOT_DONE_PROMPT, stats := (stats (slots C ! i))\<lparr>n_gen := 0\<rparr>,
                 i_batch := batch_size b - 1\<rparr>)) (\<lambda>s.
          Inr ((set_slot i s C)\<lparr>batch := b\<rparr>)))
      else Inl Abort)"

definition maybe_checkpoint ::
  "'c upd_env \<Rightarrow> 'c server_task \<Rightarrow> nat \<Rightarrow> int \<Rightarrow> bool \<Rightarrow> bool \<Rightarrow> 'c server_context \<Rightarrow> 'c server_context result" where
  "maybe_checkpoint E t i n_cur ckpt ended C =
     (let s = slots C ! i; n = int (prompt_n_tokens (prompt s)); n_start = n - n_cur; P = params_base C;
          near_end = (task_n_tokens t < n + ue_n_ubatch E);
          pmin = ue_pos_min E (dev C) (sl_id s); pmax = ue_pos_max E (dev C) (sl_id s);
          cs = pr_checkpoints (prompt s)
      in if ckpt \<and> (ended \<or> ue_user_start E (message_spans (params t)) n_start \<or> near_end) \<and> \<not> pmin < 0
            \<and> (cs = [] \<or> n_start = ue_last_user E (message_spans (params t)) \<or> near_end
                 \<or> n_start > ck_n_tokens (last cs) + checkpoint_min_step P)
         then create_checkpoint (ue_ctx E) i n_cur pmin pmax C else Inr C)"

text \<open>The memory behind the kept tokens is dropped, and an adapter may be disabled.\<close>

definition prepare_memory :: "'c upd_env \<Rightarrow> nat \<Rightarrow> 'c server_context \<Rightarrow> 'c server_context result" where
  "prepare_memory E i C =
     rbind (pos_end (ue_mtmd E) (pr_tokens (prompt (slots C ! i)))) (\<lambda>p0.
       disable_alora E i (log_ops [Seq_rm (sl_id (slots C ! i)) p0 (-1)] C))"

definition add_prompt_tokens ::
  "'c upd_env \<Rightarrow> 'c server_task \<Rightarrow> nat \<Rightarrow> int \<Rightarrow> bool \<Rightarrow> 'c server_context \<Rightarrow> bool result \<times> 'c server_context" where
  "add_prompt_tokens E t i n_prev any_media C =
     (let P = params_base C; ckpt = may_checkpoint E P t
      in then_do (fill_batch E P ckpt t (drop (prompt_n_tokens (prompt (slots C ! i))) (toks (tokens t))) (slots C ! i) (batch C), C)
           (\<lambda>(ok, s, b) C.
           let C = (set_slot i s C)\<lparr>batch := b\<rparr>; n_cur = batch_size b - n_prev;
               ended = (int (prompt_n_tokens (prompt s)) = task_n_tokens t)
           in then_do (commit (if ended then end_prompt E t i C else Inr C) C) (\<lambda>_ C.
              then_do (commit (maybe_checkpoint E t i n_cur (ckpt \<and> \<not> any_media) ended C) C) (\<lambda>_ C. (Inr ok, C)))))"

text \<open>
  The part for a slot that has prompt left, after \<open>start_prompt\<close>.  The value: whether the batch took
  every token it was given, and whether the end of the step was reached.
\<close>

definition continue_prompt ::
  "'c upd_env \<Rightarrow> int \<Rightarrow> 'c server_task \<Rightarrow> nat \<Rightarrow> int \<Rightarrow> 'c server_context \<Rightarrow> (bool \<times> bool) result \<times> 'c server_context" where
  "continue_prompt E now t i n_prev C =
     then_do (can_split (ue_has_memory E) (ue_pooling_last E) (slots C ! i), C) (\<lambda>split C.
     if \<not> split \<and> batch_size (batch C) + task_n_tokens t > ue_n_batch E then (Inr (True, False), C)
     else then_do (commit (prepare_memory E i C) C) (\<lambda>_ C.
          then_do (media_chunks E now t i False C) (\<lambda>(alive, any_media) C.
          if \<not> alive then (Inr (True, False), C)
          else then_do (add_prompt_tokens E t i n_prev any_media C) (\<lambda>ok C. (Inr (ok, True), C)))))"

text \<open>The step for one slot; \<open>add_ok\<close> is the flag the steps share.\<close>

definition prompt_step :: "'c upd_env \<Rightarrow> int \<Rightarrow> bool \<Rightarrow> nat \<Rightarrow> 'c server_context \<Rightarrow> bool result \<times> 'c server_context" where
  "prompt_step E now add_ok i C =
     (let s = slots C ! i
      in if \<not> add_ok \<or> batch_size (batch C) \<ge> ue_n_batch E \<or> \<not> is_processing s then (Inr add_ok, C)
         else then_do ((case slot_batched (batch C) of
                          None \<Rightarrow> Inr True | Some k \<Rightarrow> can_batch_with s (slots C ! nat k)), C) (\<lambda>fits C.
         if \<not> fits \<or> state s = SLOT_WAIT_OTHER then (Inr add_ok, C)
         else
           let mark = (\<lambda>C. if slot_batched (batch C) = None then C\<lparr>batch := (batch C)\<lparr>slot_batched := Some (int i)\<rparr>\<rparr> else C)
           in if state s = SLOT_PROCESSING_PROMPT \<or> state s = SLOT_STARTED then
                (case task s of
                   None \<Rightarrow> (Inl Abort, C)
                 | Some t \<Rightarrow>
                     let n_prev = batch_size (batch C)
                     in then_do (if state s = SLOT_STARTED then start_prompt E now t i C else (Inr True, C)) (\<lambda>go C.
                        if \<not> go then (Inr add_ok, C)
                        else then_do (continue_prompt E now t i n_prev C) (\<lambda>(ok, done) C.
                          (Inr (add_ok \<and> ok), if done then mark C else C))))
              else (Inr add_ok, mark C)))"

text \<open>\<open>iterate\<close> over the slots with the shared flag.\<close>

fun prompt_steps :: "'c upd_env \<Rightarrow> int \<Rightarrow> bool \<Rightarrow> nat list \<Rightarrow> 'c server_context \<Rightarrow> 'c server_context result" where
  "prompt_steps E now add_ok [] C = Inr C"
| "prompt_steps E now add_ok (i # is) C =
     (case prompt_step E now add_ok i C of
        (Inr ok, C) \<Rightarrow> prompt_steps E now ok is C
      | (Inl Abort, C) \<Rightarrow> Inl Abort
      | (Inl (Throw e), C) \<Rightarrow> rbind (fail_slot now (''got exception: '' @ e) i C) (prompt_steps E now add_ok is))"

text \<open>\<open>pre_decode()\<close>\<close>

definition pre_decode :: "'c upd_env \<Rightarrow> int \<Rightarrow> 'c server_context \<Rightarrow> 'c server_context result" where
  "pre_decode E now C =
     (let all_slots = (\<lambda>C. [0..<length (slots C)])
      in rbind (iterate now (\<lambda>i C. outcome_of (commit (shift_slot E now i C) C)) (all_slots C) C) (\<lambda>C.
         let C = C\<lparr>batch := batch_clear (batch C)\<rparr>
         in rbind (select_generating E (all_slots C) [] [] C) (\<lambda>(gen, dr, C).
            rbind (take_drafts E (dev C) dr C) (\<lambda>C.
            rbind (iterate now (\<lambda>i C. outcome_of (commit (push_sampled E i C) C)) gen C) (\<lambda>C.
              if cont_batching (params_base C) \<or> batch_size (batch C) = 0
              then prompt_steps E now True (all_slots C) C else Inr C)))))"

end
