(* ===== verification/Prompt.thy ===== *)
theory Prompt
  imports Prefill
begin

text \<open>
  What \<open>pre_decode\<close> guarantees for text prompts: the tokens kept of a cached prompt are a prefix of the new
  one, the tokens of a prompt enter the batch one after the other at their positions, and a context shift
  keeps the head and the tail of the prompt.
\<close>

section \<open>Common prefixes\<close>

lemma take_eq_le: "take m xs = take m ys \<Longrightarrow> k \<le> m \<Longrightarrow> take k xs = take k ys"
  by (metis min.absorb1 take_take)

lemma nth_take_eq: "take m xs = take m ys \<Longrightarrow> j < m \<Longrightarrow> xs ! j = ys ! j"
  by (metis nth_take)

lemma find_in_set: "find P xs = Some x \<Longrightarrow> x \<in> set xs"
  by (auto simp: find_Some_iff)

lemma text_prefix_take:
  "text_prefix as bs \<le> length as \<and> text_prefix as bs \<le> length bs \<and> take (text_prefix as bs) as = take (text_prefix as bs) bs"
  by (induction as bs rule: text_prefix.induct) auto

lemma match_len_take:
  "match_len as bs \<le> length as \<and> match_len as bs \<le> length bs \<and> take (match_len as bs) as = take (match_len as bs) bs"
  by (induction as bs rule: match_len.induct) auto

lemma move_tokens_Suc: "move_tokens p c (Suc n) ts = (move_tokens p c n ts)[p + n := move_tokens p c n ts ! (c + n)]"
  by (simp add: move_tokens_def)

lemma nth_move_tokens:
  "p \<le> c \<Longrightarrow> c + n \<le> length ts \<Longrightarrow> j < length ts \<Longrightarrow>
     move_tokens p c n ts ! j = (if p \<le> j \<and> j < p + n then ts ! (c + (j - p)) else ts ! j)"
proof (induction n arbitrary: j)
  case (Suc n)
  then show ?case by (auto simp: move_tokens_Suc nth_update less_Suc_eq)
qed (auto simp: move_tokens_def)

lemma take_move_tokens:
  assumes "p \<le> c" "c + n \<le> length ts" "take p ts = take p inp" "p + n \<le> length inp"
    "take n (drop c ts) = take n (drop p inp)"
  shows "take (p + n) (move_tokens p c n ts) = take (p + n) inp"
proof (rule nth_equalityI)
  show "length (take (p + n) (move_tokens p c n ts)) = length (take (p + n) inp)" using assms by simp
  fix j
  assume j: "j < length (take (p + n) (move_tokens p c n ts))"
  then have j': "j < p + n" "j < length ts" by simp_all
  show "take (p + n) (move_tokens p c n ts) ! j = take (p + n) inp ! j"
  proof (cases "p \<le> j")
    case True
    have "drop c ts ! (j - p) = drop p inp ! (j - p)" using nth_take_eq [OF assms(5), of "j - p"] True j' by simp
    then have "ts ! (c + (j - p)) = inp ! j" using True j' assms(1,2,4) by simp
    then show ?thesis using True j' assms(1,2) by (simp add: nth_move_tokens)
  next
    case False
    have "ts ! j = inp ! j" using nth_take_eq [OF assms(3)] False by simp
    then show ?thesis using False j' assms by (simp add: nth_move_tokens)
  qed
qed

lemma reuse_chunks_prefix:
  assumes "reuse_chunks n_reuse k inp hc hp ts ops = (n, ts', ops')" "hp \<le> hc" "hp \<le> length ts" "hp \<le> length inp"
    "take hp ts = take hp inp"
  shows "n \<le> length ts' \<and> n \<le> length inp \<and> take n ts' = take n inp \<and> length ts' = length ts \<and> hp \<le> n"
  using assms
proof (induction n_reuse k inp hc hp ts ops rule: reuse_chunks.induct)
  case (1 n_reuse k inp hc hp ts ops)
  let ?m = "match_len (drop hc ts) (drop hp inp)"
  note ml = match_len_take [of "drop hc ts" "drop hp inp"]
  show ?case
  proof (cases "hc < length ts \<and> hp < length inp")
    case True
    show ?thesis
    proof (cases "?m \<ge> n_reuse \<and> ?m > 0")
      case big: True
      have b: "hc + ?m \<le> length ts" "hp + ?m \<le> length inp" "take ?m (drop hc ts) = take ?m (drop hp inp)"
        using ml True by (auto simp: le_diff_conv2)
      have "take (hp + ?m) (move_tokens hp hc ?m ts) = take (hp + ?m) inp"
        using take_move_tokens [OF 1(4) b(1) 1(7) b(2,3)] .
      moreover have "reuse_chunks n_reuse k inp (hc + ?m) (hp + ?m) (move_tokens hp hc ?m ts)
          (ops @ [Seq_rm k (int hp) (int hc), Seq_add k (int hc) (int (hc + ?m)) (int hp - int hc)]) = (n, ts', ops')"
        using 1(3) True big by (subst (asm) reuse_chunks.simps) (simp add: Let_def)
      ultimately show ?thesis
        using 1(1) [OF True refl big] 1(4-6) b by auto
    next
      case False
      then have "reuse_chunks n_reuse k inp (hc + 1) hp ts ops = (n, ts', ops')"
        using 1(3) True by (subst (asm) reuse_chunks.simps) (auto simp: Let_def)
      then show ?thesis using 1(2) [OF True refl False] 1(4-7) by auto
    qed
  next
    case False
    then show ?thesis using 1(3-7) by (subst (asm) reuse_chunks.simps) auto
  qed
qed

section \<open>The part of the cached prompt that is kept\<close>

definition text_only :: "'c slot \<Rightarrow> bool" where
  "text_only s \<longleftrightarrow> \<not> has_mtmd (pr_tokens (prompt s))"

abbreviation prompt_toks :: "'c slot \<Rightarrow> llama_token list" where
  "prompt_toks s \<equiv> toks (pr_tokens (prompt s))"

lemma set_prompt_toks_simps [simp]:
  "prompt_toks (set_prompt_toks ts s) = ts" "text_only (set_prompt_toks ts s) = text_only s"
  "task (set_prompt_toks ts s) = task s" "state (set_prompt_toks ts s) = state s" "sl_id (set_prompt_toks ts s) = sl_id s"
  "stats (set_prompt_toks ts s) = stats s" "pr_checkpoints (prompt (set_prompt_toks ts s)) = pr_checkpoints (prompt s)"
  by (simp_all add: set_prompt_toks_def text_only_def)

lemma pos_next_text: "\<not> has_mtmd st \<Longrightarrow> pos_next M (int n) st = Some (Inr (int n))"
  by (simp add: pos_next_def)

lemma pos_end_text: "\<not> has_mtmd st \<Longrightarrow> pos_end M st = Inr (int (length (toks st)))"
  by (simp add: pos_end_def pos_next_def)

lemma reuse_prefix_text:
  assumes "reuse_prefix E t s = Inr (n, s', ops)" "text_only s"
  shows "text_only s' \<and> (\<exists>ts. s' = set_prompt_toks ts s) \<and> n \<le> length (prompt_toks s') \<and> n \<le> length (toks (tokens t))
    \<and> take n (prompt_toks s') = take n (toks (tokens t))"
proof -
  have id: "set_prompt_toks (prompt_toks s) s = s" by (simp add: set_prompt_toks_def)
  show ?thesis
  proof (cases "cache_prompt (params t)")
    case False
    then show ?thesis using assms id by (auto simp: reuse_prefix_def intro: exI [of _ "prompt_toks s"])
  next
    case True
    define m where "m = text_prefix (prompt_toks s) (toks (tokens t))"
    define k where "k = (if alora_invocation_start s > 0 then nat (min (int m) (alora_invocation_start s - 1)) else m)"
    note tp = text_prefix_take [of "prompt_toks s" "toks (tokens t)", folded m_def]
    have k: "k \<le> m" by (auto simp: k_def)
    have pre: "k \<le> length (prompt_toks s)" "k \<le> length (toks (tokens t))" "take k (prompt_toks s) = take k (toks (tokens t))"
      using tp k take_eq_le [of m "prompt_toks s" "toks (tokens t)" k] by simp_all
    have g: "get_common_prefix (ue_mtmd E) (pr_tokens (prompt s)) (tokens t) = Inr m"
      using assms(2) by (simp add: get_common_prefix_def m_def text_only_def)
    show ?thesis
    proof (cases "ue_can_shift E \<and> \<not> has_mtmd (pr_tokens (prompt s)) \<and> n_cache_reuse (params t) > 0")
      case False
      then have "n = k" "s' = s" using assms True g by (auto simp: reuse_prefix_def Let_def k_def split: if_splits)
      then show ?thesis using pre assms(2) id by (auto intro: exI [of _ "prompt_toks s"])
    next
      case shift: True
      obtain ts where r: "reuse_chunks (nat (n_cache_reuse (params t))) (sl_id s) (toks (tokens t)) k k (prompt_toks s) [] = (n, ts, ops)"
        and s': "s' = set_prompt_toks ts s"
        using assms True g shift by (auto simp: reuse_prefix_def Let_def k_def split: if_splits prod.splits)
      show ?thesis using reuse_chunks_prefix [OF r _ pre] assms(2) s' by auto
    qed
  qed
qed

lemma restore_point_text:
  assumes "restore_point E lg t s n = Inr (n', pos, c)" "text_only s" "\<forall>c \<in> set (pr_checkpoints (prompt s)). 0 \<le> ck_pos_min c"
  shows "n' \<le> n"
proof -
  define th where "th = max 0 (int n - ue_n_swa E - (if int n < task_n_tokens t then 0 else 1))"
  define found where "found = find (\<lambda>c. \<not> ck_pos_max c > int n \<and> (ck_pos_min c < th \<or> ck_pos_min c = 0)) (rev (pr_checkpoints (prompt s)))"
  have p: "pos_next (ue_mtmd E) (int n) (pr_tokens (prompt s)) = Some (Inr (int n))"
    using assms(2) by (simp add: pos_next_text text_only_def)
  have r: "(if n > 0 \<and> n \<le> prompt_n_tokens (prompt s) then
              (let pmin = ue_pos_min E lg (sl_id s)
               in if pmin = -1 then Inl Abort
                  else if pmin \<ge> th then
                    (case found of
                       None \<Rightarrow> Inr (0, 0, None)
                     | Some c \<Rightarrow>
                         let pos = min (int n) (max (ck_pos_min c + 1) (ck_pos_max c))
                         in case size_up_to_pos (ue_mtmd E) pos (pr_tokens (prompt s)) of
                              None \<Rightarrow> Inl Abort
                            | Some n \<Rightarrow> Inr (nat (min (int n) (ck_n_tokens c)), pos, Some c))
                  else Inr (n, int n, None))
            else Inr (n, int n, None)) = Inr (n', pos, c)"
    using assms(1) by (simp only: restore_point_def p Let_def th_def found_def option.case rbind.simps)
  show ?thesis
  proof (cases found)
    case None
    then show ?thesis using r by (auto simp: Let_def split: if_splits)
  next
    case (Some d)
    have d: "0 \<le> ck_pos_min d" using find_in_set [OF Some [unfolded found_def]] assms(3) by simp
    obtain q where q0: "q = min (int n) (max (ck_pos_min d + 1) (ck_pos_max d))" by blast
    have q: "0 \<le> q" "q \<le> int n" using d by (auto simp: q0)
    have "size_up_to_pos (ue_mtmd E) q (pr_tokens (prompt s)) = Some (min (nat q) (length (prompt_toks s)))"
      using assms(2) q(1) by (simp add: size_up_to_pos_def text_only_def)
    then have "n' = n \<or> n' = nat (min (int (min (nat q) (length (prompt_toks s)))) (ck_n_tokens d))"
      using r [unfolded Some option.case Let_def, folded q0] by (simp split: if_split_asm) blast
    then show ?thesis using q by auto
  qed
qed

lemma keep_cached_text:
  assumes "keep_cached E lg t s = Inr (n, s', ops)" "text_only s" "\<forall>c \<in> set (pr_checkpoints (prompt s)). 0 \<le> ck_pos_min c"
    "toks (tokens t) \<noteq> []"
  shows "text_only s' \<and> n < length (toks (tokens t)) \<and> n \<le> length (prompt_toks s')
    \<and> take n (prompt_toks s') = take n (toks (tokens t)) \<and> (\<exists>p. s' = s\<lparr>prompt := p\<rparr>)"
proof -
  let ?inp = "toks (tokens t)"
  from assms(1) obtain split n1 s1 ops1 where sp: "can_split (ue_has_memory E) (ue_pooling_last E) s = Inr split"
    and r: "(if \<not> split then Inr (0, s, [])
            else rbind (reuse_prefix E t s) (\<lambda>(n, s, ops).
                 rbind (restore_point E (lg @ ops) t s n) (\<lambda>(n, pos, c).
                   let p = prompt s; p = p\<lparr>pr_checkpoints := filter (\<lambda>c. \<not> ck_pos_max c > pos) (pr_checkpoints p)\<rparr>
                   in Inr (n, s\<lparr>prompt := p\<rparr>, ops @ (case c of None \<Rightarrow> [] | Some c \<Rightarrow> [Checkpoint_load (sl_id s) c, Checkpoint_load_dft (sl_id s) c])))))
          = Inr (n1, s1, ops1)"
    and n: "n = (if int n1 = task_n_tokens t \<and> n1 > 0 then n1 - 1 else n1)" and s': "s' = s1"
    unfolding keep_cached_def rbind_Inr_iff by auto
  have k: "text_only s1 \<and> n1 \<le> length ?inp \<and> n1 \<le> length (prompt_toks s1)
      \<and> take n1 (prompt_toks s1) = take n1 ?inp \<and> (\<exists>p. s1 = s\<lparr>prompt := p\<rparr>)"
  proof (cases split)
    case False
    have "\<exists>p. s = s\<lparr>prompt := p\<rparr>" by (rule exI [of _ "prompt s"]) simp
    then show ?thesis using r False assms(2) by simp
  next
    case True
    then obtain m s2 ops2 m' pos c where u: "reuse_prefix E t s = Inr (m, s2, ops2)"
      and v: "restore_point E (lg @ ops2) t s2 m = Inr (m', pos, c)" and n1: "n1 = m'"
      and s1: "s1 = s2\<lparr>prompt := (prompt s2)\<lparr>pr_checkpoints := filter (\<lambda>c. \<not> ck_pos_max c > pos) (pr_checkpoints (prompt s2))\<rparr>\<rparr>"
      using r by (auto simp: rbind_Inr_iff Let_def)
    note tx = reuse_prefix_text [OF u assms(2)]
    then obtain ts where s2: "s2 = set_prompt_toks ts s" by blast
    have "m' \<le> m" using restore_point_text [OF v] tx assms(3) s2 by auto
    then have "take m' (prompt_toks s2) = take m' ?inp" using tx take_eq_le by blast
    then show ?thesis using tx \<open>m' \<le> m\<close> s1 n1 s2 by (auto simp: text_only_def set_prompt_toks_def)
  qed
  have "n \<le> n1" "n < length ?inp" using n k assms(4) by (auto simp: task_n_tokens_def st_size_def)
  moreover have "take n (prompt_toks s1) = take n ?inp" using k \<open>n \<le> n1\<close> take_eq_le by blast
  ultimately show ?thesis using k s' by auto
qed

lemma keep_first_text: "\<not> has_mtmd st \<Longrightarrow> n \<le> length (toks st) \<Longrightarrow> keep_first n st = Inr (st\<lparr>toks := take n (toks st)\<rparr>)"
  by (simp add: keep_first_def)

lemma send_partial_frame: "send_partial now p b i C = Inr C' \<Longrightarrow> slots C' = slots C"
  by (auto simp: send_partial_def rbind_Inr_iff)

text \<open>
  Property C9.  When a slot starts on a text prompt, what it keeps of its cached prompt is a proper prefix of
  the new prompt: whatever was matched, moved about or restored from a checkpoint, no stale token stays in
  and at least one token is left to process.
\<close>

theorem started_prompt_is_prefix:
  assumes "start_prompt E now t i C = (Inr True, C')" "i < length (slots C)" "text_only (slots C ! i)"
    "\<forall>c \<in> set (pr_checkpoints (prompt (slots C ! i))). 0 \<le> ck_pos_min c"
  shows "prompt_toks (slots C' ! i) = take (n_prompt_cached (stats (slots C' ! i))) (toks (tokens t))
    \<and> n_prompt_cached (stats (slots C' ! i)) < length (toks (tokens t))
    \<and> state (slots C' ! i) = SLOT_PROCESSING_PROMPT \<and> task (slots C' ! i) = task (slots C ! i) \<and> others_same {i} C C'"
proof -
  from assms(1) obtain st n s ops C1 C2 u where
    1: "C1 = set_slot i ((slots C ! i)\<lparr>stats := st, state := SLOT_PROCESSING_PROMPT\<rparr>) C" and
    2: "toks (tokens t) \<noteq> []" and
    3: "keep_cached E (dev C1) t (slots C1 ! i) = Inr (n, s, ops)" and
    4: "cut_prompt n s ops i C1 = (Inr u, C2)" and
    5: "announce_prompt now t i C2 = Inr C'"
    unfolding start_prompt_def then_do_Inr_iff commit_Inr_iff rbind_Inr_iff
    by (auto simp: then_do_Inr_iff commit_Inr_iff split: if_splits option.splits)
  have s1: "slots C1 ! i = (slots C ! i)\<lparr>stats := st, state := SLOT_PROCESSING_PROMPT\<rparr>" using 1 assms(2) by simp
  note k = keep_cached_text [OF 3]
  have k: "text_only s \<and> n < length (toks (tokens t)) \<and> n \<le> length (prompt_toks s)
      \<and> take n (prompt_toks s) = take n (toks (tokens t)) \<and> (\<exists>p. s = (slots C1 ! i)\<lparr>prompt := p\<rparr>)"
    by (rule k) (use s1 assms(3,4) 2 in \<open>simp_all add: text_only_def\<close>)
  then have "keep_first n (pr_tokens (prompt s)) = Inr ((pr_tokens (prompt s))\<lparr>toks := take n (prompt_toks s)\<rparr>)"
    by (simp add: keep_first_text text_only_def)
  then have C2: "slots C2 = (slots C1)[i := s\<lparr>stats := (stats s)\<lparr>n_prompt_cached := n, n_prompt_processed := 0\<rparr>,
                 prompt := (prompt s)\<lparr>pr_tokens := (pr_tokens (prompt s))\<lparr>toks := take n (prompt_toks s)\<rparr>\<rparr>\<rparr>]"
    using 4 by (auto simp: cut_prompt_def Let_def commit_Inr_iff)
  have "slots C' = slots C2" using 5 send_partial_frame by (auto simp: announce_prompt_def split: if_splits)
  then show ?thesis using C2 k s1 1 assms(2) by (auto simp: others_same_def)
qed

section \<open>Prompt tokens in the batch\<close>

text \<open>What the decoder gets of an entry: sequence, token and position.\<close>

definition entry_of :: "batch_token \<Rightarrow> int \<times> llama_token \<times> int" where
  "entry_of e = (bt_slot e, bt_token e, bt_pos e)"

definition entries :: "server_batch \<Rightarrow> (int \<times> llama_token \<times> int) list" where
  "entries b = map entry_of (bt_tokens b)"

text \<open>The entries for the tokens \<open>ts\<close> of a sequence from position \<open>p\<close> on.\<close>

definition run_of :: "int \<Rightarrow> int \<Rightarrow> llama_token list \<Rightarrow> (int \<times> llama_token \<times> int) list" where
  "run_of k p ts = map (\<lambda>j. (k, ts ! j, p + int j)) [0..<length ts]"

lemma run_of_Nil [simp]: "run_of k p [] = []"
  by (simp add: run_of_def)

lemma run_of_Cons: "run_of k p (x # xs) = (k, x, p) # run_of k (p + 1) xs"
  by (simp add: run_of_def upt_conv_Cons map_Suc_upt [symmetric] del: upt_Suc)

text \<open>
  What may end the filling of the batch with a prompt that has become \<open>n\<close> long, beside the end of the
  prompt: a full batch, the place where an adapter is invoked, or, once a token was taken, the place of a checkpoint.
\<close>

definition fill_stop :: "'c upd_env \<Rightarrow> server_params \<Rightarrow> bool \<Rightarrow> 'c server_task \<Rightarrow> 'c slot \<Rightarrow> server_batch \<Rightarrow> bool \<Rightarrow> int \<Rightarrow> bool" where
  "fill_stop E P ck t s b moved n \<longleftrightarrow> ue_n_batch E \<le> batch_size b
     \<or> 0 < alora_scale b \<and> n = alora_invocation_start s - 1
     \<or> moved \<and> ck \<and> (cut_at_user E t P (pr_checkpoints (prompt s)) n \<or> cut_near_end E t n)"

lemma set_prompt_toks_frame [simp]:
  "alora_invocation_start (set_prompt_toks ts s) = alora_invocation_start s"
  "pr_checkpoints (prompt (set_prompt_toks ts s)) = pr_checkpoints (prompt s)"
  by (simp_all add: set_prompt_toks_def)

lemma fill_batch_text:
  assumes "fill_batch E P ck t rest s b = Inr (ok, s', b')" "text_only s" "LLAMA_TOKEN_NULL \<notin> set rest"
    "ue_n_batch E \<le> n_tokens_alloc b"
  shows "ok \<and> (\<exists>m \<le> length rest. prompt_toks s' = prompt_toks s @ take m rest \<and> (\<exists>ts. s' = set_prompt_toks ts s)
      \<and> entries b' = entries b @ run_of (sl_id s) (int (length (prompt_toks s))) (take m rest)
      \<and> alora_scale b' = alora_scale b \<and> batch_size b' \<le> max (batch_size b) (ue_n_batch E)
      \<and> (m = length rest \<or> fill_stop E P ck t s b' (0 < m) (int (length (prompt_toks s) + m))))"
  using assms
proof (induction rest arbitrary: s b ok s' b')
  case Nil
  have id: "\<exists>ts. s = set_prompt_toks ts s" by (rule exI [of _ "prompt_toks s"]) (simp add: set_prompt_toks_def)
  from Nil have r: "ok" "s' = s" "b' = b" by simp_all
  show ?case unfolding r(2,3) by (intro conjI exI [of _ "0::nat"] r(1) id) simp_all
next
  case (Cons tok rest)
  have id: "\<exists>ts. s = set_prompt_toks ts s" by (rule exI [of _ "prompt_toks s"]) (simp add: set_prompt_toks_def)
  show ?case
  proof (cases "\<not> batch_size b < ue_n_batch E \<or> tok = LLAMA_TOKEN_NULL
        \<or> (alora_scale b > 0 \<and> int (prompt_n_tokens (prompt s)) = alora_invocation_start s - 1)")
    case True
    then have r: "ok" "s' = s" "b' = b" using Cons.prems(1) by auto
    have stop: "fill_stop E P ck t s b (0 < (0::nat)) (int (length (prompt_toks s) + 0))"
      using True Cons.prems(3) by (auto simp: fill_stop_def prompt_n_tokens_def st_size_def)
    show ?thesis unfolding r(2,3)
      by (intro conjI exI [of _ "0::nat"] r(1) id disjI2 [OF stop]) simp_all
  next
    case False
    define s1 where "s1 = set_prompt_toks (prompt_toks s @ [tok]) s"
    define b1 where "b1 = b\<lparr>bt_tokens := bt_tokens b @ [\<lparr>bt_slot = sl_id s, bt_token = tok,
        bt_pos = int (length (prompt_toks s)), bt_output = need_embd t, bt_is_prompt = True\<rparr>]\<rparr>"
    have pos: "pos_end (ue_mtmd E) (pr_tokens (prompt s)) = Inr (int (length (prompt_toks s)))"
      using Cons.prems(2) by (simp add: pos_end_text text_only_def)
    have push: "push_back_tok tok (pr_tokens (prompt s)) = Inr (pr_tokens (prompt s1))"
      using False by (simp add: push_back_tok_def s1_def set_prompt_toks_def)
    have add: "batch_add (sl_id s) tok (int (length (prompt_toks s))) (need_embd t) True b = Inr (True, b1)"
      using Cons.prems(1,4) False pos by (auto simp: batch_add_def b1_def split: if_splits)
    have s1: "s\<lparr>prompt := (prompt s)\<lparr>pr_tokens := pr_tokens (prompt s1)\<rparr>\<rparr> = s1"
      by (simp add: s1_def set_prompt_toks_def)
    have e1: "entries b1 = entries b @ [(sl_id s, tok, int (length (prompt_toks s)))]"
      by (simp add: entries_def b1_def entry_of_def)
    have p1: "prompt_toks s1 = prompt_toks s @ [tok]" "text_only s1" "sl_id s1 = sl_id s"
      using Cons.prems(2) by (simp_all add: s1_def)
    have sz: "batch_size b1 = batch_size b + 1" "alora_scale b1 = alora_scale b" "batch_size b < ue_n_batch E"
      using False by (simp_all add: b1_def batch_size_def)
    have r: "(if ck \<and> (cut_at_user E t P (pr_checkpoints (prompt s1)) (int (prompt_n_tokens (prompt s1)))
                 \<or> cut_near_end E t (int (prompt_n_tokens (prompt s1)))) then Inr (True, s1, b1)
              else map_sum id (\<lambda>(ok', s, b). (True \<and> ok', s, b)) (fill_batch E P ck t rest s1 b1)) = Inr (ok, s', b')"
      using Cons.prems(1)
      by (simp only: fill_batch.simps if_not_P [OF False] pos rbind.simps add push prod.case Let_def s1 split_conv)
    show ?thesis
    proof (cases "ck \<and> (cut_at_user E t P (pr_checkpoints (prompt s1)) (int (prompt_n_tokens (prompt s1)))
                 \<or> cut_near_end E t (int (prompt_n_tokens (prompt s1))))")
      case True
      then have eq: "ok" "s' = s1" "b' = b1" using r by simp_all
      have "fill_stop E P ck t s b1 (0 < (1::nat)) (int (length (prompt_toks s) + 1))"
        using True p1(1) by (auto simp: fill_stop_def prompt_n_tokens_def st_size_def s1_def)
      then have stop: "(1::nat) = length (tok # rest) \<or> fill_stop E P ck t s b1 (0 < (1::nat)) (int (length (prompt_toks s) + 1))" ..
      have id1: "\<exists>ts. s1 = set_prompt_toks ts s" by (rule exI [of _ "prompt_toks s @ [tok]"]) (simp add: s1_def)
      show ?thesis unfolding eq(2,3)
      proof (intro conjI exI [of _ "1::nat"] eq(1) id1 stop sz(2))
        show "prompt_toks s1 = prompt_toks s @ take 1 (tok # rest)" using p1 by simp
        show "entries b1 = entries b @ run_of (sl_id s) (int (length (prompt_toks s))) (take 1 (tok # rest))"
          using e1 by (simp add: run_of_Cons)
        show "batch_size b1 \<le> max (batch_size b) (ue_n_batch E)" using sz by simp
      qed simp_all
    next
      case False
      from r have "map_sum id (\<lambda>(ok', s, b). (True \<and> ok', s, b)) (fill_batch E P ck t rest s1 b1) = Inr (ok, s', b')"
        by (simp only: if_not_P [OF False])
      then obtain ok' where f: "fill_batch E P ck t rest s1 b1 = Inr (ok', s', b')" and ok: "ok = ok'"
        by (cases "fill_batch E P ck t rest s1 b1") (simp_all add: split_beta prod_eq_iff)
      have "LLAMA_TOKEN_NULL \<notin> set rest" "ue_n_batch E \<le> n_tokens_alloc b1" using Cons.prems(3,4) by (simp_all add: b1_def)
      from Cons.IH [OF f p1(2) this] obtain m ts where m: "ok'" "m \<le> length rest" "prompt_toks s' = prompt_toks s1 @ take m rest"
        "s' = set_prompt_toks ts s1" "entries b' = entries b1 @ run_of (sl_id s1) (int (length (prompt_toks s1))) (take m rest)"
        "alora_scale b' = alora_scale b1" "batch_size b' \<le> max (batch_size b1) (ue_n_batch E)"
        "m = length rest \<or> fill_stop E P ck t s1 b' (0 < m) (int (length (prompt_toks s1) + m))"
        by blast
      have id2: "\<exists>ts. s' = set_prompt_toks ts s" using m(4) by (auto simp: s1_def set_prompt_toks_def)
      have "fill_stop E P ck t s b' (0 < Suc m) (int (length (prompt_toks s) + Suc m))" if "fill_stop E P ck t s1 b' (0 < m) (int (length (prompt_toks s1) + m))"
        using that p1(1) by (auto simp: fill_stop_def s1_def)
      then have stop: "Suc m = length (tok # rest) \<or> fill_stop E P ck t s b' (0 < Suc m) (int (length (prompt_toks s) + Suc m))"
        using m(8) by auto
      have max: "batch_size b' \<le> max (batch_size b) (ue_n_batch E)" using m(7) sz by simp
      show ?thesis
        by (intro conjI exI [of _ "Suc m"] id2 stop max) (use m e1 p1 ok sz in \<open>simp_all add: run_of_Cons add.commute\<close>)
    qed
  qed
qed

lemma media_chunks_text:
  "LLAMA_TOKEN_NULL \<notin> set (toks (tokens t)) \<Longrightarrow> media_chunks E now t i any C = (Inr (True, any), C)"
  by (subst media_chunks.simps) (auto simp: media_here_def st_size_def Let_def dest: nth_mem)

lemma disable_alora_frame:
  assumes "disable_alora E i C = Inr C'"
  shows "\<exists>l. slots C' = (slots C)[i := (slots C ! i)\<lparr>lora := l\<rparr>]"
    "entries (batch C') = entries (batch C) \<and> n_tokens_alloc (batch C') = n_tokens_alloc (batch C)
       \<and> batch_size (batch C') = batch_size (batch C) \<and> params_base C' = params_base C"
proof -
  have "slots C = (slots C)[i := (slots C ! i)\<lparr>lora := lora (slots C ! i)\<rparr>]" by simp
  then have "\<exists>l. slots C = (slots C)[i := (slots C ! i)\<lparr>lora := l\<rparr>]" by blast
  then show "\<exists>l. slots C' = (slots C)[i := (slots C ! i)\<lparr>lora := l\<rparr>]"
    using assms by (auto simp: disable_alora_def Let_def split: if_splits list.splits)
  show "entries (batch C') = entries (batch C) \<and> n_tokens_alloc (batch C') = n_tokens_alloc (batch C)
       \<and> batch_size (batch C') = batch_size (batch C) \<and> params_base C' = params_base C"
    using assms by (auto simp: disable_alora_def Let_def entries_def batch_size_def split: if_splits list.splits)
qed

lemma set_output_alora: "set_output k out b = Inr b' \<Longrightarrow> alora_scale b' = alora_scale b"
  by (auto simp: set_output_def split: if_splits)

lemma set_output_entries: "set_output k out b = Inr b' \<Longrightarrow> entries b' = entries b \<and> batch_size b' = batch_size b"
proof -
  assume *: "set_output k out b = Inr b'"
  then have k: "nat k < length (bt_tokens b)" and b': "bt_tokens b' = (bt_tokens b)[nat k := (bt_tokens b ! nat k)\<lparr>bt_output := out\<rparr>]"
    by (auto simp: set_output_def batch_size_def split: if_splits)
  have "entry_of ((bt_tokens b ! nat k)\<lparr>bt_output := out\<rparr>) = map entry_of (bt_tokens b) ! nat k"
    using k by (simp add: entry_of_def)
  then show ?thesis by (simp only: entries_def b' map_update batch_size_def length_list_update list_update_id)
qed

lemma init_sampler_frame: "init_sampler s = Inr s' \<Longrightarrow> \<exists>m. s' = s\<lparr>smpl := m\<rparr>"
  by (auto simp: init_sampler_def Let_def split: option.splits if_splits)

lemma end_prompt_frame:
  assumes "end_prompt E t i C = Inr C'" "i < length (slots C)"
  shows "state (slots C' ! i) = SLOT_DONE_PROMPT \<and> prompt (slots C' ! i) = prompt (slots C ! i)
    \<and> i_batch (slots C' ! i) = batch_size (batch C) - 1 \<and> task (slots C' ! i) = task (slots C ! i)
    \<and> sl_id (slots C' ! i) = sl_id (slots C ! i)
    \<and> entries (batch C') = entries (batch C) \<and> batch_size (batch C') = batch_size (batch C)
    \<and> alora_scale (batch C') = alora_scale (batch C) \<and> others_same {i} C C'"
proof -
  from assms(1) obtain b s where b: "set_output (batch_size (batch C) - 1) True (batch C) = Inr b"
    and s: "init_sampler ((slots C ! i)\<lparr>state := SLOT_DONE_PROMPT, stats := (stats (slots C ! i))\<lparr>n_gen := 0\<rparr>,
                 i_batch := batch_size b - 1\<rparr>) = Inr s" and C': "C' = (set_slot i s C)\<lparr>batch := b\<rparr>"
    by (auto simp: end_prompt_def rbind_Inr_iff split: if_splits)
  show ?thesis using set_output_entries [OF b] set_output_alora [OF b] init_sampler_frame [OF s] assms(2)
    by (auto simp: C' others_same_def)
qed

lemma create_checkpoint_frame:
  "create_checkpoint E i n p q C = Inr C' \<Longrightarrow>
     \<exists>cs. slots C' = (slots C)[i := (slots C ! i)\<lparr>prompt := (prompt (slots C ! i))\<lparr>pr_checkpoints := cs\<rparr>\<rparr>] \<and> batch C' = batch C"
  by (auto simp: create_checkpoint_def Let_def rbind_Inr_iff set_slot_def split: option.splits)

lemma maybe_checkpoint_frame:
  assumes "maybe_checkpoint E t i n ck ended C = Inr C'"
  shows "\<exists>cs. slots C' = (slots C)[i := (slots C ! i)\<lparr>prompt := (prompt (slots C ! i))\<lparr>pr_checkpoints := cs\<rparr>\<rparr>] \<and> batch C' = batch C"
proof -
  have "C' = C \<or> create_checkpoint (ue_ctx E) i n (ue_pos_min E (dev C) (sl_id (slots C ! i)))
      (ue_pos_max E (dev C) (sl_id (slots C ! i))) C = Inr C'"
    using assms unfolding maybe_checkpoint_def Let_def by (simp split: if_split_asm)
  then show ?thesis
  proof (elim disjE)
    assume 1: "C' = C"
    show ?thesis unfolding 1 by (intro exI [of _ "pr_checkpoints (prompt (slots C ! i))"]) simp
  qed (rule create_checkpoint_frame)
qed

text \<open>
  Property C10.  One step over the prompt of a slot, a prompt of text without media, puts the next tokens of
  its task into the batch, one after the other and each at its position, and counts them into the prompt; the
  batch takes them all.  It goes on to the end of the prompt unless the batch is full, the place where an
  adapter is invoked is reached, or, after a token, that of a checkpoint (\<open>fill_stop\<close>); and it never puts
  more into the batch than the batch may hold.  When the prompt is complete the slot is done with it and its
  logits are those of the last entry.
\<close>

theorem prompt_enters_batch:
  assumes "continue_prompt E now t i n_prev C = (Inr (ok, True), C')" "i < length (slots C)" "text_only (slots C ! i)"
    "LLAMA_TOKEN_NULL \<notin> set (toks (tokens t))" "ue_n_batch E \<le> n_tokens_alloc (batch C)"
    "prompt_toks (slots C ! i) = take n (toks (tokens t))" "n \<le> length (toks (tokens t))"
  shows "ok \<and> batch_size (batch C') \<le> max (batch_size (batch C)) (ue_n_batch E)
    \<and> (\<exists>m. n \<le> m \<and> m \<le> length (toks (tokens t)) \<and> prompt_toks (slots C' ! i) = take m (toks (tokens t))
      \<and> entries (batch C') = entries (batch C) @ run_of (sl_id (slots C ! i)) (int n) (drop n (take m (toks (tokens t))))
      \<and> (m = length (toks (tokens t))
         \<or> fill_stop E (params_base C) (may_checkpoint E (params_base C) t) t (slots C ! i) (batch C') (n < m) (int m))
      \<and> (if m = length (toks (tokens t)) then state (slots C' ! i) = SLOT_DONE_PROMPT
            \<and> i_batch (slots C' ! i) = batch_size (batch C') - 1
         else state (slots C' ! i) = state (slots C ! i)))"
proof -
  let ?inp = "toks (tokens t)"
  from assms(1) obtain C1 where prep: "prepare_memory E i C = Inr C1"
    and add: "add_prompt_tokens E t i n_prev False C1 = (Inr ok, C')"
    unfolding continue_prompt_def then_do_Inr_iff commit_Inr_iff media_chunks_text [OF assms(4)]
    by (auto simp: then_do_Inr_iff commit_Inr_iff media_chunks_text [OF assms(4)] split: if_splits)
  obtain l where C1: "slots C1 = (slots C)[i := (slots C ! i)\<lparr>lora := l\<rparr>]"
    "entries (batch C1) = entries (batch C)" "n_tokens_alloc (batch C1) = n_tokens_alloc (batch C)"
    "batch_size (batch C1) = batch_size (batch C)" "params_base C1 = params_base C"
  proof -
    from prep obtain p0 where d: "disable_alora E i (log_ops [Seq_rm (sl_id (slots C ! i)) p0 (-1)] C) = Inr C1"
      by (auto simp: prepare_memory_def rbind_Inr_iff)
    from disable_alora_frame [OF d] show ?thesis using that by (elim exE) simp
  qed
  have s1: "slots C1 ! i = (slots C ! i)\<lparr>lora := l\<rparr>" using C1(1) assms(2) by simp
  have rest: "drop (prompt_n_tokens (prompt (slots C1 ! i))) ?inp = drop n ?inp"
    using s1 assms(6,7) by (simp add: prompt_n_tokens_def st_size_def)
  from add obtain s b C2 where
    f: "fill_batch E (params_base C1) (may_checkpoint E (params_base C1) t) t (drop n ?inp) (slots C1 ! i) (batch C1) = Inr (ok, s, b)"
    and e: "(if int (prompt_n_tokens (prompt s)) = task_n_tokens t then end_prompt E t i ((set_slot i s C1)\<lparr>batch := b\<rparr>)
             else Inr ((set_slot i s C1)\<lparr>batch := b\<rparr>)) = Inr C2"
    and c: "maybe_checkpoint E t i (batch_size b - n_prev) (may_checkpoint E (params_base C1) t)
        (int (prompt_n_tokens (prompt s)) = task_n_tokens t) C2 = Inr C'"
    unfolding add_prompt_tokens_def Let_def then_do_Inr_iff commit_Inr_iff rest
    by (auto simp: then_do_Inr_iff commit_Inr_iff)
  have tx: "text_only (slots C1 ! i)" "LLAMA_TOKEN_NULL \<notin> set (drop n ?inp)" "ue_n_batch E \<le> n_tokens_alloc (batch C1)"
    using assms(3,4,5) s1 C1(3) by (auto simp: text_only_def dest: in_set_dropD)
  note ft = fill_batch_text [OF f tx]
  then obtain k ts where k: "ok" "k \<le> length (drop n ?inp)"
    "prompt_toks s = prompt_toks (slots C1 ! i) @ take k (drop n ?inp)" "s = set_prompt_toks ts (slots C1 ! i)"
    "entries b = entries (batch C1) @ run_of (sl_id (slots C1 ! i)) (int (length (prompt_toks (slots C1 ! i)))) (take k (drop n ?inp))"
    "alora_scale b = alora_scale (batch C1)" "batch_size b \<le> max (batch_size (batch C1)) (ue_n_batch E)"
    "k = length (drop n ?inp) \<or> fill_stop E (params_base C1) (may_checkpoint E (params_base C1) t) t (slots C1 ! i) b (0 < k)
       (int (length (prompt_toks (slots C1 ! i)) + k))"
    by (elim conjE exE) (rule that)
  define m where "m = n + k"
  have m: "n \<le> m" "m \<le> length ?inp" "take k (drop n ?inp) = drop n (take m ?inp)"
    using k(2) assms(7) by (simp_all add: m_def drop_take)
  have pt: "prompt_toks s = take m ?inp"
  proof -
    have "prompt_toks s = take n ?inp @ take k (drop n ?inp)" using k(3) s1 assms(6) by simp
    then show ?thesis by (simp add: m_def take_add)
  qed
  have en: "entries b = entries (batch C) @ run_of (sl_id (slots C ! i)) (int n) (drop n (take m ?inp))"
  proof -
    have "length (prompt_toks (slots C1 ! i)) = n" "sl_id (slots C1 ! i) = sl_id (slots C ! i)"
      using s1 assms(6,7) by simp_all
    then show ?thesis using k(5) m(3) C1(2) by (simp only:)
  qed
  have ended: "int (prompt_n_tokens (prompt s)) = task_n_tokens t \<longleftrightarrow> m = length ?inp"
  proof -
    have "length (prompt_toks s) = m" using pt m(2) by (simp only: length_take min_absorb2)
    then show ?thesis by (simp add: prompt_n_tokens_def st_size_def task_n_tokens_def)
  qed
  have stop: "m = length ?inp \<or> fill_stop E (params_base C) (may_checkpoint E (params_base C) t) t (slots C ! i) b (n < m) (int m)"
  proof -
    have "length (prompt_toks (slots C1 ! i)) = n" using s1 assms(6,7) by simp
    then have "k = length (drop n ?inp) \<or> fill_stop E (params_base C) (may_checkpoint E (params_base C) t) t (slots C ! i) b (0 < k) (int m)"
      using k(8) C1(5) s1 by (simp add: fill_stop_def m_def)
    moreover have "k = length (drop n ?inp) \<longleftrightarrow> m = length ?inp" "0 < k \<longleftrightarrow> n < m" using assms(7) by (auto simp: m_def)
    ultimately show ?thesis by simp
  qed
  let ?D = "(set_slot i s C1)\<lparr>batch := b\<rparr>"
  have i1: "i < length (slots C1)" using C1(1) assms(2) by simp
  then have D: "slots ?D ! i = s" "i < length (slots ?D)" by simp_all
  have st: "state s = state (slots C ! i)" using k(4) s1 by simp
  have C2: "prompt_toks (slots C2 ! i) = take m ?inp \<and> entries (batch C2) = entries b \<and> i < length (slots C2)
      \<and> batch_size (batch C2) = batch_size b \<and> alora_scale (batch C2) = alora_scale b
      \<and> (if m = length ?inp then state (slots C2 ! i) = SLOT_DONE_PROMPT \<and> i_batch (slots C2 ! i) = batch_size (batch C2) - 1
         else state (slots C2 ! i) = state (slots C ! i))"
  proof (cases "m = length ?inp")
    case True
    then have "end_prompt E t i ?D = Inr C2" using e ended by simp
    from end_prompt_frame [OF this D(2)] show ?thesis using True D pt by (simp add: others_same_def)
  next
    case False
    then have "C2 = ?D" using e ended by simp
    then show ?thesis using False D pt st by simp
  qed
  obtain cs where "slots C' = (slots C2)[i := (slots C2 ! i)\<lparr>prompt := (prompt (slots C2 ! i))\<lparr>pr_checkpoints := cs\<rparr>\<rparr>]"
    "batch C' = batch C2"
    using c maybe_checkpoint_frame by blast
  then show ?thesis using C2 k(1,7) m en stop C1(4) by (intro conjI exI [of _ m]) (auto simp: fill_stop_def)
qed

section \<open>The context shift\<close>

lemma fold_shift:
  "d \<le> a \<Longrightarrow> a \<le> m \<Longrightarrow> m \<le> length ts \<Longrightarrow> j < length ts \<Longrightarrow>
     fold (\<lambda>i xs. xs[i - d := xs ! i]) [a..<m] ts ! j = (if a - d \<le> j \<and> j + d < m then ts ! (j + d) else ts ! j)
     \<and> length (fold (\<lambda>i xs. xs[i - d := xs ! i]) [a..<m] ts) = length ts"
proof (induction m arbitrary: j)
  case (Suc m)
  show ?case
  proof (cases "a \<le> m")
    case True
    then have IH: "fold (\<lambda>i xs. xs[i - d := xs ! i]) [a..<m] ts ! k = (if a - d \<le> k \<and> k + d < m then ts ! (k + d) else ts ! k)"
        "length (fold (\<lambda>i xs. xs[i - d := xs ! i]) [a..<m] ts) = length ts" if "k < length ts" for k
      using Suc.IH [of k] Suc.prems that by simp_all
    have m: "m < length ts" "j < length ts" using Suc.prems by simp_all
    have at_m: "fold (\<lambda>i xs. xs[i - d := xs ! i]) [a..<m] ts ! m = ts ! m" using IH(1) [OF m(1)] Suc.prems True by (cases d) auto
    have "m - d < length ts" using m by simp
    then show ?thesis
      using True m at_m IH(1) [OF m(2)] IH(2) [OF m(2)] Suc.prems by (auto simp: nth_update)
  next
    case False
    then have "a = Suc m" using Suc.prems by simp
    then show ?thesis using Suc.prems by auto
  qed
qed auto

lemma shift_tokens_spec:
  assumes "shift_tokens keep disc ts = Inr ts'" "0 \<le> disc" "keep + disc \<le> int (length ts)"
  shows "0 \<le> keep \<and> ts' = take (nat keep) ts @ drop (nat (keep + disc)) ts"
proof -
  define k d where "k = nat keep" and "d = nat disc"
  have kd: "0 \<le> keep" "keep = int k" "disc = int d" "nat (keep + disc) = k + d" "k + d \<le> length ts"
    using assms by (auto simp: shift_tokens_def k_def d_def nat_add_distrib split: if_splits)
  then have ts': "ts' = take (length ts - d) (fold (\<lambda>i xs. xs[i - d := xs ! i]) [k + d..<length ts] ts)"
    using assms(1) by (simp add: shift_tokens_def Let_def d_def [symmetric])
  have "ts' = take k ts @ drop (k + d) ts"
  proof (rule nth_equalityI)
    have len: "length (fold (\<lambda>i xs. xs[i - d := xs ! i]) [k + d..<length ts] ts) = length ts"
    proof (cases ts)
      case Nil then show ?thesis using kd(5) by simp
    next
      case (Cons x xs)
      then have "0 < length ts" by simp
      from fold_shift [OF _ kd(5) le_refl this, of d] show ?thesis by simp
    qed
    then show "length ts' = length (take k ts @ drop (k + d) ts)" using kd(5) by (simp add: ts')
    fix j
    assume "j < length ts'"
    then have j: "j < length ts - d" "j < length ts" by (simp_all add: ts' len)
    from fold_shift [OF _ kd(5) le_refl j(2), of d] j
    show "ts' ! j = (take k ts @ drop (k + d) ts) ! j"
      using kd(5) by (auto simp: ts' nth_append min_def add.commute)
  qed
  then show ?thesis using kd by simp
qed

lemma shift_discard_bounds:
  "0 \<le> shift_discard t n \<and> shift_discard t n \<le> max 0 (n - 1)"
  "2 \<le> n \<Longrightarrow> 0 \<le> n_discard (params t) \<Longrightarrow> 1 \<le> shift_discard t n"
  by (auto simp: shift_discard_def Let_def signed_divide_int_def)

text \<open>
  Property C11.  A context shift of a running slot whose context is full drops a block of tokens behind the
  kept head and nothing else: the head and the tail stay in order and at least one token of the tail is left.
  In the memory of the sequence the same block is removed and everything behind it, up to the end of the old
  prompt, moves down by its length; no other slot is touched.  Unless the client asks for a negative number of
  tokens to discard, at least one token is freed.  This is for slots that share no prompt with others.
\<close>

theorem context_shift_keeps:
  assumes "shift_slot E now i C = Inr C'" "i < length (slots C)" "state (slots C ! i) = SLOT_GENERATING"
    "int (prompt_n_tokens (prompt (slots C ! i))) + 1 \<ge> sl_n_ctx (slots C ! i)"
    "ge_ctx_shift (ce_gen (ue_ctx E))" "task (slots C ! i) = Some t" "\<not> is_parent t" "\<not> is_child t"
  shows "\<exists>k d. prompt_toks (slots C' ! i) = take k (prompt_toks (slots C ! i)) @ drop (k + d) (prompt_toks (slots C ! i))
    \<and> int k = shift_keep E t (slots C ! i) \<and> k + d < length (prompt_toks (slots C ! i))
    \<and> (0 \<le> n_discard (params t) \<longrightarrow> 1 \<le> d) \<and> truncated (slots C' ! i)
    \<and> dev C' = dev C @ [Seq_rm (sl_id (slots C ! i)) (int k) (int (k + d)),
         Seq_add (sl_id (slots C ! i)) (int (k + d)) (int (length (prompt_toks (slots C ! i)))) (- int d)]
    \<and> others_same {i} C C'"
proof -
  let ?s = "slots C ! i"
  let ?keep = "shift_keep E t ?s"
  let ?n = "int (prompt_n_tokens (prompt ?s))"
  let ?disc = "shift_discard t (?n - ?keep)"
  have len: "?n = int (length (prompt_toks ?s))" by (simp add: prompt_n_tokens_def st_size_def)
  have keep: "?keep \<le> ?n - 3" using assms(4) by (simp add: shift_keep_def Let_def)
  have full: "(state ?s = SLOT_GENERATING \<and> ?n + 1 \<ge> sl_n_ctx ?s) = True" using assms(3,4) by simp
  define p where "p = int (length (prompt_toks ?s))"
  from assms(1) obtain ts' where ts: "\<not> has_mtmd (pr_tokens (prompt ?s))" "shift_tokens ?keep ?disc (prompt_toks ?s) = Inr ts'"
    and C': "C' = log_ops [Seq_rm (sl_id ?s) ?keep (?keep + ?disc), Seq_add (sl_id ?s) (?keep + ?disc) p (- ?disc)]
      (set_slot i (?s\<lparr>prompt := (prompt_clear (prompt ?s))\<lparr>pr_tokens := st_insert ts' (pr_tokens (prompt_clear (prompt ?s)))\<rparr>,
         truncated := True\<rparr>) C)"
    unfolding shift_slot_def Let_def full assms(6)
    using assms(5,7,8) by (auto simp: rbind_Inr_iff get_tokens_def pos_end_text p_def split: if_splits)
  have disc: "0 \<le> ?disc" "?keep + ?disc < ?n" "0 \<le> n_discard (params t) \<Longrightarrow> 1 \<le> ?disc"
    using shift_discard_bounds [where t = t and n = "?n - ?keep"] keep by auto
  have "0 \<le> ?keep \<and> ts' = take (nat ?keep) (prompt_toks ?s) @ drop (nat (?keep + ?disc)) (prompt_toks ?s)"
    using shift_tokens_spec [OF ts(2) disc(1)] disc(2) len by simp
  moreover define k d where "k = nat ?keep" and "d = nat ?disc"
  ultimately have kd: "?keep = int k" "?disc = int d" "ts' = take k (prompt_toks ?s) @ drop (k + d) (prompt_toks ?s)"
    using disc(1) by (simp_all add: nat_add_distrib)
  have "prompt_toks (slots C' ! i) = ts'" "truncated (slots C' ! i)" "others_same {i} C C'"
    using assms(2) by (simp_all add: C' prompt_clear_def st_insert_def st_clear_def others_same_def)
  moreover have "dev C' = dev C @ [Seq_rm (sl_id ?s) (int k) (int (k + d)), Seq_add (sl_id ?s) (int (k + d)) p (- int d)]"
    unfolding C' kd(2) by (simp add: kd(1))
  moreover have "k + d < length (prompt_toks ?s)" "0 \<le> n_discard (params t) \<longrightarrow> 1 \<le> d" using disc(2,3) len kd by auto
  ultimately show ?thesis using kd by (intro exI [of _ k] exI [of _ d]) (simp add: p_def)
qed

section \<open>Samples\<close>

lemma if_holds: "(if b then p \<and> q else r) \<Longrightarrow> b \<Longrightarrow> p"
  by simp

definition sample_ue :: "byte list upd_env" where
  "sample_ue = \<lparr>ue_ctx = sample_ce\<lparr>ce_gen := sample_env\<lparr>ge_ctx_shift := True\<rparr>\<rparr>, ue_n_batch = 8, ue_n_ubatch = 4, ue_n_swa = 0, ue_add_bos = False,
     ue_has_memory = True, ue_pooling_last = False, ue_can_shift = True, ue_rm_tgt = RM_PART, ue_rm_dft = RM_NO,
     ue_n_rs_tgt = 0, ue_n_rs_dft = 0, ue_pos_min = (\<lambda>_ _. 0), ue_pos_max = (\<lambda>_ _. 1), ue_dft_rm_ok = (\<lambda>_ _. True),
     ue_user_start = (\<lambda>_ _. False), ue_last_user = (\<lambda>_. -1), ue_chunk = (\<lambda>_ _ _. (0, 1)), ue_draft = (\<lambda>_ _. [])\<rparr>"

definition sample_ask :: "llama_token list \<Rightarrow> byte list server_task" where
  "sample_ask ts = (sample_job 1 [])\<lparr>tokens := st_of_tokens ts False\<rparr>"

definition sample_asked :: "slot_state \<Rightarrow> llama_token list \<Rightarrow> llama_token list \<Rightarrow> byte list slot" where
  "sample_asked st old new = (sample_idle 0)\<lparr>state := st, task := Some (sample_ask new),
     prompt := \<lparr>pr_tokens = st_of_tokens old False, pr_checkpoints = []\<rparr>\<rparr>"

theorem started_prompt_is_prefix_witness:
  "\<exists>C'. start_prompt sample_ue 5 (sample_ask [1, 2, 3, 4]) 0 (sample_ctx [sample_asked SLOT_STARTED [1, 2, 7] [1, 2, 3, 4]])
       = (Inr True, C')
     \<and> prompt_toks (slots C' ! 0) = [1, 2]"
proof -
  let ?C = "sample_ctx [sample_asked SLOT_STARTED [1, 2, 7] [1, 2, 3, 4]]"
  have "case start_prompt sample_ue 5 (sample_ask [1, 2, 3, 4]) 0 ?C of
      (Inr b, C) \<Rightarrow> b \<and> n_prompt_cached (stats (slots C ! 0)) = 2 | _ \<Rightarrow> False"
    by code_simp
  then obtain C' where r: "start_prompt sample_ue 5 (sample_ask [1, 2, 3, 4]) 0 ?C = (Inr True, C')"
    "n_prompt_cached (stats (slots C' ! 0)) = 2"
    by (auto split: prod.splits sum.splits)
  have "0 < length (slots ?C)" "text_only (slots ?C ! 0)" "\<forall>c \<in> set (pr_checkpoints (prompt (slots ?C ! 0))). 0 \<le> ck_pos_min c"
    by (simp_all add: sample_ctx_def sample_asked_def text_only_def st_of_tokens_def)
  from started_prompt_is_prefix [OF r(1) this] r show ?thesis
    by (simp add: sample_ask_def st_of_tokens_def)
qed

theorem prompt_enters_batch_witness:
  "\<exists>C'. continue_prompt sample_ue 5 (sample_ask [1, 2, 3, 4]) 0 0
       (sample_ctx [sample_asked SLOT_PROCESSING_PROMPT [1, 2] [1, 2, 3, 4]]) = (Inr (True, True), C')
     \<and> entries (batch C') = [(0, 3, 2), (0, 4, 3)] \<and> state (slots C' ! 0) = SLOT_DONE_PROMPT"
proof -
  let ?C = "sample_ctx [sample_asked SLOT_PROCESSING_PROMPT [1, 2] [1, 2, 3, 4]]"
  have "case continue_prompt sample_ue 5 (sample_ask [1, 2, 3, 4]) 0 0 ?C of
      (Inr (ok, b), C) \<Rightarrow> ok \<and> b \<and> length (toks (pr_tokens (prompt (slots C ! 0)))) = 4 | _ \<Rightarrow> False"
    by code_simp
  then obtain C' where r: "continue_prompt sample_ue 5 (sample_ask [1, 2, 3, 4]) 0 0 ?C = (Inr (True, True), C')"
    "length (toks (pr_tokens (prompt (slots C' ! 0)))) = 4"
    by (auto split: prod.splits sum.splits)
  have pre: "0 < length (slots ?C)" "text_only (slots ?C ! 0)" "LLAMA_TOKEN_NULL \<notin> set (toks (tokens (sample_ask [1, 2, 3, 4])))"
    "ue_n_batch sample_ue \<le> n_tokens_alloc (batch ?C)"
    "prompt_toks (slots ?C ! 0) = take 2 (toks (tokens (sample_ask [1, 2, 3, 4])))"
    "2 \<le> length (toks (tokens (sample_ask [1, 2, 3, 4])))"
    by (simp_all add: sample_ctx_def sample_asked_def text_only_def st_of_tokens_def sample_ask_def LLAMA_TOKEN_NULL_def
        sample_ue_def batch_init_def)
  have e: "toks (tokens (sample_ask [1, 2, 3, 4])) = [1, 2, 3, 4]" "entries (batch ?C) = []" "sl_id (slots ?C ! 0) = 0"
    by (simp_all add: sample_ask_def st_of_tokens_def sample_ctx_def entries_def batch_init_def batch_new_def sample_asked_def
        sample_idle_def slot_new_def)
  from conjunct2 [OF prompt_enters_batch [OF r(1) pre]] obtain m where
    m: "2 \<le> m" "m \<le> length [1, 2, 3, 4 :: llama_token]" "prompt_toks (slots C' ! 0) = take m [1, 2, 3, 4]"
      "entries (batch C') = run_of 0 2 (drop 2 (take m [1, 2, 3, 4]))"
      "m = length [1, 2, 3, 4 :: llama_token] \<longrightarrow> state (slots C' ! 0) = SLOT_DONE_PROMPT"
    unfolding e append_Nil of_nat_numeral by (elim conjE exE) (rule that; (assumption | (rule impI, drule (1) if_holds)))
  have "m = 4" using r(2) m(2,3) by simp
  then show ?thesis using r m by (simp add: run_of_def upt_conv_Cons)
qed

theorem context_shift_keeps_witness:
  "\<exists>C'. shift_slot sample_ue 5 0 (sample_ctx [(sample_asked SLOT_GENERATING [1, 2, 3, 4, 5, 6, 7] [1, 2])\<lparr>sl_n_ctx := 8\<rparr>]) = Inr C'
     \<and> length (prompt_toks (slots C' ! 0)) < 7"
proof -
  let ?s = "(sample_asked SLOT_GENERATING [1, 2, 3, 4, 5, 6, 7] [1, 2])\<lparr>sl_n_ctx := 8\<rparr>"
  let ?C = "sample_ctx [?s]"
  have "case shift_slot sample_ue 5 0 ?C of Inr C \<Rightarrow> True | Inl _ \<Rightarrow> False"
    by code_simp
  then obtain C' where r: "shift_slot sample_ue 5 0 ?C = Inr C'"
    by (auto split: sum.splits)
  have pre: "0 < length (slots ?C)" "state (slots ?C ! 0) = SLOT_GENERATING"
    "int (prompt_n_tokens (prompt (slots ?C ! 0))) + 1 \<ge> sl_n_ctx (slots ?C ! 0)"
    "ge_ctx_shift (ce_gen (ue_ctx sample_ue))" "task (slots ?C ! 0) = Some (sample_ask [1, 2])"
    "\<not> is_parent (sample_ask [1, 2])" "\<not> is_child (sample_ask [1, 2])"
    by (simp_all add: sample_ctx_def sample_asked_def st_of_tokens_def prompt_n_tokens_def st_size_def sample_ue_def
        sample_ask_def sample_job_def sample_kid_def task_of_child_def is_parent_def is_child_def child_task.extend_def)
  have e: "prompt_toks (slots ?C ! 0) = [1, 2, 3, 4, 5, 6, 7]" "n_discard (params (sample_ask [1, 2])) = 0"
    by (simp_all add: sample_ctx_def sample_asked_def st_of_tokens_def sample_ask_def sample_job_def sample_kid_def
        task_of_child_def child_task.extend_def sample_params_def)
  from context_shift_keeps [OF r pre] e obtain k d where
    "prompt_toks (slots C' ! 0) = take k [1, 2, 3, 4, 5, 6, 7] @ drop (k + d) [1, 2, 3, 4, 5, 6, 7]"
    "k + d < 7" "1 \<le> d" by auto
  then show ?thesis using r by auto
qed

end
