(* ===== verification/Decode.thy ===== *)
theory Decode
  imports Prefill
begin

text \<open>
  \<open>update_slots\<close> of \<open>server_context_impl\<close> (\<open>server-context.cpp\<close>): the loop that decodes the batch in views,
  with smaller views after a failure, \<open>decode\<close>, and \<open>post_decode\<close>: embeddings, sampling, the
  verification of drafts, and the tokens handed to \<open>process_token\<close>.
\<close>

section \<open>The library\<close>

type_synonym view_entry = "llama_token \<times> int \<times> int list \<times> bool"
type_synonym batch_view = "view_entry list \<times> rat list option"

text \<open>
  The answers of the library are functions of the log of the calls on its memory; sampling also depends on
  the sampler, whose log holds what was done to it.  \<open>de_accept_n\<close> is \<open>common_sampler_sample_and_accept_n\<close>, \<open>de_draw\<close>
  the next number of the random generator, \<open>de_partial_sort\<close> is \<open>std::partial_sort\<close>, whose order of the rest is open.
\<close>

record 'c dec_env =
  de_upd :: "'c upd_env"
  de_params0 :: task_params
  de_spec :: bool
  de_embd_mismatch :: bool
  de_decode :: "device_op list \<Rightarrow> batch_view \<Rightarrow> int"
  de_spec_process :: "device_op list \<Rightarrow> batch_view \<Rightarrow> bool"
  de_sample :: "device_op list \<Rightarrow> sampler \<Rightarrow> int \<Rightarrow> llama_token"
  de_accept_n :: "device_op list \<Rightarrow> sampler \<Rightarrow> int list \<Rightarrow> llama_token list \<Rightarrow> llama_token list \<times> sampler"
  de_synth_probs :: "rat list"
  de_draw :: "32 word \<times> nat \<Rightarrow> rat"
  de_n_max :: nat
  de_piece :: "llama_token \<Rightarrow> bool \<Rightarrow> string"
  de_candidates :: "device_op list \<Rightarrow> sampler \<Rightarrow> (llama_token \<times> rat) list"
  de_sampled_ids :: "device_op list \<Rightarrow> int \<Rightarrow> llama_token list option"
  de_logits :: "device_op list \<Rightarrow> int \<Rightarrow> rat list"
  de_partial_sort :: "nat \<Rightarrow> (llama_token \<times> rat) list \<Rightarrow> (llama_token \<times> rat) list"
  de_exp :: "rat \<Rightarrow> rat"
  de_pooling_none :: bool
  de_n_embd_out :: nat
  de_embd_ith :: "device_op list \<Rightarrow> nat \<Rightarrow> rat list option"
  de_embd_seq :: "device_op list \<Rightarrow> int \<Rightarrow> rat list option"
  de_normalize :: "rat list \<Rightarrow> int \<Rightarrow> rat list"

abbreviation de_gen :: "'c dec_env \<Rightarrow> gen_env" where
  "de_gen E \<equiv> ce_gen (ue_ctx (de_upd E))"

abbreviation de_floats :: "'c dec_env \<Rightarrow> float_ops" where
  "de_floats E \<equiv> ce_floats (ue_ctx (de_upd E))"

section \<open>Probabilities of a token\<close>

text \<open>\<open>get_token_probabilities\<close>: the tokens with their probabilities, the \<open>n_top\<close> likeliest in front.\<close>

definition token_probabilities :: "'c dec_env \<Rightarrow> device_op list \<Rightarrow> int \<Rightarrow> nat \<Rightarrow> (llama_token \<times> rat) list" where
  "token_probabilities E lg idx n_top =
     (let F = de_floats E; logits = de_logits E lg idx;
          cur = (case de_sampled_ids E lg idx of
              Some ids \<Rightarrow> zip ids logits
            | None \<Rightarrow> map (\<lambda>k. (word_of_nat k, logits ! k)) [0..<length logits]);
          n = min n_top (length cur);
          cur = (if n > 0 then de_partial_sort E n cur else cur);
          max_l = (case map snd cur of [] \<Rightarrow> 0 | l # ls \<Rightarrow> if n > 0 then l else fold max ls l);
          ps = map (\<lambda>(t, l). (t, f32 F (de_exp E (f32 F (l - max_l))))) cur;
          cum_sum = fold (\<lambda>(t, p) acc. f32 F (acc + p)) ps 0
      in map (\<lambda>(t, p). (t, f32 F (p / cum_sum))) ps)"

definition set_probs :: "'c dec_env \<Rightarrow> bool \<Rightarrow> (llama_token \<times> rat) list \<Rightarrow> (llama_token \<times> rat) list \<Rightarrow> token_output \<Rightarrow> token_output" where
  "set_probs E special cur best res =
     res\<lparr>to_prob := (case find (\<lambda>c. fst c = to_tok res) cur of Some c \<Rightarrow> snd c | None \<Rightarrow> to_prob res),
         to_probs := to_probs res @ map (\<lambda>(t, p). \<lparr>pi_tok = t, pi_txt = de_piece E t special, pi_prob = p\<rparr>) best\<rparr>"

definition populate_token_probs ::
  "'c dec_env \<Rightarrow> device_op list \<Rightarrow> 'c server_task \<Rightarrow> sampler \<Rightarrow> bool \<Rightarrow> bool \<Rightarrow> int \<Rightarrow> token_output \<Rightarrow> token_output" where
  "populate_token_probs E lg t sm post special idx res =
     (let n = nat (sp_n_probs (sampling (params t)))
      in if post then
           (let cur = de_candidates E lg sm
            in set_probs E special cur (takeWhile (\<lambda>c. snd c \<noteq> 0) (take n cur)) res)
         else (let cur = token_probabilities E lg idx n in set_probs E special cur (take n cur) res))"

section \<open>Embeddings and reranking\<close>

definition view_seq :: "view_entry \<Rightarrow> int" where
  "view_seq e = (case e of (_, _, k # _, _) \<Rightarrow> k | _ \<Rightarrow> -1)"

definition view_out :: "view_entry \<Rightarrow> bool" where
  "view_out e = snd (snd (snd e))"

fun embedding_rows :: "'c dec_env \<Rightarrow> device_op list \<Rightarrow> int \<Rightarrow> int \<Rightarrow> nat \<Rightarrow> view_entry list \<Rightarrow> rat list list" where
  "embedding_rows E lg k nrm i [] = []"
| "embedding_rows E lg k nrm i (e # es) =
     (if \<not> view_out e \<or> view_seq e \<noteq> k then embedding_rows E lg k nrm (Suc i) es
      else case (if de_pooling_none E then de_embd_ith E lg i else de_embd_seq E lg (view_seq e)) of
             None \<Rightarrow> replicate (de_n_embd_out E) 0 # embedding_rows E lg k nrm (Suc i) es
           | Some v \<Rightarrow>
               if \<not> de_pooling_none E then [de_normalize E v nrm]
               else take (de_n_embd_out E) v # embedding_rows E lg k nrm (Suc i) es)"

fun rerank_score :: "'c dec_env \<Rightarrow> device_op list \<Rightarrow> int \<Rightarrow> nat \<Rightarrow> view_entry list \<Rightarrow> rat \<Rightarrow> rat" where
  "rerank_score E lg k i [] score = score"
| "rerank_score E lg k i (e # es) score =
     (if \<not> view_out e \<or> view_seq e \<noteq> k then rerank_score E lg k (Suc i) es score
      else case (case de_embd_seq E lg (view_seq e) of None \<Rightarrow> de_embd_ith E lg i | Some v \<Rightarrow> Some v) of
             None \<Rightarrow> rerank_score E lg k (Suc i) es (- 1000000)
           | Some v \<Rightarrow> rerank_score E lg k (Suc i) es (v ! 0))"

definition send_embedding :: "'c dec_env \<Rightarrow> batch_view \<Rightarrow> 'c server_task \<Rightarrow> nat \<Rightarrow> 'c server_context \<Rightarrow> 'c server_context" where
  "send_embedding E v t i C =
     send_to (mk_msg (task_id t) (task_index t)
       (Embd (task_index t) (embedding_rows E (dev C) (sl_id (slots C ! i)) (embd_normalize (params t)) 0 (fst v))
          (task_n_tokens t) (res_type (params t)))) C"

definition send_rerank :: "'c dec_env \<Rightarrow> batch_view \<Rightarrow> 'c server_task \<Rightarrow> nat \<Rightarrow> 'c server_context \<Rightarrow> 'c server_context" where
  "send_rerank E v t i C =
     send_to (mk_msg (task_id t) (task_index t)
       (Rerank (task_index t) (rerank_score E (dev C) (sl_id (slots C ! i)) 0 (fst v) (- 1000000)) (task_n_tokens t))) C"

section \<open>Decoding a view\<close>

definition in_view :: "int \<Rightarrow> int \<Rightarrow> int \<Rightarrow> bool" where
  "in_view off n idx \<longleftrightarrow> idx \<ge> off \<and> idx < off + n"

definition upd_stats :: "nat \<Rightarrow> (slot_stats \<Rightarrow> slot_stats) \<Rightarrow> 'c server_context \<Rightarrow> 'c server_context" where
  "upd_stats i f C =
     (let s = slots C ! i in if stats_is_set (stats s) then set_slot i (s\<lparr>stats := f (stats s)\<rparr>) C else C)"

definition count_decode :: "'c slot list \<Rightarrow> server_metrics \<Rightarrow> server_metrics" where
  "count_decode ss m =
     m\<lparr>m_n_decode := m_n_decode m + 1, m_n_busy_slots := m_n_busy_slots m + length (filter is_processing ss),
       m_n_tokens_max := fold (\<lambda>s. max (prompt_n_tokens (prompt s))) ss (m_n_tokens_max m)\<rparr>"

definition metrics_post_decode :: "int \<Rightarrow> int \<Rightarrow> nat \<Rightarrow> bool \<Rightarrow> 'c server_context \<Rightarrow> 'c server_context" where
  "metrics_post_decode now off n has_output C =
     (let C = C\<lparr>metrics := count_decode (slots C) (metrics C)\<rparr>;
          es = filter bt_is_prompt (take n (drop (nat off) (bt_tokens (batch C))));
          C = fold (\<lambda>e. upd_stats (nat (bt_slot e)) (\<lambda>st. st\<lparr>n_prompt_processed := n_prompt_processed st + 1\<rparr>)) es C;
          C = metrics_queue_prompt (length es) C;
          C = (if has_output then metrics_flush_prompt now C else C)
      in fold (\<lambda>e. upd_stats (nat (bt_slot e)) (\<lambda>st. st\<lparr>t_prompt_last := now\<rparr>)) es C)"

text \<open>The error for the clients, empty when the view is tried again.\<close>

definition decode_error :: "int \<Rightarrow> int \<Rightarrow> string" where
  "decode_error n_batch ret =
     (if ret < -1 then ''Compute error.'' else if ret = -1 then ''Invalid input batch.''
      else if n_batch = 1 \<and> ret = 1 then ''Context size has been exceeded.'' else [])"

fun fail_running :: "int \<Rightarrow> string \<Rightarrow> nat list \<Rightarrow> 'c server_context \<Rightarrow> 'c server_context result" where
  "fail_running now err [] C = Inr C"
| "fail_running now err (i # is) C =
     (if is_processing (slots C ! i) then
        rbind (reject_slot now err ERROR_SERVER i C) (\<lambda>C.
          let (s, ops) = slot_prompt_clear (slots C ! i)
          in fail_running now err is (log_ops ops (set_slot i s C)))
      else fail_running now err is C)"

text \<open>The children of a parent whose prompt is done; a waiting slot without a task would be undefined behaviour.\<close>

definition waiting_children :: "'c server_task \<Rightarrow> 'c server_context \<Rightarrow> nat list result" where
  "waiting_children t C =
     (if list_ex (\<lambda>s. state s = SLOT_WAIT_OTHER \<and> task s = None) (slots C) then Inl Abort
      else Inr (filter (\<lambda>j. state (slots C ! j) = SLOT_WAIT_OTHER
                  \<and> map_option id_parent (task (slots C ! j)) = Some (task_id t)) [0..<length (slots C)]))"

fun hand_over :: "'c dec_env \<Rightarrow> nat \<Rightarrow> nat list \<Rightarrow> 'c server_context \<Rightarrow> 'c server_context result" where
  "hand_over E i [] C = Inr C"
| "hand_over E i (j # js) C =
     (if state (slots C ! j) \<noteq> SLOT_WAIT_OTHER then Inl Abort
      else rbind (copy_state_to (ue_mtmd (de_upd E)) (slots C ! i) (slots C ! j)) (\<lambda>(c, ops).
        hand_over E i js (log_ops ops (set_slot j (c\<lparr>state := SLOT_DONE_PROMPT\<rparr>) C))))"

fun start_children :: "'c dec_env \<Rightarrow> nat list \<Rightarrow> 'c server_context \<Rightarrow> 'c server_context result" where
  "start_children E [] C = Inr C"
| "start_children E (i # is) C =
     (if state (slots C ! i) = SLOT_DONE_PROMPT then
        case task (slots C ! i) of
          None \<Rightarrow> Inl Abort
        | Some t \<Rightarrow>
            if is_parent t then
              rbind (waiting_children t C) (\<lambda>js. rbind (hand_over E i js C) (start_children E is))
            else start_children E is C
      else start_children E is C)"

text \<open>
  A failed call: the end for every running slot, or a smaller view for the next try.
\<close>

definition decode_failed :: "int \<Rightarrow> int \<Rightarrow> int \<Rightarrow> 'c server_context \<Rightarrow> (bool \<times> int) result \<times> 'c server_context" where
  "decode_failed t1 n_batch ret C =
     (if decode_error n_batch ret \<noteq> [] then
        (case fail_running t1 (decode_error n_batch ret) [0..<length (slots C)] C of
           Inl e \<Rightarrow> (Inl e, C)
         | Inr C \<Rightarrow> (Inl (Throw (decode_error n_batch ret)), C))
      else let (cleared, C) = try_clear_idle_slots C
           in (Inr (False, if cleared then n_batch else n_batch sdiv 2), C))"

text \<open>A decoded view: the counts, the draft model, and the children of parents whose prompt is done.\<close>

definition decode_done ::
  "'c dec_env \<Rightarrow> int \<Rightarrow> int \<Rightarrow> int \<Rightarrow> batch_view \<Rightarrow> bool \<Rightarrow> 'c server_context \<Rightarrow> (bool \<times> int) result \<times> 'c server_context" where
  "decode_done E t1 n_batch off v has_output C =
     (let C = metrics_post_decode t1 off (length (fst v)) has_output C
      in if de_spec E \<and> \<not> de_spec_process E (dev C) v
         then (Inl (Throw ''failed to process speculative batch''), log_ops [Spec_process] C)
         else
           let C = (if de_spec E then log_ops [Spec_process] C else C)
           in then_do (commit (start_children E [0..<length (slots C)] C) C) (\<lambda>_ C. (Inr (True, n_batch), C)))"

text \<open>
  \<open>decode\<close>: whether the view was decoded, and the size of the next view to try.  \<open>t0\<close> is the time before,
  \<open>t1\<close> the time after the call of the library.
\<close>

definition decode ::
  "'c dec_env \<Rightarrow> int \<Rightarrow> int \<Rightarrow> int \<Rightarrow> int \<Rightarrow> batch_view \<Rightarrow> 'c server_context \<Rightarrow> (bool \<times> int) result \<times> 'c server_context" where
  "decode E t0 t1 n_batch off v C =
     (let C = metrics_pre_decode t0 C
      in if batch_size (batch C) = 0 then
           (let C = C\<lparr>n_empty_consecutive := n_empty_consecutive C + 1\<rparr>
            in (if n_empty_consecutive C > 3 then Inl Abort else Inr (True, n_batch), C))
         else
           let C = C\<lparr>n_empty_consecutive := 0\<rparr>
           in if de_spec E \<and> has_embd (batch C) \<and> de_embd_mismatch E
              then (Inl (Throw ''unsupported batch.has_embd + spec case''), C)
              else
                let has_output = list_ex bt_output (take (length (fst v)) (drop (nat off) (bt_tokens (batch C))));
                    ret = de_decode E (dev C) v; C = log_ops [Decode_view (fst v) (snd v)] C
                in if ret \<noteq> 0 then decode_failed t1 n_batch ret C
                   else decode_done E t1 n_batch off v has_output C)"

section \<open>Sampling a token\<close>

text \<open>The pieces of special tokens are sent when the server or the request asks for them.\<close>

definition token_result :: "'c dec_env \<Rightarrow> 'c server_context \<Rightarrow> 'c server_task \<Rightarrow> llama_token \<Rightarrow> token_output" where
  "token_result E C t k =
     \<lparr>to_tok = k, to_prob = 1,
      to_text = de_piece E k (special_tokens (params_base C) \<or> k \<in> set (sp_preserved_tokens (sampling (params t)))),
      to_probs = []\<rparr>"

text \<open>A token of the slot is processed; the value is false when the slot is done with.\<close>

definition take_output ::
  "'c dec_env \<Rightarrow> int \<Rightarrow> token_output \<Rightarrow> nat \<Rightarrow> 'c server_context \<Rightarrow> (bool \<times> 'c server_context) result" where
  "take_output E now res i C =
     rbind (process_token (de_gen E) now res (slots C ! i)) (\<lambda>(continue, _, s, msgs).
       let C = fold send_to msgs (set_slot i s C)
       in if continue then Inr (True, C) else rbind (finish_slot (de_gen E) now i C) (\<lambda>C. Inr (False, C)))"

definition sample_token :: "'c dec_env \<Rightarrow> int \<Rightarrow> int \<Rightarrow> 'c server_task \<Rightarrow> nat \<Rightarrow> 'c server_context \<Rightarrow> 'c server_context result" where
  "sample_token E now idx t i C =
     (let s = slots C ! i
      in case smpl s of
           None \<Rightarrow> Inl Abort
         | Some sm \<Rightarrow>
             let k = de_sample E (dev C) sm idx;
                 sm = sampler_do (Sampler_accept k True) (sampler_do (Sampler_sample idx) sm);
                 st = (stats s)\<lparr>n_gen := n_gen (stats s) + 1\<rparr>
             in rbind (if n_gen st = 1 then set_prompt_last now st else Inr st) (\<lambda>st.
                rbind (update_gen_last now st) (\<lambda>st.
                  let res = token_result E C t k;
                      res = (if sp_n_probs (sampling (params t)) > 0
                             then populate_token_probs E (dev C) t sm (post_sampling_probs (params t))
                                    (special_tokens (params_base C)) idx res
                             else res);
                      C = set_slot i (s\<lparr>smpl := Some sm, i_batch := -1, stats := st\<rparr>) C
                  in rbind (take_output E now res i C) (\<lambda>(_, C). Inr C))))"

definition release_done :: "int \<Rightarrow> nat \<Rightarrow> 'c server_context \<Rightarrow> 'c server_context result" where
  "release_done now i C =
     rbind (release now i C) (\<lambda>C. Inr (set_slot i ((slots C ! i)\<lparr>i_batch := -1\<rparr>) C))"

text \<open>What \<open>post_decode\<close> does for a slot whose logits are in the view; \<open>go\<close> continues with sampling.\<close>

definition prompt_done ::
  "'c dec_env \<Rightarrow> int \<Rightarrow> batch_view \<Rightarrow> 'c server_task \<Rightarrow> nat \<Rightarrow> 'c server_context \<Rightarrow> (bool \<times> 'c server_context) result" where
  "prompt_done E now v t i C =
     (if type_of_task t = TASK_EMBEDDING then
        rbind (release_done now i (send_embedding E v t i C)) (\<lambda>C. Inr (False, C))
      else if type_of_task t = TASK_RERANK then
        rbind (release_done now i (send_rerank E v t i C)) (\<lambda>C. Inr (False, C))
      else if \<not> need_sampling t then Inl Abort
      else
        let s = slots C ! i; C = set_slot i (s\<lparr>state := SLOT_GENERATING\<rparr>) C
        in Inr (True, if can_speculate s then log_ops [Spec_begin (sl_id s) (get_text_tokens (pr_tokens (prompt s)))] C else C))"

definition sample_step ::
  "'c dec_env \<Rightarrow> int \<Rightarrow> int \<Rightarrow> int \<Rightarrow> batch_view \<Rightarrow> nat \<Rightarrow> 'c server_context \<Rightarrow> 'c server_context result" where
  "sample_step E now off n v i C =
     (let s = slots C ! i; reading = (state s = SLOT_PROCESSING_PROMPT \<or> state s = SLOT_DONE_PROMPT);
          live = (reading \<or> (in_view off n (i_batch s) \<and> state s = SLOT_GENERATING))
      in if \<not> live then Inr C
         else case task s of
                None \<Rightarrow> Inl Abort
              | Some t \<Rightarrow>
                  rbind (if reading \<and> stream (params t) \<and> return_progress (params t) then send_partial now True False i C
                         else Inr C) (\<lambda>C.
                  if \<not> in_view off n (i_batch s) \<or> state s = SLOT_PROCESSING_PROMPT then Inr C
                  else rbind (if state s = SLOT_DONE_PROMPT then prompt_done E now v t i C else Inr (True, C)) (\<lambda>(go, C).
                    if \<not> go \<or> (can_speculate s \<and> spec_draft s \<noteq> []) then Inr C
                    else sample_token E now (i_batch s - off) t i C)))"

section \<open>Verifying a draft\<close>

text \<open>
  \<open>server_sample_and_accept_synth\<close>: drafted tokens are accepted at random, and on a replay all of them.
  The result: the tokens, the sampler, and the random generator.
\<close>

fun synth_loop ::
  "'c dec_env \<Rightarrow> device_op list \<Rightarrow> bool \<Rightarrow> int list \<Rightarrow> llama_token list \<Rightarrow> rat list \<Rightarrow> sampler \<Rightarrow> 32 word \<times> nat
     \<Rightarrow> (llama_token list \<times> sampler \<times> (32 word \<times> nat)) result" where
  "synth_loop E lg replay (idx # idxs) [] probs sm rng =
     (let k = de_sample E lg sm idx
      in Inr ([k], sampler_do (Sampler_accept k True) (sampler_do (Sampler_sample idx) sm), rng))"
| "synth_loop E lg replay (idx # idxs) (d # ds) (p # probs) sm rng =
     (let k = de_sample E lg sm idx; sm = sampler_do (Sampler_sample idx) sm;
          accept = (replay \<or> de_draw E rng < p); rng = (if replay then rng else (fst rng, snd rng + 1))
      in if accept \<and> (replay \<or> \<not> ge_is_eog (de_gen E) d) then
           map_sum id (\<lambda>(ks, r). (d # ks, r))
             (synth_loop E lg replay idxs ds probs (sampler_do (Sampler_accept d (replay \<and> ds = [])) sm) rng)
         else Inr ([k], sampler_do (Sampler_accept k True) sm, rng))"
| "synth_loop E lg replay _ _ _ sm rng = Inl Abort"

definition sample_and_accept_synth ::
  "'c dec_env \<Rightarrow> device_op list \<Rightarrow> 'c slot \<Rightarrow> sampler \<Rightarrow> (llama_token list \<times> sampler \<times> (32 word \<times> nat)) result" where
  "sample_and_accept_synth E lg s sm =
     (if length (spec_i_batch s) = length (spec_draft s) + 1 \<and> length (de_synth_probs E) \<ge> length (spec_draft s)
      then synth_loop E lg (spec_is_replay s) (spec_i_batch s) (spec_draft s) (de_synth_probs E) sm (spec_rng s)
      else Inl Abort)"

definition accept_tokens ::
  "'c dec_env \<Rightarrow> device_op list \<Rightarrow> 'c slot \<Rightarrow> sampler \<Rightarrow> (llama_token list \<times> sampler \<times> (32 word \<times> nat)) result" where
  "accept_tokens E lg s sm =
     (if length (spec_i_batch s) \<noteq> length (spec_draft s) + 1 then Inl Abort
      else rbind (if de_synth_probs E = []
                  then (let (ks, sm) = de_accept_n E lg sm (spec_i_batch s) (spec_draft s) in Inr (ks, sm, spec_rng s))
                  else sample_and_accept_synth E lg s sm) (\<lambda>(ks, sm, rng).
        if ks = [] then Inl Abort else Inr (ks, sm, rng)))"

text \<open>The draft is cut to the accepted tokens, and the state from before it comes back.\<close>

definition replay_draft :: "llama_token list \<Rightarrow> sampler \<Rightarrow> nat \<Rightarrow> 'c server_context \<Rightarrow> unit result \<times> 'c server_context" where
  "replay_draft ks smpl_save i C =
     (let s = (slots C ! i)\<lparr>spec_is_replay := True, spec_draft := ks\<rparr>; C = set_slot i s C
      in case spec_ckpt s of
           None \<Rightarrow> (Inl Abort, C)
         | Some c \<Rightarrow>
             let C = log_ops ([Checkpoint_load (sl_id s) c] @ (if has_dft s then [Checkpoint_load_dft (sl_id s) c] else [])
                        @ [Seq_rm (sl_id s) (ck_pos_max c + 1) (-1)]) C
             in commit (rbind (keep_first (nat (ck_n_tokens c)) (pr_tokens (prompt s))) (\<lambda>st.
                  Inr (set_slot i (s\<lparr>prompt := (prompt s)\<lparr>pr_tokens := st\<rparr>, smpl := Some smpl_save\<rparr>) C))) C)"

fun count_accepted :: "nat \<Rightarrow> nat list \<Rightarrow> nat list" where
  "count_accepted 0 ns = ns"
| "count_accepted (Suc k) [] = []"
| "count_accepted (Suc k) (n # ns) = (n + 1) # count_accepted k ns"

text \<open>The counts of a verification, and the accepted tokens in place of the draft.\<close>

definition note_accepted :: "'c dec_env \<Rightarrow> int \<Rightarrow> llama_token list \<Rightarrow> 'c slot \<Rightarrow> 'c slot result" where
  "note_accepted E now ids s =
     (let n = length ids - 1; n = (if spec_is_replay s \<and> n > 0 then n - 1 else n)
      in rbind (update_gen_last now (stats s)) (\<lambda>st.
           Inr (s\<lparr>spec_draft := [], spec_is_replay := False,
                  stats := st\<lparr>n_draft_accepted := n_draft_accepted st + n, n_draft_verif_steps := n_draft_verif_steps st + 1\<rparr>,
                  n_accepted_per_pos := count_accepted n
                    (if n_accepted_per_pos s = [] then replicate (de_n_max E) 0 else n_accepted_per_pos s)\<rparr>)))"

definition put_accepted ::
  "'c dec_env \<Rightarrow> nat \<Rightarrow> llama_token list \<Rightarrow> nat \<Rightarrow> 'c server_context \<Rightarrow> unit result \<times> 'c server_context" where
  "put_accepted E n_draft ids i C =
     (let s = slots C ! i
      in then_do (keep_first (prompt_n_tokens (prompt s) - n_draft) (pr_tokens (prompt s)), C) (\<lambda>st C.
           let s = s\<lparr>prompt := (prompt s)\<lparr>pr_tokens := st_insert (butlast ids) st\<rparr>, sampled := last ids\<rparr>
           in commit (rbind (pos_end (ue_mtmd (de_upd E)) (pr_tokens (prompt s))) (\<lambda>p.
                Inr (log_ops [Seq_rm (sl_id s) p (-1)] (set_slot i s C)))) C))"

fun emit_tokens ::
  "'c dec_env \<Rightarrow> int \<Rightarrow> 'c server_task \<Rightarrow> llama_token list \<Rightarrow> nat \<Rightarrow> 'c server_context \<Rightarrow> 'c server_context result" where
  "emit_tokens E now t [] i C = Inr C"
| "emit_tokens E now t (k # ks) i C =
     (let s = slots C ! i; s = s\<lparr>stats := (stats s)\<lparr>n_gen := n_gen (stats s) + 1\<rparr>\<rparr>
      in rbind (take_output E now (token_result E C t k) i (set_slot i s C)) (\<lambda>(go, C).
           if go then emit_tokens E now t ks i C else Inr C))"

text \<open>With the accepted tokens \<open>ids\<close>: back to the state before the draft, or on with the tokens.\<close>

definition settle_draft ::
  "'c dec_env \<Rightarrow> int \<Rightarrow> 'c server_task \<Rightarrow> nat \<Rightarrow> llama_token list \<Rightarrow> sampler \<Rightarrow> nat \<Rightarrow> 'c server_context \<Rightarrow> unit result \<times> 'c server_context" where
  "settle_draft E now t n_draft ids smpl_save i C =
     (let U = de_upd E; n_rollback = (int n_draft + 1 - int (length ids)) mod 2 ^ 32;
          use_ckpt_tgt = (ue_rm_tgt U = RM_FULL \<or> ue_rm_tgt U = RM_RS \<and> n_rollback > int (ue_n_rs_tgt U))
      in if n_rollback > 0 \<and> use_ckpt_tgt then replay_draft ids smpl_save i C
         else
           let C = log_ops [Spec_accept (sl_id (slots C ! i)) (length ids - 1)] C
           in then_do (commit (rbind (note_accepted E now ids (slots C ! i)) (\<lambda>s. Inr (set_slot i s C))) C) (\<lambda>_ C.
              then_do (put_accepted E n_draft ids i C) (\<lambda>_ C.
                commit (emit_tokens E now t ids i C) C)))"

definition verify_draft :: "'c dec_env \<Rightarrow> int \<Rightarrow> nat \<Rightarrow> 'c server_context \<Rightarrow> unit result \<times> 'c server_context" where
  "verify_draft E now i C =
     (let s = slots C ! i
      in if state s \<noteq> SLOT_GENERATING \<or> \<not> can_speculate s \<or> spec_draft s = [] \<or> spec_i_batch s = [] then (Inr (), C)
         else case (smpl s, task s) of
           (Some sm, Some t) \<Rightarrow>
             then_do (accept_tokens E (dev C) s sm, C) (\<lambda>(ids, sm', rng) C.
               settle_draft E now t (length (spec_draft s)) ids sm i
                 (set_slot i (s\<lparr>smpl := Some sm', spec_rng := rng, spec_i_batch := []\<rparr>) C))
         | _ \<Rightarrow> (Inl Abort, C))"

section \<open>After decoding a view\<close>

text \<open>A draft of which a part is outside of the view cannot be verified.\<close>

definition check_draft :: "int \<Rightarrow> int \<Rightarrow> nat \<Rightarrow> 'c server_context \<Rightarrow> unit result \<times> 'c server_context" where
  "check_draft off n i C =
     (case find (\<lambda>k. \<not> in_view off n k) (spec_i_batch (slots C ! i)) of
        None \<Rightarrow> (Inr (), C)
      | Some k \<Rightarrow> (Inl (Throw (''speculative batch index '' @ show_int k @ '' is not inside the current sub-batch [''
          @ show_int off @ '', '' @ show_int (off + n) @ '')'')), C))"

definition post_decode :: "'c dec_env \<Rightarrow> int \<Rightarrow> int \<Rightarrow> int \<Rightarrow> batch_view \<Rightarrow> 'c server_context \<Rightarrow> 'c server_context result" where
  "post_decode E now off n v C =
     (let all_slots = [0..<length (slots C)]
      in rbind (iterate now (\<lambda>i C. outcome_of (check_draft off n i C)) all_slots C) (\<lambda>C.
         rbind (iterate now (\<lambda>i C. outcome_of (commit (sample_step E now off n v i C) C)) all_slots C) (\<lambda>C.
           iterate now (\<lambda>i C. outcome_of (verify_draft E now i C)) all_slots C)))"

section \<open>One round of the server\<close>

text \<open>
  The adapters of the batch.  When an adapter was disabled for the tokens before its invocation, its scale
  comes back in the list of the slot that \<open>slot_batched\<close> names.
\<close>

definition apply_adapters :: "'c server_context \<Rightarrow> 'c server_context result" where
  "apply_adapters C =
     (case slot_batched (batch C) of
        None \<Rightarrow> if batch_size (batch C) = 0 then Inr C else Inl Abort
      | Some k \<Rightarrow>
          let i = nat k; s = slots C ! i; b = batch C; C = log_ops [Set_adapters (lora s)] C;
              s' = (if alora_scale b > 0
                    then s\<lparr>lora := (lora s)[alora_disabled_id b := (lora s ! alora_disabled_id b)\<lparr>lo_scale := alora_scale b\<rparr>]\<rparr>
                    else s)
          in rbind (slot_need_embd s') (\<lambda>e. Inr (log_ops [Set_embeddings e] (set_slot i s' C))))"

text \<open>
  The loop over the views of the batch.  Round \<open>r\<close> reads the clock before and after the decode; \<open>None\<close>
  would be a loop without end.
\<close>

partial_function (option) decode_loop ::
  "'c dec_env \<Rightarrow> (nat \<Rightarrow> int) \<Rightarrow> nat \<Rightarrow> int \<Rightarrow> int \<Rightarrow> 'c server_context \<Rightarrow> 'c server_context result option" where
  "decode_loop E clk r off n_batch C =
     (if \<not> off < batch_size (batch C) then Some (Inr C)
      else
        let n = min n_batch (batch_size (batch C) - off); t0 = clk (2 * r); t1 = clk (2 * r + 1)
        in case get_view off n (batch C) of
             Inl e \<Rightarrow> Some (Inl e)
           | Inr v \<Rightarrow>
               (case decode E t0 t1 n_batch off v C of
                  (Inl Abort, C) \<Rightarrow> Some (Inl Abort)
                | (Inl (Throw e), C) \<Rightarrow> Some (abort_all_slots t1 (''decode() failed: '' @ e) C)
                | (Inr (ok, n_batch'), C) \<Rightarrow>
                    if \<not> ok then decode_loop E clk (Suc r) off n_batch' C
                    else
                      (case post_decode E t1 off n v C of
                         Inl Abort \<Rightarrow> Some (Inl Abort)
                       | Inl (Throw e) \<Rightarrow> Some (abort_all_slots t1 (''post_decode() failed: '' @ e) C)
                       | Inr C \<Rightarrow> decode_loop E clk (Suc r) (off + n) (ue_n_batch (de_upd E)) C)))"

declare decode_loop.simps [code]

definition next_response :: "task_params \<Rightarrow> int \<Rightarrow> 'c server_task" where
  "next_response p k = (cancel_task p (-1))\<lparr>type_of_task := TASK_NEXT_RESPONSE, task_id := k\<rparr>"

text \<open>\<open>update_slots()\<close>\<close>

definition update_slots :: "'c dec_env \<Rightarrow> (nat \<Rightarrow> int) \<Rightarrow> 'c server_context \<Rightarrow> 'c server_context result option" where
  "update_slots E clk C =
     (let now = clk 0
      in if list_all (\<lambda>s. \<not> is_processing s) (slots C) then Some (Inr (metrics_flush_idle now C))
         else
           let (k, q) = get_new_id (tasks_queue C)
           in case post_task now (next_response (de_params0 E) k) False q of
                Inl e \<Rightarrow> Some (Inl e)
              | Inr (_, q) \<Rightarrow>
                  let C = C\<lparr>tasks_queue := q\<rparr>
                  in case rbind (pre_decode (de_upd E) now C) (\<lambda>C. rbind (batch_render (batch C)) (\<lambda>b. Inr (C\<lparr>batch := b\<rparr>))) of
                       Inl Abort \<Rightarrow> Some (Inl Abort)
                     | Inl (Throw e) \<Rightarrow> Some (abort_all_slots now (''pre_decode() failed: '' @ e) C)
                     | Inr C \<Rightarrow>
                         (case apply_adapters C of
                            Inl e \<Rightarrow> Some (Inl e)
                          | Inr C \<Rightarrow> decode_loop E clk 1 0 (ue_n_batch (de_upd E)) C))"

end
