(* ===== verification/Frames.thy ===== *)
theory Frames
  imports Decode Prompt
begin

text \<open>
  What every operation of a round of the server keeps: the slots keep their ids and stay well formed, and
  once the batch is filled nothing changes it.  The locale \<open>kept_relation\<close> carries a relation between
  contexts through the combinators the operations are written with.
\<close>

section \<open>Relations kept by steps\<close>

text \<open>A result, or a result with the state it leaves; after an abort nothing is claimed.\<close>

definition res_ok :: "('s \<Rightarrow> 's \<Rightarrow> bool) \<Rightarrow> 's \<Rightarrow> 's result \<Rightarrow> bool" where
  "res_ok R C r \<longleftrightarrow> (\<forall>C'. r = Inr C' \<longrightarrow> R C C')"

definition pair_ok :: "('s \<Rightarrow> 's \<Rightarrow> bool) \<Rightarrow> 's \<Rightarrow> 'a result \<times> 's \<Rightarrow> bool" where
  "pair_ok R C p \<longleftrightarrow> (fst p \<noteq> Inl Abort \<longrightarrow> R C (snd p))"

lemma res_okI: "(\<And>C'. r = Inr C' \<Longrightarrow> R C C') \<Longrightarrow> res_ok R C r"
  by (simp add: res_ok_def)

lemma res_okD: "res_ok R C r \<Longrightarrow> r = Inr C' \<Longrightarrow> R C C'"
  by (simp add: res_ok_def)

lemma pair_okD: "pair_ok R C (r, C') \<Longrightarrow> r \<noteq> Inl Abort \<Longrightarrow> R C C'"
  by (simp add: pair_ok_def)

locale kept_relation =
  fixes R :: "'c server_context \<Rightarrow> 'c server_context \<Rightarrow> bool"
  assumes kept_refl: "R C C"
    and kept_trans: "R C1 C2 \<Longrightarrow> R C2 C3 \<Longrightarrow> R C1 C3"
    and kept_fail: "fail_slot now e i C = Inr C' \<Longrightarrow> R C C'"
begin

lemma commit_ok: "res_ok R C r \<Longrightarrow> pair_ok R C (commit r C)"
  by (auto simp: res_ok_def pair_ok_def commit_def kept_refl split: sum.splits)

lemma pure_ok: "pair_ok R C (r, C)"
  by (simp add: pair_ok_def kept_refl)

lemma then_do_ok:
  assumes "pair_ok R C p" "\<And>x C1. p = (Inr x, C1) \<Longrightarrow> R C C1 \<Longrightarrow> pair_ok R C1 (f x C1)"
  shows "pair_ok R C (then_do p f)"
proof (cases p)
  case (Pair r C1)
  show ?thesis
  proof (cases r)
    case (Inr x)
    then have "R C C1" using assms(1) Pair by (simp add: pair_ok_def)
    with assms(2) show ?thesis using Inr Pair kept_trans by (fastforce simp: pair_ok_def)
  qed (use assms(1) Pair in \<open>simp add: pair_ok_def\<close>)
qed

lemma pair_ok_from: "R C C1 \<Longrightarrow> pair_ok R C1 p \<Longrightarrow> pair_ok R C p"
  using kept_trans by (auto simp: pair_ok_def)

lemma res_ok_bind:
  assumes "res_ok R C r" "\<And>C1. r = Inr C1 \<Longrightarrow> R C C1 \<Longrightarrow> res_ok R C1 (f C1)"
  shows "res_ok R C (rbind r f)"
  using assms kept_trans by (fastforce simp: res_ok_def rbind_Inr_iff)

lemma fold_ok: "(\<And>x C. R C (f x C)) \<Longrightarrow> R C (fold f xs C)"
  by (induction xs arbitrary: C) (auto intro: kept_refl kept_trans)

lemma iterate_ok:
  assumes "\<And>i C. fst (callback i C) \<noteq> Some Abort \<Longrightarrow> R C (snd (callback i C))"
  shows "res_ok R C (iterate now callback is C)"
proof (induction "is" arbitrary: C)
  case (Cons i "is")
  obtain e C1 where c: "callback i C = (e, C1)" by (cases "callback i C")
  have 1: "e \<noteq> Some Abort \<Longrightarrow> R C C1" using assms [where i = i and C = C] c by simp
  show ?case
  proof (cases e rule: option.exhaust [case_names none some])
    case none
    then show ?thesis using c 1 Cons.IH kept_trans by (fastforce simp: res_ok_def)
  next
    case (some err)
    show ?thesis
    proof (cases err)
      case (Throw m)
      then have "R C C1" using 1 some by simp
      then have "res_ok R C (fail_slot now (''got exception: '' @ m) i C1)"
        using kept_fail kept_trans by (blast intro: res_okI)
      then show ?thesis using c some Throw res_ok_bind [OF _ Cons.IH] by simp
    qed (use c some in \<open>simp add: res_ok_def\<close>)
  qed
qed (simp add: res_ok_def kept_refl)

lemma outcome_ok: "pair_ok R C p \<Longrightarrow> fst (outcome_of p) \<noteq> Some Abort \<Longrightarrow> R C (snd (outcome_of p))"
  by (cases p; cases "fst p") (auto simp: outcome_of_def pair_ok_def)

lemma iterate_pairs: "(\<And>i C. pair_ok R C (f i C)) \<Longrightarrow> res_ok R C (iterate now (\<lambda>i C. outcome_of (f i C)) is C)"
  using iterate_ok [of "\<lambda>i C. outcome_of (f i C)"] outcome_ok by blast

lemma iterate_results: "(\<And>i C. res_ok R C (f i C)) \<Longrightarrow> res_ok R C (iterate now (\<lambda>i C. outcome_of (commit (f i C) C)) is C)"
  by (rule iterate_pairs, rule commit_ok) simp

lemma abort_slots_ok: "res_ok R C (abort_slots now reason is C)"
proof (induction "is" arbitrary: C)
  case (Cons i "is")
  have "res_ok R C (if is_processing (slots C ! i) then fail_slot now reason i C else Inr C)"
    using kept_fail kept_refl by (auto intro: res_okI)
  then show ?case using res_ok_bind [OF _ Cons.IH] by simp
qed (simp add: res_ok_def kept_refl)

lemma abort_all_ok: "res_ok R C (abort_all_slots now reason C)"
  by (simp add: abort_all_slots_def abort_slots_ok)

end

section \<open>Well-formed slots\<close>

text \<open>The slots keep their ids, and well-formed slots stay so.\<close>

definition round_ok :: "'c server_context \<Rightarrow> 'c server_context \<Rightarrow> bool" where
  "round_ok C C' \<longleftrightarrow> length (slots C') = length (slots C)
     \<and> (\<forall>j < length (slots C). sl_id (slots C' ! j) = sl_id (slots C ! j) \<and> (slot_ok (slots C ! j) \<longrightarrow> slot_ok (slots C' ! j)))"

lemma round_ok_slots: "slots C' = slots C \<Longrightarrow> round_ok C C'"
  by (simp add: round_ok_def)

lemma round_ok_update:
  "slots C' = (slots C)[i := s] \<Longrightarrow> sl_id s = sl_id (slots C ! i) \<Longrightarrow> slot_ok (slots C ! i) \<longrightarrow> slot_ok s \<Longrightarrow> round_ok C C'"
  by (auto simp: round_ok_def nth_update)

lemma round_ok_same_job: "slots C' = (slots C)[i := s] \<Longrightarrow> same_job (slots C ! i) s \<Longrightarrow> round_ok C C'"
  by (erule round_ok_update) (simp_all add: slot_ok_same_job, simp add: same_job_def)

lemma release_slots:
  assumes "release now i C = Inr C'"
  shows "slots C' = slots C \<or> (\<exists>s. slots C' = (slots C)[i := s] \<and> sl_id s = sl_id (slots C ! i) \<and> state s = SLOT_IDLE \<and> task s = None
     \<and> (prompt s = prompt (slots C ! i) \<or> prompt s = prompt_clear (prompt (slots C ! i))))"
proof (cases "is_processing (slots C ! i)")
  case True
  then obtain t where t: "task (slots C ! i) = Some t" using assms by (cases "task (slots C ! i)") (auto simp: release_def)
  define s0 where "s0 = (slots C ! i)\<lparr>t_last_used := now, state := SLOT_IDLE\<rparr>"
  define p where "p = (if is_child t then slot_prompt_clear s0 else (s0, []))"
  have p: "sl_id (fst p) = sl_id (slots C ! i)" "state (fst p) = SLOT_IDLE"
    "prompt (fst p) = prompt (slots C ! i) \<or> prompt (fst p) = prompt_clear (prompt (slots C ! i))"
    by (simp_all add: p_def s0_def slot_prompt_clear_def)
  have "slots C' = (slots C)[i := fst (slot_reset (fst p))]"
    using assms True t unfolding release_def Let_def s0_def [symmetric] by (auto simp: p_def split: prod.splits)
  then show ?thesis using p by (intro disjI2 exI [of _ "fst (slot_reset (fst p))"]) simp
qed (use assms in \<open>simp add: release_def\<close>)

lemma round_ok_release: "release now i C = Inr C' \<Longrightarrow> round_ok C C'"
  by (drule release_slots) (auto simp: slot_ok_def is_processing_def intro: round_ok_slots round_ok_update)

lemma round_ok_trans: "round_ok C1 C2 \<Longrightarrow> round_ok C2 C3 \<Longrightarrow> round_ok C1 C3"
  by (simp add: round_ok_def)

lemma slots_ok_round: "round_ok C C' \<Longrightarrow> slots_ok C \<Longrightarrow> slots_ok C'"
  by (auto simp: round_ok_def slots_ok_def)

lemma round_ok_send: "round_ok (send_to m C) C' \<Longrightarrow> round_ok C C'"
  by (simp add: round_ok_def)

lemma round_ok_fail: "fail_slot now e i C = Inr C' \<Longrightarrow> round_ok C C'"
  by (auto simp: fail_slot_def rbind_Inr_iff dest!: round_ok_release intro: round_ok_send)

interpretation slots_kept: kept_relation round_ok
  by unfold_locales (auto simp: round_ok_slots intro: round_ok_trans round_ok_fail)

text \<open>The same, with the batch unchanged.\<close>

definition batch_kept :: "'c server_context \<Rightarrow> 'c server_context \<Rightarrow> bool" where
  "batch_kept C C' \<longleftrightarrow> round_ok C C' \<and> batch C' = batch C"

lemma release_batch: "release now i C = Inr C' \<Longrightarrow> batch C' = batch C"
  by (auto simp: release_def Let_def split: if_splits option.splits prod.splits)

lemma fail_slot_batch: "fail_slot now e i C = Inr C' \<Longrightarrow> batch C' = batch C"
  by (auto simp: fail_slot_def rbind_Inr_iff dest!: release_batch)

interpretation batch_rel: kept_relation batch_kept
  by unfold_locales (auto simp: batch_kept_def round_ok_slots intro: round_ok_trans round_ok_fail fail_slot_batch)

section \<open>Processing a token\<close>

text \<open>Processing a token only touches the text, the stop state and the lists for the response.\<close>

definition token_frame :: "'c slot \<Rightarrow> 'c slot \<Rightarrow> bool" where
  "token_frame s s' \<longleftrightarrow> same_job s s' \<and> prompt s' = prompt s \<and> stats s' = stats s \<and> spec_draft s' = spec_draft s
     \<and> spec_i_batch s' = spec_i_batch s \<and> has_spec s' = has_spec s \<and> i_batch s' = i_batch s"

lemma token_frame_refl: "token_frame s s"
  by (simp add: token_frame_def)

lemma token_frame_trans: "token_frame s s1 \<Longrightarrow> token_frame s1 s2 \<Longrightarrow> token_frame s s2"
  by (simp add: token_frame_def same_job_def)

text \<open>The sampled token stays the same, too.\<close>

definition text_frame :: "'c slot \<Rightarrow> 'c slot \<Rightarrow> bool" where
  "text_frame s s' \<longleftrightarrow> token_frame s s' \<and> sampled s' = sampled s"

lemma text_frame_refl: "text_frame s s"
  by (simp add: text_frame_def token_frame_refl)

lemma text_frame_trans: "text_frame s s1 \<Longrightarrow> text_frame s1 s2 \<Longrightarrow> text_frame s s2"
  using token_frame_trans by (auto simp: text_frame_def)

lemma text_frame_updates:
  "text_frame s (s\<lparr>generated_text := g\<rparr>)" "text_frame s (stop_found f w s)"
  by (simp_all add: text_frame_def token_frame_def same_job_def stop_found_def)

lemma stop_loop_frame: "text_frame s (snd (stop_loop E str n f ws sp s))"
proof (induction ws arbitrary: sp s)
  case (Cons w ws)
  have "text_frame s (snd (stop_loop E str n f ws p (stop_found f w s)))" for p
    by (rule text_frame_trans [OF text_frame_updates(2) Cons.IH])
  then show ?case using Cons.IH unfolding stop_loop_Cons Let_def by (simp split: if_split)
qed (simp add: text_frame_refl)

lemma find_stopping_frame: "find_stopping_strings E str n f s = Inr (r, s') \<Longrightarrow> text_frame s s'"
proof -
  assume f: "find_stopping_strings E str n f s = Inr (r, s')"
  then obtain ws where "stop_loop E str n f ws None s = (r, s')"
    by (auto simp: find_stopping_strings_def split: option.splits)
  then show ?thesis using stop_loop_frame [of s E str n f ws None] by simp
qed

lemma send_rest_frame: "send_rest now res pos b s = Inr (res', s', ms) \<Longrightarrow> text_frame s s'"
  by (auto simp: send_rest_def Let_def rbind_Inr_iff add_token_def text_frame_def token_frame_def same_job_def split: if_splits option.splits)

lemma send_token_text_frame:
  assumes "send_token_text E now tok res s = Inr (res', s', ms)"
  shows "text_frame s s'"
proof -
  let ?pos = "min (n_sent_text s) (length (generated_text s))"
  let ?str = "drop ?pos (generated_text s)"
  obtain sp s1 where 1: "find_stopping_strings E ?str (length tok) True s = Inr (sp, s1)"
    using assms by (cases "find_stopping_strings E ?str (length tok) True s") (auto simp: send_token_text_rest Let_def)
  note 2 = assms [unfolded send_token_text_rest Let_def 1 rbind.simps prod.case]
  have "text_frame s1 s'"
  proof (cases sp)
    case (Some k)
    then obtain pos g where "send_rest now res pos True (s1\<lparr>generated_text := g\<rparr>) = Inr (res', s', ms)"
      using 2 by auto
    then show ?thesis using send_rest_frame text_frame_trans [OF text_frame_updates(1)] by blast
  next
    case None
    show ?thesis
    proof (cases "has_next_token s1 \<and> \<not> ge_is_eog E (to_tok res)")
      case True
      then obtain r s2 b where "find_stopping_strings E ?str (length tok) False s1 = Inr (r, s2)"
        "send_rest now res ?pos b s2 = Inr (res', s', ms)"
        using 2 None by (auto simp: rbind_Inr_iff)
      then show ?thesis using find_stopping_frame send_rest_frame text_frame_trans by blast
    next
      case False
      then have "send_rest now res ?pos True s1 = Inr (res', s', ms)" using 2 None by (simp only: if_False) simp
      then show ?thesis by (rule send_rest_frame)
    qed
  qed
  with find_stopping_frame [OF 1] show ?thesis by (rule text_frame_trans)
qed

lemma check_indent_frame: "text_frame s (check_indent n s)"
  by (simp add: check_indent_def Let_def text_frame_def token_frame_def same_job_def split: option.split)

lemma text_frame_let: "text_frame s x \<Longrightarrow> (\<And>y. text_frame s y \<Longrightarrow> text_frame s (f y)) \<Longrightarrow> text_frame s (Let x f)"
  by simp

lemma text_frame_if: "text_frame s x \<Longrightarrow> text_frame s y \<Longrightarrow> text_frame s (if c then x else y)"
  by simp

lemma text_frame_stops:
  "text_frame s x \<Longrightarrow> text_frame s (x\<lparr>has_next_token := b\<rparr>)"
  "text_frame s x \<Longrightarrow> text_frame s (x\<lparr>sl_stop := st, has_next_token := b\<rparr>)"
  "text_frame s x \<Longrightarrow> text_frame s (x\<lparr>truncated := tr, sl_stop := st, has_next_token := b\<rparr>)"
  "text_frame s x \<Longrightarrow> text_frame s (x\<lparr>has_new_line := b\<rparr>)"
  by (simp_all add: text_frame_def token_frame_def same_job_def)

lemmas text_frame_intros = text_frame_let text_frame_if text_frame_stops text_frame_refl

lemma finish_token_frame: "text_frame s (finish_token E t inc res s)"
proof -
  have "text_frame s (check_indent n x)" if "text_frame s x" for n x
    using that check_indent_frame by (rule text_frame_trans)
  then show ?thesis unfolding finish_token_def by (intro text_frame_intros)
qed

lemma process_token_frame:
  assumes "process_token E now res s = Inr (b, res', s', ms)"
  shows "token_frame s s' \<and> sampled s' = to_tok res"
proof -
  from assms obtain t where t: "task s = Some t" by (cases "task s") (auto simp: process_token_def)
  let ?s0 = "take_token t res s"
  have s0: "token_frame s ?s0" "sampled ?s0 = to_tok res"
    by (simp_all add: take_token_def Let_def token_frame_def same_job_def)
  have "\<exists>s1 inc res1. text_frame ?s0 s1 \<and> s' = finish_token E t inc res1 s1"
  proof (cases "validate_utf8 (generated_text ?s0) < length (generated_text ?s0)")
    case True
    then show ?thesis using assms text_frame_refl unfolding process_token_parts [OF t] Let_def by auto
  next
    case False
    then show ?thesis using assms send_token_text_frame unfolding process_token_parts [OF t] Let_def
      by (fastforce simp: rbind_Inr_iff simp del: take_token_simps)
  qed
  then show ?thesis using s0 finish_token_frame unfolding text_frame_def by (metis token_frame_trans)
qed

section \<open>Sampling and verification\<close>

lemma batch_kept_same_job: "slots C' = (slots C)[i := s] \<Longrightarrow> same_job (slots C ! i) s \<Longrightarrow> batch C' = batch C \<Longrightarrow> batch_kept C C'"
  by (simp add: batch_kept_def round_ok_same_job)

lemma batch_kept_slots: "slots C' = slots C \<Longrightarrow> batch C' = batch C \<Longrightarrow> batch_kept C C'"
  by (simp add: batch_kept_def round_ok_slots)

lemma batch_kept_release: "release now i C = Inr C' \<Longrightarrow> batch_kept C C'"
  by (simp add: batch_kept_def round_ok_release release_batch)

lemma batch_kept_set_slot: "same_job (slots C ! i) s \<Longrightarrow> batch_kept C (set_slot i s C)"
  by (rule batch_kept_same_job) simp_all

lemma batch_kept_log: "batch_kept C (log_ops ops C)"
  by (rule batch_kept_slots) simp_all

lemma batch_kept_send: "batch_kept C (send_to m C)"
  by (rule batch_kept_slots) simp_all

lemmas batch_kept_trans = batch_rel.kept_trans

lemma batch_kept_fold_send: "batch_kept C (fold send_to ms C)"
  by (rule batch_rel.fold_ok) (rule batch_kept_send)

lemma reject_slot_kept: "reject_slot now e ty i C = Inr C' \<Longrightarrow> batch_kept C C'"
  using batch_kept_send batch_kept_release batch_kept_trans by (fastforce simp: reject_slot_def rbind_Inr_iff)

lemma final_response_job: "final_response G s = Inr (s', m) \<Longrightarrow> same_job s s' \<and> prompt s' = prompt s"
  by (auto simp: final_response_def same_job_def Let_def split: option.splits if_splits)

lemma finish_slot_kept: "finish_slot G now i C = Inr C' \<Longrightarrow> batch_kept C C'"
proof -
  assume "finish_slot G now i C = Inr C'"
  then obtain s m where f: "final_response G (slots C ! i) = Inr (s, m)" "release now i (send_to m (set_slot i s C)) = Inr C'"
    by (auto simp: finish_slot_def rbind_Inr_iff)
  have "batch_kept C (send_to m (set_slot i s C))"
    using final_response_job [OF f(1)] batch_kept_set_slot batch_kept_send batch_kept_trans by blast
  then show ?thesis using batch_kept_release [OF f(2)] batch_kept_trans by blast
qed

lemma take_output_kept: "take_output E now res i C = Inr (b, C') \<Longrightarrow> batch_kept C C'"
proof -
  assume "take_output E now res i C = Inr (b, C')"
  then obtain go res' s ms where p: "process_token (de_gen E) now res (slots C ! i) = Inr (go, res', s, ms)"
    and c: "C' = fold send_to ms (set_slot i s C) \<or> finish_slot (de_gen E) now i (fold send_to ms (set_slot i s C)) = Inr C'"
    by (auto simp: take_output_def rbind_Inr_iff Let_def split: if_splits)
  have "same_job (slots C ! i) s" using process_token_frame [OF p] by (simp add: token_frame_def)
  then have "batch_kept C (fold send_to ms (set_slot i s C))"
    using batch_kept_set_slot batch_kept_fold_send batch_kept_trans by blast
  then show ?thesis using c finish_slot_kept batch_kept_trans by blast
qed

lemma emit_tokens_kept: "emit_tokens E now t ks i C = Inr C' \<Longrightarrow> batch_kept C C'"
proof (induction ks arbitrary: C)
  case (Cons k ks)
  let ?s = "(slots C ! i)\<lparr>stats := (stats (slots C ! i))\<lparr>n_gen := n_gen (stats (slots C ! i)) + 1\<rparr>\<rparr>"
  from Cons.prems obtain go C1 where 1: "take_output E now (token_result E C t k) i (set_slot i ?s C) = Inr (go, C1)"
    "(if go then emit_tokens E now t ks i C1 else Inr C1) = Inr C'"
    by (auto simp: rbind_Inr_iff Let_def)
  have "batch_kept C (set_slot i ?s C)" by (rule batch_kept_set_slot) (simp add: same_job_def)
  then have "batch_kept C C1" using take_output_kept [OF 1(1)] batch_kept_trans by blast
  then show ?case using 1(2) Cons.IH batch_kept_trans by (auto split: if_splits)
qed (simp add: batch_rel.kept_refl)

lemma sample_token_kept: "sample_token E now idx t i C = Inr C' \<Longrightarrow> batch_kept C C'"
proof -
  assume "sample_token E now idx t i C = Inr C'"
  then obtain b res s where "take_output E now res i (set_slot i s C) = Inr (b, C')" "same_job (slots C ! i) s"
    by (auto simp: sample_token_def Let_def rbind_Inr_iff same_job_def split: option.splits)
  then show ?thesis using batch_kept_set_slot take_output_kept batch_kept_trans by blast
qed

lemma release_done_kept: "release_done now i C = Inr C' \<Longrightarrow> batch_kept C C'"
proof -
  assume "release_done now i C = Inr C'"
  then obtain C1 where r: "release now i C = Inr C1" "C' = set_slot i ((slots C1 ! i)\<lparr>i_batch := -1\<rparr>) C1"
    by (auto simp: release_done_def rbind_Inr_iff)
  have "batch_kept C1 C'" unfolding r(2) by (rule batch_kept_set_slot) (simp add: same_job_def)
  then show ?thesis using batch_kept_release [OF r(1)] batch_kept_trans by blast
qed

lemma prompt_done_kept:
  assumes "prompt_done E now v t i C = Inr (go, C')" "task (slots C ! i) = Some t"
  shows "batch_kept C C'"
proof -
  have sent: "batch_kept C (send_embedding E v t i C)" "batch_kept C (send_rerank E v t i C)"
    by (simp_all add: send_embedding_def send_rerank_def batch_kept_send)
  let ?s = "(slots C ! i)\<lparr>state := SLOT_GENERATING\<rparr>"
  have "round_ok C (set_slot i ?s C)"
    using assms(2) by (intro round_ok_update [where i = i and s = ?s]) (simp_all add: slot_ok_def is_processing_def)
  then have "batch_kept C (set_slot i ?s C)" by (simp add: batch_kept_def)
  then have gen: "batch_kept C (log_ops ops (set_slot i ?s C))" for ops using batch_kept_log batch_kept_trans by blast
  have done_kept: "rbind (release_done now i C1) (\<lambda>C. Inr (False, C)) = Inr (go, C') \<Longrightarrow> batch_kept C C1 \<Longrightarrow> batch_kept C C'" for C1
    by (auto simp: rbind_Inr_iff dest!: release_done_kept elim: batch_kept_trans)
  show ?thesis
    using assms(1) unfolding prompt_done_def Let_def
    using done_kept [OF _ sent(1)] done_kept [OF _ sent(2)] gen \<open>batch_kept C (set_slot i ?s C)\<close>
    by (auto split: if_splits)
qed

lemma sample_step_kept: "res_ok batch_kept C (sample_step E now off n v i C)"
proof (rule res_okI)
  fix C'
  assume s: "sample_step E now off n v i C = Inr C'"
  show "batch_kept C C'"
  proof (cases "C' = C")
    case False
    let ?s = "slots C ! i"
    from s False obtain t C1 where t: "task ?s = Some t"
      and 1: "C1 = C \<or> send_partial now True False i C = Inr C1"
      and 2: "C' = C1 \<or> (\<exists>go C2. (C2 = C1 \<or> prompt_done E now v t i C1 = Inr (go, C2))
          \<and> (C' = C2 \<or> sample_token E now (i_batch ?s - off) t i C2 = Inr C'))"
      unfolding sample_step_def Let_def by (auto simp: rbind_Inr_iff split: if_splits option.splits)
    have "slots C1 = slots C" "batch_kept C C1"
      using 1 batch_kept_send by (auto simp: send_partial_def rbind_Inr_iff batch_rel.kept_refl)
    then show ?thesis using 2 t prompt_done_kept sample_token_kept batch_kept_trans by metis
  qed (simp add: batch_rel.kept_refl)
qed

lemma replay_draft_kept: "pair_ok batch_kept C (replay_draft ks sm i C)"
proof -
  let ?s = "(slots C ! i)\<lparr>spec_is_replay := True, spec_draft := ks\<rparr>"
  have 1: "batch_kept C (log_ops ops (set_slot i ?s C))" for ops
    by (rule batch_kept_same_job [where i = i and s = ?s]) (simp_all add: same_job_def)
  have 2: "batch_kept C (set_slot i (?s\<lparr>prompt := p, smpl := m\<rparr>) (log_ops ops (set_slot i ?s C)))" for ops p m
    by (rule batch_kept_same_job [where i = i and s = "?s\<lparr>prompt := p, smpl := m\<rparr>"]) (simp_all add: same_job_def)
  show ?thesis using 1 2
    by (auto simp: replay_draft_def Let_def pair_ok_def commit_def split: option.splits sum.splits)
      (auto simp: rbind_Inr_iff)
qed

lemma put_accepted_kept: "pair_ok batch_kept C (put_accepted E n ids i C)"
  unfolding put_accepted_def Let_def
proof (intro batch_rel.then_do_ok batch_rel.pure_ok batch_rel.commit_ok res_okI)
  fix st C1 C2
  assume "rbind (pos_end (ue_mtmd (de_upd E)) (pr_tokens (prompt ((slots C ! i)\<lparr>prompt :=
      (prompt (slots C ! i))\<lparr>pr_tokens := st_insert (butlast ids) st\<rparr>, sampled := last ids\<rparr>)))) (\<lambda>p.
    Inr (log_ops [Seq_rm (sl_id ((slots C ! i)\<lparr>prompt := (prompt (slots C ! i))\<lparr>pr_tokens := st_insert (butlast ids) st\<rparr>,
       sampled := last ids\<rparr>)) p (-1)] (set_slot i ((slots C ! i)\<lparr>prompt :=
      (prompt (slots C ! i))\<lparr>pr_tokens := st_insert (butlast ids) st\<rparr>, sampled := last ids\<rparr>) C1))) = Inr C2"
    and "(keep_first (prompt_n_tokens (prompt (slots C ! i)) - n) (pr_tokens (prompt (slots C ! i))), C) = (Inr st, C1)"
  then show "batch_kept C1 C2"
    by (auto simp: rbind_Inr_iff same_job_def intro!: batch_kept_same_job [where i = i])
qed

lemma note_accepted_job: "note_accepted E now ids s = Inr s' \<Longrightarrow> same_job s s' \<and> prompt s' = prompt s \<and> has_mtmd (pr_tokens (prompt s')) = has_mtmd (pr_tokens (prompt s))"
  by (auto simp: note_accepted_def Let_def rbind_Inr_iff same_job_def)

lemma settle_draft_kept: "pair_ok batch_kept C (settle_draft E now t n ids sm i C)"
proof -
  have "res_ok batch_kept C (rbind (note_accepted E now ids (slots C ! i)) (\<lambda>s. Inr (set_slot i s C)))" for C :: "'a server_context"
    by (auto simp: res_ok_def rbind_Inr_iff dest: note_accepted_job intro: batch_kept_set_slot)
  then have go_on: "pair_ok batch_kept C (then_do (commit (rbind (note_accepted E now ids (slots C ! i)) (\<lambda>s. Inr (set_slot i s C))) C) (\<lambda>_ C.
              then_do (put_accepted E n ids i C) (\<lambda>_ C. commit (emit_tokens E now t ids i C) C)))" for C :: "'a server_context"
    using emit_tokens_kept by (intro batch_rel.then_do_ok batch_rel.commit_ok put_accepted_kept) (auto simp: res_ok_def)
  show ?thesis
    unfolding settle_draft_def Let_def using batch_rel.pair_ok_from [OF batch_kept_log go_on]
    by (simp add: replay_draft_kept)
qed

lemma verify_draft_kept: "pair_ok batch_kept C (verify_draft E now i C)"
proof -
  have "batch_kept C (set_slot i ((slots C ! i)\<lparr>smpl := m, spec_rng := r, spec_i_batch := []\<rparr>) C)" for m r
    by (rule batch_kept_set_slot) (simp add: same_job_def)
  then show ?thesis
    unfolding verify_draft_def Let_def
    by (auto simp: batch_rel.pure_ok split: option.split intro!: batch_rel.then_do_ok [OF batch_rel.pure_ok]
        batch_rel.pair_ok_from [OF _ settle_draft_kept])
qed

lemma post_decode_kept: "res_ok batch_kept C (post_decode E now off n v C)"
  unfolding post_decode_def Let_def
  by (intro batch_rel.res_ok_bind batch_rel.iterate_pairs batch_rel.iterate_results sample_step_kept verify_draft_kept)
    (simp add: check_draft_def batch_rel.pure_ok split: option.split)

section \<open>Decoding a view\<close>

lemma context_simps [simp]:
  "slots (metrics_pre_decode t C) = slots C" "batch (metrics_pre_decode t C) = batch C"
  "slots (metrics_queue_prompt k C) = slots C" "batch (metrics_queue_prompt k C) = batch C"
  "slots (metrics_flush_prompt t C) = slots C" "batch (metrics_flush_prompt t C) = batch C"
  by (simp_all add: metrics_pre_decode_def metrics_queue_prompt_def metrics_flush_prompt_def)

lemma fail_running_kept: "fail_running now e is C = Inr C' \<Longrightarrow> batch_kept C C'"
proof (induction "is" arbitrary: C)
  case (Cons i "is")
  show ?case
  proof (cases "is_processing (slots C ! i)")
    case True
    with Cons.prems obtain C1 where r: "reject_slot now e ERROR_SERVER i C = Inr C1"
      "(let (s, ops) = slot_prompt_clear (slots C1 ! i) in fail_running now e is (log_ops ops (set_slot i s C1))) = Inr C'"
      by (simp add: rbind_Inr_iff) blast
    obtain s ops where 1: "reject_slot now e ERROR_SERVER i C = Inr C1"
      "slot_prompt_clear (slots C1 ! i) = (s, ops)" "fail_running now e is (log_ops ops (set_slot i s C1)) = Inr C'"
      using r by (cases "slot_prompt_clear (slots C1 ! i)") auto
    have "same_job (slots C1 ! i) s" using same_job_clear [of "slots C1 ! i"] 1(2) by simp
    then have "batch_kept C1 (log_ops ops (set_slot i s C1))" by (intro batch_kept_same_job [where i = i and s = s]) simp_all
    then show ?thesis using reject_slot_kept [OF 1(1)] Cons.IH [OF 1(3)] batch_kept_trans by blast
  qed (use Cons in simp)
qed (simp add: batch_rel.kept_refl)

lemma try_clear_kept: "try_clear_idle_slots C = (b, C') \<Longrightarrow> batch_kept C C'"
  by (auto simp: try_clear_idle_slots_def slot_prompt_clear_def batch_rel.kept_refl same_job_def
      intro!: batch_kept_same_job split: if_splits option.splits)

lemma upd_stats_kept: "batch_kept C (upd_stats i f C)"
  by (auto simp: upd_stats_def Let_def batch_rel.kept_refl same_job_def intro!: batch_kept_set_slot)

lemma metrics_post_decode_kept: "batch_kept C (metrics_post_decode now off n out C)"
proof -
  have step: "batch_kept C (fold (\<lambda>e. upd_stats (g e) f) es C)" for f g and es :: "batch_token list" and C :: "'a server_context"
    by (rule batch_rel.fold_ok) (rule upd_stats_kept)
  have same: "batch_kept C1 C2" if "slots C2 = slots C1" "batch C2 = batch C1" for C1 C2 :: "'a server_context"
    using that by (rule batch_kept_slots)
  show ?thesis
    unfolding metrics_post_decode_def Let_def
    by (intro batch_kept_trans [OF same batch_kept_trans [OF step batch_kept_trans [OF same step]]]) simp_all
qed

lemma hand_over_kept: "hand_over E i js C = Inr C' \<Longrightarrow> batch_kept C C'"
proof (induction js arbitrary: C)
  case (Cons j js)
  from Cons.prems obtain c ops where 1: "copy_state_to (ue_mtmd (de_upd E)) (slots C ! i) (slots C ! j) = Inr (c, ops)"
    "hand_over E i js (log_ops ops (set_slot j (c\<lparr>state := SLOT_DONE_PROMPT\<rparr>) C)) = Inr C'"
    by (auto simp: rbind_Inr_iff split: if_splits)
  have "task c = task (slots C ! j) \<and> task c \<noteq> None \<and> sl_id c = sl_id (slots C ! j)"
    using 1(1) by (auto simp: copy_state_to_def init_sampler_def rbind_Inr_iff Let_def split: if_splits option.splits)
  then have "batch_kept C (log_ops ops (set_slot j (c\<lparr>state := SLOT_DONE_PROMPT\<rparr>) C))"
    unfolding batch_kept_def by (intro conjI round_ok_update [where i = j and s = "c\<lparr>state := SLOT_DONE_PROMPT\<rparr>"])
      (auto simp: slot_ok_def is_processing_def)
  then show ?case using Cons.IH [OF 1(2)] batch_kept_trans by blast
qed (simp add: batch_rel.kept_refl)

lemma start_children_kept: "start_children E is C = Inr C' \<Longrightarrow> batch_kept C C'"
proof (induction "is" arbitrary: C)
  case (Cons i "is")
  then show ?case
  proof (cases "state (slots C ! i) = SLOT_DONE_PROMPT \<and> (\<exists>t. task (slots C ! i) = Some t \<and> is_parent t)")
    case True
    with Cons.prems obtain js C1 where "hand_over E i js C = Inr C1" "start_children E is C1 = Inr C'"
      by (auto simp: rbind_Inr_iff)
    then show ?thesis using hand_over_kept Cons.IH batch_kept_trans by blast
  next
    case False
    then have "start_children E is C = Inr C'" using Cons.prems by (auto split: if_splits option.splits)
    then show ?thesis by (rule Cons.IH)
  qed
qed (simp add: batch_rel.kept_refl)

lemma start_children_ok: "res_ok batch_kept C (start_children E is C)"
  by (rule res_okI) (rule start_children_kept)

lemma pair_ok_state: "batch_kept C C1 \<Longrightarrow> pair_ok batch_kept C (r, C1)"
  by (simp add: pair_ok_def)

definition decode_entry :: "int \<Rightarrow> batch_view \<Rightarrow> 'c server_context \<Rightarrow> 'c server_context" where
  "decode_entry t0 v C = log_ops [Decode_view (fst v) (snd v)] ((metrics_pre_decode t0 C)\<lparr>n_empty_consecutive := 0\<rparr>)"

lemma decode_parts:
  assumes "batch_size (batch C) \<noteq> 0" "\<not> (de_spec E \<and> has_embd (batch C) \<and> de_embd_mismatch E)"
  shows "decode E t0 t1 n_batch off v C =
     (if de_decode E (dev C) v \<noteq> 0 then decode_failed t1 n_batch (de_decode E (dev C) v) (decode_entry t0 v C)
      else decode_done E t1 n_batch off v (list_ex bt_output (take (length (fst v)) (drop (nat off) (bt_tokens (batch C)))))
             (decode_entry t0 v C))"
  using assms by (auto simp: decode_def decode_entry_def metrics_pre_decode_def Let_def)

lemma decode_entry_same [simp]: "slots (decode_entry t0 v C) = slots C" "batch (decode_entry t0 v C) = batch C"
  by (simp_all add: decode_entry_def)

lemma decode_failed_kept: "pair_ok batch_kept C (decode_failed t1 nb ret C)"
proof (cases "decode_error nb ret = []")
  case True
  then show ?thesis using try_clear_kept [of C] by (cases "try_clear_idle_slots C") (simp add: decode_failed_def pair_ok_def)
next
  case False
  then show ?thesis using fail_running_kept [of t1 "decode_error nb ret" "[0..<length (slots C)]" C]
    by (cases "fail_running t1 (decode_error nb ret) [0..<length (slots C)] C")
      (simp_all add: decode_failed_def pair_ok_def batch_rel.kept_refl)
qed

lemma decode_done_kept: "pair_ok batch_kept C (decode_done E t1 nb off v out C)"
proof -
  let ?C = "metrics_post_decode t1 off (length (fst v)) out C"
  have start: "pair_ok batch_kept C1 (then_do (commit (start_children E js C1) C1) (\<lambda>_ C. (Inr (True, nb), C)))" for js C1
    by (intro batch_rel.then_do_ok batch_rel.commit_ok start_children_ok batch_rel.pure_ok)
  have logged: "batch_kept ?C (if de_spec E then log_ops [Spec_process] ?C else ?C)"
    by (simp add: batch_kept_log batch_rel.kept_refl)
  have "pair_ok batch_kept ?C (decode_done E t1 nb off v out C)"
    unfolding decode_done_def Let_def
    using batch_rel.pair_ok_from [OF logged start] by (simp add: pair_ok_state [OF batch_kept_log])
  then show ?thesis by (rule batch_rel.pair_ok_from [OF metrics_post_decode_kept])
qed

lemma decode_kept: "pair_ok batch_kept C (decode E t0 t1 nb off v C)"
proof (cases "batch_size (batch C) \<noteq> 0 \<and> \<not> (de_spec E \<and> has_embd (batch C) \<and> de_embd_mismatch E)")
  case True
  have "batch_kept C (decode_entry t0 v C)" by (rule batch_kept_slots) simp_all
  then show ?thesis using True
    by (simp add: decode_parts batch_rel.pair_ok_from decode_failed_kept decode_done_kept)
next
  case False
  then show ?thesis
    by (auto simp: decode_def Let_def metrics_pre_decode_def intro!: pair_ok_state batch_kept_slots)
qed

end
