(* ===== verification/Round.thy ===== *)
theory Round
  imports Frames
begin

text \<open>
  What a round of the server guarantees: \<open>update_slots\<close> returns whatever the library answers, it leaves
  the slots well formed, and the verification of a draft extends the prompt by the accepted tokens.
\<close>

section \<open>The loop over the views ends\<close>

definition idle_prompts :: "'c server_context \<Rightarrow> nat" where
  "idle_prompts C = length (filter (\<lambda>s. \<not> is_processing s \<and> prompt_n_tokens (prompt s) > 0) (slots C))"

lemma length_filter_update:
  "i < length xs \<Longrightarrow> P (xs ! i) \<Longrightarrow> \<not> P x \<Longrightarrow> Suc (length (filter P (xs[i := x]))) = length (filter P xs)"
proof (induction xs arbitrary: i)
  case (Cons y ys)
  then show ?case by (cases i) auto
qed simp

lemma prompt_cleared [simp]: "prompt_n_tokens (prompt_clear p) = 0"
  by (simp add: prompt_n_tokens_def prompt_clear_def st_size_def st_clear_def)

lemma try_clear_less:
  assumes "try_clear_idle_slots C = (b, C')"
  shows "if b then idle_prompts C' < idle_prompts C else C' = C"
proof (cases b)
  case True
  then obtain i where i: "find (\<lambda>i. \<not> is_processing (slots C ! i) \<and> prompt_n_tokens (prompt (slots C ! i)) > 0) [0..<length (slots C)] = Some i"
    and C': "slots C' = (slots C)[i := fst (slot_prompt_clear (slots C ! i))]"
    using assms by (auto simp: try_clear_idle_slots_def split: if_splits option.splits prod.splits)
  have "i < length (slots C)" "\<not> is_processing (slots C ! i)" "prompt_n_tokens (prompt (slots C ! i)) > 0"
    using find_upt_Some [OF i] by simp_all
  then have "Suc (idle_prompts C') = idle_prompts C"
    unfolding idle_prompts_def C' by (intro length_filter_update) (simp_all add: slot_prompt_clear_def)
  then show ?thesis using True by simp
qed (use assms in \<open>auto simp: try_clear_idle_slots_def split: if_splits option.splits prod.splits\<close>)

lemma idle_prompts_slots: "slots C' = slots C \<Longrightarrow> idle_prompts C' = idle_prompts C"
  by (simp add: idle_prompts_def)

lemma decode_retry:
  assumes "decode E t0 t1 nb off v C = (Inr (False, nb'), C')" "1 \<le> nb"
  shows "idle_prompts C' + nat nb' < idle_prompts C + nat nb"
proof -
  have ok: "batch_size (batch C) \<noteq> 0 \<and> \<not> (de_spec E \<and> has_embd (batch C) \<and> de_embd_mismatch E)"
    using assms(1) by (auto simp: decode_def Let_def metrics_pre_decode_def split: if_splits)
  have "\<not> decode_done E t1 nb off v out C1 = (Inr (False, nb'), C')" for out C1
    by (auto simp: decode_done_def Let_def then_do_Inr_iff)
  then have f: "decode_failed t1 nb (de_decode E (dev C) v) (decode_entry t0 v C) = (Inr (False, nb'), C')"
    using assms(1) ok by (auto simp: decode_parts split: if_splits)
  obtain b C1 where c: "try_clear_idle_slots (decode_entry t0 v C) = (b, C1)" by (cases "try_clear_idle_slots (decode_entry t0 v C)")
  have "decode_error nb (de_decode E (dev C) v) = []"
    using f by (cases "fail_running t1 (decode_error nb (de_decode E (dev C) v)) [0..<length (slots (decode_entry t0 v C))] (decode_entry t0 v C)")
      (simp_all add: decode_failed_def split: if_splits)
  then have "(False, nb', C') = (False, if b then nb else nb sdiv 2, C1)"
    using f c by (simp only: decode_failed_def prod.case Let_def not_True_eq_False if_False prod.inject sum.inject)
      (simp only: simp_thms if_False prod.inject sum.inject)
  then have eq: "nb' = (if b then nb else nb sdiv 2)" "C' = C1" by simp_all
  have same: "idle_prompts (decode_entry t0 v C) = idle_prompts C" by (rule idle_prompts_slots) simp
  show ?thesis
  proof (cases b)
    case True
    then show ?thesis using try_clear_less [OF c] unfolding eq same by simp
  next
    case False
    have "nat (nb sdiv 2) < nat nb" using assms(2) by (simp add: signed_divide_int_def)
    then show ?thesis using try_clear_less [OF c] False same unfolding eq by (simp only: if_False)
  qed
qed

lemma get_view_Inr: "get_view off n b = Inr v \<Longrightarrow> 0 \<le> off \<and> 1 \<le> n \<and> off + n \<le> batch_size b"
  by (auto simp: get_view_def split: if_splits)

lemma batch_kept_batch: "batch_kept C C' \<Longrightarrow> batch C' = batch C"
  by (simp add: batch_kept_def)

text \<open>No exception leaves a handler that reports to the clients.\<close>

definition no_throw :: "'a result \<Rightarrow> bool" where
  "no_throw r \<longleftrightarrow> (\<forall>e. r \<noteq> Inl (Throw e))"

lemma no_throw_simps [simp]: "no_throw (Inr x)" "no_throw (Inl Abort)" "\<not> no_throw (Inl (Throw e))"
  by (simp_all add: no_throw_def)

lemma no_throw_bind: "no_throw r \<Longrightarrow> (\<And>x. r = Inr x \<Longrightarrow> no_throw (f x)) \<Longrightarrow> no_throw (rbind r f)"
  by (cases r) (auto simp: no_throw_def)

lemma release_no_throw: "no_throw (release now i C)"
  by (auto simp: release_def Let_def split: option.split prod.split)

lemma fail_slot_no_throw: "no_throw (fail_slot now e i C)"
  unfolding fail_slot_def
  by (rule no_throw_bind) (auto simp: slot_error_msg_def error_msg_def release_no_throw split: option.split)

lemma abort_slots_no_throw: "no_throw (abort_slots now e is C)"
  by (induction "is" arbitrary: C) (auto intro!: no_throw_bind fail_slot_no_throw)

lemma abort_all_no_throw: "no_throw (abort_all_slots now e C)"
  by (simp add: abort_all_slots_def abort_slots_no_throw)

lemma get_view_no_throw: "no_throw (get_view off n b)"
  by (simp add: get_view_def)

lemma decode_loop_returns: "\<exists>res. decode_loop E clk r off nb C = Some res \<and> no_throw res \<and> res_ok batch_kept C res"
proof (induction "(nat (batch_size (batch C) - off), idle_prompts C + nat nb)" arbitrary: r off nb C
    rule: wf_induct_rule [OF wf_lex_prod [OF wf_less_than wf_less_than]])
  case (1 off nb C r)
  let ?n = "min nb (batch_size (batch C) - off)" and ?t0 = "clk (2 * r)" and ?t1 = "clk (2 * r + 1)"
  have later: "\<exists>res. decode_loop E clk r' off' nb' C1 = Some res \<and> no_throw res \<and> res_ok batch_kept C res"
    if "batch_kept C C1" "nat (batch_size (batch C1) - off') < nat (batch_size (batch C) - off)
      \<or> off' = off \<and> idle_prompts C1 + nat nb' < idle_prompts C + nat nb" for r' off' nb' C1
  proof -
    have "((nat (batch_size (batch C1) - off'), idle_prompts C1 + nat nb'), nat (batch_size (batch C) - off), idle_prompts C + nat nb)
        \<in> less_than <*lex*> less_than"
      using that batch_kept_batch [OF that(1)] by auto
    from 1 [OF this] obtain res where "decode_loop E clk r' off' nb' C1 = Some res" "no_throw res" "res_ok batch_kept C1 res"
      by blast
    then show ?thesis using that(1) batch_kept_trans by (auto simp: res_ok_def)
  qed
  have aborted: "no_throw (abort_all_slots t e C1) \<and> res_ok batch_kept C (abort_all_slots t e C1)" if "batch_kept C C1" for t e C1
    using abort_all_no_throw batch_rel.abort_all_ok [of C1 t e] batch_kept_trans [OF that] by (auto simp: res_ok_def)
  have abort: "res_ok batch_kept C (Inl e)" for e by (simp add: res_ok_def)
  show ?case
  proof (cases "off < batch_size (batch C)")
    case False
    then show ?thesis by (subst decode_loop.simps) (simp add: res_ok_def batch_rel.kept_refl)
  next
    case more: True
    show ?thesis
    proof (cases "get_view off ?n (batch C)")
      case (Inl e)
      then have "e = Abort" using get_view_no_throw [of off ?n "batch C"] by (cases e) simp_all
      then show ?thesis using more Inl abort by (subst decode_loop.simps) (simp add: Let_def)
    next
      case (Inr v)
      note n = get_view_Inr [OF Inr]
      obtain d C1 where d: "decode E ?t0 ?t1 nb off v C = (d, C1)" by (cases "decode E ?t0 ?t1 nb off v C")
      have k: "batch_kept C C1" if "d \<noteq> Inl Abort" using decode_kept [of C E ?t0 ?t1 nb off v] d that by (simp add: pair_ok_def)
      have loop: "decode_loop E clk r off nb C = (case d of
             Inl Abort \<Rightarrow> Some (Inl Abort)
           | Inl (Throw e) \<Rightarrow> Some (abort_all_slots ?t1 (''decode() failed: '' @ e) C1)
           | Inr (ok, nb') \<Rightarrow>
               if \<not> ok then decode_loop E clk (Suc r) off nb' C1
               else
                 (case post_decode E ?t1 off ?n v C1 of
                    Inl Abort \<Rightarrow> Some (Inl Abort)
                  | Inl (Throw e) \<Rightarrow> Some (abort_all_slots ?t1 (''post_decode() failed: '' @ e) C1)
                  | Inr C \<Rightarrow> decode_loop E clk (Suc r) (off + ?n) (ue_n_batch (de_upd E)) C))"
        using more Inr d by (subst decode_loop.simps) (simp add: Let_def split: sum.split failure.split)
      show ?thesis
      proof (cases d)
        case (Inl f)
        then show ?thesis using loop aborted [OF k] abort by (cases f) auto
      next
        case res: (Inr p)
        obtain ok nb' where p: "p = (ok, nb')" by (cases p)
        have k: "batch_kept C C1" using k res by simp
        show ?thesis
        proof (cases ok)
          case False
          have "decode E ?t0 ?t1 nb off v C = (Inr (False, nb'), C1)" using d res p False by simp
          then have "idle_prompts C1 + nat nb' < idle_prompts C + nat nb" by (rule decode_retry) (use n in simp)
          then show ?thesis using loop res p False later [OF k, of off nb' "Suc r"] by simp
        next
          case True
          show ?thesis
          proof (cases "post_decode E ?t1 off ?n v C1")
            case (Inl f)
            then show ?thesis using loop res p True aborted [OF k] abort by (cases f) auto
          next
            case post: (Inr C2)
            have k2: "batch_kept C C2" by (rule batch_kept_trans [OF k res_okD [OF post_decode_kept post]])
            have "nat (batch_size (batch C2) - (off + ?n)) < nat (batch_size (batch C) - off)"
              using n batch_kept_batch [OF k2] by auto
            then have "\<exists>res. decode_loop E clk (Suc r) (off + ?n) (ue_n_batch (de_upd E)) C2 = Some res \<and> no_throw res
                \<and> res_ok batch_kept C res"
              by (intro later [OF k2] disjI1)
            then show ?thesis unfolding loop res p post using True
              by (simp only: sum.case prod.case not_True_eq_False if_False simp_thms)
          qed
        qed
      qed
    qed
  qed
qed

section \<open>Filling the batch keeps the slots well formed\<close>

lemma round_ok_set_slot: "same_job (slots C ! i) s \<Longrightarrow> round_ok C (set_slot i s C)"
  by (rule round_ok_same_job) simp_all

lemma round_ok_batch: "batch_kept C C' \<Longrightarrow> round_ok C C'"
  by (simp add: batch_kept_def)

lemmas round_ok_ends = round_ok_batch [OF reject_slot_kept] round_ok_batch [OF finish_slot_kept]

lemma round_ok_log_set_slot: "same_job (slots C ! i) s \<Longrightarrow> round_ok C (log_ops ops (set_slot i s C))"
  by (rule round_ok_same_job) simp_all

lemma shift_slot_ok: "res_ok round_ok C (shift_slot E now i C)"
proof (rule res_okI)
  fix C'
  assume "shift_slot E now i C = Inr C'"
  then show "round_ok C C'"
    unfolding shift_slot_def Let_def
    by (auto simp: rbind_Inr_iff slots_kept.kept_refl same_job_def split: if_splits option.splits
        intro: round_ok_ends intro!: round_ok_log_set_slot)
qed

lemma begin_draft_job: "begin_draft E i C = Inr (r, C') \<Longrightarrow> round_ok C C'"
  by (auto simp: begin_draft_def Let_def rbind_Inr_iff slots_kept.kept_refl same_job_def
      intro!: round_ok_set_slot split: if_splits)

lemma select_generating_ok: "select_generating E is gen dr C = Inr (gen', dr', C') \<Longrightarrow> round_ok C C'"
proof (induction "is" arbitrary: gen dr C)
  case (Cons i "is")
  let ?s = "slots C ! i"
  have IH: "round_ok C C'" if "select_generating E is g d C1 = Inr (gen', dr', C')" "round_ok C C1" for g d C1
    using Cons.IH [OF that(1)] that(2) round_ok_trans by blast
  show ?case
  proof (cases "state ?s = SLOT_GENERATING")
    case True
    have "rbind (case slot_batched (batch C) of
              None \<Rightarrow> Inr (True, C\<lparr>batch := (batch C)\<lparr>slot_batched := Some (int i)\<rparr>\<rparr>)
            | Some k \<Rightarrow> rbind (can_batch_with ?s (slots C ! nat k)) (\<lambda>ok. Inr (ok, C))) (\<lambda>(ok, C).
           if \<not> ok then select_generating E is gen dr C
           else rbind (if has_spec ?s then begin_draft E i C else Inr (None, C)) (\<lambda>(r, C).
             select_generating E is (gen @ [i]) (dr @ (case r of None \<Rightarrow> [] | Some r \<Rightarrow> [r])) C)) = Inr (gen', dr', C')"
      using Cons.prems True by (simp add: Let_def)
    then obtain ok C1 where m: "(case slot_batched (batch C) of
              None \<Rightarrow> Inr (True, C\<lparr>batch := (batch C)\<lparr>slot_batched := Some (int i)\<rparr>\<rparr>)
            | Some k \<Rightarrow> rbind (can_batch_with ?s (slots C ! nat k)) (\<lambda>ok. Inr (ok, C))) = Inr (ok, C1)"
      and k: "(if \<not> ok then select_generating E is gen dr C1
           else rbind (if has_spec ?s then begin_draft E i C1 else Inr (None, C1)) (\<lambda>(r, C).
             select_generating E is (gen @ [i]) (dr @ (case r of None \<Rightarrow> [] | Some r \<Rightarrow> [r])) C)) = Inr (gen', dr', C')"
      unfolding rbind_Inr_iff by (elim exE conjE) (simp only: split_paired_all prod.case)
    have C1: "round_ok C C1"
      using m by (cases "slot_batched (batch C)") (auto simp: rbind_Inr_iff round_ok_slots)
    show ?thesis
    proof (cases ok)
      case False
      then show ?thesis using k IH C1 by simp
    next
      case True
      then obtain r C2 where "(if has_spec ?s then begin_draft E i C1 else Inr (None, C1)) = Inr (r, C2)"
        "select_generating E is (gen @ [i]) (dr @ (case r of None \<Rightarrow> [] | Some r \<Rightarrow> [r])) C2 = Inr (gen', dr', C')"
        using k by (auto simp: rbind_Inr_iff)
      moreover have "round_ok C1 C2"
        using calculation(1) begin_draft_job by (cases "has_spec ?s") (auto simp: slots_kept.kept_refl)
      ultimately show ?thesis using IH round_ok_trans [OF C1] by blast
    qed
  next
    case False
    then show ?thesis using Cons by simp
  qed
qed (simp add: slots_kept.kept_refl)

lemma take_drafts_ok: "take_drafts E lg rs C = Inr C' \<Longrightarrow> round_ok C C'"
proof (induction rs arbitrary: C)
  case (Cons r rs)
  then obtain C1 where 1: "take_draft E lg r C = Inr C1" "take_drafts E lg rs C1 = Inr C'" by (auto simp: rbind_Inr_iff)
  then obtain s where "slots C1 = (slots C)[dr_slot r := s]" "same_job (slots C ! dr_slot r) s"
    by (auto simp: take_draft_def Let_def same_job_def split: if_splits option.splits)
  then show ?case using Cons.IH [OF 1(2)] round_ok_same_job round_ok_trans by blast
qed (simp add: slots_kept.kept_refl)

lemma map_sum_slot: "map_sum id (\<lambda>(ok, b'). (ok, s2, b')) r = Inr (ok, s1, b1) \<Longrightarrow> s1 = s2"
  by (cases r) auto

lemma handle_last_job:
  assumes "handle_last_sampled_token M s b = Inr (s', b')"
  shows "same_job s s'"
proof -
  define pre where "pre pos0 = (if spec_draft s = [] then
          map_sum id (\<lambda>(ok, b'). (ok, s\<lparr>i_batch := batch_size b\<rparr>, b'))
            (if inp_embd s \<noteq> [] then batch_add_embd (sl_id s) (inp_embd s) pos0 True False b
             else batch_add (sl_id s) (sampled s) pos0 True False b)
        else if spec_i_batch s \<noteq> [] then Inl Abort
        else
          map_sum id (\<lambda>(ok, b'). (ok, s\<lparr>spec_i_batch := map (\<lambda>i. batch_size b + int i) [0..<length (spec_draft s) + 1]\<rparr>, b'))
            (batch_add_all (sl_id s) (sampled s # spec_draft s) pos0 b))" for pos0
  have pre: "same_job s s1" if "pre pos0 = Inr (ok, s1, b1)" for pos0 ok s1 b1
    using that by (auto simp: pre_def same_job_def dest!: map_sum_slot split: if_splits)
  from assms obtain pos0 ok s1 b1 st where "pre pos0 = Inr (ok, s1, b1)"
    "s' = s1\<lparr>prompt := (prompt s1)\<lparr>pr_tokens := st_insert (spec_draft s1) st\<rparr>\<rparr>"
    unfolding handle_last_sampled_token_def pre_def [symmetric] by (auto simp: rbind_Inr_iff split: if_splits)
  then show ?thesis using pre by (auto simp: same_job_def)
qed

lemma push_sampled_ok: "res_ok round_ok C (push_sampled E i C)"
proof (rule res_okI)
  fix C'
  assume "push_sampled E i C = Inr C'"
  then obtain s b where h: "handle_last_sampled_token (ue_mtmd E) (slots C ! i) (batch C) = Inr (s, b)"
    and C': "C' = (set_slot i s C)\<lparr>batch := b\<rparr>"
    by (auto simp: push_sampled_def rbind_Inr_iff)
  show "round_ok C C'" by (rule round_ok_same_job [OF _ handle_last_job [OF h]]) (simp add: C')
qed

lemma reuse_prefix_job: "reuse_prefix E t s = Inr (n, s', ops) \<Longrightarrow> same_job s s'"
  by (auto simp: reuse_prefix_def Let_def rbind_Inr_iff set_prompt_toks_def same_job_def split: if_splits prod.splits)

lemma keep_cached_job:
  assumes "keep_cached E lg t s = Inr (n, s', ops)"
  shows "same_job s s'"
proof -
  from assms obtain s1 where "s' = s1" "s1 = s \<or> (\<exists>n s0 ops p. reuse_prefix E t s = Inr (n, s0, ops) \<and> s1 = s0\<lparr>prompt := p\<rparr>)"
    by (auto simp: keep_cached_def Let_def rbind_Inr_iff split: if_splits)
  then show ?thesis using reuse_prefix_job same_job_trans by fastforce
qed

lemma cut_prompt_ok: "same_job (slots C ! i) s \<Longrightarrow> pair_ok round_ok C (cut_prompt n s ops i C)"
proof -
  assume s: "same_job (slots C ! i) s"
  let ?s = "s\<lparr>stats := (stats s)\<lparr>n_prompt_cached := n, n_prompt_processed := 0\<rparr>\<rparr>"
  let ?C = "(log_ops ops (set_slot i ?s C))\<lparr>metrics := add_prompt_cached n (metrics C)\<rparr>"
  have 1: "round_ok C ?C" using s by (intro round_ok_same_job [where i = i and s = ?s]) (simp_all add: same_job_def)
  have 2: "round_ok C (set_slot i (?s\<lparr>prompt := p\<rparr>) ?C)" for p
    using s by (intro round_ok_same_job [where i = i and s = "?s\<lparr>prompt := p\<rparr>"]) (simp_all add: same_job_def)
  show ?thesis using 1 2
    by (cases "keep_first n (pr_tokens (prompt s))") (simp_all add: cut_prompt_def Let_def pair_ok_def commit_def)
qed

lemma announce_prompt_ok: "res_ok round_ok C (announce_prompt now t i C)"
  by (auto simp: res_ok_def announce_prompt_def slots_kept.kept_refl intro: round_ok_slots dest: send_partial_frame split: if_splits)

lemma start_prompt_ok:
  assumes "task (slots C ! i) \<noteq> None"
  shows "pair_ok round_ok C (start_prompt E now t i C)"
proof -
  have go: "res_ok round_ok C (rbind (update_prompt_start now (stats (slots C ! i))) (\<lambda>st.
                Inr (set_slot i ((slots C ! i)\<lparr>stats := st, state := SLOT_PROCESSING_PROMPT\<rparr>) C)))"
    using assms by (auto simp: res_ok_def rbind_Inr_iff slot_ok_def is_processing_def intro!: round_ok_update [where i = i and s = "(slots C ! i)\<lparr>stats := _, state := SLOT_PROCESSING_PROMPT\<rparr>"])
  have ends: "res_ok round_ok C1 (reject_slot now e ty i C1)" "res_ok round_ok C1 (finish_slot G now i C1)" for C1 e ty G
    using round_ok_ends by (auto simp: res_ok_def)
  have fin: "pair_ok round_ok C1 (then_do (commit r C1) (\<lambda>_ C. (Inr b, C)))" if "res_ok round_ok C1 r" for C1 b r
    using that by (intro slots_kept.then_do_ok slots_kept.commit_ok slots_kept.pure_ok)
  have keep: "pair_ok round_ok C1 (then_do (keep_cached E (dev C1) t (slots C1 ! i), C1) (\<lambda>(n, s, ops) C.
           then_do (cut_prompt n s ops i C) (\<lambda>_ C. then_do (commit (announce_prompt now t i C) C) (\<lambda>_ C. (Inr True, C)))))" for C1
  proof (rule slots_kept.then_do_ok [OF slots_kept.pure_ok], clarify)
    fix n s ops C2
    assume "keep_cached E (dev C1) t (slots C1 ! i) = Inr (n, s, ops)" "round_ok C1 C1"
    then have "same_job (slots C1 ! i) s" by (intro keep_cached_job)
    then show "pair_ok round_ok C1 (then_do (cut_prompt n s ops i C1) (\<lambda>_ C.
        then_do (commit (announce_prompt now t i C) C) (\<lambda>_ C. (Inr True, C))))"
      by (intro slots_kept.then_do_ok [OF cut_prompt_ok] fin announce_prompt_ok)
  qed
  show ?thesis
    unfolding start_prompt_def
  proof (rule slots_kept.then_do_ok [OF slots_kept.commit_ok [OF go]])
    fix C1
    show "pair_ok round_ok C1 (if toks (tokens t) = [] then
       then_do (commit (finish_slot (ce_gen (ue_ctx E)) now i C1) C1) (\<lambda>_ C. (Inr False, C))
     else then_do (prompt_error E t (slots C1 ! i), C1) (\<lambda>err C.
       case err of
         Some (msg, ty) \<Rightarrow> then_do (commit (reject_slot now msg ty i C) C) (\<lambda>_ C. (Inr False, C))
       | None \<Rightarrow>
           then_do (keep_cached E (dev C) t (slots C ! i), C) (\<lambda>(n, s, ops) C.
           then_do (cut_prompt n s ops i C) (\<lambda>_ C.
           then_do (commit (announce_prompt now t i C) C) (\<lambda>_ C. (Inr True, C))))))"
    proof (cases "toks (tokens t) = []")
      case True
      then show ?thesis by (simp add: fin ends(2))
    next
      case False
      show ?thesis
        unfolding if_not_P [OF False]
      proof (rule slots_kept.then_do_ok [OF slots_kept.pure_ok])
        fix err C2
        show "pair_ok round_ok C2 (case err of
         Some (msg, ty) \<Rightarrow> then_do (commit (reject_slot now msg ty i C2) C2) (\<lambda>_ C. (Inr False, C))
       | None \<Rightarrow>
           then_do (keep_cached E (dev C2) t (slots C2 ! i), C2) (\<lambda>(n, s, ops) C.
           then_do (cut_prompt n s ops i C) (\<lambda>_ C.
           then_do (commit (announce_prompt now t i C) C) (\<lambda>_ C. (Inr True, C)))))"
          using keep by (cases err) (auto simp: fin ends(1))
      qed
    qed
  qed
qed

lemma prepare_memory_ok: "res_ok round_ok C (prepare_memory E i C)"
proof (rule res_okI)
  fix C'
  assume "prepare_memory E i C = Inr C'"
  then obtain ops where d: "disable_alora E i (log_ops ops C) = Inr C'"
    by (auto simp: prepare_memory_def rbind_Inr_iff)
  obtain l where "slots C' = (slots C)[i := (slots C ! i)\<lparr>lora := l\<rparr>]" using disable_alora_frame(1) [OF d] by auto
  then show "round_ok C C'" by (rule round_ok_same_job) (simp add: same_job_def)
qed

lemma round_ok_stats: "round_ok C (set_slot i ((slots C ! i)\<lparr>stats := st\<rparr>) C)"
  by (rule round_ok_set_slot) (simp add: same_job_def)

lemma media_chunks_ok: "pair_ok round_ok C (media_chunks E now t i any C)"
proof (induction E now t i any C rule: media_chunks.induct)
  case (1 E now t i any C)
  let ?s = "slots C ! i" and ?n = "prompt_n_tokens (prompt (slots C ! i))"
  let ?C1 = "metrics_pre_decode now C"
  obtain res n_out where r: "ue_chunk E (dev ?C1) (sl_id ?s) ?n = (res, n_out)" by (cases "ue_chunk E (dev ?C1) (sl_id ?s) ?n")
  let ?st = "(stats ?s)\<lparr>n_prompt_processed := n_prompt_processed (stats ?s) + n_out\<rparr>"
  let ?C2 = "set_slot i (?s\<lparr>stats := ?st\<rparr>) (log_ops [Decode_chunk (sl_id ?s) ?n] (metrics_queue_prompt n_out ?C1))"
  have C1: "round_ok C ?C1" by (simp add: round_ok_slots)
  have C2: "round_ok C ?C2" by (rule round_ok_same_job [where i = i and s = "?s\<lparr>stats := ?st\<rparr>"]) (simp_all add: same_job_def)
  show ?case
  proof (cases "media_here t ?n")
    case False
    then show ?thesis by (subst media_chunks.simps) (simp add: slots_kept.pure_ok)
  next
    case here: True
    show ?thesis
    proof (cases "res = 0")
      case False
      have "res_ok round_ok ?C1 (reject_slot now ''failed to process mtmd chunk'' ERROR_SERVER i ?C1)"
        using round_ok_ends(1) by (auto simp: res_ok_def)
      then have "pair_ok round_ok C (then_do (commit (reject_slot now ''failed to process mtmd chunk'' ERROR_SERVER i ?C1) ?C1)
          (\<lambda>_ C. (Inr (False, any), C)))"
        by (intro slots_kept.pair_ok_from [OF C1] slots_kept.then_do_ok slots_kept.commit_ok slots_kept.pure_ok)
      then show ?thesis using here r False by (subst media_chunks.simps) (simp add: Let_def)
    next
      case True
      have eq: "media_chunks E now t i any C =
          then_do (set_prompt_last now ?st, ?C2) (\<lambda>st C.
                   then_do (rbind (find_chunk ?n (tokens t)) (\<lambda>c. push_back_placeholder (ue_mtmd E) c (pr_tokens (prompt ?s))),
                            set_slot i (?s\<lparr>stats := st\<rparr>) C) (\<lambda>ts C.
                     let C' = set_slot i (?s\<lparr>stats := st, prompt := (prompt ?s)\<lparr>pr_tokens := ts\<rparr>\<rparr>) C
                     in if prompt_n_tokens (prompt (slots C' ! i)) \<le> ?n then (Inl Abort, C')
                        else media_chunks E now t i True C'))"
        using here r True by (subst media_chunks.simps) (simp add: Let_def)
      show ?thesis
      proof (cases "set_prompt_last now ?st")
        case (Inl e)
        then show ?thesis unfolding eq using C2 by (simp add: pair_ok_def)
      next
        case st: (Inr st)
        let ?C3 = "set_slot i (?s\<lparr>stats := st\<rparr>) ?C2"
        have C3: "round_ok C ?C3"
          by (rule round_ok_same_job [where i = i and s = "?s\<lparr>stats := st\<rparr>"]) (simp_all add: same_job_def)
        show ?thesis
        proof (cases "rbind (find_chunk ?n (tokens t)) (\<lambda>c. push_back_placeholder (ue_mtmd E) c (pr_tokens (prompt ?s)))")
          case (Inl e)
          then show ?thesis unfolding eq using st C3 by (simp add: pair_ok_def)
        next
          case ts: (Inr ts)
          let ?C4 = "set_slot i (?s\<lparr>stats := st, prompt := (prompt ?s)\<lparr>pr_tokens := ts\<rparr>\<rparr>) ?C3"
          have C4: "round_ok C ?C4"
            by (rule round_ok_same_job [where i = i and s = "?s\<lparr>stats := st, prompt := (prompt ?s)\<lparr>pr_tokens := ts\<rparr>\<rparr>"])
              (simp_all add: same_job_def)
          show ?thesis
          proof (cases "prompt_n_tokens (prompt (slots ?C4 ! i)) \<le> ?n")
            case True
            then show ?thesis unfolding eq using st ts by (simp add: pair_ok_def)
          next
            case False
            then have "pair_ok round_ok ?C4 (media_chunks E now t i True ?C4)"
              using here True by (intro 1 [OF refl refl _ refl refl r [symmetric] _ refl refl refl]) simp_all
            then show ?thesis unfolding eq using st ts False slots_kept.pair_ok_from [OF C4] by (simp add: Let_def)
          qed
        qed
      qed
    qed
  qed
qed

lemma fill_batch_job: "fill_batch E P ck t ts s b = Inr (ok, s', b') \<Longrightarrow> same_job s s'"
proof (induction ts arbitrary: ck ok s b)
  case (Cons tok ts)
  have IH: "same_job s s'" if "map_sum id (\<lambda>(ok', y). (g \<and> ok', y)) (fill_batch E P c t ts (s\<lparr>prompt := p\<rparr>) b1) = Inr (ok, s', b')"
    for g p c b1
  proof (cases "fill_batch E P c t ts (s\<lparr>prompt := p\<rparr>) b1")
    case (Inr r)
    then show ?thesis using that Cons.IH [of c "s\<lparr>prompt := p\<rparr>" b1] same_job_trans [OF same_job_prompt] by (cases r) auto
  qed (use that in simp)
  from Cons.prems show ?case by (auto simp: rbind_Inr_iff Let_def split: if_splits dest!: IH)
qed simp

lemma end_prompt_ok: "res_ok round_ok C (end_prompt E t i C)"
proof (rule res_okI)
  fix C'
  assume "end_prompt E t i C = Inr C'"
  then obtain s b st k where s: "init_sampler ((slots C ! i)\<lparr>state := SLOT_DONE_PROMPT, stats := st, i_batch := k\<rparr>) = Inr s"
    and C': "C' = (set_slot i s C)\<lparr>batch := b\<rparr>"
    by (auto simp: end_prompt_def rbind_Inr_iff split: if_splits)
  have "task s \<noteq> None" using s by (auto simp: init_sampler_def Let_def split: option.splits if_splits)
  moreover have "state s = SLOT_DONE_PROMPT" "sl_id s = sl_id (slots C ! i)" using init_sampler_frame [OF s] by auto
  ultimately show "round_ok C C'"
    by (intro round_ok_update [where i = i and s = s]) (simp_all add: C' slot_ok_def is_processing_def)
qed

lemma maybe_checkpoint_ok: "res_ok round_ok C (maybe_checkpoint E t i n ck ended C)"
  by (auto simp: res_ok_def same_job_def dest!: maybe_checkpoint_frame intro!: round_ok_same_job)

lemma add_prompt_tokens_ok: "pair_ok round_ok C (add_prompt_tokens E t i n any C)"
proof -
  have ends: "res_ok round_ok C1 (if b then end_prompt E t i C1 else Inr C1)" for b C1
    by (cases b) (simp add: end_prompt_ok, simp add: res_ok_def slots_kept.kept_refl)
  have filled: "round_ok C1 ((set_slot i s C1)\<lparr>batch := b\<rparr>)" if "same_job (slots C1 ! i) s" for s b C1
    using that by (intro round_ok_same_job [where i = i and s = s]) simp_all
  show ?thesis
    unfolding add_prompt_tokens_def Let_def
  proof (rule slots_kept.then_do_ok [OF slots_kept.pure_ok], clarify)
    fix ok s b C1
    assume f: "fill_batch E (params_base C) (may_checkpoint E (params_base C) t) t
        (drop (prompt_n_tokens (prompt (slots C ! i))) (toks (tokens t))) (slots C ! i) (batch C) = Inr (ok, s, b)"
    show "pair_ok round_ok C (then_do (commit (if int (prompt_n_tokens (prompt s)) = task_n_tokens t
         then end_prompt E t i ((set_slot i s C)\<lparr>batch := b\<rparr>) else Inr ((set_slot i s C)\<lparr>batch := b\<rparr>)) ((set_slot i s C)\<lparr>batch := b\<rparr>))
       (\<lambda>_ C'. then_do (commit (maybe_checkpoint E t i (batch_size b - n) (may_checkpoint E (params_base C) t \<and> \<not> any)
             (int (prompt_n_tokens (prompt s)) = task_n_tokens t) C') C') (\<lambda>_ C. (Inr ok, C))))"
      by (rule slots_kept.pair_ok_from [OF filled [OF fill_batch_job [OF f], of b]])
        (intro slots_kept.then_do_ok slots_kept.commit_ok ends maybe_checkpoint_ok slots_kept.pure_ok)
  qed
qed

lemma continue_prompt_ok: "pair_ok round_ok C (continue_prompt E now t i n C)"
proof -
  have added: "pair_ok round_ok C1 (then_do (add_prompt_tokens E t i n any C1) (\<lambda>ok C. (Inr (ok, True), C)))" for any C1
    by (intro slots_kept.then_do_ok add_prompt_tokens_ok slots_kept.pure_ok)
  have media: "pair_ok round_ok C1 (then_do (media_chunks E now t i False C1) (\<lambda>(alive, any_media) C.
          if \<not> alive then (Inr (True, False), C)
          else then_do (add_prompt_tokens E t i n any_media C) (\<lambda>ok C. (Inr (ok, True), C))))" for C1
    by (intro slots_kept.then_do_ok [OF media_chunks_ok]) (auto simp: added slots_kept.pure_ok)
  have prep: "pair_ok round_ok C1 (then_do (commit (prepare_memory E i C1) C1) (\<lambda>_ C.
          then_do (media_chunks E now t i False C) (\<lambda>(alive, any_media) C.
          if \<not> alive then (Inr (True, False), C)
          else then_do (add_prompt_tokens E t i n any_media C) (\<lambda>ok C. (Inr (ok, True), C)))))" for C1
    by (intro slots_kept.then_do_ok [OF slots_kept.commit_ok [OF prepare_memory_ok]] media)
  show ?thesis
    unfolding continue_prompt_def
    by (intro slots_kept.then_do_ok [OF slots_kept.pure_ok]) (auto simp: prep slots_kept.pure_ok)
qed

lemma prompt_step_ok: "pair_ok round_ok C (prompt_step E now add_ok i C)"
proof -
  let ?s = "slots C ! i"
  let ?mark = "\<lambda>C. if slot_batched (batch C) = None then C\<lparr>batch := (batch C)\<lparr>slot_batched := Some (int i)\<rparr>\<rparr> else C"
  have go: "pair_ok round_ok C (then_do (if state ?s = SLOT_STARTED then start_prompt E now t i C else (Inr True, C)) (\<lambda>go C.
        if \<not> go then (Inr add_ok, C)
        else then_do (continue_prompt E now t i n C) (\<lambda>(ok, done) C. (Inr (add_ok \<and> ok), if done then ?mark C else C))))"
    if "task ?s = Some t" for t n
  proof (rule slots_kept.then_do_ok)
    show "pair_ok round_ok C (if state ?s = SLOT_STARTED then start_prompt E now t i C else (Inr True, C))"
      using that by (simp add: start_prompt_ok slots_kept.pure_ok)
    fix go C1
    have "pair_ok round_ok C1 (then_do (continue_prompt E now t i n C1) (\<lambda>(ok, done) C. (Inr (add_ok \<and> ok), if done then ?mark C else C)))"
      by (rule slots_kept.then_do_ok [OF continue_prompt_ok]) (auto simp: pair_ok_def slots_kept.kept_refl round_ok_slots)
    then show "pair_ok round_ok C1 (if \<not> go then (Inr add_ok, C1)
        else then_do (continue_prompt E now t i n C1) (\<lambda>(ok, done) C. (Inr (add_ok \<and> ok), if done then ?mark C else C)))"
      by (simp add: slots_kept.pure_ok)
  qed
  have marked: "pair_ok round_ok C (Inr add_ok, ?mark C)" unfolding pair_ok_def by (simp add: round_ok_slots)
  have aborted: "pair_ok round_ok C (Inl Abort, C)" by (simp add: slots_kept.pure_ok)
  show ?thesis
  proof (cases "\<not> add_ok \<or> batch_size (batch C) \<ge> ue_n_batch E \<or> \<not> is_processing ?s")
    case True
    then show ?thesis by (simp add: prompt_step_def Let_def slots_kept.pure_ok)
  next
    case False
    show ?thesis
      unfolding prompt_step_def Let_def if_not_P [OF False]
    proof (rule slots_kept.then_do_ok [OF slots_kept.pure_ok])
      fix fits C1
      assume p: "(case slot_batched (batch C) of None \<Rightarrow> Inr True | Some k \<Rightarrow> can_batch_with ?s (slots C ! nat k), C) = (Inr fits, C1)"
      then have C1: "C1 = C" by simp
      show "pair_ok round_ok C1 (if \<not> fits \<or> state ?s = SLOT_WAIT_OTHER then (Inr add_ok, C1)
         else if state ?s = SLOT_PROCESSING_PROMPT \<or> state ?s = SLOT_STARTED then
                (case task ?s of
                   None \<Rightarrow> (Inl Abort, C1)
                 | Some t \<Rightarrow>
                     then_do (if state ?s = SLOT_STARTED then start_prompt E now t i C1 else (Inr True, C1)) (\<lambda>go C.
                        if \<not> go then (Inr add_ok, C)
                        else then_do (continue_prompt E now t i (batch_size (batch C1)) C) (\<lambda>(ok, done) C.
                          (Inr (add_ok \<and> ok), if done then ?mark C else C))))
              else (Inr add_ok, ?mark C1))"
        unfolding C1 using go marked aborted slots_kept.pure_ok [of C "Inr add_ok"]
        by (cases "task ?s") (auto simp del: then_do.simps)
    qed
  qed
qed

lemma prompt_steps_ok: "res_ok round_ok C (prompt_steps E now add_ok is C)"
proof (induction "is" arbitrary: add_ok C)
  case (Cons i "is")
  obtain r C1 where s: "prompt_step E now add_ok i C = (r, C1)" by (cases "prompt_step E now add_ok i C")
  have k: "r \<noteq> Inl Abort \<Longrightarrow> round_ok C C1" using prompt_step_ok [of C E now add_ok i] s by (simp add: pair_ok_def)
  show ?case
  proof (cases r)
    case (Inr ok)
    then show ?thesis using s k Cons.IH [of C1 ok] round_ok_trans by (auto simp: res_ok_def)
  next
    case (Inl e)
    show ?thesis
    proof (cases e)
      case (Throw m)
      then have k: "round_ok C C1" using k Inl by simp
      have "res_ok round_ok C1 (rbind (fail_slot now (''got exception: '' @ m) i C1) (prompt_steps E now add_ok is))"
        using round_ok_fail by (intro slots_kept.res_ok_bind Cons.IH) (auto simp: res_ok_def)
      then show ?thesis using s Inl Throw round_ok_trans [OF k] by (simp add: res_ok_def)
    qed (use s Inl in \<open>simp add: res_ok_def\<close>)
  qed
qed (simp add: res_ok_def slots_kept.kept_refl)

lemma pre_decode_ok: "res_ok round_ok C (pre_decode E now C)"
proof -
  have sel: "res_ok round_ok C1 (rbind (select_generating E is [] [] C1) f)"
    if "\<And>g d C2. res_ok round_ok C2 (f (g, d, C2))" for C1 f "is"
    using that select_generating_ok round_ok_trans by (fastforce simp: res_ok_def rbind_Inr_iff)
  have taken: "res_ok round_ok C1 (take_drafts E lg dr C1)" for C1 lg dr
    using take_drafts_ok by (auto simp: res_ok_def)
  have cleared: "res_ok round_ok C1 r" if "res_ok round_ok (C1\<lparr>batch := b\<rparr>) r" for C1 b r
    using that by (auto simp: res_ok_def round_ok_def)
  have last: "res_ok round_ok C1 (if b then prompt_steps E now True is C1 else Inr C1)" for C1 b "is"
    by (cases b) (simp add: prompt_steps_ok, simp add: res_ok_def slots_kept.kept_refl)
  show ?thesis
    unfolding pre_decode_def Let_def
    by (intro slots_kept.res_ok_bind slots_kept.iterate_results shift_slot_ok)
      (rule cleared, rule sel, simp, intro slots_kept.res_ok_bind slots_kept.iterate_results taken push_sampled_ok last)
qed

section \<open>A round\<close>

lemma apply_adapters_ok: "res_ok round_ok C (apply_adapters C)"
proof (rule res_okI)
  fix C'
  assume a: "apply_adapters C = Inr C'"
  show "round_ok C C'"
  proof (cases "slot_batched (batch C)")
    case None
    then show ?thesis using a by (simp add: apply_adapters_def slots_kept.kept_refl split: if_splits)
  next
    case (Some k)
    then obtain s ops ops' where s: "C' = log_ops ops (set_slot (nat k) s (log_ops ops' C))" "same_job (slots C ! nat k) s"
      using a by (auto simp: apply_adapters_def Let_def rbind_Inr_iff same_job_def)
    show ?thesis by (rule round_ok_same_job [OF _ s(2)]) (simp add: s(1))
  qed
qed

lemma apply_adapters_no_throw: "no_throw (apply_adapters C)"
  by (auto simp: apply_adapters_def Let_def slot_need_embd_def intro!: no_throw_bind split: option.split)

lemma post_task_no_throw: "no_throw (post_task now t b q)"
  by (simp add: post_task_def Let_def)

text \<open>
  Property C7.  A round of the server always comes to an end, whatever the library answers: a view that does
  not decode is either given up or tried again with an idle prompt dropped or half the size, so that the
  tries end.  It ends in one of two ways.  Either an assertion of the program fails, which ends the process
  (\<open>retry_of_one_token_asserts\<close> below is such an end), or it leaves a state, and then no exception has
  left the round and the slots are still well formed: a slot has a task exactly when it is not idle, and
  keeps its id.
\<close>

theorem update_slots_returns:
  "update_slots E clk C = Some (Inl Abort)
   \<or> (\<exists>C'. update_slots E clk C = Some (Inr C') \<and> map sl_id (slots C') = map sl_id (slots C) \<and> (slots_ok C \<longrightarrow> slots_ok C'))"
proof -
  have "\<exists>res. update_slots E clk C = Some res \<and> no_throw res \<and> res_ok round_ok C res"
  proof (cases "list_all (\<lambda>s. \<not> is_processing s) (slots C)")
    case True
    then show ?thesis by (auto simp: update_slots_def res_ok_def metrics_flush_idle_def intro!: round_ok_slots)
  next
    case busy: False
    obtain k q where q: "get_new_id (tasks_queue C) = (k, q)" by (cases "get_new_id (tasks_queue C)")
    show ?thesis
    proof (cases "post_task (clk 0) (next_response (de_params0 E) k) False q")
      case (Inl e)
      then have "e = Abort" using post_task_no_throw [of "clk 0" "next_response (de_params0 E) k" False q] by (cases e) simp_all
      then show ?thesis using busy q Inl by (simp add: update_slots_def Let_def res_ok_def)
    next
      case (Inr kq)
      obtain k' q' where kq: "kq = (k', q')" by (cases kq)
      let ?C = "C\<lparr>tasks_queue := q'\<rparr>"
      have q': "round_ok C ?C" by (simp add: round_ok_slots)
      define pre where "pre = rbind (pre_decode (de_upd E) (clk 0) ?C) (\<lambda>C. rbind (batch_render (batch C)) (\<lambda>b. Inr (C\<lparr>batch := b\<rparr>)))"
      have rendered: "res_ok round_ok C1 (rbind (batch_render (batch C1)) (\<lambda>b. Inr (C1\<lparr>batch := b\<rparr>)))" for C1 :: "'a server_context"
        by (auto simp: res_ok_def rbind_Inr_iff round_ok_slots)
      have pre: "res_ok round_ok C pre"
        using slots_kept.res_ok_bind [OF pre_decode_ok rendered, of ?C "de_upd E" "clk 0"] round_ok_trans [OF q']
        by (auto simp: res_ok_def pre_def)
      have upd: "update_slots E clk C = (case pre of
                       Inl Abort \<Rightarrow> Some (Inl Abort)
                     | Inl (Throw e) \<Rightarrow> Some (abort_all_slots (clk 0) (''pre_decode() failed: '' @ e) ?C)
                     | Inr C \<Rightarrow>
                         (case apply_adapters C of
                            Inl e \<Rightarrow> Some (Inl e)
                          | Inr C \<Rightarrow> decode_loop E clk 1 0 (ue_n_batch (de_upd E)) C))"
        using busy q Inr kq by (simp add: update_slots_def Let_def pre_def)
      show ?thesis
      proof (cases pre)
        case (Inl e)
        then show ?thesis
        proof (cases e)
          case (Throw m)
          have "res_ok round_ok C (abort_all_slots (clk 0) (''pre_decode() failed: '' @ m) ?C)"
            using slots_kept.abort_all_ok [of ?C "clk 0" "''pre_decode() failed: '' @ m"] round_ok_trans [OF q']
            by (simp add: res_ok_def)
          then show ?thesis using upd Inl Throw by (simp add: abort_all_no_throw)
        qed (use upd Inl in \<open>simp add: res_ok_def\<close>)
      next
        case C1: (Inr C1)
        then have r1: "round_ok C C1" using pre by (simp add: res_ok_def)
        show ?thesis
        proof (cases "apply_adapters C1")
          case (Inl e)
          then show ?thesis using upd C1 apply_adapters_no_throw [of C1] by (cases e) (auto simp: res_ok_def)
        next
          case C2: (Inr C2)
          then have r2: "round_ok C C2" using apply_adapters_ok [of C1] round_ok_trans [OF r1] by (simp add: res_ok_def)
          obtain res where "decode_loop E clk 1 0 (ue_n_batch (de_upd E)) C2 = Some res" "no_throw res" "res_ok batch_kept C2 res"
            using decode_loop_returns by blast
          then show ?thesis using upd C1 C2 round_ok_trans [OF r2] by (auto simp: res_ok_def batch_kept_def)
        qed
      qed
    qed
  qed
  then obtain res where res: "update_slots E clk C = Some res" "no_throw res" "res_ok round_ok C res" by blast
  show ?thesis
  proof (cases res)
    case (Inl e)
    then show ?thesis using res by (cases e) simp_all
  next
    case (Inr C')
    then have "round_ok C C'" using res by (simp add: res_ok_def)
    then show ?thesis using res(1) Inr slots_ok_round by (auto simp: round_ok_def intro!: nth_equalityI)
  qed
qed

text \<open>A view of one token that fails with a code that is no error is followed by one of no tokens.\<close>

lemma retry_of_one_token_asserts:
  "try_clear_idle_slots C = (False, C') \<Longrightarrow> decode_failed t1 1 2 C = (Inr (False, 0), C')"
  "get_view off (min 0 m) b = Inl Abort"
  by (simp_all add: decode_failed_def decode_error_def get_view_def signed_divide_int_def)

section \<open>Verified drafts\<close>

lemma release_keeps_prompt:
  assumes "release now i C = Inr C'" "i < length (slots C)" "task (slots C ! i) = Some t" "\<not> is_child t" "is_processing (slots C ! i)"
  shows "\<not> is_processing (slots C' ! i) \<and> prompt (slots C' ! i) = prompt (slots C ! i) \<and> length (slots C') = length (slots C)
    \<and> dev C' = dev C @ [Set_sampler (sl_id (slots C ! i)) False]"
proof -
  have "slots C' = (slots C)[i := fst (slot_reset ((slots C ! i)\<lparr>t_last_used := now, state := SLOT_IDLE\<rparr>))]"
    "dev C' = dev C @ snd (slot_reset ((slots C ! i)\<lparr>t_last_used := now, state := SLOT_IDLE\<rparr>))"
    using assms by (auto simp: release_def log_ops_def Let_def split: prod.splits)
  then show ?thesis using assms(2) by (simp add: is_processing_def slot_reset_def Let_def)
qed

lemma fold_send_slots [simp]: "slots (fold send_to ms C) = slots C"
  by (induction ms arbitrary: C) simp_all

lemma dev_simps [simp]: "dev (set_slot i s C) = dev C" "dev (send_to m C) = dev C" "dev (fold send_to ms C) = dev C"
  "dev (log_ops ops C) = dev C @ ops"
  by (induction ms arbitrary: C) (simp_all add: set_slot_def send_to_def log_ops_def)

text \<open>What a slot logs when it stops: its sampler is taken from the context.\<close>

definition stopped_ops :: "'c slot \<Rightarrow> bool \<Rightarrow> device_op list" where
  "stopped_ops s on = (if on then [] else [Set_sampler (sl_id s) False])"

lemma take_output_slot:
  assumes "take_output E now res i C = Inr (go, C')" "i < length (slots C)" "task (slots C ! i) = Some t" "\<not> is_child t"
    "is_processing (slots C ! i)"
  shows "length (slots C') = length (slots C) \<and> prompt (slots C' ! i) = prompt (slots C ! i)
    \<and> (if go then token_frame (slots C ! i) (slots C' ! i) \<and> sampled (slots C' ! i) = to_tok res else \<not> is_processing (slots C' ! i))
    \<and> dev C' = dev C @ stopped_ops (slots C ! i) go"
proof -
  from assms(1) obtain res' s ms where p: "process_token (de_gen E) now res (slots C ! i) = Inr (go, res', s, ms)"
    and c: "if go then C' = fold send_to ms (set_slot i s C) else finish_slot (de_gen E) now i (fold send_to ms (set_slot i s C)) = Inr C'"
    by (auto simp: take_output_def rbind_Inr_iff Let_def split: if_splits)
  note f = process_token_frame [OF p]
  show ?thesis
  proof (cases go)
    case True
    then show ?thesis using f c assms(2) by (auto simp: token_frame_def stopped_ops_def)
  next
    case False
    let ?C1 = "fold send_to ms (set_slot i s C)"
    have C1: "slots ?C1 ! i = s" "i < length (slots ?C1)" using assms(2) by simp_all
    from False c obtain s2 m where r: "final_response (de_gen E) s = Inr (s2, m)" "release now i (send_to m (set_slot i s2 ?C1)) = Inr C'"
      using C1 by (auto simp: finish_slot_def rbind_Inr_iff)
    have s2: "same_job s s2 \<and> prompt s2 = prompt s" using final_response_job [OF r(1)] .
    have "task s2 = Some t" "is_processing s2" using s2 f assms(3,5) by (simp_all add: token_frame_def same_job_def is_processing_def)
    then show ?thesis using release_keeps_prompt [OF r(2)] assms(2,4) s2 f False
      by (simp add: token_frame_def same_job_def stopped_ops_def)
  qed
qed

lemma emit_tokens_slot:
  assumes "emit_tokens E now t ks i C = Inr C'" "i < length (slots C)" "task (slots C ! i) = Some t" "\<not> is_child t"
    "is_processing (slots C ! i)"
  shows "prompt (slots C' ! i) = prompt (slots C ! i) \<and> (is_processing (slots C' ! i) \<longrightarrow>
      sampled (slots C' ! i) = (if ks = [] then sampled (slots C ! i) else last ks)
      \<and> n_gen (stats (slots C' ! i)) = n_gen (stats (slots C ! i)) + length ks \<and> spec_draft (slots C' ! i) = spec_draft (slots C ! i))
    \<and> dev C' = dev C @ stopped_ops (slots C ! i) (is_processing (slots C' ! i))"
  using assms
proof (induction ks arbitrary: C)
  case (Cons k ks)
  let ?s = "(slots C ! i)\<lparr>stats := (stats (slots C ! i))\<lparr>n_gen := n_gen (stats (slots C ! i)) + 1\<rparr>\<rparr>"
  from Cons.prems(1) obtain go C1 where 1: "take_output E now (token_result E C t k) i (set_slot i ?s C) = Inr (go, C1)"
    and 2: "(if go then emit_tokens E now t ks i C1 else Inr C1) = Inr C'"
    by (auto simp: rbind_Inr_iff Let_def)
  have pre: "i < length (slots (set_slot i ?s C))" "task (slots (set_slot i ?s C) ! i) = Some t" "is_processing (slots (set_slot i ?s C) ! i)"
    using Cons.prems by (simp_all add: is_processing_def)
  note o = take_output_slot [OF 1 pre(1,2) Cons.prems(4) pre(3)]
  show ?case
  proof (cases go)
    case True
    then have C1: "i < length (slots C1)" "task (slots C1 ! i) = Some t" "is_processing (slots C1 ! i)"
      "prompt (slots C1 ! i) = prompt (slots C ! i)" "sampled (slots C1 ! i) = k"
      "n_gen (stats (slots C1 ! i)) = n_gen (stats (slots C ! i)) + 1" "spec_draft (slots C1 ! i) = spec_draft (slots C ! i)"
      "dev C1 = dev C" "sl_id (slots C1 ! i) = sl_id (slots C ! i)"
      using o pre Cons.prems(2) by (auto simp: token_frame_def same_job_def is_processing_def token_result_def stopped_ops_def)
    have "emit_tokens E now t ks i C1 = Inr C'" using 2 True by simp
    from Cons.IH [OF this C1(1,2) Cons.prems(4) C1(3)] show ?thesis using C1(4-9) by (auto simp: stopped_ops_def)
  next
    case False
    then show ?thesis using o 2 Cons.prems(2) by (simp add: stopped_ops_def)
  qed
qed (simp add: stopped_ops_def)

text \<open>What \<open>common_sampler_sample_and_accept_n\<close> promises: some of the draft, and one more token.\<close>

definition accept_n_ok :: "'c dec_env \<Rightarrow> bool" where
  "accept_n_ok E \<longleftrightarrow> (\<forall>lg sm idxs draft. \<exists>k x. k \<le> length draft \<and> fst (de_accept_n E lg sm idxs draft) = take k draft @ [x])"

lemma synth_loop_tokens:
  "synth_loop E lg rp idxs ds ps sm rng = Inr (ks, r) \<Longrightarrow> \<exists>k x. k \<le> length ds \<and> ks = take k ds @ [x]"
proof (induction E lg rp idxs ds ps sm rng arbitrary: ks r rule: synth_loop.induct)
  case (2 E lg rp idx idxs d ds p probs sm rng)
  let ?k = "de_sample E lg sm idx"
  have one: "\<exists>k x. k \<le> length (d # ds) \<and> [?k] = take k (d # ds) @ [x]" by (intro exI [of _ 0] exI [of _ ?k]) simp
  show ?case
  proof (cases "(rp \<or> de_draw E rng < p) \<and> (rp \<or> \<not> ge_is_eog (de_gen E) d)")
    case True
    let ?rest = "synth_loop E lg rp idxs ds probs (sampler_do (Sampler_accept d (rp \<and> ds = [])) (sampler_do (Sampler_sample idx) sm))
        (if rp then rng else (fst rng, snd rng + 1))"
    from 2(2) True have "map_sum id (\<lambda>(ks, r). (d # ks, r)) ?rest = Inr (ks, r)" by (simp add: Let_def)
    then obtain ks1 r1 where rest: "?rest = Inr (ks1, r1)" "ks = d # ks1" by (cases ?rest) auto
    from 2(1) [OF refl refl refl refl True rest(1)] obtain k x where "k \<le> length ds" "ks1 = take k ds @ [x]" by auto
    then show ?thesis using rest(2) by (intro exI [of _ "Suc k"] exI [of _ x]) simp
  next
    case False
    then have "ks = [?k]" using 2(2) by (simp add: Let_def split: if_splits)
    then show ?thesis using one by blast
  qed
qed (auto simp: Let_def)

lemma accept_tokens_spec:
  assumes "accept_tokens E lg s sm = Inr (ids, r)" "accept_n_ok E"
  shows "\<exists>k x. k \<le> length (spec_draft s) \<and> ids = take k (spec_draft s) @ [x]"
proof -
  obtain ks sm1 where a: "de_accept_n E lg sm (spec_i_batch s) (spec_draft s) = (ks, sm1)" by fastforce
  have "ks = ids \<or> (\<exists>r. sample_and_accept_synth E lg s sm = Inr (ids, r))"
    using assms(1) a by (auto simp: accept_tokens_def rbind_Inr_iff split: if_splits)
  then show ?thesis
  proof
    assume "ks = ids"
    obtain k x where "k \<le> length (spec_draft s)" "fst (de_accept_n E lg sm (spec_i_batch s) (spec_draft s)) = take k (spec_draft s) @ [x]"
      using assms(2) unfolding accept_n_ok_def by blast
    then show ?thesis using a \<open>ks = ids\<close> by auto
  next
    assume "\<exists>r. sample_and_accept_synth E lg s sm = Inr (ids, r)"
    then obtain r where "synth_loop E lg (spec_is_replay s) (spec_i_batch s) (spec_draft s) (de_synth_probs E) sm (spec_rng s) = Inr (ids, r)"
      by (auto simp: sample_and_accept_synth_def split: if_splits)
    then show ?thesis by (rule synth_loop_tokens)
  qed
qed

text \<open>The memory of the target, and of the draft model if there is one, as it was saved, and nothing behind it.\<close>

definition restore_ops :: "'c slot \<Rightarrow> checkpoint \<Rightarrow> device_op list" where
  "restore_ops s c = Checkpoint_load (sl_id s) c # (if has_dft s then [Checkpoint_load_dft (sl_id s) c] else [])
     @ [Seq_rm (sl_id s) (ck_pos_max c + 1) (-1)]"

lemma replay_draft_slot:
  assumes "replay_draft ks sm i C = (Inr (), C')" "i < length (slots C)" "text_only (slots C ! i)"
    "prompt_toks (slots C ! i) = old @ rest" "spec_ckpt (slots C ! i) = Some c" "ck_n_tokens c = int (length old)"
  shows "prompt_toks (slots C' ! i) = old \<and> sampled (slots C' ! i) = sampled (slots C ! i) \<and> spec_draft (slots C' ! i) = ks
    \<and> spec_is_replay (slots C' ! i) \<and> smpl (slots C' ! i) = Some sm \<and> is_processing (slots C' ! i) = is_processing (slots C ! i)
    \<and> dev C' = dev C @ restore_ops (slots C ! i) c"
proof -
  have "keep_first (nat (ck_n_tokens c)) (pr_tokens (prompt (slots C ! i))) = Inr ((pr_tokens (prompt (slots C ! i)))\<lparr>toks := old\<rparr>)"
    using assms(3,4,6) by (subst keep_first_text) (simp_all add: text_only_def)
  then show ?thesis using assms(1,2,5) by (auto simp: replay_draft_def Let_def commit_def is_processing_def restore_ops_def)
qed

lemma put_accepted_slot:
  assumes "put_accepted E (length d) ids i C = (Inr (), C')" "i < length (slots C)" "text_only (slots C ! i)"
    "prompt_toks (slots C ! i) = pre @ d"
  shows "prompt_toks (slots C' ! i) = pre @ butlast ids \<and> sampled (slots C' ! i) = last ids \<and> same_job (slots C ! i) (slots C' ! i)
    \<and> spec_draft (slots C' ! i) = spec_draft (slots C ! i) \<and> stats (slots C' ! i) = stats (slots C ! i)
    \<and> length (slots C') = length (slots C)
    \<and> dev C' = dev C @ [Seq_rm (sl_id (slots C ! i)) (int (length (pre @ butlast ids))) (-1)]"
proof -
  have n: "prompt_n_tokens (prompt (slots C ! i)) - length d = length pre" using assms(4) by (simp add: prompt_n_tokens_def st_size_def)
  have "keep_first (length pre) (pr_tokens (prompt (slots C ! i))) = Inr ((pr_tokens (prompt (slots C ! i)))\<lparr>toks := pre\<rparr>)"
    using assms(3,4) by (subst keep_first_text) (simp_all add: text_only_def)
  then show ?thesis using assms(1,2)
    assms(3) by (auto simp: put_accepted_def Let_def n commit_Inr_iff rbind_Inr_iff st_insert_def same_job_def text_only_def pos_end_text)
qed

lemma note_accepted_slot:
  "note_accepted E now ids s = Inr s' \<Longrightarrow> same_job s s' \<and> prompt s' = prompt s \<and> spec_draft s' = [] \<and> n_gen (stats s') = n_gen (stats s)"
  by (auto simp: note_accepted_def Let_def rbind_Inr_iff same_job_def update_gen_last_def split: if_splits)

text \<open>
  Property C8.  The verification of a draft extends the prompt exactly by the part of the draft that is
  accepted.  The memory behind the accepted tokens is removed, nothing else of it is touched, and while the
  slot goes on, the last accepted token is the one to decode next.  Where the memory cannot be cut back, the
  checkpoint from before the draft is loaded, for both models, what lies behind it is removed, the prompt and
  the sampler are the ones from before the draft, and the accepted tokens are the draft of the next round.
  This is for a prompt of text and for a slot that is not the child of another.
\<close>

theorem draft_verification_extends_prompt:
  assumes "verify_draft E now i C = (Inr (), C')" "i < length (slots C)" "accept_n_ok E"
    "state (slots C ! i) = SLOT_GENERATING" "can_speculate (slots C ! i)" "spec_i_batch (slots C ! i) \<noteq> []"
    "spec_draft (slots C ! i) \<noteq> []" "text_only (slots C ! i)"
    "prompt_toks (slots C ! i) = old @ sampled (slots C ! i) # spec_draft (slots C ! i)"
    "spec_ckpt (slots C ! i) = Some c" "ck_n_tokens c = int (length old)" "task (slots C ! i) = Some t" "\<not> is_child t"
  shows "\<exists>k x. k \<le> length (spec_draft (slots C ! i))
    \<and> (\<exists>sm r. smpl (slots C ! i) = Some sm \<and> accept_tokens E (dev C) (slots C ! i) sm = Inr (take k (spec_draft (slots C ! i)) @ [x], r))
    \<and> (prompt_toks (slots C' ! i) = old @ sampled (slots C ! i) # take k (spec_draft (slots C ! i))
         \<and> dev C' = dev C @ [Spec_accept (sl_id (slots C ! i)) k, Seq_rm (sl_id (slots C ! i)) (int (length (prompt_toks (slots C' ! i)))) (-1)]
             @ stopped_ops (slots C ! i) (is_processing (slots C' ! i))
         \<and> (is_processing (slots C' ! i) \<longrightarrow> sampled (slots C' ! i) = x \<and> spec_draft (slots C' ! i) = []
              \<and> n_gen (stats (slots C' ! i)) = n_gen (stats (slots C ! i)) + k + 1)
       \<or> prompt_toks (slots C' ! i) = old \<and> sampled (slots C' ! i) = sampled (slots C ! i)
         \<and> dev C' = dev C @ restore_ops (slots C ! i) c \<and> is_processing (slots C' ! i)
         \<and> spec_draft (slots C' ! i) = take k (spec_draft (slots C ! i)) @ [x] \<and> spec_is_replay (slots C' ! i)
         \<and> smpl (slots C' ! i) = smpl (slots C ! i))"
proof -
  let ?s = "slots C ! i" and ?d = "spec_draft (slots C ! i)"
  obtain sm where sm: "smpl ?s = Some sm"
    using assms(1,4-7,12) by (auto simp: verify_draft_def Let_def split: option.splits)
  with assms(1,4-7,12) obtain ids sm' rng where acc: "accept_tokens E (dev C) ?s sm = Inr (ids, sm', rng)"
    and settle: "settle_draft E now t (length ?d) ids sm i (set_slot i (?s\<lparr>smpl := Some sm', spec_rng := rng, spec_i_batch := []\<rparr>) C) = (Inr (), C')"
    by (auto simp: verify_draft_def Let_def then_do_Inr_iff)
  obtain k x where k: "k \<le> length ?d" "ids = take k ?d @ [x]" using accept_tokens_spec [OF acc assms(3)] by blast
  let ?s1 = "?s\<lparr>smpl := Some sm', spec_rng := rng, spec_i_batch := []\<rparr>"
  let ?C1 = "set_slot i ?s1 C"
  have s1: "slots ?C1 ! i = ?s1" "i < length (slots ?C1)" using assms(2) by simp_all
  have toks: "toks (pr_tokens (prompt ?s1)) = old @ sampled ?s # ?d" "\<not> has_mtmd (pr_tokens (prompt ?s1))"
    using assms(8,9) by (simp_all add: text_only_def)
  from settle consider (replayed) "replay_draft ids sm i ?C1 = (Inr (), C')"
    | (accepted) s2 C3 where "note_accepted E now ids ?s1 = Inr s2"
        "put_accepted E (length ?d) ids i (set_slot i s2 (log_ops [Spec_accept (sl_id ?s) (length ids - 1)] ?C1)) = (Inr (), C3)"
        "emit_tokens E now t ids i C3 = Inr C'"
    using s1 unfolding settle_draft_def Let_def
    by (auto simp: then_do_Inr_iff commit_Inr_iff rbind_Inr_iff split: if_splits)
  then show ?thesis
  proof cases
    case replayed
    have "text_only (slots ?C1 ! i)" "prompt_toks (slots ?C1 ! i) = old @ sampled ?s # ?d" "spec_ckpt (slots ?C1 ! i) = Some c"
      using s1 assms(8-10) by (simp_all add: text_only_def)
    note r = replay_draft_slot [OF replayed s1(2) this assms(11)]
    then have "prompt_toks (slots C' ! i) = old \<and> sampled (slots C' ! i) = sampled ?s
        \<and> dev C' = dev C @ restore_ops ?s c \<and> is_processing (slots C' ! i)
        \<and> spec_draft (slots C' ! i) = take k ?d @ [x] \<and> spec_is_replay (slots C' ! i) \<and> smpl (slots C' ! i) = smpl ?s"
      using s1 sm k assms(4) by (simp add: restore_ops_def is_processing_def)
    then show ?thesis using k sm acc by blast
  next
    case accepted
    let ?C2 = "set_slot i s2 (log_ops [Spec_accept (sl_id ?s) (length ids - 1)] ?C1)"
    note s2 = note_accepted_slot [OF accepted(1)]
    have C2: "i < length (slots ?C2)" "slots ?C2 ! i = s2" using assms(2) by simp_all
    have "text_only (slots ?C2 ! i)" "prompt_toks (slots ?C2 ! i) = (old @ [sampled ?s]) @ ?d"
      using C2 s2 toks by (simp_all add: text_only_def)
    note p = put_accepted_slot [OF accepted(2) C2(1) this]
    have C3: "i < length (slots C3)" "task (slots C3 ! i) = Some t" "is_processing (slots C3 ! i)" "sl_id (slots C3 ! i) = sl_id ?s"
      using p C2 s2 assms(4,12) by (simp_all add: same_job_def is_processing_def)
    note e = emit_tokens_slot [OF accepted(3) C3(1,2) assms(13) C3(3)]
    have n: "length ids - 1 = k" "butlast ids = take k ?d" "last ids = x" "length ids = k + 1" using k by (simp_all add: butlast_append)
    have "prompt_toks (slots C' ! i) = old @ sampled ?s # take k ?d" using e p n by simp
    moreover have "dev C' = dev C @ [Spec_accept (sl_id ?s) k, Seq_rm (sl_id ?s) (int (length (prompt_toks (slots C' ! i)))) (-1)]
        @ stopped_ops ?s (is_processing (slots C' ! i))"
      using e p n C2 s2 C3(4) by (simp add: stopped_ops_def same_job_def)
    moreover have "is_processing (slots C' ! i) \<longrightarrow> sampled (slots C' ! i) = x \<and> spec_draft (slots C' ! i) = []
        \<and> n_gen (stats (slots C' ! i)) = n_gen (stats ?s) + k + 1"
      using e p n C2 s2 by simp
    ultimately show ?thesis using k sm acc by blast
  qed
qed

section \<open>Samples\<close>

text \<open>A library that decodes one token at a time and accepts the first token of a draft.\<close>

definition sample_de :: "byte list dec_env" where
  "sample_de = \<lparr>de_upd = sample_ue, de_params0 = sample_params, de_spec = False, de_embd_mismatch = False,
     de_decode = (\<lambda>_ v. if length (fst v) > 1 then 1 else 0), de_spec_process = (\<lambda>_ _. True), de_sample = (\<lambda>_ _ _. 5),
     de_accept_n = (\<lambda>_ sm _ draft. (take 1 draft @ [7], sm)), de_synth_probs = [], de_draw = (\<lambda>_. 0), de_n_max = 4,
     de_piece = (\<lambda>_ _. ''a''), de_candidates = (\<lambda>_ _. []), de_sampled_ids = (\<lambda>_ _. None), de_logits = (\<lambda>_ _. []),
     de_partial_sort = (\<lambda>_ xs. xs), de_exp = id, de_pooling_none = False, de_n_embd_out = 1, de_embd_ith = (\<lambda>_ _. None),
     de_embd_seq = (\<lambda>_ _. None), de_normalize = (\<lambda>v _. v)\<rparr>"

definition sample_smpl :: sampler where
  "sample_smpl = \<lparr>sm_params = sample_sampling, sm_log = []\<rparr>"

definition sample_round :: "byte list server_context" where
  "sample_round = sample_ctx [(sample_asked SLOT_STARTED [1, 2, 7] [1, 2, 3, 4])\<lparr>smpl := Some sample_smpl\<rparr>]"

lemma slots_ok_sample_round: "slots_ok sample_round"
  by (simp add: slots_ok_def sample_round_def sample_ctx_def slot_ok_def is_processing_def sample_asked_def sample_idle_def slot_new_def)

theorem update_slots_returns_witness:
  "\<exists>C'. update_slots sample_de (\<lambda>k. 5 + int k) sample_round = Some (Inr C') \<and> slots_ok C' \<and> sampled (slots C' ! 0) = 5"
proof -
  have "case update_slots sample_de (\<lambda>k. 5 + int k) sample_round of Some (Inr C) \<Rightarrow> sampled (slots C ! 0) = 5 | _ \<Rightarrow> False"
    by code_simp
  then obtain C' where r: "update_slots sample_de (\<lambda>k. 5 + int k) sample_round = Some (Inr C')" "sampled (slots C' ! 0) = 5"
    by (auto split: option.splits sum.splits)
  then show ?thesis using update_slots_returns [of sample_de "\<lambda>k. 5 + int k" sample_round] slots_ok_sample_round by auto
qed

definition sample_drafted :: "byte list slot" where
  "sample_drafted = (sample_asked SLOT_GENERATING [1, 2, 3, 4, 5, 6] [1, 2])\<lparr>has_spec := True, spec_draft := [4, 5, 6], sampled := 3,
     spec_i_batch := [0, 1, 2, 3], smpl := Some sample_smpl, stats := stats_zero\<lparr>t_start := 1, t_prompt_last := 2, n_gen := 1\<rparr>,
     spec_ckpt := Some \<lparr>ck_n_tokens = 2, ck_pos_min = 0, ck_pos_max = 1, ck_id_task = 1, ck_size = 1\<rparr>\<rparr>"

theorem draft_verification_extends_prompt_witness:
  "\<exists>C'. verify_draft sample_de 5 0 (sample_ctx [sample_drafted]) = (Inr (), C') \<and> prompt_toks (slots C' ! 0) = [1, 2, 3, 4]
     \<and> sampled (slots C' ! 0) = 7"
proof -
  let ?C = "sample_ctx [sample_drafted]" and ?c = "\<lparr>ck_n_tokens = 2, ck_pos_min = 0, ck_pos_max = 1, ck_id_task = 1, ck_size = 1\<rparr>"
  have "case verify_draft sample_de 5 0 ?C of (Inr _, C) \<Rightarrow> is_processing (slots C ! 0) \<and> spec_draft (slots C ! 0) = [] | _ \<Rightarrow> False"
    by code_simp
  then obtain C' where r: "verify_draft sample_de 5 0 ?C = (Inr (), C')" "is_processing (slots C' ! 0)" "spec_draft (slots C' ! 0) = []"
    by (auto split: prod.splits sum.splits)
  have ok: "accept_n_ok sample_de"
    unfolding accept_n_ok_def
  proof (intro allI)
    fix lg :: "device_op list" and sm :: sampler and idxs :: "int list" and draft :: "llama_token list"
    show "\<exists>k x. k \<le> length draft \<and> fst (de_accept_n sample_de lg sm idxs draft) = take k draft @ [x]"
      by (intro exI [of _ "min 1 (length draft)"] exI [of _ 7]) (cases draft; simp add: sample_de_def)
  qed
  have s: "slots ?C ! 0 = sample_drafted" "0 < length (slots ?C)" by (simp_all add: sample_ctx_def)
  have pre: "state sample_drafted = SLOT_GENERATING" "can_speculate sample_drafted" "spec_i_batch sample_drafted \<noteq> []"
    "spec_draft sample_drafted = [4, 5, 6]" "text_only sample_drafted"
    "prompt_toks sample_drafted = [1, 2] @ sampled sample_drafted # spec_draft sample_drafted"
    "spec_ckpt sample_drafted = Some \<lparr>ck_n_tokens = 2, ck_pos_min = 0, ck_pos_max = 1, ck_id_task = 1, ck_size = 1\<rparr>"
    "task sample_drafted = Some (sample_ask [1, 2])" "\<not> is_child (sample_ask [1, 2])" "sampled sample_drafted = 3"
    by (simp_all add: sample_drafted_def sample_asked_def can_speculate_def text_only_def st_of_tokens_def sample_ask_def
        sample_job_def sample_kid_def task_of_child_def is_child_def child_task.extend_def)
  have smp: "smpl sample_drafted = Some sample_smpl" by (simp add: sample_drafted_def)
  have acc: "accept_tokens sample_de lg sample_drafted sample_smpl = Inr ([4, 7], sample_smpl, spec_rng sample_drafted)" for lg
    by (simp add: accept_tokens_def sample_de_def sample_drafted_def)
  have "\<exists>k x. k \<le> length (spec_draft (slots ?C ! 0))
    \<and> (\<exists>sm r. smpl (slots ?C ! 0) = Some sm \<and> accept_tokens sample_de (dev ?C) (slots ?C ! 0) sm = Inr (take k (spec_draft (slots ?C ! 0)) @ [x], r))
    \<and> (prompt_toks (slots C' ! 0) = [1, 2] @ sampled (slots ?C ! 0) # take k (spec_draft (slots ?C ! 0))
         \<and> dev C' = dev ?C @ [Spec_accept (sl_id (slots ?C ! 0)) k, Seq_rm (sl_id (slots ?C ! 0)) (int (length (prompt_toks (slots C' ! 0)))) (-1)]
             @ stopped_ops (slots ?C ! 0) (is_processing (slots C' ! 0))
         \<and> (is_processing (slots C' ! 0) \<longrightarrow> sampled (slots C' ! 0) = x \<and> spec_draft (slots C' ! 0) = []
              \<and> n_gen (stats (slots C' ! 0)) = n_gen (stats (slots ?C ! 0)) + k + 1)
       \<or> prompt_toks (slots C' ! 0) = [1, 2] \<and> sampled (slots C' ! 0) = sampled (slots ?C ! 0)
         \<and> dev C' = dev ?C @ restore_ops (slots ?C ! 0) ?c \<and> is_processing (slots C' ! 0)
         \<and> spec_draft (slots C' ! 0) = take k (spec_draft (slots ?C ! 0)) @ [x] \<and> spec_is_replay (slots C' ! 0)
         \<and> smpl (slots C' ! 0) = smpl (slots ?C ! 0))"
    by (rule draft_verification_extends_prompt [OF r(1) s(2) ok, where t = "sample_ask [1, 2]"
        and c = ?c])
      (unfold s, simp_all add: pre)
  then obtain k x where "take k [4, 5, 6] @ [x] = [4, 7]" "prompt_toks (slots C' ! 0) = [1, 2] @ 3 # take k [4, 5, 6]"
    "sampled (slots C' ! 0) = x"
    unfolding s pre(4,10) smp using acc r(2,3) by auto
  then show ?thesis using r(1) by (auto simp: append_eq_Cons_conv)
qed

end
