(* ===== verification/Tools_Io.thy ===== *)
theory Tools_Io
  imports Strings Json Bytes
begin

text \<open>
  The input and output layer of the built-in tools (\<open>tools_io\<close> and its classes,
  server-tools.cpp): paths, the capture of a subprocess, the operations on the host
  (\<open>tools_io_basic\<close>) and in an isolate (\<open>tools_io_container\<close>, \<open>tools_io_ssh\<close>), and the choice
  between them by \<open>make_tools_io\<close>.  The operating system is the record \<open>host\<close> of functions on a
  state \<open>'w\<close> of the world; the platform is POSIX (the Windows branches are left out).
  The lemmas show that a remote shell reads back exactly the command the ssh isolate sends, that
  client-chosen names never become options of the client program, that an isolate never falls
  back to the host, and what is captured of a subprocess.
\<close>

section \<open>Exceptions\<close>

text \<open>
  The exceptions the HTTP handler of the tools tells apart; the message of a JSON exception is the
  library's and represented by the member it is about.  \<open>Undefined\<close> is undefined behaviour.
\<close>

datatype tool_exn = Json_error string | Invalid_argument string | Other_exn string | Undefined

type_synonym 'a tool_result = "tool_exn + 'a"

fun tbind :: "'a tool_result \<Rightarrow> ('a \<Rightarrow> 'b tool_result) \<Rightarrow> 'b tool_result" where
  "tbind (Inl e) f = Inl e"
| "tbind (Inr x) f = f x"

fun of_result :: "'a result \<Rightarrow> 'a tool_result" where
  "of_result (Inl (Throw m)) = Inl (Other_exn m)"
| "of_result (Inl Abort) = Inl Undefined"
| "of_result (Inr x) = Inr x"

section \<open>Paths\<close>

text \<open>\<open>std::filesystem::path\<close> on POSIX: the parts between separators.\<close>

fun split_on :: "char \<Rightarrow> string \<Rightarrow> string list" where
  "split_on c [] = [[]]"
| "split_on c (x # xs) =
     (if x = c then [] # split_on c xs
      else case split_on c xs of p # ps \<Rightarrow> (x # p) # ps | [] \<Rightarrow> [[x]])"

definition slash :: char where
  "slash = CHR ''/''"

fun join_with :: "char \<Rightarrow> string list \<Rightarrow> string" where
  "join_with c [] = []"
| "join_with c [p] = p"
| "join_with c (p # q # ps) = p @ c # join_with c (q # ps)"

definition path_is_absolute :: "string \<Rightarrow> bool" where
  "path_is_absolute p = (p \<noteq> [] \<and> hd p = slash)"

definition has_filename :: "string \<Rightarrow> bool" where
  "has_filename p = (p \<noteq> [] \<and> last p \<noteq> slash)"

definition path_filename :: "string \<Rightarrow> string" where
  "path_filename p = last (split_on slash p)"

text \<open>\<open>p / q\<close>.\<close>

definition path_join :: "string \<Rightarrow> string \<Rightarrow> string" where
  "path_join p q = (if path_is_absolute q then q else (if has_filename p then p @ [slash] else p) @ q)"

text \<open>\<open>lexically_normal\<close>: the parts so far are in reverse order.\<close>

definition push_part :: "bool \<Rightarrow> string \<Rightarrow> string list \<Rightarrow> string list" where
  "push_part absolute c st =
     (if c = [] \<or> c = ''.'' then st
      else if c = ''..'' then
        (case st of
           [] \<Rightarrow> if absolute then [] else [''..'']
         | t # ts \<Rightarrow> if t = ''..'' then ''..'' # st else ts)
      else c # st)"

definition normal_parts :: "bool \<Rightarrow> string list \<Rightarrow> string list" where
  "normal_parts absolute parts = rev (fold (push_part absolute) parts [])"

definition lexically_normal :: "string \<Rightarrow> string" where
  "lexically_normal p =
     (if p = [] then []
      else let parts = split_on slash p;
               absolute = path_is_absolute p;
               ns = normal_parts absolute parts;
               dir = (ns \<noteq> [] \<and> last ns \<noteq> ''..'' \<and> last parts \<in> {[], ''.'', ''..''});
               body = join_with slash ns @ (if dir then [slash] else [])
           in if absolute then slash # body else if body = [] then ''.'' else body)"

definition path_parent :: "string \<Rightarrow> string" where
  "path_parent p =
     (let dir = rev (dropWhile (\<lambda>c. c \<noteq> slash) (rev p));
          dir' = rev (dropWhile (\<lambda>c. c = slash) (rev dir))
      in if dir' = [] \<and> dir \<noteq> [] then [slash] else dir')"

definition root_path :: "string \<Rightarrow> string" where
  "root_path p = (if path_is_absolute p then [slash] else [])"

text \<open>The depth of a relative path.\<close>

definition entry_depth :: "string \<Rightarrow> int" where
  "entry_depth rel = 1 + int (length (filter (\<lambda>c. c = slash) rel))"

section \<open>Subprocesses\<close>

text \<open>
  A started process: what the reads of its output deliver, and its end, which depends on whether
  it was terminated early: the exit code, whether the time ran out, and the world it leaves.
\<close>

record spawn_req =
  sp_args :: "string list"
  sp_combine_stderr :: bool
  sp_cwd :: string
  sp_stdin :: "string option"
  sp_timeout :: int

record 'w proc =
  proc_reads :: "string list"
  proc_end :: "bool \<Rightarrow> int \<times> bool \<times> 'w"

record exec_result =
  ex_output :: string
  ex_code :: int
  ex_timed_out :: bool

text \<open>
  The loop over the reads.  \<open>alive\<close> is \<open>on_chunk\<close>: \<open>None\<close> when it is not set, otherwise its
  answer, a function of the chunks given to it so far.  The result has the output, whether it was
  cut, the chunks given to \<open>on_chunk\<close>, and whether the process was terminated.
\<close>

type_synonym on_chunk = "(string list \<Rightarrow> bool) option"

fun read_loop ::
  "nat \<Rightarrow> on_chunk \<Rightarrow> string list \<Rightarrow> string \<Rightarrow> bool \<Rightarrow> string list \<Rightarrow> string \<times> bool \<times> string list \<times> bool" where
  "read_loop max_output alive [] output truncated pushed = (output, truncated, pushed, False)"
| "read_loop max_output alive (b # bs) output truncated pushed =
     (if truncated then read_loop max_output alive bs output truncated pushed
      else if length output + length b \<le> max_output then
        (case alive of
           None \<Rightarrow> read_loop max_output alive bs (output @ b) truncated pushed
         | Some f \<Rightarrow>
             if f (pushed @ [b]) then read_loop max_output alive bs (output @ b) truncated (pushed @ [b])
             else (output @ b, truncated, pushed @ [b], True))
      else
        let remaining = max_output - length output
        in read_loop max_output alive bs (output @ take remaining b) True
             (if alive \<noteq> None \<and> remaining > 0 then pushed @ [take remaining b] else pushed))"

definition truncated_mark :: string where
  "truncated_mark = newline # ''[output truncated]''"

text \<open>
  What a tool asks of the operating system.  \<open>h_dir\<close> is an iteration over a directory; an error in
  the middle of it makes the iterator equal to the end, so that the loop only sees the entries
  before it.  \<open>h_ticks\<close> is how often the clock can be read before the deadline of a listing.
\<close>

record dir_entry =
  de_name :: string
  de_is_dir :: bool
  de_is_link :: bool
  de_is_file :: bool

record 'w host =
  h_home :: string
  h_cwd :: "string option"
  h_is_dir :: "string \<Rightarrow> 'w \<Rightarrow> bool"
  h_is_file :: "string \<Rightarrow> 'w \<Rightarrow> bool"
  h_file_size :: "string \<Rightarrow> 'w \<Rightarrow> nat option"
  h_read :: "string \<Rightarrow> 'w \<Rightarrow> string option"
  h_create_dirs :: "string \<Rightarrow> 'w \<Rightarrow> bool \<times> 'w"
  h_write :: "string \<Rightarrow> string \<Rightarrow> 'w \<Rightarrow> bool \<times> 'w"
  h_dir :: "string \<Rightarrow> 'w \<Rightarrow> dir_entry list option"
  h_ticks :: "'w \<Rightarrow> nat"
  h_spawn :: "spawn_req \<Rightarrow> 'w \<Rightarrow> 'w proc option"

definition run_subprocess ::
  "'w host \<Rightarrow> string list \<Rightarrow> nat \<Rightarrow> int \<Rightarrow> on_chunk \<Rightarrow> bool \<Rightarrow> string \<Rightarrow> string option \<Rightarrow> 'w
     \<Rightarrow> exec_result \<times> string list \<times> 'w" where
  "run_subprocess h args max_output timeout_secs alive combine_stderr cwd stdin_data w =
     (case h_spawn h \<lparr>sp_args = args, sp_combine_stderr = combine_stderr, sp_cwd = cwd,
                      sp_stdin = stdin_data, sp_timeout = timeout_secs\<rparr> w of
        None \<Rightarrow> (\<lparr>ex_output = ''failed to spawn process'', ex_code = -1, ex_timed_out = False\<rparr>, [], w)
      | Some p \<Rightarrow>
          (case read_loop max_output alive (proc_reads p) [] False [] of
             (output, truncated, pushed, stopped) \<Rightarrow>
               (case proc_end p stopped of
                  (code, timed_out, w') \<Rightarrow>
                    (\<lparr>ex_output = output @ (if truncated then truncated_mark else []),
                      ex_code = code, ex_timed_out = timed_out\<rparr>, pushed, w'))))"

section \<open>Listings\<close>

datatype list_kind = List_files | List_dirs | List_all

record list_entry =
  le_rel :: string
  le_is_dir :: bool

record list_result =
  lr_entries :: "list_entry list"
  lr_err :: string
  lr_truncated :: bool

definition SERVER_TOOL_JUNK_DIR_NAMES :: "string list" where
  "SERVER_TOOL_JUNK_DIR_NAMES =
     [''.git'', ''.svn'', ''.hg'', ''node_modules'', ''__pycache__'', ''.venv'', ''venv'', ''dist'',
      ''build'', ''target'', ''.cache'', ''.idea'', ''.vscode'']"

text \<open>The stack holds a directory, its path relative to the base and its depth; its top is the head.\<close>

type_synonym walk_stack = "(string \<times> string \<times> int) list"

definition scan_entry ::
  "int \<Rightarrow> list_kind \<Rightarrow> string \<Rightarrow> string \<Rightarrow> int \<Rightarrow> dir_entry \<Rightarrow> list_entry list \<times> walk_stack
     \<Rightarrow> list_entry list \<times> walk_stack" where
  "scan_entry max_depth kind dir rel_dir depth e acc =
     (case acc of (res, st) \<Rightarrow>
       let fname = de_name e; rel = path_join rel_dir fname in
       if de_is_dir e then
         let res = (if kind = List_dirs \<or> kind = List_all then res @ [\<lparr>le_rel = rel, le_is_dir = True\<rparr>] else res)
         in if fname \<in> set SERVER_TOOL_JUNK_DIR_NAMES then (res, st)
            else if \<not> de_is_link e \<and> (max_depth = 0 \<or> depth + 1 < max_depth)
            then (res, (path_join dir fname, rel, depth + 1) # st) else (res, st)
       else if de_is_file e then
         (if kind = List_files \<or> kind = List_all then res @ [\<lparr>le_rel = rel, le_is_dir = False\<rparr>] else res, st)
       else (res, st))"

text \<open>\<open>None\<close> for the ticks: the deadline passed inside of the directory.\<close>

fun scan_dir ::
  "int \<Rightarrow> list_kind \<Rightarrow> string \<Rightarrow> string \<Rightarrow> int \<Rightarrow> dir_entry list \<Rightarrow> nat \<Rightarrow> list_entry list \<times> walk_stack
     \<Rightarrow> nat option \<times> list_entry list \<times> walk_stack" where
  "scan_dir max_depth kind dir rel_dir depth [] ticks acc = (Some ticks, acc)"
| "scan_dir max_depth kind dir rel_dir depth (e # es) 0 acc = (None, acc)"
| "scan_dir max_depth kind dir rel_dir depth (e # es) (Suc ticks) acc =
     scan_dir max_depth kind dir rel_dir depth es ticks (scan_entry max_depth kind dir rel_dir depth e acc)"

lemma scan_dir_ticks: "(Some n, acc') = scan_dir md k dir rel d es ticks acc \<Longrightarrow> n \<le> ticks"
  by (induction md k dir rel d es ticks acc rule: scan_dir.induct) auto

function walk_dirs ::
  "(string \<Rightarrow> dir_entry list option) \<Rightarrow> int \<Rightarrow> list_kind \<Rightarrow> nat \<Rightarrow> list_entry list \<Rightarrow> walk_stack \<Rightarrow> bool
     \<Rightarrow> list_entry list \<times> bool" where
  "walk_dirs read_dir max_depth kind ticks res [] truncated = (res, truncated)"
| "walk_dirs read_dir max_depth kind 0 res (s # st) truncated = (res, True)"
| "walk_dirs read_dir max_depth kind (Suc ticks) res ((dir, rel_dir, depth) # st) truncated =
     (case read_dir dir of
        None \<Rightarrow> walk_dirs read_dir max_depth kind ticks res st True
      | Some es \<Rightarrow>
          (case scan_dir max_depth kind dir rel_dir depth es ticks (res, st) of
             (None, res, st) \<Rightarrow> (res, True)
           | (Some ticks, res, st) \<Rightarrow> walk_dirs read_dir max_depth kind ticks res st truncated))"
  by pat_completeness auto
termination
  by (relation "measure (\<lambda>(read_dir, max_depth, kind, ticks, res, st, truncated). ticks)")
    (auto dest: scan_dir_ticks)

definition list_entries_fallback ::
  "'w host \<Rightarrow> string \<Rightarrow> int \<Rightarrow> list_kind \<Rightarrow> 'w \<Rightarrow> list_entry list \<times> bool" where
  "list_entries_fallback h base max_depth kind w =
     walk_dirs (\<lambda>dir. h_dir h dir w) max_depth kind (h_ticks h w) [] [(base, [], 0)] False"

section \<open>On the host\<close>

definition expand_home :: "'w host \<Rightarrow> string \<Rightarrow> string" where
  "expand_home h path =
     (if path = [] \<or> hd path \<noteq> CHR ''~'' then path
      else if length path > 1 \<and> path ! 1 \<noteq> slash \<and> path ! 1 \<noteq> CHR 0x5C then path
      else if h_home h = [] then path else h_home h @ tl path)"

definition basic_resolve :: "'w host \<Rightarrow> string \<Rightarrow> string \<Rightarrow> string" where
  "basic_resolve h cwd path =
     (let p = expand_home h path;
          normal = (\<lambda>full.
            let full = lexically_normal full
            in if \<not> has_filename full \<and> full \<noteq> root_path full then path_parent full else full)
      in if path_is_absolute p then normal p
         else if cwd = [] then (case h_cwd h of None \<Rightarrow> p | Some cur \<Rightarrow> normal (path_join cur p))
         else normal (path_join cwd p))"

definition basic_write_file :: "'w host \<Rightarrow> string \<Rightarrow> string \<Rightarrow> string \<Rightarrow> 'w \<Rightarrow> bool \<times> 'w" where
  "basic_write_file h cwd path content w =
     (let fpath = basic_resolve h cwd path
      in case (if path_parent fpath \<noteq> [] then h_create_dirs h (path_parent fpath) w else (True, w)) of
           (ok, w) \<Rightarrow> if ok then h_write h fpath content w else (False, w))"

definition SERVER_TOOL_GIT_LS_FILES_MAX_OUTPUT :: nat where
  "SERVER_TOOL_GIT_LS_FILES_MAX_OUTPUT = 8 * 1024 * 1024"

definition SERVER_TOOL_LIST_ENTRIES_TIMEOUT :: int where
  "SERVER_TOOL_LIST_ENTRIES_TIMEOUT = 15"

text \<open>A line of a listing: without the return character, and with forward slashes.\<close>

definition chop_return :: "string \<Rightarrow> string" where
  "chop_return line = (if line \<noteq> [] \<and> last line = CHR 0x0D then butlast line else line)"

definition forward_slashes :: "string \<Rightarrow> string" where
  "forward_slashes = map (\<lambda>c. if c = CHR 0x5C then slash else c)"

definition listed_lines :: "string \<Rightarrow> string list" where
  "listed_lines out = filter (\<lambda>l. l \<noteq> []) (map chop_return (getlines out))"

definition basic_list_entries ::
  "'w host \<Rightarrow> string \<Rightarrow> string \<Rightarrow> int \<Rightarrow> list_kind \<Rightarrow> 'w \<Rightarrow> list_result \<times> 'w" where
  "basic_list_entries h cwd base max_depth kind w =
     (if \<not> h_is_dir h base w then
        (\<lparr>lr_entries = [], lr_err = ''path does not exist or is not a directory'', lr_truncated = False\<rparr>, w)
      else
        let walked = (\<lambda>w. case list_entries_fallback h base max_depth kind w of
                       (es, tr) \<Rightarrow> (\<lparr>lr_entries = es, lr_err = [], lr_truncated = tr\<rparr>, w))
        in if kind = List_files then
             (case run_subprocess h [''git'', ''-C'', base, ''ls-files'', ''--cached'', ''--others'', ''--exclude-standard'']
                     SERVER_TOOL_GIT_LS_FILES_MAX_OUTPUT SERVER_TOOL_LIST_ENTRIES_TIMEOUT None True cwd None w of
                (res, _, w) \<Rightarrow>
                  if ex_code res = 0 \<and> \<not> ex_timed_out res then
                    (\<lparr>lr_entries = map (\<lambda>l. \<lparr>le_rel = l, le_is_dir = False\<rparr>)
                        (filter (\<lambda>l. \<not> (max_depth > 0 \<and> entry_depth l > max_depth)
                                   \<and> h_is_file h (basic_resolve h cwd (path_join base l)) w)
                           (map forward_slashes (listed_lines (ex_output res)))),
                      lr_err = [], lr_truncated = False\<rparr>, w)
                  else walked w)
           else walked w)"

section \<open>In an isolate\<close>

datatype isolate = Container string string | Ssh string

text \<open>Single quotes around every argument; a single quote closes, escapes itself and reopens.\<close>

definition quote_char :: "char \<Rightarrow> string" where
  "quote_char c = (if c = CHR 0x27 then [CHR 0x27, CHR 0x5C, CHR 0x27, CHR 0x27] else [c])"

definition shell_quote :: "string \<Rightarrow> string" where
  "shell_quote arg = [CHR 0x27] @ concat (map quote_char arg) @ [CHR 0x27]"

definition shell_quote_join :: "string list \<Rightarrow> string" where
  "shell_quote_join argv =
     fold (\<lambda>arg out. (if out \<noteq> [] then out @ '' '' else out) @ shell_quote arg) argv []"

definition ssh_argv :: "string list" where
  "ssh_argv = [''ssh'', ''-o'', ''BatchMode=yes'', ''-o'', ''PasswordAuthentication=no'',
     ''-o'', ''KbdInteractiveAuthentication=no'', ''-o'', ''StrictHostKeyChecking=yes'']"

fun build_argv :: "isolate \<Rightarrow> string list \<Rightarrow> bool \<Rightarrow> string list" where
  "build_argv (Container bin container_id) inner needs_stdin =
     [bin, ''exec''] @ (if needs_stdin then [''-i''] else []) @ [container_id] @ inner"
| "build_argv (Ssh target) inner needs_stdin =
     ssh_argv @ (if needs_stdin then [] else [''-n'']) @ [target, shell_quote_join inner]"

definition SERVER_TOOL_ISOLATE_EXEC_TIMEOUT :: int where
  "SERVER_TOOL_ISOLATE_EXEC_TIMEOUT = 15"

definition SERVER_TOOL_ISOLATE_READ_FILE_MAX_SIZE :: nat where
  "SERVER_TOOL_ISOLATE_READ_FILE_MAX_SIZE = 64 * 1024 * 1024"

definition isolate_resolve :: "string \<Rightarrow> string \<Rightarrow> string" where
  "isolate_resolve cwd path =
     (if cwd = [] \<or> path \<noteq> [] \<and> hd path = slash then path else cwd @ ''/'' @ path)"

definition with_cwd :: "string \<Rightarrow> string list \<Rightarrow> string list" where
  "with_cwd cwd inner =
     (if cwd = [] then inner
      else [''sh'', ''-c'', ''cd \"$1\" || exit 127; shift; exec \"$@\"'', ''_'', cwd] @ inner)"

definition isolate_exec ::
  "'w host \<Rightarrow> isolate \<Rightarrow> string list \<Rightarrow> nat \<Rightarrow> bool \<Rightarrow> 'w \<Rightarrow> exec_result \<times> 'w" where
  "isolate_exec h box inner max_output combine_stderr w =
     (case run_subprocess h (build_argv box inner False) max_output SERVER_TOOL_ISOLATE_EXEC_TIMEOUT None
             combine_stderr [] None w of
        (res, _, w) \<Rightarrow> (res, w))"

definition exec_ok :: "exec_result \<Rightarrow> bool" where
  "exec_ok res = (ex_code res = 0 \<and> \<not> ex_timed_out res)"

definition shell_run :: "'w host \<Rightarrow> isolate \<Rightarrow> string list \<Rightarrow> 'w \<Rightarrow> bool \<times> 'w" where
  "shell_run h box inner w = (case isolate_exec h box inner 4096 True w of (res, w) \<Rightarrow> (exec_ok res, w))"

definition shell_test :: "'w host \<Rightarrow> isolate \<Rightarrow> string \<Rightarrow> string \<Rightarrow> 'w \<Rightarrow> bool \<times> 'w" where
  "shell_test h box flag path w =
     shell_run h box [''sh'', ''-c'', ''[ '' @ flag @ '' \"$1\" ]'', ''_'', path] w"

text \<open>\<open>std::stoull\<close>: \<open>None\<close> for its two exceptions.  A minus sign negates modulo \<open>2 ^ 64\<close>.\<close>

definition is_space :: "char \<Rightarrow> bool" where
  "is_space c = (c \<in> {CHR '' '', CHR 0x09, CHR 0x0A, CHR 0x0B, CHR 0x0C, CHR 0x0D})"

definition is_digit :: "char \<Rightarrow> bool" where
  "is_digit c = (CHR ''0'' \<le> c \<and> c \<le> CHR ''9'')"

definition stoull :: "string \<Rightarrow> nat option" where
  "stoull s =
     (let s = dropWhile is_space s;
          neg = (s \<noteq> [] \<and> hd s = CHR ''-'');
          s = (if s \<noteq> [] \<and> (hd s = CHR ''-'' \<or> hd s = CHR ''+'') then tl s else s);
          ds = takeWhile is_digit s;
          n = foldl (\<lambda>n c. n * 10 + (of_char c - 48)) 0 ds
      in if ds = [] \<or> 2 ^ 64 \<le> n then None else Some (if neg then (2 ^ 64 - n) mod 2 ^ 64 else n))"

definition isolate_file_size :: "'w host \<Rightarrow> isolate \<Rightarrow> string \<Rightarrow> string \<Rightarrow> 'w \<Rightarrow> nat option \<times> 'w" where
  "isolate_file_size h box cwd path w =
     (case isolate_exec h box [''sh'', ''-c'', ''wc -c < \"$1\"'', ''_'', isolate_resolve cwd path] 64 True w of
        (res, w) \<Rightarrow> (if exec_ok res then stoull (ex_output res) else None, w))"

definition isolate_read_file :: "'w host \<Rightarrow> isolate \<Rightarrow> string \<Rightarrow> string \<Rightarrow> 'w \<Rightarrow> string option \<times> 'w" where
  "isolate_read_file h box cwd path w =
     (case isolate_exec h box [''cat'', ''--'', isolate_resolve cwd path]
             SERVER_TOOL_ISOLATE_READ_FILE_MAX_SIZE False w of
        (res, w) \<Rightarrow> (if exec_ok res then Some (ex_output res) else None, w))"

definition isolate_write_file :: "'w host \<Rightarrow> isolate \<Rightarrow> string \<Rightarrow> string \<Rightarrow> string \<Rightarrow> 'w \<Rightarrow> bool \<times> 'w" where
  "isolate_write_file h box cwd path content w =
     (case run_subprocess h
             (build_argv box [''sh'', ''-c'', ''mkdir -p \"$(dirname \"$1\")\" && cat > \"$1\"'', ''_'',
                              isolate_resolve cwd path] True)
             4096 SERVER_TOOL_ISOLATE_EXEC_TIMEOUT None True [] (Some content) w of
        (res, _, w) \<Rightarrow> (exec_ok res, w))"

definition starts_with :: "string \<Rightarrow> string \<Rightarrow> bool" where
  "starts_with s p = (take (length p) s = p)"

definition isolate_split_lines :: "string \<Rightarrow> bool \<Rightarrow> string list" where
  "isolate_split_lines txt strip_dot_slash =
     map (\<lambda>line. forward_slashes (if strip_dot_slash \<and> starts_with line ''./'' then drop 2 line else line))
       (listed_lines txt)"

definition prune_expr :: string where
  "prune_expr = fold (\<lambda>n s. (if s \<noteq> [] then s @ '' -o '' else s) @ ''-name '' @ n) SERVER_TOOL_JUNK_DIR_NAMES []"

definition find_entries ::
  "'w host \<Rightarrow> isolate \<Rightarrow> string \<Rightarrow> int \<Rightarrow> bool \<Rightarrow> bool \<Rightarrow> 'w \<Rightarrow> string list \<times> bool \<times> 'w" where
  "find_entries h box abs_base max_depth dirs truncated w =
     (let cmd = ''cd \"$1\" && find . -mindepth 1''
                @ (if max_depth > 0 then '' -maxdepth '' @ show_int max_depth else [])
                @ '' '' @ [CHR 0x5C] @ ''( '' @ prune_expr @ '' '' @ [CHR 0x5C] @ '') -prune''
                @ (if dirs then '' -print -o -type d -print'' else '' -o -type f -print'')
      in case isolate_exec h box [''sh'', ''-c'', cmd, ''_'', abs_base] SERVER_TOOL_GIT_LS_FILES_MAX_OUTPUT True w of
           (res, w) \<Rightarrow> (isolate_split_lines (ex_output res) True, truncated \<or> ex_timed_out res, w))"

definition find_listed ::
  "'w host \<Rightarrow> isolate \<Rightarrow> string \<Rightarrow> int \<Rightarrow> bool \<Rightarrow> list_result \<times> 'w \<Rightarrow> list_result \<times> 'w" where
  "find_listed h box abs_base max_depth dirs acc =
     (case acc of (lr, w) \<Rightarrow>
       (case find_entries h box abs_base max_depth dirs (lr_truncated lr) w of
          (rels, tr, w) \<Rightarrow>
            (lr\<lparr>lr_entries := lr_entries lr @ map (\<lambda>r. \<lparr>le_rel = r, le_is_dir = dirs\<rparr>) rels, lr_truncated := tr\<rparr>, w)))"

definition isolate_list_entries ::
  "'w host \<Rightarrow> isolate \<Rightarrow> string \<Rightarrow> string \<Rightarrow> int \<Rightarrow> list_kind \<Rightarrow> 'w \<Rightarrow> list_result \<times> 'w" where
  "isolate_list_entries h box cwd base max_depth kind w =
     (let abs_base = isolate_resolve cwd base; none = \<lparr>lr_entries = [], lr_err = [], lr_truncated = False\<rparr>
      in case shell_test h box ''-d'' abs_base w of
        (False, w) \<Rightarrow> (none\<lparr>lr_err := ''path does not exist or is not a directory''\<rparr>, w)
      | (True, w) \<Rightarrow>
          let found = (\<lambda>w.
                let r = (if kind = List_dirs \<or> kind = List_all then find_listed h box abs_base max_depth True (none, w)
                         else (none, w))
                in if kind = List_files \<or> kind = List_all then find_listed h box abs_base max_depth False r else r)
          in if kind = List_files then
               (case isolate_exec h box
                       [''sh'', ''-c'', ''cd \"$1\" && git ls-files --cached --others --exclude-standard'', ''_'', abs_base]
                       SERVER_TOOL_GIT_LS_FILES_MAX_OUTPUT True w of
                  (res, w) \<Rightarrow>
                    if exec_ok res then
                      (none\<lparr>lr_entries := map (\<lambda>l. \<lparr>le_rel = l, le_is_dir = False\<rparr>)
                          (filter (\<lambda>l. \<not> (max_depth > 0 \<and> entry_depth l > max_depth))
                             (isolate_split_lines (ex_output res) False))\<rparr>, w)
                    else found w)
             else found w)"

text \<open>The time limit inside of the isolate, and five seconds more for the client outside.\<close>

definition isolate_run ::
  "'w host \<Rightarrow> isolate \<Rightarrow> string \<Rightarrow> string list \<Rightarrow> nat \<Rightarrow> int \<Rightarrow> on_chunk \<Rightarrow> 'w
     \<Rightarrow> exec_result \<times> string list \<times> 'w" where
  "isolate_run h box cwd args max_output timeout_secs alive w =
     run_subprocess h (build_argv box (with_cwd cwd ([''timeout'', show_int timeout_secs @ ''s''] @ args)) True)
       max_output (timeout_secs + 5) alive True [] None w"

section \<open>The choice of the place\<close>

definition is_valid_target :: "string \<Rightarrow> bool" where
  "is_valid_target target \<longleftrightarrow> target \<noteq> [] \<and> hd target \<noteq> CHR ''-''
     \<and> list_all (\<lambda>c. is_alnum c \<or> c \<in> {CHR ''.'', CHR ''-'', CHR ''_'', CHR ''@''}) target"

record container_runtime_spec =
  rt_bin :: string
  rt_arg :: string
  rt_attach :: bool

fun parse_engines :: "string list \<Rightarrow> string \<Rightarrow> container_runtime_spec option" where
  "parse_engines [] spec = None"
| "parse_engines (bin # bins) spec =
     (let attach_prefix = bin @ ''-container:''; spawn_prefix = bin @ '':''
      in if starts_with spec attach_prefix then
           Some \<lparr>rt_bin = bin, rt_arg = drop (length attach_prefix) spec, rt_attach = True\<rparr>
         else if starts_with spec spawn_prefix then
           Some \<lparr>rt_bin = bin, rt_arg = drop (length spawn_prefix) spec, rt_attach = False\<rparr>
         else parse_engines bins spec)"

definition engines :: "string list" where
  "engines = [''docker'', ''podman'']"

definition parse_runtime_spec :: "string \<Rightarrow> container_runtime_spec option" where
  "parse_runtime_spec = parse_engines engines"

definition is_valid_id :: "string \<Rightarrow> bool" where
  "is_valid_id i \<longleftrightarrow> i \<noteq> [] \<and> is_alnum (hd i)
     \<and> list_all (\<lambda>c. is_alnum c \<or> c \<in> {CHR ''.'', CHR ''-'', CHR ''_''}) i"

datatype tools_io = Io_basic string | Io_isolate isolate string

definition make_tools_io :: "json \<Rightarrow> tools_io tool_result" where
  "make_tools_io params =
     (let cwd = json_value get_str params ''cwd'' [];
          runtime = json_value get_str params ''runtime'' []
      in if runtime = [] then Inr (Io_basic cwd)
         else case parse_runtime_spec runtime of
           Some c \<Rightarrow>
             if \<not> rt_attach c then Inl (Other_exn (''tool runtime must name a running container: '' @ runtime))
             else if \<not> is_valid_id (rt_arg c) then Inl (Other_exn (''invalid container id: '' @ rt_arg c))
             else Inr (Io_isolate (Container (rt_bin c) (rt_arg c)) cwd)
         | None \<Rightarrow>
             if starts_with runtime ''ssh:'' then
               (let target = drop 4 runtime
                in if \<not> is_valid_target target then Inl (Other_exn (''invalid ssh target: '' @ target))
                   else Inr (Io_isolate (Ssh target) cwd))
             else Inl (Other_exn (''unknown tool runtime: '' @ runtime)))"

text \<open>The virtual operations.\<close>

fun io_resolve :: "'w host \<Rightarrow> tools_io \<Rightarrow> string \<Rightarrow> string" where
  "io_resolve h (Io_basic cwd) path = basic_resolve h cwd path"
| "io_resolve h (Io_isolate box cwd) path = isolate_resolve cwd path"

fun io_is_directory :: "'w host \<Rightarrow> tools_io \<Rightarrow> string \<Rightarrow> 'w \<Rightarrow> bool \<times> 'w" where
  "io_is_directory h (Io_basic cwd) path w = (h_is_dir h (basic_resolve h cwd path) w, w)"
| "io_is_directory h (Io_isolate box cwd) path w = shell_test h box ''-d'' (isolate_resolve cwd path) w"

fun io_is_regular_file :: "'w host \<Rightarrow> tools_io \<Rightarrow> string \<Rightarrow> 'w \<Rightarrow> bool \<times> 'w" where
  "io_is_regular_file h (Io_basic cwd) path w = (h_is_file h (basic_resolve h cwd path) w, w)"
| "io_is_regular_file h (Io_isolate box cwd) path w = shell_test h box ''-f'' (isolate_resolve cwd path) w"

fun io_file_size :: "'w host \<Rightarrow> tools_io \<Rightarrow> string \<Rightarrow> 'w \<Rightarrow> nat option \<times> 'w" where
  "io_file_size h (Io_basic cwd) path w = (h_file_size h (basic_resolve h cwd path) w, w)"
| "io_file_size h (Io_isolate box cwd) path w = isolate_file_size h box cwd path w"

fun io_read_file :: "'w host \<Rightarrow> tools_io \<Rightarrow> string \<Rightarrow> 'w \<Rightarrow> string option \<times> 'w" where
  "io_read_file h (Io_basic cwd) path w = (h_read h (basic_resolve h cwd path) w, w)"
| "io_read_file h (Io_isolate box cwd) path w = isolate_read_file h box cwd path w"

fun io_write_file :: "'w host \<Rightarrow> tools_io \<Rightarrow> string \<Rightarrow> string \<Rightarrow> 'w \<Rightarrow> bool \<times> 'w" where
  "io_write_file h (Io_basic cwd) path content w = basic_write_file h cwd path content w"
| "io_write_file h (Io_isolate box cwd) path content w = isolate_write_file h box cwd path content w"

fun io_list_entries :: "'w host \<Rightarrow> tools_io \<Rightarrow> string \<Rightarrow> int \<Rightarrow> list_kind \<Rightarrow> 'w \<Rightarrow> list_result \<times> 'w" where
  "io_list_entries h (Io_basic cwd) base max_depth kind w = basic_list_entries h cwd base max_depth kind w"
| "io_list_entries h (Io_isolate box cwd) base max_depth kind w =
     isolate_list_entries h box cwd base max_depth kind w"

fun io_run ::
  "'w host \<Rightarrow> tools_io \<Rightarrow> string list \<Rightarrow> nat \<Rightarrow> int \<Rightarrow> on_chunk \<Rightarrow> 'w \<Rightarrow> exec_result \<times> string list \<times> 'w" where
  "io_run h (Io_basic cwd) args max_output timeout_secs alive w =
     run_subprocess h args max_output timeout_secs alive True cwd None w"
| "io_run h (Io_isolate box cwd) args max_output timeout_secs alive w =
     isolate_run h box cwd args max_output timeout_secs alive w"

text \<open>\<open>glob_match\<close> is the library's and a parameter.\<close>

definition path_glob_match :: "(string \<Rightarrow> string \<Rightarrow> bool) \<Rightarrow> string \<Rightarrow> string \<Rightarrow> bool" where
  "path_glob_match glob_match pattern rel_path =
     (if slash \<notin> set pattern then glob_match pattern (path_filename rel_path)
      else if pattern = ''**'' \<or> starts_with pattern ''**/'' \<or> starts_with pattern ''/'' then glob_match pattern rel_path
      else glob_match (''**/'' @ pattern) rel_path)"

section \<open>The command an isolate runs\<close>

text \<open>
  Word splitting and quote removal of a POSIX shell (XCU 2.2 and 2.6), as far as backslashes and
  single quotes go: outside of quotes a blank ends a word and a backslash takes the next character
  literally, inside of single quotes every character is literal.  A character with another special
  meaning outside of quotes is refused.  The first argument holds the word so far, if one was
  begun; the second tells whether a quote is open.
\<close>

definition shell_plain :: "char \<Rightarrow> bool" where
  "shell_plain c \<longleftrightarrow> is_alnum c \<or> c \<in> set ''_./:=@%+,-''"

fun sh_words :: "string option \<Rightarrow> bool \<Rightarrow> string \<Rightarrow> string list option" where
  "sh_words word True [] = None"
| "sh_words word True (c # cs) =
     (if c = CHR 0x27 then sh_words word False cs
      else sh_words (Some ((case word of None \<Rightarrow> [] | Some v \<Rightarrow> v) @ [c])) True cs)"
| "sh_words word False [] = Some (case word of None \<Rightarrow> [] | Some v \<Rightarrow> [v])"
| "sh_words word False (c # cs) =
     (if c = CHR 0x27 then sh_words (Some (case word of None \<Rightarrow> [] | Some v \<Rightarrow> v)) True cs
      else if c = CHR '' '' then
        map_option (\<lambda>ws. (case word of None \<Rightarrow> [] | Some v \<Rightarrow> [v]) @ ws) (sh_words None False cs)
      else if c = CHR 0x5C then
        (case cs of [] \<Rightarrow> None
         | d # ds \<Rightarrow> sh_words (Some ((case word of None \<Rightarrow> [] | Some v \<Rightarrow> v) @ [d])) False ds)
      else if shell_plain c then sh_words (Some ((case word of None \<Rightarrow> [] | Some v \<Rightarrow> v) @ [c])) False cs
      else None)"

lemma sh_words_quoted:
  "sh_words (Some v) True (concat (map quote_char arg) @ CHR 0x27 # cs) = sh_words (Some (v @ arg)) False cs"
  by (induction arg arbitrary: v) (auto simp: quote_char_def)

lemma sh_words_quote:
  "sh_words None False (shell_quote arg @ cs) = sh_words (Some arg) False cs"
  using sh_words_quoted [of "[]" arg cs] by (simp add: shell_quote_def)

lemma shell_quote_nonempty [simp]: "shell_quote arg \<noteq> []"
  by (simp add: shell_quote_def)

lemma quote_fold:
  "out \<noteq> [] \<Longrightarrow>
     fold (\<lambda>arg out. (if out \<noteq> [] then out @ '' '' else out) @ shell_quote arg) argv out
     = out @ concat (map (\<lambda>arg. '' '' @ shell_quote arg) argv)"
  by (induction argv arbitrary: out) auto

lemma shell_quote_join_Cons:
  "shell_quote_join (arg # argv) = shell_quote arg @ concat (map (\<lambda>arg. '' '' @ shell_quote arg) argv)"
  by (simp add: shell_quote_join_def quote_fold)

lemma sh_words_more:
  "sh_words (Some v) False (concat (map (\<lambda>arg. '' '' @ shell_quote arg) argv)) = Some (v # argv)"
proof (induction argv arbitrary: v)
  case (Cons arg argv)
  have "sh_words None False (shell_quote arg @ concat (map (\<lambda>arg. '' '' @ shell_quote arg) argv)) = Some (arg # argv)"
    by (simp only: sh_words_quote Cons)
  then show ?case by simp
qed simp

text \<open>
  Property C37.  A POSIX shell that reads the line the ssh isolate sends splits it into exactly the
  arguments of the command, whatever characters they contain.
\<close>

theorem shell_quote_join_roundtrip: "sh_words None False (shell_quote_join argv) = Some argv"
proof (cases argv)
  case Nil
  then show ?thesis by (simp add: shell_quote_join_def)
next
  case (Cons arg args)
  then show ?thesis
    by (simp only: shell_quote_join_Cons sh_words_quote sh_words_more)
qed

section \<open>Resolved paths\<close>

lemma split_on_nonempty [simp]: "split_on c s \<noteq> []"
  by (induction s) (auto split: list.splits)

lemma split_on_free: "p \<in> set (split_on c s) \<Longrightarrow> c \<notin> set p"
  by (induction s arbitrary: p) (auto split: list.splits if_splits)

definition plain_part :: "string \<Rightarrow> bool" where
  "plain_part p \<longleftrightarrow> p \<noteq> [] \<and> p \<noteq> ''.'' \<and> p \<noteq> ''..'' \<and> slash \<notin> set p"

definition plain_parts :: "string list \<Rightarrow> bool" where
  "plain_parts ns = list_all plain_part ns"

lemma push_part_ok: "plain_parts st \<Longrightarrow> slash \<notin> set c \<Longrightarrow> plain_parts (push_part True c st)"
proof (cases "c = [] \<or> c = ''.''")
  case False
  assume a: "plain_parts st" "slash \<notin> set c"
  show ?thesis
  proof (cases "c = ''..''")
    case True
    show ?thesis
    proof (cases st)
      case (Cons t ts)
      with a have "t \<noteq> ''..''" "plain_parts ts"
        by (simp_all add: plain_parts_def plain_part_def)
      with True Cons show ?thesis
        unfolding push_part_def by simp
    qed (use True in \<open>simp add: push_part_def plain_parts_def\<close>)
  next
    case other: False
    with False a have "plain_part c"
      by (simp add: plain_part_def)
    with False other a show ?thesis
      unfolding push_part_def by (simp add: plain_parts_def)
  qed
qed (simp add: push_part_def)

lemma fold_push_part_ok:
  "plain_parts st \<Longrightarrow> \<forall>c \<in> set cs. slash \<notin> set c \<Longrightarrow> plain_parts (fold (push_part True) cs st)"
  by (induction cs arbitrary: st) (simp_all add: push_part_ok)

lemma normal_parts_plain: "plain_parts (normal_parts True (split_on slash s))"
  using fold_push_part_ok [of "[]" "split_on slash s"] split_on_free [of _ slash s]
  by (auto simp: plain_parts_def normal_parts_def list_all_iff)

lemma join_with_last: "plain_parts ns \<Longrightarrow> ns \<noteq> [] \<Longrightarrow> join_with slash ns \<noteq> [] \<and> last (join_with slash ns) \<noteq> slash"
proof (induction slash ns rule: join_with.induct)
  case (2 p)
  then show ?case
    by (cases p rule: rev_cases) (auto simp: plain_parts_def plain_part_def)
next
  case (3 p q ps)
  then show ?case
    by (simp add: plain_parts_def)
qed simp

lemma lexically_normal_absolute:
  assumes "path_is_absolute p"
  obtains ns dir where "plain_parts ns" "ns = [] \<Longrightarrow> \<not> dir"
    "lexically_normal p = slash # join_with slash ns @ (if dir then [slash] else [])"
proof -
  let ?ns = "normal_parts True (split_on slash p)"
  let ?dir = "?ns \<noteq> [] \<and> last ?ns \<noteq> ''..'' \<and> last (split_on slash p) \<in> {[], ''.'', ''..''}"
  have "lexically_normal p = slash # join_with slash ?ns @ (if ?dir then [slash] else [])"
    using assms by (simp add: lexically_normal_def path_is_absolute_def Let_def)
  with normal_parts_plain show thesis
    by (intro that [of ?ns ?dir]) auto
qed

definition is_normal_path :: "string \<Rightarrow> bool" where
  "is_normal_path p \<longleftrightarrow> (\<exists>ns. plain_parts ns \<and> p = slash # join_with slash ns)"

lemma normal_absolute:
  assumes "path_is_absolute p"
  shows "is_normal_path (let full = lexically_normal p
            in if \<not> has_filename full \<and> full \<noteq> root_path full then path_parent full else full)"
proof -
  obtain ns dir where ns: "plain_parts ns" "ns = [] \<Longrightarrow> \<not> dir"
    and p: "lexically_normal p = slash # join_with slash ns @ (if dir then [slash] else [])"
    using lexically_normal_absolute [OF assms] by blast
  show ?thesis
  proof (cases dir)
    case True
    with ns have "ns \<noteq> []" by auto
    note l = join_with_last [OF ns(1) this]
    then obtain v x where v: "join_with slash ns = v @ [x]" "x \<noteq> slash"
      by (metis append_butlast_last_id)
    have "path_parent (slash # join_with slash ns @ [slash]) = slash # join_with slash ns"
      using v by (simp add: path_parent_def Let_def)
    moreover have "\<not> has_filename (slash # join_with slash ns @ [slash])"
      "slash # join_with slash ns @ [slash] \<noteq> root_path (slash # join_with slash ns @ [slash])"
      by (simp_all add: has_filename_def root_path_def path_is_absolute_def)
    ultimately show ?thesis
      using ns(1) p True by (auto simp: is_normal_path_def Let_def)
  next
    case False
    have "has_filename (slash # join_with slash ns) \<or> ns = []"
      using join_with_last [OF ns(1)] by (auto simp: has_filename_def)
    with False p ns(1) show ?thesis
      by (auto simp: is_normal_path_def Let_def root_path_def path_is_absolute_def)
  qed
qed

text \<open>
  On the host every path a tool uses is absolute and has neither empty parts nor
  \<open>.\<close> or \<open>..\<close>, whatever path the model names, when the working directory is absolute.
\<close>

theorem resolve_absolute_normal:
  assumes "cwd = [] \<Longrightarrow> \<exists>cur. h_cwd h = Some cur \<and> path_is_absolute cur" "cwd \<noteq> [] \<Longrightarrow> path_is_absolute cwd"
  shows "is_normal_path (basic_resolve h cwd path)"
proof -
  have join: "path_is_absolute (path_join a b)" if "path_is_absolute a" for a b
    using that by (auto simp: path_join_def path_is_absolute_def)
  show ?thesis
  proof (cases "path_is_absolute (expand_home h path)")
    case True
    then show ?thesis
      using normal_absolute by (simp add: basic_resolve_def Let_def)
  next
    case False
    show ?thesis
    proof (cases "cwd = []")
      case True
      with assms(1) obtain cur where "h_cwd h = Some cur" "path_is_absolute cur" by blast
      with False True normal_absolute [OF join] show ?thesis
        by (simp add: basic_resolve_def Let_def)
    next
      case cwd: False
      with False normal_absolute [OF join [OF assms(2)]] show ?thesis
        by (simp add: basic_resolve_def Let_def)
    qed
  qed
qed

definition sample_host :: "string host" where
  "sample_host = \<lparr>h_home = ''/h'', h_cwd = Some ''/srv'', h_is_dir = \<lambda>p w. p = ''/'',
     h_is_file = \<lambda>p w. p = ''/srv/a'', h_file_size = \<lambda>p w. Some (length w), h_read = \<lambda>p w. Some w,
     h_create_dirs = \<lambda>p w. (True, w), h_write = \<lambda>p c w. (True, c), h_dir = \<lambda>p w. None,
     h_ticks = \<lambda>w. 10,
     h_spawn = \<lambda>req w. Some \<lparr>proc_reads = [''ab'', ''cd''], proc_end = \<lambda>stopped. (0, False, w)\<rparr>\<rparr>"

lemma resolve_absolute_normal_witness:
  "is_normal_path (basic_resolve sample_host [] ''a/../..//b/.'') \<and> basic_resolve sample_host [] ''a/../..//b/.'' = ''/b''"
proof -
  have "basic_resolve sample_host [] ''a/../..//b/.'' = ''/b''"
    by code_simp
  with resolve_absolute_normal [of "[]" sample_host "''a/../..//b/.''"] show ?thesis
    by (simp add: sample_host_def path_is_absolute_def slash_def)
qed

text \<open>A relative working directory gives relative paths, although they are meant to be absolute.\<close>

lemma resolve_relative_cwd: "basic_resolve sample_host ''d'' ''a'' = ''d/a''"
  by code_simp

section \<open>What is captured of a subprocess\<close>

lemma read_loop_truncated:
  "read_loop m alive bs out True ps = (out, True, ps, False)"
  by (induction bs) simp_all

lemma read_loop_output:
  assumes "read_loop m None bs out False ps = (o', tr, ps', st)" "length out \<le> m"
  shows "o' = take m (out @ concat bs) \<and> (tr \<longleftrightarrow> m < length (out @ concat bs)) \<and> ps' = ps \<and> \<not> st"
  using assms
proof (induction bs arbitrary: out)
  case (Cons b bs)
  show ?case
  proof (cases "length out + length b \<le> m")
    case True
    then show ?thesis
      using Cons.IH [of "out @ b"] Cons.prems by simp
  next
    case False
    then show ?thesis
      using Cons.prems by (auto simp: read_loop_truncated Let_def)
  qed
qed auto

lemma read_loop_streams:
  assumes "read_loop m (Some f) bs out False ps = (o', tr, ps', st)" "length out \<le> m" "concat ps = out"
    "\<forall>b \<in> set bs. b \<noteq> []"
  shows "concat ps' = o' \<and> length o' \<le> m \<and> (\<exists>rest. ps' = ps @ rest)
    \<and> (if st then \<not> f ps' \<and> \<not> tr
       else o' = take m (out @ concat bs) \<and> (tr \<longleftrightarrow> m < length (out @ concat bs)))"
  using assms
proof (induction bs arbitrary: out ps)
  case (Cons b bs)
  show ?case
  proof (cases "length out + length b \<le> m")
    case True
    show ?thesis
    proof (cases "f (ps @ [b])")
      case alive: True
      with True Cons.prems have "read_loop m (Some f) bs (out @ b) False (ps @ [b]) = (o', tr, ps', st)"
        by simp
      from Cons.IH [OF this] True Cons.prems show ?thesis
        by auto
    qed (use True Cons.prems in auto)
  next
    case False
    with Cons.prems show ?thesis
      by (auto simp: read_loop_truncated Let_def split: if_splits)
  qed
qed auto

text \<open>
  The output of a subprocess is exactly what it wrote, or the first \<open>max_output\<close> bytes
  of that with the mark behind them; what is handed on while it runs, piece by piece, is
  the same bytes without the mark, unless the client went away.
\<close>

theorem subprocess_capture:
  assumes "h_spawn h \<lparr>sp_args = args, sp_combine_stderr = comb, sp_cwd = cwd, sp_stdin = inp, sp_timeout = t\<rparr> w = Some p"
    "\<forall>b \<in> set (proc_reads p). b \<noteq> []"
    "run_subprocess h args m t alive comb cwd inp w = (res, pushed, w')"
  shows "(let out = concat (proc_reads p); kept = (if m < length out then take m out @ truncated_mark else out)
     in case alive of
          None \<Rightarrow> ex_output res = kept \<and> pushed = []
        | Some f \<Rightarrow> \<not> f pushed \<and> ex_output res = concat pushed
                  \<or> concat pushed = take m out \<and> ex_output res = kept)"
proof -
  obtain o' tr ps st where r: "read_loop m alive (proc_reads p) [] False [] = (o', tr, ps, st)"
    by (metis prod_cases4)
  then have res: "ex_output res = o' @ (if tr then truncated_mark else [])" "pushed = ps"
    using assms(1,3) by (auto simp: run_subprocess_def split: prod.splits)
  show ?thesis
  proof (cases alive)
    case None
    then show ?thesis
      using read_loop_output [of m "proc_reads p" "[]" "[]" o' tr ps st] r res by auto
  next
    case (Some f)
    then show ?thesis
      using read_loop_streams [of m f "proc_reads p" "[]" "[]" o' tr ps st] r res assms(2) by (auto split: if_splits)
  qed
qed

lemma subprocess_capture_witness:
  "ex_output (fst (run_subprocess sample_host [''x''] 3 1 (Some (\<lambda>ps. True)) True [] None ''w'')) = ''abc'' @ truncated_mark
    \<and> (let out = ''abcd''; kept = ''abc'' @ truncated_mark
       in \<not> True \<and> kept = concat [''ab'', ''c''] \<or> concat [''ab'', ''c''] = take 3 out \<and> kept = kept)"
proof -
  let ?p = "\<lparr>proc_reads = [''ab'', ''cd''], proc_end = \<lambda>stopped. (0 :: int, False, ''w'')\<rparr>"
  have spawn: "h_spawn sample_host \<lparr>sp_args = [''x''], sp_combine_stderr = True, sp_cwd = [], sp_stdin = None, sp_timeout = 1\<rparr> ''w'' = Some ?p"
    by (simp add: sample_host_def)
  have run: "run_subprocess sample_host [''x''] 3 1 (Some (\<lambda>ps. True)) True [] None ''w''
    = (\<lparr>ex_output = ''abc'' @ truncated_mark, ex_code = 0, ex_timed_out = False\<rparr>, [''ab'', ''c''], ''w'')"
    by (simp add: run_subprocess_def spawn)
  show ?thesis
    using subprocess_capture [OF spawn _ run] run by simp
qed

section \<open>Nothing of an isolate reaches the host\<close>

text \<open>
  What may be started for a runtime: for a container \<open>docker exec\<close> or \<open>podman exec\<close>, as the runtime says,
  with or without \<open>-i\<close>, the container and the command for it; for a target of ssh the client in
  batch mode with its fixed options, the target and one line for its shell.  Neither the container nor
  the target can be read as an option.
\<close>

definition container_command :: "string \<Rightarrow> string list \<Rightarrow> bool" where
  "container_command runtime argv \<longleftrightarrow>
     (\<exists>engine container command. (engine = ''docker'' \<or> engine = ''podman'') \<and> runtime = engine @ ''-container:'' @ container
        \<and> container \<noteq> [] \<and> is_alnum (hd container)
        \<and> (argv = [engine, ''exec'', container] @ command \<or> argv = [engine, ''exec'', ''-i'', container] @ command))"

definition ssh_command :: "string \<Rightarrow> string list \<Rightarrow> bool" where
  "ssh_command runtime argv \<longleftrightarrow>
     (\<exists>target options line. runtime = ''ssh:'' @ target \<and> target \<noteq> [] \<and> hd target \<noteq> CHR ''-''
        \<and> argv = [''ssh''] @ options @ [target, line]
        \<and> set options \<subseteq> {''-o'', ''-n'', ''BatchMode=yes'', ''PasswordAuthentication=no'', ''KbdInteractiveAuthentication=no'',
             ''StrictHostKeyChecking=yes''})"

definition client_command :: "string \<Rightarrow> string list \<Rightarrow> bool" where
  "client_command runtime argv \<longleftrightarrow> container_command runtime argv \<or> ssh_command runtime argv"

text \<open>The isolate of a runtime.\<close>

fun isolate_of :: "string \<Rightarrow> isolate \<Rightarrow> bool" where
  "isolate_of runtime (Container bin i) \<longleftrightarrow> bin \<in> set engines \<and> runtime = bin @ ''-container:'' @ i \<and> i \<noteq> [] \<and> is_alnum (hd i)"
| "isolate_of runtime (Ssh target) \<longleftrightarrow> runtime = ''ssh:'' @ target \<and> target \<noteq> [] \<and> hd target \<noteq> CHR ''-''"

lemma isolate_starts_client:
  assumes "isolate_of runtime box"
  shows "client_command runtime (build_argv box inner needs_stdin)"
proof (cases box)
  case (Container bin i)
  then have "container_command runtime (build_argv box inner needs_stdin)"
    using assms unfolding container_command_def
    by (intro exI [of _ bin] exI [of _ i] exI [of _ inner]) (auto simp: engines_def)
  then show ?thesis by (simp add: client_command_def)
next
  case (Ssh target)
  then have "ssh_command runtime (build_argv box inner needs_stdin)"
    using assms unfolding ssh_command_def
    by (intro exI [of _ target] exI [of _ "tl ssh_argv @ (if needs_stdin then [] else [''-n''])"] exI [of _ "shell_quote_join inner"])
      (auto simp: ssh_argv_def)
  then show ?thesis by (simp add: client_command_def)
qed

lemma starts_with_append: "starts_with s p \<longleftrightarrow> (\<exists>t. s = p @ t)"
  unfolding starts_with_def by (metis append_eq_conv_conj append_take_drop_id)

lemma parse_engines_spec:
  "parse_engines bins spec = Some c \<Longrightarrow> rt_bin c \<in> set bins \<and> (rt_attach c \<longrightarrow> spec = rt_bin c @ ''-container:'' @ rt_arg c)"
  by (induction bins) (auto simp: Let_def starts_with_append split: if_splits)

lemma make_tools_io_isolate:
  assumes "make_tools_io params = Inr io" "json_value get_str params ''runtime'' [] = runtime" "runtime \<noteq> []"
  obtains box cwd where "io = Io_isolate box cwd" "isolate_of runtime box"
proof (cases "parse_runtime_spec runtime")
  case None
  then show thesis
    using that assms by (auto simp: make_tools_io_def Let_def is_valid_target_def starts_with_append split: if_splits)
next
  case (Some c)
  then have "rt_bin c \<in> set engines \<and> (rt_attach c \<longrightarrow> runtime = rt_bin c @ ''-container:'' @ rt_arg c)"
    unfolding parse_runtime_spec_def by (rule parse_engines_spec)
  with Some show thesis
    using that assms by (auto simp: make_tools_io_def Let_def is_valid_id_def split: if_splits)
qed

text \<open>Two hosts that answer the clients of a runtime alike, and otherwise have nothing in common.\<close>

definition same_clients :: "string \<Rightarrow> 'w host \<Rightarrow> 'w host \<Rightarrow> bool" where
  "same_clients runtime h h' \<longleftrightarrow> (\<forall>req w. client_command runtime (sp_args req) \<and> sp_cwd req = [] \<longrightarrow> h_spawn h req w = h_spawn h' req w)"

lemma run_subprocess_same:
  assumes "same_clients runtime h h'" "isolate_of runtime box"
  shows "run_subprocess h (build_argv box inner b) m t alive comb [] inp w
     = run_subprocess h' (build_argv box inner b) m t alive comb [] inp w"
proof -
  have "h_spawn h \<lparr>sp_args = build_argv box inner b, sp_combine_stderr = comb, sp_cwd = [], sp_stdin = inp, sp_timeout = t\<rparr> w
    = h_spawn h' \<lparr>sp_args = build_argv box inner b, sp_combine_stderr = comb, sp_cwd = [], sp_stdin = inp, sp_timeout = t\<rparr> w"
    using assms(1) isolate_starts_client [OF assms(2)] unfolding same_clients_def by simp
  then show ?thesis
    by (simp add: run_subprocess_def)
qed

lemma isolate_exec_same:
  "same_clients runtime h h' \<Longrightarrow> isolate_of runtime box \<Longrightarrow> isolate_exec h box = isolate_exec h' box"
  by (intro ext) (simp add: isolate_exec_def run_subprocess_same)

lemma find_listed_same:
  "same_clients runtime h h' \<Longrightarrow> isolate_of runtime box \<Longrightarrow> find_listed h box = find_listed h' box"
  by (intro ext) (simp add: find_listed_def find_entries_def isolate_exec_same)

lemma isolate_same:
  assumes "same_clients runtime h h'" "isolate_of runtime box"
  shows "io_resolve h (Io_isolate box cwd) = io_resolve h' (Io_isolate box cwd)"
    "io_is_directory h (Io_isolate box cwd) = io_is_directory h' (Io_isolate box cwd)"
    "io_is_regular_file h (Io_isolate box cwd) = io_is_regular_file h' (Io_isolate box cwd)"
    "io_file_size h (Io_isolate box cwd) = io_file_size h' (Io_isolate box cwd)"
    "io_read_file h (Io_isolate box cwd) = io_read_file h' (Io_isolate box cwd)"
    "io_write_file h (Io_isolate box cwd) = io_write_file h' (Io_isolate box cwd)"
    "io_list_entries h (Io_isolate box cwd) = io_list_entries h' (Io_isolate box cwd)"
    "io_run h (Io_isolate box cwd) = io_run h' (Io_isolate box cwd)"
  by (unfold fun_eq_iff io_resolve.simps io_is_directory.simps io_is_regular_file.simps io_file_size.simps
        io_read_file.simps io_write_file.simps io_list_entries.simps io_run.simps shell_test_def shell_run_def
        isolate_file_size_def isolate_read_file_def isolate_write_file_def isolate_list_entries_def isolate_run_def
        find_listed_same [OF assms] isolate_exec_same [OF assms] run_subprocess_same [OF assms]) simp_all

text \<open>
  A file of more than 64 MB is read from an isolate as its first 64 MB with the mark of a cut
  output behind them, and the read counts as successful.
\<close>

lemma isolate_read_cut:
  assumes "h_spawn h \<lparr>sp_args = build_argv box [''cat'', ''--'', isolate_resolve cwd path] False,
      sp_combine_stderr = False, sp_cwd = [], sp_stdin = None, sp_timeout = 15\<rparr> w
        = Some \<lparr>proc_reads = reads, proc_end = \<lambda>stopped. (0, False, w')\<rparr>"
    "SERVER_TOOL_ISOLATE_READ_FILE_MAX_SIZE < length (concat reads)"
  shows "io_read_file h (Io_isolate box cwd) path w =
     (Some (take SERVER_TOOL_ISOLATE_READ_FILE_MAX_SIZE (concat reads) @ truncated_mark), w')"
proof -
  obtain o' tr ps st where r:
    "read_loop SERVER_TOOL_ISOLATE_READ_FILE_MAX_SIZE None reads [] False [] = (o', tr, ps, st)"
    by (metis prod_cases4)
  from read_loop_output [OF this] assms show ?thesis
    by (simp add: isolate_read_file_def isolate_exec_def run_subprocess_def r
        SERVER_TOOL_ISOLATE_EXEC_TIMEOUT_def exec_ok_def)
qed

end
