(* ===== verification/Edit.thy ===== *)
theory Edit
  imports Strings
begin

text \<open>
  The text replacement of the \<open>edit_file\<close> tool (\<open>server_tool_edit_file\<close>, server-tools.cpp): the
  search for the old texts, exactly or up to blanks at the ends of lines and typographic
  characters, the checks for uniqueness and overlap, and the two ways of applying the edits.
  Files are byte strings.  The lemmas show that an accepted call replaces every old text once and
  leaves everything else as it is: all other bytes when every old text is found exactly, and all
  lines no edit touches otherwise.
\<close>

section \<open>Normalisation\<close>

text \<open>The loop that replaces every occurrence, from left to right and behind the last replacement.\<close>

function replace_all :: "string \<Rightarrow> string \<Rightarrow> string \<Rightarrow> string" where
  "replace_all old to s =
     (if old = [] then s else
      case str_find s old 0 of
        None \<Rightarrow> s
      | Some p \<Rightarrow> take p s @ to @ replace_all old to (drop (p + length old) s))"
  by pat_completeness auto
termination
proof (relation "measure (\<lambda>(old, to, s). length s)", goal_cases)
  case (2 old to s p)
  then have "occurs_at old s p" "p \<le> length s" "old \<noteq> []"
    using str_find_Some [of s old 0 p] by auto
  then show ?case
    using occurs_at_length [of old s p] by (cases old) auto
qed simp

declare replace_all.simps [simp del]

text \<open>What the typographic characters, as UTF-8 sequences, are replaced by, in the order of the code.\<close>

definition general_punctuation :: "nat \<Rightarrow> string" where
  "general_punctuation b = [CHR 0xE2, CHR 0x80, char_of b]"

definition fuzzy_table :: "(string \<times> string) list" where
  "fuzzy_table =
     map (\<lambda>b. (general_punctuation b, [CHR 0x27])) [0x98..<0x9C]
     @ map (\<lambda>b. (general_punctuation b, [CHR 0x22])) [0x9C..<0xA0]
     @ map (\<lambda>b. (general_punctuation b, ''-'')) [0x90..<0x96]
     @ [([CHR 0xE2, CHR 0x88, CHR 0x92], ''-''), ([CHR 0xC2, CHR 0xA0], '' '')]
     @ map (\<lambda>b. (general_punctuation b, '' '')) [0x82..<0x8B]
     @ [(general_punctuation 0xAF, '' ''), ([CHR 0xE2, CHR 0x81, CHR 0x9F], '' ''),
        ([CHR 0xE3, CHR 0x80, CHR 0x80], '' '')]"

text \<open>The table with its entries written out, for evaluation.\<close>

lemma fuzzy_table_code [code]:
  "fuzzy_table =
     [([CHR 0xE2, CHR 0x80, CHR 0x98], [CHR 0x27]), ([CHR 0xE2, CHR 0x80, CHR 0x99], [CHR 0x27]),
      ([CHR 0xE2, CHR 0x80, CHR 0x9A], [CHR 0x27]), ([CHR 0xE2, CHR 0x80, CHR 0x9B], [CHR 0x27]),
      ([CHR 0xE2, CHR 0x80, CHR 0x9C], [CHR 0x22]), ([CHR 0xE2, CHR 0x80, CHR 0x9D], [CHR 0x22]),
      ([CHR 0xE2, CHR 0x80, CHR 0x9E], [CHR 0x22]), ([CHR 0xE2, CHR 0x80, CHR 0x9F], [CHR 0x22]),
      ([CHR 0xE2, CHR 0x80, CHR 0x90], [CHR 0x2D]), ([CHR 0xE2, CHR 0x80, CHR 0x91], [CHR 0x2D]),
      ([CHR 0xE2, CHR 0x80, CHR 0x92], [CHR 0x2D]), ([CHR 0xE2, CHR 0x80, CHR 0x93], [CHR 0x2D]),
      ([CHR 0xE2, CHR 0x80, CHR 0x94], [CHR 0x2D]), ([CHR 0xE2, CHR 0x80, CHR 0x95], [CHR 0x2D]),
      ([CHR 0xE2, CHR 0x88, CHR 0x92], [CHR 0x2D]), ([CHR 0xC2, CHR 0xA0], [CHR 0x20]),
      ([CHR 0xE2, CHR 0x80, CHR 0x82], [CHR 0x20]), ([CHR 0xE2, CHR 0x80, CHR 0x83], [CHR 0x20]),
      ([CHR 0xE2, CHR 0x80, CHR 0x84], [CHR 0x20]), ([CHR 0xE2, CHR 0x80, CHR 0x85], [CHR 0x20]),
      ([CHR 0xE2, CHR 0x80, CHR 0x86], [CHR 0x20]), ([CHR 0xE2, CHR 0x80, CHR 0x87], [CHR 0x20]),
      ([CHR 0xE2, CHR 0x80, CHR 0x88], [CHR 0x20]), ([CHR 0xE2, CHR 0x80, CHR 0x89], [CHR 0x20]),
      ([CHR 0xE2, CHR 0x80, CHR 0x8A], [CHR 0x20]), ([CHR 0xE2, CHR 0x80, CHR 0xAF], [CHR 0x20]),
      ([CHR 0xE2, CHR 0x81, CHR 0x9F], [CHR 0x20]), ([CHR 0xE3, CHR 0x80, CHR 0x80], [CHR 0x20])]"
  by (simp add: fuzzy_table_def general_punctuation_def upt_rec char_of_def bit_0)

definition is_blank :: "char \<Rightarrow> bool" where
  "is_blank c = (c = CHR '' '' \<or> c = CHR 0x09 \<or> c = CHR 0x0D)"

definition normalize_line_for_fuzzy_match :: "string \<Rightarrow> string" where
  "normalize_line_for_fuzzy_match line =
     fold (\<lambda>(old, to). replace_all old to) fuzzy_table (rev (dropWhile is_blank (rev line)))"

function normalize_for_fuzzy_match :: "string \<Rightarrow> string" where
  "normalize_for_fuzzy_match content =
     (case next_line content of
        (line, None) \<Rightarrow> normalize_line_for_fuzzy_match line
      | (line, Some rest) \<Rightarrow> normalize_line_for_fuzzy_match line @ newline # normalize_for_fuzzy_match rest)"
  by pat_completeness auto
termination
  by (relation "measure length") (auto dest: next_line_length)

declare normalize_for_fuzzy_match.simps [simp del]

section \<open>Lines\<close>

function split_lines_with_endings :: "string \<Rightarrow> string list" where
  "split_lines_with_endings content =
     (if content = [] then [] else
      case next_line content of
        (line, None) \<Rightarrow> [content]
      | (line, Some rest) \<Rightarrow> (line @ [newline]) # split_lines_with_endings rest)"
  by pat_completeness auto
termination
  by (relation "measure length") (auto dest: next_line_length)

declare split_lines_with_endings.simps [simp del]

text \<open>\<open>line_span\<close> is a pair of the offsets of a line and of the next one.\<close>

fun spans_from :: "nat \<Rightarrow> string list \<Rightarrow> (nat \<times> nat) list" where
  "spans_from offset [] = []"
| "spans_from offset (l # ls) = (offset, offset + length l) # spans_from (offset + length l) ls"

definition get_line_spans :: "string \<Rightarrow> (nat \<times> nat) list" where
  "get_line_spans content = spans_from 0 (split_lines_with_endings content)"

section \<open>Matching\<close>

function count_occurrences :: "string \<Rightarrow> string \<Rightarrow> nat \<Rightarrow> nat" where
  "count_occurrences content needle pos =
     (if needle = [] then 0 else
      case str_find content needle pos of
        None \<Rightarrow> 0
      | Some p \<Rightarrow> Suc (count_occurrences content needle (p + length needle)))"
  by pat_completeness auto
termination
proof (relation "measure (\<lambda>(content, needle, pos). Suc (length content) - pos)", goal_cases)
  case (2 content needle pos p)
  then have "pos \<le> p" "p \<le> length content" "needle \<noteq> []"
    using str_find_Some [of content needle pos p] by auto
  then show ?case
    by (cases needle) auto
qed simp

declare count_occurrences.simps [simp del]

record edit_req =
  old_text :: string
  new_text :: string

record matched_edit =
  edit_index :: nat
  match_index :: nat
  match_length :: nat
  match_new :: string

text \<open>Is some old text only found after normalisation?  \<open>Inl\<close> is the error the tool answers.\<close>

fun find_fuzzy :: "string \<Rightarrow> string \<Rightarrow> nat \<Rightarrow> edit_req list \<Rightarrow> bool \<Rightarrow> string + bool" where
  "find_fuzzy path orig i [] any_fuzzy = Inr any_fuzzy"
| "find_fuzzy path orig i (e # es) any_fuzzy =
     (if str_contains orig (old_text e) then find_fuzzy path orig (i + 1) es any_fuzzy
      else if \<not> str_contains (normalize_for_fuzzy_match orig) (normalize_for_fuzzy_match (old_text e)) then
        Inl (''could not find edits['' @ show_nat i @ ''].old_text in '' @ path
             @ '', it must match the file's current content exactly'')
      else find_fuzzy path orig (i + 1) es True)"

definition edit_needle :: "bool \<Rightarrow> string \<Rightarrow> string" where
  "edit_needle any_fuzzy s = (if any_fuzzy then normalize_for_fuzzy_match s else s)"

fun match_edits :: "string \<Rightarrow> bool \<Rightarrow> string \<Rightarrow> nat \<Rightarrow> edit_req list \<Rightarrow> string + matched_edit list" where
  "match_edits path any_fuzzy orig i [] = Inr []"
| "match_edits path any_fuzzy orig i (e # es) =
     (let needle = edit_needle any_fuzzy (old_text e);
          occurrences = count_occurrences (normalize_for_fuzzy_match orig) (normalize_for_fuzzy_match (old_text e)) 0
      in if occurrences > 1 then
           Inl (''found '' @ show_nat occurrences @ '' occurrences of edits['' @ show_nat i
                @ ''].old_text in '' @ path @ '', it must be unique'')
         else case match_edits path any_fuzzy orig (i + 1) es of
                Inl err \<Rightarrow> Inl err
              | Inr ms \<Rightarrow>
                  Inr (\<lparr>edit_index = i,
                        match_index = (case str_find (edit_needle any_fuzzy orig) needle 0 of Some p \<Rightarrow> p | None \<Rightarrow> npos),
                        match_length = length needle, match_new = new_text e\<rparr> # ms))"

fun find_overlap :: "matched_edit list \<Rightarrow> (nat \<times> nat) option" where
  "find_overlap (a # b # ms) =
     (if sz_add (match_index a) (match_length a) > match_index b then Some (edit_index a, edit_index b)
      else find_overlap (b # ms))"
| "find_overlap _ = None"

section \<open>Applying the edits\<close>

definition replace_at :: "string \<Rightarrow> nat \<Rightarrow> nat \<Rightarrow> string \<Rightarrow> string result" where
  "replace_at result local_index len to =
     rbind (substr result 0 local_index) (\<lambda>before.
     rbind (substr_from result (sz_add local_index len)) (\<lambda>behind. Inr (before @ to @ behind)))"

text \<open>The replacements are taken from the last one to the first.\<close>

definition apply_replacements :: "string \<Rightarrow> matched_edit list \<Rightarrow> nat \<Rightarrow> string result" where
  "apply_replacements content replacements offset =
     foldr (\<lambda>r acc. rbind acc (\<lambda>result.
               replace_at result (sz_sub (match_index r) offset) (match_length r) (match_new r)))
       replacements (Inr content)"

text \<open>The first line that ends at \<open>replacement_end\<close> or behind it.\<close>

fun find_end_line :: "(nat \<times> nat) list \<Rightarrow> nat \<Rightarrow> nat \<Rightarrow> nat option" where
  "find_end_line [] replacement_end i = None"
| "find_end_line (l # ls) replacement_end i =
     (if snd l < replacement_end then find_end_line ls replacement_end (i + 1) else Some i)"

definition get_replacement_line_range :: "(nat \<times> nat) list \<Rightarrow> nat \<Rightarrow> nat \<Rightarrow> (nat \<times> nat) option" where
  "get_replacement_line_range ls m_index m_length =
     (case find (\<lambda>i. m_index \<ge> fst (ls ! i) \<and> m_index < snd (ls ! i)) [0..<length ls] of
        None \<Rightarrow> None
      | Some start_line \<Rightarrow>
          map_option (\<lambda>end_line. (start_line, end_line + 1))
            (find_end_line (drop start_line ls) (sz_add m_index m_length) start_line))"

record edit_group =
  start_line :: nat
  end_line :: nat
  reps :: "matched_edit list"

text \<open>
  When the range is not found the answer is not looked at and both variables stay 0.  The list
  \<open>groups\<close> is built at its end.
\<close>

definition add_to_groups :: "(nat \<times> nat) list \<Rightarrow> matched_edit \<Rightarrow> edit_group list \<Rightarrow> edit_group list" where
  "add_to_groups base_lines r groups =
     (let (s, e) = (case get_replacement_line_range base_lines (match_index r) (match_length r) of
                      Some lr \<Rightarrow> lr | None \<Rightarrow> (0, 0))
      in if groups \<noteq> [] \<and> s < end_line (last groups) then
           butlast groups @
             [last groups\<lparr>end_line := max (end_line (last groups)) e, reps := reps (last groups) @ [r]\<rparr>]
         else groups @ [\<lparr>start_line = s, end_line = e, reps = [r]\<rparr>])"

text \<open>
  Reading a line outside of the vectors is undefined and aborts here; \<open>end_line - 1\<close> wraps around
  at 0, so that it is outside as well.
\<close>

fun emit_groups :: "string list \<Rightarrow> (nat \<times> nat) list \<Rightarrow> string \<Rightarrow> nat \<Rightarrow> edit_group list \<Rightarrow> string result" where
  "emit_groups original_lines base_lines base_content original_line_index [] =
     Inr (concat (drop original_line_index original_lines))"
| "emit_groups original_lines base_lines base_content original_line_index (g # groups) =
     (if original_line_index < start_line g \<and> length original_lines < start_line g then Inl Abort
      else if length base_lines \<le> start_line g \<or> end_line g = 0 \<or> length base_lines < end_line g then Inl Abort
      else
        let kept = concat (take (start_line g - original_line_index) (drop original_line_index original_lines));
            group_start_offset = fst (base_lines ! start_line g);
            group_end_offset = snd (base_lines ! (end_line g - 1))
        in rbind (substr base_content group_start_offset (sz_sub group_end_offset group_start_offset)) (\<lambda>slice.
           rbind (apply_replacements slice (reps g) group_start_offset) (\<lambda>edited.
           rbind (emit_groups original_lines base_lines base_content (end_line g) groups) (\<lambda>rest.
           Inr (kept @ edited @ rest)))))"

definition apply_replacements_preserving_unchanged_lines ::
  "string \<Rightarrow> string \<Rightarrow> matched_edit list \<Rightarrow> string result" where
  "apply_replacements_preserving_unchanged_lines original_content base_content replacements =
     (let base_lines = get_line_spans base_content
      in emit_groups (split_lines_with_endings original_content) base_lines base_content 0
           (fold (add_to_groups base_lines) replacements []))"

text \<open>
  The whole of \<open>invoke\<close> between reading and writing the file.  \<open>std::sort\<close> leaves the order of
  equal offsets open; here they stay in the order of the call.
\<close>

datatype edit_answer = Edit_error string | Edit_done string nat

definition edit_content :: "string \<Rightarrow> string \<Rightarrow> edit_req list \<Rightarrow> edit_answer result" where
  "edit_content path original_content edits =
     (case find_fuzzy path original_content 0 edits False of
        Inl err \<Rightarrow> Inr (Edit_error err)
      | Inr any_fuzzy \<Rightarrow>
          let base_content = edit_needle any_fuzzy original_content
          in (case match_edits path any_fuzzy original_content 0 edits of
               Inl err \<Rightarrow> Inr (Edit_error err)
             | Inr ms \<Rightarrow>
                 let matched = sort_key match_index ms
                 in (case find_overlap matched of
                      Some (i, j) \<Rightarrow>
                        Inr (Edit_error (''edits['' @ show_nat i @ ''] and edits['' @ show_nat j @ ''] overlap in ''
                          @ path @ ''; merge them into one edit or target disjoint regions''))
                    | None \<Rightarrow>
                        rbind (if any_fuzzy
                               then apply_replacements_preserving_unchanged_lines original_content base_content matched
                               else apply_replacements base_content matched 0) (\<lambda>new_content.
                        Inr (if new_content = original_content
                             then Edit_error ''no changes made: the replacement(s) produced identical content''
                             else Edit_done new_content (length matched))))))"

section \<open>Edits found exactly\<close>

text \<open>The replacements lie one behind the other from \<open>pos\<close> on and end at \<open>lim\<close> at the latest.\<close>

fun chained :: "nat \<Rightarrow> matched_edit list \<Rightarrow> nat \<Rightarrow> bool" where
  "chained pos [] lim \<longleftrightarrow> pos \<le> lim"
| "chained pos (m # ms) lim \<longleftrightarrow> pos \<le> match_index m \<and> chained (match_index m + match_length m) ms lim"

definition found_text :: "string \<Rightarrow> matched_edit \<Rightarrow> string \<times> string" where
  "found_text base m = (take (match_length m) (drop (match_index m) base), match_new m)"

text \<open>
  A list of segments (unchanged text, old text, new text), ended by an unchanged text, read as
  the text before and behind the edits.
\<close>

type_synonym segments = "(string \<times> string \<times> string) list"

definition before_edits :: "segments \<Rightarrow> string \<Rightarrow> string" where
  "before_edits sg z = concat (map (\<lambda>(gap, old, to). gap @ old) sg) @ z"

definition after_edits :: "segments \<Rightarrow> string \<Rightarrow> string" where
  "after_edits sg z = concat (map (\<lambda>(gap, old, to). gap @ to) sg) @ z"

lemma chained_le: "chained pos ms lim \<Longrightarrow> pos \<le> lim"
  by (induction pos ms lim rule: chained.induct) auto

lemma chained_widen: "chained pos ms lim \<Longrightarrow> lim \<le> lim' \<Longrightarrow> chained pos ms lim'"
  by (induction pos ms lim rule: chained.induct) auto

lemma chained_start: "chained pos ms lim \<Longrightarrow> ms \<noteq> [] \<Longrightarrow> pos' \<le> match_index (hd ms) \<Longrightarrow> chained pos' ms lim"
  by (cases ms) auto

lemma chained_append_Cons:
  "chained pos (xs @ y # ys) lim \<longleftrightarrow> chained pos xs (match_index y) \<and> chained (match_index y) (y # ys) lim"
  by (induction xs arbitrary: pos) auto

lemma apply_replacements_Cons:
  "apply_replacements c (m # ms) off =
     rbind (apply_replacements c ms off)
       (\<lambda>r. replace_at r (sz_sub (match_index m) off) (match_length m) (match_new m))"
  by (simp add: apply_replacements_def)

text \<open>The segments, and where each old text begins.\<close>

lemma apply_replacements_at:
  assumes "chained pos ms (off + length c)" "off \<le> pos" "off + length c < 2 ^ 64"
  shows "\<exists>sg z. drop (pos - off) c = before_edits sg z
           \<and> apply_replacements c ms off = Inr (take (pos - off) c @ after_edits sg z)
           \<and> map snd sg = map (\<lambda>m. (take (match_length m) (drop (match_index m - off) c), match_new m)) ms
           \<and> (\<forall>k < length ms. pos + length (before_edits (take k sg) (fst (sg ! k))) = match_index (ms ! k))"
  using assms
proof (induction ms arbitrary: pos)
  case Nil
  then show ?case
    by (auto simp: apply_replacements_def before_edits_def after_edits_def intro!: exI [of _ "[]"])
next
  case (Cons m ms)
  define i where "i = match_index m - off"
  define l where "l = match_length m"
  from Cons.prems have c: "chained (match_index m + l) ms (off + length c)" and i: "pos - off \<le> i" "match_index m = off + i"
    by (auto simp: i_def l_def)
  then have il: "i + l \<le> length c" "match_index m + l - off = i + l"
    using chained_le [OF c] by auto
  from Cons.IH [OF c] i Cons.prems obtain sg z where
    IH: "drop (i + l) c = before_edits sg z"
      "apply_replacements c ms off = Inr (take (i + l) c @ after_edits sg z)"
      "map snd sg = map (\<lambda>m. (take (match_length m) (drop (match_index m - off) c), match_new m)) ms"
      "\<forall>k < length ms. match_index m + l + length (before_edits (take k sg) (fst (sg ! k))) = match_index (ms ! k)"
    by (auto simp: il)
  let ?seg = "(take (i - (pos - off)) (drop (pos - off) c), take l (drop i c), match_new m)"
  have "sz_sub (match_index m) off = i" "sz_add i l = i + l"
    using Cons.prems(3) i il by (simp_all add: sz_sub_small sz_add_small)
  then have "apply_replacements c (m # ms) off = Inr (take i c @ match_new m @ after_edits sg z)"
    using il by (simp add: apply_replacements_Cons IH replace_at_def substr_def substr_from_def l_def [symmetric])
  also have "take i c = take (pos - off) c @ take (i - (pos - off)) (drop (pos - off) c)"
    using i by (metis le_add_diff_inverse take_add)
  finally have "apply_replacements c (m # ms) off = Inr (take (pos - off) c @ after_edits (?seg # sg) z)"
    by (simp add: after_edits_def)
  moreover have "drop (pos - off) c = before_edits (?seg # sg) z"
  proof -
    have "drop (pos - off) c = take (i - (pos - off)) (drop (pos - off) c) @ drop i c"
      using i by (metis append_take_drop_id drop_drop le_add_diff_inverse2)
    also have "drop i c = take l (drop i c) @ drop (i + l) c"
      by (metis append_take_drop_id drop_drop add.commute)
    finally show ?thesis
      by (simp add: before_edits_def IH(1))
  qed
  moreover have "map snd (?seg # sg) = map (\<lambda>m. (take (match_length m) (drop (match_index m - off) c), match_new m)) (m # ms)"
    by (simp add: IH(3) i_def l_def)
  moreover have "pos + length (before_edits (take k (?seg # sg)) (fst ((?seg # sg) ! k))) = match_index ((m # ms) ! k)"
    if "k < length (m # ms)" for k
  proof (cases k)
    case 0
    then show ?thesis using i il Cons.prems(2) by (simp add: before_edits_def)
  next
    case (Suc k')
    have "pos + length (before_edits (take k (?seg # sg)) (fst ((?seg # sg) ! k)))
        = match_index m + l + length (before_edits (take k' sg) (fst (sg ! k')))"
      using i il Cons.prems(2) by (simp add: Suc before_edits_def)
    then show ?thesis using IH(4) that by (simp add: Suc)
  qed
  ultimately show ?case by blast
qed

lemma apply_replacements_segments:
  assumes "chained pos ms (off + length c)" "off \<le> pos" "off + length c < 2 ^ 64"
  shows "\<exists>sg z. drop (pos - off) c = before_edits sg z
           \<and> apply_replacements c ms off = Inr (take (pos - off) c @ after_edits sg z)
           \<and> map snd sg = map (\<lambda>m. (take (match_length m) (drop (match_index m - off) c), match_new m)) ms"
  using apply_replacements_at [OF assms] by blast

lemma find_fuzzy_exact:
  "find_fuzzy path orig i es b = Inr False \<Longrightarrow> \<not> b \<and> (\<forall>e \<in> set es. str_contains orig (old_text e))"
  by (induction path orig i es b rule: find_fuzzy.induct) (auto split: if_splits)

lemma find_fuzzy_all_exact:
  "\<forall>e \<in> set es. str_contains orig (old_text e) \<Longrightarrow> find_fuzzy path orig i es b = Inr b"
  by (induction es arbitrary: i) auto

lemma match_edits_found:
  assumes "match_edits path f orig i es = Inr ms"
    "\<forall>e \<in> set es. str_contains (edit_needle f orig) (edit_needle f (old_text e))"
  shows "map (found_text (edit_needle f orig)) ms = map (\<lambda>e. (edit_needle f (old_text e), new_text e)) es
    \<and> (\<forall>m \<in> set ms. match_index m + match_length m \<le> length (edit_needle f orig))
    \<and> map match_length ms = map (\<lambda>e. length (edit_needle f (old_text e))) es"
  using assms
proof (induction es arbitrary: i ms)
  case (Cons e es)
  then have "str_contains (edit_needle f orig) (edit_needle f (old_text e))"
    by simp
  then obtain p where p: "str_find (edit_needle f orig) (edit_needle f (old_text e)) 0 = Some p"
    by (auto simp: str_contains_def)
  note q = str_find_Some [OF p]
  have "p + length (edit_needle f (old_text e)) \<le> length (edit_needle f orig)"
    "take (length (edit_needle f (old_text e))) (drop p (edit_needle f orig)) = edit_needle f (old_text e)"
    using q occurs_at_length by (auto simp: occurs_at_def)
  moreover obtain ms' where "match_edits path f orig (i + 1) es = Inr ms'"
    "ms = \<lparr>edit_index = i, match_index = p, match_length = length (edit_needle f (old_text e)), match_new = new_text e\<rparr> # ms'"
    using Cons.prems(1) by (auto simp: Let_def p split: if_splits sum.splits)
  ultimately show ?case
    using Cons.IH [of "i + 1" ms'] Cons.prems(2) by (simp add: found_text_def)
qed simp

lemma no_overlap_chained:
  assumes "find_overlap ms = None" "sorted (map match_index ms)" "lim < 2 ^ 64"
    "\<forall>m \<in> set ms. match_index m + match_length m \<le> lim" "ms \<noteq> []"
  shows "chained (match_index (hd ms)) ms lim"
  using assms
proof (induction ms rule: find_overlap.induct)
  case (1 a b ms)
  then have "match_index a + match_length a \<le> match_index b"
    by (auto simp: sz_add_small split: if_splits)
  with 1 show ?case
    by (auto split: if_splits)
qed auto

lemma sorted_matches:
  assumes "match_edits path f orig i es = Inr ms" "find_overlap (sort_key match_index ms) = None"
    "\<forall>e \<in> set es. str_contains (edit_needle f orig) (edit_needle f (old_text e))"
    "length (edit_needle f orig) < 2 ^ 64"
  shows "chained 0 (sort_key match_index ms) (length (edit_needle f orig))"
    "mset (map (found_text (edit_needle f orig)) (sort_key match_index ms))
       = mset (map (\<lambda>e. (edit_needle f (old_text e), new_text e)) es)"
    "length (sort_key match_index ms) = length es"
proof -
  note m = match_edits_found [OF assms(1,3)]
  show "chained 0 (sort_key match_index ms) (length (edit_needle f orig))"
  proof (cases "ms = []")
    case False
    then have "sort_key match_index ms \<noteq> []"
      by (metis set_empty set_sort)
    then show ?thesis
      using no_overlap_chained [OF assms(2) _ assms(4)] m chained_start by fastforce
  qed simp
  show "mset (map (found_text (edit_needle f orig)) (sort_key match_index ms))
       = mset (map (\<lambda>e. (edit_needle f (old_text e), new_text e)) es)"
    using arg_cong [OF conjunct1 [OF m], of mset] by simp
  show "length (sort_key match_index ms) = length es"
    using arg_cong [OF conjunct1 [OF m], of length] by simp
qed

lemma edit_content_done:
  "edit_content path orig edits = Inr (Edit_done result n) \<longleftrightarrow>
     (\<exists>f ms. find_fuzzy path orig 0 edits False = Inr f \<and> match_edits path f orig 0 edits = Inr ms
        \<and> find_overlap (sort_key match_index ms) = None
        \<and> (if f then apply_replacements_preserving_unchanged_lines orig (edit_needle f orig) (sort_key match_index ms)
            else apply_replacements (edit_needle f orig) (sort_key match_index ms) 0) = Inr result
        \<and> result \<noteq> orig \<and> n = length ms)"
proof (cases "find_fuzzy path orig 0 edits False")
  case fuzzy: (Inr f)
  show ?thesis
  proof (cases "match_edits path f orig 0 edits")
    case (Inr ms)
    define new where "new = (if f
      then apply_replacements_preserving_unchanged_lines orig (edit_needle f orig) (sort_key match_index ms)
      else apply_replacements (edit_needle f orig) (sort_key match_index ms) 0)"
    have "edit_content path orig edits = Inr (Edit_done result n) \<longleftrightarrow>
       find_overlap (sort_key match_index ms) = None \<and> new = Inr result \<and> result \<noteq> orig \<and> n = length ms"
      unfolding edit_content_def fuzzy Inr Let_def sum.case new_def [symmetric]
      by (cases "find_overlap (sort_key match_index ms)"; cases new) auto
    then show ?thesis
      unfolding new_def by (simp add: fuzzy Inr)
  qed (simp add: edit_content_def fuzzy)
qed (simp add: edit_content_def)

text \<open>
  Property C38.  An accepted call whose old texts all occur in the file exactly replaces each of
  them once and in place, and copies every other byte: the file before and the file after are the
  same sequence of unchanged pieces with the old, respectively the new texts between them.
\<close>

theorem edit_exact:
  assumes "edit_content path orig edits = Inr (Edit_done result n)"
    "\<forall>e \<in> set edits. str_contains orig (old_text e)" "length orig < 2 ^ 64"
  shows "\<exists>sg z. orig = before_edits sg z \<and> result = after_edits sg z
           \<and> mset (map snd sg) = mset (map (\<lambda>e. (old_text e, new_text e)) edits)
           \<and> n = length edits \<and> result \<noteq> orig"
proof -
  have f: "find_fuzzy path orig 0 edits False = Inr False"
    by (rule find_fuzzy_all_exact [OF assms(2)])
  with assms(1) obtain ms where ms: "match_edits path False orig 0 edits = Inr ms"
    and ov: "find_overlap (sort_key match_index ms) = None"
    and res: "apply_replacements orig (sort_key match_index ms) 0 = Inr result" "result \<noteq> orig" "n = length ms"
    by (auto simp: edit_content_done edit_needle_def)
  define sm where "sm = sort_key match_index ms"
  have m: "chained 0 sm (length orig)" "length sm = length edits"
    "mset (map (found_text orig) sm) = mset (map (\<lambda>e. (old_text e, new_text e)) edits)"
    using sorted_matches [OF ms ov] assms(2,3) by (simp_all add: edit_needle_def sm_def)
  obtain sg z where "orig = before_edits sg z" "result = after_edits sg z"
    "map snd sg = map (found_text orig) sm"
    using apply_replacements_segments [of 0 sm 0 orig] m(1) assms(3) res(1)
    by (auto simp: found_text_def sm_def)
  then show ?thesis
    using m res by (intro exI [of _ sg] exI [of _ z]) (simp add: sm_def)
qed

section \<open>Lines and their normal form\<close>

lemma replace_all_newline: "newline \<notin> set s \<Longrightarrow> newline \<notin> set to \<Longrightarrow> newline \<notin> set (replace_all old to s)"
proof (induction old to s rule: replace_all.induct)
  case (1 old to s)
  show ?case
  proof (cases "old = [] \<or> str_find s old 0 = None")
    case False
    then obtain p where p: "str_find s old 0 = Some p" "old \<noteq> []"
      by auto
    then have "newline \<notin> set (replace_all old to (drop (p + length old) s))"
      using 1 by (meson in_set_dropD)
    with p 1(2,3) show ?thesis
      by (subst replace_all.simps) (auto dest: in_set_takeD)
  qed (use 1(2) in \<open>auto simp: replace_all.simps\<close>)
qed

lemma fold_replace_newline:
  "newline \<notin> set s \<Longrightarrow> \<forall>p \<in> set tab. newline \<notin> set (snd p)
     \<Longrightarrow> newline \<notin> set (fold (\<lambda>(old, to). replace_all old to) tab s)"
  by (induction tab arbitrary: s) (auto simp: replace_all_newline split: prod.splits)

lemma fuzzy_table_newline: "\<forall>p \<in> set fuzzy_table. newline \<notin> set (snd p)"
  by (auto simp: fuzzy_table_def newline_def)

lemma normalize_line_newline:
  "newline \<notin> set line \<Longrightarrow> newline \<notin> set (normalize_line_for_fuzzy_match line)"
  unfolding normalize_line_for_fuzzy_match_def
  by (rule fold_replace_newline [OF _ fuzzy_table_newline]) (auto dest: set_dropWhileD)

lemma normalize_line_nothing [simp]: "normalize_line_for_fuzzy_match [] = []"
  by code_simp

lemma normalize_nothing [simp]: "normalize_for_fuzzy_match [] = []"
  by code_simp

lemma normalize_last: "newline \<notin> set l \<Longrightarrow> normalize_for_fuzzy_match l = normalize_line_for_fuzzy_match l"
  by (subst normalize_for_fuzzy_match.simps) (simp add: iffD2 [OF next_line_None])

lemma normalize_Some:
  "newline \<notin> set l \<Longrightarrow> normalize_for_fuzzy_match (l @ newline # rest)
     = normalize_line_for_fuzzy_match l @ newline # normalize_for_fuzzy_match rest"
  by (subst normalize_for_fuzzy_match.simps) (simp add: iffD2 [OF next_line_Some])

lemma split_lines_Nil [simp]: "split_lines_with_endings [] = []"
  by (simp add: split_lines_with_endings.simps)

lemma split_lines_last: "newline \<notin> set l \<Longrightarrow> split_lines_with_endings l = (if l = [] then [] else [l])"
  by (subst split_lines_with_endings.simps) (simp add: iffD2 [OF next_line_None])

lemma split_lines_Some:
  "newline \<notin> set l \<Longrightarrow> split_lines_with_endings (l @ newline # rest) = (l @ [newline]) # split_lines_with_endings rest"
  by (subst split_lines_with_endings.simps) (simp add: iffD2 [OF next_line_Some])

lemma text_lines_induct [case_names last more]:
  assumes "\<And>l. newline \<notin> set l \<Longrightarrow> P l" "\<And>l rest. newline \<notin> set l \<Longrightarrow> P rest \<Longrightarrow> P (l @ newline # rest)"
  shows "P s"
proof (induction s rule: measure_induct_rule [where f = length])
  case (less s)
  show ?case
  proof (cases "next_line s")
    case (Pair l r)
    show ?thesis
    proof (cases r)
      case None
      with Pair show ?thesis using assms(1) next_line_None by blast
    next
      case (Some rest)
      with Pair have s: "s = l @ newline # rest" "newline \<notin> set l"
        using next_line_Some by blast+
      then show ?thesis using assms(2) less by simp
    qed
  qed
qed

lemma concat_split_lines: "concat (split_lines_with_endings s) = s"
  by (induction s rule: text_lines_induct) (simp_all add: split_lines_last split_lines_Some)

lemma split_lines_nonempty: "l \<in> set (split_lines_with_endings s) \<Longrightarrow> l \<noteq> []"
  by (induction s rule: text_lines_induct) (auto simp: split_lines_last split_lines_Some split: if_splits)

text \<open>
  The lines of the normalised text are the normalised lines; a last line of blanks vanishes.
\<close>

lemma split_lines_normalize:
  "\<exists>t. map normalize_for_fuzzy_match (split_lines_with_endings s)
         = split_lines_with_endings (normalize_for_fuzzy_match s) @ t"
proof (induction s rule: text_lines_induct)
  case (last l)
  then show ?case
    by (auto simp: normalize_last split_lines_last normalize_line_newline)
next
  case (more l rest)
  have "normalize_for_fuzzy_match (l @ [newline]) = normalize_line_for_fuzzy_match l @ [newline]"
    using normalize_Some [OF more(1), of "[]"] by simp
  with more show ?case
    by (auto simp: normalize_Some split_lines_Some normalize_line_newline)
qed

section \<open>Groups of lines\<close>

definition line_pos :: "string list \<Rightarrow> nat \<Rightarrow> nat" where
  "line_pos ls i = length (concat (take i ls))"

lemma spans_from_nth: "i < length ls \<Longrightarrow> spans_from off ls ! i = (off + line_pos ls i, off + line_pos ls (Suc i))"
  by (induction ls arbitrary: i off) (auto simp: line_pos_def nth_Cons split: nat.splits)

lemma length_spans [simp]: "length (spans_from off ls) = length ls"
  by (induction ls arbitrary: off) auto

lemma line_pos_0 [simp]: "line_pos ls 0 = 0"
  by (simp add: line_pos_def)

lemma line_pos_mono: "i \<le> j \<Longrightarrow> line_pos ls i \<le> line_pos ls j"
proof -
  assume "i \<le> j"
  then have "take j ls = take i ls @ take (j - i) (drop i ls)"
    by (metis le_add_diff_inverse take_add)
  then show ?thesis by (simp add: line_pos_def)
qed

lemma line_pos_all: "length ls \<le> i \<Longrightarrow> line_pos ls i = length (concat ls)"
  by (simp add: line_pos_def)

lemma line_of_offset:
  "k < line_pos ls n \<Longrightarrow> \<exists>i < n. line_pos ls i \<le> k \<and> k < line_pos ls (Suc i)"
proof (induction n)
  case (Suc n)
  then show ?case
    by (cases "k < line_pos ls n") (auto intro: less_SucI)
qed simp

lemma find_end_line_Some:
  "find_end_line ls k i = Some e \<Longrightarrow>
     i \<le> e \<and> e - i < length ls \<and> k \<le> snd (ls ! (e - i)) \<and> (\<forall>j < e - i. snd (ls ! j) < k)"
proof (induction ls arbitrary: i)
  case (Cons l ls)
  show ?case
  proof (cases "snd l < k")
    case True
    with Cons have "i + 1 \<le> e" "e - (i + 1) < length ls" "k \<le> snd (ls ! (e - (i + 1)))"
      "\<forall>j < e - (i + 1). snd (ls ! j) < k"
      by auto
    with True show ?thesis
      by (auto simp: nth_Cons split: nat.splits) (metis Suc_diff_Suc Suc_le_lessD nat.inject)
  qed (use Cons.prems in auto)
qed simp

lemma find_end_line_None:
  "find_end_line ls k i = None \<Longrightarrow> j < length ls \<Longrightarrow> snd (ls ! j) < k"
proof (induction ls arbitrary: i j)
  case (Cons l ls)
  then show ?case
    by (cases j) (auto split: if_splits)
qed simp

lemma range_of_match:
  assumes "m + n \<le> length (concat ls)" "0 < n" "length (concat ls) < 2 ^ 64"
  obtains s e where "get_replacement_line_range (spans_from 0 ls) m n = Some (s, e)"
    "s < e" "e \<le> length ls" "line_pos ls s \<le> m" "m < line_pos ls (Suc s)" "m + n \<le> line_pos ls e" "line_pos ls (e - 1) < m + n"
proof -
  let ?S = "spans_from 0 ls"
  let ?P = "\<lambda>i. fst (?S ! i) \<le> m \<and> m < snd (?S ! i)"
  obtain i where "i < length ls" "?P i"
    using line_of_offset [of m ls "length ls"] assms(1,2) by (auto simp: line_pos_all spans_from_nth)
  then have "find ?P [0..<length ?S] \<noteq> None"
    by (auto simp: find_None_iff)
  then obtain s where s: "find ?P [0..<length ?S] = Some s"
    by blast
  then have sl: "s < length ls" "?P s"
    by (auto simp: find_Some_iff)
  have d: "drop s ?S ! j = ?S ! (s + j)" if "s + j < length ls" for j
    using that by simp
  have "find_end_line (drop s ?S) (m + n) s \<noteq> None"
  proof
    assume "find_end_line (drop s ?S) (m + n) s = None"
    from find_end_line_None [OF this, of "length ls - 1 - s"] sl
    have "snd (?S ! (length ls - 1)) < m + n"
      by simp
    with sl assms(1) show False
      by (simp add: spans_from_nth line_pos_all)
  qed
  then obtain e where e: "find_end_line (drop s ?S) (m + n) s = Some e"
    by blast
  note E = find_end_line_Some [OF e]
  then have el: "s \<le> e" "e < length ls" "m + n \<le> snd (?S ! e)"
    by auto
  have "line_pos ls e < m + n"
  proof (cases "e = s")
    case True
    with sl assms(2) show ?thesis by (simp add: spans_from_nth)
  next
    case False
    with el have "e - 1 - s < e - s" by simp
    then have "snd (drop s ?S ! (e - 1 - s)) < m + n"
      using E by blast
    with False el show ?thesis
      by (simp add: spans_from_nth)
  qed
  moreover have "get_replacement_line_range ?S m n = Some (s, e + 1)"
    using s e assms(1,3) by (simp add: get_replacement_line_range_def sz_add_small)
  ultimately show thesis
    using that [of s "e + 1"] sl el by (simp add: spans_from_nth)
qed

text \<open>
  The groups cut the list of replacements into parts, each within its own lines, and each of these lines
  meets one of the old texts.
\<close>

definition meets_line :: "string list \<Rightarrow> matched_edit \<Rightarrow> nat \<Rightarrow> bool" where
  "meets_line ls r j \<longleftrightarrow> match_index r < line_pos ls (Suc j) \<and> line_pos ls j < match_index r + match_length r"

definition group_ok :: "string list \<Rightarrow> edit_group \<Rightarrow> bool" where
  "group_ok ls g \<longleftrightarrow> start_line g < end_line g \<and> end_line g \<le> length ls \<and> reps g \<noteq> []
     \<and> chained (line_pos ls (start_line g)) (reps g) (line_pos ls (end_line g))
     \<and> (\<forall>j \<in> {start_line g..<end_line g}. \<exists>r \<in> set (reps g). meets_line ls r j)"

definition groups_ok :: "string list \<Rightarrow> edit_group list \<Rightarrow> bool" where
  "groups_ok ls gs \<longleftrightarrow> (\<forall>g \<in> set gs. group_ok ls g)
     \<and> (\<forall>i. Suc i < length gs \<longrightarrow> end_line (gs ! i) \<le> start_line (gs ! Suc i))"

lemma groups_ok_snoc:
  "groups_ok ls (gs @ [g]) \<longleftrightarrow> groups_ok ls gs \<and> group_ok ls g \<and> (gs \<noteq> [] \<longrightarrow> end_line (last gs) \<le> start_line g)"
proof -
  have "(\<forall>i. Suc i < length (gs @ [g]) \<longrightarrow> end_line ((gs @ [g]) ! i) \<le> start_line ((gs @ [g]) ! Suc i)) \<longleftrightarrow>
        (\<forall>i. Suc i < length gs \<longrightarrow> end_line (gs ! i) \<le> start_line (gs ! Suc i))
        \<and> (gs \<noteq> [] \<longrightarrow> end_line (last gs) \<le> start_line g)" (is "?l \<longleftrightarrow> ?r \<and> ?s")
  proof (cases gs rule: rev_cases)
    case (snoc hs h)
    show ?thesis
      by (auto simp: snoc nth_append less_Suc_eq)
  qed simp
  then show ?thesis
    by (auto simp: groups_ok_def)
qed

lemma all_Suc: "(\<forall>i :: nat. P i) \<longleftrightarrow> P 0 \<and> (\<forall>i. P (Suc i))"
  by (metis not0_implies_Suc)

lemma groups_ok_Cons:
  "groups_ok ls (g # gs) \<longleftrightarrow> group_ok ls g \<and> groups_ok ls gs \<and> (gs \<noteq> [] \<longrightarrow> end_line g \<le> start_line (hd gs))"
proof (cases gs)
  case (Cons h hs)
  have "(\<forall>i. Suc i < length (g # gs) \<longrightarrow> end_line ((g # gs) ! i) \<le> start_line ((g # gs) ! Suc i)) \<longleftrightarrow>
        end_line g \<le> start_line h \<and> (\<forall>i. Suc i < length gs \<longrightarrow> end_line (gs ! i) \<le> start_line (gs ! Suc i))"
    by (subst all_Suc) (simp add: Cons)
  then show ?thesis
    by (auto simp: groups_ok_def Cons)
qed (simp add: groups_ok_def)

lemma add_to_groups_ok:
  assumes "groups_ok ls gs" "chained 0 (concat (map reps gs) @ [r]) (length (concat ls))"
    "0 < match_length r" "length (concat ls) < 2 ^ 64"
  shows "groups_ok ls (add_to_groups (spans_from 0 ls) r gs)
     \<and> concat (map reps (add_to_groups (spans_from 0 ls) r gs)) = concat (map reps gs) @ [r]"
proof -
  have "match_index r + match_length r \<le> length (concat ls)"
    using assms(2) by (simp add: chained_append_Cons)
  from range_of_match [OF this assms(3,4)] obtain s e where
    R: "get_replacement_line_range (spans_from 0 ls) (match_index r) (match_length r) = Some (s, e)"
      "s < e" "e \<le> length ls" "line_pos ls s \<le> match_index r" "match_index r + match_length r \<le> line_pos ls e"
      "match_index r < line_pos ls (Suc s)" "line_pos ls (e - 1) < match_index r + match_length r"
    by metis
  have meets: "meets_line ls r j" if "s \<le> j" "j < e" for j
  proof -
    have "j \<le> e - 1" using that by simp
    then show ?thesis
      using R(6,7) line_pos_mono [of "Suc s" "Suc j" ls] line_pos_mono [of j "e - 1" ls] that by (simp add: meets_line_def)
  qed
  show ?thesis
  proof (cases "gs \<noteq> [] \<and> s < end_line (last gs)")
    case True
    obtain hs g where gs: "gs = hs @ [g]"
      using True by (metis append_butlast_last_id)
    obtain y ys where y: "reps g = y # ys"
      using assms(1) by (cases "reps g") (auto simp: gs groups_ok_snoc group_ok_def)
    let ?e = "max (end_line g) e"
    have "chained (match_index y) (reps g @ [r]) (length (concat ls))"
      using assms(2) by (simp add: gs y chained_append_Cons)
    then have "chained (match_index y) (reps g) (match_index r)"
      by (simp add: chained_append_Cons)
    moreover have "line_pos ls (start_line g) \<le> match_index y"
      using assms(1) by (simp add: gs groups_ok_snoc group_ok_def y)
    ultimately have "chained (line_pos ls (start_line g)) (reps g) (match_index r)"
      by (simp add: y)
    moreover have "match_index r + match_length r \<le> line_pos ls ?e"
      using R(5) line_pos_mono [of e ?e ls] by simp
    ultimately have "group_ok ls (g\<lparr>end_line := ?e, reps := reps g @ [r]\<rparr>)"
      using assms(1) R(2,3) meets True by (auto simp: gs groups_ok_snoc group_ok_def chained_append_Cons not_le)
    with True assms(1) show ?thesis
      by (simp add: add_to_groups_def R(1) gs groups_ok_snoc)
  next
    case False
    have "group_ok ls \<lparr>start_line = s, end_line = e, reps = [r]\<rparr>"
      using R meets by (simp add: group_ok_def)
    moreover have "add_to_groups (spans_from 0 ls) r gs = gs @ [\<lparr>start_line = s, end_line = e, reps = [r]\<rparr>]"
      using False by (auto simp: add_to_groups_def R(1))
    ultimately show ?thesis
      using False assms(1) by (auto simp: groups_ok_snoc)
  qed
qed

lemma all_groups_ok:
  assumes "chained 0 ms (length (concat ls))" "\<forall>m \<in> set ms. 0 < match_length m" "length (concat ls) < 2 ^ 64"
  shows "groups_ok ls (fold (add_to_groups (spans_from 0 ls)) ms [])
     \<and> concat (map reps (fold (add_to_groups (spans_from 0 ls)) ms [])) = ms"
  using assms
proof (induction ms rule: rev_induct)
  case Nil
  then show ?case by (simp add: groups_ok_def)
next
  case (snoc m ms)
  have "chained 0 ms (length (concat ls))"
    using snoc.prems(1) chained_widen by (fastforce simp: chained_append_Cons)
  with snoc show ?case
    using add_to_groups_ok [of ls "fold (add_to_groups (spans_from 0 ls)) ms []" m] by simp
qed

section \<open>Edits found after normalisation\<close>

text \<open>
  A block is a run of lines no edit touches, the lines of a group in the original file, and the
  group's text as segments.
\<close>

type_synonym edit_block = "string list \<times> string list \<times> segments \<times> string"

definition lines_of_blocks :: "edit_block list \<Rightarrow> string list" where
  "lines_of_blocks bs = concat (map (\<lambda>(kept, old_lines, sg, z). kept @ old_lines) bs)"

definition text_of_blocks :: "edit_block list \<Rightarrow> string" where
  "text_of_blocks bs = concat (map (\<lambda>(kept, old_lines, sg, z). concat kept @ after_edits sg z) bs)"

text \<open>
  The old lines, normalised, are the text before the edits, and each of them meets an old text: the \<open>k\<close>-th
  ends behind its line's start and begins before its line's end.
\<close>

definition old_text_in :: "string list \<Rightarrow> segments \<Rightarrow> nat \<Rightarrow> nat \<Rightarrow> bool" where
  "old_text_in ls sg k j \<longleftrightarrow>
     (let begin = length (before_edits (take k sg) (fst (sg ! k)))
      in begin < length (concat (take (Suc j) ls)) \<and> length (concat (take j ls)) < begin + length (fst (snd (sg ! k))))"

definition block_ok :: "edit_block \<Rightarrow> bool" where
  "block_ok b = (case b of (kept, old_lines, sg, z) \<Rightarrow>
     let ls = map normalize_for_fuzzy_match old_lines
     in concat ls = before_edits sg z \<and> (\<forall>j < length ls. \<exists>k < length sg. old_text_in ls sg k j))"

definition edits_of_blocks :: "edit_block list \<Rightarrow> (string \<times> string) list" where
  "edits_of_blocks bs = concat (map (\<lambda>(kept, old_lines, sg, z). map snd sg) bs)"

lemma slice_of_lines:
  assumes "s \<le> e"
  shows "take (line_pos ls e - line_pos ls s) (drop (line_pos ls s) (concat ls)) = concat (take (e - s) (drop s ls))"
proof -
  have e: "take e ls = take s ls @ take (e - s) (drop s ls)"
    using assms by (metis le_add_diff_inverse take_add)
  have "concat ls = concat (take s ls) @ concat (take (e - s) (drop s ls)) @ concat (drop e ls)"
    by (metis append_take_drop_id concat_append append_assoc e)
  then show ?thesis
    by (simp add: line_pos_def e)
qed

lemma chained_found:
  assumes "chained pos ms lim" "off \<le> pos" "off + length c = lim"
    "c = take (lim - off) (drop off base)"
  shows "map (\<lambda>m. (take (match_length m) (drop (match_index m - off) c), match_new m)) ms = map (found_text base) ms"
  using assms
proof (induction ms arbitrary: pos)
  case (Cons m ms)
  have lim: "match_index m + match_length m \<le> lim" "off \<le> match_index m"
    using Cons.prems chained_le by auto
  have "take (match_length m) (drop (match_index m - off) c) = take (match_length m) (drop (match_index m) base)"
    unfolding Cons.prems(4) using lim by (simp add: drop_take min_def)
  moreover have "chained (match_index m + match_length m) ms lim" "off \<le> match_index m + match_length m"
    using Cons.prems lim by auto
  ultimately show ?case
    using Cons.IH Cons.prems(3,4) by (simp add: found_text_def)
qed simp

lemma drop_split: "i \<le> s \<Longrightarrow> s \<le> e \<Longrightarrow> drop i xs = take (s - i) (drop i xs) @ take (e - s) (drop s xs) @ drop e xs"
  by (metis append_take_drop_id drop_drop le_add_diff_inverse2)

lemma line_pos_drop: "line_pos ls (s + j) = line_pos ls s + length (concat (take j (drop s ls)))"
  by (simp add: line_pos_def take_add)

lemma group_meets_old_text:
  assumes "\<forall>k < length (reps g). line_pos ls s + length (before_edits (take k sg) (fst (sg ! k))) = match_index (reps g ! k)"
    "map snd sg = map (found_text base) (reps g)" "\<forall>r \<in> set (reps g). match_index r + match_length r \<le> length base"
    "\<forall>j \<in> {s..<e}. \<exists>r \<in> set (reps g). meets_line ls r j" "j < e - s" "e \<le> length ls"
  shows "\<exists>k < length sg. old_text_in (take (e - s) (drop s ls)) sg k j"
proof -
  have "s + j \<in> {s..<e}" using assms(5) by simp
  then obtain r where "r \<in> set (reps g)" "meets_line ls r (s + j)" using assms(4) by blast
  then obtain k where k: "k < length (reps g)" "meets_line ls (reps g ! k) (s + j)" by (metis in_set_conv_nth)
  have sg: "length sg = length (reps g)" using arg_cong [OF assms(2), of length] by simp
  then have "snd (sg ! k) = found_text base (reps g ! k)" using assms(2) k(1) by (metis nth_map)
  moreover have "match_index (reps g ! k) + match_length (reps g ! k) \<le> length base"
    using assms(3) k(1) by simp
  ultimately have "length (fst (snd (sg ! k))) = match_length (reps g ! k)"
    by (simp add: found_text_def)
  then have "old_text_in (take (e - s) (drop s ls)) sg k j"
    using k assms(1,5) line_pos_drop [of ls s j] line_pos_drop [of ls s "Suc j"]
    by (auto simp: old_text_in_def meets_line_def Let_def min_def)
  then show ?thesis using k(1) sg by auto
qed

lemma chained_within: "chained pos ms lim \<Longrightarrow> m \<in> set ms \<Longrightarrow> match_index m + match_length m \<le> lim"
  by (induction pos ms lim rule: chained.induct) (auto dest: chained_le)

lemma emit_groups_blocks:
  assumes "groups_ok base_lines gs" "map normalize_for_fuzzy_match lines = base_lines @ t"
    "base = concat base_lines" "length base < 2 ^ 64" "gs \<noteq> [] \<longrightarrow> i \<le> start_line (hd gs)"
  shows "\<exists>bs tail. emit_groups lines (spans_from 0 base_lines) base i gs = Inr (text_of_blocks bs @ concat tail)
     \<and> drop i lines = lines_of_blocks bs @ tail \<and> (\<forall>b \<in> set bs. block_ok b)
     \<and> edits_of_blocks bs = map (found_text base) (concat (map reps gs))"
  using assms(1,5)
proof (induction gs arbitrary: i)
  case Nil
  show ?case
    by (rule exI [of _ "[]"], rule exI [of _ "drop i lines"])
      (simp add: text_of_blocks_def lines_of_blocks_def edits_of_blocks_def)
next
  case (Cons g gs)
  define s e where "s = start_line g" and "e = end_line g"
  let ?p = "line_pos base_lines"
  let ?c = "concat (take (e - s) (drop s base_lines))"
  let ?old = "take (e - s) (drop s lines)"
  from Cons.prems have g: "s < e" "e \<le> length base_lines" "i \<le> s" "chained (?p s) (reps g) (?p e)"
      "\<forall>j \<in> {s..<e}. \<exists>r \<in> set (reps g). meets_line base_lines r j"
    and gs: "groups_ok base_lines gs" "gs \<noteq> [] \<longrightarrow> e \<le> start_line (hd gs)"
    by (auto simp: groups_ok_Cons group_ok_def s_def e_def)
  have len: "length base_lines \<le> length lines"
    using arg_cong [OF assms(2), of length] by simp
  have pe: "?p s \<le> ?p e" "?p e \<le> length base"
    using g line_pos_mono [of e "length base_lines" base_lines] assms(3)
    by (simp_all add: line_pos_mono line_pos_all)
  have slice: "take (?p e - ?p s) (drop (?p s) base) = ?c"
    using g slice_of_lines [of s e base_lines] by (simp add: assms(3))
  have "length ?c = ?p e - ?p s"
    unfolding slice [symmetric] using pe by simp
  then have lc: "?p s + length ?c = ?p e"
    using pe by linarith
  from Cons.IH [OF gs] obtain bs tail where IH:
    "emit_groups lines (spans_from 0 base_lines) base e gs = Inr (text_of_blocks bs @ concat tail)"
    "drop e lines = lines_of_blocks bs @ tail" "\<forall>b \<in> set bs. block_ok b"
    "edits_of_blocks bs = map (found_text base) (concat (map reps gs))"
    by blast
  obtain sg z where sg: "?c = before_edits sg z"
    "apply_replacements ?c (reps g) (?p s) = Inr (after_edits sg z)"
    "map snd sg = map (\<lambda>m. (take (match_length m) (drop (match_index m - ?p s) ?c), match_new m)) (reps g)"
    "\<forall>k < length (reps g). ?p s + length (before_edits (take k sg) (fst (sg ! k))) = match_index (reps g ! k)"
    using apply_replacements_at [of "?p s" "reps g" "?p s" ?c] g(4) lc pe assms(4) by auto
  have snds: "map snd sg = map (found_text base) (reps g)"
    using sg(3) chained_found [OF g(4) order_refl lc slice [symmetric]] by (rule trans)
  have "\<forall>r \<in> set (reps g). match_index r + match_length r \<le> length base"
    using chained_within [OF g(4)] pe(2) by (meson order_trans)
  note meets = group_meets_old_text [OF sg(4) snds this g(5) _ g(2)]
  have norm: "map normalize_for_fuzzy_match ?old = take (e - s) (drop s base_lines)"
    using arg_cong [OF assms(2), of "\<lambda>x. take (e - s) (drop s x)"] g by (simp add: take_map drop_map)
  moreover have "emit_groups lines (spans_from 0 base_lines) base i (g # gs)
      = Inr (concat (take (s - i) (drop i lines)) @ after_edits sg z @ text_of_blocks bs @ concat tail)"
    using g len pe assms(4)
    by (simp add: s_def [symmetric] e_def [symmetric] spans_from_nth sz_sub_small substr_def slice sg(2) IH(1))
  moreover have "drop i lines = take (s - i) (drop i lines) @ ?old @ lines_of_blocks bs @ tail"
    using drop_split [of i s e lines] g IH(2) by simp
  moreover have "block_ok (take (s - i) (drop i lines), ?old, sg, z)"
    using sg(1) meets norm len g(2) by (simp add: block_ok_def Let_def)
  ultimately show ?case
    using IH(3,4) snds
    by (intro exI [of _ "(take (s - i) (drop i lines), ?old, sg, z) # bs"] exI [of _ tail])
      (simp add: text_of_blocks_def lines_of_blocks_def edits_of_blocks_def)
qed

text \<open>
  Property C39.  When some old text is found only up to blanks at line ends and typographic
  characters, an accepted call keeps every line that no old text meets byte for byte.  The other lines,
  each of which meets an old text, are normalised, and in them every old text is replaced once and
  nothing else is changed.  Old texts that normalise to nothing, such as blanks alone, are excluded:
  they are found anywhere (\<open>edit_of_missing_blanks_accepted\<close>).
\<close>

theorem edit_fuzzy_keeps_lines:
  assumes "edit_content path orig edits = Inr (Edit_done result n)"
    "\<exists>e \<in> set edits. \<not> str_contains orig (old_text e)"
    "\<forall>e \<in> set edits. normalize_for_fuzzy_match (old_text e) \<noteq> []
        \<and> str_contains (normalize_for_fuzzy_match orig) (normalize_for_fuzzy_match (old_text e))"
    "length (normalize_for_fuzzy_match orig) < 2 ^ 64"
  shows "\<exists>bs tail. split_lines_with_endings orig = lines_of_blocks bs @ tail
     \<and> result = text_of_blocks bs @ concat tail \<and> (\<forall>b \<in> set bs. block_ok b)
     \<and> mset (edits_of_blocks bs) = mset (map (\<lambda>e. (normalize_for_fuzzy_match (old_text e), new_text e)) edits)
     \<and> n = length edits"
proof -
  from assms(1) obtain f ms where f: "find_fuzzy path orig 0 edits False = Inr f"
    and ms: "match_edits path f orig 0 edits = Inr ms" "find_overlap (sort_key match_index ms) = None" "n = length ms"
    and out: "(if f then apply_replacements_preserving_unchanged_lines orig (edit_needle f orig) (sort_key match_index ms)
               else apply_replacements (edit_needle f orig) (sort_key match_index ms) 0) = Inr result"
    by (auto simp: edit_content_done)
  have True: "f = True"
    using find_fuzzy_exact [of path orig 0 edits False] assms(2) f by (cases f) auto
  define base where "base = normalize_for_fuzzy_match orig"
  define sm where "sm = sort_key match_index ms"
  have m: "chained 0 sm (length base)" "n = length edits"
    "mset (map (found_text base) sm) = mset (map (\<lambda>e. (normalize_for_fuzzy_match (old_text e), new_text e)) edits)"
    using sorted_matches [OF ms(1,2)] assms(3,4) ms(3)
    by (simp_all add: True edit_needle_def base_def sm_def)
  have ml: "map match_length ms = map (\<lambda>e. length (normalize_for_fuzzy_match (old_text e))) edits"
    using match_edits_found [OF ms(1)] assms(3) by (simp add: True edit_needle_def)
  have "\<forall>k \<in> set (map match_length ms). 0 < k"
    unfolding ml using assms(3) by simp
  then have pos: "\<forall>r \<in> set sm. 0 < match_length r"
    by (simp add: sm_def)
  obtain t where t: "map normalize_for_fuzzy_match (split_lines_with_endings orig) = split_lines_with_endings base @ t"
    using split_lines_normalize by (auto simp: base_def)
  let ?gs = "fold (add_to_groups (spans_from 0 (split_lines_with_endings base))) sm []"
  have gs: "groups_ok (split_lines_with_endings base) ?gs" "concat (map reps ?gs) = sm"
    using all_groups_ok [of sm "split_lines_with_endings base"] m(1) pos assms(4)
    by (simp_all add: concat_split_lines base_def)
  have "length base < 2 ^ 64"
    using assms(4) by (simp add: base_def)
  from emit_groups_blocks [OF gs(1) t concat_split_lines [symmetric] this impI [OF le0], unfolded gs(2) drop_0]
  obtain bs tail where bs:
    "emit_groups (split_lines_with_endings orig) (spans_from 0 (split_lines_with_endings base)) base 0 ?gs
       = Inr (text_of_blocks bs @ concat tail)"
    "split_lines_with_endings orig = lines_of_blocks bs @ tail" "\<forall>b \<in> set bs. block_ok b"
    "edits_of_blocks bs = map (found_text base) sm"
    by (elim exE conjE) (rule that)
  have "emit_groups (split_lines_with_endings orig) (spans_from 0 (split_lines_with_endings base)) base 0 ?gs = Inr result"
    using out by (simp add: True apply_replacements_preserving_unchanged_lines_def get_line_spans_def Let_def
        edit_needle_def sm_def base_def)
  then have "result = text_of_blocks bs @ concat tail"
    using bs(1) by simp
  then show ?thesis
    using bs(2,3,4) m(2,3) by (intro exI [of _ bs] exI [of _ tail]) simp
qed

section \<open>Uniqueness, and the blank texts it misses\<close>

lemma count_occurrences_ge:
  assumes "occurs_at w c i" "occurs_at w c j" "pos \<le> i" "i + length w \<le> j" "j \<le> length c" "w \<noteq> []"
  shows "2 \<le> count_occurrences c w pos"
proof -
  obtain p where p: "p \<le> i" "str_find c w pos = Some p"
    using str_find_least [OF assms(1,3)] assms(4,5) by auto
  obtain q where "str_find c w (p + length w) = Some q"
    using str_find_least [OF assms(2)] assms(4,5) p(1) by (metis add_le_mono1 order_trans)
  then have "1 \<le> count_occurrences c w (p + length w)"
    using assms(6) by (subst count_occurrences.simps) simp
  with p assms(6) show ?thesis
    by (subst count_occurrences.simps) simp
qed

lemma match_edits_unique:
  "match_edits path f orig i es = Inr ms \<Longrightarrow>
     \<forall>e \<in> set es. count_occurrences (normalize_for_fuzzy_match orig) (normalize_for_fuzzy_match (old_text e)) 0 \<le> 1"
  by (induction path f orig i es arbitrary: ms rule: match_edits.induct)
    (auto simp: Let_def split: if_splits sum.splits)

text \<open>
  An edit is only accepted when its old text does not occur a second time, disjoint
  from the first, even up to blanks and typographic characters; this is said of old texts that do
  not normalise to nothing.
\<close>

theorem edit_accepted_unique:
  assumes "edit_content path orig edits = Inr (Edit_done result n)" "e \<in> set edits"
    "w = normalize_for_fuzzy_match (old_text e)" "w \<noteq> []" "c = normalize_for_fuzzy_match orig"
    "occurs_at w c i" "occurs_at w c j" "i + length w \<le> j"
  shows "length c < j"
proof (rule ccontr)
  assume "\<not> length c < j"
  then have "2 \<le> count_occurrences c w 0"
    using count_occurrences_ge [of w c i j 0] assms(4,6-8) by simp
  moreover have "count_occurrences c w 0 \<le> 1"
    using assms(1,2) match_edits_unique by (auto simp: edit_content_done assms(3,5))
  ultimately show False by simp
qed

definition sample_file :: string where
  "sample_file = ''foo  '' @ [newline] @ ''bar '' @ [CHR 0xE2, CHR 0x80, CHR 0x9C] @ ''baz'' @ [newline] @ ''end ''"

definition sample_edits :: "edit_req list" where
  "sample_edits = [\<lparr>old_text = ''end'', new_text = ''END''\<rparr>, \<lparr>old_text = ''bar'', new_text = ''x''\<rparr>]"

definition sample_fuzzy_edits :: "edit_req list" where
  "sample_fuzzy_edits = [\<lparr>old_text = [CHR 0x22] @ ''baz  '', new_text = ''x''\<rparr>]"

lemma sample_edit_done:
  "edit_content ''f'' sample_file sample_edits
     = Inr (Edit_done (''foo  '' @ [newline] @ ''x '' @ [CHR 0xE2, CHR 0x80, CHR 0x9C] @ ''baz'' @ [newline] @ ''END '') 2)"
  by code_simp

lemma sample_fuzzy_edit_done:
  "edit_content ''f'' sample_file sample_fuzzy_edits
     = Inr (Edit_done (''foo  '' @ [newline] @ ''bar x'' @ [newline] @ ''end '') 1)"
  by code_simp

lemma sample_edits_found: "\<forall>e \<in> set sample_edits. str_contains sample_file (old_text e)" "length sample_file < 2 ^ 64"
  by code_simp (simp add: sample_file_def)

lemma sample_fuzzy_found:
  "\<exists>e \<in> set sample_fuzzy_edits. \<not> str_contains sample_file (old_text e)"
  "\<forall>e \<in> set sample_fuzzy_edits. normalize_for_fuzzy_match (old_text e) \<noteq> []
        \<and> str_contains (normalize_for_fuzzy_match sample_file) (normalize_for_fuzzy_match (old_text e))"
  "length (normalize_for_fuzzy_match sample_file) < 2 ^ 64"
proof -
  have "length (normalize_for_fuzzy_match sample_file) < 40"
    by code_simp
  then show "length (normalize_for_fuzzy_match sample_file) < 2 ^ 64"
    by simp
qed code_simp+

lemma edit_exact_witness:
  "\<exists>sg z. sample_file = before_edits sg z \<and> ''foo  '' @ [newline] @ ''x '' @ [CHR 0xE2, CHR 0x80, CHR 0x9C] @ ''baz'' @ [newline] @ ''END '' = after_edits sg z
     \<and> mset (map snd sg) = mset (map (\<lambda>e. (old_text e, new_text e)) sample_edits)"
  using edit_exact [OF sample_edit_done sample_edits_found] by blast

lemma edit_fuzzy_keeps_lines_witness:
  "\<exists>bs tail. split_lines_with_endings sample_file = lines_of_blocks bs @ tail
     \<and> ''foo  '' @ [newline] @ ''bar x'' @ [newline] @ ''end '' = text_of_blocks bs @ concat tail"
  using edit_fuzzy_keeps_lines [OF sample_fuzzy_edit_done sample_fuzzy_found] by blast

text \<open>
  A text of blanks normalises to nothing, which is found at the start of any text and counted
  nowhere: an edit of blanks that are not in the file is accepted and inserts its new text at the
  start of the file, and one of blanks that occur several times is accepted as unique.
\<close>

lemma edit_of_missing_blanks_accepted:
  "edit_content ''f'' ''a'' [\<lparr>old_text = ''  '', new_text = ''x''\<rparr>] = Inr (Edit_done ''xa'' 1)"
  by code_simp

lemma edit_of_repeated_blanks_accepted:
  "edit_content ''f'' ''a b c'' [\<lparr>old_text = '' '', new_text = ''x''\<rparr>] = Inr (Edit_done ''axb c'' 1)"
  by code_simp

lemma edit_of_empty_file_undefined:
  "edit_content ''f'' [] [\<lparr>old_text = '' '', new_text = ''x''\<rparr>] = Inl Abort"
  by code_simp

end
