(* ===== verification/Tools.thy ===== *)
theory Tools
  imports Tools_Io Edit Format Response
begin

text \<open>
  The built-in tools (server-tools.cpp): \<open>read_file\<close>, \<open>file_glob_search\<close>, \<open>grep_search\<close>,
  \<open>exec_shell_command\<close>, \<open>write_file\<close>, \<open>edit_file\<close>, \<open>get_info\<close>, the tools of MCP servers, and
  \<open>server_tools\<close> with its two HTTP handlers.  The definitions a tool publishes for the model
  (\<open>get_definition\<close>) are a parameter, as are glob patterns, regular expressions, the base64
  encoder, and the MCP servers.
\<close>

section \<open>What the tools use\<close>

datatype container_start = Not_spawned | No_container_id | Container_started string

datatype tool_id = Read_file | File_glob_search | Grep_search | Exec_shell_command | Write_file | Edit_file | Get_info
  | Mcp_tool string string

record ('w, 'r) tool_env =
  te_host :: "'w host"
  te_glob :: "string \<Rightarrow> string \<Rightarrow> bool"
  te_strip :: "string \<Rightarrow> string"
  te_regex :: "string \<Rightarrow> bool \<Rightarrow> string + 'r"
  te_search :: "'r \<Rightarrow> string \<Rightarrow> bool"
  te_base64 :: "string \<Rightarrow> string"
  te_mcp_call :: "string \<Rightarrow> string \<Rightarrow> json \<Rightarrow> 'w \<Rightarrow> json tool_result \<times> 'w"
  te_container :: "string \<Rightarrow> string \<Rightarrow> 'w \<Rightarrow> container_start \<times> 'w"
  te_container_alive :: "'w \<Rightarrow> bool"
  te_definition :: "tool_id \<Rightarrow> json"
  te_json_parse :: "string \<Rightarrow> json option"
  te_json_what :: "string \<Rightarrow> string"

definition jat :: "string \<Rightarrow> json \<Rightarrow> json tool_result" where
  "jat k j = (case jfind k j of Some v \<Rightarrow> Inr v | None \<Rightarrow> Inl (Json_error k))"

definition jat_str :: "string \<Rightarrow> json \<Rightarrow> string tool_result" where
  "jat_str k j = tbind (jat k j) (\<lambda>v. case get_str v of Some s \<Rightarrow> Inr s | None \<Rightarrow> Inl (Json_error k))"

definition tool_error :: "string \<Rightarrow> json" where
  "tool_error m = JObj [(''error'', JStr m)]"

definition plain_text :: "string \<Rightarrow> json" where
  "plain_text s = JObj [(''plain_text_response'', JStr s)]"

text \<open>
  A call runs on the world; its result is the answer and, for a streamed call, the chunks it has
  pushed.  \<open>stream\<close> is the answer of \<open>alive\<close> after the chunks pushed so far.
\<close>

type_synonym stream = "(string list \<Rightarrow> bool) option"
type_synonym tool_out = "(json \<times> string list) tool_result"

definition answer :: "json \<Rightarrow> tool_out" where
  "answer j = Inr (j, [])"

text \<open>An argument whose computation may throw.\<close>

definition targ :: "'a tool_result \<Rightarrow> 'w \<Rightarrow> ('a \<Rightarrow> tool_out \<times> 'w) \<Rightarrow> tool_out \<times> 'w" where
  "targ r w f = (case r of Inl e \<Rightarrow> (Inl e, w) | Inr x \<Rightarrow> f x)"

lemma targ_simps [simp]: "targ (Inl e) w f = (Inl e, w)" "targ (Inr x) w f = f x"
  by (simp_all add: targ_def)

section \<open>read_file\<close>

definition SERVER_TOOL_READ_FILE_MAX_SIZE :: nat where
  "SERVER_TOOL_READ_FILE_MAX_SIZE = 16 * 1024"

definition SERVER_TOOL_READ_FILE_MAX_SIZE_BASE64 :: nat where
  "SERVER_TOOL_READ_FILE_MAX_SIZE_BASE64 = 32 * 1024 * 1024"

definition numbered_line :: "bool \<Rightarrow> int \<Rightarrow> string \<Rightarrow> string" where
  "numbered_line append_loc lineno line =
     (if append_loc then show_int lineno @ [CHR 0xE2, CHR 0x86, CHR 0x92] else []) @ line @ [newline]"

fun read_lines :: "int \<Rightarrow> int \<Rightarrow> bool \<Rightarrow> int \<Rightarrow> string list \<Rightarrow> string \<Rightarrow> string" where
  "read_lines first_line last_line append_loc lineno [] result = result"
| "read_lines first_line last_line append_loc lineno (line # lines) result =
     (let lineno = lineno + 1
      in if lineno < first_line then read_lines first_line last_line append_loc lineno lines result
         else if last_line \<noteq> -1 \<and> lineno > last_line then result
         else let out_line = numbered_line append_loc lineno line
              in if length result + length out_line > SERVER_TOOL_READ_FILE_MAX_SIZE then result @ ''[output truncated]''
                 else read_lines first_line last_line append_loc lineno lines (result @ out_line))"

definition read_file_invoke :: "('w, 'r) tool_env \<Rightarrow> json \<Rightarrow> 'w \<Rightarrow> tool_out \<times> 'w" where
  "read_file_invoke E args w =
     targ (jat_str ''path'' args) w (\<lambda>path.
      let first_line = json_value get_int args ''start_line'' 1;
          last_line = json_value get_int args ''end_line'' (-1);
          append_loc = json_value get_bool args ''append_loc'' False;
          as_base64 = (json_value get_str args ''resp_type'' [] = ''base64'')
      in targ (make_tools_io args) w (\<lambda>io.
         case io_file_size (te_host E) io path w of
            (None, w) \<Rightarrow> (answer (tool_error (''cannot stat file: '' @ path)), w)
          | (Some file_size, w) \<Rightarrow>
              if as_base64 then
                if file_size > SERVER_TOOL_READ_FILE_MAX_SIZE_BASE64 then
                  (answer (tool_error (''file too large ('' @ show_nat file_size @ '' bytes, max ''
                     @ show_nat SERVER_TOOL_READ_FILE_MAX_SIZE_BASE64 @ '')'')), w)
                else (case io_read_file (te_host E) io path w of
                        (None, w) \<Rightarrow> (answer (tool_error (''failed to open file: '' @ path)), w)
                      | (Some content, w) \<Rightarrow>
                          (answer (JObj [(''base64'', JStr (te_base64 E content)),
                                         (''size_bytes'', JInt (int (length content)))]), w))
              else if file_size > SERVER_TOOL_READ_FILE_MAX_SIZE \<and> last_line = -1 then
                (answer (tool_error (''file too large ('' @ show_nat file_size @ '' bytes, max ''
                   @ show_nat SERVER_TOOL_READ_FILE_MAX_SIZE @ ''). Use start_line/end_line to read a portion.'')), w)
              else (case io_read_file (te_host E) io path w of
                      (None, w) \<Rightarrow> (answer (tool_error (''failed to open file: '' @ path)), w)
                    | (Some content, w) \<Rightarrow>
                        (answer (plain_text (read_lines first_line last_line append_loc 0 (getlines content) [])), w))))"

section \<open>file_glob_search\<close>

definition SERVER_TOOL_FILE_SEARCH_MAX_RESULTS :: int where
  "SERVER_TOOL_FILE_SEARCH_MAX_RESULTS = 100"

definition kind_of_type :: "string \<Rightarrow> list_kind option" where
  "kind_of_type ty =
     (if ty = ''file'' then Some List_files else if ty = ''dir'' then Some List_dirs
      else if ty = ''all'' then Some List_all else None)"

definition glob_matches :: "('w, 'r) tool_env \<Rightarrow> string \<Rightarrow> string \<Rightarrow> list_entry list \<Rightarrow> list_entry list" where
  "glob_matches E incl excl entries =
     filter (\<lambda>e. path_glob_match (te_glob E) incl (le_rel e)
               \<and> \<not> (excl \<noteq> [] \<and> path_glob_match (te_glob E) excl (le_rel e))) entries"

definition file_glob_search_invoke :: "('w, 'r) tool_env \<Rightarrow> json \<Rightarrow> 'w \<Rightarrow> tool_out \<times> 'w" where
  "file_glob_search_invoke E args w =
     targ (make_tools_io args) w (\<lambda>io.
     targ (jat_str ''path'' args) w (\<lambda>path.
      let base = io_resolve (te_host E) io path;
          incl = json_value get_str args ''include'' ''**'';
          excl = json_value get_str args ''exclude'' [];
          ty = json_value get_str args ''type'' ''file'';
          max_depth = max 0 (json_value get_int args ''max_depth'' 0);
          limit_req = json_value get_int args ''limit'' SERVER_TOOL_FILE_SEARCH_MAX_RESULTS
      in if limit_req < 1 then
           (answer (tool_error (''invalid limit: '' @ show_int limit_req @ '' (expected 1 or more)'')), w)
         else (case kind_of_type ty of
           None \<Rightarrow> (answer (tool_error (''invalid type: '' @ ty @ '' (expected \"file\", \"dir\" or \"all\")'')), w)
         | Some kind \<Rightarrow>
             (case io_list_entries (te_host E) io base max_depth kind w of
                (listing, w) \<Rightarrow>
                  if lr_err listing \<noteq> [] then (answer (tool_error (lr_err listing @ '': '' @ path)), w)
                  else
                    let matches = glob_matches E incl excl (lr_entries listing);
                        n_found = length matches;
                        shown = min n_found (nat (min limit_req SERVER_TOOL_FILE_SEARCH_MAX_RESULTS));
                        listed = take shown matches;
                        output =
                          concat (map (\<lambda>e. le_rel e @ (if le_is_dir e then ''/'' else []) @ [newline]) listed)
                          @ [newline] @ ''---'' @ [newline] @ ''Total matches: '' @ show_nat n_found @ [newline]
                          @ (if n_found > shown then
                               ''['' @ show_nat shown @ '' results limit reached ('' @ show_nat n_found
                               @ '' total matches). Refine the glob pattern to narrow the search.]'' @ [newline] else [])
                          @ (if lr_truncated listing then
                               ''[results truncated: time budget or unreadable directory]'' @ [newline] else [])
                    in (answer (JObj [(''plain_text_response'', JStr output),
                          (''entries'', JArr (map (\<lambda>e. JObj [(''path'', JStr (le_rel e)),
                               (''type'', JStr (if le_is_dir e then ''dir'' else ''file''))]) listed)),
                          (''base'', JStr base)]), w)))))"

section \<open>grep_search\<close>

definition SERVER_TOOL_GREP_SEARCH_MAX_RESULTS :: nat where
  "SERVER_TOOL_GREP_SEARCH_MAX_RESULTS = 100"

definition regex_specials :: string where
  "regex_specials = CHR 0x5C # ''^$.|?*+()[]{}''"

definition escape_regex :: "string \<Rightarrow> string" where
  "escape_regex s = concat (map (\<lambda>c. if c \<in> set regex_specials then [CHR 0x5C, c] else [c]) s)"

text \<open>The lines shown for a match in line \<open>i\<close>.\<close>

definition context_range :: "int \<Rightarrow> nat \<Rightarrow> nat \<Rightarrow> nat list" where
  "context_range ctx_lines n i =
     (let ctx_start = (if ctx_lines > 0 then max 0 (int i - ctx_lines) else int i);
          ctx_end = (if ctx_lines > 0 then min (int n - 1) (int i + ctx_lines) else int i)
      in [nat ctx_start..<nat (ctx_end + 1)])"

definition show_match :: "bool \<Rightarrow> int \<Rightarrow> string \<Rightarrow> string list \<Rightarrow> nat \<Rightarrow> string" where
  "show_match show_num ctx_lines display_path lines i =
     concat (map (\<lambda>j. let sep = (if j = i then '':'' else ''-'')
                       in display_path @ sep @ (if show_num then show_nat (j + 1) @ sep else []) @ lines ! j @ [newline])
              (context_range ctx_lines (length lines) i))
     @ (if ctx_lines > 0 then ''--'' @ [newline] else [])"

text \<open>The indexes of the lines left to look at; the results are the text, the matches, and whether the limit was hit.\<close>

fun grep_lines ::
  "(string \<Rightarrow> bool) \<Rightarrow> bool \<Rightarrow> int \<Rightarrow> string \<Rightarrow> string list \<Rightarrow> nat list \<Rightarrow> string \<Rightarrow> nat \<Rightarrow> string \<times> nat \<times> bool" where
  "grep_lines found show_num ctx_lines display_path lines [] out n_found = (out, n_found, False)"
| "grep_lines found show_num ctx_lines display_path lines (i # is) out n_found =
     (if n_found \<ge> SERVER_TOOL_GREP_SEARCH_MAX_RESULTS then (out, n_found, True)
      else if \<not> found (lines ! i) then grep_lines found show_num ctx_lines display_path lines is out n_found
      else grep_lines found show_num ctx_lines display_path lines is
             (out @ show_match show_num ctx_lines display_path lines i) (n_found + 1))"

fun grep_files ::
  "'w host \<Rightarrow> tools_io \<Rightarrow> (string \<Rightarrow> bool) \<Rightarrow> bool \<Rightarrow> int \<Rightarrow> (string \<times> string) list \<Rightarrow> string \<Rightarrow> nat \<Rightarrow> 'w
     \<Rightarrow> (string \<times> nat \<times> bool) \<times> 'w" where
  "grep_files h io found show_num ctx_lines [] out n_found w = ((out, n_found, False), w)"
| "grep_files h io found show_num ctx_lines ((fpath, display_path) # files) out n_found w =
     (case io_read_file h io fpath w of
        (None, w) \<Rightarrow> grep_files h io found show_num ctx_lines files out n_found w
      | (Some content, w) \<Rightarrow>
          let lines = getlines content
          in (case grep_lines found show_num ctx_lines display_path lines [0..<length lines] out n_found of
                (out, n_found, True) \<Rightarrow> ((out, n_found, True), w)
              | (out, n_found, False) \<Rightarrow> grep_files h io found show_num ctx_lines files out n_found w))"

text \<open>The files to search, or the error.\<close>

definition grep_targets ::
  "('w, 'r) tool_env \<Rightarrow> tools_io \<Rightarrow> string \<Rightarrow> string \<Rightarrow> string \<Rightarrow> 'w \<Rightarrow> (json + (string \<times> string) list) \<times> 'w" where
  "grep_targets E io path incl excl w =
     (let abs_path = io_resolve (te_host E) io path
      in case io_is_regular_file (te_host E) io abs_path w of
        (True, w) \<Rightarrow> (Inr [(abs_path, path)], w)
      | (False, w) \<Rightarrow>
          (case io_is_directory (te_host E) io abs_path w of
             (False, w) \<Rightarrow> (Inl (tool_error (''path does not exist: '' @ path)), w)
           | (True, w) \<Rightarrow>
               (case io_list_entries (te_host E) io abs_path 0 List_files w of
                  (listing, w) \<Rightarrow>
                    (if lr_err listing \<noteq> [] then Inl (tool_error (lr_err listing @ '': '' @ path))
                     else Inr (map (\<lambda>e. (path_join abs_path (le_rel e), le_rel e))
                                 (glob_matches E incl excl (lr_entries listing))), w))))"

definition grep_search_invoke :: "('w, 'r) tool_env \<Rightarrow> json \<Rightarrow> 'w \<Rightarrow> tool_out \<times> 'w" where
  "grep_search_invoke E args w =
     targ (jat_str ''path'' args) w (\<lambda>path.
     targ (jat_str ''pattern'' args) w (\<lambda>pat_str.
      let incl = json_value get_str args ''include'' ''**'';
          excl = json_value get_str args ''exclude'' [];
          show_lineno = json_value get_bool args ''return_line_numbers'' False;
          literal = json_value get_bool args ''literal'' False;
          ignore_case = json_value get_bool args ''ignore_case'' False;
          ctx_lines = max 0 (json_value get_int args ''context_lines'' 0);
          pattern_src = (if literal then escape_regex pat_str else pat_str)
      in case te_regex E pattern_src ignore_case of
           Inl what \<Rightarrow> (answer (tool_error (''invalid regex: '' @ what)), w)
         | Inr pattern \<Rightarrow>
             targ (make_tools_io args) w (\<lambda>io.
             case grep_targets E io path incl excl w of
               (Inl err, w) \<Rightarrow> (answer err, w)
             | (Inr files, w) \<Rightarrow>
                 (case grep_files (te_host E) io (te_search E pattern) (show_lineno \<or> ctx_lines > 0) ctx_lines files [] 0 w of
                    ((out, n_found, limit_reached), w) \<Rightarrow>
                      (answer (plain_text (out @ [newline] @ ''---'' @ [newline] @ ''Total matches: '' @ show_nat n_found @ [newline]
                         @ (if limit_reached then
                              ''['' @ show_nat SERVER_TOOL_GREP_SEARCH_MAX_RESULTS
                              @ '' matches limit reached. Narrow the path/pattern/include to see more.]'' @ [newline]
                            else []))), w)))))"

section \<open>exec_shell_command, write_file, edit_file and get_info\<close>

definition SERVER_TOOL_EXEC_SHELL_COMMAND_MAX_OUTPUT_SIZE :: int where
  "SERVER_TOOL_EXEC_SHELL_COMMAND_MAX_OUTPUT_SIZE = 16 * 1024"

definition SERVER_TOOL_EXEC_SHELL_COMMAND_MAX_TIMEOUT :: int where
  "SERVER_TOOL_EXEC_SHELL_COMMAND_MAX_TIMEOUT = 60"

text \<open>The size is a signed integer in the call, cast to \<open>size_t\<close>.\<close>

definition max_output_of :: "json \<Rightarrow> nat" where
  "max_output_of args =
     (let i = json_value get_int args ''max_output_size'' SERVER_TOOL_EXEC_SHELL_COMMAND_MAX_OUTPUT_SIZE
      in nat (min (i mod 2 ^ 64) SERVER_TOOL_EXEC_SHELL_COMMAND_MAX_OUTPUT_SIZE))"

definition exit_text :: "exec_result \<Rightarrow> string" where
  "exit_text res = [newline] @ ''[exit code: '' @ show_int (ex_code res) @ '']''
     @ (if ex_timed_out res then '' [exit due to timed out]'' else [])"

definition exec_shell_command_invoke :: "('w, 'r) tool_env \<Rightarrow> json \<Rightarrow> stream \<Rightarrow> 'w \<Rightarrow> tool_out \<times> 'w" where
  "exec_shell_command_invoke E args st w =
     targ (jat_str ''command'' args) w (\<lambda>command.
      let timeout = min (json_value get_int args ''timeout'' 10) SERVER_TOOL_EXEC_SHELL_COMMAND_MAX_TIMEOUT;
          max_output = max_output_of args
      in targ (make_tools_io args) w (\<lambda>io.
         case io_run (te_host E) io [''sh'', ''-c'', command] max_output timeout st w of
           (res, pushed, w) \<Rightarrow>
             (case st of
                Some alive \<Rightarrow>
                  (Inr (JNull, if alive pushed then pushed @ [exit_text res] else pushed), w)
              | None \<Rightarrow> (answer (plain_text (ex_output res @ exit_text res)), w))))"

definition write_file_invoke :: "('w, 'r) tool_env \<Rightarrow> json \<Rightarrow> 'w \<Rightarrow> tool_out \<times> 'w" where
  "write_file_invoke E args w =
     targ (jat_str ''path'' args) w (\<lambda>path.
     targ (jat_str ''content'' args) w (\<lambda>content.
     targ (make_tools_io args) w (\<lambda>io.
       case io_write_file (te_host E) io path content w of
         (ok, w) \<Rightarrow>
           (answer (if \<not> ok then tool_error (''failed to write file: '' @ path)
                    else JObj [(''result'', JStr ''file written successfully''), (''path'', JStr path),
                               (''bytes'', JInt (int (length content)))]), w))))"

text \<open>The edits of a call, or the answer to an empty old text.\<close>

fun parse_edits :: "json list \<Rightarrow> edit_req list \<Rightarrow> (json + edit_req list) tool_result" where
  "parse_edits [] edits = Inr (Inr edits)"
| "parse_edits (e # es) edits =
     tbind (jat_str ''old_text'' e) (\<lambda>old.
     tbind (jat_str ''new_text'' e) (\<lambda>new.
       if old = [] then Inr (Inl (tool_error (''edits['' @ show_nat (length edits) @ ''].old_text must not be empty'')))
       else parse_edits es (edits @ [\<lparr>old_text = old, new_text = new\<rparr>])))"

definition edit_file_invoke :: "('w, 'r) tool_env \<Rightarrow> json \<Rightarrow> 'w \<Rightarrow> tool_out \<times> 'w" where
  "edit_file_invoke E args w =
     targ (jat_str ''path'' args) w (\<lambda>path.
     targ (jat ''edits'' args) w (\<lambda>edits_json.
       let es = (case edits_json of JArr es \<Rightarrow> es | _ \<Rightarrow> [])
       in if es = [] then (answer (tool_error ''\"edits\" must be a non-empty array''), w)
          else targ (parse_edits es []) w (\<lambda>parsed.
            case parsed of
              Inl err \<Rightarrow> (answer err, w)
            | Inr edits \<Rightarrow>
                targ (make_tools_io args) w (\<lambda>io.
                case io_read_file (te_host E) io path w of
                  (None, w) \<Rightarrow> (answer (tool_error (''failed to open file: '' @ path)), w)
                | (Some original_content, w) \<Rightarrow>
                    targ (of_result (edit_content path original_content edits)) w (\<lambda>edited.
                    case edited of
                      Edit_error err \<Rightarrow> (answer (tool_error err), w)
                    | Edit_done new_content n \<Rightarrow>
                        (case io_write_file (te_host E) io path new_content w of
                           (ok, w) \<Rightarrow>
                             (answer (if \<not> ok then tool_error (''failed to write file: '' @ path)
                                      else JObj [(''result'', JStr ''file edited successfully''), (''path'', JStr path),
                                                 (''edits_applied'', JInt (int n))]), w)))))))"

definition SERVER_TOOL_GET_INFO_MAX_OUTPUT :: nat where
  "SERVER_TOOL_GET_INFO_MAX_OUTPUT = 4096"

definition SERVER_TOOL_GET_INFO_TIMEOUT :: int where
  "SERVER_TOOL_GET_INFO_TIMEOUT = 5"

definition stripped_or_unknown :: "('w, 'r) tool_env \<Rightarrow> exec_result \<Rightarrow> string" where
  "stripped_or_unknown E res = (if exec_ok res then te_strip E (ex_output res) else ''unknown'')"

definition get_info_invoke :: "('w, 'r) tool_env \<Rightarrow> json \<Rightarrow> 'w \<Rightarrow> tool_out \<times> 'w" where
  "get_info_invoke E args w =
     targ (make_tools_io args) w (\<lambda>io.
     case io_run (te_host E) io [''uname'', ''-a''] SERVER_TOOL_GET_INFO_MAX_OUTPUT SERVER_TOOL_GET_INFO_TIMEOUT None w of
       (res, _, w) \<Rightarrow>
         let cwd = json_value get_str args ''cwd'' [];
             info = (\<lambda>cwd. JObj [(''os'', JStr (stripped_or_unknown E res)), (''cwd'', JStr cwd)])
         in if cwd \<noteq> [] then (answer (info cwd), w)
            else if json_value get_str args ''runtime'' [] = [] then
              (answer (info (case h_cwd (te_host E) of Some d \<Rightarrow> d | None \<Rightarrow> [])), w)
            else (case io_run (te_host E) io [''pwd''] SERVER_TOOL_GET_INFO_MAX_OUTPUT SERVER_TOOL_GET_INFO_TIMEOUT None w of
                    (pwd, _, w) \<Rightarrow> (answer (info (stripped_or_unknown E pwd)), w)))"

section \<open>All tools\<close>

fun tool_invoke :: "('w, 'r) tool_env \<Rightarrow> tool_id \<Rightarrow> json \<Rightarrow> stream \<Rightarrow> 'w \<Rightarrow> tool_out \<times> 'w" where
  "tool_invoke E Read_file args st w = read_file_invoke E args w"
| "tool_invoke E File_glob_search args st w = file_glob_search_invoke E args w"
| "tool_invoke E Grep_search args st w = grep_search_invoke E args w"
| "tool_invoke E Exec_shell_command args st w = exec_shell_command_invoke E args st w"
| "tool_invoke E Write_file args st w = write_file_invoke E args w"
| "tool_invoke E Edit_file args st w = edit_file_invoke E args w"
| "tool_invoke E Get_info args st w = get_info_invoke E args w"
| "tool_invoke E (Mcp_tool server name) args st w =
     (case te_mcp_call E server name args w of (r, w) \<Rightarrow> (tbind r answer, w))"

fun tool_name :: "tool_id \<Rightarrow> string" where
  "tool_name Read_file = ''read_file''"
| "tool_name File_glob_search = ''file_glob_search''"
| "tool_name Grep_search = ''grep_search''"
| "tool_name Exec_shell_command = ''exec_shell_command''"
| "tool_name Write_file = ''write_file''"
| "tool_name Edit_file = ''edit_file''"
| "tool_name Get_info = ''get_info''"
| "tool_name (Mcp_tool server name) = server @ ''_'' @ name"

fun tool_display_name :: "tool_id \<Rightarrow> string" where
  "tool_display_name Read_file = ''Read file''"
| "tool_display_name File_glob_search = ''File search''"
| "tool_display_name Grep_search = ''Grep search''"
| "tool_display_name Exec_shell_command = ''Execute shell command''"
| "tool_display_name Write_file = ''Write file''"
| "tool_display_name Edit_file = ''Edit file''"
| "tool_display_name Get_info = ''Get Runtime Info''"
| "tool_display_name (Mcp_tool server name) = server @ ''_'' @ name"

definition is_mcp :: "tool_id \<Rightarrow> bool" where
  "is_mcp t = (case t of Mcp_tool _ _ \<Rightarrow> True | _ \<Rightarrow> False)"

definition permission_write :: "tool_id \<Rightarrow> bool" where
  "permission_write t = (t \<in> {Exec_shell_command, Write_file, Edit_file})"

definition support_stream :: "tool_id \<Rightarrow> bool" where
  "support_stream t = (t = Exec_shell_command)"

definition tool_to_json :: "('w, 'r) tool_env \<Rightarrow> tool_id \<Rightarrow> json" where
  "tool_to_json E t = JObj
     [(''display_name'', JStr (tool_display_name t)), (''tool'', JStr (tool_name t)),
      (''type'', JStr (if is_mcp t then ''mcp'' else ''server'')),
      (''permissions'', JObj [(''write'', JBool (permission_write t))]),
      (''uses_cwd'', JBool (\<not> is_mcp t)), (''definition'', te_definition E t)]"

definition build_tools :: "tool_id list" where
  "build_tools = [Read_file, File_glob_search, Grep_search, Exec_shell_command, Write_file, Edit_file, Get_info]"

section \<open>server_tools\<close>

datatype tools_runtime = Static_runtime string | Container_runtime string string string

datatype stream_body = Stream_chunk string | Stream_done string

record server_tools =
  st_tools :: "tool_id list"
  st_queue_res :: "stream_body server_response"
  st_res_id :: int
  st_runtime :: "tools_runtime option"

text \<open>\<open>server_tools_container_runtime::spawn\<close>; the result is the id of the container.\<close>

definition spawn_container :: "('w, 'r) tool_env \<Rightarrow> string \<Rightarrow> string \<Rightarrow> 'w \<Rightarrow> string tool_result \<times> 'w" where
  "spawn_container E bin img w =
     (case te_container E bin img w of
        (Not_spawned, w) \<Rightarrow>
          (Inl (Other_exn (''failed to spawn '' @ bin @ '' container for tools runtime (image: '' @ img @ '')'')), w)
      | (No_container_id, w) \<Rightarrow>
          (Inl (Other_exn (''timed out waiting for '' @ bin @ '' container to start (image: '' @ img @ '')'')), w)
      | (Container_started cid, w) \<Rightarrow> (Inr cid, w))"

definition make_tools_runtime :: "('w, 'r) tool_env \<Rightarrow> string \<Rightarrow> 'w \<Rightarrow> tools_runtime tool_result \<times> 'w" where
  "make_tools_runtime E spec w =
     (let static = (tbind (make_tools_io (JObj [(''runtime'', JStr spec)])) (\<lambda>_. Inr (Static_runtime spec)), w)
      in case parse_runtime_spec spec of
        None \<Rightarrow> static
      | Some c \<Rightarrow>
          if rt_attach c then static
          else if rt_arg c = [] then
            (Inl (Other_exn (''--tools-runtime '' @ rt_bin c @ '':<image> requires an image name'')), w)
          else (case spawn_container E (rt_bin c) (rt_arg c) w of
                  (r, w) \<Rightarrow> (tbind r (\<lambda>cid. Inr (Container_runtime (rt_bin c) (rt_arg c) cid)), w)))"

text \<open>\<open>spec()\<close>: a dead container is started again first.\<close>

fun runtime_spec :: "('w, 'r) tool_env \<Rightarrow> tools_runtime \<Rightarrow> 'w \<Rightarrow> string tool_result \<times> tools_runtime \<times> 'w" where
  "runtime_spec E (Static_runtime spec) w = (Inr spec, Static_runtime spec, w)"
| "runtime_spec E (Container_runtime bin img cid) w =
     (if te_container_alive E w then (Inr (bin @ ''-container:'' @ cid), Container_runtime bin img cid, w)
      else case spawn_container E bin img w of
             (Inl e, w) \<Rightarrow> (Inl e, Container_runtime bin img cid, w)
           | (Inr cid, w) \<Rightarrow> (Inr (bin @ ''-container:'' @ cid), Container_runtime bin img cid, w))"

text \<open>The tools of the MCP servers are those whose names are not taken.\<close>

fun add_mcp_tools :: "(string \<times> string) list \<Rightarrow> tool_id list \<Rightarrow> tool_id list" where
  "add_mcp_tools [] tools = tools"
| "add_mcp_tools ((server, name) # defs) tools =
     (if server @ ''_'' @ name \<in> tool_name ` set tools then add_mcp_tools defs tools
      else add_mcp_tools defs (tools @ [Mcp_tool server name]))"

fun unknown_tool :: "string list \<Rightarrow> string option" where
  "unknown_tool [] = None"
| "unknown_tool (n # ns) =
     (if n = ''all'' \<or> n \<in> tool_name ` set build_tools then unknown_tool ns else Some n)"

fun join_names :: "string list \<Rightarrow> string" where
  "join_names [] = []"
| "join_names [n] = n"
| "join_names (n # m # ns) = n @ '', '' @ join_names (m # ns)"

definition tools_setup ::
  "('w, 'r) tool_env \<Rightarrow> bool \<Rightarrow> string list \<Rightarrow> (string \<times> string) list \<Rightarrow> string \<Rightarrow> server_tools \<Rightarrow> 'w
     \<Rightarrow> server_tools tool_result \<times> 'w" where
  "tools_setup E subproc_supported enabled mcp_defs tools_runtime S w =
     (case (if tools_runtime = [] then (Inr S, w)
            else case make_tools_runtime E tools_runtime w of
                   (r, w) \<Rightarrow> (tbind r (\<lambda>rt. Inr (S\<lparr>st_runtime := Some rt\<rparr>)), w)) of
        (r, w) \<Rightarrow>
          (tbind r (\<lambda>S.
           tbind (if enabled = [] then Inr (st_tools S)
                  else if \<not> subproc_supported then Inl (Other_exn ''subprocess is not enabled on this build'')
                  else case unknown_tool enabled of
                         Some n \<Rightarrow> Inl (Other_exn (''unknown tool \"'' @ n @ ''\". available tools: ''
                                     @ join_names (map tool_name build_tools)))
                       | None \<Rightarrow> Inr (filter (\<lambda>t. tool_name t \<in> set enabled \<or> ''all'' \<in> set enabled) build_tools)) (\<lambda>ts.
           Inr (S\<lparr>st_tools := add_mcp_tools mcp_defs ts\<rparr>))), w))"

section \<open>The HTTP handlers\<close>

definition to_lower :: "char \<Rightarrow> char" where
  "to_lower c = (if CHR ''A'' \<le> c \<and> c \<le> CHR ''Z'' then char_of (of_char c + 32 :: nat) else c)"

definition str_to_lower :: "string \<Rightarrow> string" where
  "str_to_lower = map to_lower"

definition get_header :: "(string \<times> string) list \<Rightarrow> string \<Rightarrow> string \<Rightarrow> string" where
  "get_header headers key default_value =
     (case find (\<lambda>h. str_to_lower (fst h) = str_to_lower key) headers of
        Some h \<Rightarrow> snd h | None \<Rightarrow> default_value)"

fun find_tool :: "tool_id list \<Rightarrow> string \<Rightarrow> bool \<Rightarrow> tool_id tool_result" where
  "find_tool [] name require_stream = Inl (Invalid_argument (''unknown tool \"'' @ name @ ''\"''))"
| "find_tool (t # ts) name require_stream =
     (if tool_name t = name then
        (if require_stream \<and> \<not> support_stream t then
           Inl (Invalid_argument (''tool \"'' @ name @ ''\" does not support stream = true''))
         else Inr t)
      else find_tool ts name require_stream)"

definition handle_get :: "('w, 'r) tool_env \<Rightarrow> server_tools \<Rightarrow> json" where
  "handle_get E S = JArr (map (tool_to_json E) (st_tools S))"

text \<open>Assigning a member of a value that is neither an object nor null throws.\<close>

fun jerase :: "string \<Rightarrow> json \<Rightarrow> json" where
  "jerase k (JObj ms) = JObj (filter (\<lambda>m. fst m \<noteq> k) ms)"
| "jerase k j = j"

definition jassign :: "string \<Rightarrow> string \<Rightarrow> json \<Rightarrow> json tool_result" where
  "jassign k v j = (case j of JObj ms \<Rightarrow> Inr (jset k (JStr v) j) | JNull \<Rightarrow> Inr (jset k (JStr v) j)
                    | _ \<Rightarrow> Inl (Json_error k))"

text \<open>A parameter only a header may set: what the body says of it is dropped.\<close>

definition jreplace :: "string \<Rightarrow> string \<Rightarrow> json \<Rightarrow> json tool_result" where
  "jreplace k v j = jassign k v (jerase k j)"

definition header_param :: "string \<Rightarrow> string \<Rightarrow> json \<Rightarrow> json tool_result" where
  "header_param k v j = (if v \<noteq> [] then jreplace k v j else Inr (jerase k j))"

datatype tools_res = Plain_res int json | Stream_res int

definition error_res :: "('w, 'r) tool_env \<Rightarrow> tool_exn \<Rightarrow> tools_res result" where
  "error_res E e =
     (case e of
        Json_error k \<Rightarrow> Inr (Plain_res 400 (format_error_response (te_json_what E k) ERROR_INVALID_REQUEST))
      | Invalid_argument m \<Rightarrow> Inr (Plain_res 404 (format_error_response m ERROR_INVALID_REQUEST))
      | Other_exn m \<Rightarrow> Inr (Plain_res 500 (format_error_response m ERROR_SERVER))
      | Undefined \<Rightarrow> Inl Abort)"

definition body_stream :: "json \<Rightarrow> bool tool_result" where
  "body_stream body =
     (case jfind ''stream'' body of
        None \<Rightarrow> Inr False
      | Some v \<Rightarrow> (case get_bool v of Some b \<Rightarrow> Inr b | None \<Rightarrow> Inl (Json_error ''stream'')))"

text \<open>The body of the request: the tool, its parameters, and whether the answer is streamed.\<close>

definition parse_post :: "('w, 'r) tool_env \<Rightarrow> string \<Rightarrow> (string \<times> json \<times> bool) tool_result" where
  "parse_post E req_body =
     (case te_json_parse E req_body of
        None \<Rightarrow> Inl (Json_error ''parse'')
      | Some body \<Rightarrow>
          tbind (jat_str ''tool'' body) (\<lambda>name.
          tbind (body_stream body) (\<lambda>streamed.
          Inr (name, case jfind ''params'' body of Some p \<Rightarrow> p | None \<Rightarrow> JObj [], streamed))))"

text \<open>
  The parameters of the call.  The runtime of the header wins over the server's own, which is
  asked for its specification and may start its container again.
\<close>

definition post_params ::
  "('w, 'r) tool_env \<Rightarrow> (string \<times> string) list \<Rightarrow> json \<Rightarrow> server_tools \<Rightarrow> 'w
     \<Rightarrow> json tool_result \<times> server_tools \<times> 'w" where
  "post_params E headers args S w =
     (case header_param ''cwd'' (get_header headers ''x-tool-cwd'' []) args of
        Inl e \<Rightarrow> (Inl e, S, w)
      | Inr args \<Rightarrow>
          (let header = get_header headers ''x-tool-runtime'' [];
               resp = header_param ''resp_type'' (get_header headers ''x-resp-type'' []);
               with_runtime = (\<lambda>r. tbind (header_param ''runtime'' r args) resp)
           in if header \<noteq> [] then (with_runtime header, S, w)
              else case st_runtime S of
                None \<Rightarrow> (with_runtime [], S, w)
              | Some rt \<Rightarrow>
                  (case runtime_spec E rt w of
                     (r, rt, w) \<Rightarrow>
                       (tbind r (\<lambda>spec. tbind (jreplace ''runtime'' spec args) resp),
                        S\<lparr>st_runtime := Some rt\<rparr>, w))))"

text \<open>
  The handler.  A streamed call registers an id in the result queue and starts a worker; the last
  result is the worker's call.
\<close>

definition handle_post ::
  "('w, 'r) tool_env \<Rightarrow> (string \<times> string) list \<Rightarrow> string \<Rightarrow> server_tools \<Rightarrow> 'w
     \<Rightarrow> tools_res result \<times> server_tools \<times> 'w \<times> (int \<times> tool_id \<times> json) option" where
  "handle_post E headers req_body S w =
     (case parse_post E req_body of
        Inl e \<Rightarrow> (error_res E e, S, w, None)
      | Inr (name, args, streamed) \<Rightarrow>
          (case post_params E headers args S w of
             (Inl e, S, w) \<Rightarrow> (error_res E e, S, w, None)
           | (Inr args, S, w) \<Rightarrow>
               (case find_tool (st_tools S) name streamed of
                  Inl e \<Rightarrow> (error_res E e, S, w, None)
                | Inr t \<Rightarrow>
                    if streamed then
                      (Inr (Stream_res (st_res_id S)),
                       S\<lparr>st_res_id := st_res_id S + 1,
                         st_queue_res := add_waiting_task_id (st_res_id S) (st_queue_res S)\<rparr>,
                       w, Some (st_res_id S, t, args))
                    else (case tool_invoke E t args None w of
                            (Inl e, w) \<Rightarrow> (error_res E e, S, w, None)
                          | (Inr (j, _), w) \<Rightarrow> (Inr (Plain_res 200 j), S, w, None)))))"

text \<open>The results the worker of a streamed call sends: the chunks that are not empty, then the end.\<close>

definition stream_msg :: "int \<Rightarrow> stream_body \<Rightarrow> stream_body result_msg" where
  "stream_msg i b = \<lparr>res_id = i, res_index = 0, res_error = False, res_stop = False, res_body = b\<rparr>"

definition tool_what :: "('w, 'r) tool_env \<Rightarrow> tool_exn \<Rightarrow> string" where
  "tool_what E e = (case e of Json_error k \<Rightarrow> te_json_what E k | Invalid_argument m \<Rightarrow> m | Other_exn m \<Rightarrow> m | Undefined \<Rightarrow> [])"

definition stream_worker ::
  "('w, 'r) tool_env \<Rightarrow> tool_id \<Rightarrow> json \<Rightarrow> (string list \<Rightarrow> bool) \<Rightarrow> 'w \<Rightarrow> stream_body list result \<times> 'w" where
  "stream_worker E t args alive w =
     (case tool_invoke E t args (Some alive) w of
        (Inl Undefined, w) \<Rightarrow> (Inl Abort, w)
      | (Inl e, w) \<Rightarrow> (Inr [Stream_done (tool_what E e)], w)
      | (Inr (_, pushed), w) \<Rightarrow> (Inr (map Stream_chunk (filter (\<lambda>c. c \<noteq> []) pushed) @ [Stream_done []]), w))"

fun stream_json :: "stream_body \<Rightarrow> json" where
  "stream_json (Stream_chunk c) = JObj [(''chunk'', JStr c)]"
| "stream_json (Stream_done err) =
     JObj ([(''done'', JBool True)] @ (if err \<noteq> [] then [(''error'', JStr err)] else []))"

text \<open>One call of \<open>next\<close>: the event, whether there is more, and the queue; \<open>None\<close> while it waits.\<close>

definition stream_next :: "int \<Rightarrow> stream_body server_response \<Rightarrow> (stream_body \<times> bool \<times> stream_body server_response) option" where
  "stream_next i q =
     (case response_scan [i] q of
        None \<Rightarrow> None
      | Some (m, q) \<Rightarrow>
          (case res_body m of
             Stream_done e \<Rightarrow> Some (Stream_done e, False, remove_waiting_task_id i q)
           | Stream_chunk c \<Rightarrow> Some (Stream_chunk c, True, q)))"

section \<open>Isolation\<close>

lemma grep_files_same:
  "io_read_file h io = io_read_file h' io \<Longrightarrow>
     grep_files h io found show_num ctx_lines files out n_found w = grep_files h' io found show_num ctx_lines files out n_found w"
  by (induction h io found show_num ctx_lines files out n_found w rule: grep_files.induct)
    (auto simp: Let_def split: option.splits prod.splits bool.splits)

lemma env_host:
  "te_host (E\<lparr>te_host := h\<rparr>) = h" "te_glob (E\<lparr>te_host := h\<rparr>) = te_glob E"
  "te_strip (E\<lparr>te_host := h\<rparr>) = te_strip E" "te_regex (E\<lparr>te_host := h\<rparr>) = te_regex E"
  "te_search (E\<lparr>te_host := h\<rparr>) = te_search E" "te_base64 (E\<lparr>te_host := h\<rparr>) = te_base64 E"
  "te_mcp_call (E\<lparr>te_host := h\<rparr>) = te_mcp_call E"
  by simp_all

lemmas tool_defs = read_file_invoke_def file_glob_search_invoke_def grep_search_invoke_def
  exec_shell_command_invoke_def write_file_invoke_def edit_file_invoke_def get_info_invoke_def
  grep_targets_def glob_matches_def stripped_or_unknown_def

text \<open>
  Property C36.  Once a runtime is named, no tool depends on the host or acts on it but by starting the
  client program of that runtime: \<open>docker exec\<close> or \<open>podman exec\<close> with the container that was named, or
  ssh in batch mode with the target that was named.  On two hosts that answer such commands alike
  and differ in all else, files, directories and other programs, every call does the same.
\<close>

theorem tools_stay_in_isolate:
  assumes "json_value get_str args ''runtime'' [] = runtime" "runtime \<noteq> []" "same_clients runtime (te_host E) h'"
  shows "tool_invoke (E\<lparr>te_host := h'\<rparr>) t args st w = tool_invoke E t args st w"
proof (cases "make_tools_io args")
  case (Inl e)
  then show ?thesis
    by (cases t)
      (auto simp: read_file_invoke_def file_glob_search_invoke_def grep_search_invoke_def
        exec_shell_command_invoke_def write_file_invoke_def edit_file_invoke_def get_info_invoke_def targ_def
        Let_def split: sum.splits)
next
  case (Inr io)
  from make_tools_io_isolate [OF Inr assms(1,2)] obtain box cwd where io: "io = Io_isolate box cwd" "isolate_of runtime box"
    by metis
  note same = isolate_same [OF assms(3) io(2), of cwd, folded io(1), symmetric]
  have runtime: "(json_value get_str args ''runtime'' [] = []) = False"
    using assms(1,2) by simp
  show ?thesis
    by (cases t)
      (unfold tool_invoke.simps tool_defs Inr targ_simps env_host same grep_files_same [OF same(5)] runtime if_False,
       rule refl | simp)+
qed

section \<open>Only headers choose the place\<close>

definition routing_free :: "(string \<times> json) list \<Rightarrow> (string \<times> json) list" where
  "routing_free ms = filter (\<lambda>m. fst m \<notin> {''cwd'', ''runtime'', ''resp_type''}) ms"

lemma members_set_absent: "k \<notin> fst ` set ms \<Longrightarrow> members_set k v ms = ms @ [(k, v)]"
  by (induction ms) auto

lemma jreplace_obj:
  "jreplace k v (JObj ms) = Inr (JObj (filter (\<lambda>m. fst m \<noteq> k) ms @ [(k, JStr v)]))"
proof -
  have "k \<notin> fst ` set (filter (\<lambda>m. fst m \<noteq> k) ms)"
    by auto
  then show ?thesis
    by (simp add: jreplace_def jassign_def members_set_absent)
qed

lemma header_param_obj:
  "header_param k v (JObj ms) = Inr (JObj (filter (\<lambda>m. fst m \<noteq> k) ms @ (if v \<noteq> [] then [(k, JStr v)] else [])))"
  by (simp add: header_param_def jreplace_obj)

lemma routing_filter:
  "filter (\<lambda>m. fst m \<noteq> ''resp_type'') (filter (\<lambda>m. fst m \<noteq> ''runtime'') (filter (\<lambda>m. fst m \<noteq> ''cwd'') ms)) = routing_free ms"
  by (auto simp: routing_free_def intro!: filter_cong)

definition member_if :: "string \<Rightarrow> string \<Rightarrow> (string \<times> json) list" where
  "member_if k v = (if v \<noteq> [] then [(k, JStr v)] else [])"

lemma post_params_obj:
  "post_params E headers (JObj ms) S w =
     (let c = member_if ''cwd'' (get_header headers ''x-tool-cwd'' []);
          p = member_if ''resp_type'' (get_header headers ''x-resp-type'' []);
          header = get_header headers ''x-tool-runtime'' []
      in if header \<noteq> [] \<or> st_runtime S = None
         then (Inr (JObj (routing_free ms @ c @ member_if ''runtime'' header @ p)), S, w)
         else case runtime_spec E (the (st_runtime S)) w of
                (r, rt, w) \<Rightarrow> (tbind r (\<lambda>spec. Inr (JObj (routing_free ms @ c @ [(''runtime'', JStr spec)] @ p))),
                               S\<lparr>st_runtime := Some rt\<rparr>, w))"
proof (cases "st_runtime S")
  case (Some rt)
  obtain r rt' w' where "runtime_spec E rt w = (r, rt', w')"
    by (metis prod_cases3)
  then show ?thesis
    by (cases r) (auto simp: post_params_def header_param_obj jreplace_obj member_if_def Let_def routing_filter [symmetric] Some)
qed (auto simp: post_params_def header_param_obj member_if_def Let_def routing_filter [symmetric])

text \<open>
   The working directory, the runtime and the response type of a tool call are those
  of the headers and of the server's configuration: two request bodies with the same tool that
  differ only in those parameters are answered alike and have the same effect.
\<close>

theorem body_never_chooses_runtime:
  assumes "te_json_parse E b = Some body" "te_json_parse E b' = Some body'"
    "jfind ''tool'' body = jfind ''tool'' body'" "jfind ''stream'' body = jfind ''stream'' body'"
    "jfind ''params'' body = Some (JObj ms)" "jfind ''params'' body' = Some (JObj ms')"
    "routing_free ms = routing_free ms'"
  shows "handle_post E headers b S w = handle_post E headers b' S w"
proof -
  have p: "post_params E headers (JObj ms) = post_params E headers (JObj ms')"
    by (intro ext) (simp only: post_params_obj assms(7))
  have "parse_post E b = (case parse_post E b' of Inl e \<Rightarrow> Inl e | Inr (n, _, s) \<Rightarrow> Inr (n, JObj ms, s))"
    "parse_post E b' = (case parse_post E b' of Inl e \<Rightarrow> Inl e | Inr (n, _, s) \<Rightarrow> Inr (n, JObj ms', s))"
    using assms(1-6)
    by (cases "jat_str ''tool'' body'"; cases "body_stream body'";
        simp add: parse_post_def jat_str_def jat_def body_stream_def)+
  then show ?thesis
    unfolding handle_post_def using p
    by (cases "parse_post E b'") (auto split: prod.splits)
qed

section \<open>The list of tools\<close>

lemma add_mcp_tools_distinct:
  "distinct (map tool_name ts) \<Longrightarrow> distinct (map tool_name (add_mcp_tools defs ts))
     \<and> set ts \<subseteq> set (add_mcp_tools defs ts)"
  by (induction defs ts rule: add_mcp_tools.induct) auto

lemma build_tools_distinct: "distinct (map tool_name build_tools)"
  by code_simp

lemma find_tool_distinct:
  "distinct (map tool_name ts) \<Longrightarrow> t \<in> set ts \<Longrightarrow> find_tool ts (tool_name t) False = Inr t"
  by (induction ts) (auto simp: image_iff)

text \<open>
  However the tools are configured, every tool of the list is the one its own name
  finds: no tool of an MCP server can take the name of another tool.
\<close>

theorem setup_tools_addressable:
  assumes "tools_setup E supported enabled mcp_defs rt S w = (Inr S', w')" "enabled \<noteq> []" "t \<in> set (st_tools S')"
  shows "find_tool (st_tools S') (tool_name t) False = Inr t"
proof -
  obtain ts where ts: "st_tools S' = add_mcp_tools mcp_defs (filter (\<lambda>t. tool_name t \<in> set enabled \<or> ''all'' \<in> set enabled) ts)"
    "ts = build_tools"
  proof -
    obtain r w1 where r: "(if rt = [] then (Inr S, w)
            else case make_tools_runtime E rt w of
                   (r, w) \<Rightarrow> (tbind r (\<lambda>rt. Inr (S\<lparr>st_runtime := Some rt\<rparr>)), w)) = (r, w1)"
      by fastforce
    with assms(1) obtain S1 where "r = Inr S1"
      by (cases r) (auto simp: tools_setup_def)
    with r assms(1,2) show thesis
      using that by (auto simp: tools_setup_def split: if_splits option.splits)
  qed
  have "distinct (map tool_name (filter (\<lambda>t. tool_name t \<in> set enabled \<or> ''all'' \<in> set enabled) build_tools))"
    using build_tools_distinct by (rule distinct_map_filter)
  with ts add_mcp_tools_distinct find_tool_distinct assms(3) show ?thesis
    by metis
qed

section \<open>Reading a part of a file\<close>

definition selected_lines :: "int \<Rightarrow> int \<Rightarrow> bool \<Rightarrow> int \<Rightarrow> string list \<Rightarrow> string list" where
  "selected_lines first_line last_line append_loc lineno lines =
     map (\<lambda>(n, l). numbered_line append_loc n l)
       (filter (\<lambda>(n, l). first_line \<le> n \<and> (last_line = -1 \<or> n \<le> last_line))
          (zip (map (\<lambda>k. lineno + 1 + int k) [0..<length lines]) lines))"

lemma selected_lines_Cons:
  "selected_lines s e a n (l # ls) =
     (if s \<le> n + 1 \<and> (e = -1 \<or> n + 1 \<le> e) then [numbered_line a (n + 1) l] else []) @ selected_lines s e a (n + 1) ls"
proof -
  have "map (\<lambda>k. n + 1 + int k) [0..<length (l # ls)] = (n + 1) # map (\<lambda>k. n + 1 + 1 + int k) [0..<length ls]"
    by (simp add: upt_conv_Cons map_Suc_upt [symmetric] del: upt_Suc)
  then show ?thesis
    by (simp add: selected_lines_def)
qed

lemma selected_lines_past: "e \<noteq> -1 \<Longrightarrow> e \<le> n \<Longrightarrow> selected_lines s e a n ls = []"
proof (induction ls arbitrary: n)
  case Nil
  show ?case by (simp add: selected_lines_def)
next
  case (Cons l ls)
  then show ?case by (simp add: selected_lines_Cons)
qed

lemma read_lines_selected:
  "length result \<le> SERVER_TOOL_READ_FILE_MAX_SIZE \<Longrightarrow>
     (\<exists>n. read_lines s e a lineno ls result
        = result @ concat (take n (selected_lines s e a lineno ls))
          @ (if length (selected_lines s e a lineno ls) \<le> n then [] else ''[output truncated]'')
      \<and> length (result @ concat (take n (selected_lines s e a lineno ls))) \<le> SERVER_TOOL_READ_FILE_MAX_SIZE
      \<and> (length (selected_lines s e a lineno ls) \<le> n
         \<or> SERVER_TOOL_READ_FILE_MAX_SIZE < length (result @ concat (take (Suc n) (selected_lines s e a lineno ls)))))"
proof (induction ls arbitrary: lineno result)
  case Nil
  then show ?case
    by (auto simp: selected_lines_def)
next
  case (Cons l ls)
  let ?line = "numbered_line a (lineno + 1) l"
  consider (before) "lineno + 1 < s" | (behind) "\<not> lineno + 1 < s" "e \<noteq> -1" "e < lineno + 1"
    | (full) "\<not> lineno + 1 < s" "e = -1 \<or> lineno + 1 \<le> e"
        "SERVER_TOOL_READ_FILE_MAX_SIZE < length result + length ?line"
    | (taken) "\<not> lineno + 1 < s" "e = -1 \<or> lineno + 1 \<le> e"
        "length result + length ?line \<le> SERVER_TOOL_READ_FILE_MAX_SIZE"
    by linarith
  then show ?case
  proof cases
    case before
    then show ?thesis
      using Cons by (simp add: selected_lines_Cons)
  next
    case behind
    then show ?thesis
      using Cons.prems by (intro exI [of _ 0]) (simp add: selected_lines_past)
  next
    case full
    then show ?thesis
      using Cons.prems by (intro exI [of _ 0]) (auto simp: selected_lines_Cons)
  next
    case taken
    then have "read_lines s e a lineno (l # ls) result = read_lines s e a (lineno + 1) ls (result @ ?line)"
      by (auto simp: Let_def)
    moreover obtain n where
      "read_lines s e a (lineno + 1) ls (result @ ?line)
        = (result @ ?line) @ concat (take n (selected_lines s e a (lineno + 1) ls))
          @ (if length (selected_lines s e a (lineno + 1) ls) \<le> n then [] else ''[output truncated]'')
      \<and> length ((result @ ?line) @ concat (take n (selected_lines s e a (lineno + 1) ls))) \<le> SERVER_TOOL_READ_FILE_MAX_SIZE
      \<and> (length (selected_lines s e a (lineno + 1) ls) \<le> n
         \<or> SERVER_TOOL_READ_FILE_MAX_SIZE < length ((result @ ?line) @ concat (take (Suc n) (selected_lines s e a (lineno + 1) ls))))"
      using Cons.IH [of "result @ ?line" "lineno + 1"] taken(3) by auto
    ultimately show ?thesis
      using taken by (intro exI [of _ "Suc n"]) (simp add: selected_lines_Cons)
  qed
qed

text \<open>
  What \<open>read_file\<close> answers is the selected lines in order, numbered when asked for,
  as many of them as fit into 16 KB, with the mark behind them exactly when some do not fit.
\<close>

theorem read_file_selects_lines:
  "\<exists>n. read_lines first_line last_line append_loc 0 lines []
        = concat (take n (selected_lines first_line last_line append_loc 0 lines))
          @ (if length (selected_lines first_line last_line append_loc 0 lines) \<le> n then [] else ''[output truncated]'')
      \<and> length (concat (take n (selected_lines first_line last_line append_loc 0 lines))) \<le> SERVER_TOOL_READ_FILE_MAX_SIZE
      \<and> (length (selected_lines first_line last_line append_loc 0 lines) \<le> n
         \<or> SERVER_TOOL_READ_FILE_MAX_SIZE
             < length (concat (take (Suc n) (selected_lines first_line last_line append_loc 0 lines))))"
  using read_lines_selected [of "[]" first_line last_line append_loc 0 lines] by simp

section \<open>Writing an edited file\<close>

lemma of_result_Inr: "of_result r = Inr x \<longleftrightarrow> r = Inr x"
  by (cases r rule: of_result.cases) simp_all

text \<open>
  On the host, \<open>edit_file\<close> leaves the world as it is unless the edits of the call
  are accepted on the content of the file, and then writes exactly the edited text to the file.
\<close>

theorem edit_file_writes_edit:
  assumes "edit_file_invoke E args w = (r, w')" "make_tools_io args = Inr (Io_basic cwd)"
  shows "w' = w \<or> (\<exists>path content edits result n.
       jat_str ''path'' args = Inr path \<and> h_read (te_host E) (basic_resolve (te_host E) cwd path) w = Some content
     \<and> edit_content path content edits = Inr (Edit_done result n)
     \<and> w' = snd (basic_write_file (te_host E) cwd path result w))"
proof (cases "w' = w")
  case False
  obtain path where path: "jat_str ''path'' args = Inr path"
    using assms(1) False by (cases "jat_str ''path'' args") (auto simp: edit_file_invoke_def)
  obtain ej where ej: "jat ''edits'' args = Inr ej"
    using assms(1) False path by (cases "jat ''edits'' args") (auto simp: edit_file_invoke_def)
  define es where "es = (case ej of JArr es \<Rightarrow> es | _ \<Rightarrow> [])"
  have es: "es \<noteq> []"
    using assms(1) False path ej by (auto simp: edit_file_invoke_def es_def Let_def)
  obtain edits where edits: "parse_edits es [] = Inr (Inr edits)"
    using assms(1) False path ej es
    by (cases "parse_edits es []") (auto simp: edit_file_invoke_def es_def [symmetric] split: sum.splits)
  obtain content where c: "h_read (te_host E) (basic_resolve (te_host E) cwd path) w = Some content"
    using assms False path ej es edits
    by (cases "h_read (te_host E) (basic_resolve (te_host E) cwd path) w")
      (auto simp: edit_file_invoke_def es_def [symmetric])
  obtain result n where "edit_content path content edits = Inr (Edit_done result n)"
    using assms False path ej es edits c
    by (cases "of_result (edit_content path content edits)")
      (auto simp: edit_file_invoke_def es_def [symmetric] of_result_Inr split: edit_answer.splits)
  with assms path ej es edits c show ?thesis
    by (intro disjI2 exI [of _ path] exI [of _ content] exI [of _ edits] exI [of _ result] exI [of _ n])
      (auto simp: edit_file_invoke_def es_def [symmetric] split: prod.splits)
qed simp

section \<open>Streamed calls\<close>

text \<open>
  A streamed call as the steps of its worker, of the connection that calls \<open>next\<close>, and of the
  other connections on the shared queue.  The state is what the worker has still to send, the
  queue, the events the client got, and whether the connection is still open.
\<close>

type_synonym stream_state = "stream_body list \<times> stream_body server_response \<times> stream_body list \<times> bool"

inductive stream_step :: "int \<Rightarrow> stream_state \<Rightarrow> stream_state \<Rightarrow> bool" for i where
  Worker: "stream_step i (b # bs, q, got, opn) (bs, send (stream_msg i b) q, got, opn)"
| Client: "stream_next i q = Some (b, again, q') \<Longrightarrow> stream_step i (bs, q, got, True) (bs, q', got @ [b], again)"
| Other_send: "res_id m \<noteq> i \<Longrightarrow> stream_step i (bs, q, got, opn) (bs, send m q, got, opn)"
| Other_recv: "i \<notin> set is \<Longrightarrow> response_scan is q = Some (m, q') \<Longrightarrow> stream_step i (bs, q, got, opn) (bs, q', got, opn)"
| Other_opens: "stream_step i (bs, q, got, opn) (bs, add_waiting_task_id j q, got, opn)"
| Other_closes: "j \<noteq> i \<Longrightarrow> stream_step i (bs, q, got, opn) (bs, remove_waiting_task_id j q, got, opn)"

definition queued_for :: "int \<Rightarrow> stream_body server_response \<Rightarrow> stream_body list" where
  "queued_for i q = map res_body (filter (\<lambda>m. res_id m = i) (queue_results q))"

definition stream_events :: "string list \<Rightarrow> string \<Rightarrow> stream_body list" where
  "stream_events cs err = map Stream_chunk cs @ [Stream_done err]"

fun stream_inv :: "int \<Rightarrow> stream_body list \<Rightarrow> stream_state \<Rightarrow> bool" where
  "stream_inv i all_events (bs, q, got, opn) \<longleftrightarrow>
     (if opn then i \<in> set (waiting_task_ids q) \<and> got @ queued_for i q @ bs = all_events else got = all_events)"

lemma queued_send: "i \<in> set (waiting_task_ids q) \<Longrightarrow> queued_for i (send (stream_msg i b) q) = queued_for i q @ [b]"
  by (simp add: queued_for_def send_def stream_msg_def)

lemma queued_send_other: "res_id m \<noteq> i \<Longrightarrow> queued_for i (send m q) = queued_for i q"
  by (simp add: queued_for_def send_def)

lemma waiting_send: "waiting_task_ids (send m q) = waiting_task_ids q"
  by (simp add: send_def)

lemma scan_waiting: "response_scan is q = Some (m, q') \<Longrightarrow> waiting_task_ids q' = waiting_task_ids q"
  by (auto simp: response_scan_def)

lemma scan_queued:
  assumes "response_scan is q = Some (m, q')"
  shows "i \<notin> set is \<Longrightarrow> queued_for i q' = queued_for i q"
    and "is = [i] \<Longrightarrow> queued_for i q = res_body m # queued_for i q'"
proof -
  obtain pre post where p: "queue_results q = pre @ m # post" "queue_results q' = pre @ post"
    "res_id m \<in> set is" "\<forall>u \<in> set pre. res_id u \<notin> set is"
    using rq.fetch_Some [OF assms] by blast
  show "i \<notin> set is \<Longrightarrow> queued_for i q' = queued_for i q"
    using p by (auto simp: queued_for_def)
  show "is = [i] \<Longrightarrow> queued_for i q = res_body m # queued_for i q'"
    using p by (simp add: queued_for_def filter_False)
qed

lemma queued_remove: "j \<noteq> i \<Longrightarrow> queued_for i (remove_waiting_task_id j q) = queued_for i q"
  by (auto simp: queued_for_def remove_waiting_task_id_def intro!: arg_cong [where f = "map res_body"] filter_cong)

lemma queued_add: "queued_for i (add_waiting_task_id j q) = queued_for i q"
  by (simp add: queued_for_def add_waiting_task_id_def)

lemma waiting_add: "set (waiting_task_ids (add_waiting_task_id j q)) = insert j (set (waiting_task_ids q))"
  by (simp add: add_waiting_task_id_def)

lemma waiting_remove: "set (waiting_task_ids (remove_waiting_task_id j q)) = set (waiting_task_ids q) - {j}"
  by (simp add: remove_waiting_task_id_def)

lemma done_is_last: "got @ Stream_done e # r = map Stream_chunk cs @ [x] \<Longrightarrow> r = []"
proof (rule ccontr)
  assume a: "got @ Stream_done e # r = map Stream_chunk cs @ [x]" "r \<noteq> []"
  then obtain r' y where "r = r' @ [y]"
    by (metis append_butlast_last_id)
  with a(1) have "map Stream_chunk cs = got @ Stream_done e # r'"
    by simp
  then have "Stream_done e \<in> set (map Stream_chunk cs)"
    by simp
  then show False
    by auto
qed

lemma stream_step_inv:
  "stream_step i s s' \<Longrightarrow> stream_inv i (stream_events cs err) s \<Longrightarrow> stream_inv i (stream_events cs err) s'"
proof (induction rule: stream_step.induct)
  case (Client q b again q' bs got)
  obtain m q1 where scan: "response_scan [i] q = Some (m, q1)"
    using Client(1) by (auto simp: stream_next_def split: option.splits)
  then have b: "res_body m = b" and q': "q' = (if again then q1 else remove_waiting_task_id i q1)"
    and again: "again \<longleftrightarrow> (\<exists>c. b = Stream_chunk c)"
    using Client(1) by (cases "res_body m"; auto simp: stream_next_def)+
  have q: "queued_for i q = b # queued_for i q1"
    using scan_queued(2) [OF scan] b by simp
  show ?case
  proof (cases again)
    case True
    then show ?thesis
      using Client(2) q q' scan_waiting [OF scan] by simp
  next
    case False
    then obtain e where "b = Stream_done e"
      using again by (cases b) auto
    with Client(2) q have "got @ Stream_done e # (queued_for i q1 @ bs) = map Stream_chunk cs @ [Stream_done err]"
      by (simp add: stream_events_def)
    then have "queued_for i q1 @ bs = []"
      by (rule done_is_last)
    with Client(2) q \<open>b = Stream_done e\<close> False show ?thesis
      by simp
  qed
qed (auto simp: queued_send queued_send_other waiting_send scan_waiting scan_queued(1) queued_remove
    queued_add waiting_add waiting_remove split: if_splits)

lemma stream_steps_inv:
  "(stream_step i)\<^sup>*\<^sup>* s s' \<Longrightarrow> stream_inv i (stream_events cs err) s \<Longrightarrow> stream_inv i (stream_events cs err) s'"
  by (induction rule: rtranclp_induct) (auto intro: stream_step_inv)

definition stream_start :: "int \<Rightarrow> stream_body list \<Rightarrow> stream_body server_response \<Rightarrow> stream_state" where
  "stream_start i all_events q = (all_events, add_waiting_task_id i q, [], True)"

text \<open>
  Property C40.  In every interleaving of the worker, the client and the other connections, the
  client of a streamed call gets the events of the worker in order, each once; when the connection
  is closed it has got all of them, and as long as it is open and the worker has finished an event
  is there for it.
\<close>

theorem stream_delivers_in_order:
  assumes "(stream_step i)\<^sup>*\<^sup>* (stream_start i (stream_events cs err) q) (bs, q', got, opn)"
    "queued_for i q = []"
  shows "(\<exists>rest. stream_events cs err = got @ rest) \<and> (\<not> opn \<longrightarrow> got = stream_events cs err)
     \<and> (opn \<and> bs = [] \<and> got \<noteq> stream_events cs err \<longrightarrow> stream_next i q' \<noteq> None)"
proof -
  have "stream_inv i (stream_events cs err) (stream_start i (stream_events cs err) q)"
    using assms(2) by (simp add: stream_start_def add_waiting_task_id_def queued_for_def)
  from stream_steps_inv [OF assms(1) this]
  have inv: "stream_inv i (stream_events cs err) (bs, q', got, opn)" .
  have "stream_next i q' \<noteq> None" if "queued_for i q' \<noteq> []"
  proof -
    have "response_scan [i] q' \<noteq> None"
      using that rq.fetch_None [of "[i]" q'] by (auto simp: queued_for_def filter_empty_conv)
    then show ?thesis
      by (auto simp: stream_next_def split: stream_body.splits)
  qed
  moreover have "queued_for i q' \<noteq> []" if "opn" "bs = []" "got \<noteq> stream_events cs err"
    using inv that by auto
  moreover have "\<exists>rest. stream_events cs err = got @ rest"
    using inv by (cases opn) (auto intro: sym)
  ultimately show ?thesis
    using inv by (auto split: if_splits)
qed

section \<open>Examples\<close>

definition sample_tool_env :: "(string, string) tool_env" where
  "sample_tool_env = \<lparr>te_host = sample_host, te_glob = \<lambda>p s. p = ''**'' \<or> p = s, te_strip = \<lambda>s. s,
     te_regex = \<lambda>s icase. Inr s, te_search = \<lambda>r s. str_contains s r, te_base64 = \<lambda>s. s,
     te_mcp_call = \<lambda>s n j w. (Inr j, w), te_container = \<lambda>b i w. (Container_started ''c1'', w),
     te_container_alive = \<lambda>w. True, te_definition = \<lambda>t. JNull,
     te_json_parse = \<lambda>s. Some (JObj [(''tool'', JStr ''write_file''), (''params'', JObj
        [(''path'', JStr ''a''), (''content'', JStr ''x''), (''runtime'', JStr s)])]),
     te_json_what = \<lambda>k. k\<rparr>"

definition sample_edit_args :: json where
  "sample_edit_args = JObj [(''path'', JStr ''a''),
     (''edits'', JArr [JObj [(''old_text'', JStr ''b''), (''new_text'', JStr ''c'')]])]"

lemma sample_edit_invoke:
  "edit_file_invoke sample_tool_env sample_edit_args ''ab''
     = (answer (JObj [(''result'', JStr ''file edited successfully''), (''path'', JStr ''a''), (''edits_applied'', JInt 1)]), ''ac'')"
  by code_simp

lemma edit_file_writes_edit_witness:
  "\<exists>content edits n. edit_content ''a'' content edits = Inr (Edit_done ''ac'' n)"
proof -
  have io: "make_tools_io sample_edit_args = Inr (Io_basic [])"
    by code_simp
  have "jat_str ''path'' sample_edit_args = Inr ''a''"
    by code_simp
  with edit_file_writes_edit [OF sample_edit_invoke io] show ?thesis
    by (auto simp: basic_write_file_def sample_tool_env_def sample_host_def Let_def split: if_splits)
qed

definition bare_host :: "string host" where
  "bare_host = sample_host\<lparr>h_read := \<lambda>p w. None, h_write := \<lambda>p c w. (False, w), h_cwd := None,
     h_spawn := \<lambda>req w. if hd (sp_args req) = ''docker'' then h_spawn sample_host req w else None\<rparr>"

lemma tools_stay_in_isolate_witness:
  "tool_invoke (sample_tool_env\<lparr>te_host := bare_host\<rparr>) Get_info (JObj [(''runtime'', JStr ''docker-container:c1'')]) None ''w''
     = tool_invoke sample_tool_env Get_info (JObj [(''runtime'', JStr ''docker-container:c1'')]) None ''w''"
proof (rule tools_stay_in_isolate)
  show "json_value get_str (JObj [(''runtime'', JStr ''docker-container:c1'')]) ''runtime'' [] = ''docker-container:c1''"
    by code_simp
  show "''docker-container:c1'' \<noteq> []" by simp
  show "same_clients ''docker-container:c1'' (te_host sample_tool_env) bare_host"
    by (auto simp: same_clients_def client_command_def container_command_def ssh_command_def bare_host_def sample_tool_env_def)
qed

definition sample_tools :: server_tools where
  "sample_tools = \<lparr>st_tools = build_tools, st_queue_res = response_init, st_res_id = 0, st_runtime = None\<rparr>"

lemma body_never_chooses_runtime_witness:
  "handle_post sample_tool_env [(''X-Tool-Runtime'', ''ssh:box'')] ''docker-container:c1'' sample_tools ''w''
     = handle_post sample_tool_env [(''X-Tool-Runtime'', ''ssh:box'')] ''ssh:other'' sample_tools ''w''"
  by (rule body_never_chooses_runtime [where
        body = "JObj [(''tool'', JStr ''write_file''), (''params'', JObj
          [(''path'', JStr ''a''), (''content'', JStr ''x''), (''runtime'', JStr ''docker-container:c1'')])]" and
        body' = "JObj [(''tool'', JStr ''write_file''), (''params'', JObj
          [(''path'', JStr ''a''), (''content'', JStr ''x''), (''runtime'', JStr ''ssh:other'')])]" and
        ms = "[(''path'', JStr ''a''), (''content'', JStr ''x''), (''runtime'', JStr ''docker-container:c1'')]" and
        ms' = "[(''path'', JStr ''a''), (''content'', JStr ''x''), (''runtime'', JStr ''ssh:other'')]"])
    (simp_all add: sample_tool_env_def routing_free_def)

lemma sample_setup:
  "fst (tools_setup sample_tool_env True [''read_file'', ''get_info''] [(''read'', ''file''), (''x'', ''y'')] [] sample_tools ''w'')
     = Inr (sample_tools\<lparr>st_tools := [Read_file, Get_info, Mcp_tool ''x'' ''y'']\<rparr>)"
  by code_simp

lemma setup_tools_addressable_witness:
  "find_tool [Read_file, Get_info, Mcp_tool ''x'' ''y''] ''x_y'' False = Inr (Mcp_tool ''x'' ''y'')"
proof -
  obtain w' where "tools_setup sample_tool_env True [''read_file'', ''get_info''] [(''read'', ''file''), (''x'', ''y'')] [] sample_tools ''w''
      = (Inr (sample_tools\<lparr>st_tools := [Read_file, Get_info, Mcp_tool ''x'' ''y'']\<rparr>), w')"
    using sample_setup by (metis prod.collapse)
  from setup_tools_addressable [OF this, of "Mcp_tool ''x'' ''y''"] show ?thesis
    by simp
qed

lemma stream_delivers_in_order_witness:
  "\<exists>q' rest. (stream_step 0)\<^sup>*\<^sup>* (stream_start 0 (stream_events [''a''] []) response_init)
      ([Stream_done []], q', [Stream_chunk ''a''], True)
     \<and> stream_events [''a''] [] = [Stream_chunk ''a''] @ rest"
proof -
  let ?q = "add_waiting_task_id 0 response_init"
  let ?q1 = "send (stream_msg 0 (Stream_chunk ''a'')) ?q"
  have s1: "stream_step 0 (stream_start 0 (stream_events [''a''] []) response_init) ([Stream_done []], ?q1, [], True)"
    using stream_step.Worker [of 0 "Stream_chunk ''a''" "[Stream_done []]" ?q "[]" True]
    by (simp add: stream_start_def stream_events_def)
  have "stream_next 0 ?q1 = Some (Stream_chunk ''a'', True, ?q)"
    by (simp add: stream_next_def response_scan_def send_def stream_msg_def add_waiting_task_id_def response_init_def)
  from stream_step.Client [OF this, of "[Stream_done []]" "[]"]
  have s2: "stream_step 0 ([Stream_done []], ?q1, [], True) ([Stream_done []], ?q, [Stream_chunk ''a''], True)"
    by simp
  from s1 s2 have r: "(stream_step 0)\<^sup>*\<^sup>* (stream_start 0 (stream_events [''a''] []) response_init)
      ([Stream_done []], ?q, [Stream_chunk ''a''], True)"
    by (meson rtranclp.rtrancl_into_rtrancl r_into_rtranclp)
  have "queued_for 0 response_init = []"
    by (simp add: queued_for_def response_init_def)
  from stream_delivers_in_order [OF r this] r show ?thesis
    by blast
qed

end
