(* ===== verification/Router.thy ===== *)
theory Router
  imports Strings Json Response
begin

text \<open>
  The router mode (server-models.cpp, server-models.h): one child process per model, started on
  demand, at most \<open>models_max\<close> at a time.  This theory holds the registry \<open>server_models\<close>, the
  queue of requests waiting for a slot (\<open>server_lru_sched\<close>) and the monitor of the children
  (\<open>server_monitor\<close>).  A definition is one section under the lock; the theory \<open>Router_Run\<close> puts the
  sections of all threads together.  Presets, the spawning of processes, free ports and the
  capabilities of model files are libraries.
\<close>

section \<open>Data\<close>

datatype server_model_status = Downloading | Downloaded | Unloaded | Loading | Loaded | Sleeping

datatype server_model_source = Source_preset | Source_models_dir | Source_cache

datatype server_child_mode = Child_normal | Child_download

fun server_model_status_to_string :: "server_model_status \<Rightarrow> string" where
  "server_model_status_to_string Downloading = ''downloading''"
| "server_model_status_to_string Downloaded = ''downloaded''"
| "server_model_status_to_string Unloaded = ''unloaded''"
| "server_model_status_to_string Loading = ''loading''"
| "server_model_status_to_string Loaded = ''loaded''"
| "server_model_status_to_string Sleeping = ''sleeping''"

fun server_model_source_to_string :: "server_model_source \<Rightarrow> string" where
  "server_model_source_to_string Source_preset = ''preset''"
| "server_model_source_to_string Source_models_dir = ''models_dir''"
| "server_model_source_to_string Source_cache = ''cache''"

record 'p server_model_meta =
  mm_source :: server_model_source
  mm_preset :: 'p
  mm_name :: string
  mm_aliases :: "string list"
  mm_tags :: "string list"
  mm_port :: int
  mm_status :: server_model_status
  mm_last_used :: int
  mm_args :: "string list"
  mm_loaded_info :: json
  mm_progress :: json
  mm_exit_code :: int
  mm_stop_timeout :: int
  mm_multimodal :: "bool \<times> bool"
  mm_hidden :: bool

definition is_ready :: "'p server_model_meta \<Rightarrow> bool" where
  "is_ready m = (mm_status m = Loaded)"

definition is_running :: "'p server_model_meta \<Rightarrow> bool" where
  "is_running m = (mm_status m = Loaded \<or> mm_status m = Loading \<or> mm_status m = Sleeping)"

definition is_ready_or_sleep :: "'p server_model_meta \<Rightarrow> bool" where
  "is_ready_or_sleep m = (mm_status m = Loaded \<or> mm_status m = Sleeping)"

definition is_failed :: "'p server_model_meta \<Rightarrow> bool" where
  "is_failed m = (mm_status m = Unloaded \<and> mm_exit_code m \<noteq> 0)"

text \<open>
  The libraries and the settings: the operations on a preset, the list functions of the common
  library, the names of the preset options it defines, the executable and its environment.
\<close>

record 'p router_env =
  re_get :: "'p \<Rightarrow> string \<Rightarrow> string option"
  re_set :: "string \<Rightarrow> string \<Rightarrow> 'p \<Rightarrow> 'p"
  re_unset :: "string \<Rightarrow> 'p \<Rightarrow> 'p"
  re_merge :: "'p \<Rightarrow> 'p \<Rightarrow> 'p"
  re_cascade :: "'p \<Rightarrow> (string \<times> 'p) list \<Rightarrow> (string \<times> 'p) list"
  re_same_options :: "'p \<Rightarrow> 'p \<Rightarrow> bool"
  re_to_args :: "'p \<Rightarrow> string \<Rightarrow> string list"
  re_mmproj :: "'p \<Rightarrow> (bool \<times> string) option"
  re_mtmd_cap :: "string \<Rightarrow> bool \<times> bool"
  re_split :: "string \<Rightarrow> string list"
  re_strip :: "string \<Rightarrow> string"
  re_truthy :: "string \<Rightarrow> bool"
  re_resolve_path :: "string \<Rightarrow> string option \<Rightarrow> string"
  re_stop_timeout_key :: string
  re_startup_key :: string
  re_dedup_key :: string
  re_empty :: 'p
  re_base :: 'p
  re_bin_path :: string
  re_app_cmd :: "string option"
  re_base_env :: "string list"
  re_port :: int
  re_models_max :: int
  re_json_parse :: "string \<Rightarrow> json option"

definition meta_default :: "'p router_env \<Rightarrow> 'p server_model_meta" where
  "meta_default E = \<lparr>mm_source = Source_cache, mm_preset = re_empty E, mm_name = [], mm_aliases = [], mm_tags = [],
     mm_port = 0, mm_status = Unloaded, mm_last_used = 0, mm_args = [], mm_loaded_info = JNull, mm_progress = JNull,
     mm_exit_code = 0, mm_stop_timeout = 0, mm_multimodal = (False, False), mm_hidden = False\<rparr>"

text \<open>
  An entry of the registry.  A process object is a number, \<open>None\<close> is the null pointer.
\<close>

record 'p instance_t =
  in_proc :: "nat option"
  in_meta :: "'p server_model_meta"
  in_req_count :: int

definition instance_default :: "'p router_env \<Rightarrow> 'p instance_t" where
  "instance_default E = \<lparr>in_proc = None, in_meta = meta_default E, in_req_count = 0\<rparr>"

record entry_t =
  en_model :: string
  en_waiters :: int
  en_loading :: bool

record child_t =
  ch_name :: string
  ch_proc :: nat
  ch_mode :: server_child_mode
  ch_port :: int
  ch_buf :: string
  ch_eof :: bool
  ch_deadline :: int

datatype cmd_t = Cmd_watch child_t | Cmd_stop string int bool | Cmd_quit

datatype proc_call = Spawn nat "string list" "string list" | Request_exit "nat option" | Kill "nat option"

text \<open>
  The state of the router: the fields of \<open>server_models\<close>, the queue of the scheduler, the commands
  and children of the monitor, the next process object, and the calls made on processes.
\<close>

record 'p server_models =
  sm_mapping :: "(string \<times> 'p instance_t) list"
  sm_stopping :: "string set"
  sm_reloading :: bool
  sm_need_reload :: bool
  sm_startup :: "string list option"
  sm_queue :: "entry_t list"
  sm_cmds :: "cmd_t list"
  sm_children :: "child_t list"
  sm_next_proc :: nat
  sm_calls :: "proc_call list"
  sm_sse :: "json server_response"

definition models_init :: "'p server_models" where
  "models_init = \<lparr>sm_mapping = [], sm_stopping = {}, sm_reloading = False, sm_need_reload = False, sm_startup = Some [],
     sm_queue = [], sm_cmds = [], sm_children = [], sm_next_proc = 0, sm_calls = [], sm_sse = response_init\<rparr>"

definition entry :: "'p server_models \<Rightarrow> string \<Rightarrow> 'p instance_t option" where
  "entry S name = map_of (sm_mapping S) name"

definition put :: "string \<Rightarrow> 'p instance_t \<Rightarrow> 'p server_models \<Rightarrow> 'p server_models" where
  "put name i S = S\<lparr>sm_mapping := omap_set name i (sm_mapping S)\<rparr>"

text \<open>\<open>mapping[name]\<close>, which inserts an empty entry when there is none.\<close>

definition touch :: "'p router_env \<Rightarrow> string \<Rightarrow> 'p server_models \<Rightarrow> 'p instance_t \<times> 'p server_models" where
  "touch E name S = (case entry S name of Some i \<Rightarrow> (i, S) | None \<Rightarrow> (instance_default E, put name (instance_default E) S))"

definition call :: "proc_call \<Rightarrow> 'p server_models \<Rightarrow> 'p server_models" where
  "call c S = S\<lparr>sm_calls := sm_calls S @ [c]\<rparr>"

section \<open>Metadata\<close>

definition CHILD_ADDR :: string where
  "CHILD_ADDR = ''127.0.0.1''"

definition DEFAULT_STOP_TIMEOUT :: int where
  "DEFAULT_STOP_TIMEOUT = 10"

definition unset_reserved_args :: "'p router_env \<Rightarrow> bool \<Rightarrow> 'p \<Rightarrow> 'p" where
  "unset_reserved_args E unset_model_args p =
     fold (re_unset E)
       ([''LLAMA_ARG_SSL_KEY_FILE'', ''LLAMA_ARG_SSL_CERT_FILE'', ''LLAMA_API_KEY'', ''LLAMA_ARG_MODELS_DIR'',
         ''LLAMA_ARG_MODELS_MAX'', ''LLAMA_ARG_MODELS_PRESET'', ''LLAMA_ARG_MODELS_AUTOLOAD'']
        @ (if unset_model_args then [''LLAMA_ARG_MODEL'', ''LLAMA_ARG_MMPROJ'', ''LLAMA_ARG_ALIAS'', ''LLAMA_ARG_HF_REPO''] else []))
       p"

text \<open>The arguments start with the binary, so \<open>begin() + 1\<close> is within them.\<close>

definition update_args :: "'p router_env \<Rightarrow> 'p server_model_meta \<Rightarrow> 'p server_model_meta" where
  "update_args E m =
     (let p = re_set E ''LLAMA_ARG_ALIAS'' (mm_name m)
                (re_set E ''LLAMA_ARG_PORT'' (show_int (mm_port m))
                  (re_set E ''LLAMA_ARG_HOST'' CHILD_ADDR (unset_reserved_args E False (mm_preset m))));
          args = re_to_args E p (re_bin_path E)
      in m\<lparr>mm_preset := p,
           mm_args := (case re_app_cmd E of
               Some c \<Rightarrow> if c \<noteq> [] \<and> re_bin_path E \<noteq> [] then take 1 args @ [c] @ drop 1 args else args
             | None \<Rightarrow> args)\<rparr>)"

definition update_caps :: "'p router_env \<Rightarrow> 'p server_model_meta \<Rightarrow> 'p server_model_meta" where
  "update_caps E m =
     m\<lparr>mm_multimodal := (case re_mmproj E (mm_preset m) of
         None \<Rightarrow> (False, False)
       | Some (no_mmproj, path) \<Rightarrow> if no_mmproj \<or> path = [] then (False, False) else re_mtmd_cap E path)\<rparr>"

text \<open>A comma-separated option added to a \<open>std::set\<close>, which is a sorted list.\<close>

definition add_names :: "'p router_env \<Rightarrow> 'p \<Rightarrow> string \<Rightarrow> string list \<Rightarrow> string list" where
  "add_names E p key names =
     (case re_get E p key of
        Some s \<Rightarrow> if s \<noteq> [] then
            fold (\<lambda>a names. let a = re_strip E a in if a \<noteq> [] then insort_insert a names else names) (re_split E s) names
          else names
      | None \<Rightarrow> names)"

definition in_quotes :: "string \<Rightarrow> string" where
  "in_quotes s = CHR 0x27 # s @ [CHR 0x27]"

text \<open>The first other model that has the name as an alias.\<close>

definition alias_owner :: "string \<Rightarrow> (string \<times> 'p instance_t) list \<Rightarrow> string option" where
  "alias_owner a mapping = map_option fst (find (\<lambda>e. a \<in> set (mm_aliases (in_meta (snd e)))) mapping)"

fun check_aliases :: "string \<Rightarrow> (string \<times> 'p instance_t) list \<Rightarrow> string list \<Rightarrow> unit result" where
  "check_aliases name mapping [] = Inr ()"
| "check_aliases name mapping (a # as) =
     (if map_of mapping a \<noteq> None then
        Inl (Throw (''alias '' @ in_quotes a @ '' for model '' @ in_quotes name @ '' conflicts with existing model name''))
      else case alias_owner a mapping of
             Some key \<Rightarrow> Inl (Throw (''alias '' @ in_quotes a @ '' for model '' @ in_quotes name @ '' conflicts with alias of model '' @ in_quotes key))
           | None \<Rightarrow> check_aliases name mapping as)"

definition new_meta :: "'p router_env \<Rightarrow> server_model_source \<Rightarrow> 'p \<Rightarrow> string \<Rightarrow> 'p server_model_meta" where
  "new_meta E src p name = (meta_default E)\<lparr>mm_source := src, mm_preset := p, mm_name := name, mm_stop_timeout := DEFAULT_STOP_TIMEOUT\<rparr>"

definition add_model :: "'p router_env \<Rightarrow> 'p server_model_meta \<Rightarrow> 'p server_models \<Rightarrow> 'p server_models result" where
  "add_model E m S =
     (if map_of (sm_mapping S) (mm_name m) \<noteq> None then
        Inl (Throw (''model '' @ in_quotes (mm_name m) @ '' appears multiple times''))
      else case alias_owner (mm_name m) (sm_mapping S) of
        Some key \<Rightarrow> Inl (Throw (''model name '' @ in_quotes (mm_name m) @ '' conflicts with alias of model '' @ in_quotes key))
      | None \<Rightarrow>
          (let m = m\<lparr>mm_aliases := add_names E (mm_preset m) ''LLAMA_ARG_ALIAS'' (mm_aliases m)\<rparr>;
               m = m\<lparr>mm_tags := add_names E (mm_preset m) ''LLAMA_ARG_TAGS'' (mm_tags m)\<rparr>
           in rbind (check_aliases (mm_name m) (sm_mapping S) (mm_aliases m)) (\<lambda>_.
              let m = update_caps E (update_args E m)
              in Inr (put (mm_name m) \<lparr>in_proc = Some (sm_next_proc S), in_meta = m, in_req_count = 0\<rparr>
                   (S\<lparr>sm_next_proc := sm_next_proc S + 1\<rparr>)))))"

section \<open>The list of models\<close>

text \<open>\<open>std::stoi\<close>: \<open>None\<close> when it throws.\<close>

definition is_blank :: "char \<Rightarrow> bool" where
  "is_blank c = (c \<in> {CHR 0x20, CHR 0x09, CHR 0x0A, CHR 0x0B, CHR 0x0C, CHR 0x0D})"

definition is_digit :: "char \<Rightarrow> bool" where
  "is_digit c = (48 \<le> (of_char c :: nat) \<and> (of_char c :: nat) \<le> 57)"

definition digits_value :: "string \<Rightarrow> int" where
  "digits_value s = foldl (\<lambda>n c. 10 * n + (of_char c - 48)) 0 s"

definition stoi :: "string \<Rightarrow> int option" where
  "stoi s =
     (let s = dropWhile is_blank s;
          neg = (s \<noteq> [] \<and> hd s = CHR 0x2D);
          s = (if s \<noteq> [] \<and> (hd s = CHR 0x2D \<or> hd s = CHR 0x2B) then tl s else s);
          ds = takeWhile is_digit s;
          v = (if neg then - digits_value ds else digits_value ds)
      in if ds = [] then None else if v < - 2147483648 \<or> 2147483647 < v then None else Some v)"

text \<open>
  The first phase of \<open>load_models\<close>: \<open>cached\<close>, \<open>local\<close> and \<open>custom\<close> are the presets read from the cache,
  the models directory and the presets file (empty when not given), \<open>glob\<close> the global preset.
\<close>

record 'p model_list =
  ml_presets :: "(string \<times> 'p) list"
  ml_sources :: "(string \<times> server_model_source) list"
  ml_hidden :: "string list"

definition get_source :: "(string \<times> server_model_source) list \<Rightarrow> string \<Rightarrow> server_model_source" where
  "get_source srcs name = (case map_of srcs name of Some s \<Rightarrow> s | None \<Rightarrow> Source_preset)"

definition merge_presets :: "'p router_env \<Rightarrow> (string \<times> 'p) list \<Rightarrow> (string \<times> 'p) list \<Rightarrow> (string \<times> 'p) list \<Rightarrow> (string \<times> 'p) list" where
  "merge_presets E cached local custom =
     (let final = fold (\<lambda>(name, p) f. omap_set name p f) cached [];
          final = fold (\<lambda>(name, p) f. omap_set name p f) local final;
          final = fold (\<lambda>(name, c) f. omap_set name (case map_of f name of Some p \<Rightarrow> re_merge E p c | None \<Rightarrow> c) f) custom final
      in map (\<lambda>(name, p). (name, re_merge E p (re_base E))) final)"

definition source_map :: "(string \<times> 'p) list \<Rightarrow> (string \<times> 'p) list \<Rightarrow> (string \<times> 'p) list \<Rightarrow> (string \<times> server_model_source) list" where
  "source_map cached local custom =
     fold (\<lambda>(name, _) f. omap_set name Source_preset f) custom
       (fold (\<lambda>(name, _) f. omap_set name Source_models_dir f) local
         (fold (\<lambda>(name, _) f. omap_set name Source_cache f) cached []))"

definition dedup_path :: "'p router_env \<Rightarrow> 'p \<Rightarrow> string option" where
  "dedup_path E p =
     (case re_get E p (re_dedup_key E) of
        None \<Rightarrow> None
      | Some v \<Rightarrow> if \<not> re_truthy E v then None
          else case re_get E p ''LLAMA_ARG_HF_REPO'' of
                 None \<Rightarrow> None
               | Some repo \<Rightarrow> if repo = [] then None
                   else let file = (case re_get E p ''LLAMA_ARG_HF_FILE'' of Some f \<Rightarrow> f | None \<Rightarrow> []);
                            path = re_resolve_path E repo (Some file)
                        in if path \<noteq> [] then Some path else None)"

definition hidden_models :: "'p router_env \<Rightarrow> (string \<times> 'p) list \<Rightarrow> (string \<times> 'p) list \<Rightarrow> (string \<times> server_model_source) list \<Rightarrow> string list" where
  "hidden_models E cached custom srcs =
     (let paths = List.map_filter (\<lambda>e. dedup_path E (snd e)) custom
      in if paths = [] then []
         else filter (\<lambda>name. get_source srcs name = Source_cache
                \<and> (let path = re_resolve_path E name None in path \<noteq> [] \<and> path \<in> set paths)) (map fst cached))"

definition gather_models :: "'p router_env \<Rightarrow> (string \<times> 'p) list \<Rightarrow> (string \<times> 'p) list \<Rightarrow> 'p \<Rightarrow> (string \<times> 'p) list \<Rightarrow> 'p model_list" where
  "gather_models E cached local glob custom =
     (let cached = re_cascade E glob cached; local = re_cascade E glob local; custom = re_cascade E glob custom;
          srcs = source_map cached local custom
      in \<lparr>ml_presets = merge_presets E cached local custom, ml_sources = srcs, ml_hidden = hidden_models E cached custom srcs\<rparr>)"

definition map_metas :: "(string \<Rightarrow> 'p server_model_meta \<Rightarrow> 'p server_model_meta) \<Rightarrow> 'p server_models \<Rightarrow> 'p server_models" where
  "map_metas f S = S\<lparr>sm_mapping := map (\<lambda>(n, i). (n, i\<lparr>in_meta := f n (in_meta i)\<rparr>)) (sm_mapping S)\<rparr>"

definition apply_stop_timeout :: "'p router_env \<Rightarrow> 'p server_models \<Rightarrow> 'p server_models" where
  "apply_stop_timeout E S = map_metas (\<lambda>n m.
     case re_get E (mm_preset m) (re_stop_timeout_key E) of
       None \<Rightarrow> m
     | Some v \<Rightarrow> m\<lparr>mm_stop_timeout := (case stoi v of Some k \<Rightarrow> k | None \<Rightarrow> DEFAULT_STOP_TIMEOUT)\<rparr>) S"

definition apply_hidden :: "'p model_list \<Rightarrow> 'p server_models \<Rightarrow> 'p server_models" where
  "apply_hidden L S = map_metas (\<lambda>n m. m\<lparr>mm_hidden := n \<in> set (ml_hidden L)\<rparr>) S"

text \<open>The models of a list, in its order; the first that cannot be added ends the loop.\<close>

fun add_models :: "'p router_env \<Rightarrow> 'p model_list \<Rightarrow> (string \<times> 'p) list \<Rightarrow> 'p server_models \<Rightarrow> unit result \<times> 'p server_models" where
  "add_models E L [] S = (Inr (), S)"
| "add_models E L ((name, p) # ps) S =
     (case add_model E (new_meta E (get_source (ml_sources L) name) p name) S of
        Inl e \<Rightarrow> (Inl e, S)
      | Inr S \<Rightarrow> add_models E L ps S)"

definition startup_list :: "'p router_env \<Rightarrow> 'p server_models \<Rightarrow> string list" where
  "startup_list E S =
     map fst (filter (\<lambda>e. case re_get E (mm_preset (in_meta (snd e))) (re_startup_key E) of
                            Some v \<Rightarrow> re_truthy E v | None \<Rightarrow> False) (sm_mapping S))"

definition first_load :: "'p router_env \<Rightarrow> 'p model_list \<Rightarrow> 'p server_models \<Rightarrow> unit result \<times> 'p server_models" where
  "first_load E L S =
     (case add_models E L (ml_presets L) (S\<lparr>sm_need_reload := False\<rparr>) of
        (Inl e, S) \<Rightarrow> (Inl e, S)
      | (Inr _, S) \<Rightarrow>
          (let S = apply_hidden L (apply_stop_timeout E S)
           in if sm_startup S \<noteq> None then
                let names = startup_list E S
                in if int (length names) > re_models_max E then
                     (Inl (Throw (''number of models to load on startup ('' @ show_nat (length names) @ '') exceeds models_max (''
                        @ show_int (re_models_max E) @ '')'')), S)
                   else (Inr (), S\<lparr>sm_startup := Some names\<rparr>)
              else (Inr (), S)))"

section \<open>Reloading the list\<close>

definition compare_preset :: "'p router_env \<Rightarrow> 'p \<Rightarrow> 'p" where
  "compare_preset E p = re_unset E ''LLAMA_ARG_ALIAS'' (re_unset E ''LLAMA_ARG_PORT'' (re_unset E ''LLAMA_ARG_HOST'' p))"

definition to_unload :: "'p router_env \<Rightarrow> 'p model_list \<Rightarrow> 'p server_models \<Rightarrow> string list" where
  "to_unload E L S =
     map fst (filter (\<lambda>(name, i). is_running (in_meta i) \<and>
        (case map_of (ml_presets L) name of
           None \<Rightarrow> True
         | Some p \<Rightarrow> \<not> re_same_options E (compare_preset E (mm_preset (in_meta i))) (compare_preset E p))) (sm_mapping S))"

definition reload_begin :: "'p router_env \<Rightarrow> 'p model_list \<Rightarrow> 'p server_models \<Rightarrow> string list \<times> 'p server_models" where
  "reload_begin E L S = (to_unload E L S, S\<lparr>sm_need_reload := False, sm_reloading := True\<rparr>)"

definition reload_may_go_on :: "string list \<Rightarrow> 'p server_models \<Rightarrow> bool" where
  "reload_may_go_on names S =
     list_all (\<lambda>n. case entry S n of Some i \<Rightarrow> \<not> is_running (in_meta i) | None \<Rightarrow> True) names"

definition erase_old :: "'p model_list \<Rightarrow> 'p server_models \<Rightarrow> 'p server_models" where
  "erase_old L S =
     S\<lparr>sm_mapping := filter (\<lambda>(name, i).
         if mm_status (in_meta i) = Downloading then True
         else if mm_status (in_meta i) = Downloaded then False
         else map_of (ml_presets L) name \<noteq> None) (sm_mapping S)\<rparr>"

definition alias_taken :: "string \<Rightarrow> string \<Rightarrow> (string \<times> 'p instance_t) list \<Rightarrow> bool" where
  "alias_taken name a mapping =
     list_ex (\<lambda>(other, i). other \<noteq> name \<and> (other = a \<or> a \<in> set (mm_aliases (in_meta i)))) mapping"

definition refresh_model :: "'p router_env \<Rightarrow> 'p model_list \<Rightarrow> string \<Rightarrow> 'p server_models \<Rightarrow> 'p server_models" where
  "refresh_model E L name S =
     (case entry S name of
        None \<Rightarrow> S
      | Some i \<Rightarrow>
          if is_running (in_meta i) then S
          else case map_of (ml_presets L) name of
                 None \<Rightarrow> S
               | Some p \<Rightarrow>
                   (let new_aliases = add_names E p ''LLAMA_ARG_ALIAS'' [];
                        aliases = fold (\<lambda>a as. if alias_taken name a (sm_mapping S) then as else insort_insert a as) new_aliases [];
                        m = (in_meta i)\<lparr>mm_preset := p, mm_aliases := aliases, mm_tags := add_names E p ''LLAMA_ARG_TAGS'' [],
                               mm_exit_code := 0\<rparr>
                    in put name (i\<lparr>in_meta := update_caps E (update_args E m)\<rparr>) S))"

definition refresh_models :: "'p router_env \<Rightarrow> 'p model_list \<Rightarrow> 'p server_models \<Rightarrow> 'p server_models" where
  "refresh_models E L S = fold (refresh_model E L) (map fst (sm_mapping S)) S"

definition reload_end :: "'p router_env \<Rightarrow> 'p model_list \<Rightarrow> 'p server_models \<Rightarrow> unit result \<times> 'p server_models" where
  "reload_end E L S =
     (let S = refresh_models E L (erase_old L S);
          new = filter (\<lambda>(name, p). entry S name = None) (ml_presets L)
      in case add_models E L new S of
           (Inl e, S) \<Rightarrow> (Inl e, S)
         | (Inr _, S) \<Rightarrow> (Inr (), (apply_hidden L (apply_stop_timeout E S))\<lparr>sm_reloading := False\<rparr>))"

definition take_startup :: "'p server_models \<Rightarrow> string list \<times> 'p server_models" where
  "take_startup S = (case sm_startup S of None \<Rightarrow> ([], S) | Some names \<Rightarrow> (names, S\<lparr>sm_startup := None\<rparr>))"

section \<open>Events\<close>

definition notify_sse :: "string \<Rightarrow> string \<Rightarrow> json \<Rightarrow> 'p server_models \<Rightarrow> 'p server_models" where
  "notify_sse event model_id data S =
     (let j = JObj [(''model'', JStr model_id), (''event'', JStr event)];
          j = (if data \<noteq> JNull then jset ''data'' data j else j)
      in S\<lparr>sm_sse := broadcast \<lparr>res_id = -1, res_index = 0, res_error = False, res_stop = False, res_body = j\<rparr> (sm_sse S)\<rparr>)"

section \<open>The queue for a slot\<close>

definition running_entries :: "'p server_models \<Rightarrow> (string \<times> 'p instance_t) list" where
  "running_entries S = filter (\<lambda>e. is_running (in_meta (snd e))) (sm_mapping S)"

definition count_running :: "'p server_models \<Rightarrow> nat" where
  "count_running S = length (running_entries S)"

definition has_capacity :: "'p router_env \<Rightarrow> 'p server_models \<Rightarrow> bool" where
  "has_capacity E S = (re_models_max E \<le> 0 \<or> count_running S < nat (re_models_max E))"

definition find_entry :: "string \<Rightarrow> entry_t list \<Rightarrow> entry_t option" where
  "find_entry name q = find (\<lambda>e. en_model e = name) q"

definition may_evict :: "'p server_models \<Rightarrow> string \<times> 'p instance_t \<Rightarrow> bool" where
  "may_evict S e =
     (in_req_count (snd e) = 0 \<and> is_ready_or_sleep (in_meta (snd e))
      \<and> \<not> (fst e \<in> sm_stopping S \<or> find_entry (fst e) (sm_queue S) \<noteq> None))"

fun oldest :: "(string \<times> 'p instance_t) list \<Rightarrow> string \<times> int \<Rightarrow> string \<times> int" where
  "oldest [] v = v"
| "oldest ((name, i) # es) (victim, last_used) =
     (if victim = [] \<or> mm_last_used (in_meta i) < last_used then oldest es (name, mm_last_used (in_meta i))
      else oldest es (victim, last_used))"

definition pick_victim :: "'p server_models \<Rightarrow> string" where
  "pick_victim S = fst (oldest (filter (may_evict S) (sm_mapping S)) ([], 0))"

fun join :: "string \<Rightarrow> entry_t list \<Rightarrow> entry_t list" where
  "join name [] = [\<lparr>en_model = name, en_waiters = 1, en_loading = False\<rparr>]"
| "join name (e # q) = (if en_model e = name then e\<lparr>en_waiters := en_waiters e + 1\<rparr> # q else e # join name q)"

fun leave :: "string \<Rightarrow> entry_t list \<Rightarrow> entry_t list" where
  "leave name [] = []"
| "leave name (e # q) =
     (if en_model e = name then (if en_waiters e - 1 \<le> 0 then q else e\<lparr>en_waiters := en_waiters e - 1\<rparr> # q)
      else e # leave name q)"

definition try_claim :: "'p router_env \<Rightarrow> string \<Rightarrow> 'p server_models \<Rightarrow> bool \<times> 'p server_models" where
  "try_claim E name S =
     (case sm_queue S of
        [] \<Rightarrow> (False, S)
      | e # q \<Rightarrow>
          if en_model e \<noteq> name \<or> en_loading e then (False, S)
          else if \<not> has_capacity E S then (False, S)
          else (True, S\<lparr>sm_queue := e\<lparr>en_loading := True\<rparr> # q\<rparr>))"

fun unclaim :: "string \<Rightarrow> entry_t list \<Rightarrow> entry_t list" where
  "unclaim name [] = []"
| "unclaim name (e # q) = (if en_model e = name then e\<lparr>en_loading := False\<rparr> # q else e # unclaim name q)"

definition claim_done :: "string \<Rightarrow> bool \<Rightarrow> 'p server_models \<Rightarrow> 'p server_models" where
  "claim_done name good S = (if good then S else S\<lparr>sm_queue := unclaim name (sm_queue S)\<rparr>)"

definition push_cmd :: "cmd_t \<Rightarrow> 'p server_models \<Rightarrow> 'p server_models" where
  "push_cmd c S = S\<lparr>sm_cmds := sm_cmds S @ [c]\<rparr>"

definition request_stop :: "string \<Rightarrow> bool \<Rightarrow> 'p server_models \<Rightarrow> 'p server_models" where
  "request_stop name send_exit S =
     (case entry S name of
        None \<Rightarrow> S
      | Some i \<Rightarrow>
          if name \<in> sm_stopping S then S
          else push_cmd (Cmd_stop name (mm_stop_timeout (in_meta i)) send_exit)
                 (S\<lparr>sm_stopping := insert name (sm_stopping S)\<rparr>))"

function evict_loop :: "int \<Rightarrow> int \<Rightarrow> 'p server_models \<Rightarrow> 'p server_models" where
  "evict_loop n_free n_needed S =
     (if n_free < n_needed then
        let victim = pick_victim S
        in if victim = [] then S else evict_loop (n_free + 1) n_needed (request_stop victim True S)
      else S)"
  by pat_completeness auto
termination by (relation "measure (\<lambda>(n_free, n_needed, S). nat (n_needed - n_free))") auto

declare evict_loop.simps [simp del]

definition n_stopping :: "'p server_models \<Rightarrow> nat" where
  "n_stopping S = length (filter (\<lambda>e. fst e \<in> sm_stopping S) (running_entries S))"

definition n_needed :: "'p server_models \<Rightarrow> nat" where
  "n_needed S = length (filter (\<lambda>e. \<not> en_loading e) (sm_queue S))"

text \<open>Slots that a waiting request has claimed while its \<open>load\<close> has not spawned yet.\<close>

definition n_claimed :: "'p server_models \<Rightarrow> nat" where
  "n_claimed S =
     length (filter (\<lambda>e. en_loading e \<and> (case entry S (en_model e) of None \<Rightarrow> False | Some i \<Rightarrow> \<not> is_running (in_meta i)))
       (sm_queue S))"

definition n_free :: "'p router_env \<Rightarrow> 'p server_models \<Rightarrow> int" where
  "n_free E S = re_models_max E - int (count_running S) + int (n_stopping S) - int (n_claimed S)"

definition tick :: "'p router_env \<Rightarrow> 'p server_models \<Rightarrow> 'p server_models" where
  "tick E S =
     (if re_models_max E \<le> 0 \<or> sm_queue S = [] then S
      else evict_loop (n_free E S) (int (n_needed S)) S)"

section \<open>Status of a model\<close>

definition has_model :: "string \<Rightarrow> 'p server_models \<Rightarrow> bool" where
  "has_model name S = (entry S name \<noteq> None \<or> alias_owner name (sm_mapping S) \<noteq> None)"

text \<open>\<open>get_meta\<close> after the reload it may do.\<close>

definition get_meta :: "string \<Rightarrow> 'p server_models \<Rightarrow> 'p server_model_meta option" where
  "get_meta name S =
     (case entry S name of
        Some i \<Rightarrow> Some (in_meta i)
      | None \<Rightarrow> map_option (\<lambda>e. in_meta (snd e)) (find (\<lambda>e. name \<in> set (mm_aliases (in_meta (snd e)))) (sm_mapping S)))"

definition get_all_meta :: "'p server_models \<Rightarrow> 'p server_model_meta list" where
  "get_all_meta S = map (\<lambda>e. in_meta (snd e)) (sm_mapping S)"

definition update_meta :: "string \<Rightarrow> 'p server_model_meta \<Rightarrow> 'p server_models \<Rightarrow> 'p server_models" where
  "update_meta name m S = (case entry S name of Some i \<Rightarrow> put name (i\<lparr>in_meta := m\<rparr>) S | None \<Rightarrow> S)"

record update_status_args =
  us_status :: server_model_status
  us_exit_code :: int
  us_loaded_info :: json
  us_progress :: json

definition status_of :: "server_model_status \<Rightarrow> update_status_args" where
  "status_of st = \<lparr>us_status = st, us_exit_code = 0, us_loaded_info = JNull, us_progress = JNull\<rparr>"

definition set_status :: "update_status_args \<Rightarrow> 'p server_model_meta \<Rightarrow> 'p server_model_meta" where
  "set_status a m =
     m\<lparr>mm_status := us_status a, mm_exit_code := us_exit_code a,
       mm_loaded_info := (if us_loaded_info a \<noteq> JNull then us_loaded_info a else mm_loaded_info m),
       mm_progress := (if us_progress a \<noteq> JNull then us_progress a else mm_progress m)\<rparr>"

definition status_event :: "update_status_args \<Rightarrow> json" where
  "status_event a =
     JObj ([(''status'', JStr (server_model_status_to_string (us_status a)))]
       @ (if us_status a = Unloaded then [(''exit_code'', JInt (us_exit_code a))] else [])
       @ (if us_loaded_info a \<noteq> JNull then [(''info'', us_loaded_info a)] else [])
       @ (if us_progress a \<noteq> JNull then [(''progress'', us_progress a)] else []))"

definition update_status :: "'p router_env \<Rightarrow> string \<Rightarrow> update_status_args \<Rightarrow> 'p server_models \<Rightarrow> 'p server_models" where
  "update_status E name a S =
     notify_sse ''status_change'' name (status_event a)
       (case entry S name of
          Some i \<Rightarrow> tick E (put name (i\<lparr>in_meta := set_status a (in_meta i)\<rparr>) S)
        | None \<Rightarrow> S)"

record download_progress =
  dp_url :: string
  dp_downloaded :: int
  dp_total :: int

definition add_progress :: "download_progress \<Rightarrow> json \<Rightarrow> json" where
  "add_progress p info =
     (let prog = (case jfind ''progress'' info of Some j \<Rightarrow> j | None \<Rightarrow> JNull)
      in jset ''progress'' (jset (dp_url p) (JObj [(''done'', JInt (dp_downloaded p)), (''total'', JInt (dp_total p))]) prog) info)"

definition update_download_progress :: "string \<Rightarrow> download_progress \<Rightarrow> bool \<Rightarrow> bool \<Rightarrow> 'p server_models \<Rightarrow> 'p server_models" where
  "update_download_progress name p finished good S =
     (if finished then
        notify_sse (if good then ''download_finished'' else ''download_failed'') name JNull
          (case entry S name of
             Some i \<Rightarrow> (put name (i\<lparr>in_meta := (in_meta i)\<lparr>mm_status := Downloaded\<rparr>\<rparr>) S)\<lparr>sm_need_reload := True\<rparr>
           | None \<Rightarrow> S)
      else
        (case entry S name of
           Some i \<Rightarrow>
             (let info = add_progress p (mm_loaded_info (in_meta i))
              in notify_sse ''download_progress'' name info
                   (put name (i\<lparr>in_meta := (in_meta i)\<lparr>mm_loaded_info := info\<rparr>\<rparr>) S))
         | None \<Rightarrow> notify_sse ''download_progress'' name JNull S))"

section \<open>Loading\<close>

record 'p load_options =
  lo_mode :: server_child_mode
  lo_custom_meta :: "'p server_model_meta option"

definition load_default :: "'p load_options" where
  "load_default = \<lparr>lo_mode = Child_normal, lo_custom_meta = None\<rparr>"

text \<open>The first section of \<open>unload_lru\<close>: the model to unload, if any.\<close>

definition lru_victim :: "'p router_env \<Rightarrow> 'p server_models \<Rightarrow> string" where
  "lru_victim E S = (if re_models_max E \<le> 0 \<or> has_capacity E S then [] else pick_victim S)"

text \<open>The predicate of the wait in \<open>unload_lru\<close>, which reads the map with \<open>operator[]\<close>.\<close>

definition lru_gone :: "'p router_env \<Rightarrow> string \<Rightarrow> 'p server_models \<Rightarrow> bool \<times> 'p server_models" where
  "lru_gone E name S = (let (i, S) = touch E name S in (mm_status (in_meta i) = Unloaded, S))"

text \<open>
  The machine at one call of \<open>load\<close>: the free port found, whether the process could be created,
  the processes alive, and the clock.
\<close>

record spawn_env =
  sp_port :: int
  sp_created :: bool
  sp_alive :: "nat \<Rightarrow> bool"
  sp_now :: int

text \<open>\<open>watch\<close>, run in the section of \<open>load\<close>; the output of a created process is there.\<close>

definition watch :: "string \<Rightarrow> nat \<Rightarrow> server_child_mode \<Rightarrow> int \<Rightarrow> 'p server_models \<Rightarrow> 'p server_models" where
  "watch name proc mode port S =
     push_cmd (Cmd_watch \<lparr>ch_name = name, ch_proc = proc, ch_mode = mode, ch_port = port, ch_buf = [], ch_eof = False, ch_deadline = 0\<rparr>) S"

definition load_target :: "'p router_env \<Rightarrow> 'p load_options \<Rightarrow> string \<Rightarrow> 'p server_models \<Rightarrow> 'p server_model_meta \<times> 'p server_models" where
  "load_target E opts name S =
     (case lo_custom_meta opts of
        Some m \<Rightarrow> (m, S)
      | None \<Rightarrow> let (i, S) = touch E name S in (in_meta i, S))"

definition at_limit :: "'p router_env \<Rightarrow> 'p server_models \<Rightarrow> bool" where
  "at_limit E S = (re_models_max E > 0 \<and> count_running S \<ge> nat (re_models_max E))"

definition kill_old :: "spawn_env \<Rightarrow> string \<Rightarrow> 'p server_models \<Rightarrow> 'p server_models" where
  "kill_old X name S =
     (case entry S name of
        None \<Rightarrow> S
      | Some i \<Rightarrow> (case in_proc i of None \<Rightarrow> S | Some q \<Rightarrow> if sp_alive X q then call (Kill (Some q)) S else S))"

text \<open>The new instance with its arguments, before the process is created.\<close>

definition new_instance :: "'p router_env \<Rightarrow> spawn_env \<Rightarrow> 'p load_options \<Rightarrow> nat \<Rightarrow> 'p server_model_meta \<Rightarrow> 'p instance_t" where
  "new_instance E X opts proc m =
     (let m = update_args E (m\<lparr>mm_port := sp_port X, mm_status := Loading, mm_loaded_info := JNull, mm_last_used := sp_now X\<rparr>)
      in \<lparr>in_proc = Some proc,
          in_meta = (if lo_mode opts = Child_download then m\<lparr>mm_status := Downloading\<rparr> else m), in_req_count = 0\<rparr>)"

definition child_env :: "'p router_env \<Rightarrow> 'p load_options \<Rightarrow> string \<Rightarrow> string list" where
  "child_env E opts name =
     re_base_env E @ [''LLAMA_SERVER_ROUTER_PORT='' @ show_int (re_port E)]
       @ (if lo_mode opts = Child_download then [''LLAMA_SERVER_CHILD_MODE=download'', ''LLAMA_ARG_HF_REPO='' @ name] else [])"

definition load_section :: "'p router_env \<Rightarrow> spawn_env \<Rightarrow> 'p load_options \<Rightarrow> string \<Rightarrow> 'p server_models \<Rightarrow> unit result \<times> 'p server_models" where
  "load_section E X opts name S =
     (let (m, S) = load_target E opts name S
      in if mm_status m \<noteq> Unloaded then (Inr (), S)
         else if at_limit E S then (Inl (Throw ''model limit reached, try again later''), S)
         else if sp_port X \<le> 0 then (Inl (Throw ''failed to get a port number''), S)
         else
           (let proc = sm_next_proc S;
                inst = new_instance E X opts proc m;
                S = S\<lparr>sm_next_proc := proc + 1\<rparr>
            in if \<not> sp_created X then (Inl (Throw ''failed to spawn server instance''), S)
               else (Inr (),
                 watch name proc (lo_mode opts) (mm_port (in_meta inst))
                   (put name inst
                     (notify_sse ''model_status'' name (JObj [(''status'', JStr (server_model_status_to_string (mm_status (in_meta inst))))])
                       (kill_old X name (call (Spawn proc (mm_args (in_meta inst)) (child_env E opts name)) S)))))))"

definition not_found :: "string \<Rightarrow> string" where
  "not_found name = ''model name='' @ name @ '' is not found''"

text \<open>The check before the section of \<open>load\<close>.\<close>

definition load_check :: "string \<Rightarrow> 'p server_models \<Rightarrow> unit result" where
  "load_check name S = (if has_model name S then Inr () else Inl (Throw (not_found name)))"

section \<open>Stopping\<close>

definition stop_running :: "string \<Rightarrow> 'p instance_t \<Rightarrow> 'p server_models \<Rightarrow> 'p server_models" where
  "stop_running name i S =
     (let loading = (mm_status (in_meta i) = Loading)
      in request_stop name (\<not> loading) (if loading then call (Kill (in_proc i)) S else S))"

text \<open>\<open>unload\<close>; with a download going on it then waits for the status to change (\<open>download_over\<close>).\<close>

definition unload :: "string \<Rightarrow> 'p server_models \<Rightarrow> 'p server_models" where
  "unload name S =
     (case entry S name of
        None \<Rightarrow> S
      | Some i \<Rightarrow>
          if mm_status (in_meta i) = Downloading then call (Request_exit (in_proc i)) S
          else if is_running (in_meta i) then stop_running name i S
          else S)"

definition wait_over :: "string \<Rightarrow> ('p server_model_meta \<Rightarrow> bool) \<Rightarrow> 'p server_models \<Rightarrow> bool" where
  "wait_over name pr S = (case entry S name of Some i \<Rightarrow> pr (in_meta i) | None \<Rightarrow> True)"

definition download_over :: "string \<Rightarrow> 'p server_models \<Rightarrow> bool" where
  "download_over name S = wait_over name (\<lambda>m. mm_status m \<noteq> Downloading) S"

definition unload_all :: "'p server_models \<Rightarrow> 'p server_models" where
  "unload_all S = fold unload (map fst (sm_mapping S)) S"

definition unload_all_over :: "'p server_models \<Rightarrow> bool" where
  "unload_all_over S = list_all (\<lambda>e. \<not> (is_running (in_meta (snd e)) \<or> mm_status (in_meta (snd e)) = Downloading)) (sm_mapping S)"

text \<open>\<open>remove\<close> up to its wait, and after it; the entry may be gone by then.\<close>

definition remove_begin :: "string \<Rightarrow> 'p server_models \<Rightarrow> unit result \<times> 'p server_models" where
  "remove_begin name S =
     (case entry S name of
        None \<Rightarrow> (Inl (Throw (not_found name)), S)
      | Some i \<Rightarrow>
          if mm_source (in_meta i) \<noteq> Source_cache then
            (Inl (Throw (''model name='' @ name @ '' is not removable (not from cache)'')), S)
          else (Inr (), unload name S))"

definition remove_may_go_on :: "string \<Rightarrow> 'p server_models \<Rightarrow> bool" where
  "remove_may_go_on name S = wait_over name (\<lambda>m. mm_status m = Unloaded \<or> mm_status m = Downloaded) S"

definition remove_end :: "string \<Rightarrow> 'p server_models \<Rightarrow> 'p server_models" where
  "remove_end name S = notify_sse ''model_remove'' name JNull (S\<lparr>sm_mapping := omap_erase name (sm_mapping S)\<rparr>)"

section \<open>The exit of a child\<close>

text \<open>
  \<open>on_child_exit\<close> takes the lock twice: the first section says whether the entry still has this
  process, the second records the exit.
\<close>

definition exit_first :: "string \<Rightarrow> nat \<Rightarrow> 'p server_models \<Rightarrow> bool \<times> 'p server_models" where
  "exit_first name proc S =
     (let S = S\<lparr>sm_stopping := sm_stopping S - {name}\<rparr>
      in case entry S name of
           None \<Rightarrow> (False, S)
         | Some i \<Rightarrow> (in_proc i = Some proc, S))"

definition exit_second :: "'p router_env \<Rightarrow> string \<Rightarrow> server_child_mode \<Rightarrow> int \<Rightarrow> 'p server_models \<Rightarrow> 'p server_models" where
  "exit_second E name mode code S =
     (if mode = Child_download then S
      else update_status E name ((status_of Unloaded)\<lparr>us_exit_code := code\<rparr>) S)"

section \<open>Messages of a child\<close>

datatype server_state = State_downloading | State_loading | State_ready | State_sleeping

definition server_state_from_str :: "string \<Rightarrow> server_state result" where
  "server_state_from_str s =
     (if s = ''downloading'' then Inr State_downloading
      else if s = ''loading'' then Inr State_loading
      else if s = ''ready'' then Inr State_ready
      else if s = ''sleeping'' then Inr State_sleeping
      else Inl Abort)"

definition CMD_CHILD_TO_ROUTER_STATE :: string where
  "CMD_CHILD_TO_ROUTER_STATE = ''cmd_child_to_router:state:''"

text \<open>The message in a line; \<open>None\<close> when it is not JSON.\<close>

definition child_message :: "'p router_env \<Rightarrow> string \<Rightarrow> (server_state \<times> json) option result" where
  "child_message E raw =
     (case re_json_parse E (drop (length CMD_CHILD_TO_ROUTER_STATE) raw) of
        None \<Rightarrow> Inr None
      | Some j \<Rightarrow> rbind (server_state_from_str (json_value get_str j ''state'' [])) (\<lambda>st.
          Inr (Some (st, json_value Some j ''payload'' JNull))))"

fun json_size :: "json \<Rightarrow> nat" where
  "json_size JNull = 0"
| "json_size (JArr vs) = length vs"
| "json_size (JObj ms) = length ms"
| "json_size _ = 1"

definition is_result :: "json \<Rightarrow> bool" where
  "is_result payload = (json_value get_str payload ''result'' [] \<in> {''download_finished'', ''download_failed''})"

definition no_progress :: download_progress where
  "no_progress = \<lparr>dp_url = [], dp_downloaded = 0, dp_total = 0\<rparr>"

text \<open>A message, up to the exit request that follows the result of a download.\<close>

definition child_state :: "'p router_env \<Rightarrow> string \<Rightarrow> server_state \<Rightarrow> json \<Rightarrow> 'p server_models \<Rightarrow> 'p server_models" where
  "child_state E name st payload S =
     (case st of
        State_downloading \<Rightarrow>
          (let res = json_value get_str payload ''result'' []; url = json_value get_str payload ''url'' []
           in if res = ''download_finished'' then update_download_progress name no_progress True True S
              else if res = ''download_failed'' then update_download_progress name no_progress True False S
              else if url \<noteq> [] then
                update_download_progress name \<lparr>dp_url = url,
                  dp_downloaded = json_value get_int payload ''downloaded'' 0 mod 2 ^ 64,
                  dp_total = json_value get_int payload ''total'' 0 mod 2 ^ 64\<rparr> False True S
              else S)
      | State_loading \<Rightarrow> update_status E name ((status_of Loading)\<lparr>us_progress := payload\<rparr>) S
      | State_ready \<Rightarrow>
          update_status E name ((status_of Loaded)\<lparr>us_loaded_info := (if json_size payload > 0 then payload else JNull)\<rparr>) S
      | State_sleeping \<Rightarrow> update_status E name (status_of Sleeping) S)"

definition request_exit :: "string \<Rightarrow> 'p server_models \<Rightarrow> 'p server_models" where
  "request_exit name S = (case entry S name of Some i \<Rightarrow> call (Request_exit (in_proc i)) S | None \<Rightarrow> S)"

definition handle_child_state :: "'p router_env \<Rightarrow> string \<Rightarrow> string \<Rightarrow> 'p server_models \<Rightarrow> 'p server_models result" where
  "handle_child_state E name raw S =
     rbind (child_message E raw) (\<lambda>m. case m of
       None \<Rightarrow> Inr S
     | Some (st, payload) \<Rightarrow>
         (let S = child_state E name st payload S
          in Inr (if st = State_downloading \<and> is_result payload then request_exit name S else S)))"

section \<open>The monitor\<close>

fun stop_first :: "string \<Rightarrow> int \<Rightarrow> child_t list \<Rightarrow> child_t option \<times> child_t list" where
  "stop_first name deadline [] = (None, [])"
| "stop_first name deadline (c # cs) =
     (if ch_name c = name then (Some c, c\<lparr>ch_deadline := deadline\<rparr> # cs)
      else let (r, cs) = stop_first name deadline cs in (r, c # cs))"

text \<open>The newest child of a name is the last one.\<close>

definition stop_child :: "int \<Rightarrow> string \<Rightarrow> int \<Rightarrow> bool \<Rightarrow> 'p server_models \<Rightarrow> 'p server_models" where
  "stop_child now name stop_timeout send_exit S =
     (case stop_first name (now + stop_timeout * 1000) (rev (sm_children S)) of
        (None, _) \<Rightarrow> S
      | (Some c, cs) \<Rightarrow>
          (let S = (if send_exit \<and> \<not> ch_eof c then call (Request_exit (Some (ch_proc c))) S else S)
           in S\<lparr>sm_children := rev cs\<rparr>))"

fun run_commands :: "int \<Rightarrow> cmd_t list \<Rightarrow> 'p server_models \<Rightarrow> bool \<times> 'p server_models" where
  "run_commands now [] S = (False, S)"
| "run_commands now (Cmd_watch c # cs) S = run_commands now cs (S\<lparr>sm_children := sm_children S @ [c]\<rparr>)"
| "run_commands now (Cmd_stop name t ex # cs) S = run_commands now cs (stop_child now name t ex S)"
| "run_commands now (Cmd_quit # cs) S = (True, S)"

definition handle_commands :: "int \<Rightarrow> 'p server_models \<Rightarrow> bool \<times> 'p server_models" where
  "handle_commands now S = run_commands now (sm_cmds S) (S\<lparr>sm_cmds := []\<rparr>)"

text \<open>The answers of the reads on the output of a child: closed, nothing there, or bytes.\<close>

datatype read_t = Read_closed | Read_nothing | Read_bytes string

definition max_line :: nat where
  "max_line = 1024 * 1024"

text \<open>The complete lines of a text, each with its newline, and the rest.\<close>

fun take_lines :: "string \<Rightarrow> string \<Rightarrow> string list \<times> string" where
  "take_lines line [] = ([], line)"
| "take_lines line (c # cs) =
     (if c = newline then let (ls, rest) = take_lines [] cs in ((line @ [c]) # ls, rest)
      else take_lines (line @ [c]) cs)"

fun read_loop :: "read_t list \<Rightarrow> child_t \<Rightarrow> string list \<times> child_t" where
  "read_loop [] c = ([], c)"
| "read_loop (Read_closed # rs) c = ([], c\<lparr>ch_eof := True\<rparr>)"
| "read_loop (Read_nothing # rs) c = ([], c)"
| "read_loop (Read_bytes s # rs) c =
     (let (ls, rest) = take_lines [] (ch_buf c @ s);
          (ls', c') = read_loop rs (c\<lparr>ch_buf := (if length rest > max_line then [] else rest)\<rparr>)
      in (ls @ ls', c'))"

text \<open>\<open>read_output\<close>: the lines handed on, and the child afterwards.\<close>

definition read_output :: "read_t list \<Rightarrow> child_t \<Rightarrow> string list \<times> child_t" where
  "read_output rs c =
     (let (ls, c) = (if ch_eof c then ([], c) else read_loop rs c)
      in if ch_eof c \<and> ch_buf c \<noteq> [] then (ls @ [ch_buf c], c\<lparr>ch_buf := []\<rparr>) else (ls, c))"

definition is_state_line :: "string \<Rightarrow> bool" where
  "is_state_line line = (take (length CMD_CHILD_TO_ROUTER_STATE) line = CMD_CHILD_TO_ROUTER_STATE)"

text \<open>Other lines are only logged.\<close>

definition on_line :: "'p router_env \<Rightarrow> string \<Rightarrow> string \<Rightarrow> 'p server_models \<Rightarrow> 'p server_models result" where
  "on_line E name line S = (if is_state_line line then handle_child_state E name line S else Inr S)"

fun on_lines :: "'p router_env \<Rightarrow> string \<Rightarrow> string list \<Rightarrow> 'p server_models \<Rightarrow> 'p server_models result" where
  "on_lines E name [] S = Inr S"
| "on_lines E name (l # ls) S = rbind (on_line E name l S) (on_lines E name ls)"

text \<open>How long the monitor waits; \<open>-1\<close> is until it is woken.\<close>

fun poll_timeout :: "int \<Rightarrow> child_t list \<Rightarrow> int \<Rightarrow> int" where
  "poll_timeout now [] timeout = timeout"
| "poll_timeout now (c # cs) timeout =
     (let timeout = (if ch_eof c then (if timeout < 0 then 50 else min timeout 50) else timeout);
          timeout = (if ch_deadline c \<noteq> 0 then
              let d = max 0 (ch_deadline c - now) in if timeout < 0 then d else min timeout d
            else timeout)
      in poll_timeout now cs timeout)"

text \<open>A child past its deadline is killed once; a closed child whose process is gone is reaped.\<close>

definition overdue :: "int \<Rightarrow> child_t \<Rightarrow> bool" where
  "overdue now c = (ch_deadline c \<noteq> 0 \<and> now \<ge> ch_deadline c)"

definition force_kill :: "nat \<Rightarrow> 'p server_models \<Rightarrow> 'p server_models" where
  "force_kill k S =
     (let c = sm_children S ! k
      in (call (Kill (Some (ch_proc c))) S)\<lparr>sm_children := (sm_children S)[k := c\<lparr>ch_deadline := 0\<rparr>]\<rparr>)"

definition exited :: "(nat \<Rightarrow> bool) \<Rightarrow> child_t \<Rightarrow> bool" where
  "exited alive c = (ch_eof c \<and> \<not> alive (ch_proc c))"

definition erase_child :: "nat \<Rightarrow> 'p server_models \<Rightarrow> 'p server_models" where
  "erase_child k S = S\<lparr>sm_children := take k (sm_children S) @ drop (k + 1) (sm_children S)\<rparr>"

section \<open>Waiting for a model\<close>

text \<open>
  \<open>ensure_model_ready\<close> first looks at the metadata: \<open>Inr False\<close> is a model that takes requests now.
\<close>

definition ensure_needed :: "string \<Rightarrow> 'p server_models \<Rightarrow> bool result" where
  "ensure_needed name S =
     (case get_meta name S of
        None \<Rightarrow> Inl (Throw (not_found name))
      | Some m \<Rightarrow> Inr (\<not> is_ready m \<and> mm_status m \<noteq> Sleeping))"

datatype wait_pc = Wait_load | Wait_queue | Wait_claimed

record waiter =
  wt_name :: string
  wt_pc :: wait_pc
  wt_queued :: bool
  wt_did_load :: bool
  wt_saw_loading :: bool

definition set_queue :: "entry_t list \<Rightarrow> 'p server_models \<Rightarrow> 'p server_models" where
  "set_queue q S = S\<lparr>sm_queue := q\<rparr>"

text \<open>The next section: load at once, join the queue, or only wait.\<close>

definition ensure_begin :: "'p router_env \<Rightarrow> string \<Rightarrow> 'p server_models \<Rightarrow> waiter \<times> 'p server_models" where
  "ensure_begin E name S =
     (let w = \<lparr>wt_name = name, wt_pc = Wait_queue, wt_queued = False, wt_did_load = False, wt_saw_loading = False\<rparr>
      in case entry S name of
           None \<Rightarrow> (w, S)
         | Some i \<Rightarrow>
             if mm_status (in_meta i) \<noteq> Unloaded then (w, S)
             else if has_capacity E S \<and> sm_queue S = [] then (w\<lparr>wt_pc := Wait_load\<rparr>, S)
             else (w\<lparr>wt_queued := True\<rparr>, tick E (set_queue (join name (sm_queue S)) S)))"

datatype turn = Turn_ends | Turn_throws string | Turn_claims | Turn_waits

definition wait_turn :: "'p router_env \<Rightarrow> bool \<Rightarrow> waiter \<Rightarrow> 'p server_models \<Rightarrow> turn \<times> waiter \<times> 'p server_models" where
  "wait_turn E should_stop w S =
     (case entry S (wt_name w) of
        None \<Rightarrow> (Turn_ends, w, S)
      | Some i \<Rightarrow>
          (let st = mm_status (in_meta i);
               w' = (if st = Loading then w\<lparr>wt_saw_loading := True\<rparr> else w)
           in if st = Loaded \<or> st = Sleeping then (Turn_ends, w, S)
              else if st = Downloading \<or> st = Downloaded then (Turn_ends, w, S)
              else if st = Unloaded \<and> (wt_did_load w \<or> wt_saw_loading w) then
                (if is_failed (in_meta i) then (Turn_throws (''model name='' @ wt_name w @ '' failed to load''), w, S)
                 else (Turn_ends, w, S))
              else if st = Unloaded \<and> \<not> wt_queued w then (Turn_ends, w, S)
              else if should_stop then
                (Turn_throws (''request cancelled while waiting for model name='' @ wt_name w), w', S)
              else if st = Unloaded then
                (case try_claim E (wt_name w) S of
                   (True, S) \<Rightarrow> (Turn_claims, w'\<lparr>wt_pc := Wait_claimed\<rparr>, S)
                 | (False, S) \<Rightarrow> (Turn_waits, w', S))
              else (Turn_waits, w', S)))"

definition leave_queue :: "waiter \<Rightarrow> 'p server_models \<Rightarrow> 'p server_models" where
  "leave_queue w S = (if wt_queued w then set_queue (leave (wt_name w) (sm_queue S)) S else S)"

text \<open>One round of the wait: the waiter goes on (\<open>Some\<close>), or returns or throws.\<close>

definition wait_round :: "'p router_env \<Rightarrow> bool \<Rightarrow> waiter \<Rightarrow> 'p server_models \<Rightarrow> (waiter + bool result) \<times> 'p server_models" where
  "wait_round E should_stop w S =
     (case wait_turn E should_stop w S of
        (Turn_ends, w, S) \<Rightarrow> (Inr (Inr True), leave_queue w S)
      | (Turn_throws m, w, S) \<Rightarrow> (Inr (Inl (Throw m)), tick E (leave_queue w S))
      | (Turn_claims, w, S) \<Rightarrow> (Inl w, S)
      | (Turn_waits, w, S) \<Rightarrow> (Inl w, S))"

text \<open>The load at the start throws out of \<open>ensure_model_ready\<close>; that of a claim stays in line.\<close>

definition load_returned :: "unit result \<Rightarrow> waiter \<Rightarrow> waiter + bool result" where
  "load_returned r w = (case r of Inl e \<Rightarrow> Inr (Inl e) | Inr _ \<Rightarrow> Inl (w\<lparr>wt_pc := Wait_queue, wt_did_load := True\<rparr>))"

definition claim_returned :: "'p router_env \<Rightarrow> unit result \<Rightarrow> waiter \<Rightarrow> 'p server_models \<Rightarrow> waiter \<times> 'p server_models" where
  "claim_returned E r w S =
     (w\<lparr>wt_pc := Wait_queue, wt_did_load := wt_did_load w \<or> is_ok r\<rparr>, tick E (claim_done (wt_name w) (is_ok r) S))"

section \<open>Requests at a model\<close>

definition proxy_allowed :: "string \<Rightarrow> 'p server_models \<Rightarrow> int result" where
  "proxy_allowed name S =
     (case get_meta name S of
        None \<Rightarrow> Inl (Throw (not_found name))
      | Some m \<Rightarrow> if is_running m then Inr (mm_port m) else Inl (Throw (''model name='' @ name @ '' is not running'')))"

definition proxy_begin :: "'p router_env \<Rightarrow> bool \<Rightarrow> int \<Rightarrow> string \<Rightarrow> 'p server_models \<Rightarrow> 'p server_models" where
  "proxy_begin E update_last_used now name S =
     (let (i, S) = touch E name S;
          i = (if update_last_used then i\<lparr>in_meta := (in_meta i)\<lparr>mm_last_used := now\<rparr>\<rparr> else i)
      in put name (i\<lparr>in_req_count := in_req_count i + 1\<rparr>) S)"

definition proxy_end :: "'p router_env \<Rightarrow> string \<Rightarrow> 'p server_models \<Rightarrow> 'p server_models" where
  "proxy_end E name S =
     (case entry S name of
        None \<Rightarrow> S
      | Some i \<Rightarrow>
          if in_req_count i > 0 then
            let S = put name (i\<lparr>in_req_count := in_req_count i - 1\<rparr>) S
            in if in_req_count i - 1 = 0 then tick E S else S
          else S)"

end
