(* ===== verification/Router_Run.thy ===== *)
theory Router_Run
  imports Router
begin

text \<open>
  The router as a system: every locked section of \<open>server_models\<close> is a step, taken by any thread at any
  time, beside the steps of the monitor and of the requests waiting for a model.  The invariant ties
  the registry to the child processes.
\<close>

section \<open>Which processes run\<close>

text \<open>The models that run, and those being downloaded, with their processes.\<close>

definition live :: "'p server_models \<Rightarrow> (string \<times> nat option) set" where
  "live S = {(n, in_proc i) | n i. entry S n = Some i \<and> is_running (in_meta i)}"

definition downs :: "'p server_models \<Rightarrow> (string \<times> nat option) set" where
  "downs S = {(n, in_proc i) | n i. entry S n = Some i \<and> mm_status (in_meta i) = Downloading}"

text \<open>The children the monitor watches, those still in its commands included.\<close>

fun watched_cmds :: "cmd_t list \<Rightarrow> child_t list" where
  "watched_cmds [] = []"
| "watched_cmds (Cmd_watch c # cs) = c # watched_cmds cs"
| "watched_cmds (_ # cs) = watched_cmds cs"

definition watched :: "'p server_models \<Rightarrow> child_t list" where
  "watched S = sm_children S @ watched_cmds (sm_cmds S)"

definition child_key :: "child_t \<Rightarrow> string \<times> nat \<times> server_child_mode" where
  "child_key c = (ch_name c, ch_proc c, ch_mode c)"

definition keys :: "'p server_models \<Rightarrow> (string \<times> nat \<times> server_child_mode) list" where
  "keys S = map child_key (watched S)"

lemma watched_cmds_append [simp]: "watched_cmds (xs @ ys) = watched_cmds xs @ watched_cmds ys"
  by (induction xs rule: watched_cmds.induct) auto

section \<open>Sections that leave the processes alone\<close>

definition neutral :: "'p server_models \<Rightarrow> 'p server_models \<Rightarrow> bool" where
  "neutral S S' \<longleftrightarrow>
     (omap_ok (sm_mapping S) \<longrightarrow> omap_ok (sm_mapping S')) \<and> live S' = live S \<and> downs S' = downs S
     \<and> keys S' = keys S \<and> sm_next_proc S \<le> sm_next_proc S' \<and> sm_reloading S' = sm_reloading S
     \<and> length (sm_children S) \<le> length (sm_children S')"

named_theorems neutral_intros \<open>sections that leave the processes alone\<close>

lemma neutral_refl [simp, neutral_intros]: "neutral S S"
  by (simp add: neutral_def)

lemma neutral_trans: "neutral S S' \<Longrightarrow> neutral S' S'' \<Longrightarrow> neutral S S''"
  by (auto simp: neutral_def)

lemma neutral_fold: "(\<And>x T. neutral T (f x T)) \<Longrightarrow> neutral S (fold f xs S)"
  by (induction xs arbitrary: S) (auto intro: neutral_trans)

text \<open>Changes outside of the registry.\<close>

lemma neutral_same:
  "sm_mapping S' = sm_mapping S \<Longrightarrow> keys S' = keys S \<Longrightarrow> sm_next_proc S \<le> sm_next_proc S' \<Longrightarrow>
   sm_reloading S' = sm_reloading S \<Longrightarrow> length (sm_children S) \<le> length (sm_children S') \<Longrightarrow> neutral S S'"
  by (simp add: neutral_def live_def downs_def entry_def)

lemma keys_same: "sm_children S' = sm_children S \<Longrightarrow> sm_cmds S' = sm_cmds S \<Longrightarrow> keys S' = keys S"
  by (simp add: keys_def watched_def)

lemma entry_put [simp]: "entry (put name i S) n = (if n = name then Some i else entry S n)"
  by (simp add: entry_def put_def)

lemma put_frame [simp]:
  "sm_children (put name i S) = sm_children S" "sm_cmds (put name i S) = sm_cmds S" "sm_queue (put name i S) = sm_queue S"
  "sm_next_proc (put name i S) = sm_next_proc S" "sm_reloading (put name i S) = sm_reloading S"
  "sm_stopping (put name i S) = sm_stopping S" "keys (put name i S) = keys S"
  by (simp_all add: put_def keys_def watched_def)

lemma omap_ok_put [simp]: "omap_ok (sm_mapping S) \<Longrightarrow> omap_ok (sm_mapping (put name i S))"
  by (simp add: put_def omap_ok_set)

lemma live_iff: "(n, p) \<in> live S \<longleftrightarrow> (\<exists>i. entry S n = Some i \<and> is_running (in_meta i) \<and> in_proc i = p)"
  by (auto simp: live_def)

lemma downs_iff: "(n, p) \<in> downs S \<longleftrightarrow> (\<exists>i. entry S n = Some i \<and> mm_status (in_meta i) = Downloading \<and> in_proc i = p)"
  by (auto simp: downs_def)

lemma live_put:
  "live (put name i S) = {e \<in> live S. fst e \<noteq> name} \<union> (if is_running (in_meta i) then {(name, in_proc i)} else {})"
  by (rule set_eqI) (auto simp: live_iff split: if_splits)

lemma downs_put:
  "downs (put name i S) = {e \<in> downs S. fst e \<noteq> name} \<union> (if mm_status (in_meta i) = Downloading then {(name, in_proc i)} else {})"
  by (rule set_eqI) (auto simp: downs_iff split: if_splits)

text \<open>An entry rewritten with the same process, and as running and as downloading as before.\<close>

lemma neutral_put:
  assumes "entry S name = Some i" "in_proc i' = in_proc i" "is_running (in_meta i') = is_running (in_meta i)"
    "mm_status (in_meta i') = Downloading \<longleftrightarrow> mm_status (in_meta i) = Downloading"
  shows "neutral S (put name i' S)"
  using assms by (auto simp: neutral_def live_put downs_put live_iff downs_iff)

text \<open>A new entry that neither runs nor downloads.\<close>

lemma neutral_put_new:
  assumes "entry S name = None" "\<not> is_running (in_meta i)" "mm_status (in_meta i) \<noteq> Downloading"
  shows "neutral S (put name i S)"
  using assms by (auto simp: neutral_def live_put downs_put live_iff downs_iff)

lemma neutral_call [simp, neutral_intros]: "neutral S (call c S)"
  by (rule neutral_same) (simp_all add: call_def keys_def watched_def)

lemma neutral_notify [simp, neutral_intros]: "neutral S (notify_sse ev n j S)"
  by (rule neutral_same) (simp_all add: notify_sse_def keys_def watched_def Let_def)

lemma neutral_set_queue [simp, neutral_intros]: "neutral S (set_queue q S)"
  by (rule neutral_same) (simp_all add: set_queue_def keys_def watched_def)

lemma neutral_push_stop: "neutral S (push_cmd (Cmd_stop n t ex) (S\<lparr>sm_stopping := X\<rparr>))"
  by (rule neutral_same) (simp_all add: push_cmd_def keys_def watched_def)

lemma neutral_request_stop [simp, neutral_intros]: "neutral S (request_stop n ex S)"
  by (simp add: request_stop_def neutral_push_stop split: option.split)

lemma neutral_evict_loop: "neutral S (evict_loop k n S)"
proof (induction k n S rule: evict_loop.induct)
  case (1 k n S)
  then show ?case
    by (subst evict_loop.simps) (auto simp: Let_def intro: neutral_trans [OF neutral_request_stop])
qed

lemma neutral_tick [simp, neutral_intros]: "neutral S (tick E S)"
  by (simp add: tick_def neutral_evict_loop)

lemma neutral_tick_of: "neutral S S' \<Longrightarrow> neutral S (tick E S')"
  using neutral_tick neutral_trans by blast

lemma default_idle [simp]: "\<not> is_running (meta_default E)" "mm_status (meta_default E) = Unloaded"
  "in_meta (instance_default E) = meta_default E"
  by (simp_all add: meta_default_def is_running_def instance_default_def)

lemma neutral_touch: "touch E name S = (i, S') \<Longrightarrow> neutral S S'"
  by (auto simp: touch_def intro: neutral_put_new split: option.splits)

lemma entry_touch: "touch E name S = (i, S') \<Longrightarrow> entry S' name = Some i"
  by (auto simp: touch_def split: option.splits)

lemma neutral_lru_gone: "neutral S (snd (lru_gone E name S))"
  by (auto simp: lru_gone_def split: prod.split intro: neutral_touch)

lemma neutral_stop_running [simp]: "neutral S (stop_running name i S)"
  by (simp add: stop_running_def Let_def) (meson neutral_call neutral_request_stop neutral_trans)

lemma neutral_unload [simp, neutral_intros]: "neutral S (unload name S)"
  by (simp add: unload_def split: option.split)

lemma neutral_unload_all [neutral_intros]: "neutral S (unload_all S)"
  by (simp add: unload_all_def neutral_fold)

lemma neutral_remove_begin [neutral_intros]: "neutral S (snd (remove_begin name S))"
  by (simp add: remove_begin_def split: option.split)

lemma neutral_request_exit [neutral_intros]: "neutral S (request_exit name S)"
  by (simp add: request_exit_def split: option.split)

lemma neutral_startup [neutral_intros]: "neutral S (snd (take_startup S))"
  by (auto simp: take_startup_def keys_def watched_def intro: neutral_same split: option.split)

lemma neutral_proxy_begin [neutral_intros]: "neutral S (proxy_begin E upd now name S)"
proof -
  obtain i S1 where t: "touch E name S = (i, S1)" by force
  show ?thesis
    using neutral_trans [OF neutral_touch [OF t] neutral_put [OF entry_touch [OF t]]]
    by (simp add: proxy_begin_def t Let_def is_running_def)
qed

lemma neutral_proxy_end [neutral_intros]: "neutral S (proxy_end E name S)"
  by (auto simp: proxy_end_def Let_def intro!: neutral_tick_of intro: neutral_put split: option.split)

text \<open>The list of models: metadata changes, but nothing starts or ends to run.\<close>

lemma map_of_map_snd: "map_of (map (\<lambda>(n, i). (n, f n i)) m) k = map_option (f k) (map_of m k)"
  by (induction m) auto

lemma entry_map_metas: "entry (map_metas f S) n = map_option (\<lambda>i. i\<lparr>in_meta := f n (in_meta i)\<rparr>) (entry S n)"
  by (simp add: entry_def map_metas_def map_of_map_snd)

lemma neutral_map_metas:
  assumes "\<And>n m. mm_status (f n m) = mm_status m"
  shows "neutral S (map_metas f S)"
proof -
  have ok: "omap_ok (sm_mapping S) \<Longrightarrow> omap_ok (sm_mapping (map_metas f S))"
    by (simp add: omap_ok_def map_metas_def comp_def case_prod_beta)
  have "is_running (f n m) = is_running m" for n m
    by (simp add: is_running_def assms)
  then have "live (map_metas f S) = live S" "downs (map_metas f S) = downs S"
    by (force simp: live_iff downs_iff entry_map_metas assms)+
  then show ?thesis
    using ok by (simp add: neutral_def keys_def watched_def map_metas_def)
qed

lemma neutral_apply [neutral_intros]: "neutral S (apply_stop_timeout E S)" "neutral S (apply_hidden L S)"
  by (simp_all add: apply_stop_timeout_def apply_hidden_def neutral_map_metas split: option.split)

lemma status_update_args [simp]: "mm_status (update_args E m) = mm_status m"
  by (simp add: update_args_def Let_def)

lemma status_update_caps [simp]: "mm_status (update_caps E m) = mm_status m"
  by (simp add: update_caps_def)

lemma name_update [simp]: "mm_name (update_args E m) = mm_name m" "mm_name (update_caps E m) = mm_name m"
  by (simp_all add: update_args_def update_caps_def Let_def)

lemma running_update [simp]: "is_running (update_args E m) = is_running m" "is_running (update_caps E m) = is_running m"
  by (simp_all add: is_running_def)

lemma neutral_next: "neutral S (S\<lparr>sm_next_proc := sm_next_proc S + k\<rparr>)"
  by (rule neutral_same) (simp_all add: keys_def watched_def)

lemma entry_fields [simp]:
  "entry (S\<lparr>sm_next_proc := k\<rparr>) n = entry S n" "entry (S\<lparr>sm_queue := q\<rparr>) n = entry S n"
  "entry (S\<lparr>sm_need_reload := b\<rparr>) n = entry S n" "entry (S\<lparr>sm_stopping := x\<rparr>) n = entry S n"
  by (simp_all add: entry_def)

lemma neutral_add_model:
  assumes "add_model E m S = Inr S'" "mm_status m = Unloaded"
  shows "neutral S S'"
proof -
  from assms(1) obtain i where S': "S' = put (mm_name m) i (S\<lparr>sm_next_proc := sm_next_proc S + 1\<rparr>)"
    and i: "mm_status (in_meta i) = Unloaded" and none: "entry S (mm_name m) = None"
    by (auto simp: add_model_def entry_def assms(2) rbind_Inr_iff Let_def split: if_splits option.splits)
  show ?thesis
    unfolding S'
    by (rule neutral_trans [OF neutral_next neutral_put_new]) (use i none in \<open>auto simp: is_running_def\<close>)
qed

lemma neutral_add_models: "add_models E L ps S = (r, S') \<Longrightarrow> neutral S S'"
proof (induction E L ps S rule: add_models.induct)
  case (2 E L name p ps S)
  then show ?case
    by (auto simp: new_meta_def split: sum.splits intro: neutral_trans [OF neutral_add_model])
qed simp

lemma neutral_first_load:
  assumes "first_load E L S = (r, S')"
  shows "neutral S S'"
proof -
  let ?S = "S\<lparr>sm_need_reload := False\<rparr>"
  have n0: "neutral S ?S"
    by (rule neutral_same) (simp_all add: keys_def watched_def)
  obtain r1 S1 where a: "add_models E L (ml_presets L) ?S = (r1, S1)" by force
  have n1: "neutral S S1"
    using neutral_trans [OF n0 neutral_add_models [OF a]] .
  have n2: "neutral S (apply_hidden L (apply_stop_timeout E S1))"
    using n1 neutral_apply neutral_trans by blast
  have n3: "neutral T (T\<lparr>sm_startup := X\<rparr>)" for T :: "'a server_models" and X
    by (rule neutral_same) (simp_all add: keys_def watched_def)
  show ?thesis
    using assms n1 n2 neutral_trans [OF n2 n3]
    by (auto simp: first_load_def a Let_def split: sum.splits if_splits)
qed

lemma neutral_refresh_model: "neutral S (refresh_model E L name S)"
  by (auto simp: refresh_model_def Let_def is_running_def intro: neutral_put split: option.split)

lemma neutral_refresh_models: "neutral S (refresh_models E L S)"
  by (simp add: refresh_models_def neutral_fold neutral_refresh_model)

text \<open>Erasing entries that neither run nor download.\<close>

lemma map_of_filter_keys: "distinct (map fst m) \<Longrightarrow>
    map_of (filter (\<lambda>(n, i). Q n i) m) k = (case map_of m k of Some i \<Rightarrow> if Q k i then Some i else None | None \<Rightarrow> None)"
proof (induction m)
  case (Cons e m)
  then show ?case
    by (cases "fst e = k") (auto simp: map_of_eq_None_iff case_prod_beta split: option.split dest: map_of_SomeD intro: rev_image_eqI)
qed simp

lemma omap_ok_filter: "omap_ok m \<Longrightarrow> omap_ok (filter Q m)"
  by (induction m) (auto simp: omap_ok_Cons)

lemma neutral_erase_old:
  assumes "omap_ok (sm_mapping S)" "\<forall>(n, p) \<in> live S. map_of (ml_presets L) n \<noteq> None"
  shows "neutral S (erase_old L S)"
proof -
  have d: "distinct (map fst (sm_mapping S))"
    using assms(1) by (rule omap_ok_distinct)
  have e: "entry (erase_old L S) n = (case entry S n of
      Some i \<Rightarrow> if (if mm_status (in_meta i) = Downloading then True else if mm_status (in_meta i) = Downloaded then False
         else map_of (ml_presets L) n \<noteq> None) then Some i else None
    | None \<Rightarrow> None)" for n
    unfolding entry_def erase_old_def by (simp add: map_of_filter_keys [OF d] del: if_True if_False)
  have "live (erase_old L S) = live S"
    using assms(2) by (fastforce simp: live_iff e is_running_def split: option.splits if_splits)
  moreover have "downs (erase_old L S) = downs S"
    by (auto simp: downs_iff e split: option.splits if_splits)
  moreover have "omap_ok (sm_mapping (erase_old L S))"
    using assms(1) by (simp add: erase_old_def omap_ok_filter)
  ultimately show ?thesis
    by (simp add: neutral_def erase_old_def keys_def watched_def)
qed

lemma neutral_remove_end:
  assumes "remove_may_go_on name S"
  shows "neutral S (remove_end name S)"
proof -
  let ?S = "S\<lparr>sm_mapping := omap_erase name (sm_mapping S)\<rparr>"
  have e: "entry ?S n = (if n = name then None else entry S n)" for n
    by (simp add: entry_def)
  have idle: "entry S name = Some i \<Longrightarrow> mm_status (in_meta i) = Unloaded \<or> mm_status (in_meta i) = Downloaded" for i
    using assms by (simp add: remove_may_go_on_def wait_over_def)
  have "live ?S = live S"
    by (rule set_eqI) (use idle in \<open>force simp: live_iff e is_running_def\<close>)
  moreover have "downs ?S = downs S"
    by (rule set_eqI) (use idle in \<open>force simp: downs_iff e\<close>)
  ultimately have "neutral S ?S"
    by (simp add: neutral_def omap_ok_erase keys_def watched_def)
  then show ?thesis
    unfolding remove_end_def by (rule neutral_trans) (rule neutral_notify)
qed

text \<open>The monitor: deadlines and buffers change, the children stay.\<close>

lemma stop_first_keys: "stop_first name d cs = (r, cs') \<Longrightarrow> map child_key cs' = map child_key cs"
  by (induction name d cs arbitrary: r cs' rule: stop_first.induct)
     (auto simp: child_key_def split: if_splits prod.splits)

definition same_registry :: "'p server_models \<Rightarrow> 'p server_models \<Rightarrow> bool" where
  "same_registry S S' \<longleftrightarrow> sm_mapping S' = sm_mapping S \<and> sm_next_proc S' = sm_next_proc S \<and> sm_reloading S' = sm_reloading S
     \<and> sm_cmds S' = sm_cmds S \<and> sm_queue S' = sm_queue S"

lemma same_registry_trans: "same_registry S S' \<Longrightarrow> same_registry S' S'' \<Longrightarrow> same_registry S S''"
  by (simp add: same_registry_def)

lemma neutral_same_registry:
  "same_registry S S' \<Longrightarrow> map child_key (sm_children S') = map child_key (sm_children S) \<Longrightarrow> neutral S S'"
  by (rule neutral_same) (auto simp: same_registry_def keys_def watched_def dest: map_eq_imp_length_eq)

lemma stop_child_effect:
  "same_registry S (stop_child now name tm ex S)"
  "map child_key (sm_children (stop_child now name tm ex S)) = map child_key (sm_children S)"
proof -
  obtain r cs where s: "stop_first name (now + tm * 1000) (rev (sm_children S)) = (r, cs)" by force
  have k: "map child_key cs = rev (map child_key (sm_children S))"
    using stop_first_keys [OF s] by (simp add: rev_map)
  show "same_registry S (stop_child now name tm ex S)"
    by (auto simp: stop_child_def s same_registry_def call_def Let_def split: option.split)
  show "map child_key (sm_children (stop_child now name tm ex S)) = map child_key (sm_children S)"
    by (auto simp: stop_child_def s call_def Let_def rev_map [symmetric] k split: option.split)
qed

lemma run_commands_effect:
  "run_commands now cs S = (False, S') \<Longrightarrow>
   same_registry S S' \<and> map child_key (sm_children S') = map child_key (sm_children S) @ map child_key (watched_cmds cs)"
proof (induction now cs S rule: run_commands.induct)
  case (1 now S)
  then show ?case by (simp add: same_registry_def)
next
  case (2 now c cs S)
  then show ?case by (auto simp: same_registry_def)
next
  case (3 now name t ex cs S)
  then show ?case
    using stop_child_effect(1) [of S now name t ex] stop_child_effect(2) [of now name t ex S] same_registry_trans by fastforce
qed simp

lemma neutral_commands:
  assumes "handle_commands now S = (False, S')"
  shows "neutral S S'"
proof -
  have k: "map child_key (sm_children S') = map child_key (sm_children S @ watched_cmds (sm_cmds S))"
    and r: "same_registry (S\<lparr>sm_cmds := []\<rparr>) S'"
    using run_commands_effect [OF assms [unfolded handle_commands_def]] by simp_all
  then show ?thesis
    using map_eq_imp_length_eq [OF k] by (intro neutral_same) (simp_all add: same_registry_def keys_def watched_def)
qed

lemma neutral_set_child:
  "k < length (sm_children S) \<Longrightarrow> child_key c = child_key (sm_children S ! k) \<Longrightarrow>
   neutral S (S\<lparr>sm_children := (sm_children S)[k := c]\<rparr>)"
  by (rule neutral_same_registry) (simp_all add: same_registry_def map_update, metis list_update_id map_update)

lemma neutral_force_kill:
  assumes "k < length (sm_children S)"
  shows "neutral S (force_kill k S)"
proof -
  let ?c = "sm_children S ! k"
  have "neutral (call (Kill (Some (ch_proc ?c))) S)
     ((call (Kill (Some (ch_proc ?c))) S)\<lparr>sm_children := (sm_children (call (Kill (Some (ch_proc ?c))) S))[k := ?c\<lparr>ch_deadline := 0\<rparr>]\<rparr>)"
    by (rule neutral_set_child) (simp_all add: call_def child_key_def assms)
  then have "neutral S ((call (Kill (Some (ch_proc ?c))) S)\<lparr>sm_children := (sm_children S)[k := ?c\<lparr>ch_deadline := 0\<rparr>]\<rparr>)"
    using neutral_trans [OF neutral_call] by (simp add: call_def)
  then show ?thesis by (simp add: force_kill_def Let_def)
qed

lemma read_loop_key: "child_key (snd (read_loop rs c)) = child_key c"
  by (induction rs c rule: read_loop.induct) (auto simp: child_key_def Let_def split: prod.splits)

lemma read_output_key: "child_key (snd (read_output rs c)) = child_key c"
  using read_loop_key [of rs c] by (auto simp: read_output_def Let_def child_key_def split: prod.split)

section \<open>Sections that start or end a process\<close>

lemma running_status [simp]:
  "is_running (set_status a m) \<longleftrightarrow> us_status a = Loaded \<or> us_status a = Loading \<or> us_status a = Sleeping"
  "mm_status (set_status a m) = us_status a"
  by (simp_all add: set_status_def is_running_def)

lemma update_status_neutral_of:
  "entry S name = Some i \<Longrightarrow> neutral (put name (i\<lparr>in_meta := set_status a (in_meta i)\<rparr>) S) (update_status E name a S)"
  unfolding update_status_def by (simp add: neutral_trans [OF neutral_tick neutral_notify])

text \<open>A running child that says it loads, is ready or sleeps.\<close>

lemma neutral_update_status:
  assumes "(name, p) \<in> live S" "us_status a = Loaded \<or> us_status a = Loading \<or> us_status a = Sleeping"
  shows "neutral S (update_status E name a S)"
proof -
  obtain i where i: "entry S name = Some i" "is_running (in_meta i)"
    using assms(1) by (auto simp: live_iff)
  have "neutral S (put name (i\<lparr>in_meta := set_status a (in_meta i)\<rparr>) S)"
    by (rule neutral_put [OF i(1)]) (use i assms(2) in \<open>auto simp: is_running_def\<close>)
  then show ?thesis
    using update_status_neutral_of [OF i(1)] neutral_trans by blast
qed

lemma neutral_child_state:
  assumes "(name, p) \<in> live S" "st \<noteq> State_downloading"
  shows "neutral S (child_state E name st payload S)"
  using assms neutral_update_status [OF assms(1)]
  by (cases st) (auto simp: child_state_def status_of_def)

lemma neutral_progress: "neutral S (update_download_progress name p False good S)"
  by (auto simp: update_download_progress_def Let_def is_running_def
      intro: neutral_trans [OF neutral_put neutral_notify] split: option.split)

lemma neutral_child_progress:
  "\<not> is_result payload \<Longrightarrow> neutral S (child_state E name State_downloading payload S)"
  by (auto simp: child_state_def Let_def is_result_def neutral_progress)

text \<open>The result of a download.\<close>

lemma download_result:
  assumes "entry S name = Some i" "mm_status (in_meta i) = Downloading"
  shows "neutral (put name (i\<lparr>in_meta := (in_meta i)\<lparr>mm_status := Downloaded\<rparr>\<rparr>) S) (update_download_progress name p True good S)"
proof -
  have n: "neutral T (T\<lparr>sm_need_reload := True\<rparr>)" for T :: "'a server_models"
    by (rule neutral_same) (simp_all add: keys_def watched_def)
  show ?thesis
    unfolding update_download_progress_def using neutral_trans [OF n neutral_notify] by (simp add: assms(1))
qed

lemma child_result:
  "is_result payload \<Longrightarrow> \<exists>good. child_state E name State_downloading payload S = update_download_progress name no_progress True good S"
  by (auto simp: child_state_def is_result_def Let_def)

text \<open>A load: nothing, an exception, or a new process in the place of an entry that did not run.\<close>

lemma neutral_load_target: "load_target E opts name S = (m, S') \<Longrightarrow> neutral S S'"
  by (auto simp: load_target_def neutral_touch split: option.splits prod.splits)

lemma neutral_kill_old: "neutral S (kill_old X name S)"
  by (simp add: kill_old_def split: option.split)

lemma load_section_cases:
  assumes "load_section E X opts name S = (r, S')"
  obtains (nothing) "neutral S S'"
  | (spawned) m S1 T where "load_target E opts name S = (m, S1)" "mm_status m = Unloaded" "\<not> at_limit E S1" "r = Inr ()"
      "neutral S1 T" "sm_next_proc T = sm_next_proc S1 + 1"
      "S' = watch name (sm_next_proc S1) (lo_mode opts) (sp_port X) (put name (new_instance E X opts (sm_next_proc S1) m) T)"
proof -
  obtain m S1 where t: "load_target E opts name S = (m, S1)" by force
  note n1 = neutral_load_target [OF t]
  show thesis
  proof (cases "mm_status m \<noteq> Unloaded \<or> at_limit E S1 \<or> sp_port X \<le> 0 \<or> \<not> sp_created X")
    case True
    then have "S' = S1 \<or> S' = S1\<lparr>sm_next_proc := sm_next_proc S1 + 1\<rparr>"
      using assms by (auto simp: load_section_def t Let_def split: if_splits)
    then have "neutral S S'"
      using n1 neutral_trans [OF n1 neutral_next, of 1] by (elim disjE) (simp_all only:)
    then show thesis by (rule nothing)
  next
    case False
    let ?i = "new_instance E X opts (sm_next_proc S1) m"
    let ?S2 = "S1\<lparr>sm_next_proc := sm_next_proc S1 + 1\<rparr>"
    let ?T = "notify_sse ''model_status'' name (JObj [(''status'', JStr (server_model_status_to_string (mm_status (in_meta ?i))))])
                       (kill_old X name (call (Spawn (sm_next_proc S1) (mm_args (in_meta ?i)) (child_env E opts name)) ?S2))"
    have n: "neutral S1 ?T"
      using neutral_trans [OF neutral_trans [OF neutral_trans [OF neutral_next neutral_call] neutral_kill_old] neutral_notify] .
    have p: "sm_next_proc ?T = sm_next_proc S1 + 1"
      by (simp add: notify_sse_def kill_old_def call_def Let_def split: option.split)
    have port: "mm_port (in_meta ?i) = sp_port X"
      by (simp add: new_instance_def update_args_def Let_def)
    show thesis
      by (rule spawned [OF t _ _ _ n p]) (use False assms port in \<open>auto simp: load_section_def t Let_def\<close>)
  qed
qed

section \<open>The system\<close>

text \<open>
  \<open>rs_exiting\<close> is the child (and its exit code) whose exit the monitor is recording, between the two
  sections of \<open>on_child_exit\<close>; \<open>rs_reload\<close> are the reloads going on, each with its list, the models it
  unloads and those of them it has still to stop; \<open>rs_checked\<close> are the names that a request has found to be
  new and is about to download; \<open>rs_waiters\<close> are the calls of \<open>ensure_model_ready\<close>.
  \<open>rs_reported\<close> records the download processes that have sent their result.
\<close>

record 'p router_sys =
  rs_models :: "'p server_models"
  rs_exiting :: "(nat \<times> int) option"
  rs_reported :: "nat set"
  rs_reload :: "('p model_list \<times> string list \<times> string list) list"
  rs_checked :: "string list"
  rs_waiters :: "waiter list"

definition sys_init :: "'p router_sys" where
  "sys_init = \<lparr>rs_models = models_init, rs_exiting = None, rs_reported = {}, rs_reload = [], rs_checked = [], rs_waiters = []\<rparr>"

definition download_options :: "'p router_env \<Rightarrow> string \<Rightarrow> 'p load_options" where
  "download_options E name =
     \<lparr>lo_mode = Child_download, lo_custom_meta = Some ((meta_default E)\<lparr>mm_source := Source_cache, mm_name := name\<rparr>)\<rparr>"

definition remove_nth :: "nat \<Rightarrow> 'a list \<Rightarrow> 'a list" where
  "remove_nth k xs = take k xs @ drop (k + 1) xs"

text \<open>
  What a child says: a normal one never speaks of a download, a download process speaks of nothing
  else, and its result is its last message.  Any number of reloads may overlap, and each takes back the
  flag of them all at its end; the check that a name is new and the start of its download are two steps.
\<close>

inductive router_step :: "'p router_env \<Rightarrow> 'p router_sys \<Rightarrow> 'p router_sys \<Rightarrow> bool" for E :: "'p router_env" where
\<comment> \<open>the threads of the requests\<close>
  Load: "\<not> sm_reloading (rs_models s) \<Longrightarrow> load_section E X load_default name (rs_models s) = (r, S') \<Longrightarrow>
    router_step E s (s\<lparr>rs_models := S'\<rparr>)"
| Download_check: "\<not> has_model name (rs_models s) \<Longrightarrow> router_step E s (s\<lparr>rs_checked := rs_checked s @ [name]\<rparr>)"
| Download: "\<not> sm_reloading (rs_models s) \<Longrightarrow> k < length (rs_checked s) \<Longrightarrow> name = rs_checked s ! k \<Longrightarrow>
    load_section E X (download_options E name) name (rs_models s) = (r, S') \<Longrightarrow>
    router_step E s (s\<lparr>rs_models := S', rs_checked := remove_nth k (rs_checked s)\<rparr>)"
| Unload: "router_step E s (s\<lparr>rs_models := unload name (rs_models s)\<rparr>)"
| Unload_all: "router_step E s (s\<lparr>rs_models := unload_all (rs_models s)\<rparr>)"
| Lru_wait: "router_step E s (s\<lparr>rs_models := snd (lru_gone E name (rs_models s))\<rparr>)"
| Remove_begin: "router_step E s (s\<lparr>rs_models := snd (remove_begin name (rs_models s))\<rparr>)"
| Remove_end: "remove_may_go_on name (rs_models s) \<Longrightarrow>
    router_step E s (s\<lparr>rs_models := remove_end name (rs_models s)\<rparr>)"
| Proxy_begin: "router_step E s (s\<lparr>rs_models := proxy_begin E upd now name (rs_models s)\<rparr>)"
| Proxy_end: "router_step E s (s\<lparr>rs_models := proxy_end E name (rs_models s)\<rparr>)"
| Startup: "router_step E s (s\<lparr>rs_models := snd (take_startup (rs_models s))\<rparr>)"
\<comment> \<open>loading the list of models\<close>
| First_load: "sm_mapping (rs_models s) = [] \<Longrightarrow> first_load E L (rs_models s) = (r, S') \<Longrightarrow>
    router_step E s (s\<lparr>rs_models := S'\<rparr>)"
| Reload_begin: "sm_mapping (rs_models s) \<noteq> [] \<Longrightarrow> reload_begin E L (rs_models s) = (names, S') \<Longrightarrow>
    router_step E s (s\<lparr>rs_models := S', rs_reload := rs_reload s @ [(L, names, names)]\<rparr>)"
| Reload_unload: "k < length (rs_reload s) \<Longrightarrow> rs_reload s ! k = (L, names, n # ns) \<Longrightarrow>
    router_step E s (s\<lparr>rs_models := unload n (rs_models s), rs_reload := (rs_reload s)[k := (L, names, ns)]\<rparr>)"
| Reload_end: "k < length (rs_reload s) \<Longrightarrow> rs_reload s ! k = (L, names, []) \<Longrightarrow> reload_may_go_on names (rs_models s) \<Longrightarrow>
    reload_end E L (rs_models s) = (r, S') \<Longrightarrow>
    router_step E s (s\<lparr>rs_models := S', rs_reload := remove_nth k (rs_reload s)\<rparr>)"
\<comment> \<open>\<open>ensure_model_ready\<close>\<close>
| Ensure: "ensure_begin E name (rs_models s) = (w, S') \<Longrightarrow>
    router_step E s (s\<lparr>rs_models := S', rs_waiters := rs_waiters s @ [w]\<rparr>)"
| Load_returned: "k < length (rs_waiters s) \<Longrightarrow> wt_pc (rs_waiters s ! k) = Wait_load \<Longrightarrow>
    load_returned r (rs_waiters s ! k) = Inl w \<Longrightarrow> router_step E s (s\<lparr>rs_waiters := (rs_waiters s)[k := w]\<rparr>)"
| Load_failed: "k < length (rs_waiters s) \<Longrightarrow> wt_pc (rs_waiters s ! k) = Wait_load \<Longrightarrow>
    load_returned r (rs_waiters s ! k) = Inr e \<Longrightarrow> router_step E s (s\<lparr>rs_waiters := remove_nth k (rs_waiters s)\<rparr>)"
| Wait_goes_on: "k < length (rs_waiters s) \<Longrightarrow> wt_pc (rs_waiters s ! k) = Wait_queue \<Longrightarrow>
    wait_round E stop (rs_waiters s ! k) (rs_models s) = (Inl w, S') \<Longrightarrow>
    router_step E s (s\<lparr>rs_models := S', rs_waiters := (rs_waiters s)[k := w]\<rparr>)"
| Wait_ends: "k < length (rs_waiters s) \<Longrightarrow> wt_pc (rs_waiters s ! k) = Wait_queue \<Longrightarrow>
    wait_round E stop (rs_waiters s ! k) (rs_models s) = (Inr e, S') \<Longrightarrow>
    router_step E s (s\<lparr>rs_models := S', rs_waiters := remove_nth k (rs_waiters s)\<rparr>)"
| Claim_returned: "k < length (rs_waiters s) \<Longrightarrow> wt_pc (rs_waiters s ! k) = Wait_claimed \<Longrightarrow>
    claim_returned E r (rs_waiters s ! k) (rs_models s) = (w, S') \<Longrightarrow>
    router_step E s (s\<lparr>rs_models := S', rs_waiters := (rs_waiters s)[k := w]\<rparr>)"
\<comment> \<open>the monitor\<close>
| Commands: "rs_exiting s = None \<Longrightarrow> handle_commands now (rs_models s) = (False, S') \<Longrightarrow>
    router_step E s (s\<lparr>rs_models := S'\<rparr>)"
| Output: "rs_exiting s = None \<Longrightarrow> k < length (sm_children (rs_models s)) \<Longrightarrow>
    read_output rs (sm_children (rs_models s) ! k) = (ls, c) \<Longrightarrow>
    router_step E s (s\<lparr>rs_models := (rs_models s)\<lparr>sm_children := (sm_children (rs_models s))[k := c]\<rparr>\<rparr>)"
| Message: "rs_exiting s = None \<Longrightarrow> c \<in> set (sm_children (rs_models s)) \<Longrightarrow> is_state_line raw \<Longrightarrow>
    child_message E raw = Inr (Some (st, payload)) \<Longrightarrow> ch_mode c = Child_normal \<Longrightarrow> st \<noteq> State_downloading \<Longrightarrow>
    router_step E s (s\<lparr>rs_models := child_state E (ch_name c) st payload (rs_models s)\<rparr>)"
| Download_message: "rs_exiting s = None \<Longrightarrow> c \<in> set (sm_children (rs_models s)) \<Longrightarrow> is_state_line raw \<Longrightarrow>
    child_message E raw = Inr (Some (State_downloading, payload)) \<Longrightarrow> ch_mode c = Child_download \<Longrightarrow>
    ch_proc c \<notin> rs_reported s \<Longrightarrow>
    router_step E s (s\<lparr>rs_models := child_state E (ch_name c) State_downloading payload (rs_models s),
      rs_reported := (if is_result payload then insert (ch_proc c) (rs_reported s) else rs_reported s)\<rparr>)"
| Exit_request: "router_step E s (s\<lparr>rs_models := request_exit name (rs_models s)\<rparr>)"
| Force_kill: "rs_exiting s = None \<Longrightarrow> k < length (sm_children (rs_models s)) \<Longrightarrow>
    overdue now (sm_children (rs_models s) ! k) \<Longrightarrow> router_step E s (s\<lparr>rs_models := force_kill k (rs_models s)\<rparr>)"
| Exit_known: "rs_exiting s = None \<Longrightarrow> k < length (sm_children (rs_models s)) \<Longrightarrow> c = sm_children (rs_models s) ! k \<Longrightarrow>
    exited alive c \<Longrightarrow> exit_first (ch_name c) (ch_proc c) (rs_models s) = (True, S') \<Longrightarrow>
    router_step E s (s\<lparr>rs_models := S', rs_exiting := Some (k, code)\<rparr>)"
| Exit_unknown: "rs_exiting s = None \<Longrightarrow> k < length (sm_children (rs_models s)) \<Longrightarrow> c = sm_children (rs_models s) ! k \<Longrightarrow>
    exited alive c \<Longrightarrow> exit_first (ch_name c) (ch_proc c) (rs_models s) = (False, S') \<Longrightarrow>
    router_step E s (s\<lparr>rs_models := erase_child k S'\<rparr>)"
| Exit_recorded: "rs_exiting s = Some (k, code) \<Longrightarrow> c = sm_children (rs_models s) ! k \<Longrightarrow>
    router_step E s (s\<lparr>rs_models := erase_child k (exit_second E (ch_name c) (ch_mode c) code (rs_models s)), rs_exiting := None\<rparr>)"

inductive router_reachable :: "'p router_env \<Rightarrow> 'p router_sys \<Rightarrow> bool" for E :: "'p router_env" where
  Router_init: "router_reachable E sys_init"
| Router_step: "router_reachable E s \<Longrightarrow> router_step E s s' \<Longrightarrow> router_reachable E s'"

text \<open>The runs all of whose steps satisfy \<open>A\<close>.\<close>

inductive run_within :: "('p router_sys \<Rightarrow> 'p router_sys \<Rightarrow> bool) \<Rightarrow> 'p router_env \<Rightarrow> 'p router_sys \<Rightarrow> bool"
  for A :: "'p router_sys \<Rightarrow> 'p router_sys \<Rightarrow> bool" and E :: "'p router_env" where
  Within_init: "run_within A E sys_init"
| Within_step: "run_within A E s \<Longrightarrow> router_step E s s' \<Longrightarrow> A s s' \<Longrightarrow> run_within A E s'"

lemma run_within_reachable: "run_within A E s \<Longrightarrow> router_reachable E s"
  by (induction rule: run_within.induct) (auto intro: router_reachable.intros)

text \<open>
  A step that leads to no race: at most one reload is going on, and of the names that were found to be new
  for a download none has become that of a model.
\<close>

definition calm :: "'p router_sys \<Rightarrow> bool" where
  "calm s \<longleftrightarrow> length (rs_reload s) \<le> 1 \<and> (\<forall>n \<in> set (rs_checked s). \<not> has_model n (rs_models s))"

abbreviation calm_run :: "'p router_env \<Rightarrow> 'p router_sys \<Rightarrow> bool" where
  "calm_run \<equiv> run_within (\<lambda>s s'. calm s')"

lemma calm_init: "calm sys_init"
  by (simp add: calm_def sys_init_def)

lemma calm_run_calm: "calm_run E s \<Longrightarrow> calm s"
  by (induction rule: run_within.induct) (simp_all add: calm_init)

section \<open>The registry and the processes agree\<close>

definition procs :: "server_child_mode \<Rightarrow> 'p server_models \<Rightarrow> (string \<times> nat option) set" where
  "procs mode S = {(n, Some p) | n p. (n, p, mode) \<in> set (keys S)}"

definition processes_ok :: "'p router_env \<Rightarrow> nat set \<Rightarrow> 'p server_models \<Rightarrow> bool" where
  "processes_ok E reported S \<longleftrightarrow>
     omap_ok (sm_mapping S) \<and> live S = procs Child_normal S
     \<and> {e \<in> procs Child_download S. the (snd e) \<notin> reported} \<subseteq> downs S
     \<and> distinct (map (\<lambda>k. fst (snd k)) (keys S)) \<and> (\<forall>k \<in> set (keys S). fst (snd k) < sm_next_proc S)
     \<and> (\<forall>p \<in> reported. p < sm_next_proc S)
     \<and> (re_models_max E > 0 \<longrightarrow> card (live S) \<le> nat (re_models_max E))"

definition reload_ok :: "('p model_list \<times> string list \<times> string list) list \<Rightarrow> 'p server_models \<Rightarrow> bool" where
  "reload_ok rs S \<longleftrightarrow> (\<forall>(L, names, rest) \<in> set rs.
     sm_reloading S \<and> (\<forall>(n, p) \<in> live S. n \<in> set names \<or> map_of (ml_presets L) n \<noteq> None))"

definition exiting_ok :: "'p router_sys \<Rightarrow> bool" where
  "exiting_ok s = (case rs_exiting s of None \<Rightarrow> True | Some (k, code) \<Rightarrow> k < length (sm_children (rs_models s)))"

definition router_inv :: "'p router_env \<Rightarrow> 'p router_sys \<Rightarrow> bool" where
  "router_inv E s \<longleftrightarrow> processes_ok E (rs_reported s) (rs_models s) \<and> reload_ok (rs_reload s) (rs_models s) \<and> exiting_ok s"

lemma processes_ok_neutral:
  assumes "processes_ok E rep S" "neutral S S'"
  shows "processes_ok E rep S'"
proof -
  have e: "live S' = live S" "downs S' = downs S" "keys S' = keys S"
    using assms(2) by (simp_all add: neutral_def)
  have pr: "procs m S' = procs m S" for m
    by (simp add: procs_def e)
  have o: "omap_ok (sm_mapping S')" and nx: "sm_next_proc S \<le> sm_next_proc S'"
    using assms by (simp_all add: neutral_def processes_ok_def)
  have "\<forall>k \<in> set (keys S). fst (snd k) < sm_next_proc S'" "\<forall>p \<in> rep. p < sm_next_proc S'"
    using assms(1) nx by (auto simp: processes_ok_def intro: less_le_trans)
  then show ?thesis
    using assms(1) o unfolding processes_ok_def e pr by (elim conjE, intro conjI)
qed

lemma reload_ok_neutral: "reload_ok r S \<Longrightarrow> neutral S S' \<Longrightarrow> reload_ok r S'"
  by (simp add: reload_ok_def neutral_def)

lemma router_inv_neutral:
  "router_inv E s \<Longrightarrow> neutral (rs_models s) (rs_models s') \<Longrightarrow> rs_exiting s' = rs_exiting s \<Longrightarrow>
   rs_reported s' = rs_reported s \<Longrightarrow> rs_reload s' = rs_reload s \<Longrightarrow> router_inv E s'"
  by (auto simp: router_inv_def exiting_ok_def processes_ok_neutral reload_ok_neutral neutral_def split: option.splits)

text \<open>The running entries are as many as the pairs of \<open>live\<close>.\<close>

lemma entry_in_mapping: "omap_ok (sm_mapping S) \<Longrightarrow> entry S n = Some i \<longleftrightarrow> (n, i) \<in> set (sm_mapping S)"
  by (simp add: entry_def omap_ok_distinct)

lemma live_running: "omap_ok (sm_mapping S) \<Longrightarrow> live S = (\<lambda>(n, i). (n, in_proc i)) ` set (running_entries S)"
  by (force simp: live_iff entry_in_mapping running_entries_def)

lemma card_live:
  assumes "omap_ok (sm_mapping S)"
  shows "card (live S) = count_running S"
proof -
  have d: "distinct (map fst (running_entries S))"
    using omap_ok_distinct [OF assms] by (simp add: running_entries_def distinct_map_filter)
  then have "inj_on (\<lambda>(n, i). (n, in_proc i)) (set (running_entries S))"
    by (force simp: distinct_map inj_on_def)
  then show ?thesis
    using d by (simp add: live_running [OF assms] card_image count_running_def distinct_card distinct_map)
qed

lemma finite_live: "omap_ok (sm_mapping S) \<Longrightarrow> finite (live S)"
  by (simp add: live_running)

lemma keys_watch: "keys (watch name p mode port S) = keys S @ [(name, p, mode)]"
  by (simp add: watch_def push_cmd_def keys_def watched_def child_key_def)

lemma watch_frame [simp]:
  "sm_mapping (watch name p mode port S) = sm_mapping S" "sm_next_proc (watch name p mode port S) = sm_next_proc S"
  "sm_reloading (watch name p mode port S) = sm_reloading S" "sm_children (watch name p mode port S) = sm_children S"
  "live (watch name p mode port S) = live S" "downs (watch name p mode port S) = downs S"
  by (simp_all add: watch_def push_cmd_def live_def downs_def entry_def)

lemma new_instance_simps [simp]:
  "in_proc (new_instance E X opts p m) = Some p"
  "mm_status (in_meta (new_instance E X opts p m)) = (if lo_mode opts = Child_download then Downloading else Loading)"
  by (simp_all add: new_instance_def Let_def)

lemma new_instance_running [simp]:
  "is_running (in_meta (new_instance E X opts p m)) \<longleftrightarrow> lo_mode opts \<noteq> Child_download"
  by (simp add: is_running_def)

text \<open>A process started under a name that neither runs nor downloads.\<close>

lemma processes_ok_spawn:
  assumes ok: "processes_ok E rep S" and n: "neutral S T" and p: "sm_next_proc T = sm_next_proc S + 1"
    and lim: "\<not> at_limit E S" and idle: "\<And>q. (name, q) \<notin> live S" "\<And>q. (name, q) \<notin> downs S"
    and S': "S' = watch name (sm_next_proc S) mode port (put name i T)"
    and i: "in_proc i = Some (sm_next_proc S)" "is_running (in_meta i) \<longleftrightarrow> mode = Child_normal"
       "mm_status (in_meta i) = Downloading \<longleftrightarrow> mode = Child_download"
  shows "processes_ok E rep S'"
proof -
  have okT: "processes_ok E rep T"
    by (rule processes_ok_neutral [OF ok n])
  have om: "omap_ok (sm_mapping S)"
    using ok by (simp add: processes_ok_def)
  have TS: "live T = live S" "downs T = downs S" "keys T = keys S"
    using n by (simp_all add: neutral_def)
  have k: "keys S' = keys S @ [(name, sm_next_proc S, mode)]"
    by (simp add: S' keys_watch TS)
  have l: "live S' = live S \<union> (if mode = Child_normal then {(name, Some (sm_next_proc S))} else {})"
    using idle(1) by (auto simp: S' live_put TS i)
  have d: "downs S' = downs S \<union> (if mode = Child_download then {(name, Some (sm_next_proc S))} else {})"
    using idle(2) by (auto simp: S' downs_put TS i)
  have pr: "procs mode' S' = procs mode' S \<union> (if mode' = mode then {(name, Some (sm_next_proc S))} else {})" for mode'
    by (auto simp: procs_def k)
  have "re_models_max E > 0 \<Longrightarrow> card (live S) < nat (re_models_max E)"
    using lim by (simp add: at_limit_def card_live [OF om])
  then have "re_models_max E > 0 \<Longrightarrow> card (insert x (live S)) \<le> nat (re_models_max E)" for x
    by (intro card_insert_le_m1) simp_all
  moreover have "live S' = live S \<or> live S' = insert (name, Some (sm_next_proc S)) (live S)"
    by (simp add: l)
  ultimately have c: "re_models_max E > 0 \<longrightarrow> card (live S') \<le> nat (re_models_max E)"
    using ok by (auto simp: processes_ok_def)
  have nx: "sm_next_proc S' = sm_next_proc S + 1" "omap_ok (sm_mapping S')"
    using okT by (simp_all add: S' p processes_ok_def)
  have less: "k \<in> set (keys S) \<Longrightarrow> fst (snd k) < sm_next_proc S" "q \<in> rep \<Longrightarrow> q < sm_next_proc S" for k q
    using ok by (auto simp: processes_ok_def)
  have "live S' = procs Child_normal S'"
    using ok by (cases mode) (simp_all add: l pr processes_ok_def)
  moreover have "{e \<in> procs Child_download S'. the (snd e) \<notin> rep} \<subseteq> downs S'"
    using ok by (auto simp: d pr processes_ok_def)
  moreover have "distinct (map (\<lambda>k. fst (snd k)) (keys S'))"
    using ok less(1) by (force simp: k processes_ok_def)
  moreover have "\<forall>k \<in> set (keys S'). fst (snd k) < sm_next_proc S'" "\<forall>p \<in> rep. p < sm_next_proc S'"
    using less by (auto simp: k nx less_Suc_eq)
  ultimately show ?thesis
    using c nx by (simp add: processes_ok_def)
qed

lemma processes_ok_load:
  assumes "processes_ok E rep S" "load_section E X load_default name S = (r, S')"
  shows "processes_ok E rep S'"
  using assms(2)
proof (cases rule: load_section_cases)
  case nothing
  then show ?thesis using assms(1) processes_ok_neutral by blast
next
  case (spawned m S1 T)
  have ok1: "processes_ok E rep S1"
    using spawned(1) assms(1) neutral_load_target processes_ok_neutral by blast
  obtain i where i: "entry S1 name = Some i" "mm_status (in_meta i) = Unloaded"
    using spawned(1,2) entry_touch by (fastforce simp: load_target_def load_default_def split: prod.splits)
  have idle: "(name, q) \<notin> live S1" "(name, q) \<notin> downs S1" for q
    using i by (auto simp: live_iff downs_iff is_running_def)
  show ?thesis
    by (rule processes_ok_spawn [OF ok1 spawned(5,6,3) idle spawned(7)]) (simp_all add: load_default_def)
qed

lemma processes_ok_download:
  assumes "processes_ok E rep S" "\<not> has_model name S" "load_section E X (download_options E name) name S = (r, S')"
  shows "processes_ok E rep S'"
  using assms(3)
proof (cases rule: load_section_cases)
  case nothing
  then show ?thesis using assms(1) processes_ok_neutral by blast
next
  case (spawned m S1 T)
  have S1: "S1 = S"
    using spawned(1) by (simp add: load_target_def download_options_def)
  have idle: "(name, q) \<notin> live S1" "(name, q) \<notin> downs S1" for q
    using assms(2) by (auto simp: S1 live_iff downs_iff has_model_def)
  have "processes_ok E rep S1"
    using assms(1) S1 by simp
  then show ?thesis
    by (rule processes_ok_spawn [OF _ spawned(5,6,3) idle spawned(7)]) (simp_all add: download_options_def)
qed

lemma load_section_frame:
  assumes "load_section E X opts name S = (r, S')"
  shows "length (sm_children S) \<le> length (sm_children S')" "sm_reloading S' = sm_reloading S"
  using assms
  by (cases rule: load_section_cases; auto simp: neutral_def dest: neutral_load_target)+

text \<open>A child that leaves.\<close>

lemma remove_nth_map: "map f (remove_nth k xs) = remove_nth k (map f xs)"
  by (simp add: remove_nth_def take_map drop_map)

lemma remove_nth_append: "k < length xs \<Longrightarrow> remove_nth k (xs @ ys) = remove_nth k xs @ ys"
  by (simp add: remove_nth_def)

lemma remove_nth_distinct:
  assumes "k < length xs" "distinct (map f xs)"
  shows "distinct (map f (remove_nth k xs))" "set (remove_nth k xs) = set xs - {xs ! k}"
proof -
  obtain ys x zs where xs: "xs = ys @ x # zs" and k: "length ys = k"
    using id_take_nth_drop [OF assms(1)] assms(1) by (metis length_take less_imp_le_nat min.absorb2)
  have "remove_nth k xs = ys @ zs" "xs ! k = x"
    by (simp_all add: remove_nth_def xs k [symmetric])
  then show "distinct (map f (remove_nth k xs))" "set (remove_nth k xs) = set xs - {xs ! k}"
    using assms(2) by (auto simp: xs)
qed

lemma keys_erase:
  assumes "k < length (sm_children S)"
  shows "keys (erase_child k S) = remove_nth k (keys S)"
proof -
  have "watched (erase_child k S) = remove_nth k (watched S)"
    using assms by (simp add: watched_def erase_child_def remove_nth_append) (simp add: remove_nth_def)
  then show ?thesis by (simp add: keys_def remove_nth_map)
qed

lemma key_of_child: "k < length (sm_children S) \<Longrightarrow> keys S ! k = child_key (sm_children S ! k) \<and> k < length (keys S)"
  by (simp add: keys_def watched_def nth_append)

lemma live_fun: "(n, p) \<in> live S \<Longrightarrow> (n, q) \<in> live S \<Longrightarrow> p = q"
  by (auto simp: live_iff)

lemma procs_iff: "(n, q) \<in> procs mode S \<longleftrightarrow> (\<exists>p. q = Some p \<and> (n, p, mode) \<in> set (keys S))"
  by (auto simp: procs_def)

lemma processes_ok_erase:
  assumes ok: "processes_ok E rep S" and k: "k < length (sm_children S)" and c: "c = sm_children S ! k"
    and T: "omap_ok (sm_mapping T)" "downs T = downs S" "keys T = keys S" "sm_next_proc S \<le> sm_next_proc T"
       "length (sm_children S) \<le> length (sm_children T)"
    and l: "live T = (if ch_mode c = Child_normal then {e \<in> live S. fst e \<noteq> ch_name c} else live S)"
  shows "processes_ok E rep (erase_child k T)"
proof -
  let ?T = "erase_child k T"
  have fr: "live ?T = live T" "downs ?T = downs T" "sm_mapping ?T = sm_mapping T" "sm_next_proc ?T = sm_next_proc T"
    by (simp_all add: erase_child_def live_def downs_def entry_def)
  have key: "keys S ! k = (ch_name c, ch_proc c, ch_mode c)" "k < length (keys S)"
    using key_of_child [OF k] by (simp_all add: c child_key_def)
  have d: "distinct (map (\<lambda>k. fst (snd k)) (keys S))" and ls: "live S = procs Child_normal S"
    using ok by (simp_all add: processes_ok_def)
  have kT: "keys ?T = remove_nth k (keys S)"
    using keys_erase k T(3,5) by (metis less_le_trans)
  note ks = remove_nth_distinct [OF key(2) d, folded kT, unfolded key(1)]
  have lt: "live T = procs Child_normal ?T"
  proof (cases "ch_mode c")
    case Child_normal
    have "(ch_name c, Some (ch_proc c)) \<in> live S"
      using nth_mem [OF key(2)] by (simp add: ls procs_iff key(1) Child_normal)
    then have "{e \<in> live S. fst e \<noteq> ch_name c} = live S - {(ch_name c, Some (ch_proc c))}"
      using live_fun by fastforce
    also have "\<dots> = procs Child_normal ?T"
      unfolding ls by (rule set_eqI) (auto simp: procs_iff ks(2) Child_normal)
    finally show ?thesis by (simp add: l Child_normal)
  next
    case Child_download
    have "procs Child_normal S = procs Child_normal ?T"
      by (rule set_eqI) (auto simp: procs_iff ks(2) Child_download)
    then show ?thesis by (simp add: l Child_download ls)
  qed
  have sub: "live T \<subseteq> live S" "procs Child_download ?T \<subseteq> procs Child_download S"
    by (auto simp: l procs_def ks(2))
  have "card (live T) \<le> card (live S)"
    by (rule card_mono [OF finite_live sub(1)]) (use ok in \<open>simp add: processes_ok_def\<close>)
  then have c: "re_models_max E > 0 \<longrightarrow> card (live T) \<le> nat (re_models_max E)"
    using ok by (auto simp: processes_ok_def)
  have "{e \<in> procs Child_download ?T. the (snd e) \<notin> rep} \<subseteq> downs T"
    using ok sub(2) by (auto simp: processes_ok_def T(2))
  moreover have "\<forall>k \<in> set (keys ?T). fst (snd k) < sm_next_proc T" "\<forall>p \<in> rep. p < sm_next_proc T"
    using ok T(4) by (auto simp: processes_ok_def ks(2) intro: less_le_trans)
  ultimately show ?thesis
    unfolding processes_ok_def fr using lt ks(1) T(1) c by blast
qed

lemma neutral_exit_first:
  assumes "exit_first n p S = (b, S')"
  shows "neutral S S'" "sm_children S' = sm_children S"
  using assms by (auto simp: exit_first_def Let_def keys_def watched_def intro!: neutral_same split: option.splits)

lemma exit_unknown_mode:
  assumes ok: "processes_ok E rep S" and k: "k < length (sm_children S)" and c: "c = sm_children S ! k"
    and f: "exit_first (ch_name c) (ch_proc c) S = (False, S')"
  shows "ch_mode c = Child_download"
proof (rule ccontr)
  assume "ch_mode c \<noteq> Child_download"
  then have "ch_mode c = Child_normal" by (cases "ch_mode c") simp_all
  then have "(ch_name c, ch_proc c, Child_normal) \<in> set (keys S)"
    using key_of_child [OF k] nth_mem [of k "keys S"] by (simp add: c child_key_def)
  then have "(ch_name c, Some (ch_proc c)) \<in> live S"
    using ok by (auto simp: processes_ok_def procs_iff)
  then show False
    using f by (auto simp: live_iff exit_first_def Let_def split: option.splits)
qed

lemma exit_second_live:
  assumes ok: "processes_ok E rep S" and k: "k < length (sm_children S)" and c: "c = sm_children S ! k"
  shows "processes_ok E rep (erase_child k (exit_second E (ch_name c) (ch_mode c) code S))"
    "live (exit_second E (ch_name c) (ch_mode c) code S) \<subseteq> live S"
    "sm_reloading (exit_second E (ch_name c) (ch_mode c) code S) = sm_reloading S"
proof -
  let ?T = "exit_second E (ch_name c) (ch_mode c) code S"
  have om: "omap_ok (sm_mapping S)"
    using ok by (simp add: processes_ok_def)
  have "processes_ok E rep (erase_child k ?T) \<and> live ?T \<subseteq> live S \<and> sm_reloading ?T = sm_reloading S"
  proof (cases "ch_mode c")
    case Child_download
    then have "?T = S" by (simp add: exit_second_def)
    then show ?thesis
      using processes_ok_erase [OF ok k c om refl refl order.refl order.refl] Child_download by simp
  next
    case Child_normal
    have "(ch_name c, ch_proc c, Child_normal) \<in> set (keys S)"
      using key_of_child [OF k] nth_mem [of k "keys S"] by (simp add: c child_key_def Child_normal [unfolded c])
    then have "(ch_name c, Some (ch_proc c)) \<in> live S"
      using ok by (auto simp: processes_ok_def procs_iff)
    then obtain i where i: "entry S (ch_name c) = Some i" "is_running (in_meta i)"
      by (auto simp: live_iff)
    let ?P = "put (ch_name c) (i\<lparr>in_meta := set_status ((status_of Unloaded)\<lparr>us_exit_code := code\<rparr>) (in_meta i)\<rparr>) S"
    have n: "neutral ?P ?T"
      using update_status_neutral_of [OF i(1)] by (simp add: exit_second_def Child_normal)
    have P: "live ?P = {e \<in> live S. fst e \<noteq> ch_name c}" "downs ?P = downs S"
      using i by (auto simp: live_put downs_put status_of_def downs_iff is_running_def)
    have "processes_ok E rep (erase_child k ?T)"
      by (rule processes_ok_erase [OF ok k c]) (use n P om in \<open>simp_all add: neutral_def Child_normal\<close>)
    moreover have "live ?T \<subseteq> live S"
      using n P by (auto simp: neutral_def)
    ultimately show ?thesis
      using n by (simp add: neutral_def)
  qed
  then show "processes_ok E rep (erase_child k ?T)" "live ?T \<subseteq> live S" "sm_reloading ?T = sm_reloading S"
    by simp_all
qed

text \<open>The result of a download.\<close>

lemma processes_ok_result:
  assumes ok: "processes_ok E rep S" and c: "c \<in> set (sm_children S)" "ch_mode c = Child_download" "ch_proc c \<notin> rep"
    and r: "is_result payload"
  shows "processes_ok E (insert (ch_proc c) rep) (child_state E (ch_name c) State_downloading payload S)"
    "live (child_state E (ch_name c) State_downloading payload S) = live S"
    "sm_reloading (child_state E (ch_name c) State_downloading payload S) = sm_reloading S"
    "length (sm_children S) \<le> length (sm_children (child_state E (ch_name c) State_downloading payload S))"
proof -
  let ?T = "child_state E (ch_name c) State_downloading payload S"
  have key: "(ch_name c, ch_proc c, Child_download) \<in> set (keys S)"
    using c(1,2) by (force simp: keys_def watched_def child_key_def)
  then have "(ch_name c, Some (ch_proc c)) \<in> downs S"
    using ok c(3) by (force simp: processes_ok_def procs_iff)
  then obtain i where i: "entry S (ch_name c) = Some i" "mm_status (in_meta i) = Downloading" "in_proc i = Some (ch_proc c)"
    by (auto simp: downs_iff)
  let ?P = "put (ch_name c) (i\<lparr>in_meta := (in_meta i)\<lparr>mm_status := Downloaded\<rparr>\<rparr>) S"
  have n: "neutral ?P ?T"
    using child_result [OF r] download_result [OF i(1,2)] by metis
  have P: "live ?P = live S" "downs ?P = {e \<in> downs S. fst e \<noteq> ch_name c}"
    using i by (auto simp: live_put downs_put live_iff is_running_def)
  have T: "live ?T = live S" "downs ?T = {e \<in> downs S. fst e \<noteq> ch_name c}" "keys ?T = keys S"
    using n P by (simp_all add: neutral_def)
  have pr: "procs m ?T = procs m S" for m
    by (simp add: procs_def T)
  have nx: "sm_next_proc S \<le> sm_next_proc ?T" "omap_ok (sm_mapping ?T)"
    using n ok by (simp_all add: neutral_def processes_ok_def)
  have sub: "{e \<in> procs Child_download S. the (snd e) \<notin> insert (ch_proc c) rep} \<subseteq> {e \<in> downs S. fst e \<noteq> ch_name c}"
  proof
    fix e assume e: "e \<in> {e \<in> procs Child_download S. the (snd e) \<notin> insert (ch_proc c) rep}"
    then have "e \<in> downs S"
      using ok by (auto simp: processes_ok_def)
    moreover have "fst e \<noteq> ch_name c"
      using e calculation i by (cases e) (auto simp: downs_iff)
    ultimately show "e \<in> {e \<in> downs S. fst e \<noteq> ch_name c}" by simp
  qed
  have less: "\<forall>k \<in> set (keys S). fst (snd k) < sm_next_proc ?T" "\<forall>p \<in> insert (ch_proc c) rep. p < sm_next_proc ?T"
    using ok key nx(1) by (auto simp: processes_ok_def intro: less_le_trans)
  show "processes_ok E (insert (ch_proc c) rep) ?T"
    using ok sub less nx(2) unfolding processes_ok_def T pr by blast
  show "live ?T = live S" by (rule T(1))
  show "sm_reloading ?T = sm_reloading S" "length (sm_children S) \<le> length (sm_children ?T)"
    using n by (simp_all add: neutral_def)
qed

text \<open>A reload: what still runs when its end comes is in the new list.\<close>

lemma fields_reloading [simp]:
  "live (S\<lparr>sm_reloading := b\<rparr>) = live S" "downs (S\<lparr>sm_reloading := b\<rparr>) = downs S" "keys (S\<lparr>sm_reloading := b\<rparr>) = keys S"
  "procs m (S\<lparr>sm_reloading := b\<rparr>) = procs m S" "processes_ok E rep (S\<lparr>sm_reloading := b\<rparr>) = processes_ok E rep S"
  "live (S\<lparr>sm_need_reload := b\<rparr>) = live S" "processes_ok E rep (S\<lparr>sm_need_reload := b\<rparr>) = processes_ok E rep S"
  by (simp_all add: live_def downs_def entry_def keys_def watched_def procs_def processes_ok_def)

lemma reload_begin_ok:
  assumes "omap_ok (sm_mapping S)" "reload_begin E L S = (names, S')"
  shows "reload_ok [(L, names, rest)] S'"
proof -
  have e: "names = to_unload E L S" "sm_reloading S'" "live S' = live S"
    using assms(2) by (auto simp: reload_begin_def)
  have "n \<in> set names \<or> map_of (ml_presets L) n \<noteq> None" if "(n, p) \<in> live S" for n p
  proof -
    obtain i where i: "(n, i) \<in> set (sm_mapping S)" "is_running (in_meta i)"
      using \<open>(n, p) \<in> live S\<close> by (auto simp: live_iff entry_in_mapping [OF assms(1)])
    show ?thesis
    proof (cases "map_of (ml_presets L) n")
      case None
      then have "(n, i) \<in> set (filter (\<lambda>(name, i). is_running (in_meta i) \<and>
        (case map_of (ml_presets L) name of None \<Rightarrow> True
         | Some p \<Rightarrow> \<not> re_same_options E (compare_preset E (mm_preset (in_meta i))) (compare_preset E p))) (sm_mapping S))"
        using i by simp
      then show ?thesis unfolding e(1) to_unload_def by force
    qed simp
  qed
  then show ?thesis
    unfolding reload_ok_def using e by auto
qed

lemma reload_end_ok:
  assumes ok: "processes_ok E rep S" and r: "reload_ok [(L, names, [])] S" and go: "reload_may_go_on names S"
    and f: "reload_end E L S = (res, S')"
  shows "processes_ok E rep S'" "length (sm_children S) \<le> length (sm_children S')"
proof -
  have "n \<notin> set names" if "(n, p) \<in> live S" for n p
    using go \<open>(n, p) \<in> live S\<close> by (auto simp: reload_may_go_on_def list_all_iff live_iff split: option.splits)
  then have kept: "\<forall>(n, p) \<in> live S. map_of (ml_presets L) n \<noteq> None"
    using r by (fastforce simp: reload_ok_def)
  have "omap_ok (sm_mapping S)"
    using ok by (simp add: processes_ok_def)
  then have n1: "neutral S (refresh_models E L (erase_old L S))"
    by (rule neutral_trans [OF neutral_erase_old [OF _ kept] neutral_refresh_models])
  obtain res1 S2 where a: "add_models E L (filter (\<lambda>(name, p). entry (refresh_models E L (erase_old L S)) name = None) (ml_presets L))
      (refresh_models E L (erase_old L S)) = (res1, S2)" by force
  note n2 = neutral_trans [OF n1 neutral_add_models [OF a]]
  have n3: "neutral S (apply_hidden L (apply_stop_timeout E S2))"
    using n2 neutral_apply neutral_trans by blast
  have "S' = S2 \<or> S' = (apply_hidden L (apply_stop_timeout E S2))\<lparr>sm_reloading := False\<rparr>"
    using f by (auto simp: reload_end_def a Let_def split: sum.splits)
  then show "processes_ok E rep S'" "length (sm_children S) \<le> length (sm_children S')"
    using processes_ok_neutral [OF ok n2] processes_ok_neutral [OF ok n3] n2 n3 by (auto simp: neutral_def)
qed

text \<open>The waiting requests change the queue, the marks and the log only.\<close>

lemma neutral_ensure: "ensure_begin E name S = (w, S') \<Longrightarrow> neutral S S'"
  by (auto simp: ensure_begin_def Let_def neutral_tick_of split: option.splits if_splits)

lemma neutral_claim: "try_claim E name S = (b, S') \<Longrightarrow> neutral S S'"
  by (auto simp: try_claim_def keys_def watched_def intro!: neutral_same split: list.splits if_splits)

lemma neutral_wait_turn: "wait_turn E stop w S = (t, w', S') \<Longrightarrow> neutral S S'"
  by (auto simp: wait_turn_def Let_def split: option.splits if_splits prod.splits bool.splits dest: neutral_claim)

lemma neutral_leave: "neutral S (leave_queue w S)"
  by (simp add: leave_queue_def)

lemma neutral_wait_round: "wait_round E stop w S = (r, S') \<Longrightarrow> neutral S S'"
  by (auto simp: wait_round_def split: prod.splits turn.splits
      dest!: neutral_wait_turn intro: neutral_trans [OF _ neutral_leave] neutral_trans [OF _ neutral_tick_of [OF neutral_leave]])

lemma neutral_claim_returned: "claim_returned E r w S = (w', S') \<Longrightarrow> neutral S S'"
  by (cases "is_ok r") (auto simp: claim_returned_def claim_done_def keys_def watched_def intro!: neutral_tick_of neutral_same)

section \<open>The invariant\<close>

lemma reload_ok_shrink: "reload_ok r S \<Longrightarrow> live T \<subseteq> live S \<Longrightarrow> sm_reloading T = sm_reloading S \<Longrightarrow> reload_ok r T"
  by (fastforce simp: reload_ok_def)

lemma reload_ok_erase: "reload_ok r (erase_child k S) = reload_ok r S"
proof -
  have "live (erase_child k S) = live S" "sm_reloading (erase_child k S) = sm_reloading S"
    by (simp_all add: erase_child_def live_def entry_def)
  then show ?thesis unfolding reload_ok_def by (simp only:)
qed

lemma router_inv_load:
  assumes "router_inv E s" "\<not> sm_reloading (rs_models s)"
    and "processes_ok E (rs_reported s) S'" "length (sm_children (rs_models s)) \<le> length (sm_children S')"
  shows "router_inv E (s\<lparr>rs_models := S'\<rparr>)"
proof -
  have "rs_reload s = []"
    using assms(1,2) by (cases "rs_reload s") (auto simp: router_inv_def reload_ok_def)
  then show ?thesis
    using assms(1,3,4) by (auto simp: router_inv_def reload_ok_def exiting_ok_def split: option.splits)
qed

lemma router_inv_checked: "router_inv E s \<Longrightarrow> router_inv E (s\<lparr>rs_checked := ns\<rparr>)"
  by (auto simp: router_inv_def exiting_ok_def split: option.splits)

lemma router_inv_calm: "router_inv E s \<Longrightarrow> calm s \<Longrightarrow> calm s' \<Longrightarrow> neutral (rs_models s) (rs_models s') \<Longrightarrow> rs_exiting s' = rs_exiting s \<Longrightarrow>
   rs_reported s' = rs_reported s \<Longrightarrow> rs_reload s' = rs_reload s \<Longrightarrow> router_inv E s'"
  by (rule router_inv_neutral)

lemma one_reload: "length rs \<le> 1 \<Longrightarrow> k < length rs \<Longrightarrow> rs ! k = r \<Longrightarrow> rs = [r] \<and> k = 0"
  by (cases rs) auto

lemma router_step_inv:
  assumes "router_step E s s'" "router_inv E s" "calm s" "calm s'"
  shows "router_inv E s'"
  using assms
proof (induction rule: router_step.induct)
  case (Load s X name r S')
  then show ?case
    using processes_ok_load load_section_frame(1) by (intro router_inv_load) (auto simp: router_inv_def)
next
  case (Download_check name s)
  then show ?case by (simp add: router_inv_checked)
next
  case (Download s k name X r S')
  have "\<not> has_model name (rs_models s)"
    using Download(2,3,6) by (simp add: calm_def)
  then have "router_inv E (s\<lparr>rs_models := S'\<rparr>)"
    using Download(1,4,5) processes_ok_download load_section_frame(1) by (intro router_inv_load) (auto simp: router_inv_def)
  from router_inv_checked [OF this, of "remove_nth k (rs_checked s)"] show ?case by simp
next
  case (Unload s name)
  then show ?case by (rule router_inv_calm) (simp_all add: neutral_intros)
next
  case (Unload_all s)
  then show ?case by (rule router_inv_calm) (simp_all add: neutral_intros)
next
  case (Lru_wait s name)
  then show ?case by (rule router_inv_calm) (simp_all add: neutral_lru_gone)
next
  case (Remove_begin s name)
  then show ?case by (rule router_inv_calm) (simp_all add: neutral_intros)
next
  case (Remove_end name s)
  from Remove_end(2) show ?case
    by (rule router_inv_neutral) (simp_all add: neutral_remove_end Remove_end(1))
next
  case (Proxy_begin s upd now name)
  then show ?case by (rule router_inv_calm) (simp_all add: neutral_intros)
next
  case (Proxy_end s name)
  then show ?case by (rule router_inv_calm) (simp_all add: neutral_intros)
next
  case (Startup s)
  then show ?case by (rule router_inv_calm) (simp_all add: neutral_intros)
next
  case (First_load s L r S')
  from First_load(3) show ?case
    by (rule router_inv_neutral) (simp_all add: neutral_first_load [OF First_load(2)])
next
  case (Reload_begin s L names S')
  have none: "rs_reload s = []" using Reload_begin(5) by (simp add: calm_def)
  have "omap_ok (sm_mapping (rs_models s))"
    using Reload_begin(3) by (simp add: router_inv_def processes_ok_def)
  then have "reload_ok [(L, names, names)] S'"
    using Reload_begin(2) by (rule reload_begin_ok)
  moreover have "S' = (rs_models s)\<lparr>sm_need_reload := False, sm_reloading := True\<rparr>"
    using Reload_begin(2) by (simp add: reload_begin_def)
  ultimately show ?case
    using Reload_begin(3) none by (auto simp: router_inv_def exiting_ok_def processes_ok_def live_def downs_def entry_def procs_def keys_def watched_def split: option.splits)
next
  case (Reload_unload k s L names n ns)
  have n: "neutral (rs_models s) (unload n (rs_models s))" by simp
  have one: "rs_reload s = [(L, names, n # ns)] \<and> k = 0"
    by (rule one_reload) (use Reload_unload(1,2,4) in \<open>simp_all add: calm_def\<close>)
  have "reload_ok [(L, names, n # ns)] (unload n (rs_models s))"
    using reload_ok_neutral [OF _ n] Reload_unload(3) one by (simp add: router_inv_def)
  then have "reload_ok [(L, names, ns)] (unload n (rs_models s))"
    by (simp add: reload_ok_def)
  then show ?case
    using Reload_unload(3) processes_ok_neutral [OF _ n] n one
    by (auto simp: router_inv_def exiting_ok_def neutral_def split: option.splits)
next
  case (Reload_end k s L names r S')
  have one: "rs_reload s = [(L, names, [])] \<and> k = 0"
    by (rule one_reload) (use Reload_end(1,2,6) in \<open>simp_all add: calm_def\<close>)
  have i: "processes_ok E (rs_reported s) (rs_models s)" "reload_ok [(L, names, [])] (rs_models s)"
    using one Reload_end(5) by (simp_all add: router_inv_def)
  show ?case
    using reload_end_ok [OF i Reload_end(3,4)] Reload_end(5) one
    by (auto simp: router_inv_def exiting_ok_def reload_ok_def remove_nth_def split: option.splits)
next
  case (Ensure name s w S')
  from Ensure(2) show ?case by (rule router_inv_neutral) (simp_all add: neutral_ensure [OF Ensure(1)])
next
  case (Load_returned k s r w)
  from Load_returned(4) show ?case by (rule router_inv_neutral) simp_all
next
  case (Load_failed k s r e)
  from Load_failed(4) show ?case by (rule router_inv_neutral) simp_all
next
  case (Wait_goes_on k s stop w S')
  from Wait_goes_on(4) show ?case by (rule router_inv_neutral) (simp_all add: neutral_wait_round [OF Wait_goes_on(3)])
next
  case (Wait_ends k s stop e S')
  from Wait_ends(4) show ?case by (rule router_inv_neutral) (simp_all add: neutral_wait_round [OF Wait_ends(3)])
next
  case (Claim_returned k s r w S')
  from Claim_returned(4) show ?case by (rule router_inv_neutral) (simp_all add: neutral_claim_returned [OF Claim_returned(3)])
next
  case (Commands s now S')
  from Commands(3) show ?case by (rule router_inv_neutral) (simp_all add: neutral_commands [OF Commands(2)])
next
  case (Output s k rs ls c)
  have "child_key c = child_key (sm_children (rs_models s) ! k)"
    using read_output_key [of rs "sm_children (rs_models s) ! k"] by (simp add: Output(3))
  with Output(4) show ?case by (intro router_inv_neutral [OF Output(4)]) (simp_all add: neutral_set_child Output(2))
next
  case (Message s c raw st payload)
  have "(ch_name c, ch_proc c, Child_normal) \<in> set (keys (rs_models s))"
    using Message(2,5) by (force simp: keys_def watched_def child_key_def)
  then have "(ch_name c, Some (ch_proc c)) \<in> live (rs_models s)"
    using Message(7) by (auto simp: router_inv_def processes_ok_def procs_iff)
  then have "neutral (rs_models s) (child_state E (ch_name c) st payload (rs_models s))"
    using Message(6) by (rule neutral_child_state)
  then show ?case by (intro router_inv_neutral [OF Message(7)]) simp_all
next
  case (Download_message s c raw payload)
  show ?case
  proof (cases "is_result payload")
    case True
    note i = Download_message(7)
    have "processes_ok E (rs_reported s) (rs_models s)"
      using i by (simp add: router_inv_def)
    note res = processes_ok_result [OF this Download_message(2,5,6) True]
    show ?thesis
      using i res reload_ok_shrink [of "rs_reload s" "rs_models s" "child_state E (ch_name c) State_downloading payload (rs_models s)"]
      by (auto simp: router_inv_def True exiting_ok_def split: option.splits)
  next
    case False
    then show ?thesis
      by (intro router_inv_neutral [OF Download_message(7)]) (simp_all add: neutral_child_progress)
  qed
next
  case (Exit_request s name)
  then show ?case by (rule router_inv_calm) (simp_all add: neutral_intros)
next
  case (Force_kill s k now)
  from Force_kill(4) show ?case by (rule router_inv_neutral) (simp_all add: neutral_force_kill Force_kill(2))
next
  case (Exit_known s k c alive S' code)
  note n = neutral_exit_first [OF Exit_known(5)]
  show ?case
    using Exit_known(6) processes_ok_neutral [OF _ n(1)] reload_ok_neutral [OF _ n(1)] Exit_known(2) n(2)
    by (simp add: router_inv_def exiting_ok_def)
next
  case (Exit_unknown s k c alive S')
  note n = neutral_exit_first [OF Exit_unknown(5)]
  have ok: "processes_ok E (rs_reported s) (rs_models s)"
    using Exit_unknown(6) by (simp add: router_inv_def)
  have m: "ch_mode c = Child_download"
    by (rule exit_unknown_mode [OF ok Exit_unknown(2,3,5)])
  have "processes_ok E (rs_reported s) (erase_child k S')"
    by (rule processes_ok_erase [OF ok Exit_unknown(2,3)]) (use n ok in \<open>simp_all add: neutral_def processes_ok_def m\<close>)
  moreover have "reload_ok (rs_reload s) S'"
    using Exit_unknown(6) reload_ok_neutral [OF _ n(1)] by (simp add: router_inv_def)
  ultimately show ?case
    using Exit_unknown(1) by (simp add: router_inv_def exiting_ok_def reload_ok_erase)
next
  case (Exit_recorded s k code c)
  have ok: "processes_ok E (rs_reported s) (rs_models s)" and k: "k < length (sm_children (rs_models s))"
    using Exit_recorded(1,3) by (simp_all add: router_inv_def exiting_ok_def)
  let ?T = "exit_second E (ch_name c) (ch_mode c) code (rs_models s)"
  note e = exit_second_live [OF ok k Exit_recorded(2), of code]
  have "reload_ok (rs_reload s) (erase_child k ?T)"
    using Exit_recorded(3) reload_ok_shrink [OF _ e(2,3)] by (simp add: router_inv_def reload_ok_erase)
  then show ?case
    using e(1) by (simp add: router_inv_def exiting_ok_def)
qed

lemma router_inv_init: "router_inv E sys_init"
  by (simp add: router_inv_def sys_init_def models_init_def processes_ok_def reload_ok_def exiting_ok_def live_def downs_def
      entry_def procs_def keys_def watched_def)

lemma calm_run_inv: "calm_run E s \<Longrightarrow> router_inv E s"
  by (induction rule: run_within.induct) (auto intro: router_inv_init router_step_inv calm_run_calm)

definition normal_children :: "'p server_models \<Rightarrow> child_t list" where
  "normal_children S = filter (\<lambda>c. ch_mode c = Child_normal) (watched S)"

lemma procs_normal: "procs Child_normal S = (\<lambda>c. (ch_name c, Some (ch_proc c))) ` set (normal_children S)"
proof (rule set_eqI)
  fix e :: "string \<times> nat option"
  obtain n q where e: "e = (n, q)" by force
  have "e \<in> procs Child_normal S \<longleftrightarrow> (\<exists>c \<in> set (watched S). ch_mode c = Child_normal \<and> n = ch_name c \<and> q = Some (ch_proc c))"
    unfolding e procs_iff keys_def child_key_def set_map image_iff prod.inject by metis
  also have "\<dots> \<longleftrightarrow> e \<in> (\<lambda>c. (ch_name c, Some (ch_proc c))) ` set (normal_children S)"
    by (auto simp: e normal_children_def image_iff)
  finally show "e \<in> procs Child_normal S \<longleftrightarrow> e \<in> (\<lambda>c. (ch_name c, Some (ch_proc c))) ` set (normal_children S)" .
qed

lemma normal_children_live:
  assumes "processes_ok E rep S"
  shows "length (normal_children S) = card (live S)"
proof -
  let ?f = "\<lambda>c. (ch_name c, Some (ch_proc c))"
  have d: "distinct (map (ch_proc) (watched S))"
    using assms by (simp add: processes_ok_def keys_def child_key_def comp_def)
  then have "distinct (map ch_proc (normal_children S))"
    by (simp add: normal_children_def distinct_map_filter)
  then have "distinct (map ?f (normal_children S))"
    by (auto simp: distinct_map inj_on_def)
  moreover have "live S = set (map ?f (normal_children S))"
    using assms by (simp add: processes_ok_def procs_normal)
  ultimately show ?thesis
    by (metis distinct_card length_map)
qed

text \<open>
  Property C12. At most \<open>models_max\<close> models run, and the monitor watches exactly as many processes that
  serve a model: no interleaving of loads, evictions, removals, exits, downloads and a reload starts one too
  many, and no process is left behind that the registry has forgotten.  This is for the runs without the two
  races of \<open>calm\<close>: no two reloads overlap, and no model appears under a name between the check that it is
  new and the start of its download.  In a run with two reloads it fails (\<open>overlapping_reloads_lose_a_process\<close>).
\<close>

theorem models_max_never_exceeded:
  assumes "calm_run E s" "0 < re_models_max E"
  shows "int (count_running (rs_models s)) \<le> re_models_max E
    \<and> length (normal_children (rs_models s)) = count_running (rs_models s)"
proof (intro conjI)
  have ok: "processes_ok E (rs_reported s) (rs_models s)"
    using calm_run_inv [OF assms(1)] by (simp add: router_inv_def)
  then have "omap_ok (sm_mapping (rs_models s))"
    by (simp add: processes_ok_def)
  note c = card_live [OF this]
  show "int (count_running (rs_models s)) \<le> re_models_max E"
  proof -
    have "count_running (rs_models s) \<le> nat (re_models_max E)"
      using ok assms(2) by (simp add: processes_ok_def c)
    then show ?thesis using assms(2) by linarith
  qed
  show "length (normal_children (rs_models s)) = count_running (rs_models s)"
    using normal_children_live [OF ok] c by simp
qed

text \<open>
  Property C15. A running model has a process, which the monitor watches under the name of the model, and
  every process the monitor watches for serving is that of a running model.  This too is for the runs in
  which no two reloads overlap and no model appears under a name whose download is about to start.
\<close>

theorem running_models_are_watched:
  assumes "calm_run E s"
  shows "(\<forall>n i. entry (rs_models s) n = Some i \<and> is_running (in_meta i) \<longrightarrow>
      (\<exists>c \<in> set (normal_children (rs_models s)). ch_name c = n \<and> in_proc i = Some (ch_proc c)))
    \<and> (\<forall>c \<in> set (normal_children (rs_models s)).
      \<exists>i. entry (rs_models s) (ch_name c) = Some i \<and> is_running (in_meta i) \<and> in_proc i = Some (ch_proc c))"
proof (intro conjI allI impI ballI)
  have l: "live (rs_models s) = procs Child_normal (rs_models s)"
    using calm_run_inv [OF assms] by (simp add: router_inv_def processes_ok_def)
  show "\<exists>c \<in> set (normal_children (rs_models s)). ch_name c = n \<and> in_proc i = Some (ch_proc c)"
    if "entry (rs_models s) n = Some i \<and> is_running (in_meta i)" for n i
  proof -
    have "(n, in_proc i) \<in> live (rs_models s)"
      using that by (auto simp: live_iff)
    then show ?thesis
      by (auto simp: l procs_normal)
  qed
  show "\<exists>i. entry (rs_models s) (ch_name c) = Some i \<and> is_running (in_meta i) \<and> in_proc i = Some (ch_proc c)"
    if "c \<in> set (normal_children (rs_models s))" for c
  proof -
    have "(ch_name c, Some (ch_proc c)) \<in> live (rs_models s)"
      using that by (simp add: l procs_normal)
    then show ?thesis by (auto simp: live_iff)
  qed
qed

section \<open>Sample runs\<close>

text \<open>Two models of which one may run; the presets hold nothing.\<close>

definition sample_env :: "unit router_env" where
  "sample_env = \<lparr>re_get = (\<lambda>_ _. None), re_set = (\<lambda>_ _ p. p), re_unset = (\<lambda>_ p. p), re_merge = (\<lambda>p _. p),
     re_cascade = (\<lambda>_ ps. ps), re_same_options = (=), re_to_args = (\<lambda>_ b. [b]), re_mmproj = (\<lambda>_. None),
     re_mtmd_cap = (\<lambda>_. (False, False)), re_split = (\<lambda>s. [s]), re_strip = (\<lambda>s. s), re_truthy = (\<lambda>s. s = ''1''),
     re_resolve_path = (\<lambda>_ _. []), re_stop_timeout_key = ''t'', re_startup_key = ''s'', re_dedup_key = ''d'',
     re_empty = (), re_base = (), re_bin_path = ''x'', re_app_cmd = None, re_base_env = [], re_port = 80, re_models_max = 1,
     re_json_parse = (\<lambda>_. None)\<rparr>"

definition sample_list :: "unit model_list" where
  "sample_list = gather_models sample_env [(''a'', ()), (''b'', ())] [] () []"

definition sample_machine :: spawn_env where
  "sample_machine = \<lparr>sp_port = 4000, sp_created = True, sp_alive = (\<lambda>_. False), sp_now = 7\<rparr>"

definition sample_entry :: "string \<Rightarrow> nat \<Rightarrow> int \<Rightarrow> server_model_status \<Rightarrow> int \<Rightarrow> int \<Rightarrow> string \<times> unit instance_t" where
  "sample_entry n p port st used code = (n, \<lparr>in_proc = Some p,
     in_meta = \<lparr>mm_source = Source_cache, mm_preset = (), mm_name = n, mm_aliases = [], mm_tags = [], mm_port = port,
       mm_status = st, mm_last_used = used, mm_args = [''x''], mm_loaded_info = JNull, mm_progress = JNull,
       mm_exit_code = code, mm_stop_timeout = 10, mm_multimodal = (False, False), mm_hidden = False\<rparr>, in_req_count = 0\<rparr>)"

definition sample_models :: "(string \<times> unit instance_t) list \<Rightarrow> entry_t list \<Rightarrow> cmd_t list \<Rightarrow> child_t list \<Rightarrow> unit server_models" where
  "sample_models m q cmds cs = \<lparr>sm_mapping = m, sm_stopping = {}, sm_reloading = False, sm_need_reload = False,
     sm_startup = Some [], sm_queue = q, sm_cmds = cmds, sm_children = cs, sm_next_proc = 3,
     sm_calls = [Spawn 2 [''x''] [''LLAMA_SERVER_ROUTER_PORT=80'']], sm_sse = response_init\<rparr>"

definition sample_child :: "bool \<Rightarrow> child_t" where
  "sample_child eof = \<lparr>ch_name = ''a'', ch_proc = 2, ch_mode = Child_normal, ch_port = 4000, ch_buf = [], ch_eof = eof, ch_deadline = 0\<rparr>"

definition sample_sys :: "unit server_models \<Rightarrow> (nat \<times> int) option \<Rightarrow> waiter list \<Rightarrow> unit router_sys" where
  "sample_sys S ex ws = \<lparr>rs_models = S, rs_exiting = ex, rs_reported = {}, rs_reload = [], rs_checked = [], rs_waiters = ws\<rparr>"

definition up_a :: "(string \<times> unit instance_t) list" where
  "up_a = [sample_entry ''a'' 2 4000 Loading 7 0, sample_entry ''b'' 1 0 Unloaded 0 0]"

definition down_a :: "(string \<times> unit instance_t) list" where
  "down_a = [sample_entry ''a'' 2 4000 Unloaded 7 1, sample_entry ''b'' 1 0 Unloaded 0 0]"

definition entry_b :: "bool \<Rightarrow> entry_t" where
  "entry_b loading = \<lparr>en_model = ''b'', en_waiters = 1, en_loading = loading\<rparr>"

definition waiter_b :: "wait_pc \<Rightarrow> waiter" where
  "waiter_b pc = \<lparr>wt_name = ''b'', wt_pc = pc, wt_queued = True, wt_did_load = False, wt_saw_loading = False\<rparr>"

lemmas sample_defs = sample_models_def sample_child_def sample_sys_def entry_b_def waiter_b_def

text \<open>The models are listed, the first one is loaded, and the monitor takes its process over.\<close>

definition sys_listed :: "unit router_sys" where
  "sys_listed = sample_sys ((sample_models [sample_entry ''a'' 0 0 Unloaded 0 0, sample_entry ''b'' 1 0 Unloaded 0 0] [] [] [])
     \<lparr>sm_next_proc := 2, sm_calls := []\<rparr>) None []"

definition sys_loading :: "unit router_sys" where
  "sys_loading = sample_sys (sample_models up_a [] [Cmd_watch (sample_child False)] []) None []"

definition sys_watching :: "unit router_sys" where
  "sys_watching = sample_sys (sample_models up_a [] [] [sample_child False]) None []"

lemmas sys_defs = sys_listed_def sys_loading_def sys_watching_def sample_defs

lemma step_listed: "router_step sample_env sys_init sys_listed"
proof -
  have "first_load sample_env sample_list models_init = (Inr (), rs_models sys_listed)" by code_simp
  then show ?thesis
    using First_load [of sys_init sample_env sample_list "Inr ()" "rs_models sys_listed"]
    by (simp add: sys_init_def models_init_def sys_defs)
qed

lemma sample_load:
  assumes "entry S n = Some (snd (sample_entry n p 0 Unloaded 0 0))" "count_running S = 0" "sm_sse S = response_init"
  shows "load_section sample_env sample_machine load_default n S = (Inr (),
     watch n (sm_next_proc S) Child_normal 4000 (put n (snd (sample_entry n (sm_next_proc S) 4000 Loading 7 0))
       (S\<lparr>sm_next_proc := sm_next_proc S + 1,
          sm_calls := sm_calls S @ [Spawn (sm_next_proc S) [''x''] [''LLAMA_SERVER_ROUTER_PORT=80'']]\<rparr>)))"
proof -
  have "show_int 80 = ''80''" by code_simp
  then have env: "child_env sample_env load_default n = [''LLAMA_SERVER_ROUTER_PORT=80'']"
    by (simp add: child_env_def sample_env_def load_default_def)
  have quiet: "notify_sse ev m j T = T" if "sm_sse T = response_init" for ev m j and T :: "unit server_models"
    using that by (simp add: notify_sse_def broadcast_def response_init_def Let_def)
  have inst: "new_instance sample_env sample_machine load_default q (in_meta (snd (sample_entry n p 0 Unloaded 0 0)))
      = snd (sample_entry n q 4000 Loading 7 0)" for q
    by (simp add: new_instance_def update_args_def Let_def sample_env_def sample_machine_def load_default_def sample_entry_def)
  have lim: "\<not> at_limit sample_env S" using assms(2) by (simp add: at_limit_def sample_env_def)
  have kill: "kill_old sample_machine n T = T" for T :: "unit server_models"
    by (simp add: kill_old_def sample_machine_def split: option.split)
  have fields: "lo_mode load_default = Child_normal" "lo_custom_meta load_default = None" "sp_port sample_machine = 4000"
      "sp_created sample_machine" "mm_status (in_meta (snd (sample_entry n k 0 Unloaded 0 0))) = Unloaded"
      "mm_args (in_meta (snd (sample_entry n k 4000 Loading 7 0))) = [''x'']"
      "mm_port (in_meta (snd (sample_entry n k 4000 Loading 7 0))) = 4000" for k
    by (simp_all add: load_default_def sample_machine_def sample_entry_def)
  show ?thesis
    by (simp add: load_section_def load_target_def touch_def assms lim inst env kill call_def quiet Let_def fields)
qed

lemma names_ab: "\<not> ''b'' < (''a'' :: string)"
  by code_simp

lemmas sample_load_defs = entry_def count_running_def running_entries_def sample_entry_def is_running_def watch_def push_cmd_def put_def names_ab

lemma step_loading: "router_step sample_env sys_listed sys_loading"
proof -
  have "load_section sample_env sample_machine load_default ''a'' (rs_models sys_listed) = (Inr (), rs_models sys_loading)"
    by (subst sample_load [of _ _ 0]) (simp_all add: sample_load_defs sys_defs up_a_def)
  from Load [OF _ this] show ?thesis by (simp add: sys_defs)
qed

lemma step_watching: "router_step sample_env sys_loading sys_watching"
proof -
  have "handle_commands 8 (rs_models sys_loading) = (False, rs_models sys_watching)" by code_simp
  from Commands [OF _ this] show ?thesis by (simp add: sys_defs)
qed

lemma calm_watching: "calm_run sample_env sys_watching"
  by (intro Within_step [OF _ step_watching] Within_step [OF _ step_loading] Within_step [OF _ step_listed] Within_init)
    (simp_all add: calm_def sys_defs)

lemma reachable_watching: "router_reachable sample_env sys_watching"
  by (rule run_within_reachable [OF calm_watching])

text \<open>
  Two reloads: the first has a list without the model \<open>b\<close>, the second ends first and takes the flag away, \<open>b\<close>
  is loaded, and the end of the first erases the running \<open>b\<close>.  Then \<open>a\<close> is loaded too: two processes, where
  one may run.
\<close>

definition short_list :: "unit model_list" where
  "short_list = gather_models sample_env [(''a'', ())] [] () []"

definition child_of :: "string \<Rightarrow> nat \<Rightarrow> child_t" where
  "child_of n p = (sample_child False)\<lparr>ch_name := n, ch_proc := p\<rparr>"

definition race_begun :: "unit server_models" where
  "race_begun = (rs_models sys_listed)\<lparr>sm_reloading := True\<rparr>"

definition race_loaded :: "unit server_models" where
  "race_loaded = sample_models [sample_entry ''a'' 0 0 Unloaded 0 0, sample_entry ''b'' 2 4000 Loading 7 0] [] [Cmd_watch (child_of ''b'' 2)] []"

definition race_erased :: "unit server_models" where
  "race_erased = sample_models [sample_entry ''a'' 0 0 Unloaded 0 0] [] [Cmd_watch (child_of ''b'' 2)] []"

definition race_lost :: "unit server_models" where
  "race_lost = (sample_models [sample_entry ''a'' 3 4000 Loading 7 0] [] [Cmd_watch (child_of ''b'' 2), Cmd_watch (child_of ''a'' 3)] [])
     \<lparr>sm_next_proc := 4,
       sm_calls := [Spawn 2 [''x''] [''LLAMA_SERVER_ROUTER_PORT=80''], Spawn 3 [''x''] [''LLAMA_SERVER_ROUTER_PORT=80'']]\<rparr>"

definition with_reloads :: "unit server_models \<Rightarrow> (unit model_list \<times> string list \<times> string list) list \<Rightarrow> unit router_sys" where
  "with_reloads S rs = (sample_sys S None [])\<lparr>rs_reload := rs\<rparr>"

lemma with_reloads_simps [simp]:
  "rs_models (with_reloads S rs) = S" "rs_reload (with_reloads S rs) = rs"
  "(with_reloads S rs)\<lparr>rs_models := S'\<rparr> = with_reloads S' rs"
  "(with_reloads S rs)\<lparr>rs_reload := rs'\<rparr> = with_reloads S rs'"
  by (simp_all add: with_reloads_def sample_sys_def)

lemma race_steps:
  "reload_begin sample_env short_list (rs_models sys_listed) = ([], race_begun)"
  "reload_begin sample_env sample_list race_begun = ([], race_begun)"
  "reload_end sample_env sample_list race_begun = (Inr (), rs_models sys_listed)"
  "reload_end sample_env short_list race_loaded = (Inr (), race_erased)"
  by code_simp+

lemma race_loads:
  "load_section sample_env sample_machine load_default ''b'' (rs_models sys_listed) = (Inr (), race_loaded)"
  "load_section sample_env sample_machine load_default ''a'' race_erased = (Inr (), race_lost)"
  by (subst sample_load [of _ _ 1], simp_all add: sample_load_defs sys_defs race_loaded_def child_of_def)
    (subst sample_load [of _ _ 0], simp_all add: sample_load_defs sys_defs race_erased_def race_lost_def child_of_def)

lemma with_reloads_steps:
  "sm_mapping S \<noteq> [] \<Longrightarrow> reload_begin sample_env L S = (ns, S') \<Longrightarrow>
     router_step sample_env (with_reloads S rs) (with_reloads S' (rs @ [(L, ns, ns)]))"
  "k < length rs \<Longrightarrow> rs ! k = (L, [], []) \<Longrightarrow> reload_end sample_env L S = (r, S') \<Longrightarrow>
     router_step sample_env (with_reloads S rs) (with_reloads S' (remove_nth k rs))"
  "\<not> sm_reloading S \<Longrightarrow> load_section sample_env sample_machine load_default n S = (r, S') \<Longrightarrow>
     router_step sample_env (with_reloads S rs) (with_reloads S' rs)"
  using Reload_begin [of "with_reloads S rs" sample_env L ns S'] Reload_end [of k "with_reloads S rs" L "[]" sample_env r S']
    Load [of "with_reloads S rs" sample_env sample_machine n r S']
  by (simp_all add: reload_may_go_on_def)

lemma overlapping_reloads_lose_a_process:
  "\<exists>s. router_reachable sample_env s \<and> re_models_max sample_env = 1 \<and> length (normal_children (rs_models s)) = 2"
proof -
  let ?R = "router_reachable sample_env"
  have n: "sm_mapping (rs_models sys_listed) \<noteq> []" "sm_mapping race_begun \<noteq> []" "\<not> sm_reloading (rs_models sys_listed)"
    "\<not> sm_reloading race_erased"
    by (simp_all add: race_begun_def race_erased_def sys_listed_def sample_defs)
  have "with_reloads (rs_models sys_listed) [] = sys_listed" by (simp add: with_reloads_def sys_listed_def sample_sys_def)
  then have 0: "?R (with_reloads (rs_models sys_listed) [])" by (simp only: Router_step [OF Router_init step_listed])
  have 1: "?R (with_reloads race_begun ([] @ [(short_list, [], [])]))"
    by (rule Router_step [OF 0 with_reloads_steps(1) [OF n(1) race_steps(1)]])
  have 3: "?R (with_reloads (rs_models sys_listed) (remove_nth 1 (([] @ [(short_list, [], [])]) @ [(sample_list, [], [])])))"
    by (rule Router_step [OF Router_step [OF 1 with_reloads_steps(1) [OF n(2) race_steps(2)]] with_reloads_steps(2) [OF _ _ race_steps(3)]]) simp_all
  have 4: "?R (with_reloads race_loaded [(short_list, [], [])])"
    by (rule Router_step [OF _ with_reloads_steps(3) [OF n(3) race_loads(1)]]) (use 3 in \<open>simp add: remove_nth_def\<close>)
  have 5: "?R (with_reloads race_erased (remove_nth 0 [(short_list, [], [])]))"
    by (rule Router_step [OF 4 with_reloads_steps(2) [OF _ _ race_steps(4)]]) simp_all
  have "?R (with_reloads race_lost (remove_nth 0 [(short_list, [], [])]))"
    by (rule Router_step [OF 5 with_reloads_steps(3) [OF n(4) race_loads(2)]])
  moreover have "length (normal_children race_lost) = 2" "re_models_max sample_env = 1"
    by (simp_all add: race_lost_def sample_defs normal_children_def watched_def child_of_def sample_env_def)
  ultimately show ?thesis
    by (intro exI [of _ "with_reloads race_lost (remove_nth 0 [(short_list, [], [])])"]) simp
qed

theorem models_max_never_exceeded_witness:
  "int (count_running (rs_models sys_watching)) \<le> 1 \<and> count_running (rs_models sys_watching) = 1
   \<and> length (normal_children (rs_models sys_watching)) = 1"
proof -
  have "0 < re_models_max sample_env" "re_models_max sample_env = 1" "count_running (rs_models sys_watching) = 1" by code_simp+
  then show ?thesis
    using models_max_never_exceeded [OF calm_watching] by simp
qed

theorem running_models_are_watched_witness:
  "(\<exists>c \<in> set (normal_children (rs_models sys_watching)). ch_name c = ''a'' \<and> Some 2 = Some (ch_proc c))
   \<and> (\<exists>i. entry (rs_models sys_watching) ''a'' = Some i \<and> is_running (in_meta i) \<and> in_proc i = Some 2)"
proof -
  let ?i = "snd (sample_entry ''a'' 2 4000 Loading 7 0)"
  have e: "entry (rs_models sys_watching) ''a'' = Some ?i" "is_running (in_meta ?i)" "in_proc ?i = Some 2"
    by (simp_all add: sys_defs up_a_def sample_entry_def entry_def is_running_def)
  have c: "sample_child False \<in> set (normal_children (rs_models sys_watching))"
    by (simp add: sys_defs normal_children_def watched_def)
  show ?thesis
    using running_models_are_watched [OF calm_watching] e c by (force simp: sample_child_def)
qed

end
