(* ===== verification/Router_Queue.thy ===== *)
theory Router_Queue
  imports Router_Run
begin

text \<open>
  The queue of the requests that wait for a slot, in every interleaving of the router, and the choice
  of the models that make room for them.
\<close>

section \<open>The queue and the waiting requests agree\<close>

definition waiting_for :: "string \<Rightarrow> waiter list \<Rightarrow> nat" where
  "waiting_for n ws = length (filter (\<lambda>w. wt_name w = n \<and> wt_queued w) ws)"

definition claiming :: "string \<Rightarrow> waiter list \<Rightarrow> nat" where
  "claiming n ws = length (filter (\<lambda>w. wt_name w = n \<and> wt_pc w = Wait_claimed) ws)"

definition queue_ok :: "entry_t list \<Rightarrow> waiter list \<Rightarrow> bool" where
  "queue_ok q ws \<longleftrightarrow>
     distinct (map en_model q)
     \<and> (\<forall>n. case find_entry n q of
              None \<Rightarrow> waiting_for n ws = 0 \<and> claiming n ws = 0
            | Some e \<Rightarrow> en_waiters e = int (waiting_for n ws) \<and> 0 < waiting_for n ws
                \<and> claiming n ws \<le> (if en_loading e then 1 else 0))
     \<and> (\<forall>w \<in> set ws. wt_pc w = Wait_claimed \<longrightarrow> wt_queued w) \<and> (\<forall>w \<in> set ws. wt_pc w = Wait_load \<longrightarrow> \<not> wt_queued w)"

text \<open>The sections that leave the queue alone.\<close>

named_theorems queue_frame \<open>the queue is not touched\<close>

lemma queue_put [queue_frame]: "sm_queue (put n i S) = sm_queue S"
  and queue_call [queue_frame]: "sm_queue (call c S) = sm_queue S"
  and queue_notify [queue_frame]: "sm_queue (notify_sse ev n j S) = sm_queue S"
  and queue_stop [queue_frame]: "sm_queue (request_stop n ex S) = sm_queue S"
  and queue_touch [queue_frame]: "sm_queue (snd (touch E n S)) = sm_queue S"
  and queue_kill_old [queue_frame]: "sm_queue (kill_old X n S) = sm_queue S"
  and queue_watch [queue_frame]: "sm_queue (watch n p mode port S) = sm_queue S"
  and queue_map_metas [queue_frame]: "sm_queue (map_metas f S) = sm_queue S"
  by (simp_all add: put_def call_def notify_sse_def request_stop_def push_cmd_def touch_def kill_old_def watch_def map_metas_def
      Let_def split: option.split)

lemma queue_evict [queue_frame]: "sm_queue (evict_loop k n S) = sm_queue S"
proof (induction k n S rule: evict_loop.induct)
  case (1 k n S)
  then show ?case by (subst evict_loop.simps) (simp add: Let_def queue_frame)
qed

lemma queue_tick [queue_frame]: "sm_queue (tick E S) = sm_queue S"
  by (simp add: tick_def queue_frame)

lemma queue_fold: "(\<And>x T. sm_queue (f x T) = sm_queue T) \<Longrightarrow> sm_queue (fold f xs S) = sm_queue S"
  by (induction xs arbitrary: S) auto

lemma queue_unload [queue_frame]: "sm_queue (unload n S) = sm_queue S"
  by (simp add: unload_def stop_running_def Let_def queue_frame split: option.split)

lemma queue_sections [queue_frame]:
  "sm_queue (unload_all S) = sm_queue S" "sm_queue (snd (remove_begin n S)) = sm_queue S"
  "sm_queue (remove_end n S) = sm_queue S" "sm_queue (snd (lru_gone E n S)) = sm_queue S"
  "sm_queue (proxy_begin E upd now n S) = sm_queue S" "sm_queue (proxy_end E n S) = sm_queue S"
  "sm_queue (snd (take_startup S)) = sm_queue S" "sm_queue (update_status E n a S) = sm_queue S"
  "sm_queue (update_download_progress n dp fin good S) = sm_queue S" "sm_queue (request_exit n S) = sm_queue S"
  "sm_queue (force_kill k S) = sm_queue S" "sm_queue (erase_child k S) = sm_queue S"
  "sm_queue (snd (exit_first n p S)) = sm_queue S" "sm_queue (snd (reload_begin E L S)) = sm_queue S"
  by (simp_all add: unload_all_def queue_fold remove_begin_def remove_end_def lru_gone_def proxy_begin_def proxy_end_def
      take_startup_def update_status_def update_download_progress_def request_exit_def force_kill_def erase_child_def
      exit_first_def reload_begin_def Let_def case_prod_beta queue_frame split: option.split)

lemma queue_child [queue_frame]:
  "sm_queue (child_state E n st payload S) = sm_queue S" "sm_queue (exit_second E n mode code S) = sm_queue S"
  by (simp_all add: child_state_def exit_second_def Let_def queue_frame split: server_state.split)

lemma queue_load [queue_frame]: "sm_queue (snd (load_section E X opts n S)) = sm_queue S"
  by (simp add: load_section_def load_target_def Let_def case_prod_beta queue_frame split: option.split)

lemma queue_add_models [queue_frame]: "sm_queue (snd (add_models E L ps S)) = sm_queue S"
proof (induction E L ps S rule: add_models.induct)
  case (2 E L name p ps S)
  have "add_model E m S = Inr T \<Longrightarrow> sm_queue T = sm_queue S" for m T
    by (auto simp: add_model_def rbind_Inr_iff Let_def queue_frame split: if_splits option.splits)
  then show ?case
    using 2 by (auto split: sum.split)
qed simp

lemma queue_apply [queue_frame]: "sm_queue (apply_stop_timeout E S) = sm_queue S" "sm_queue (apply_hidden L S) = sm_queue S"
  by (simp_all add: apply_stop_timeout_def apply_hidden_def queue_frame)

lemma queue_refresh [queue_frame]: "sm_queue (refresh_models E L S) = sm_queue S" "sm_queue (erase_old L S) = sm_queue S"
  by (simp_all add: refresh_models_def queue_fold refresh_model_def erase_old_def Let_def queue_frame split: option.split)

lemma queue_first_load:
  assumes "first_load E L S = (r, S')"
  shows "sm_queue S' = sm_queue S"
proof -
  obtain r1 S1 where a: "add_models E L (ml_presets L) (S\<lparr>sm_need_reload := False\<rparr>) = (r1, S1)" by force
  have "sm_queue S1 = sm_queue S"
    using queue_add_models [of E L "ml_presets L" "S\<lparr>sm_need_reload := False\<rparr>"] a by simp
  then show ?thesis
    using assms by (auto simp: first_load_def a Let_def queue_frame split: sum.splits if_splits)
qed

lemma queue_reload_end:
  assumes "reload_end E L S = (r, S')"
  shows "sm_queue S' = sm_queue S"
proof -
  let ?R = "refresh_models E L (erase_old L S)"
  let ?ps = "filter (\<lambda>(name, p). entry ?R name = None) (ml_presets L)"
  obtain r1 S1 where a: "add_models E L ?ps ?R = (r1, S1)" by force
  have "sm_queue S1 = sm_queue S"
    using queue_add_models [of E L ?ps ?R] a by (simp add: queue_frame)
  then show ?thesis
    using assms by (auto simp: reload_end_def a Let_def queue_frame split: sum.splits)
qed

lemma queue_commands: "handle_commands now S = (False, S') \<Longrightarrow> sm_queue S' = sm_queue S"
  using run_commands_effect [of now "sm_cmds S" "S\<lparr>sm_cmds := []\<rparr>" S'] by (simp add: handle_commands_def same_registry_def)

text \<open>The operations on the queue.\<close>

lemma find_join: "find_entry n (join m q) = (if n = m then
    Some (case find_entry m q of None \<Rightarrow> \<lparr>en_model = m, en_waiters = 1, en_loading = False\<rparr>
                               | Some e \<Rightarrow> e\<lparr>en_waiters := en_waiters e + 1\<rparr>) else find_entry n q)"
  by (induction m q rule: join.induct) (auto simp: find_entry_def)

lemma models_join: "set (map en_model (join m q)) = insert m (set (map en_model q))"
  "distinct (map en_model q) \<Longrightarrow> distinct (map en_model (join m q))"
  by (induction m q rule: join.induct) auto

lemma find_entry_none: "find_entry n q = None \<longleftrightarrow> n \<notin> set (map en_model q)"
  by (auto simp: find_entry_def find_None_iff)

lemma models_leave: "set (map en_model (leave m q)) \<subseteq> set (map en_model q)"
  "distinct (map en_model q) \<Longrightarrow> distinct (map en_model (leave m q))"
  by (induction m q rule: leave.induct) (auto split: if_splits)

lemma find_leave: "distinct (map en_model q) \<Longrightarrow> find_entry n (leave m q) = (if n = m then
    (case find_entry m q of None \<Rightarrow> None
     | Some e \<Rightarrow> if en_waiters e - 1 \<le> 0 then None else Some (e\<lparr>en_waiters := en_waiters e - 1\<rparr>)) else find_entry n q)"
proof (induction m q rule: leave.induct)
  case (2 m e q)
  have "en_model e = m \<Longrightarrow> find_entry m q = None"
    using 2 by (auto simp: find_entry_none)
  then show ?case
    using 2 by (auto simp: find_entry_def)
qed (simp add: find_entry_def)

lemma find_unclaim: "find_entry n (unclaim m q) =
    (if n = m then map_option (\<lambda>e. e\<lparr>en_loading := False\<rparr>) (find_entry m q) else find_entry n q)"
  by (induction m q rule: unclaim.induct) (auto simp: find_entry_def)

lemma models_unclaim [simp]: "map en_model (unclaim m q) = map en_model q"
  by (induction m q rule: unclaim.induct) auto

lemma filter_update:
  "k < length xs \<Longrightarrow> length (filter P (xs[k := x])) + (if P (xs ! k) then 1 else 0) = length (filter P xs) + (if P x then 1 else 0)"
proof (induction xs arbitrary: k)
  case (Cons a xs)
  then show ?case by (cases k) auto
qed simp

lemma filter_remove_nth:
  "k < length xs \<Longrightarrow> length (filter P (remove_nth k xs)) + (if P (xs ! k) then 1 else 0) = length (filter P xs)"
proof (induction xs arbitrary: k)
  case (Cons a xs)
  then show ?case by (cases k) (auto simp: remove_nth_def)
qed simp

lemma set_remove_nth: "set (remove_nth k xs) \<subseteq> set xs"
  unfolding remove_nth_def using set_take_subset [of k xs] set_drop_subset [of "k + 1" xs] by auto

lemma waiting_update:
  "k < length ws \<Longrightarrow> waiting_for n (ws[k := w]) + (if wt_name (ws ! k) = n \<and> wt_queued (ws ! k) then 1 else 0)
     = waiting_for n ws + (if wt_name w = n \<and> wt_queued w then 1 else 0)"
  unfolding waiting_for_def by (rule filter_update)

lemma claiming_update:
  "k < length ws \<Longrightarrow> claiming n (ws[k := w]) + (if wt_name (ws ! k) = n \<and> wt_pc (ws ! k) = Wait_claimed then 1 else 0)
     = claiming n ws + (if wt_name w = n \<and> wt_pc w = Wait_claimed then 1 else 0)"
  unfolding claiming_def by (rule filter_update)

lemma waiting_dropped:
  "k < length ws \<Longrightarrow> waiting_for n (remove_nth k ws) + (if wt_name (ws ! k) = n \<and> wt_queued (ws ! k) then 1 else 0) = waiting_for n ws"
  unfolding waiting_for_def by (rule filter_remove_nth)

lemma claiming_dropped:
  "k < length ws \<Longrightarrow> claiming n (remove_nth k ws) + (if wt_name (ws ! k) = n \<and> wt_pc (ws ! k) = Wait_claimed then 1 else 0) = claiming n ws"
  unfolding claiming_def by (rule filter_remove_nth)

lemma filter_length_mono: "(\<And>x. x \<in> set xs \<Longrightarrow> P x \<Longrightarrow> Q x) \<Longrightarrow> length (filter P xs) \<le> length (filter Q xs)"
  by (induction xs) auto

definition waiter_ok :: "waiter \<Rightarrow> bool" where
  "waiter_ok w \<longleftrightarrow> (wt_pc w = Wait_claimed \<longrightarrow> wt_queued w) \<and> (wt_pc w = Wait_load \<longrightarrow> \<not> wt_queued w)"

lemma queue_ok_waiters: "queue_ok q ws \<Longrightarrow> w \<in> set ws \<Longrightarrow> waiter_ok w"
  by (auto simp: queue_ok_def waiter_ok_def)

lemma queue_okI:
  assumes "distinct (map en_model q)"
    and "\<And>n. find_entry n q = None \<Longrightarrow> waiting_for n ws = 0 \<and> claiming n ws = 0"
    and "\<And>n e. find_entry n q = Some e \<Longrightarrow>
      en_waiters e = int (waiting_for n ws) \<and> 0 < waiting_for n ws \<and> claiming n ws \<le> (if en_loading e then 1 else 0)"
    and "\<And>w. w \<in> set ws \<Longrightarrow> waiter_ok w"
  shows "queue_ok q ws"
proof -
  have "case find_entry n q of None \<Rightarrow> waiting_for n ws = 0 \<and> claiming n ws = 0
     | Some e \<Rightarrow> en_waiters e = int (waiting_for n ws) \<and> 0 < waiting_for n ws \<and> claiming n ws \<le> (if en_loading e then 1 else 0)" for n
    using assms(2) [of n] assms(3) [of n] by (cases "find_entry n q") simp_all
  then show ?thesis
    unfolding queue_ok_def using assms(1,4) by (simp add: waiter_ok_def)
qed

lemma queue_okD:
  assumes "queue_ok q ws"
  shows "distinct (map en_model q)" "find_entry n q = None \<Longrightarrow> waiting_for n ws = 0 \<and> claiming n ws = 0"
    "find_entry n q = Some e \<Longrightarrow>
      en_waiters e = int (waiting_for n ws) \<and> 0 < waiting_for n ws \<and> claiming n ws \<le> (if en_loading e then 1 else 0)"
  using assms unfolding queue_ok_def by (auto dest!: spec [where x = n])

text \<open>A waiter that changes neither its place in the queue nor its claim.\<close>

lemma queue_ok_same:
  assumes "queue_ok q ws" "k < length ws" "wt_name w = wt_name (ws ! k)" "wt_queued w = wt_queued (ws ! k)"
    and "wt_pc w = Wait_claimed \<longleftrightarrow> wt_pc (ws ! k) = Wait_claimed" "waiter_ok w"
  shows "queue_ok q (ws[k := w])"
proof -
  have c: "waiting_for n (ws[k := w]) = waiting_for n ws" "claiming n (ws[k := w]) = claiming n ws" for n
    using waiting_update [OF assms(2), of n w] claiming_update [OF assms(2), of n w] assms(3-5) by (simp_all split: if_splits)
  show ?thesis
    by (rule queue_okI) (use queue_okD [OF assms(1)] queue_ok_waiters [OF assms(1)] assms(6) set_update_subset_insert [of ws k w]
      in \<open>auto simp: c\<close>)
qed

lemma queue_ok_idle:
  assumes "queue_ok q ws" "\<not> wt_queued w" "wt_pc w \<noteq> Wait_claimed"
  shows "queue_ok q (ws @ [w])"
proof -
  have c: "waiting_for n (ws @ [w]) = waiting_for n ws" "claiming n (ws @ [w]) = claiming n ws" for n
    using assms(2,3) by (simp_all add: waiting_for_def claiming_def)
  show ?thesis
    by (rule queue_okI) (use queue_okD [OF assms(1)] queue_ok_waiters [OF assms(1)] assms(2,3) in \<open>auto simp: c waiter_ok_def\<close>)
qed

lemma queue_ok_join:
  assumes "queue_ok q ws" "wt_queued w" "wt_pc w = Wait_queue"
  shows "queue_ok (join (wt_name w) q) (ws @ [w])"
proof -
  have c: "waiting_for n (ws @ [w]) = waiting_for n ws + (if n = wt_name w then 1 else 0)" "claiming n (ws @ [w]) = claiming n ws" for n
    using assms(2,3) by (simp_all add: waiting_for_def claiming_def)
  show ?thesis
  proof (rule queue_okI)
    show "distinct (map en_model (join (wt_name w) q))"
      using queue_okD(1) [OF assms(1)] by (rule models_join(2))
  next
    fix n assume "find_entry n (join (wt_name w) q) = None"
    then show "waiting_for n (ws @ [w]) = 0 \<and> claiming n (ws @ [w]) = 0"
      using queue_okD(2) [OF assms(1), of n] by (simp add: find_join c split: if_splits)
  next
    fix n e assume "find_entry n (join (wt_name w) q) = Some e"
    then show "en_waiters e = int (waiting_for n (ws @ [w])) \<and> 0 < waiting_for n (ws @ [w])
        \<and> claiming n (ws @ [w]) \<le> (if en_loading e then 1 else 0)"
      using queue_okD(2) [OF assms(1), of n] queue_okD(3) [OF assms(1), of n]
      by (auto simp: find_join c split: if_splits option.splits)
  next
    fix w' assume "w' \<in> set (ws @ [w])"
    then show "waiter_ok w'"
      using queue_ok_waiters [OF assms(1)] assms(2,3) by (auto simp: waiter_ok_def)
  qed
qed

lemma queue_ok_leave:
  assumes "queue_ok q ws" "k < length ws" "wt_pc (ws ! k) = Wait_queue"
  shows "queue_ok (if wt_queued (ws ! k) then leave (wt_name (ws ! k)) q else q) (remove_nth k ws)"
proof -
  let ?w = "ws ! k"
  note d = queue_okD(1) [OF assms(1)]
  have c: "waiting_for n (remove_nth k ws) = waiting_for n ws - (if n = wt_name ?w \<and> wt_queued ?w then 1 else 0)"
      "claiming n (remove_nth k ws) = claiming n ws" for n
    using waiting_dropped [OF assms(2), of n] claiming_dropped [OF assms(2), of n] assms(3) by (auto split: if_splits)
  have ws: "w' \<in> set (remove_nth k ws) \<Longrightarrow> waiter_ok w'" for w'
    using set_remove_nth [of k ws] queue_ok_waiters [OF assms(1)] by auto
  have here: "wt_queued ?w \<Longrightarrow> claiming (wt_name ?w) ws < waiting_for (wt_name ?w) ws"
  proof -
    assume qd: "wt_queued ?w"
    have "claiming (wt_name ?w) (remove_nth k ws) \<le> waiting_for (wt_name ?w) (remove_nth k ws)"
      using ws by (auto simp: claiming_def waiting_for_def waiter_ok_def intro: filter_length_mono)
    then show "claiming (wt_name ?w) ws < waiting_for (wt_name ?w) ws"
      using c qd waiting_dropped [OF assms(2), of "wt_name ?w"] by simp
  qed
  show ?thesis
  proof (cases "wt_queued ?w")
    case False
    then show ?thesis
      by (intro queue_okI) (use queue_okD [OF assms(1)] ws in \<open>auto simp: c\<close>)
  next
    case True
    have "queue_ok (leave (wt_name ?w) q) (remove_nth k ws)"
    proof (rule queue_okI)
      show "distinct (map en_model (leave (wt_name ?w) q))"
        using d by (rule models_leave(2))
    next
      fix n assume "find_entry n (leave (wt_name ?w) q) = None"
      then show "waiting_for n (remove_nth k ws) = 0 \<and> claiming n (remove_nth k ws) = 0"
        using queue_okD(2,3) [OF assms(1), of n] here [OF True] True
        by (auto simp: find_leave [OF d] c split: if_splits option.splits)
    next
      fix n e assume "find_entry n (leave (wt_name ?w) q) = Some e"
      then show "en_waiters e = int (waiting_for n (remove_nth k ws)) \<and> 0 < waiting_for n (remove_nth k ws)
          \<and> claiming n (remove_nth k ws) \<le> (if en_loading e then 1 else 0)"
        using queue_okD(2,3) [OF assms(1), of n] True
        by (auto simp: find_leave [OF d] c split: if_splits option.splits)
    qed (rule ws)
    then show ?thesis using True by simp
  qed
qed

lemma find_entry_head: "find_entry n (e # q) = (if en_model e = n then Some e else find_entry n q)"
  by (simp add: find_entry_def)

lemma queue_ok_claim:
  assumes ok: "queue_ok (e # q) ws" and k: "k < length ws" and w: "wt_pc (ws ! k) = Wait_queue" "wt_queued (ws ! k)"
    and e: "en_model e = wt_name (ws ! k)" "\<not> en_loading e"
    and w': "wt_name w' = wt_name (ws ! k)" "wt_queued w'" "wt_pc w' = Wait_claimed"
  shows "queue_ok (e\<lparr>en_loading := True\<rparr> # q) (ws[k := w'])"
proof -
  have c: "waiting_for n (ws[k := w']) = waiting_for n ws"
      "claiming n (ws[k := w']) = claiming n ws + (if n = wt_name (ws ! k) then 1 else 0)" for n
    using waiting_update [OF k, of n w'] claiming_update [OF k, of n w'] w w' by (auto split: if_splits)
  show ?thesis
  proof (rule queue_okI)
    show "distinct (map en_model (e\<lparr>en_loading := True\<rparr> # q))"
      using queue_okD(1) [OF ok] by simp
  next
    fix n assume "find_entry n (e\<lparr>en_loading := True\<rparr> # q) = None"
    then show "waiting_for n (ws[k := w']) = 0 \<and> claiming n (ws[k := w']) = 0"
      using queue_okD(2) [OF ok, of n] e by (auto simp: find_entry_head c split: if_splits)
  next
    fix n x assume "find_entry n (e\<lparr>en_loading := True\<rparr> # q) = Some x"
    then show "en_waiters x = int (waiting_for n (ws[k := w'])) \<and> 0 < waiting_for n (ws[k := w'])
        \<and> claiming n (ws[k := w']) \<le> (if en_loading x then 1 else 0)"
      using queue_okD(3) [OF ok, of n] e by (auto simp: find_entry_head c split: if_splits)
  next
    fix v assume "v \<in> set (ws[k := w'])"
    then show "waiter_ok v"
      using queue_ok_waiters [OF ok] w' set_update_subset_insert [of ws k w'] by (auto simp: waiter_ok_def)
  qed
qed

lemma queue_ok_unclaim:
  assumes ok: "queue_ok q ws" and k: "k < length ws" and w: "wt_pc (ws ! k) = Wait_claimed"
    and w': "wt_name w' = wt_name (ws ! k)" "wt_queued w' = wt_queued (ws ! k)" "wt_pc w' = Wait_queue"
  shows "queue_ok (if good then q else unclaim (wt_name (ws ! k)) q) (ws[k := w'])"
proof -
  let ?q = "if good then q else unclaim (wt_name (ws ! k)) q"
  have c: "waiting_for n (ws[k := w']) = waiting_for n ws"
      "claiming n (ws[k := w']) = claiming n ws - (if n = wt_name (ws ! k) then 1 else 0)" for n
    using waiting_update [OF k, of n w'] claiming_update [OF k, of n w'] w w' by (auto split: if_splits)
  have f: "find_entry n ?q = (if good \<or> n \<noteq> wt_name (ws ! k) then find_entry n q
      else map_option (\<lambda>e. e\<lparr>en_loading := False\<rparr>) (find_entry n q))" for n
    by (auto simp: find_unclaim)
  show ?thesis
  proof (rule queue_okI)
    show "distinct (map en_model ?q)"
      using queue_okD(1) [OF ok] by simp
  next
    fix n assume "find_entry n ?q = None"
    then show "waiting_for n (ws[k := w']) = 0 \<and> claiming n (ws[k := w']) = 0"
      using queue_okD(2) [OF ok, of n] by (auto simp: f c split: if_splits)
  next
    fix n x assume "find_entry n ?q = Some x"
    then show "en_waiters x = int (waiting_for n (ws[k := w'])) \<and> 0 < waiting_for n (ws[k := w'])
        \<and> claiming n (ws[k := w']) \<le> (if en_loading x then 1 else 0)"
      using queue_okD(3) [OF ok, of n] by (auto simp: f c split: if_splits)
  next
    fix v assume "v \<in> set (ws[k := w'])"
    then show "waiter_ok v"
      using queue_ok_waiters [OF ok] w' set_update_subset_insert [of ws k w'] by (auto simp: waiter_ok_def)
  qed
qed

lemma ensure_begin_queue:
  assumes "ensure_begin E name S = (w, S')"
  shows "(sm_queue S' = sm_queue S \<and> \<not> wt_queued w \<and> wt_pc w \<noteq> Wait_claimed)
    \<or> (sm_queue S' = join (wt_name w) (sm_queue S) \<and> wt_queued w \<and> wt_pc w = Wait_queue)"
  using assms by (auto simp: ensure_begin_def Let_def queue_frame set_queue_def split: option.splits if_splits)

lemma try_claim_cases:
  assumes "try_claim E name S = (b, S')"
  shows "(\<not> b \<and> S' = S) \<or> (b \<and> has_capacity E S \<and> (\<exists>e q. sm_queue S = e # q \<and> en_model e = name \<and> \<not> en_loading e
      \<and> S' = S\<lparr>sm_queue := e\<lparr>en_loading := True\<rparr> # q\<rparr>))"
  using assms by (auto simp: try_claim_def split: list.splits if_splits)

lemma wait_turn_queue:
  assumes "wait_turn E stop w S = (r, w', S')"
  shows "wt_name w' = wt_name w \<and> wt_queued w' = wt_queued w
    \<and> (if r = Turn_claims then wt_queued w \<and> wt_pc w' = Wait_claimed \<and> has_capacity E S
         \<and> (\<exists>e q. sm_queue S = e # q \<and> en_model e = wt_name w \<and> \<not> en_loading e \<and> sm_queue S' = e\<lparr>en_loading := True\<rparr> # q)
       else S' = S \<and> wt_pc w' = wt_pc w)"
proof (cases "entry S (wt_name w)")
  case (Some i)
  obtain b T where c: "try_claim E (wt_name w) S = (b, T)" by force
  show ?thesis
    using assms try_claim_cases [OF c]
    by (auto simp: wait_turn_def Some Let_def c split: if_splits bool.splits)
qed (use assms in \<open>auto simp: wait_turn_def\<close>)

lemma queue_ok_step:
  assumes "router_step E s s'" "queue_ok (sm_queue (rs_models s)) (rs_waiters s)"
  shows "queue_ok (sm_queue (rs_models s')) (rs_waiters s')"
  using assms
proof (induction rule: router_step.induct)
  case (Load s X name r S')
  then show ?case using queue_load [of E X load_default name "rs_models s"] by simp
next
  case (Download s k name X r S')
  then show ?case using queue_load [of E X "download_options E name" name "rs_models s"] by simp
next
  case (First_load s L r S')
  then show ?case by (simp add: queue_first_load [OF First_load(2)])
next
  case (Reload_begin s L names S')
  then show ?case using queue_sections(14) [of E L "rs_models s"] by simp
next
  case (Reload_end k s L names r S')
  then show ?case by (simp add: queue_reload_end [OF Reload_end(4)])
next
  case (Ensure name s w S')
  then show ?case
    using ensure_begin_queue [OF Ensure(1)] queue_ok_idle queue_ok_join by auto
next
  case (Load_returned k s r w)
  have "\<not> wt_queued (rs_waiters s ! k)"
    using queue_ok_waiters [OF Load_returned(4)] Load_returned(1,2) by (auto simp: waiter_ok_def)
  then show ?case
    using Load_returned by (auto simp: load_returned_def waiter_ok_def intro!: queue_ok_same split: sum.splits)
next
  case (Load_failed k s r e)
  have nq: "\<not> wt_queued (rs_waiters s ! k)"
    using queue_ok_waiters [OF Load_failed(4)] Load_failed(1,2) by (auto simp: waiter_ok_def)
  let ?w = "(rs_waiters s ! k)\<lparr>wt_pc := Wait_queue\<rparr>" and ?ws = "rs_waiters s"
  have "queue_ok (sm_queue (rs_models s)) (?ws[k := ?w])"
    using Load_failed nq by (intro queue_ok_same) (auto simp: waiter_ok_def)
  then have "queue_ok (sm_queue (rs_models s)) (remove_nth k (?ws[k := ?w]))"
    using queue_ok_leave [of _ "?ws[k := ?w]" k] Load_failed(1) nq by simp
  then show ?case
    by (simp add: remove_nth_def)
next
  case (Wait_goes_on k s stop w S')
  obtain r v T where t: "wait_turn E stop (rs_waiters s ! k) (rs_models s) = (r, v, T)"
    by (metis prod_cases3)
  note q = wait_turn_queue [OF t]
  have r: "(r = Turn_claims \<or> r = Turn_waits) \<and> w = v \<and> S' = T"
    using Wait_goes_on(3) by (auto simp: wait_round_def t split: turn.splits)
  show ?case
  proof (cases "r = Turn_claims")
    case True
    then obtain e q' where e: "sm_queue (rs_models s) = e # q'" "en_model e = wt_name (rs_waiters s ! k)" "\<not> en_loading e"
        "sm_queue T = e\<lparr>en_loading := True\<rparr> # q'"
      using q by auto
    have "queue_ok (e\<lparr>en_loading := True\<rparr> # q') ((rs_waiters s)[k := v])"
      by (rule queue_ok_claim) (use e q True Wait_goes_on(1,2,4) in auto)
    then show ?thesis using r e(4) by simp
  next
    case False
    have "waiter_ok v"
      using q False Wait_goes_on(2) by (simp add: waiter_ok_def)
    then show ?thesis
      using q False r Wait_goes_on by (auto intro: queue_ok_same)
  qed
next
  case (Wait_ends k s stop e S')
  obtain r v T where t: "wait_turn E stop (rs_waiters s ! k) (rs_models s) = (r, v, T)"
    by (metis prod_cases3)
  note q = wait_turn_queue [OF t]
  have "r \<noteq> Turn_claims \<and> sm_queue S' = sm_queue (leave_queue v T)"
    using Wait_ends(3) by (auto simp: wait_round_def t queue_frame split: turn.splits)
  then show ?case
    using q queue_ok_leave [OF Wait_ends(4,1,2)] by (auto simp: leave_queue_def set_queue_def split: if_splits)
next
  case (Claim_returned k s r w S')
  have "sm_queue S' = (if is_ok r then sm_queue (rs_models s) else unclaim (wt_name (rs_waiters s ! k)) (sm_queue (rs_models s)))"
    and w: "wt_name w = wt_name (rs_waiters s ! k)" "wt_queued w = wt_queued (rs_waiters s ! k)" "wt_pc w = Wait_queue"
    using Claim_returned(3) by (auto simp: claim_returned_def claim_done_def queue_frame)
  then show ?case
    using queue_ok_unclaim [OF Claim_returned(4,1,2) w, of "is_ok r"] by simp
next
  case (Commands s now S')
  then show ?case by (simp add: queue_commands [OF Commands(2)])
next
  case (Exit_known s k c alive S' code)
  then show ?case using queue_sections(13) [of "ch_name c" "ch_proc c" "rs_models s"] by simp
next
  case (Exit_unknown s k c alive S')
  then show ?case using queue_sections(13) [of "ch_name c" "ch_proc c" "rs_models s"] by (simp add: queue_frame)
qed (simp_all add: queue_frame)

lemma queue_ok_reachable: "router_reachable E s \<Longrightarrow> queue_ok (sm_queue (rs_models s)) (rs_waiters s)"
proof (induction rule: router_reachable.induct)
  case Router_init
  show ?case
    by (rule queue_okI) (simp_all add: sys_init_def models_init_def waiting_for_def claiming_def find_entry_def)
qed (rule queue_ok_step)

text \<open>
  Property C13. In every reachable state the queue for a slot has one entry for each model that queued
  requests wait for, with their exact number, and no others; at most one of the requests that wait
  for a model is loading it, and only while its entry is marked.  A request that leaves, for whatever
  reason, never blocks the head of the queue for the others.
\<close>

theorem queue_matches_waiters:
  assumes "router_reachable E s"
  shows "distinct (map en_model (sm_queue (rs_models s)))
    \<and> (\<forall>n. (find_entry n (sm_queue (rs_models s)) = None \<longrightarrow> waiting_for n (rs_waiters s) = 0)
      \<and> (\<forall>e. find_entry n (sm_queue (rs_models s)) = Some e \<longrightarrow> en_waiters e = int (waiting_for n (rs_waiters s)) \<and> 0 < en_waiters e)
      \<and> claiming n (rs_waiters s) \<le> 1
      \<and> (0 < claiming n (rs_waiters s) \<longrightarrow> (\<exists>e. find_entry n (sm_queue (rs_models s)) = Some e \<and> en_loading e)))"
proof (intro conjI allI)
  note q = queue_okD [OF queue_ok_reachable [OF assms]]
  show "distinct (map en_model (sm_queue (rs_models s)))" by (rule q(1))
  fix n
  show "find_entry n (sm_queue (rs_models s)) = None \<longrightarrow> waiting_for n (rs_waiters s) = 0" using q(2) by blast
  show "find_entry n (sm_queue (rs_models s)) = Some e \<longrightarrow> en_waiters e = int (waiting_for n (rs_waiters s)) \<and> 0 < en_waiters e" for e
    using q(3) by fastforce
  show "claiming n (rs_waiters s) \<le> 1"
    using q(2,3) [of n] by (cases "find_entry n (sm_queue (rs_models s))") (fastforce split: if_splits)+
  show "0 < claiming n (rs_waiters s) \<longrightarrow> (\<exists>e. find_entry n (sm_queue (rs_models s)) = Some e \<and> en_loading e)"
    using q(2,3) [of n] by (cases "find_entry n (sm_queue (rs_models s))") (fastforce split: if_splits)+
qed

section \<open>Who is evicted\<close>

definition evictable :: "'p server_models \<Rightarrow> string set" where
  "evictable S = {n. \<exists>i. entry S n = Some i \<and> may_evict S (n, i)}"

definition used_at :: "'p server_models \<Rightarrow> string \<Rightarrow> int" where
  "used_at S n = (case entry S n of Some i \<Rightarrow> mm_last_used (in_meta i) | None \<Rightarrow> 0)"

lemma oldest_props:
  assumes "\<forall>e \<in> set es. fst e \<noteq> []"
  shows "oldest es (v, t) = (v', t') \<Longrightarrow>
    (v \<noteq> [] \<longrightarrow> t' \<le> t) \<and> (\<forall>(n, i) \<in> set es. t' \<le> mm_last_used (in_meta i))
    \<and> (v' = v \<and> t' = t \<or> (\<exists>i. (v', i) \<in> set es \<and> t' = mm_last_used (in_meta i))) \<and> (v' = [] \<longrightarrow> v = [] \<and> es = [])"
  using assms
proof (induction es "(v, t)" arbitrary: v t rule: oldest.induct)
  case (2 n i es v t)
  have ne: "n \<noteq> []" "\<forall>e \<in> set es. fst e \<noteq> []"
    using 2(4) by simp_all
  show ?case
  proof (cases "v = [] \<or> mm_last_used (in_meta i) < t")
    case True
    then have o: "oldest es (n, mm_last_used (in_meta i)) = (v', t')"
      using 2(3) by simp
    note 2(1) [OF True o ne(2)]
    then show ?thesis using True ne(1) by auto
  next
    case False
    then have o: "oldest es (v, t) = (v', t')"
      using 2(3) by simp
    note 2(2) [OF False o ne(2)]
    then show ?thesis using False by auto
  qed
qed simp

lemma pick_victim_props:
  assumes "omap_ok (sm_mapping S)" "entry S [] = None"
  shows "pick_victim S = [] \<longleftrightarrow> evictable S = {}"
    "pick_victim S \<noteq> [] \<Longrightarrow> pick_victim S \<in> evictable S \<and> (\<forall>n \<in> evictable S. used_at S (pick_victim S) \<le> used_at S n)"
proof -
  let ?es = "filter (may_evict S) (sm_mapping S)"
  obtain v t where o: "oldest ?es ([], 0) = (v, t)" by force
  then have pv: "pick_victim S = v" by (simp add: pick_victim_def)
  have ne: "\<forall>e \<in> set ?es. fst e \<noteq> []"
    using assms(2) entry_in_mapping [OF assms(1)] by force
  note p = oldest_props [OF ne o]
  have ev: "n \<in> evictable S \<longleftrightarrow> (\<exists>i. (n, i) \<in> set ?es)" for n
    by (auto simp: evictable_def entry_in_mapping [OF assms(1)])
  show "pick_victim S = [] \<longleftrightarrow> evictable S = {}"
  proof
    assume "pick_victim S = []"
    then have "?es = []" using p pv by simp
    then show "evictable S = {}" using ev by auto
  next
    assume "evictable S = {}"
    then have "\<And>n i. (n, i) \<notin> set ?es" using ev by blast
    then show "pick_victim S = []" using p pv by auto
  qed
  show "pick_victim S \<in> evictable S \<and> (\<forall>n \<in> evictable S. used_at S (pick_victim S) \<le> used_at S n)" if nz: "pick_victim S \<noteq> []"
  proof -
    obtain i where i: "(v, i) \<in> set ?es" "t = mm_last_used (in_meta i)"
      using p nz pv by auto
    have u: "(n, j) \<in> set ?es \<Longrightarrow> used_at S n = mm_last_used (in_meta j)" for n j
      using entry_in_mapping [OF assms(1), of n j] by (simp add: used_at_def)
    have "used_at S v = t"
      using i u by simp
    moreover have "t \<le> used_at S n" if n: "n \<in> evictable S" for n
    proof -
      obtain j where "(n, j) \<in> set ?es" using n ev by blast
      then show ?thesis
        using p u by auto
    qed
    ultimately show ?thesis
      using ev i(1) pv by auto
  qed
qed

lemma request_stop_frame:
  assumes "entry S n \<noteq> None"
  shows "entry (request_stop n ex S) m = entry S m" "sm_mapping (request_stop n ex S) = sm_mapping S"
    "sm_stopping (request_stop n ex S) = insert n (sm_stopping S)" "sm_queue (request_stop n ex S) = sm_queue S"
  using assms by (cases "n \<in> sm_stopping S"; auto simp: request_stop_def push_cmd_def entry_def)+

lemma evict_loop_effect:
  assumes "omap_ok (sm_mapping S)" "entry S [] = None"
  shows "sm_mapping (evict_loop k n S) = sm_mapping S \<and> (\<exists>V. sm_stopping (evict_loop k n S) = sm_stopping S \<union> V \<and> V \<subseteq> evictable S
    \<and> card V = min (nat (n - k)) (card (evictable S)) \<and> (\<forall>x \<in> V. \<forall>y \<in> evictable S - V. used_at S x \<le> used_at S y))"
  using assms
proof (induction k n S rule: evict_loop.induct)
  case (1 k n S)
  let ?v = "pick_victim S"
  note pv = pick_victim_props [OF 1(2,3)]
  have fin: "finite (evictable S)"
    by (rule finite_subset [of _ "dom (map_of (sm_mapping S))"]) (auto simp: evictable_def entry_def finite_dom_map_of)
  show ?case
  proof (cases "k < n \<and> ?v \<noteq> []")
    case False
    have e: "evict_loop k n S = S"
      by (subst evict_loop.simps) (use False in \<open>auto simp: Let_def\<close>)
    have "min (nat (n - k)) (card (evictable S)) = 0"
      using False pv(1) by (cases "k < n") simp_all
    then show ?thesis
      unfolding e by (intro conjI refl exI [of _ "{}"]) simp_all
  next
    case True
    let ?S = "request_stop ?v True S"
    have e: "evict_loop k n S = evict_loop (k + 1) n ?S"
      by (subst evict_loop.simps) (use True in \<open>simp add: Let_def\<close>)
    have v: "?v \<in> evictable S" "\<forall>y \<in> evictable S. used_at S ?v \<le> used_at S y"
      using pv(2) True by simp_all
    then have fr: "entry ?S m = entry S m" "sm_mapping ?S = sm_mapping S" "sm_stopping ?S = insert ?v (sm_stopping S)"
        "sm_queue ?S = sm_queue S" for m
      using request_stop_frame [of S ?v True] by (auto simp: evictable_def)
    have ev: "evictable ?S = evictable S - {?v}"
      by (auto simp: evictable_def may_evict_def fr)
    have u: "used_at ?S m = used_at S m" for m
      by (simp add: used_at_def fr)
    have "sm_mapping (evict_loop (k + 1) n ?S) = sm_mapping ?S \<and> (\<exists>V. sm_stopping (evict_loop (k + 1) n ?S) = sm_stopping ?S \<union> V
        \<and> V \<subseteq> evictable ?S \<and> card V = min (nat (n - (k + 1))) (card (evictable ?S))
        \<and> (\<forall>x \<in> V. \<forall>y \<in> evictable ?S - V. used_at ?S x \<le> used_at ?S y))"
      using 1(1) [OF _ refl] True 1(2,3) by (simp add: fr)
    then obtain V where V: "sm_mapping (evict_loop (k + 1) n ?S) = sm_mapping S"
        "sm_stopping (evict_loop (k + 1) n ?S) = insert ?v (sm_stopping S) \<union> V" "V \<subseteq> evictable S - {?v}"
        "card V = min (nat (n - (k + 1))) (card (evictable S - {?v}))"
        "\<forall>x \<in> V. \<forall>y \<in> evictable S - {?v} - V. used_at S x \<le> used_at S y"
      unfolding fr ev u by blast
    have "finite V" "?v \<notin> V"
      using V(3) fin by (auto intro: finite_subset)
    moreover have "nat (n - k) = Suc (nat (n - (k + 1)))"
      using True by linarith
    ultimately have "card (insert ?v V) = min (nat (n - k)) (card (evictable S))"
      using V(4) card_Suc_Diff1 [OF fin v(1)] by (simp del: nat_add_distrib)
    moreover have "\<forall>x \<in> insert ?v V. \<forall>y \<in> evictable S - insert ?v V. used_at S x \<le> used_at S y"
      using V(5) v(2) by auto
    ultimately show ?thesis
      unfolding e using V(1,2,3) v(1) by (intro conjI exI [of _ "insert ?v V"]) auto
  qed
qed

text \<open>
  Property C14. With requests in the queue, \<open>tick\<close> asks as many models to stop as slots are missing
  beyond those free or being freed, fewer only when no more can be given up.  It stops idle models
  only: ready or asleep, without a request in flight, not wanted by a queued request and not stopping
  already; and the least recently used of these.
\<close>

theorem tick_evicts_lru:
  assumes "omap_ok (sm_mapping S)" "entry S [] = None" "0 < re_models_max E" "sm_queue S \<noteq> []"
  shows "\<exists>V. sm_stopping (tick E S) = sm_stopping S \<union> V \<and> V \<inter> sm_stopping S = {}
    \<and> card V = min (nat (int (n_needed S) - n_free E S)) (card (evictable S))
    \<and> (\<forall>n \<in> V. \<exists>i. entry S n = Some i \<and> in_req_count i = 0 \<and> is_ready_or_sleep (in_meta i) \<and> find_entry n (sm_queue S) = None)
    \<and> (\<forall>n \<in> V. \<forall>m \<in> evictable S - V. used_at S n \<le> used_at S m)"
proof -
  have t: "tick E S = evict_loop (n_free E S) (int (n_needed S)) S"
    using assms(3,4) by (simp add: tick_def)
  obtain V where V: "sm_stopping (tick E S) = sm_stopping S \<union> V" "V \<subseteq> evictable S"
      "card V = min (nat (int (n_needed S) - n_free E S)) (card (evictable S))"
      "\<forall>x \<in> V. \<forall>y \<in> evictable S - V. used_at S x \<le> used_at S y"
    using evict_loop_effect [OF assms(1,2), of "n_free E S" "int (n_needed S)"] t by auto
  have "\<forall>n \<in> V. n \<notin> sm_stopping S \<and> (\<exists>i. entry S n = Some i \<and> in_req_count i = 0 \<and> is_ready_or_sleep (in_meta i)
      \<and> find_entry n (sm_queue S) = None)"
    using V(2) by (auto simp: evictable_def may_evict_def)
  then show ?thesis
    using V by (intro exI [of _ V]) auto
qed

section \<open>A run with a waiting request\<close>

text \<open>A request for the other model waits; the first exits, and the request claims its slot.\<close>

definition sys_queued :: "unit router_sys" where
  "sys_queued = sample_sys (sample_models up_a [entry_b False] [] [sample_child False]) None [waiter_b Wait_queue]"

definition sys_closed :: "unit router_sys" where
  "sys_closed = sample_sys (sample_models up_a [entry_b False] [] [sample_child True]) None [waiter_b Wait_queue]"

definition sys_exiting :: "unit router_sys" where
  "sys_exiting = sample_sys (sample_models up_a [entry_b False] [] [sample_child True]) (Some (0, 1)) [waiter_b Wait_queue]"

definition sys_exited :: "unit router_sys" where
  "sys_exited = sample_sys (sample_models down_a [entry_b False] [] []) None [waiter_b Wait_queue]"

definition sys_claimed :: "unit router_sys" where
  "sys_claimed = sample_sys (sample_models down_a [entry_b True] [] []) None [waiter_b Wait_claimed]"

lemmas run_defs = sys_defs sys_queued_def sys_closed_def sys_exiting_def sys_exited_def sys_claimed_def

lemma step_queued: "router_step sample_env sys_watching sys_queued"
proof -
  have "ensure_begin sample_env ''b'' (rs_models sys_watching) = (waiter_b Wait_queue, rs_models sys_queued)" by code_simp
  from Ensure [OF this] show ?thesis by (simp add: run_defs)
qed

lemma step_closed: "router_step sample_env sys_queued sys_closed"
proof -
  have "read_output [Read_closed] (sample_child False) = ([], sample_child True)" by code_simp
  then show ?thesis
    using Output [of sys_queued 0 "[Read_closed]" "[]" "sample_child True" sample_env] by (simp add: run_defs)
qed

lemma step_exiting: "router_step sample_env sys_closed sys_exiting"
proof -
  have "exit_first ''a'' 2 (rs_models sys_closed) = (True, rs_models sys_exiting)" by code_simp
  then show ?thesis
    using Exit_known [of sys_closed 0 "sample_child True" "\<lambda>_. False" "rs_models sys_exiting" sample_env 1]
    by (simp add: run_defs exited_def)
qed

lemma step_exited: "router_step sample_env sys_exiting sys_exited"
proof -
  have "erase_child 0 (exit_second sample_env ''a'' Child_normal 1 (rs_models sys_exiting)) = rs_models sys_exited" by code_simp
  then show ?thesis
    using Exit_recorded [of sys_exiting 0 1 "sample_child True" sample_env] by (simp add: run_defs)
qed

lemma step_claimed: "router_step sample_env sys_exited sys_claimed"
proof -
  have "wait_round sample_env False (waiter_b Wait_queue) (rs_models sys_exited) = (Inl (waiter_b Wait_claimed), rs_models sys_claimed)"
    by code_simp
  then show ?thesis
    using Wait_goes_on [of 0 sys_exited sample_env False "waiter_b Wait_claimed" "rs_models sys_claimed"] by (simp add: run_defs)
qed

lemma reachable_claimed: "router_reachable sample_env sys_claimed"
  by (intro Router_step [OF _ step_claimed] Router_step [OF _ step_exited] Router_step [OF _ step_exiting]
      Router_step [OF _ step_closed] Router_step [OF _ step_queued] reachable_watching)

theorem queue_matches_waiters_witness:
  "distinct (map en_model (sm_queue (rs_models sys_claimed))) \<and> waiting_for ''a'' (rs_waiters sys_claimed) = 0
   \<and> (1 = int (waiting_for ''b'' (rs_waiters sys_claimed)) \<and> 0 < en_waiters (entry_b True)) \<and> claiming ''b'' (rs_waiters sys_claimed) \<le> 1
   \<and> (\<exists>e. find_entry ''b'' (sm_queue (rs_models sys_claimed)) = Some e \<and> en_loading e)"
proof -
  note q = queue_matches_waiters [OF reachable_claimed]
  have f: "find_entry ''a'' (sm_queue (rs_models sys_claimed)) = None"
      "find_entry ''b'' (sm_queue (rs_models sys_claimed)) = Some (entry_b True)" "0 < claiming ''b'' (rs_waiters sys_claimed)"
      "en_waiters (entry_b True) = 1"
    by (simp_all add: run_defs find_entry_def claiming_def)
  have "en_loading (entry_b True)" by (simp add: entry_b_def)
  moreover have "1 = int (waiting_for ''b'' (rs_waiters sys_claimed))"
    using q f by auto
  ultimately show ?thesis
    using q f by auto
qed

text \<open>Two idle models, one request too many: the one used longer ago goes.\<close>

definition sample_full :: "unit server_models" where
  "sample_full = sample_models [sample_entry ''a'' 2 4000 Loaded 7 0, sample_entry ''c'' 3 4001 Sleeping 5 0] [entry_b False] [] []"

theorem tick_evicts_lru_witness:
  "\<exists>V. sm_stopping (tick (sample_env\<lparr>re_models_max := 2\<rparr>) sample_full) = {} \<union> V \<and> card V = 1 \<and> ''c'' \<in> V"
proof -
  let ?E = "sample_env\<lparr>re_models_max := 2\<rparr>"
  have h: "omap_ok (sm_mapping sample_full)" "entry sample_full [] = None" "0 < re_models_max ?E" "sm_queue sample_full \<noteq> []"
    by (simp_all add: sample_full_def sample_defs sample_entry_def entry_def omap_ok_def sample_env_def)
  have n: "int (n_needed sample_full) - n_free ?E sample_full = 1" by code_simp
  have ev: "evictable sample_full = {''a'', ''c''}"
    by (auto simp: evictable_def entry_def sample_full_def sample_defs sample_entry_def may_evict_def is_ready_or_sleep_def find_entry_def
        split: if_splits)
  have u: "used_at sample_full ''a'' = 7" "used_at sample_full ''c'' = 5" "sm_stopping sample_full = {}"
    by (simp_all add: used_at_def entry_def sample_full_def sample_defs sample_entry_def)
  obtain V where V: "sm_stopping (tick ?E sample_full) = {} \<union> V" "card V = 1"
      "\<forall>n \<in> V. \<exists>i. entry sample_full n = Some i \<and> in_req_count i = 0 \<and> is_ready_or_sleep (in_meta i) \<and> find_entry n (sm_queue sample_full) = None"
      "\<forall>n \<in> V. \<forall>m \<in> evictable sample_full - V. used_at sample_full n \<le> used_at sample_full m"
    using tick_evicts_lru [OF h] unfolding n ev u(3) by auto
  obtain x where x: "V = {x}" using V(2) by (auto simp: card_1_singleton_iff)
  have "x = ''a'' \<or> x = ''c''"
    using V(3) unfolding x by (auto simp: entry_def sample_full_def sample_defs sample_entry_def split: if_splits)
  moreover have "x \<noteq> ''a''"
    using V(4) u unfolding x ev by auto
  ultimately show ?thesis using V(1,2) x by auto
qed

end
