(* ===== verification/Router_Names.thy ===== *)
theory Router_Names
  imports Router_Queue
begin

text \<open>
  Names and aliases of the models: they stay unambiguous in every run of the router in which no late
  request re-creates an entry under an alias, so that a request finds the one model it names.
  Counterexamples about such a request, the start-up list and the download children close the theory.
\<close>

section \<open>Unambiguous names\<close>

definition aliases_of :: "'p instance_t \<Rightarrow> string set" where
  "aliases_of i = set (mm_aliases (in_meta i))"

definition names_ok :: "'p server_models \<Rightarrow> bool" where
  "names_ok S \<longleftrightarrow> (\<forall>k i k' i'. entry S k = Some i \<longrightarrow> entry S k' = Some i' \<longrightarrow> k \<noteq> k' \<longrightarrow>
     k' \<notin> aliases_of i \<and> aliases_of i \<inter> aliases_of i' = {})"

lemma names_okI:
  assumes "\<And>k i k' i'. entry S k = Some i \<Longrightarrow> entry S k' = Some i' \<Longrightarrow> k \<noteq> k' \<Longrightarrow> k' \<notin> aliases_of i \<and> aliases_of i \<inter> aliases_of i' = {}"
  shows "names_ok S"
  using assms by (auto simp: names_ok_def)

lemma names_okD:
  "names_ok S \<Longrightarrow> entry S k = Some i \<Longrightarrow> entry S k' = Some i' \<Longrightarrow> k \<noteq> k' \<Longrightarrow> k' \<notin> aliases_of i \<and> aliases_of i \<inter> aliases_of i' = {}"
  by (simp add: names_ok_def)

text \<open>Only entries of before, with no more aliases.\<close>

lemma names_ok_mono:
  assumes "names_ok S" "\<And>k i. entry T k = Some i \<Longrightarrow> \<exists>j. entry S k = Some j \<and> aliases_of i \<subseteq> aliases_of j"
  shows "names_ok T"
proof (rule names_okI)
  fix k i k' i'
  assume e: "entry T k = Some i" "entry T k' = Some i'" "k \<noteq> k'"
  obtain j where j: "entry S k = Some j" "aliases_of i \<subseteq> aliases_of j" using assms(2) e(1) by blast
  obtain j' where j': "entry S k' = Some j'" "aliases_of i' \<subseteq> aliases_of j'" using assms(2) e(2) by blast
  show "k' \<notin> aliases_of i \<and> aliases_of i \<inter> aliases_of i' = {}"
    using names_okD [OF assms(1) j(1) j'(1) e(3)] j(2) j'(2) by blast
qed

text \<open>An entry put in whose names clash with none of the others.\<close>

lemma names_ok_put:
  assumes ok: "names_ok S"
    and other: "\<And>k j. entry S k = Some j \<Longrightarrow> k \<noteq> name \<Longrightarrow>
      k \<notin> aliases_of i \<and> aliases_of i \<inter> aliases_of j = {} \<and> name \<notin> aliases_of j"
  shows "names_ok (put name i S)"
proof (rule names_okI)
  fix k j k' j'
  assume e: "entry (put name i S) k = Some j" "entry (put name i S) k' = Some j'" "k \<noteq> k'"
  show "k' \<notin> aliases_of j \<and> aliases_of j \<inter> aliases_of j' = {}"
  proof (cases "k = name \<or> k' = name")
    case True
    then show ?thesis using e other [of k j] other [of k' j'] by auto
  next
    case False
    then show ?thesis using e names_okD [OF ok] by simp
  qed
qed

lemma alias_owner_none: "alias_owner a m = None \<Longrightarrow> (k, i) \<in> set m \<Longrightarrow> a \<notin> aliases_of i"
  by (auto simp: alias_owner_def find_None_iff aliases_of_def)

lemma check_aliases_ok:
  "check_aliases name m as = Inr () \<Longrightarrow> a \<in> set as \<Longrightarrow> map_of m a = None \<and> alias_owner a m = None"
  by (induction name m as rule: check_aliases.induct) (auto split: if_splits option.splits)

lemma entry_mem: "entry S k = Some i \<Longrightarrow> (k, i) \<in> set (sm_mapping S)"
  unfolding entry_def by (rule map_of_SomeD)

lemma aliases_update [simp]:
  "mm_aliases (update_args E m) = mm_aliases m" "mm_aliases (update_caps E m) = mm_aliases m"
  by (simp_all add: update_args_def update_caps_def Let_def)

lemma names_ok_next [simp]: "names_ok (S\<lparr>sm_next_proc := k\<rparr>) = names_ok S"
  by (simp add: names_ok_def)

lemma names_ok_add:
  assumes "add_model E m S = Inr S'" "names_ok S"
  shows "names_ok S'"
proof -
  let ?as = "add_names E (mm_preset m) ''LLAMA_ARG_ALIAS'' (mm_aliases m)"
  from assms(1) obtain i where S': "S' = put (mm_name m) i (S\<lparr>sm_next_proc := sm_next_proc S + 1\<rparr>)"
    and i: "aliases_of i = set ?as" and n: "alias_owner (mm_name m) (sm_mapping S) = None"
    and c: "check_aliases (mm_name m) (sm_mapping S) ?as = Inr ()"
    by (auto simp: add_model_def aliases_of_def rbind_Inr_iff Let_def split: if_splits option.splits)
  show ?thesis
    unfolding S'
  proof (rule names_ok_put)
    fix k j
    assume "entry (S\<lparr>sm_next_proc := sm_next_proc S + 1\<rparr>) k = Some j"
    then have e: "entry S k = Some j" by simp
    note mem = entry_mem [OF e]
    have "map_of (sm_mapping S) a = None \<and> a \<notin> aliases_of j" if "a \<in> aliases_of i" for a
      using check_aliases_ok [OF c] alias_owner_none [OF _ mem] that i by blast
    then show "k \<notin> aliases_of i \<and> aliases_of i \<inter> aliases_of j = {} \<and> mm_name m \<notin> aliases_of j"
      using e alias_owner_none [OF n mem] by (auto simp: entry_def)
  qed (use assms(2) in simp)
qed

lemma names_ok_add_models: "add_models E L ps S = (r, S') \<Longrightarrow> names_ok S \<Longrightarrow> names_ok S'"
  by (induction E L ps S rule: add_models.induct) (auto dest: names_ok_add split: sum.splits)

lemma names_ok_map_metas:
  assumes "\<And>n m. mm_aliases (f n m) = mm_aliases m" "names_ok S"
  shows "names_ok (map_metas f S)"
  by (rule names_ok_mono [OF assms(2)]) (auto simp: entry_map_metas aliases_of_def assms(1))

lemma names_ok_apply: "names_ok S \<Longrightarrow> names_ok (apply_hidden L (apply_stop_timeout E S))"
  by (simp add: apply_hidden_def apply_stop_timeout_def names_ok_map_metas split: option.split)

lemma alias_not_taken:
  "\<not> alias_taken name a m \<Longrightarrow> (k, i) \<in> set m \<Longrightarrow> k \<noteq> name \<Longrightarrow> k \<noteq> a \<and> a \<notin> aliases_of i"
  by (fastforce simp: alias_taken_def list_ex_iff aliases_of_def)

lemma kept_aliases:
  "a \<in> set (fold (\<lambda>a as. if P a then as else insort_insert a as) new as) \<Longrightarrow> a \<in> set as \<or> \<not> P a"
  by (induction new arbitrary: as) (fastforce simp: set_insort_insert split: if_splits)+

lemma names_ok_refresh:
  assumes "names_ok S"
  shows "names_ok (refresh_model E L name S)"
proof (cases "refresh_model E L name S = S")
  case False
  then obtain i p where i: "entry S name = Some i" and p: "map_of (ml_presets L) name = Some p"
    by (auto simp: refresh_model_def split: option.splits if_splits)
  let ?as = "fold (\<lambda>a as. if alias_taken name a (sm_mapping S) then as else insort_insert a as) (add_names E p ''LLAMA_ARG_ALIAS'' []) []"
  obtain i' where T: "refresh_model E L name S = put name i' S" and a: "aliases_of i' = set ?as"
    using False by (auto simp: refresh_model_def i p Let_def aliases_of_def split: if_splits)
  show ?thesis
    unfolding T
  proof (rule names_ok_put [OF assms])
    fix k j
    assume e: "entry S k = Some j" "k \<noteq> name"
    have "k \<noteq> a \<and> a \<notin> aliases_of j" if "a \<in> aliases_of i'" for a
    proof -
      have "\<not> alias_taken name a (sm_mapping S)"
        using kept_aliases [OF that [unfolded a]] by simp
      then show ?thesis
        using alias_not_taken [OF _ entry_mem [OF e(1)] e(2)] by blast
    qed
    then show "k \<notin> aliases_of i' \<and> aliases_of i' \<inter> aliases_of j = {} \<and> name \<notin> aliases_of j"
      using names_okD [OF assms e(1) i e(2)] by blast
  qed
qed (use assms in simp)

lemma names_ok_refresh_models: "names_ok S \<Longrightarrow> names_ok (refresh_models E L S)"
proof -
  have "names_ok S \<Longrightarrow> names_ok (fold (refresh_model E L) ns S)" for ns
    by (induction ns arbitrary: S) (simp_all add: names_ok_refresh)
  then show "names_ok S \<Longrightarrow> names_ok (refresh_models E L S)"
    by (simp add: refresh_models_def)
qed

lemma names_ok_erase_old:
  assumes "omap_ok (sm_mapping S)" "names_ok S"
  shows "names_ok (erase_old L S)"
proof (rule names_ok_mono [OF assms(2)])
  fix k i
  assume "entry (erase_old L S) k = Some i"
  then have "(k, i) \<in> set (sm_mapping S)"
    using entry_mem by (fastforce simp: erase_old_def)
  then have "entry S k = Some i"
    by (simp add: entry_in_mapping [OF assms(1)])
  then show "\<exists>j. entry S k = Some j \<and> aliases_of i \<subseteq> aliases_of j" by blast
qed

lemma names_ok_fields [simp]:
  "names_ok (S\<lparr>sm_reloading := b\<rparr>) = names_ok S" "names_ok (S\<lparr>sm_need_reload := b\<rparr>) = names_ok S"
  "names_ok (S\<lparr>sm_startup := x\<rparr>) = names_ok S"
  by (simp_all add: names_ok_def entry_def)

lemma names_ok_first_load:
  assumes f: "first_load E L S = (r, S')" and e: "sm_mapping S = []"
  shows "names_ok S'"
proof -
  obtain r1 S1 where a: "add_models E L (ml_presets L) (S\<lparr>sm_need_reload := False\<rparr>) = (r1, S1)" by force
  have "names_ok S" by (simp add: names_ok_def entry_def e)
  then have "names_ok S1" using names_ok_add_models [OF a] by simp
  then show ?thesis
    using f names_ok_apply [of S1] by (auto simp: first_load_def a Let_def split: sum.splits if_splits)
qed

lemma names_ok_reload_end:
  assumes f: "reload_end E L S = (r, S')" and om: "omap_ok (sm_mapping S)" and ok: "names_ok S"
  shows "names_ok S'"
proof -
  let ?R = "refresh_models E L (erase_old L S)"
  obtain r1 S1 where a: "add_models E L (filter (\<lambda>(name, p). entry ?R name = None) (ml_presets L)) ?R = (r1, S1)" by force
  have "names_ok ?R"
    using om ok by (simp add: names_ok_refresh_models names_ok_erase_old)
  then have "names_ok S1" using names_ok_add_models [OF a] by simp
  then show ?thesis
    using f names_ok_apply [of S1] by (auto simp: reload_end_def a Let_def split: sum.splits)
qed

lemma name_found:
  assumes om: "omap_ok (sm_mapping S)" and ok: "names_ok S" and e: "entry S k = Some i" and a: "a = k \<or> a \<in> aliases_of i"
  shows "get_meta a S = Some (in_meta i)"
proof (cases "entry S a")
  case (Some j)
  then have "a = k"
    using a names_okD [OF ok e Some] by blast
  then show ?thesis using e by (simp add: get_meta_def)
next
  case None
  then have a: "a \<in> aliases_of i" using a e by auto
  let ?P = "\<lambda>e. a \<in> set (mm_aliases (in_meta (snd e)))"
  have m: "(k, i) \<in> set (sm_mapping S)" by (rule entry_mem [OF e])
  show ?thesis
  proof (cases "find ?P (sm_mapping S)")
    case None
    then show ?thesis using m a by (force simp: find_None_iff aliases_of_def)
  next
    case (Some x)
    obtain k' j where x: "x = (k', j)" by force
    have "?P x" "x \<in> set (sm_mapping S)"
      using Some by (auto simp: find_Some_iff)
    then have "entry S k' = Some j" "a \<in> aliases_of j"
      by (simp_all add: x entry_in_mapping [OF om] aliases_of_def)
    then have "k' = k"
      using names_okD [OF ok e, of k' j] a by auto
    then have "j = i"
      using \<open>entry S k' = Some j\<close> e by simp
    then show ?thesis
      using None Some x by (simp add: get_meta_def)
  qed
qed

section \<open>The sections that keep the names\<close>

text \<open>An entry of afterwards has the aliases it had before, or none.\<close>

definition als :: "'p server_models \<Rightarrow> string \<Rightarrow> string list option" where
  "als S n = map_option (\<lambda>i. mm_aliases (in_meta i)) (entry S n)"

definition keeps_names :: "'p server_models \<Rightarrow> 'p server_models \<Rightarrow> bool" where
  "keeps_names S S' \<longleftrightarrow> (omap_ok (sm_mapping S) \<longrightarrow> omap_ok (sm_mapping S')) \<and> (\<forall>n as. als S' n = Some as \<longrightarrow> as = [] \<or> als S n = Some as)"

named_theorems name_frame \<open>the registry is not touched\<close>

lemma keeps_names_trans: "keeps_names S S' \<Longrightarrow> keeps_names S' S'' \<Longrightarrow> keeps_names S S''"
  by (fastforce simp: keeps_names_def)

lemma keeps_same: "sm_mapping S' = sm_mapping S \<Longrightarrow> keeps_names S S'"
  by (simp add: keeps_names_def als_def entry_def)

lemma keeps_put: "entry S n = Some i \<Longrightarrow> mm_aliases (in_meta j) = mm_aliases (in_meta i) \<Longrightarrow> keeps_names S (put n j S)"
  and keeps_put_none: "mm_aliases (in_meta j) = [] \<Longrightarrow> keeps_names S (put n j S)"
  by (simp_all add: keeps_names_def als_def)

lemma mapping_calls [name_frame]:
  "sm_mapping (call c S) = sm_mapping S" "sm_mapping (notify_sse ev n j S) = sm_mapping S"
  "sm_mapping (set_queue q S) = sm_mapping S" "sm_mapping (push_cmd cmd S) = sm_mapping S"
  by (simp_all add: call_def notify_sse_def set_queue_def push_cmd_def Let_def)

lemma mapping_stop [name_frame]: "sm_mapping (request_stop n ex S) = sm_mapping S"
  by (simp add: request_stop_def push_cmd_def split: option.split)

lemma mapping_evict [name_frame]: "sm_mapping (evict_loop k n S) = sm_mapping S"
  by (induction k n S rule: evict_loop.induct) (subst evict_loop.simps, simp add: Let_def name_frame)

lemma mapping_tick [name_frame]: "sm_mapping (tick E S) = sm_mapping S"
  by (simp add: tick_def name_frame)

lemma mapping_unload [name_frame]: "sm_mapping (unload n S) = sm_mapping S"
  by (simp add: unload_def stop_running_def Let_def name_frame split: option.split)

lemma mapping_fold: "(\<And>x T. sm_mapping (f x T) = sm_mapping T) \<Longrightarrow> sm_mapping (fold f xs S) = sm_mapping S"
  by (induction xs arbitrary: S) simp_all

lemma mapping_sections [name_frame]:
  "sm_mapping (unload_all S) = sm_mapping S" "sm_mapping (snd (remove_begin n S)) = sm_mapping S"
  "sm_mapping (snd (take_startup S)) = sm_mapping S" "sm_mapping (request_exit n S) = sm_mapping S"
  "sm_mapping (force_kill k S) = sm_mapping S" "sm_mapping (erase_child k S) = sm_mapping S"
  "sm_mapping (snd (exit_first n p S)) = sm_mapping S" "sm_mapping (snd (reload_begin E L S)) = sm_mapping S"
  "sm_mapping (kill_old X n S) = sm_mapping S"
  by (simp_all add: unload_all_def mapping_fold remove_begin_def take_startup_def request_exit_def force_kill_def erase_child_def
      exit_first_def reload_begin_def kill_old_def Let_def name_frame split: option.split)

lemma mapping_ensure [name_frame]: "sm_mapping (snd (ensure_begin E n S)) = sm_mapping S"
  by (simp add: ensure_begin_def Let_def name_frame split: option.split)

lemma mapping_leave [name_frame]: "sm_mapping (leave_queue w S) = sm_mapping S"
  by (simp add: leave_queue_def name_frame)

lemma mapping_turn: "wait_turn E stop w S = (t, w', S') \<Longrightarrow> sm_mapping S' = sm_mapping S"
  by (auto simp: wait_turn_def try_claim_def Let_def split: option.splits if_splits prod.splits bool.splits list.splits)

lemma mapping_round: "wait_round E stop w S = (r, S') \<Longrightarrow> sm_mapping S' = sm_mapping S"
  by (auto simp: wait_round_def name_frame dest: mapping_turn split: prod.splits turn.splits)

lemma mapping_claim: "claim_returned E r w S = (w', S') \<Longrightarrow> sm_mapping S' = sm_mapping S"
  by (auto simp: claim_returned_def claim_done_def name_frame)

lemma mapping_commands: "handle_commands now S = (False, S') \<Longrightarrow> sm_mapping S' = sm_mapping S"
  unfolding handle_commands_def by (drule run_commands_effect) (simp add: same_registry_def)

lemma keeps_touch: "touch E n S = (i, S') \<Longrightarrow> keeps_names S S' \<and> entry S' n = Some i \<and> (als S n = Some (mm_aliases (in_meta i)) \<or> mm_aliases (in_meta i) = [])"
  using keeps_put_none [of "instance_default E" S n]
  by (auto simp: touch_def als_def meta_default_def keeps_same split: option.splits)

lemma keeps_proxy: "keeps_names S (proxy_begin E upd now n S)" "keeps_names S (proxy_end E n S)"
proof -
  obtain i T where t: "touch E n S = (i, T)" by force
  note k = keeps_touch [OF t]
  show "keeps_names S (proxy_begin E upd now n S)"
    using keeps_names_trans [OF conjunct1 [OF k] keeps_put [OF conjunct1 [OF conjunct2 [OF k]]]] by (simp add: proxy_begin_def t Let_def)
  have "keeps_names S (tick E T)" if "keeps_names S T" for T
    using keeps_names_trans [OF that keeps_same [OF mapping_tick]] .
  moreover have "keeps_names S (put n (j\<lparr>in_req_count := c\<rparr>) S)" if "entry S n = Some j" for j c
    by (rule keeps_put [OF that]) simp
  ultimately show "keeps_names S (proxy_end E n S)"
    by (simp add: proxy_end_def Let_def keeps_same split: option.split)
qed

lemma keeps_lru: "keeps_names S (snd (lru_gone E n S))"
  using keeps_touch [of E n S] by (auto simp: lru_gone_def split: prod.split)

lemma keeps_remove: "keeps_names S (remove_end n S)"
proof -
  have "entry (S\<lparr>sm_mapping := omap_erase n (sm_mapping S)\<rparr>) k = (if k = n then None else entry S k)" for k
    by (simp add: entry_def)
  then have "keeps_names S (S\<lparr>sm_mapping := omap_erase n (sm_mapping S)\<rparr>)"
    by (simp add: keeps_names_def als_def omap_ok_erase)
  then show ?thesis
    unfolding remove_end_def by (rule keeps_names_trans) (rule keeps_same, simp add: name_frame)
qed

lemma keeps_status: "keeps_names S (update_status E n a S)"
proof (cases "entry S n")
  case (Some i)
  have "keeps_names S (put n (i\<lparr>in_meta := set_status a (in_meta i)\<rparr>) S)"
    by (rule keeps_put [OF Some]) (simp add: set_status_def)
  then show ?thesis
    by (rule keeps_names_trans) (rule keeps_same, simp add: update_status_def Some name_frame)
qed (simp add: keeps_same update_status_def name_frame)

lemma keeps_download: "keeps_names S (update_download_progress n p fin good S)"
proof (cases "entry S n")
  case (Some i)
  let ?j = "i\<lparr>in_meta := (if fin then (in_meta i)\<lparr>mm_status := Downloaded\<rparr>
    else (in_meta i)\<lparr>mm_loaded_info := add_progress p (mm_loaded_info (in_meta i))\<rparr>)\<rparr>"
  have j: "mm_aliases (in_meta ?j) = mm_aliases (in_meta i)" "sm_mapping (update_download_progress n p fin good S) = sm_mapping (put n ?j S)"
    by (simp_all add: update_download_progress_def Some Let_def name_frame put_def)
  show ?thesis
    by (rule keeps_names_trans [OF keeps_put [OF Some j(1)] keeps_same [OF j(2)]])
qed (simp add: keeps_same update_download_progress_def Let_def name_frame)

lemma keeps_child: "keeps_names S (child_state E n st payload S)" "keeps_names S (exit_second E n mode code S)"
  by (simp_all add: child_state_def exit_second_def Let_def keeps_status keeps_download keeps_same split: server_state.split)

lemma keeps_load:
  assumes "load_section E X opts n S = (r, S')" "opts = load_default \<or> opts = download_options E n"
  shows "keeps_names S S'"
proof -
  obtain m T where t: "load_target E opts n S = (m, T)" by force
  have T: "keeps_names S T" "als T n = Some (mm_aliases m) \<or> mm_aliases m = []"
    using t assms(2) keeps_touch [of E n S]
    by (auto simp: load_target_def load_default_def download_options_def meta_default_def als_def keeps_same split: prod.splits)
  have put: "keeps_names U (put n (new_instance E X opts q m) U)" if "sm_mapping U = sm_mapping T" for U q
  proof -
    have a: "mm_aliases (in_meta (new_instance E X opts q m)) = mm_aliases m" by (simp add: new_instance_def Let_def)
    show ?thesis
    proof (cases "mm_aliases m = []")
      case False
      then obtain i where "entry U n = Some i" "mm_aliases (in_meta i) = mm_aliases m"
        using T(2) \<open>sm_mapping U = sm_mapping T\<close> by (auto simp: als_def entry_def)
      then show ?thesis using a keeps_put [of U n i "new_instance E X opts q m"] by simp
    qed (simp add: a keeps_put_none)
  qed
  have same: "keeps_names S (U\<lparr>sm_next_proc := q\<rparr>)" if "keeps_names S U" for U q
    using keeps_names_trans [OF that keeps_same] by simp
  have watched: "keeps_names S (watch n q mode port U)" if "keeps_names S U" for U q mode port
    using keeps_names_trans [OF that keeps_same] by simp
  have "keeps_names S (put n (new_instance E X opts q m) U)" if "sm_mapping U = sm_mapping T" for U q
    using keeps_names_trans [OF keeps_names_trans [OF T(1) keeps_same [OF that]] put [OF that]] .
  then show ?thesis
    using assms(1) T(1) same watched by (auto simp: load_section_def t Let_def name_frame split: if_splits)
qed

section \<open>Names in every run\<close>

text \<open>
  A step in which no request makes an entry (with \<open>operator[]\<close> of the registry, or for a download) for a name
  that is an alias of another model at that time.  The end of a reload checks the names it adds itself.
\<close>

definition no_shadow :: "'p router_sys \<Rightarrow> 'p router_sys \<Rightarrow> bool" where
  "no_shadow s s' \<longleftrightarrow> length (rs_reload s') < length (rs_reload s)
     \<or> (\<forall>n. entry (rs_models s) n = None \<and> entry (rs_models s') n \<noteq> None \<longrightarrow> alias_owner n (sm_mapping (rs_models s)) = None)"

lemma keeps_names_ok:
  assumes "keeps_names S S'" "names_ok S" "\<And>n. entry S n = None \<Longrightarrow> entry S' n \<noteq> None \<Longrightarrow> alias_owner n (sm_mapping S) = None"
  shows "names_ok S'"
proof (rule names_okI)
  fix k i k' i'
  assume e: "entry S' k = Some i" "entry S' k' = Some i'" "k \<noteq> k'"
  have old: "aliases_of j = {} \<or> (\<exists>j0. entry S n = Some j0 \<and> aliases_of j0 = aliases_of j)" if "entry S' n = Some j" for n j
  proof (cases "mm_aliases (in_meta j) = []")
    case False
    have "als S' n = Some (mm_aliases (in_meta j))" using that by (simp add: als_def)
    then have "als S n = Some (mm_aliases (in_meta j))" using assms(1) False unfolding keeps_names_def by blast
    then show ?thesis by (auto simp: als_def aliases_of_def)
  qed (simp add: aliases_of_def)
  show "k' \<notin> aliases_of i \<and> aliases_of i \<inter> aliases_of i' = {}"
  proof (cases "aliases_of i = {}")
    case False
    then obtain j where j: "entry S k = Some j" "aliases_of j = aliases_of i" using old [OF e(1)] by blast
    have "k' \<notin> aliases_of i"
    proof (cases "entry S k'")
      case None
      then have "alias_owner k' (sm_mapping S) = None" using assms(3) e(2) by simp
      then show ?thesis using alias_owner_none [OF _ entry_mem [OF j(1)]] j(2) by blast
    next
      case (Some j')
      then show ?thesis using names_okD [OF assms(2) j(1) Some e(3)] j(2) by simp
    qed
    moreover have "aliases_of i \<inter> aliases_of i' = {}"
      using old [OF e(2)]
    proof
      assume "\<exists>j'. entry S k' = Some j' \<and> aliases_of j' = aliases_of i'"
      then obtain j' where "entry S k' = Some j'" "aliases_of j' = aliases_of i'" by blast
      then show ?thesis using names_okD [OF assms(2) j(1) _ e(3)] j(2) by simp
    qed simp
    ultimately show ?thesis ..
  qed simp
qed

definition names_inv :: "'p server_models \<Rightarrow> bool" where
  "names_inv S \<longleftrightarrow> omap_ok (sm_mapping S) \<and> names_ok S"

lemma omap_ok_lists:
  assumes "omap_ok (sm_mapping S)"
  shows "first_load E L S = (r, S') \<Longrightarrow> omap_ok (sm_mapping S')" "reload_end E L S = (r, S') \<Longrightarrow> omap_ok (sm_mapping S')"
proof -
  have add: "add_models E L ps T = (r', T') \<Longrightarrow> omap_ok (sm_mapping T) \<Longrightarrow> omap_ok (sm_mapping T')" for ps r' and T T' :: "'a server_models"
    using neutral_add_models [of E L ps T r' T'] by (auto simp: neutral_def)
  have app: "omap_ok (sm_mapping T) \<Longrightarrow> omap_ok (sm_mapping (apply_hidden L (apply_stop_timeout E T)))" for T :: "'a server_models"
    using neutral_trans [OF neutral_apply(1) [of T E] neutral_apply(2) [of "apply_stop_timeout E T" L]] by (simp add: neutral_def)
  have ref: "omap_ok (sm_mapping T) \<Longrightarrow> omap_ok (sm_mapping (refresh_models E L T))" for T :: "'a server_models"
    using neutral_refresh_models [of T E L] by (simp add: neutral_def)
  have er: "omap_ok (sm_mapping (erase_old L S))" using assms by (simp add: erase_old_def omap_ok_filter)
  show "first_load E L S = (r, S') \<Longrightarrow> omap_ok (sm_mapping S')"
    using assms app add [of "ml_presets L" "S\<lparr>sm_need_reload := False\<rparr>"]
    by (auto simp: first_load_def Let_def split: sum.splits prod.splits if_splits)
  show "reload_end E L S = (r, S') \<Longrightarrow> omap_ok (sm_mapping S')"
    using app add [OF _ ref [OF er]] by (auto simp: reload_end_def Let_def split: sum.splits prod.splits)
qed

lemma names_inv_keeps:
  "names_inv (rs_models s) \<Longrightarrow> no_shadow s s' \<Longrightarrow> keeps_names (rs_models s) (rs_models s') \<Longrightarrow> length (rs_reload s) \<le> length (rs_reload s') \<Longrightarrow>
   names_inv (rs_models s')"
  using keeps_names_ok [of "rs_models s" "rs_models s'"] by (auto simp: names_inv_def no_shadow_def keeps_names_def)

lemma names_inv_same: "names_inv S \<Longrightarrow> sm_mapping S' = sm_mapping S \<Longrightarrow> names_inv S'"
  by (simp add: names_inv_def names_ok_def entry_def)

lemma names_inv_step:
  assumes "router_step E s s'" "names_inv (rs_models s)" "no_shadow s s'"
  shows "names_inv (rs_models s')"
  using assms
proof (induction rule: router_step.induct)
  case (Load s X name r S')
  then show ?case using keeps_load [of E X load_default] by (intro names_inv_keeps [OF Load(3,4)]) simp_all
next
  case (Download s k name X r S')
  have "names_inv (rs_models (s\<lparr>rs_models := S', rs_checked := remove_nth k (rs_checked s)\<rparr>))"
    by (rule names_inv_keeps [OF Download(5,6)]) (use keeps_load [OF Download(4)] in simp_all)
  then show ?case by simp
next
  case (Lru_wait s name)
  then show ?case by (intro names_inv_keeps [OF Lru_wait]) (simp_all add: keeps_lru)
next
  case (Remove_end name s)
  then show ?case by (intro names_inv_keeps [OF Remove_end(2,3)]) (simp_all add: keeps_remove)
next
  case (Proxy_begin s upd now name)
  then show ?case by (intro names_inv_keeps [OF Proxy_begin]) (simp_all add: keeps_proxy)
next
  case (Proxy_end s name)
  then show ?case by (intro names_inv_keeps [OF Proxy_end]) (simp_all add: keeps_proxy)
next
  case (First_load s L r S')
  then show ?case using names_ok_first_load [OF First_load(2,1)] omap_ok_lists(1) [OF _ First_load(2)] by (simp add: names_inv_def)
next
  case (Reload_end k s L names r S')
  then show ?case using names_ok_reload_end [OF Reload_end(4)] omap_ok_lists(2) [OF _ Reload_end(4)] by (simp add: names_inv_def)
next
  case (Message s c raw st payload)
  then show ?case by (intro names_inv_keeps [OF Message(7,8)]) (simp_all add: keeps_child)
next
  case (Download_message s c raw payload)
  have "keeps_names (rs_models s) (child_state E (ch_name c) State_downloading payload (rs_models s))" by (rule keeps_child)
  then show ?case using names_inv_keeps [OF Download_message(7,8)] by simp
next
  case (Exit_recorded s k code c)
  have "keeps_names (rs_models s) (erase_child k (exit_second E (ch_name c) (ch_mode c) code (rs_models s)))"
    by (rule keeps_names_trans [OF keeps_child(2) keeps_same]) (simp add: name_frame)
  then show ?case using names_inv_keeps [OF Exit_recorded(3,4)] by simp
next
  case (Reload_begin s L names S')
  then show ?case using mapping_sections(8) [of E L "rs_models s"] by (auto intro: names_inv_same)
next
  case (Ensure name s w S')
  then show ?case using mapping_ensure [of E name "rs_models s"] by (auto intro: names_inv_same)
next
  case (Wait_goes_on k s stop w S')
  then show ?case by (auto intro: names_inv_same dest: mapping_round)
next
  case (Wait_ends k s stop e S')
  then show ?case by (auto intro: names_inv_same dest: mapping_round)
next
  case (Claim_returned k s r w S')
  then show ?case by (auto intro: names_inv_same dest: mapping_claim)
next
  case (Commands s now S')
  then show ?case by (auto intro: names_inv_same dest: mapping_commands)
next
  case (Exit_known s k c alive S' code)
  then show ?case using mapping_sections(7) [of "ch_name c" "ch_proc c" "rs_models s"] by (auto intro: names_inv_same)
next
  case (Exit_unknown s k c alive S')
  then show ?case using mapping_sections(7) [of "ch_name c" "ch_proc c" "rs_models s"] by (auto simp: name_frame intro: names_inv_same)
qed (auto simp: name_frame intro: names_inv_same)

lemma names_inv_run: "run_within no_shadow E s \<Longrightarrow> names_inv (rs_models s)"
proof (induction rule: run_within.induct)
  case Within_init
  show ?case by (simp add: names_inv_def names_ok_def sys_init_def models_init_def entry_def omap_ok_def)
qed (rule names_inv_step)

text \<open>
  Property C16. In every run of the router, with its loads, overlapping reloads whose lists say what they
  like, downloads, removals and exits, a name or alias belongs to one model only, and a request that uses the
  name of a model or one of its aliases gets that model.  This is for the runs in which no request makes an
  entry under a name that is an alias of another model at that time (\<open>no_shadow\<close>): \<open>operator[]\<close> of the registry
  does so, without a check, for a model that a reload has taken away while the request was on its way
  (\<open>late_request_shadows_alias\<close>).
\<close>

theorem names_resolve:
  assumes "run_within no_shadow E s" "entry (rs_models s) k = Some i" "a = k \<or> a \<in> aliases_of i"
  shows "get_meta a (rs_models s) = Some (in_meta i)
    \<and> (\<forall>k' i'. entry (rs_models s) k' = Some i' \<and> k' \<noteq> k \<longrightarrow> a \<noteq> k' \<and> a \<notin> aliases_of i')"
proof -
  have ok: "omap_ok (sm_mapping (rs_models s))" "names_ok (rs_models s)"
    using names_inv_run [OF assms(1)] by (simp_all add: names_inv_def)
  show ?thesis
    using name_found [OF ok assms(2,3)] names_okD [OF ok(2) assms(2)] names_okD [OF ok(2) _ assms(2)] assms(3) by blast
qed

lemma late_request_shadows_alias:
  assumes "entry S k = Some i" "a \<in> aliases_of i" "entry S a = None"
  shows "get_meta a (proxy_begin E False now a S) = Some (meta_default E)" "\<not> names_ok (proxy_begin E False now a S)"
proof -
  let ?T = "proxy_begin E False now a S"
  have T: "entry ?T a = Some ((instance_default E)\<lparr>in_req_count := 1\<rparr>)" "entry ?T k = Some i" "a \<noteq> k"
    using assms by (auto simp: proxy_begin_def touch_def Let_def instance_default_def)
  then show "get_meta a ?T = Some (meta_default E)" by (simp add: get_meta_def)
  show "\<not> names_ok ?T" using names_okD [of ?T k i a] T assms(2) by blast
qed

text \<open>Two models of which one has the alias \<open>x\<close>; the other asks for it too, and does not get it.\<close>

definition named_env :: "string router_env" where
  "named_env = \<lparr>re_get = (\<lambda>p k. if k = ''LLAMA_ARG_ALIAS'' then Some p else None), re_set = (\<lambda>_ _ p. p), re_unset = (\<lambda>_ p. p),
     re_merge = (\<lambda>p _. p), re_cascade = (\<lambda>_ ps. ps), re_same_options = (=), re_to_args = (\<lambda>_ b. [b]), re_mmproj = (\<lambda>_. None),
     re_mtmd_cap = (\<lambda>_. (False, False)), re_split = (\<lambda>s. [s]), re_strip = (\<lambda>s. s), re_truthy = (\<lambda>s. s = ''1''),
     re_resolve_path = (\<lambda>_ _. []), re_stop_timeout_key = ''t'', re_startup_key = ''s'', re_dedup_key = ''d'',
     re_empty = [], re_base = [], re_bin_path = ''x'', re_app_cmd = None, re_base_env = [], re_port = 80, re_models_max = 1,
     re_json_parse = (\<lambda>_. None)\<rparr>"

definition named_list :: "(string \<times> string) list \<Rightarrow> string model_list" where
  "named_list ps = \<lparr>ml_presets = ps, ml_sources = [], ml_hidden = []\<rparr>"

definition named_models :: "string server_models" where
  "named_models = snd (first_load named_env (named_list [(''a'', ''x''), (''b'', [])]) models_init)"

definition named_begun :: "string server_models" where
  "named_begun = snd (reload_begin named_env (named_list [(''a'', ''x''), (''b'', ''x'')]) named_models)"

definition named_reloaded :: "string server_models" where
  "named_reloaded = snd (reload_end named_env (named_list [(''a'', ''x''), (''b'', ''x'')]) named_begun)"

lemma named_run: "run_within no_shadow named_env (sys_init\<lparr>rs_models := named_reloaded\<rparr>)"
proof -
  let ?L = "named_list [(''a'', ''x''), (''b'', ''x'')]" and ?R = "run_within no_shadow named_env"
  have b: "fst (reload_begin named_env ?L named_models) = []" "sm_mapping named_models \<noteq> []" by code_simp+
  have "?R (sys_init\<lparr>rs_models := named_models\<rparr>)"
    by (rule Within_step [OF Within_init First_load [of _ _ "named_list [(''a'', ''x''), (''b'', [])]"
        "fst (first_load named_env (named_list [(''a'', ''x''), (''b'', [])]) models_init)"]])
      (simp_all add: sys_init_def models_init_def named_models_def no_shadow_def entry_def alias_owner_def)
  moreover have "router_step named_env (sys_init\<lparr>rs_models := named_models\<rparr>) (sys_init\<lparr>rs_models := named_begun, rs_reload := [(?L, [], [])]\<rparr>)"
    using Reload_begin [of "sys_init\<lparr>rs_models := named_models\<rparr>" named_env ?L "[]" named_begun] b
    by (simp add: sys_init_def named_begun_def prod_eq_iff)
  moreover have "no_shadow (sys_init\<lparr>rs_models := named_models\<rparr>) (sys_init\<lparr>rs_models := named_begun, rs_reload := [(?L, [], [])]\<rparr>)"
    by (auto simp: named_begun_def no_shadow_def entry_def name_frame)
  ultimately have "?R (sys_init\<lparr>rs_models := named_begun, rs_reload := [(?L, [], [])]\<rparr>)"
    by (rule Within_step)
  moreover have "router_step named_env (sys_init\<lparr>rs_models := named_begun, rs_reload := [(?L, [], [])]\<rparr>) (sys_init\<lparr>rs_models := named_reloaded\<rparr>)"
    using Reload_end [of 0 "sys_init\<lparr>rs_models := named_begun, rs_reload := [(?L, [], [])]\<rparr>" ?L "[]" named_env
      "fst (reload_end named_env ?L named_begun)" named_reloaded]
    by (simp add: sys_init_def named_reloaded_def reload_may_go_on_def remove_nth_def prod_eq_iff)
  moreover have "no_shadow (sys_init\<lparr>rs_models := named_begun, rs_reload := [(?L, [], [])]\<rparr>) (sys_init\<lparr>rs_models := named_reloaded\<rparr>)"
    by (simp add: no_shadow_def sys_init_def)
  ultimately show ?thesis by (rule Within_step)
qed

theorem names_resolve_witness:
  "map_option mm_name (get_meta ''x'' named_reloaded) = Some ''a'' \<and> map_option mm_name (get_meta ''b'' named_reloaded) = Some ''b''"
proof -
  have a: "map_option mm_aliases (map_option in_meta (entry named_reloaded ''a'')) = Some [''x'']"
      "map_option mm_name (map_option in_meta (entry named_reloaded ''a'')) = Some ''a''"
      "map_option mm_name (map_option in_meta (entry named_reloaded ''b'')) = Some ''b''"
    by code_simp+
  then obtain i j where ij: "entry named_reloaded ''a'' = Some i" "entry named_reloaded ''b'' = Some j"
      "aliases_of i = {''x''}" "mm_name (in_meta i) = ''a''" "mm_name (in_meta j) = ''b''"
    by (auto simp: aliases_of_def)
  have "get_meta ''x'' named_reloaded = Some (in_meta i)" "get_meta ''b'' named_reloaded = Some (in_meta j)"
    using names_resolve [OF named_run, of "''a''" i "''x''"] names_resolve [OF named_run, of "''b''" j "''b''"] ij by simp_all
  then show ?thesis using ij by simp
qed

section \<open>What the code does not mean\<close>

text \<open>Without a limit (\<open>models_max\<close> of 0) a single model marked to be loaded at the start is refused.\<close>

lemma startup_refused_without_limit:
  "fst (first_load (named_env\<lparr>re_models_max := 0, re_startup_key := ''LLAMA_ARG_ALIAS''\<rparr>) (named_list [(''a'', ''1'')]) models_init)
   = Inl (Throw ''number of models to load on startup (1) exceeds models_max (0)'')"
  by code_simp

text \<open>
  A download process that exits without a result leaves its entry as downloading, so that
  \<open>unload_all\<close>, \<open>unload\<close> and \<open>remove\<close> of that model never come to the end of their waits.
\<close>

lemma crashed_download_blocks:
  assumes "entry S n = Some i" "mm_status (in_meta i) = Downloading"
    and "exit_first n p S = (b, S1)" "S2 = exit_second E n Child_download code S1"
  shows "\<not> unload_all_over S2" "\<not> download_over n S2" "\<not> remove_may_go_on n S2"
proof -
  have m: "sm_mapping S2 = sm_mapping S"
    using assms(3,4) by (auto simp: exit_first_def exit_second_def Let_def split: option.splits)
  then have e: "entry S2 n = Some i"
    using assms(1) by (simp add: entry_def)
  show "\<not> unload_all_over S2"
    using entry_mem [OF e] assms(2) by (force simp: unload_all_over_def list_all_iff)
  show "\<not> download_over n S2" "\<not> remove_may_go_on n S2"
    by (simp_all add: download_over_def remove_may_go_on_def wait_over_def e assms(2))
qed

text \<open>
  Between the sections of \<open>on_child_exit\<close> a stop of the exiting model leaves a mark that no exit takes
  away: the next instance of the model cannot be stopped.
\<close>

lemma late_stop_mark_stays:
  assumes "exit_first n p S = (True, S1)"
  shows "n \<in> sm_stopping (request_stop n ex S1)"
    and "request_stop n ex' (request_stop n ex S1) = request_stop n ex S1"
proof -
  have "entry S1 n \<noteq> None"
    using assms by (auto simp: exit_first_def Let_def split: option.splits)
  then show m: "n \<in> sm_stopping (request_stop n ex S1)"
    by (simp add: request_stop_frame(3))
  then show "request_stop n ex' (request_stop n ex S1) = request_stop n ex S1"
    by (subst request_stop_def) (simp split: option.split)
qed

end
