(* ===== verification/Router_Routes.thy ===== *)
theory Router_Routes
  imports Router Bytes Format
begin

text \<open>
  The routes of the router (server-models.cpp, server-models.h): which child serves a conversation
  (\<open>conv_model_tracker\<close>), the handlers, and the lines of output of the children.  A handler that takes
  the lock more than once is one definition per part.  The JSON texts are left as JSON values, the
  HTTP calls on the children are answers or logged paths, and the conversation id of a request, taken
  from its headers by code outside of these sources, is a field of the request.
\<close>

section \<open>The child of a conversation\<close>

text \<open>Tickets count up from 1; 0 is none.  (In the code they have 64 bits.)\<close>

record tracker =
  tk_next :: nat
  tk_map :: "string \<Rightarrow> (string \<times> nat) option"

definition tracker_init :: tracker where
  "tracker_init = \<lparr>tk_next = 1, tk_map = (\<lambda>_. None)\<rparr>"

definition remember :: "string \<Rightarrow> string \<Rightarrow> tracker \<Rightarrow> nat \<times> tracker" where
  "remember conv model T =
     (if conv = [] \<or> model = [] then (0, T)
      else (tk_next T, T\<lparr>tk_next := tk_next T + 1, tk_map := (tk_map T)(conv := Some (model, tk_next T))\<rparr>))"

definition alive :: "string \<Rightarrow> nat \<Rightarrow> tracker \<Rightarrow> bool" where
  "alive conv ticket T = (case tk_map T conv of Some (_, t) \<Rightarrow> t = ticket | None \<Rightarrow> False)"

definition lookup_conv :: "string \<Rightarrow> tracker \<Rightarrow> string option" where
  "lookup_conv conv T = (if conv = [] then None else map_option fst (tk_map T conv))"

definition forget :: "string \<Rightarrow> tracker \<Rightarrow> tracker" where
  "forget conv T = (if conv = [] then T else T\<lparr>tk_map := (tk_map T)(conv := None)\<rparr>)"

section \<open>Requests and answers\<close>

record route_req =
  rq_param :: "string \<Rightarrow> string"
  rq_body :: string
  rq_conv :: string

record route_res =
  rt_status :: int
  rt_json :: json

definition route_ok :: "json \<Rightarrow> route_res" where
  "route_ok j = \<lparr>rt_status = 200, rt_json = j\<rparr>"

definition route_err :: "json \<Rightarrow> route_res" where
  "route_err e = \<lparr>rt_status = json_value get_int e ''code'' 500, rt_json = JObj [(''error'', e)]\<rparr>"

definition invalid_request :: "string \<Rightarrow> route_res" where
  "invalid_request m = route_err (format_error_response m ERROR_INVALID_REQUEST)"

definition success :: route_res where
  "success = route_ok (JObj [(''success'', JBool True)])"

definition parse_body :: "'p router_env \<Rightarrow> route_req \<Rightarrow> json result" where
  "parse_body E req = (case re_json_parse E (rq_body req) of Some j \<Rightarrow> Inr j | None \<Rightarrow> Inl (Throw ''parse_error''))"

text \<open>\<open>Inr\<close> is the name of the model, aliases resolved.\<close>

definition router_validate_model :: "string \<Rightarrow> bool \<Rightarrow> 'p server_models \<Rightarrow> route_res + string" where
  "router_validate_model name autoload S =
     (if name = [] then Inl (invalid_request ''model name is missing from the request'')
      else case get_meta name S of
             None \<Rightarrow> Inl (invalid_request (''model '' @ in_quotes name @ '' not found''))
           | Some m \<Rightarrow>
               if \<not> autoload \<and> \<not> is_running m then Inl (invalid_request ''model is not loaded'')
               else Inr (mm_name m))"

definition is_autoload :: "bool \<Rightarrow> route_req \<Rightarrow> bool" where
  "is_autoload dflt req =
     (let a = rq_param req ''autoload'' in if a = [] then dflt else a = ''true'' \<or> a = ''1'')"

definition resolve_child_for_conv :: "tracker \<Rightarrow> 'p server_models \<Rightarrow> string \<Rightarrow> 'p server_model_meta option" where
  "resolve_child_for_conv T S conv =
     (if conv = [] then None
      else case lookup_conv conv T of
             None \<Rightarrow> None
           | Some name \<Rightarrow>
               (case get_meta name S of
                  Some m \<Rightarrow> if is_ready m then Some m else None
                | None \<Rightarrow> None))"

section \<open>Forwarding a request\<close>

text \<open>
  The first part of \<open>proxy_post\<close>: the model, the ticket of the conversation, and whether the wait for
  the model may be given up when the client is gone.  \<open>proxy_get\<close> has no conversation.
\<close>

record post_start =
  ps_name :: string
  ps_conv :: string
  ps_ticket :: nat
  ps_autoload :: bool
  ps_client_stops :: bool

definition proxy_post_begin ::
    "'p router_env \<Rightarrow> bool \<Rightarrow> route_req \<Rightarrow> 'p server_models \<Rightarrow> tracker \<Rightarrow> (route_res + post_start) result \<times> tracker" where
  "proxy_post_begin E dflt req S T =
     (case parse_body E req of
        Inl e \<Rightarrow> (Inl e, T)
      | Inr body \<Rightarrow>
          (let autoload = is_autoload dflt req
           in case router_validate_model (json_value get_str body ''model'' []) autoload S of
                Inl r \<Rightarrow> (Inr (Inl r), T)
              | Inr name \<Rightarrow>
                  (let (ticket, T) = remember (rq_conv req) name T
                   in (Inr (Inr \<lparr>ps_name = name, ps_conv = rq_conv req, ps_ticket = ticket, ps_autoload = autoload,
                                 ps_client_stops = (ticket = 0)\<rparr>), T))))"

text \<open>
  After the wait, whose answer (or exception) is \<open>ready\<close>: an error, or the model to proxy to and
  whether the request is detached from the client.
\<close>

definition proxy_post_end :: "post_start \<Rightarrow> bool result \<Rightarrow> tracker \<Rightarrow> (route_res + string \<times> bool) result" where
  "proxy_post_end p ready T =
     (let waited = (if ps_autoload p then ready else Inr False)
      in rbind waited (\<lambda>w.
           if ps_ticket p \<noteq> 0 \<and> \<not> alive (ps_conv p) (ps_ticket p) T then
             Inr (Inl (invalid_request ''request cancelled by a stop while the model was loading''))
           else Inr (Inr (ps_name p, w \<and> ps_ticket p \<noteq> 0))))"

definition proxy_get_begin :: "bool \<Rightarrow> route_req \<Rightarrow> 'p server_models \<Rightarrow> route_res + string" where
  "proxy_get_begin dflt req S = router_validate_model (rq_param req ''model'') (is_autoload dflt req) S"

section \<open>The other handlers\<close>

definition get_router_props :: "int \<Rightarrow> bool \<Rightarrow> json \<Rightarrow> string \<Rightarrow> bool \<Rightarrow> route_res" where
  "get_router_props models_max autoload ui_settings build_info cors =
     route_ok (JObj [(''role'', JStr ''router''), (''max_instances'', JInt models_max), (''models_autoload'', JBool autoload),
       (''model_alias'', JStr ''llama-server''), (''model_path'', JStr ''none''),
       (''default_generation_settings'', JObj [(''params'', JNull), (''n_ctx'', JInt 0)]),
       (''ui_settings'', ui_settings), (''build_info'', JStr build_info), (''cors_proxy_enabled'', JBool cors)])"

text \<open>\<open>Inr\<close> is the model to load, or to unload.\<close>

definition models_load :: "'p router_env \<Rightarrow> route_req \<Rightarrow> 'p server_models \<Rightarrow> (route_res + string) result" where
  "models_load E req S =
     rbind (parse_body E req) (\<lambda>body.
       case get_meta (json_value get_str body ''model'' []) S of
         None \<Rightarrow> Inr (Inl (route_err (format_error_response ''model is not found'' ERROR_NOT_FOUND)))
       | Some m \<Rightarrow> if is_running m then Inr (Inl (invalid_request ''model is already running'')) else Inr (Inr (mm_name m)))"

definition models_unload :: "'p router_env \<Rightarrow> route_req \<Rightarrow> 'p server_models \<Rightarrow> route_res result \<times> 'p server_models" where
  "models_unload E req S =
     (case parse_body E req of
        Inl e \<Rightarrow> (Inl e, S)
      | Inr body \<Rightarrow>
          (case get_meta (json_value get_str body ''model'' []) S of
             None \<Rightarrow> (Inr (invalid_request ''model is not found''), S)
           | Some m \<Rightarrow>
               if \<not> is_running m \<and> mm_status m \<noteq> Downloading then (Inr (invalid_request ''model is not running''), S)
               else (Inr success, unload (mm_name m) S)))"

text \<open>
  The start of a download, after the metadata of the model could be fetched (\<open>valid\<close>): the name and
  the options of the \<open>load\<close> that follows.
\<close>

definition models_download :: "'p router_env \<Rightarrow> route_req \<Rightarrow> unit result \<Rightarrow> 'p server_models \<Rightarrow> (string \<times> 'p load_options) result" where
  "models_download E req valid S =
     rbind (parse_body E req) (\<lambda>body.
       let name = json_value get_str body ''model'' []
       in if name = [] then Inl (Throw ''model must be a non-empty string'')
          else rbind valid (\<lambda>_.
            if has_model name S then Inl (Throw (''model '' @ in_quotes name @ '' already exists''))
            else Inr (name, \<lparr>lo_mode = Child_download,
                             lo_custom_meta = Some ((meta_default E)\<lparr>mm_source := Source_cache, mm_name := name\<rparr>)\<rparr>)))"

definition models_delete :: "route_req \<Rightarrow> 'p server_models \<Rightarrow> unit result \<times> 'p server_models" where
  "models_delete req S =
     (let name = rq_param req ''model''
      in if name = [] then (Inl (Throw ''model must be a non-empty string''), S) else remove_begin name S)"

text \<open>The list of models; \<open>ini\<close> prints a preset and \<open>pname\<close> is its name.\<close>

definition status_json :: "'p router_env \<Rightarrow> ('p \<Rightarrow> string) \<Rightarrow> ('p \<Rightarrow> string) \<Rightarrow> 'p server_model_meta \<Rightarrow> json" where
  "status_json E pname ini m =
     (let st = JObj [(''value'', JStr (server_model_status_to_string (mm_status m))), (''args'', jstrs (mm_args m))];
          st = (if pname (mm_preset m) \<noteq> [] then
              jset ''preset'' (JStr (ini (fold (re_unset E)
                [''LLAMA_ARG_HOST'', ''LLAMA_ARG_PORT'', ''LLAMA_ARG_ALIAS'', ''LLAMA_ARG_TAGS'']
                (unset_reserved_args E False (mm_preset m))))) st
            else st)
      in if is_failed m then jset ''failed'' (JBool True) (jset ''exit_code'' (JInt (mm_exit_code m)) st) else st)"

definition merge_info :: "json \<Rightarrow> json \<Rightarrow> json result" where
  "merge_info info j =
     (case info of
        JNull \<Rightarrow> Inr j
      | JArr [] \<Rightarrow> Inr j
      | JObj ms \<Rightarrow> Inr (fold (\<lambda>(k, v) j. if jcontains k j then j else jset k v j) ms j)
      | _ \<Rightarrow> Inl (Throw ''cannot use key() for non-object iterators''))"

definition model_json :: "'p router_env \<Rightarrow> ('p \<Rightarrow> string) \<Rightarrow> ('p \<Rightarrow> string) \<Rightarrow> int \<Rightarrow> 'p server_model_meta \<Rightarrow> json result" where
  "model_json E pname ini t m =
     (let inputs = [''text''] @ (if fst (mm_multimodal m) then [''image''] else []) @ (if snd (mm_multimodal m) then [''audio''] else []);
          j = JObj [(''id'', JStr (mm_name m)), (''aliases'', jstrs (mm_aliases m)), (''tags'', jstrs (mm_tags m)),
                (''object'', JStr ''model''), (''owned_by'', JStr ''llamacpp''), (''created'', JInt t),
                (''status'', status_json E pname ini m),
                (''architecture'', JObj [(''input_modalities'', jstrs inputs), (''output_modalities'', jstrs [''text''])]),
                (''source'', JStr (server_model_source_to_string (mm_source m))),
                (''can_remove'', JBool (mm_source m = Source_cache))]
      in if is_running m then merge_info (mm_loaded_info m) j else Inr j)"

fun map_results :: "('a \<Rightarrow> 'b result) \<Rightarrow> 'a list \<Rightarrow> 'b list result" where
  "map_results f [] = Inr []"
| "map_results f (x # xs) = rbind (f x) (\<lambda>y. rbind (map_results f xs) (\<lambda>ys. Inr (y # ys)))"

definition get_router_models :: "'p router_env \<Rightarrow> ('p \<Rightarrow> string) \<Rightarrow> ('p \<Rightarrow> string) \<Rightarrow> int \<Rightarrow> 'p server_models \<Rightarrow> route_res result" where
  "get_router_models E pname ini t S =
     rbind (map_results (model_json E pname ini t) (filter (\<lambda>m. \<not> mm_hidden m) (get_all_meta S))) (\<lambda>ms.
       Inr (route_ok (JObj [(''data'', JArr ms), (''object'', JStr ''list'')])))"

text \<open>
  The event stream of the models: each element is the answer of one timed receive and whether the
  client or the server stops; \<open>None\<close> ends the stream.
\<close>

fun sse_next :: "(json result_msg option \<times> bool) list \<Rightarrow> json result_msg option" where
  "sse_next [] = None"
| "sse_next ((Some m, _) # rs) = Some m"
| "sse_next ((None, stop) # rs) = (if stop then None else sse_next rs)"

section \<open>The resumable streams\<close>

datatype stream_get = Stream_error route_res | Stream_child int string

definition stream_path :: "string \<Rightarrow> string" where
  "stream_path conv = ''/v1/stream?conv_id='' @ encode_qs conv"

definition is_transient :: "'p server_model_meta \<Rightarrow> bool" where
  "is_transient m = (mm_status m = Loading \<or> mm_status m = Downloading \<or> mm_status m = Downloaded)"

definition router_stream_get :: "route_req \<Rightarrow> tracker \<Rightarrow> 'p server_models \<Rightarrow> stream_get" where
  "router_stream_get req T S =
     (let conv = rq_param req ''conv_id''
      in if conv = [] then Stream_error (invalid_request ''Missing conversation id in path'')
         else case resolve_child_for_conv T S conv of
           None \<Rightarrow>
             (case lookup_conv conv T of
                None \<Rightarrow> Stream_error (route_err (format_error_response ''Stream not found or expired'' ERROR_NOT_FOUND))
              | Some name \<Rightarrow>
                  (if (case get_meta name S of Some m \<Rightarrow> is_transient m | None \<Rightarrow> False) then
                     Stream_error (route_err (format_error_response ''Stream owner model is loading, retry later'' ERROR_UNAVAILABLE))
                   else Stream_error (route_err (format_error_response ''Stream not found or expired'' ERROR_NOT_FOUND))))
         | Some m \<Rightarrow>
             (let f = rq_param req ''from''
              in Stream_child (mm_port m) (stream_path conv @ (if f \<noteq> [] then ''&from='' @ f else []))))"

text \<open>The ids of a lookup, by the port of the child that owns them.\<close>

definition requested_ids :: "json \<Rightarrow> string list" where
  "requested_ids body =
     (case jfind ''conversation_ids'' body of
        Some (JArr vs) \<Rightarrow> List.map_filter (\<lambda>v. case v of JStr s \<Rightarrow> if s \<noteq> [] then Some s else None | _ \<Rightarrow> None) vs
      | _ \<Rightarrow> [])"

fun add_id :: "int \<Rightarrow> string \<Rightarrow> (int \<times> string list) list \<Rightarrow> (int \<times> string list) list" where
  "add_id port c [] = [(port, [c])]"
| "add_id port c ((p, cs) # gs) = (if p = port then (p, cs @ [c]) # gs else (p, cs) # add_id port c gs)"

definition group_ids :: "tracker \<Rightarrow> 'p server_models \<Rightarrow> string list \<Rightarrow> (int \<times> string list) list" where
  "group_ids T S cs =
     fold (\<lambda>c gs. case resolve_child_for_conv T S c of None \<Rightarrow> gs | Some m \<Rightarrow> add_id (mm_port m) c gs) cs []"

text \<open>
  \<open>ask\<close> is the parsed answer of a child, \<open>None\<close> when it fails.  The order of the children is that of a
  hash table in the code and the order of their first id here.
\<close>

definition entries_of :: "json option \<Rightarrow> json list" where
  "entries_of r = (case r of Some (JArr vs) \<Rightarrow> filter (\<lambda>v. case v of JObj _ \<Rightarrow> True | _ \<Rightarrow> False) vs | _ \<Rightarrow> [])"

definition router_streams_lookup ::
    "'p router_env \<Rightarrow> route_req \<Rightarrow> (int \<Rightarrow> string list \<Rightarrow> json option) \<Rightarrow> tracker \<Rightarrow> 'p server_models \<Rightarrow> route_res" where
  "router_streams_lookup E req ask T S =
     (case re_json_parse E (rq_body req) of
        None \<Rightarrow> route_ok (JArr [])
      | Some body \<Rightarrow>
          route_ok (JArr (concat (map (\<lambda>(port, ids). entries_of (ask port ids)) (group_ids T S (requested_ids body))))))"

text \<open>The answer, the call on the child if any, and the tracker without the conversation.\<close>

definition router_stream_delete :: "route_req \<Rightarrow> tracker \<Rightarrow> 'p server_models \<Rightarrow> route_res \<times> (int \<times> string) option \<times> tracker" where
  "router_stream_delete req T S =
     (let conv = rq_param req ''conv_id''
      in if conv = [] then (invalid_request ''Missing conversation id in path'', None, T)
         else (\<lparr>rt_status = 204, rt_json = JNull\<rparr>,
               map_option (\<lambda>m. (mm_port m, stream_path conv)) (resolve_child_for_conv T S conv),
               forget conv T))"

section \<open>A stop cancels the request it means\<close>

datatype conv_op = Op_remember string string | Op_forget string

fun conv_step :: "conv_op \<Rightarrow> tracker \<Rightarrow> tracker" where
  "conv_step (Op_remember c m) T = snd (remember c m T)"
| "conv_step (Op_forget c) T = forget c T"

definition run_conv :: "conv_op list \<Rightarrow> tracker \<Rightarrow> tracker" where
  "run_conv ops T = fold conv_step ops T"

text \<open>A stop of the conversation, or a newer request of it.\<close>

fun supersedes :: "string \<Rightarrow> conv_op \<Rightarrow> bool" where
  "supersedes c (Op_remember c' m) = (c' = c \<and> m \<noteq> [])"
| "supersedes c (Op_forget c') = (c' = c)"

definition tracker_ok :: "tracker \<Rightarrow> bool" where
  "tracker_ok T \<longleftrightarrow> 0 < tk_next T \<and> (\<forall>c m t. tk_map T c = Some (m, t) \<longrightarrow> t < tk_next T)"

lemma tracker_ok_init: "tracker_ok tracker_init"
  by (simp add: tracker_ok_def tracker_init_def)

lemma tracker_ok_step: "tracker_ok T \<Longrightarrow> tracker_ok (conv_step op T)"
  by (cases op) (auto simp: tracker_ok_def remember_def forget_def intro: less_SucI)

lemma tracker_ok_run: "tracker_ok T \<Longrightarrow> tracker_ok (run_conv ops T)"
  unfolding run_conv_def by (induction ops arbitrary: T) (simp_all add: tracker_ok_step)

lemma next_step: "tk_next T \<le> tk_next (conv_step op T)"
  by (cases op) (simp_all add: remember_def forget_def)

lemma alive_step:
  assumes "tracker_ok T" "t < tk_next T" "c \<noteq> []"
  shows "alive c t (conv_step op T) \<longleftrightarrow> alive c t T \<and> \<not> supersedes c op"
  using assms by (cases op) (auto simp: alive_def remember_def forget_def tracker_ok_def split: option.split)

lemma alive_run:
  assumes "tracker_ok T" "t < tk_next T" "c \<noteq> []"
  shows "alive c t (run_conv ops T) \<longleftrightarrow> alive c t T \<and> list_all (\<lambda>op. \<not> supersedes c op) ops"
  using assms unfolding run_conv_def
proof (induction ops arbitrary: T)
  case (Cons op ops)
  have "tracker_ok (conv_step op T)" "t < tk_next (conv_step op T)"
    using Cons.prems tracker_ok_step next_step less_le_trans by blast+
  then show ?case
    using Cons.IH Cons.prems(3) alive_step [OF Cons.prems] by auto
qed simp

lemma remember_alive:
  assumes "remember c m T = (t, T')" "tracker_ok T" "c \<noteq> []" "m \<noteq> []"
  shows "t \<noteq> 0" "alive c t T'" "tracker_ok T'" "t < tk_next T'"
  using assms tracker_ok_step [OF assms(2), of "Op_remember c m"] by (auto simp: remember_def alive_def tracker_ok_def)

lemma proxy_post_begin_ticket:
  assumes "proxy_post_begin E dflt req S T = (Inr (Inr p), T')"
  shows "remember (rq_conv req) (ps_name p) T = (ps_ticket p, T') \<and> ps_conv p = rq_conv req \<and> ps_client_stops p = (ps_ticket p = 0)"
  using assms by (auto simp: proxy_post_begin_def Let_def split: sum.splits prod.splits)

text \<open>
  Property C17. A request that carries a conversation id and waits for its model is cancelled exactly
  when, during the wait, the conversation was stopped or a newer request of it came; otherwise it goes
  to its model once that is ready, detached from the client if it had to wait.  What happens to
  other conversations does not matter, and neither does a client that goes away.
\<close>

theorem stop_cancels_waiting_request:
  assumes "proxy_post_begin E dflt req S (run_conv before tracker_init) = (Inr (Inr p), T)"
    and "rq_conv req \<noteq> []" "ps_name p \<noteq> []"
  shows "\<not> ps_client_stops p
    \<and> proxy_post_end p (Inr w) (run_conv during T) =
      (if list_ex (supersedes (rq_conv req)) during
       then Inr (Inl (invalid_request ''request cancelled by a stop while the model was loading''))
       else Inr (Inr (ps_name p, ps_autoload p \<and> w)))"
proof (intro conjI)
  note b = proxy_post_begin_ticket [OF assms(1)]
  note r = remember_alive [OF conjunct1 [OF b] tracker_ok_run [OF tracker_ok_init] assms(2,3)]
  show "\<not> ps_client_stops p" using b r(1) by simp
  have "alive (rq_conv req) (ps_ticket p) (run_conv during T) \<longleftrightarrow> \<not> list_ex (supersedes (rq_conv req)) during"
    using alive_run [OF r(3,4) assms(2)] r(2) by (auto simp: list_all_iff list_ex_iff)
  then show "proxy_post_end p (Inr w) (run_conv during T) =
      (if list_ex (supersedes (rq_conv req)) during
       then Inr (Inl (invalid_request ''request cancelled by a stop while the model was loading''))
       else Inr (Inr (ps_name p, ps_autoload p \<and> w)))"
    using b r(1) by (simp add: proxy_post_end_def)
qed

text \<open>A request of conversation \<open>u\<close> for the model \<open>a\<close>, which another one may stop.\<close>

definition route_env :: "unit router_env" where
  "route_env = \<lparr>re_get = (\<lambda>_ _. None), re_set = (\<lambda>_ _ p. p), re_unset = (\<lambda>_ p. p), re_merge = (\<lambda>p _. p),
     re_cascade = (\<lambda>_ ps. ps), re_same_options = (=), re_to_args = (\<lambda>_ b. [b]), re_mmproj = (\<lambda>_. None),
     re_mtmd_cap = (\<lambda>_. (False, False)), re_split = (\<lambda>s. [s]), re_strip = (\<lambda>s. s), re_truthy = (\<lambda>s. s = ''1''),
     re_resolve_path = (\<lambda>_ _. []), re_stop_timeout_key = ''t'', re_startup_key = ''s'', re_dedup_key = ''d'',
     re_empty = (), re_base = (), re_bin_path = ''x'', re_app_cmd = None, re_base_env = [], re_port = 80, re_models_max = 1,
     re_json_parse = (\<lambda>_. Some (JObj [(''model'', JStr ''a'')]))\<rparr>"

definition route_models :: "unit server_models" where
  "route_models = put ''a'' ((instance_default route_env)\<lparr>in_meta := (meta_default route_env)\<lparr>mm_name := ''a''\<rparr>\<rparr>) models_init"

definition route_request :: route_req where
  "route_request = \<lparr>rq_param = (\<lambda>_. []), rq_body = [], rq_conv = ''u''\<rparr>"

theorem stop_cancels_waiting_request_witness:
  "\<exists>p T. proxy_post_begin route_env True route_request route_models (run_conv [] tracker_init) = (Inr (Inr p), T)
     \<and> proxy_post_end p (Inr True) (run_conv [Op_forget ''v''] T) = Inr (Inr (''a'', True))
     \<and> proxy_post_end p (Inr True) (run_conv [Op_forget ''v'', Op_forget ''u''] T)
         = Inr (Inl (invalid_request ''request cancelled by a stop while the model was loading''))"
proof -
  let ?b = "proxy_post_begin route_env True route_request route_models (run_conv [] tracker_init)"
  let ?p = "\<lparr>ps_name = ''a'', ps_conv = ''u'', ps_ticket = 1, ps_autoload = True, ps_client_stops = False\<rparr>"
  have "map_option mm_name (get_meta ''a'' route_models) = Some ''a''" by code_simp
  then obtain m where m: "get_meta ''a'' route_models = Some m" "mm_name m = ''a''" by auto
  have b: "?b = (Inr (Inr ?p), snd ?b)"
    by (simp add: proxy_post_begin_def parse_body_def route_env_def route_request_def is_autoload_def router_validate_model_def
        m json_value_def remember_def run_conv_def tracker_init_def)
  have h: "rq_conv route_request \<noteq> []" "ps_name ?p \<noteq> []"
    by (simp_all add: route_request_def)
  show ?thesis
    using b stop_cancels_waiting_request [OF b h, of True "[Op_forget ''v'']"]
      stop_cancels_waiting_request [OF b h, of True "[Op_forget ''v'', Op_forget ''u'']"]
    by (intro exI [of _ ?p] exI [of _ "snd ?b"]) (simp add: route_request_def)
qed

section \<open>The lines of a child\<close>

text \<open>No line that is still open grows beyond the limit of the buffer.\<close>

fun fits :: "string \<Rightarrow> string list \<Rightarrow> bool" where
  "fits buf [] = True"
| "fits buf (s # ss) = (let rest = snd (take_lines [] (buf @ s)) in length rest \<le> max_line \<and> fits rest ss)"

text \<open>
  What it means that a list is the lines of a text: put together they are the text, none is empty, every
  line ends at its only newline, but the last may have none.
\<close>

definition splits_into_lines :: "string \<Rightarrow> string list \<Rightarrow> bool" where
  "splits_into_lines s ls \<longleftrightarrow> concat ls = s \<and> (\<forall>x \<in> set ls. x \<noteq> [] \<and> newline \<notin> set (butlast x))
     \<and> (\<forall>x \<in> set (butlast ls). last x = newline)"

text \<open>No stretch of a text without a newline is longer than the buffer of the router.\<close>

definition short_lines :: "string \<Rightarrow> bool" where
  "short_lines s \<longleftrightarrow> (\<forall>a x b. s = a @ x @ b \<and> newline \<notin> set x \<longrightarrow> length x \<le> max_line)"

text \<open>
  The calls of \<open>read_output\<close> for one child, one per round of the monitor, and what the reads of such a
  call answer that finds some bytes and then nothing more for now.
\<close>

fun read_calls :: "read_t list list \<Rightarrow> child_t \<Rightarrow> string list \<times> child_t" where
  "read_calls [] c = ([], c)"
| "read_calls (rs # rss) c = (let (ls, c) = read_output rs c; (ls', c) = read_calls rss c in (ls @ ls', c))"

definition for_now :: "string list \<Rightarrow> read_t list" where
  "for_now ss = map Read_bytes ss @ [Read_nothing]"

definition until_closed :: "string list \<Rightarrow> read_t list" where
  "until_closed ss = map Read_bytes ss @ [Read_closed]"

lemma take_lines_append:
  "take_lines l (s @ t) = (let (ls, r) = take_lines l s; (ls', r') = take_lines r t in (ls @ ls', r'))"
  by (induction l s rule: take_lines.induct) (auto simp: Let_def split: prod.splits)

lemma take_lines_open: "newline \<notin> set s \<Longrightarrow> take_lines l s = ([], l @ s)"
  by (induction l s rule: take_lines.induct) auto

lemma take_lines_rest: "take_lines l s = (ls, r) \<Longrightarrow> newline \<notin> set l \<Longrightarrow> newline \<notin> set r"
  by (induction l s arbitrary: ls r rule: take_lines.induct) (auto split: if_splits prod.splits)

lemma take_lines_concat: "take_lines l s = (ls, r) \<Longrightarrow> concat ls @ r = l @ s"
  by (induction l s arbitrary: ls r rule: take_lines.induct) (auto split: if_splits prod.splits)

lemma take_lines_ends: "take_lines l s = (ls, r) \<Longrightarrow> x \<in> set ls \<Longrightarrow> newline \<notin> set l \<Longrightarrow> \<exists>y. x = y @ [newline] \<and> newline \<notin> set y"
  by (induction l s arbitrary: ls r rule: take_lines.induct) (auto split: if_splits prod.splits)

text \<open>A text already split goes on where it was cut.\<close>

lemma take_lines_cut:
  "take_lines [] s = (ls, r) \<Longrightarrow> take_lines [] (s @ t) = (ls @ fst (take_lines [] (r @ t)), snd (take_lines [] (r @ t)))"
  using take_lines_append [of "[]" s t] take_lines_append [of "[]" r t] take_lines_open [OF take_lines_rest, of "[]" s ls r "[]"]
  by (simp add: Let_def case_prod_beta)

lemma read_loop_chunks:
  assumes "newline \<notin> set (ch_buf c)" "fits (ch_buf c) ss"
  shows "read_loop (map Read_bytes ss @ rs) c =
    (let (ls, rest) = take_lines [] (ch_buf c @ concat ss); (ls', c') = read_loop rs (c\<lparr>ch_buf := rest\<rparr>) in (ls @ ls', c'))"
  using assms
proof (induction ss arbitrary: c)
  case Nil
  then show ?case by (simp add: take_lines_open case_prod_beta)
next
  case (Cons s ss)
  obtain ls r where t: "take_lines [] (ch_buf c @ s) = (ls, r)" by force
  have r: "newline \<notin> set r" "fits r ss" "length r \<le> max_line"
    using take_lines_rest [OF t] Cons.prems(2) by (simp_all add: t Let_def)
  have "read_loop (map Read_bytes ss @ rs) (c\<lparr>ch_buf := r\<rparr>) =
    (let (ls, rest) = take_lines [] (r @ concat ss); (ls', c') = read_loop rs (c\<lparr>ch_buf := rest\<rparr>) in (ls @ ls', c'))"
    using Cons.IH [of "c\<lparr>ch_buf := r\<rparr>"] r by simp
  then show ?case
    using r(3) take_lines_cut [OF t, of "concat ss"] by (simp add: t Let_def case_prod_beta)
qed

lemma short_linesD: "short_lines (a @ x @ b) \<Longrightarrow> newline \<notin> set x \<Longrightarrow> length x \<le> max_line"
  unfolding short_lines_def by blast

lemma short_lines_drop: "short_lines (a @ b) \<Longrightarrow> short_lines b"
  unfolding short_lines_def by (metis append.assoc)

lemma fits_short:
  assumes "newline \<notin> set b" "short_lines (b @ concat ss @ e)"
  shows "fits b ss"
  using assms
proof (induction ss arbitrary: b)
  case (Cons s ss)
  obtain ls r where t: "take_lines [] (b @ s) = (ls, r)" by force
  have r: "newline \<notin> set r" using take_lines_rest [OF t] by simp
  have "b @ concat (s # ss) @ e = concat ls @ r @ concat ss @ e"
    using arg_cong [OF take_lines_concat [OF t], of "\<lambda>x. x @ concat ss @ e"] by simp
  then have s: "short_lines (concat ls @ r @ concat ss @ e)"
    using Cons.prems(2) by (rule subst)
  then show ?case
    using Cons.IH [OF r short_lines_drop [OF s]] short_linesD [OF s r] by (simp add: t Let_def)
qed simp

lemma read_loop_for_now:
  assumes "newline \<notin> set (ch_buf c)" "fits (ch_buf c) ss" "\<not> ch_eof c" "take_lines [] (ch_buf c @ concat ss) = (ls, r)"
  shows "read_output (for_now ss) c = (ls, c\<lparr>ch_buf := r\<rparr>)"
  using read_loop_chunks [OF assms(1,2), of "[Read_nothing]"] assms(3,4) by (simp add: read_output_def for_now_def)

lemma read_loop_until_closed:
  assumes "newline \<notin> set (ch_buf c)" "fits (ch_buf c) ss" "\<not> ch_eof c" "take_lines [] (ch_buf c @ concat ss) = (ls, r)"
  shows "read_output (until_closed ss) c = (if r = [] then ls else ls @ [r], c\<lparr>ch_eof := True, ch_buf := []\<rparr>)"
  using read_loop_chunks [OF assms(1,2), of "[Read_closed]"] assms(3,4) by (cases c) (simp add: read_output_def until_closed_def)

text \<open>The lines of all the calls together are those of the whole text.\<close>

lemma read_calls_lines:
  assumes "newline \<notin> set (ch_buf c)" "short_lines (ch_buf c @ concat (map concat sss) @ concat ss)" "\<not> ch_eof c"
    "take_lines [] (ch_buf c @ concat (map concat sss) @ concat ss) = (ls, r)"
  shows "read_calls (map for_now sss @ [until_closed ss]) c
    = (if r = [] then ls else ls @ [r], c\<lparr>ch_eof := True, ch_buf := []\<rparr>)"
  using assms
proof (induction sss arbitrary: c ls)
  case Nil
  then show ?case
    using fits_short [of "ch_buf c" ss "[]"] read_loop_until_closed [of c ss ls r] by simp
next
  case (Cons s sss)
  obtain ls1 r1 where t: "take_lines [] (ch_buf c @ concat s) = (ls1, r1)" by force
  let ?rest = "concat (map concat sss) @ concat ss"
  obtain ls2 r2 where t2: "take_lines [] (r1 @ ?rest) = (ls2, r2)" by force
  have l: "ls = ls1 @ ls2" "r = r2"
    using take_lines_cut [OF t, of ?rest] t2 Cons.prems(4) by simp_all
  have r1: "newline \<notin> set r1" using take_lines_rest [OF t] by simp
  have e: "ch_buf c @ concat (map concat (s # sss)) @ concat ss = concat ls1 @ r1 @ ?rest"
    using arg_cong [OF take_lines_concat [OF t], of "\<lambda>x. x @ ?rest"] by simp
  have "fits (ch_buf c) s"
    using fits_short [of "ch_buf c" s ?rest] Cons.prems(1,2) by simp
  then have "read_output (for_now s) c = (ls1, c\<lparr>ch_buf := r1\<rparr>)"
    using read_loop_for_now [OF Cons.prems(1) _ Cons.prems(3) t] by simp
  moreover have "read_calls (map for_now sss @ [until_closed ss]) (c\<lparr>ch_buf := r1\<rparr>)
      = (if r2 = [] then ls2 else ls2 @ [r2], c\<lparr>ch_eof := True, ch_buf := []\<rparr>)"
    using Cons.IH [of "c\<lparr>ch_buf := r1\<rparr>" ls2] r1 short_lines_drop [of "concat ls1" "r1 @ ?rest"] Cons.prems(2,3) t2 l(2)
    unfolding e by simp
  ultimately show ?case by (simp add: l)
qed

lemma take_lines_splits:
  assumes "take_lines [] s = (ls, r)"
  shows "splits_into_lines s (if r = [] then ls else ls @ [r])"
proof -
  have "x \<noteq> [] \<and> newline \<notin> set (butlast x) \<and> last x = newline" if "x \<in> set ls" for x
    using take_lines_ends [OF assms that] by auto
  moreover have "newline \<notin> set (butlast r)"
    using take_lines_rest [OF assms] in_set_butlastD by fastforce
  ultimately show ?thesis
    using take_lines_concat [OF assms] by (auto simp: splits_into_lines_def dest: in_set_butlastD)
qed

text \<open>
  Property C18. However the pipe cuts the output of a child into reads, and these into calls of
  \<open>read_output\<close> over the rounds of the monitor, the router sees the same lines until the child closes its
  output: those of the whole text, in order and complete, each up to its newline, and a last one
  without a newline; nothing stays behind in the buffer.  No line of the text may be longer than the
  buffer of 1 MiB: the router drops what it holds of such a line at the end of a read
  (\<open>long_line_dropped\<close>).
\<close>

theorem output_lines_chunked:
  assumes "ch_buf c = []" "\<not> ch_eof c" "short_lines (concat (map concat sss) @ concat ss)"
  shows "splits_into_lines (concat (map concat sss) @ concat ss)
      (fst (read_calls (map for_now sss @ [until_closed ss]) c))
    \<and> snd (read_calls (map for_now sss @ [until_closed ss]) c) = c\<lparr>ch_eof := True\<rparr>"
proof -
  obtain ls r where t: "take_lines [] (concat (map concat sss) @ concat ss) = (ls, r)" by force
  show ?thesis
    using read_calls_lines [of c sss ss ls r] take_lines_splits [OF t] assms t by (cases c) simp
qed

theorem output_lines_chunked_witness:
  "read_calls (map for_now [[''ab'', ''c'' @ [newline] @ ''d''], [], [''e'']] @ [until_closed [''f'' @ [newline], ''g'']])
     \<lparr>ch_name = ''m'', ch_proc = 0, ch_mode = Child_normal, ch_port = 1, ch_buf = [], ch_eof = False, ch_deadline = 0\<rparr>
   = ([''abc'' @ [newline], ''def'' @ [newline], ''g''],
     \<lparr>ch_name = ''m'', ch_proc = 0, ch_mode = Child_normal, ch_port = 1, ch_buf = [], ch_eof = True, ch_deadline = 0\<rparr>)
   \<and> splits_into_lines (''abc'' @ [newline] @ ''def'' @ [newline] @ ''g'') [''abc'' @ [newline], ''def'' @ [newline], ''g'']"
proof -
  let ?c = "\<lparr>ch_name = ''m'', ch_proc = 0, ch_mode = Child_normal, ch_port = 1, ch_buf = [], ch_eof = False, ch_deadline = 0\<rparr>"
  let ?sss = "[[''ab'', ''c'' @ [newline] @ ''d''], [], [''e'']]"
  let ?ss = "[''f'' @ [newline], ''g'']"
  let ?r = "read_calls (map for_now ?sss @ [until_closed ?ss]) ?c"
  have "length x \<le> max_line" if "concat (map concat ?sss) @ concat ?ss = a @ x @ b" for a x b
  proof -
    have "length (concat (map concat ?sss) @ concat ?ss) \<le> max_line" by (simp add: max_line_def)
    then show ?thesis unfolding that by simp
  qed
  then have h: "short_lines (concat (map concat ?sss) @ concat ?ss)"
    unfolding short_lines_def by blast
  have l: "?r = ([''abc'' @ [newline], ''def'' @ [newline], ''g''], ?c\<lparr>ch_eof := True\<rparr>)"
    by (simp add: for_now_def until_closed_def read_output_def newline_def max_line_def)
  show ?thesis
    using output_lines_chunked [of ?c ?sss ?ss, OF _ _ h] unfolding l by simp
qed

text \<open>A read that ends in a line of more than 1 MiB loses it: the rest of the line is handed on as a line.\<close>

lemma long_line_dropped:
  assumes "newline \<notin> set s" "newline \<notin> set t" "length s > max_line" "\<not> ch_eof c" "ch_buf c = []"
  shows "fst (read_output (until_closed [s, t @ [newline]]) c) = [t @ [newline]]"
proof -
  have "take_lines [] (t @ [newline]) = ([t @ [newline]], [])"
    using take_lines_append [of "[]" t "[newline]"] take_lines_open [OF assms(2), of "[]"] by simp
  then show ?thesis
    using assms take_lines_open [OF assms(1), of "[]"] by (simp add: read_output_def until_closed_def)
qed

section \<open>A stream whose model waits for a slot\<close>

text \<open>
  A request that waits in the queue for a slot has registered its conversation, but its model is still
  unloaded: the client that asks for the stream is told that there is none, not to come back later.
\<close>

lemma queued_stream_not_found:
  assumes "tk_map T conv = Some (name, ticket)" "get_meta name S = Some m" "mm_status m = Unloaded"
    and "rq_param req ''conv_id'' = conv" "conv \<noteq> []"
  shows "router_stream_get req T S = Stream_error (route_err (format_error_response ''Stream not found or expired'' ERROR_NOT_FOUND))"
  using assms by (simp add: router_stream_get_def resolve_child_for_conv_def lookup_conv_def is_ready_def is_transient_def Let_def)

end
