(* ===== verification/Proxy.thy ===== *)
theory Proxy
  imports Json Tools "HOL-Library.Sublist"
begin

text \<open>
  The proxies of the server: \<open>server_pipe\<close> (server-common.h), \<open>server_http_proxy\<close> (server-models.cpp), by
  which the router hands a request to a child and streams its answer back, and the CORS proxy for the
  web interface (server-cors-proxy.h).  The HTTP client library calls back with the headers of the
  answer, its chunks and the end; these calls, the reads of the client and the clean-up interleave.
\<close>

section \<open>The pipe\<close>

text \<open>A bound of 0 means no bound.\<close>

record 'a server_pipe =
  pi_queue :: "'a list"
  pi_writer_closed :: bool
  pi_reader_closed :: bool
  pi_max_size :: nat

definition pipe_init :: "nat \<Rightarrow> 'a server_pipe" where
  "pipe_init max_size = \<lparr>pi_queue = [], pi_writer_closed = False, pi_reader_closed = False, pi_max_size = max_size\<rparr>"

definition close_write :: "'a server_pipe \<Rightarrow> 'a server_pipe" where
  "close_write p = p\<lparr>pi_writer_closed := True\<rparr>"

definition close_read :: "'a server_pipe \<Rightarrow> 'a server_pipe" where
  "close_read p = p\<lparr>pi_reader_closed := True\<rparr>"

text \<open>One turn of the loop of \<open>read\<close>; \<open>Waiting\<close> is another turn, after a write or 500 ms.\<close>

datatype 'a pipe_result = Got 'a | Eof | Stopped | Waiting

definition pipe_read :: "bool \<Rightarrow> bool \<Rightarrow> 'a server_pipe \<Rightarrow> 'a pipe_result \<times> 'a server_pipe" where
  "pipe_read should_stop close_on_stop p =
     (case pi_queue p of
        x # q \<Rightarrow> (Got x, p\<lparr>pi_queue := q\<rparr>)
      | [] \<Rightarrow>
          if pi_writer_closed p then (Eof, p)
          else if should_stop then (Stopped, if close_on_stop then close_read p else p)
          else (Waiting, p))"

fun drop_oldest :: "nat \<Rightarrow> 'a list \<Rightarrow> 'a list" where
  "drop_oldest m [] = []"
| "drop_oldest m (x # q) = (if length (x # q) \<ge> m then drop_oldest m q else x # q)"

definition pipe_write :: "'a \<Rightarrow> 'a server_pipe \<Rightarrow> bool \<times> 'a server_pipe" where
  "pipe_write x p =
     (if pi_reader_closed p then (False, p)
      else (True, p\<lparr>pi_queue := (if pi_max_size p > 0 then drop_oldest (pi_max_size p) (pi_queue p) else pi_queue p) @ [x]\<rparr>))"

text \<open>What a pipe does over time: the accepted items, and those the reader got.\<close>

datatype 'a pipe_op = Write 'a | Read bool bool | Close_write | Close_read

record 'a pipe_run =
  pr_pipe :: "'a server_pipe"
  pr_accepted :: "'a list"
  pr_got :: "'a list"

fun pipe_do :: "'a pipe_op \<Rightarrow> 'a pipe_run \<Rightarrow> 'a pipe_run" where
  "pipe_do (Write x) r =
     (let (ok, p) = pipe_write x (pr_pipe r)
      in r\<lparr>pr_pipe := p, pr_accepted := pr_accepted r @ (if ok then [x] else [])\<rparr>)"
| "pipe_do (Read stop close) r =
     (let (res, p) = pipe_read stop close (pr_pipe r)
      in r\<lparr>pr_pipe := p, pr_got := pr_got r @ (case res of Got x \<Rightarrow> [x] | _ \<Rightarrow> [])\<rparr>)"
| "pipe_do Close_write r = r\<lparr>pr_pipe := close_write (pr_pipe r)\<rparr>"
| "pipe_do Close_read r = r\<lparr>pr_pipe := close_read (pr_pipe r)\<rparr>"

definition pipe_start :: "nat \<Rightarrow> 'a pipe_run" where
  "pipe_start m = \<lparr>pr_pipe = pipe_init m, pr_accepted = [], pr_got = []\<rparr>"

lemma drop_oldest_suffix: "\<exists>d. q = d @ drop_oldest m q"
  by (induction m q rule: drop_oldest.induct) (auto simp: Cons_eq_append_conv)

lemma drop_oldest_length: "0 < m \<Longrightarrow> length (drop_oldest m q) < m"
  by (induction m q rule: drop_oldest.induct) auto

text \<open>
  The reader gets the accepted items in order.  Without a bound none is lost: those it did not get are
  in the queue.  With a bound the queue holds the latest items, at most as many, and older ones may be
  missing.
\<close>

definition pipe_inv :: "nat \<Rightarrow> 'a pipe_run \<Rightarrow> bool" where
  "pipe_inv m r \<longleftrightarrow> pi_max_size (pr_pipe r) = m
    \<and> (\<exists>old. pr_accepted r = old @ pi_queue (pr_pipe r) \<and> subseq (pr_got r) old \<and> (m = 0 \<longrightarrow> old = pr_got r))
    \<and> (0 < m \<longrightarrow> length (pi_queue (pr_pipe r)) \<le> m)"

lemma pipe_inv_write:
  assumes "pipe_inv m r"
  shows "pipe_inv m (pipe_do (Write x) r)"
proof -
  let ?q = "pi_queue (pr_pipe r)"
  obtain old where o: "pr_accepted r = old @ ?q" "subseq (pr_got r) old" "m = 0 \<longrightarrow> old = pr_got r"
    using assms by (auto simp: pipe_inv_def)
  obtain d where d: "?q = d @ drop_oldest m ?q" using drop_oldest_suffix by blast
  have "subseq (pr_got r) (old @ d)" using o(2) list_emb_append2 by (metis append_Nil2 list_emb_append_mono list_emb_Nil)
  moreover have "pr_accepted r = (old @ d) @ drop_oldest m ?q" using o(1) d by simp
  ultimately have "0 < m \<longrightarrow> (\<exists>old. pr_accepted r = old @ drop_oldest m ?q \<and> subseq (pr_got r) old)" by blast
  then show ?thesis
    using assms o drop_oldest_length [of m ?q] by (auto simp: pipe_inv_def pipe_write_def)
qed

lemma pipe_inv_read:
  assumes "pipe_inv m r"
  shows "pipe_inv m (pipe_do (Read stop close) r)"
proof (cases "pi_queue (pr_pipe r)")
  case Nil
  then show ?thesis using assms by (auto simp: pipe_inv_def pipe_read_def close_read_def)
next
  case (Cons x q)
  then show ?thesis
    using assms by (auto simp: pipe_inv_def pipe_read_def intro!: exI [of _ "_ @ [x]"])
qed

lemma pipe_inv_do:
  assumes "pipe_inv m r"
  shows "pipe_inv m (pipe_do a r)"
proof (cases a)
  case (Write x)
  then show ?thesis by (simp only: pipe_inv_write [OF assms])
next
  case (Read stop close)
  then show ?thesis by (simp only: pipe_inv_read [OF assms])
qed (use assms in \<open>simp_all add: pipe_inv_def close_write_def close_read_def\<close>)

lemma pipe_in_order: "pipe_inv m (fold pipe_do ops (pipe_start m))"
proof (induction ops rule: rev_induct)
  case Nil
  show ?case by (simp add: pipe_inv_def pipe_start_def pipe_init_def)
next
  case (snoc a ops)
  then show ?case by (simp add: pipe_inv_do del: pipe_do.simps)
qed

section \<open>Headers\<close>

text \<open>In lower case.\<close>

definition should_strip_proxy_header :: "string \<Rightarrow> bool" where
  "should_strip_proxy_header header_name =
     (header_name = ''server'' \<or> header_name = ''transfer-encoding'' \<or> header_name = ''content-length''
      \<or> header_name = ''keep-alive'' \<or> starts_with header_name ''access-control-'')"

record msg_t =
  ms_headers :: "(string \<times> string) list"
  ms_status :: int
  ms_data :: string
  ms_content_type :: string

record http_response =
  hs_status :: int
  hs_headers :: "(string \<times> string) list"

fun copy_header :: "string \<times> string \<Rightarrow> msg_t \<Rightarrow> msg_t" where
  "copy_header (key, value) msg =
     (let lowered = str_to_lower key
      in if should_strip_proxy_header lowered then msg
         else if lowered = ''content-type'' then msg\<lparr>ms_content_type := value\<rparr>
         else msg\<lparr>ms_headers := omap_set key value (ms_headers msg)\<rparr>)"

definition make_header_msg :: "http_response \<Rightarrow> msg_t" where
  "make_header_msg response =
     fold copy_header (hs_headers response) \<lparr>ms_headers = [], ms_status = hs_status response, ms_data = [], ms_content_type = []\<rparr>"

text \<open>
  The headers of the request: \<open>headers\<close> are the calls of \<open>set_header\<close> so far, \<open>override\<close> the
  content type to be set at the end.  \<open>fmt\<close> puts an IPv6 address into brackets (a library).
\<close>

definition host_value :: "(string \<Rightarrow> string) \<Rightarrow> string \<Rightarrow> string \<Rightarrow> int \<Rightarrow> string" where
  "host_value fmt scheme host port =
     (if scheme = ''https'' \<and> port = 443 \<or> scheme = ''http'' \<and> port = 80 then fmt host else fmt host @ '':'' @ show_int port)"

fun forward_header :: "(string \<Rightarrow> string) \<Rightarrow> string \<Rightarrow> string \<Rightarrow> int \<Rightarrow> bool \<Rightarrow> string \<times> string
    \<Rightarrow> (string \<times> string) list \<times> string \<Rightarrow> (string \<times> string) list \<times> string" where
  "forward_header fmt scheme host port has_files (key, value) (headers, override) =
     (let lowered = str_to_lower key
      in if lowered = ''accept-encoding'' then (headers, override)
         else if lowered = ''transfer-encoding'' then (headers, override)
         else if lowered = ''content-length'' then (headers, override)
         else if lowered = ''content-type'' \<and> has_files then (headers, override)
         else if lowered = ''content-type'' \<and> str_contains value ''multipart/form-data'' then (headers, ''application/json; charset=utf-8'')
         else if lowered = ''host'' then (headers @ [(key, host_value fmt scheme host port)], override)
         else (headers @ [(key, value)], override))"

section \<open>Multipart bodies\<close>

definition crlf :: string where
  "crlf = [CHR 0x0D, CHR 0x0A]"

definition double_quoted :: "string \<Rightarrow> string" where
  "double_quoted s = CHR 0x22 # s @ [CHR 0x22]"

record uploaded_file =
  uf_data :: string
  uf_filename :: string
  uf_content_type :: string

text \<open>\<open>dis i\<close> is the random index, from 0 to 35.\<close>

definition generate_multipart_boundary :: "(nat \<Rightarrow> nat) \<Rightarrow> string" where
  "generate_multipart_boundary dis = ''----llama-cpp-proxy-'' @ map (\<lambda>i. ''0123456789abcdefghijklmnopqrstuvwxyz'' ! dis i) [0..<16]"

definition sanitize_field :: "string \<Rightarrow> string" where
  "sanitize_field = filter (\<lambda>c. c \<noteq> CHR 0x0A \<and> c \<noteq> CHR 0x0D \<and> c \<noteq> CHR 0x22)"

definition field_disposition :: "string \<Rightarrow> string" where
  "field_disposition key = ''Content-Disposition: form-data; name='' @ double_quoted (sanitize_field key)"

definition field_part :: "string \<Rightarrow> string \<Rightarrow> json \<Rightarrow> string result" where
  "field_part boundary key item =
     (case get_str item of
        None \<Rightarrow> Inl (Throw ''expected string'')
      | Some s \<Rightarrow> Inr (''--'' @ boundary @ crlf @ field_disposition key @ crlf @ crlf @ s @ crlf))"

fun item_parts :: "string \<Rightarrow> string \<Rightarrow> json list \<Rightarrow> string result" where
  "item_parts boundary key [] = Inr []"
| "item_parts boundary key (item # items) =
     rbind (field_part boundary key item) (\<lambda>p. rbind (item_parts boundary key items) (\<lambda>ps. Inr (p @ ps)))"

fun field_items :: "json \<Rightarrow> json list" where
  "field_items (JArr vs) = vs"
| "field_items v = [v]"

fun form_parts :: "string \<Rightarrow> (string \<times> json) list \<Rightarrow> string result" where
  "form_parts boundary [] = Inr []"
| "form_parts boundary ((key, v) # fs) =
     rbind (item_parts boundary key (field_items v)) (\<lambda>p. rbind (form_parts boundary fs) (\<lambda>ps. Inr (p @ ps)))"

definition file_header :: "string \<Rightarrow> uploaded_file \<Rightarrow> string" where
  "file_header key f =
     field_disposition key
     @ (if uf_filename f \<noteq> [] then ''; filename='' @ double_quoted (sanitize_field (uf_filename f)) else [])
     @ crlf
     @ (if uf_content_type f \<noteq> [] then ''Content-Type: '' @ sanitize_field (uf_content_type f)
        else ''Content-Type: application/octet-stream'')"

fun file_part :: "string \<Rightarrow> string \<times> uploaded_file \<Rightarrow> string" where
  "file_part boundary (key, f) = ''--'' @ boundary @ crlf @ file_header key f @ crlf @ crlf @ uf_data f @ crlf"

definition build_multipart_body :: "(string \<times> json) list \<Rightarrow> (string \<times> uploaded_file) list \<Rightarrow> string \<Rightarrow> string result" where
  "build_multipart_body form_fields files boundary =
     rbind (form_parts boundary form_fields) (\<lambda>body.
       Inr (body @ concat (map (file_part boundary) files) @ ''--'' @ boundary @ ''--'' @ crlf))"

text \<open>
  What a receiver makes of it (RFC 2046): after a delimiter the header lines of the part up to the
  empty line, then its content up to the next delimiter.
\<close>

definition delimiter :: "string \<Rightarrow> string" where
  "delimiter boundary = ''--'' @ boundary"

function read_parts :: "string \<Rightarrow> string \<Rightarrow> (string \<times> string) list option" where
  "read_parts boundary s =
     (let d = delimiter boundary
      in if s = d @ ''--'' @ crlf then Some []
         else if prefix (d @ crlf) s then
           let s = drop (length d + 2) s
           in case str_find s (crlf @ crlf) 0 of
                None \<Rightarrow> None
              | Some h \<Rightarrow>
                  let t = drop (h + 4) s
                  in case str_find t (crlf @ d) 0 of
                       None \<Rightarrow> None
                     | Some c \<Rightarrow> map_option (Cons (take h s, take c t)) (read_parts boundary (drop (c + 2) t))
         else None)"
  by pat_completeness auto

termination
  by (relation "measure (length \<circ> snd)") (auto simp: delimiter_def dest: prefix_length_le)

declare read_parts.simps [simp del]

text \<open>The name, the file name and the type in the header lines of a part.\<close>

definition until_quote :: "string \<Rightarrow> string" where
  "until_quote = takeWhile (\<lambda>c. c \<noteq> CHR 0x22)"

definition read_name :: "string \<Rightarrow> string" where
  "read_name h = until_quote (drop (length (''Content-Disposition: form-data; name='') + 1) h)"

definition read_filename :: "string \<Rightarrow> string" where
  "read_filename h =
     (let r = drop (length (''Content-Disposition: form-data; name='') + length (read_name h) + 2) h
      in if prefix ''; filename='' r then until_quote (drop (length (''; filename='') + 1) r) else [])"

definition read_type :: "string \<Rightarrow> string" where
  "read_type h = (case str_find h (crlf @ ''Content-Type: '') 0 of None \<Rightarrow> [] | Some i \<Rightarrow> drop (i + 16) h)"

fun read_part :: "string \<times> string \<Rightarrow> string \<times> string \<times> string \<times> string" where
  "read_part (h, c) = (read_name h, read_filename h, read_type h, c)"

text \<open>The parts meant: for each value of a field, and for each file.\<close>

fun field_contents :: "(string \<times> json) list \<Rightarrow> (string \<times> string) list" where
  "field_contents [] = []"
| "field_contents ((key, v) # fs) = map (\<lambda>item. (key, the (get_str item))) (field_items v) @ field_contents fs"

definition file_type :: "uploaded_file \<Rightarrow> string" where
  "file_type f = (if uf_content_type f \<noteq> [] then sanitize_field (uf_content_type f) else ''application/octet-stream'')"

definition parts_sent :: "(string \<times> json) list \<Rightarrow> (string \<times> uploaded_file) list \<Rightarrow> (string \<times> string \<times> string \<times> string) list" where
  "parts_sent fs files =
     map (\<lambda>(key, s). (key, [], [], s)) (field_contents fs)
     @ map (\<lambda>(key, f). (key, uf_filename f,
         if uf_content_type f = [] then ''application/octet-stream'' else uf_content_type f, uf_data f)) files"

text \<open>A header line cannot hold a double quote or the end of a line: names and types lose these characters.\<close>

definition unsafe :: "char set" where
  "unsafe = {CHR 0x22, CHR 0x0D, CHR 0x0A}"

fun without_unsafe :: "string \<Rightarrow> string" where
  "without_unsafe [] = []"
| "without_unsafe (c # s) = (if c \<in> unsafe then without_unsafe s else c # without_unsafe s)"

definition received :: "string \<times> string \<times> string \<times> string \<Rightarrow> string \<times> string \<times> string \<times> string" where
  "received = (\<lambda>(name, filename, type, content). (without_unsafe name, without_unsafe filename, without_unsafe type, content))"

definition plain_part :: "string \<times> string \<times> string \<times> string \<Rightarrow> bool" where
  "plain_part = (\<lambda>(name, filename, type, content). set (name @ filename @ type) \<inter> unsafe = {})"

lemma sanitize_without_unsafe: "sanitize_field s = without_unsafe s"
  by (induction s) (auto simp: sanitize_field_def unsafe_def)

lemma without_unsafe_id: "set s \<inter> unsafe = {} \<Longrightarrow> without_unsafe s = s"
  by (induction s) auto

lemma received_plain: "plain_part p \<Longrightarrow> received p = p"
  by (cases p) (simp add: plain_part_def received_def without_unsafe_id Int_Un_distrib2)

lemma find_map_option: "find P (map f xs) = map_option f (find (\<lambda>x. P (f x)) xs)"
  by (induction xs) auto

lemma str_find_Cons:
  "str_find (c # s) w 0 = (if take (length w) (c # s) = w then Some 0 else map_option Suc (str_find s w 0))"
proof -
  have "[0..<Suc (length (c # s))] = 0 # map Suc [0..<Suc (length s)]"
    by (simp add: map_Suc_upt upt_conv_Cons del: upt_Suc)
  then show ?thesis
    by (simp add: str_find_def find_map_option del: upt_Suc)
qed

lemma str_find_here: "str_find (w @ t) w 0 = Some 0"
  by (simp add: str_find_def upt_conv_Cons del: upt_Suc)

lemma str_find_skip:
  assumes "c \<notin> set l"
  shows "str_find (l @ s) (c # w) 0 = map_option ((+) (length l)) (str_find s (c # w) 0)"
  using assms by (induction l) (cases "str_find s (c # w) 0"; auto simp: str_find_Cons)+

text \<open>A separator that begins with a carriage return and has no other is found where it stands.\<close>

lemma separator_found:
  assumes "CHR 0x0D \<notin> set w" "\<not> str_contains c (CHR 0x0D # w)"
  shows "str_find (c @ CHR 0x0D # w @ t) (CHR 0x0D # w) 0 = Some (length c)"
proof -
  let ?w = "CHR 0x0D # w" and ?s = "c @ CHR 0x0D # w @ t"
  have "\<not> occurs_at ?w ?s i" if "i < length c" for i
  proof
    assume o: "occurs_at ?w ?s i"
    show False
    proof (cases "i + length ?w \<le> length c")
      case True
      then have "occurs_at ?w c i" using o by (simp add: occurs_at_def)
      then show False
        using assms(2) that by (auto simp: str_contains_def str_find_None)
    next
      case False
      let ?j = "length c - i"
      have j: "0 < ?j" "?j < length ?w" "i + ?j = length c" using False that by auto
      have "?w ! ?j = take (length ?w) (drop i ?s) ! ?j" using o by (simp add: occurs_at_def)
      also have "\<dots> = ?s ! length c" using j(2,3) that by (simp del: drop_append append_Cons)
      also have "\<dots> = CHR 0x0D" by simp
      finally have "CHR 0x0D \<in> set w" using j(1,2) by (cases ?j) (auto simp: in_set_conv_nth)
      then show False using assms(1) by simp
    qed
  qed
  moreover have "occurs_at ?w ?s (length c)" by (simp add: occurs_at_def)
  moreover obtain p where p: "str_find ?s ?w 0 = Some p" "p \<le> length c"
    using str_find_least [OF calculation(2), of 0] by auto
  ultimately show ?thesis
    using str_find_Some [OF p(1)] by (cases "p = length c") auto
qed

lemma sanitize_no_cr [simp]: "CHR 0x0D \<notin> set (sanitize_field s)" "CHR 0x22 \<notin> set (sanitize_field s)"
  by (simp_all add: sanitize_field_def)

lemma sanitize_Nil [simp]: "sanitize_field [] = []"
  by (simp add: sanitize_field_def)

lemma disposition_no_cr: "CHR 0x0D \<notin> set (field_disposition key)"
  by (simp add: field_disposition_def double_quoted_def)

lemma header_end:
  assumes "CHR 0x0D \<notin> set l"
  shows "str_find (l @ crlf @ crlf @ t) (crlf @ crlf) 0 = Some (length l)"
  using str_find_skip [OF assms, of "crlf @ crlf @ t"] str_find_here [of "crlf @ crlf" t] by (simp add: crlf_def)

lemma header_end_two:
  assumes "CHR 0x0D \<notin> set l" "CHR 0x0D \<notin> set l'" "l' \<noteq> []"
  shows "str_find (l @ crlf @ l' @ crlf @ crlf @ t) (crlf @ crlf) 0 = Some (length (l @ crlf @ l'))"
proof -
  obtain x xs where x: "l' = x # xs" "x \<noteq> CHR 0x0D" using assms(2,3) by (cases l') auto
  have "str_find (crlf @ l' @ crlf @ crlf @ t) (crlf @ crlf) 0 = Some (2 + length l')"
    using header_end [OF assms(2), of t] x by (simp add: crlf_def str_find_Cons)
  then show ?thesis
    using str_find_skip [OF assms(1), of "crlf @ l' @ crlf @ crlf @ t"] by (simp add: crlf_def)
qed

lemma file_header_end: "str_find (file_header key f @ crlf @ crlf @ t) (crlf @ crlf) 0 = Some (length (file_header key f))"
proof -
  let ?l = "field_disposition key @ (if uf_filename f \<noteq> [] then ''; filename='' @ double_quoted (sanitize_field (uf_filename f)) else [])"
  let ?l' = "if uf_content_type f \<noteq> [] then ''Content-Type: '' @ sanitize_field (uf_content_type f) else ''Content-Type: application/octet-stream''"
  have "CHR 0x0D \<notin> set ?l" "CHR 0x0D \<notin> set ?l'" "?l' \<noteq> []"
    using disposition_no_cr by (auto simp: double_quoted_def)
  from header_end_two [OF this] show ?thesis
    by (simp add: file_header_def)
qed

text \<open>One part is read.\<close>

lemma read_one_part:
  assumes "CHR 0x0D \<notin> set b" "\<not> str_contains c (crlf @ delimiter b)"
    and "\<And>t. str_find (h @ crlf @ crlf @ t) (crlf @ crlf) 0 = Some (length h)"
  shows "read_parts b (delimiter b @ crlf @ h @ crlf @ crlf @ c @ crlf @ delimiter b @ t)
    = map_option (Cons (h, c)) (read_parts b (delimiter b @ t))"
proof -
  let ?s = "delimiter b @ crlf @ h @ crlf @ crlf @ c @ crlf @ delimiter b @ t"
  have n: "?s \<noteq> delimiter b @ ''--'' @ crlf" by (simp add: crlf_def)
  have d: "CHR 0x0D \<notin> set (tl crlf @ delimiter b)" using assms(1) by (simp add: crlf_def delimiter_def)
  have "str_find (c @ crlf @ delimiter b @ t) (crlf @ delimiter b) 0 = Some (length c)"
    using separator_found [OF d, of c t] assms(2) by (simp add: crlf_def)
  then show ?thesis
    using n assms(3) by (subst read_parts.simps) (simp add: crlf_def Let_def)
qed

lemma until_quote_sanitized [simp]: "until_quote (sanitize_field s @ CHR 0x22 # t) = sanitize_field s"
  by (simp add: until_quote_def takeWhile_append)

lemma read_disposition:
  "read_name (field_disposition key @ t) = sanitize_field key"
  "read_filename (field_disposition key @ t) = (if prefix ''; filename='' t then until_quote (drop (length (''; filename='') + 1) t) else [])"
  by (simp_all add: read_name_def read_filename_def field_disposition_def double_quoted_def)

lemma read_field: "read_part (field_disposition key, c) = (sanitize_field key, [], [], c)"
proof -
  have "str_find (field_disposition key) (crlf @ ''Content-Type: '') 0 = None"
    using str_find_skip [OF disposition_no_cr, of key "[]" "tl crlf @ ''Content-Type: ''"] str_find_None [of "[]"]
    by (simp add: crlf_def occurs_at_def)
  then show ?thesis
    using read_disposition [of key "[]"] by (simp add: read_type_def)
qed

lemma read_file: "read_part (file_header key f, c) = (sanitize_field key, sanitize_field (uf_filename f), file_type f, c)"
proof -
  let ?n = "if uf_filename f \<noteq> [] then ''; filename='' @ double_quoted (sanitize_field (uf_filename f)) else []"
  let ?r = "crlf @ ''Content-Type: '' @ file_type f"
  have h: "file_header key f = (field_disposition key @ ?n) @ ?r"
    by (simp add: file_header_def file_type_def)
  have "CHR 0x0D \<notin> set (field_disposition key @ ?n)"
    using disposition_no_cr by (auto simp: double_quoted_def)
  from str_find_skip [OF this, of ?r "CHR 0x0A # ''Content-Type: ''"]
  have "str_find (file_header key f) (crlf @ ''Content-Type: '') 0 = Some (length (field_disposition key @ ?n))"
    using str_find_here [of "crlf @ ''Content-Type: ''" "file_type f"] by (simp add: h crlf_def)
  then have "read_type (file_header key f) = file_type f"
    by (simp add: read_type_def h crlf_def)
  moreover have "read_filename (file_header key f) = sanitize_field (uf_filename f)"
    by (auto simp: h read_disposition double_quoted_def crlf_def)
  ultimately show ?thesis by (simp add: h read_disposition)
qed

text \<open>What follows a part begins with a delimiter.\<close>

lemma items_begin: "item_parts b key items = Inr r \<Longrightarrow> \<exists>t'. r @ delimiter b @ t = delimiter b @ t'"
  by (cases items) (auto simp: rbind_Inr_iff field_part_def delimiter_def split: option.splits)

lemma form_begins: "form_parts b fs = Inr r \<Longrightarrow> \<exists>t'. r @ delimiter b @ t = delimiter b @ t'"
proof (induction fs arbitrary: r)
  case (Cons f fs)
  obtain key v where f: "f = (key, v)" by force
  then obtain p ps where p: "item_parts b key (field_items v) = Inr p" "form_parts b fs = Inr ps" "r = p @ ps"
    using Cons.prems by (auto simp: rbind_Inr_iff)
  then obtain t1 where "ps @ delimiter b @ t = delimiter b @ t1" using Cons.IH by blast
  then show ?case using items_begin [OF p(1), of t1] p(3) by simp
qed simp

lemma files_begin: "\<exists>t'. concat (map (file_part b) files) @ delimiter b @ t = delimiter b @ t'"
  by (cases files) (auto simp: delimiter_def)

lemma read_fields:
  assumes "CHR 0x0D \<notin> set b"
  shows "item_parts b key items = Inr s \<Longrightarrow> \<forall>v \<in> set items. \<not> str_contains (the (get_str v)) (crlf @ delimiter b) \<Longrightarrow>
    read_parts b (s @ delimiter b @ t)
    = map_option ((@) (map (\<lambda>v. (field_disposition key, the (get_str v))) items)) (read_parts b (delimiter b @ t))"
proof (induction items arbitrary: s)
  case Nil
  then show ?case by (simp add: option.map_ident)
next
  case (Cons v items)
  then obtain c r where c: "get_str v = Some c" and r: "item_parts b key items = Inr r"
      and s: "s = (delimiter b @ crlf @ field_disposition key @ crlf @ crlf @ c @ crlf) @ r"
    by (auto simp: rbind_Inr_iff field_part_def delimiter_def split: option.splits)
  obtain t' where t': "r @ delimiter b @ t = delimiter b @ t'"
    using items_begin [OF r] by blast
  have "read_parts b (s @ delimiter b @ t) = map_option (Cons (field_disposition key, c)) (read_parts b (r @ delimiter b @ t))"
    using read_one_part [OF assms _ header_end [OF disposition_no_cr], of c key t'] Cons.prems(2) c by (simp add: s t')
  then show ?case
    using Cons.IH [OF r] Cons.prems(2) c by (simp add: option.map_comp comp_def)
qed

lemma read_form:
  assumes "CHR 0x0D \<notin> set b"
  shows "form_parts b fs = Inr s \<Longrightarrow> \<forall>c \<in> snd ` set (field_contents fs). \<not> str_contains c (crlf @ delimiter b) \<Longrightarrow>
    read_parts b (s @ delimiter b @ t)
    = map_option ((@) (map (\<lambda>(key, c). (field_disposition key, c)) (field_contents fs))) (read_parts b (delimiter b @ t))"
proof (induction fs arbitrary: s)
  case Nil
  then show ?case by (simp add: option.map_ident)
next
  case (Cons f fs)
  obtain key v where f: "f = (key, v)" by force
  then obtain p ps where p: "item_parts b key (field_items v) = Inr p" "form_parts b fs = Inr ps" "s = p @ ps"
    using Cons.prems by (auto simp: rbind_Inr_iff)
  obtain t' where t': "ps @ delimiter b @ t = delimiter b @ t'"
    using form_begins [OF p(2)] by blast
  have "\<forall>v \<in> set (field_items v). \<not> str_contains (the (get_str v)) (crlf @ delimiter b)"
    using Cons.prems(2) f by (simp add: ball_Un)
  then show ?case
    using read_fields [OF assms p(1), of t'] Cons.IH [OF p(2)] Cons.prems(2) f p(3)
    by (simp add: t' [symmetric] option.map_comp comp_def)
qed

lemma read_files:
  assumes "CHR 0x0D \<notin> set b" "\<forall>(key, f) \<in> set files. \<not> str_contains (uf_data f) (crlf @ delimiter b)"
  shows "read_parts b (concat (map (file_part b) files) @ delimiter b @ t)
    = map_option ((@) (map (\<lambda>(key, f). (file_header key f, uf_data f)) files)) (read_parts b (delimiter b @ t))"
  using assms(2)
proof (induction files)
  case Nil
  then show ?case by (simp add: option.map_ident)
next
  case (Cons e files)
  obtain key f where e: "e = (key, f)" by force
  obtain t' where t': "concat (map (file_part b) files) @ delimiter b @ t = delimiter b @ t'"
    using files_begin by blast
  have p: "file_part b e = delimiter b @ crlf @ file_header key f @ crlf @ crlf @ uf_data f @ crlf"
    by (simp add: e delimiter_def)
  show ?case
    using read_one_part [OF assms(1) _ file_header_end, of "uf_data f" key f t'] Cons p
    by (simp add: e t' [symmetric] option.map_comp comp_def del: file_part.simps)
qed

text \<open>
  Property C21. A receiver reads from the rebuilt multipart body exactly the fields and files of the
  request, in order: one part per value of a field and per file, with their names, file names, types,
  the general type for a file without one, and contents.  Names and types without double
  quotes and line ends arrive as they are, others without these characters and only these, so that no
  name can add a header or a part.  The contents must not hold the delimiter of the parts, which the
  code draws at random.
\<close>

theorem multipart_reads_back:
  assumes "build_multipart_body fs files b = Inr body" "CHR 0x0D \<notin> set b"
    and "\<forall>c \<in> snd ` set (field_contents fs) \<union> (uf_data \<circ> snd) ` set files. \<not> str_contains c (crlf @ delimiter b)"
  shows "map_option (map read_part) (read_parts b body) = Some (map received (parts_sent fs files))
    \<and> ((\<forall>p \<in> set (parts_sent fs files). plain_part p) \<longrightarrow> map_option (map read_part) (read_parts b body) = Some (parts_sent fs files))"
proof -
  obtain s where s: "form_parts b fs = Inr s"
      and body: "body = s @ concat (map (file_part b) files) @ delimiter b @ ''--'' @ crlf"
    using assms(1) by (auto simp: build_multipart_body_def rbind_Inr_iff delimiter_def)
  obtain t where t: "concat (map (file_part b) files) @ delimiter b @ ''--'' @ crlf = delimiter b @ t"
    using files_begin by blast
  have f: "\<forall>(key, f) \<in> set files. \<not> str_contains (uf_data f) (crlf @ delimiter b)"
    using assms(3) by (auto simp: ball_Un)
  have "read_parts b (delimiter b @ ''--'' @ crlf) = Some []"
    by (simp add: read_parts.simps)
  then have "read_parts b (delimiter b @ t) = Some (map (\<lambda>(key, f). (file_header key f, uf_data f)) files)"
    using read_files [OF assms(2) f, of "''--'' @ crlf"] by (simp flip: t)
  then have "read_parts b body = Some (map (\<lambda>(key, c). (field_disposition key, c)) (field_contents fs)
      @ map (\<lambda>(key, f). (file_header key f, uf_data f)) files)"
    using read_form [OF assms(2) s, of t] assms(3) t by (simp add: body)
  then have "map_option (map read_part) (read_parts b body) = Some (map received (parts_sent fs files))"
    by (simp add: parts_sent_def received_def read_field read_file file_type_def sanitize_without_unsafe unsafe_def split_def del: read_part.simps)
  moreover have "map received (parts_sent fs files) = parts_sent fs files" if "\<forall>p \<in> set (parts_sent fs files). plain_part p"
    using that received_plain by (simp add: map_idI)
  ultimately show ?thesis by (metis (no_types, lifting))
qed

text \<open>A name that tries to close the quote, and a field with two values.\<close>

theorem multipart_reads_back_witness:
  "\<exists>body. map_option (map read_part) (read_parts ''xyz'' body) = Some
     [(''a-b'', [], [], ''1''), (''a-b'', [], [], ''--xyz''), (''f'', ''p.png'', ''image/png'', [CHR 0x0D, CHR 0x0A])]"
proof -
  let ?fs = "[(''a-'' @ [CHR 0x22, CHR 0x0D, CHR 0x0A] @ ''b'', JArr [JStr ''1'', JStr ''--xyz''])]"
  let ?files = "[(''f'', \<lparr>uf_data = [CHR 0x0D, CHR 0x0A], uf_filename = ''p.png'', uf_content_type = ''image/png''\<rparr>)]"
  have b: "build_multipart_body ?fs ?files ''xyz'' = Inr (projr (build_multipart_body ?fs ?files ''xyz''))"
    by (simp add: build_multipart_body_def field_part_def)
  have "\<not> str_contains ''1'' (crlf @ delimiter ''xyz'')" "\<not> str_contains ''--xyz'' (crlf @ delimiter ''xyz'')"
      "\<not> str_contains [CHR 0x0D, CHR 0x0A] (crlf @ delimiter ''xyz'')"
    by code_simp+
  then have h: "\<forall>c \<in> snd ` set (field_contents ?fs) \<union> (uf_data \<circ> snd) ` set ?files. \<not> str_contains c (crlf @ delimiter ''xyz'')"
    by simp
  show ?thesis
    using multipart_reads_back [OF b _ h]
    by (intro exI [of _ "projr (build_multipart_body ?fs ?files ''xyz'')"]) (simp add: parts_sent_def received_def unsafe_def)
qed

section \<open>The request to the other server\<close>

record http_request =
  hr_method :: string
  hr_path :: string
  hr_headers :: "(string \<times> string) list"
  hr_body :: string

record proxy_env =
  pe_openssl :: bool
  pe_format_host :: "string \<Rightarrow> string"
  pe_parse :: "string \<Rightarrow> json option"
  pe_items :: "json \<Rightarrow> (string \<times> json) list"
  pe_dis :: "nat \<Rightarrow> nat"

text \<open>The body and, for files, the content type with its boundary.\<close>

definition effective_body :: "proxy_env \<Rightarrow> string \<Rightarrow> (string \<times> uploaded_file) list \<Rightarrow> (string \<times> string) result" where
  "effective_body E body files =
     (if files = [] then Inr (body, [])
      else case pe_parse E body of
             None \<Rightarrow> Inl (Throw ''failed to parse multipart form fields JSON'')
           | Some form_fields \<Rightarrow>
               let boundary = generate_multipart_boundary (pe_dis E)
               in rbind (build_multipart_body (pe_items E form_fields) files boundary) (\<lambda>body.
                    Inr (body, ''multipart/form-data; boundary='' @ boundary)))"

text \<open>The first part of the constructor \<open>server_http_proxy\<close>: everything up to the start of the thread.\<close>

definition prepare_request :: "proxy_env \<Rightarrow> string \<Rightarrow> string \<Rightarrow> string \<Rightarrow> int \<Rightarrow> string \<Rightarrow> (string \<times> string) list \<Rightarrow> string
    \<Rightarrow> (string \<times> uploaded_file) list \<Rightarrow> http_request result" where
  "prepare_request E method scheme host port path headers body files =
     (if scheme = ''https'' \<and> \<not> pe_openssl E then Inl (Throw ''HTTPS requested but CPPHTTPLIB_OPENSSL_SUPPORT is not defined'')
      else rbind (effective_body E body files) (\<lambda>(body, override).
        let (hs, override) = fold (forward_header (pe_format_host E) scheme host port (files \<noteq> [])) headers ([], override)
        in Inr \<lparr>hr_method = method, hr_path = path,
                hr_headers = hs @ (if override \<noteq> [] then [(''Content-Type'', override)] else []), hr_body = body\<rparr>))"

section \<open>The CORS proxy\<close>

text \<open>server-cors-proxy.h; the parser of URLs is a library, and may throw.\<close>

record url_t =
  ur_scheme :: string
  ur_password :: string
  ur_host :: string
  ur_port :: int
  ur_path :: string

record cors_req =
  cr_params :: "(string \<times> string) list"
  cr_headers :: "(string \<times> string) list"
  cr_body :: string
  cr_files :: "(string \<times> uploaded_file) list"

definition get_param :: "string \<Rightarrow> string \<Rightarrow> cors_req \<Rightarrow> string" where
  "get_param key dflt req = (case map_of (cr_params req) key of Some v \<Rightarrow> v | None \<Rightarrow> dflt)"

definition proxy_header_prefix :: string where
  "proxy_header_prefix = ''x-llama-server-proxy-header-''"

fun cors_header :: "string \<times> string \<Rightarrow> (string \<times> string) list \<Rightarrow> (string \<times> string) list" where
  "cors_header (key, value) headers =
     (if \<not> starts_with (str_to_lower key) proxy_header_prefix then headers
      else let new_key = drop (length proxy_header_prefix) key
           in if new_key = [] then headers else omap_set new_key value headers)"

definition proxy_request :: "proxy_env \<Rightarrow> (string \<Rightarrow> url_t result) \<Rightarrow> cors_req \<Rightarrow> string \<Rightarrow> http_request result" where
  "proxy_request E parse_url req method =
     rbind (parse_url (get_param ''url'' [] req)) (\<lambda>url.
       if ur_host url = [] then Inl (Throw ''invalid target URL: missing host'')
       else
         let path = (if ur_path url = [] then ''/'' else ur_path url)
         in if ur_password url \<noteq> [] then Inl (Throw ''authentication in target URL is not supported'')
            else if ur_scheme url \<noteq> ''http'' \<and> ur_scheme url \<noteq> ''https'' then Inl (Throw (''unsupported URL scheme in target URL: '' @ ur_scheme url))
            else prepare_request E method (ur_scheme url) (ur_host url) (ur_port url) path
                   (fold cors_header (cr_headers req) []) (cr_body req) (cr_files req))"

definition proxy_handler_post :: "proxy_env \<Rightarrow> (string \<Rightarrow> url_t result) \<Rightarrow> cors_req \<Rightarrow> http_request result" where
  "proxy_handler_post E parse_url req = proxy_request E parse_url req ''POST''"

definition proxy_handler_get :: "proxy_env \<Rightarrow> (string \<Rightarrow> url_t result) \<Rightarrow> cors_req \<Rightarrow> http_request result" where
  "proxy_handler_get E parse_url req = proxy_request E parse_url req ''GET''"

text \<open>The headers sent on.\<close>

definition dropped_header :: "string \<Rightarrow> bool" where
  "dropped_header key \<longleftrightarrow> str_to_lower key \<in> {''accept-encoding'', ''transfer-encoding'', ''content-length''}"

lemma forward_header_cases:
  assumes "forward_header fmt scheme host port has_files (key, w) (hs, ov) = (hs', ov')"
  shows "(ov' = ov \<or> ov' = ''application/json; charset=utf-8'' \<and> \<not> has_files)
    \<and> (hs' = hs \<or> \<not> dropped_header key \<and> (has_files \<longrightarrow> str_to_lower key \<noteq> ''content-type'')
        \<and> hs' = hs @ [(key, if str_to_lower key = ''host'' then host_value fmt scheme host port else w)])"
  using assms by (simp add: Let_def dropped_header_def split: if_splits) blast

lemma forward_headers_in:
  assumes "fold (forward_header fmt scheme host port has_files) headers (hs, ov) = (hs', ov')"
  shows "((k, v) \<in> set hs' \<longrightarrow> (k, v) \<in> set hs \<or>
      (\<exists>w. (k, w) \<in> set headers \<and> \<not> dropped_header k \<and> (has_files \<longrightarrow> str_to_lower k \<noteq> ''content-type'')
        \<and> v = (if str_to_lower k = ''host'' then host_value fmt scheme host port else w)))
    \<and> (ov' = ov \<or> ov' = ''application/json; charset=utf-8'' \<and> \<not> has_files)"
  using assms
proof (induction headers arbitrary: hs ov)
  case (Cons h headers)
  obtain key w where h: "h = (key, w)" by force
  obtain hs1 ov1 where f: "forward_header fmt scheme host port has_files (key, w) (hs, ov) = (hs1, ov1)" by force
  then have "fold (forward_header fmt scheme host port has_files) headers (hs1, ov1) = (hs', ov')"
    using Cons.prems by (simp add: h del: forward_header.simps)
  note i = Cons.IH [OF this] and c = forward_header_cases [OF f]
  have "(k, v) \<in> set hs1 \<Longrightarrow> (k, v) \<in> set hs \<or> key = k \<and> \<not> dropped_header k \<and> (has_files \<longrightarrow> str_to_lower k \<noteq> ''content-type'')
        \<and> v = (if str_to_lower k = ''host'' then host_value fmt scheme host port else w)"
    using c by (elim conjE disjE) (simp_all only: set_append Un_iff, auto)
  then show ?case
    using i c by (simp only: h list.set) blast
qed simp

lemma cors_headers_in:
  "(k, v) \<in> set (fold cors_header headers hs) \<Longrightarrow> (k, v) \<in> set hs \<or>
     (\<exists>key. (key, v) \<in> set headers \<and> str_to_lower (take (length proxy_header_prefix) key) = proxy_header_prefix
        \<and> key = take (length proxy_header_prefix) key @ k \<and> k \<noteq> [])"
proof (induction headers arbitrary: hs)
  case (Cons h headers)
  have o: "(k, v) \<in> set (omap_set k' v' m) \<Longrightarrow> (k, v) = (k', v') \<or> (k, v) \<in> set m" for k' v' and m :: "(string \<times> string) list"
    by (induction k' v' m rule: omap_set.induct) (auto split: if_splits)
  obtain key w where h: "h = (key, w)" by force
  from Cons.IH [of "cors_header h hs"] Cons.prems show ?case
    by (auto simp: h Let_def starts_with_def str_to_lower_def take_map dest!: o split: if_splits)
qed simp

lemma effective_body_type:
  "effective_body E body files = Inr (b, ov) \<Longrightarrow> (files = [] \<longrightarrow> ov = []) \<and> (files \<noteq> [] \<longrightarrow> prefix ''multipart/form-data; boundary='' ov)"
  by (auto simp: effective_body_def rbind_Inr_iff Let_def split: if_splits option.splits)

text \<open>
  Property C20. The CORS proxy goes only to \<open>http\<close> and \<open>https\<close> URLs without a password, and sends on only
  headers the page marked with the prefix, which is taken off: no cookie, key or other header the
  browser adds to the request reaches the target.  Encoding and length headers are dropped even when
  marked, a host header always names the target, and with files the only content type is that of the
  rebuilt body.
\<close>

theorem cors_proxy_forwards_marked_only:
  assumes "proxy_request E parse_url req method = Inr hr"
  shows "\<exists>url. parse_url (get_param ''url'' [] req) = Inr url \<and> ur_host url \<noteq> [] \<and> ur_password url = []
    \<and> ur_scheme url \<in> {''http'', ''https''}
    \<and> (\<forall>(k, v) \<in> set (hr_headers hr).
        (\<exists>key w. (key, w) \<in> set (cr_headers req) \<and> str_to_lower (take (length proxy_header_prefix) key) = proxy_header_prefix
           \<and> key = take (length proxy_header_prefix) key @ k \<and> \<not> dropped_header k
           \<and> (cr_files req \<noteq> [] \<longrightarrow> str_to_lower k \<noteq> ''content-type'')
           \<and> v = (if str_to_lower k = ''host'' then host_value (pe_format_host E) (ur_scheme url) (ur_host url) (ur_port url) else w))
        \<or> k = ''Content-Type'' \<and> (if cr_files req = [] then v = ''application/json; charset=utf-8'' else prefix ''multipart/form-data; boundary='' v))"
proof -
  obtain url where u: "parse_url (get_param ''url'' [] req) = Inr url" "ur_host url \<noteq> []" "ur_password url = []"
      "ur_scheme url \<in> {''http'', ''https''}"
      and p: "\<exists>path. prepare_request E method (ur_scheme url) (ur_host url) (ur_port url) path
        (fold cors_header (cr_headers req) []) (cr_body req) (cr_files req) = Inr hr"
    using assms by (auto simp: proxy_request_def rbind_Inr_iff Let_def split: if_splits)
  let ?hs = "fold cors_header (cr_headers req) []"
  obtain b ov0 where e: "effective_body E (cr_body req) (cr_files req) = Inr (b, ov0)"
    using p by (auto simp: prepare_request_def rbind_Inr_iff split: if_splits)
  obtain hs ov where f: "fold (forward_header (pe_format_host E) (ur_scheme url) (ur_host url) (ur_port url) (cr_files req \<noteq> [])) ?hs ([], ov0) = (hs, ov)"
    by force
  have h: "hr_headers hr = hs @ (if ov \<noteq> [] then [(''Content-Type'', ov)] else [])"
    using p e f by (auto simp: prepare_request_def split: if_splits)
  have m: "(k, w) \<in> set ?hs \<Longrightarrow> \<exists>key. (key, w) \<in> set (cr_headers req)
      \<and> str_to_lower (take (length proxy_header_prefix) key) = proxy_header_prefix \<and> key = take (length proxy_header_prefix) key @ k" for k w
    using cors_headers_in [of k w "cr_headers req" "[]"] by auto
  let ?P = "\<lambda>k v. (\<exists>key w. (key, w) \<in> set (cr_headers req) \<and> str_to_lower (take (length proxy_header_prefix) key) = proxy_header_prefix
           \<and> key = take (length proxy_header_prefix) key @ k \<and> \<not> dropped_header k
           \<and> (cr_files req \<noteq> [] \<longrightarrow> str_to_lower k \<noteq> ''content-type'')
           \<and> v = (if str_to_lower k = ''host'' then host_value (pe_format_host E) (ur_scheme url) (ur_host url) (ur_port url) else w))
        \<or> k = ''Content-Type'' \<and> (if cr_files req = [] then v = ''application/json; charset=utf-8'' else prefix ''multipart/form-data; boundary='' v)"
  have "?P k v" if kv: "(k, v) \<in> set (hr_headers hr)" for k v
  proof -
    consider (kept) "(k, v) \<in> set hs" | (type) "k = ''Content-Type''" "v = ov" "ov \<noteq> []"
      using kv by (auto simp: h split: if_splits)
    then show ?thesis
    proof cases
      case kept
      then obtain w where w: "(k, w) \<in> set ?hs" "\<not> dropped_header k" "cr_files req \<noteq> [] \<longrightarrow> str_to_lower k \<noteq> ''content-type''"
          "v = (if str_to_lower k = ''host'' then host_value (pe_format_host E) (ur_scheme url) (ur_host url) (ur_port url) else w)"
        using forward_headers_in [OF f, of k v] by auto
      show ?thesis using m [OF w(1)] w(2-4) by blast
    next
      case type
      then show ?thesis using forward_headers_in [OF f] effective_body_type [OF e] by (auto split: if_splits)
    qed
  qed
  then show ?thesis
    using u by (intro exI [of _ url]) (simp only: split_paired_Ball_Sigma split_def, force)
qed

definition sample_proxy_env :: proxy_env where
  "sample_proxy_env = \<lparr>pe_openssl = False, pe_format_host = (\<lambda>h. h), pe_parse = (\<lambda>_. None), pe_items = (\<lambda>_. []), pe_dis = (\<lambda>_. 0)\<rparr>"

definition sample_url :: "string \<Rightarrow> url_t result" where
  "sample_url s = Inr \<lparr>ur_scheme = ''http'', ur_password = [], ur_host = s, ur_port = 80, ur_path = []\<rparr>"

definition sample_page :: cors_req where
  "sample_page = \<lparr>cr_params = [(''url'', ''mcp'')],
     cr_headers = [(''Cookie'', ''secret''), (''X-Llama-Server-Proxy-Header-Accept'', ''text''), (''x-llama-server-proxy-header-host'', ''evil'')],
     cr_body = ''{}'', cr_files = []\<rparr>"

theorem cors_proxy_forwards_marked_only_witness:
  "\<exists>hr. proxy_handler_post sample_proxy_env sample_url sample_page = Inr hr
     \<and> hr_headers hr = [(''Accept'', ''text''), (''host'', ''mcp'')]
     \<and> (\<exists>key. (key, ''text'') \<in> set (cr_headers sample_page) \<and> str_to_lower (take (length proxy_header_prefix) key) = proxy_header_prefix)"
proof -
  let ?hr = "\<lparr>hr_method = ''POST'', hr_path = ''/'', hr_headers = [(''Accept'', ''text''), (''host'', ''mcp'')], hr_body = ''{}''\<rparr>"
  have r: "proxy_request sample_proxy_env sample_url sample_page ''POST'' = Inr ?hr"
    by code_simp
  have l: "str_to_lower ''Accept'' \<noteq> ''host''" by code_simp
  have "(''Accept'', ''text'') \<in> set (hr_headers ?hr)" by simp
  then have "\<exists>key. (key, ''text'') \<in> set (cr_headers sample_page) \<and> str_to_lower (take (length proxy_header_prefix) key) = proxy_header_prefix"
    using cors_proxy_forwards_marked_only [OF r] l
    by (elim exE conjE) (drule (1) bspec, simp only: prod.case if_False, auto)
  then show ?thesis
    using r by (intro exI [of _ ?hr]) (simp add: proxy_handler_post_def)
qed

section \<open>The stream of the answer\<close>

text \<open>What the HTTP client calls back with: the headers, the chunks of the body, and the end.\<close>

datatype client_event = Cl_response http_response | Cl_chunk string | Cl_end "string + http_response"

record proxy_t =
  px_pipe :: "msg_t server_pipe"
  px_headers_sent :: bool
  px_ended :: bool
  px_started :: bool
  px_status :: int
  px_headers :: "(string \<times> string) list"
  px_content_type :: string

text \<open>\<open>px_ended\<close>: the thread of the client is over; \<open>px_started\<close>: the constructor is.\<close>

definition proxy_init :: proxy_t where
  "proxy_init = \<lparr>px_pipe = pipe_init 0, px_headers_sent = False, px_ended = False, px_started = False, px_status = 500,
     px_headers = [], px_content_type = ''application/json; charset=utf-8''\<rparr>"

definition write_msg :: "msg_t \<Rightarrow> proxy_t \<Rightarrow> bool \<times> proxy_t" where
  "write_msg m x = (let (ok, p) = pipe_write m (px_pipe x) in (ok, x\<lparr>px_pipe := p\<rparr>))"

definition header_msg :: "int \<Rightarrow> msg_t" where
  "header_msg status = \<lparr>ms_headers = [], ms_status = status, ms_data = [], ms_content_type = []\<rparr>"

definition data_msg :: "string \<Rightarrow> msg_t" where
  "data_msg d = \<lparr>ms_headers = [], ms_status = 0, ms_data = d, ms_content_type = []\<rparr>"

definition response_handler :: "http_response \<Rightarrow> proxy_t \<Rightarrow> bool \<times> proxy_t" where
  "response_handler response x = write_msg (make_header_msg response) (x\<lparr>px_headers_sent := True\<rparr>)"

definition content_receiver :: "string \<Rightarrow> proxy_t \<Rightarrow> bool \<times> proxy_t" where
  "content_receiver d x = write_msg (data_msg d) x"

definition client_end :: "string + http_response \<Rightarrow> proxy_t \<Rightarrow> proxy_t" where
  "client_end result x =
     (let x = (case result of
                 Inl err_str \<Rightarrow> snd (write_msg (data_msg (''proxy error: '' @ err_str)) (snd (write_msg (header_msg 500) x)))
               | Inr r \<Rightarrow> if \<not> px_headers_sent x then snd (write_msg (make_header_msg r) x) else x)
      in x\<lparr>px_pipe := close_write (px_pipe x), px_ended := True\<rparr>)"

text \<open>The end of the constructor: one turn of waiting for the first message.\<close>

definition read_header :: "bool \<Rightarrow> proxy_t \<Rightarrow> proxy_t" where
  "read_header should_stop x =
     (let (res, p) = pipe_read should_stop True (px_pipe x);
          x = x\<lparr>px_pipe := p\<rparr>
      in case res of
           Got header \<Rightarrow>
             x\<lparr>px_started := True, px_status := ms_status header, px_headers := ms_headers header,
               px_content_type := (if ms_content_type header \<noteq> [] then ms_content_type header else px_content_type x)\<rparr>
         | Waiting \<Rightarrow> x
         | _ \<Rightarrow> x\<lparr>px_started := True\<rparr>)"

text \<open>\<open>next\<close>: \<open>None\<close> is another turn of waiting.\<close>

definition next_chunk :: "bool \<Rightarrow> string \<Rightarrow> proxy_t \<Rightarrow> (bool \<times> string) option \<times> proxy_t" where
  "next_chunk should_stop out x =
     (let (res, p) = pipe_read should_stop True (px_pipe x);
          x = x\<lparr>px_pipe := p\<rparr>
      in case res of
           Got msg \<Rightarrow> (Some (True, if ms_data msg \<noteq> [] then ms_data msg else out), x)
         | Waiting \<Rightarrow> (None, x)
         | _ \<Rightarrow> (Some (False, out), x))"

definition cleanup_pipes :: "proxy_t \<Rightarrow> proxy_t" where
  "cleanup_pipes x = x\<lparr>px_pipe := close_write (close_read (px_pipe x))\<rparr>"

text \<open>
  The proxy with its threads: the client thread, the reader, who asks for the headers and then for
  chunk after chunk, and the clean-up.  \<open>pv_out\<close> are the chunks the reader got, \<open>pv_end\<close> says that it
  was told there are no more.
\<close>

datatype proxy_op = Client client_event | Reader bool | Cleanup

record proxy_run =
  pv_proxy :: proxy_t
  pv_out :: "string list"
  pv_end :: bool

definition run_client :: "client_event \<Rightarrow> proxy_t \<Rightarrow> proxy_t" where
  "run_client e x =
     (if px_ended x then x
      else case e of
             Cl_response r \<Rightarrow> snd (response_handler r x)
           | Cl_chunk d \<Rightarrow> snd (content_receiver d x)
           | Cl_end result \<Rightarrow> client_end result x)"

fun run_op :: "proxy_op \<Rightarrow> proxy_run \<Rightarrow> proxy_run" where
  "run_op (Client e) v = v\<lparr>pv_proxy := run_client e (pv_proxy v)\<rparr>"
| "run_op (Reader stop) v =
     (if \<not> px_started (pv_proxy v) then v\<lparr>pv_proxy := read_header stop (pv_proxy v)\<rparr>
      else case next_chunk stop [] (pv_proxy v) of
             (None, x) \<Rightarrow> v\<lparr>pv_proxy := x\<rparr>
           | (Some (got_one, out), x) \<Rightarrow>
               v\<lparr>pv_proxy := x, pv_out := pv_out v @ (if got_one then [out] else []), pv_end := \<not> got_one \<or> pv_end v\<rparr>)"
| "run_op Cleanup v = v\<lparr>pv_proxy := cleanup_pipes (pv_proxy v)\<rparr>"

definition run_proxy :: "proxy_op list \<Rightarrow> proxy_run" where
  "run_proxy ops = fold run_op ops \<lparr>pv_proxy = proxy_init, pv_out = [], pv_end = False\<rparr>"

text \<open>The messages the client thread means to send.\<close>

fun is_end :: "client_event \<Rightarrow> bool" where
  "is_end (Cl_end _) = True"
| "is_end _ = False"

fun is_response :: "client_event \<Rightarrow> bool" where
  "is_response (Cl_response _) = True"
| "is_response _ = False"

fun event_msgs :: "bool \<Rightarrow> client_event \<Rightarrow> msg_t list" where
  "event_msgs sent (Cl_response r) = [make_header_msg r]"
| "event_msgs sent (Cl_chunk d) = [data_msg d]"
| "event_msgs sent (Cl_end (Inl e)) = [header_msg 500, data_msg (''proxy error: '' @ e)]"
| "event_msgs sent (Cl_end (Inr r)) = (if sent then [] else [make_header_msg r])"

fun msgs_of :: "bool \<Rightarrow> client_event list \<Rightarrow> msg_t list" where
  "msgs_of sent [] = []"
| "msgs_of sent (e # es) = event_msgs sent e @ (if is_end e then [] else msgs_of (sent \<or> is_response e) es)"

fun events :: "proxy_op list \<Rightarrow> client_event list" where
  "events [] = []"
| "events (Client e # ops) = e # events ops"
| "events (_ # ops) = events ops"

lemma msgs_of_snoc:
  "msgs_of sent (es @ [e]) =
     msgs_of sent es @ (if list_ex is_end es then [] else event_msgs (sent \<or> list_ex is_response es) e)"
  by (induction es arbitrary: sent) auto

lemma events_append [simp]: "events (ops @ ops') = events ops @ events ops'"
  by (induction ops rule: events.induct) auto

lemma run_client_effect:
  assumes "\<not> px_ended x" "pi_max_size (px_pipe x) = 0"
  shows "pi_queue (px_pipe (run_client e x)) =
        pi_queue (px_pipe x) @ (if pi_reader_closed (px_pipe x) then [] else event_msgs (px_headers_sent x) e)"
    and "pi_reader_closed (px_pipe (run_client e x)) = pi_reader_closed (px_pipe x)"
    and "pi_max_size (px_pipe (run_client e x)) = 0"
    and "pi_writer_closed (px_pipe (run_client e x)) \<longleftrightarrow> pi_writer_closed (px_pipe x) \<or> is_end e"
    and "px_ended (run_client e x) \<longleftrightarrow> is_end e"
    and "px_headers_sent (run_client e x) \<longleftrightarrow> px_headers_sent x \<or> is_response e"
    and "px_started (run_client e x) = px_started x" "px_status (run_client e x) = px_status x" "px_headers (run_client e x) = px_headers x"
    and "px_content_type (run_client e x) = px_content_type x"
  using assms
  by (cases e; auto simp: run_client_def response_handler_def content_receiver_def client_end_def write_msg_def pipe_write_def
      close_write_def split: sum.splits)+

text \<open>
  The reader has seen \<open>k\<close> of the \<open>n\<close> messages that went into the pipe, and the rest of those is in
  the queue; without a reader the later messages are lost.
\<close>

definition default_type :: string where
  "default_type = ''application/json; charset=utf-8''"

definition type_or_default :: "string \<Rightarrow> string" where
  "type_or_default c = (if c \<noteq> [] then c else default_type)"

definition seen_ok :: "nat \<Rightarrow> nat \<Rightarrow> msg_t list \<Rightarrow> proxy_run \<Rightarrow> bool" where
  "seen_ok k n ms v \<longleftrightarrow>
     (let x = pv_proxy v; p = px_pipe x
      in k \<le> n \<and> n \<le> length ms \<and> pi_queue p = drop k (take n ms) \<and> (\<not> pi_reader_closed p \<longrightarrow> n = length ms)
         \<and> (k = 0 \<longrightarrow> pv_out v = [] \<and> px_status x = 500 \<and> px_content_type x = default_type \<and> (px_started x \<longrightarrow> n = 0 \<and> (pi_reader_closed p \<or> px_ended x)))
         \<and> (0 < k \<longrightarrow> px_started x \<and> px_status x = ms_status (hd ms) \<and> px_headers x = ms_headers (hd ms)
              \<and> px_content_type x = type_or_default (ms_content_type (hd ms)) \<and> pv_out v = map ms_data (take (k - 1) (tl ms)))
         \<and> (pv_end v \<longrightarrow> pi_reader_closed p \<or> k = length ms \<and> px_ended x))"

definition proxy_inv :: "client_event list \<Rightarrow> proxy_run \<Rightarrow> bool" where
  "proxy_inv es v \<longleftrightarrow>
     (let x = pv_proxy v; p = px_pipe x
      in (px_ended x \<longleftrightarrow> list_ex is_end es) \<and> (\<not> px_ended x \<longrightarrow> (px_headers_sent x \<longleftrightarrow> list_ex is_response es)) \<and> pi_max_size p = 0
         \<and> (pi_writer_closed p \<longrightarrow> px_ended x \<or> pi_reader_closed p) \<and> (\<exists>k n. seen_ok k n (msgs_of False es) v))"

lemma seen_ok_append:
  assumes "seen_ok k n ms v" "\<not> px_ended (pv_proxy v)" "px_started x = px_started (pv_proxy v)" "px_status x = px_status (pv_proxy v)"
    "px_headers x = px_headers (pv_proxy v)" "px_content_type x = px_content_type (pv_proxy v)" "pi_reader_closed (px_pipe x) = pi_reader_closed (px_pipe (pv_proxy v))"
    "pi_queue (px_pipe x) = pi_queue (px_pipe (pv_proxy v)) @ (if pi_reader_closed (px_pipe x) then [] else new)"
  shows "seen_ok k (if pi_reader_closed (px_pipe x) then n else length (ms @ new)) (ms @ new) (v\<lparr>pv_proxy := x\<rparr>)"
proof -
  have kn: "k \<le> n" "n \<le> length ms" using assms(1) by (auto simp: seen_ok_def Let_def)
  have l: "drop k (take n (ms @ new)) = drop k (take n ms)" "drop k (ms @ new) = drop k ms @ new"
    using kn by simp_all
  have h: "hd (ms @ new) = hd ms" "take (k - 1) (tl (ms @ new)) = take (k - 1) (tl ms)" if "0 < k"
    using kn that by (cases ms; simp)+
  show ?thesis
  proof (cases "pi_reader_closed (px_pipe x)")
    case True
    then show ?thesis
      using assms kn l h by (simp add: seen_ok_def Let_def)
  next
    case False
    then have "n = length ms" using assms(1,7) by (simp add: seen_ok_def Let_def)
    then show ?thesis
      using False assms kn l h by (simp add: seen_ok_def Let_def)
  qed
qed

lemma proxy_inv_client:
  assumes "proxy_inv es v"
  shows "proxy_inv (es @ [e]) (run_op (Client e) v)"
proof (cases "px_ended (pv_proxy v)")
  case True
  then show ?thesis
    using assms by (simp add: proxy_inv_def Let_def run_client_def msgs_of_snoc)
next
  case False
  let ?x = "pv_proxy v" and ?ms = "msgs_of False es"
  have inv: "pi_max_size (px_pipe ?x) = 0" "\<not> list_ex is_end es" "px_headers_sent ?x \<longleftrightarrow> list_ex is_response es"
      "pi_writer_closed (px_pipe ?x) \<longrightarrow> pi_reader_closed (px_pipe ?x)"
    using assms False by (simp_all add: proxy_inv_def Let_def)
  obtain k n where s: "seen_ok k n ?ms v" using assms by (auto simp: proxy_inv_def Let_def)
  have m: "msgs_of False (es @ [e]) = ?ms @ event_msgs (px_headers_sent ?x) e" using inv by (simp add: msgs_of_snoc)
  note r = run_client_effect [OF False inv(1), of e]
  have "\<exists>k n. seen_ok k n (msgs_of False (es @ [e])) (run_op (Client e) v)"
    using seen_ok_append [OF s False r(7-10) r(2), of "event_msgs (px_headers_sent ?x) e"] r(1,2)
    by (simp only: m run_op.simps) blast
  then show ?thesis
    using inv r by (auto simp: proxy_inv_def Let_def)
qed

lemma reader_waits:
  fixes v :: proxy_run and stop :: bool
  assumes "pi_queue (px_pipe (pv_proxy v)) = []"
  defines "w \<equiv> run_op (Reader stop) v" and "c \<equiv> pi_writer_closed (px_pipe (pv_proxy v))"
  shows "px_pipe (pv_proxy w) = (if \<not> c \<and> stop then close_read (px_pipe (pv_proxy v)) else px_pipe (pv_proxy v))"
    and "px_started (pv_proxy w) \<longleftrightarrow> px_started (pv_proxy v) \<or> c \<or> stop"
    and "px_status (pv_proxy w) = px_status (pv_proxy v)" "px_headers (pv_proxy w) = px_headers (pv_proxy v)"
    and "px_content_type (pv_proxy w) = px_content_type (pv_proxy v)" and "px_ended (pv_proxy w) = px_ended (pv_proxy v)" "px_headers_sent (pv_proxy w) = px_headers_sent (pv_proxy v)"
    and "pv_out w = pv_out v" "pv_end w \<longleftrightarrow> pv_end v \<or> px_started (pv_proxy v) \<and> (c \<or> stop)"
  using assms by (simp_all add: pipe_read_def read_header_def next_chunk_def Let_def)

lemma reader_gets:
  fixes v :: proxy_run and stop :: bool
  assumes "pi_queue (px_pipe (pv_proxy v)) = m # q"
  defines "w \<equiv> run_op (Reader stop) v"
  shows "px_pipe (pv_proxy w) = (px_pipe (pv_proxy v))\<lparr>pi_queue := q\<rparr>"
    and "px_started (pv_proxy w)" "px_ended (pv_proxy w) = px_ended (pv_proxy v)" "px_headers_sent (pv_proxy w) = px_headers_sent (pv_proxy v)"
    and "px_status (pv_proxy w) = (if px_started (pv_proxy v) then px_status (pv_proxy v) else ms_status m)"
    and "px_headers (pv_proxy w) = (if px_started (pv_proxy v) then px_headers (pv_proxy v) else ms_headers m)"
    and "px_content_type (pv_proxy w) =
      (if px_started (pv_proxy v) \<or> ms_content_type m = [] then px_content_type (pv_proxy v) else ms_content_type m)"
    and "pv_out w = pv_out v @ (if px_started (pv_proxy v) then [ms_data m] else [])" "pv_end w = pv_end v"
  using assms by (simp_all add: pipe_read_def read_header_def next_chunk_def Let_def)

lemma proxy_inv_reader:
  assumes "proxy_inv es v"
  shows "proxy_inv es (run_op (Reader stop) v)"
proof -
  let ?x = "pv_proxy v" and ?ms = "msgs_of False es"
  let ?p = "px_pipe ?x"
  obtain k n where s: "seen_ok k n ?ms v" using assms by (auto simp: proxy_inv_def Let_def)
  have kn: "k \<le> n" "n \<le> length ?ms" "pi_queue ?p = drop k (take n ?ms)" using s by (simp_all add: seen_ok_def Let_def)
  have inv: "px_ended ?x \<longleftrightarrow> list_ex is_end es" "\<not> px_ended ?x \<longrightarrow> (px_headers_sent ?x \<longleftrightarrow> list_ex is_response es)"
      "pi_max_size ?p = 0" "pi_writer_closed ?p \<longrightarrow> px_ended ?x \<or> pi_reader_closed ?p"
    using assms by (auto simp: proxy_inv_def Let_def)
  show ?thesis
  proof (cases "pi_queue ?p")
    case Nil
    note r = reader_waits [OF Nil, of stop]
    have "k = n" using kn Nil by simp
    have "seen_ok k n ?ms (run_op (Reader stop) v)"
      using s inv(4) \<open>k = n\<close> by (simp add: seen_ok_def Let_def r close_read_def del: run_op.simps) blast
    then have "\<exists>k n. seen_ok k n ?ms (run_op (Reader stop) v)" by blast
    then show ?thesis
      using inv by (simp add: proxy_inv_def Let_def r close_read_def del: run_op.simps)
  next
    case (Cons m q)
    note r = reader_gets [OF Cons, of stop]
    have k: "k < n" using kn Cons by (cases "k = n") auto
    then have "drop k (take n ?ms) = ?ms ! k # drop (Suc k) (take n ?ms)"
      using kn by (simp add: Cons_nth_drop_Suc [symmetric])
    then have m: "m = ?ms ! k" and q: "q = drop (Suc k) (take n ?ms)"
      using kn(3) Cons by simp_all
    have h: "k = 0 \<Longrightarrow> m = hd ?ms" using k kn m by (cases ?ms) auto
    have o: "take k (tl ?ms) = take (k - 1) (tl ?ms) @ [m]" if "0 < k"
      using that k kn m by (cases k) (auto simp: take_Suc_conv_app_nth nth_tl)
    have e: "pv_end v \<longrightarrow> pi_reader_closed ?p"
      using s k kn(2) by (auto simp: seen_ok_def Let_def)
    have "seen_ok (Suc k) n ?ms (run_op (Reader stop) v)"
      using s k q h o e by (cases "k = 0") (simp_all add: seen_ok_def Let_def r type_or_default_def del: run_op.simps)
    then have "\<exists>k n. seen_ok k n ?ms (run_op (Reader stop) v)" by blast
    then show ?thesis
      using inv by (simp add: proxy_inv_def Let_def r del: run_op.simps)
  qed
qed

lemma proxy_inv_cleanup: "proxy_inv es v \<Longrightarrow> proxy_inv es (run_op Cleanup v)"
  by (auto simp: proxy_inv_def seen_ok_def Let_def cleanup_pipes_def close_read_def close_write_def)

lemma proxy_inv_run: "proxy_inv (events ops) (run_proxy ops)"
proof (induction ops rule: rev_induct)
  case Nil
  have "seen_ok 0 0 [] (run_proxy [])"
    by (simp add: seen_ok_def run_proxy_def proxy_init_def pipe_init_def default_type_def)
  then show ?case
    by (auto simp: proxy_inv_def Let_def run_proxy_def proxy_init_def pipe_init_def)
next
  case (snoc a ops)
  have "run_proxy (ops @ [a]) = run_op a (run_proxy ops)" by (simp add: run_proxy_def)
  then show ?case
    using snoc proxy_inv_client proxy_inv_reader proxy_inv_cleanup by (cases a) (simp_all del: run_op.simps)
qed

lemma data_msg_id [simp]: "ms_data (data_msg d) = d" "ms_data (header_msg c) = []"
  by (simp_all add: data_msg_def header_msg_def)

lemma ms_data_comp [simp]: "ms_data \<circ> data_msg = id"
  by (simp add: fun_eq_iff)

text \<open>
  What the client is to see of the headers of the other server: the last value under each name but those
  the proxy must not repeat, and the content type by itself.
\<close>

definition passed_on :: "string \<Rightarrow> bool" where
  "passed_on k \<longleftrightarrow> str_to_lower k \<notin> {''server'', ''transfer-encoding'', ''content-length'', ''keep-alive'', ''content-type''}
     \<and> \<not> prefix ''access-control-'' (str_to_lower k)"

definition values_of :: "string \<Rightarrow> (string \<times> string) list \<Rightarrow> string list" where
  "values_of k hs = map snd (filter (\<lambda>h. fst h = k) hs)"

definition types_of :: "(string \<times> string) list \<Rightarrow> string list" where
  "types_of hs = map snd (filter (\<lambda>h. str_to_lower (fst h) = ''content-type'') hs)"

definition last_of :: "'a list \<Rightarrow> 'a option" where
  "last_of xs = (if xs = [] then None else Some (last xs))"

lemma last_of_simps [simp]: "last_of [] = None" "last_of (x # xs) = (case last_of xs of None \<Rightarrow> Some x | Some y \<Rightarrow> Some y)"
  by (auto simp: last_of_def)

lemma starts_with_prefix: "starts_with s p \<longleftrightarrow> prefix p s"
  by (auto simp: starts_with_def prefix_def append_eq_conv_conj) (metis append_take_drop_id)

lemma stripped_iff: "str_to_lower k \<noteq> ''content-type'' \<Longrightarrow> should_strip_proxy_header (str_to_lower k) \<longleftrightarrow> \<not> passed_on k"
  unfolding should_strip_proxy_header_def passed_on_def starts_with_prefix by blast

lemma content_type_kept [simp]: "\<not> should_strip_proxy_header ''content-type''" "str_to_lower k = ''content-type'' \<Longrightarrow> \<not> passed_on k"
  by (simp_all add: should_strip_proxy_header_def passed_on_def starts_with_def)

lemma copied_headers:
  "map_of (ms_headers (fold copy_header hs m)) k =
     (if passed_on k then case last_of (values_of k hs) of None \<Rightarrow> map_of (ms_headers m) k | Some v \<Rightarrow> Some v
      else map_of (ms_headers m) k)"
proof (induction hs arbitrary: m)
  case (Cons h hs)
  obtain key v where h: "h = (key, v)" by force
  show ?case
  proof (cases "str_to_lower key = ''content-type''")
    case True
    then have "key = k \<longrightarrow> \<not> passed_on k" by auto
    then show ?thesis
      using True Cons.IH by (auto simp: h values_of_def Let_def split: option.splits)
  next
    case False
    then show ?thesis
      using Cons.IH stripped_iff [OF False] by (auto simp: h values_of_def Let_def split: option.splits)
  qed
qed (simp add: values_of_def)

lemma copied_type:
  "ms_content_type (fold copy_header hs m) = (case last_of (types_of hs) of None \<Rightarrow> ms_content_type m | Some v \<Rightarrow> v)"
proof (induction hs arbitrary: m)
  case (Cons h hs)
  obtain key v where h: "h = (key, v)" by force
  show ?case
    using Cons.IH by (auto simp: h types_of_def Let_def split: option.splits)
qed (simp add: types_of_def)

lemma copied_headers_ok: "omap_ok (ms_headers m) \<Longrightarrow> omap_ok (ms_headers (fold copy_header hs m))"
proof (induction hs arbitrary: m)
  case (Cons h hs)
  then show ?case by (cases h) (simp add: Let_def omap_ok_set)
qed simp

lemma header_msg_status: "ms_status (fold copy_header hs m) = ms_status m"
proof (induction hs arbitrary: m)
  case (Cons h hs)
  then show ?case by (cases h) (simp add: Let_def)
qed simp

text \<open>What the end adds to the body.\<close>

fun body_end :: "client_event list \<Rightarrow> string list" where
  "body_end (Cl_end (Inl e) # _) = [[], ''proxy error: '' @ e]"
| "body_end _ = []"

lemma msgs_of_chunks: "msgs_of True (map Cl_chunk ds @ es) = map data_msg ds @ msgs_of True es"
  by (induction ds) auto

lemma msgs_of_end: "fin = [] \<or> (\<exists>res. fin = [Cl_end res]) \<Longrightarrow> map ms_data (msgs_of True fin) = body_end fin"
  by (elim disjE exE; simp) (case_tac res; simp)

text \<open>What the reader has of the answer \<open>r\<close> once it has got the header message.\<close>

definition shows_answer :: "http_response \<Rightarrow> proxy_t \<Rightarrow> bool" where
  "shows_answer r x \<longleftrightarrow>
     px_status x = hs_status r
     \<and> omap_ok (px_headers x)
     \<and> (\<forall>k. map_of (px_headers x) k = (if passed_on k then last_of (values_of k (hs_headers r)) else None))
     \<and> px_content_type x = (case last_of (types_of (hs_headers r)) of None \<Rightarrow> default_type | Some c \<Rightarrow> type_or_default c)"

lemma header_msg_shows:
  assumes "px_status x = hs_status r" "px_headers x = ms_headers (make_header_msg r)"
    "px_content_type x = type_or_default (ms_content_type (make_header_msg r))"
  shows "shows_answer r x"
  using assms
  by (simp add: shows_answer_def make_header_msg_def copied_headers copied_type copied_headers_ok type_or_default_def split: option.split)

text \<open>
  Property C19. In every interleaving of the client thread, the reader and the clean-up, the reader of a
  proxied answer gets its status, exactly its headers but those the proxy must not repeat, under a
  repeated name the last value, its content type, or the type of JSON if it gives none, and then its
  chunks in order, none twice and none left out in between; when it is told that there are no more
  although nobody stopped it, it has all of them.  A connection that breaks after the headers looks
  the same, but for a text behind the body.
\<close>

theorem proxy_streams_response:
  assumes "events ops = Cl_response r # map Cl_chunk ds @ fin" "fin = [] \<or> (\<exists>res. fin = [Cl_end res])"
  shows "prefix (pv_out (run_proxy ops)) (ds @ body_end fin)
    \<and> (pv_out (run_proxy ops) \<noteq> [] \<or> px_started (pv_proxy (run_proxy ops)) \<and> \<not> pi_reader_closed (px_pipe (pv_proxy (run_proxy ops))) \<longrightarrow>
        shows_answer r (pv_proxy (run_proxy ops)))
    \<and> (pv_end (run_proxy ops) \<and> \<not> pi_reader_closed (px_pipe (pv_proxy (run_proxy ops))) \<longrightarrow>
        pv_out (run_proxy ops) = ds @ body_end fin \<and> fin \<noteq> [])"
proof -
  let ?v = "run_proxy ops" and ?ms = "msgs_of False (events ops)"
  obtain ms where m: "?ms = make_header_msg r # ms" "map ms_data ms = ds @ body_end fin"
  proof
    show "?ms = make_header_msg r # map data_msg ds @ msgs_of True fin"
      by (simp add: assms(1) msgs_of_chunks)
    show "map ms_data (map data_msg ds @ msgs_of True fin) = ds @ body_end fin"
      using msgs_of_end [OF assms(2)] by simp
  qed
  obtain k n where s: "seen_ok k n ?ms ?v" and w: "px_ended (pv_proxy ?v) \<longleftrightarrow> list_ex is_end (events ops)"
    using proxy_inv_run [of ops] by (auto simp: proxy_inv_def Let_def)
  have f: "list_ex is_end (events ops) \<longrightarrow> fin \<noteq> []"
    using assms by (auto simp: list_ex_iff)
  have h: "ms_status (make_header_msg r) = hs_status r"
    by (simp add: make_header_msg_def header_msg_status)
  show ?thesis
  proof (cases "k = 0")
    case True
    then show ?thesis using s m by (auto simp: seen_ok_def Let_def)
  next
    case False
    then have "pv_out ?v = take (k - 1) (ds @ body_end fin)" "shows_answer r (pv_proxy ?v)"
        "pv_end ?v \<longrightarrow> pi_reader_closed (px_pipe (pv_proxy ?v)) \<or> k = Suc (length ms) \<and> px_ended (pv_proxy ?v)"
      using s m h header_msg_shows [of "pv_proxy ?v" r] by (auto simp: seen_ok_def Let_def simp flip: take_map)
    moreover from this have "prefix (pv_out ?v) (ds @ body_end fin)" by (simp only: take_is_prefix)
    moreover have "length (ds @ body_end fin) = length ms" using m(2) by (metis length_map)
    ultimately show ?thesis
      using w f by auto
  qed
qed

definition sample_answer :: http_response where
  "sample_answer = \<lparr>hs_status = 201, hs_headers = [(''Server'', ''c''), (''X-Id'', ''7''), (''Content-Type'', ''text/event-stream'')]\<rparr>"

definition sample_ops :: "proxy_op list" where
  "sample_ops = [Reader False, Client (Cl_response sample_answer), Client (Cl_chunk ''a''), Reader False, Reader False,
     Client (Cl_chunk ''b''), Client (Cl_end (Inr sample_answer)), Reader False, Reader False]"

theorem proxy_streams_response_witness:
  "pv_out (run_proxy sample_ops) = [''a'', ''b''] \<and> px_status (pv_proxy (run_proxy sample_ops)) = 201
   \<and> map_of (px_headers (pv_proxy (run_proxy sample_ops))) ''X-Id'' = Some ''7''
   \<and> map_of (px_headers (pv_proxy (run_proxy sample_ops))) ''Server'' = None
   \<and> px_content_type (pv_proxy (run_proxy sample_ops)) = ''text/event-stream''"
proof -
  have e: "events sample_ops = Cl_response sample_answer # map Cl_chunk [''a'', ''b''] @ [Cl_end (Inr sample_answer)]"
    by (simp add: sample_ops_def)
  have r: "pv_end (run_proxy sample_ops)" "\<not> pi_reader_closed (px_pipe (pv_proxy (run_proxy sample_ops)))"
    by code_simp+
  have p: "passed_on ''X-Id''" "\<not> passed_on ''Server''"
      "last_of (values_of ''X-Id'' (hs_headers sample_answer)) = Some ''7''"
      "last_of (types_of (hs_headers sample_answer)) = Some ''text/event-stream''"
    by code_simp+
  show ?thesis
    using proxy_streams_response [OF e] r p by (simp add: shows_answer_def type_or_default_def) (simp add: sample_answer_def)
qed

text \<open>A connection that breaks in the middle: the client sees a complete answer with the error in it.\<close>

lemma broken_stream_looks_complete:
  "let v = run_proxy [Client (Cl_response sample_answer), Client (Cl_chunk ''a''), Client (Cl_end (Inl ''Read'')),
       Reader False, Reader False, Reader False, Reader False, Reader False]
   in pv_end v \<and> px_status (pv_proxy v) = 201 \<and> concat (pv_out v) = ''aproxy error: Read''"
  by code_simp

end
