(* ===== verification/Input.thy ===== *)
theory Input
  imports Tokens Lora Tools "HOL-Library.Signed_Division" "HOL-Library.Sublist"
begin

text \<open>
  From the body of a request to the tokens of a prompt (server-common.cpp): prompts of strings, tokens
  and media, the parameters of the OpenAI routes with the files a chat refers to, and the prompts for
  infilling and reranking.  The tokenizer, the media library, the chat templates and the transfer of
  remote files are parameters; \<open>Throw ''json''\<close> stands for the errors of the JSON library.
\<close>

section \<open>Prompts\<close>

fun json_is_array_of_numbers :: "json \<Rightarrow> bool" where
  "json_is_array_of_numbers (JArr vs) = list_all (\<lambda>e. case e of JInt _ \<Rightarrow> True | _ \<Rightarrow> False) vs"
| "json_is_array_of_numbers _ = False"

definition is_str :: "json \<Rightarrow> bool" where
  "is_str j = (case j of JStr _ \<Rightarrow> True | _ \<Rightarrow> False)"

definition is_int :: "json \<Rightarrow> bool" where
  "is_int j = (case j of JInt _ \<Rightarrow> True | _ \<Rightarrow> False)"

fun seen_mixed :: "bool \<Rightarrow> bool \<Rightarrow> json list \<Rightarrow> bool" where
  "seen_mixed seen_string seen_number [] = False"
| "seen_mixed seen_string seen_number (e # es) =
     (let seen_string = (seen_string \<or> is_str e);
          seen_number = (seen_number \<or> is_int e)
      in if seen_number \<and> seen_string then True else seen_mixed seen_string seen_number es)"

fun json_is_array_of_mixed_numbers_strings :: "json \<Rightarrow> bool" where
  "json_is_array_of_mixed_numbers_strings (JArr vs) = seen_mixed False False vs"
| "json_is_array_of_mixed_numbers_strings _ = False"

fun json_is_array_and_contains_numbers :: "json \<Rightarrow> bool" where
  "json_is_array_and_contains_numbers (JArr vs) = list_ex is_int vs"
| "json_is_array_and_contains_numbers _ = False"

text \<open>
  What is outside: \<open>ie_tokenize\<close> is \<open>common_tokenize\<close> with the special tokens added and parsed,
  \<open>ie_get_token\<close> the typed read of a token, \<open>ie_bitmap\<close> says whether a file can be loaded,
  \<open>ie_chunks\<close> is \<open>mtmd_tokenize\<close>, \<open>None\<close> for an error.
\<close>

record 'c input_env =
  ie_tokenize :: "string \<Rightarrow> bool \<Rightarrow> bool \<Rightarrow> llama_token list"
  ie_get_token :: "json \<Rightarrow> llama_token option"
  ie_mctx :: bool
  ie_mtmd :: "'c mtmd"
  ie_bitmap :: "bool \<Rightarrow> byte list \<Rightarrow> bool"
  ie_chunks :: "string \<Rightarrow> bool \<Rightarrow> byte list list \<Rightarrow> 'c list option"

definition get_token :: "'c input_env \<Rightarrow> json \<Rightarrow> llama_token result" where
  "get_token E j = (case ie_get_token E j of Some t \<Rightarrow> Inr t | None \<Rightarrow> Inl (Throw ''json''))"

definition get_string :: "json \<Rightarrow> string result" where
  "get_string j = (case get_str j of Some s \<Rightarrow> Inr s | None \<Rightarrow> Inl (Throw ''json''))"

text \<open>The loop over the elements of a mixed prompt.\<close>

fun mixed_tokens :: "'c input_env \<Rightarrow> bool \<Rightarrow> bool \<Rightarrow> bool \<Rightarrow> json list \<Rightarrow> llama_token list result" where
  "mixed_tokens E add_special parse_special first [] = Inr []"
| "mixed_tokens E add_special parse_special first (p # ps) =
     rbind (if is_str p
            then rbind (get_string p) (\<lambda>s. Inr (ie_tokenize E s (if first then add_special else False) parse_special))
            else rbind (get_token E p) (\<lambda>t. Inr [t])) (\<lambda>ts.
       rbind (mixed_tokens E add_special parse_special False ps) (\<lambda>rest. Inr (ts @ rest)))"

definition tokenize_mixed :: "'c input_env \<Rightarrow> json \<Rightarrow> bool \<Rightarrow> bool \<Rightarrow> llama_token list result" where
  "tokenize_mixed E json_prompt add_special parse_special =
     (case json_prompt of
        JArr vs \<Rightarrow> mixed_tokens E add_special parse_special True vs
      | _ \<Rightarrow> rbind (get_string json_prompt) (\<lambda>s. Inr (ie_tokenize E s add_special parse_special)))"

definition process_mtmd_prompt :: "'c input_env \<Rightarrow> string \<Rightarrow> byte list list \<Rightarrow> bool \<Rightarrow> 'c server_tokens result" where
  "process_mtmd_prompt E prompt files is_placeholder =
     (if \<not> list_all (ie_bitmap E is_placeholder) files then Inl (Throw ''Failed to load image or audio file'')
      else case ie_chunks E prompt is_placeholder files of
             None \<Rightarrow> Inl (Throw ''Failed to tokenize prompt'')
           | Some chunks \<Rightarrow> st_of_chunks (ie_mtmd E) chunks True)"

text \<open>Iterating over a JSON value: the elements, the values of an object, or the value itself.\<close>

fun json_iter :: "json \<Rightarrow> json list" where
  "json_iter (JArr vs) = vs"
| "json_iter (JObj ms) = map snd ms"
| "json_iter JNull = []"
| "json_iter j = [j]"

fun base64_files :: "json list \<Rightarrow> byte list list result" where
  "base64_files [] = Inr []"
| "base64_files (e # es) = rbind (get_string e) (\<lambda>s. rbind (base64_files es) (\<lambda>fs. Inr (base64_decode s # fs)))"

fun read_tokens :: "'c input_env \<Rightarrow> json list \<Rightarrow> llama_token list result" where
  "read_tokens E [] = Inr []"
| "read_tokens E (v # vs) = rbind (get_token E v) (\<lambda>t. rbind (read_tokens E vs) (\<lambda>ts. Inr (t # ts)))"

definition get_tokens_array :: "'c input_env \<Rightarrow> json \<Rightarrow> llama_token list result" where
  "get_tokens_array E j = (case j of JArr vs \<Rightarrow> read_tokens E vs | _ \<Rightarrow> Inl (Throw ''json''))"

definition tokenize_input_subprompt :: "'c input_env \<Rightarrow> json \<Rightarrow> bool \<Rightarrow> bool \<Rightarrow> 'c server_tokens result" where
  "tokenize_input_subprompt E json_prompt add_special parse_special =
     (if is_str json_prompt \<or> json_is_array_of_mixed_numbers_strings json_prompt then
        rbind (tokenize_mixed E json_prompt add_special parse_special) (\<lambda>tmp. Inr (st_of_tokens tmp False))
      else if json_is_array_of_numbers json_prompt then
        rbind (get_tokens_array E json_prompt) (\<lambda>tmp. Inr (st_of_tokens tmp False))
      else case jfind ''prompt_string'' json_prompt of
        Some s \<Rightarrow>
          (case jfind ''multimodal_data'' json_prompt of
             Some data \<Rightarrow>
               if \<not> ie_mctx E then Inl (Throw ''Multimodal data provided, but model does not support multimodal requests.'')
               else rbind (base64_files (json_iter data)) (\<lambda>files.
                 rbind (get_string s) (\<lambda>s. process_mtmd_prompt E s files False))
           | None \<Rightarrow>
               rbind (tokenize_mixed E s add_special parse_special) (\<lambda>tmp. Inr (st_of_tokens tmp False)))
      | None \<Rightarrow>
          Inl (Throw (CHR 0x22 # ''prompt'' @ CHR 0x22 # '' elements must be a string, a list of tokens, a JSON object containing a prompt string, or a list of mixed strings & tokens.'')))"

fun subprompts :: "'c input_env \<Rightarrow> bool \<Rightarrow> bool \<Rightarrow> json list \<Rightarrow> 'c server_tokens list result" where
  "subprompts E add_special parse_special [] = Inr []"
| "subprompts E add_special parse_special (p # ps) =
     rbind (tokenize_input_subprompt E p add_special parse_special) (\<lambda>t.
       rbind (subprompts E add_special parse_special ps) (\<lambda>ts. Inr (t # ts)))"

definition tokenize_input_prompts :: "'c input_env \<Rightarrow> json \<Rightarrow> bool \<Rightarrow> bool \<Rightarrow> 'c server_tokens list result" where
  "tokenize_input_prompts E json_prompt add_special parse_special =
     rbind (subprompts E add_special parse_special
              (case json_prompt of
                 JArr vs \<Rightarrow> if json_is_array_and_contains_numbers json_prompt then [json_prompt] else vs
               | _ \<Rightarrow> [json_prompt])) (\<lambda>result.
       if result = [] then Inl (Throw (CHR 0x22 # ''prompt'' @ CHR 0x22 # '' must not be empty'')) else Inr result)"

section \<open>The prompt of an infill\<close>

text \<open>The tokens of the vocabulary; \<open>LLAMA_TOKEN_NULL\<close> is none.\<close>

record vocab_t =
  vo_fim_pre :: llama_token
  vo_fim_suf :: llama_token
  vo_fim_mid :: llama_token
  vo_fim_rep :: llama_token
  vo_fim_sep :: llama_token
  vo_bos :: llama_token
  vo_eos :: llama_token
  vo_sep :: llama_token
  vo_add_bos :: bool
  vo_add_eos :: bool
  vo_add_sep :: bool

definition chunk_prefix :: string where
  "chunk_prefix = [CHR 0x0A, CHR 0x0A] @ ''--- snippet ---'' @ [CHR 0x0A, CHR 0x0A]"

definition infill_chunk :: "'c input_env \<Rightarrow> vocab_t \<Rightarrow> json \<Rightarrow> llama_token list" where
  "infill_chunk E V chunk =
     (let text = json_value get_str chunk ''text'' [];
          filename = json_value get_str chunk ''filename'' ''tmp''
      in (if vo_fim_sep V \<noteq> LLAMA_TOKEN_NULL then vo_fim_sep V # ie_tokenize E (filename @ [newline]) False False
          else ie_tokenize E chunk_prefix False False)
         @ ie_tokenize E text False False)"

definition extra_tokens :: "'c input_env \<Rightarrow> vocab_t \<Rightarrow> json list \<Rightarrow> llama_token list" where
  "extra_tokens E V input_extra =
     (if vo_fim_rep V \<noteq> LLAMA_TOKEN_NULL then vo_fim_rep V # ie_tokenize E (''myproject'' @ [newline]) False False else [])
     @ concat (map (infill_chunk E V) input_extra)
     @ (if vo_fim_sep V \<noteq> LLAMA_TOKEN_NULL then vo_fim_sep V # ie_tokenize E (''filename'' @ [newline]) False False else [])"

definition last_n :: "nat \<Rightarrow> 'a list \<Rightarrow> 'a list" where
  "last_n n xs = drop (length xs - n) xs"

text \<open>
  The difference for the suffix is taken in \<open>size_t\<close> and read as an \<open>int\<close>.  A negative batch size takes
  a negative part of the prefix, which is undefined.
\<close>

definition format_prompt_infill :: "'c input_env \<Rightarrow> vocab_t \<Rightarrow> json \<Rightarrow> json \<Rightarrow> json \<Rightarrow> int \<Rightarrow> int \<Rightarrow> int \<Rightarrow> bool
    \<Rightarrow> llama_token list \<Rightarrow> llama_token list result" where
  "format_prompt_infill E V input_prefix input_suffix input_extra n_batch n_pred n_ctx spm_infill tokens_prompt =
     rbind (tokenize_mixed E input_prefix False False) (\<lambda>tokens_prefix.
     rbind (tokenize_mixed E input_suffix False False) (\<lambda>tokens_suffix.
       let extra = extra_tokens E V (json_iter input_extra);
           n_prefix_take = min (int (length tokens_prefix)) (3 * (n_batch sdiv 4));
           n_suffix_take = min (int (length tokens_suffix))
             (max 0 (sint (word_of_int (n_batch sdiv 4 - (2 + int (length tokens_prompt))) :: 32 word)));
           n_extra_take = min (max 0 (n_ctx - n_batch - 2 * n_pred)) (int (length extra))
       in if n_prefix_take < 0 then Inl Abort
          else
            let tokens_prefix = vo_fim_pre V # last_n (nat n_prefix_take) tokens_prefix @ tokens_prompt;
                tokens_suffix = vo_fim_suf V # take (nat n_suffix_take) tokens_suffix;
                embd_inp = (if spm_infill then tokens_suffix else tokens_prefix);
                embd_end = (if spm_infill then tokens_prefix else tokens_suffix);
                embd_inp = (if vo_add_bos V then vo_bos V # embd_inp else embd_inp)
            in Inr (last_n (nat n_extra_take) extra @ embd_inp @ embd_end @ [vo_fim_mid V])))"


lemma length_last_n [simp]: "length (last_n n xs) = min n (length xs)"
  by (simp add: last_n_def)



definition sample_input :: "unit input_env" where
  "sample_input = \<lparr>ie_tokenize = (\<lambda>s _ _. map (\<lambda>c. of_char c) s),
     ie_get_token = (\<lambda>j. case j of JInt i \<Rightarrow> Some (word_of_int i) | _ \<Rightarrow> None), ie_mctx = False,
     ie_mtmd = \<lparr>chunk_type_of = (\<lambda>_. CHUNK_TEXT), chunk_n_tokens = (\<lambda>_. 1), chunk_n_pos = (\<lambda>_. 1), chunk_id = (\<lambda>_. []),
       chunk_tokens_text = (\<lambda>_. []), chunk_copy = id, chunk_placeholder = (\<lambda>_. None), chunk_save = (\<lambda>_. None), chunk_load = (\<lambda>_. None)\<rparr>,
     ie_bitmap = (\<lambda>_ _. True), ie_chunks = (\<lambda>_ _ _. None)\<rparr>"

definition sample_vocab :: vocab_t where
  "sample_vocab = \<lparr>vo_fim_pre = 1, vo_fim_suf = 2, vo_fim_mid = 3, vo_fim_rep = LLAMA_TOKEN_NULL, vo_fim_sep = LLAMA_TOKEN_NULL, vo_bos = 4,
     vo_eos = 5, vo_sep = 6, vo_add_bos = True, vo_add_eos = False, vo_add_sep = False\<rparr>"


text \<open>Without a limit on the answer (\<open>n_predict\<close> of -1) the extra context fills more than the context.\<close>

lemma infill_overflows_context:
  "map_option length (case format_prompt_infill sample_input sample_vocab (JStr ''abcdefghijklmn'') (JStr ''uvw'')
       (JArr [JObj [(''text'', JStr ''0123456789012345678901234567890123456789'')]]) 16 (-1) 32 False [] of Inr ts \<Rightarrow> Some ts | Inl _ \<Rightarrow> None)
     = Some 36"
  by code_simp

section \<open>The prompt of a reranking\<close>

text \<open>\<open>rerank_prompt\<close>: the template of the model, if it has one.\<close>

definition push_back_st :: "'c input_env \<Rightarrow> 'c server_tokens \<Rightarrow> 'c server_tokens result option \<Rightarrow> 'c server_tokens result option" where
  "push_back_st E t st = (case st of Some (Inr st) \<Rightarrow> push_back_tokens (ie_mtmd E) t st | r \<Rightarrow> r)"

definition push_back_if :: "bool \<Rightarrow> llama_token \<Rightarrow> 'c server_tokens result option \<Rightarrow> 'c server_tokens result option" where
  "push_back_if cond t st = (case st of Some (Inr st) \<Rightarrow> Some (if cond then push_back_tok t st else Inr st) | r \<Rightarrow> r)"

definition rerank_text :: "string \<Rightarrow> string \<Rightarrow> string \<Rightarrow> string" where
  "rerank_text prompt query doc = replace_all ''{document}'' doc (replace_all ''{query}'' query prompt)"

definition format_prompt_rerank :: "'c input_env \<Rightarrow> vocab_t \<Rightarrow> string option \<Rightarrow> string \<Rightarrow> string \<Rightarrow> 'c server_tokens result option" where
  "format_prompt_rerank E V rerank_prompt query doc =
     (case rerank_prompt of
        Some prompt \<Rightarrow>
          (case tokenize_input_subprompt E (JStr (rerank_text prompt query doc)) False True of
             Inl e \<Rightarrow> Some (Inl e)
           | Inr tks \<Rightarrow> push_back_st E tks (Some (Inr st_empty)))
      | None \<Rightarrow>
          (case rbind (tokenize_input_subprompt E (JStr query) False False) (\<lambda>q.
                  rbind (tokenize_input_subprompt E (JStr doc) False False) (\<lambda>d. Inr (q, d))) of
             Inl e \<Rightarrow> Some (Inl e)
           | Inr (query_tokens, doc_tokens) \<Rightarrow>
               let eos = (if vo_eos V = LLAMA_TOKEN_NULL then vo_sep V else vo_eos V)
               in push_back_if (vo_add_eos V) eos (push_back_st E doc_tokens
                    (push_back_if (vo_add_sep V) (vo_sep V) (push_back_if (vo_add_eos V) eos
                      (push_back_st E query_tokens (push_back_if (vo_add_bos V) (vo_bos V) (Some (Inr st_empty)))))))))"

text \<open>Strings have no media, so the loop of \<open>push_back\<close> over the media is not entered and it returns.\<close>

lemma rerank_prompt_returns: "\<exists>r. format_prompt_rerank E V rerank_prompt query doc = Some r"
proof -
  have t: "tokenize_input_subprompt E (JStr s) a p = Inr (st_of_tokens (ie_tokenize E s a p) False)" for s a p
    by (simp add: tokenize_input_subprompt_def is_str_def tokenize_mixed_def get_string_def)
  have p: "\<exists>r. st = Some r \<Longrightarrow> \<exists>r. push_back_st E (st_of_tokens ts False) st = Some r" for ts st
    by (auto simp: push_back_st_def push_back_tokens_def st_of_tokens_def split: sum.splits)
  have i: "\<exists>r. st = Some r \<Longrightarrow> \<exists>r. push_back_if c tok st = Some r" for c tok and st :: "'c server_tokens result option"
    by (auto simp: push_back_if_def split: sum.splits)
  show ?thesis
    by (auto simp: format_prompt_rerank_def t Let_def split: option.split intro!: p i)
qed

section \<open>The answer to a reranking\<close>

text \<open>
  The elements are sorted by falling score; the order of equal ones, which the library leaves open, is
  taken as given.  A \<open>resize\<close> to a negative number of elements throws.
\<close>

fun rank_elems :: "string \<Rightarrow> string list option \<Rightarrow> json list \<Rightarrow> json list result" where
  "rank_elems label texts [] = Inr []"
| "rank_elems label texts (rank # ranks) =
     (let index = json_value get_int rank ''index'' 0;
          elem = JObj [(''index'', JInt index), (label, JNum (json_value get_rat rank ''score'' 0))]
      in rbind (case texts of
                  None \<Rightarrow> Inr elem
                | Some ts \<Rightarrow> if 0 \<le> index \<and> nat index < length ts then Inr (jset ''text'' (JStr (ts ! nat index)) elem) else Inl Abort) (\<lambda>elem.
           rbind (rank_elems label texts ranks) (\<lambda>es. Inr (elem # es))))"

definition rank_score :: "string \<Rightarrow> json \<Rightarrow> rat" where
  "rank_score label e = json_value get_rat e label 0"

definition format_response_rerank :: "json \<Rightarrow> string \<Rightarrow> json list \<Rightarrow> bool \<Rightarrow> string list \<Rightarrow> int \<Rightarrow> json result" where
  "format_response_rerank request model_name ranks is_tei_format texts top_n =
     (let return_text = (is_tei_format \<and> json_value get_bool request ''return_text'' False);
          label = (if is_tei_format then ''score'' else ''relevance_score'');
          n_tokens = sum_list (map (\<lambda>r. json_value get_int r ''tokens_evaluated'' 0) ranks)
      in rbind (rank_elems label (if return_text then Some texts else None) ranks) (\<lambda>elements.
           let elements = sort_key (\<lambda>e. - rank_score label e) elements;
               n = min top_n (int (length elements))
           in if n < 0 then Inl (Throw ''vector::_M_default_append'')
              else
                let results = JArr (take (nat n) elements)
                in Inr (if is_tei_format then results
                        else JObj
                          [(''model'', JStr (json_value get_str request ''model'' model_name)),
                           (''object'', JStr ''list''),
                           (''usage'', JObj [(''prompt_tokens'', JInt n_tokens), (''total_tokens'', JInt n_tokens)]),
                           (''results'', results)])))"

text \<open>A negative \<open>top_n\<close> ends in an exception of the vector.\<close>

lemma rerank_negative_top_n:
  "format_response_rerank (JObj []) ''m'' [JObj [(''index'', JInt 0)]] False [''a''] (-1) = Inl (Throw ''vector::_M_default_append'')"
  by code_simp

section \<open>Parameters of completions\<close>

definition stop_field :: "json \<Rightarrow> json" where
  "stop_field body =
     (case jfind ''stop'' body of
        Some (JStr s) \<Rightarrow> JArr [JStr s]
      | _ \<Rightarrow> json_value Some body ''stop'' (JArr []))"

text \<open>The members of the body that are not yet set; \<open>n_predict\<close> always.\<close>

fun copy_rest :: "(string \<times> json) list \<Rightarrow> json \<Rightarrow> json" where
  "copy_rest [] ps = ps"
| "copy_rest ((k, v) # items) ps =
     copy_rest items (if \<not> jcontains k ps \<or> k = ''n_predict'' then jset k v ps else ps)"

fun obj_items :: "json \<Rightarrow> (string \<times> json) list" where
  "obj_items (JObj ms) = ms"
| "obj_items _ = []"

definition oaicompat_completion_params_parse :: "json \<Rightarrow> json result" where
  "oaicompat_completion_params_parse body =
     (if \<not> jcontains ''prompt'' body then Inl (Throw (CHR 0x22 # ''prompt'' @ CHR 0x22 # '' is required''))
      else
        let ps = jset ''stop'' (stop_field body) JNull
        in if json_value get_bool body ''echo'' False then Inl (Throw ''Only no echo is supported'')
           else case find (\<lambda>param. jcontains param body) [''best_of'', ''suffix''] of
                  Some param \<Rightarrow> Inl (Throw (''Unsupported param: '' @ param))
                | None \<Rightarrow> Inr (copy_rest (obj_items body) ps))"

section \<open>Media of a chat\<close>

text \<open>
  \<open>me_http\<close> is the transfer of a remote file, with the status; \<open>me_valid\<close> the check of a relative file
  name; \<open>me_file\<close> the bytes of a file, if it can be opened; \<open>me_split\<close> splits at commas.
\<close>

record media_env =
  me_http :: "string \<Rightarrow> (int \<times> byte list) result"
  me_valid :: "string \<Rightarrow> bool"
  me_file :: "string \<Rightarrow> byte list option"
  me_split :: "string \<Rightarrow> string list"

definition handle_media :: "media_env \<Rightarrow> string \<Rightarrow> string \<Rightarrow> byte list result" where
  "handle_media M media_path url =
     (if media_path \<noteq> [] \<and> last media_path \<noteq> CHR ''/'' then Inl Abort
      else if starts_with url ''http'' then
        rbind (me_http M url) (\<lambda>(status, data).
          if 200 \<le> status \<and> status < 300 then Inr data else Inl (Throw ''Failed to download image''))
      else if starts_with url ''file://'' then
        if media_path = [] then Inl (Throw ''file:// URLs are not allowed unless --media-path is specified'')
        else
          let file_path = drop 7 url
          in if \<not> me_valid M file_path then Inl (Throw (''file path is not allowed: '' @ file_path))
             else case me_file M (media_path @ file_path) of
                    None \<Rightarrow> Inl (Throw (''file does not exist or cannot be opened: '' @ file_path))
                  | Some data \<Rightarrow> Inr data
      else if starts_with url ''data:'' then
        (case me_split M url of
           [head, data] \<Rightarrow>
             if \<not> starts_with head ''data:image/'' \<and> \<not> starts_with head ''data:video/'' \<and> \<not> starts_with head ''data:audio/''
             then Inl (Throw (''Invalid uri format: '' @ head))
             else if \<not> suffix ''base64'' head then Inl (Throw ''uri must be base64 encoded'')
             else Inr (base64_decode data)
         | _ \<Rightarrow> Inl (Throw ''Invalid uri-encoded base64 value''))
      else
        let data = base64_decode url
        in if data = [] then Inl (Throw ''Invalid base64 value'') else Inr data)"

section \<open>Parameters of a chat\<close>

record server_chat_params =
  ch_use_jinja :: bool
  ch_prefill_assistant :: bool
  ch_reasoning_format :: string
  ch_kwargs :: "(string \<times> string) list"
  ch_allow_image :: bool
  ch_allow_audio :: bool
  ch_allow_video :: bool
  ch_enable_thinking :: bool
  ch_reasoning_budget :: int
  ch_reasoning_budget_message :: string
  ch_media_path :: string
  ch_force_pure_content :: bool

definition part_type :: "json \<Rightarrow> string" where
  "part_type p = json_value get_str p ''type'' []"

definition no_input :: "string \<Rightarrow> failure" where
  "no_input kind = Throw (kind @ '' input is not supported - hint: if this is unexpected, you may need to provide the mmproj'')"

definition media_url :: "string \<Rightarrow> json \<Rightarrow> string" where
  "media_url key p =
     (let m = json_value Some p key (JObj [])
      in if key = ''image_url'' then json_value get_str m ''url'' []
         else json_value get_str m ''data'' (json_value get_str m ''url'' []))"

definition mark_part :: "string \<Rightarrow> string \<Rightarrow> json \<Rightarrow> json" where
  "mark_part marker key p = jerase key (jset ''text'' (JStr marker) (jset ''type'' (JStr ''media_marker'') p))"

text \<open>One part of a message: media are loaded and replaced by the marker.\<close>

definition content_part :: "media_env \<Rightarrow> server_chat_params \<Rightarrow> string \<Rightarrow> json \<Rightarrow> byte list list \<Rightarrow> (json \<times> byte list list) result" where
  "content_part M opt marker p files =
     (let type = part_type p;
          take_media = (\<lambda>key. rbind (handle_media M (ch_media_path opt) (media_url key p)) (\<lambda>data.
             Inr (mark_part marker key p, files @ [data])))
      in if type = ''image_url'' then (if \<not> ch_allow_image opt then Inl (no_input ''image'') else take_media ''image_url'')
         else if type = ''input_audio'' then (if \<not> ch_allow_audio opt then Inl (no_input ''audio'') else take_media ''input_audio'')
         else if type = ''input_video'' then (if \<not> ch_allow_video opt then Inl (no_input ''video'') else take_media ''input_video'')
         else if type \<noteq> ''text'' then Inl (Throw ''unsupported content[].type'')
         else Inr (p, files))"

fun content_parts :: "media_env \<Rightarrow> server_chat_params \<Rightarrow> string \<Rightarrow> json list \<Rightarrow> byte list list \<Rightarrow> (json list \<times> byte list list) result" where
  "content_parts M opt marker [] files = Inr ([], files)"
| "content_parts M opt marker (p # ps) files =
     rbind (content_part M opt marker p files) (\<lambda>(p, files).
       rbind (content_parts M opt marker ps files) (\<lambda>(ps, files). Inr (p # ps, files)))"

definition single_quoted :: "string \<Rightarrow> string" where
  "single_quoted s = CHR 0x27 # s @ [CHR 0x27]"

definition chat_message :: "media_env \<Rightarrow> server_chat_params \<Rightarrow> string \<Rightarrow> json \<Rightarrow> byte list list \<Rightarrow> (json \<times> byte list list) result" where
  "chat_message M opt marker msg files =
     (let role = json_value get_str msg ''role'' []
      in if role \<noteq> ''assistant'' \<and> \<not> jcontains ''content'' msg then
           Inl (Throw (''All non-assistant messages must contain '' @ single_quoted ''content''))
         else if role = ''assistant'' \<and> \<not> jcontains ''content'' msg \<and> \<not> jcontains ''tool_calls'' msg then
           Inl (Throw (''Assistant message must contain either '' @ single_quoted ''content'' @ '' or '' @ single_quoted ''tool_calls'' @ ''!''))
         else case jfind ''content'' msg of
                None \<Rightarrow> Inr (msg, files)
              | Some (JStr s) \<Rightarrow> Inr (msg, files)
              | Some JNull \<Rightarrow> Inr (msg, files)
              | Some (JArr ps) \<Rightarrow>
                  rbind (content_parts M opt marker ps files) (\<lambda>(ps, files). Inr (jset ''content'' (JArr ps) msg, files))
              | Some c \<Rightarrow> Inl (Throw (''Expected '' @ single_quoted ''content'' @ '' to be a string or an array'')))"

fun chat_messages :: "media_env \<Rightarrow> server_chat_params \<Rightarrow> string \<Rightarrow> json list \<Rightarrow> byte list list \<Rightarrow> (json list \<times> byte list list) result" where
  "chat_messages M opt marker [] files = Inr ([], files)"
| "chat_messages M opt marker (m # ms) files =
     rbind (chat_message M opt marker m files) (\<lambda>(m, files).
       rbind (chat_messages M opt marker ms files) (\<lambda>(ms, files). Inr (m # ms, files)))"

text \<open>What the template library takes and returns.\<close>

datatype tool_choice = Choice_auto | Choice_required | Choice_none

datatype continuation = Cont_none | Cont_auto | Cont_other string

record chat_msg_t =
  cm_role :: string
  cm_tool_calls :: "json list"
  cm_json :: json

record chat_inputs =
  ci_messages :: "chat_msg_t list"
  ci_tools :: "json list"
  ci_tool_choice :: tool_choice
  ci_json_schema :: string
  ci_grammar :: string
  ci_use_jinja :: bool
  ci_parallel_tool_calls :: bool
  ci_add_generation_prompt :: bool
  ci_continue_final_message :: continuation
  ci_reasoning_format :: string
  ci_enable_thinking :: bool
  ci_kwargs :: "(string \<times> string) list"
  ci_force_pure_content :: bool

record grammar_trigger =
  gt_type :: int
  gt_value :: string
  gt_token :: int

record chat_result =
  cp_format :: int
  cp_prompt :: string
  cp_grammar :: string
  cp_grammar_lazy :: bool
  cp_triggers :: "grammar_trigger list"
  cp_preserved_tokens :: "string list"
  cp_generation_prompt :: string
  cp_additional_stops :: "string list"
  cp_parser :: string
  cp_message_delimiters :: json
  cp_thinking_start_tag :: string
  cp_thinking_end_tags :: "string list"

record template_lib =
  cl_parallel :: bool
  cl_msgs :: "json \<Rightarrow> chat_msg_t list result"
  cl_tools :: "json \<Rightarrow> json list result"
  cl_tool_choice :: "string \<Rightarrow> tool_choice result"
  cl_continuation :: "json \<Rightarrow> continuation result"
  cl_reasoning_format :: "string \<Rightarrow> string result"
  cl_apply :: "chat_inputs \<Rightarrow> chat_result result"
  cl_dump :: "json \<Rightarrow> string"
  cl_marker :: string
  cl_trigger_token :: int

text \<open>The schema and the grammar of the answer.\<close>

fun jempty :: "json \<Rightarrow> bool" where
  "jempty JNull = True"
| "jempty (JArr vs) = (vs = [])"
| "jempty (JObj ms) = (ms = [])"
| "jempty _ = False"

definition answer_format :: "json \<Rightarrow> (json \<times> string) result" where
  "answer_format body =
     (let json_schema = json_value Some body ''json_schema'' JNull;
          grammar = json_value get_str body ''grammar'' []
      in if json_schema \<noteq> JNull \<and> grammar \<noteq> [] then Inl (Throw ''Cannot use both json_schema and grammar'')
         else if \<not> jcontains ''response_format'' body then Inr (json_schema, grammar)
         else
           let response_format = json_value Some body ''response_format'' (JObj []);
               response_type = json_value get_str response_format ''type'' []
           in if response_type = ''json_object'' then
                Inr (if jcontains ''schema'' response_format \<or> jempty json_schema
                     then json_value Some response_format ''schema'' (JObj []) else json_schema, grammar)
              else if response_type = ''json_schema'' then
                Inr (json_value Some (json_value Some response_format ''json_schema'' (JObj [])) ''schema'' (JObj []), grammar)
              else if response_type \<noteq> [] \<and> response_type \<noteq> ''text'' then
                Inl (Throw (''response_format type must be one of '' @ [CHR 0x22] @ ''text'' @ [CHR 0x22] @ '' or '' @ [CHR 0x22]
                       @ ''json_object'' @ [CHR 0x22] @ '', but got: '' @ response_type))
              else Inr (json_schema, grammar))"

text \<open>Whether the answer continues the last message of the assistant.\<close>

definition is_role :: "string \<Rightarrow> chat_msg_t list \<Rightarrow> bool" where
  "is_role role ms = (ms \<noteq> [] \<and> cm_role (last ms) = role)"

definition continuation_of :: "template_lib \<Rightarrow> server_chat_params \<Rightarrow> json \<Rightarrow> chat_msg_t list \<Rightarrow> (continuation \<times> bool) result" where
  "continuation_of L opt body ms =
     (let add = json_value get_bool body ''add_generation_prompt'' True
      in rbind (case jfind ''continue_final_message'' body of Some c \<Rightarrow> cl_continuation L c | None \<Rightarrow> Inr Cont_none) (\<lambda>cont.
           rbind (if cont = Cont_none \<and> ch_prefill_assistant opt \<and> is_role ''assistant'' ms then
                    (if is_role ''assistant'' (butlast ms)
                     then Inl (Throw ''Cannot have 2 or more assistant messages at the end of the list.'')
                     else Inr (Cont_auto, False))
                  else Inr (cont, add)) (\<lambda>(cont, add).
             if cont \<noteq> Cont_none \<and> add then Inl (Throw ''Cannot set both add_generation_prompt and continue_final_message to true.'')
             else if cont \<noteq> Cont_none \<and> is_role ''assistant'' ms \<and> cm_tool_calls (last ms) \<noteq> [] then
               Inl (Throw ''Cannot continue an assistant message that contains tool calls.'')
             else Inr (cont, add))))"

text \<open>The arguments of the template, and whether the model shall think.\<close>

definition template_kwargs :: "template_lib \<Rightarrow> server_chat_params \<Rightarrow> json \<Rightarrow> (string \<times> string) list" where
  "template_kwargs L opt body =
     fold (\<lambda>(k, v). omap_set k (cl_dump L v)) (obj_items (json_value Some body ''chat_template_kwargs'' (JObj []))) (ch_kwargs opt)"

definition thinking_of :: "template_lib \<Rightarrow> server_chat_params \<Rightarrow> json \<Rightarrow> (bool \<times> (string \<times> string) list) result" where
  "thinking_of L opt body =
     (let kwargs = template_kwargs L opt body;
          kwarg = (case map_of kwargs ''enable_thinking'' of Some v \<Rightarrow> v | None \<Rightarrow> [])
      in rbind (if kwarg = ''true'' then Inr True
                else if kwarg = ''false'' then Inr False
                else if kwarg \<noteq> [] \<and> hd kwarg = CHR 0x22 then
                  Inl (Throw (''invalid type for '' @ [CHR 0x22] @ ''enable_thinking'' @ [CHR 0x22] @ '' (expected boolean, got string)''))
                else Inr (ch_enable_thinking opt)) (\<lambda>thinking.
           Inr (if jcontains ''reasoning_effort'' body then
                  let effort = json_value get_str body ''reasoning_effort'' []
                  in if effort = ''none'' then (False, omap_erase ''reasoning_effort'' kwargs)
                     else if effort \<noteq> [] then (thinking, omap_set ''reasoning_effort'' (cl_dump L (JStr effort)) kwargs)
                     else (thinking, kwargs)
                else (thinking, kwargs))))"

definition trigger_to_json :: "int \<Rightarrow> grammar_trigger \<Rightarrow> json" where
  "trigger_to_json token_type t =
     (let out = JObj [(''type'', JInt (gt_type t)), (''value'', JStr (gt_value t))]
      in if gt_type t = token_type then jset ''token'' (JInt (gt_token t)) out else out)"

text \<open>Appending to \<open>stop\<close>, which may be any value the client sent.\<close>

definition push_stop :: "string \<Rightarrow> json \<Rightarrow> json result" where
  "push_stop s ps =
     (case jfind ''stop'' ps of
        Some (JArr vs) \<Rightarrow> Inr (jset ''stop'' (JArr (vs @ [JStr s])) ps)
      | Some JNull \<Rightarrow> Inr (jset ''stop'' (JArr [JStr s]) ps)
      | _ \<Rightarrow> Inl (Throw ''json''))"

fun push_stops :: "string list \<Rightarrow> json \<Rightarrow> json result" where
  "push_stops [] ps = Inr ps"
| "push_stops (s # ss) ps = rbind (push_stop s ps) (push_stops ss)"

text \<open>The members the template decides.\<close>

definition template_members :: "template_lib \<Rightarrow> chat_result \<Rightarrow> json \<Rightarrow> json result" where
  "template_members L C ps =
     (let ps = jset ''chat_format'' (JInt (cp_format C)) ps;
          ps = jset ''prompt'' (JStr (cp_prompt C)) ps;
          ps = (if cp_grammar C \<noteq> [] then jset ''grammar_type'' (JStr ''tool_calls'') (jset ''grammar'' (JStr (cp_grammar C)) ps) else ps);
          ps = jset ''grammar_lazy'' (JBool (cp_grammar_lazy C)) ps;
          ps = jset ''grammar_triggers'' (JArr (map (trigger_to_json (cl_trigger_token L)) (cp_triggers C))) ps;
          ps = jset ''preserved_tokens'' (jstrs (cp_preserved_tokens C)) ps;
          ps = jset ''generation_prompt'' (JStr (cp_generation_prompt C)) ps
      in rbind (push_stops (cp_additional_stops C) ps) (\<lambda>ps.
           let ps = (if cp_parser C \<noteq> [] then jset ''chat_parser'' (JStr (cp_parser C)) ps else ps)
           in Inr (jset ''message_delimiters'' (cp_message_delimiters C) ps)))"

definition reasoning_members :: "server_chat_params \<Rightarrow> chat_result \<Rightarrow> json \<Rightarrow> json \<Rightarrow> json" where
  "reasoning_members opt C body ps =
     (let budget = json_value get_int body ''reasoning_budget_tokens'' (json_value get_int body ''thinking_budget_tokens'' (-1));
          budget = (if budget = -1 then ch_reasoning_budget opt else budget)
      in if cp_thinking_end_tags C = [] then ps
         else
           let ps = jset ''reasoning_budget_tokens'' (JInt budget) ps;
               ps = jset ''reasoning_budget_start_tag'' (JStr (cp_thinking_start_tag C)) ps;
               ps = jset ''reasoning_budget_end_tags'' (jstrs (cp_thinking_end_tags C)) ps;
               ps = jset ''reasoning_budget_message'' (JStr (json_value get_str body ''reasoning_budget_message'' (ch_reasoning_budget_message opt))) ps
           in jset ''reasoning_control'' (JBool (json_value get_bool body ''reasoning_control'' False)) ps)"

definition logprobs_members :: "bool \<Rightarrow> json \<Rightarrow> json \<Rightarrow> json result" where
  "logprobs_members has_tools body ps =
     (if json_value get_bool body ''logprobs'' False then
        (if has_tools \<and> json_value get_bool body ''stream'' False then Inl (Throw ''logprobs is not supported with tools + stream'')
         else Inr (jset ''n_probs'' (JInt (json_value get_int body ''top_logprobs'' 20)) ps))
      else case jfind ''top_logprobs'' body of
             None \<Rightarrow> Inr ps
           | Some JNull \<Rightarrow> Inr ps
           | Some v \<Rightarrow> Inl (Throw ''top_logprobs requires logprobs to be set to true''))"

definition chat_template_inputs :: "template_lib \<Rightarrow> server_chat_params \<Rightarrow> json \<Rightarrow> json \<Rightarrow> string \<Rightarrow> json list \<Rightarrow> json \<Rightarrow> string
    \<Rightarrow> chat_inputs result" where
  "chat_template_inputs L opt body tools tool_choice msgs json_schema grammar =
     rbind (cl_msgs L (JArr msgs)) (\<lambda>ms.
     rbind (cl_tools L tools) (\<lambda>ts.
     rbind (cl_tool_choice L tool_choice) (\<lambda>choice.
     rbind (continuation_of L opt body ms) (\<lambda>(cont, add).
     rbind (case jfind ''reasoning_format'' body of
              None \<Rightarrow> Inr (ch_reasoning_format opt)
            | Some f \<Rightarrow> rbind (get_string f) (cl_reasoning_format L)) (\<lambda>format.
     rbind (if ts \<noteq> [] \<and> choice \<noteq> Choice_none \<and> jcontains ''grammar'' body
            then Inl (Throw ''Cannot use custom grammar constraints with tools.'') else Inr ()) (\<lambda>_.
     rbind (thinking_of L opt body) (\<lambda>(thinking, kwargs).
       Inr \<lparr>ci_messages = ms, ci_tools = ts, ci_tool_choice = choice,
         ci_json_schema = (if json_schema = JNull then [] else cl_dump L json_schema), ci_grammar = grammar,
         ci_use_jinja = ch_use_jinja opt, ci_parallel_tool_calls = json_value get_bool body ''parallel_tool_calls'' (cl_parallel L),
         ci_add_generation_prompt = add, ci_continue_final_message = cont, ci_reasoning_format = format,
         ci_enable_thinking = thinking, ci_kwargs = kwargs, ci_force_pure_content = ch_force_pure_content opt\<rparr>)))))))"

definition chat_members :: "template_lib \<Rightarrow> server_chat_params \<Rightarrow> json \<Rightarrow> bool \<Rightarrow> chat_inputs \<Rightarrow> chat_result \<Rightarrow> json result" where
  "chat_members L opt body has_tools inputs chat =
     (let ps = jset ''stop'' (stop_field body) JNull;
          ps = (if ci_tools inputs \<noteq> [] \<and> ci_tool_choice inputs \<noteq> Choice_none then jset ''parse_tool_calls'' (JBool True) ps else ps)
      in rbind (template_members L chat ps) (\<lambda>ps.
         rbind (logprobs_members has_tools body (reasoning_members opt chat body ps)) (\<lambda>ps.
           Inr (copy_rest (obj_items body) ps))))"

text \<open>The result with the new files; the body it leaves has its messages replaced.\<close>

definition oaicompat_chat_params_parse :: "template_lib \<Rightarrow> media_env \<Rightarrow> server_chat_params \<Rightarrow> json \<Rightarrow> byte list list
    \<Rightarrow> (json \<times> byte list list) result" where
  "oaicompat_chat_params_parse L M opt body files =
     (let tools = json_value Some body ''tools'' JNull;
          has_tools = (case tools of JArr vs \<Rightarrow> vs \<noteq> [] | _ \<Rightarrow> False);
          tool_choice = json_value get_str body ''tool_choice'' ''auto''
      in if \<not> ch_use_jinja opt \<and> has_tools then Inl (Throw ''tools param requires --jinja flag'')
         else if \<not> ch_use_jinja opt \<and> tool_choice \<noteq> ''auto'' then Inl (Throw ''tool_choice param requires --jinja flag'')
         else rbind (answer_format body) (\<lambda>(json_schema, grammar).
           case jfind ''messages'' body of
             None \<Rightarrow> Inl (Throw (single_quoted ''messages'' @ '' is required''))
           | Some (JArr msgs) \<Rightarrow>
               rbind (chat_messages M opt (cl_marker L) msgs files) (\<lambda>(msgs, files).
               let body = jset ''messages'' (JArr msgs) body
               in rbind (chat_template_inputs L opt body tools tool_choice msgs json_schema grammar) (\<lambda>inputs.
                  rbind (cl_apply L inputs) (\<lambda>chat.
                  rbind (chat_members L opt body has_tools inputs chat) (\<lambda>ps. Inr (ps, files)))))
           | Some v \<Rightarrow> Inl (Throw (''Expected '' @ single_quoted ''messages'' @ '' to be an array''))))"

section \<open>Files and markers\<close>

fun msg_parts :: "json \<Rightarrow> json list" where
  "msg_parts msg = (case jfind ''content'' msg of Some (JArr ps) \<Rightarrow> ps | _ \<Rightarrow> [])"

definition media_keys :: "string list" where
  "media_keys = [''image_url'', ''input_audio'', ''input_video'']"

definition is_media :: "json \<Rightarrow> bool" where
  "is_media p \<longleftrightarrow> part_type p \<in> set media_keys"

definition media_urls :: "json list \<Rightarrow> string list" where
  "media_urls ps = map (\<lambda>p. media_url (part_type p) p) (filter is_media ps)"

definition marked :: "string \<Rightarrow> json \<Rightarrow> json" where
  "marked marker p = (if is_media p then mark_part marker (part_type p) p else p)"

definition chat_parts :: "json list \<Rightarrow> json list" where
  "chat_parts msgs = concat (map msg_parts msgs)"

definition loaded :: "media_env \<Rightarrow> string \<Rightarrow> string list \<Rightarrow> byte list list \<Rightarrow> bool" where
  "loaded M path = list_all2 (\<lambda>url data. handle_media M path url = Inr data)"

lemma content_part_spec:
  "content_part M opt marker p files = Inr (p', files') \<Longrightarrow>
     p' = marked marker p \<and> (is_media p \<or> part_type p = ''text'')
     \<and> (\<exists>new. files' = files @ new \<and> loaded M (ch_media_path opt) (media_urls [p]) new)"
  by (auto simp: content_part_def Let_def rbind_Inr_iff marked_def is_media_def media_keys_def media_urls_def loaded_def split: if_splits)

lemma media_urls_Cons: "media_urls (p # ps) = media_urls [p] @ media_urls ps"
  by (simp add: media_urls_def)

lemma media_urls_append: "media_urls (ps @ qs) = media_urls ps @ media_urls qs"
  by (simp add: media_urls_def)

lemma content_parts_spec:
  "content_parts M opt marker ps files = Inr (ps', files') \<Longrightarrow>
     ps' = map (marked marker) ps \<and> (\<forall>p \<in> set ps. is_media p \<or> part_type p = ''text'')
     \<and> (\<exists>new. files' = files @ new \<and> loaded M (ch_media_path opt) (media_urls ps) new)"
proof (induction ps arbitrary: ps' files)
  case (Cons p ps)
  then obtain q f1 qs where q: "content_part M opt marker p files = Inr (q, f1)" "content_parts M opt marker ps f1 = Inr (qs, files')"
      and ps': "ps' = q # qs"
    by (auto simp: rbind_Inr_iff)
  obtain n1 n2 where "f1 = files @ n1" "loaded M (ch_media_path opt) (media_urls [p]) n1"
      "files' = f1 @ n2" "loaded M (ch_media_path opt) (media_urls ps) n2"
    using content_part_spec [OF q(1)] Cons.IH [OF q(2)] by blast
  then have "\<exists>new. files' = files @ new \<and> loaded M (ch_media_path opt) (media_urls (p # ps)) new"
    by (intro exI [of _ "n1 @ n2"]) (simp add: media_urls_Cons [of p ps] loaded_def list_all2_appendI)
  then show ?case
    using content_part_spec [OF q(1)] Cons.IH [OF q(2)] ps' by simp
qed (simp add: media_urls_def loaded_def)

lemma is_obj: "jfind k j = Some v \<Longrightarrow> \<exists>ms. j = JObj ms"
  by (cases j) auto

lemma chat_message_spec:
  assumes "chat_message M opt marker msg files = Inr (msg', files')"
  shows "msg_parts msg' = map (marked marker) (msg_parts msg) \<and> (\<forall>p \<in> set (msg_parts msg). is_media p \<or> part_type p = ''text'')
    \<and> (\<exists>new. files' = files @ new \<and> loaded M (ch_media_path opt) (media_urls (msg_parts msg)) new)"
proof (cases "\<exists>ps. jfind ''content'' msg = Some (JArr ps)")
  case True
  then obtain ps ms where c: "jfind ''content'' msg = Some (JArr ps)" "msg = JObj ms" using is_obj by blast
  then obtain qs where q: "content_parts M opt marker ps files = Inr (qs, files')" "msg' = jset ''content'' (JArr qs) msg"
    using assms by (auto simp: chat_message_def rbind_Inr_iff Let_def split: if_splits)
  show ?thesis using content_parts_spec [OF q(1)] c q(2) by simp
next
  case False
  then have "msg_parts msg = []"
    by (auto split: option.splits json.splits)
  moreover have "msg' = msg" "files' = files"
    using assms False by (auto simp: chat_message_def Let_def split: if_splits option.splits json.splits)
  ultimately show ?thesis
    by (simp add: media_urls_def loaded_def)
qed

lemma chat_messages_spec:
  "chat_messages M opt marker msgs files = Inr (msgs', files') \<Longrightarrow>
     chat_parts msgs' = map (marked marker) (chat_parts msgs) \<and> (\<forall>p \<in> set (chat_parts msgs). is_media p \<or> part_type p = ''text'')
     \<and> (\<exists>new. files' = files @ new \<and> loaded M (ch_media_path opt) (media_urls (chat_parts msgs)) new)"
proof (induction msgs arbitrary: msgs' files)
  case Nil
  then show ?case by (simp add: chat_parts_def media_urls_def loaded_def)
next
  case (Cons m ms)
  then obtain m1 f1 ms1 where q: "chat_message M opt marker m files = Inr (m1, f1)" "chat_messages M opt marker ms f1 = Inr (ms1, files')"
      and msgs': "msgs' = m1 # ms1"
    by (auto simp: rbind_Inr_iff)
  note a = chat_message_spec [OF q(1)] and b = Cons.IH [OF q(2)]
  obtain n1 n2 where "f1 = files @ n1" "loaded M (ch_media_path opt) (media_urls (msg_parts m)) n1"
      "files' = f1 @ n2" "loaded M (ch_media_path opt) (media_urls (chat_parts ms)) n2"
    using a b by blast
  then have "\<exists>new. files' = files @ new \<and> loaded M (ch_media_path opt) (media_urls (chat_parts (m # ms))) new"
    by (intro exI [of _ "n1 @ n2"]) (simp add: chat_parts_def media_urls_append loaded_def list_all2_appendI del: msg_parts.simps)
  then show ?case
    using a b msgs' by (auto simp: chat_parts_def simp del: msg_parts.simps)
qed

lemma map_of_filter_neq: "map_of (filter (\<lambda>m. fst m \<noteq> k') ms) k = (if k = k' then None else map_of ms k)"
  by (induction ms) auto

lemma marked_type:
  assumes "is_media p \<or> part_type p = ''text''"
  shows "part_type (marked marker p) = (if is_media p then ''media_marker'' else ''text'')"
    and "is_media p \<Longrightarrow> jfind ''text'' (marked marker p) = Some (JStr marker)"
proof -
  have "\<exists>ms. p = JObj ms" if "is_media p"
    using that by (cases p) (auto simp: is_media_def media_keys_def part_type_def json_value_def)
  then show "part_type (marked marker p) = (if is_media p then ''media_marker'' else ''text'')"
      "is_media p \<Longrightarrow> jfind ''text'' (marked marker p) = Some (JStr marker)"
    using assms by (auto simp: marked_def mark_part_def is_media_def media_keys_def part_type_def json_value_def map_of_filter_neq)
qed

text \<open>The members set before the rest of the body is copied are no messages.\<close>

definition no_messages :: "json \<Rightarrow> bool" where
  "no_messages ps \<longleftrightarrow> (\<exists>ms. ps = JObj ms) \<and> jfind ''messages'' ps = None"

lemma no_messages_jset: "no_messages ps \<Longrightarrow> k \<noteq> ''messages'' \<Longrightarrow> no_messages (jset k v ps)"
  by (auto simp: no_messages_def)

lemma no_messages_stops: "push_stops ss ps = Inr ps' \<Longrightarrow> no_messages ps \<Longrightarrow> no_messages ps'"
proof (induction ss arbitrary: ps)
  case (Cons s ss)
  then show ?case
    by (auto simp: rbind_Inr_iff push_stop_def intro!: Cons.IH no_messages_jset split: option.splits json.splits)
qed simp

lemma no_messages_template: "template_members L C ps = Inr ps' \<Longrightarrow> no_messages ps \<Longrightarrow> no_messages ps'"
  unfolding template_members_def Let_def rbind_Inr_iff
  by (elim exE conjE; drule no_messages_stops) (auto intro!: no_messages_jset)

lemma no_messages_rest:
  "no_messages ps \<Longrightarrow> no_messages (reasoning_members opt C body ps)"
  "logprobs_members t body ps = Inr ps' \<Longrightarrow> no_messages ps \<Longrightarrow> no_messages ps'"
  by (auto simp: reasoning_members_def logprobs_members_def Let_def intro!: no_messages_jset split: if_splits option.splits json.splits)

lemma copy_rest_find:
  "k \<noteq> ''n_predict'' \<Longrightarrow> jfind k (copy_rest items (JObj ms)) = (case map_of ms k of Some v \<Rightarrow> Some v | None \<Rightarrow> map_of items k)"
  by (induction items "JObj ms" arbitrary: ms rule: copy_rest.induct)
    (auto simp: jcontains_def split: option.splits)

lemma filter_marked:
  "\<forall>p \<in> set ps. is_media p \<or> part_type p = ''text'' \<Longrightarrow>
     length (filter (\<lambda>p. part_type p = ''media_marker'') (map (marked marker) ps)) = length (filter is_media ps)"
  by (induction ps) (auto simp: marked_type)

lemma chat_members_messages:
  assumes "chat_members L opt (JObj ms) has_tools inputs chat = Inr ps"
  shows "jfind ''messages'' ps = map_of ms ''messages''"
proof -
  let ?p = "jset ''stop'' (stop_field (JObj ms)) JNull"
  have n: "no_messages ?p" "no_messages (jset ''parse_tool_calls'' (JBool True) ?p)"
    by (simp_all add: no_messages_def)
  obtain q ps0 ps1 where q: "no_messages q" "template_members L chat q = Inr ps0"
      and p: "logprobs_members has_tools (JObj ms) (reasoning_members opt chat (JObj ms) ps0) = Inr ps1"
      and ps: "ps = copy_rest ms ps1"
    using assms n by (auto simp: chat_members_def Let_def rbind_Inr_iff split: if_splits)
  have "no_messages ps1"
    using no_messages_rest(2) [OF p no_messages_rest(1) [OF no_messages_template [OF q(2,1)]]] .
  then obtain m where "ps1 = JObj m" "map_of m ''messages'' = None" by (auto simp: no_messages_def)
  then show ?thesis by (simp add: ps copy_rest_find)
qed

text \<open>
  Property C22. When the parameters of a chat are accepted, the files behind the images, sounds and
  videos of its messages have been loaded in the order of the messages, one for each, and each such part
  has become a part with the media marker; all other parts are texts and stay as they are.  So the
  prompt has as many markers as there are files, and no client can put in a marker part of its own.
\<close>

theorem media_markers_match_files:
  assumes "oaicompat_chat_params_parse L M opt body files = Inr (ps, files')"
  shows "\<exists>msgs msgs' new. jfind ''messages'' body = Some (JArr msgs) \<and> jfind ''messages'' ps = Some (JArr msgs')
    \<and> files' = files @ new \<and> loaded M (ch_media_path opt) (media_urls (chat_parts msgs)) new
    \<and> chat_parts msgs' = map (marked (cl_marker L)) (chat_parts msgs)
    \<and> length (filter (\<lambda>p. part_type p = ''media_marker'') (chat_parts msgs')) = length new
    \<and> (\<forall>p \<in> set (chat_parts msgs'). part_type p = ''text'' \<or> part_type p = ''media_marker'' \<and> jfind ''text'' p = Some (JStr (cl_marker L)))"
proof -
  obtain msgs where b: "jfind ''messages'' body = Some (JArr msgs)"
    using assms by (auto simp: oaicompat_chat_params_parse_def rbind_Inr_iff Let_def split: if_splits option.splits json.splits)
  obtain ms where ms: "body = JObj ms" using is_obj [OF b] by blast
  obtain msgs' has_tools inputs chat where c: "chat_messages M opt (cl_marker L) msgs files = Inr (msgs', files')"
      and m: "chat_members L opt (jset ''messages'' (JArr msgs') body) has_tools inputs chat = Inr ps"
    using assms b by (auto simp: oaicompat_chat_params_parse_def rbind_Inr_iff Let_def split: if_splits)
  have j: "jfind ''messages'' ps = Some (JArr msgs')"
    using chat_members_messages [of L opt "members_set ''messages'' (JArr msgs') ms"] m by (simp add: ms)
  note s = chat_messages_spec [OF c]
  then obtain new where new: "files' = files @ new" "loaded M (ch_media_path opt) (media_urls (chat_parts msgs)) new" by blast
  have "length (filter is_media (chat_parts msgs)) = length new"
    using new(2) by (auto simp: loaded_def media_urls_def dest: list_all2_lengthD)
  then have "length (filter (\<lambda>p. part_type p = ''media_marker'') (chat_parts msgs')) = length new"
    using filter_marked s by simp
  moreover have "\<forall>p \<in> set (chat_parts msgs'). part_type p = ''text'' \<or> part_type p = ''media_marker'' \<and> jfind ''text'' p = Some (JStr (cl_marker L))"
    using s marked_type by auto
  ultimately show ?thesis using b j new s by blast
qed

definition sample_templates :: template_lib where
  "sample_templates = \<lparr>cl_parallel = False, cl_msgs = (\<lambda>_. Inr [\<lparr>cm_role = ''user'', cm_tool_calls = [], cm_json = JNull\<rparr>]),
     cl_tools = (\<lambda>_. Inr []), cl_tool_choice = (\<lambda>_. Inr Choice_auto), cl_continuation = (\<lambda>_. Inr Cont_none), cl_reasoning_format = Inr,
     cl_apply = (\<lambda>_. Inr \<lparr>cp_format = 0, cp_prompt = ''p'', cp_grammar = [], cp_grammar_lazy = False, cp_triggers = [], cp_preserved_tokens = [],
       cp_generation_prompt = [], cp_additional_stops = [], cp_parser = [], cp_message_delimiters = JArr [], cp_thinking_start_tag = [],
       cp_thinking_end_tags = []\<rparr>),
     cl_dump = (\<lambda>_. []), cl_marker = ''<m>'', cl_trigger_token = 0\<rparr>"

definition sample_media :: media_env where
  "sample_media = \<lparr>me_http = (\<lambda>_. Inr (200, [65])), me_valid = (\<lambda>_. False), me_file = (\<lambda>_. None), me_split = (\<lambda>s. [s])\<rparr>"

definition sample_chat_params :: server_chat_params where
  "sample_chat_params = \<lparr>ch_use_jinja = True, ch_prefill_assistant = False, ch_reasoning_format = [], ch_kwargs = [], ch_allow_image = True,
     ch_allow_audio = False, ch_allow_video = False, ch_enable_thinking = True, ch_reasoning_budget = -1, ch_reasoning_budget_message = [],
     ch_media_path = [], ch_force_pure_content = False\<rparr>"

definition sample_chat_body :: json where
  "sample_chat_body = JObj [(''messages'', JArr [JObj [(''role'', JStr ''user''), (''content'', JArr
     [JObj [(''type'', JStr ''text''), (''text'', JStr ''see'')],
      JObj [(''type'', JStr ''image_url''), (''image_url'', JObj [(''url'', JStr ''http://a'')])]])]])]"

theorem media_markers_match_files_witness:
  "\<exists>ps msgs'. oaicompat_chat_params_parse sample_templates sample_media sample_chat_params sample_chat_body [] = Inr (ps, [[65]])
     \<and> jfind ''messages'' ps = Some (JArr msgs')
     \<and> length (filter (\<lambda>p. part_type p = ''media_marker'') (chat_parts msgs')) = 1"
proof -
  let ?r = "oaicompat_chat_params_parse sample_templates sample_media sample_chat_params sample_chat_body []"
  have "map_option snd (case ?r of Inr x \<Rightarrow> Some x | Inl _ \<Rightarrow> None) = Some [[65]]"
    by code_simp
  then obtain ps where r: "?r = Inr (ps, [[65]])"
    by (auto split: sum.splits)
  show ?thesis
    using media_markers_match_files [OF r] r by auto
qed

text \<open>A query that holds the placeholder of the document gets the document in its place.\<close>

lemma rerank_query_placeholder: "rerank_text ''{query}|{document}'' ''{document}'' ''d'' = ''d|d''"
  by code_simp

end
