(* ===== verification/Routes.thy ===== *)
theory Routes
  imports Input Format Response Router
begin

text \<open>
  The HTTP handlers of the model server (\<open>server_routes\<close> in server-context.cpp) but for completions,
  which theory Completions holds, and the text of the metrics page (server-task.cpp).  A handler takes
  the reader that \<open>create_response\<close> made and the turns of its wait for results; it gives its answer and
  leaves the reader.  The answers keep JSON values as such; \<open>Throw\<close> is an exception that leaves the
  handler.  Tokenizer, templates, the conversions of other dialects, and the table of sampling fields
  are parameters.
\<close>

section \<open>Environment\<close>

text \<open>The options of the server the handlers read.\<close>

record routes_conf =
  rc_metrics :: bool
  rc_slots :: bool
  rc_props :: bool
  rc_save_path :: string
  rc_embedding :: bool
  rc_rank :: bool
  rc_n_batch :: int
  rc_n_predict :: int
  rc_spm_infill :: bool
  rc_embd_normalize :: int
  rc_n_parallel :: int
  rc_ui :: bool
  rc_mcp_proxy :: bool
  rc_use_jinja :: bool
  rc_sampling :: sampling_params
  rc_sse_ping_interval :: int
  rc_sleep_idle_seconds :: int

text \<open>\<open>server_context_meta\<close>; \<open>mt_template\<close> is the source of a chat template by its variant.\<close>

record meta_t =
  mt_build_info :: string
  mt_model_name :: string
  mt_aliases :: json
  mt_tags :: json
  mt_model_path :: string
  mt_has_mtmd :: bool
  mt_inp_image :: bool
  mt_inp_audio :: bool
  mt_inp_video :: bool
  mt_ui_settings :: json
  mt_slot_n_ctx :: int
  mt_pooling_none :: bool
  mt_chat :: server_chat_params
  mt_template :: "string \<Rightarrow> string"
  mt_template_caps :: json
  mt_bos_str :: string
  mt_eos_str :: string
  mt_vocab_type :: int
  mt_n_vocab :: int
  mt_n_ctx_train :: int
  mt_n_embd :: int
  mt_n_params :: int
  mt_size :: int
  mt_ftype :: string

text \<open>
  What is outside: \<open>rv_schema\<close> reads the sampling parameters of a request, \<open>rv_delims\<close> parses message
  delimiters into the function that splits a prompt, the conversions turn other dialects into chats,
  \<open>rv_number\<close> prints a \<open>double\<close>, \<open>rv_base64\<close> encodes an embedding.
\<close>

record 'c routes_env =
  rv_conf :: routes_conf
  rv_meta :: meta_t
  rv_input :: "'c input_env"
  rv_vocab :: vocab_t
  rv_rerank_prompt :: "string option"
  rv_json :: json_env
  rv_lib :: chat_lib
  rv_templates :: template_lib
  rv_media :: media_env
  rv_parse :: "string \<Rightarrow> json option"
  rv_dump :: "json \<Rightarrow> string"
  rv_params :: task_params
  rv_state :: "task_params \<Rightarrow> result_state"
  rv_schema :: "json \<Rightarrow> task_params result"
  rv_delims :: "json \<Rightarrow> (llama_token list \<Rightarrow> (nat \<times> nat) list \<Rightarrow> lib_value) result"
  rv_responses :: "json \<Rightarrow> json result"
  rv_anthropic :: "json \<Rightarrow> json result"
  rv_transcriptions :: "json \<Rightarrow> json \<Rightarrow> (json \<times> byte list list) result"
  rv_piece :: "llama_token \<Rightarrow> string"
  rv_valid_filename :: "string \<Rightarrow> bool"
  rv_round32 :: "rat \<Rightarrow> rat"
  rv_base64 :: "json \<Rightarrow> string"
  rv_number :: "rat \<Rightarrow> string"
  rv_media_marker :: string

type_synonym 'c request_reader = "('c, result_body, result_state) reader"

text \<open>A request: \<open>ar_param\<close> is \<open>get_param\<close>, empty for a missing parameter; \<open>ar_files\<close> its uploaded files.\<close>

record api_req =
  ar_param :: "string \<Rightarrow> string"
  ar_body :: string
  ar_files :: json

text \<open>
  \<open>Blocked\<close> is a handler that still waits, \<open>Closed\<close> the empty answer to a client that is gone.
  \<open>Metrics_page\<close> has the header with the start time, and its text; an event stream has its first chunk.
\<close>

datatype answer =
    Blocked
  | Closed
  | Ok_json json
  | Err_json int json
  | Metrics_page int string
  | Event_stream string

definition answer_error :: "json \<Rightarrow> answer" where
  "answer_error e = Err_json (json_value get_int e ''code'' 500) (JObj [(''error'', e)])"

definition refuse :: "string \<Rightarrow> error_type \<Rightarrow> answer" where
  "refuse m ty = answer_error (format_error_response m ty)"

text \<open>
  The reader of a new response.  Unless it bypasses the sleep, a response asks a sleeping server to wake
  and is created once it no longer sleeps (\<open>no_sleep_returns\<close>).
\<close>

definition create_response :: "routes_conf \<Rightarrow> bool \<Rightarrow> 'c server_queue \<Rightarrow> result_body server_response \<Rightarrow> 'c request_reader" where
  "create_response P bypass_sleep q r =
     \<lparr>rd_ids = [], rd_received = 0, rd_cancelled = False, rd_states = [],
      rd_queue = (if bypass_sleep \<or> rc_sleep_idle_seconds P < 0 then q else request_no_sleep q), rd_results = r\<rparr>"

definition dquoted :: "string \<Rightarrow> string" where
  "dquoted s = CHR 0x22 # s @ [CHR 0x22]"

definition parse_json :: "'c routes_env \<Rightarrow> string \<Rightarrow> json result" where
  "parse_json E s = (case rv_parse E s of Some j \<Rightarrow> Inr j | None \<Rightarrow> Inl (Throw ''json''))"

definition json_at :: "string \<Rightarrow> json \<Rightarrow> json result" where
  "json_at k j = (case jfind k j of Some v \<Rightarrow> Inr v | None \<Rightarrow> Inl (Throw ''json''))"

text \<open>The virtual method \<open>to_json\<close>.\<close>

fun body_to_json :: "json_env \<Rightarrow> result_body \<Rightarrow> json result" where
  "body_to_json E (Final f) = final_to_json E f"
| "body_to_json E (Partial p) = partial_to_json E p"
| "body_to_json E (Embd index embedding n ty) = embd_to_json index embedding n ty"
| "body_to_json E (Rerank index score n) = Inr (rerank_to_json index score n)"
| "body_to_json E (Error ty msg n_prompt n_ctx) = Inr (error_to_json ty msg n_prompt n_ctx)"
| "body_to_json E (Metrics _ _ _) = Inr JNull"
| "body_to_json E (Slots n_idle data) = Inr data"
| "body_to_json E (Slot_save_load slot filename is_save n_tok n_bytes t) = Inr (slot_save_load_to_json slot filename is_save n_tok n_bytes t)"
| "body_to_json E (Slot_erase slot n) = Inr (slot_erase_to_json slot n)"
| "body_to_json E (Control ok msg) = Inr (control_to_json ok msg)"
| "body_to_json E (Get_lora data) = Inr data"
| "body_to_json E Apply_lora = Inr (JObj [(''success'', JBool True)])"
| "body_to_json E (Router data) = Inr data"

section \<open>Asking the server context\<close>

text \<open>
  \<open>next\<close>: each turn has what the timed receive gave and the data \<open>should_stop\<close> looks at.  The result has the
  data of the turn that ended the wait; \<open>None\<close> is a wait that goes on.
\<close>

fun reader_next ::
  "task_params \<Rightarrow> ('r \<Rightarrow> 's \<Rightarrow> 'r \<times> 's) \<Rightarrow> int \<Rightarrow> ('x \<Rightarrow> bool) \<Rightarrow> ('r result_msg option \<times> 'x) list \<Rightarrow> ('c, 'r, 's) reader
     \<Rightarrow> (('r next_out \<times> 'x) option \<times> ('c, 'r, 's) reader) result" where
  "reader_next p update now should_stop [] rd = Inr (None, rd)"
| "reader_next p update now should_stop ((r, x) # turns) rd =
     rbind (reader_next_turn p update now r (should_stop x) rd) (\<lambda>(out, rd).
       case out of
         Again \<Rightarrow> reader_next p update now should_stop turns rd
       | _ \<Rightarrow> Inr (Some (out, x), rd))"

type_synonym simple_turns = "(result_body result_msg option \<times> bool) list"

text \<open>\<open>server_task(type)\<close>; the fields it leaves out keep their initializers.\<close>

definition new_task :: "'c routes_env \<Rightarrow> server_task_type \<Rightarrow> 'c server_task" where
  "new_task E ty = (cancel_task (rv_params E) (-1))\<lparr>type_of_task := ty\<rparr>"

text \<open>One task, posted under a new id; \<open>fill\<close> sets its arguments.\<close>

definition post_one :: "'c routes_env \<Rightarrow> int \<Rightarrow> server_task_type \<Rightarrow> ('c server_task \<Rightarrow> 'c server_task) \<Rightarrow> bool
    \<Rightarrow> 'c request_reader \<Rightarrow> 'c request_reader result" where
  "post_one E now ty fill front rd =
     (let (i, q) = get_new_id (rd_queue rd)
      in reader_post_task (rv_state E) now (fill ((new_task E ty)\<lparr>task_id := i\<rparr>)) front (rd\<lparr>rd_queue := q\<rparr>))"

text \<open>The answer to a result; \<open>kind\<close> is the type the handler asserts.\<close>

definition answer_result :: "json_env \<Rightarrow> (result_body \<Rightarrow> bool) \<Rightarrow> result_body next_out option \<Rightarrow> answer result" where
  "answer_result J kind out =
     (case out of
        None \<Rightarrow> Inr Blocked
      | Some (Result m) \<Rightarrow>
          if res_error m then rbind (body_to_json J (res_body m)) (\<lambda>j. Inr (answer_error j))
          else if \<not> kind (res_body m) then Inl Abort
          else rbind (body_to_json J (res_body m)) (\<lambda>j. Inr (Ok_json j))
      | Some _ \<Rightarrow> Inr Closed)"

text \<open>Post a task, wait for its result, answer it.\<close>

definition ask :: "'c routes_env \<Rightarrow> int \<Rightarrow> server_task_type \<Rightarrow> ('c server_task \<Rightarrow> 'c server_task) \<Rightarrow> bool
    \<Rightarrow> (result_body \<Rightarrow> bool) \<Rightarrow> simple_turns \<Rightarrow> 'c request_reader \<Rightarrow> (answer \<times> 'c request_reader) result" where
  "ask E now ty fill front kind turns rd =
     rbind (post_one E now ty fill front rd) (\<lambda>rd.
     rbind (reader_next (rv_params E) (body_update (rv_lib E)) now (\<lambda>stop. stop) turns rd) (\<lambda>(out, rd).
     rbind (answer_result (rv_json E) kind (map_option fst out)) (\<lambda>a. Inr (a, rd))))"

section \<open>Slots, adapters and control\<close>

fun is_slots :: "result_body \<Rightarrow> bool" where
  "is_slots (Slots _ _) = True" | "is_slots _ = False"

fun is_save_load :: "result_body \<Rightarrow> bool" where
  "is_save_load (Slot_save_load _ _ _ _ _ _) = True" | "is_save_load _ = False"

fun is_erase :: "result_body \<Rightarrow> bool" where
  "is_erase (Slot_erase _ _) = True" | "is_erase _ = False"

fun is_get_lora :: "result_body \<Rightarrow> bool" where
  "is_get_lora (Get_lora _) = True" | "is_get_lora _ = False"

fun is_apply_lora :: "result_body \<Rightarrow> bool" where
  "is_apply_lora Apply_lora = True" | "is_apply_lora _ = False"

definition get_slots :: "'c routes_env \<Rightarrow> int \<Rightarrow> api_req \<Rightarrow> simple_turns \<Rightarrow> 'c request_reader \<Rightarrow> (answer \<times> 'c request_reader) result" where
  "get_slots E now req turns rd =
     (if \<not> rc_slots (rv_conf E) then Inr (refuse (''This server does not support slots endpoint. Start it with `--slots`'') ERROR_NOT_SUPPORTED, rd)
      else
        rbind (post_one E now TASK_SLOT_GET (\<lambda>t. t) True rd) (\<lambda>rd.
        rbind (reader_next (rv_params E) (body_update (rv_lib E)) now (\<lambda>stop. stop) turns rd) (\<lambda>(out, rd).
          case map_option fst out of
            Some (Result m) \<Rightarrow>
              (case res_body m of
                 Slots n_idle data \<Rightarrow>
                   if \<not> res_error m \<and> ar_param req ''fail_on_no_slot'' \<noteq> [] \<and> n_idle = 0
                   then Inr (refuse ''no slot available'' ERROR_UNAVAILABLE, rd)
                   else rbind (answer_result (rv_json E) is_slots (Some (Result m))) (\<lambda>a. Inr (a, rd))
               | _ \<Rightarrow> rbind (answer_result (rv_json E) is_slots (Some (Result m))) (\<lambda>a. Inr (a, rd)))
          | o' \<Rightarrow> rbind (answer_result (rv_json E) is_slots o') (\<lambda>a. Inr (a, rd)))))"

text \<open>The file name of a save or a restore, \<open>None\<close> for one that is refused.\<close>

definition slot_filename :: "'c routes_env \<Rightarrow> api_req \<Rightarrow> string option result" where
  "slot_filename E req =
     rbind (parse_json E (ar_body req)) (\<lambda>data.
     rbind (json_at ''filename'' data) (\<lambda>v.
     rbind (get_string v) (\<lambda>filename. Inr (if rv_valid_filename E filename then Some filename else None))))"

definition slot_file_task :: "'c routes_env \<Rightarrow> int \<Rightarrow> string \<Rightarrow> 'c server_task \<Rightarrow> 'c server_task" where
  "slot_file_task E slot filename t =
     t\<lparr>slot_action_of := \<lparr>sa_id_slot = slot, sa_filename = filename, sa_filepath = rc_save_path (rv_conf E) @ filename\<rparr>\<rparr>"

definition handle_slots_save :: "'c routes_env \<Rightarrow> int \<Rightarrow> api_req \<Rightarrow> int \<Rightarrow> simple_turns \<Rightarrow> 'c request_reader \<Rightarrow> (answer \<times> 'c request_reader) result" where
  "handle_slots_save E now req slot turns rd =
     rbind (slot_filename E req) (\<lambda>f. case f of
         None \<Rightarrow> Inr (refuse ''Invalid filename'' ERROR_INVALID_REQUEST, rd)
       | Some filename \<Rightarrow> ask E now TASK_SLOT_SAVE (slot_file_task E slot filename) False (\<lambda>_. True) turns rd)"

definition handle_slots_restore :: "'c routes_env \<Rightarrow> int \<Rightarrow> api_req \<Rightarrow> int \<Rightarrow> simple_turns \<Rightarrow> 'c request_reader \<Rightarrow> (answer \<times> 'c request_reader) result" where
  "handle_slots_restore E now req slot turns rd =
     rbind (slot_filename E req) (\<lambda>f. case f of
         None \<Rightarrow> Inr (refuse ''Invalid filename'' ERROR_INVALID_REQUEST, rd)
       | Some filename \<Rightarrow> ask E now TASK_SLOT_RESTORE (slot_file_task E slot filename) False is_save_load turns rd)"

definition handle_slots_erase :: "'c routes_env \<Rightarrow> int \<Rightarrow> int \<Rightarrow> simple_turns \<Rightarrow> 'c request_reader \<Rightarrow> (answer \<times> 'c request_reader) result" where
  "handle_slots_erase E now slot turns rd =
     ask E now TASK_SLOT_ERASE (\<lambda>t. t\<lparr>slot_action_of := (slot_action_of t)\<lparr>sa_id_slot := slot\<rparr>\<rparr>) False is_erase turns rd"

definition post_slots :: "'c routes_env \<Rightarrow> int \<Rightarrow> api_req \<Rightarrow> simple_turns \<Rightarrow> 'c request_reader \<Rightarrow> (answer \<times> 'c request_reader) result" where
  "post_slots E now req turns rd =
     (if rc_save_path (rv_conf E) = [] then
        Inr (refuse ''This server does not support slots action. Start it with `--slot-save-path`'' ERROR_NOT_SUPPORTED, rd)
      else case stoi (ar_param req ''id_slot'') of
        None \<Rightarrow> Inr (refuse ''Invalid slot ID'' ERROR_INVALID_REQUEST, rd)
      | Some slot \<Rightarrow>
          let action = ar_param req ''action''
          in if action = ''save'' then handle_slots_save E now req slot turns rd
             else if action = ''restore'' then handle_slots_restore E now req slot turns rd
             else if action = ''erase'' then handle_slots_erase E now slot turns rd
             else Inr (refuse ''Invalid action'' ERROR_INVALID_REQUEST, rd))"

definition post_control :: "'c routes_env \<Rightarrow> int \<Rightarrow> api_req \<Rightarrow> simple_turns \<Rightarrow> 'c request_reader \<Rightarrow> (answer \<times> 'c request_reader) result" where
  "post_control E now req turns rd =
     rbind (parse_json E (ar_body req)) (\<lambda>body.
       let cmpl_id = json_value get_str body ''id'' [];
           action = json_value get_str body ''action'' []
       in if cmpl_id = [] then Inr (refuse ''missing completion id'' ERROR_INVALID_REQUEST, rd)
          else if action \<noteq> ''reasoning_end'' then Inr (refuse ''unknown control action'' ERROR_INVALID_REQUEST, rd)
          else ask E now TASK_CONTROL
                 (\<lambda>t. t\<lparr>params := (params t)\<lparr>control_cmpl_id := cmpl_id, control_action := action\<rparr>\<rparr>) False (\<lambda>_. True) turns rd)"

definition get_lora_adapters :: "'c routes_env \<Rightarrow> int \<Rightarrow> simple_turns \<Rightarrow> 'c request_reader \<Rightarrow> (answer \<times> 'c request_reader) result" where
  "get_lora_adapters E now turns rd = ask E now TASK_GET_LORA (\<lambda>t. t) False is_get_lora turns rd"

definition post_lora_adapters :: "'c routes_env \<Rightarrow> int \<Rightarrow> api_req \<Rightarrow> simple_turns \<Rightarrow> 'c request_reader \<Rightarrow> (answer \<times> 'c request_reader) result" where
  "post_lora_adapters E now req turns rd =
     rbind (parse_json E (ar_body req)) (\<lambda>body. case body of
         JArr entries \<Rightarrow>
           ask E now TASK_SET_LORA (\<lambda>t. t\<lparr>set_lora := parse_lora_request (rv_round32 E) entries\<rparr>) False is_apply_lora turns rd
       | _ \<Rightarrow> Inr (refuse ''Request body must be an array'' ERROR_INVALID_REQUEST, rd))"

section \<open>Cached answers\<close>

definition get_res_model_info :: "'c routes_env \<Rightarrow> json" where
  "get_res_model_info E =
     (let m = rv_meta E
      in JObj
       [(''id'', JStr (mt_model_name m)), (''aliases'', mt_aliases m), (''tags'', mt_tags m), (''object'', JStr ''model''),
        (''created'', JInt (je_time (rv_json E))), (''owned_by'', JStr ''llamacpp''),
        (''meta'', JObj
          [(''vocab_type'', JInt (mt_vocab_type m)), (''n_vocab'', JInt (mt_n_vocab m)), (''n_ctx'', JInt (mt_slot_n_ctx m)),
           (''n_ctx_train'', JInt (mt_n_ctx_train m)), (''n_embd'', JInt (mt_n_embd m)), (''n_params'', JInt (mt_n_params m)),
           (''size'', JInt (mt_size m)), (''ftype'', JStr (mt_ftype m))])])"

definition get_res_models :: "'c routes_env \<Rightarrow> json" where
  "get_res_models E =
     (let m = rv_meta E
      in JObj
       [(''models'', JArr [JObj
          [(''name'', JStr (mt_model_name m)), (''model'', JStr (mt_model_name m)), (''modified_at'', JStr []), (''size'', JStr []),
           (''digest'', JStr []), (''type'', JStr ''model''), (''description'', JStr []), (''tags'', JArr [JStr []]),
           (''capabilities'', if mt_has_mtmd m then JArr [JStr ''completion'', JStr ''multimodal''] else JArr [JStr ''completion'']),
           (''parameters'', JStr []),
           (''details'', JObj
             [(''parent_model'', JStr []), (''format'', JStr ''gguf''), (''family'', JStr []), (''families'', JArr [JStr []]),
              (''parameter_size'', JStr []), (''quantization_level'', JStr [])])]]),
        (''object'', JStr ''list''), (''data'', JArr [get_res_model_info E])])"

definition get_res_props :: "'c routes_env \<Rightarrow> bool \<Rightarrow> json" where
  "get_res_props E is_sleeping =
     (let m = rv_meta E; P = rv_conf E;
          tools = mt_template m ''tool_use'';
          props = JObj
           [(''default_generation_settings'', JObj
              [(''params'', params_to_json True ((rv_params E)\<lparr>sampling := rc_sampling P\<rparr>)), (''n_ctx'', JInt (mt_slot_n_ctx m))]),
            (''total_slots'', JInt (rc_n_parallel P)), (''model_alias'', JStr (mt_model_name m)), (''model_ftype'', JStr (mt_ftype m)),
            (''model_path'', JStr (mt_model_path m)),
            (''modalities'', JObj
              [(''vision'', JBool (mt_inp_image m)), (''video'', JBool (mt_inp_video m)), (''audio'', JBool (mt_inp_audio m))]),
            (''media_marker'', JStr (rv_media_marker E)), (''endpoint_slots'', JBool (rc_slots P)), (''endpoint_props'', JBool (rc_props P)),
            (''endpoint_metrics'', JBool (rc_metrics P)), (''ui'', JBool (rc_ui P)), (''ui_settings'', mt_ui_settings m),
            (''chat_template'', JStr (mt_template m [])), (''chat_template_caps'', mt_template_caps m), (''bos_token'', JStr (mt_bos_str m)),
            (''eos_token'', JStr (mt_eos_str m)), (''build_info'', JStr (mt_build_info m)), (''is_sleeping'', JBool is_sleeping),
            (''cors_proxy_enabled'', JBool (rc_mcp_proxy P))]
      in if rc_use_jinja P \<and> tools \<noteq> [] then jset ''chat_template_tool_use'' (JStr tools) props else props)"

text \<open>What the handlers answer while the server sleeps; \<open>ca_should_reset\<close> is \<open>should_reset_buckets\<close>.\<close>

record route_cache =
  ca_models :: json
  ca_props :: json
  ca_metrics :: server_metrics
  ca_should_reset :: bool

text \<open>\<open>update_cached_responses\<close>; the metrics are those of the server context.\<close>

definition update_cached_responses :: "'c routes_env \<Rightarrow> bool \<Rightarrow> server_metrics \<Rightarrow> route_cache \<Rightarrow> server_metrics \<times> route_cache" where
  "update_cached_responses E is_sleeping m c =
     (if is_sleeping then
        (m, \<lparr>ca_models = get_res_models E, ca_props = get_res_props E True, ca_metrics = m, ca_should_reset = False\<rparr>)
      else if ca_should_reset c then (reset_bucket m, c\<lparr>ca_should_reset := False\<rparr>)
      else (m, c))"

definition get_health :: answer where
  "get_health = Ok_json (JObj [(''status'', JStr ''ok'')])"

definition get_props :: "'c routes_env \<Rightarrow> 'c request_reader \<Rightarrow> route_cache \<Rightarrow> answer" where
  "get_props E rd c = Ok_json (if sleeping (rd_queue rd) then ca_props c else get_res_props E False)"

definition get_models :: "'c routes_env \<Rightarrow> 'c request_reader \<Rightarrow> route_cache \<Rightarrow> answer" where
  "get_models E rd c = Ok_json (if sleeping (rd_queue rd) then ca_models c else get_res_models E)"

definition post_props :: "'c routes_env \<Rightarrow> answer" where
  "post_props E =
     (if \<not> rc_props (rv_conf E) then refuse ''This server does not support changing global properties. Start it with `--props`'' ERROR_NOT_SUPPORTED
      else Ok_json (JObj [(''success'', JBool True)]))"

section \<open>The metrics page\<close>

text \<open>Name, description and value.\<close>

definition metric_item :: "'c routes_env \<Rightarrow> string \<Rightarrow> string \<times> string \<times> rat \<Rightarrow> string" where
  "metric_item E ty item =
     (let (name, description, v) = item
      in ''# HELP llamacpp:'' @ name @ '' '' @ description @ [newline]
         @ ''# TYPE llamacpp:'' @ name @ '' '' @ ty @ [newline]
         @ ''llamacpp:'' @ name @ '' '' @ rv_number E v @ [newline])"

definition metric_counters :: "server_metrics \<Rightarrow> (string \<times> string \<times> rat) list" where
  "metric_counters m =
     [(''prompt_tokens_total'', ''Number of prompt tokens processed, excluding cached tokens'', of_nat (b_count (m_prompt m))),
      (''prompt_tokens_cached_total'', ''Number of prompt tokens reused from the cache'', of_nat (m_n_prompt_cached m)),
      (''prompt_seconds_total'', ''Total time spent processing prompts'', of_nat (b_time (m_prompt m)) / 1000000),
      (''tokens_predicted_total'', ''Number of generation tokens processed'', of_nat (b_count (m_predict m))),
      (''tokens_predicted_seconds_total'', ''Total time spent generating tokens'', of_nat (b_time (m_predict m)) / 1000000),
      (''n_decode_total'', ''Total number of llama_decode() calls, excluding speculative decoding and multimodal decoding'', of_nat (m_n_decode m)),
      (''n_tokens_max'', ''Largest observed sequence length (prompt + generation)'', of_nat (m_n_tokens_max m)),
      (''spec_decode_num_draft_tokens_total'', ''Speculative: Total draft tokens generated'', of_nat (m_n_draft_tokens m)),
      (''spec_decode_num_accepted_tokens_total'', ''Speculative: Total draft tokens accepted by the target model'', of_nat (m_n_draft_accepted m)),
      (''spec_decode_num_drafts_total'', ''Speculative: Total speculative decoding verification steps'', of_nat (m_n_draft_verif_steps m))]"

definition metric_gauges :: "int \<Rightarrow> int \<Rightarrow> server_metrics \<Rightarrow> (string \<times> string \<times> rat) list" where
  "metric_gauges n_processing n_deferred m =
     [(''prompt_tokens_seconds'', ''Average prompt throughput in tokens/s'', bucket_n_per_second (prompt_bucket m)),
      (''predicted_tokens_seconds'', ''Average generation throughput in tokens/s'', bucket_n_per_second (predict_bucket m)),
      (''requests_processing'', ''Number of requests processing'', of_int n_processing),
      (''requests_deferred'', ''Number of requests deferred'', of_int n_deferred),
      (''n_busy_slots_per_decode'', ''Average number of busy slots per llama_decode() call'',
         of_nat (m_n_busy_slots m) / max (of_nat (m_n_decode m)) 1)]"

definition to_metrics :: "'c routes_env \<Rightarrow> int \<Rightarrow> int \<Rightarrow> server_metrics \<Rightarrow> string" where
  "to_metrics E n_processing n_deferred m =
     concat (map (metric_item E ''counter'') (metric_counters m))
     @ concat (map (metric_item E ''gauge'') (metric_gauges n_processing n_deferred m))
     @ (if m_n_accepted_per_pos m = [] then [] else
          ''# HELP llamacpp:spec_decode_num_accepted_tokens_per_pos_total Accepted tokens per draft position'' @ [newline]
          @ ''# TYPE llamacpp:spec_decode_num_accepted_tokens_per_pos_total counter'' @ [newline]
          @ concat (map (\<lambda>(i, n). ''llamacpp:spec_decode_num_accepted_tokens_per_pos_total{position='' @ [CHR 0x22] @ show_nat i
              @ [CHR 0x22] @ ''} '' @ show_nat n @ [newline]) (enumerate 0 (m_n_accepted_per_pos m))))"

text \<open>The cached page: no slot is processing and no task is deferred in a fresh result.\<close>

definition use_cached_metrics :: "'c routes_env \<Rightarrow> route_cache \<Rightarrow> answer \<times> route_cache" where
  "use_cached_metrics E c =
     (Metrics_page (m_t_start (ca_metrics c)) (to_metrics E 0 0 (ca_metrics c)),
      c\<lparr>ca_metrics := reset_bucket (ca_metrics c), ca_should_reset := True\<rparr>)"

text \<open>A turn of the wait has \<open>should_stop\<close> of the request and whether the queue sleeps.\<close>

definition get_metrics :: "'c routes_env \<Rightarrow> int \<Rightarrow> (result_body result_msg option \<times> bool \<times> bool) list \<Rightarrow> 'c request_reader \<Rightarrow> route_cache
    \<Rightarrow> (answer \<times> 'c request_reader \<times> route_cache) result" where
  "get_metrics E now turns rd c =
     (if \<not> rc_metrics (rv_conf E) then Inr (refuse ''This server does not support metrics endpoint. Start it with `--metrics`'' ERROR_NOT_SUPPORTED, rd, c)
      else if sleeping (rd_queue rd) then (let (a, c) = use_cached_metrics E c in Inr (a, rd, c))
      else
        rbind (post_one E now TASK_METRICS (\<lambda>t. t\<lparr>metrics_reset_bucket := True\<rparr>) True rd) (\<lambda>rd.
        rbind (reader_next (rv_params E) (body_update (rv_lib E)) now (\<lambda>(stop, asleep). stop \<or> asleep) turns rd) (\<lambda>(out, rd).
          case out of
            None \<Rightarrow> Inr (Blocked, rd, c)
          | Some (Result m, _) \<Rightarrow>
              if res_error m then rbind (body_to_json (rv_json E) (res_body m)) (\<lambda>j. Inr (answer_error j, rd, c))
              else (case res_body m of
                      Metrics n_processing n_deferred mt \<Rightarrow> Inr (Metrics_page (m_t_start mt) (to_metrics E n_processing n_deferred mt), rd, c)
                    | _ \<Rightarrow> Inl Abort)
          | Some (_, stop, _) \<Rightarrow>
              if stop then Inr (Closed, rd, c) else (let (a, c) = use_cached_metrics E c in Inr (a, rd, c)))))"

section \<open>Tokens\<close>

definition token_piece :: "'c routes_env \<Rightarrow> llama_token \<Rightarrow> json" where
  "token_piece E t =
     (let piece = rv_piece E t
      in JObj [(''id'', JInt (sint t)), (''piece'', if is_valid_utf8 piece then JStr piece else JArr (map (\<lambda>c. JInt (of_char c)) piece))])"

definition post_tokenize :: "'c routes_env \<Rightarrow> api_req \<Rightarrow> answer result" where
  "post_tokenize E req =
     rbind (parse_json E (ar_body req)) (\<lambda>body.
     rbind (case jfind ''content'' body of
              None \<Rightarrow> Inr (JArr [])
            | Some content \<Rightarrow>
                rbind (tokenize_mixed (rv_input E) content (json_value get_bool body ''add_special'' False)
                         (json_value get_bool body ''parse_special'' True)) (\<lambda>ts.
                  Inr (if json_value get_bool body ''with_pieces'' False then JArr (map (token_piece E) ts) else jtoks ts)))
       (\<lambda>ts. Inr (Ok_json (JObj [(''tokens'', ts)]))))"

definition post_detokenize :: "'c routes_env \<Rightarrow> api_req \<Rightarrow> answer result" where
  "post_detokenize E req =
     rbind (parse_json E (ar_body req)) (\<lambda>body.
     rbind (case jfind ''tokens'' body of
              None \<Rightarrow> Inr []
            | Some ts \<Rightarrow> rbind (get_tokens_array (rv_input E) ts) (\<lambda>ts. Inr (concat (map (rv_piece E) ts))))
       (\<lambda>content. Inr (Ok_json (JObj [(''content'', JStr content)]))))"

definition post_apply_template :: "'c routes_env \<Rightarrow> api_req \<Rightarrow> answer result" where
  "post_apply_template E req =
     rbind (parse_json E (ar_body req)) (\<lambda>body.
     rbind (oaicompat_chat_params_parse (rv_templates E) (rv_media E) (mt_chat (rv_meta E)) body []) (\<lambda>(data, _).
     rbind (json_at ''prompt'' data) (\<lambda>prompt. Inr (Ok_json (JObj [(''prompt'', prompt)])))))"

text \<open>\<open>handle_count_tokens\<close>; media are placeholders here.\<close>

definition handle_count_tokens :: "'c routes_env \<Rightarrow> task_response_type \<Rightarrow> api_req \<Rightarrow> answer result" where
  "handle_count_tokens E ty req =
     rbind (parse_json E (ar_body req)) (\<lambda>body.
       if ty \<notin> {RESPONSE_OAI_CHAT, RESPONSE_OAI_RESP, RESPONSE_ANTHROPIC} then Inr (refuse ''invalid res_type'' ERROR_INVALID_REQUEST)
       else
         rbind (if ty = RESPONSE_OAI_RESP then rv_responses E body else if ty = RESPONSE_ANTHROPIC then rv_anthropic E body else Inr body) (\<lambda>body.
         rbind (oaicompat_chat_params_parse (rv_templates E) (rv_media E) (mt_chat (rv_meta E)) body []) (\<lambda>(data, files).
         rbind (json_at ''prompt'' data) (\<lambda>prompt.
         rbind (if ie_mctx (rv_input E) then
                  (case prompt of
                     JStr s \<Rightarrow> rbind (process_mtmd_prompt (rv_input E) s files True) (\<lambda>ts. Inr (st_size ts))
                   | _ \<Rightarrow> Inl (Throw ''for mtmd, input prompt must be a string.''))
                else rbind (tokenize_mixed (rv_input E) prompt True True) (\<lambda>ts. Inr (length ts))) (\<lambda>n.
           let response = JObj [(''input_tokens'', jnat n)]
           in Inr (Ok_json (if ty \<noteq> RESPONSE_ANTHROPIC then jset ''object'' (JStr ''response.input_tokens'') response else response)))))))"

section \<open>Embeddings and reranking\<close>

text \<open>One task for each prompt, each under a new id.\<close>

fun new_tasks :: "('c server_tokens \<Rightarrow> 'c server_task) \<Rightarrow> 'c server_tokens list \<Rightarrow> 'c server_queue \<Rightarrow> 'c server_task list \<times> 'c server_queue" where
  "new_tasks mk_task [] q = ([], q)"
| "new_tasks mk_task (ts # rest) q =
     (let (i, q) = get_new_id q; (tasks, q) = new_tasks mk_task rest q
      in ((mk_task ts)\<lparr>task_id := i\<rparr> # tasks, q))"

text \<open>
  The answers of a batch as JSON; \<open>Inl\<close> is the answer of a batch that is not complete.  A result that is
  missing or of another type fails the assertion.
\<close>

fun results_json :: "json_env \<Rightarrow> (result_body \<Rightarrow> bool) \<Rightarrow> result_body result_msg option list \<Rightarrow> json list result" where
  "results_json J kind [] = Inr []"
| "results_json J kind (r # rs) =
     (case r of
        None \<Rightarrow> Inl Abort
      | Some m \<Rightarrow>
          if \<not> kind (res_body m) then Inl Abort
          else rbind (body_to_json J (res_body m)) (\<lambda>j. rbind (results_json J kind rs) (\<lambda>js. Inr (j # js))))"

definition batch_json :: "json_env \<Rightarrow> (result_body \<Rightarrow> bool) \<Rightarrow> result_body batch_response \<Rightarrow> (answer + json list) result" where
  "batch_json J kind b =
     (case b of
        BatchWaiting _ \<Rightarrow> Inr (Inl Blocked)
      | BatchTerminated _ \<Rightarrow> Inr (Inl Closed)
      | BatchError m _ \<Rightarrow> rbind (body_to_json J (res_body m)) (\<lambda>j. Inr (Inl (answer_error j)))
      | BatchDone rs \<Rightarrow> rbind (results_json J kind rs) (\<lambda>js. Inr (Inr js)))"

definition ask_all :: "'c routes_env \<Rightarrow> int \<Rightarrow> 'c server_task list \<Rightarrow> (result_body \<Rightarrow> bool) \<Rightarrow> simple_turns \<Rightarrow> 'c request_reader
    \<Rightarrow> ((answer + json list) \<times> 'c request_reader) result" where
  "ask_all E now tasks kind turns rd =
     rbind (reader_post_tasks (rv_state E) now tasks False rd) (\<lambda>rd.
     rbind (wait_for_all (rv_params E) (body_update (rv_lib E)) now turns rd) (\<lambda>(b, rd).
     rbind (batch_json (rv_json E) kind b) (\<lambda>r. Inr (r, rd))))"

fun is_embd :: "result_body \<Rightarrow> bool" where
  "is_embd (Embd _ _ _ _) = True" | "is_embd _ = False"

fun is_rerank :: "result_body \<Rightarrow> bool" where
  "is_rerank (Rerank _ _ _) = True" | "is_rerank _ = False"

text \<open>The input of a request for embeddings, with the type of its answer.\<close>

definition embeddings_input :: "task_response_type \<Rightarrow> json \<Rightarrow> (json \<times> task_response_type) option" where
  "embeddings_input ty body =
     (case jfind ''input'' body of
        Some v \<Rightarrow> Some (v, ty)
      | None \<Rightarrow> map_option (\<lambda>v. (v, RESPONSE_NONE)) (jfind ''content'' body))"

text \<open>The encoding of the answer: whether it is base64, or \<open>None\<close> when the format is not known.\<close>

definition embeddings_format :: "json \<Rightarrow> bool option result" where
  "embeddings_format body =
     (case jfind ''encoding_format'' body of
        None \<Rightarrow> Inr (Some False)
      | Some v \<Rightarrow> rbind (get_string v) (\<lambda>f. Inr (if f = ''base64'' then Some True else if f = ''float'' then Some False else None)))"

definition get_int_or_throw :: "json \<Rightarrow> int result" where
  "get_int_or_throw j = (case get_int j of Some i \<Rightarrow> Inr i | None \<Rightarrow> Inl (Throw ''json''))"

definition embeddings_tasks :: "'c routes_env \<Rightarrow> task_response_type \<Rightarrow> int \<Rightarrow> 'c server_tokens list \<Rightarrow> 'c server_queue
    \<Rightarrow> 'c server_task list \<times> 'c server_queue" where
  "embeddings_tasks E ty embd_norm =
     new_tasks (\<lambda>ts. let t = new_task E TASK_EMBEDDING
                     in t\<lparr>tokens := ts, params := (params t)\<lparr>res_type := ty, embd_normalize := embd_norm\<rparr>\<rparr>)"

definition embeddings_answer :: "'c routes_env \<Rightarrow> task_response_type \<Rightarrow> bool \<Rightarrow> json \<Rightarrow> json list \<Rightarrow> json" where
  "embeddings_answer E ty use_base64 body responses =
     (if ty = RESPONSE_OAI_EMBD
      then format_embeddings_response (if use_base64 then Some (rv_base64 E) else None) body (mt_model_name (rv_meta E)) responses
      else JArr responses)"

definition handle_embeddings_impl :: "'c routes_env \<Rightarrow> int \<Rightarrow> task_response_type \<Rightarrow> api_req \<Rightarrow> simple_turns \<Rightarrow> 'c request_reader
    \<Rightarrow> (answer \<times> 'c request_reader) result" where
  "handle_embeddings_impl E now ty req turns rd =
     (if \<not> rc_embedding (rv_conf E) then Inr (refuse ''This server does not support embeddings. Start it with `--embeddings`'' ERROR_NOT_SUPPORTED, rd)
      else if ty \<noteq> RESPONSE_NONE \<and> mt_pooling_none (rv_meta E) then
        Inr (refuse (''Pooling type '' @ single_quoted ''none'' @ '' is not OAI compatible. Please use a different pooling type'') ERROR_INVALID_REQUEST, rd)
      else rbind (parse_json E (ar_body req)) (\<lambda>body.
        case embeddings_input ty body of
          None \<Rightarrow> Inr (refuse (dquoted ''input'' @ '' or '' @ dquoted ''content'' @ '' must be provided'') ERROR_INVALID_REQUEST, rd)
        | Some (prompt, ty) \<Rightarrow>
            rbind (embeddings_format body) (\<lambda>f. case f of
                None \<Rightarrow> Inr (refuse ''The format to return the embeddings in. Can be either float or base64'' ERROR_INVALID_REQUEST, rd)
              | Some use_base64 \<Rightarrow>
                  rbind (tokenize_input_prompts (rv_input E) prompt True True) (\<lambda>inputs.
                    if list_ex (\<lambda>ts. toks ts = []) inputs then Inr (refuse ''Input content cannot be empty'' ERROR_INVALID_REQUEST, rd)
                    else
                      rbind (case jfind ''embd_normalize'' body of Some v \<Rightarrow> get_int_or_throw v | None \<Rightarrow> Inr (rc_embd_normalize (rv_conf E))) (\<lambda>embd_norm.
                        let (tasks, q) = embeddings_tasks E ty embd_norm inputs (rd_queue rd)
                        in rbind (ask_all E now tasks is_embd turns (rd\<lparr>rd_queue := q\<rparr>)) (\<lambda>(r, rd).
                             Inr (case r of Inl a \<Rightarrow> a | Inr responses \<Rightarrow> Ok_json (embeddings_answer E ty use_base64 body responses), rd)))))))"

fun get_strs :: "json \<Rightarrow> string list option" where
  "get_strs (JArr vs) = those (map get_str vs)"
| "get_strs _ = None"

fun rerank_inputs :: "'c routes_env \<Rightarrow> string \<Rightarrow> string list \<Rightarrow> 'c server_tokens list result" where
  "rerank_inputs E query [] = Inr []"
| "rerank_inputs E query (d # ds) =
     (case format_prompt_rerank (rv_input E) (rv_vocab E) (rv_rerank_prompt E) query d of
        None \<Rightarrow> Inl Abort
      | Some r \<Rightarrow> rbind r (\<lambda>ts. rbind (rerank_inputs E query ds) (\<lambda>tss. Inr (ts # tss))))"

definition post_rerank :: "'c routes_env \<Rightarrow> int \<Rightarrow> api_req \<Rightarrow> simple_turns \<Rightarrow> 'c request_reader \<Rightarrow> (answer \<times> 'c request_reader) result" where
  "post_rerank E now req turns rd =
     (if \<not> rc_embedding (rv_conf E) \<or> \<not> rc_rank (rv_conf E) then
        Inr (refuse ''This server does not support reranking. Start it with `--reranking`'' ERROR_NOT_SUPPORTED, rd)
      else rbind (parse_json E (ar_body req)) (\<lambda>body.
        case jfind ''query'' body of
          None \<Rightarrow> Inr (refuse (dquoted ''query'' @ '' must be provided'') ERROR_INVALID_REQUEST, rd)
        | Some query \<Rightarrow>
            (case get_str query of
               None \<Rightarrow> Inr (refuse (dquoted ''query'' @ '' must be a string'') ERROR_INVALID_REQUEST, rd)
             | Some query \<Rightarrow>
                 let documents = json_value get_strs body ''documents'' (json_value get_strs body ''texts'' [])
                 in if documents = [] then Inr (refuse (dquoted ''documents'' @ '' must be a non-empty string array'') ERROR_INVALID_REQUEST, rd)
                    else
                      let top_n = json_value get_int body ''top_n'' (int (length documents))
                      in rbind (rerank_inputs E query documents) (\<lambda>inputs.
                           let (tasks, q) = new_tasks (\<lambda>ts. (new_task E TASK_RERANK)\<lparr>tokens := ts\<rparr>) inputs (rd_queue rd)
                           in rbind (ask_all E now tasks is_rerank turns (rd\<lparr>rd_queue := q\<rparr>)) (\<lambda>(r, rd).
                                case r of
                                  Inl a \<Rightarrow> Inr (a, rd)
                                | Inr responses \<Rightarrow>
                                    rbind (format_response_rerank body (mt_model_name (rv_meta E)) responses (jcontains ''texts'' body) documents top_n)
                                      (\<lambda>root. Inr (Ok_json root, rd)))))))"

section \<open>A small server\<close>

definition sample_json_env :: json_env where
  "sample_json_env = \<lparr>je_time = 7, je_build = ''b1'', je_random = (\<lambda>_. ''r''), je_log = id, je_lowest = -1, je_diff = (\<lambda>_. JNull), je_msg = (\<lambda>_. JNull),
     je_msg_empty = (\<lambda>_. True), je_parse = (\<lambda>_. None), je_split = (\<lambda>s. [s])\<rparr>"

definition sample_conf :: routes_conf where
  "sample_conf = \<lparr>rc_metrics = True, rc_slots = True, rc_props = False, rc_save_path = [], rc_embedding = False, rc_rank = False, rc_n_batch = 8,
     rc_n_predict = -1, rc_spm_infill = False, rc_embd_normalize = 2, rc_n_parallel = 2, rc_ui = False, rc_mcp_proxy = False, rc_use_jinja = True,
     rc_sampling = sample_sampling, rc_sse_ping_interval = 30, rc_sleep_idle_seconds = -1\<rparr>"

definition sample_meta :: meta_t where
  "sample_meta = \<lparr>mt_build_info = ''b1'', mt_model_name = ''m'', mt_aliases = JArr [], mt_tags = JArr [], mt_model_path = [], mt_has_mtmd = False,
     mt_inp_image = False, mt_inp_audio = False, mt_inp_video = False, mt_ui_settings = JNull, mt_slot_n_ctx = 16, mt_pooling_none = False,
     mt_chat = sample_chat_params, mt_template = (\<lambda>_. []), mt_template_caps = JNull, mt_bos_str = [], mt_eos_str = [], mt_vocab_type = 1,
     mt_n_vocab = 256, mt_n_ctx_train = 16, mt_n_embd = 4, mt_n_params = 1, mt_size = 1, mt_ftype = []\<rparr>"

text \<open>Printing keeps the text of the first choice, without newlines.\<close>

definition sample_dump :: "json \<Rightarrow> string" where
  "sample_dump j =
     (case jfind ''choices'' j of
        Some (JArr (c # _)) \<Rightarrow> (case jfind ''text'' c of Some (JStr s) \<Rightarrow> filter (\<lambda>x. x \<noteq> newline) s | _ \<Rightarrow> ''json'')
      | _ \<Rightarrow> ''json'')"

definition sample_routes :: "unit routes_env" where
  "sample_routes = \<lparr>rv_conf = sample_conf, rv_meta = sample_meta, rv_input = sample_input, rv_vocab = sample_vocab, rv_rerank_prompt = None,
     rv_json = sample_json_env, rv_lib = sample_lib, rv_templates = sample_templates, rv_media = sample_media, rv_parse = (\<lambda>_. None),
     rv_dump = sample_dump, rv_params = sample_params, rv_state = (\<lambda>p. result_state_init sample_lib [] [] [] (chat_parser p)),
     rv_schema = (\<lambda>_. Inr (sample_params\<lparr>n_cmpl := 2\<rparr>)), rv_delims = (\<lambda>_. Inr (\<lambda>_ _. LibValue [])), rv_responses = Inr, rv_anthropic = Inr,
     rv_transcriptions = (\<lambda>j _. Inr (j, [])), rv_piece = (\<lambda>_. []), rv_valid_filename = (\<lambda>_. True), rv_round32 = id,
     rv_base64 = (\<lambda>_. []), rv_number = (\<lambda>_. ''0''), rv_media_marker = ''<m>''\<rparr>"

end
