(* ===== verification/Completions.thy ===== *)
theory Completions
  imports Routes "HOL-Library.Sublist"
begin

text \<open>
  The routes that generate text (\<open>server_routes\<close> in server-context.cpp): the tasks a request becomes
  (\<open>handle_completions_impl\<close>), its answer in one piece, and the generator that turns results into
  server-sent events while they arrive.  What the connection adds to \<open>should_stop\<close> and to the generator
  is not part of these sources; a call of the generator has the answers of \<open>should_stop\<close> as arguments.
\<close>

section \<open>From a request to tasks\<close>

definition completion_inputs :: "'c routes_env \<Rightarrow> task_response_type \<Rightarrow> json \<Rightarrow> byte list list \<Rightarrow> 'c server_tokens list result" where
  "completion_inputs E ty prompt files =
     (if ty \<noteq> RESPONSE_NONE \<and> ie_mctx (rv_input E) then
        rbind (get_string prompt) (\<lambda>s. rbind (process_mtmd_prompt (rv_input E) s files False) (\<lambda>ts. Inr [ts]))
      else tokenize_input_prompts (rv_input E) prompt True True)"

fun add_children :: "'c mtmd \<Rightarrow> nat \<Rightarrow> 'c server_task \<Rightarrow> 'c server_queue \<Rightarrow> 'c server_task \<times> 'c server_queue" where
  "add_children M 0 t q = (t, q)"
| "add_children M (Suc n) t q = (let (i, q) = get_new_id q in add_children M n (add_child M (task_id t) i t) q)"

text \<open>The task of one prompt, with its children; \<open>split\<close> finds the messages in the prompt.\<close>

definition completion_task :: "'c routes_env \<Rightarrow> server_task_type \<Rightarrow> task_response_type \<Rightarrow> string \<Rightarrow> json
    \<Rightarrow> (llama_token list \<Rightarrow> (nat \<times> nat) list \<Rightarrow> lib_value) \<Rightarrow> 'c server_tokens \<Rightarrow> 'c server_queue \<Rightarrow> 'c server_task result \<times> 'c server_queue" where
  "completion_task E type ty cmpl_id data split ts q =
     (let (i, q) = get_new_id q
      in case rv_schema E data of
           Inl e \<Rightarrow> (Inl e, q)
         | Inr p \<Rightarrow>
             let p = p\<lparr>message_spans := find_message_spans (ie_mtmd (rv_input E)) split ts, res_type := ty, oaicompat_cmpl_id := cmpl_id,
                       oaicompat_model := mt_model_name (rv_meta E)\<rparr>;
                 t = (new_task E type)\<lparr>task_id := i, tokens := ts, params := p, id_slot := json_value get_int data ''id_slot'' (-1)\<rparr>;
                 (t, q) = add_children (ie_mtmd (rv_input E)) (nat (n_cmpl p - 1)) t q
             in (Inr t, q))"

fun completion_tasks :: "'c routes_env \<Rightarrow> server_task_type \<Rightarrow> task_response_type \<Rightarrow> string \<Rightarrow> json
    \<Rightarrow> (llama_token list \<Rightarrow> (nat \<times> nat) list \<Rightarrow> lib_value) \<Rightarrow> 'c server_tokens list \<Rightarrow> 'c server_queue
    \<Rightarrow> 'c server_task list result \<times> 'c server_queue" where
  "completion_tasks E type ty cmpl_id data split [] q = (Inr [], q)"
| "completion_tasks E type ty cmpl_id data split (ts # inputs) q =
     (case completion_task E type ty cmpl_id data split ts q of
        (Inl e, q) \<Rightarrow> (Inl e, q)
      | (Inr t, q) \<Rightarrow>
          (case completion_tasks E type ty cmpl_id data split inputs q of
             (Inl e, q) \<Rightarrow> (Inl e, q)
           | (Inr rest, q) \<Rightarrow> (Inr (t # rest), q)))"

text \<open>The guarded part of the handler: the reader with its tasks posted, or the exception and the ids taken.\<close>

definition post_completion :: "'c routes_env \<Rightarrow> int \<Rightarrow> server_task_type \<Rightarrow> task_response_type \<Rightarrow> string \<Rightarrow> json \<Rightarrow> byte list list
    \<Rightarrow> 'c request_reader \<Rightarrow> (failure \<times> 'c request_reader) + 'c request_reader" where
  "post_completion E now type ty cmpl_id data files rd =
     (case rbind (json_at ''prompt'' data) (\<lambda>prompt.
           rbind (completion_inputs E ty prompt files) (\<lambda>inputs.
           rbind (rv_delims E (json_value Some data ''message_delimiters'' (JArr []))) (\<lambda>split. Inr (inputs, split)))) of
        Inl e \<Rightarrow> Inl (e, rd)
      | Inr (inputs, split) \<Rightarrow>
          (case completion_tasks E type ty cmpl_id data split inputs (rd_queue rd) of
             (Inl e, q) \<Rightarrow> Inl (e, rd\<lparr>rd_queue := q\<rparr>)
           | (Inr tasks, q) \<Rightarrow>
               (case reader_post_tasks (rv_state E) now tasks False (rd\<lparr>rd_queue := q\<rparr>) of
                  Inl e \<Rightarrow> Inl (e, rd\<lparr>rd_queue := q\<rparr>)
                | Inr rd \<Rightarrow> Inr rd)))"

section \<open>The answer in one piece\<close>

fun is_final :: "result_body \<Rightarrow> bool" where
  "is_final (Final _) = True" | "is_final _ = False"

fun is_cmpl :: "result_body \<Rightarrow> bool" where
  "is_cmpl (Final _) = True" | "is_cmpl (Partial _) = True" | "is_cmpl _ = False"

text \<open>\<open>j["choices"][0]\<close>: a missing member or element is created as null, other values throw.\<close>

definition first_choice :: "json \<Rightarrow> json result" where
  "first_choice j =
     (case json_value Some j ''choices'' JNull of
        JNull \<Rightarrow> Inr JNull
      | JArr [] \<Rightarrow> Inr JNull
      | JArr (c # _) \<Rightarrow> Inr c
      | _ \<Rightarrow> Inl (Throw ''json''))"

fun first_choices :: "json list \<Rightarrow> json list result" where
  "first_choices [] = Inr []"
| "first_choices (j # js) = rbind (first_choice j) (\<lambda>c. rbind (first_choices js) (\<lambda>cs. Inr (c # cs)))"

text \<open>Several results: in the OpenAI formats the choices of all go into the first.\<close>

definition merge_answers :: "task_response_type \<Rightarrow> json list \<Rightarrow> json result" where
  "merge_answers ty js =
     (case js of
        [] \<Rightarrow> Inl Abort
      | [j] \<Rightarrow> Inr j
      | j # rest \<Rightarrow>
          if ty = RESPONSE_OAI_CHAT \<or> ty = RESPONSE_OAI_CMPL then
            rbind (first_choices rest) (\<lambda>cs.
              case json_value Some j ''choices'' JNull of
                JArr vs \<Rightarrow> Inr (jset ''choices'' (JArr (vs @ cs)) j)
              | JNull \<Rightarrow> Inr (jset ''choices'' (JArr cs) j)
              | _ \<Rightarrow> Inl (Throw ''json''))
          else Inr (JArr js))"

definition answer_whole :: "'c routes_env \<Rightarrow> int \<Rightarrow> task_response_type \<Rightarrow> simple_turns \<Rightarrow> 'c request_reader \<Rightarrow> (answer \<times> 'c request_reader) result" where
  "answer_whole E now ty turns rd =
     rbind (wait_for_all (rv_params E) (body_update (rv_lib E)) now turns rd) (\<lambda>(b, rd).
     rbind (batch_json (rv_json E) is_final b) (\<lambda>r.
       case r of
         Inl a \<Rightarrow> Inr (a, rd)
       | Inr js \<Rightarrow> rbind (merge_answers ty js) (\<lambda>j. Inr (Ok_json j, rd))))"

section \<open>The answer as a stream\<close>

definition sse_of :: "'c routes_env \<Rightarrow> task_response_type \<Rightarrow> json \<Rightarrow> string result" where
  "sse_of E ty j =
     (if ty = RESPONSE_ANTHROPIC then format_anthropic_sse (rv_dump E) j
      else if ty = RESPONSE_OAI_RESP then format_oai_resp_sse (rv_dump E) j
      else Inr (format_oai_sse (rv_dump E) j))"

text \<open>The first result, which decides between an error and a stream; a null result sends the headers alone.\<close>

definition answer_stream :: "'c routes_env \<Rightarrow> int \<Rightarrow> task_response_type \<Rightarrow> simple_turns \<Rightarrow> 'c request_reader \<Rightarrow> (answer \<times> 'c request_reader) result" where
  "answer_stream E now ty turns rd =
     rbind (reader_next (rv_params E) (body_update (rv_lib E)) now (\<lambda>stop. stop) turns rd) (\<lambda>(out, rd).
       case map_option fst out of
         None \<Rightarrow> Inr (Blocked, rd)
       | Some (Result m) \<Rightarrow>
           if res_error m then rbind (body_to_json (rv_json E) (res_body m)) (\<lambda>j. Inr (answer_error j, rd))
           else if \<not> is_cmpl (res_body m) then Inl Abort
           else rbind (body_to_json (rv_json E) (res_body m)) (\<lambda>j.
                if j = JNull then Inr (Event_stream [], rd)
                else rbind (sse_of E ty j) (\<lambda>s. Inr (Event_stream s, rd)))
       | Some _ \<Rightarrow> Inr (Closed, rd))"

definition handle_completions_impl :: "'c routes_env \<Rightarrow> int \<Rightarrow> server_task_type \<Rightarrow> task_response_type \<Rightarrow> string \<Rightarrow> json \<Rightarrow> byte list list
    \<Rightarrow> simple_turns \<Rightarrow> 'c request_reader \<Rightarrow> (answer \<times> 'c request_reader) result" where
  "handle_completions_impl E now type ty cmpl_id data files turns rd =
     (if type \<noteq> TASK_COMPLETION \<and> type \<noteq> TASK_INFILL then Inl Abort
      else case post_completion E now type ty cmpl_id data files rd of
        Inl (Throw msg, rd) \<Rightarrow> Inr (refuse msg ERROR_INVALID_REQUEST, rd)
      | Inl (Abort, _) \<Rightarrow> Inl Abort
      | Inr rd \<Rightarrow>
          if json_value get_bool data ''stream'' False then answer_stream E now ty turns rd else answer_whole E now ty turns rd)"

definition done_event :: string where
  "done_event = ''data: [DONE]'' @ [newline, newline]"

definition ping_event :: string where
  "ping_event = '':'' @ [newline, newline]"

text \<open>An error in the middle of a stream; null for the type \<open>event\<close> cannot fail.\<close>

definition format_stream_error :: "'c routes_env \<Rightarrow> task_response_type \<Rightarrow> json \<Rightarrow> string" where
  "format_stream_error E ty e =
     (if ty = RESPONSE_ANTHROPIC then sse_event (rv_dump E) ''error'' e
      else format_oai_sse (rv_dump E) (JObj [(''error'', e)]))"

text \<open>
  The state of the generator: the chunk to be flushed, and the reader.  A call has the answer of
  \<open>should_stop\<close> at its start, the time of its start, and the turns of its wait: each with
  \<open>should_stop\<close> and the clock.
\<close>

record 'c sse_stream =
  ss_data :: string
  ss_rd :: "'c request_reader"

record stream_call =
  sc_stop :: bool
  sc_start :: int
  sc_turns :: "(result_body result_msg option \<times> bool \<times> int) list"

definition ping_due :: "int \<Rightarrow> int \<Rightarrow> int \<Rightarrow> bool" where
  "ping_due interval start t = (interval > 0 \<and> t - start > interval * 1000)"

text \<open>The event of a result, and whether the stream goes on.\<close>

definition stream_result :: "'c routes_env \<Rightarrow> task_response_type \<Rightarrow> result_body result_msg \<Rightarrow> (bool \<times> string) result" where
  "stream_result E ty m =
     (if res_error m then rbind (body_to_json (rv_json E) (res_body m)) (\<lambda>j. Inr (False, format_stream_error E ty j))
      else if \<not> is_cmpl (res_body m) then Inl Abort
      else rbind (body_to_json (rv_json E) (res_body m)) (\<lambda>j. rbind (sse_of E ty j) (\<lambda>s. Inr (True, s))))"

text \<open>\<open>try\<close> and \<open>catch\<close> of the generator.\<close>

definition catch_stream :: "'c routes_env \<Rightarrow> task_response_type \<Rightarrow> (bool \<times> string) result \<Rightarrow> (bool \<times> string) result" where
  "catch_stream E ty r =
     (case r of
        Inl (Throw msg) \<Rightarrow> Inr (False, format_stream_error E ty (format_error_response msg ERROR_SERVER))
      | _ \<Rightarrow> r)"

text \<open>One call of the generator: whether there is more, and the output; \<open>None\<close> is a call that still waits.\<close>

definition sse_next :: "'c routes_env \<Rightarrow> int \<Rightarrow> task_response_type \<Rightarrow> int \<Rightarrow> stream_call \<Rightarrow> 'c sse_stream
    \<Rightarrow> ((bool \<times> string) option \<times> 'c sse_stream) result" where
  "sse_next E now ty interval k S =
     (if sc_stop k then Inr (Some (False, []), S)
      else if ss_data S \<noteq> [] then Inr (Some (True, ss_data S), S\<lparr>ss_data := []\<rparr>)
      else if \<not> has_next (ss_rd S) then
        Inr (Some (False, if ty \<in> {RESPONSE_NONE, RESPONSE_OAI_RESP, RESPONSE_ANTHROPIC} then [] else done_event), S)
      else rbind (reader_next (rv_params E) (body_update (rv_lib E)) now (\<lambda>(stop, t). stop \<or> ping_due interval (sc_start k) t)
                    (sc_turns k) (ss_rd S)) (\<lambda>(out, rd).
        let S = S\<lparr>ss_rd := rd\<rparr>
        in case out of
             None \<Rightarrow> Inr (None, S)
           | Some (Result m, _) \<Rightarrow> rbind (catch_stream E ty (stream_result E ty m)) (\<lambda>r. Inr (Some r, S))
           | Some (_, stop, _) \<Rightarrow> Inr (Some (if stop then (False, []) else (True, ping_event)), S)))"

section \<open>The routes\<close>

definition post_completions :: "'c routes_env \<Rightarrow> int \<Rightarrow> task_response_type \<Rightarrow> string \<Rightarrow> api_req \<Rightarrow> simple_turns \<Rightarrow> 'c request_reader
    \<Rightarrow> (answer \<times> 'c request_reader) result" where
  "post_completions E now ty cmpl_id req turns rd =
     rbind (parse_json E (ar_body req)) (\<lambda>body. handle_completions_impl E now TASK_COMPLETION ty cmpl_id body [] turns rd)"

text \<open>The chat routes, after the conversion of their dialect.\<close>

definition post_chat :: "'c routes_env \<Rightarrow> int \<Rightarrow> task_response_type \<Rightarrow> string \<Rightarrow> json \<Rightarrow> byte list list \<Rightarrow> simple_turns \<Rightarrow> 'c request_reader
    \<Rightarrow> (answer \<times> 'c request_reader) result" where
  "post_chat E now ty cmpl_id body files turns rd =
     rbind (oaicompat_chat_params_parse (rv_templates E) (rv_media E) (mt_chat (rv_meta E)) body files) (\<lambda>(data, files).
       handle_completions_impl E now TASK_COMPLETION ty cmpl_id data files turns rd)"

definition post_chat_completions :: "'c routes_env \<Rightarrow> int \<Rightarrow> string \<Rightarrow> api_req \<Rightarrow> simple_turns \<Rightarrow> 'c request_reader \<Rightarrow> (answer \<times> 'c request_reader) result" where
  "post_chat_completions E now cmpl_id req turns rd =
     rbind (parse_json E (ar_body req)) (\<lambda>body. post_chat E now RESPONSE_OAI_CHAT cmpl_id body [] turns rd)"

definition post_responses_oai :: "'c routes_env \<Rightarrow> int \<Rightarrow> string \<Rightarrow> api_req \<Rightarrow> simple_turns \<Rightarrow> 'c request_reader \<Rightarrow> (answer \<times> 'c request_reader) result" where
  "post_responses_oai E now cmpl_id req turns rd =
     rbind (parse_json E (ar_body req)) (\<lambda>body.
     rbind (rv_responses E body) (\<lambda>body. post_chat E now RESPONSE_OAI_RESP cmpl_id body [] turns rd))"

definition post_anthropic_messages :: "'c routes_env \<Rightarrow> int \<Rightarrow> string \<Rightarrow> api_req \<Rightarrow> simple_turns \<Rightarrow> 'c request_reader \<Rightarrow> (answer \<times> 'c request_reader) result" where
  "post_anthropic_messages E now cmpl_id req turns rd =
     rbind (parse_json E (ar_body req)) (\<lambda>body.
     rbind (rv_anthropic E body) (\<lambda>body. post_chat E now RESPONSE_ANTHROPIC cmpl_id body [] turns rd))"

definition post_transcriptions_oai :: "'c routes_env \<Rightarrow> int \<Rightarrow> string \<Rightarrow> api_req \<Rightarrow> simple_turns \<Rightarrow> 'c request_reader \<Rightarrow> (answer \<times> 'c request_reader) result" where
  "post_transcriptions_oai E now cmpl_id req turns rd =
     (if \<not> mt_has_mtmd (rv_meta E) \<or> \<not> ch_allow_audio (mt_chat (rv_meta E)) then
        Inr (refuse ''The current model does not support audio input.'' ERROR_NOT_SUPPORTED, rd)
      else rbind (parse_json E (ar_body req)) (\<lambda>body.
           rbind (rv_transcriptions E body (ar_files req)) (\<lambda>(body, files). post_chat E now RESPONSE_OAI_ASR cmpl_id body files turns rd)))"

section \<open>Infilling\<close>

definition fim_missing :: "vocab_t \<Rightarrow> string" where
  "fim_missing V =
     (if vo_fim_pre V = LLAMA_TOKEN_NULL then ''prefix token is missing. '' else [])
     @ (if vo_fim_suf V = LLAMA_TOKEN_NULL then ''suffix token is missing. '' else [])
     @ (if vo_fim_mid V = LLAMA_TOKEN_NULL then ''middle token is missing. '' else [])"

definition is_jstr :: "json option \<Rightarrow> bool" where
  "is_jstr v = (case v of Some (JStr _) \<Rightarrow> True | _ \<Rightarrow> False)"

text \<open>What is wrong with the extra chunks, if anything.\<close>

fun extra_error :: "json list \<Rightarrow> string option" where
  "extra_error [] = None"
| "extra_error (chunk # chunks) =
     (if \<not> is_jstr (jfind ''text'' chunk) then
        Some (''extra_context chunk must contain a '' @ dquoted ''text'' @ '' field with a string value'')
      else if jcontains ''filename'' chunk \<and> \<not> is_jstr (jfind ''filename'' chunk) then
        Some (''extra_context chunk'' @ [CHR 0x27] @ ''s '' @ dquoted ''filename'' @ '' field must be a string'')
      else extra_error chunks)"

text \<open>
  The checks of \<open>prompt\<close>, \<open>input_prefix\<close> and \<open>input_suffix\<close> set an error in a response that is then
  dropped: they do not return, and \<open>handle_completions_impl\<close> makes a response of its own.
\<close>

definition post_infill :: "'c routes_env \<Rightarrow> int \<Rightarrow> string \<Rightarrow> api_req \<Rightarrow> simple_turns \<Rightarrow> 'c request_reader \<Rightarrow> (answer \<times> 'c request_reader) result" where
  "post_infill E now cmpl_id req turns rd =
     (let err = fim_missing (rv_vocab E); P = rv_conf E
      in if err \<noteq> [] then Inr (refuse (''Infill is not supported by this model: '' @ err) ERROR_NOT_SUPPORTED, rd)
         else rbind (parse_json E (ar_body req)) (\<lambda>data.
           case (case jfind ''input_extra'' data of None \<Rightarrow> JArr [] | Some v \<Rightarrow> v) of
             JArr extra \<Rightarrow>
               (case extra_error extra of
                  Some msg \<Rightarrow> Inr (refuse msg ERROR_INVALID_REQUEST, rd)
                | None \<Rightarrow>
                    let data = jset ''input_extra'' (JArr extra) data
                    in rbind (tokenize_input_prompts (rv_input E) (JStr (json_value get_str data ''prompt'' [])) False True) (\<lambda>prompts.
                       rbind (json_at ''input_prefix'' data) (\<lambda>input_prefix.
                       rbind (json_at ''input_suffix'' data) (\<lambda>input_suffix.
                       rbind (if prompts = [] then Inl Abort else get_tokens (hd prompts)) (\<lambda>prompt.
                       rbind (format_prompt_infill (rv_input E) (rv_vocab E) input_prefix input_suffix (JArr extra)
                                (rc_n_batch P) (rc_n_predict P) (mt_slot_n_ctx (rv_meta E)) (rc_spm_infill P) prompt) (\<lambda>ts.
                         handle_completions_impl E now TASK_INFILL RESPONSE_NONE cmpl_id (jset ''prompt'' (jtoks ts) data) [] turns rd))))))
           | _ \<Rightarrow>
               Inr (refuse (dquoted ''input_extra'' @ '' must be an array of {'' @ dquoted ''filename'' @ '': string, '' @ dquoted ''text'' @ '': string}'')
                      ERROR_INVALID_REQUEST, rd)))"

section \<open>Reading a stream\<close>

text \<open>
  What a client reads: the data of the events.  Lines of the form \<open>data:\<close> go to a buffer, a comment or
  another field is skipped, an empty line ends the event.
\<close>

definition field_line :: "string \<Rightarrow> string \<Rightarrow> string option" where
  "field_line f l =
     (if take (length f + 1) l = f @ '':'' then
        (let v = drop (length f + 1) l in Some (if take 1 v = '' '' then drop 1 v else v))
      else None)"

definition join_lines :: "string list \<Rightarrow> string" where
  "join_lines ls = (case ls of [] \<Rightarrow> [] | l # ls \<Rightarrow> l @ concat (map (\<lambda>l. newline # l) ls))"

text \<open>The events of a stream: the name of each, empty if it has none, and its data.\<close>

fun sse_events :: "string \<Rightarrow> string list \<Rightarrow> string list \<Rightarrow> (string \<times> string) list" where
  "sse_events name buf [] = []"
| "sse_events name buf (l # ls) =
     (if l = [] then (if buf = [] then sse_events [] [] ls else (name, join_lines buf) # sse_events [] [] ls)
      else case field_line ''data'' l of
             Some v \<Rightarrow> sse_events name (buf @ [v]) ls
           | None \<Rightarrow> case field_line ''event'' l of Some v \<Rightarrow> sse_events v buf ls | None \<Rightarrow> sse_events name buf ls)"

definition sse_read :: "string \<Rightarrow> (string \<times> string) list" where
  "sse_read s = sse_events [] [] (getlines s)"

lemma getlines_line: "newline \<notin> set l \<Longrightarrow> getlines (l @ newline # s) = l # getlines s"
proof -
  assume "newline \<notin> set l"
  then have "next_line (l @ newline # s) = (l, Some s)" by (simp add: next_line_Some)
  then show ?thesis by (subst getlines.simps) simp
qed

lemma sse_read_Nil [simp]: "sse_read [] = []"
  by (simp add: sse_read_def)

lemma newline_neq: "newline \<noteq> CHR ''d''" "newline \<noteq> CHR ''a''" "newline \<noteq> CHR ''t''" "newline \<noteq> CHR '':''" "newline \<noteq> CHR '' ''"
  "newline \<noteq> CHR ''e''" "newline \<noteq> CHR ''v''" "newline \<noteq> CHR ''n''" "newline \<noteq> CHR ''[''" "newline \<noteq> CHR '']''" "newline \<noteq> CHR ''D''" "newline \<noteq> CHR ''O''" "newline \<noteq> CHR ''N''" "newline \<noteq> CHR ''E''"
  by (simp_all add: newline_def)

lemma getlines_data:
  assumes "newline \<notin> set d"
  shows "getlines (''data: '' @ d @ [newline, newline] @ s) = (''data: '' @ d) # [] # getlines s"
proof -
  have "newline \<notin> set (''data: '' @ d)" using assms by (simp add: newline_neq)
  then have "getlines (''data: '' @ d @ [newline, newline] @ s) = (''data: '' @ d) # getlines ([] @ newline # s)"
    using getlines_line [of "''data: '' @ d" "newline # s"] by simp
  also have "\<dots> = (''data: '' @ d) # [] # getlines s"
    using getlines_line [of "[]" s] by simp
  finally show ?thesis .
qed

lemma sse_read_data: "newline \<notin> set d \<Longrightarrow> sse_read (''data: '' @ d @ [newline, newline] @ s) = ([], d) # sse_read s"
  using getlines_data [of d s] by (simp add: sse_read_def field_line_def join_lines_def)

lemma sse_read_event:
  assumes "newline \<notin> set n" "newline \<notin> set d"
  shows "sse_read (''event: '' @ n @ newline # ''data: '' @ d @ [newline, newline] @ s) = (n, d) # sse_read s"
proof -
  have "newline \<notin> set (''event: '' @ n)" using assms by (simp add: newline_neq)
  then have "getlines (''event: '' @ n @ newline # ''data: '' @ d @ [newline, newline] @ s)
      = (''event: '' @ n) # (''data: '' @ d) # [] # getlines s"
    using getlines_line [of "''event: '' @ n" "''data: '' @ d @ [newline, newline] @ s"] getlines_data [OF assms(2), of s] by simp
  then show ?thesis by (simp add: sse_read_def field_line_def join_lines_def)
qed

lemma sse_read_ping: "sse_read (ping_event @ s) = sse_read s"
proof -
  have "getlines (ping_event @ s) = '':'' # [] # getlines s"
    using getlines_line [of "'':''" "newline # s"] getlines_line [of "[]" s] by (simp add: ping_event_def newline_neq)
  then show ?thesis by (simp add: sse_read_def field_line_def)
qed

lemma sse_read_done: "sse_read done_event = [([], ''[DONE]'')]"
  using sse_read_data [of "''[DONE]''" "[]"] by (simp add: done_event_def newline_neq)

text \<open>
  The events a result is sent as.  In the Responses format each is an object with its name and its
  data, in the Anthropic format it may be, and otherwise the JSON value itself is the data.
\<close>

definition items :: "json \<Rightarrow> json list" where
  "items j = (case j of JArr js \<Rightarrow> js | _ \<Rightarrow> [j])"

definition event_of :: "task_response_type \<Rightarrow> json \<Rightarrow> (string \<times> json) option" where
  "event_of ty j =
     (if ty = RESPONSE_OAI_RESP \<or> ty = RESPONSE_ANTHROPIC \<and> jfind ''event'' j \<noteq> None \<and> jfind ''data'' j \<noteq> None
      then case (jfind ''event'' j, jfind ''data'' j) of (Some (JStr name), Some d) \<Rightarrow> Some (name, d) | _ \<Rightarrow> None
      else Some ([], j))"

text \<open>The values \<open>js\<close> are the events \<open>evs\<close>.\<close>

definition as_events :: "task_response_type \<Rightarrow> json list \<Rightarrow> (string \<times> json) list \<Rightarrow> bool" where
  "as_events ty js evs \<longleftrightarrow> map (event_of ty) js = map Some evs \<and> (\<forall>(name, d) \<in> set evs. newline \<notin> set name)"

definition event_text :: "(json \<Rightarrow> string) \<Rightarrow> string \<times> json \<Rightarrow> string \<times> string" where
  "event_text dump = (\<lambda>(name, d). (name, dump d))"

lemma as_events_simps [simp]:
  "as_events ty [] evs \<longleftrightarrow> evs = []"
  "as_events ty (j # js) evs \<longleftrightarrow> (\<exists>name d evs'. evs = (name, d) # evs' \<and> event_of ty j = Some (name, d) \<and> newline \<notin> set name \<and> as_events ty js evs')"
  by (cases evs; auto simp: as_events_def)+

lemma as_events_append:
  "as_events ty (js @ js') evs \<longleftrightarrow> (\<exists>es es'. evs = es @ es' \<and> as_events ty js es \<and> as_events ty js' es')"
  unfolding as_events_def map_append append_eq_map_conv by fastforce

lemma sse_event_reads:
  assumes "\<forall>j. newline \<notin> set (dump j)" "newline \<notin> set n"
  shows "sse_read (sse_event dump n d @ s) = (n, dump d) # sse_read s"
  using sse_read_event [of n "dump d" s] assms by (simp add: sse_event_def newline_def)

lemma sse_single_reads: "\<forall>j. newline \<notin> set (dump j) \<Longrightarrow> sse_read (sse_single dump j @ s) = ([], dump j) # sse_read s"
  using sse_read_data [of "dump j" s] by (simp add: sse_single_def newline_def)

lemma single_of_event:
  assumes "event_of ty j = Some (n, d)" "newline \<notin> set n" "\<forall>j. newline \<notin> set (dump j)"
  shows "ty = RESPONSE_OAI_RESP \<Longrightarrow> \<exists>t. resp_sse_single dump j = Inr t \<and> (\<forall>s. sse_read (t @ s) = (n, dump d) # sse_read s)"
    and "ty = RESPONSE_ANTHROPIC \<Longrightarrow> \<exists>t. anthropic_sse_single dump j = Inr t \<and> (\<forall>s. sse_read (t @ s) = (n, dump d) # sse_read s)"
    and "ty \<noteq> RESPONSE_OAI_RESP \<Longrightarrow> ty \<noteq> RESPONSE_ANTHROPIC \<Longrightarrow> sse_read (sse_single dump j @ s) = (n, dump d) # sse_read s"
  using assms sse_event_reads [OF assms(3,2)] sse_single_reads [OF assms(3)]
  by (auto simp: event_of_def resp_sse_single_def anthropic_sse_single_def sse_single_def jcontains_def
      split: if_splits option.splits json.splits)

lemma rconcat_reads:
  assumes "as_events ty js evs"
    and "\<And>j n d. event_of ty j = Some (n, d) \<Longrightarrow> newline \<notin> set n \<Longrightarrow> \<exists>t. f j = Inr t \<and> (\<forall>s. sse_read (t @ s) = (n, dump d) # sse_read s)"
  shows "\<exists>t. rconcat f js = Inr t \<and> (\<forall>s. sse_read (t @ s) = map (event_text dump) evs @ sse_read s)"
  using assms(1)
proof (induction js arbitrary: evs)
  case (Cons j js)
  then obtain n d evs' where e: "evs = (n, d) # evs'" "event_of ty j = Some (n, d)" "newline \<notin> set n" "as_events ty js evs'" by auto
  obtain t where "rconcat f js = Inr t" "\<forall>s. sse_read (t @ s) = map (event_text dump) evs' @ sse_read s"
    using Cons.IH [OF e(4)] by blast
  moreover obtain u where "f j = Inr u" "\<forall>s. sse_read (u @ s) = (n, dump d) # sse_read s"
    using assms(2) [OF e(2,3)] by blast
  ultimately show ?case by (simp add: e(1) event_text_def)
qed simp

lemma rconcat_plain: "rconcat (\<lambda>j. Inr (f j)) js = Inr (concat (map f js))"
  by (induction js) auto

lemma rconcat_single: "rconcat f [j] = f j"
  by (cases "f j") auto

text \<open>What is sent for a result is read back.\<close>

lemma sse_of_reads:
  assumes "\<forall>j. newline \<notin> set (rv_dump E j)" "as_events ty (items j) evs"
  shows "\<exists>t. sse_of E ty j = Inr t \<and> (\<forall>s. sse_read (t @ s) = map (event_text (rv_dump E)) evs @ sse_read s)"
proof -
  define f where "f = (if ty = RESPONSE_ANTHROPIC then anthropic_sse_single (rv_dump E)
    else if ty = RESPONSE_OAI_RESP then resp_sse_single (rv_dump E) else (\<lambda>j. Inr (sse_single (rv_dump E) j)))"
  have "sse_of E ty j = rconcat f (items j)"
    using rconcat_plain [of "sse_single (rv_dump E)"]
    by (cases j) (simp_all add: sse_of_def f_def items_def format_anthropic_sse_def format_oai_resp_sse_def format_oai_sse_def rconcat_single
        del: rconcat.simps)
  moreover have "\<exists>t. f j = Inr t \<and> (\<forall>s. sse_read (t @ s) = (n, rv_dump E d) # sse_read s)"
    if "event_of ty j = Some (n, d)" "newline \<notin> set n" for j n d
    using single_of_event [OF that assms(1)] by (auto simp: f_def)
  ultimately show ?thesis
    using rconcat_reads [OF assms(2), of f "rv_dump E"] by simp
qed

section \<open>A whole stream\<close>

text \<open>The generator, called until it says there is no more; the flag is whether it has ended.\<close>

fun stream_run :: "'c routes_env \<Rightarrow> int \<Rightarrow> task_response_type \<Rightarrow> int \<Rightarrow> stream_call list \<Rightarrow> 'c sse_stream \<Rightarrow> (bool \<times> string \<times> 'c sse_stream) result" where
  "stream_run E now ty interval [] S = Inr (False, [], S)"
| "stream_run E now ty interval (k # ks) S =
     rbind (sse_next E now ty interval k S) (\<lambda>(r, S).
       case r of
         None \<Rightarrow> Inr (False, [], S)
       | Some (False, out) \<Rightarrow> Inr (True, out, S)
       | Some (True, out) \<Rightarrow> rbind (stream_run E now ty interval ks S) (\<lambda>(ended, rest, S). Inr (ended, out @ rest, S)))"

text \<open>
  A call during which the client stays and which returns: its wait ends with a result, or with a ping that
  is due, and not before.
\<close>

definition call_ok :: "int \<Rightarrow> stream_call \<Rightarrow> bool" where
  "call_ok interval k \<longleftrightarrow> \<not> sc_stop k \<and> sc_turns k \<noteq> []
     \<and> (\<forall>(r, stop, t) \<in> set (butlast (sc_turns k)). r = None \<and> \<not> stop \<and> \<not> ping_due interval (sc_start k) t)
     \<and> (case last (sc_turns k) of (r, stop, t) \<Rightarrow> \<not> stop \<and> (r = None \<longrightarrow> ping_due interval (sc_start k) t))"

definition call_result :: "stream_call \<Rightarrow> result_body result_msg option" where
  "call_result k = fst (last (sc_turns k))"

text \<open>The results as they are sent: each is updated by the state of its task, which it updates.\<close>

fun delivered :: "('r \<Rightarrow> 's \<Rightarrow> 'r \<times> 's) \<Rightarrow> 's list \<Rightarrow> 'r result_msg list \<Rightarrow> 'r list" where
  "delivered update ss [] = []"
| "delivered update ss (m # ms) =
     (let (b, s) = update (res_body m) (ss ! res_index m) in b # delivered update (ss[res_index m := s]) ms)"

lemma body_update_cmpl: "is_cmpl (fst (body_update L b s)) = is_cmpl b"
  by (cases b) (simp_all add: case_prod_beta)

lemma turn_result:
  assumes "\<not> res_error m" "res_index m < length (rd_states rd)" "update (res_body m) (rd_states rd ! res_index m) = (b, s)"
  shows "reader_next_turn p update now (Some m) stop rd
    = Inr (Result (m\<lparr>res_body := b\<rparr>), rd\<lparr>rd_states := (rd_states rd)[res_index m := s],
        rd_received := rd_received rd + (if res_stop m then 1 else 0)\<rparr>)"
  using assms by (auto simp: reader_next_turn_def Let_def)

lemma reader_next_quiet:
  assumes "\<forall>(r, stop, t) \<in> set ts. r = None \<and> \<not> stop \<and> \<not> ping_due interval start t"
  shows "reader_next p update now (\<lambda>(stop, t). stop \<or> ping_due interval start t) (ts @ [x]) rd
    = reader_next p update now (\<lambda>(stop, t). stop \<or> ping_due interval start t) [x] rd"
  using assms by (induction ts) (auto simp: reader_next_turn_def)

lemma call_reader:
  assumes "call_ok interval k"
  shows "\<exists>t. (call_result k = None \<longrightarrow> ping_due interval (sc_start k) t)
    \<and> reader_next p update now (\<lambda>(stop, t). stop \<or> ping_due interval (sc_start k) t) (sc_turns k) rd
      = reader_next p update now (\<lambda>(stop, t). stop \<or> ping_due interval (sc_start k) t) [(call_result k, False, t)] rd"
proof -
  obtain r stop t where l: "last (sc_turns k) = (r, stop, t)" by (rule prod_cases3)
  have "sc_turns k = butlast (sc_turns k) @ [(r, stop, t)]"
    using assms l append_butlast_last_id [of "sc_turns k"] by (simp add: call_ok_def)
  moreover have "\<not> stop" "r = None \<longrightarrow> ping_due interval (sc_start k) t"
    using assms l by (auto simp: call_ok_def)
  moreover have "\<forall>(r, stop, t) \<in> set (butlast (sc_turns k)). r = None \<and> \<not> stop \<and> \<not> ping_due interval (sc_start k) t"
    using assms by (simp add: call_ok_def)
  ultimately show ?thesis
    using reader_next_quiet [of "butlast (sc_turns k)" interval "sc_start k" p update now "(r, stop, t)" rd] l
    by (auto simp: call_result_def)
qed

definition end_of_stream :: "task_response_type \<Rightarrow> string" where
  "end_of_stream ty = (if ty \<in> {RESPONSE_NONE, RESPONSE_OAI_RESP, RESPONSE_ANTHROPIC} then [] else done_event)"

lemma stream_ends:
  "\<not> sc_stop k \<Longrightarrow> ss_data S = [] \<Longrightarrow> \<not> has_next (ss_rd S) \<Longrightarrow>
     sse_next E now ty interval k S = Inr (Some (False, end_of_stream ty), S)"
  by (simp add: sse_next_def end_of_stream_def)

lemma stream_ping:
  assumes "call_ok interval k" "ss_data S = []" "has_next (ss_rd S)" "call_result k = None"
  shows "sse_next E now ty interval k S = Inr (Some (True, ping_event), S)"
proof -
  obtain t where "ping_due interval (sc_start k) t"
    "reader_next (rv_params E) (body_update (rv_lib E)) now (\<lambda>(stop, t). stop \<or> ping_due interval (sc_start k) t) (sc_turns k) (ss_rd S)
      = reader_next (rv_params E) (body_update (rv_lib E)) now (\<lambda>(stop, t). stop \<or> ping_due interval (sc_start k) t) [(None, False, t)] (ss_rd S)"
    using call_reader [OF assms(1)] assms(4) by (metis (no_types, lifting))
  then show ?thesis
    using assms by (simp add: sse_next_def call_ok_def reader_next_turn_def)
qed

definition after_result :: "(result_body \<Rightarrow> result_state \<Rightarrow> result_body \<times> result_state) \<Rightarrow> result_body result_msg \<Rightarrow> 'c request_reader \<Rightarrow> 'c request_reader" where
  "after_result update m rd =
     rd\<lparr>rd_states := (rd_states rd)[res_index m := snd (update (res_body m) (rd_states rd ! res_index m))],
        rd_received := rd_received rd + (if res_stop m then 1 else 0)\<rparr>"

lemma stream_item:
  assumes "call_ok interval k" "ss_data S = []" "has_next (ss_rd S)" "call_result k = Some m"
    and "\<not> res_error m" "res_index m < length (rd_states (ss_rd S))" "is_cmpl (res_body m)"
    and "body_to_json (rv_json E) (fst (body_update (rv_lib E) (res_body m) (rd_states (ss_rd S) ! res_index m))) = Inr j"
    and "sse_of E ty j = Inr out"
  shows "sse_next E now ty interval k S
    = Inr (Some (True, out), S\<lparr>ss_rd := after_result (body_update (rv_lib E)) m (ss_rd S)\<rparr>)"
proof -
  obtain b s where u: "body_update (rv_lib E) (res_body m) (rd_states (ss_rd S) ! res_index m) = (b, s)"
    by (rule prod.exhaust)
  have "is_cmpl b" using body_update_cmpl [of "rv_lib E" "res_body m" "rd_states (ss_rd S) ! res_index m"] u assms(7) by simp
  moreover have "body_to_json (rv_json E) b = Inr j" using assms(8) u by simp
  ultimately have r: "stream_result E ty (m\<lparr>res_body := b\<rparr>) = Inr (True, out)"
    using assms(5,9) by (simp add: stream_result_def)
  obtain t where "reader_next (rv_params E) (body_update (rv_lib E)) now (\<lambda>(stop, t). stop \<or> ping_due interval (sc_start k) t) (sc_turns k) (ss_rd S)
      = reader_next (rv_params E) (body_update (rv_lib E)) now (\<lambda>(stop, t). stop \<or> ping_due interval (sc_start k) t) [(Some m, False, t)] (ss_rd S)"
    using call_reader [OF assms(1)] assms(4) by (metis (no_types, lifting))
  then show ?thesis
    using assms(1-3) r turn_result [of m "ss_rd S" "body_update (rv_lib E)" b s] assms(5,6)
    by (simp add: sse_next_def call_ok_def u after_result_def catch_stream_def)
qed

text \<open>The results still to come, for which the reader waits.\<close>

definition awaits :: "result_body result_msg list \<Rightarrow> 'c request_reader \<Rightarrow> bool" where
  "awaits ms rd \<longleftrightarrow> \<not> rd_cancelled rd \<and> rd_received rd + length (filter res_stop ms) = length (rd_ids rd)
     \<and> (ms \<noteq> [] \<longrightarrow> res_stop (last ms))
     \<and> (\<forall>m \<in> set ms. \<not> res_error m \<and> res_index m < length (rd_states rd) \<and> is_cmpl (res_body m))"

lemma awaits_has_next: "awaits ms rd \<Longrightarrow> has_next rd = (ms \<noteq> [])"
  by (cases ms rule: rev_cases) (auto simp: awaits_def has_next_def)

lemma awaits_after: "awaits (m # ms) rd \<Longrightarrow> awaits ms (after_result update m rd)"
  by (auto simp: awaits_def after_result_def split: if_splits)

lemma stream_run_delivers:
  assumes "\<forall>j. newline \<notin> set (rv_dump E j)"
    and "\<forall>k \<in> set ks. call_ok interval k" "\<not> sc_stop last_call" "ss_data S = []"
    and "awaits (List.map_filter call_result ks) (ss_rd S)"
    and "map (body_to_json (rv_json E)) (delivered (body_update (rv_lib E)) (rd_states (ss_rd S)) (List.map_filter call_result ks)) = map Inr js"
    and "as_events ty (concat (map items js)) evs"
  shows "\<exists>out S'. stream_run E now ty interval (ks @ [last_call]) S = Inr (True, out, S')
    \<and> sse_read out = map (event_text (rv_dump E)) evs @ sse_read (end_of_stream ty)"
  using assms(2-7)
proof (induction ks arbitrary: S js evs)
  case Nil
  then have "\<not> has_next (ss_rd S)" "js = []"
    using awaits_has_next [of "[]" "ss_rd S"] by (simp_all add: List.map_filter_simps)
  then show ?case
    using Nil by (simp add: stream_ends)
next
  case (Cons k ks)
  let ?ms = "List.map_filter call_result (k # ks)"
  have k: "call_ok interval k" "\<not> sc_stop k" using Cons.prems(1) by (simp_all add: call_ok_def)
  show ?case
  proof (cases "has_next (ss_rd S)")
    case False
    then have "?ms = []" using awaits_has_next [OF Cons.prems(4)] by simp
    then have "js = []" using Cons.prems(5) by simp
    then show ?thesis
      using stream_ends [OF k(2) Cons.prems(3) False] Cons.prems(6) by simp
  next
    case more: True
    show ?thesis
    proof (cases "call_result k")
      case None
      then have "?ms = List.map_filter call_result ks" by (simp add: List.map_filter_simps)
      then obtain out S' where "stream_run E now ty interval (ks @ [last_call]) S = Inr (True, out, S')"
        "sse_read out = map (event_text (rv_dump E)) evs @ sse_read (end_of_stream ty)"
        using Cons.IH [of S js evs] Cons.prems by auto
      then show ?thesis
        using stream_ping [OF k(1) Cons.prems(3) more None] sse_read_ping by simp
    next
      case (Some m)
      define rest where "rest = List.map_filter call_result ks"
      have ms: "?ms = m # rest" using Some by (simp add: List.map_filter_simps rest_def)
      let ?u = "body_update (rv_lib E) (res_body m) (rd_states (ss_rd S) ! res_index m)"
      let ?S = "S\<lparr>ss_rd := after_result (body_update (rv_lib E)) m (ss_rd S)\<rparr>"
      obtain j js' where js: "js = j # js'" "body_to_json (rv_json E) (fst ?u) = Inr j"
        "map (body_to_json (rv_json E)) (delivered (body_update (rv_lib E)) (rd_states (ss_rd ?S)) rest) = map Inr js'"
        using Cons.prems(5) ms by (cases js) (auto simp: case_prod_beta after_result_def)
      obtain es es' where ev: "evs = es @ es'" "as_events ty (items j) es" "as_events ty (concat (map items js')) es'"
        using Cons.prems(6) js(1) by (auto simp: as_events_append)
      obtain t where t: "sse_of E ty j = Inr t" "\<And>s. sse_read (t @ s) = map (event_text (rv_dump E)) es @ sse_read s"
        using sse_of_reads [OF assms(1) ev(2)] by blast
      have aw: "awaits (m # rest) (ss_rd S)" using Cons.prems(4) ms by simp
      then have m: "\<not> res_error m" "res_index m < length (rd_states (ss_rd S))" "is_cmpl (res_body m)"
        by (simp_all add: awaits_def)
      obtain out S' where "stream_run E now ty interval (ks @ [last_call]) ?S = Inr (True, out, S')"
        "sse_read out = map (event_text (rv_dump E)) es' @ sse_read (end_of_stream ty)"
        using Cons.IH [of ?S js' es'] Cons.prems(1-3) awaits_after [OF aw] js(3) ev(3) by (auto simp: rest_def)
      then show ?thesis
        using stream_item [OF k(1) Cons.prems(3) more Some m js(2) t(1)] t(2) ev(1) by simp
    qed
  qed
qed

text \<open>
  Property C24. A streamed completion reads back in each of the formats, as long as the client stays and no
  result is an error, which ends the stream (\<open>error_ends_stream\<close>): the generator sends the first
  chunk, then every result in the order of arrival, whatever pings come between, and ends after the
  last task's last result, with \<open>[DONE]\<close> exactly once in the formats of OpenAI completions and nothing more
  in the native, the Responses and the Anthropic format.  The client reads the events of the results,
  with their names in the last two formats, each result updated by the state of its own task, and nothing else.
\<close>

theorem completion_stream_reads_back:
  assumes "\<forall>j. newline \<notin> set (rv_dump E j)"
    and "sse_of E ty (JArr first) = Inr (ss_data S)" "as_events ty first evs"
    and "\<not> sc_stop first_call" "\<forall>k \<in> set ks. call_ok interval k" "\<not> sc_stop last_call"
    and "awaits (List.map_filter call_result ks) (ss_rd S)"
    and "map (body_to_json (rv_json E)) (delivered (body_update (rv_lib E)) (rd_states (ss_rd S)) (List.map_filter call_result ks)) = map Inr js"
    and "as_events ty (concat (map items js)) evs'"
  shows "\<exists>out S'. stream_run E now ty interval ((if ss_data S = [] then [] else [first_call]) @ ks @ [last_call]) S = Inr (True, out, S')
    \<and> sse_read out = map (event_text (rv_dump E)) (evs @ evs')
        @ (if ty \<in> {RESPONSE_NONE, RESPONSE_OAI_RESP, RESPONSE_ANTHROPIC} then [] else [([], ''[DONE]'')])"
proof -
  let ?fin = "if ty \<in> {RESPONSE_NONE, RESPONSE_OAI_RESP, RESPONSE_ANTHROPIC} then [] else [([], ''[DONE]'')]"
  have e: "sse_read (end_of_stream ty) = ?fin"
    by (simp add: end_of_stream_def sse_read_done)
  have d: "sse_read (ss_data S @ s) = map (event_text (rv_dump E)) evs @ sse_read s" for s
    using sse_of_reads [OF assms(1), of ty "JArr first" evs] assms(2,3) by (simp add: items_def)
  obtain out S' where run: "stream_run E now ty interval (ks @ [last_call]) (S\<lparr>ss_data := []\<rparr>) = Inr (True, out, S')"
    "sse_read out = map (event_text (rv_dump E)) evs' @ ?fin"
    using stream_run_delivers [OF assms(1,5,6), where S = "S\<lparr>ss_data := []\<rparr>" and js = js and now = now and evs = evs' and ty = ty] assms(7-9)
    unfolding e by auto
  show ?thesis
  proof (cases "ss_data S = []")
    case True
    then have s: "S\<lparr>ss_data := []\<rparr> = S" by (cases S) simp
    have "evs = []" using d [of "[]"] True by simp
    then show ?thesis using run True unfolding s by auto
  next
    case False
    then have "sse_next E now ty interval first_call S = Inr (Some (True, ss_data S), S\<lparr>ss_data := []\<rparr>)"
      using assms(4) by (simp add: sse_next_def)
    then show ?thesis using run d [of out] False by simp
  qed
qed

text \<open>An error among the results is the last event, and there is no \<open>[DONE]\<close> behind it.\<close>

lemma error_ends_stream:
  assumes "call_ok interval k" "ss_data S = []" "has_next (ss_rd S)" "call_result k = Some m" "res_error m"
    and "body_to_json (rv_json E) (res_body m) = Inr j" "ks \<noteq> []"
  shows "\<exists>S'. stream_run E now ty interval (k # ks) S = Inr (True, format_stream_error E ty j, S')"
proof -
  obtain t where "reader_next (rv_params E) (body_update (rv_lib E)) now (\<lambda>(stop, t). stop \<or> ping_due interval (sc_start k) t) (sc_turns k) (ss_rd S)
      = reader_next (rv_params E) (body_update (rv_lib E)) now (\<lambda>(stop, t). stop \<or> ping_due interval (sc_start k) t) [(Some m, False, t)] (ss_rd S)"
    using call_reader [OF assms(1)] assms(4) by (metis (no_types, lifting))
  then show ?thesis
    using assms by (simp add: sse_next_def call_ok_def reader_next_turn_def stream_result_def catch_stream_def Let_def)
qed

definition sample_final :: "nat \<Rightarrow> string \<Rightarrow> cmpl_final" where
  "sample_final index text =
     \<lparr>f_id_slot = 0, f_index = index, f_content = text, f_tokens = [], f_stream = True, f_include_usage = False, f_stats = stats_zero,
      f_prompt = [], f_truncated = False, f_n_decoded = 2, f_n_prompt_tokens = 3, f_n_prompt_tokens_cache = 0, f_n_tokens_cached = 0,
      f_has_new_line = False, f_stopping_word = [], f_stop = STOP_EOS, f_post_sampling_probs = False, f_probs_output = [],
      f_response_fields = [], f_generation_params = sample_params, f_verbose = False, f_res_type = RESPONSE_OAI_CMPL, f_model = ''m'',
      f_cmpl_id = ''c'', f_msg = empty_msg, f_diffs = [], f_is_updated = False, f_resp_id = [], f_resp_reasoning_id = [], f_resp_message_id = []\<rparr>"

definition sample_result :: "int \<Rightarrow> nat \<Rightarrow> result_body \<Rightarrow> result_body result_msg" where
  "sample_result i n b = \<lparr>res_id = i, res_index = n, res_error = False, res_stop = body_is_stop b, res_body = b\<rparr>"

definition sample_chunk :: "result_body result_msg" where
  "sample_chunk = sample_result 1 0 (Partial ((sample_partial ''he'' 1)\<lparr>p_res_type := RESPONSE_OAI_CMPL\<rparr>))"

definition sample_turns :: "(result_body result_msg option \<times> bool \<times> int) list \<Rightarrow> stream_call" where
  "sample_turns ts = \<lparr>sc_stop = False, sc_start = 0, sc_turns = ts\<rparr>"

text \<open>A chunk after a timeout, a ping, and the last results of two tasks, the second task first.\<close>

definition sample_calls :: "stream_call list" where
  "sample_calls =
     [sample_turns [(None, False, 1000), (Some sample_chunk, False, 1500)],
      sample_turns [(None, False, 1000), (None, False, 30001)],
      sample_turns [(Some (sample_result 2 1 (Final (sample_final 1 ''b''))), False, 0)],
      sample_turns [(Some (sample_result 1 0 (Final (sample_final 0 ''llo''))), False, 0)]]"

definition sample_stream :: "unit sse_stream" where
  "sample_stream = \<lparr>ss_data = [],
     ss_rd = \<lparr>rd_ids = [1, 2], rd_received = 0, rd_cancelled = False,
       rd_states = replicate 2 (result_state_init sample_lib [] [] [] sample_parser), rd_queue = queue_init, rd_results = response_init\<rparr>\<rparr>"

lemma sample_dump_line: "newline \<notin> set (sample_dump j)"
  by (auto simp: sample_dump_def newline_def split: option.split json.split list.split)

theorem completion_stream_reads_back_witness:
  "\<exists>out S'. stream_run sample_routes 0 RESPONSE_OAI_CMPL 30 (sample_calls @ [sample_turns []]) sample_stream = Inr (True, out, S')
     \<and> sse_read out = map (Pair []) [''he'', ''b'', ''llo'', ''[DONE]'']"
proof -
  let ?ms = "List.map_filter call_result sample_calls"
  have ms: "?ms = [sample_chunk, sample_result 2 1 (Final (sample_final 1 ''b'')), sample_result 1 0 (Final (sample_final 0 ''llo''))]"
    by (simp add: sample_calls_def sample_turns_def call_result_def List.map_filter_simps)
  let ?ds = "delivered (body_update sample_lib) (rd_states (ss_rd sample_stream)) ?ms"
  let ?js = "map (\<lambda>b. case body_to_json sample_json_env b of Inr j \<Rightarrow> j | Inl _ \<Rightarrow> JNull) ?ds"
  note defs = sample_chunk_def sample_result_def sample_stream_def numeral_2_eq_2 case_prod_beta final_update_def partial_update_def
    final_to_json_def partial_to_json_def sample_final_def sample_partial_def
  have js: "map (body_to_json sample_json_env) ?ds = map Inr ?js"
    unfolding ms by (simp add: defs)
  have "map sample_dump (concat (map items ?js)) = [''he'', ''b'', ''llo'']"
    unfolding ms by (simp add: defs partial_oaicompat_def partial_extras_def final_oaicompat_def final_extras_def items_def sample_dump_def
        stats_is_set_def stats_zero_def newline_def Let_def)
  moreover have "awaits ?ms (ss_rd sample_stream)"
    unfolding ms by (simp add: awaits_def defs)
  moreover have "\<forall>k \<in> set sample_calls. call_ok 30 k"
    by (simp add: sample_calls_def sample_turns_def call_ok_def ping_due_def)
  moreover have "as_events RESPONSE_OAI_CMPL js (map (Pair []) js)" for js
    by (induction js) (simp_all add: event_of_def)
  moreover have "map (event_text sample_dump) (map (Pair []) js) = map (Pair []) (map sample_dump js)" for js
    by (simp add: event_text_def)
  ultimately show ?thesis
    using completion_stream_reads_back [of sample_routes RESPONSE_OAI_CMPL "[]" sample_stream "[]" "sample_turns []" sample_calls 30 "sample_turns []"
        ?js "map (Pair []) (concat (map items ?js))" 0]
      js sample_dump_line
    by (simp add: sample_routes_def sample_turns_def sse_of_def format_oai_sse_def del: map_map) (simp add: sample_stream_def)
qed

text \<open>
  With several prompts in a streamed request each slot announces its start by a chunk without content.
  Only the first result is looked at for it: the start of any other prompt is sent as the event \<open>null\<close>.
\<close>

lemma second_start_is_sent_as_null:
  assumes "call_ok interval k" "ss_data S = []" "has_next (ss_rd S)" "call_result k = Some m" "ty \<noteq> RESPONSE_OAI_RESP" "ty \<noteq> RESPONSE_ANTHROPIC"
    and "\<not> res_error m" "res_index m < length (rd_states (ss_rd S))" "res_body m = Partial p" "p_is_begin p"
  shows "\<exists>S'. sse_next E now ty interval k S = Inr (Some (True, sse_single (rv_dump E) JNull), S')"
proof -
  have "body_to_json (rv_json E) (fst (body_update (rv_lib E) (res_body m) (rd_states (ss_rd S) ! res_index m))) = Inr JNull"
    using assms(9,10) by (simp add: partial_update_def partial_to_json_def)
  then show ?thesis
    using stream_item [OF assms(1-4,7,8), of E JNull ty "sse_single (rv_dump E) JNull" now] assms(5,6,9)
    by (simp add: sse_of_def format_oai_sse_def)
qed

section \<open>The tasks and the answer of a request\<close>

text \<open>\<open>n\<close> new ids from \<open>i\<close> on.\<close>

definition ids_from :: "int \<Rightarrow> nat \<Rightarrow> int list" where
  "ids_from i n = map (\<lambda>k. i + int k) [0..<n]"

lemma ids_from_Cons: "ids_from i (Suc n) = i # ids_from (i + 1) n"
  by (simp add: ids_from_def upt_conv_Cons map_Suc_upt [symmetric] del: upt_Suc)

lemma ids_from_append: "ids_from i (m + n) = ids_from i m @ ids_from (i + int m) n"
  by (induction m arbitrary: i) (simp_all add: ids_from_Cons ac_simps, simp add: ids_from_def)

lemma ids_from_simps [simp]: "length (ids_from i n) = n" "distinct (ids_from i n)"
  by (simp_all add: ids_from_def distinct_map inj_on_def)

lemma add_children_ids:
  "add_children M n t q = (t', q') \<Longrightarrow>
     task_ids t' = task_ids t @ ids_from (q_id q) n \<and> task_id t' = task_id t \<and> tokens t' = tokens t \<and> q_id q' = q_id q + int n"
proof (induction n arbitrary: t q)
  case (Suc n)
  then have "task_ids t' = task_ids (add_child M (task_id t) (q_id q) t) @ ids_from (q_id q + 1) n
      \<and> task_id t' = task_id (add_child M (task_id t) (q_id q) t) \<and> tokens t' = tokens (add_child M (task_id t) (q_id q) t)
      \<and> q_id q' = q_id q + 1 + int n"
    using Suc.IH [of "add_child M (task_id t) (q_id q) t" "q\<lparr>q_id := q_id q + 1\<rparr>"] by (simp add: get_new_id_def)
  then show ?case by (simp add: task_ids_add_child ids_from_Cons) (simp add: add_child_def Let_def)
qed (simp add: ids_from_def)

text \<open>The number of tasks of one prompt.\<close>

definition family_size :: "task_params \<Rightarrow> nat" where
  "family_size p = Suc (nat (n_cmpl p - 1))"

lemma completion_task_ids:
  "completion_task E type ty cid data split ts q = (Inr t, q') \<Longrightarrow>
     \<exists>p. rv_schema E data = Inr p \<and> task_ids t = ids_from (q_id q) (family_size p) \<and> tokens t = ts
       \<and> q_id q' = q_id q + int (family_size p)"
  by (auto simp: completion_task_def get_new_id_def Let_def family_size_def ids_from_Cons task_ids_def new_task_def cancel_task_def
      split: sum.splits prod.splits dest!: add_children_ids)

lemma completion_tasks_ids:
  "completion_tasks E type ty cid data split inputs q = (Inr tasks, q') \<Longrightarrow> rv_schema E data = Inr p \<Longrightarrow>
     concat (map task_ids tasks) = ids_from (q_id q) (length inputs * family_size p) \<and> map tokens tasks = inputs
       \<and> q_id q' = q_id q + int (length inputs * family_size p)"
proof (induction inputs arbitrary: q tasks q')
  case (Cons ts inputs)
  obtain t q1 rest where t: "completion_task E type ty cid data split ts q = (Inr t, q1)"
      and r: "completion_tasks E type ty cid data split inputs q1 = (Inr rest, q')" and tasks: "tasks = t # rest"
    using Cons.prems(1) by (auto split: prod.splits sum.splits)
  show ?case
    using completion_task_ids [OF t] Cons.IH [OF r Cons.prems(2)] Cons.prems(2) tasks
    by (auto simp: ids_from_append algebra_simps)
qed (simp add: ids_from_def)

lemma completion_inputs_nonempty: "completion_inputs E ty prompt files = Inr inputs \<Longrightarrow> inputs \<noteq> []"
  by (auto simp: completion_inputs_def tokenize_input_prompts_def rbind_Inr_iff split: if_splits)

lemma completion_task_schema: "completion_task E type ty cid data split ts q = (Inr t, q') \<Longrightarrow> \<exists>p. rv_schema E data = Inr p"
  using completion_task_ids by blast

lemma post_completion_posts:
  assumes "post_completion E now type ty cid data files rd = Inr rd'"
  shows "\<exists>prompt inputs p. jfind ''prompt'' data = Some prompt \<and> completion_inputs E ty prompt files = Inr inputs \<and> rv_schema E data = Inr p
    \<and> rd_ids rd' = ids_from (q_id (rd_queue rd)) (length inputs * family_size p) \<and> length (rd_states rd') = length (rd_ids rd')
    \<and> rd_received rd' = rd_received rd \<and> rd_cancelled rd' = rd_cancelled rd"
proof -
  obtain prompt inputs split tasks q where p: "jfind ''prompt'' data = Some prompt" "completion_inputs E ty prompt files = Inr inputs"
    "completion_tasks E type ty cid data split inputs (rd_queue rd) = (Inr tasks, q)"
    "reader_post_tasks (rv_state E) now tasks False (rd\<lparr>rd_queue := q\<rparr>) = Inr rd'"
    using assms by (auto simp: post_completion_def json_at_def rbind_Inr_iff split: sum.splits prod.splits option.splits)
  from p(2) obtain ts rest where "inputs = ts # rest" using completion_inputs_nonempty by (cases inputs) blast+
  then obtain t q1 where "completion_task E type ty cid data split ts (rd_queue rd) = (Inr t, q1)"
    using p(3) by (auto split: prod.splits sum.splits)
  then obtain pa where pa: "rv_schema E data = Inr pa" using completion_task_schema by blast
  have "get_list_id tasks = ids_from (q_id (rd_queue rd)) (length inputs * family_size pa)"
    using completion_tasks_ids [OF p(3) pa] by (simp add: get_list_id_def distinct_remdups_id)
  then show ?thesis
    using p(1,2,4) pa by (auto simp: reader_post_tasks_def Let_def case_prod_beta split: if_splits)
qed

text \<open>The family of a prompt as it is posted: the task with id \<open>i\<close> and index \<open>n\<close>, and its children behind it.\<close>

definition family_posted :: "'c routes_env \<Rightarrow> server_task_type \<Rightarrow> task_response_type \<Rightarrow> string \<Rightarrow> json \<Rightarrow> task_params \<Rightarrow> int \<Rightarrow> nat
    \<Rightarrow> 'c server_tokens \<Rightarrow> 'c server_task \<Rightarrow> bool" where
  "family_posted E type ty cid data p i n ts t \<longleftrightarrow>
     task_id t = i \<and> task_index t = n \<and> id_parent t = -1 \<and> tokens t = ts \<and> type_of_task t = type
     \<and> id_slot t = json_value get_int data ''id_slot'' (-1)
     \<and> (\<exists>spans. params t = p\<lparr>message_spans := spans, res_type := ty, oaicompat_cmpl_id := cid, oaicompat_model := mt_model_name (rv_meta E)\<rparr>)
     \<and> length (child_tasks t) = nat (n_cmpl p - 1)
     \<and> (\<forall>j < length (child_tasks t). let c = child_tasks t ! j; s = sp_seed (sampling (params t)) in
          task_id c = i + 1 + int j \<and> task_index c = n + 1 + j \<and> id_parent c = i \<and> tokens c = clone (ie_mtmd (rv_input E)) ts
          \<and> type_of_task c = type
          \<and> params c = (params t)\<lparr>sampling := (sampling (params t))\<lparr>sp_seed := if s = LLAMA_DEFAULT_SEED then s else s + of_nat (Suc j)\<rparr>\<rparr>)"

definition nth_child :: "'c mtmd \<Rightarrow> 'c server_task \<Rightarrow> int \<Rightarrow> nat \<Rightarrow> 'c child_task" where
  "nth_child M t i j =
     (let s = sp_seed (sampling (params t))
      in \<lparr>task_id = i, task_index = 0, id_target = -1, id_slot = -1, id_parent = task_id t,
          params = (params t)\<lparr>sampling := (sampling (params t))\<lparr>sp_seed := if s \<noteq> LLAMA_DEFAULT_SEED then s + (of_nat j + 1) else s\<rparr>\<rparr>,
          tokens = clone M (tokens t), cli = False, cli_prompt = [], cli_files = [], type_of_task = type_of_task t,
          slot_action_of = \<lparr>sa_id_slot = 0, sa_filename = [], sa_filepath = []\<rparr>, metrics_reset_bucket = False, set_lora = []\<rparr>)"

lemma add_child_nth: "add_child M (task_id t) i t = t\<lparr>child_tasks := child_tasks t @ [nth_child M t i (length (child_tasks t))]\<rparr>"
  by (simp add: add_child_def nth_child_def Let_def)

lemma nth_child_more [simp]: "nth_child M (t\<lparr>child_tasks := cs\<rparr>) = nth_child M t"
  by (simp add: nth_child_def fun_eq_iff)

lemma add_children_closed:
  "add_children M n t q = (t\<lparr>child_tasks := child_tasks t @
     map (\<lambda>j. nth_child M t (q_id q + int j) (length (child_tasks t) + j)) [0..<n]\<rparr>, q\<lparr>q_id := q_id q + int n\<rparr>)"
proof (induction n arbitrary: t q)
  case (Suc n)
  then show ?case
    by (simp add: get_new_id_def add_child_nth upt_conv_Cons map_Suc_upt [symmetric] comp_def ac_simps del: upt_Suc)
qed simp

lemma completion_tasks_queue:
  "completion_tasks E type ty cid data split inputs q = (Inr tasks, q') \<Longrightarrow> queue_tasks q' = queue_tasks q"
proof (induction inputs arbitrary: q tasks)
  case (Cons ts inputs)
  obtain t q1 rest where t: "completion_task E type ty cid data split ts q = (Inr t, q1)"
      and r: "completion_tasks E type ty cid data split inputs q1 = (Inr rest, q')"
    using Cons.prems by (auto split: prod.splits sum.splits)
  have "queue_tasks q1 = queue_tasks q"
    using t by (auto simp: completion_task_def get_new_id_def Let_def add_children_closed split: sum.splits)
  then show ?case using Cons.IH [OF r] by simp
qed simp

lemma index_children_nth:
  "index_children mk n cs = (n', cs', ss) \<Longrightarrow>
     length cs' = length cs \<and> n' = n + length cs \<and> (\<forall>j < length cs. cs' ! j = (cs ! j)\<lparr>task_index := n + j\<rparr>)"
proof (induction cs arbitrary: n n' cs' ss)
  case (Cons c cs)
  obtain m ds rs where r: "index_children mk (n + 1) cs = (m, ds, rs)" by (rule prod_cases3)
  then have "cs' = c\<lparr>task_index := n\<rparr> # ds" "n' = m" using Cons.prems by simp_all
  then show ?case using Cons.IH [OF r] by (auto simp: nth_Cons split: nat.split)
qed simp

lemma family_indexed:
  assumes "completion_task E type ty cid data split ts q = (Inr t, q')" "rv_schema E data = Inr p"
    and "index_children mk (n + 1) (child_tasks t) = (n', cs, ss)"
  shows "family_posted E type ty cid data p (q_id q) n ts (t\<lparr>task_index := n, child_tasks := cs\<rparr>) \<and> n' = n + family_size p"
  using assms(1,2) index_children_nth [OF assms(3)]
  by (auto simp: completion_task_def get_new_id_def Let_def add_children_closed family_posted_def family_size_def new_task_def cancel_task_def
      nth_child_def add.assoc [symmetric])

lemma families_indexed:
  assumes "completion_tasks E type ty cid data split inputs q = (Inr tasks, q')" "rv_schema E data = Inr p"
  shows "length (fst (index_tasks mk n tasks)) = length inputs
    \<and> (\<forall>k < length inputs. family_posted E type ty cid data p (q_id q + int (k * family_size p)) (n + k * family_size p) (inputs ! k)
         (fst (index_tasks mk n tasks) ! k))"
  using assms(1)
proof (induction inputs arbitrary: q tasks n)
  case (Cons ts inputs)
  obtain t q1 rest where t: "completion_task E type ty cid data split ts q = (Inr t, q1)"
      and r: "completion_tasks E type ty cid data split inputs q1 = (Inr rest, q')" and tasks: "tasks = t # rest"
    using Cons.prems by (auto split: prod.splits sum.splits)
  obtain n' cs ss where i: "index_children mk (n + 1) (child_tasks t) = (n', cs, ss)" by (rule prod_cases3)
  have q1: "q_id q1 = q_id q + int (family_size p)" using completion_task_ids [OF t] assms(2) by auto
  note h = family_indexed [OF t assms(2) i]
  have x: "fst (index_tasks mk n tasks) = t\<lparr>task_index := n, child_tasks := cs\<rparr> # fst (index_tasks mk n' rest)"
    using i by (simp add: tasks case_prod_beta)
  show ?case
    unfolding x using h Cons.IH [OF r, of n'] q1 by (auto simp: nth_Cons algebra_simps split: nat.split)
qed simp

lemma post_loop_appends:
  "\<forall>t \<in> set ts. task_id t \<noteq> -1 \<and> type_of_task t \<noteq> TASK_CANCEL \<Longrightarrow>
     queue_tasks (snd (post_loop ts False reset q)) = queue_tasks q @ ts"
  by (induction ts arbitrary: reset q) (simp_all add: assign_id_def push_task_def)

lemma post_completion_tasks:
  assumes "post_completion E now type ty cid data files rd = Inr rd'" "type = TASK_COMPLETION \<or> type = TASK_INFILL" "0 \<le> q_id (rd_queue rd)"
    and "completion_inputs E ty prompt files = Inr inputs" "jfind ''prompt'' data = Some prompt" "rv_schema E data = Inr p"
  shows "\<exists>tasks. queue_tasks (rd_queue rd') = queue_tasks (rd_queue rd) @ tasks \<and> length tasks = length inputs
    \<and> (\<forall>k < length inputs. family_posted E type ty cid data p (q_id (rd_queue rd) + int (k * family_size p)) (k * family_size p) (inputs ! k) (tasks ! k))"
proof -
  obtain split tasks q where p: "completion_tasks E type ty cid data split inputs (rd_queue rd) = (Inr tasks, q)"
    "reader_post_tasks (rv_state E) now tasks False (rd\<lparr>rd_queue := q\<rparr>) = Inr rd'"
    using assms(1,4,5) by (auto simp: post_completion_def json_at_def rbind_Inr_iff split: sum.splits prod.splits option.splits)
  let ?ts = "fst (index_tasks (rv_state E) 0 tasks)"
  note f = families_indexed [OF p(1) assms(6), of "rv_state E" 0]
  have ok: "task_id t \<noteq> -1 \<and> type_of_task t \<noteq> TASK_CANCEL" if t: "t \<in> set ?ts" for t
  proof -
    obtain k where "k < length inputs" "t = ?ts ! k" using t f by (metis in_set_conv_nth)
    then have "family_posted E type ty cid data p (q_id (rd_queue rd) + int (k * family_size p)) (0 + k * family_size p) (inputs ! k) t"
      using f by blast
    then have "task_id t = q_id (rd_queue rd) + int (k * family_size p)" "type_of_task t = type"
      by (simp_all only: family_posted_def)
    moreover have "0 \<le> q_id (rd_queue rd) + int (k * family_size p)" using assms(3) by (meson add_nonneg_nonneg of_nat_0_le_iff)
    ultimately show ?thesis using assms(2) by auto
  qed
  have "queue_tasks q = queue_tasks (rd_queue rd)"
    using completion_tasks_queue [OF p(1)] by simp
  moreover have "rd_queue rd' = post_tasks now ?ts False q"
    using p(2) by (auto simp: reader_post_tasks_def Let_def case_prod_beta split: if_splits)
  moreover have "queue_tasks (post_tasks now ?ts False q) = queue_tasks q @ ?ts"
    using post_loop_appends [of ?ts False q] ok by (auto simp: post_tasks_def case_prod_beta)
  ultimately show ?thesis
    using f by (intro exI [of _ ?ts]) simp
qed

lemma results_json_all:
  "list_all2 (\<lambda>r j. \<exists>m. r = Some m \<and> kind (res_body m) \<and> body_to_json J (res_body m) = Inr j) rs js \<Longrightarrow> results_json J kind rs = Inr js"
  by (induction rs js rule: list_all2_induct) auto

lemma body_update_final: "is_final (fst (body_update L b s)) = is_final b"
  by (cases b) (simp_all add: case_prod_beta)

text \<open>
  Property C25. A request that is not streamed posts one family of tasks for each of its prompts, behind
  the tasks of the queue and in the order of the prompts: a task with the tokens of its prompt and the
  parameters of the request, and its children, copies of it but for their random seeds, as many tasks
  as completions were asked for, under consecutive new ids and indexes.  When every task has sent its
  final result, in any order and whatever timeouts lie between, the answer is made of exactly
  the results of these tasks, in the order of the prompts and of the completions of each.
\<close>

theorem completion_answers_every_prompt:
  assumes "type = TASK_COMPLETION \<or> type = TASK_INFILL" "\<not> json_value get_bool data ''stream'' False"
    and "post_completion E now type ty cid data files (create_response P bypass q r) = Inr rd"
    and "\<forall>t \<in> set turns. \<not> snd t" "ms = List.map_filter fst turns"
    and "mset (map res_index ms) = mset [0..<length (rd_ids rd)]"
    and "\<forall>m \<in> set ms. \<not> res_error m \<and> res_stop m \<and> is_final (res_body m)"
    and "\<forall>m \<in> set ms. \<exists>j. body_to_json (rv_json E) (fst (body_update (rv_lib E) (res_body m) (rd_states rd ! res_index m))) = Inr j"
    and "0 \<le> q_id q"
  shows "\<exists>prompt inputs p tasks js rd'. jfind ''prompt'' data = Some prompt \<and> completion_inputs E ty prompt files = Inr inputs
    \<and> rv_schema E data = Inr p
    \<and> queue_tasks (rd_queue rd) = queue_tasks q @ tasks \<and> length tasks = length inputs
    \<and> (\<forall>k < length inputs. family_posted E type ty cid data p (q_id q + int (k * family_size p)) (k * family_size p) (inputs ! k) (tasks ! k))
    \<and> rd_ids rd = ids_from (q_id q) (length inputs * family_size p) \<and> length js = length inputs * family_size p
    \<and> (\<forall>i < length js. \<exists>m \<in> set ms. res_index m = i
         \<and> body_to_json (rv_json E) (fst (body_update (rv_lib E) (res_body m) (rd_states rd ! i))) = Inr (js ! i))
    \<and> handle_completions_impl E now type ty cid data files turns (create_response P bypass q r)
        = rbind (merge_answers ty js) (\<lambda>j. Inr (Ok_json j, rd'))"
proof -
  let ?up = "body_update (rv_lib E)" and ?n = "length (rd_ids rd)" and ?J = "rv_json E"
  obtain prompt inputs p where posted: "jfind ''prompt'' data = Some prompt" "completion_inputs E ty prompt files = Inr inputs"
    "rv_schema E data = Inr p" "rd_ids rd = ids_from (q_id q) (length inputs * family_size p)"
    "length (rd_states rd) = ?n" "rd_received rd = 0" "\<not> rd_cancelled rd"
    using post_completion_posts [OF assms(3)] by (auto simp: create_response_def request_no_sleep_def)
  have q: "q_id (rd_queue (create_response P bypass q r)) = q_id q" "queue_tasks (rd_queue (create_response P bypass q r)) = queue_tasks q"
    by (simp_all add: create_response_def request_no_sleep_def)
  obtain tasks where tasks: "queue_tasks (rd_queue rd) = queue_tasks q @ tasks" "length tasks = length inputs"
    "\<forall>k < length inputs. family_posted E type ty cid data p (q_id q + int (k * family_size p)) (k * family_size p) (inputs ! k) (tasks ! k)"
    using post_completion_tasks [OF assms(3,1) _ posted(2,1,3)] assms(9) unfolding q by blast
  have "distinct (map res_index ms)" "set (map res_index ms) = {i. i < ?n \<and> replicate ?n (None :: result_body result_msg option) ! i = None}" "length ms = ?n"
    using mset_eq_imp_distinct_iff [OF assms(6)] mset_eq_setD [OF assms(6)] mset_eq_length [OF assms(6)] by auto
  then obtain res rd' where w: "wait_for_all (rv_params E) ?up now turns rd = Inr (BatchDone res, rd')" "length res = ?n"
    "\<forall>i < ?n. \<exists>r. res ! i = Some r \<and> filled ?up (rd_states rd) ms i r"
    using wait_loop_collects [OF assms(4,5), of ?n "replicate ?n None" rd "rv_params E" ?up now] assms(7) posted(5-7)
    by (auto simp: wait_for_all_def)
  let ?json = "\<lambda>i m j. body_to_json ?J (fst (?up (res_body m) (rd_states rd ! i))) = Inr j"
  have "\<forall>i < ?n. \<exists>j. \<exists>r. res ! i = Some r \<and> is_final (res_body r) \<and> body_to_json ?J (res_body r) = Inr j
      \<and> (\<exists>m \<in> set ms. res_index m = i \<and> ?json i m j)"
    using w(3) assms(7,8) unfolding filled_def by (fastforce simp: body_update_final)
  then obtain f where f: "\<forall>i < ?n. \<exists>r. res ! i = Some r \<and> is_final (res_body r) \<and> body_to_json ?J (res_body r) = Inr (f i)
      \<and> (\<exists>m \<in> set ms. res_index m = i \<and> ?json i m (f i))"
    by metis
  let ?js = "map f [0..<?n]"
  have "results_json ?J is_final res = Inr ?js"
    by (rule results_json_all) (use f w(2) in \<open>auto simp: list_all2_conv_all_nth\<close>)
  then have "answer_whole E now ty turns rd = rbind (merge_answers ty ?js) (\<lambda>j. Inr (Ok_json j, rd'))"
    using w(1) by (simp add: answer_whole_def batch_json_def)
  then have "handle_completions_impl E now type ty cid data files turns (create_response P bypass q r)
      = rbind (merge_answers ty ?js) (\<lambda>j. Inr (Ok_json j, rd'))"
    using assms(1-3) by (auto simp: handle_completions_impl_def)
  then show ?thesis
    using posted(1-4) tasks f
    by (intro exI [of _ prompt] exI [of _ inputs] exI [of _ p] exI [of _ tasks] exI [of _ ?js] exI [of _ rd'] conjI) auto
qed

definition sample_data :: json where
  "sample_data = JObj [(''prompt'', JStr ''ab'')]"

definition sample_answers :: simple_turns where
  "sample_answers =
     [(Some (sample_result 1 1 (Final (sample_final 1 ''y''))), False), (None, False), (Some (sample_result 0 0 (Final (sample_final 0 ''x''))), False)]"

lemma sample_posted:
  "\<exists>rd. post_completion sample_routes 0 TASK_COMPLETION RESPONSE_OAI_CMPL ''c'' sample_data [] (create_response sample_conf False queue_init response_init)
     = Inr rd \<and> rd_ids rd = [0, 1]"
  by (simp add: post_completion_def sample_routes_def sample_data_def json_at_def completion_inputs_def sample_input_def tokenize_input_prompts_def
      tokenize_input_subprompt_def is_str_def tokenize_mixed_def get_string_def st_of_tokens_def create_response_def sample_conf_def
      completion_task_def get_new_id_def queue_init_def new_task_def cancel_task_def numeral_2_eq_2 sample_params_def add_child_def
      reader_post_tasks_def get_list_id_def task_ids_def Let_def)

theorem completion_answers_every_prompt_witness:
  "\<exists>rd tasks js rd'. post_completion sample_routes 0 TASK_COMPLETION RESPONSE_OAI_CMPL ''c'' sample_data []
      (create_response sample_conf False queue_init response_init) = Inr rd
    \<and> queue_tasks (rd_queue rd) = tasks \<and> length tasks = 1 \<and> task_id (tasks ! 0) = 0 \<and> toks (tokens (tasks ! 0)) = [97, 98]
    \<and> length js = 2 \<and> handle_completions_impl sample_routes 0 TASK_COMPLETION RESPONSE_OAI_CMPL ''c'' sample_data [] sample_answers
       (create_response sample_conf False queue_init response_init) = rbind (merge_answers RESPONSE_OAI_CMPL js) (\<lambda>j. Inr (Ok_json j, rd'))"
proof -
  obtain rd where rd: "post_completion sample_routes 0 TASK_COMPLETION RESPONSE_OAI_CMPL ''c'' sample_data []
      (create_response sample_conf False queue_init response_init) = Inr rd" "rd_ids rd = [0, 1]"
    using sample_posted by blast
  have m: "List.map_filter fst sample_answers
      = [sample_result 1 1 (Final (sample_final 1 ''y'')), sample_result 0 0 (Final (sample_final 0 ''x''))]"
    by (simp add: sample_answers_def List.map_filter_simps)
  have "\<exists>j. body_to_json (rv_json sample_routes) (fst (body_update (rv_lib sample_routes) (Final (sample_final i t)) st)) = Inr j" for i t st
    by (simp add: case_prod_beta final_update_def final_to_json_def sample_final_def)
  then have b: "\<forall>x \<in> set (List.map_filter fst sample_answers).
      \<exists>j. body_to_json (rv_json sample_routes) (fst (body_update (rv_lib sample_routes) (res_body x) (rd_states rd ! res_index x))) = Inr j"
    unfolding m by (simp add: sample_result_def)
  have a: "\<forall>t \<in> set sample_answers. \<not> snd t" by (simp add: sample_answers_def)
  have "mset (map res_index (List.map_filter fst sample_answers)) = mset [0..<length (rd_ids rd)]"
    unfolding m rd(2) by (simp add: sample_result_def upt_rec)
  moreover have "\<forall>x \<in> set (List.map_filter fst sample_answers). \<not> res_error x \<and> res_stop x \<and> is_final (res_body x)"
    unfolding m by (simp add: sample_result_def)
  moreover have "\<not> json_value get_bool sample_data ''stream'' False" by (simp add: sample_data_def json_value_def)
  ultimately obtain prompt inputs p tasks js rd' where r: "jfind ''prompt'' sample_data = Some prompt"
    "completion_inputs sample_routes RESPONSE_OAI_CMPL prompt [] = Inr inputs" "queue_tasks (rd_queue rd) = queue_tasks queue_init @ tasks"
    "length tasks = length inputs"
    "\<forall>k < length inputs. family_posted sample_routes TASK_COMPLETION RESPONSE_OAI_CMPL ''c'' sample_data p
       (q_id queue_init + int (k * family_size p)) (k * family_size p) (inputs ! k) (tasks ! k)"
    "rd_ids rd = ids_from (q_id queue_init) (length inputs * family_size p)" "length js = length inputs * family_size p"
    "handle_completions_impl sample_routes 0 TASK_COMPLETION RESPONSE_OAI_CMPL ''c'' sample_data [] sample_answers
       (create_response sample_conf False queue_init response_init) = rbind (merge_answers RESPONSE_OAI_CMPL js) (\<lambda>j. Inr (Ok_json j, rd'))"
    using completion_answers_every_prompt [OF _ _ rd(1) a refl _ _ b] by (fastforce simp: queue_init_def)
  have "prompt = JStr ''ab''" using r(1) by (simp add: sample_data_def)
  then have i: "inputs = [st_of_tokens [97, 98] False]"
    using r(2) by (simp add: completion_inputs_def sample_routes_def sample_input_def tokenize_input_prompts_def tokenize_input_subprompt_def
        is_str_def tokenize_mixed_def get_string_def)
  have "length js = 2" using r(6,7) rd(2) by (metis (no_types, lifting) ids_from_simps(1) length_Cons list.size(3) One_nat_def Suc_1)
  moreover have "task_id (tasks ! 0) = 0 \<and> toks (tokens (tasks ! 0)) = [97, 98]"
    using r(5) i by (simp add: family_posted_def queue_init_def st_of_tokens_def)
  ultimately show ?thesis
    using rd(1) r(3,4,8) i by (intro exI [of _ rd] exI [of _ tasks] exI [of _ js] exI [of _ rd']) (simp add: queue_init_def)
qed

end
