(* ===== verification/Metrics_Windows.thy ===== *)
theory Metrics_Windows
  imports Routes Context
begin

text \<open>
  The gauges of the metrics page are averages over the time between two scrapes: the server context keeps
  buckets that each scrape empties.  While the server sleeps its context must not be touched, so that the
  page comes from a copy, and the buckets of the context are emptied when it wakes.  This theory puts the
  steps of the server and of the handlers together and shows that nothing is lost, and what is counted twice.
\<close>

section \<open>The server, asleep and awake\<close>

text \<open>
  \<open>mw_looking\<close>: the handlers that found the server asleep and have not yet taken the lock of the cache.
  \<open>mw_log\<close> are the metrics of the pages so far, \<open>mw_late\<close> those of the cached pages that were taken
  when the server was awake again.
\<close>

record 'c windows =
  mw_context :: "'c server_context"
  mw_cache :: route_cache
  mw_asleep :: bool
  mw_looking :: nat
  mw_log :: "server_metrics list"
  mw_late :: "server_metrics list"

text \<open>
  Prompt tokens and finished predictions are counted by an awake server only.  An awake server answers a
  scrape by its task \<open>TASK_METRICS\<close>; a handler that finds the server asleep, at once or while it waits
  for this task, takes the page from the cache, and the server may wake up or fall asleep again before it
  does.  The queue holds its lock over the change of its state and the callback.
\<close>

datatype 'c window_op = Count_prompt nat nat | Count_prediction "'c slot" | Answer "'c server_task" | Look | Cached | Fall_asleep | Wake_up

definition on_metrics :: "(server_metrics \<Rightarrow> server_metrics) \<Rightarrow> 'c windows \<Rightarrow> 'c windows" where
  "on_metrics f s = s\<lparr>mw_context := (mw_context s)\<lparr>metrics := f (metrics (mw_context s))\<rparr>\<rparr>"

definition answer_scrape :: "'c server_task \<Rightarrow> 'c windows \<Rightarrow> 'c windows" where
  "answer_scrape t s =
     s\<lparr>mw_log := mw_log s @ [metrics (mw_context s)],
       mw_context := task_metrics (t\<lparr>metrics_reset_bucket := True\<rparr>) (mw_context s)\<rparr>"

definition cached_scrape :: "'c routes_env \<Rightarrow> 'c windows \<Rightarrow> 'c windows" where
  "cached_scrape E s =
     (let m = ca_metrics (mw_cache s); s = s\<lparr>mw_cache := snd (use_cached_metrics E (mw_cache s)), mw_looking := mw_looking s - 1\<rparr>
      in if mw_asleep s then s\<lparr>mw_log := mw_log s @ [m]\<rparr> else s\<lparr>mw_late := mw_late s @ [m]\<rparr>)"

definition change_sleep :: "'c routes_env \<Rightarrow> bool \<Rightarrow> 'c windows \<Rightarrow> 'c windows" where
  "change_sleep E asleep s =
     (let (m, c) = update_cached_responses E asleep (metrics (mw_context s)) (mw_cache s)
      in s\<lparr>mw_context := (mw_context s)\<lparr>metrics := m\<rparr>, mw_cache := c, mw_asleep := asleep\<rparr>)"

fun window_step :: "'c routes_env \<Rightarrow> 'c window_op \<Rightarrow> 'c windows \<Rightarrow> 'c windows" where
  "window_step E (Count_prompt n t) s = (if mw_asleep s then s else on_metrics (add_prompt n t) s)"
| "window_step E (Count_prediction sl) s = (if mw_asleep s then s else on_metrics (metrics_on_prediction sl) s)"
| "window_step E (Answer t) s = (if mw_asleep s then s else answer_scrape t s)"
| "window_step E Look s = (if mw_asleep s then s\<lparr>mw_looking := mw_looking s + 1\<rparr> else s)"
| "window_step E Cached s = (if mw_looking s = 0 then s else cached_scrape E s)"
| "window_step E Fall_asleep s = (if mw_asleep s then s else change_sleep E True s)"
| "window_step E Wake_up s = (if mw_asleep s then change_sleep E False s else s)"

section \<open>Windows add up\<close>

definition bucket_plus :: "bucket \<Rightarrow> bucket \<Rightarrow> bucket" where
  "bucket_plus a b = \<lparr>b_count = b_count a + b_count b, b_steps = b_steps a + b_steps b, b_time = b_time a + b_time b\<rparr>"

definition bucket_sum :: "bucket list \<Rightarrow> bucket" where
  "bucket_sum bs = foldr bucket_plus bs bucket_zero"

text \<open>The metrics whose buckets the next page shows.\<close>

definition shown_next :: "'c windows \<Rightarrow> server_metrics" where
  "shown_next s = (if mw_asleep s then ca_metrics (mw_cache s) else metrics (mw_context s))"

definition windows_ok :: "'c windows \<Rightarrow> bool" where
  "windows_ok s \<longleftrightarrow>
     bucket_plus (bucket_sum (map prompt_bucket (mw_log s))) (prompt_bucket (shown_next s)) = m_prompt (metrics (mw_context s))
   \<and> bucket_plus (bucket_sum (map predict_bucket (mw_log s))) (predict_bucket (shown_next s)) = m_predict (metrics (mw_context s))
   \<and> (mw_asleep s \<longrightarrow>
        (if ca_should_reset (mw_cache s) then prompt_bucket (ca_metrics (mw_cache s)) = bucket_zero \<and> predict_bucket (ca_metrics (mw_cache s)) = bucket_zero
         else prompt_bucket (metrics (mw_context s)) = prompt_bucket (ca_metrics (mw_cache s))
            \<and> predict_bucket (metrics (mw_context s)) = predict_bucket (ca_metrics (mw_cache s))))"

lemma bucket_plus_zero [simp]: "bucket_plus b bucket_zero = b" "bucket_plus bucket_zero b = b"
  by (simp_all add: bucket_plus_def bucket_zero_def)

lemma bucket_plus_assoc: "bucket_plus (bucket_plus a b) c = bucket_plus a (bucket_plus b c)"
  by (simp add: bucket_plus_def)

lemma bucket_sum_snoc [simp]: "bucket_sum (bs @ [b]) = bucket_plus (bucket_sum bs) b"
  by (induction bs) (simp_all add: bucket_sum_def bucket_plus_assoc)

lemma bucket_plus_add: "bucket_plus a (bucket_add n k t b) = bucket_add n k t (bucket_plus a b)"
  by (simp add: bucket_plus_def bucket_add_def)

lemmas metrics_simps =
  add_prompt_def metrics_on_prediction_def reset_bucket_def task_metrics_def send_to_def Let_def bucket_plus_add

lemma scrape_ok:
  "windows_ok s \<Longrightarrow> \<not> mw_asleep s \<Longrightarrow> windows_ok (answer_scrape t s)"
  "windows_ok s \<Longrightarrow> windows_ok (cached_scrape E s)"
  by (auto simp: windows_ok_def shown_next_def answer_scrape_def cached_scrape_def use_cached_metrics_def metrics_simps split: if_splits)

lemma look_ok: "windows_ok s \<Longrightarrow> windows_ok (s\<lparr>mw_looking := n\<rparr>)"
  by (cases "mw_asleep s") (simp_all add: windows_ok_def shown_next_def)

lemma change_sleep_ok: "windows_ok s \<Longrightarrow> mw_asleep s = (\<not> b) \<Longrightarrow> windows_ok (change_sleep E b s)"
  by (cases b) (auto simp: windows_ok_def shown_next_def change_sleep_def update_cached_responses_def reset_bucket_def split: if_splits)

lemma on_metrics_ok:
  "windows_ok s \<Longrightarrow> \<not> mw_asleep s \<Longrightarrow> windows_ok (on_metrics (add_prompt n t) s)"
  "windows_ok s \<Longrightarrow> \<not> mw_asleep s \<Longrightarrow> windows_ok (on_metrics (metrics_on_prediction sl) s)"
  by (simp_all add: windows_ok_def shown_next_def on_metrics_def metrics_simps)

lemma window_step_ok: "windows_ok s \<Longrightarrow> windows_ok (window_step E op s)"
  by (cases op) (simp_all add: scrape_ok look_ok change_sleep_ok on_metrics_ok)

lemma window_run_ok: "windows_ok s \<Longrightarrow> windows_ok (fold (window_step E) ops s)"
  by (induction ops arbitrary: s) (auto intro: window_step_ok)

text \<open>A late page is that of a handler which saw the server asleep and takes the cached page when it is awake.\<close>

lemma late_only_awake:
  "mw_late (window_step E op s) = mw_late s \<or> op = Cached \<and> \<not> mw_asleep s \<and> 0 < mw_looking s"
  by (cases op) (auto simp: answer_scrape_def cached_scrape_def change_sleep_def on_metrics_def Let_def split: prod.split)

text \<open>
  Property C26. Over any sequence of work, scrapes, and phases of sleep, the windows shown by the pages of
  the awake server and the cached pages of the sleeping one, together with the window still open,
  are exactly what the server counted since its start: no prompt or generated token, step or
  microsecond of them is lost or shown in two windows.  This holds even when a handler that saw the server
  asleep takes its page late, after the wake-up; such a page is the only one that may show a window that
  another page shows too (\<open>late_scrape_counts_twice\<close>).  A window counts as shown when its page is
  made, whether the client still waits for it or not.
\<close>

theorem metrics_windows_partition:
  assumes "\<not> mw_asleep s" "mw_log s = []"
    and "prompt_bucket (metrics (mw_context s)) = m_prompt (metrics (mw_context s))"
    and "predict_bucket (metrics (mw_context s)) = m_predict (metrics (mw_context s))"
    and "s' = fold (window_step E) ops s"
  shows "bucket_plus (bucket_sum (map prompt_bucket (mw_log s'))) (prompt_bucket (shown_next s')) = m_prompt (metrics (mw_context s'))
    \<and> bucket_plus (bucket_sum (map predict_bucket (mw_log s'))) (predict_bucket (shown_next s')) = m_predict (metrics (mw_context s'))"
proof -
  have "windows_ok s"
    using assms(1-4) by (simp add: windows_ok_def shown_next_def bucket_sum_def)
  then have "windows_ok s'"
    unfolding assms(5) by (rule window_run_ok)
  then show ?thesis by (simp add: windows_ok_def)
qed

definition sample_metrics :: server_metrics where
  "sample_metrics = \<lparr>m_t_start = 1, prompt_bucket = bucket_zero, predict_bucket = bucket_zero, m_prompt = bucket_zero, m_predict = bucket_zero,
     m_n_prompt_cached = 0, m_n_tokens_max = 0, m_n_decode = 0, m_n_busy_slots = 0, m_n_draft_tokens = 0, m_n_draft_accepted = 0,
     m_n_draft_verif_steps = 0, m_n_accepted_per_pos = []\<rparr>"

definition sample_windows :: "unit windows" where
  "sample_windows = \<lparr>mw_context = \<lparr>slots = [], prompt_cache_of = None,
       params_base = \<lparr>kv_unified = False, cache_idle_slots = False, lora_adapters = [], g_n_predict = -1, slot_prompt_similarity = 0,
         n_ctx_checkpoints = 0, checkpoint_min_step = 0, cont_batching = True, special_tokens = False\<rparr>,
       n_empty_consecutive = 0, metrics = sample_metrics, tasks_queue = queue_init, results_queue = response_init, dev = [],
       batch = batch_new, n_prompt_queued = 0, t_decode_start = 0, t_prompt_start = 0\<rparr>,
     mw_cache = \<lparr>ca_models = JNull, ca_props = JNull, ca_metrics = sample_metrics, ca_should_reset = False\<rparr>,
     mw_asleep = False, mw_looking = 0, mw_log = [], mw_late = []\<rparr>"

definition sample_scrapes :: "unit window_op list" where
  "sample_scrapes = [Count_prompt 5 7, Answer metrics_task, Count_prompt 2 1, Fall_asleep, Look, Cached, Look, Cached, Wake_up, Count_prompt 1 1]"

theorem metrics_windows_partition_witness:
  "let s = fold (window_step sample_routes) sample_scrapes sample_windows
   in bucket_plus (bucket_sum (map prompt_bucket (mw_log s))) (prompt_bucket (shown_next s)) = m_prompt (metrics (mw_context s))
    \<and> bucket_plus (bucket_sum (map predict_bucket (mw_log s))) (predict_bucket (shown_next s)) = m_predict (metrics (mw_context s))"
  unfolding Let_def
  by (rule metrics_windows_partition [OF _ _ _ _ refl]) (simp_all add: sample_windows_def sample_metrics_def)

lemmas window_simps = sample_windows_def sample_metrics_def answer_scrape_def cached_scrape_def change_sleep_def on_metrics_def
  update_cached_responses_def use_cached_metrics_def metrics_simps bucket_add_def bucket_zero_def

lemma sample_windows_shown:
  "let s = fold (window_step sample_routes) (sample_scrapes @ [Answer metrics_task]) sample_windows
   in map (b_count \<circ> prompt_bucket) (mw_log s) = [5, 2, 0, 1] \<and> mw_late s = []"
  by (simp add: sample_scrapes_def window_simps)

text \<open>
  A handler that saw the server asleep but takes the cached page after the wake-up shows a window that
  the context keeps: the next page shows its tokens again.
\<close>

lemma late_scrape_counts_twice:
  "let s = fold (window_step sample_routes) [Count_prompt 5 7, Fall_asleep, Look, Wake_up, Cached, Answer metrics_task] sample_windows
   in map (b_count \<circ> prompt_bucket) (mw_late s) = [5] \<and> map (b_count \<circ> prompt_bucket) (mw_log s) = [5]
     \<and> b_count (m_prompt (metrics (mw_context s))) = 5"
  by (simp add: window_simps)

end
