(* ===== verification/Http.thy ===== *)
theory Http
  imports Bytes Format Router Tools "HOL-Library.Sublist"
begin

text \<open>
  The HTTP side of the server (server-http.h, server-http.cpp) and the main function (server.cpp): the
  checks every request passes, the translation between the messages of the HTTP library and those of the
  handlers, the prediction route of Google Cloud, the table of routes in both modes, and the order of
  start and stop.  The HTTP library, sockets, and the files of the web interface are outside: a request
  is its parts, a response collects what the code sets.
\<close>

section \<open>Messages\<close>

text \<open>
  A request of the library: \<open>hq_header\<close> is \<open>get_header_value\<close> (the first value, empty if there is none), the
  other headers and parameters are in the order in which the library iterates over them.
\<close>

record 'f form =
  fm_fields :: "(string \<times> string) list"
  fm_files :: "(string \<times> 'f) list"

record 'f lib_req =
  hq_method :: string
  hq_path :: string
  hq_header :: "string \<Rightarrow> string"
  hq_headers :: "(string \<times> string) list"
  hq_params :: "(string \<times> string) list"
  hq_path_params :: "(string \<times> string) list"
  hq_body :: string
  hq_form :: "'f form option"

record lib_res =
  hs_status :: int
  hs_headers :: "(string \<times> string) list"
  hs_content :: "(string \<times> string) option"

definition set_header :: "string \<Rightarrow> string \<Rightarrow> lib_res \<Rightarrow> lib_res" where
  "set_header k v res = res\<lparr>hs_headers := hs_headers res @ [(k, v)]\<rparr>"

definition json_type :: string where
  "json_type = ''application/json; charset=utf-8''"

text \<open>The request and the response of the handlers; \<open>hr_next\<close> is the generator of a streamed response.\<close>

record 'f server_req =
  sq_params :: "(string \<times> string) list"
  sq_headers :: "(string \<times> string) list"
  sq_path :: string
  sq_query :: string
  sq_body :: string
  sq_files :: "(string \<times> 'f) list"

record 'g server_res =
  hr_status :: int
  hr_content_type :: string
  hr_headers :: "(string \<times> string) list"
  hr_data :: string
  hr_next :: "'g option"

definition new_res :: "'g server_res" where
  "new_res = \<lparr>hr_status = 200, hr_content_type = json_type, hr_headers = [], hr_data = [], hr_next = None\<rparr>"

section \<open>Middleware\<close>

text \<open>\<open>hc_assets\<close> are the names of the files of the web interface, \<open>hc_host\<close> the host of a URL (none if the parser throws).\<close>

record http_conf =
  hc_api_keys :: "string list"
  hc_api_prefix :: string
  hc_cors_origins :: string
  hc_cors_credentials :: bool
  hc_cors_methods :: string
  hc_cors_headers :: string
  hc_assets :: "string list"
  hc_host :: "string \<Rightarrow> string option"
  hc_dump :: "json \<Rightarrow> string"

definition origin_is_localhost :: "http_conf \<Rightarrow> string \<Rightarrow> bool" where
  "origin_is_localhost C origin =
     (case hc_host C origin of
        None \<Rightarrow> False
      | Some host \<Rightarrow> host = ''localhost'' \<or> host = ''127.0.0.1'' \<or> host = ''::1'')"

definition frontend_paths :: "http_conf \<Rightarrow> string list" where
  "frontend_paths C = ''/'' # map (\<lambda>name. CHR ''/'' # name) (hc_assets C)"

definition public_endpoints :: "http_conf \<Rightarrow> string list" where
  "public_endpoints C = [''/health'', ''/v1/health''] @ frontend_paths C"

definition error_content :: "http_conf \<Rightarrow> string \<Rightarrow> string \<Rightarrow> int \<Rightarrow> lib_res \<Rightarrow> lib_res" where
  "error_content C msg ty code res =
     res\<lparr>hs_status := code,
         hs_content := Some (hc_dump C (JObj [(''error'', JObj [(''message'', JStr msg), (''type'', JStr ty), (''code'', JInt code)])]), json_type)\<rparr>"

definition bearer :: string where
  "bearer = ''Bearer ''"

text \<open>The key a request presents.\<close>

definition request_key :: "'f lib_req \<Rightarrow> string" where
  "request_key req =
     (let key = hq_header req ''Authorization'';
          key = (if key = [] then hq_header req ''X-Api-Key'' else key)
      in if take (length bearer) key = bearer then drop (length bearer) key else key)"

definition middleware_validate_api_key :: "http_conf \<Rightarrow> 'f lib_req \<Rightarrow> lib_res \<Rightarrow> bool \<times> lib_res" where
  "middleware_validate_api_key C req res =
     (if hc_api_keys C = [] then (True, res)
      else if hq_path req \<in> set (public_endpoints C) then (True, res)
      else if request_key req \<in> set (hc_api_keys C) then (True, res)
      else (False, error_content C ''Invalid API Key'' ''authentication_error'' 401 res))"

definition middleware_server_state :: "http_conf \<Rightarrow> bool \<Rightarrow> 'f lib_req \<Rightarrow> lib_res \<Rightarrow> bool \<times> lib_res" where
  "middleware_server_state C ready req res =
     (if ready then (True, res)
      else if hq_path req \<in> set (frontend_paths C) then (True, res)
      else (False, error_content C ''Loading model'' ''unavailable_error'' 503 res))"

datatype handled = Handled | Unhandled

definition allow_origin :: "http_conf \<Rightarrow> 'f lib_req \<Rightarrow> lib_res \<Rightarrow> lib_res" where
  "allow_origin C req res =
     (let origin = hq_header req ''Origin''
      in if hc_cors_credentials C \<and> hc_cors_origins C = ''*'' then set_header ''Access-Control-Allow-Origin'' origin res
         else if hc_cors_origins C = ''localhost'' then
           (if origin \<noteq> [] \<and> origin_is_localhost C origin then set_header ''Access-Control-Allow-Origin'' origin res else res)
         else set_header ''Access-Control-Allow-Origin'' (hc_cors_origins C) res)"

definition pre_routing :: "http_conf \<Rightarrow> bool \<Rightarrow> 'f lib_req \<Rightarrow> lib_res \<Rightarrow> handled \<times> lib_res" where
  "pre_routing C ready req res =
     (let res = allow_origin C req res
      in if hq_method req = ''OPTIONS'' then
           (Handled, (set_header ''Access-Control-Allow-Headers'' (hc_cors_headers C)
              (set_header ''Access-Control-Allow-Methods'' (hc_cors_methods C)
                (set_header ''Access-Control-Allow-Credentials'' (if hc_cors_credentials C then ''true'' else ''false'') res)))
              \<lparr>hs_content := Some ([], ''text/html'')\<rparr>)
         else case middleware_server_state C ready req res of
           (False, res) \<Rightarrow> (Handled, res)
         | (True, res) \<Rightarrow>
             (case middleware_validate_api_key C req res of
                (False, res) \<Rightarrow> (Handled, res)
              | (True, res) \<Rightarrow> (Unhandled, res)))"

text \<open>The handlers of the library for uncaught exceptions and for errors.\<close>

definition exception_handler :: "string \<Rightarrow> lib_res \<Rightarrow> lib_res" where
  "exception_handler message res = res\<lparr>hs_status := 500, hs_content := Some (message, ''text/plain'')\<rparr>"

definition error_handler :: "http_conf \<Rightarrow> lib_res \<Rightarrow> lib_res" where
  "error_handler C res =
     (if hs_status res = 404
      then res\<lparr>hs_content := Some (hc_dump C (JObj [(''error'', JObj [(''message'', JStr ''File Not Found''), (''type'', JStr ''not_found_error''),
             (''code'', JInt 404)])]), json_type)\<rparr>
      else res)"

text \<open>
  Serving a file of the web interface: \<open>gzip\<close> tells whether the files are compressed, and the file is its
  entity tag, data and type.
\<close>

definition serve_asset :: "bool \<Rightarrow> (string \<times> string \<times> string) option \<Rightarrow> bool \<Rightarrow> string \<Rightarrow> bool \<Rightarrow> 'f lib_req \<Rightarrow> lib_res \<Rightarrow> lib_res" where
  "serve_asset gzip asset isolation cache_control tagged req res =
     (if gzip \<and> \<not> str_contains (hq_header req ''Accept-Encoding'') ''gzip'' then
        res\<lparr>hs_status := 415, hs_content := Some (''Error: gzip is not supported by this browser'', ''text/plain'')\<rparr>
      else
        let res = (if gzip then set_header ''Content-Encoding'' ''gzip'' res else res)
        in case asset of
             None \<Rightarrow> res\<lparr>hs_status := 404\<rparr>
           | Some (etag, data, type) \<Rightarrow>
               let res = (if tagged then set_header ''ETag'' etag res else res);
                   inm = hq_header req ''If-None-Match''
               in if tagged \<and> inm \<noteq> [] \<and> (inm = etag \<or> inm = ''W/'' @ etag) then res\<lparr>hs_status := 304\<rparr>
                  else
                    let res = (if isolation then set_header ''Cross-Origin-Opener-Policy'' ''same-origin''
                                                   (set_header ''Cross-Origin-Embedder-Policy'' ''require-corp'' res) else res)
                    in (set_header ''Cache-Control'' cache_control res)\<lparr>hs_content := Some (data, type)\<rparr>)"

section \<open>Translating requests and responses\<close>

definition get_params :: "'f lib_req \<Rightarrow> (string \<times> string) list" where
  "get_params req =
     fold (\<lambda>(k, v). omap_set k (decode_path_component v)) (hq_path_params req) (fold (\<lambda>(k, v). omap_set k v) (hq_params req) [])"

definition get_headers :: "'f lib_req \<Rightarrow> (string \<times> string) list" where
  "get_headers req = fold (\<lambda>(k, v). omap_set k v) (hq_headers req) []"

definition build_query_string :: "(string \<Rightarrow> string) \<Rightarrow> 'f lib_req \<Rightarrow> string" where
  "build_query_string encode req =
     fold (\<lambda>(k, v) qs. (if qs \<noteq> [] then qs @ ''&'' else qs) @ encode k @ ''='' @ encode v) (hq_params req) []"

text \<open>The text fields of a form as an object: a repeated field becomes an array.\<close>

definition add_field :: "string \<times> string \<Rightarrow> json \<Rightarrow> json" where
  "add_field f j =
     (case jfind (fst f) j of
        None \<Rightarrow> jset (fst f) (JStr (snd f)) j
      | Some (JArr vs) \<Rightarrow> jset (fst f) (JArr (vs @ [JStr (snd f)])) j
      | Some v \<Rightarrow> jset (fst f) (JArr [v, JStr (snd f)]) j)"

definition form_json :: "(string \<times> string) list \<Rightarrow> json" where
  "form_json fs = fold add_field fs (JObj [])"

definition make_request :: "(string \<Rightarrow> string) \<Rightarrow> 'f lib_req \<Rightarrow> 'f server_req" where
  "make_request encode req =
     \<lparr>sq_params = get_params req, sq_headers = get_headers req, sq_path = hq_path req, sq_query = build_query_string encode req,
      sq_body = hq_body req, sq_files = []\<rparr>"

definition make_post_request :: "(json \<Rightarrow> string) \<Rightarrow> (string \<Rightarrow> string) \<Rightarrow> 'f lib_req \<Rightarrow> 'f server_req" where
  "make_post_request dump encode req =
     (case hq_form req of
        None \<Rightarrow> make_request encode req
      | Some form \<Rightarrow> (make_request encode req)
          \<lparr>sq_body := dump (form_json (fm_fields form)), sq_files := fold (\<lambda>(k, f). omap_set k f) (fm_files form) []\<rparr>)"

definition set_headers :: "(string \<times> string) list \<Rightarrow> lib_res \<Rightarrow> lib_res" where
  "set_headers headers res = fold (\<lambda>(k, v). set_header k v) headers res"

text \<open>The response to the library, and the generator that it pulls chunks from, with the type of its content.\<close>

definition process_handler_response :: "'g server_res \<Rightarrow> lib_res \<Rightarrow> lib_res \<times> (string \<times> 'g) option" where
  "process_handler_response response res =
     (let res = res\<lparr>hs_status := hr_status response\<rparr>
      in case hr_next response of
           Some g \<Rightarrow> (set_headers (omap_set ''X-Accel-Buffering'' ''no'' (hr_headers response)) res, Some (hr_content_type response, g))
         | None \<Rightarrow> ((set_headers (hr_headers response) res)\<lparr>hs_content := Some (hr_data response, hr_content_type response)\<rparr>, None))"

text \<open>
  One call of the content provider, for what the generator gave and whether the write succeeded: whether
  the library calls again, what was written, and whether the end was signalled.
\<close>

definition provide_chunk :: "bool \<times> string \<Rightarrow> bool \<Rightarrow> bool \<times> string \<times> bool" where
  "provide_chunk r write_ok =
     (let (has_next, chunk) = r
      in if chunk \<noteq> [] \<and> \<not> write_ok then (False, [], False)
         else (has_next, chunk, \<not> has_next))"

section \<open>The prediction route of Google Cloud\<close>

text \<open>\<open>gcp_params\<close>: \<open>env\<close> is \<open>getenv\<close>.\<close>

definition gcp_getenv :: "(string \<Rightarrow> string option) \<Rightarrow> string \<Rightarrow> string \<Rightarrow> bool \<Rightarrow> string" where
  "gcp_getenv env name dflt ensure_leading_slash =
     (case env name of
        None \<Rightarrow> dflt
      | Some [] \<Rightarrow> dflt
      | Some (c # cs) \<Rightarrow> if ensure_leading_slash \<and> c \<noteq> CHR ''/'' then CHR ''/'' # c # cs else c # cs)"

record gcp_params =
  gp_enabled :: bool
  gp_path_health :: string
  gp_path_predict :: string
  gp_port :: int

definition gcp_params_of :: "(string \<Rightarrow> string option) \<Rightarrow> gcp_params result" where
  "gcp_params_of env =
     (case stoi (gcp_getenv env ''AIP_HTTP_PORT'' ''8080'' False) of
        None \<Rightarrow> Inl (Throw ''stoi'')
      | Some port \<Rightarrow> Inr \<lparr>gp_enabled = (gcp_getenv env ''AIP_MODE'' [] False = ''PREDICTION''),
          gp_path_health = gcp_getenv env ''AIP_HEALTH_ROUTE'' [] True, gp_path_predict = gcp_getenv env ''AIP_PREDICT_ROUTE'' ''/predict'' True,
          gp_port = port\<rparr>)"

text \<open>The exceptions of a handler, by what the callers tell apart.\<close>

datatype thrown = Invalid_arg string | Std_exception string | Other_exception

type_synonym ('f, 'g) handler = "'f server_req \<Rightarrow> thrown + 'g server_res"

text \<open>\<open>emplace\<close> into a map: the first entry of a key stays.\<close>

definition emplace :: "string \<Rightarrow> 'v \<Rightarrow> (string \<times> 'v) list \<Rightarrow> (string \<times> 'v) list" where
  "emplace k v m = (if map_of m k = None then m @ [(k, v)] else m)"

text \<open>The aliases, over the handlers in the order in which the hash table iterates over them.\<close>

definition gcp_aliases :: "(string \<times> 'h) list \<Rightarrow> (string \<times> string) list" where
  "gcp_aliases handlers = fold (\<lambda>(path, _). emplace (path_to_gcp_format path) path) handlers []"

definition error_json :: "string \<Rightarrow> error_type \<Rightarrow> json" where
  "error_json message ty = JObj [(''error'', format_error_response message ty)]"

definition error_res :: "(json \<Rightarrow> string) \<Rightarrow> string \<Rightarrow> error_type \<Rightarrow> 'g server_res" where
  "error_res dump message ty = new_res\<lparr>hr_status := 400, hr_data := dump (error_json message ty)\<rparr>"

text \<open>\<open>None\<close> is a null response; \<open>parse\<close> is \<open>json::parse\<close>.\<close>

definition parse_gcp_predict_response :: "(string \<Rightarrow> json option) \<Rightarrow> 'g server_res option \<Rightarrow> thrown + json" where
  "parse_gcp_predict_response parse res =
     (case res of
        None \<Rightarrow> Inl (Std_exception ''empty response from internal handler'')
      | Some r \<Rightarrow>
          if hr_next r \<noteq> None then Inl (Invalid_arg ''predict route does not support streaming responses'')
          else if hr_data r = [] then Inr JNull
          else case parse (hr_data r) of Some j \<Rightarrow> Inr j | None \<Rightarrow> Inr (JStr (hr_data r)))"

text \<open>The payload of an instance and the format it asks for; \<open>Inl\<close> is the error for this instance.\<close>

definition predict_payload :: "json \<Rightarrow> json + json \<times> string" where
  "predict_payload instance =
     (case instance of
        JObj ms \<Rightarrow>
          (case jfind ''@requestFormat'' instance of
             Some (JStr format) \<Rightarrow>
               let payload = jerase ''@requestFormat'' instance
               in Inr (if jcontains ''stream'' payload then jset ''stream'' (JBool False) payload else payload, format)
           | _ \<Rightarrow> Inl (error_json ''each instance must include a string @requestFormat'' ERROR_INVALID_REQUEST))
      | _ \<Rightarrow> Inl (error_json ''each instance must be a JSON object'' ERROR_INVALID_REQUEST))"

definition predict_path :: "(string \<times> string) list \<Rightarrow> (string \<times> 'h) list \<Rightarrow> string \<Rightarrow> string option" where
  "predict_path aliases handlers format =
     (case map_of aliases format of
        Some path \<Rightarrow> Some path
      | None \<Rightarrow> if map_of handlers format \<noteq> None then Some format else None)"

definition thrown_error :: "thrown \<Rightarrow> json" where
  "thrown_error e =
     (case e of
        Invalid_arg m \<Rightarrow> error_json m ERROR_INVALID_REQUEST
      | Std_exception m \<Rightarrow> error_json m ERROR_SERVER
      | Other_exception \<Rightarrow> error_json ''unknown error'' ERROR_SERVER)"

definition predict_instance :: "(string \<Rightarrow> json option) \<Rightarrow> (json \<Rightarrow> string) \<Rightarrow> string \<Rightarrow> (string \<times> string) list
    \<Rightarrow> (string \<times> ('f, 'g) handler) list \<Rightarrow> 'f server_req \<Rightarrow> json \<Rightarrow> json" where
  "predict_instance parse dump base_path aliases handlers req instance =
     (case predict_payload instance of
        Inl e \<Rightarrow> e
      | Inr (payload, format) \<Rightarrow>
          (case predict_path aliases handlers format of
             None \<Rightarrow> error_json (''no handler registered for @requestFormat: '' @ format) ERROR_INVALID_REQUEST
           | Some path \<Rightarrow>
               (case map_of handlers path of
                  None \<Rightarrow> thrown_error (Std_exception ''unordered_map::at'')
                | Some h \<Rightarrow>
                    (case h (req\<lparr>sq_path := base_path @ path, sq_body := dump payload, sq_files := []\<rparr>) of
                       Inl e \<Rightarrow> thrown_error e
                     | Inr r \<Rightarrow>
                         (case parse_gcp_predict_response parse (Some r) of Inl e \<Rightarrow> thrown_error e | Inr j \<Rightarrow> j)))))"

definition MAX_INSTANCES :: nat where
  "MAX_INSTANCES = 128"

text \<open>The route; its instances run on threads of their own, whose results are collected in order.\<close>

definition predict :: "(string \<Rightarrow> json option) \<Rightarrow> (json \<Rightarrow> string) \<Rightarrow> string \<Rightarrow> string \<Rightarrow> (string \<times> string) list
    \<Rightarrow> (string \<times> ('f, 'g) handler) list \<Rightarrow> 'f server_req \<Rightarrow> 'g server_res" where
  "predict parse dump parse_error base_path aliases handlers req =
     (case parse (sq_body req) of
        None \<Rightarrow> error_res dump parse_error ERROR_INVALID_REQUEST
      | Some (JObj ms) \<Rightarrow>
          (case jfind ''instances'' (JObj ms) of
             Some (JArr instances) \<Rightarrow>
               if length instances > MAX_INSTANCES then
                 error_res dump (''instances array exceeds maximum size of '' @ show_nat MAX_INSTANCES) ERROR_INVALID_REQUEST
               else new_res\<lparr>hr_data := dump (JObj [(''predictions'', JArr (map (predict_instance parse dump base_path aliases handlers req) instances))])\<rparr>
           | _ \<Rightarrow> error_res dump ''request body must include an array field named instances'' ERROR_INVALID_REQUEST)
      | Some _ \<Rightarrow> error_res dump ''request body must be a JSON object'' ERROR_INVALID_REQUEST)"

text \<open>
  \<open>ex_wrapper\<close>: every handler is registered with it and throws nothing.  Its own \<open>try\<close> is about the printing
  of the error, which has no way to fail here.
\<close>

definition ex_wrapper :: "(json \<Rightarrow> string) \<Rightarrow> ('f, 'g) handler \<Rightarrow> 'f server_req \<Rightarrow> 'g server_res" where
  "ex_wrapper dump func req =
     (case func req of
        Inr r \<Rightarrow> r
      | Inl e \<Rightarrow>
          let (error, message) = (case e of Invalid_arg m \<Rightarrow> (ERROR_INVALID_REQUEST, m) | Std_exception m \<Rightarrow> (ERROR_SERVER, m)
                                          | Other_exception \<Rightarrow> (ERROR_SERVER, ''unknown error''));
              data = format_error_response message error
          in new_res\<lparr>hr_status := json_value get_int data ''code'' 500, hr_data := dump (JObj [(''error'', data)])\<rparr>)"

section \<open>The table of routes\<close>

text \<open>The handlers of the model server, and the others that routes are bound to.\<close>

datatype server_member =
    Get_health | Get_metrics | Get_props | Post_props | Get_models | Post_completions | Post_completions_oai | Post_chat_completions
  | Post_control | Post_responses_oai | Post_transcriptions_oai | Post_anthropic_messages | Post_infill | Post_embeddings
  | Post_embeddings_oai | Post_rerank | Post_tokenize | Post_detokenize | Post_apply_template | Post_chat_completions_tok
  | Post_responses_tok_oai | Post_anthropic_count_tokens | Get_lora_adapters | Post_lora_adapters | Get_slots | Post_slots

datatype bound =
    Own server_member | Proxy_get | Proxy_post | Router_props | Router_models
  | Router_models_post | Router_models_load | Router_models_unload | Router_models_sse | Router_models_del
  | Router_stream_get | Router_streams_lookup | Router_stream_delete | Stream_get | Streams_lookup | Stream_delete
  | Cors_get | Cors_post | Tools_get | Tools_post | Disabled | Predict

definition router_override :: "server_member \<Rightarrow> bound" where
  "router_override m =
     (case m of
        Get_health \<Rightarrow> Own Get_health
      | Get_props \<Rightarrow> Router_props
      | Get_models \<Rightarrow> Router_models
      | Get_metrics \<Rightarrow> Proxy_get
      | Get_lora_adapters \<Rightarrow> Proxy_get
      | Get_slots \<Rightarrow> Proxy_get
      | _ \<Rightarrow> Proxy_post)"

record start_opts =
  so_router :: bool
  so_mcp_proxy :: bool
  so_tools :: bool
  so_gcp :: "gcp_params option"

definition member_routes :: "(string \<times> string \<times> server_member) list" where
  "member_routes =
     [(''GET'', ''/health'', Get_health), (''GET'', ''/v1/health'', Get_health), (''GET'', ''/metrics'', Get_metrics),
      (''GET'', ''/props'', Get_props), (''POST'', ''/props'', Post_props), (''GET'', ''/models'', Get_models), (''GET'', ''/v1/models'', Get_models),
      (''POST'', ''/completion'', Post_completions), (''POST'', ''/completions'', Post_completions), (''POST'', ''/v1/completions'', Post_completions_oai),
      (''POST'', ''/chat/completions'', Post_chat_completions), (''POST'', ''/v1/chat/completions'', Post_chat_completions),
      (''POST'', ''/v1/chat/completions/control'', Post_control), (''POST'', ''/v1/responses'', Post_responses_oai),
      (''POST'', ''/responses'', Post_responses_oai), (''POST'', ''/v1/audio/transcriptions'', Post_transcriptions_oai),
      (''POST'', ''/audio/transcriptions'', Post_transcriptions_oai), (''POST'', ''/v1/messages'', Post_anthropic_messages),
      (''POST'', ''/infill'', Post_infill), (''POST'', ''/embedding'', Post_embeddings), (''POST'', ''/embeddings'', Post_embeddings),
      (''POST'', ''/v1/embeddings'', Post_embeddings_oai), (''POST'', ''/rerank'', Post_rerank), (''POST'', ''/reranking'', Post_rerank),
      (''POST'', ''/v1/rerank'', Post_rerank), (''POST'', ''/v1/reranking'', Post_rerank), (''POST'', ''/tokenize'', Post_tokenize),
      (''POST'', ''/detokenize'', Post_detokenize), (''POST'', ''/apply-template'', Post_apply_template),
      (''POST'', ''/chat/completions/input_tokens'', Post_chat_completions_tok), (''POST'', ''/v1/chat/completions/input_tokens'', Post_chat_completions_tok),
      (''POST'', ''/responses/input_tokens'', Post_responses_tok_oai), (''POST'', ''/v1/responses/input_tokens'', Post_responses_tok_oai),
      (''POST'', ''/v1/messages/count_tokens'', Post_anthropic_count_tokens), (''GET'', ''/lora-adapters'', Get_lora_adapters),
      (''POST'', ''/lora-adapters'', Post_lora_adapters), (''GET'', ''/slots'', Get_slots), (''POST'', ''/slots/:id_slot'', Post_slots)]"

text \<open>The routes in the order of their registration, up to the prediction route.\<close>

definition base_routes :: "bool \<Rightarrow> (string \<times> string \<times> bound) list" where
  "base_routes is_router =
     (if is_router then
        [(''POST'', ''/models'', Router_models_post), (''POST'', ''/models/load'', Router_models_load),
         (''POST'', ''/models/unload'', Router_models_unload), (''GET'', ''/models/sse'', Router_models_sse), (''DELETE'', ''/models'', Router_models_del)]
      else [])
     @ map (\<lambda>(m, p, h). (m, p, if is_router then router_override h else Own h)) member_routes
     @ [(''GET'', ''/v1/stream'', if is_router then Router_stream_get else Stream_get),
        (''POST'', ''/v1/streams/lookup'', if is_router then Router_streams_lookup else Streams_lookup),
        (''DELETE'', ''/v1/stream'', if is_router then Router_stream_delete else Stream_delete)]"

text \<open>The handlers by path, as the prediction route sees them: the first of a path stays, whatever its method.\<close>

definition handler_table :: "(string \<times> string \<times> bound) list \<Rightarrow> (string \<times> bound) list" where
  "handler_table routes = fold (\<lambda>(_, p, h). emplace p h) routes []"

text \<open>\<open>register_gcp_compat\<close>; \<open>None\<close> ends the process.\<close>

definition gcp_routes :: "gcp_params option \<Rightarrow> (string \<times> string \<times> bound) list \<Rightarrow> (string \<times> string \<times> bound) list option" where
  "gcp_routes gcp routes =
     (case gcp of
        None \<Rightarrow> Some []
      | Some g \<Rightarrow>
          if \<not> gp_enabled g then Some []
          else if map_of (handler_table routes) (gp_path_predict g) \<noteq> None then None
          else Some ((if gp_path_health g \<noteq> []
                      then map (\<lambda>h. (''GET'', gp_path_health g, h)) (case map_of (handler_table routes) ''/health'' of Some h \<Rightarrow> [h] | None \<Rightarrow> [])
                      else [])
                     @ [(''POST'', gp_path_predict g, Predict)]))"

definition api_routes :: "start_opts \<Rightarrow> (string \<times> string \<times> bound) list option" where
  "api_routes opts =
     map_option (\<lambda>gcp. base_routes (so_router opts) @ gcp
       @ [(''GET'', ''/cors-proxy'', if so_mcp_proxy opts then Cors_get else Disabled), (''POST'', ''/cors-proxy'', if so_mcp_proxy opts then Cors_post else Disabled),
          (''GET'', ''/tools'', if so_tools opts then Tools_get else Disabled), (''POST'', ''/tools'', if so_tools opts then Tools_post else Disabled)])
       (gcp_routes (so_gcp opts) (base_routes (so_router opts)))"

section \<open>Starting and stopping\<close>

text \<open>The parameters the main function adjusts; \<open>sa_fit_min\<close> is \<open>fit_params_min_ctx\<close>, the largest value meaning "not given".\<close>

record startup =
  sa_embedding :: bool
  sa_n_batch :: int
  sa_n_ubatch :: int
  sa_n_parallel :: int
  sa_kv_unified :: bool
  sa_kv_per_slot :: int
  sa_n_ctx :: int
  sa_fit_min :: "32 word"
  sa_model_path :: string
  sa_hf_repo :: string
  sa_docker_repo :: string
  sa_model_name :: string
  sa_aliases :: "string list"

definition is_router_server :: "startup \<Rightarrow> bool" where
  "is_router_server P = (sa_model_path P = [] \<and> sa_hf_repo P = [] \<and> sa_docker_repo P = [])"

definition adjust_params :: "startup \<Rightarrow> startup" where
  "adjust_params P =
     (let P = (if \<not> is_router_server P \<and> sa_embedding P \<and> sa_n_batch P > sa_n_ubatch P then P\<lparr>sa_n_batch := sa_n_ubatch P\<rparr> else P);
          P = (if \<not> is_router_server P \<and> sa_n_parallel P < 0 then P\<lparr>sa_n_parallel := 4, sa_kv_unified := True\<rparr> else P);
          P = (if sa_kv_per_slot P > 0 \<and> sa_n_ctx P = 0 \<and> sa_fit_min P \<noteq> - 1 then P\<lparr>sa_n_ctx := sa_n_parallel P * sa_kv_per_slot P\<rparr> else P)
      in if sa_aliases P = [] \<and> sa_model_name P \<noteq> [] then P\<lparr>sa_aliases := [sa_model_name P]\<rparr> else P)"

datatype child_mode = No_child | Child_normal | Child_download

text \<open>
  How each step of the main function ends; \<open>oc_preset\<close> is the look-up of a remote preset, true if there is
  none to look up.  The loop of the queue goes through \<open>oc_sleeps\<close> phases of sleep and, when
  \<open>oc_stopped_asleep\<close>, is stopped in one more.
\<close>

record outcomes =
  oc_preset :: bool
  oc_http_init :: bool
  oc_router_models :: bool
  oc_routes :: bool
  oc_mcp :: bool
  oc_tools :: bool
  oc_download :: int
  oc_apply :: bool
  oc_http_start :: bool
  oc_startup_models :: bool
  oc_load :: bool
  oc_sleeps :: nat
  oc_stopped_asleep :: bool

datatype action =
    Init_http | Register_routes | Run_download | Apply_models | Start_http | Set_ready | Load_startup_models | Load_model | Update_meta
  | Notify_ready | Run_loop | Unload_model | Reload_model | Leave_sleep | Stop_http | Join_http | Clean_up

text \<open>The router: it serves at once, and lives as long as its HTTP thread.\<close>

definition run_router :: "outcomes \<Rightarrow> action list \<times> int" where
  "run_router out =
     (if \<not> oc_http_start out then ([Start_http, Clean_up], 1)
      else if \<not> oc_startup_models out then ([Start_http, Set_ready, Load_startup_models, Stop_http, Join_http, Clean_up], 1)
      else ([Start_http, Set_ready, Load_startup_models, Join_http, Clean_up], 0))"

text \<open>
  The loop of the queue, as far as it touches the model: at the start of a phase of sleep the model is
  unloaded, at its end it is loaded again, or the process aborts, and then the queue counts as awake.
\<close>

definition sleep_phases :: "nat \<Rightarrow> bool \<Rightarrow> action list" where
  "sleep_phases n stopped_asleep =
     concat (replicate n [Unload_model, Reload_model, Leave_sleep]) @ (if stopped_asleep then [Unload_model] else [])"

text \<open>The model server: it answers that the model is loading until it is, then the queue runs on the main thread.\<close>

definition run_model :: "child_mode \<Rightarrow> outcomes \<Rightarrow> action list \<times> int" where
  "run_model child out =
     (if \<not> oc_http_start out then ([Start_http, Clean_up], 1)
      else if \<not> oc_load out then ([Start_http, Load_model, Clean_up, Join_http], 1)
      else ([Start_http, Load_model, Update_meta, Set_ready] @ (if child \<noteq> No_child then [Notify_ready] else [])
        @ [Run_loop] @ sleep_phases (oc_sleeps out) (oc_stopped_asleep out) @ [Clean_up, Join_http], 0))"

text \<open>The steps that were begun, in order, and the exit code.\<close>

definition llama_server :: "bool \<Rightarrow> bool \<Rightarrow> child_mode \<Rightarrow> outcomes \<Rightarrow> action list \<times> int" where
  "llama_server is_router is_cli child out =
     (if \<not> is_cli \<and> \<not> oc_preset out then ([], 1)
      else if \<not> oc_http_init out then ([Init_http], 1)
      else if is_router \<and> \<not> oc_router_models out then ([Init_http], 1)
      else if \<not> oc_routes out \<or> \<not> oc_mcp out \<or> \<not> oc_tools out then ([Init_http, Register_routes], 1)
      else if child = Child_download then ([Init_http, Register_routes, Run_download], oc_download out)
      else
        let apply_models = (\<not> is_router \<and> \<not> is_cli)
        in if apply_models \<and> \<not> oc_apply out then ([Init_http, Register_routes, Apply_models], 1)
           else
             let (rest, code) = (if is_router then run_router out else run_model child out)
             in ([Init_http, Register_routes] @ (if apply_models then [Apply_models] else []) @ rest, code))"

text \<open>A signal: the first shuts the server down, a second one ends the process at once.\<close>

datatype signal_effect = Shutdown | Exit_now

definition signal_handler :: "bool \<Rightarrow> signal_effect \<times> bool" where
  "signal_handler terminating = (if terminating then (Exit_now, True) else (Shutdown, True))"

section \<open>Which requests reach a handler\<close>

lemma middleware_flags:
  "fst (middleware_validate_api_key C req res)
     \<longleftrightarrow> hc_api_keys C = [] \<or> hq_path req \<in> set (public_endpoints C) \<or> request_key req \<in> set (hc_api_keys C)"
  "fst (middleware_server_state C ready req res) \<longleftrightarrow> ready \<or> hq_path req \<in> set (frontend_paths C)"
  by (simp_all add: middleware_validate_api_key_def middleware_server_state_def)

lemma pre_routing_unhandled:
  "fst (pre_routing C ready req res) = Unhandled \<longleftrightarrow>
     hq_method req \<noteq> ''OPTIONS'' \<and> (ready \<or> hq_path req \<in> set (frontend_paths C))
     \<and> (hc_api_keys C = [] \<or> hq_path req \<in> set (public_endpoints C) \<or> request_key req \<in> set (hc_api_keys C))"
proof -
  let ?res = "allow_origin C req res"
  obtain b r where s: "middleware_server_state C ready req ?res = (b, r)" by (rule prod.exhaust)
  obtain b' r' where v: "middleware_validate_api_key C req r = (b', r')" by (rule prod.exhaust)
  show ?thesis
    using middleware_flags(1) [of C req r] middleware_flags(2) [of C ready req ?res] s v
    by (cases b; cases b') (auto simp: pre_routing_def Let_def)
qed

text \<open>A key as it is sent: alone or as a bearer token, in one header or, when that is empty, in the other.\<close>

definition presents :: "'f lib_req \<Rightarrow> string \<Rightarrow> bool" where
  "presents req key \<longleftrightarrow>
     (let auth = hq_header req ''Authorization''; v = (if auth = [] then hq_header req ''X-Api-Key'' else auth)
      in v = bearer @ key \<or> v = key \<and> take 7 key \<noteq> bearer)"

lemma request_key_presents: "request_key req = key \<longleftrightarrow> presents req key"
proof -
  have "(if take 7 v = bearer then drop 7 v else v) = key \<longleftrightarrow> v = bearer @ key \<or> v = key \<and> take 7 key \<noteq> bearer" for v :: string
  proof (cases "take 7 v = bearer")
    case True
    then have "v = bearer @ drop 7 v" by (metis append_take_drop_id)
    then show ?thesis using True by (auto simp: bearer_def)
  next
    case False
    then have "v \<noteq> bearer @ key" by (auto simp: bearer_def)
    then show ?thesis using False by auto
  qed
  moreover have "length bearer = 7" by (simp add: bearer_def)
  ultimately show ?thesis by (simp only: request_key_def presents_def Let_def)
qed

text \<open>
  Property C27. A request reaches its handler exactly when it is no preflight, the server is ready or the
  path is a file of the web interface, and it presents one of the keys, unless there are none or the path
  is public.  All other requests are answered at once.
\<close>

theorem requests_admitted:
  "fst (pre_routing C ready req res) = Unhandled \<longleftrightarrow>
     hq_method req \<noteq> ''OPTIONS'' \<and> (ready \<or> hq_path req \<in> set (frontend_paths C))
     \<and> (hc_api_keys C = [] \<or> hq_path req \<in> set (public_endpoints C) \<or> (\<exists>key \<in> set (hc_api_keys C). presents req key))"
proof -
  have "request_key req \<in> set (hc_api_keys C) \<longleftrightarrow> (\<exists>key \<in> set (hc_api_keys C). presents req key)"
    by (simp add: request_key_presents [symmetric])
  then show ?thesis by (simp only: pre_routing_unhandled)
qed

text \<open>
  Whether after these steps the model is in memory: a load has returned, since another step was begun
  behind it, and neither a phase of sleep nor the end has begun since; and whether the server sleeps.
\<close>

definition in_memory :: "action list \<Rightarrow> bool" where
  "in_memory as \<longleftrightarrow> (\<exists>us load x vs. as = us @ load # x # vs \<and> load \<in> {Load_model, Reload_model} \<and> {Unload_model, Clean_up} \<inter> set (x # vs) = {})"

definition asleep_now :: "action list \<Rightarrow> bool" where
  "asleep_now as \<longleftrightarrow> (\<exists>us vs. as = us @ Unload_model # vs \<and> Leave_sleep \<notin> set vs)"

definition model_where :: "action list \<Rightarrow> bool" where
  "model_where as \<longleftrightarrow> in_memory as \<or> asleep_now as \<or> Clean_up \<in> set as"

lemma in_memory_more: "in_memory as \<Longrightarrow> x \<noteq> Unload_model \<Longrightarrow> x \<noteq> Clean_up \<Longrightarrow> in_memory (as @ [x])"
  unfolding in_memory_def by (elim exE) (rule exI, rule exI, rule exI, rule exI, auto)

lemma asleep_intro: "asleep_now (as @ [Unload_model])" "asleep_now (as @ [Unload_model, Reload_model])"
  unfolding asleep_now_def by (rule exI [of _ as], auto)+

lemma in_memory_reloaded: "in_memory (as @ [Unload_model, Reload_model, Leave_sleep])"
  unfolding in_memory_def
  by (rule exI [of _ "as @ [Unload_model]"], rule exI [of _ Reload_model], rule exI [of _ Leave_sleep], rule exI [of _ "[]"]) simp

lemma prefix_Cons_cases: "prefix p (x # xs) \<Longrightarrow> p = [] \<or> (\<exists>q. p = x # q \<and> prefix q xs)"
  by (cases p) auto

lemma loop_keeps_model:
  assumes "in_memory as" "prefix p (sleep_phases n b @ [Clean_up, Join_http])"
  shows "model_where (as @ p)"
  using assms
proof (induction n arbitrary: as p)
  case 0
  then show ?case
    by (auto simp: sleep_phases_def model_where_def asleep_intro dest!: prefix_Cons_cases split: if_splits)
next
  case (Suc n)
  then have "prefix p (Unload_model # Reload_model # Leave_sleep # sleep_phases n b @ [Clean_up, Join_http])"
    by (simp add: sleep_phases_def)
  then consider "p = []" | "p = [Unload_model]" | "p = [Unload_model, Reload_model]"
    | q where "p = [Unload_model, Reload_model, Leave_sleep] @ q" "prefix q (sleep_phases n b @ [Clean_up, Join_http])"
    by (auto dest!: prefix_Cons_cases)
  then show ?case
  proof cases
    case 4
    then show ?thesis using Suc.IH [OF in_memory_reloaded [of as]] by simp
  qed (use Suc.prems(1) asleep_intro in \<open>auto simp: model_where_def\<close>)
qed

lemma model_actions:
  "Set_ready \<in> set (fst (llama_server False is_cli child out)) \<Longrightarrow>
     oc_load out \<and> fst (llama_server False is_cli child out)
       = ([Init_http, Register_routes] @ (if is_cli then [] else [Apply_models]) @ [Start_http, Load_model, Update_meta])
         @ Set_ready # (if child \<noteq> No_child then [Notify_ready] else []) @ Run_loop # sleep_phases (oc_sleeps out) (oc_stopped_asleep out) @ [Clean_up, Join_http]"
  by (cases is_cli) (simp_all add: llama_server_def run_model_def Let_def split: if_splits)

lemma prefix_behind:
  assumes "prefix pre (as @ x # bs)" "x \<in> set pre" "x \<notin> set as"
  shows "\<exists>p. pre = as @ x # p \<and> prefix p bs"
  using assms
proof (induction as arbitrary: pre)
  case Nil
  then show ?case by (cases pre) auto
next
  case (Cons a as)
  then show ?case by (cases pre) auto
qed

lemma model_ready:
  assumes "prefix pre (fst (llama_server False is_cli child out))" "Set_ready \<in> set pre"
  shows "oc_load out \<and> Update_meta \<in> set pre \<and> model_where pre"
proof -
  let ?as = "[Init_http, Register_routes] @ (if is_cli then [] else [Apply_models]) @ [Start_http, Load_model, Update_meta]"
  let ?loop = "sleep_phases (oc_sleeps out) (oc_stopped_asleep out) @ [Clean_up, Join_http]"
  have m: "oc_load out" "fst (llama_server False is_cli child out)
      = ?as @ Set_ready # (if child \<noteq> No_child then [Notify_ready] else []) @ Run_loop # ?loop"
    using model_actions [of is_cli child out] set_mono_prefix [OF assms(1)] assms(2) by blast+
  have n: "Set_ready \<notin> set ?as" by simp
  obtain p where p: "pre = ?as @ Set_ready # p" "prefix p ((if child \<noteq> No_child then [Notify_ready] else []) @ Run_loop # ?loop)"
    using prefix_behind [OF assms(1) [unfolded m(2)] assms(2) n] by blast
  have s: "in_memory (?as @ [Set_ready])"
    unfolding in_memory_def
    by (rule exI [of _ "[Init_http, Register_routes] @ (if is_cli then [] else [Apply_models]) @ [Start_http]"], rule exI [of _ Load_model],
        rule exI [of _ Update_meta], rule exI [of _ "[Set_ready]"]) simp
  note i = in_memory_more [OF s, of Notify_ready] in_memory_more [OF s, of Run_loop] in_memory_more [OF in_memory_more [OF s, of Notify_ready], of Run_loop]
  consider "p = []" | "p = [Notify_ready]" | q where "p = Run_loop # q" "prefix q ?loop" | q where "p = Notify_ready # Run_loop # q" "prefix q ?loop"
    using p(2) by (auto dest!: prefix_Cons_cases split: if_splits)
  then have "model_where pre"
  proof cases
    case 3
    then show ?thesis using loop_keeps_model [OF i(2)] p(1) by fastforce
  next
    case 4
    then show ?thesis using loop_keeps_model [OF i(3)] p(1) by fastforce
  qed (use s i p(1) in \<open>simp_all add: model_where_def\<close>)
  then show ?thesis using m(1) p(1) by simp
qed

text \<open>
  Property C28. At any moment of the run of a model server, a request that reaches a handler of the API has
  presented a key if there are keys, and comes after a load that has succeeded and the description of
  the model: neither the early start of the HTTP server nor a failed load lets one through.  From
  then on the model is in memory, unless the server sleeps, when it is unloaded until a request wakes the server up,
  or is being shut down.
\<close>

theorem api_needs_model_and_key:
  assumes "prefix pre (fst (llama_server False is_cli child out))"
    and "fst (pre_routing C (Set_ready \<in> set pre) req res) = Unhandled" "hq_path req \<notin> set (public_endpoints C)"
  shows "oc_load out \<and> Update_meta \<in> set pre \<and> (in_memory pre \<or> asleep_now pre \<or> Clean_up \<in> set pre)
    \<and> (hc_api_keys C = [] \<or> (\<exists>key \<in> set (hc_api_keys C). presents req key))"
proof -
  have "hq_path req \<notin> set (frontend_paths C)" using assms(3) by (simp add: public_endpoints_def)
  then have "Set_ready \<in> set pre" "hc_api_keys C = [] \<or> request_key req \<in> set (hc_api_keys C)"
    using assms(2,3) by (auto simp: pre_routing_unhandled)
  then show ?thesis
    using model_ready [OF assms(1)] by (simp add: model_where_def request_key_presents [symmetric])
qed

definition sample_http :: http_conf where
  "sample_http = \<lparr>hc_api_keys = [''k''], hc_api_prefix = [], hc_cors_origins = ''localhost'', hc_cors_credentials = False, hc_cors_methods = ''GET'',
     hc_cors_headers = ''*'', hc_assets = [''index.html''], hc_host = (\<lambda>s. if s = ''http://localhost:3000'' then Some ''localhost'' else Some ''evil''),
     hc_dump = (\<lambda>_. ''json'')\<rparr>"

definition sample_http_req :: "string \<Rightarrow> string \<Rightarrow> unit lib_req" where
  "sample_http_req path auth = \<lparr>hq_method = ''POST'', hq_path = path, hq_header = (\<lambda>k. if k = ''Authorization'' then auth else []), hq_headers = [],
     hq_params = [], hq_path_params = [], hq_body = [], hq_form = None\<rparr>"

definition sample_lib_res :: lib_res where
  "sample_lib_res = \<lparr>hs_status = 200, hs_headers = [], hs_content = None\<rparr>"

definition all_well :: outcomes where
  "all_well = \<lparr>oc_preset = True, oc_http_init = True, oc_router_models = True, oc_routes = True, oc_mcp = True, oc_tools = True, oc_download = 0, oc_apply = True,
     oc_http_start = True, oc_startup_models = True, oc_load = True, oc_sleeps = 1, oc_stopped_asleep = False\<rparr>"

theorem api_needs_model_and_key_witness:
  "let pre = [Init_http, Register_routes, Apply_models, Start_http, Load_model, Update_meta, Set_ready, Run_loop, Unload_model, Reload_model, Leave_sleep]
   in oc_load all_well \<and> Update_meta \<in> set pre \<and> (in_memory pre \<or> asleep_now pre \<or> Clean_up \<in> set pre)
    \<and> (hc_api_keys sample_http = [] \<or> (\<exists>key \<in> set (hc_api_keys sample_http). presents (sample_http_req ''/completion'' ''Bearer k'') key))"
proof -
  let ?pre = "[Init_http, Register_routes, Apply_models, Start_http, Load_model, Update_meta, Set_ready, Run_loop, Unload_model, Reload_model, Leave_sleep]"
  have "prefix ?pre (fst (llama_server False False No_child all_well))"
    by (simp add: llama_server_def run_model_def all_well_def sleep_phases_def)
  moreover have "fst (pre_routing sample_http (Set_ready \<in> set ?pre) (sample_http_req ''/completion'' ''Bearer k'') sample_lib_res) = Unhandled"
    by (simp add: pre_routing_unhandled sample_http_def sample_http_req_def request_key_def bearer_def)
  moreover have "hq_path (sample_http_req ''/completion'' ''Bearer k'') \<notin> set (public_endpoints sample_http)"
    by (simp add: sample_http_def sample_http_req_def public_endpoints_def frontend_paths_def)
  ultimately show ?thesis
    unfolding Let_def by (rule api_needs_model_and_key)
qed

text \<open>While nothing is loaded, or without the key, the same request is answered with 503 or 401.\<close>

lemma refused_requests:
  "hs_status (snd (pre_routing sample_http False (sample_http_req ''/completion'' ''Bearer k'') sample_lib_res)) = 503"
  "hs_status (snd (pre_routing sample_http True (sample_http_req ''/completion'' ''k2'') sample_lib_res)) = 401"
  by code_simp+

text \<open>Only a localhost origin is reflected in the localhost mode.\<close>

lemma localhost_origins_only:
  assumes "hc_cors_origins C = ''localhost''" "(''Access-Control-Allow-Origin'', v) \<in> set (hs_headers (allow_origin C req res))"
  shows "(''Access-Control-Allow-Origin'', v) \<in> set (hs_headers res) \<or> v = hq_header req ''Origin'' \<and> origin_is_localhost C v"
  using assms by (auto simp: allow_origin_def set_header_def Let_def split: if_splits)

text \<open>The public paths are compared without the prefix of the API, so that with a prefix the health check needs a key.\<close>

lemma prefixed_health_needs_key:
  "fst (pre_routing (sample_http\<lparr>hc_api_prefix := ''/api''\<rparr>) True (sample_http_req ''/api/health'' []) res) = Handled"
proof -
  let ?C = "sample_http\<lparr>hc_api_prefix := ''/api''\<rparr>" and ?req = "sample_http_req ''/api/health'' []"
  have "request_key ?req = []" "hq_path ?req \<notin> set (public_endpoints ?C)" "hc_api_keys ?C = [''k'']"
    by (simp_all add: sample_http_def sample_http_req_def request_key_def bearer_def public_endpoints_def frontend_paths_def)
  then have "fst (pre_routing ?C True ?req res) \<noteq> Unhandled" by (simp add: pre_routing_unhandled)
  then show ?thesis by (cases "fst (pre_routing ?C True ?req res)") simp_all
qed

section \<open>Forms, predictions and routes\<close>

definition field_values :: "string \<Rightarrow> (string \<times> string) list \<Rightarrow> string list" where
  "field_values k fs = map snd (filter (\<lambda>f. fst f = k) fs)"

definition field_json :: "string list \<Rightarrow> json option" where
  "field_json vs = (case vs of [] \<Rightarrow> None | [v] \<Rightarrow> Some (JStr v) | _ \<Rightarrow> Some (JArr (map JStr vs)))"

text \<open>A field of a form is its value, or the array of its values in their order.\<close>

lemma field_json_cases [case_names none one more]:
  "(vs = [] \<Longrightarrow> P) \<Longrightarrow> (\<And>v. vs = [v] \<Longrightarrow> P) \<Longrightarrow> (\<And>v w ws. vs = v # w # ws \<Longrightarrow> P) \<Longrightarrow> P"
  by (cases vs rule: remdups_adj.cases) auto

lemma form_json_find: "\<exists>ms. form_json fs = JObj ms \<and> (\<forall>k. map_of ms k = field_json (field_values k fs))"
proof (induction fs rule: rev_induct)
  case Nil
  then show ?case by (simp add: form_json_def field_values_def field_json_def)
next
  case (snoc f fs)
  then obtain ms where ms: "form_json fs = JObj ms" "\<forall>k. map_of ms k = field_json (field_values k fs)" by blast
  have e: "form_json (fs @ [f]) = add_field f (JObj ms)" using ms(1) by (simp add: form_json_def)
  have v: "field_values k (fs @ [f]) = field_values k fs @ (if fst f = k then [snd f] else [])" for k
    by (simp add: field_values_def)
  show ?case
    unfolding e v using ms(2)
    by (cases "field_values (fst f) fs" rule: field_json_cases)
      (auto simp: add_field_def field_json_def split: list.splits)
qed

text \<open>The routes of a router are its own or proxies: of the model server it keeps the health check alone.\<close>

lemma router_keeps_health_only: "(m, p, Own h) \<in> set (base_routes True) \<Longrightarrow> h = Get_health"
proof -
  assume "(m, p, Own h) \<in> set (base_routes True)"
  then obtain g where "router_override g = Own h" by (auto simp: base_routes_def)
  then show "h = Get_health" by (cases g) (simp_all add: router_override_def)
qed

text \<open>
  A path of the prediction route that names an earlier route ends the process; \<open>/tools\<close> and \<open>/cors-proxy\<close>
  are registered later and are not noticed.
\<close>

lemma predict_path_conflicts:
  "api_routes \<lparr>so_router = False, so_mcp_proxy = False, so_tools = False,
     so_gcp = Some \<lparr>gp_enabled = True, gp_path_health = [], gp_path_predict = ''/slots'', gp_port = 8080\<rparr>\<rparr> = None"
  "\<exists>rs. api_routes \<lparr>so_router = False, so_mcp_proxy = False, so_tools = True,
     so_gcp = Some \<lparr>gp_enabled = True, gp_path_health = [], gp_path_predict = ''/tools'', gp_port = 8080\<rparr>\<rparr> = Some rs
     \<and> (''POST'', ''/tools'', Predict) \<in> set rs \<and> (''POST'', ''/tools'', Tools_post) \<in> set rs"
  by (simp_all add: api_routes_def gcp_routes_def handler_table_def base_routes_def member_routes_def emplace_def)

text \<open>Two paths have the same alias, so that what it means depends on the order in which the table is iterated over.\<close>

lemma alias_depends_on_order:
  "map_of (gcp_aliases [(''/completions'', a), (''/v1/completions'', b)]) ''completions'' = Some ''/completions''"
  "map_of (gcp_aliases [(''/v1/completions'', b), (''/completions'', a)]) ''completions'' = Some ''/v1/completions''"
  by (simp_all add: gcp_aliases_def emplace_def path_to_gcp_format_def)

text \<open>Once the HTTP server was started, the resources are freed exactly once, whatever fails.\<close>

lemma no_clean_up_asleep [simp]: "count_list (sleep_phases n b) Clean_up = 0"
  by (induction n) (simp_all add: sleep_phases_def)

lemma cleaned_up_once:
  "Start_http \<in> set (fst (llama_server is_router is_cli child out)) \<Longrightarrow>
     count_list (fst (llama_server is_router is_cli child out)) Clean_up = 1"
  by (cases is_router; cases is_cli)
    (simp_all add: llama_server_def run_router_def run_model_def Let_def split: if_splits)

text \<open>The exit code is zero exactly if no step failed.\<close>

lemma exit_zero_iff:
  "child \<noteq> Child_download \<Longrightarrow> snd (llama_server is_router is_cli child out) = 0 \<longleftrightarrow>
     (is_cli \<or> oc_preset out) \<and> oc_http_init out \<and> oc_routes out \<and> oc_mcp out \<and> oc_tools out \<and> oc_http_start out
     \<and> (if is_router then oc_router_models out \<and> oc_startup_models out else (is_cli \<or> oc_apply out) \<and> oc_load out)"
  by (cases is_router; cases is_cli; cases "oc_http_init out"; cases "oc_http_start out")
    (auto simp: llama_server_def run_router_def run_model_def Let_def)

end
