(* ===== verification/Spec2Isabelle.thy ===== *)
theory Spec2Isabelle
  imports Prelude Strings Bytes Tokens Json Task Queue Response Cache Results Format Lora Batch Slots Context Schedule Prefill Prompt Decode Frames Round Tools_Io Edit Tools
    Router Router_Run Router_Queue Router_Names Router_Routes Proxy Input Routes Completions Metrics_Windows Http
begin

text \<open>
  The inference server of llama.cpp (\<open>src/llamacpp-upstream/tools/server\<close>), modelled from its C++
  sources.  File names below are relative to that directory.

  \<^bold>\<open>The program.\<close>  An HTTP handler turns a request into tasks and posts them to the task queue
  (\<open>server_queue\<close>).  One thread takes the tasks, in order, and gives them to the server context,
  which keeps a fixed number of slots; a task is launched on a slot, deferred when none is free, or
  answered at once.  When the queue is empty the context does a round (\<open>update_slots\<close>): it shifts
  full contexts, decides what each slot keeps of its cached prompt, fills one batch with the tokens
  of all slots, decodes it in views, samples, checks drafts and sends results.  Results go to the
  result queue (\<open>server_response\<close>), from which the handler reads them (\<open>server_response_reader\<close>) and
  formats them in the dialect of the client.  Prompts that leave a slot may be saved in the prompt
  cache.  Beside the model, the server offers built-in tools over its own two routes.  In router mode
  the server runs one child process per model: it starts them on demand, stops idle ones when too many
  run, lets requests wait for a slot, watches the children through their output, and passes requests
  on to them through a proxy.

  \<^bold>\<open>The theories.\<close>

    \<^item> \<open>Prelude\<close>, \<open>Strings\<close>, \<open>Json\<close>: results with exceptions (\<open>Throw\<close>) and failed assertions
      (\<open>Abort\<close>), bytes, \<open>std::map\<close> as the locale \<open>ordered_map\<close> with its interpretation on association
      lists, \<open>std::string\<close>, and JSON values with \<open>json_value\<close> (server-common.h).
    \<^item> \<open>Bytes\<close>: base64, UTF-8 checks, percent coding (server-common.cpp, server-http.cpp,
      server-models.cpp).
    \<^item> \<open>Tokens\<close>: \<open>server_tokens\<close> (server-common.h, server-common.cpp).  The abstraction is a list of
      segments, text tokens and media chunks; the operations refine list operations on it.
    \<^item> \<open>Task\<close>: \<open>server_task\<close> and its parameters (server-task.h).
    \<^item> \<open>Queue\<close>: \<open>server_queue\<close> with both of its threads as the step relation \<open>queue_step\<close>.
    \<^item> \<open>Response\<close>: \<open>server_response\<close> and \<open>server_response_reader\<close> (server-queue.h, server-queue.cpp);
      the locale \<open>result_queue\<close> is what the reader relies on.
    \<^item> \<open>Cache\<close>: \<open>server_prompt_cache\<close> (server-task.h, server-task.cpp).
    \<^item> \<open>Results\<close>, \<open>Format\<close>: the results with their streaming state, and their JSON in the native, OpenAI
      and Anthropic formats (server-task.h, server-task.cpp, server-common.cpp).
    \<^item> \<open>Lora\<close>, \<open>Batch\<close>, \<open>Slots\<close>, \<open>Context\<close>, \<open>Prefill\<close>, \<open>Decode\<close>: server-context.cpp, in the order adapters,
      \<open>server_batch\<close>, \<open>server_slot\<close> with the text side of a generation, scheduling and tasks,
      \<open>pre_decode\<close>, and the rest of \<open>update_slots\<close>.  \<open>Schedule\<close>, \<open>Prompt\<close>, \<open>Frames\<close> and \<open>Round\<close> hold
      their properties; the locale \<open>kept_relation\<close> of \<open>Frames\<close> carries a relation between states through
      a whole round and is interpreted twice, for the slots and for the batch.
    \<^item> \<open>Tools_Io\<close>, \<open>Edit\<close>, \<open>Tools\<close>: the built-in tools (server-tools.h, server-tools.cpp): reading,
      writing, listing and running on the host or in a container or over ssh, the replacement of text
      in files, and the tools with their HTTP handlers.
    \<^item> \<open>Router\<close>: the registry of models \<open>server_models\<close> with its scheduler and the monitor of the
      children (server-models.h, server-models.cpp), one definition per section under the lock.
      \<open>Router_Run\<close> puts the sections of all threads together as the step relation \<open>router_step\<close> and shows
      how the registry and the processes agree; \<open>Router_Queue\<close> is about the queue for a slot and the
      choice of the models that are stopped, \<open>Router_Names\<close> about names and aliases, and
      \<open>Router_Routes\<close> holds the tracker of conversations, the route handlers and the lines of a child.
    \<^item> \<open>Input\<close>: what a request becomes before it is a task: tokenised prompts of every shape, the
      prompts of infill and rerank, chat parameters with their media files (server-common.cpp).
    \<^item> \<open>Routes\<close>, \<open>Completions\<close>: the handlers \<open>server_routes\<close> (server-context.cpp) over the reader of
      \<open>Response\<close>: what they refuse, the tasks they post, and the answer they make of the results, as
      one JSON value or as a stream of events.  \<open>Metrics_Windows\<close> puts the metrics page together with
      the sleep of the server.
    \<^item> \<open>Proxy\<close>: \<open>server_pipe\<close> (server-common.h), \<open>server_http_proxy\<close> (server-models.cpp) and the CORS
      proxy (server-cors-proxy.h).
    \<^item> \<open>Http\<close>: what stands between the HTTP library and the handlers (server-http.h, server-http.cpp) and
      the main function (server.cpp): the checks of a request, the translation of messages, the table of
      routes in both modes, and the order of start and stop as a list of steps.

  \<^bold>\<open>What is shown.\<close>  For the queues: no task is lost or doubled and the callback never runs twice at a
  time; a stopped reader is silent; every result of a batch arrives at its index.  For the tokens: the
  operations refine the list of segments, and the saved form reads back.  For the cache: its limits,
  and that loading only improves the match.  For the scheduler: a slot has a task exactly when it is
  not idle, running slots are left alone, a parent starts with all of its children or not at all.  For
  the prompt: what a slot keeps of its cache is a proper prefix of the new prompt, the batch gets the
  following tokens at their positions until it is full or the code has a reason to stop, and a context
  shift drops one block, in the memory as in the prompt.  For a round: it ends whatever the library
  answers, in a failed assertion or in a state with well-formed slots, and the check of a draft extends
  the prompt by exactly what was accepted or goes back to the state before it.  For the text: what is streamed is a prefix of what is generated and contains no stop
  word, as long as the limit of indentation is off.  For the formats: the framing events of the streams occur once and in place.  For the tools:
  calls reach the host through \<open>docker exec\<close>, \<open>podman exec\<close> or ssh with the named isolate only, commands reach the remote shell unchanged, edits
  replace what they say and nothing else, and streamed output arrives in order.  For the router: in
  every calm interleaving, without overlapping reloads and overtaken downloads, at most \<open>models_max\<close>
  models run and each has its process (\<open>overlapping_reloads_lose_a_process\<close> shows what happens otherwise);
  in every interleaving the queue matches the requests that wait and idle models that were used longest
  ago make room; a name means one model, unless a late request re-creates an entry under an alias
  (\<open>late_request_shadows_alias\<close>); a waiting request is cancelled exactly when its conversation is; and
  the lines of a child, up to 1 MiB each, do not depend on how the pipe cuts them.  For the proxies: an
  answer arrives with its status, headers and chunks, in order and complete, the rebuilt body reads back,
  and only marked headers leave the CORS proxy.  For the
  input: a chat has one marker per loaded file, and an infill prompt is cut on the right sides.
  For the handlers: every prompt of a request gets its tasks and its place in the answer, a stream without
  errors reads back as the results in order in each format, and the metrics pages lose nothing and show
  nothing twice, but for a cached page taken after the wake-up (\<open>late_scrape_counts_twice\<close>).  For the HTTP
  side: which requests reach a handler, and that those of the API come after a load that succeeded and
  find the model in memory unless the server sleeps or stops.

  \<^bold>\<open>Decisions.\<close>  Ids are unbounded integers, \<open>size_t\<close> is \<open>nat\<close> (its wrap-around is written out where
  an index may be \<open>npos\<close>), tokens are 32-bit words, floating-point numbers are rationals with the
  rounding as a parameter.  What is not under \<open>src\<close> is a function or a record of functions: the
  inference library (its answers are functions of the log of the calls made so far, kept in the
  state), the sampler, the media library, the chat parser, JSON parsing and printing, the operating
  system of the tools.  Undefined behaviour, such as an index out of range, is \<open>Abort\<close>.  One handler
  sees one value of the clock; a round sees two.  A blocking receive is a scan of the queue at each
  wake-up.  \<open>yield_to_queue\<close> is its work alone; that the tasks taken meanwhile change nothing but
  the results and the buckets of the metrics is the property \<open>yielding_reads_only\<close>.  In the router a section under the lock is
  one step, a wait on the condition variable is a guard, processes are numbers, and what a child
  writes is any sequence of reads.  Several reloads may overlap, and a download checks its name in one
  step and starts in a later one, as in the code; what needs their absence is stated over
  \<open>calm_run\<close>, the runs without such steps.

  \<^bold>\<open>Termination.\<close>  Loops over data are structural or have a measure.  The retry loop of a round is a
  \<open>partial_function\<close>, and that it returns is the property \<open>update_slots_returns\<close>; each failed attempt
  halves the view or clears an idle slot, so there are finitely many.  A listing walks as long as its
  number of clock readings before the deadline lasts.

  \<^bold>\<open>Not modelled.\<close>  Loading of models, the HTTP library with its sockets and TLS, the command line, the side of a child process in router mode (its arguments and its
  output), the sampling parameters of a request (server-schema, not among these sources), chat templates (a library), log output, Windows
  branches, and everything outside of the C++ server: they are libraries, glue or other languages.
\<close>

end
